(* ===== verification/Prelude.thy ===== *)
theory Prelude
  imports Complex_Main "HOL-Library.AList" "HOL-Library.Char_ord" "HOL-Library.List_Lexorder"
    "HOL-Library.Product_Lexorder" "HOL-Library.Multiset"
begin

section \<open>Shared vocabulary of the Lumilake model\<close>

text \<open>
  The Python constructs that every component uses, and the generic lemmas about them.
  \<^item> A \<open>dict\<close> is an association list in insertion order: \<open>map_of\<close> is the lookup,
    \<open>AList.update\<close> stores in place or appends (exactly what \<open>d[k] = v\<close> does), and
    \<open>AList.delete\<close> removes.
  \<^item> A Python \<open>float\<close> is a real number: rounding, NaN and infinities are not modelled;
    \<open>float("inf")\<close> used as "no value yet" is \<open>None\<close>.
  \<^item> A Python \<open>str\<close> is a \<open>string\<close> of ASCII characters, ordered by code point.
  \<^item> \<open>sorted(xs, key=f)\<close> is \<open>sort_key f xs\<close>; both are stable.
  \<^item> A raise is a value \<open>Inl e\<close> of a sum type.
\<close>

named_theorems jm_simps \<open>unfolding rules of the job manager's operations\<close>
named_theorems inv_intros \<open>preservation lemmas of the components' invariants\<close>

datatype py_error =
    ValueError string
  | KeyError string
  | RuntimeError string
  | IndexError

type_synonym 'a result = "py_error + 'a"
type_synonym ('k, 'v) dict = "('k \<times> 'v) list"

text \<open>JSON-like values, the \<open>Any\<close> of the source's \<open>dict[str, Any]\<close> specs.\<close>

datatype json =
    JNull
  | JBool bool
  | JInt int
  | JFloat real
  | JStr string
  | JList "json list"
  | JDict "(string \<times> json) list"

subsection \<open>Strings\<close>

definition char_code :: "char \<Rightarrow> nat" where
  "char_code c = of_char c"

definition lower_char :: "char \<Rightarrow> char" where
  "lower_char c =
     (if 65 \<le> char_code c \<and> char_code c \<le> 90 then char_of (char_code c + 32) else c)"

text \<open>\<open>s.lower()\<close> and \<open>s.strip()\<close> on ASCII strings.\<close>

definition py_lower :: "string \<Rightarrow> string" where
  "py_lower s = map lower_char s"

definition is_space :: "char \<Rightarrow> bool" where
  "is_space c = (let n = char_code c in (9 \<le> n \<and> n \<le> 13) \<or> (28 \<le> n \<and> n \<le> 32))"

definition is_digit :: "char \<Rightarrow> bool" where
  "is_digit c = (48 \<le> char_code c \<and> char_code c \<le> 57)"

definition is_word :: "char \<Rightarrow> bool" where
  "is_word c = (is_digit c \<or> (65 \<le> char_code c \<and> char_code c \<le> 90)
      \<or> (97 \<le> char_code c \<and> char_code c \<le> 122) \<or> char_code c = 95)"

definition py_strip :: "string \<Rightarrow> string" where
  "py_strip s = rev (dropWhile is_space (rev (dropWhile is_space s)))"

text \<open>\<open>x or y\<close> for an optional string: both \<open>None\<close> and the empty string are falsy.\<close>

definition or_default :: "string option \<Rightarrow> string \<Rightarrow> string" where
  "or_default x y = (case x of None \<Rightarrow> y | Some s \<Rightarrow> if s = [] then y else s)"

definition digit_val :: "char \<Rightarrow> nat" where
  "digit_val c = char_code c - 48"

fun nat_of_digits :: "nat \<Rightarrow> string \<Rightarrow> nat" where
  "nat_of_digits acc [] = acc"
| "nat_of_digits acc (c # cs) = nat_of_digits (acc * 10 + digit_val c) cs"

text \<open>\<open>str(n)\<close> of an integer.\<close>

fun nat_str :: "nat \<Rightarrow> string" where
  "nat_str n = (if n < 10 then [char_of (48 + n)] else nat_str (n div 10) @ [char_of (48 + n mod 10)])"

declare nat_str.simps [simp del]

definition int_str :: "int \<Rightarrow> string" where
  "int_str i = (if i < 0 then CHR ''-'' # nat_str (nat (- i)) else nat_str (nat i))"

text \<open>\<open>min(xs, key=f)\<close>: the first element whose key is least.\<close>

fun min_by :: "('a \<Rightarrow> 'k::linorder) \<Rightarrow> 'a \<Rightarrow> 'a list \<Rightarrow> 'a" where
  "min_by f b [] = b"
| "min_by f b (y # ys) = min_by f (if f y < f b then y else b) ys"

text \<open>\<open>xs.append(x)\<close> guarded by \<open>x not in xs\<close>.\<close>

definition append_new :: "'a list \<Rightarrow> 'a \<Rightarrow> 'a list" where
  "append_new xs x = (if x \<in> set xs then xs else xs @ [x])"

text \<open>\<open>d.setdefault(k, []).append(v)\<close>.\<close>

definition push_group :: "'k \<Rightarrow> 'v \<Rightarrow> ('k, 'v list) dict \<Rightarrow> ('k, 'v list) dict" where
  "push_group k v d =
     (case map_of d k of None \<Rightarrow> d @ [(k, [v])] | Some vs \<Rightarrow> AList.update k (vs @ [v]) d)"

text \<open>\<open>math.ceil(a / b)\<close> of two natural numbers, \<open>b > 0\<close>.\<close>

definition ceil_div :: "nat \<Rightarrow> nat \<Rightarrow> nat" where
  "ceil_div a b = (a + b - 1) div b"

text \<open>\<open>d.get(k, v)\<close>.\<close>

definition dict_get :: "('k, 'v) dict \<Rightarrow> 'k \<Rightarrow> 'v \<Rightarrow> 'v" where
  "dict_get d k v = (case map_of d k of None \<Rightarrow> v | Some x \<Rightarrow> x)"

subsection \<open>Generic lemmas\<close>

lemma min_by_in: "min_by f b ys \<in> insert b (set ys)"
proof (induction ys arbitrary: b)
  case Nil
  then show ?case by simp
next
  case (Cons y ys)
  have "min_by f (if f y < f b then y else b) ys
      \<in> insert (if f y < f b then y else b) (set ys)" by (rule Cons.IH)
  then show ?case by (auto split: if_splits)
qed

lemma min_by_le: "x \<in> insert b (set ys) \<Longrightarrow> f (min_by f b ys) \<le> f x"
proof (induction ys arbitrary: b x)
  case Nil
  then show ?case by simp
next
  case (Cons y ys)
  let ?b = "if f y < f b then y else b"
  have b: "f (min_by f ?b ys) \<le> f ?b" by (rule Cons.IH) simp
  consider "x = b" | "x = y" | "x \<in> set ys" using Cons.prems by auto
  then show ?case
  proof cases
    case 1
    with b show ?thesis by (auto split: if_splits)
  next
    case 2
    with b show ?thesis by (auto split: if_splits)
  next
    case 3
    then have "f (min_by f ?b ys) \<le> f x" by (intro Cons.IH) simp
    then show ?thesis by simp
  qed
qed

lemma set_append_new [simp]: "set (append_new xs x) = insert x (set xs)"
  by (auto simp: append_new_def)

lemma distinct_append_new [simp]: "distinct (append_new xs x) = distinct xs"
  by (auto simp: append_new_def)

lemma distinct_remove1_length:
  "x \<in> set xs \<Longrightarrow> length (remove1 x xs) = length xs - 1"
  by (simp add: length_remove1)

lemma set_take_sort_key: "set (take n (sort_key f xs)) \<subseteq> set xs"
  by (metis set_sort set_take_subset)

lemma distinct_map_take: "distinct (map f xs) \<Longrightarrow> distinct (map f (take n xs))"
  by (simp flip: take_map)

lemma distinct_map_sort_key: "distinct (map f (sort_key g xs)) = distinct (map f xs)"
  by (metis mset_map mset_sort distinct_count_atmost_1 mset_eq_imp_distinct_iff)

text \<open>A prefix of a list sorted by a key holds the least keys.\<close>

lemma sorted_take_drop_le:
  assumes "sorted (map f xs)" "x \<in> set (take n xs)" "y \<in> set (drop n xs)"
  shows "f x \<le> f y"
proof -
  have "sorted (map f (take n xs) @ map f (drop n xs))"
    using assms(1) by (simp flip: map_append)
  then show ?thesis using assms(2,3) by (auto simp: sorted_append)
qed

lemma set_drop_complement:
  assumes "distinct (map f xs)" "y \<in> set xs" "f y \<notin> set (map f (take n xs))"
  shows "y \<in> set (drop n xs)"
  using assms by (metis Un_iff append_take_drop_id imageI image_set set_append)

lemma count_list_repl [simp]: "count_list (replicate k x) v = (if x = v then k else 0)"
  by (induction k) auto

lemma sum_count_Cons:
  "finite S \<Longrightarrow> (\<Sum>p\<in>S. count_list (q # ps) p)
     = (\<Sum>p\<in>S. count_list ps p) + (if q \<in> S then 1 else 0)"
proof -
  assume S: "finite S"
  have "(\<Sum>p\<in>S. count_list (q # ps) p) = (\<Sum>p\<in>S. count_list ps p + (if q = p then 1 else 0))"
    by (rule sum.cong) auto
  then show ?thesis using S by (simp add: sum.distrib)
qed

lemma map_of_filter_key:
  "map_of (filter (\<lambda>p. P (fst p)) xs) k = (if P k then map_of xs k else None)"
  by (induction xs) auto

lemma ceil_div_bounds:
  assumes "0 < b"
  shows "a \<le> ceil_div a b * b" and "0 < a \<Longrightarrow> (ceil_div a b - 1) * b < a"
proof -
  have q: "(a + b - 1) div b * b + (a + b - 1) mod b = a + b - 1" by simp
  have m: "(a + b - 1) mod b < b" using assms by simp
  show "a \<le> ceil_div a b * b"
    using q m assms unfolding ceil_div_def by linarith
  show "(ceil_div a b - 1) * b < a" if "0 < a"
  proof -
    have "(a + b - 1) div b * b \<le> a + b - 1" using q by linarith
    then have "(a + b - 1) div b * b - b < a" using that assms by linarith
    then show ?thesis by (simp add: ceil_div_def diff_mult_distrib)
  qed
qed

lemma push_group_keys:
  "map fst (push_group k v d) = append_new (map fst d) k"
proof (cases "map_of d k")
  case None
  then have "k \<notin> set (map fst d)" by (metis domIff dom_map_of_conv_image_fst set_map)
  then show ?thesis using None by (simp add: push_group_def append_new_def)
next
  case (Some vs)
  then have "k \<in> set (map fst d)" by (metis domI dom_map_of_conv_image_fst set_map)
  then show ?thesis using Some by (simp add: push_group_def append_new_def update_keys)
qed

lemma push_group_lookup:
  "map_of (push_group k v d) k' =
     (if k' = k then Some ((case map_of d k of None \<Rightarrow> [] | Some vs \<Rightarrow> vs) @ [v]) else map_of d k')"
  by (auto simp: push_group_def update_conv map_add_def split: option.split)

text \<open>Grouping a list by a key: every group keeps the order of the list.\<close>

lemma foldl_push_lookup:
  "map_of (foldl (\<lambda>d x. push_group (f x) (g x) d) [] xs) k =
     (if filter (\<lambda>x. f x = k) xs = [] then None else Some (map g (filter (\<lambda>x. f x = k) xs)))"
proof (induction xs arbitrary: k rule: rev_induct)
  case (snoc x xs)
  show ?case by (cases "f x = k") (simp_all add: push_group_lookup snoc)
qed simp

lemma foldl_push_keys:
  "distinct (map fst (foldl (\<lambda>d x. push_group (f x) (g x) d) [] xs))"
  "fst ` set (foldl (\<lambda>d x. push_group (f x) (g x) d) [] xs) = f ` set xs"
proof -
  let ?d = "\<lambda>xs. foldl (\<lambda>d x. push_group (f x) (g x) d) [] xs"
  have "distinct (map fst (?d xs)) \<and> set (map fst (?d xs)) = f ` set xs"
  proof (induction xs rule: rev_induct)
    case (snoc x xs)
    have "map fst (?d (xs @ [x])) = append_new (map fst (?d xs)) (f x)" by (simp add: push_group_keys)
    then show ?case using snoc by simp
  qed simp
  then show "distinct (map fst (?d xs))" "fst ` set (?d xs) = f ` set xs" by simp_all
qed

text \<open>Storing under a new key appends.\<close>

lemma update_new: "k \<notin> fst ` set d \<Longrightarrow> AList.update k v d = d @ [(k, v)]"
  by (induction d) auto

lemma dict_get_none: "k \<notin> fst ` set d \<Longrightarrow> dict_get d k v = v"
  by (metis dict_get_def map_of_eq_None_iff option.simps(4))

lemma foldl_update_new:
  "distinct (map fst d @ map f xs) \<Longrightarrow> foldl (\<lambda>d x. AList.update (f x) (g x) d) d xs = d @ map (\<lambda>x. (f x, g x)) xs"
proof (induction xs arbitrary: d)
  case (Cons x xs)
  have "AList.update (f x) (g x) d = d @ [(f x, g x)]"
    using Cons.prems by (intro update_new) auto
  then show ?case using Cons by simp
qed simp

end
