(* ===== verification/Topo_Sort.thy ===== *)
theory Topo_Sort
  imports Prelude
begin

section \<open>Layered topological sort\<close>

text \<open>
  \<open>topological_sort\<close> of \<open>src/src/lumilake_server/utils/graph.py\<close>: Kahn's algorithm by layers, with
  an optional secondary key that orders each layer. A graph is a dict from a node to the set of
  its successors. A Python set is iterated in an unspecified order, so a set is a list without
  repetitions, in whatever order the interpreter visits it: the theorems hold for every such list.
  The loop's termination is proved from the sum of the in-degrees, which every appended node
  lowers; the result is shown to be a topological order exactly when the graph has no cycle.
\<close>

type_synonym 'a dgraph = "('a, 'a list) dict"

definition neighbours :: "'a dgraph \<Rightarrow> 'a \<Rightarrow> 'a list" where
  "neighbours g v = (case map_of g v of None \<Rightarrow> [] | Some ns \<Rightarrow> ns)"

text \<open>The keys of the dict \<open>in_degree\<close>: the graph's keys, then successors that are not keys.\<close>

definition graph_nodes :: "'a dgraph \<Rightarrow> 'a list" where
  "graph_nodes g = foldl append_new (map fst g) (concat (map snd g))"

definition in_degree :: "'a dgraph \<Rightarrow> 'a \<Rightarrow> int" where
  "in_degree g v = int (count_list (concat (map snd g)) v)"

text \<open>The two inner \<open>for\<close> loops over a layer, as one loop over the layer's successors.\<close>

fun relax :: "('a \<Rightarrow> int) \<Rightarrow> 'a list \<Rightarrow> 'a list \<Rightarrow> ('a \<Rightarrow> int) \<times> 'a list" where
  "relax deg ready [] = (deg, ready)"
| "relax deg ready (n # ns) =
     (let deg' = deg(n := deg n - 1)
      in relax deg' (if deg' n = 0 then ready @ [n] else ready) ns)"

definition potential :: "'a dgraph \<Rightarrow> ('a \<Rightarrow> int) \<Rightarrow> nat" where
  "potential g deg = (\<Sum>v \<in> set (graph_nodes g). nat (deg v))"

lemma set_foldl_append_new: "set (foldl append_new xs ys) = set xs \<union> set ys"
  by (induction ys arbitrary: xs) auto

lemma distinct_foldl_append_new: "distinct (foldl append_new xs ys) = distinct xs"
  by (induction ys arbitrary: xs) auto

lemma set_graph_nodes: "set (graph_nodes g) = fst ` set g \<union> (\<Union>p\<in>set g. set (snd p))"
  by (simp add: graph_nodes_def set_foldl_append_new)

lemma neighbours_nodes: "set (neighbours g v) \<subseteq> set (graph_nodes g)"
proof
  fix x assume x: "x \<in> set (neighbours g v)"
  then obtain ns where "map_of g v = Some ns" "x \<in> set ns"
    by (cases "map_of g v") (auto simp: neighbours_def)
  then have "(v, ns) \<in> set g" by (simp add: map_of_SomeD)
  with \<open>x \<in> set ns\<close> show "x \<in> set (graph_nodes g)" by (force simp: set_graph_nodes)
qed

lemma relax_measure:
  assumes "finite S" "set ns \<subseteq> S" "relax deg ready ns = (deg', ready')"
  shows "(\<Sum>v\<in>S. nat (deg' v)) + length ready' \<le> (\<Sum>v\<in>S. nat (deg v)) + length ready"
  using assms(2,3)
proof (induction ns arbitrary: deg ready)
  case Nil
  then show ?case by simp
next
  case (Cons n ns)
  let ?d = "deg(n := deg n - 1)"
  let ?r = "if ?d n = 0 then ready @ [n] else ready"
  have n: "n \<in> S" using Cons.prems by simp
  have "(\<Sum>v\<in>S. nat (deg' v)) + length ready' \<le> (\<Sum>v\<in>S. nat (?d v)) + length ?r"
  proof (rule Cons.IH)
    show "set ns \<subseteq> S" using Cons.prems by simp
    show "relax ?d ?r ns = (deg', ready')" using Cons.prems(2) by (simp only: relax.simps Let_def)
  qed
  moreover have "(\<Sum>v\<in>S - {n}. nat (?d v)) = (\<Sum>v\<in>S - {n}. nat (deg v))"
    by (rule sum.cong) auto
  then have "(\<Sum>v\<in>S. nat (?d v)) = nat (deg n - 1) + (\<Sum>v\<in>S - {n}. nat (deg v))"
    using sum.remove[OF assms(1) n, of "\<lambda>v. nat (?d v)"] by simp
  moreover have "(\<Sum>v\<in>S. nat (deg v)) = nat (deg n) + (\<Sum>v\<in>S - {n}. nat (deg v))"
    by (subst sum.remove[OF assms(1) n]) simp
  ultimately show ?case by (auto split: if_splits)
qed

function kahn :: "('a list \<Rightarrow> 'a list) \<Rightarrow> 'a dgraph \<Rightarrow> ('a \<Rightarrow> int) \<Rightarrow> 'a list \<Rightarrow> 'a list \<Rightarrow> 'a list" where
  "kahn srt g deg ready result =
     (if ready = [] then result
      else let layer = srt ready;
               (deg', ready') = relax deg [] (concat (map (neighbours g) layer))
           in kahn srt g deg' ready' (result @ layer))"
  by pat_completeness auto
termination
proof (relation "measure (\<lambda>(srt, g, deg, ready, result).
    2 * potential g deg + (if ready = [] then 0 else 1))", goal_cases)
  case 1
  show ?case by simp
next
  case (2 srt g deg ready result layer p deg' ready')
  have "set (concat (map (neighbours g) layer)) \<subseteq> set (graph_nodes g)"
    using neighbours_nodes by fastforce
  then have "potential g deg' + length ready' \<le> potential g deg"
    using relax_measure[of "set (graph_nodes g)" "concat (map (neighbours g) layer)" deg "[]" deg' ready'] 2
    by (simp add: potential_def)
  then show ?case using 2(1) by (cases ready') auto
qed

declare kahn.simps [simp del]

definition sort_layer :: "('a \<Rightarrow> 'k::linorder) option \<Rightarrow> 'a list \<Rightarrow> 'a list" where
  "sort_layer key xs = (case key of None \<Rightarrow> xs | Some f \<Rightarrow> sort_key f xs)"

definition topological_sort ::
  "'a dgraph \<Rightarrow> ('a \<Rightarrow> 'k::linorder) option \<Rightarrow> 'a list result" where
  "topological_sort g key =
     (let ns = graph_nodes g;
          order = kahn (sort_layer key) g (in_degree g) (filter (\<lambda>n. in_degree g n = 0) ns) []
      in if length order \<noteq> length ns then Inl (ValueError ''Graph has at least one cycle.'')
         else Inr order)"

subsection \<open>What a topological order is\<close>

definition edges :: "'a dgraph \<Rightarrow> ('a \<times> 'a) set" where
  "edges g = {(u, v). v \<in> set (neighbours g u)}"

text \<open>A dict has distinct keys.\<close>

definition graph_wf :: "'a dgraph \<Rightarrow> bool" where
  "graph_wf g \<longleftrightarrow> distinct (map fst g)"

text \<open>Every predecessor of a listed node is listed before it.\<close>

definition topo_respects :: "('a \<times> 'a) set \<Rightarrow> 'a list \<Rightarrow> bool" where
  "topo_respects E xs \<longleftrightarrow> (\<forall>i < length xs. \<forall>u. (u, xs ! i) \<in> E \<longrightarrow> u \<in> set (take i xs))"

lemma topo_respects_Nil [simp]: "topo_respects E []"
  by (simp add: topo_respects_def)

lemma topo_respects_append:
  assumes "topo_respects E xs" "\<And>u v. v \<in> set ys \<Longrightarrow> (u, v) \<in> E \<Longrightarrow> u \<in> set xs"
  shows "topo_respects E (xs @ ys)"
  unfolding topo_respects_def
proof (intro allI impI)
  fix i u assume i: "i < length (xs @ ys)" and e: "(u, (xs @ ys) ! i) \<in> E"
  show "u \<in> set (take i (xs @ ys))"
  proof (cases "i < length xs")
    case True
    with assms(1) e show ?thesis by (auto simp: topo_respects_def nth_append)
  next
    case False
    then have "(xs @ ys) ! i \<in> set ys" using i by (auto simp: nth_append)
    with assms(2) e have "u \<in> set xs" by blast
    with False show ?thesis by simp
  qed
qed

lemma topo_respects_snoc:
  "topo_respects E xs \<Longrightarrow> (\<And>u. (u, v) \<in> E \<Longrightarrow> u \<in> set xs) \<Longrightarrow> topo_respects E (xs @ [v])"
  by (rule topo_respects_append) auto

lemma topo_respects_snoc_iff:
  "topo_respects E (xs @ [v]) \<longleftrightarrow> topo_respects E xs \<and> (\<forall>u. (u, v) \<in> E \<longrightarrow> u \<in> set xs)"
  by (auto simp: topo_respects_def nth_append less_Suc_eq)

text \<open>Dropping nodes keeps the order of the ones that stay.\<close>

lemma topo_respects_filter:
  assumes "topo_respects E xs" "\<And>u v. (u, v) \<in> F \<Longrightarrow> (u, v) \<in> E \<and> P u"
  shows "topo_respects F (filter P xs)"
  using assms(1)
proof (induction xs rule: rev_induct)
  case Nil
  then show ?case by simp
next
  case (snoc x xs)
  then show ?case using assms(2) by (auto simp: topo_respects_snoc_iff)
qed

lemma topo_respects_restrict:
  assumes "topo_respects E xs" "\<And>u v. (u, v) \<in> F \<Longrightarrow> v \<in> set xs \<Longrightarrow> (u, v) \<in> E"
  shows "topo_respects F xs"
  unfolding topo_respects_def
proof (intro allI impI)
  fix i u assume i: "i < length xs" and f: "(u, xs ! i) \<in> F"
  then have "(u, xs ! i) \<in> E" using assms(2) by simp
  with assms(1) i show "u \<in> set (take i xs)" by (simp add: topo_respects_def)
qed

lemma topo_respects_mono: "topo_respects E xs \<Longrightarrow> F \<subseteq> E \<Longrightarrow> topo_respects F xs"
  by (auto simp: topo_respects_def)

text \<open>A list that respects the edges and has no repetitions shows there is no cycle.\<close>

lemma topo_respects_acyclic:
  assumes "topo_respects E xs" "distinct xs" "\<And>u v. (u, v) \<in> E \<Longrightarrow> v \<in> set xs"
  shows "acyclic E"
proof -
  define pos where "pos v = (THE i. i < length xs \<and> xs ! i = v)" for v
  have pos: "pos (xs ! i) = i" if "i < length xs" for i
    unfolding pos_def using that assms(2) by (intro the_equality) (auto simp: nth_eq_iff_index_eq)
  have "E \<subseteq> measure pos"
  proof (clarsimp simp: in_measure)
    fix u v assume e: "(u, v) \<in> E"
    obtain i where i: "i < length xs" "v = xs ! i"
      using assms(3)[OF e] by (auto simp: in_set_conv_nth)
    then have "u \<in> set (take i xs)" using assms(1) e by (auto simp: topo_respects_def)
    then obtain j where "j < i" "u = xs ! j" using i by (auto simp: in_set_conv_nth)
    then show "pos u < pos v" using i pos by simp
  qed
  then show ?thesis by (meson wf_acyclic wf_measure wf_subset)
qed

subsection \<open>The loop's invariant\<close>

lemma relax_spec:
  assumes "relax deg ready ns = (deg', ready')"
  shows "deg' = (\<lambda>v. deg v - int (count_list ns v))
      \<and> (\<exists>new. ready' = ready @ new \<and> distinct new
          \<and> set new = {v. 0 < deg v \<and> deg v \<le> int (count_list ns v)})"
  using assms
proof (induction ns arbitrary: deg ready)
  case Nil
  then show ?case by (auto intro!: exI[of _ "[]"])
next
  case (Cons n ns)
  let ?d = "deg(n := deg n - 1)"
  let ?r = "if ?d n = 0 then ready @ [n] else ready"
  have "relax ?d ?r ns = (deg', ready')"
    using Cons.prems by (simp only: relax.simps Let_def)
  note IH = Cons.IH[OF this]
  have deg': "deg' = (\<lambda>v. deg v - int (count_list (n # ns) v))" using IH by (auto simp: fun_eq_iff)
  obtain new where new: "ready' = ?r @ new" "distinct new"
    "set new = {v. 0 < ?d v \<and> ?d v \<le> int (count_list ns v)}" using IH by blast
  show ?case
  proof (cases "deg n = 1")
    case True
    with new deg' show ?thesis by (intro conjI exI[of _ "n # new"]) auto
  next
    case False
    have "{v. 0 < ?d v \<and> ?d v \<le> int (count_list ns v)}
        = {v. 0 < deg v \<and> deg v \<le> int (count_list (n # ns) v)}"
      using False by (auto split: if_splits)
    with False new deg' show ?thesis by (intro conjI exI[of _ new]) auto
  qed
qed

lemma count_concat_sum:
  "distinct xs \<Longrightarrow> count_list (concat (map f xs)) v = (\<Sum>u\<in>set xs. count_list (f u) v)"
  by (induction xs) auto

lemma neighbours_key: "graph_wf g \<Longrightarrow> (k, ns) \<in> set g \<Longrightarrow> neighbours g k = ns"
  by (simp add: neighbours_def graph_wf_def)

lemma neighbours_nonkey: "k \<notin> fst ` set g \<Longrightarrow> neighbours g k = []"
  by (force simp: neighbours_def split: option.splits dest!: map_of_SomeD)

lemma in_degree_sum:
  assumes "graph_wf g"
  shows "in_degree g v = int (\<Sum>u\<in>set (graph_nodes g). count_list (neighbours g u) v)"
proof -
  have ms: "map snd g = map (neighbours g) (map fst g)"
    using assms by (auto simp: neighbours_key)
  have "in_degree g v = int (\<Sum>u\<in>fst ` set g. count_list (neighbours g u) v)"
    unfolding in_degree_def ms
    using count_concat_sum[of "map fst g" "neighbours g" v] assms by (simp add: graph_wf_def)
  also have "(\<Sum>u\<in>fst ` set g. count_list (neighbours g u) v)
      = (\<Sum>u\<in>set (graph_nodes g). count_list (neighbours g u) v)"
    by (rule sum.mono_neutral_left) (auto simp: set_graph_nodes neighbours_nonkey)
  finally show ?thesis .
qed

text \<open>
  \<open>deg\<close> is the in-degree less the edges out of \<open>result\<close>, and the nodes with degree zero are the
  ones already listed or ready.
\<close>

definition kahn_inv :: "'a dgraph \<Rightarrow> ('a \<Rightarrow> int) \<Rightarrow> 'a list \<Rightarrow> 'a list \<Rightarrow> bool" where
  "kahn_inv g deg ready result \<longleftrightarrow>
     distinct (result @ ready) \<and> set (result @ ready) \<subseteq> set (graph_nodes g)
   \<and> (\<forall>v. deg v = in_degree g v - int (count_list (concat (map (neighbours g) result)) v))
   \<and> (\<forall>v \<in> set (graph_nodes g). deg v = 0 \<longleftrightarrow> v \<in> set (result @ ready))
   \<and> topo_respects (edges g) result"

lemma remaining_degree:
  assumes "graph_wf g" "distinct xs" "set xs \<subseteq> set (graph_nodes g)"
  shows "in_degree g v - int (count_list (concat (map (neighbours g) xs)) v)
       = int (\<Sum>u\<in>set (graph_nodes g) - set xs. count_list (neighbours g u) v)"
  using assms
  by (simp add: in_degree_sum count_concat_sum sum.subset_diff[OF assms(3)])

lemma degree_zero_preds:
  assumes "graph_wf g" "distinct xs" "set xs \<subseteq> set (graph_nodes g)"
    and "in_degree g v - int (count_list (concat (map (neighbours g) xs)) v) = 0"
    and "(u, v) \<in> edges g"
  shows "u \<in> set xs"
proof (rule ccontr)
  assume "u \<notin> set xs"
  have uv: "v \<in> set (neighbours g u)" using assms(5) by (simp add: edges_def)
  then have "u \<in> fst ` set g" using neighbours_nonkey[of u g] by (cases "u \<in> fst ` set g") auto
  then have "u \<in> set (graph_nodes g) - set xs"
    using \<open>u \<notin> set xs\<close> by (simp add: set_graph_nodes)
  moreover have "(\<Sum>u\<in>set (graph_nodes g) - set xs. count_list (neighbours g u) v) = 0"
    using remaining_degree[OF assms(1-3), of v] assms(4) by (metis of_nat_eq_0_iff)
  ultimately have "count_list (neighbours g u) v = 0" by simp
  with uv show False by (simp add: count_list_0_iff)
qed

text \<open>
  Listing some of the ready nodes, \<open>layer\<close>, keeps the invariant; the layered sort lists them all,
  the heap-based sort of \<open>topo_utils.py\<close> one at a time.
\<close>

lemma kahn_inv_step:
  assumes wf: "graph_wf g" and inv: "kahn_inv g deg ready result"
    and srt: "mset ready = mset layer + mset rest"
    and rel: "relax deg [] (concat (map (neighbours g) layer)) = (deg', new)"
    and rdy: "mset ready' = mset rest + mset new"
  shows "kahn_inv g deg' ready' (result @ layer)"
proof -
  note I = inv[unfolded kahn_inv_def]
  let ?N = "set (graph_nodes g)" and ?c = "\<lambda>v. int (count_list (concat (map (neighbours g) layer)) v)"
  have mr: "mset ready = mset (layer @ rest)" using srt by simp
  have "distinct (layer @ rest)" using mr I by (metis distinct_append mset_eq_imp_distinct_iff)
  then have dl: "distinct layer" "distinct rest" "set layer \<inter> set rest = {}" by auto
  have sl: "set ready = set layer \<union> set rest" using mset_eq_setD[OF mr] by simp
  have sr: "set ready' = set rest \<union> set new"
    using mset_eq_setD[of ready' "rest @ new"] rdy by simp
  have d: "deg' v = deg v - ?c v" for v using relax_spec[OF rel] by simp
  have r: "distinct new" "set new = {v. 0 < deg v \<and> deg v \<le> ?c v}"
    using relax_spec[OF rel] by auto
  have dd: "distinct (result @ layer)" and ss: "set (result @ layer) \<subseteq> ?N"
    using I sl dl by auto
  have deg': "deg' v = in_degree g v - int (count_list (concat (map (neighbours g) (result @ layer))) v)" for v
    using I d by simp
  have nn: "0 \<le> deg' v" for v using remaining_degree[OF wf dd ss, of v] deg'[of v] by linarith
  have preds: "u \<in> set result" if "v \<in> set (result @ ready)" "(u, v) \<in> edges g" for u v
    using degree_zero_preds[OF wf, of result v u] I that by auto
  have z: "deg v = 0" if "v \<in> set (result @ ready)" for v
    using that I by blast
  have c0: "?c v = 0" if "v \<in> set (result @ ready)" for v
    using z[OF that] nn[of v] d[of v] by force
  have zero: "deg' v = 0 \<longleftrightarrow> v \<in> set ((result @ layer) @ ready')" if "v \<in> ?N" for v
  proof (cases "deg v = 0")
    case True
    then have v: "v \<in> set (result @ ready)" using I that by blast
    then have "deg' v = 0" using c0[OF v] d[of v] True by simp
    moreover have "v \<in> set ((result @ layer) @ ready')" using v sl sr by auto
    ultimately show ?thesis by simp
  next
    case False
    then have v: "v \<notin> set (result @ ready)" using I that by blast
    have "0 < deg v" using False nn[of v] d[of v] by linarith
    then have "v \<in> set new \<longleftrightarrow> deg' v = 0" using r(2) d[of v] nn[of v] by auto
    then show ?thesis using v sl sr by auto
  qed
  have "set new \<subseteq> ?N"
  proof
    fix v assume "v \<in> set new"
    then have "0 < ?c v" using r(2) by auto
    then have "v \<in> set (concat (map (neighbours g) layer))"
      using count_list_0_iff[of "concat (map (neighbours g) layer)" v] by linarith
    then show "v \<in> ?N" using neighbours_nodes by fastforce
  qed
  then have "set ready' \<subseteq> ?N" using sr sl I by auto
  moreover have nd: "set (result @ ready) \<inter> set new = {}" using z r(2) by fastforce
  moreover have "distinct ready'"
  proof -
    have "distinct (rest @ new)" using dl r(1) nd sl by auto
    moreover have "mset ready' = mset (rest @ new)" using rdy by simp
    ultimately show ?thesis by (metis mset_eq_imp_distinct_iff)
  qed
  moreover have "set (result @ layer) \<inter> set ready' = {}"
    using nd sr sl dl I by auto
  moreover have "topo_respects (edges g) (result @ layer)"
    using I preds sl by (intro topo_respects_append) auto
  ultimately show ?thesis
    unfolding kahn_inv_def using dd ss deg' zero by auto
qed

lemma kahn_result:
  assumes "graph_wf g" "\<And>xs. mset (srt xs) = mset xs" "kahn_inv g deg ready result"
  shows "\<exists>deg'. kahn_inv g deg' [] (kahn srt g deg ready result)"
  using assms
proof (induction srt g deg ready result rule: kahn.induct)
  case (1 srt g deg ready result)
  show ?case
  proof (cases "ready = []")
    case True
    with "1.prems" show ?thesis by (subst kahn.simps) auto
  next
    case False
    obtain deg' ready' where rel:
      "relax deg [] (concat (map (neighbours g) (srt ready))) = (deg', ready')" by force
    have "kahn_inv g deg' ready' (result @ srt ready)"
      using kahn_inv_step[OF "1.prems"(1,3) _ rel, of "[]" ready'] "1.prems"(2) by simp
    from "1.IH"[OF False refl rel[symmetric] refl "1.prems"(1,2) this]
    show ?thesis using False rel by (subst kahn.simps) (simp add: Let_def)
  qed
qed

lemma kahn_inv_start:
  assumes "graph_wf g"
  shows "kahn_inv g (in_degree g) (filter (\<lambda>n. in_degree g n = 0) (graph_nodes g)) []"
  using assms
  by (auto simp: kahn_inv_def graph_nodes_def distinct_foldl_append_new graph_wf_def)

lemma mset_sort_layer [simp]: "mset (sort_layer key xs) = mset xs"
  by (simp add: sort_layer_def split: option.splits)

lemma distinct_graph_nodes: "graph_wf g \<Longrightarrow> distinct (graph_nodes g)"
  by (simp add: graph_nodes_def distinct_foldl_append_new graph_wf_def)

lemma topological_sort_sound:
  assumes "graph_wf g" "topological_sort g key = Inr order"
  shows "distinct order" "set order = set (graph_nodes g)" "topo_respects (edges g) order"
proof -
  obtain deg where inv: "kahn_inv g deg [] order" and len: "length order = length (graph_nodes g)"
    using kahn_result[OF assms(1) mset_sort_layer[of key] kahn_inv_start[OF assms(1)]] assms(2)
    by (auto simp: topological_sort_def Let_def split: if_splits)
  then show "distinct order" "topo_respects (edges g) order" by (auto simp: kahn_inv_def)
  have "set order \<subseteq> set (graph_nodes g)" using inv by (auto simp: kahn_inv_def)
  moreover have "card (set order) = card (set (graph_nodes g))"
    using inv len distinct_graph_nodes[OF assms(1)] by (simp add: kahn_inv_def distinct_card)
  ultimately show "set order = set (graph_nodes g)" by (simp add: card_subset_eq)
qed

lemma kahn_inv_complete:
  assumes "graph_wf g" "kahn_inv g deg [] k" "acyclic (edges g)"
  shows "set k = set (graph_nodes g)"
proof -
  note I = assms(2)[unfolded kahn_inv_def]
  let ?R = "set (graph_nodes g) - set k"
  have "edges g \<subseteq> set (graph_nodes g) \<times> set (graph_nodes g)"
    using neighbours_nodes neighbours_nonkey
    by (fastforce simp: edges_def set_graph_nodes image_iff)
  then have "finite (edges g)" by (rule finite_subset) simp
  then have wf: "wf (edges g)" using assms(3) by (rule finite_acyclic_wf)
  have "?R = {}"
  proof (rule ccontr)
    assume "?R \<noteq> {}"
    then obtain v where v: "v \<in> ?R" "\<And>u. (u, v) \<in> edges g \<Longrightarrow> u \<notin> ?R"
      using wfE_min[OF wf] by (metis ex_in_conv)
    then have "deg v \<noteq> 0" using I by auto
    moreover have "deg v = int (\<Sum>u\<in>?R. count_list (neighbours g u) v)"
      using remaining_degree[OF assms(1), of k v] I by auto
    ultimately obtain u where "u \<in> ?R" "count_list (neighbours g u) v \<noteq> 0"
      by (metis (no_types, lifting) of_nat_0 sum.neutral)
    then show False using v(2)[of u] by (auto simp: edges_def count_list_0_iff)
  qed
  then show ?thesis using I by auto
qed

lemma topological_sort_acyclic:
  assumes "graph_wf g" "acyclic (edges g)"
  shows "\<exists>order. topological_sort g key = Inr order"
proof -
  let ?k = "kahn (sort_layer key) g (in_degree g) (filter (\<lambda>n. in_degree g n = 0) (graph_nodes g)) []"
  obtain deg where inv: "kahn_inv g deg [] ?k"
    using kahn_result[OF assms(1) mset_sort_layer[of key] kahn_inv_start[OF assms(1)]] by blast
  have "set ?k = set (graph_nodes g)" "distinct ?k"
    using kahn_inv_complete[OF assms(1) inv assms(2)] inv by (auto simp: kahn_inv_def)
  then have "length ?k = length (graph_nodes g)"
    using distinct_graph_nodes[OF assms(1)] by (metis distinct_card)
  then show ?thesis by (simp add: topological_sort_def Let_def)
qed

lemma edges_in_nodes: "(u, v) \<in> edges g \<Longrightarrow> v \<in> set (graph_nodes g)"
  using neighbours_nodes by (fastforce simp: edges_def)

lemma topological_sort_correct_aux:
  assumes "graph_wf g"
  shows "case topological_sort g key of
       Inl e \<Rightarrow> e = ValueError ''Graph has at least one cycle.'' \<and> \<not> acyclic (edges g)
     | Inr order \<Rightarrow> acyclic (edges g) \<and> distinct order
         \<and> set order = set (graph_nodes g) \<and> topo_respects (edges g) order"
proof (cases "topological_sort g key")
  case (Inl e)
  have "\<not> acyclic (edges g)" using topological_sort_acyclic[OF assms, of key] Inl by auto
  with Inl show ?thesis by (auto simp: topological_sort_def Let_def split: if_splits)
next
  case (Inr order)
  note s = topological_sort_sound[OF assms Inr]
  have "acyclic (edges g)"
    using s edges_in_nodes by (intro topo_respects_acyclic[of _ order]) auto
  with Inr s show ?thesis by simp
qed

text \<open>
  C1. \<open>topological_sort\<close> raises exactly when the graph has a cycle, and otherwise lists every
  node once, each after all its predecessors, whatever the secondary key and the order in which
  the sets are iterated.
\<close>

theorem topological_sort_correct:
  assumes "graph_wf g"
  shows "case topological_sort g key of
       Inl e \<Rightarrow> e = ValueError ''Graph has at least one cycle.'' \<and> \<not> acyclic (edges g)
     | Inr order \<Rightarrow> acyclic (edges g) \<and> distinct order
         \<and> set order = set (graph_nodes g) \<and> topo_respects (edges g) order"
  using assms by (rule topological_sort_correct_aux)

lemma topological_sort_correct_witness:
  "case topological_sort [(''a'', [''b'', ''c'']), (''b'', [''c'']), (''c'', [])] (None :: (string \<Rightarrow> nat) option) of
       Inl e \<Rightarrow> False
     | Inr order \<Rightarrow> topo_respects {(''a'', ''b''), (''a'', ''c''), (''b'', ''c'')} order"
proof -
  let ?g = "[(''a'', [''b'', ''c'']), (''b'', [''c'']), (''c'', [])]"
  have wf: "graph_wf ?g" by (simp add: graph_wf_def)
  have e: "edges ?g = {(''a'', ''b''), (''a'', ''c''), (''b'', ''c'')}"
    by (auto simp: edges_def neighbours_def split: if_splits)
  have "topological_sort ?g (None :: (string \<Rightarrow> nat) option) = Inr [''a'', ''b'', ''c'']"
    by (simp add: topological_sort_def graph_nodes_def append_new_def in_degree_def kahn.simps
        sort_layer_def neighbours_def)
  then show ?thesis using topological_sort_correct[OF wf, of "None :: (string \<Rightarrow> nat) option"] e
    by simp
qed

end
