(* ===== verification/Runtime_Graph.thy ===== *)
theory Runtime_Graph
  imports Topo_Sort
begin

section \<open>Runtime operations and runtime graphs\<close>

text \<open>
  \<open>RuntimeOp\<close> and \<open>RuntimeGraph\<close> of \<open>src/src/lumilake_server/runtime/runtime_ops.py\<close> and
  \<open>runtime_graph.py\<close>: the data that the scheduler, the cost model and the optimizers read, the
  topological order of a graph, the renaming of its nodes with a prefix, and the merge of the
  graphs of a batch. The FlowMesh export (JSON for the runtime service) is not modelled here.
\<close>

record runtime_op =
  op_node_id :: string
  op_task_type :: string
  op_backend :: string
  op_model :: string
  op_data_spec :: "(string, json) dict"
  op_model_spec :: "(string, json) dict"
  op_inference_spec :: "(string, json) dict"
  op_api_spec :: "(string, json) dict"
  op_dependencies :: "string list"
  op_output_spec :: "(string, json) dict option"
  op_condition :: "(string, json) dict option"

record runtime_graph =
  rg_nodes :: "(string, runtime_op) dict"
  rg_node_order :: "string list"
  rg_output_node_map :: "(string, string) dict"
  rg_output_paths :: "(string, string) dict"
  rg_dsl_to_runtime :: "(string, string list) dict"

definition node_count :: "runtime_graph \<Rightarrow> nat" where
  "node_count g = length (rg_nodes g)"

text \<open>\<open>from_schema\<close> refuses a node order that names an unknown node.\<close>

definition rg_from_schema :: "runtime_graph \<Rightarrow> runtime_graph result" where
  "rg_from_schema s =
     (if filter (\<lambda>nid. nid \<notin> fst ` set (rg_nodes s)) (rg_node_order s) \<noteq> []
      then Inl (ValueError ''node_order references unknown nodes'') else Inr s)"

subsection \<open>Topological order\<close>

definition add_edge :: "(string, string list) dict \<Rightarrow> string \<times> string \<Rightarrow> (string, string list) dict" where
  "add_edge d e =
     (case e of (dep, n) \<Rightarrow>
       (case map_of d dep of None \<Rightarrow> d @ [(dep, [n])] | Some vs \<Rightarrow> AList.update dep (append_new vs n) d))"

definition dep_edges :: "runtime_graph \<Rightarrow> (string \<times> string) list" where
  "dep_edges g = concat (map (\<lambda>(n, op). map (\<lambda>dep. (dep, n)) (op_dependencies op)) (rg_nodes g))"

definition dep_graph :: "runtime_graph \<Rightarrow> string dgraph" where
  "dep_graph g = foldl add_edge (map (\<lambda>(n, _). (n, [])) (rg_nodes g)) (dep_edges g)"

definition order_index :: "string list \<Rightarrow> (string, nat) dict" where
  "order_index xs = foldl (\<lambda>d (idx, n). AList.update n idx d) [] (enumerate 0 xs)"

definition topological_order :: "runtime_graph \<Rightarrow> string list result" where
  "topological_order g =
     (let idx = order_index (rg_node_order g);
          key = (\<lambda>n. case map_of idx n of None \<Rightarrow> length idx | Some i \<Rightarrow> i)
      in case topological_sort (dep_graph g) (Some key) of
           Inl e \<Rightarrow> Inl e
         | Inr order \<Rightarrow> Inr (filter (\<lambda>n. n \<in> fst ` set (rg_nodes g)) order))"

subsection \<open>List-mode lambdas\<close>

definition is_python :: "runtime_op \<Rightarrow> bool" where
  "is_python op = (op_task_type op = ''python'')"

definition is_list_lambda :: "runtime_op \<Rightarrow> bool" where
  "is_list_lambda op = (is_python op \<and> map_of (op_data_spec op) ''mode'' = Some (JStr ''list''))"

fun list_lambda_loop ::
  "(string, runtime_op) dict \<Rightarrow> string list \<Rightarrow> string list \<Rightarrow> string list result" where
  "list_lambda_loop nodes acc [] = Inr acc"
| "list_lambda_loop nodes acc (n # ns) =
     (case map_of nodes n of
        None \<Rightarrow> Inl (KeyError n)
      | Some op \<Rightarrow>
          if is_list_lambda op then list_lambda_loop nodes (append_new acc n) ns
          else if is_python op then list_lambda_loop nodes acc ns
          else if \<exists>dep \<in> set (op_dependencies op). dep \<in> set acc
            then list_lambda_loop nodes (append_new acc n) ns
          else list_lambda_loop nodes acc ns)"

definition list_lambda_cardinality_nodes :: "runtime_graph \<Rightarrow> string list result" where
  "list_lambda_cardinality_nodes g = list_lambda_loop (rg_nodes g) [] (rg_node_order g)"

subsection \<open>Renaming the nodes of a graph\<close>

text \<open>
  One match of the placeholder pattern (a node name without dots or braces, a dot, a path up to
  the closing brace) at the start of the text after the opening brace: node, path, rest.
\<close>

definition match_placeholder :: "string \<Rightarrow> (string \<times> string \<times> string) option" where
  "match_placeholder s =
     (let node = takeWhile (\<lambda>c. c \<noteq> CHR 0x7D \<and> c \<noteq> CHR 0x2E) s;
          r1 = drop (length node) s
      in if node = [] then None
         else case r1 of
             [] \<Rightarrow> None
           | c # r2 \<Rightarrow>
               if c \<noteq> CHR 0x2E then None
               else let path = takeWhile (\<lambda>c. c \<noteq> CHR 0x7D) r2; r3 = drop (length path) r2
                    in if path = [] then None
                       else case r3 of [] \<Rightarrow> None | _ # r4 \<Rightarrow> Some (node, path, r4))"

lemma match_placeholder_length:
  "match_placeholder s = Some (node, path, rest) \<Longrightarrow> length rest < length s"
proof -
  assume m: "match_placeholder s = Some (node, path, rest)"
  let ?n = "takeWhile (\<lambda>c. c \<noteq> CHR 0x7D \<and> c \<noteq> CHR 0x2E) s"
  obtain c r2 where r1: "drop (length ?n) s = c # r2"
    using m by (auto simp: match_placeholder_def Let_def split: if_splits list.splits)
  then have "length r2 < length s"
    by (metis Suc_le_lessD length_Cons length_drop diff_le_self)
  moreover have "length rest < length r2 \<or> length rest \<le> length r2"
  proof -
    let ?p = "takeWhile (\<lambda>c. c \<noteq> CHR 0x7D) r2"
    have "\<exists>d. drop (length ?p) r2 = d # rest"
      using m r1 by (auto simp: match_placeholder_def Let_def split: if_splits list.splits)
    then show ?thesis by (metis Suc_le_lessD length_Cons length_drop diff_le_self)
  qed
  ultimately show ?thesis by linarith
qed

text \<open>\<open>_PLACEHOLDER_RE.sub(_sub, text)\<close>: placeholders of nodes in \<open>m\<close> are renamed, the others kept.\<close>

function remap_placeholder :: "(string, string) dict \<Rightarrow> string \<Rightarrow> string" where
  "remap_placeholder m s =
     (case s of
        CHR 0x24 # CHR 0x7B # t \<Rightarrow>
          (case match_placeholder t of
             None \<Rightarrow> CHR 0x24 # remap_placeholder m (CHR 0x7B # t)
           | Some (node, path, rest) \<Rightarrow>
               ''$'' @ [CHR 0x7B] @ (case map_of m node of None \<Rightarrow> node | Some new \<Rightarrow> new)
                 @ ''.'' @ path @ [CHR 0x7D] @ remap_placeholder m rest)
      | c # t \<Rightarrow> c # remap_placeholder m t
      | [] \<Rightarrow> [])"
  by pat_completeness auto
termination
  by (relation "measure (\<lambda>(m, s). length s)")
    (auto dest!: match_placeholder_length split: if_splits)

declare remap_placeholder.simps [simp del]

text \<open>
  \<open>remap\<close>: in a dict, the value of the key \<open>node\<close> is renamed when it is a node id of the graph;
  every other string has its placeholders renamed.
\<close>

fun remap_json :: "(string, string) dict \<Rightarrow> (string, string) dict \<Rightarrow> json \<Rightarrow> json" where
  "remap_json mapping rewritable (JDict kvs) =
     JDict (map (\<lambda>(k, v).
       (k, case v of
             JStr t \<Rightarrow>
               (if k = ''node'' \<and> map_of mapping t \<noteq> None then JStr (the (map_of mapping t))
                else JStr (remap_placeholder rewritable t))
           | _ \<Rightarrow> remap_json mapping rewritable v)) kvs)"
| "remap_json mapping rewritable (JList vs) = JList (map (remap_json mapping rewritable) vs)"
| "remap_json mapping rewritable (JStr s) = JStr (remap_placeholder rewritable s)"
| "remap_json mapping rewritable v = v"

definition remap_spec ::
  "(string, string) dict \<Rightarrow> (string, string) dict \<Rightarrow> (string, json) dict \<Rightarrow> (string, json) dict" where
  "remap_spec mapping rewritable spec =
     (case remap_json mapping rewritable (JDict spec) of JDict kvs \<Rightarrow> kvs | _ \<Rightarrow> [])"

definition rename :: "(string, string) dict \<Rightarrow> string \<Rightarrow> string" where
  "rename m x = (case map_of m x of None \<Rightarrow> x | Some y \<Rightarrow> y)"

definition prefix_op :: "(string, string) dict \<Rightarrow> string \<Rightarrow> runtime_op \<Rightarrow> runtime_op" where
  "prefix_op mapping new_id op =
     (let rw = map (\<lambda>dep. (dep, rename mapping dep))
                 (filter (\<lambda>dep. map_of mapping dep \<noteq> None) (op_dependencies op))
      in \<lparr>op_node_id = new_id, op_task_type = op_task_type op, op_backend = op_backend op,
          op_model = op_model op,
          op_data_spec = remap_spec mapping rw (op_data_spec op),
          op_model_spec = remap_spec mapping rw (op_model_spec op),
          op_inference_spec = remap_spec mapping rw (op_inference_spec op),
          op_api_spec = remap_spec mapping rw (op_api_spec op),
          op_dependencies = map (rename mapping) (op_dependencies op),
          op_output_spec = map_option (remap_spec mapping rw) (op_output_spec op),
          op_condition = map_option (remap_spec mapping rw) (op_condition op)\<rparr>)"

definition prefix_mapping :: "string \<Rightarrow> string \<Rightarrow> runtime_graph \<Rightarrow> (string, string) dict" where
  "prefix_mapping pre separator g = map (\<lambda>(n, _). (n, pre @ separator @ n)) (rg_nodes g)"

text \<open>
  \<open>with_node_prefix\<close>. The reads \<open>mapping[node_id]\<close> raise on a node the graph does not have.
\<close>

definition with_node_prefix :: "string \<Rightarrow> string \<Rightarrow> runtime_graph \<Rightarrow> runtime_graph result" where
  "with_node_prefix pre separator g =
     (if pre = [] then Inr g
      else
        let mapping = prefix_mapping pre separator g;
            unknown = filter (\<lambda>n. map_of mapping n = None)
              (rg_node_order g @ map fst (rg_output_node_map g) @ map fst (rg_output_paths g))
        in case unknown of
             n # _ \<Rightarrow> Inl (KeyError n)
           | [] \<Rightarrow> Inr
              \<lparr>rg_nodes = map (\<lambda>(n, op). (rename mapping n, prefix_op mapping (rename mapping n) op)) (rg_nodes g),
               rg_node_order = map (rename mapping) (rg_node_order g),
               rg_output_node_map = map (\<lambda>(n, v). (rename mapping n, v)) (rg_output_node_map g),
               rg_output_paths = map (\<lambda>(n, v). (rename mapping n, v)) (rg_output_paths g),
               rg_dsl_to_runtime = map (\<lambda>(d, rs). (d, map (rename mapping) rs)) (rg_dsl_to_runtime g)\<rparr>)"

subsection \<open>Merging the graphs of a batch\<close>

record merge_acc =
  ma_nodes :: "(string, runtime_op) dict"
  ma_order :: "string list"
  ma_outputs :: "(string, string) dict"
  ma_paths :: "(string, string) dict"
  ma_dsl :: "(string, string list) dict"
  ma_mapping :: "(string, string \<times> string) dict"

fun merge_nodes :: "runtime_graph \<Rightarrow> string list \<Rightarrow> merge_acc \<Rightarrow> merge_acc result" where
  "merge_nodes g [] acc = Inr acc"
| "merge_nodes g (n # ns) acc =
     (if n \<in> fst ` set (ma_nodes acc)
      then Inl (ValueError (''Duplicate runtime node id across graphs: '' @ n))
      else case map_of (rg_nodes g) n of
          None \<Rightarrow> Inl (KeyError n)
        | Some op \<Rightarrow> merge_nodes g ns
            (acc\<lparr>ma_nodes := ma_nodes acc @ [(n, op)], ma_order := ma_order acc @ [n]\<rparr>))"

definition merge_dsl :: "(string, string list) dict \<Rightarrow> (string \<times> string list) \<Rightarrow> (string, string list) dict" where
  "merge_dsl d e =
     (case e of (op_id, rids) \<Rightarrow>
        (case map_of d op_id of
           None \<Rightarrow> d @ [(op_id, rids)]
         | Some existing \<Rightarrow> AList.update op_id (foldl append_new existing rids) d))"

definition merge_one :: "string \<Rightarrow> runtime_graph \<Rightarrow> merge_acc \<Rightarrow> merge_acc result" where
  "merge_one gname g acc =
     (case merge_nodes g (rg_node_order g) acc of
        Inl e \<Rightarrow> Inl e
      | Inr acc1 \<Rightarrow> Inr (acc1
          \<lparr>ma_dsl := foldl merge_dsl (ma_dsl acc1) (rg_dsl_to_runtime g),
           ma_outputs := foldl (\<lambda>d (n, out). AList.update n out d) (ma_outputs acc1) (rg_output_node_map g),
           ma_mapping := foldl (\<lambda>d (n, out). AList.update n (gname, out) d) (ma_mapping acc1) (rg_output_node_map g),
           ma_paths := foldl (\<lambda>d (n, p). AList.update n p d) (ma_paths acc1) (rg_output_paths g)\<rparr>))"

fun merge_graphs :: "(string, runtime_graph) dict \<Rightarrow> merge_acc \<Rightarrow> merge_acc result" where
  "merge_graphs [] acc = Inr acc"
| "merge_graphs ((gname, g) # gs) acc =
     (case merge_one gname g acc of Inl e \<Rightarrow> Inl e | Inr acc' \<Rightarrow> merge_graphs gs acc')"

definition merge_runtime_graphs ::
  "(string, runtime_graph) dict \<Rightarrow> (runtime_graph \<times> (string, string \<times> string) dict) result" where
  "merge_runtime_graphs gs =
     (case merge_graphs gs \<lparr>ma_nodes = [], ma_order = [], ma_outputs = [], ma_paths = [], ma_dsl = [], ma_mapping = []\<rparr> of
        Inl e \<Rightarrow> Inl e
      | Inr acc \<Rightarrow> Inr
          (\<lparr>rg_nodes = ma_nodes acc, rg_node_order = ma_order acc, rg_output_node_map = ma_outputs acc,
            rg_output_paths = ma_paths acc, rg_dsl_to_runtime = ma_dsl acc\<rparr>, ma_mapping acc))"

subsection \<open>The dependencies exported to FlowMesh\<close>

text \<open>
  The \<open>dependsOn\<close> list of one exported node: the dependencies, then the condition's node when it
  is not among them (\<open>condition["node"]\<close> raises without that key); \<open>to_flowmesh_nodes\<close> keeps only
  ids of runtime nodes and drops an empty list.
\<close>

definition flowmesh_deps :: "runtime_op \<Rightarrow> string list result" where
  "flowmesh_deps op =
     (case op_condition op of
        None \<Rightarrow> Inr (op_dependencies op)
      | Some c \<Rightarrow>
          (case map_of c ''node'' of
             Some (JStr n) \<Rightarrow> Inr (append_new (op_dependencies op) n)
           | _ \<Rightarrow> Inl (KeyError ''node'')))"

definition exported_deps :: "runtime_graph \<Rightarrow> runtime_op \<Rightarrow> string list option result" where
  "exported_deps g op =
     (case flowmesh_deps op of
        Inl e \<Rightarrow> Inl e
      | Inr ds \<Rightarrow>
          (let kept = filter (\<lambda>d. d \<in> fst ` set (rg_nodes g)) ds
           in Inr (if kept = [] then None else Some kept)))"

subsection \<open>Properties\<close>

definition rg_wf :: "runtime_graph \<Rightarrow> bool" where
  "rg_wf g \<longleftrightarrow> distinct (map fst (rg_nodes g))"

definition node_ids :: "runtime_graph \<Rightarrow> string set" where
  "node_ids g = fst ` set (rg_nodes g)"

text \<open>The dependency relation between runtime nodes, and over all the ids the nodes name.\<close>

definition depends :: "runtime_graph \<Rightarrow> (string \<times> string) set" where
  "depends g = {(dep, n). \<exists>op. map_of (rg_nodes g) n = Some op \<and> dep \<in> set (op_dependencies op)}"

lemma add_edge_None: "map_of d u = None \<Longrightarrow> add_edge d (u, v) = d @ [(u, [v])]"
  by (simp add: add_edge_def)

lemma add_edge_Some: "map_of d u = Some vs \<Longrightarrow> add_edge d (u, v) = AList.update u (append_new vs v) d"
  by (simp add: add_edge_def)

lemma add_edge_keys: "fst ` set (add_edge d (u, v)) = insert u (fst ` set d)"
proof (cases "map_of d u")
  case None
  then show ?thesis by (simp add: add_edge_None)
next
  case (Some vs)
  then have "u \<in> fst ` set d" by (metis map_of_eq_None_iff option.distinct(1))
  with Some show ?thesis by (simp add: add_edge_Some dom_update insert_absorb)
qed

lemma add_edge_wf:
  assumes wf: "graph_wf d"
  shows "graph_wf (add_edge d (u, v))"
proof (cases "map_of d u")
  case None
  with wf show ?thesis by (simp add: add_edge_None graph_wf_def map_of_eq_None_iff)
next
  case (Some vs)
  with wf Some show ?thesis by (auto simp: add_edge_Some graph_wf_def distinct_update)
qed

lemma neighbours_add_edge:
  "set (neighbours (add_edge d (u, v)) w) = (if w = u then {v} else {}) \<union> set (neighbours d w)"
  by (auto simp: add_edge_def neighbours_def update_conv' map_add_def split: option.splits)

lemma dep_graph_fold:
  "graph_wf d \<Longrightarrow> graph_wf (foldl add_edge d es)
    \<and> fst ` set (foldl add_edge d es) = fst ` set d \<union> fst ` set es
    \<and> (\<forall>w. set (neighbours (foldl add_edge d es) w) = set (neighbours d w) \<union> {v. (w, v) \<in> set es})"
proof (induction es arbitrary: d)
  case Nil
  then show ?case by simp
next
  case (Cons e es)
  obtain u v where e: "e = (u, v)" by force
  have wf: "graph_wf (add_edge d e)" using Cons.prems e by (simp add: add_edge_wf)
  have nb: "set (neighbours (add_edge d e) w) = set (neighbours d w) \<union> {x. (w, x) = e}" for w
    by (auto simp: e neighbours_add_edge)
  have ks: "fst ` set (add_edge d e) = insert (fst e) (fst ` set d)"
    by (simp add: e add_edge_keys)
  have "set (neighbours (foldl add_edge d (e # es)) w) = set (neighbours d w) \<union> {x. (w, x) \<in> set (e # es)}" for w
    using Cons.IH[OF wf] nb[of w] by fastforce
  moreover have "fst ` set (foldl add_edge d (e # es)) = fst ` set d \<union> fst ` set (e # es)"
    using Cons.IH[OF wf] ks by auto
  ultimately show ?case using Cons.IH[OF wf] by simp
qed

lemma set_dep_edges:
  assumes "rg_wf g"
  shows "set (dep_edges g) = depends g"
  using assms by (fastforce simp: dep_edges_def depends_def rg_wf_def)

lemma dep_graph_wf: "rg_wf g \<Longrightarrow> graph_wf (dep_graph g)"
  unfolding dep_graph_def
  by (rule conjunct1[OF dep_graph_fold]) (auto simp: graph_wf_def rg_wf_def comp_def case_prod_unfold)

lemma dep_graph_edges:
  assumes "rg_wf g"
  shows "edges (dep_graph g) = depends g" "node_ids g \<subseteq> set (graph_nodes (dep_graph g))"
proof -
  let ?d = "map (\<lambda>(n, _). (n, [])) (rg_nodes g) :: (string, string list) dict"
  have wf: "graph_wf ?d" using assms by (auto simp: graph_wf_def rg_wf_def comp_def case_prod_unfold)
  note F = dep_graph_fold[OF wf, of "dep_edges g", folded dep_graph_def]
  have "neighbours ?d w = []" for w
    by (auto simp: neighbours_def split: option.splits dest!: map_of_SomeD)
  then show "edges (dep_graph g) = depends g"
    using F set_dep_edges[OF assms] by (auto simp: edges_def)
  show "node_ids g \<subseteq> set (graph_nodes (dep_graph g))"
  proof -
    have "fst ` set ?d = node_ids g" by (simp add: node_ids_def image_image case_prod_unfold)
    then have "node_ids g \<subseteq> fst ` set (dep_graph g)"
      using conjunct1[OF conjunct2[OF F]] by simp
    then show ?thesis by (simp only: set_graph_nodes) blast
  qed
qed

lemma topological_order_aux:
  assumes "rg_wf g"
  shows "case topological_order g of
       Inl e \<Rightarrow> \<not> acyclic (depends g)
     | Inr order \<Rightarrow> acyclic (depends g) \<and> distinct order \<and> set order = node_ids g
         \<and> topo_respects {(u, v). (u, v) \<in> depends g \<and> u \<in> node_ids g} order"
proof -
  let ?idx = "order_index (rg_node_order g)"
  let ?key = "Some (\<lambda>n. case map_of ?idx n of None \<Rightarrow> length ?idx | Some i \<Rightarrow> i)"
  note T = topological_sort_correct_aux[OF dep_graph_wf[OF assms], of ?key]
  note E = dep_graph_edges[OF assms]
  show ?thesis
  proof (cases "topological_sort (dep_graph g) ?key")
    case (Inl e)
    then show ?thesis using T E by (simp add: topological_order_def Let_def)
  next
    case (Inr order)
    then have "topological_order g = Inr (filter (\<lambda>n. n \<in> node_ids g) order)"
      by (simp add: topological_order_def Let_def node_ids_def)
    moreover have "topo_respects {(u, v). (u, v) \<in> depends g \<and> u \<in> node_ids g}
        (filter (\<lambda>n. n \<in> node_ids g) order)"
      using T Inr E by (intro topo_respects_filter[of "depends g"]) auto
    ultimately show ?thesis using T Inr E by auto
  qed
qed

text \<open>A two-node graph in which one node also names an id that is not a node.\<close>

definition op0 :: "string \<Rightarrow> string list \<Rightarrow> runtime_op" where
  "op0 n deps = \<lparr>op_node_id = n, op_task_type = ''inference'', op_backend = ''vllm'', op_model = ''m'',
     op_data_spec = [], op_model_spec = [], op_inference_spec = [], op_api_spec = [],
     op_dependencies = deps, op_output_spec = None, op_condition = None\<rparr>"

definition graph0 :: "(string \<times> string list) list \<Rightarrow> runtime_graph" where
  "graph0 ns = \<lparr>rg_nodes = map (\<lambda>(n, deps). (n, op0 n deps)) ns, rg_node_order = map fst ns,
     rg_output_node_map = [], rg_output_paths = [], rg_dsl_to_runtime = []\<rparr>"

text \<open>
  \<open>RuntimeGraph.topological_order\<close> raises exactly when the dependencies have a cycle (ids
  that never materialised as nodes included); otherwise it lists every runtime node once, and a
  node comes after every runtime node it depends on.
\<close>

theorem topological_order_correct:
  assumes "rg_wf g"
  shows "case topological_order g of
       Inl e \<Rightarrow> \<not> acyclic (depends g)
     | Inr order \<Rightarrow> acyclic (depends g) \<and> distinct order \<and> set order = node_ids g
         \<and> topo_respects {(u, v). (u, v) \<in> depends g \<and> u \<in> node_ids g} order"
  by (rule topological_order_aux[OF assms])

lemma topological_order_correct_witness:
  "case topological_order (graph0 [(''b'', [''a'', ''input'']), (''a'', [])]) of
     Inl e \<Rightarrow> False
   | Inr order \<Rightarrow> order = [''a'', ''b''] \<and> set order = node_ids (graph0 [(''b'', [''a'', ''input'']), (''a'', [])])"
proof -
  let ?g = "graph0 [(''b'', [''a'', ''input'']), (''a'', [])]"
  have wf: "rg_wf ?g" by (simp add: rg_wf_def graph0_def)
  have "topological_order ?g = Inr [''a'', ''b'']"
    by (simp add: topological_order_def dep_graph_def dep_edges_def graph0_def op0_def add_edge_def
        append_new_def topological_sort_def graph_nodes_def in_degree_def kahn.simps sort_layer_def
        neighbours_def order_index_def)
  then show ?thesis using topological_order_correct[OF wf] by simp
qed

subsection \<open>Merging\<close>

lemma merge_nodes_iff:
  "merge_nodes g ns acc = Inr acc' \<longleftrightarrow>
     distinct ns \<and> set ns \<inter> fst ` set (ma_nodes acc) = {} \<and> set ns \<subseteq> dom (map_of (rg_nodes g))
   \<and> acc' = acc\<lparr>ma_nodes := ma_nodes acc @ map (\<lambda>n. (n, the (map_of (rg_nodes g) n))) ns,
                ma_order := ma_order acc @ ns\<rparr>"
proof (induction ns arbitrary: acc)
  case Nil
  then show ?case by auto
next
  case (Cons n ns)
  show ?case
  proof (cases "map_of (rg_nodes g) n")
    case None
    then show ?thesis by auto
  next
    case (Some op)
    then show ?thesis by (auto simp: Cons.IH)
  qed
qed

definition order_of :: "(string, runtime_graph) dict \<Rightarrow> string list" where
  "order_of gs = concat (map (rg_node_order \<circ> snd) gs)"

definition nodes_of :: "(string, runtime_graph) dict \<Rightarrow> (string, runtime_op) dict" where
  "nodes_of gs = concat (map (\<lambda>p. map (\<lambda>n. (n, the (map_of (rg_nodes (snd p)) n))) (rg_node_order (snd p))) gs)"

lemma fst_nodes_of: "map fst (nodes_of gs) = order_of gs"
  by (induction gs) (auto simp: nodes_of_def order_of_def comp_def)

lemma merge_one_iff:
  "(\<exists>acc'. merge_one gname g acc = Inr acc') \<longleftrightarrow>
     distinct (rg_node_order g) \<and> set (rg_node_order g) \<inter> fst ` set (ma_nodes acc) = {}
   \<and> set (rg_node_order g) \<subseteq> dom (map_of (rg_nodes g))"
proof -
  have "(\<exists>acc'. merge_one gname g acc = Inr acc')
      \<longleftrightarrow> (\<exists>acc1. merge_nodes g (rg_node_order g) acc = Inr acc1)"
    by (auto simp: merge_one_def split: sum.splits)
  then show ?thesis by (simp add: merge_nodes_iff)
qed

lemma merge_one_nodes:
  "merge_one gname g acc = Inr acc' \<Longrightarrow>
     ma_nodes acc' = ma_nodes acc @ nodes_of [(gname, g)] \<and> ma_order acc' = ma_order acc @ rg_node_order g"
  by (auto simp: merge_one_def merge_nodes_iff nodes_of_def split: sum.splits)

lemma merge_graphs_ok_iff:
  "(\<exists>acc'. merge_graphs gs acc = Inr acc') \<longleftrightarrow>
     distinct (order_of gs) \<and> set (order_of gs) \<inter> fst ` set (ma_nodes acc) = {}
   \<and> (\<forall>p \<in> set gs. set (rg_node_order (snd p)) \<subseteq> dom (map_of (rg_nodes (snd p))))"
proof (induction gs arbitrary: acc)
  case Nil
  then show ?case by (simp add: order_of_def)
next
  case (Cons p gs)
  obtain gname g where p: "p = (gname, g)" by force
  have ord: "order_of (p # gs) = rg_node_order g @ order_of gs" by (simp add: order_of_def p)
  show ?case
  proof (cases "merge_one gname g acc")
    case (Inl e)
    then show ?thesis using merge_one_iff[of gname g acc] ord p by auto
  next
    case (Inr acc1)
    have "fst ` set (ma_nodes acc1) = fst ` set (ma_nodes acc) \<union> set (rg_node_order g)"
      using merge_one_nodes[OF Inr] by (simp add: nodes_of_def image_Un image_image)
    then show ?thesis using Inr merge_one_iff[of gname g acc] Cons.IH[of acc1] ord p by auto
  qed
qed

lemma merge_graphs_nodes:
  "merge_graphs gs acc = Inr acc' \<Longrightarrow>
     ma_nodes acc' = ma_nodes acc @ nodes_of gs \<and> ma_order acc' = ma_order acc @ order_of gs"
proof (induction gs arbitrary: acc)
  case Nil
  then show ?case by (simp add: nodes_of_def order_of_def)
next
  case (Cons p gs)
  obtain gname g where p: "p = (gname, g)" by force
  then obtain acc1 where acc1: "merge_one gname g acc = Inr acc1" "merge_graphs gs acc1 = Inr acc'"
    using Cons.prems by (auto split: sum.splits)
  show ?case using merge_one_nodes[OF acc1(1)] Cons.IH[OF acc1(2)]
    by (simp add: p nodes_of_def order_of_def)
qed

text \<open>
  \<open>merge_runtime_graphs\<close> succeeds exactly when no node id is listed twice over all the graphs
  and every listed id is a node of its graph; the merged graph then holds each graph's nodes,
  in the graphs' order, each with its own operation.
\<close>

theorem merge_runtime_graphs_correct:
  "(case merge_runtime_graphs gs of
      Inl _ \<Rightarrow> \<not> (distinct (order_of gs)
        \<and> (\<forall>p \<in> set gs. set (rg_node_order (snd p)) \<subseteq> dom (map_of (rg_nodes (snd p)))))
    | Inr (g, _) \<Rightarrow> distinct (order_of gs) \<and> rg_node_order g = order_of gs
        \<and> map fst (rg_nodes g) = order_of gs
        \<and> (\<forall>p \<in> set gs. \<forall>n \<in> set (rg_node_order (snd p)). map_of (rg_nodes g) n = map_of (rg_nodes (snd p)) n))"
proof -
  let ?a = "\<lparr>ma_nodes = [], ma_order = [], ma_outputs = [], ma_paths = [], ma_dsl = [], ma_mapping = []\<rparr>"
  show ?thesis
  proof (cases "merge_graphs gs ?a")
    case (Inl e)
    then show ?thesis using merge_graphs_ok_iff[of gs ?a] by (auto simp: merge_runtime_graphs_def)
  next
    case (Inr acc)
    then have ok: "distinct (order_of gs)"
      "\<forall>p \<in> set gs. set (rg_node_order (snd p)) \<subseteq> dom (map_of (rg_nodes (snd p)))"
      using merge_graphs_ok_iff[of gs ?a] by auto
    have nodes: "ma_nodes acc = nodes_of gs" "ma_order acc = order_of gs"
      using merge_graphs_nodes[OF Inr] by auto
    have "map_of (nodes_of gs) n = map_of (rg_nodes (snd p)) n"
      if "p \<in> set gs" "n \<in> set (rg_node_order (snd p))" for p n
    proof -
      have "(n, the (map_of (rg_nodes (snd p)) n)) \<in> set (nodes_of gs)"
        using that by (force simp: nodes_of_def)
      moreover have "distinct (map fst (nodes_of gs))" using ok by (simp add: fst_nodes_of)
      ultimately have "map_of (nodes_of gs) n = Some (the (map_of (rg_nodes (snd p)) n))" by simp
      moreover have "n \<in> dom (map_of (rg_nodes (snd p)))" using ok(2) that by blast
      ultimately show ?thesis by auto
    qed
    then show ?thesis using Inr ok nodes
      by (simp add: merge_runtime_graphs_def fst_nodes_of)
  qed
qed

lemma merge_runtime_graphs_correct_witness:
  "(case merge_runtime_graphs [(''g'', graph0 [(''a'', [])]), (''h'', graph0 [(''b'', [''a''])])] of
      Inl _ \<Rightarrow> False | Inr (g, _) \<Rightarrow> rg_node_order g = [''a'', ''b''])
   \<and> (\<exists>e. merge_runtime_graphs [(''g'', graph0 [(''a'', [])]), (''h'', graph0 [(''a'', [])])] = Inl e)"
proof
  let ?gs = "[(''g'', graph0 [(''a'', [])]), (''h'', graph0 [(''b'', [''a''])])]"
  have "distinct (order_of ?gs)
      \<and> (\<forall>p \<in> set ?gs. set (rg_node_order (snd p)) \<subseteq> dom (map_of (rg_nodes (snd p))))"
    by (simp add: order_of_def graph0_def)
  then show "case merge_runtime_graphs ?gs of Inl _ \<Rightarrow> False | Inr (g, _) \<Rightarrow> rg_node_order g = [''a'', ''b'']"
    using merge_runtime_graphs_correct[of ?gs]
    by (auto simp: order_of_def graph0_def split: sum.splits)
  have "\<not> distinct (order_of [(''g'', graph0 [(''a'', [])]), (''h'', graph0 [(''a'', [])])])"
    by (simp add: order_of_def graph0_def)
  then show "\<exists>e. merge_runtime_graphs [(''g'', graph0 [(''a'', [])]), (''h'', graph0 [(''a'', [])])] = Inl e"
    using merge_runtime_graphs_correct[of "[(''g'', graph0 [(''a'', [])]), (''h'', graph0 [(''a'', [])])]"]
    by (cases "merge_runtime_graphs [(''g'', graph0 [(''a'', [])]), (''h'', graph0 [(''a'', [])])]") auto
qed

end
