(* ===== verification/Job_Types.thy ===== *)
theory Job_Types
  imports Runtime_Graph
begin

section \<open>Request and work-item data\<close>

text \<open>
  The data classes of \<open>runtime/protocol.py\<close>, \<open>runtime/request.py\<close> and
  \<open>runtime/job_manager/base.py\<close> that queueing and dispatch read. A \<open>CompiledGraph\<close> (the DSL
  graph) is carried but never inspected by these components, so it is left out of an item.
\<close>

datatype priority = HIGH | MEDIUM | LOW

text \<open>The iteration order of the enumeration.\<close>

definition priorities :: "priority list" where
  "priorities = [HIGH, MEDIUM, LOW]"

record hardware_requirements =
  hw_cpu :: "int option"
  hw_memory :: "string option"
  hw_gpu :: "int option"
  hw_gpu_memory :: "string option"
  hw_gpu_model :: "string option"

record request_config =
  rc_priority :: priority
  rc_user_id :: string
  rc_org_id :: string
  rc_principal_id :: string
  rc_optimizer_type :: "string option"
  rc_hardware :: "hardware_requirements option"
  rc_chain_id :: "string option"
  rc_chain_round :: nat

record slice_meta =
  sm_public_graph_name :: string
  sm_slice_index :: int
  sm_slice_start :: int
  sm_slice_length :: int
  sm_total_length :: int
  sm_template_hash :: string
  sm_varying_input_keys :: "string list"

record workflow_item =
  wi_id :: string
  wi_request_id :: string
  wi_graph_name :: string
  wi_slice :: slice_meta
  wi_graph :: runtime_graph
  wi_profile_graph :: runtime_graph
  wi_config :: request_config
  wi_enqueued_at :: real
  wi_dispatch_token :: "string option"
  wi_credential_digest :: "string option"
  wi_miss_count :: nat
  wi_requires_gpu :: bool

record job =
  jb_request_id :: string
  jb_graphs :: "(string, runtime_graph) dict"
  jb_profile_graphs :: "(string, runtime_graph) dict"
  jb_slices :: "(string, slice_meta) dict"
  jb_config :: request_config
  jb_dispatch_token :: "string option"
  jb_credential_digest :: "string option"
  jb_requires_gpu :: "(string, bool) dict"

record batch_selection =
  bs_workflows :: "workflow_item list"
  bs_graphs :: "(string, runtime_graph) dict"
  bs_profile_graphs :: "(string, runtime_graph) dict"
  bs_config :: request_config

datatype abort_reason = POLICY | CAPACITY

text \<open>The key of a chain: \<open>item.config.chain_id or item.request_id\<close>.\<close>

definition chain_key :: "workflow_item \<Rightarrow> string" where
  "chain_key it = or_default (rc_chain_id (wi_config it)) (wi_request_id it)"

definition user_of :: "workflow_item \<Rightarrow> string" where
  "user_of it = rc_user_id (wi_config it)"

text \<open>The operations of an item's runtime graph, and their task types.\<close>

definition ops_of :: "runtime_graph \<Rightarrow> runtime_op list" where
  "ops_of g = map snd (rg_nodes g)"

definition task_types_of :: "runtime_graph \<Rightarrow> string list" where
  "task_types_of g = map op_task_type (ops_of g)"

text \<open>Example items.\<close>

definition config0 :: "string \<Rightarrow> request_config" where
  "config0 user = \<lparr>rc_priority = MEDIUM, rc_user_id = user, rc_org_id = ''org'', rc_principal_id = user,
     rc_optimizer_type = None, rc_hardware = None, rc_chain_id = None, rc_chain_round = 0\<rparr>"

definition slice0 :: slice_meta where
  "slice0 = \<lparr>sm_public_graph_name = ''g'', sm_slice_index = 0, sm_slice_start = 0, sm_slice_length = 1,
     sm_total_length = 1, sm_template_hash = ''h'', sm_varying_input_keys = []\<rparr>"

definition item0 :: "string \<Rightarrow> string \<Rightarrow> real \<Rightarrow> runtime_graph \<Rightarrow> workflow_item" where
  "item0 wid user t g = \<lparr>wi_id = wid, wi_request_id = wid, wi_graph_name = ''g'', wi_slice = slice0,
     wi_graph = g, wi_profile_graph = g, wi_config = config0 user, wi_enqueued_at = t,
     wi_dispatch_token = None, wi_credential_digest = None, wi_miss_count = 0, wi_requires_gpu = False\<rparr>"

end
