(* ===== verification/Capacity.thy ===== *)
theory Capacity
  imports Job_Types
begin

section \<open>Worker capacity: what is idle, what a batch may claim\<close>

text \<open>
  \<open>runtime/worker_capability.py\<close>, \<open>runtime/capacity.py\<close> (\<open>FreeCapacity\<close>), the hardware filter and
  the claim and release of workers of \<open>runtime/server.py\<close>, and \<open>parse_memory_to_bytes\<close> of
  \<open>utils/utils.py\<close>. A worker profile is the raw JSON the FlowMesh service returns; a section of the
  wrong JSON type, on which Python would raise, counts as absent. Group sizes are natural numbers
  (the environment check refuses negative ones).
\<close>

type_synonym profile = "(string, json) dict"

subsection \<open>Task types\<close>

definition CAPABILITY_GATED_TASK_TYPES :: "string list" where
  "CAPABILITY_GATED_TASK_TYPES = [''python'']"

definition CPU_ONLY_TASK_TYPES :: "string list" where
  "CPU_ONLY_TASK_TYPES = [''data_retrieval'', ''api'', ''python'']"

text \<open>
  \<open>advertised_task_types\<close>: entries that are not strings are stringified by the code; such a
  string is never a gated task type, so they are dropped here.
\<close>

definition advertised_task_types :: "profile \<Rightarrow> string set" where
  "advertised_task_types p =
     (case map_of p ''supported_task_types'' of
        Some (JList vs) \<Rightarrow> set (concat (map (\<lambda>v. case v of JStr s \<Rightarrow> [s] | _ \<Rightarrow> []) vs))
      | _ \<Rightarrow> {})"

definition required_task_types :: "string list \<Rightarrow> string set" where
  "required_task_types tts = set (filter (\<lambda>t. t \<in> set tts) CAPABILITY_GATED_TASK_TYPES)"

definition requires_cpu_worker :: "string list \<Rightarrow> bool" where
  "requires_cpu_worker tts = (\<exists>t \<in> set tts. py_lower (py_strip t) \<in> set CPU_ONLY_TASK_TYPES)"

subsection \<open>The free-capacity snapshot\<close>

record free_capacity =
  fc_cpu :: "string list"
  fc_gpu :: "string list"
  fc_profiles :: "(string, profile) dict"

type_synonym hw_check = "profile \<Rightarrow> hardware_requirements option \<Rightarrow> bool"

definition profile_of :: "free_capacity \<Rightarrow> string \<Rightarrow> profile" where
  "profile_of fc w = (case map_of (fc_profiles fc) w of None \<Rightarrow> [] | Some p \<Rightarrow> p)"

definition fc_is_empty :: "free_capacity \<Rightarrow> bool" where
  "fc_is_empty fc = (fc_cpu fc = [] \<and> fc_gpu fc = [])"

definition advertises :: "free_capacity \<Rightarrow> string set \<Rightarrow> string \<Rightarrow> bool" where
  "advertises fc req w = (req \<subseteq> advertised_task_types (profile_of fc w))"

definition has_cpu_worker_advertising :: "free_capacity \<Rightarrow> string set \<Rightarrow> bool" where
  "has_cpu_worker_advertising fc req = (\<exists>w \<in> set (fc_cpu fc). advertises fc req w)"

definition can_satisfy :: "free_capacity \<Rightarrow> nat \<Rightarrow> nat \<Rightarrow> bool" where
  "can_satisfy fc cpu gpu = (cpu \<le> length (fc_cpu fc) \<and> gpu \<le> length (fc_gpu fc))"

definition meeting_hardware ::
  "free_capacity \<Rightarrow> string list \<Rightarrow> hw_check \<Rightarrow> hardware_requirements option \<Rightarrow> string list" where
  "meeting_hardware fc ws check hw =
     (if fc_profiles fc = [] then ws else filter (\<lambda>w. check (profile_of fc w) hw) ws)"

definition eligible_workers ::
  "free_capacity \<Rightarrow> nat \<Rightarrow> nat \<Rightarrow> hw_check \<Rightarrow> hardware_requirements option \<Rightarrow> string set
    \<Rightarrow> (string list \<times> string list) option" where
  "eligible_workers fc cpu gpu check hw req =
     (if length (fc_cpu fc) < cpu \<or> length (fc_gpu fc) < gpu then None
      else if req \<noteq> {} \<and> (cpu < 1 \<or> fc_profiles fc = []) then None
      else if fc_profiles fc = [] then Some (take cpu (fc_cpu fc), take gpu (fc_gpu fc))
      else
        let ec = meeting_hardware fc (fc_cpu fc) check hw;
            eg = meeting_hardware fc (fc_gpu fc) check hw
        in if length ec < cpu \<or> length eg < gpu then None
           else
             let selected = take cpu ec
             in if req = {} then Some (selected, take gpu eg)
                else case filter (advertises fc req) ec of
                    [] \<Rightarrow> None
                  | best # others \<Rightarrow>
                      if \<exists>w \<in> set selected. w \<in> set (best # others)
                      then Some (selected, take gpu eg)
                      else Some (selected[length selected - 1 := best], take gpu eg))"

definition can_satisfy_hardware ::
  "free_capacity \<Rightarrow> nat \<Rightarrow> nat \<Rightarrow> hw_check \<Rightarrow> hardware_requirements option \<Rightarrow> bool" where
  "can_satisfy_hardware fc cpu gpu check hw = (eligible_workers fc cpu gpu check hw {} \<noteq> None)"

text \<open>\<open>min(counts, default=0)\<close>.\<close>

fun min_or_zero :: "nat list \<Rightarrow> nat" where
  "min_or_zero [] = 0"
| "min_or_zero (c # cs) = min_by (\<lambda>n. n) c cs"

definition dispatch_count ::
  "free_capacity \<Rightarrow> nat \<Rightarrow> nat \<Rightarrow> hw_check \<Rightarrow> hardware_requirements option \<Rightarrow> string set \<Rightarrow> nat" where
  "dispatch_count fc cpu gpu check hw req =
     (let ec = meeting_hardware fc (fc_cpu fc) check hw;
          eg = meeting_hardware fc (fc_gpu fc) check hw;
          counts = (if 0 < cpu then [length ec div cpu] else []) @ (if 0 < gpu then [length eg div gpu] else [])
      in if req \<noteq> {} \<and> (cpu < 1 \<or> fc_profiles fc = []) then 0
         else
           min_or_zero (if req = {} then counts else counts @ [length (filter (advertises fc req) ec)]))"

subsection \<open>The hardware filter\<close>

definition units :: "(string \<times> int) list" where
  "units = [(''Ki'', 1024), (''Mi'', 1024 ^ 2), (''Gi'', 1024 ^ 3), (''Ti'', 1024 ^ 4)]"

definition all_digits :: "string \<Rightarrow> bool" where
  "all_digits s = (s \<noteq> [] \<and> list_all is_digit s)"

fun parse_memory_units :: "(string \<times> int) list \<Rightarrow> string \<Rightarrow> int option" where
  "parse_memory_units [] v = None"
| "parse_memory_units ((sfx, scale) # us) v =
     (let k = length v - length sfx; head = take k v
      in if length sfx \<le> length v \<and> drop k v = sfx \<and> all_digits head
         then Some (int (nat_of_digits 0 head) * scale)
         else parse_memory_units us v)"

definition parse_memory_to_bytes :: "string \<Rightarrow> int option" where
  "parse_memory_to_bytes v = parse_memory_units units v"

text \<open>\<open>(profile.get(section) or {}).get(key)\<close>, and \<open>isinstance(v, int)\<close> (a bool is an int).\<close>

definition section_value :: "profile \<Rightarrow> string \<Rightarrow> string \<Rightarrow> json option" where
  "section_value p sec key =
     (case map_of p sec of Some (JDict d) \<Rightarrow> map_of d key | _ \<Rightarrow> None)"

definition int_value :: "json option \<Rightarrow> int option" where
  "int_value v =
     (case v of Some (JInt i) \<Rightarrow> Some i | Some (JBool b) \<Rightarrow> Some (if b then 1 else 0) | _ \<Rightarrow> None)"

definition gpu_devices :: "profile \<Rightarrow> json list" where
  "gpu_devices p = (case section_value p ''gpu'' ''devices'' of Some (JList ds) \<Rightarrow> ds | _ \<Rightarrow> [])"

definition has_gpu :: "profile \<Rightarrow> bool" where
  "has_gpu p = (gpu_devices p \<noteq> [])"

fun contains :: "string \<Rightarrow> string \<Rightarrow> bool" where
  "contains w [] = (w = [])"
| "contains w (c # s) = (take (length w) (c # s) = w \<or> contains w s)"

fun device_vram :: "json \<Rightarrow> int option" where
  "device_vram (JDict d) = int_value (map_of d ''memory_total_bytes'')"
| "device_vram _ = None"

fun device_name :: "json \<Rightarrow> string option" where
  "device_name (JDict d) = (case map_of d ''name'' of Some (JStr s) \<Rightarrow> Some s | _ \<Rightarrow> None)"
| "device_name _ = None"

text \<open>The loop over the devices' names: found, or the flag \<open>saw_name\<close> decides.\<close>

fun model_loop :: "string \<Rightarrow> bool \<Rightarrow> json list \<Rightarrow> bool" where
  "model_loop wanted saw [] = (\<not> saw)"
| "model_loop wanted saw (d # ds) =
     (case device_name d of
        None \<Rightarrow> model_loop wanted saw ds
      | Some name \<Rightarrow> if contains wanted (py_lower name) then True else model_loop wanted True ds)"

text \<open>\<open>_worker_meets_hardware\<close>: \<open>unknown or not below\<close> for every constrained quantity.\<close>

definition not_below :: "int option \<Rightarrow> int option \<Rightarrow> bool" where
  "not_below have need =
     (case (have, need) of (Some h, Some n) \<Rightarrow> n \<le> h | _ \<Rightarrow> True)"

definition worker_meets_hardware :: hw_check where
  "worker_meets_hardware p hardware =
     (case hardware of
        None \<Rightarrow> True
      | Some hw \<Rightarrow>
          if \<not> not_below (int_value (section_value p ''cpu'' ''logical_cores'')) (hw_cpu hw) then False
          else if \<not> not_below (int_value (section_value p ''memory'' ''total_bytes''))
                   (Option.bind (hw_memory hw) parse_memory_to_bytes) then False
          else if \<not> has_gpu p then True
          else
            let ds = gpu_devices p
            in if (case hw_gpu hw of None \<Rightarrow> False | Some n \<Rightarrow> int (length ds) < n) then False
               else if \<exists>d \<in> set ds. \<not> not_below (device_vram d)
                        (Option.bind (hw_gpu_memory hw) parse_memory_to_bytes) then False
               else case hw_gpu_model hw of
                   None \<Rightarrow> True
                 | Some m \<Rightarrow> model_loop (py_lower m) False ds)"

subsection \<open>Snapshots\<close>

text \<open>
  \<open>_snapshot_free_capacity\<close> and \<open>_snapshot_total_capacity\<close>: the runtime manager's answers are
  parameters, the worker list and a profile lookup that may fail (such a worker is skipped).
\<close>

fun snapshot :: "(string \<Rightarrow> profile option) \<Rightarrow> string list \<Rightarrow> free_capacity" where
  "snapshot get_profile [] = \<lparr>fc_cpu = [], fc_gpu = [], fc_profiles = []\<rparr>"
| "snapshot get_profile (w # ws) =
     (let fc = snapshot get_profile ws
      in case get_profile w of
           None \<Rightarrow> fc
         | Some p \<Rightarrow>
             (if has_gpu p
              then fc\<lparr>fc_gpu := w # fc_gpu fc, fc_profiles := (w, p) # fc_profiles fc\<rparr>
              else fc\<lparr>fc_cpu := w # fc_cpu fc, fc_profiles := (w, p) # fc_profiles fc\<rparr>))"

definition snapshot_free_capacity ::
  "(string \<Rightarrow> profile option) \<Rightarrow> string list \<Rightarrow> string set \<Rightarrow> free_capacity" where
  "snapshot_free_capacity get_profile workers busy =
     snapshot get_profile (filter (\<lambda>w. w \<notin> busy) workers)"

definition snapshot_total_capacity :: "(string \<Rightarrow> profile option) \<Rightarrow> string list \<Rightarrow> free_capacity" where
  "snapshot_total_capacity get_profile workers = snapshot get_profile workers"

subsection \<open>Claiming and releasing workers\<close>

definition runtime_op_requires_gpu :: "runtime_op \<Rightarrow> bool" where
  "runtime_op_requires_gpu op =
     (py_lower (py_strip (op_backend op)) \<in> {''vllm'', ''transformers'', ''diffusers''}
    \<or> py_lower (py_strip (op_task_type op)) \<in> {''inference'', ''embedding'', ''diffusion''})"

definition batch_ops :: "batch_selection \<Rightarrow> runtime_op list" where
  "batch_ops b = concat (map (\<lambda>(_, g). ops_of g) (bs_graphs b))"

definition batch_requires_gpu :: "batch_selection \<Rightarrow> bool" where
  "batch_requires_gpu b = (\<exists>op \<in> set (batch_ops b). runtime_op_requires_gpu op)"

definition batch_required_task_types :: "batch_selection \<Rightarrow> string set" where
  "batch_required_task_types b = required_task_types (map op_task_type (batch_ops b))"

definition batch_requires_cpu :: "batch_selection \<Rightarrow> bool" where
  "batch_requires_cpu b = requires_cpu_worker (map op_task_type (batch_ops b))"

record server_config =
  sc_cpu_group :: nat
  sc_gpu_group :: nat

definition claim_sizes :: "server_config \<Rightarrow> batch_selection \<Rightarrow> nat \<times> nat" where
  "claim_sizes cfg b =
     (if batch_requires_cpu b \<and> sc_cpu_group cfg = 0 then 1 else sc_cpu_group cfg,
      if batch_requires_gpu b then sc_gpu_group cfg else 0)"

text \<open>
  The workers \<open>_try_claim_workers\<close> picks: when the gated task types cannot be served and no worker
  of the whole cluster advertises them, the batch is claimed as if it were unconstrained.
\<close>

definition claim_selection ::
  "server_config \<Rightarrow> batch_selection \<Rightarrow> free_capacity \<Rightarrow> free_capacity \<Rightarrow> (string list \<times> string list) option" where
  "claim_selection cfg b free whole =
     (let (cpu, gpu) = claim_sizes cfg b;
          hw = rc_hardware (bs_config b);
          req = batch_required_task_types b
      in case eligible_workers free cpu gpu worker_meets_hardware hw req of
           Some sel \<Rightarrow> Some sel
         | None \<Rightarrow>
             if req \<noteq> {} \<and> \<not> has_cpu_worker_advertising whole req
             then eligible_workers free cpu gpu worker_meets_hardware hw {}
             else None)"

definition try_claim_workers ::
  "server_config \<Rightarrow> batch_selection \<Rightarrow> free_capacity \<Rightarrow> free_capacity \<Rightarrow> string set
    \<Rightarrow> string list option \<times> string set" where
  "try_claim_workers cfg b free whole busy =
     (case claim_selection cfg b free whole of
        None \<Rightarrow> (None, busy)
      | Some (cs, gs) \<Rightarrow>
          (let ws = gs @ cs
           in if ws = [] then (None, busy)
              else if \<exists>w \<in> set ws. w \<in> busy then (None, busy)
              else (Some ws, busy \<union> set ws)))"

definition release_workers :: "string list \<Rightarrow> string set \<Rightarrow> string set" where
  "release_workers ws busy = busy - set ws"

subsection \<open>What the search for workers finds\<close>

lemma meeting_hardware_subset: "set (meeting_hardware fc ws check hw) \<subseteq> set ws"
  by (auto simp: meeting_hardware_def)

lemma distinct_meeting_hardware: "distinct ws \<Longrightarrow> distinct (meeting_hardware fc ws check hw)"
  by (auto simp: meeting_hardware_def)

definition eligible :: "free_capacity \<Rightarrow> hw_check \<Rightarrow> hardware_requirements option \<Rightarrow> string \<Rightarrow> bool" where
  "eligible fc check hw w \<longleftrightarrow> fc_profiles fc = [] \<or> check (profile_of fc w) hw"

lemma set_meeting_hardware:
  "set (meeting_hardware fc ws check hw) = {w \<in> set ws. eligible fc check hw w}"
  by (auto simp: meeting_hardware_def eligible_def)

text \<open>The exact condition under which the search succeeds.\<close>

definition enough ::
  "free_capacity \<Rightarrow> nat \<Rightarrow> nat \<Rightarrow> hw_check \<Rightarrow> hardware_requirements option \<Rightarrow> string set \<Rightarrow> bool" where
  "enough fc cpu gpu check hw req \<longleftrightarrow>
     cpu \<le> length (meeting_hardware fc (fc_cpu fc) check hw)
   \<and> gpu \<le> length (meeting_hardware fc (fc_gpu fc) check hw)
   \<and> (req = {} \<or> (0 < cpu \<and> fc_profiles fc \<noteq> []
        \<and> (\<exists>w \<in> set (meeting_hardware fc (fc_cpu fc) check hw). advertises fc req w)))"

lemma meeting_hardware_length: "length (meeting_hardware fc ws check hw) \<le> length ws"
  by (simp add: meeting_hardware_def)

lemma eligible_workers_iff:
  "(\<exists>sel. eligible_workers fc cpu gpu check hw req = Some sel) \<longleftrightarrow> enough fc cpu gpu check hw req"
proof (cases "fc_profiles fc = []")
  case True
  then show ?thesis by (auto simp: eligible_workers_def enough_def meeting_hardware_def)
next
  case False
  let ?ec = "meeting_hardware fc (fc_cpu fc) check hw" and ?eg = "meeting_hardware fc (fc_gpu fc) check hw"
  have len: "length ?ec \<le> length (fc_cpu fc)" "length ?eg \<le> length (fc_gpu fc)"
    by (rule meeting_hardware_length)+
  have "filter (advertises fc req) ?ec = [] \<longleftrightarrow> \<not> (\<exists>w \<in> set ?ec. advertises fc req w)"
    by (simp add: filter_empty_conv)
  then show ?thesis using False len
    by (auto simp: eligible_workers_def enough_def Let_def split: list.split)
qed

lemma distinct_update_last:
  assumes "distinct xs" "x \<notin> set xs" "xs \<noteq> []"
  shows "distinct (xs[length xs - 1 := x])"
  using assms by (intro distinct_list_update) auto

lemma eligible_workers_lengths:
  assumes "eligible_workers fc cpu gpu check hw req = Some (cs, gs)"
  shows "length cs = cpu \<and> length gs = gpu \<and> gs = take gpu (meeting_hardware fc (fc_gpu fc) check hw)"
  using assms
  by (auto simp: eligible_workers_def Let_def meeting_hardware_def min_def split: if_splits list.splits)

lemma eligible_workers_cpu:
  assumes "eligible_workers fc cpu gpu check hw req = Some (cs, gs)"
  shows "set cs \<subseteq> set (meeting_hardware fc (fc_cpu fc) check hw)"
    and "distinct (fc_cpu fc) \<Longrightarrow> distinct cs"
    and "req = {} \<or> (\<exists>w \<in> set cs. advertises fc req w)"
proof -
  let ?ec = "meeting_hardware fc (fc_cpu fc) check hw"
  let ?sel = "take cpu ?ec"
  let ?cap = "filter (advertises fc req) ?ec"
  consider (plain) "req = {}" "cs = ?sel"
    | (has) w where "req \<noteq> {}" "cs = ?sel" "w \<in> set ?sel" "advertises fc req w"
    | (swap) best others where "req \<noteq> {}" "cs = ?sel[length ?sel - 1 := best]" "?cap = best # others"
        "\<not> (\<exists>w \<in> set ?sel. w \<in> set ?cap)" "0 < cpu" "cpu \<le> length ?ec"
  proof (cases "req = {}")
    case True
    then have "cs = ?sel"
      using assms by (auto simp: eligible_workers_def Let_def meeting_hardware_def split: if_splits)
    with True show thesis by (rule plain)
  next
    case False
    then have p: "fc_profiles fc \<noteq> []" "0 < cpu" "cpu \<le> length ?ec"
      using assms by (auto simp: eligible_workers_def Let_def split: if_splits)
    show thesis
    proof (cases ?cap)
      case Nil
      then show thesis using assms False p by (simp add: eligible_workers_def Let_def split: if_splits)
    next
      case (Cons best others)
      show thesis
      proof (cases "\<exists>w \<in> set ?sel. w \<in> set ?cap")
        case True
        then have "cs = ?sel"
          using assms False p Cons by (auto simp: eligible_workers_def Let_def split: if_splits)
        moreover obtain w where "w \<in> set ?sel" "advertises fc req w" using True by auto
        ultimately show thesis using False has by blast
      next
        case no: False
        then have "cs = ?sel[length ?sel - 1 := best]"
          using assms False p Cons by (auto simp: eligible_workers_def Let_def split: if_splits)
        then show thesis using swap False Cons no p by blast
      qed
    qed
  qed
  then have "set cs \<subseteq> set ?ec \<and> (distinct (fc_cpu fc) \<longrightarrow> distinct cs)
      \<and> (req = {} \<or> (\<exists>w \<in> set cs. advertises fc req w))"
  proof cases
    case plain
    then show ?thesis
      by (auto simp: distinct_take distinct_meeting_hardware dest: in_set_takeD)
  next
    case (has w)
    then show ?thesis
      by (auto simp: distinct_take distinct_meeting_hardware dest: in_set_takeD)
  next
    case (swap best others)
    have "best \<in> set ?cap" using swap(3) by simp
    then have best: "best \<in> set ?ec" "advertises fc req best" "best \<notin> set ?sel"
      using swap(4) by auto
    have ne: "?sel \<noteq> []" and lt: "length ?sel - 1 < length ?sel" using swap(5,6) by auto
    have "set cs \<subseteq> insert best (set ?sel)"
      using swap(2) set_update_subset_insert by metis
    moreover have "best \<in> set cs"
      unfolding swap(2) by (rule set_update_memI) (rule lt)
    moreover have "distinct cs" if "distinct (fc_cpu fc)"
      unfolding swap(2)
      using that best(3) ne by (intro distinct_update_last distinct_take distinct_meeting_hardware)
    ultimately show ?thesis using best by (auto dest: in_set_takeD)
  qed
  then show "set cs \<subseteq> set ?ec" and "distinct (fc_cpu fc) \<Longrightarrow> distinct cs"
    and "req = {} \<or> (\<exists>w \<in> set cs. advertises fc req w)" by auto
qed

text \<open>
  C5. \<open>FreeCapacity.eligible_workers\<close> finds a group exactly when one exists, and what it returns
  is one: the group sizes are the ones asked for, every worker is idle, of its class, not repeated
  and meets the hardware (when profiles are known), and the CPU group holds a worker that
  advertises every gated task type the batch needs.
\<close>

theorem eligible_workers_correct:
  assumes "distinct (fc_cpu fc)" "distinct (fc_gpu fc)"
  shows "case eligible_workers fc cpu gpu check hw req of
       None \<Rightarrow> \<not> enough fc cpu gpu check hw req
     | Some (cs, gs) \<Rightarrow> length cs = cpu \<and> length gs = gpu \<and> distinct cs \<and> distinct gs
         \<and> set cs \<subseteq> {w \<in> set (fc_cpu fc). eligible fc check hw w}
         \<and> set gs \<subseteq> {w \<in> set (fc_gpu fc). eligible fc check hw w}
         \<and> (req = {} \<or> (\<exists>w \<in> set cs. advertises fc req w))"
proof (cases "eligible_workers fc cpu gpu check hw req")
  case None
  then show ?thesis using eligible_workers_iff[of fc cpu gpu check hw req] by auto
next
  case (Some sel)
  obtain cs gs where sel: "sel = (cs, gs)" by force
  note E = Some[unfolded sel]
  have "set gs \<subseteq> set (meeting_hardware fc (fc_gpu fc) check hw)" "distinct gs"
    using eligible_workers_lengths[OF E] assms(2)
    by (auto simp: distinct_take distinct_meeting_hardware dest: in_set_takeD)
  then show ?thesis
    using Some sel conjunct1[OF eligible_workers_lengths[OF E]]
      conjunct1[OF conjunct2[OF eligible_workers_lengths[OF E]]] eligible_workers_cpu[OF E] assms(1)
    by (simp add: set_meeting_hardware)
qed

lemma min_or_zero_pos: "0 < min_or_zero xs \<longleftrightarrow> xs \<noteq> [] \<and> (\<forall>n \<in> set xs. 0 < n)"
proof (cases xs)
  case Nil
  then show ?thesis by simp
next
  case (Cons c cs)
  then show ?thesis
    using min_by_in[of "\<lambda>n. n" c cs] min_by_le[of _ c cs "\<lambda>n. n"]
    by (metis bot_nat_0.not_eq_extremum le_zero_eq list.distinct(1) list.simps(15) min_or_zero.simps(2))
qed

declare min_or_zero.simps [simp del]

lemma div_pos_iff_le: "0 < g \<Longrightarrow> 0 < (n div g :: nat) \<longleftrightarrow> g \<le> n"
  by (simp add: div_greater_zero_iff)

text \<open>
  Selection and claim cannot drift apart: for a dispatch that claims at least one class of
  workers, \<open>dispatch_count\<close> is positive exactly when \<open>eligible_workers\<close> finds a group.
\<close>

theorem dispatch_count_pos_iff_eligible:
  assumes "0 < cpu \<or> 0 < gpu"
  shows "0 < dispatch_count fc cpu gpu check hw req
     \<longleftrightarrow> (\<exists>sel. eligible_workers fc cpu gpu check hw req = Some sel)"
proof -
  let ?ec = "meeting_hardware fc (fc_cpu fc) check hw"
  have "0 < length (filter (advertises fc req) ?ec) \<longleftrightarrow> (\<exists>w \<in> set ?ec. advertises fc req w)"
    by (auto simp: filter_empty_conv)
  then show ?thesis
    unfolding eligible_workers_iff
    using assms
    by (cases "req = {}") (auto simp: dispatch_count_def enough_def Let_def min_or_zero_pos div_pos_iff_le)
qed

text \<open>A two-worker cluster: a plain CPU worker and one that advertises python.\<close>

definition capacity0 :: free_capacity where
  "capacity0 = \<lparr>fc_cpu = [''a'', ''b''], fc_gpu = [],
     fc_profiles = [(''a'', []), (''b'', [(''supported_task_types'', JList [JStr ''python''])])]\<rparr>"

theorem eligible_workers_correct_witness:
  "eligible_workers capacity0 1 0 worker_meets_hardware None {''python''} = Some ([''b''], [])
   \<and> advertises capacity0 {''python''} ''b''"
proof -
  have E: "eligible_workers capacity0 1 0 worker_meets_hardware None {''python''} = Some ([''b''], [])"
    by (simp add: eligible_workers_def capacity0_def meeting_hardware_def worker_meets_hardware_def
        advertises_def profile_of_def advertised_task_types_def)
  have "distinct (fc_cpu capacity0)" "distinct (fc_gpu capacity0)"
    by (simp_all add: capacity0_def)
  from eligible_workers_correct[OF this, of 1 0 worker_meets_hardware None "{''python''}"] E
  show ?thesis by simp
qed

theorem dispatch_count_pos_iff_eligible_witness:
  "0 < dispatch_count capacity0 1 0 worker_meets_hardware None {}"
proof -
  have "\<exists>sel. eligible_workers capacity0 1 0 worker_meets_hardware None {} = Some sel"
    by (simp add: eligible_workers_def capacity0_def meeting_hardware_def worker_meets_hardware_def)
  then show ?thesis
    using dispatch_count_pos_iff_eligible[of 1 0 capacity0 worker_meets_hardware None "{}"] by simp
qed

subsection \<open>Dispatches in flight\<close>

text \<open>
  The workers of the dispatches that are running, newest first, beside \<open>_busy_workers\<close>. A claim is
  made from a snapshot \<open>free\<close> that may be stale by then: other dispatches may have claimed or
  released workers since it was taken, so it is unconstrained here.
\<close>

record worker_pool =
  wp_busy :: "string set"
  wp_flights :: "string list list"

inductive pool_step :: "server_config \<Rightarrow> worker_pool \<Rightarrow> worker_pool \<Rightarrow> bool"
  for cfg :: server_config where
  claim: "try_claim_workers cfg b free whole (wp_busy s) = (Some ws, busy') \<Longrightarrow>
     pool_step cfg s \<lparr>wp_busy = busy', wp_flights = ws # wp_flights s\<rparr>"
| refused: "try_claim_workers cfg b free whole (wp_busy s) = (None, busy') \<Longrightarrow>
     pool_step cfg s (s\<lparr>wp_busy := busy'\<rparr>)"
| release: "ws \<in> set (wp_flights s) \<Longrightarrow>
     pool_step cfg s \<lparr>wp_busy = release_workers ws (wp_busy s), wp_flights = remove1 ws (wp_flights s)\<rparr>"

inductive_cases pool_stepE: "pool_step cfg s t"

inductive pool_reachable :: "server_config \<Rightarrow> worker_pool \<Rightarrow> bool" for cfg :: server_config where
  start: "pool_reachable cfg \<lparr>wp_busy = {}, wp_flights = []\<rparr>"
| step: "pool_reachable cfg s \<Longrightarrow> pool_step cfg s t \<Longrightarrow> pool_reachable cfg t"

text \<open>No worker serves two dispatches, and the busy workers are exactly those that serve one.\<close>

fun disjoint_flights :: "string list list \<Rightarrow> bool" where
  "disjoint_flights [] = True"
| "disjoint_flights (ws # fl) =
     (ws \<noteq> [] \<and> set ws \<inter> \<Union> (set (map set fl)) = {} \<and> disjoint_flights fl)"

definition pool_ok :: "worker_pool \<Rightarrow> bool" where
  "pool_ok s = (disjoint_flights (wp_flights s) \<and> wp_busy s = \<Union> (set (map set (wp_flights s))))"

lemma disjoint_flights_remove1:
  assumes "disjoint_flights fl" "ws \<in> set fl"
  shows "disjoint_flights (remove1 ws fl)
     \<and> \<Union> (set (map set (remove1 ws fl))) = \<Union> (set (map set fl)) - set ws"
  using assms
proof (induction fl)
  case Nil
  then show ?case by simp
next
  case (Cons us fl)
  show ?case
  proof (cases "us = ws")
    case True
    then show ?thesis using Cons.prems by auto
  next
    case False
    then show ?thesis using Cons by (auto dest: notin_set_remove1)
  qed
qed

lemma try_claim_workers_cases:
  assumes "try_claim_workers cfg b free whole busy = (r, busy')"
  shows "case r of None \<Rightarrow> busy' = busy
     | Some ws \<Rightarrow> ws \<noteq> [] \<and> set ws \<inter> busy = {} \<and> busy' = busy \<union> set ws"
  using assms by (auto simp: try_claim_workers_def Let_def split: option.splits prod.splits if_splits)

lemma pool_step_ok: "pool_step cfg s t \<Longrightarrow> pool_ok s \<Longrightarrow> pool_ok t"
proof (induction rule: pool_step.induct)
  case (claim b free whole s ws busy')
  then show ?case using try_claim_workers_cases[OF claim(1)] by (auto simp: pool_ok_def)
next
  case (refused b free whole s busy')
  then show ?case using try_claim_workers_cases[OF refused(1)] by (auto simp: pool_ok_def)
next
  case (release ws s)
  then show ?case
    using disjoint_flights_remove1[of "wp_flights s" ws] by (auto simp: pool_ok_def release_workers_def)
qed

text \<open>
  C7. Whatever snapshots the scheduler claims from and in whatever order dispatches are claimed and
  released, no worker ever serves two running dispatches at once, and the workers marked busy are
  exactly those of the running dispatches: none is leaked, none freed early.
\<close>

theorem workers_never_shared:
  assumes "pool_reachable cfg s"
  shows "disjoint_flights (wp_flights s) \<and> wp_busy s = \<Union> (set (map set (wp_flights s)))"
proof -
  have "pool_ok s"
    using assms by (induction rule: pool_reachable.induct) (simp_all add: pool_ok_def pool_step_ok[unfolded pool_ok_def])
  then show ?thesis by (simp add: pool_ok_def)
qed

theorem workers_never_shared_witness:
  "disjoint_flights [[''a'']] \<and> {''a''} = \<Union> (set (map set [[''a'']]))"
proof -
  define cfg where "cfg = \<lparr>sc_cpu_group = 1, sc_gpu_group = 0\<rparr>"
  define b where "b = \<lparr>bs_workflows = [], bs_graphs = [], bs_profile_graphs = [],
    bs_config = \<lparr>rc_priority = HIGH, rc_user_id = ''u'', rc_org_id = [], rc_principal_id = [],
      rc_optimizer_type = None, rc_hardware = None, rc_chain_id = None, rc_chain_round = 0\<rparr>\<rparr>"
  have "try_claim_workers cfg b capacity0 capacity0 {} = (Some [''a''], {''a''})"
    by (simp add: try_claim_workers_def claim_selection_def claim_sizes_def cfg_def b_def batch_ops_def
        batch_requires_cpu_def requires_cpu_worker_def batch_requires_gpu_def required_task_types_def
        batch_required_task_types_def eligible_workers_def capacity0_def meeting_hardware_def
        worker_meets_hardware_def)
  from pool_step.claim[of cfg b capacity0 capacity0 "\<lparr>wp_busy = {}, wp_flights = []\<rparr>"] this
  have "pool_step cfg \<lparr>wp_busy = {}, wp_flights = []\<rparr> \<lparr>wp_busy = {''a''}, wp_flights = [[''a'']]\<rparr>" by simp
  from workers_never_shared[OF pool_reachable.step[OF pool_reachable.start this]]
  show ?thesis by simp
qed

end
