(* ===== verification/Halo_Models.thy ===== *)
theory Halo_Models
  imports Capacity
begin

section \<open>The optimizer's graph model\<close>

text \<open>
  \<open>runtime/optimizer/schedule/models.py\<close>: the nodes, edges and workers the optimizers and the cost
  models read. Query parameters that are only formatted into SQL text are kept as JSON.
\<close>

record db_query =
  dq_name :: string
  dq_sql :: string
  dq_parameters :: "(string, json) dict"
  dq_post_llm :: bool
  dq_result_mappings :: "(string, string) dict"
  dq_required_inputs :: "string list"
  dq_param_types :: "(string, string) dict"

record query_plan_choice =
  qp_plan_id :: string
  qp_description :: string
  qp_cost :: "real option"
  qp_raw_cost :: "real option"
  qp_footprints :: "(string, int) dict"

record halo_node =
  nd_id :: string
  nd_type :: string
  nd_engine :: "string option"
  nd_model :: "string option"
  nd_system_prompt :: "string option"
  nd_inputs :: "string list"
  nd_outputs :: "string list"
  nd_db_queries :: "db_query list"
  nd_raw :: "(string, json) dict"

record halo_edge =
  ed_source :: string
  ed_target :: string
  ed_mapping :: "(string, string) dict"

record graph_spec =
  gs_name :: string
  gs_description :: string
  gs_nodes :: "(string, halo_node) dict"
  gs_edges :: "halo_edge list"

record halo_worker =
  wk_id :: string
  wk_kind :: string
  wk_device :: string
  wk_capacity :: real
  wk_task_types :: "string list"

end
