(* ===== verification/Topo_Heap.thy ===== *)
theory Topo_Heap
  imports Topo_Sort
begin

section \<open>Deterministic topological order with a heap\<close>

text \<open>
  \<open>topological_order\<close> of \<open>src/src/lumilake_server/runtime/optimizer/schedule/topo_utils.py\<close>: Kahn's
  algorithm over a mapping from a node to its parents, which always takes the least ready node.
  The heap is a list kept sorted: \<open>heappop\<close> takes its head and a push is an insertion. It shares
  the invariant of the layered sort.
\<close>

definition parents_of :: "('a, 'a list) dict \<Rightarrow> 'a \<Rightarrow> 'a list" where
  "parents_of deps n = (case map_of deps n of None \<Rightarrow> [] | Some ps \<Rightarrow> ps)"

text \<open>The set of nodes, as a list: the given nodes, or every node the mapping names.\<close>

definition heap_nodes :: "('a, 'a list) dict \<Rightarrow> 'a list option \<Rightarrow> 'a list" where
  "heap_nodes deps nodes =
     (case nodes of Some ns \<Rightarrow> remdups ns
      | None \<Rightarrow> foldl append_new (remdups (map fst deps)) (concat (map snd deps)))"

definition indegree :: "('a, 'a list) dict \<Rightarrow> 'a list \<Rightarrow> 'a \<Rightarrow> int" where
  "indegree deps ns n =
     (if n \<in> set ns then int (length (filter (\<lambda>p. p \<in> set ns) (parents_of deps n))) else 0)"

text \<open>\<open>children[p]\<close>: a node appears once for every mention of \<open>p\<close> among its parents.\<close>

definition children :: "('a, 'a list) dict \<Rightarrow> 'a list \<Rightarrow> 'a \<Rightarrow> 'a list" where
  "children deps ns p =
     (if p \<in> set ns then concat (map (\<lambda>n. replicate (count_list (parents_of deps n) p) n) ns) else [])"

lemma children_nodes: "set (children deps ns p) \<subseteq> set ns"
  by (auto simp: children_def)

function heap_loop ::
  "('a::linorder, 'a list) dict \<Rightarrow> 'a list \<Rightarrow> ('a \<Rightarrow> int) \<Rightarrow> 'a list \<Rightarrow> 'a list \<Rightarrow> 'a list" where
  "heap_loop deps ns deg ready order =
     (case ready of
        [] \<Rightarrow> order
      | n # rest \<Rightarrow>
          (let (deg', new) = relax deg [] (children deps ns n)
           in heap_loop deps ns deg' (sort (rest @ new)) (order @ [n])))"
  by pat_completeness auto
termination
proof (relation "measure (\<lambda>(deps, ns, deg, ready, order). (\<Sum>v\<in>set ns. nat (deg v)) + length ready)", goal_cases)
  case 1
  show ?case by simp
next
  case (2 deps ns deg ready order n rest p deg' new)
  then show ?case
    using relax_measure[OF _ children_nodes[of deps ns n], of deg "[]" deg' new] by simp
qed

declare heap_loop.simps [simp del]

definition heap_topological_order ::
  "('a::linorder, 'a list) dict \<Rightarrow> 'a list option \<Rightarrow> 'a list result" where
  "heap_topological_order deps nodes =
     (let ns = heap_nodes deps nodes;
          deg = indegree deps ns;
          order = heap_loop deps ns deg (sort (filter (\<lambda>n. deg n = 0) ns)) []
      in if length order \<noteq> length ns
         then Inl (ValueError ''Cycle detected or missing nodes when building topo order'')
         else Inr order)"

subsection \<open>The same invariant as the layered sort\<close>

definition child_graph :: "('a, 'a list) dict \<Rightarrow> 'a list \<Rightarrow> 'a dgraph" where
  "child_graph deps ns = map (\<lambda>p. (p, children deps ns p)) ns"

lemma child_graph_wf: "distinct ns \<Longrightarrow> graph_wf (child_graph deps ns)"
  by (simp add: graph_wf_def child_graph_def comp_def)

lemma neighbours_child_graph: "neighbours (child_graph deps ns) p = children deps ns p"
proof (cases "p \<in> set ns")
  case True
  then show ?thesis
    by (auto simp: neighbours_def child_graph_def map_of_map_restrict)
next
  case False
  then show ?thesis
    by (auto simp: neighbours_def child_graph_def children_def map_of_map_restrict)
qed

lemma nodes_child_graph:
  "set (graph_nodes (child_graph deps ns)) = set ns"
proof -
  have "set (graph_nodes (child_graph deps ns)) = set ns \<union> (\<Union>p\<in>set ns. set (children deps ns p))"
    by (simp add: set_graph_nodes child_graph_def image_image)
  then show ?thesis using children_nodes[of deps ns] by blast
qed

lemma count_replicates:
  "distinct ns \<Longrightarrow> count_list (concat (map (\<lambda>n. replicate (f n) n) ns)) v = (if v \<in> set ns then f v else 0)"
  by (induction ns) auto

lemma count_children:
  "distinct ns \<Longrightarrow> count_list (children deps ns p) v
     = (if p \<in> set ns \<and> v \<in> set ns then count_list (parents_of deps v) p else 0)"
  by (simp add: children_def count_replicates)

lemma length_filter_sum:
  "distinct ns \<Longrightarrow> length (filter (\<lambda>p. p \<in> set ns) ps) = (\<Sum>p\<in>set ns. count_list ps p)"
  by (induction ps) (auto simp: sum_count_Cons simp del: count_list.simps(2))

lemma in_degree_child_graph:
  assumes "distinct ns"
  shows "in_degree (child_graph deps ns) v = indegree deps ns v"
proof -
  have "in_degree (child_graph deps ns) v = int (\<Sum>p\<in>set ns. count_list (children deps ns p) v)"
    using in_degree_sum[OF child_graph_wf[OF assms], of deps v] nodes_child_graph[of deps ns]
    by (simp add: neighbours_child_graph)
  then show ?thesis using assms by (simp add: count_children indegree_def length_filter_sum)
qed

lemma edges_child_graph:
  "distinct ns \<Longrightarrow> edges (child_graph deps ns)
     = {(p, n). p \<in> set ns \<and> n \<in> set ns \<and> p \<in> set (parents_of deps n)}"
  by (auto simp: edges_def neighbours_child_graph children_def count_list_0_iff)

lemma heap_loop_result:
  assumes "distinct ns" "kahn_inv (child_graph deps ns) deg ready order"
  shows "\<exists>deg'. kahn_inv (child_graph deps ns) deg' [] (heap_loop deps ns deg ready order)"
  using assms
proof (induction deps ns deg ready order rule: heap_loop.induct)
  case (1 deps ns deg ready order)
  show ?case
  proof (cases ready)
    case Nil
    with "1.prems" show ?thesis by (subst heap_loop.simps) auto
  next
    case (Cons n rest)
    obtain deg' new where rel: "relax deg [] (children deps ns n) = (deg', new)" by force
    have "kahn_inv (child_graph deps ns) deg' (sort (rest @ new)) (order @ [n])"
      using kahn_inv_step[OF child_graph_wf[OF "1.prems"(1)] "1.prems"(2), of "[n]" rest deg' new "sort (rest @ new)"]
        rel Cons by (simp add: neighbours_child_graph)
    then show ?thesis
      using "1.IH"[OF Cons rel[symmetric] refl "1.prems"(1)] Cons rel
      by (subst heap_loop.simps) simp
  qed
qed

lemma heap_inv_start:
  assumes "distinct ns"
  shows "kahn_inv (child_graph deps ns) (indegree deps ns) (sort (filter (\<lambda>n. indegree deps ns n = 0) ns)) []"
  using assms nodes_child_graph[of deps ns]
  by (auto simp: kahn_inv_def in_degree_child_graph)

lemma distinct_heap_nodes: "distinct (heap_nodes deps nodes)"
  by (auto simp: heap_nodes_def distinct_foldl_append_new split: option.splits)

lemma heap_topological_order_sound:
  assumes "heap_topological_order deps nodes = Inr order"
  shows "distinct order" "set order = set (heap_nodes deps nodes)"
    "topo_respects {(p, n). p \<in> set (heap_nodes deps nodes) \<and> p \<in> set (parents_of deps n)} order"
proof -
  let ?ns = "heap_nodes deps nodes"
  let ?g = "child_graph deps ?ns"
  note dn = distinct_heap_nodes[of deps nodes]
  obtain deg where inv: "kahn_inv ?g deg [] order" and len: "length order = length ?ns"
    using heap_loop_result[OF dn heap_inv_start[OF dn]] assms
    by (auto simp: heap_topological_order_def Let_def split: if_splits)
  note I = inv[unfolded kahn_inv_def]
  show d: "distinct order" using I by simp
  have "card (set order) = card (set ?ns)" using len d dn by (simp add: distinct_card)
  moreover have "set order \<subseteq> set ?ns" using I nodes_child_graph[of deps ?ns] by simp
  ultimately show s: "set order = set ?ns" by (simp add: card_subset_eq)
  have "topo_respects (edges ?g) order" using I by simp
  then have E: "topo_respects {(p, n). p \<in> set ?ns \<and> n \<in> set ?ns \<and> p \<in> set (parents_of deps n)} order"
    by (simp only: edges_child_graph[OF dn])
  show "topo_respects {(p, n). p \<in> set ?ns \<and> p \<in> set (parents_of deps n)} order"
    by (rule topo_respects_restrict[OF E]) (use s in auto)
qed

lemma heap_topological_order_acyclic:
  assumes "acyclic {(p, n). p \<in> set (heap_nodes deps nodes) \<and> n \<in> set (heap_nodes deps nodes)
      \<and> p \<in> set (parents_of deps n)}"
  shows "\<exists>order. heap_topological_order deps nodes = Inr order"
proof -
  let ?ns = "heap_nodes deps nodes"
  let ?g = "child_graph deps ?ns"
  let ?k = "heap_loop deps ?ns (indegree deps ?ns) (sort (filter (\<lambda>n. indegree deps ?ns n = 0) ?ns)) []"
  note dn = distinct_heap_nodes[of deps nodes]
  obtain deg where inv: "kahn_inv ?g deg [] ?k"
    using heap_loop_result[OF dn heap_inv_start[OF dn]] by blast
  have "set ?k = set (graph_nodes ?g)"
    using kahn_inv_complete[OF child_graph_wf[OF dn] inv] assms by (simp add: edges_child_graph[OF dn])
  then have "set ?k = set ?ns" by (simp add: nodes_child_graph)
  moreover have "distinct ?k" using inv by (simp add: kahn_inv_def)
  ultimately have "length ?k = length ?ns" using dn by (metis distinct_card)
  then show ?thesis by (simp add: heap_topological_order_def Let_def)
qed

text \<open>
  \<open>topo_utils.topological_order\<close> raises exactly when the dependencies among the chosen nodes
  have a cycle, and otherwise lists every chosen node once, each after its parents.
\<close>

theorem heap_topological_order_correct:
  "case heap_topological_order deps nodes of
     Inl e \<Rightarrow> \<not> acyclic {(p, n). p \<in> set (heap_nodes deps nodes) \<and> n \<in> set (heap_nodes deps nodes)
        \<and> p \<in> set (parents_of deps n)}
   | Inr order \<Rightarrow> distinct order \<and> set order = set (heap_nodes deps nodes)
        \<and> topo_respects {(p, n). p \<in> set (heap_nodes deps nodes) \<and> p \<in> set (parents_of deps n)} order"
proof (cases "heap_topological_order deps nodes")
  case (Inl e)
  then show ?thesis using heap_topological_order_acyclic[of deps nodes] by fastforce
next
  case (Inr order)
  then show ?thesis using heap_topological_order_sound[OF Inr] by simp
qed

end
