(* ===== verification/Halo_DP.thy ===== *)
theory Halo_DP
  imports Halo_Models Topo_Heap "HOL-Library.Word"
begin

section \<open>The DP scheduler: configuration and batches\<close>

text \<open>
  \<open>runtime/optimizer/schedule/halo_dp.py\<close> (\<open>DPSolver\<close>), its constructor and the enumeration of the
  work of one epoch. A done mask is the integer the code keeps: bit \<open>i\<close> is the node with index \<open>i\<close>.
  The cost functions the optimizer passes in are parameters; \<open>exec_cost_fn\<close> may raise. A query
  signature stands for the integer the code interns it to (\<open>None\<close> is \<open>-1\<close>), and the constructor's
  lookup tables and the pure caches are the functions they hold. Progress logging is left out.
\<close>

unbundle bit_operations_syntax

record query_signature =
  qs_node :: string
  qs_query :: string
  qs_plan :: string
  qs_footprints :: "(string \<times> int) list"

record worker_state =
  ws_worker :: nat
  ws_model :: int
  ws_node :: int

type_synonym plan_map = "(string \<times> string, query_plan_choice) dict"

record dp_config =
  dp_graph :: graph_spec
  dp_deps :: "(string, string list) dict"
  dp_workers :: "(string, halo_worker) dict"
  dp_worker_ids :: "string list"
  dp_plans :: "(string \<times> string, query_plan_choice list) dict"
  dp_window :: int
  dp_exec :: "halo_node \<Rightarrow> halo_worker \<Rightarrow> real result"
  dp_cache_mult :: "query_signature list \<Rightarrow> query_plan_choice \<Rightarrow> real"
  dp_model_init :: "halo_node \<Rightarrow> string option \<Rightarrow> real"
  dp_bonus :: "halo_node \<Rightarrow> string option \<Rightarrow> string list \<Rightarrow> real"
  dp_as_float :: "string \<Rightarrow> real option"
  dp_node_ids :: "string list"
  dp_options :: "(string, string list) dict"
  dp_gpu_workers :: "string list"
  dp_cpu_workers :: "string list"
  dp_http :: "(string, real) dict"
  dp_epoch_penalty :: "nat \<Rightarrow> real"
  dp_cpu_weight :: real
  dp_cpu_early :: real
  dp_no_epoch_cost :: bool
  dp_no_cpu_load :: bool
  dp_naive :: bool
  dp_max_weight :: real
  dp_sum_weight :: real
  dp_prune :: bool
  dp_slack :: nat
  dp_bound :: bool
  dp_symmetry :: bool
  dp_bound_factor :: real
  dp_depth_weight :: real
  dp_min_cost :: "(string, real) dict"

subsection \<open>Lookups\<close>

definition lookup :: "(string, 'v) dict \<Rightarrow> string \<Rightarrow> 'v result" where
  "lookup d k = (case map_of d k of None \<Rightarrow> Inl (KeyError k) | Some v \<Rightarrow> Inr v)"

fun map_result :: "('a \<Rightarrow> 'b result) \<Rightarrow> 'a list \<Rightarrow> 'b list result" where
  "map_result f [] = Inr []"
| "map_result f (x # xs) =
     (case f x of
        Inl e \<Rightarrow> Inl e
      | Inr y \<Rightarrow> (case map_result f xs of Inl e \<Rightarrow> Inl e | Inr ys \<Rightarrow> Inr (y # ys)))"

text \<open>\<open>{x: i for i, x in enumerate(xs)}\<close>: the last index of an element wins.\<close>

definition last_index :: "string list \<Rightarrow> string \<Rightarrow> nat option" where
  "last_index xs x = map_of (rev (zip xs [0..<length xs])) x"

definition node_index :: "dp_config \<Rightarrow> string \<Rightarrow> nat" where
  "node_index dp n = (case last_index (dp_node_ids dp) n of None \<Rightarrow> 0 | Some i \<Rightarrow> i)"

definition worker_index :: "dp_config \<Rightarrow> string \<Rightarrow> nat result" where
  "worker_index dp w = (case last_index (dp_worker_ids dp) w of None \<Rightarrow> Inl (KeyError w) | Some i \<Rightarrow> Inr i)"

definition is_gpu_node :: "graph_spec \<Rightarrow> string \<Rightarrow> bool" where
  "is_gpu_node g n = (case map_of (gs_nodes g) n of None \<Rightarrow> False | Some nd \<Rightarrow> nd_engine nd = Some ''vllm'')"

abbreviation is_gpu :: "dp_config \<Rightarrow> string \<Rightarrow> bool" where
  "is_gpu dp n \<equiv> is_gpu_node (dp_graph dp) n"

text \<open>\<open>node_worker_options[node_id]\<close>: the workers a node may run on, all of them by default.\<close>

definition worker_options :: "dp_config \<Rightarrow> string \<Rightarrow> string list" where
  "worker_options dp n = (case map_of (dp_options dp) n of None \<Rightarrow> dp_worker_ids dp | Some ws \<Rightarrow> ws)"

definition gpu_node_ids :: "dp_config \<Rightarrow> string list" where
  "gpu_node_ids dp = filter (is_gpu dp) (dp_node_ids dp)"

definition db_node_ids :: "dp_config \<Rightarrow> string list" where
  "db_node_ids dp = filter (\<lambda>n. \<not> is_gpu dp n) (dp_node_ids dp)"

definition db_topo_order :: "dp_config \<Rightarrow> string list" where
  "db_topo_order dp =
     filter (\<lambda>n. \<not> is_gpu dp n)
       (case heap_topological_order (dp_deps dp) (Some (dp_node_ids dp)) of
          Inl e \<Rightarrow> dp_node_ids dp
        | Inr order \<Rightarrow> order)"

subsection \<open>The constructor\<close>

definition resolve_cpu_cost_mode :: "string option \<Rightarrow> bool result" where
  "resolve_cpu_cost_mode mode =
     (let raw = py_lower (py_strip (or_default mode ''default''))
      in if raw = ''default'' then Inr False
         else if raw = ''naive'' then Inr True
         else Inl (ValueError ''Unsupported cpu_cost_mode''))"

definition gpu_cost_weights :: "real option \<Rightarrow> real option \<Rightarrow> real \<times> real" where
  "gpu_cost_weights max_w sum_w =
     (let (m, s) = (if max_w = None \<and> sum_w = None then (Some (9/10), Some (1/10)) else (max_w, sum_w));
          m = (case m of None \<Rightarrow> 0 | Some x \<Rightarrow> x);
          s = (case s of None \<Rightarrow> 0 | Some x \<Rightarrow> x);
          t = m + s;
          (m, s) = (if t \<le> 0 then (9/10, 1/10) else (m / t, s / t))
      in (max 0 m, max 0 s))"

definition or_weight :: "real \<Rightarrow> real option \<Rightarrow> real" where
  "or_weight d w = max 0 (case w of None \<Rightarrow> d | Some x \<Rightarrow> x)"

definition plan_base_cost :: "query_plan_choice \<Rightarrow> real" where
  "plan_base_cost c =
     (case qp_raw_cost c of
        Some r \<Rightarrow> max 0 r
      | None \<Rightarrow> (case qp_cost c of Some x \<Rightarrow> x | None \<Rightarrow> 1))"

definition fallback_choice :: query_plan_choice where
  "fallback_choice = \<lparr>qp_plan_id = ''default'', qp_description = ''fallback'', qp_cost = Some 1, qp_raw_cost = None, qp_footprints = []\<rparr>"

definition choices_for :: "dp_config \<Rightarrow> string \<Rightarrow> string \<Rightarrow> query_plan_choice list" where
  "choices_for dp n q =
     (case map_of (dp_plans dp) (n, q) of
        None \<Rightarrow> [fallback_choice]
      | Some cs \<Rightarrow> if cs = [] then [fallback_choice] else cs)"

text \<open>The cheapest worker of a node; a cost that raises counts as infinite, and none at all as zero.\<close>

fun min_worker_cost :: "dp_config \<Rightarrow> halo_node \<Rightarrow> string list \<Rightarrow> real option \<Rightarrow> real option result" where
  "min_worker_cost dp nd [] m = Inr m"
| "min_worker_cost dp nd (w # ws) m =
     (case lookup (dp_workers dp) w of
        Inl e \<Rightarrow> Inl e
      | Inr wk \<Rightarrow>
          min_worker_cost dp nd ws
            (case dp_exec dp nd wk of
               Inl e \<Rightarrow> m
             | Inr c \<Rightarrow> (case m of None \<Rightarrow> Some c | Some b \<Rightarrow> Some (min b c))))"

definition min_plan_cost :: "dp_config \<Rightarrow> halo_node \<Rightarrow> real" where
  "min_plan_cost dp nd =
     sum_list (map (\<lambda>q. Min (plan_base_cost ` set (choices_for dp (nd_id nd) (dq_name q)))) (nd_db_queries nd))"

definition node_min_cost :: "dp_config \<Rightarrow> string \<Rightarrow> real result" where
  "node_min_cost dp n =
     (case lookup (gs_nodes (dp_graph dp)) n of
        Inl e \<Rightarrow> Inl e
      | Inr nd \<Rightarrow>
          if \<not> is_gpu dp n then Inr 0
          else (case min_worker_cost dp nd (worker_options dp n) None of
                  Inl e \<Rightarrow> Inl e
                | Inr m \<Rightarrow>
                    Inr ((case m of None \<Rightarrow> 0 | Some c \<Rightarrow> c)
                      + (if dp_no_cpu_load dp \<or> dp_naive dp then 0 else min_plan_cost dp nd * dp_cpu_weight dp))))"

text \<open>The keyword arguments of the constructor that it normalises; the others are stored as they are.\<close>

record dp_args =
  da_node_ids :: "string list option"
  da_gpu_workers :: "string list option"
  da_cpu_workers :: "string list option"
  da_cpu_weight :: "real option"
  da_cpu_early :: "real option"
  da_cpu_mode :: "string option"
  da_max_weight :: "real option"
  da_sum_weight :: "real option"
  da_slack :: int
  da_bound_factor :: real
  da_depth_weight :: "real option"

definition split_workers :: "dp_args \<Rightarrow> (string, halo_worker) dict \<Rightarrow> string list \<Rightarrow> (string list \<times> string list) result" where
  "split_workers a workers ids =
     (case (case (da_gpu_workers a, da_cpu_workers a) of
              (Some g, Some c) \<Rightarrow> Inr (g, c)
            | _ \<Rightarrow>
                (case map_result (\<lambda>w. case lookup workers w of Inl e \<Rightarrow> Inl e | Inr wk \<Rightarrow> Inr (w, wk_kind wk = ''gpu'')) ids of
                   Inl e \<Rightarrow> Inl e
                 | Inr ks \<Rightarrow> Inr (map fst (filter snd ks), map fst (filter (\<lambda>(w, g). \<not> g) ks)))) of
        Inl e \<Rightarrow> Inl e
      | Inr (g, c) \<Rightarrow> Inr (g, if c = [] then ids else c))"

definition make_solver :: "dp_args \<Rightarrow> dp_config \<Rightarrow> dp_config result" where
  "make_solver a raw =
     (case resolve_cpu_cost_mode (da_cpu_mode a) of
        Inl e \<Rightarrow> Inl e
      | Inr naive \<Rightarrow>
          (let ids = (case da_node_ids a of None \<Rightarrow> sort (remdups (map fst (gs_nodes (dp_graph raw)))) | Some ns \<Rightarrow> ns);
               (m, s) = gpu_cost_weights (da_max_weight a) (da_sum_weight a)
           in case map_result (lookup (gs_nodes (dp_graph raw))) ids of
                Inl e \<Rightarrow> Inl e
              | Inr _ \<Rightarrow>
                  (case split_workers a (dp_workers raw) (dp_worker_ids raw) of
                     Inl e \<Rightarrow> Inl e
                   | Inr (g, c) \<Rightarrow>
                       (let dp = raw\<lparr>dp_node_ids := ids, dp_gpu_workers := g, dp_cpu_workers := c, dp_naive := naive,
                              dp_cpu_weight := or_weight 1 (da_cpu_weight a), dp_cpu_early := or_weight 2 (da_cpu_early a),
                              dp_max_weight := m, dp_sum_weight := s, dp_slack := nat (da_slack a),
                              dp_bound_factor := max 0 (da_bound_factor a), dp_depth_weight := or_weight 1 (da_depth_weight a)\<rparr>
                        in case map_result (node_min_cost dp) ids of
                             Inl e \<Rightarrow> Inl e
                           | Inr cs \<Rightarrow> Inr (dp\<lparr>dp_min_cost := zip ids cs\<rparr>)))))"

subsection \<open>Done masks\<close>

definition node_bit :: "dp_config \<Rightarrow> string \<Rightarrow> int" where
  "node_bit dp n = push_bit (node_index dp n) 1"

definition is_done :: "dp_config \<Rightarrow> int \<Rightarrow> string \<Rightarrow> bool" where
  "is_done dp dm n = (dm AND node_bit dp n \<noteq> 0)"

definition all_mask :: "dp_config \<Rightarrow> int" where
  "all_mask dp = push_bit (length (dp_node_ids dp)) 1 - 1"

definition add_nodes :: "dp_config \<Rightarrow> int \<Rightarrow> string list \<Rightarrow> int" where
  "add_nodes dp dm ns = foldl (\<lambda>m n. m OR node_bit dp n) dm ns"

text \<open>\<open>_build_parents_mask\<close>, for one node.\<close>

definition parents_mask :: "dp_config \<Rightarrow> bool \<Rightarrow> string \<Rightarrow> int" where
  "parents_mask dp gpu_only n =
     foldl (\<lambda>m p. if p \<notin> set (dp_node_ids dp) then m
                  else if gpu_only \<and> \<not> is_gpu dp p then m else m OR node_bit dp p) 0 (parents_of (dp_deps dp) n)"

definition batch_feasible :: "dp_config \<Rightarrow> string list \<Rightarrow> int \<Rightarrow> bool" where
  "batch_feasible dp ns dm =
     (let m = add_nodes dp dm ns in \<forall>n \<in> set ns. parents_mask dp False n AND NOT m = 0)"

subsection \<open>GPU batches\<close>

definition pending_gpu :: "dp_config \<Rightarrow> int \<Rightarrow> string list" where
  "pending_gpu dp dm = filter (\<lambda>n. \<not> is_done dp dm n \<and> is_gpu dp n) (dp_node_ids dp)"

definition waiting_on :: "(string, string list) dict \<Rightarrow> string list \<Rightarrow> string \<Rightarrow> string list" where
  "waiting_on deps ns n = filter (\<lambda>c. n \<in> set (parents_of deps c)) ns"

function gpu_topo_loop ::
  "(string, string list) dict \<Rightarrow> string list \<Rightarrow> (string \<Rightarrow> int) \<Rightarrow> string list \<Rightarrow> string list \<Rightarrow> string list" where
  "gpu_topo_loop deps ns deg [] topo = topo"
| "gpu_topo_loop deps ns deg (n # queue) topo =
     (case relax deg [] (waiting_on deps ns n) of
        (deg', new) \<Rightarrow> gpu_topo_loop deps ns deg' (queue @ new) (topo @ [n]))"
  by pat_completeness auto
termination
proof (relation "measure (\<lambda>(deps, ns, deg, queue, topo). (\<Sum>v\<in>set ns. nat (deg v)) + length queue)", goal_cases)
  case (2 deps ns deg n queue topo deg' new)
  have "set (waiting_on deps ns n) \<subseteq> set ns" by (auto simp: waiting_on_def)
  from relax_measure[OF _ this, of deg "[]" deg' new] 2 show ?case by simp
qed simp

definition gpu_topo :: "dp_config \<Rightarrow> string list \<Rightarrow> string list" where
  "gpu_topo dp pending =
     (let deg = indegree (dp_deps dp) pending;
          topo = gpu_topo_loop (dp_deps dp) pending deg (filter (\<lambda>n. deg n = 0) pending) []
      in if length topo \<noteq> card (set pending) then pending else topo)"

text \<open>
  The inner \<open>dfs\<close>. A node whose GPU parents are neither done nor selected is skipped by a second
  recursive call, so the batches without it are listed twice.
\<close>

fun gpu_dfs :: "dp_config \<Rightarrow> int \<Rightarrow> nat \<Rightarrow> nat \<Rightarrow> string list \<Rightarrow> string list \<Rightarrow> int \<Rightarrow> string list list" where
  "gpu_dfs dp dm lo hi [] selected sm = (if lo \<le> length selected \<and> length selected \<le> hi then [selected] else [])"
| "gpu_dfs dp dm lo hi (n # ns) selected sm =
     gpu_dfs dp dm lo hi ns selected sm
     @ (if hi \<le> length selected then []
        else if parents_mask dp True n AND NOT (dm OR sm) \<noteq> 0 then gpu_dfs dp dm lo hi ns selected sm
        else gpu_dfs dp dm lo hi ns (selected @ [n]) (sm OR node_bit dp n))"

definition enumerate_gpu_batches :: "dp_config \<Rightarrow> bool \<Rightarrow> int \<Rightarrow> string list list result" where
  "enumerate_gpu_batches dp prune dm =
     (let pending = pending_gpu dp dm
      in if pending = [] then Inr [[]]
         else
           let max_gpu = max 1 (length (dp_gpu_workers dp));
               target = min max_gpu (length pending);
               lo = (if prune then max 1 (target - dp_slack dp) else 1);
               results = [] # gpu_dfs dp dm lo target (gpu_topo dp pending) [] 0
           in if results = [[]] then Inl (RuntimeError ''no executable GPU batch'') else Inr results)"

subsection \<open>Depths in the chosen GPU subgraph\<close>

function depth_loop ::
  "(string, string list) dict \<Rightarrow> string list \<Rightarrow> (string \<Rightarrow> int) \<Rightarrow> string list \<Rightarrow> (string, nat) dict \<Rightarrow> (string, nat) dict" where
  "depth_loop deps ns deg [] depths = depths"
| "depth_loop deps ns deg (n # queue) depths =
     (let base = dict_get depths n 0;
          depths' = foldl (\<lambda>d c. AList.update c (max (dict_get d c 0) (base + 1)) d) depths (children deps ns n)
      in case relax deg [] (children deps ns n) of
           (deg', new) \<Rightarrow> depth_loop deps ns deg' (queue @ new) depths')"
  by pat_completeness auto
termination
proof (relation "measure (\<lambda>(deps, ns, deg, queue, depths). (\<Sum>v\<in>set ns. nat (deg v)) + length queue)", goal_cases)
  case (2 deps ns deg n queue depths base depths' deg' new)
  from relax_measure[OF _ children_nodes[of deps ns n], of deg "[]" deg' new] 2 show ?case by simp
qed simp

definition batch_gpu_depths :: "dp_config \<Rightarrow> string list \<Rightarrow> (string, nat) dict" where
  "batch_gpu_depths dp ns =
     (let deg = indegree (dp_deps dp) ns;
          queue = filter (\<lambda>n. deg n = 0) ns;
          depths = depth_loop (dp_deps dp) ns deg queue (map (\<lambda>n. (n, 0)) queue)
      in foldl (\<lambda>d n. if n \<in> fst ` set d then d else d @ [(n, 0)]) depths ns)"

definition depth_penalty :: "dp_config \<Rightarrow> string list \<Rightarrow> (string, nat) dict \<Rightarrow> real" where
  "depth_penalty dp ns depths =
     (if dp_depth_weight dp \<le> 0 \<or> ns = [] then 0
      else dp_depth_weight dp * real (sum_list (map (\<lambda>n. dict_get depths n 0) ns)))"

subsection \<open>CPU nodes of an epoch\<close>

fun auto_pass :: "dp_config \<Rightarrow> string list \<Rightarrow> string list \<times> string list \<times> int \<Rightarrow> string list \<times> string list \<times> int" where
  "auto_pass dp [] s = s"
| "auto_pass dp (n # ns) (selected, pending, m) =
     (if n \<notin> set pending \<or> parents_mask dp False n AND NOT m \<noteq> 0 then auto_pass dp ns (selected, pending, m)
      else auto_pass dp ns (selected @ [n], removeAll n pending, m OR node_bit dp n))"

lemma auto_pass_measure:
  "auto_pass dp ns (sel, pend, m) = (sel', pend', m') \<Longrightarrow>
     length pend' \<le> length pend \<and> (sel' \<noteq> sel \<longrightarrow> length pend' < length pend) \<and> (\<exists>xs. sel' = sel @ xs)"
proof (induction ns arbitrary: sel pend m)
  case (Cons n ns)
  have "length (removeAll n pend) < length pend" if "n \<in> set pend"
    using that by (metis length_removeAll_less)
  with Cons show ?case by (fastforce split: if_splits)
qed simp

function auto_loop :: "dp_config \<Rightarrow> string list \<times> string list \<times> int \<Rightarrow> string list" where
  "auto_loop dp (selected, pending, m) =
     (case auto_pass dp (db_topo_order dp) (selected, pending, m) of
        (selected', pending', m') \<Rightarrow> if selected' = selected then selected' else auto_loop dp (selected', pending', m'))"
  by pat_completeness auto
termination
proof (relation "measure (\<lambda>(dp, selected, pending, m). length pending)", goal_cases)
  case 2
  then show ?case unfolding in_measure split_conv by (auto dest: auto_pass_measure[OF sym])
qed simp

declare auto_loop.simps [simp del]

definition auto_cpu_batch :: "dp_config \<Rightarrow> int \<Rightarrow> string list \<Rightarrow> string list" where
  "auto_cpu_batch dp dm gpu_nodes =
     (let pending = remdups (filter (\<lambda>n. \<not> is_done dp dm n) (db_node_ids dp))
      in if db_node_ids dp = [] \<or> pending = [] then []
         else auto_loop dp ([], pending, add_nodes dp dm gpu_nodes))"

definition parent_depth :: "dp_config \<Rightarrow> (string, nat) dict \<Rightarrow> string \<Rightarrow> nat option" where
  "parent_depth dp depths n =
     (case map_of (gs_nodes (dp_graph dp)) n of
        None \<Rightarrow> None
      | Some nd \<Rightarrow> (case map_of (nd_raw nd) ''parent'' of Some (JStr p) \<Rightarrow> map_of depths p | _ \<Rightarrow> None))"

definition order_cpu_nodes :: "dp_config \<Rightarrow> string list \<Rightarrow> (string, nat) dict \<Rightarrow> string list" where
  "order_cpu_nodes dp ns depths =
     (if ns = [] \<or> depths = [] then ns
      else sort_key (\<lambda>n. (parent_depth dp depths n = None,
                           case parent_depth dp depths n of None \<Rightarrow> 0 | Some d \<Rightarrow> d)) ns)"

definition cpu_pool :: "dp_config \<Rightarrow> string \<Rightarrow> string list" where
  "cpu_pool dp n =
     (let workers = (if dp_cpu_workers dp = [] then dp_worker_ids dp else dp_cpu_workers dp);
          allowed = worker_options dp n;
          both = filter (\<lambda>w. w \<in> set allowed) workers;
          pool = (if both = [] then allowed else both)
      in if pool = [] then workers else pool)"

definition cpu_assignments :: "dp_config \<Rightarrow> string list \<Rightarrow> (string \<times> string) list" where
  "cpu_assignments dp ns =
     (if dp_cpu_workers dp = [] \<and> dp_worker_ids dp = [] then []
      else map (\<lambda>(i, n). (cpu_pool dp n ! (i mod length (cpu_pool dp n)), n)) (enumerate 0 ns))"

text \<open>\<open>_cpu_needed_for_gpu\<close>: a depth-first walk; the head of the list is the top of the stack.\<close>

definition all_parents :: "(string, string list) dict \<Rightarrow> string set" where
  "all_parents deps = (\<Union>d \<in> set deps. set (snd d))"

lemma parents_of_all: "set (parents_of deps n) \<subseteq> all_parents deps"
proof (cases "map_of deps n")
  case (Some ps)
  from map_of_SomeD[OF this] show ?thesis unfolding all_parents_def parents_of_def Some by force
qed (simp add: parents_of_def)

lemma finite_all_parents [simp]: "finite (all_parents deps)"
  by (auto simp: all_parents_def)

function needed_loop ::
  "(string, string list) dict \<Rightarrow> string list \<Rightarrow> string list \<Rightarrow> string list \<Rightarrow> string list \<Rightarrow> string list" where
  "needed_loop deps db [] visited needed = needed"
| "needed_loop deps db (n # stack) visited needed =
     (if n \<in> set visited then needed_loop deps db stack visited needed
      else needed_loop deps db (rev (filter (\<lambda>p. p \<notin> set (n # visited)) (parents_of deps n)) @ stack) (n # visited)
             (foldl append_new needed (filter (\<lambda>p. p \<in> set db) (parents_of deps n))))"
  by pat_completeness auto
termination
proof (relation "(\<lambda>(deps, db, stack, visited, needed). card ((set stack \<union> all_parents deps) - set visited))
    <*mlex*> measure (\<lambda>(deps, db, stack, visited, needed). length stack)", goal_cases)
  case 1
  show ?case by (intro wf_mlex) simp
next
  case (2 deps db n stack visited needed)
  have "(set stack \<union> all_parents deps) - set visited \<subseteq> (set (n # stack) \<union> all_parents deps) - set visited" by auto
  then have "card ((set stack \<union> all_parents deps) - set visited) \<le> card ((set (n # stack) \<union> all_parents deps) - set visited)"
    by (rule card_mono[rotated]) simp
  then show ?case by (intro mlex_leq) simp_all
next
  case (3 deps db n stack visited needed)
  let ?new = "rev (filter (\<lambda>p. p \<notin> set (n # visited)) (parents_of deps n)) @ stack"
  have "(set ?new \<union> all_parents deps) - set (n # visited) \<subset> (set (n # stack) \<union> all_parents deps) - set visited"
    using 3 parents_of_all[of deps n] by auto
  then have "card ((set ?new \<union> all_parents deps) - set (n # visited)) < card ((set (n # stack) \<union> all_parents deps) - set visited)"
    by (rule psubset_card_mono[rotated]) simp
  then show ?case by (intro mlex_less) simp
qed

definition cpu_needed_for_gpu :: "dp_config \<Rightarrow> string list \<Rightarrow> string list" where
  "cpu_needed_for_gpu dp ns = needed_loop (dp_deps dp) (db_node_ids dp) (rev ns) [] []"

definition naive_cpu_cost :: "dp_config \<Rightarrow> string list \<Rightarrow> real" where
  "naive_cpu_cost dp ns =
     real (sum_list (map (\<lambda>n. if n \<in> set (gpu_node_ids dp) then length (cpu_needed_for_gpu dp [n]) else 0) ns))"

end
