(* ===== verification/Halo_DP_Solve.thy ===== *)
theory Halo_DP_Solve
  imports Halo_DP
begin

section \<open>The DP scheduler: costs and search\<close>

text \<open>
  \<open>DPSolver\<close> continued: the cost of a node on a worker, the outcomes of an assignment, symmetry
  elimination, the lower bound, and the memoised search \<open>_solve\<close>. The search takes fuel; \<open>None\<close> is
  fuel run out, which \<open>dp_solve\<close> never does (\<open>Halo_DP_Props\<close>).
\<close>

subsection \<open>Query plans and the cache window\<close>

definition signature_of :: "string \<Rightarrow> string \<Rightarrow> query_plan_choice \<Rightarrow> query_signature" where
  "signature_of n q c = \<lparr>qs_node = n, qs_query = q, qs_plan = qp_plan_id c, qs_footprints = sort (qp_footprints c)\<rparr>"

definition window_signatures :: "query_signature option list \<Rightarrow> query_signature list" where
  "window_signatures w = concat (map (\<lambda>s. case s of None \<Rightarrow> [] | Some x \<Rightarrow> [x]) w)"

definition query_cost :: "dp_config \<Rightarrow> query_signature option list \<Rightarrow> query_plan_choice \<Rightarrow> real" where
  "query_cost dp w c = plan_base_cost c * dp_cache_mult dp (window_signatures w) c"

definition append_window ::
  "dp_config \<Rightarrow> query_signature option list \<Rightarrow> string \<Rightarrow> string \<Rightarrow> query_plan_choice \<Rightarrow> query_signature option list" where
  "append_window dp w n q c =
     (if dp_window dp \<le> 0 then w
      else
        let sig = Some (signature_of n q c); size = nat (dp_window dp)
        in if w = [] then replicate (size - 1) None @ [sig]
           else drop (length (w @ [sig]) - size) (w @ [sig]))"

fun plan_options ::
  "dp_config \<Rightarrow> halo_node \<Rightarrow> db_query list
    \<Rightarrow> (real \<times> query_signature option list \<times> (string \<times> query_plan_choice) list) list
    \<Rightarrow> (real \<times> query_signature option list \<times> (string \<times> query_plan_choice) list) list" where
  "plan_options dp nd [] outs = outs"
| "plan_options dp nd (q # qs) outs =
     plan_options dp nd qs
       (concat (map (\<lambda>(base, w, plan_seq).
          map (\<lambda>c. (base + query_cost dp w c, append_window dp w (nd_id nd) (dq_name q) c, plan_seq @ [(dq_name q, c)]))
            (choices_for dp (nd_id nd) (dq_name q))) outs))"

definition query_plan_options ::
  "dp_config \<Rightarrow> halo_node \<Rightarrow> query_signature option list
    \<Rightarrow> (real \<times> query_signature option list \<times> (string \<times> query_plan_choice) list) list" where
  "query_plan_options dp nd w = plan_options dp nd (nd_db_queries nd) [(0, w, [])]"

definition plans_of_seq :: "halo_node \<Rightarrow> (string \<times> query_plan_choice) list \<Rightarrow> plan_map \<Rightarrow> plan_map" where
  "plans_of_seq nd ps d = foldl (\<lambda>d (q, c). AList.update (nd_id nd, q) c d) d ps"

definition merge_plans :: "plan_map \<Rightarrow> plan_map \<Rightarrow> plan_map" where
  "merge_plans a b = foldl (\<lambda>d (k, c). AList.update k c d) a b"

subsection \<open>One node on one worker\<close>

definition models :: "dp_config \<Rightarrow> string list" where
  "models dp = sort (remdups (concat (map (\<lambda>(k, nd). case nd_model nd of None \<Rightarrow> [] | Some m \<Rightarrow> if m = [] then [] else [m])
     (gs_nodes (dp_graph dp)))))"

definition model_to_id :: "dp_config \<Rightarrow> string option \<Rightarrow> int \<Rightarrow> int" where
  "model_to_id dp m fallback =
     (case m of None \<Rightarrow> fallback
      | Some x \<Rightarrow> (case last_index (models dp) x of None \<Rightarrow> fallback | Some i \<Rightarrow> int i))"

definition name_from_id :: "string list \<Rightarrow> int \<Rightarrow> string option" where
  "name_from_id xs i = (if 0 \<le> i \<and> i < int (length xs) then Some (xs ! nat i) else None)"

definition bonus_of :: "dp_config \<Rightarrow> halo_node \<Rightarrow> int \<Rightarrow> string list \<Rightarrow> real" where
  "bonus_of dp nd last_node parents =
     (let b = dp_bonus dp nd (name_from_id (dp_node_ids dp) last_node) parents in if b \<le> 0 then 1 else b)"

definition execute_node ::
  "dp_config \<Rightarrow> string \<Rightarrow> worker_state \<Rightarrow> query_signature option list
    \<Rightarrow> (real \<times> real \<times> worker_state \<times> plan_map \<times> query_signature option list) list result" where
  "execute_node dp n st w =
     (case lookup (gs_nodes (dp_graph dp)) n of
        Inl e \<Rightarrow> Inl e
      | Inr nd \<Rightarrow>
          if length (dp_worker_ids dp) \<le> ws_worker st then Inl IndexError
          else
            (case lookup (dp_workers dp) (dp_worker_ids dp ! ws_worker st) of
               Inl e \<Rightarrow> Inl e
             | Inr wk \<Rightarrow>
                 (case dp_exec dp nd wk of
                    Inl e \<Rightarrow> Inl e
                  | Inr exec_cost \<Rightarrow>
                      (let model_cost = dp_model_init dp nd (name_from_id (models dp) (ws_model st));
                           bonus = bonus_of dp nd (ws_node st) (parents_of (dp_deps dp) n);
                           here = int (node_index dp (nd_id nd));
                           base = exec_cost * bonus + model_cost;
                           st' = st\<lparr>ws_model := model_to_id dp (nd_model nd) (ws_model st), ws_node := here\<rparr>
                       in if \<not> is_gpu dp n then Inr [(0, 0, st\<lparr>ws_node := here\<rparr>, [], w)]
                          else if nd_db_queries nd = [] then Inr [(base, 0, st', [], w)]
                          else Inr (map (\<lambda>(qc, w', ps). (base, qc, st', plans_of_seq nd ps [], w'))
                                 (query_plan_options dp nd w))))))"

subsection \<open>CPU load\<close>

definition json_seconds :: "(string \<Rightarrow> real option) \<Rightarrow> json \<Rightarrow> real option" where
  "json_seconds as_float v =
     (case v of JInt i \<Rightarrow> Some (of_int i) | JFloat r \<Rightarrow> Some r | JBool b \<Rightarrow> Some (if b then 1 else 0)
      | JStr s \<Rightarrow> as_float (py_strip s) | _ \<Rightarrow> None)"

fun raw_sleep :: "(string \<Rightarrow> real option) \<Rightarrow> (string, json) dict \<Rightarrow> (string \<times> real) list \<Rightarrow> real" where
  "raw_sleep as_float raw [] = 0"
| "raw_sleep as_float raw ((key, scale) # ks) =
     (case map_of raw key of
        None \<Rightarrow> raw_sleep as_float raw ks
      | Some v \<Rightarrow> (case json_seconds as_float v of None \<Rightarrow> raw_sleep as_float raw ks | Some x \<Rightarrow> max 0 (x * scale)))"

definition sleep_keys :: "(string \<times> real) list" where
  "sleep_keys = [(''sleep_s'', 1), (''sleep_ms'', 1/1000), (''latency_s'', 1), (''latency_ms'', 1/1000),
     (''timeout_s'', 1), (''timeout_ms'', 1/1000)]"

definition http_sleep_cost :: "dp_config \<Rightarrow> halo_node \<Rightarrow> real" where
  "http_sleep_cost dp nd =
     (case map_of (dp_http dp) (nd_id nd) of
        Some s \<Rightarrow> max 0 s
      | None \<Rightarrow> raw_sleep (dp_as_float dp) (nd_raw nd) sleep_keys)"

definition cheapest ::
  "(real \<times> 'w \<times> 'p) list \<Rightarrow> (real \<times> 'w \<times> 'p) option" where
  "cheapest outs = (case outs of [] \<Rightarrow> None | x # xs \<Rightarrow> Some (min_by fst x xs))"

fun apply_cpu_load ::
  "dp_config \<Rightarrow> string list \<Rightarrow> query_signature option list \<Rightarrow> real \<Rightarrow> plan_map \<Rightarrow> (real \<times> plan_map) result" where
  "apply_cpu_load dp [] w cost plans = Inr (cost, plans)"
| "apply_cpu_load dp (n # ns) w cost plans =
     (case lookup (gs_nodes (dp_graph dp)) n of
        Inl e \<Rightarrow> Inl e
      | Inr nd \<Rightarrow>
          if nd_engine nd = Some ''http'' then apply_cpu_load dp ns w (cost + http_sleep_cost dp nd) plans
          else if nd_db_queries nd = [] then apply_cpu_load dp ns w cost plans
          else (case cheapest (query_plan_options dp nd w) of
                  None \<Rightarrow> apply_cpu_load dp ns w cost plans
                | Some (c, w', ps) \<Rightarrow> apply_cpu_load dp ns w' (cost + c) (plans_of_seq nd ps plans)))"

subsection \<open>Outcomes of an assignment\<close>

record dp_outcome =
  oc_max :: real
  oc_sum :: real
  oc_cpu :: real
  oc_states :: "worker_state list"
  oc_plans :: plan_map

fun outcome_dfs ::
  "dp_config \<Rightarrow> string list \<Rightarrow> (string \<times> string) list \<Rightarrow> worker_state list \<Rightarrow> real list \<Rightarrow> plan_map \<Rightarrow> real
    \<Rightarrow> query_signature option list \<Rightarrow> dp_outcome list result" where
  "outcome_dfs dp cpu [] states costs plans load w =
     (case apply_cpu_load dp cpu w 0 [] of
        Inl e \<Rightarrow> Inl e
      | Inr (extra, cpu_plans) \<Rightarrow>
          (case map_result (worker_index dp) (dp_gpu_workers dp) of
             Inl e \<Rightarrow> Inl e
           | Inr idx \<Rightarrow>
               (let gpu_costs = map (\<lambda>i. costs ! i) idx
                in Inr [\<lparr>oc_max = (if gpu_costs = [] then 0 else Max (set gpu_costs)), oc_sum = sum_list gpu_costs,
                     oc_cpu = load + extra, oc_states = states, oc_plans = merge_plans plans cpu_plans\<rparr>])))"
| "outcome_dfs dp cpu ((wid, n) # rest) states costs plans load w =
     (case worker_index dp wid of
        Inl e \<Rightarrow> Inl e
      | Inr i \<Rightarrow>
          if length states \<le> i then Inl IndexError
          else
            (case execute_node dp n (states ! i) w of
               Inl e \<Rightarrow> Inl e
             | Inr opts \<Rightarrow>
                 (case map_result (\<lambda>(cost, cpu_cost, st, pm, w').
                     outcome_dfs dp cpu rest (states[i := st]) (costs[i := costs ! i + cost]) (merge_plans plans pm)
                       (load + cpu_cost) w') opts of
                    Inl e \<Rightarrow> Inl e
                  | Inr outs \<Rightarrow> Inr (concat outs))))"

definition assignment_outcomes ::
  "dp_config \<Rightarrow> (string \<times> string) list \<Rightarrow> string list \<Rightarrow> worker_state list \<Rightarrow> dp_outcome list result" where
  "assignment_outcomes dp assign cpu states =
     outcome_dfs dp cpu assign states (replicate (length (dp_worker_ids dp)) 0) [] 0 []"

subsection \<open>GPU assignments and their symmetry\<close>

fun gpu_assign_dfs :: "dp_config \<Rightarrow> string list \<Rightarrow> string set \<Rightarrow> (string \<times> string) list \<Rightarrow> (string \<times> string) list list" where
  "gpu_assign_dfs dp [] used current = [current]"
| "gpu_assign_dfs dp (n # ns) used current =
     concat (map (\<lambda>w. if w \<notin> set (worker_options dp n) \<or> w \<in> used then []
                      else gpu_assign_dfs dp ns (insert w used) (current @ [(w, n)])) (dp_gpu_workers dp))"

definition gpu_assignments :: "dp_config \<Rightarrow> string list \<Rightarrow> (string \<times> string) list list" where
  "gpu_assignments dp ns = gpu_assign_dfs dp ns {} []"

type_synonym worker_sig = "string \<times> real \<times> int \<times> int"

definition worker_signature :: "dp_config \<Rightarrow> worker_state list \<Rightarrow> string \<Rightarrow> worker_sig result" where
  "worker_signature dp states wid =
     (case worker_index dp wid of
        Inl e \<Rightarrow> Inl e
      | Inr i \<Rightarrow>
          if length states \<le> i then Inl IndexError
          else (case lookup (dp_workers dp) (dp_worker_ids dp ! i) of
                  Inl e \<Rightarrow> Inl e
                | Inr wk \<Rightarrow> Inr (wk_kind wk, wk_capacity wk, ws_model (states ! i), ws_node (states ! i))))"

definition assignment_signature ::
  "dp_config \<Rightarrow> worker_state list \<Rightarrow> (string \<times> string) list \<Rightarrow> (worker_sig \<times> string list) list result" where
  "assignment_signature dp states assign =
     (case map_result (\<lambda>(w, n). worker_signature dp states w) assign of
        Inl e \<Rightarrow> Inl e
      | Inr sigs \<Rightarrow>
          Inr (sort_key fst (map (\<lambda>(sig, ns). (sig, sort ns))
            (foldl (\<lambda>d (sig, n). push_group sig n d) [] (zip sigs (map snd assign))))))"

fun dedup_loop ::
  "dp_config \<Rightarrow> worker_state list \<Rightarrow> (worker_sig \<times> string list) list list \<Rightarrow> (string \<times> string) list list
    \<Rightarrow> (string \<times> string) list list result" where
  "dedup_loop dp states seen [] = Inr []"
| "dedup_loop dp states seen (a # as) =
     (case assignment_signature dp states a of
        Inl e \<Rightarrow> Inl e
      | Inr key \<Rightarrow>
          if key \<in> set seen then dedup_loop dp states seen as
          else (case dedup_loop dp states (key # seen) as of Inl e \<Rightarrow> Inl e | Inr rest \<Rightarrow> Inr (a # rest)))"

definition worker_assignments :: "dp_config \<Rightarrow> worker_state list \<Rightarrow> string list \<Rightarrow> (string \<times> string) list list result" where
  "worker_assignments dp states ns =
     (if dp_symmetry dp then dedup_loop dp states [] (gpu_assignments dp ns) else Inr (gpu_assignments dp ns))"

subsection \<open>The work of one epoch\<close>

record epoch_choice =
  ec_done :: int
  ec_assign :: "(string \<times> string) list"
  ec_cost :: real
  ec_states :: "worker_state list"
  ec_plans :: plan_map

definition cpu_load_weight :: "dp_config \<Rightarrow> nat \<Rightarrow> real" where
  "cpu_load_weight dp ep =
     (if dp_no_cpu_load dp then 0
      else if 0 < dp_cpu_early dp then dp_cpu_weight dp * (1 + dp_cpu_early dp / (1 + real ep))
      else dp_cpu_weight dp)"

definition epoch_cost :: "dp_config \<Rightarrow> nat \<Rightarrow> string list \<Rightarrow> (string, nat) dict \<Rightarrow> dp_outcome \<Rightarrow> real" where
  "epoch_cost dp ep gpu_nodes depths out =
     (let load = (if dp_naive dp then naive_cpu_cost dp gpu_nodes else oc_cpu out);
          gpu_cost = dp_max_weight dp * oc_max out + dp_sum_weight dp * oc_sum out
      in (if dp_no_epoch_cost dp then 0 else dp_epoch_penalty dp ep) + gpu_cost + cpu_load_weight dp ep * load
         + (if dp_no_epoch_cost dp then 0 else depth_penalty dp gpu_nodes depths))"

text \<open>The batch in the order of its depths.\<close>

definition sorted_batch :: "dp_config \<Rightarrow> string list \<Rightarrow> string list" where
  "sorted_batch dp batch =
     (let depths = batch_gpu_depths dp batch in if depths = [] then batch else sort_key (\<lambda>n. dict_get depths n 0) batch)"

text \<open>One choice per outcome of the assignment \<open>g\<close> of the GPU nodes.\<close>

definition assignment_choices ::
  "dp_config \<Rightarrow> int \<Rightarrow> worker_state list \<Rightarrow> nat \<Rightarrow> string list \<Rightarrow> string list \<Rightarrow> (string, nat) dict
    \<Rightarrow> (string \<times> string) list \<Rightarrow> epoch_choice result list" where
  "assignment_choices dp dm states ep gpu cpu depths g =
     (let cpu_assign = cpu_assignments dp cpu
      in if g = [] \<and> cpu_assign = [] then []
         else
           case assignment_outcomes dp g cpu states of
             Inl e \<Rightarrow> [Inl e]
           | Inr outs \<Rightarrow>
               map (\<lambda>out. Inr \<lparr>ec_done = add_nodes dp dm (gpu @ cpu), ec_assign = g @ cpu_assign,
                 ec_cost = epoch_cost dp ep gpu depths out, ec_states = oc_states out, ec_plans = oc_plans out\<rparr>) outs)"

definition batch_choices ::
  "dp_config \<Rightarrow> int \<Rightarrow> worker_state list \<Rightarrow> nat \<Rightarrow> string list \<Rightarrow> epoch_choice result list" where
  "batch_choices dp dm states ep batch =
     (let depths = batch_gpu_depths dp batch;
          gpu = sorted_batch dp batch;
          cpu = order_cpu_nodes dp (auto_cpu_batch dp dm gpu) depths
      in if gpu @ cpu = [] \<or> \<not> batch_feasible dp (gpu @ cpu) dm then []
         else
           case worker_assignments dp states gpu of
             Inl e \<Rightarrow> [Inl e]
           | Inr assigns \<Rightarrow> concat (map (assignment_choices dp dm states ep gpu cpu depths) assigns))"

definition epoch_choices ::
  "dp_config \<Rightarrow> bool \<Rightarrow> int \<Rightarrow> worker_state list \<Rightarrow> nat \<Rightarrow> epoch_choice result list result" where
  "epoch_choices dp prune dm states ep =
     (case enumerate_gpu_batches dp prune dm of
        Inl e \<Rightarrow> Inl e
      | Inr batches \<Rightarrow> Inr (concat (map (batch_choices dp dm states ep) batches)))"

subsection \<open>The lower bound\<close>

definition lower_bound_remaining :: "dp_config \<Rightarrow> int \<Rightarrow> nat \<Rightarrow> real" where
  "lower_bound_remaining dp dm ep =
     (let gpu = filter (\<lambda>n. \<not> is_done dp dm n) (gpu_node_ids dp);
          cpu = filter (\<lambda>n. \<not> is_done dp dm n) (db_node_ids dp);
          workers = max 1 (length (dp_gpu_workers dp));
          epochs = max (ceil_div (length gpu) workers) (if cpu = [] then 0 else 1);
          load = sum_list (map (\<lambda>n. dict_get (dp_min_cost dp) n 0) gpu)
      in if \<not> dp_bound dp \<or> gpu = [] \<and> cpu = [] then 0
         else (if dp_no_epoch_cost dp then 0 else sum_list (map (\<lambda>i. dp_epoch_penalty dp (ep + i)) [0..<epochs]))
           + dp_bound_factor dp * (if 0 < load then load / real workers else 0))"

subsection \<open>The search\<close>

type_synonym dp_schedule = "(nat \<times> string \<times> string) list"
type_synonym dp_best = "real \<times> dp_schedule \<times> plan_map"
type_synonym dp_memo = "(int \<times> worker_state list \<times> nat, dp_best) dict"

definition extend_best :: "epoch_choice \<Rightarrow> dp_best \<Rightarrow> dp_best" where
  "extend_best c sub =
     (case sub of (cost, sched, plans) \<Rightarrow>
        (ec_cost c + cost,
         map (\<lambda>(w, n). (0, w, n)) (ec_assign c) @ map (\<lambda>(e, w, n). (e + 1, w, n)) sched,
         merge_plans plans (ec_plans c)))"

definition better_plan :: "dp_best option \<Rightarrow> dp_best \<Rightarrow> dp_best option" where
  "better_plan best new = (case best of None \<Rightarrow> Some new | Some b \<Rightarrow> if fst new < fst b then Some new else Some b)"

text \<open>The loop over the choices: \<open>rec\<close> solves what remains, \<open>lb\<close> is the bound on it.\<close>

fun explore ::
  "(epoch_choice \<Rightarrow> dp_memo \<Rightarrow> (dp_best result \<times> dp_memo) option) \<Rightarrow> bool \<Rightarrow> (epoch_choice \<Rightarrow> real)
    \<Rightarrow> epoch_choice result list \<Rightarrow> dp_best option \<Rightarrow> dp_memo \<Rightarrow> (dp_best option result \<times> dp_memo) option" where
  "explore rec bound lb [] best memo = Some (Inr best, memo)"
| "explore rec bound lb (Inl e # cs) best memo = Some (Inl e, memo)"
| "explore rec bound lb (Inr c # cs) best memo =
     (if bound \<and> (case best of None \<Rightarrow> False | Some b \<Rightarrow> fst b \<le> ec_cost c + lb c)
      then explore rec bound lb cs best memo
      else
        case rec c memo of
          None \<Rightarrow> None
        | Some (Inl e, memo') \<Rightarrow> Some (Inl e, memo')
        | Some (Inr sub, memo') \<Rightarrow> explore rec bound lb cs (better_plan best (extend_best c sub)) memo')"

fun solve ::
  "nat \<Rightarrow> dp_config \<Rightarrow> bool \<Rightarrow> bool \<Rightarrow> int \<Rightarrow> worker_state list \<Rightarrow> nat \<Rightarrow> dp_memo
    \<Rightarrow> (dp_best result \<times> dp_memo) option" where
  "solve 0 dp prune retry dm states ep memo = None"
| "solve (Suc k) dp prune retry dm states ep memo =
     (if dm = all_mask dp then Some (Inr (0, [], []), memo)
      else
        case map_of memo (dm, states, ep) of
          Some r \<Rightarrow> Some (Inr r, memo)
        | None \<Rightarrow>
            (case epoch_choices dp prune dm states ep of
               Inl e \<Rightarrow> Some (Inl e, memo)
             | Inr cs \<Rightarrow>
                 (case explore (\<lambda>c m. solve k dp prune retry (ec_done c) (ec_states c) (ep + 1) m)
                     (dp_bound dp) (\<lambda>c. lower_bound_remaining dp (ec_done c) (ep + 1)) cs None memo of
                    None \<Rightarrow> None
                  | Some (Inl e, memo') \<Rightarrow> Some (Inl e, memo')
                  | Some (Inr (Some r), memo') \<Rightarrow> Some (Inr r, AList.update (dm, states, ep) r memo')
                  | Some (Inr None, memo') \<Rightarrow>
                      if retry \<and> prune then solve k dp False False dm states ep memo'
                      else Some (Inl (RuntimeError ''no valid schedule''), memo'))))"

definition initial_states :: "dp_config \<Rightarrow> worker_state list result" where
  "initial_states dp =
     map_result (\<lambda>w. case worker_index dp w of Inl e \<Rightarrow> Inl e | Inr i \<Rightarrow> Inr \<lparr>ws_worker = i, ws_model = -1, ws_node = -1\<rparr>)
       (dp_worker_ids dp)"

definition dp_fuel :: "dp_config \<Rightarrow> nat" where
  "dp_fuel dp = length (dp_node_ids dp) + 2"

definition dp_solve :: "dp_config \<Rightarrow> worker_state list option \<Rightarrow> dp_best result option" where
  "dp_solve dp init =
     (case (case init of None \<Rightarrow> initial_states dp | Some ss \<Rightarrow> Inr ss) of
        Inl e \<Rightarrow> Some (Inl e)
      | Inr states \<Rightarrow> map_option fst (solve (dp_fuel dp) dp (dp_prune dp) True 0 states 0 []))"

end
