(* ===== verification/Halo_DP_Inv.thy ===== *)
theory Halo_DP_Inv
  imports Halo_DP_Solve
begin

section \<open>The DP scheduler: what an epoch does\<close>

text \<open>
  Done masks as sets of nodes; the batches, the auto-filled CPU nodes and the assignments of one epoch;
  and the validity of every choice the search considers.
\<close>

subsection \<open>Done masks\<close>

definition dp_wf :: "dp_config \<Rightarrow> bool" where
  "dp_wf dp \<longleftrightarrow> distinct (dp_node_ids dp) \<and> dp_worker_ids dp \<noteq> []"

lemma last_index_distinct:
  assumes "distinct xs"
  shows "last_index xs x = Some i \<longleftrightarrow> i < length xs \<and> xs ! i = x"
proof -
  have "distinct (map fst (rev (zip xs [0..<length xs])))" using assms by (simp add: rev_map[symmetric])
  then have "last_index xs x = Some i \<longleftrightarrow> (x, i) \<in> set (zip xs [0..<length xs])"
    by (simp add: last_index_def)
  also have "\<dots> \<longleftrightarrow> i < length xs \<and> xs ! i = x" by (auto simp: set_zip)
  finally show ?thesis .
qed

lemma last_index_ex:
  assumes "x \<in> set xs"
  shows "\<exists>i. last_index xs x = Some i \<and> i < length xs \<and> xs ! i = x"
proof -
  have "fst ` set (rev (zip xs [0..<length xs])) = set xs"
    by (metis list.set_map map_fst_zip length_upt minus_nat.diff_0 set_rev)
  then have "map_of (rev (zip xs [0..<length xs])) x \<noteq> None" using assms by (simp only: map_of_eq_None_iff) simp
  then obtain i where i: "map_of (rev (zip xs [0..<length xs])) x = Some i" by blast
  from map_of_SomeD[OF this] have "i < length xs \<and> xs ! i = x" by (auto simp: set_zip)
  then show ?thesis using i by (auto simp: last_index_def)
qed

lemma node_index_less: "n \<in> set (dp_node_ids dp) \<Longrightarrow> node_index dp n < length (dp_node_ids dp)"
  using last_index_ex[of n "dp_node_ids dp"] by (auto simp: node_index_def)

lemma node_index_nth: "n \<in> set (dp_node_ids dp) \<Longrightarrow> dp_node_ids dp ! node_index dp n = n"
  using last_index_ex[of n "dp_node_ids dp"] by (auto simp: node_index_def)

lemma node_index_inj:
  "n \<in> set (dp_node_ids dp) \<Longrightarrow> m \<in> set (dp_node_ids dp) \<Longrightarrow> node_index dp n = node_index dp m \<longleftrightarrow> n = m"
  by (metis node_index_nth)

lemma is_done_iff: "is_done dp dm n \<longleftrightarrow> bit dm (node_index dp n)"
  by (simp add: is_done_def node_bit_def push_bit_eq_mult and_exp_eq_0_iff_not_bit)

lemma bit_node_bit: "bit (m OR node_bit dp n) j \<longleftrightarrow> bit m j \<or> j = node_index dp n"
  by (auto simp: bit_or_iff node_bit_def push_bit_eq_mult bit_exp_iff)

lemma bit_add_nodes: "bit (add_nodes dp m ns) j \<longleftrightarrow> bit m j \<or> (\<exists>n \<in> set ns. j = node_index dp n)"
  unfolding add_nodes_def by (induction ns arbitrary: m) (auto simp: bit_node_bit)

lemma bit_parents_mask:
  "bit (parents_mask dp g n) j \<longleftrightarrow>
     (\<exists>p \<in> set (parents_of (dp_deps dp) n). p \<in> set (dp_node_ids dp) \<and> (g \<longrightarrow> is_gpu dp p) \<and> j = node_index dp p)"
proof -
  have "bit (foldl (\<lambda>m p. if p \<notin> set (dp_node_ids dp) then m
                  else if g \<and> \<not> is_gpu dp p then m else m OR node_bit dp p) m ps) j \<longleftrightarrow>
     bit m j \<or> (\<exists>p \<in> set ps. p \<in> set (dp_node_ids dp) \<and> (g \<longrightarrow> is_gpu dp p) \<and> j = node_index dp p)" for m ps
    by (induction ps arbitrary: m) (auto simp: bit_node_bit)
  then show ?thesis by (simp add: parents_mask_def)
qed

lemma and_not_zero: "a AND NOT m = 0 \<longleftrightarrow> (\<forall>j. bit a j \<longrightarrow> bit m j)" for a m :: int
  by (auto simp: bit_eq_iff bit_and_iff bit_not_iff)

text \<open>Every parent of the node (every GPU parent) that the solver schedules is done.\<close>

definition parents_in :: "dp_config \<Rightarrow> bool \<Rightarrow> string \<Rightarrow> string set" where
  "parents_in dp g n = {p \<in> set (parents_of (dp_deps dp) n). p \<in> set (dp_node_ids dp) \<and> (g \<longrightarrow> is_gpu dp p)}"

lemma parents_mask_done: "parents_mask dp g n AND NOT m = 0 \<longleftrightarrow> (\<forall>p \<in> parents_in dp g n. is_done dp m p)"
  unfolding and_not_zero bit_parents_mask is_done_iff parents_in_def by blast

definition mask_ok :: "dp_config \<Rightarrow> int \<Rightarrow> bool" where
  "mask_ok dp dm \<longleftrightarrow> (\<forall>j. bit dm j \<longrightarrow> j < length (dp_node_ids dp))"

definition undone :: "dp_config \<Rightarrow> int \<Rightarrow> string set" where
  "undone dp dm = {n \<in> set (dp_node_ids dp). \<not> is_done dp dm n}"

lemma finite_undone [simp]: "finite (undone dp dm)"
  by (simp add: undone_def)

lemma mask_ok_0: "mask_ok dp 0" "undone dp 0 = set (dp_node_ids dp)"
  by (simp_all add: mask_ok_def undone_def is_done_iff)

lemma mask_ok_add: "mask_ok dp dm \<Longrightarrow> set ns \<subseteq> set (dp_node_ids dp) \<Longrightarrow> mask_ok dp (add_nodes dp dm ns)"
  using node_index_less by (auto simp: mask_ok_def bit_add_nodes)

lemma is_done_add:
  assumes "set ns \<subseteq> set (dp_node_ids dp)" "x \<in> set (dp_node_ids dp)"
  shows "is_done dp (add_nodes dp dm ns) x \<longleftrightarrow> is_done dp dm x \<or> x \<in> set ns"
  using assms node_index_inj by (auto simp: is_done_iff bit_add_nodes)

lemma undone_add: "set ns \<subseteq> set (dp_node_ids dp) \<Longrightarrow> undone dp (add_nodes dp dm ns) = undone dp dm - set ns"
  using is_done_add by (auto simp: undone_def)

lemma all_mask_iff:
  assumes "dp_wf dp" "mask_ok dp dm"
  shows "dm = all_mask dp \<longleftrightarrow> undone dp dm = {}"
proof -
  have a: "bit (all_mask dp) j \<longleftrightarrow> j < length (dp_node_ids dp)" for j
    by (simp add: all_mask_def push_bit_eq_mult bit_mask_iff flip: mask_eq_exp_minus_1)
  have "undone dp dm = {} \<longleftrightarrow> (\<forall>j < length (dp_node_ids dp). bit dm j)"
  proof
    assume u: "undone dp dm = {}"
    show "\<forall>j < length (dp_node_ids dp). bit dm j"
    proof (intro allI impI)
      fix j assume j: "j < length (dp_node_ids dp)"
      then have n: "dp_node_ids dp ! j \<in> set (dp_node_ids dp)" by simp
      then have "node_index dp (dp_node_ids dp ! j) = j"
        using assms(1) j node_index_nth[OF n] node_index_less[OF n] by (simp add: dp_wf_def nth_eq_iff_index_eq)
      then show "bit dm j" using u n by (auto simp: undone_def is_done_iff)
    qed
  qed (auto simp: undone_def is_done_iff node_index_less)
  then show ?thesis using assms(2) a by (auto simp: bit_eq_iff mask_ok_def)
qed

subsection \<open>GPU batches\<close>

lemma relax_distinct:
  assumes "distinct vs"
  shows "relax deg rdy vs = ((\<lambda>v. if v \<in> set vs then deg v - 1 else deg v), rdy @ filter (\<lambda>v. deg v = 1) vs)"
  using assms
proof (induction vs arbitrary: deg rdy)
  case (Cons v vs)
  have "filter (\<lambda>u. (deg(v := deg v - 1)) u = 1) vs = filter (\<lambda>u. deg u = 1) vs"
    using Cons.prems by (intro filter_cong) auto
  then show ?case using Cons by (simp add: Let_def fun_eq_iff)
qed simp

lemma gpu_topo_loop_distinct:
  assumes "distinct ns" "distinct (queue @ topo)" "\<forall>n \<in> set (queue @ topo). deg n \<le> 0 \<and> n \<in> set ns"
  shows "distinct (gpu_topo_loop deps ns deg queue topo) \<and> set (gpu_topo_loop deps ns deg queue topo) \<subseteq> set ns"
  using assms
proof (induction deps ns deg queue topo rule: gpu_topo_loop.induct)
  case (2 deps ns deg n queue topo)
  have d: "distinct (waiting_on deps ns n)" "set (waiting_on deps ns n) \<subseteq> set ns" using 2(2) by (auto simp: waiting_on_def)
  let ?deg = "\<lambda>v. if v \<in> set (waiting_on deps ns n) then deg v - 1 else deg v"
  let ?new = "filter (\<lambda>v. deg v = 1) (waiting_on deps ns n)"
  have r: "relax deg [] (waiting_on deps ns n) = (?deg, ?new)" using relax_distinct[OF d(1), of deg "[]"] by simp
  have old: "deg v \<le> 0" if "v \<in> set queue \<union> set topo \<union> {n}" for v using 2(4) that by auto
  have "set ?new \<inter> (set queue \<union> set topo \<union> {n}) = {}" using old by fastforce
  then have "distinct ((queue @ ?new) @ (topo @ [n]))" using 2(3) d(1) by auto
  moreover have "?deg v \<le> 0 \<and> v \<in> set ns" if "v \<in> set ((queue @ ?new) @ (topo @ [n]))" for v
  proof (cases "v \<in> set ?new")
    case True
    then show ?thesis using d(2) by auto
  next
    case False
    then have v: "v \<in> set queue \<union> set topo \<union> {n}" using that by auto
    then have "v \<in> set ns" using 2(4) by auto
    then show ?thesis using old[OF v] by simp
  qed
  ultimately show ?case using "2.IH"[OF r[symmetric] 2(2)] r by simp
qed auto

lemma gpu_topo_ok:
  assumes "distinct pending"
  shows "distinct (gpu_topo dp pending)" "set (gpu_topo dp pending) \<subseteq> set pending"
proof -
  let ?deg = "indegree (dp_deps dp) pending"
  have "distinct (filter (\<lambda>n. ?deg n = 0) pending @ [])" using assms by simp
  from gpu_topo_loop_distinct[OF assms this, of ?deg "dp_deps dp"]
  show "distinct (gpu_topo dp pending)" "set (gpu_topo dp pending) \<subseteq> set pending"
    using assms unfolding gpu_topo_def Let_def by auto
qed

lemma gpu_dfs_ok:
  assumes "b \<in> set (gpu_dfs dp dm lo hi ns selected sm)" "distinct (selected @ ns)"
  shows "distinct b \<and> set b \<subseteq> set selected \<union> set ns \<and> lo \<le> length b \<and> length b \<le> hi"
  using assms
proof (induction dp dm lo hi ns selected sm arbitrary: b rule: gpu_dfs.induct)
  case (2 dp dm lo hi n ns selected sm)
  have d: "distinct (selected @ ns)" "distinct ((selected @ [n]) @ ns)" using "2.prems"(2) by auto
  consider "b \<in> set (gpu_dfs dp dm lo hi ns selected sm)"
    | "\<not> hi \<le> length selected" "\<not> parents_mask dp True n AND NOT (dm OR sm) \<noteq> 0"
      "b \<in> set (gpu_dfs dp dm lo hi ns (selected @ [n]) (sm OR node_bit dp n))"
    using "2.prems"(1) by (auto split: if_splits)
  then show ?case
  proof cases
    case 1
    from "2.IH"(1)[OF this d(1)] show ?thesis by auto
  next
    case 2
    from "2.IH"(3)[OF 2 d(2)] show ?thesis by auto
  qed
qed (auto split: if_splits)

lemma enumerate_ok:
  assumes "distinct (dp_node_ids dp)" "enumerate_gpu_batches dp prune dm = Inr bs" "b \<in> set bs"
  shows "distinct b \<and> set b \<subseteq> set (pending_gpu dp dm) \<and> length b \<le> max 1 (length (dp_gpu_workers dp))"
proof (cases "b = []")
  case False
  have d: "distinct (pending_gpu dp dm)" using assms(1) by (simp add: pending_gpu_def)
  note T = gpu_topo_ok[OF d, of dp]
  obtain lo where "b \<in> set (gpu_dfs dp dm lo (min (max 1 (length (dp_gpu_workers dp))) (length (pending_gpu dp dm))) (gpu_topo dp (pending_gpu dp dm)) [] 0)"
    using assms(2,3) False by (auto simp: enumerate_gpu_batches_def Let_def split: if_splits)
  from gpu_dfs_ok[OF this] T show ?thesis by auto
qed simp

lemma pending_gpu_iff: "set (pending_gpu dp dm) = {n \<in> undone dp dm. is_gpu dp n}"
  by (auto simp: pending_gpu_def undone_def)

subsection \<open>CPU nodes of an epoch\<close>

lemma auto_pass_sets:
  assumes "auto_pass dp ns (sel, pend, m) = (sel', pend', m')" "distinct (sel @ pend)"
  shows "distinct (sel' @ pend') \<and> set sel' \<union> set pend' = set sel \<union> set pend \<and> (\<exists>xs. sel' = sel @ xs \<and> m' = add_nodes dp m xs)"
  using assms
proof (induction ns arbitrary: sel pend m)
  case (Cons n ns)
  show ?case
  proof (cases "n \<notin> set pend \<or> parents_mask dp False n AND NOT m \<noteq> 0")
    case True
    then show ?thesis using Cons by simp
  next
    case False
    then have "auto_pass dp ns (sel @ [n], removeAll n pend, m OR node_bit dp n) = (sel', pend', m')"
      using Cons.prems(1) by simp
    moreover have "distinct ((sel @ [n]) @ removeAll n pend)" "set (sel @ [n]) \<union> set (removeAll n pend) = set sel \<union> set pend"
      using Cons.prems(2) False by (auto simp: distinct_removeAll)
    ultimately show ?thesis using Cons.IH[of "sel @ [n]" "removeAll n pend" "m OR node_bit dp n"]
      by (fastforce simp: add_nodes_def)
  qed
qed (simp add: add_nodes_def)

text \<open>A pass that selects nothing leaves no pending node of the order runnable.\<close>

lemma auto_pass_stuck:
  assumes "auto_pass dp ns (sel, pend, m) = (sel', pend', m')" "sel' = sel"
  shows "\<forall>n \<in> set ns \<inter> set pend. parents_mask dp False n AND NOT m \<noteq> 0"
  using assms
proof (induction ns arbitrary: sel pend m)
  case (Cons n ns)
  show ?case
  proof (cases "n \<notin> set pend \<or> parents_mask dp False n AND NOT m \<noteq> 0")
    case True
    then show ?thesis using Cons by auto
  next
    case False
    then have "auto_pass dp ns (sel @ [n], removeAll n pend, m OR node_bit dp n) = (sel', pend', m')"
      using Cons.prems(1) by simp
    from auto_pass_measure[OF this] obtain xs where "sel' = (sel @ [n]) @ xs" by blast
    then show ?thesis using Cons.prems(2) by simp
  qed
qed simp

lemma auto_loop_ok:
  assumes "distinct (sel @ pend)"
  shows "\<exists>xs. auto_loop dp (sel, pend, m) = sel @ xs \<and> distinct (sel @ xs) \<and> set xs \<subseteq> set pend
     \<and> (\<forall>n \<in> (set (db_topo_order dp) \<inter> set pend) - set xs. parents_mask dp False n AND NOT (add_nodes dp m xs) \<noteq> 0)"
  using assms
proof (induction "length pend" arbitrary: sel pend m rule: less_induct)
  case less
  obtain sel' pend' m' where p: "auto_pass dp (db_topo_order dp) (sel, pend, m) = (sel', pend', m')" by (metis prod_cases3)
  note S = auto_pass_sets[OF p less.prems]
  have loop: "auto_loop dp (sel, pend, m) = (if sel' = sel then sel' else auto_loop dp (sel', pend', m'))"
    using p by (subst auto_loop.simps) simp
  show ?case
  proof (cases "sel' = sel")
    case True
    then show ?thesis using loop auto_pass_stuck[OF p True] less.prems by (intro exI[of _ "[]"]) (auto simp: add_nodes_def)
  next
    case False
    then have "length pend' < length pend" using auto_pass_measure[OF p] by simp
    from less.hyps[OF this, of sel' m'] S obtain xs where
      xs: "auto_loop dp (sel', pend', m') = sel' @ xs" "distinct (sel' @ xs)" "set xs \<subseteq> set pend'"
        "\<forall>n \<in> (set (db_topo_order dp) \<inter> set pend') - set xs. parents_mask dp False n AND NOT (add_nodes dp m' xs) \<noteq> 0"
      by blast
    obtain ys where ys: "sel' = sel @ ys" "m' = add_nodes dp m ys" using S by blast
    have m: "add_nodes dp m' xs = add_nodes dp m (ys @ xs)" using ys by (simp add: add_nodes_def)
    have "set pend' = set pend - set ys" "set ys \<subseteq> set pend" using S less.prems ys by auto
    then have "set (ys @ xs) \<subseteq> set pend"
      "\<forall>n \<in> (set (db_topo_order dp) \<inter> set pend) - set (ys @ xs). parents_mask dp False n AND NOT (add_nodes dp m (ys @ xs)) \<noteq> 0"
      using xs(3,4) unfolding m by auto
    then show ?thesis using loop False xs(1,2) ys by (intro exI[of _ "ys @ xs"]) simp
  qed
qed

lemma set_db_node_ids: "set (db_node_ids dp) = {n \<in> set (dp_node_ids dp). \<not> is_gpu dp n}"
  by (auto simp: db_node_ids_def)

lemma set_db_topo_order: "set (db_topo_order dp) = set (db_node_ids dp)"
proof (cases "heap_topological_order (dp_deps dp) (Some (dp_node_ids dp))")
  case (Inr order)
  from heap_topological_order_sound(2)[OF this] have "set order = set (dp_node_ids dp)" by (simp add: heap_nodes_def)
  then show ?thesis using Inr by (simp add: db_topo_order_def set_db_node_ids)
qed (simp add: db_topo_order_def set_db_node_ids)

text \<open>
  The auto-filled CPU nodes: pending, none twice, and maximal. No CPU node left behind could run.
\<close>

lemma auto_cpu_batch_ok:
  shows "distinct (auto_cpu_batch dp dm gpu_nodes)"
    and "set (auto_cpu_batch dp dm gpu_nodes) \<subseteq> {n \<in> undone dp dm. \<not> is_gpu dp n}"
    and "n \<in> undone dp dm \<Longrightarrow> \<not> is_gpu dp n \<Longrightarrow> n \<notin> set (auto_cpu_batch dp dm gpu_nodes) \<Longrightarrow>
      \<exists>p \<in> parents_in dp False n. \<not> is_done dp (add_nodes dp dm (gpu_nodes @ auto_cpu_batch dp dm gpu_nodes)) p"
proof -
  let ?pend = "remdups (filter (\<lambda>n. \<not> is_done dp dm n) (db_node_ids dp))"
  let ?cpu = "auto_cpu_batch dp dm gpu_nodes" and ?m = "add_nodes dp dm gpu_nodes"
  have pend: "set ?pend = {n \<in> undone dp dm. \<not> is_gpu dp n}" by (auto simp: set_db_node_ids undone_def)
  have "\<exists>xs. ?cpu = xs \<and> distinct xs \<and> set xs \<subseteq> set ?pend
     \<and> (\<forall>n \<in> set ?pend - set xs. parents_mask dp False n AND NOT (add_nodes dp ?m xs) \<noteq> 0)"
  proof (cases "?pend = []")
    case True
    then show ?thesis by (intro exI[of _ "[]"]) (simp add: auto_cpu_batch_def Let_def)
  next
    case False
    then have "?cpu = auto_loop dp ([], ?pend, ?m)" by (auto simp: auto_cpu_batch_def Let_def)
    moreover have "distinct ([] @ ?pend)" by simp
    from auto_loop_ok[OF this, of dp ?m] obtain xs where "auto_loop dp ([], ?pend, ?m) = xs" "distinct xs" "set xs \<subseteq> set ?pend"
      "\<forall>n \<in> (set (db_topo_order dp) \<inter> set ?pend) - set xs. parents_mask dp False n AND NOT (add_nodes dp ?m xs) \<noteq> 0" by auto
    moreover have "set (db_topo_order dp) \<inter> set ?pend = set ?pend" by (auto simp: set_db_topo_order)
    ultimately show ?thesis by metis
  qed
  then have cpu: "distinct ?cpu" "set ?cpu \<subseteq> set ?pend"
    "\<forall>n \<in> set ?pend - set ?cpu. parents_mask dp False n AND NOT (add_nodes dp ?m ?cpu) \<noteq> 0" by blast+
  show "distinct ?cpu" by (rule cpu(1))
  show "set ?cpu \<subseteq> {n \<in> undone dp dm. \<not> is_gpu dp n}" using cpu(2) unfolding pend .
  show "\<exists>p \<in> parents_in dp False n. \<not> is_done dp (add_nodes dp dm (gpu_nodes @ ?cpu)) p"
    if "n \<in> undone dp dm" "\<not> is_gpu dp n" "n \<notin> set ?cpu"
  proof -
    have "parents_mask dp False n AND NOT (add_nodes dp ?m ?cpu) \<noteq> 0" using cpu(3) pend that by blast
    then show ?thesis unfolding parents_mask_done by (simp add: add_nodes_def)
  qed
qed

subsection \<open>Assignments\<close>

lemma gpu_assign_dfs_ok:
  "a \<in> set (gpu_assign_dfs dp ns used cur) \<Longrightarrow>
     \<exists>ps. a = cur @ ps \<and> map snd ps = ns \<and> distinct (map fst ps) \<and> fst ` set ps \<inter> used = {}
       \<and> (\<forall>(w, n) \<in> set ps. w \<in> set (dp_gpu_workers dp) \<and> w \<in> set (worker_options dp n))"
proof (induction dp ns used cur rule: gpu_assign_dfs.induct)
  case (2 dp n ns used cur)
  then obtain w where w: "w \<in> set (dp_gpu_workers dp)" "w \<in> set (worker_options dp n)" "w \<notin> used"
    "a \<in> set (gpu_assign_dfs dp ns (insert w used) (cur @ [(w, n)]))" by (auto split: if_splits)
  have "\<not> (w \<notin> set (worker_options dp n) \<or> w \<in> used)" using w by simp
  from "2.IH"[OF w(1) this w(4)] obtain ps where "a = (cur @ [(w, n)]) @ ps" "map snd ps = ns" "distinct (map fst ps)"
    "fst ` set ps \<inter> insert w used = {}"
    "\<forall>(w, n) \<in> set ps. w \<in> set (dp_gpu_workers dp) \<and> w \<in> set (worker_options dp n)" by blast
  then show ?case using w(1-3) by (intro exI[of _ "(w, n) # ps"]) auto
qed simp

lemma dedup_loop_sub: "dedup_loop dp states seen as = Inr rs \<Longrightarrow> set rs \<subseteq> set as"
proof (induction dp states seen as arbitrary: rs rule: dedup_loop.induct)
  case (2 dp states seen a as)
  then show ?case by (force split: sum.splits if_splits)
qed simp

lemma worker_assignments_ok:
  assumes "worker_assignments dp states ns = Inr as" "a \<in> set as"
  shows "map snd a = ns \<and> distinct (map fst a)
     \<and> (\<forall>(w, n) \<in> set a. w \<in> set (dp_gpu_workers dp) \<and> w \<in> set (worker_options dp n))"
proof -
  have "a \<in> set (gpu_assignments dp ns)"
    using assms dedup_loop_sub[of dp states "[]" "gpu_assignments dp ns" as]
    by (auto simp: worker_assignments_def split: if_splits)
  from gpu_assign_dfs_ok[OF this[unfolded gpu_assignments_def]] show ?thesis by auto
qed

lemma cpu_pool_ok:
  assumes "dp_worker_ids dp \<noteq> []"
  shows "cpu_pool dp n \<noteq> []" and "worker_options dp n \<noteq> [] \<Longrightarrow> set (cpu_pool dp n) \<subseteq> set (worker_options dp n)"
  using assms by (auto simp: cpu_pool_def Let_def)

lemma cpu_assignments_ok:
  assumes "dp_worker_ids dp \<noteq> []"
  shows "map snd (cpu_assignments dp ns) = ns" and "\<forall>(w, n) \<in> set (cpu_assignments dp ns). w \<in> set (cpu_pool dp n)"
proof -
  have e: "cpu_assignments dp ns = map (\<lambda>(i, n). (cpu_pool dp n ! (i mod length (cpu_pool dp n)), n)) (enumerate 0 ns)"
    using assms by (simp add: cpu_assignments_def)
  have "map snd (enumerate 0 ns) = ns" by (simp add: map_snd_enumerate)
  then show "map snd (cpu_assignments dp ns) = ns" unfolding e by (simp add: comp_def case_prod_beta')
  have "cpu_pool dp n ! (i mod length (cpu_pool dp n)) \<in> set (cpu_pool dp n)" for i n
    using cpu_pool_ok(1)[OF assms] by (intro nth_mem mod_less_divisor) simp
  then show "\<forall>(w, n) \<in> set (cpu_assignments dp ns). w \<in> set (cpu_pool dp n)" unfolding e by auto
qed

subsection \<open>The choices of an epoch\<close>

text \<open>
  A choice runs a non-empty set of undone nodes whose parents are done or run with them: GPU nodes on
  distinct GPU workers they may use, CPU nodes on workers of their pool.
\<close>

definition choice_ok :: "dp_config \<Rightarrow> int \<Rightarrow> epoch_choice \<Rightarrow> bool" where
  "choice_ok dp dm c \<longleftrightarrow> (\<exists>gpu cpu ga ca.
     distinct (gpu @ cpu) \<and> gpu @ cpu \<noteq> [] \<and> set gpu \<subseteq> {n \<in> undone dp dm. is_gpu dp n}
   \<and> set cpu \<subseteq> {n \<in> undone dp dm. \<not> is_gpu dp n} \<and> ec_done c = add_nodes dp dm (gpu @ cpu)
   \<and> (\<forall>n \<in> set (gpu @ cpu). \<forall>p \<in> parents_in dp False n. is_done dp (ec_done c) p)
   \<and> ec_assign c = ga @ ca \<and> map snd ga = gpu \<and> map snd ca = cpu \<and> distinct (map fst ga)
   \<and> (\<forall>(w, n) \<in> set ga. w \<in> set (dp_gpu_workers dp) \<and> w \<in> set (worker_options dp n))
   \<and> (\<forall>(w, n) \<in> set ca. w \<in> set (cpu_pool dp n)))"

lemma sorted_batch_same: "mset (sorted_batch dp batch) = mset batch"
  by (simp add: sorted_batch_def Let_def)

lemma sorted_batch_set: "set (sorted_batch dp batch) = set batch" "distinct (sorted_batch dp batch) = distinct batch"
  using sorted_batch_same[of dp batch] by (metis mset_eq_setD, metis mset_eq_imp_distinct_iff)

lemma order_cpu_nodes_set: "set (order_cpu_nodes dp ns depths) = set ns" "distinct (order_cpu_nodes dp ns depths) = distinct ns"
  by (simp_all add: order_cpu_nodes_def)

lemma assignment_choices_in:
  "Inr c \<in> set (assignment_choices dp dm states ep gpu cpu depths g) \<Longrightarrow>
     ec_done c = add_nodes dp dm (gpu @ cpu) \<and> ec_assign c = g @ cpu_assignments dp cpu"
  by (auto simp: assignment_choices_def Let_def split: if_splits sum.splits)

lemma batch_choices_ok:
  assumes wf: "dp_wf dp" and b: "distinct batch" "set batch \<subseteq> {n \<in> undone dp dm. is_gpu dp n}"
    and c: "Inr c \<in> set (batch_choices dp dm states ep batch)"
  shows "choice_ok dp dm c"
proof -
  define gpu where "gpu = sorted_batch dp batch"
  define cpu where "cpu = order_cpu_nodes dp (auto_cpu_batch dp dm gpu) (batch_gpu_depths dp batch)"
  have ne: "gpu @ cpu \<noteq> []" and feas: "batch_feasible dp (gpu @ cpu) dm"
    using c unfolding batch_choices_def Let_def gpu_def[symmetric] cpu_def[symmetric] by (auto split: if_splits)
  then obtain assigns g where g: "worker_assignments dp states gpu = Inr assigns" "g \<in> set assigns"
    and ch: "Inr c \<in> set (assignment_choices dp dm states ep gpu cpu (batch_gpu_depths dp batch) g)"
    using c unfolding batch_choices_def Let_def gpu_def[symmetric] cpu_def[symmetric]
    by (cases "worker_assignments dp states gpu") auto
  note ec = assignment_choices_in[OF ch]
  have w: "dp_worker_ids dp \<noteq> []" using wf by (simp add: dp_wf_def)
  have gs: "set gpu \<subseteq> {n \<in> undone dp dm. is_gpu dp n}" "distinct gpu"
    using b by (simp_all add: gpu_def sorted_batch_set)
  have cs: "set cpu \<subseteq> {n \<in> undone dp dm. \<not> is_gpu dp n}" "distinct cpu"
    using auto_cpu_batch_ok(1,2)[of dp dm gpu] by (simp_all add: cpu_def order_cpu_nodes_set)
  have "distinct (gpu @ cpu)" using gs cs by auto
  moreover have "\<forall>n \<in> set (gpu @ cpu). \<forall>p \<in> parents_in dp False n. is_done dp (ec_done c) p"
    using feas unfolding batch_feasible_def Let_def parents_mask_done using ec by simp
  ultimately show ?thesis
    unfolding choice_ok_def using ne gs cs ec worker_assignments_ok[OF g(1,2)] cpu_assignments_ok[OF w, of cpu]
    by (intro exI[of _ gpu] exI[of _ cpu] exI[of _ g] exI[of _ "cpu_assignments dp cpu"]) blast
qed

lemma epoch_choices_ok:
  assumes wf: "dp_wf dp" and e: "epoch_choices dp prune dm states ep = Inr cs" and c: "Inr c \<in> set cs"
  shows "choice_ok dp dm c"
proof -
  obtain bs b where b: "enumerate_gpu_batches dp prune dm = Inr bs" "b \<in> set bs" "Inr c \<in> set (batch_choices dp dm states ep b)"
    using e c by (auto simp: epoch_choices_def split: sum.splits)
  have d: "distinct (dp_node_ids dp)" using wf by (simp add: dp_wf_def)
  have "distinct b" "set b \<subseteq> {n \<in> undone dp dm. is_gpu dp n}"
    using enumerate_ok[OF d b(1,2)] pending_gpu_iff by auto
  from batch_choices_ok[OF wf this b(3)] show ?thesis .
qed

lemma choice_progress:
  assumes "choice_ok dp dm c" "mask_ok dp dm"
  shows "mask_ok dp (ec_done c)" "card (undone dp (ec_done c)) < card (undone dp dm)"
proof -
  obtain gpu cpu where gc: "gpu @ cpu \<noteq> []" "set gpu \<subseteq> {n \<in> undone dp dm. is_gpu dp n}"
    "set cpu \<subseteq> {n \<in> undone dp dm. \<not> is_gpu dp n}" "ec_done c = add_nodes dp dm (gpu @ cpu)"
    using assms(1) unfolding choice_ok_def by blast
  define ns where "ns = gpu @ cpu"
  have ns: "ns \<noteq> []" "set ns \<subseteq> undone dp dm" "ec_done c = add_nodes dp dm ns"
    using gc by (auto simp: ns_def)
  have sub: "set ns \<subseteq> set (dp_node_ids dp)" using ns(2) by (auto simp: undone_def)
  show "mask_ok dp (ec_done c)" unfolding ns(3) using assms(2) sub by (rule mask_ok_add)
  have "undone dp (ec_done c) = undone dp dm - set ns" unfolding ns(3) by (rule undone_add[OF sub])
  moreover obtain x where "x \<in> set ns" using ns(1) by (cases ns) auto
  ultimately have "undone dp (ec_done c) \<subset> undone dp dm" using ns(2) by auto
  then show "card (undone dp (ec_done c)) < card (undone dp dm)" by (rule psubset_card_mono[rotated]) simp
qed

subsection \<open>Schedules\<close>

text \<open>
  A schedule of the nodes not done in \<open>dm\<close>: each of them once, no GPU worker with two GPU nodes in one
  epoch, every node on a worker it may use, and every parent done, or in the same or an earlier epoch.
\<close>

definition sched_nodes :: "dp_schedule \<Rightarrow> string list" where
  "sched_nodes sched = map (\<lambda>(e, w, n). n) sched"

definition schedule_ok :: "dp_config \<Rightarrow> int \<Rightarrow> dp_schedule \<Rightarrow> bool" where
  "schedule_ok dp dm sched \<longleftrightarrow>
     distinct (sched_nodes sched) \<and> set (sched_nodes sched) = undone dp dm
   \<and> (\<forall>(e, w, n) \<in> set sched. if is_gpu dp n then w \<in> set (dp_gpu_workers dp) \<and> w \<in> set (worker_options dp n)
                              else w \<in> set (cpu_pool dp n))
   \<and> (\<forall>(e, w, n) \<in> set sched. \<forall>p \<in> parents_in dp False n. is_done dp dm p \<or> (\<exists>e' w'. (e', w', p) \<in> set sched \<and> e' \<le> e))
   \<and> (\<forall>e w n n'. (e, w, n) \<in> set sched \<and> (e, w, n') \<in> set sched \<and> is_gpu dp n \<and> is_gpu dp n' \<longrightarrow> n = n')"

lemma schedule_ok_empty: "undone dp dm = {} \<Longrightarrow> schedule_ok dp dm []"
  by (simp add: schedule_ok_def sched_nodes_def)

lemma schedule_ok_extend:
  assumes c: "choice_ok dp dm c" and s: "schedule_ok dp (ec_done c) sched"
  shows "schedule_ok dp dm (map (\<lambda>(w, n). (0, w, n)) (ec_assign c) @ map (\<lambda>(e, w, n). (e + 1, w, n)) sched)"
proof -
  obtain gpu cpu ga ca where
    gc: "distinct (gpu @ cpu)" "set gpu \<subseteq> {n \<in> undone dp dm. is_gpu dp n}" "set cpu \<subseteq> {n \<in> undone dp dm. \<not> is_gpu dp n}"
    and d: "ec_done c = add_nodes dp dm (gpu @ cpu)"
    and par: "\<forall>n \<in> set (gpu @ cpu). \<forall>p \<in> parents_in dp False n. is_done dp (ec_done c) p"
    and a: "ec_assign c = ga @ ca" "map snd ga = gpu" "map snd ca = cpu" "distinct (map fst ga)"
      "\<forall>(w, n) \<in> set ga. w \<in> set (dp_gpu_workers dp) \<and> w \<in> set (worker_options dp n)"
      "\<forall>(w, n) \<in> set ca. w \<in> set (cpu_pool dp n)"
    using c unfolding choice_ok_def by blast
  let ?now = "map (\<lambda>(w, n). (0::nat, w, n)) (ec_assign c)" and ?later = "map (\<lambda>(e, w, n). (e + 1, w, n)) sched"
  have sub: "set (gpu @ cpu) \<subseteq> set (dp_node_ids dp)" "set (gpu @ cpu) \<subseteq> undone dp dm"
    using gc(2,3) by (auto simp: undone_def)
  have u: "undone dp (ec_done c) = undone dp dm - set (gpu @ cpu)" unfolding d by (rule undone_add[OF sub(1)])
  have later: "sched_nodes ?later = sched_nodes sched" by (simp add: sched_nodes_def comp_def case_prod_beta')
  have "sched_nodes ?now = map snd (ec_assign c)" by (simp add: sched_nodes_def comp_def case_prod_beta')
  then have now: "sched_nodes ?now = gpu @ cpu" using a(1-3) by simp
  have S: "distinct (sched_nodes sched)" "set (sched_nodes sched) = undone dp (ec_done c)"
    and Sw: "\<And>e w n. (e, w, n) \<in> set sched \<Longrightarrow> if is_gpu dp n then w \<in> set (dp_gpu_workers dp) \<and> w \<in> set (worker_options dp n)
                              else w \<in> set (cpu_pool dp n)"
    and Sp: "\<And>e w n p. (e, w, n) \<in> set sched \<Longrightarrow> p \<in> parents_in dp False n \<Longrightarrow>
        is_done dp (ec_done c) p \<or> (\<exists>e' w'. (e', w', p) \<in> set sched \<and> e' \<le> e)"
    and Sx: "\<And>e w n n'. (e, w, n) \<in> set sched \<Longrightarrow> (e, w, n') \<in> set sched \<Longrightarrow> is_gpu dp n \<Longrightarrow> is_gpu dp n' \<Longrightarrow> n = n'"
    using s unfolding schedule_ok_def by blast+
  have split: "sched_nodes (?now @ ?later) = (gpu @ cpu) @ sched_nodes sched"
    using now later by (simp add: sched_nodes_def)
  have in_now: "(w, n) \<in> set ga \<and> is_gpu dp n \<or> (w, n) \<in> set ca \<and> \<not> is_gpu dp n" if "(e, w, n) \<in> set ?now" for e w n
  proof -
    have "(w, n) \<in> set ga \<or> (w, n) \<in> set ca" using that a(1) by auto
    moreover have "is_gpu dp n" if "(w, n) \<in> set ga" using that a(2) gc(2) by force
    moreover have "\<not> is_gpu dp n" if "(w, n) \<in> set ca" using that a(3) gc(3) by force
    ultimately show ?thesis by blast
  qed
  have here: "\<exists>w. (0, w, p) \<in> set ?now" if "p \<in> set (gpu @ cpu)" for p
  proof -
    have "p \<in> set (sched_nodes ?now)" using that now by simp
    then show ?thesis by (auto simp: sched_nodes_def)
  qed
  show ?thesis
    unfolding schedule_ok_def split
  proof (intro conjI)
    show "distinct ((gpu @ cpu) @ sched_nodes sched)" using gc(1) S u by auto
    show "set ((gpu @ cpu) @ sched_nodes sched) = undone dp dm" using S(2) u sub(2) by auto
    show "\<forall>(e, w, n) \<in> set (?now @ ?later). if is_gpu dp n then w \<in> set (dp_gpu_workers dp) \<and> w \<in> set (worker_options dp n)
                              else w \<in> set (cpu_pool dp n)"
    proof clarify
      fix e w n assume "(e, w, n) \<in> set (?now @ ?later)"
      then consider "(e, w, n) \<in> set ?now" | e' where "(e', w, n) \<in> set sched" by auto
      then show "if is_gpu dp n then w \<in> set (dp_gpu_workers dp) \<and> w \<in> set (worker_options dp n) else w \<in> set (cpu_pool dp n)"
      proof cases
        case 1
        then show ?thesis using in_now[OF 1] a(5,6) by auto
      qed (rule Sw)
    qed
    show "\<forall>(e, w, n) \<in> set (?now @ ?later). \<forall>p \<in> parents_in dp False n.
        is_done dp dm p \<or> (\<exists>e' w'. (e', w', p) \<in> set (?now @ ?later) \<and> e' \<le> e)"
    proof clarify
      fix e w n p assume en: "(e, w, n) \<in> set (?now @ ?later)" and p: "p \<in> parents_in dp False n"
        and none: "\<not> (\<exists>e' w'. (e', w', p) \<in> set (?now @ ?later) \<and> e' \<le> e)"
      have pn: "p \<in> set (dp_node_ids dp)" using p by (simp add: parents_in_def)
      have not_now: "p \<notin> set (gpu @ cpu)" using here none by fastforce
      have "is_done dp (ec_done c) p"
      proof (cases "(e, w, n) \<in> set ?now")
        case True
        then have "n \<in> set (sched_nodes ?now)" by (force simp: sched_nodes_def)
        then show ?thesis using par p now by simp
      next
        case False
        then obtain e0 where e0: "e = e0 + 1" "(e0, w, n) \<in> set sched" using en by auto
        from Sp[OF e0(2) p] show ?thesis
        proof
          assume "\<exists>e' w'. (e', w', p) \<in> set sched \<and> e' \<le> e0"
          then obtain e' w' where "(e' + 1, w', p) \<in> set ?later" "e' + 1 \<le> e" using e0(1) by force
          moreover from this have "(e' + 1, w', p) \<in> set (?now @ ?later)" by (simp only: set_append Un_iff simp_thms)
          ultimately show ?thesis using none by blast
        qed
      qed
      then show "is_done dp dm p" using is_done_add[OF sub(1) pn, of dm] not_now unfolding d by blast
    qed
    show "\<forall>e w n n'. (e, w, n) \<in> set (?now @ ?later) \<and> (e, w, n') \<in> set (?now @ ?later) \<and> is_gpu dp n \<and> is_gpu dp n' \<longrightarrow> n = n'"
    proof (intro allI impI)
      fix e w n n'
      assume A: "(e, w, n) \<in> set (?now @ ?later) \<and> (e, w, n') \<in> set (?now @ ?later) \<and> is_gpu dp n \<and> is_gpu dp n'"
      show "n = n'"
      proof (cases e)
        case 0
        then have "(0, w, n) \<in> set ?now" "(0, w, n') \<in> set ?now" using A by auto
        then have "(w, n) \<in> set ga" "(w, n') \<in> set ga" using in_now A by blast+
        then show ?thesis using a(4) by (simp add: eq_key_imp_eq_value)
      next
        case (Suc e0)
        then have "(e0, w, n) \<in> set sched" "(e0, w, n') \<in> set sched" using A by auto
        then show ?thesis using Sx A by blast
      qed
    qed
  qed
qed

end
