(* ===== verification/Halo_DP_Props.thy ===== *)
theory Halo_DP_Props
  imports Halo_DP_Inv
begin

section \<open>The DP scheduler: the search\<close>

text \<open>
  The search terminates with the fuel \<open>dp_solve\<close> gives it, every schedule it returns is valid, and
  without pruning it is optimal over the plans its choices make up.
\<close>

subsection \<open>The loop over choices\<close>

lemma explore_total:
  assumes "\<And>c m. Inr c \<in> set cs \<Longrightarrow> rec c m \<noteq> None"
  shows "explore rec bound lb cs best memo \<noteq> None"
  using assms
proof (induction rec bound lb cs best memo rule: explore.induct)
  case (3 rec bound lb c cs best memo)
  have more: "\<And>c m. Inr c \<in> set cs \<Longrightarrow> rec c m \<noteq> None" using "3.prems" by simp
  show ?case
  proof (cases "bound \<and> (case best of None \<Rightarrow> False | Some b \<Rightarrow> fst b \<le> ec_cost c + lb c)")
    case True
    then show ?thesis using "3.IH"(1)[OF True] more by simp
  next
    case False
    obtain r m where r: "rec c memo = Some (r, m)" using "3.prems"[of c memo] by auto
    show ?thesis
    proof (cases r)
      case (Inr sub)
      have "explore rec bound lb cs (better_plan best (extend_best c sub)) m \<noteq> None"
        by (rule "3.IH"(2)[OF False r refl Inr more])
      then show ?thesis by (simp only: explore.simps if_not_P[OF False] r Inr option.case prod.case sum.case simp_thms)
    next
      case (Inl e)
      then show ?thesis by (simp only: explore.simps if_not_P[OF False] r option.case prod.case sum.case option.distinct not_False_eq_True)
    qed
  qed
qed simp_all

text \<open>A predicate on the memo that \<open>rec\<close> keeps, and one on the solutions it builds.\<close>

lemma explore_inv:
  assumes "explore rec bound lb cs best memo = Some (r, memo')"
    and "\<And>c m r' m'. Inr c \<in> set cs \<Longrightarrow> I m \<Longrightarrow> rec c m = Some (r', m') \<Longrightarrow> I m' \<and> (\<forall>sub. r' = Inr sub \<longrightarrow> Q (extend_best c sub))"
    and "I memo" "\<And>b. best = Some b \<Longrightarrow> Q b"
  shows "I memo' \<and> (\<forall>b. r = Inr (Some b) \<longrightarrow> Q b)"
  using assms
proof (induction rec bound lb cs best memo arbitrary: r memo' rule: explore.induct)
  case (3 rec bound lb c cs best memo)
  have more: "\<And>c m r' m'. Inr c \<in> set cs \<Longrightarrow> I m \<Longrightarrow> rec c m = Some (r', m') \<Longrightarrow> I m' \<and> (\<forall>sub. r' = Inr sub \<longrightarrow> Q (extend_best c sub))"
    by (rule "3.prems"(2)) (simp_all only: list.set insert_iff simp_thms)
  show ?case
  proof (cases "bound \<and> (case best of None \<Rightarrow> False | Some b \<Rightarrow> fst b \<le> ec_cost c + lb c)")
    case True
    then have "explore rec bound lb cs best memo = Some (r, memo')" using "3.prems"(1) by simp
    from "3.IH"(1)[OF True this more "3.prems"(3,4)] show ?thesis .
  next
    case False
    then obtain r1 m1 where r1: "rec c memo = Some (r1, m1)" using "3.prems"(1) by (auto split: option.splits)
    have one: "I m1 \<and> (\<forall>sub. r1 = Inr sub \<longrightarrow> Q (extend_best c sub))"
      using "3.prems"(2)[OF _ "3.prems"(3) r1] by simp
    show ?thesis
    proof (cases r1)
      case (Inl e)
      then show ?thesis using "3.prems"(1) False r1 one by auto
    next
      case (Inr sub)
      have "explore rec bound lb cs (better_plan best (extend_best c sub)) m1 = Some (r, memo')"
        using "3.prems"(1) False r1 Inr by simp
      moreover have "Q b" if "better_plan best (extend_best c sub) = Some b" for b
        using that one Inr "3.prems"(4) by (auto simp: better_plan_def split: option.splits if_splits)
      ultimately show ?thesis by (intro "3.IH"(2)[OF False r1 refl Inr]) (use more one in blast)+
    qed
  qed
qed auto

text \<open>Without the bound, the loop ends with a solution no choice beats.\<close>

lemma better_plan_some: "\<exists>b. better_plan best new = Some b \<and> fst b \<le> fst new \<and> (\<forall>b'. best = Some b' \<longrightarrow> fst b \<le> fst b')"
  by (cases best) (simp_all add: better_plan_def del: split_paired_Ex split_paired_All)

lemma explore_best:
  assumes "explore rec False lb cs best memo = Some (Inr r, memo')"
    and "\<And>c m sub m'. Inr c \<in> set cs \<Longrightarrow> I m \<Longrightarrow> rec c m = Some (Inr sub, m') \<Longrightarrow> I m' \<and> (\<forall>x. L c x \<longrightarrow> fst sub \<le> x)"
    and "I memo"
  shows "(\<forall>b. best = Some b \<longrightarrow> (\<exists>b'. r = Some b' \<and> fst b' \<le> fst b))
     \<and> (\<forall>c x. Inr c \<in> set cs \<and> L c x \<longrightarrow> (\<exists>b'. r = Some b' \<and> fst b' \<le> ec_cost c + x))"
  using assms
proof (induction rec "False" lb cs best memo arbitrary: r memo' rule: explore.induct)
  case (3 rec lb c cs best memo)
  obtain sub m1 where r1: "rec c memo = Some (Inr sub, m1)"
    and rest: "explore rec False lb cs (better_plan best (extend_best c sub)) m1 = Some (Inr r, memo')"
    using "3.prems"(1) by (auto split: option.splits sum.splits)
  have one: "I m1 \<and> (\<forall>x. L c x \<longrightarrow> fst sub \<le> x)" using "3.prems"(2)[OF _ "3.prems"(3) r1] by simp
  have more: "\<And>c m sub m'. Inr c \<in> set cs \<Longrightarrow> I m \<Longrightarrow> rec c m = Some (Inr sub, m') \<Longrightarrow> I m' \<and> (\<forall>x. L c x \<longrightarrow> fst sub \<le> x)"
    by (rule "3.prems"(2)) (simp_all only: list.set insert_iff simp_thms)
  have no: "\<not> (False \<and> (case best of None \<Rightarrow> False | Some b \<Rightarrow> fst b \<le> ec_cost c + lb c))" by simp
  have IH: "(\<forall>b. better_plan best (extend_best c sub) = Some b \<longrightarrow> (\<exists>b'. r = Some b' \<and> fst b' \<le> fst b))
     \<and> (\<forall>c x. Inr c \<in> set cs \<and> L c x \<longrightarrow> (\<exists>b'. r = Some b' \<and> fst b' \<le> ec_cost c + x))"
    by (rule "3.hyps"(2)[OF no r1 refl refl rest]) (use more one in blast)+
  have fe: "fst (extend_best c sub) = ec_cost c + fst sub" by (cases sub) (simp add: extend_best_def)
  obtain b1 where b1: "better_plan best (extend_best c sub) = Some b1" "fst b1 \<le> ec_cost c + fst sub"
    "\<And>b. best = Some b \<Longrightarrow> fst b1 \<le> fst b"
    using better_plan_some[of best "extend_best c sub"] unfolding fe by blast
  from conjunct1[OF IH] b1(1) obtain b' where b': "r = Some b'" "fst b' \<le> fst b1" by blast
  show ?case
  proof (intro conjI allI impI)
    fix b assume "best = Some b"
    from order_trans[OF b'(2) b1(3)[OF this]] b'(1) show "\<exists>b'. r = Some b' \<and> fst b' \<le> fst b" by blast
  next
    fix d x assume d: "Inr d \<in> set (Inr c # cs) \<and> L d x"
    show "\<exists>b'. r = Some b' \<and> fst b' \<le> ec_cost d + x"
    proof (cases "d = c")
      case True
      then have "fst sub \<le> x" using one d by blast
      then show ?thesis using b' b1(2) True by force
    next
      case False
      then show ?thesis using conjunct2[OF IH] d by force
    qed
  qed
qed auto

subsection \<open>An example\<close>

text \<open>A GPU node feeding an HTTP node, on a GPU worker and a CPU worker.\<close>

definition demo_dp :: "bool \<Rightarrow> dp_config" where
  "demo_dp b =
     (let nd = (\<lambda>i e. \<lparr>nd_id = i, nd_type = ''t'', nd_engine = Some e, nd_model = None, nd_system_prompt = None,
            nd_inputs = [], nd_outputs = [], nd_db_queries = [], nd_raw = []\<rparr>);
          wk = (\<lambda>i k. \<lparr>wk_id = i, wk_kind = k, wk_device = [], wk_capacity = 1, wk_task_types = []\<rparr>)
      in \<lparr>dp_graph = \<lparr>gs_name = ''g'', gs_description = [],
              gs_nodes = [(''a'', nd ''a'' ''vllm''), (''c'', nd ''c'' ''http'')], gs_edges = []\<rparr>,
          dp_deps = [(''c'', [''a''])], dp_workers = [(''g'', wk ''g'' ''gpu''), (''k'', wk ''k'' ''cpu'')],
          dp_worker_ids = [''g'', ''k''], dp_plans = [], dp_window = 0, dp_exec = \<lambda>n w. Inr 3,
          dp_cache_mult = \<lambda>s q. 1, dp_model_init = \<lambda>n m. 0, dp_bonus = \<lambda>n l ps. 1, dp_as_float = \<lambda>s. None,
          dp_node_ids = [''a'', ''c''], dp_options = [(''c'', [''k''])], dp_gpu_workers = [''g''], dp_cpu_workers = [''k''],
          dp_http = [(''c'', 2)], dp_epoch_penalty = \<lambda>e. 1, dp_cpu_weight = 1, dp_cpu_early = 0, dp_no_epoch_cost = False,
          dp_no_cpu_load = False, dp_naive = False, dp_max_weight = 1, dp_sum_weight = 0, dp_prune = b, dp_slack = 1,
          dp_bound = b, dp_symmetry = True, dp_bound_factor = 1/5, dp_depth_weight = 1, dp_min_cost = [(''a'', 3), (''c'', 0)]\<rparr>)"

definition demo_states :: "worker_state list" where
  "demo_states = [\<lparr>ws_worker = 0, ws_model = -1, ws_node = -1\<rparr>, \<lparr>ws_worker = 1, ws_model = -1, ws_node = -1\<rparr>]"

lemma demo_dp_wf: "dp_wf (demo_dp b)"
  by (simp add: demo_dp_def dp_wf_def Let_def)

lemma demo_dp_solve:
  "dp_solve (demo_dp True) (Some demo_states)
     = Some (Inr (6, [(0, ''g'', ''a''), (0, ''k'', ''c'')], []))"
  "dp_solve (demo_dp False) (Some demo_states)
     = Some (Inr (6, [(0, ''g'', ''a''), (0, ''k'', ''c'')], []))"
  by code_simp+

subsection \<open>Termination\<close>

definition work_left :: "dp_config \<Rightarrow> bool \<Rightarrow> int \<Rightarrow> nat" where
  "work_left dp prune dm = card (undone dp dm) + (if prune then 1 else 0)"

lemma solve_total:
  assumes "dp_wf dp" "mask_ok dp dm" "work_left dp prune dm < k"
  shows "solve k dp prune retry dm states ep memo \<noteq> None"
  using assms
proof (induction k arbitrary: prune retry dm states ep memo)
  case (Suc k)
  have sub: "solve k dp prune retry (ec_done c) (ec_states c) (ep + 1) m \<noteq> None"
    if "epoch_choices dp prune dm states ep = Inr cs" "Inr c \<in> set cs" for c cs m
  proof -
    note P = choice_progress[OF epoch_choices_ok[OF Suc.prems(1) that] Suc.prems(2)]
    show ?thesis using Suc.IH[OF Suc.prems(1) P(1)] P(2) Suc.prems(3) by (simp add: work_left_def)
  qed
  have again: "solve k dp False False dm states ep m \<noteq> None" if "prune" for m
    using Suc.IH[OF Suc.prems(1,2)] Suc.prems(3) that by (simp add: work_left_def)
  have "explore (\<lambda>c m. solve k dp prune retry (ec_done c) (ec_states c) (ep + 1) m) (dp_bound dp)
      (\<lambda>c. lower_bound_remaining dp (ec_done c) (ep + 1)) cs None memo \<noteq> None"
    if "epoch_choices dp prune dm states ep = Inr cs" for cs
    by (rule explore_total) (use sub that in blast)
  then show ?case using again by (auto split: option.splits sum.splits)
qed simp

lemma dp_solve_total:
  assumes "dp_wf dp"
  shows "dp_solve dp init \<noteq> None"
proof -
  have "work_left dp (dp_prune dp) 0 < dp_fuel dp"
    using card_length[of "dp_node_ids dp"] by (simp add: work_left_def dp_fuel_def mask_ok_0)
  then have "solve (dp_fuel dp) dp (dp_prune dp) True 0 states 0 [] \<noteq> None" for states
    using solve_total[OF assms mask_ok_0(1)] by blast
  then show ?thesis by (simp add: dp_solve_def split: sum.split)
qed

text \<open>
  C28. The DP search always ends: with fuel for one recursion per node and one retry, \<open>solve\<close> returns a
  schedule or an error, whatever the graph, the costs and the pruning options.
\<close>

theorem dp_solve_terminates:
  assumes "dp_wf dp"
  shows "dp_solve dp init \<noteq> None"
  by (rule dp_solve_total[OF assms])

lemma dp_solve_terminates_witness: "dp_solve (demo_dp True) None \<noteq> None"
  by (rule dp_solve_terminates[OF demo_dp_wf])

subsection \<open>Valid schedules\<close>

definition memo_valid :: "dp_config \<Rightarrow> dp_memo \<Rightarrow> bool" where
  "memo_valid dp memo \<longleftrightarrow>
     (\<forall>dm states ep c sched plans. map_of memo (dm, states, ep) = Some (c, sched, plans) \<longrightarrow> mask_ok dp dm \<longrightarrow> schedule_ok dp dm sched)"

lemma memo_validD: "memo_valid dp memo \<Longrightarrow> map_of memo (dm, states, ep) = Some b \<Longrightarrow> mask_ok dp dm \<Longrightarrow> schedule_ok dp dm (fst (snd b))"
  unfolding memo_valid_def by (metis prod.collapse)

lemma memo_valid_update:
  "memo_valid dp memo \<Longrightarrow> schedule_ok dp dm (fst (snd r)) \<Longrightarrow> memo_valid dp (AList.update (dm, states, ep) r memo)"
  by (cases r) (auto simp: memo_valid_def AList.update_conv)

lemma solve_valid:
  assumes "dp_wf dp" "mask_ok dp dm" "memo_valid dp memo"
    and "solve k dp prune retry dm states ep memo = Some (r, memo')"
  shows "memo_valid dp memo' \<and> (\<forall>b. r = Inr b \<longrightarrow> schedule_ok dp dm (fst (snd b)))"
  using assms(2-)
proof (induction k arbitrary: prune retry dm states ep memo r memo')
  case (Suc k)
  consider (finished) "dm = all_mask dp" | (hit) b where "dm \<noteq> all_mask dp" "map_of memo (dm, states, ep) = Some b"
    | (err) e where "dm \<noteq> all_mask dp" "map_of memo (dm, states, ep) = None" "epoch_choices dp prune dm states ep = Inl e"
    | (run) cs where "dm \<noteq> all_mask dp" "map_of memo (dm, states, ep) = None" "epoch_choices dp prune dm states ep = Inr cs"
    by (cases "map_of memo (dm, states, ep)"; cases "epoch_choices dp prune dm states ep") auto
  then show ?case
  proof cases
    case finished
    then have "undone dp dm = {}" using all_mask_iff[OF assms(1) Suc.prems(1)] by simp
    then show ?thesis using finished Suc.prems(2,3) schedule_ok_empty by auto
  next
    case hit
    then have "r = Inr b" "memo' = memo" using Suc.prems(3) by auto
    moreover have "schedule_ok dp dm (fst (snd b))"
      using memo_validD[OF Suc.prems(2) hit(2) Suc.prems(1)] .
    ultimately show ?thesis using Suc.prems(2) by blast
  next
    case err
    then show ?thesis using Suc.prems by auto
  next
    case run
    let ?rec = "\<lambda>c m. solve k dp prune retry (ec_done c) (ec_states c) (ep + 1) m"
    let ?lb = "\<lambda>c. lower_bound_remaining dp (ec_done c) (ep + 1)"
    obtain r1 m1 where e: "explore ?rec (dp_bound dp) ?lb cs None memo = Some (r1, m1)"
      using Suc.prems(3) run by (auto split: option.splits)
    have "memo_valid dp m' \<and> (\<forall>sub. r' = Inr sub \<longrightarrow> schedule_ok dp dm (fst (snd (extend_best c sub))))"
      if c: "Inr c \<in> set cs" "memo_valid dp m" "?rec c m = Some (r', m')" for c m r' m'
    proof -
      have ok: "choice_ok dp dm c" by (rule epoch_choices_ok[OF assms(1) run(3) c(1)])
      note IH = Suc.IH[OF choice_progress(1)[OF ok Suc.prems(1)] c(2,3)]
      then show ?thesis using schedule_ok_extend[OF ok] by (auto simp: extend_best_def split: prod.splits)
    qed
    note step = this
    have "memo_valid dp m1 \<and> (\<forall>b. r1 = Inr (Some b) \<longrightarrow> schedule_ok dp dm (fst (snd b)))"
      by (rule explore_inv[where I = "memo_valid dp" and Q = "\<lambda>b. schedule_ok dp dm (fst (snd b))", OF e _ Suc.prems(2)])
        (use step in blast, simp)
    then have X: "memo_valid dp m1" "\<And>b. r1 = Inr (Some b) \<Longrightarrow> schedule_ok dp dm (fst (snd b))" by blast+
    consider (bad) x where "r1 = Inl x" | (best) b where "r1 = Inr (Some b)" | (none) "r1 = Inr None"
      by (metis sum.exhaust option.exhaust)
    then show ?thesis
    proof cases
      case best
      then have "r = Inr b" "memo' = AList.update (dm, states, ep) b m1" using Suc.prems(3) run e by auto
      then show ?thesis using memo_valid_update X best by auto
    next
      case none
      show ?thesis
      proof (cases "retry \<and> prune")
        case True
        then have "solve k dp False False dm states ep m1 = Some (r, memo')" using Suc.prems(3) run e none by auto
        from Suc.IH[OF Suc.prems(1) X(1) this] show ?thesis .
      next
        case False
        then show ?thesis using Suc.prems(3) run e none X(1) by auto
      qed
    qed (use Suc.prems(3) run e X(1) in auto)
  qed
qed simp

lemma not_done_0: "is_done dp 0 p = False"
  by (simp add: is_done_iff)

lemma dp_solve_schedule_ok:
  assumes "dp_wf dp" "dp_solve dp init = Some (Inr (cost, sched, plans))"
  shows "schedule_ok dp 0 sched"
proof -
  obtain states memo where "solve (dp_fuel dp) dp (dp_prune dp) True 0 states 0 [] = Some (Inr (cost, sched, plans), memo)"
    using assms(2) by (auto simp: dp_solve_def split: sum.splits)
  from solve_valid[OF assms(1) mask_ok_0(1) _ this] show ?thesis by (simp add: memo_valid_def)
qed

text \<open>
  Where a node may run: on the workers its options name, on any worker without options. A GPU node runs
  on such a GPU worker. A CPU node runs on such a CPU worker, on another such worker when none of them
  is a CPU worker, and on any CPU worker when its options name no worker at all (every worker is a CPU
  worker when none is).
\<close>

definition allowed_on :: "dp_config \<Rightarrow> string \<Rightarrow> string set" where
  "allowed_on dp n = (case map_of (dp_options dp) n of None \<Rightarrow> set (dp_worker_ids dp) | Some ws \<Rightarrow> set ws)"

definition cpu_side :: "dp_config \<Rightarrow> string set" where
  "cpu_side dp = (if dp_cpu_workers dp = [] then set (dp_worker_ids dp) else set (dp_cpu_workers dp))"

definition placed :: "dp_config \<Rightarrow> string \<Rightarrow> string \<Rightarrow> bool" where
  "placed dp n w =
     (if is_gpu dp n then w \<in> set (dp_gpu_workers dp) \<inter> allowed_on dp n
      else (allowed_on dp n \<noteq> {} \<longrightarrow> w \<in> allowed_on dp n)
        \<and> (allowed_on dp n \<inter> cpu_side dp \<noteq> {} \<or> allowed_on dp n = {} \<longrightarrow> w \<in> cpu_side dp))"

lemma set_worker_options: "set (worker_options dp n) = allowed_on dp n"
  by (simp add: worker_options_def allowed_on_def split: option.split)

lemma cpu_pool_set:
  "set (cpu_pool dp n) =
     (if allowed_on dp n \<inter> cpu_side dp \<noteq> {} then allowed_on dp n \<inter> cpu_side dp
      else if allowed_on dp n \<noteq> {} then allowed_on dp n else cpu_side dp)"
  unfolding set_worker_options[symmetric]
  by (auto simp: cpu_pool_def cpu_side_def Let_def filter_empty_conv)

lemma pool_placed:
  assumes "if is_gpu dp n then w \<in> set (dp_gpu_workers dp) \<and> w \<in> set (worker_options dp n)
     else w \<in> set (cpu_pool dp n)"
  shows "placed dp n w"
  using assms by (auto simp: placed_def cpu_pool_set set_worker_options split: if_splits)

text \<open>
  C29. Every schedule the DP solver returns is valid: each node of the graph is scheduled exactly once, on
  a worker it may run on (for a GPU node a GPU worker, for a CPU node a CPU worker whenever its options
  name one), after or in the same epoch as all its parents, and no GPU worker gets two GPU nodes in one
  epoch.
\<close>

theorem dp_schedule_valid:
  assumes "dp_wf dp" "dp_solve dp init = Some (Inr (cost, sched, plans))"
  shows "distinct (sched_nodes sched) \<and> set (sched_nodes sched) = set (dp_node_ids dp)
   \<and> (\<forall>(e, w, n) \<in> set sched. placed dp n w)
   \<and> (\<forall>(e, w, n) \<in> set sched. \<forall>p \<in> parents_in dp False n. \<exists>e' w'. (e', w', p) \<in> set sched \<and> e' \<le> e)
   \<and> (\<forall>e w n n'. (e, w, n) \<in> set sched \<and> (e, w, n') \<in> set sched \<and> is_gpu dp n \<and> is_gpu dp n' \<longrightarrow> n = n')"
proof -
  note S = dp_solve_schedule_ok[OF assms, unfolded schedule_ok_def mask_ok_0(2) not_done_0 simp_thms]
  have "placed dp n w" if "(e, w, n) \<in> set sched" for e w n
    by (rule pool_placed) (use S that in blast)
  then show ?thesis using S by blast
qed

lemma dp_schedule_valid_witness:
  "distinct (sched_nodes [(0, ''g'', ''a''), (0, ''k'', ''c'')])
   \<and> set (sched_nodes [(0, ''g'', ''a''), (0, ''k'', ''c'')]) = set (dp_node_ids (demo_dp True))
   \<and> placed (demo_dp True) ''c'' ''k''"
  using dp_schedule_valid[OF demo_dp_wf demo_dp_solve(1)] by simp

subsection \<open>Optimality\<close>

text \<open>The cost of a complete sequence of epochs, each one of the choices the search has there.\<close>

inductive dp_plan :: "dp_config \<Rightarrow> int \<Rightarrow> worker_state list \<Rightarrow> nat \<Rightarrow> real \<Rightarrow> bool" for dp where
  plan_done: "dp_plan dp (all_mask dp) states ep 0"
| plan_step: "dm \<noteq> all_mask dp \<Longrightarrow> epoch_choices dp False dm states ep = Inr cs \<Longrightarrow> Inr c \<in> set cs
    \<Longrightarrow> dp_plan dp (ec_done c) (ec_states c) (ep + 1) x \<Longrightarrow> dp_plan dp dm states ep (ec_cost c + x)"

inductive_simps dp_plan_done: "dp_plan dp (all_mask dp) states ep x"
inductive_cases dp_plan_stepE: "dp_plan dp dm states ep x"

definition optimal_cost :: "dp_config \<Rightarrow> int \<Rightarrow> worker_state list \<Rightarrow> nat \<Rightarrow> real \<Rightarrow> bool" where
  "optimal_cost dp dm states ep c \<longleftrightarrow> dp_plan dp dm states ep c \<and> (\<forall>x. dp_plan dp dm states ep x \<longrightarrow> c \<le> x)"

definition memo_optimal :: "dp_config \<Rightarrow> dp_memo \<Rightarrow> bool" where
  "memo_optimal dp memo \<longleftrightarrow> (\<forall>dm states ep b. map_of memo (dm, states, ep) = Some b \<longrightarrow> optimal_cost dp dm states ep (fst b))"

lemma memo_optimal_update:
  "memo_optimal dp memo \<Longrightarrow> optimal_cost dp dm states ep (fst b) \<Longrightarrow> memo_optimal dp (AList.update (dm, states, ep) b memo)"
  by (cases b) (simp add: memo_optimal_def AList.update_conv)

lemma optimal_step:
  assumes "dm \<noteq> all_mask dp" "epoch_choices dp False dm states ep = Inr cs"
    and "dp_plan dp dm states ep y"
    and "\<And>c x. Inr c \<in> set cs \<Longrightarrow> dp_plan dp (ec_done c) (ec_states c) (ep + 1) x \<Longrightarrow> y \<le> ec_cost c + x"
  shows "optimal_cost dp dm states ep y"
  unfolding optimal_cost_def
proof (intro conjI allI impI)
  fix x assume "dp_plan dp dm states ep x"
  then show "y \<le> x" by (rule dp_plan_stepE) (use assms in auto)
qed (rule assms(3))

lemma solve_optimal:
  assumes "\<not> dp_bound dp" "memo_optimal dp memo" "solve k dp False retry dm states ep memo = Some (r, memo')"
  shows "memo_optimal dp memo' \<and> (\<forall>b. r = Inr b \<longrightarrow> optimal_cost dp dm states ep (fst b))"
  using assms(2-)
proof (induction k arbitrary: retry dm states ep memo r memo')
  case (Suc k)
  consider (finished) "dm = all_mask dp" | (hit) b where "dm \<noteq> all_mask dp" "map_of memo (dm, states, ep) = Some b"
    | (err) e where "dm \<noteq> all_mask dp" "map_of memo (dm, states, ep) = None" "epoch_choices dp False dm states ep = Inl e"
    | (run) cs where "dm \<noteq> all_mask dp" "map_of memo (dm, states, ep) = None" "epoch_choices dp False dm states ep = Inr cs"
    by (cases "map_of memo (dm, states, ep)"; cases "epoch_choices dp False dm states ep") auto
  then show ?case
  proof cases
    case finished
    then show ?thesis using Suc.prems by (auto simp: optimal_cost_def dp_plan_done)
  next
    case hit
    then show ?thesis using Suc.prems by (auto simp: memo_optimal_def)
  next
    case err
    then show ?thesis using Suc.prems by auto
  next
    case run
    let ?rec = "\<lambda>c m. solve k dp False retry (ec_done c) (ec_states c) (ep + 1) m"
    let ?lb = "\<lambda>c. lower_bound_remaining dp (ec_done c) (ep + 1)"
    let ?L = "\<lambda>c x. dp_plan dp (ec_done c) (ec_states c) (ep + 1) x"
    obtain r1 m1 where e: "explore ?rec False ?lb cs None memo = Some (r1, m1)"
      using Suc.prems(2) run assms(1) by (auto split: option.splits)
    have step: "memo_optimal dp m' \<and> (\<forall>sub. r' = Inr sub \<longrightarrow> optimal_cost dp (ec_done c) (ec_states c) (ep + 1) (fst sub))"
      if "memo_optimal dp m" "?rec c m = Some (r', m')" for c m r' m'
      using Suc.IH[OF that] .
    have fe: "fst (extend_best c sub) = ec_cost c + fst sub" for c sub
      by (cases sub) (simp add: extend_best_def)
    have X: "memo_optimal dp m1 \<and> (\<forall>b. r1 = Inr (Some b) \<longrightarrow> dp_plan dp dm states ep (fst b))"
    proof (rule explore_inv[where I = "memo_optimal dp" and Q = "\<lambda>b. dp_plan dp dm states ep (fst b)", OF e _ Suc.prems(1)])
      fix c m r' m' assume A: "Inr c \<in> set cs" "memo_optimal dp m" "?rec c m = Some (r', m')"
      have "dp_plan dp dm states ep (fst (extend_best c sub))" if "r' = Inr sub" for sub
        using plan_step[OF run(1,3) A(1)] step[OF A(2,3)] that by (simp add: fe optimal_cost_def)
      then show "memo_optimal dp m' \<and> (\<forall>sub. r' = Inr sub \<longrightarrow> dp_plan dp dm states ep (fst (extend_best c sub)))"
        using step[OF A(2,3)] by blast
    qed simp
    consider (bad) x where "r1 = Inl x" | (best) b where "r1 = Inr (Some b)" | (none) "r1 = Inr None"
      by (metis sum.exhaust option.exhaust)
    then show ?thesis
    proof cases
      case best
      have rr: "r = Inr b" "memo' = AList.update (dm, states, ep) b m1"
        using Suc.prems(2) run e best assms(1) by auto
      have "(\<forall>b0 :: dp_best. None = Some b0 \<longrightarrow> (\<exists>b'. Some b = Some b' \<and> fst b' \<le> fst b0))
          \<and> (\<forall>c x. Inr c \<in> set cs \<and> ?L c x \<longrightarrow> (\<exists>b'. Some b = Some b' \<and> fst b' \<le> ec_cost c + x))"
      proof (rule explore_best[where I = "memo_optimal dp" and L = ?L, OF _ _ Suc.prems(1)])
        show "explore ?rec False ?lb cs None memo = Some (Inr (Some b), m1)" using e best by simp
      next
        fix c m sub m' assume A: "memo_optimal dp m" "?rec c m = Some (Inr sub, m')"
        show "memo_optimal dp m' \<and> (\<forall>x. ?L c x \<longrightarrow> fst sub \<le> x)"
          using step[OF A] unfolding optimal_cost_def by blast
      qed
      then have "optimal_cost dp dm states ep (fst b)"
        using X best by (intro optimal_step[OF run(1,3)]) auto
      then show ?thesis using memo_optimal_update X rr by auto
    qed (use Suc.prems(2) run e X assms(1) in auto)
  qed
qed simp

text \<open>
  C30. Without the two pruning options the DP search is exact: the cost it returns is the cost of a
  complete sequence of epochs, and no complete sequence of epochs costs less.
\<close>

theorem dp_solve_optimal:
  assumes "\<not> dp_bound dp" "\<not> dp_prune dp" "dp_solve dp (Some states) = Some (Inr (cost, sched, plans))"
  shows "dp_plan dp 0 states 0 cost \<and> (\<forall>x. dp_plan dp 0 states 0 x \<longrightarrow> cost \<le> x)"
proof -
  obtain memo where "solve (dp_fuel dp) dp False True 0 states 0 [] = Some (Inr (cost, sched, plans), memo)"
    using assms(2,3) by (auto simp: dp_solve_def)
  from solve_optimal[OF assms(1) _ this] show ?thesis by (simp add: memo_optimal_def optimal_cost_def)
qed

lemma dp_solve_optimal_witness:
  "dp_plan (demo_dp False) 0 demo_states 0 6 \<and> \<not> (\<exists>x. dp_plan (demo_dp False) 0 demo_states 0 x \<and> x < 6)"
proof -
  have "\<not> dp_bound (demo_dp False)" "\<not> dp_prune (demo_dp False)" by (simp_all add: demo_dp_def Let_def)
  from dp_solve_optimal[OF this demo_dp_solve(2)] show ?thesis by (simp only: not_ex de_Morgan_conj not_less) blast
qed

end
