(* ===== verification/Halo_DP_Live.thy ===== *)
theory Halo_DP_Live
  imports Halo_DP_Props
begin

section \<open>The DP scheduler finds a schedule\<close>

text \<open>
  On a graph without cycles whose GPU nodes each have a GPU worker they may use, and with costs that do
  not raise, no error path of the solver is taken: every epoch has a choice, at the latest after the
  retry without shape pruning.
\<close>

definition dp_edges :: "dp_config \<Rightarrow> (string \<times> string) set" where
  "dp_edges dp = {(p, n). n \<in> set (dp_node_ids dp) \<and> p \<in> parents_in dp False n}"

definition dp_runnable :: "dp_config \<Rightarrow> bool" where
  "dp_runnable dp \<longleftrightarrow> dp_wf dp
   \<and> (\<forall>n \<in> set (dp_node_ids dp). map_of (gs_nodes (dp_graph dp)) n \<noteq> None)
   \<and> (\<forall>w \<in> set (dp_worker_ids dp). map_of (dp_workers dp) w \<noteq> None)
   \<and> set (dp_gpu_workers dp) \<subseteq> set (dp_worker_ids dp)
   \<and> (\<forall>n \<in> set (dp_node_ids dp). \<forall>nd wk. map_of (gs_nodes (dp_graph dp)) n = Some nd \<longrightarrow> (\<exists>c. dp_exec dp nd wk = Inr c))
   \<and> (\<forall>n \<in> set (dp_node_ids dp). is_gpu dp n \<longrightarrow> (\<exists>w \<in> set (dp_gpu_workers dp). w \<in> set (worker_options dp n)))
   \<and> (\<forall>n \<in> set (dp_node_ids dp). distinct (parents_of (dp_deps dp) n))
   \<and> acyclic (dp_edges dp)"

lemma dp_runnableD:
  assumes "dp_runnable dp"
  shows "dp_wf dp" "n \<in> set (dp_node_ids dp) \<Longrightarrow> \<exists>nd. lookup (gs_nodes (dp_graph dp)) n = Inr nd"
    "w \<in> set (dp_worker_ids dp) \<Longrightarrow> \<exists>wk. lookup (dp_workers dp) w = Inr wk"
    "set (dp_gpu_workers dp) \<subseteq> set (dp_worker_ids dp)"
    "n \<in> set (dp_node_ids dp) \<Longrightarrow> lookup (gs_nodes (dp_graph dp)) n = Inr nd \<Longrightarrow> \<exists>c. dp_exec dp nd wk = Inr c"
    "n \<in> set (dp_node_ids dp) \<Longrightarrow> is_gpu dp n \<Longrightarrow> \<exists>w \<in> set (dp_gpu_workers dp). w \<in> set (worker_options dp n)"
    "n \<in> set (dp_node_ids dp) \<Longrightarrow> distinct (parents_of (dp_deps dp) n)" "acyclic (dp_edges dp)"
  using assms by (auto simp: dp_runnable_def lookup_def split: option.splits)

definition states_ok :: "dp_config \<Rightarrow> worker_state list \<Rightarrow> bool" where
  "states_ok dp states \<longleftrightarrow> length states = length (dp_worker_ids dp) \<and> (\<forall>s \<in> set states. ws_worker s < length (dp_worker_ids dp))"

lemma states_ok_update:
  "states_ok dp states \<Longrightarrow> ws_worker st < length (dp_worker_ids dp) \<Longrightarrow> states_ok dp (states[i := st])"
  using set_update_subset_insert[of states i st] by (auto simp: states_ok_def)

lemma worker_index_ex:
  "w \<in> set (dp_worker_ids dp) \<Longrightarrow> \<exists>i. worker_index dp w = Inr i \<and> i < length (dp_worker_ids dp)"
  using last_index_ex[of w "dp_worker_ids dp"] by (auto simp: worker_index_def)

lemma map_result_Inr:
  "(\<And>x. x \<in> set xs \<Longrightarrow> \<exists>y. f x = Inr y \<and> P y) \<Longrightarrow> \<exists>ys. map_result f xs = Inr ys \<and> length ys = length xs \<and> (\<forall>y \<in> set ys. P y)"
proof (induction xs)
  case (Cons x xs)
  obtain y where y: "f x = Inr y" "P y" using Cons.prems[of x] by auto
  obtain ys where ys: "map_result f xs = Inr ys" "length ys = length xs" "\<forall>y \<in> set ys. P y"
    using Cons.IH Cons.prems by (metis list.set_intros(2))
  then show ?case using y by (intro exI[of _ "y # ys"]) simp
qed simp

lemma initial_states_live:
  assumes "dp_runnable dp"
  shows "\<exists>states. initial_states dp = Inr states \<and> states_ok dp states"
proof -
  let ?f = "\<lambda>w. case worker_index dp w of Inl e \<Rightarrow> Inl e | Inr i \<Rightarrow> Inr \<lparr>ws_worker = i, ws_model = -1, ws_node = -1\<rparr>"
  have "\<exists>ys. map_result ?f (dp_worker_ids dp) = Inr ys \<and> length ys = length (dp_worker_ids dp)
      \<and> (\<forall>y \<in> set ys. ws_worker y < length (dp_worker_ids dp))"
    by (rule map_result_Inr) (use worker_index_ex in fastforce)
  then show ?thesis unfolding initial_states_def states_ok_def by blast
qed

subsection \<open>Outcomes\<close>

lemma choices_for_ne: "choices_for dp n q \<noteq> []"
  by (simp add: choices_for_def split: option.splits)

lemma plan_options_ne: "outs \<noteq> [] \<Longrightarrow> plan_options dp nd qs outs \<noteq> []"
proof (induction qs arbitrary: outs)
  case (Cons q qs)
  obtain base w ps rest where "outs = (base, w, ps) # rest" using Cons.prems by (metis neq_Nil_conv prod_cases3)
  then show ?case using choices_for_ne[of dp "nd_id nd" "dq_name q"] by (simp add: Cons.IH)
qed simp

lemma query_plan_options_ne: "query_plan_options dp nd w \<noteq> []"
  by (simp add: query_plan_options_def plan_options_ne)

lemma execute_node_live:
  assumes "dp_runnable dp" "n \<in> set (dp_node_ids dp)" "ws_worker st < length (dp_worker_ids dp)"
  shows "\<exists>outs. execute_node dp n st w = Inr outs \<and> outs \<noteq> [] \<and> (\<forall>(c, q, st', pm, w') \<in> set outs. ws_worker st' = ws_worker st)"
proof -
  obtain nd where nd: "lookup (gs_nodes (dp_graph dp)) n = Inr nd" using dp_runnableD(2)[OF assms(1,2)] by blast
  obtain wk where wk: "lookup (dp_workers dp) (dp_worker_ids dp ! ws_worker st) = Inr wk"
    using dp_runnableD(3)[OF assms(1) nth_mem[OF assms(3)]] by blast
  obtain c where c: "dp_exec dp nd wk = Inr c" using dp_runnableD(5)[OF assms(1,2) nd] by blast
  show ?thesis using assms(3) nd wk c query_plan_options_ne[of dp nd w]
    by (auto simp: execute_node_def Let_def not_le)
qed

lemma apply_cpu_load_live:
  assumes "dp_runnable dp" "set cpu \<subseteq> set (dp_node_ids dp)"
  shows "\<exists>r. apply_cpu_load dp cpu w cost plans = Inr r"
  using assms(2)
proof (induction cpu arbitrary: w cost plans)
  case (Cons n cpu)
  have n: "n \<in> set (dp_node_ids dp)" and rest: "set cpu \<subseteq> set (dp_node_ids dp)" using Cons.prems by auto
  obtain nd where nd: "lookup (gs_nodes (dp_graph dp)) n = Inr nd" using dp_runnableD(2)[OF assms(1) n] by blast
  have IH: "\<exists>r. apply_cpu_load dp cpu w' cost' plans' = Inr r" for w' cost' plans' by (rule Cons.IH[OF rest])
  obtain ch where "cheapest (query_plan_options dp nd w) = ch" by blast
  then show ?case using nd IH by (cases ch) (auto split: prod.splits)
qed simp

lemma outcome_dfs_live:
  assumes "dp_runnable dp" "set cpu \<subseteq> set (dp_node_ids dp)"
    and "\<forall>(w, n) \<in> set assign. w \<in> set (dp_worker_ids dp) \<and> n \<in> set (dp_node_ids dp)" "states_ok dp states"
  shows "\<exists>outs. outcome_dfs dp cpu assign states costs plans load w = Inr outs \<and> outs \<noteq> [] \<and> (\<forall>o' \<in> set outs. states_ok dp (oc_states o'))"
  using assms(3,4)
proof (induction assign arbitrary: states costs plans load w)
  case Nil
  obtain r where r: "apply_cpu_load dp cpu w 0 [] = Inr r" using apply_cpu_load_live[OF assms(1,2)] by blast
  have "\<exists>ys. map_result (worker_index dp) (dp_gpu_workers dp) = Inr ys \<and> length ys = length (dp_gpu_workers dp) \<and> (\<forall>y \<in> set ys. True)"
    by (rule map_result_Inr) (use worker_index_ex dp_runnableD(4)[OF assms(1)] in blast)
  then obtain idx where "map_result (worker_index dp) (dp_gpu_workers dp) = Inr idx" by blast
  then show ?case using r Nil by (cases r) (simp add: Let_def)
next
  case (Cons a rest)
  obtain wid n where a: "a = (wid, n)" by fastforce
  have wn: "wid \<in> set (dp_worker_ids dp)" "n \<in> set (dp_node_ids dp)"
    and rest: "\<forall>(w, n) \<in> set rest. w \<in> set (dp_worker_ids dp) \<and> n \<in> set (dp_node_ids dp)" using Cons.prems(1) a by auto
  obtain i where i: "worker_index dp wid = Inr i" "i < length (dp_worker_ids dp)" using worker_index_ex[OF wn(1)] by blast
  have li: "i < length states" using i(2) Cons.prems(2) by (simp add: states_ok_def)
  have wi: "ws_worker (states ! i) < length (dp_worker_ids dp)" using Cons.prems(2) nth_mem[OF li] unfolding states_ok_def by blast
  obtain opts where opts: "execute_node dp n (states ! i) w = Inr opts" "opts \<noteq> []"
    "\<forall>(c, q, st', pm, w') \<in> set opts. ws_worker st' = ws_worker (states ! i)"
    using execute_node_live[OF assms(1) wn(2) wi] by blast
  let ?f = "\<lambda>(cost, cpu_cost, st, pm, w'). outcome_dfs dp cpu rest (states[i := st]) (costs[i := costs ! i + cost])
      (merge_plans plans pm) (load + cpu_cost) w'"
  have "\<exists>ys. map_result ?f opts = Inr ys \<and> length ys = length opts \<and> (\<forall>y \<in> set ys. y \<noteq> [] \<and> (\<forall>o' \<in> set y. states_ok dp (oc_states o')))"
  proof (rule map_result_Inr)
    fix x assume x: "x \<in> set opts"
    obtain c q st pm w' where xx: "x = (c, q, st, pm, w')" by (metis surj_pair)
    have "states_ok dp (states[i := st])" using opts(3) x xx wi by (intro states_ok_update[OF Cons.prems(2)]) auto
    from Cons.IH[OF rest this] show "\<exists>y. ?f x = Inr y \<and> y \<noteq> [] \<and> (\<forall>o' \<in> set y. states_ok dp (oc_states o'))"
      unfolding xx by simp
  qed
  then obtain ys where ys: "map_result ?f opts = Inr ys" "length ys = length opts"
    "\<forall>y \<in> set ys. y \<noteq> [] \<and> (\<forall>o' \<in> set y. states_ok dp (oc_states o'))" by blast
  have "outcome_dfs dp cpu (a # rest) states costs plans load w = Inr (concat ys)"
    using a i(1) li opts(1) ys(1) by simp
  moreover have "ys \<noteq> []" using ys(2) opts(2) by auto
  then have "concat ys \<noteq> []" using ys(3) by (cases ys) auto
  ultimately show ?case using ys(3) by auto
qed

subsection \<open>Assignments\<close>

lemma worker_signature_live:
  assumes "dp_runnable dp" "states_ok dp states" "w \<in> set (dp_worker_ids dp)"
  shows "\<exists>s. worker_signature dp states w = Inr s"
proof -
  obtain i where i: "worker_index dp w = Inr i" "i < length (dp_worker_ids dp)" using worker_index_ex[OF assms(3)] by blast
  obtain wk where "lookup (dp_workers dp) (dp_worker_ids dp ! i) = Inr wk" using dp_runnableD(3)[OF assms(1) nth_mem[OF i(2)]] by blast
  then show ?thesis using i assms(2) by (simp add: worker_signature_def states_ok_def)
qed

lemma assignment_signature_live:
  assumes "dp_runnable dp" "states_ok dp states" "fst ` set a \<subseteq> set (dp_worker_ids dp)"
  shows "\<exists>k. assignment_signature dp states a = Inr k"
proof -
  have "\<exists>ys. map_result (\<lambda>(w, n). worker_signature dp states w) a = Inr ys \<and> length ys = length a \<and> (\<forall>y \<in> set ys. True)"
    by (rule map_result_Inr) (use worker_signature_live[OF assms(1,2)] assms(3) in force)
  then show ?thesis unfolding assignment_signature_def by auto
qed

lemma dedup_loop_live:
  assumes "\<forall>a \<in> set as. \<exists>k. assignment_signature dp states a = Inr k"
  shows "\<exists>r. dedup_loop dp states seen as = Inr r \<and> (as \<noteq> [] \<and> seen = [] \<longrightarrow> r \<noteq> [])"
  using assms
proof (induction as arbitrary: seen)
  case (Cons a as)
  obtain k where k: "assignment_signature dp states a = Inr k" using Cons.prems by auto
  obtain r1 r2 where "dedup_loop dp states seen as = Inr r1" "dedup_loop dp states (k # seen) as = Inr r2"
    using Cons.IH[of seen] Cons.IH[of "k # seen"] Cons.prems by auto
  then show ?case using k by auto
qed simp

lemma worker_assignments_live:
  assumes "dp_runnable dp" "states_ok dp states"
  shows "\<exists>as. worker_assignments dp states ns = Inr as \<and> (gpu_assignments dp ns \<noteq> [] \<longrightarrow> as \<noteq> [])"
proof (cases "dp_symmetry dp")
  case True
  have "\<forall>a \<in> set (gpu_assignments dp ns). \<exists>k. assignment_signature dp states a = Inr k"
  proof
    fix a assume "a \<in> set (gpu_assignments dp ns)"
    from gpu_assign_dfs_ok[OF this[unfolded gpu_assignments_def]] have "fst ` set a \<subseteq> set (dp_gpu_workers dp)" by auto
    then show "\<exists>k. assignment_signature dp states a = Inr k"
      using assignment_signature_live[OF assms] dp_runnableD(4)[OF assms(1)] by blast
  qed
  from dedup_loop_live[OF this, of "[]"] show ?thesis using True by (auto simp: worker_assignments_def)
qed (simp add: worker_assignments_def)

lemma assignment_choices_live:
  assumes "dp_runnable dp" "states_ok dp states" "set cpu \<subseteq> set (dp_node_ids dp)"
    and "\<forall>(w, n) \<in> set g. w \<in> set (dp_worker_ids dp) \<and> n \<in> set (dp_node_ids dp)"
  shows "(\<forall>x \<in> set (assignment_choices dp dm states ep gpu cpu depths g). \<exists>c. x = Inr c \<and> states_ok dp (ec_states c))
    \<and> (g \<noteq> [] \<or> cpu \<noteq> [] \<longrightarrow> assignment_choices dp dm states ep gpu cpu depths g \<noteq> [])"
proof -
  obtain outs where outs: "assignment_outcomes dp g cpu states = Inr outs" "outs \<noteq> []" "\<forall>o' \<in> set outs. states_ok dp (oc_states o')"
    using outcome_dfs_live[OF assms(1,3,4,2)] unfolding assignment_outcomes_def by blast
  have "cpu_assignments dp cpu = [] \<longleftrightarrow> cpu = []"
    using cpu_assignments_ok(1)[of dp cpu] dp_runnableD(1)[OF assms(1)] unfolding dp_wf_def by (metis map_is_Nil_conv)
  then show ?thesis using outs by (auto simp: assignment_choices_def Let_def)
qed

subsection \<open>CPU nodes run after their parents\<close>

lemma is_done_mono: "is_done dp m p \<Longrightarrow> is_done dp (add_nodes dp m xs) p"
  by (simp add: is_done_iff bit_add_nodes)

lemma auto_pass_parents:
  assumes "auto_pass dp ns (sel, pend, m) = (sel', pend', m')"
  shows "\<exists>xs. sel' = sel @ xs \<and> m' = add_nodes dp m xs \<and> (\<forall>n \<in> set xs. \<forall>p \<in> parents_in dp False n. is_done dp m' p)"
  using assms
proof (induction ns arbitrary: sel pend m)
  case (Cons n ns)
  show ?case
  proof (cases "n \<notin> set pend \<or> parents_mask dp False n AND NOT m \<noteq> 0")
    case True
    then show ?thesis using Cons by simp
  next
    case False
    then have "auto_pass dp ns (sel @ [n], removeAll n pend, m OR node_bit dp n) = (sel', pend', m')"
      using Cons.prems by simp
    from Cons.IH[OF this] obtain xs where xs: "sel' = sel @ n # xs" "m' = add_nodes dp m (n # xs)"
      "\<forall>k \<in> set xs. \<forall>p \<in> parents_in dp False k. is_done dp m' p" by (auto simp: add_nodes_def)
    have "\<forall>p \<in> parents_in dp False n. is_done dp m p" using False parents_mask_done by blast
    then have "\<forall>p \<in> parents_in dp False n. is_done dp m' p" using is_done_mono xs(2) by blast
    then show ?thesis using xs by (intro exI[of _ "n # xs"]) simp
  qed
qed (simp add: add_nodes_def)

lemma auto_loop_parents:
  "\<exists>xs. auto_loop dp (sel, pend, m) = sel @ xs \<and> (\<forall>n \<in> set xs. \<forall>p \<in> parents_in dp False n. is_done dp (add_nodes dp m xs) p)"
proof (induction "length pend" arbitrary: sel pend m rule: less_induct)
  case less
  obtain sel' pend' m' where p: "auto_pass dp (db_topo_order dp) (sel, pend, m) = (sel', pend', m')" by (metis prod_cases3)
  obtain ys where ys: "sel' = sel @ ys" "m' = add_nodes dp m ys" "\<forall>n \<in> set ys. \<forall>p \<in> parents_in dp False n. is_done dp m' p"
    using auto_pass_parents[OF p] by blast
  have loop: "auto_loop dp (sel, pend, m) = (if sel' = sel then sel' else auto_loop dp (sel', pend', m'))"
    using p by (subst auto_loop.simps) simp
  show ?case
  proof (cases "sel' = sel")
    case True
    then show ?thesis using loop by (intro exI[of _ "[]"]) simp
  next
    case False
    then have "length pend' < length pend" using auto_pass_measure[OF p] by simp
    from less[OF this, of sel' m'] obtain xs where xs: "auto_loop dp (sel', pend', m') = sel' @ xs"
      "\<forall>n \<in> set xs. \<forall>p \<in> parents_in dp False n. is_done dp (add_nodes dp m' xs) p" by blast
    have m: "add_nodes dp m' xs = add_nodes dp m (ys @ xs)" using ys by (simp add: add_nodes_def)
    have "\<forall>n \<in> set (ys @ xs). \<forall>p \<in> parents_in dp False n. is_done dp (add_nodes dp m (ys @ xs)) p"
      using xs(2) ys(3) is_done_mono unfolding m[symmetric] by auto
    then show ?thesis using loop False xs(1) ys(1) by (intro exI[of _ "ys @ xs"]) simp
  qed
qed

lemma auto_cpu_batch_parents:
  assumes "n \<in> set (auto_cpu_batch dp dm gpu_nodes)" "p \<in> parents_in dp False n"
  shows "is_done dp (add_nodes dp dm (gpu_nodes @ auto_cpu_batch dp dm gpu_nodes)) p"
proof -
  let ?pend = "remdups (filter (\<lambda>n. \<not> is_done dp dm n) (db_node_ids dp))"
  obtain xs where "auto_loop dp ([], ?pend, add_nodes dp dm gpu_nodes) = xs"
    "\<forall>n \<in> set xs. \<forall>p \<in> parents_in dp False n. is_done dp (add_nodes dp (add_nodes dp dm gpu_nodes) xs) p"
    using auto_loop_parents[of dp "[]"] by fastforce
  moreover have "auto_cpu_batch dp dm gpu_nodes = auto_loop dp ([], ?pend, add_nodes dp dm gpu_nodes)"
    using assms(1) by (auto simp: auto_cpu_batch_def Let_def split: if_splits)
  ultimately show ?thesis using assms by (simp add: add_nodes_def)
qed

subsection \<open>GPU batches of a graph without cycles\<close>

lemma count_list_distinct: "distinct xs \<Longrightarrow> count_list xs x = (if x \<in> set xs then 1 else 0)"
  by (induction xs) auto

lemma waiting_on_children:
  assumes "\<forall>c \<in> set ns. distinct (parents_of deps c)" "n \<in> set ns"
  shows "waiting_on deps ns n = children deps ns n"
proof -
  have "concat (map (\<lambda>c. replicate (count_list (parents_of deps c) n) c) ks) = filter (\<lambda>c. n \<in> set (parents_of deps c)) ks"
    if "set ks \<subseteq> set ns" for ks
    using that
  proof (induction ks)
    case (Cons c ks)
    have "count_list (parents_of deps c) n = (if n \<in> set (parents_of deps c) then 1 else 0)"
      using assms(1) Cons.prems by (simp add: count_list_distinct)
    then show ?case using Cons by simp
  qed simp
  then show ?thesis using assms(2) by (simp add: waiting_on_def children_def)
qed

lemma gpu_topo_loop_result:
  assumes "distinct ns" "\<forall>c \<in> set ns. distinct (parents_of deps c)" "kahn_inv (child_graph deps ns) deg queue topo"
  shows "\<exists>deg'. kahn_inv (child_graph deps ns) deg' [] (gpu_topo_loop deps ns deg queue topo)"
  using assms
proof (induction deps ns deg queue topo rule: gpu_topo_loop.induct)
  case (2 deps ns deg n queue topo)
  have n: "n \<in> set ns" using "2.prems"(3) nodes_child_graph[of deps ns] by (auto simp: kahn_inv_def)
  note w = waiting_on_children[OF "2.prems"(2) n]
  obtain deg' new where rel: "relax deg [] (waiting_on deps ns n) = (deg', new)" by force
  have "kahn_inv (child_graph deps ns) deg' (queue @ new) (topo @ [n])"
    using kahn_inv_step[OF child_graph_wf[OF "2.prems"(1)] "2.prems"(3), of "[n]" queue deg' new "queue @ new"] rel w
    by (simp add: neighbours_child_graph)
  from "2.IH"[OF rel[symmetric] "2.prems"(1,2) this] show ?case using rel by simp
qed auto

lemma gpu_topo_sorted:
  assumes "distinct ns" "\<forall>c \<in> set ns. distinct (parents_of (dp_deps dp) c)"
    and "acyclic {(p, n). p \<in> set ns \<and> n \<in> set ns \<and> p \<in> set (parents_of (dp_deps dp) n)}"
  shows "set (gpu_topo dp ns) = set ns" "topo_respects {(p, n). p \<in> set ns \<and> n \<in> set ns \<and> p \<in> set (parents_of (dp_deps dp) n)} (gpu_topo dp ns)"
proof -
  let ?g = "child_graph (dp_deps dp) ns" and ?deg = "indegree (dp_deps dp) ns"
  let ?t = "gpu_topo_loop (dp_deps dp) ns ?deg (filter (\<lambda>n. ?deg n = 0) ns) []"
  have "kahn_inv ?g ?deg (filter (\<lambda>n. ?deg n = 0) ns) []"
    using assms(1) nodes_child_graph[of "dp_deps dp" ns] by (auto simp: kahn_inv_def in_degree_child_graph)
  from gpu_topo_loop_result[OF assms(1,2) this] obtain deg where inv: "kahn_inv ?g deg [] ?t" by blast
  have "set ?t = set (graph_nodes ?g)"
    using kahn_inv_complete[OF child_graph_wf[OF assms(1)] inv] assms(3) by (simp add: edges_child_graph[OF assms(1)])
  then have s: "set ?t = set ns" by (simp add: nodes_child_graph)
  moreover have "distinct ?t" using inv by (simp add: kahn_inv_def)
  ultimately have "gpu_topo dp ns = ?t" by (simp add: gpu_topo_def Let_def distinct_card[symmetric])
  then show "set (gpu_topo dp ns) = set ns"
    "topo_respects {(p, n). p \<in> set ns \<and> n \<in> set ns \<and> p \<in> set (parents_of (dp_deps dp) n)} (gpu_topo dp ns)"
    using s inv by (simp_all add: kahn_inv_def edges_child_graph[OF assms(1)])
qed

lemma gpu_dfs_skip:
  "lo \<le> length selected \<Longrightarrow> length selected \<le> hi \<Longrightarrow> selected \<in> set (gpu_dfs dp dm lo hi ns selected sm)"
  by (induction ns) auto

lemma gpu_dfs_single:
  assumes "n \<in> set ns" "parents_mask dp True n AND NOT dm = 0" "lo \<le> 1" "1 \<le> hi"
  shows "[n] \<in> set (gpu_dfs dp dm lo hi ns [] 0)"
  using assms(1)
proof (induction ns)
  case (Cons k ns)
  show ?case
  proof (cases "k = n")
    case True
    have "[n] \<in> set (gpu_dfs dp dm lo hi ns [n] (0 OR node_bit dp n))" by (rule gpu_dfs_skip) (use assms in simp_all)
    then show ?thesis using True assms(2,4) by simp
  qed (use Cons in simp)
qed simp

lemma gpu_dfs_prefix:
  assumes "\<forall>i < length ns. \<forall>p \<in> parents_in dp True (ns ! i). is_done dp (dm OR sm) p \<or> p \<in> set (take i ns)"
    and "length selected \<le> hi" "lo \<le> hi" "lo \<le> length selected + length ns"
  shows "selected @ take (hi - length selected) ns \<in> set (gpu_dfs dp dm lo hi ns selected sm)"
  using assms
proof (induction ns arbitrary: selected sm)
  case (Cons n ns)
  show ?case
  proof (cases "length selected = hi")
    case True
    then show ?thesis using gpu_dfs_skip[of lo selected hi dp dm "n # ns" sm] Cons.prems(3) by simp
  next
    case False
    then have l: "length selected < hi" using Cons.prems(2) by simp
    have "\<forall>p \<in> parents_in dp True n. is_done dp (dm OR sm) p" using Cons.prems(1)[rule_format, of 0] by auto
    then have free: "parents_mask dp True n AND NOT (dm OR sm) = 0" by (simp only: parents_mask_done)
    have n: "is_done dp (dm OR (sm OR node_bit dp n)) p \<longleftrightarrow> is_done dp (dm OR sm) p \<or> node_index dp p = node_index dp n" for p
      unfolding is_done_iff or.assoc[symmetric] by (rule bit_node_bit)
    have "(selected @ [n]) @ take (hi - length (selected @ [n])) ns
        \<in> set (gpu_dfs dp dm lo hi ns (selected @ [n]) (sm OR node_bit dp n))"
    proof (rule Cons.IH)
      show "\<forall>i < length ns. \<forall>p \<in> parents_in dp True (ns ! i). is_done dp (dm OR (sm OR node_bit dp n)) p \<or> p \<in> set (take i ns)"
      proof (intro allI impI ballI)
        fix i p assume "i < length ns" "p \<in> parents_in dp True (ns ! i)"
        then have "is_done dp (dm OR sm) p \<or> p = n \<or> p \<in> set (take i ns)" using Cons.prems(1)[rule_format, of "Suc i" p] by auto
        then show "is_done dp (dm OR (sm OR node_bit dp n)) p \<or> p \<in> set (take i ns)" using n by blast
      qed
    qed (use Cons.prems l in simp_all)
    moreover have "hi - length selected = Suc (hi - length (selected @ [n]))" using l by simp
    then have "take (hi - length selected) (n # ns) = n # take (hi - length (selected @ [n])) ns" by simp
    ultimately show ?thesis using free l by simp
  qed
qed simp

lemma enumerate_live:
  assumes r: "dp_runnable dp"
  shows "\<exists>bs. enumerate_gpu_batches dp prune dm = Inr bs \<and> [] \<in> set bs
     \<and> (\<not> prune \<longrightarrow> (\<forall>n \<in> undone dp dm. is_gpu dp n \<and> (\<forall>p \<in> parents_in dp False n. is_done dp dm p) \<longrightarrow> [n] \<in> set bs))"
proof (cases "pending_gpu dp dm = []")
  case True
  have "\<not> is_gpu dp n" if "n \<in> undone dp dm" for n using pending_gpu_iff[of dp dm] that unfolding True by auto
  then show ?thesis using True by (simp add: enumerate_gpu_batches_def)
next
  case False
  let ?ns = "pending_gpu dp dm" and ?hi = "min (max 1 (length (dp_gpu_workers dp))) (length (pending_gpu dp dm))"
  let ?lo = "if prune then max 1 (?hi - dp_slack dp) else 1" and ?t = "gpu_topo dp (pending_gpu dp dm)"
  let ?E = "{(p, n). p \<in> set ?ns \<and> n \<in> set ?ns \<and> p \<in> set (parents_of (dp_deps dp) n)}"
  have ids: "set ?ns \<subseteq> set (dp_node_ids dp)" by (auto simp: pending_gpu_def)
  have d: "distinct ?ns" using dp_runnableD(1)[OF r] by (simp add: pending_gpu_def dp_wf_def)
  have dp: "\<forall>c \<in> set ?ns. distinct (parents_of (dp_deps dp) c)" using dp_runnableD(7)[OF r] ids by blast
  have "?E \<subseteq> dp_edges dp" using ids by (auto simp: dp_edges_def parents_in_def)
  then have "acyclic ?E" using dp_runnableD(8)[OF r] acyclic_subset by blast
  note T = gpu_topo_sorted[OF d dp this]
  have len: "length ?t = length ?ns" using gpu_topo_ok(1)[OF d, of dp] T(1) d by (metis distinct_card)
  have hi: "1 \<le> ?hi" using False by (simp add: Suc_le_eq)
  have "\<forall>i < length ?t. \<forall>p \<in> parents_in dp True (?t ! i). is_done dp (dm OR 0) p \<or> p \<in> set (take i ?t)"
  proof (intro allI impI ballI)
    fix i p assume i: "i < length ?t" and p: "p \<in> parents_in dp True (?t ! i)"
    show "is_done dp (dm OR 0) p \<or> p \<in> set (take i ?t)"
    proof (cases "is_done dp dm p")
      case False
      then have "p \<in> set ?ns" using p unfolding pending_gpu_iff by (auto simp: parents_in_def undone_def)
      then have "(p, ?t ! i) \<in> ?E" using p nth_mem[OF i] T(1) by (auto simp: parents_in_def)
      then show ?thesis using T(2) i unfolding topo_respects_def by blast
    qed simp
  qed
  then have "[] @ take (?hi - length ([] :: string list)) ?t \<in> set (gpu_dfs dp dm ?lo ?hi ?t [] 0)"
    by (rule gpu_dfs_prefix) (use len hi in auto)
  then have "gpu_dfs dp dm ?lo ?hi ?t [] 0 \<noteq> []" by (metis empty_iff list.set(1))
  then have e: "enumerate_gpu_batches dp prune dm = Inr ([] # gpu_dfs dp dm ?lo ?hi ?t [] 0)"
    using False by (cases prune) (auto simp: enumerate_gpu_batches_def Let_def)
  have "[n] \<in> set (gpu_dfs dp dm ?lo ?hi ?t [] 0)"
    if "\<not> prune" "n \<in> undone dp dm" "is_gpu dp n" "\<forall>p \<in> parents_in dp False n. is_done dp dm p" for n
  proof (rule gpu_dfs_single)
    show "n \<in> set ?t" using that(2,3) T(1) pending_gpu_iff by blast
    have "\<forall>p \<in> parents_in dp True n. is_done dp dm p" using that(4) by (auto simp: parents_in_def)
    then show "parents_mask dp True n AND NOT dm = 0" by (simp only: parents_mask_done)
  qed (use that(1) hi in auto)
  then show ?thesis using e by auto
qed

subsection \<open>Every epoch has a choice\<close>

lemma set_auto_ids: "set (auto_cpu_batch dp dm gpu) \<subseteq> set (dp_node_ids dp)"
  using auto_cpu_batch_ok(2)[of dp dm gpu] by (auto simp: undone_def)

lemma batch_choices_live:
  assumes r: "dp_runnable dp" "states_ok dp states" and b: "set batch \<subseteq> {n \<in> undone dp dm. is_gpu dp n}"
  shows "\<forall>x \<in> set (batch_choices dp dm states ep batch). \<exists>c. x = Inr c \<and> states_ok dp (ec_states c)"
proof -
  define gpu where "gpu = sorted_batch dp batch"
  define cpu where "cpu = order_cpu_nodes dp (auto_cpu_batch dp dm gpu) (batch_gpu_depths dp batch)"
  have cs: "set cpu \<subseteq> set (dp_node_ids dp)" using set_auto_ids by (simp add: cpu_def order_cpu_nodes_set)
  have gs: "set gpu \<subseteq> set (dp_node_ids dp)" using b by (auto simp: gpu_def sorted_batch_set undone_def)
  obtain assigns where a: "worker_assignments dp states gpu = Inr assigns" using worker_assignments_live[OF r] by blast
  have "\<forall>x \<in> set (assignment_choices dp dm states ep gpu cpu (batch_gpu_depths dp batch) g). \<exists>c. x = Inr c \<and> states_ok dp (ec_states c)"
    if "g \<in> set assigns" for g
  proof -
    note w = worker_assignments_ok[OF a that]
    have "set (map snd g) = set gpu" using w by simp
    then have "\<forall>(w, n) \<in> set g. w \<in> set (dp_worker_ids dp) \<and> n \<in> set (dp_node_ids dp)"
      using w gs dp_runnableD(4)[OF r(1)] by force
    from conjunct1[OF assignment_choices_live[OF r cs this]] show ?thesis .
  qed
  then show ?thesis unfolding batch_choices_def Let_def gpu_def[symmetric] cpu_def[symmetric] a by auto
qed

lemma epoch_choices_live:
  assumes r: "dp_runnable dp" "states_ok dp states"
  shows "\<exists>cs. epoch_choices dp prune dm states ep = Inr cs \<and> (\<forall>x \<in> set cs. \<exists>c. x = Inr c \<and> states_ok dp (ec_states c))"
proof -
  obtain bs where bs: "enumerate_gpu_batches dp prune dm = Inr bs" using enumerate_live[OF r(1)] by blast
  have d: "distinct (dp_node_ids dp)" using dp_runnableD(1)[OF r(1)] by (simp add: dp_wf_def)
  have "\<forall>x \<in> set (batch_choices dp dm states ep b). \<exists>c. x = Inr c \<and> states_ok dp (ec_states c)" if "b \<in> set bs" for b
    using batch_choices_live[OF r] enumerate_ok[OF d bs that] pending_gpu_iff by blast
  then show ?thesis unfolding epoch_choices_def bs by auto
qed

text \<open>The batch \<open>b\<close> gives a choice when it runs something, its parents are done, and it can be assigned.\<close>

lemma batch_choices_ne:
  assumes r: "dp_runnable dp" "states_ok dp states" and b: "set batch \<subseteq> {n \<in> undone dp dm. is_gpu dp n}"
    and ne: "batch \<noteq> [] \<or> auto_cpu_batch dp dm [] \<noteq> []"
    and par: "\<forall>n \<in> set batch. \<forall>p \<in> parents_in dp False n. is_done dp dm p"
    and w: "gpu_assignments dp (sorted_batch dp batch) \<noteq> []"
  shows "batch_choices dp dm states ep batch \<noteq> []"
proof -
  define gpu where "gpu = sorted_batch dp batch"
  define cpu where "cpu = order_cpu_nodes dp (auto_cpu_batch dp dm gpu) (batch_gpu_depths dp batch)"
  have gset: "set gpu = set batch" by (simp add: gpu_def sorted_batch_set)
  have cset: "set cpu = set (auto_cpu_batch dp dm gpu)" by (simp add: cpu_def order_cpu_nodes_set)
  have cs: "set cpu \<subseteq> set (dp_node_ids dp)" using set_auto_ids cset by blast
  have some: "gpu @ cpu \<noteq> []"
  proof (cases "batch = []")
    case True
    then have "gpu = []" using gset by simp
    then have "set cpu \<noteq> {}" using ne True cset by simp
    then show ?thesis by auto
  qed (use gset in auto)
  have same: "is_done dp (add_nodes dp dm (gpu @ cpu)) p \<longleftrightarrow> is_done dp (add_nodes dp dm (gpu @ auto_cpu_batch dp dm gpu)) p" for p
    by (simp add: is_done_iff bit_add_nodes cset)
  have feas: "batch_feasible dp (gpu @ cpu) dm"
    unfolding batch_feasible_def Let_def parents_mask_done
  proof (intro ballI)
    fix n p assume n: "n \<in> set (gpu @ cpu)" and p: "p \<in> parents_in dp False n"
    show "is_done dp (add_nodes dp dm (gpu @ cpu)) p"
    proof (cases "n \<in> set gpu")
      case True
      then show ?thesis using par p gset is_done_mono by blast
    next
      case False
      then show ?thesis using n p cset auto_cpu_batch_parents same by auto
    qed
  qed
  obtain assigns where a: "worker_assignments dp states gpu = Inr assigns" "assigns \<noteq> []"
    using worker_assignments_live[OF r, of gpu] w gpu_def by blast
  then obtain g where g: "g \<in> set assigns" by (metis list.set_intros(1) neq_Nil_conv)
  note ok = worker_assignments_ok[OF a(1) g]
  have "set (map snd g) = set gpu" using ok by simp
  then have "\<forall>(w, n) \<in> set g. w \<in> set (dp_worker_ids dp) \<and> n \<in> set (dp_node_ids dp)"
    using ok gset b dp_runnableD(4)[OF r(1)] by (force simp: undone_def)
  note L = conjunct2[OF assignment_choices_live[OF r cs this, of dm ep gpu "batch_gpu_depths dp batch"]]
  have "g \<noteq> [] \<or> cpu \<noteq> []" using ok some by auto
  then have "assignment_choices dp dm states ep gpu cpu (batch_gpu_depths dp batch) g \<noteq> []" using L by blast
  then show ?thesis
    unfolding batch_choices_def Let_def gpu_def[symmetric] cpu_def[symmetric] using some feas a(1) g by auto
qed

lemma ready_node:
  assumes "dp_runnable dp" "undone dp dm \<noteq> {}"
  shows "\<exists>n \<in> undone dp dm. \<forall>p \<in> parents_in dp False n. is_done dp dm p"
proof -
  have "dp_edges dp \<subseteq> set (dp_node_ids dp) \<times> set (dp_node_ids dp)" by (auto simp: dp_edges_def parents_in_def)
  then have "finite (dp_edges dp)" by (rule finite_subset) simp
  then have "wf (dp_edges dp)" using dp_runnableD(8)[OF assms(1)] by (rule finite_acyclic_wf)
  then obtain n where n: "n \<in> undone dp dm" "\<And>p. (p, n) \<in> dp_edges dp \<Longrightarrow> p \<notin> undone dp dm"
    using assms(2) by (metis wfE_min ex_in_conv)
  then show ?thesis by (intro bexI[of _ n]) (auto simp: dp_edges_def undone_def parents_in_def)
qed

lemma epoch_choices_ne:
  assumes r: "dp_runnable dp" "states_ok dp states" and u: "undone dp dm \<noteq> {}" and e: "epoch_choices dp False dm states ep = Inr cs"
  shows "cs \<noteq> []"
proof -
  obtain bs where bs: "enumerate_gpu_batches dp False dm = Inr bs" "[] \<in> set bs"
    "\<forall>n \<in> undone dp dm. is_gpu dp n \<and> (\<forall>p \<in> parents_in dp False n. is_done dp dm p) \<longrightarrow> [n] \<in> set bs"
    using enumerate_live[OF r(1), of False dm] by auto
  obtain n where n: "n \<in> undone dp dm" "\<forall>p \<in> parents_in dp False n. is_done dp dm p" using ready_node[OF r(1) u] by blast
  have "\<exists>b \<in> set bs. batch_choices dp dm states ep b \<noteq> []"
  proof (cases "auto_cpu_batch dp dm [] = []")
    case False
    have "sorted_batch dp [] = []" using sorted_batch_set(1)[of dp "[]"] by simp
    then have "batch_choices dp dm states ep [] \<noteq> []"
      using False by (intro batch_choices_ne[OF r]) (simp_all add: gpu_assignments_def)
    then show ?thesis using bs(2) by blast
  next
    case True
    have gpu: "is_gpu dp n"
    proof (rule ccontr)
      assume "\<not> is_gpu dp n"
      from auto_cpu_batch_ok(3)[OF n(1) this, of "[]"] show False using n(2) True by (auto simp: add_nodes_def)
    qed
    have s: "sorted_batch dp [n] = [n]" using sorted_batch_same[of dp "[n]"] by simp
    obtain w where "w \<in> set (dp_gpu_workers dp)" "w \<in> set (worker_options dp n)"
      using dp_runnableD(6)[OF r(1) _ gpu] n(1) by (auto simp: undone_def)
    then have "[(w, n)] \<in> set (gpu_assignments dp [n])"
      unfolding gpu_assignments_def gpu_assign_dfs.simps set_concat set_map by (intro UN_I[of "[[(w, n)]]"] image_eqI[of _ _ w]) simp_all
    then have "gpu_assignments dp [n] \<noteq> []" by (metis empty_iff list.set(1))
    then have "batch_choices dp dm states ep [n] \<noteq> []"
      by (intro batch_choices_ne[OF r]) (use n gpu s in simp_all)
    then show ?thesis using bs(3) n gpu by blast
  qed
  then show ?thesis using e bs(1) by (auto simp: epoch_choices_def)
qed

subsection \<open>The search\<close>

lemma explore_live:
  assumes "\<And>x m. x \<in> set cs \<Longrightarrow> \<exists>c sub m'. x = Inr c \<and> rec c m = Some (Inr sub, m')"
  shows "\<exists>b m'. explore rec bound lb cs best memo = Some (Inr b, m') \<and> (cs \<noteq> [] \<or> best \<noteq> None \<longrightarrow> b \<noteq> None)"
  using assms
proof (induction cs arbitrary: best memo)
  case (Cons x cs)
  have IH: "\<exists>b m'. explore rec bound lb cs best memo = Some (Inr b, m') \<and> (cs \<noteq> [] \<or> best \<noteq> None \<longrightarrow> b \<noteq> None)" for best memo
    by (rule Cons.IH) (use Cons.prems in simp)
  obtain c sub m where c: "x = Inr c" "rec c memo = Some (Inr sub, m)" using Cons.prems[of x memo] by auto
  show ?case
  proof (cases "bound \<and> (case best of None \<Rightarrow> False | Some b \<Rightarrow> fst b \<le> ec_cost c + lb c)")
    case True
    then have "explore rec bound lb (x # cs) best memo = explore rec bound lb cs best memo" "best \<noteq> None"
      using c by (auto split: option.splits)
    then show ?thesis using IH[of best memo] by auto
  next
    case False
    have "explore rec bound lb (x # cs) best memo = explore rec bound lb cs (better_plan best (extend_best c sub)) m"
      unfolding c(1) explore.simps if_not_P[OF False] c(2) by simp
    moreover have "better_plan best (extend_best c sub) \<noteq> None" by (simp add: better_plan_def del: not_None_eq split: option.splits)
    ultimately show ?thesis using IH[of "better_plan best (extend_best c sub)" m] by auto
  qed
qed simp

lemma solve_live:
  assumes r: "dp_runnable dp" and "mask_ok dp dm" "states_ok dp states" "work_left dp prune dm < k" "retry \<or> \<not> prune"
  shows "\<exists>b memo'. solve k dp prune retry dm states ep memo = Some (Inr b, memo')"
  using assms(2-)
proof (induction k arbitrary: prune retry dm states ep memo)
  case (Suc k)
  obtain cs where cs: "epoch_choices dp prune dm states ep = Inr cs" "\<forall>x \<in> set cs. \<exists>c. x = Inr c \<and> states_ok dp (ec_states c)"
    using epoch_choices_live[OF r Suc.prems(2)] by blast
  let ?rec = "\<lambda>c m. solve k dp prune retry (ec_done c) (ec_states c) (ep + 1) m"
  have "\<exists>c sub m'. x = Inr c \<and> ?rec c m = Some (Inr sub, m')" if x: "x \<in> set cs" for x m
  proof -
    obtain c where c: "x = Inr c" "states_ok dp (ec_states c)" using cs(2) x by blast
    note P = choice_progress[OF epoch_choices_ok[OF dp_runnableD(1)[OF r] cs(1) x[unfolded c(1)]] Suc.prems(1)]
    have "work_left dp prune (ec_done c) < k" using P(2) Suc.prems(3) by (simp add: work_left_def)
    from Suc.IH[OF P(1) c(2) this Suc.prems(4)] show ?thesis using c(1) by blast
  qed
  from explore_live[of cs ?rec, OF this] obtain b m' where
    e: "explore ?rec (dp_bound dp) (\<lambda>c. lower_bound_remaining dp (ec_done c) (ep + 1)) cs None memo = Some (Inr b, m')"
      "cs \<noteq> [] \<longrightarrow> b \<noteq> None" by blast
  have again: "\<exists>b memo'. solve k dp False False dm states ep m = Some (Inr b, memo')" if "prune" for m
    by (rule Suc.IH[OF Suc.prems(1,2)]) (use Suc.prems(3) that in \<open>simp_all add: work_left_def\<close>)
  show ?case
  proof (cases "dm = all_mask dp \<or> map_of memo (dm, states, ep) \<noteq> None")
    case False
    then have "undone dp dm \<noteq> {}" using all_mask_iff[OF dp_runnableD(1)[OF r] Suc.prems(1)] by blast
    then have "prune \<or> b \<noteq> None" using epoch_choices_ne[OF r Suc.prems(2)] cs(1) e(2) by (cases prune) auto
    have F: "(dm = all_mask dp) = False" "map_of memo (dm, states, ep) = None" using False by blast+
    have eq: "solve (Suc k) dp prune retry dm states ep memo =
        (case b of
           None \<Rightarrow> if retry \<and> prune then solve k dp False False dm states ep m'
                    else Some (Inl (RuntimeError ''no valid schedule''), m')
         | Some s \<Rightarrow> Some (Inr s, AList.update (dm, states, ep) s m'))"
      by (simp only: solve.simps F if_False option.case cs(1) sum.case e(1) prod.case split: option.split)
    show ?thesis
    proof (cases b)
      case None
      then have "retry \<and> prune" using \<open>prune \<or> b \<noteq> None\<close> Suc.prems(4) by blast
      then show ?thesis unfolding eq None option.case using again by simp
    next
      case (Some s)
      show ?thesis unfolding eq Some option.case by blast
    qed
  qed auto
qed simp

lemma dp_solve_live:
  assumes "dp_runnable dp" "states_ok dp states"
  shows "\<exists>cost sched plans. dp_solve dp (Some states) = Some (Inr (cost, sched, plans))"
proof -
  have "work_left dp (dp_prune dp) 0 < dp_fuel dp"
    using card_length[of "dp_node_ids dp"] by (simp add: work_left_def dp_fuel_def mask_ok_0)
  from solve_live[OF assms(1) mask_ok_0(1) assms(2) this, of True 0 "[]"] show ?thesis by (auto simp: dp_solve_def)
qed

text \<open>
  C31. The DP solver always finds a schedule on a graph without cycles: if its nodes and workers are known,
  each GPU node has a GPU worker it may use, no parent is listed twice and no cost raises, \<open>dp_solve\<close>
  returns a schedule, whatever pruning and symmetry options are set.
\<close>

theorem dp_solve_succeeds:
  assumes "dp_runnable dp"
  shows "\<exists>cost sched plans. dp_solve dp None = Some (Inr (cost, sched, plans))"
proof -
  obtain states where s: "initial_states dp = Inr states" "states_ok dp states" using initial_states_live[OF assms] by blast
  have "dp_solve dp None = dp_solve dp (Some states)" by (simp add: dp_solve_def s(1))
  then show ?thesis using dp_solve_live[OF assms s(2)] by simp
qed

lemma demo_dp_runnable: "dp_runnable (demo_dp b)"
proof -
  have "dp_edges (demo_dp b) \<subseteq> measure (\<lambda>n. if n = ''a'' then 0 else 1)"
    by (auto simp: dp_edges_def parents_in_def parents_of_def demo_dp_def Let_def split: if_splits)
  then have "acyclic (dp_edges (demo_dp b))" by (meson wf_acyclic wf_measure wf_subset)
  then show ?thesis
    using demo_dp_wf[of b] unfolding dp_runnable_def
    by (auto simp: demo_dp_def Let_def worker_options_def parents_of_def is_gpu_node_def)
qed

lemma dp_solve_succeeds_witness: "\<exists>cost sched plans. dp_solve (demo_dp True) None = Some (Inr (cost, sched, plans))"
  by (rule dp_solve_succeeds[OF demo_dp_runnable])

end
