(* ===== verification/Cost.thy ===== *)
theory Cost
  imports Halo_Models
begin

section \<open>The analytic cost model\<close>

text \<open>
  \<open>runtime/job_manager/cost.py\<close> and \<open>runtime/optimizer/multimodal_cost.py\<close>: the duration of one
  operation, the critical path of a graph, and the resource area of a request (critical path times
  dominant-resource share). The environment's defaults are the record \<open>cost_env\<close>. How pydantic reads
  a JSON value as a float is the parameter \<open>as_float\<close> (\<open>None\<close>: a validation error).
\<close>

subsection \<open>GPU execution cost by modality\<close>

datatype node_cost_type = TEXT_INFERENCE | VISION_EMBEDDING | VISION_INFERENCE | IMAGE_GENERATION

record multimodal_cost_coefficients =
  alpha_text :: real
  beta_text :: real
  alpha_embed :: real
  beta_embed :: real
  alpha_vlm :: real
  beta_vlm :: real
  alpha_diff :: real
  beta_diff :: real

definition default_coefficients :: multimodal_cost_coefficients where
  "default_coefficients = \<lparr>alpha_text = 25/100, beta_text = 15/100, alpha_embed = 10/100, beta_embed = 8/100,
     alpha_vlm = 30/100, beta_vlm = 25/100, alpha_diff = 20/100, beta_diff = 5/100\<rparr>"

text \<open>\<open>VisionMarker.model_validate\<close>: the field is an object, null or absent.\<close>

definition vision_marker :: "(string, json) dict \<Rightarrow> bool result" where
  "vision_marker raw =
     (case map_of raw ''image_embedding'' of
        None \<Rightarrow> Inr False
      | Some JNull \<Rightarrow> Inr False
      | Some (JDict d) \<Rightarrow> Inr True
      | Some _ \<Rightarrow> Inl (ValueError ''image_embedding''))"

definition classify_multimodal_node :: "halo_node \<Rightarrow> node_cost_type result" where
  "classify_multimodal_node n =
     (let ty = py_lower (py_strip (nd_type n))
      in if ty = ''diffusion'' then Inr IMAGE_GENERATION
         else if ty = ''embedding'' then Inr VISION_EMBEDDING
         else case vision_marker (nd_raw n) of
             Inl e \<Rightarrow> Inl e
           | Inr has \<Rightarrow> Inr (if ty = ''inference'' \<and> has then VISION_INFERENCE else TEXT_INFERENCE))"

record diffusion_inference_config =
  num_inference_steps :: real
  df_height :: real
  df_width :: real

definition positive_field ::
  "(json \<Rightarrow> real option) \<Rightarrow> (string, json) dict \<Rightarrow> string \<Rightarrow> real \<Rightarrow> real result" where
  "positive_field as_float d k dflt =
     (case map_of d k of
        None \<Rightarrow> Inr dflt
      | Some v \<Rightarrow>
          (case as_float v of
             None \<Rightarrow> Inl (ValueError k)
           | Some x \<Rightarrow> if 0 < x then Inr x else Inl (ValueError k)))"

definition parse_diffusion_inference_config ::
  "(json \<Rightarrow> real option) \<Rightarrow> halo_node \<Rightarrow> diffusion_inference_config result" where
  "parse_diffusion_inference_config as_float n =
     (let dflt = \<lparr>num_inference_steps = 30, df_height = 768, df_width = 768\<rparr>
      in case map_of (nd_raw n) ''_inference_spec'' of
           Some (JDict d) \<Rightarrow>
             (case positive_field as_float d ''num_inference_steps'' 30 of
                Inl e \<Rightarrow> Inl e
              | Inr st \<Rightarrow>
                  (case positive_field as_float d ''height'' 768 of
                     Inl e \<Rightarrow> Inl e
                   | Inr h \<Rightarrow>
                       (case positive_field as_float d ''width'' 768 of
                          Inl e \<Rightarrow> Inl e
                        | Inr w \<Rightarrow> Inr \<lparr>num_inference_steps = st, df_height = h, df_width = w\<rparr>)))
         | _ \<Rightarrow> Inr dflt)"

definition compute_gpu_exec_cost ::
  "(json \<Rightarrow> real option) \<Rightarrow> halo_node \<Rightarrow> real \<Rightarrow> int \<Rightarrow> multimodal_cost_coefficients \<Rightarrow> real result" where
  "compute_gpu_exec_cost as_float n model_size_b input_query_count cf =
     (let qc = real_of_int (max 1 input_query_count);
          ms = max 0 model_size_b
      in case classify_multimodal_node n of
           Inl e \<Rightarrow> Inl e
         | Inr TEXT_INFERENCE \<Rightarrow> Inr (alpha_text cf * ms + beta_text cf * qc)
         | Inr VISION_EMBEDDING \<Rightarrow> Inr (alpha_embed cf * ms + beta_embed cf * qc)
         | Inr VISION_INFERENCE \<Rightarrow> Inr (alpha_vlm cf * ms + beta_vlm cf * qc)
         | Inr IMAGE_GENERATION \<Rightarrow>
             (case parse_diffusion_inference_config as_float n of
                Inl e \<Rightarrow> Inl e
              | Inr c \<Rightarrow>
                  (let step_scale = num_inference_steps c / 30;
                       pixel_scale = (df_height c * df_width c) / (768 * 768);
                       base = alpha_diff cf * ms + beta_diff cf * qc
                   in Inr (base * step_scale * pixel_scale))))"

subsection \<open>The size in a model's name\<close>

text \<open>
  The regular expression \<open>(\d+(?:\.\d+)?)\s*(billion|bn|b|m)\b\<close>, tried at every position: the digits
  run greedily, a fraction needs a digit after the dot, and the word boundary makes the unit a whole
  word. A shorter run of digits is followed by a digit or a dot, so backtracking finds nothing more.
\<close>

definition size_units :: "string list" where
  "size_units = [''billion'', ''bn'', ''b'', ''m'']"

definition decimal :: "string \<Rightarrow> string \<Rightarrow> real" where
  "decimal whole fr =
     real (nat_of_digits 0 whole) + real (nat_of_digits 0 fr) / 10 ^ length fr"

definition match_size :: "string \<Rightarrow> (real \<times> string) option" where
  "match_size s =
     (let whole = takeWhile is_digit s; rest = dropWhile is_digit s;
          fr = (if rest \<noteq> [] \<and> hd rest = CHR ''.'' then takeWhile is_digit (tl rest) else []);
          rest2 = (if fr = [] then rest else drop (Suc (length fr)) rest);
          unit_word = takeWhile is_word (dropWhile is_space rest2)
      in if whole \<noteq> [] \<and> unit_word \<in> set size_units then Some (decimal whole fr, unit_word) else None)"

fun search_size :: "string \<Rightarrow> (real \<times> string) option" where
  "search_size [] = None"
| "search_size (c # cs) =
     (case match_size (c # cs) of Some r \<Rightarrow> Some r | None \<Rightarrow> search_size cs)"

definition model_size_b :: "string \<Rightarrow> real \<Rightarrow> real" where
  "model_size_b model dflt =
     (case search_size (py_lower (py_strip model)) of
        None \<Rightarrow> dflt
      | Some (raw, u) \<Rightarrow> if u = ''m'' then raw / 1000 else raw)"

subsection \<open>The duration of an operation\<close>

definition GPU_BACKENDS :: "string list" where
  "GPU_BACKENDS = [''vllm'', ''transformers'', ''diffusers'', ''omni'']"

datatype op_class = GPU_OP | DB_OP | CPU_OP

definition classify :: "runtime_op \<Rightarrow> op_class" where
  "classify op =
     (let b = py_lower (py_strip (op_backend op))
      in if b \<in> set GPU_BACKENDS then GPU_OP
         else if b = ''data_retrieval'' then DB_OP else CPU_OP)"

definition to_halo_node :: "runtime_op \<Rightarrow> halo_node" where
  "to_halo_node op =
     \<lparr>nd_id = op_node_id op, nd_type = op_task_type op, nd_engine = Some ''vllm'',
      nd_model = Some (op_model op), nd_system_prompt = None, nd_inputs = [], nd_outputs = [],
      nd_db_queries = [],
      nd_raw = (if op_inference_spec op \<noteq> []
                then AList.update ''_inference_spec'' (JDict (op_inference_spec op)) (op_data_spec op)
                else op_data_spec op)\<rparr>"

record cost_params =
  cp_gpu_coeffs :: multimodal_cost_coefficients
  cp_db_sec_per_query :: real
  cp_cpu_sec_per_node :: real
  cp_default_model_size_b :: real
  cp_input_query_count :: int

record cost_env =
  ce_as_float :: "json \<Rightarrow> real option"
  ce_params :: cost_params
  ce_cpu :: int
  ce_gpu :: int
  ce_memory :: string
  ce_gpu_memory :: string

definition node_duration :: "cost_env \<Rightarrow> runtime_op \<Rightarrow> real result" where
  "node_duration env op =
     (let p = ce_params env
      in case classify op of
           GPU_OP \<Rightarrow> compute_gpu_exec_cost (ce_as_float env) (to_halo_node op)
               (model_size_b (op_model op) (cp_default_model_size_b p)) (cp_input_query_count p) (cp_gpu_coeffs p)
         | DB_OP \<Rightarrow> Inr (cp_db_sec_per_query p * real_of_int (cp_input_query_count p))
         | CPU_OP \<Rightarrow> Inr (cp_cpu_sec_per_node p))"

subsection \<open>The critical path\<close>

definition is_agent_retrieval :: "runtime_op \<Rightarrow> bool" where
  "is_agent_retrieval op = (classify op = DB_OP \<and> map_of (op_data_spec op) ''mode'' = Some (JStr ''agent''))"

text \<open>The first loop of \<open>estimate_area\<close>: \<open>Inr None\<close> is its early return.\<close>

fun durations_of ::
  "cost_env \<Rightarrow> (string, runtime_op) dict \<Rightarrow> (string, real) dict \<Rightarrow> (string, real) dict option result" where
  "durations_of env [] acc = Inr (Some acc)"
| "durations_of env ((n, op) # ops) acc =
     (if is_agent_retrieval op then Inr None
      else case node_duration env op of
          Inl e \<Rightarrow> Inl e
        | Inr d \<Rightarrow> durations_of env ops (AList.update n d acc))"

fun best_from_deps :: "(string, real) dict \<Rightarrow> real \<Rightarrow> string list \<Rightarrow> real \<Rightarrow> real" where
  "best_from_deps longest d [] best = best"
| "best_from_deps longest d (dep # deps) best =
     best_from_deps longest d deps
       (case map_of longest dep of None \<Rightarrow> best | Some l \<Rightarrow> max best (l + d))"

fun longest_paths ::
  "(string, runtime_op) dict \<Rightarrow> (string, real) dict \<Rightarrow> string list \<Rightarrow> (string, real) dict
    \<Rightarrow> (string, real) dict result" where
  "longest_paths nodes durs [] longest = Inr longest"
| "longest_paths nodes durs (n # ns) longest =
     (case (map_of durs n, map_of nodes n) of
        (Some d, Some op) \<Rightarrow>
          longest_paths nodes durs ns (AList.update n (best_from_deps longest d (op_dependencies op) d) longest)
      | _ \<Rightarrow> Inl (KeyError n))"

fun max_or_zero :: "real list \<Rightarrow> real" where
  "max_or_zero [] = 0"
| "max_or_zero (x # xs) = foldl max x xs"

definition critical_path :: "runtime_graph \<Rightarrow> (string, real) dict \<Rightarrow> real result" where
  "critical_path g durs =
     (case topological_order g of
        Inl e \<Rightarrow> Inl e
      | Inr order \<Rightarrow>
          (case longest_paths (rg_nodes g) durs order [] of
             Inl e \<Rightarrow> Inl e
           | Inr longest \<Rightarrow> Inr (max_or_zero (map snd longest))))"

subsection \<open>Dominant-resource share and area\<close>

definition memory_share :: "string \<Rightarrow> string \<Rightarrow> real" where
  "memory_share requested dflt =
     (case (parse_memory_to_bytes requested, parse_memory_to_bytes dflt) of
        (Some r, Some d) \<Rightarrow> if d = 0 then 0 else real_of_int r / real_of_int d
      | _ \<Rightarrow> 0)"

definition hw_or :: "hardware_requirements option \<Rightarrow> (hardware_requirements \<Rightarrow> 'a option) \<Rightarrow> 'a \<Rightarrow> 'a" where
  "hw_or hw f dflt = (case Option.bind hw f of None \<Rightarrow> dflt | Some v \<Rightarrow> v)"

definition count_share :: "int \<Rightarrow> int \<Rightarrow> real" where
  "count_share requested dflt = (if dflt \<noteq> 0 then real_of_int requested / real_of_int dflt else 0)"

definition dominant_share :: "cost_env \<Rightarrow> workflow_item \<Rightarrow> real" where
  "dominant_share env it =
     (let hw = rc_hardware (wi_config it);
          cpu_share = count_share (hw_or hw hw_cpu (ce_cpu env)) (ce_cpu env);
          gpu_share = count_share (hw_or hw hw_gpu (ce_gpu env)) (ce_gpu env);
          mem_share = memory_share (hw_or hw hw_memory (ce_memory env)) (ce_memory env);
          gpu_mem_share = memory_share (hw_or hw hw_gpu_memory (ce_gpu_memory env)) (ce_gpu_memory env)
      in max (max (max cpu_share mem_share) gpu_share) gpu_mem_share)"

definition estimate_area :: "cost_env \<Rightarrow> workflow_item \<Rightarrow> real option result" where
  "estimate_area env it =
     (let g = wi_graph it
      in if rg_nodes g = [] then Inr None
         else case durations_of env (rg_nodes g) [] of
             Inl e \<Rightarrow> Inl e
           | Inr None \<Rightarrow> Inr None
           | Inr (Some durs) \<Rightarrow>
               (case critical_path g durs of
                  Inl e \<Rightarrow> Inl e
                | Inr cp \<Rightarrow>
                    (let area = cp * dominant_share env it
                     in Inr (if 0 < area then Some area else None))))"

subsection \<open>The critical path is the longest dependency path\<close>

text \<open>A path through the operations, last operation first, and its total duration.\<close>

inductive dep_path :: "(string, runtime_op) dict \<Rightarrow> string list \<Rightarrow> bool" for nodes where
  single: "map_of nodes n = Some op \<Longrightarrow> dep_path nodes [n]"
| extend: "dep_path nodes (m # p) \<Longrightarrow> map_of nodes n = Some op \<Longrightarrow> m \<in> set (op_dependencies op) \<Longrightarrow>
    dep_path nodes (n # m # p)"

inductive_simps dep_path_Cons: "dep_path nodes (n # p)"

lemma dep_path_in_nodes: "dep_path nodes (n # p) \<Longrightarrow> n \<in> fst ` set nodes"
  by (erule dep_path.cases) (auto dest!: map_of_SomeD intro: rev_image_eqI)

definition path_time :: "(string, real) dict \<Rightarrow> string list \<Rightarrow> real" where
  "path_time durs p = sum_list (map (\<lambda>n. the (map_of durs n)) p)"

lemma path_time_Cons [simp]: "path_time durs (n # p) = the (map_of durs n) + path_time durs p"
  by (simp add: path_time_def)

lemma best_from_deps_ge_start: "best \<le> best_from_deps longest d deps best"
proof (induction deps arbitrary: best)
  case (Cons a deps)
  have "best \<le> best_from_deps longest d deps (max best x)" for x
    using Cons.IH[of "max best x"] by linarith
  then show ?case using Cons.IH by (simp split: option.split)
qed simp

lemma best_from_deps_ge:
  "dep \<in> set deps \<Longrightarrow> map_of longest dep = Some l \<Longrightarrow> l + d \<le> best_from_deps longest d deps best"
proof (induction deps arbitrary: best)
  case (Cons a deps)
  show ?case
  proof (cases "a = dep")
    case True
    have "l + d \<le> best_from_deps longest d deps (max best (l + d))"
      using best_from_deps_ge_start[of "max best (l + d)" longest d deps] by linarith
    then show ?thesis using True Cons.prems by simp
  next
    case False
    then show ?thesis using Cons by (simp split: option.split)
  qed
qed simp

lemma best_from_deps_cases:
  "best_from_deps longest d deps best = best
   \<or> (\<exists>dep \<in> set deps. \<exists>l. map_of longest dep = Some l \<and> best_from_deps longest d deps best = l + d)"
proof (induction deps arbitrary: best)
  case (Cons a deps)
  show ?case
  proof (cases "map_of longest a")
    case None
    then show ?thesis using Cons.IH[of best] by auto
  next
    case (Some l)
    then show ?thesis using Cons.IH[of "max best (l + d)"] by (auto simp: max_def split: if_splits)
  qed
qed simp

text \<open>What the loop keeps: for every operation done, its entry is the longest path that ends there.\<close>

definition longest_inv ::
  "(string, runtime_op) dict \<Rightarrow> (string, real) dict \<Rightarrow> string list \<Rightarrow> (string, real) dict \<Rightarrow> bool" where
  "longest_inv nodes durs ns longest \<longleftrightarrow>
     fst ` set longest = set ns \<and> distinct (map fst longest)
   \<and> (\<forall>n l. map_of longest n = Some l \<longrightarrow>
        (\<forall>p. dep_path nodes (n # p) \<longrightarrow> path_time durs (n # p) \<le> l)
      \<and> (\<exists>p. dep_path nodes (n # p) \<and> path_time durs (n # p) = l))"

lemma longest_inv_step:
  assumes inv: "longest_inv nodes durs done longest" and n: "n \<notin> set done"
    and d: "map_of durs n = Some d" and op: "map_of nodes n = Some op"
    and deps: "\<And>m. m \<in> set (op_dependencies op) \<Longrightarrow> m \<in> fst ` set nodes \<Longrightarrow> m \<in> set done"
  shows "longest_inv nodes durs (done @ [n])
     (AList.update n (best_from_deps longest d (op_dependencies op) d) longest)"
proof -
  let ?b = "best_from_deps longest d (op_dependencies op) d"
  have dom: "map_of longest m \<noteq> None \<longleftrightarrow> m \<in> set done" for m
    using inv by (metis longest_inv_def map_of_eq_None_iff)
  have upper: "path_time durs (n # p) \<le> ?b" if "dep_path nodes (n # p)" for p
  proof (cases p)
    case Nil
    then show ?thesis using d best_from_deps_ge_start[of d] by (simp add: path_time_def)
  next
    case (Cons m q)
    then have m: "dep_path nodes (m # q)" "m \<in> set (op_dependencies op)"
      using that op by (simp_all add: dep_path_Cons[of _ n])
    then have "m \<in> set done" using deps dep_path_in_nodes by blast
    then obtain l where l: "map_of longest m = Some l" using dom by blast
    then have "path_time durs (m # q) \<le> l"
      using inv m(1) by (simp add: longest_inv_def del: path_time_Cons)
    moreover have "l + d \<le> ?b" by (rule best_from_deps_ge[OF m(2) l])
    ultimately show ?thesis using Cons d by (simp del: path_time_Cons add: path_time_Cons[of _ n])
  qed
  have attained: "\<exists>p. dep_path nodes (n # p) \<and> path_time durs (n # p) = ?b"
    using best_from_deps_cases[of longest d "op_dependencies op" d]
  proof
    assume "?b = d"
    then show ?thesis using d op by (intro exI[of _ "[]"]) (auto simp: path_time_def intro: dep_path.single)
  next
    assume "\<exists>dep \<in> set (op_dependencies op). \<exists>l. map_of longest dep = Some l \<and> ?b = l + d"
    then obtain m l where m: "m \<in> set (op_dependencies op)" "map_of longest m = Some l" "?b = l + d" by blast
    then have "\<exists>p. dep_path nodes (m # p) \<and> path_time durs (m # p) = l"
      using inv by (simp add: longest_inv_def del: path_time_Cons)
    then obtain p where p: "dep_path nodes (m # p)" "path_time durs (m # p) = l" by blast
    have "path_time durs (n # m # p) = ?b"
      using p(2) m(3) d by (simp del: path_time_Cons add: path_time_Cons[of _ n])
    then show ?thesis using dep_path.extend[OF p(1) op m(1)] by blast
  qed
  have old: "(\<forall>p. dep_path nodes (m # p) \<longrightarrow> path_time durs (m # p) \<le> l)
      \<and> (\<exists>p. dep_path nodes (m # p) \<and> path_time durs (m # p) = l)"
    if "map_of longest m = Some l" for m l
    using inv that by (simp add: longest_inv_def del: path_time_Cons)
  have keys: "fst ` set (AList.update n ?b longest) = set (done @ [n])"
    using inv by (simp add: longest_inv_def AList.dom_update)
  show ?thesis
    unfolding longest_inv_def
    using keys inv upper attained old
    by (auto simp: longest_inv_def distinct_update update_conv' simp del: path_time_Cons split: if_splits)
qed

lemma longest_paths_inv:
  assumes "longest_inv nodes durs done longest" "distinct (done @ ns)"
    and "\<And>n. n \<in> set ns \<Longrightarrow> map_of durs n \<noteq> None \<and> map_of nodes n \<noteq> None"
    and "\<And>before n after op m. ns = before @ n # after \<Longrightarrow> map_of nodes n = Some op \<Longrightarrow>
        m \<in> set (op_dependencies op) \<Longrightarrow> m \<in> fst ` set nodes \<Longrightarrow> m \<in> set (done @ before)"
  shows "\<exists>longest'. longest_paths nodes durs ns longest = Inr longest' \<and> longest_inv nodes durs (done @ ns) longest'"
  using assms
proof (induction ns arbitrary: longest "done")
  case Nil
  then show ?case by simp
next
  case (Cons n ns)
  obtain d op where d: "map_of durs n = Some d" and op: "map_of nodes n = Some op"
    using Cons.prems(3)[of n] by auto
  let ?l = "AList.update n (best_from_deps longest d (op_dependencies op) d) longest"
  have "longest_inv nodes durs (done @ [n]) ?l"
    using Cons.prems(2) Cons.prems(4)[of "[]" n ns op] op
    by (intro longest_inv_step[OF Cons.prems(1) _ d op]) auto
  moreover have "m \<in> set ((done @ [n]) @ before)"
    if "ns = before @ k # after" "map_of nodes k = Some op'" "m \<in> set (op_dependencies op')" "m \<in> fst ` set nodes"
    for before k after op' m
    using Cons.prems(4)[of "n # before" k after op' m] that by simp
  ultimately show ?case
    using Cons.IH[of "done @ [n]" ?l] Cons.prems(2,3) d op by simp
qed

lemma foldl_max:
  fixes x :: real
  shows "foldl max x xs \<in> insert x (set xs) \<and> (\<forall>y \<in> insert x (set xs). y \<le> foldl max x xs)"
proof (induction xs arbitrary: x)
  case (Cons a xs)
  show ?case using Cons.IH[of "max x a"] by (auto simp: max_def split: if_splits)
qed simp

lemma max_or_zero_max:
  "xs \<noteq> [] \<Longrightarrow> max_or_zero xs \<in> set xs \<and> (\<forall>y \<in> set xs. y \<le> max_or_zero xs)"
  using foldl_max[of "hd xs" "tl xs"] by (cases xs) simp_all

lemma topo_respects_split:
  "topo_respects E (before @ n # after) \<Longrightarrow> (m, n) \<in> E \<Longrightarrow> m \<in> set before"
  unfolding topo_respects_def by (drule spec[of _ "length before"]) simp

lemma critical_path_aux:
  assumes wf: "rg_wf g" and ne: "rg_nodes g \<noteq> []" and durs: "\<And>n. n \<in> node_ids g \<Longrightarrow> map_of durs n \<noteq> None"
    and cp: "critical_path g durs = Inr c"
  shows "(\<forall>p. dep_path (rg_nodes g) p \<longrightarrow> path_time durs p \<le> c)
      \<and> (\<exists>p. dep_path (rg_nodes g) p \<and> path_time durs p = c)"
proof -
  obtain order where o: "topological_order g = Inr order"
    using cp by (auto simp: critical_path_def split: sum.splits)
  note T = topological_order_aux[OF wf, unfolded o, simplified]
  have "\<exists>longest. longest_paths (rg_nodes g) durs order [] = Inr longest
      \<and> longest_inv (rg_nodes g) durs ([] @ order) longest"
  proof (rule longest_paths_inv)
    show "longest_inv (rg_nodes g) durs [] []" by (simp add: longest_inv_def)
    show "distinct ([] @ order)" using T by simp
    show "map_of durs n \<noteq> None \<and> map_of (rg_nodes g) n \<noteq> None" if "n \<in> set order" for n
      using that T durs by (simp add: map_of_eq_None_iff node_ids_def)
    show "m \<in> set ([] @ before)"
      if "order = before @ n # after" "map_of (rg_nodes g) n = Some op" "m \<in> set (op_dependencies op)"
        "m \<in> fst ` set (rg_nodes g)" for before n after op m
      using T that topo_respects_split[of _ before n after m] by (auto simp: depends_def node_ids_def)
  qed
  then obtain longest where L: "longest_paths (rg_nodes g) durs order [] = Inr longest"
    and I: "longest_inv (rg_nodes g) durs order longest" by auto
  have c: "c = max_or_zero (map snd longest)" using cp o L by (simp add: critical_path_def)
  have keys: "fst ` set longest = node_ids g" and dl: "distinct (map fst longest)"
    using I T by (simp_all add: longest_inv_def)
  have "map snd longest \<noteq> []" using keys ne by (auto simp: node_ids_def)
  note M = max_or_zero_max[OF this, folded c]
  have le: "path_time durs (n # p) \<le> c" if "dep_path (rg_nodes g) (n # p)" for n p
  proof -
    have "n \<in> fst ` set longest" using dep_path_in_nodes[OF that] keys by (simp add: node_ids_def)
    then obtain l where "(n, l) \<in> set longest" by auto
    then have "map_of longest n = Some l" "l \<le> c" using dl M by (force simp: map_of_is_SomeI)+
    then show ?thesis using I that unfolding longest_inv_def by (meson order_trans)
  qed
  have ex: "\<exists>p. dep_path (rg_nodes g) p \<and> path_time durs p = c"
  proof -
    obtain n where "(n, c) \<in> set longest" using M by auto
    then have "map_of longest n = Some c" using dl by (rule map_of_is_SomeI[rotated])
    then show ?thesis using I unfolding longest_inv_def by blast
  qed
  have "path_time durs p \<le> c" if "dep_path (rg_nodes g) p" for p
    using that le by (cases p) (auto elim: dep_path.cases simp del: path_time_Cons)
  then show ?thesis using ex by blast
qed

lemma durations_of_Some:
  assumes "durations_of env ops acc = Inr (Some durs)" "distinct (map fst ops)" "map_of ops n = Some op"
  shows "\<not> is_agent_retrieval op \<and> (\<exists>d. node_duration env op = Inr d \<and> map_of durs n = Some d)"
proof -
  have keep: "map_of durs n = map_of acc n"
    if "durations_of env ops acc = Inr (Some durs)" "n \<notin> fst ` set ops" for ops acc n
    using that
    by (induction ops arbitrary: acc) (auto simp: update_conv split: if_splits sum.splits)
  show ?thesis
    using assms
  proof (induction ops arbitrary: acc)
    case (Cons a ops)
    obtain k o' where a: "a = (k, o')" by force
    show ?case
    proof (cases "k = n")
      case True
      then show ?thesis
        using Cons.prems a keep[of ops _ n] by (auto simp: update_conv split: if_splits sum.splits)
    next
      case False
      then show ?thesis using Cons a by (auto split: if_splits sum.splits)
    qed
  qed simp
qed

text \<open>
  What a request claims of a worker, stated apart from the code: for each resource the amount it asks
  for (the default amount where it asks for none), the amount a default worker has, and the fraction
  that relates the two. A fraction of nothing, or of an unreadable amount, is zero.
\<close>

datatype resource = Cpu | Memory | Gpu | GpuMemory

definition worker_amount :: "cost_env \<Rightarrow> resource \<Rightarrow> int option" where
  "worker_amount env r =
     (case r of
        Cpu \<Rightarrow> Some (ce_cpu env) | Memory \<Rightarrow> parse_memory_to_bytes (ce_memory env)
      | Gpu \<Rightarrow> Some (ce_gpu env) | GpuMemory \<Rightarrow> parse_memory_to_bytes (ce_gpu_memory env))"

definition asked_amount :: "hardware_requirements \<Rightarrow> resource \<Rightarrow> int option option" where
  "asked_amount hw r =
     (case r of
        Cpu \<Rightarrow> map_option Some (hw_cpu hw) | Memory \<Rightarrow> map_option parse_memory_to_bytes (hw_memory hw)
      | Gpu \<Rightarrow> map_option Some (hw_gpu hw)
      | GpuMemory \<Rightarrow> map_option parse_memory_to_bytes (hw_gpu_memory hw))"

definition claimed_amount :: "cost_env \<Rightarrow> hardware_requirements option \<Rightarrow> resource \<Rightarrow> int option" where
  "claimed_amount env hw r =
     (case hw of
        None \<Rightarrow> worker_amount env r
      | Some h \<Rightarrow> (case asked_amount h r of None \<Rightarrow> worker_amount env r | Some amount \<Rightarrow> amount))"

definition claims_share :: "cost_env \<Rightarrow> hardware_requirements option \<Rightarrow> resource \<Rightarrow> real \<Rightarrow> bool" where
  "claims_share env hw r x =
     (case (claimed_amount env hw r, worker_amount env r) of
        (Some claimed, Some amount) \<Rightarrow>
          (if amount = 0 then x = 0 else x * real_of_int amount = real_of_int claimed)
      | _ \<Rightarrow> x = 0)"

lemmas claim_defs = claims_share_def claimed_amount_def asked_amount_def worker_amount_def
  hw_or_def count_share_def memory_share_def

lemma claims_unique:
  assumes "claims_share env hw r x" "claims_share env hw r y"
  shows "x = y"
proof (cases "\<exists>claimed n. claimed_amount env hw r = Some claimed \<and> worker_amount env r = Some n \<and> n \<noteq> 0")
  case True
  then obtain claimed n where n: "claimed_amount env hw r = Some claimed" "worker_amount env r = Some n" "n \<noteq> 0"
    by blast
  have "x = real_of_int claimed / real_of_int n" "y = real_of_int claimed / real_of_int n"
    using assms n by (auto simp: claims_share_def nonzero_eq_divide_eq)
  then show ?thesis by simp
next
  case False
  then show ?thesis using assms by (auto simp: claims_share_def split: option.splits if_splits)
qed

lemma claims_of_code:
  "claims_share env hw Cpu (count_share (hw_or hw hw_cpu (ce_cpu env)) (ce_cpu env))"
  "claims_share env hw Gpu (count_share (hw_or hw hw_gpu (ce_gpu env)) (ce_gpu env))"
  "claims_share env hw Memory (memory_share (hw_or hw hw_memory (ce_memory env)) (ce_memory env))"
  "claims_share env hw GpuMemory (memory_share (hw_or hw hw_gpu_memory (ce_gpu_memory env)) (ce_gpu_memory env))"
  by (auto simp: claim_defs split: option.splits)

lemma dominant_share_greatest:
  "(\<exists>r. claims_share env (rc_hardware (wi_config it)) r (dominant_share env it))
    \<and> (\<forall>r x. claims_share env (rc_hardware (wi_config it)) r x \<longrightarrow> x \<le> dominant_share env it)"
proof -
  let ?hw = "rc_hardware (wi_config it)"
  note C = claims_of_code[of env ?hw]
  have "x \<le> dominant_share env it" if "claims_share env ?hw r x" for r x
    using that by (cases r) (auto simp: dominant_share_def Let_def dest: claims_unique C[THEN claims_unique])
  moreover have "\<exists>r. claims_share env ?hw r (dominant_share env it)"
  proof -
    have m: "max (max (max w x) y) z \<in> {w, x, y, z}" for w x y z :: real by (simp add: max_def)
    from m[of "count_share (hw_or ?hw hw_cpu (ce_cpu env)) (ce_cpu env)"
        "memory_share (hw_or ?hw hw_memory (ce_memory env)) (ce_memory env)"
        "count_share (hw_or ?hw hw_gpu (ce_gpu env)) (ce_gpu env)"
        "memory_share (hw_or ?hw hw_gpu_memory (ce_gpu_memory env)) (ce_gpu_memory env)"]
    show ?thesis using C by (auto simp only: dominant_share_def Let_def insert_iff empty_iff)
  qed
  ultimately show ?thesis by blast
qed

text \<open>
  C8. When \<open>estimate_area\<close> gives an area, it is a length of time times a share. The share is the
  greatest of the fractions that the request claims of a default worker's processors, memory, GPUs and
  GPU memory. The time is the longest dependency path of the graph, weighted by the operations'
  durations: no path takes longer and one takes exactly that long. No operation is an agent-mode
  retrieval, and the area is positive.
\<close>

theorem estimate_area_correct:
  assumes "rg_wf (wi_graph it)" "estimate_area env it = Inr (Some a)"
  shows "\<exists>durs c s. a = c * s \<and> 0 < a
     \<and> (\<exists>r. claims_share env (rc_hardware (wi_config it)) r s)
     \<and> (\<forall>r x. claims_share env (rc_hardware (wi_config it)) r x \<longrightarrow> x \<le> s)
     \<and> (\<forall>n op. map_of (rg_nodes (wi_graph it)) n = Some op \<longrightarrow>
           \<not> is_agent_retrieval op \<and> (\<exists>d. node_duration env op = Inr d \<and> map_of durs n = Some d))
     \<and> (\<forall>p. dep_path (rg_nodes (wi_graph it)) p \<longrightarrow> path_time durs p \<le> c)
     \<and> (\<exists>p. dep_path (rg_nodes (wi_graph it)) p \<and> path_time durs p = c)"
proof -
  let ?g = "wi_graph it"
  obtain durs c where d: "durations_of env (rg_nodes ?g) [] = Inr (Some durs)"
    and c: "critical_path ?g durs = Inr c" and ne: "rg_nodes ?g \<noteq> []"
    and a: "a = c * dominant_share env it" "0 < a"
    using assms(2) by (auto simp: estimate_area_def Let_def split: if_splits sum.splits option.splits)
  have D: "\<not> is_agent_retrieval op \<and> (\<exists>d. node_duration env op = Inr d \<and> map_of durs n = Some d)"
    if "map_of (rg_nodes ?g) n = Some op" for n op
    using durations_of_Some[OF d _ that] assms(1) by (simp add: rg_wf_def)
  have "map_of durs n \<noteq> None" if "n \<in> node_ids ?g" for n
  proof -
    obtain op where "map_of (rg_nodes ?g) n = Some op"
      using \<open>n \<in> node_ids ?g\<close> by (metis map_of_eq_None_iff node_ids_def option.exhaust)
    with D show ?thesis by blast
  qed
  note P = critical_path_aux[OF assms(1) ne this c]
  show ?thesis
    by (intro exI[of _ durs] exI[of _ c] exI[of _ "dominant_share env it"])
      (use P D a dominant_share_greatest in blast)
qed

definition cost_env0 :: cost_env where
  "cost_env0 = \<lparr>ce_as_float = (\<lambda>_. None),
     ce_params = \<lparr>cp_gpu_coeffs = default_coefficients, cp_db_sec_per_query = 1/2, cp_cpu_sec_per_node = 1,
       cp_default_model_size_b = 7, cp_input_query_count = 4\<rparr>,
     ce_cpu = 2, ce_gpu = 1, ce_memory = ''4Gi'', ce_gpu_memory = ''8Gi''\<rparr>"

text \<open>A request for half a worker's processors and memory and for two GPUs where a worker has one.\<close>

definition hardware0 :: hardware_requirements where
  "hardware0 = \<lparr>hw_cpu = Some 1, hw_memory = Some ''2Gi'', hw_gpu = Some 2, hw_gpu_memory = None,
     hw_gpu_model = None\<rparr>"

definition costed_item :: workflow_item where
  "costed_item = (item0 ''w'' ''u'' 0 (graph0 [(''a'', []), (''b'', [''a''])]))
     \<lparr>wi_config := (config0 ''u'')\<lparr>rc_hardware := Some hardware0\<rparr>\<rparr>"

lemma estimate_area_correct_witness:
  "\<exists>durs c s. (47/5::real) = c * s \<and> s = 2 \<and> claims_share cost_env0 (Some hardware0) Gpu s
     \<and> (\<exists>p. dep_path (rg_nodes (wi_graph costed_item)) p \<and> path_time durs p = c)"
proof -
  have order: "topological_order (graph0 [(''a'', []), (''b'', [''a''])]) = Inr [''a'', ''b'']"
    by (simp add: topological_order_def dep_graph_def dep_edges_def graph0_def op0_def add_edge_def
        append_new_def topological_sort_def graph_nodes_def in_degree_def kahn.simps sort_layer_def
        neighbours_def order_index_def)
  have dur: "node_duration cost_env0 (op0 n ds) = Inr (47/20)" for n ds
    by (simp add: node_duration_def classify_def op0_def py_lower_def py_strip_def GPU_BACKENDS_def
        lower_char_def is_space_def char_code_def compute_gpu_exec_cost_def to_halo_node_def
        classify_multimodal_node_def vision_marker_def model_size_b_def match_size_def is_digit_def
        cost_env0_def default_coefficients_def Let_def)
  have cls: "is_agent_retrieval (op0 n ds) = False" for n ds
    by (simp add: is_agent_retrieval_def op0_def)
  have durs: "durations_of cost_env0 (rg_nodes (graph0 [(''a'', []), (''b'', [''a''])])) [] = Inr (Some [(''a'', 47/20), (''b'', 47/20)])"
    by (simp add: graph0_def dur cls)
  have bytes: "parse_memory_to_bytes ''2Gi'' = Some (2 * 1024 ^ 3)"
    "parse_memory_to_bytes ''4Gi'' = Some (4 * 1024 ^ 3)" "parse_memory_to_bytes ''8Gi'' = Some (8 * 1024 ^ 3)"
    by code_simp+
  have item: "wi_graph costed_item = graph0 [(''a'', []), (''b'', [''a''])]"
    "rc_hardware (wi_config costed_item) = Some hardware0"
    by (simp_all add: costed_item_def item0_def)
  have wf: "rg_wf (wi_graph costed_item)" by (simp add: rg_wf_def graph0_def item)
  have share: "dominant_share cost_env0 costed_item = 2"
    by (simp add: dominant_share_def item hardware0_def cost_env0_def hw_or_def count_share_def
        memory_share_def bytes Let_def)
  have gpu: "claims_share cost_env0 (Some hardware0) Gpu 2"
    by (simp add: claim_defs hardware0_def cost_env0_def)
  have "claims_share cost_env0 (Some hardware0) r x \<Longrightarrow> x \<le> 2" for r x
    using dominant_share_greatest[of cost_env0 costed_item] by (simp add: item share)
  moreover have "estimate_area cost_env0 costed_item = Inr (Some (47/5))"
    using order durs share by (simp add: estimate_area_def critical_path_def item graph0_def op0_def)
  ultimately show ?thesis
    using estimate_area_correct[OF wf, of cost_env0 "47/5"] gpu unfolding item by (metis order_antisym)
qed

end
