(* ===== verification/Halo_Optimizer.thy ===== *)
theory Halo_Optimizer
  imports Halo_DP_Live Cost
begin

section \<open>The HALO optimizer\<close>

text \<open>
  \<open>runtime/optimizer/halo.py\<close> (\<open>HaloOptimizer\<close>) with the helpers of \<open>runtime/data_profile_utils.py\<close>
  it calls: it checks a runtime graph, turns it into the graph, workers and plan choices of the DP
  solver, tunes the solver from the graph's shape, and turns the solution into a list of nodes per
  worker. \<open>float(s)\<close> of a string and pydantic's reading of rows and numbers are the parameters of
  \<open>halo_env\<close>. The mutable cost parameters are the record \<open>halo_state\<close>. A \<open>TypeError\<close> is a
  \<open>ValueError\<close> here; logging is left out.
\<close>

subsection \<open>Data\<close>

record cost_estimate =
  es_plan_id :: string
  es_description :: "string option"
  es_raw_cost :: real
  es_footprints :: "(string, int) dict"

record profile_row =
  pr_node_id :: string
  pr_raw_node_id :: string
  pr_query_name :: string
  pr_table :: string
  pr_cost_estimates :: "cost_estimate list"

datatype row_input = Parsed profile_row | Raw json

record halo_cost_params =
  hp_model_init :: real
  hp_llm_base :: real
  hp_llm_input :: real
  hp_db_input :: real

record halo_context =
  hc_input_query_count :: int
  hc_total_nodes :: nat
  hc_gpu_nodes :: nat
  hc_db_nodes :: nat
  hc_gpu_workers :: nat
  hc_cpu_workers :: nat
  hc_unique_models :: nat
  hc_switch_pressure :: real
  hc_model_size_b :: real
  hc_db_query_count :: nat
  hc_plan_min :: nat
  hc_plan_avg :: real
  hc_plan_max :: nat
  hc_reuse :: real

record halo_dp_tuning =
  ht_window_size :: int
  ht_cpu_load_cost_weight :: real
  ht_cpu_load_early_weight :: real
  ht_cpu_cost_mode :: string
  ht_switch_penalty_weight :: real
  ht_gpu_cost_max_weight :: real
  ht_gpu_cost_sum_weight :: real
  ht_disable_epoch_batch_cost :: bool
  ht_disable_cpu_load_cost :: bool
  ht_batch_shape_pruning :: bool
  ht_gpu_batch_slack :: int
  ht_lower_bound_pruning :: bool
  ht_worker_symmetry :: bool
  ht_lower_bound_cost_factor :: real
  ht_gpu_depth_cost_weight :: real

record halo_state =
  hs_params :: halo_cost_params
  hs_query_count :: int

record halo_env =
  he_float :: "string \<Rightarrow> real option"
  he_as_float :: "json \<Rightarrow> real option"
  he_row :: "json \<Rightarrow> profile_row option"
  he_disable_profile :: bool

definition halo_init :: halo_state where
  "halo_init = \<lparr>hs_params = \<lparr>hp_model_init = 3/4, hp_llm_base = 1/4, hp_llm_input = 15/100, hp_db_input = 5/100\<rparr>,
     hs_query_count = 1\<rparr>"

text \<open>The truth value of a JSON value.\<close>

definition truthy :: "json \<Rightarrow> bool" where
  "truthy v = (case v of JNull \<Rightarrow> False | JBool b \<Rightarrow> b | JInt i \<Rightarrow> i \<noteq> 0 | JFloat r \<Rightarrow> r \<noteq> 0
     | JStr s \<Rightarrow> s \<noteq> [] | JList vs \<Rightarrow> vs \<noteq> [] | JDict d \<Rightarrow> d \<noteq> [])"

definition profile_has_gpu :: "profile \<Rightarrow> bool" where
  "profile_has_gpu p = (case map_of p ''has_gpu'' of None \<Rightarrow> False | Some v \<Rightarrow> truthy v)"

definition worker_profile :: "(string, profile) dict \<Rightarrow> string \<Rightarrow> profile" where
  "worker_profile profiles w = dict_get profiles w []"

subsection \<open>Engines and the nodes HALO supports\<close>

definition is_gpu_backend :: "string \<Rightarrow> bool" where
  "is_gpu_backend b = (py_lower (py_strip b) \<in> set GPU_BACKENDS)"

definition map_engine :: "string \<Rightarrow> string \<Rightarrow> string result" where
  "map_engine backend task_type =
     (let b = py_lower (py_strip backend)
      in if is_gpu_backend b then Inr ''vllm''
         else if b = ''http'' then Inr ''http''
         else if b = ''api'' then Inr ''http''
         else if b = ''data_retrieval'' then Inr ''db''
         else if b = ''python'' then Inr ''python''
         else Inl (ValueError ''Halo optimizer does not support the backend''))"

definition assert_no_http_nodes :: "runtime_graph \<Rightarrow> unit result" where
  "assert_no_http_nodes g =
     (case map_result (lookup (rg_nodes g)) (rg_node_order g) of
        Inl e \<Rightarrow> Inl e
      | Inr ops \<Rightarrow>
          if \<exists>op \<in> set ops. py_lower (py_strip (op_backend op)) = ''http''
          then Inl (ValueError ''Halo optimizer does not support HTTP nodes by design.'') else Inr ())"

definition supported_op :: "runtime_op \<Rightarrow> bool" where
  "supported_op op =
     (case map_engine (op_backend op) (op_task_type op) of
        Inl e \<Rightarrow> False
      | Inr engine \<Rightarrow>
          engine = ''db'' \<longrightarrow> py_lower (py_strip (op_backend op)) = ''data_retrieval''
            \<and> py_lower (py_strip (op_task_type op)) = ''data_retrieval'')"

definition validate_supported_runtime_nodes :: "runtime_graph \<Rightarrow> unit result" where
  "validate_supported_runtime_nodes g =
     (case map_result (lookup (rg_nodes g)) (rg_node_order g) of
        Inl e \<Rightarrow> Inl e
      | Inr ops \<Rightarrow> if \<forall>op \<in> set ops. supported_op op then Inr () else Inl (ValueError ''unsupported runtime node''))"

definition validate_task_type_workers ::
  "runtime_graph \<Rightarrow> string list \<Rightarrow> (string, profile) dict \<Rightarrow> unit result" where
  "validate_task_type_workers g ws profiles =
     (let cpu = filter (\<lambda>w. \<not> profile_has_gpu (worker_profile profiles w)) ws;
          advertised = (\<Union>w \<in> set cpu. advertised_task_types (worker_profile profiles w))
      in if required_task_types (task_types_of g) \<subseteq> advertised then Inr ()
         else Inl (ValueError ''no selected CPU worker advertises the task type''))"

subsection \<open>Workers and the workers of a node\<close>

definition advertised_list :: "profile \<Rightarrow> string list" where
  "advertised_list p =
     (case map_of p ''supported_task_types'' of
        Some (JList vs) \<Rightarrow> concat (map (\<lambda>v. case v of JStr s \<Rightarrow> [s] | _ \<Rightarrow> []) vs)
      | _ \<Rightarrow> [])"

definition halo_worker_of :: "(string, profile) dict \<Rightarrow> string \<Rightarrow> halo_worker" where
  "halo_worker_of profiles w =
     (let p = worker_profile profiles w; gpu = profile_has_gpu p
      in \<lparr>wk_id = w, wk_kind = (if gpu then ''gpu'' else ''cpu''), wk_device = (if gpu then ''cuda:0'' else ''cpu''),
          wk_capacity = 1, wk_task_types = advertised_list p\<rparr>)"

definition build_workers ::
  "string list \<Rightarrow> (string, profile) dict \<Rightarrow> runtime_graph \<Rightarrow> (string, halo_worker) dict result" where
  "build_workers ws profiles g =
     (let workers = foldl (\<lambda>d w. AList.update w (halo_worker_of profiles w) d) [] ws
      in if (\<exists>op \<in> set (ops_of g). is_gpu_backend (op_backend op)) \<and> \<not> (\<exists>x \<in> set workers. wk_kind (snd x) = ''gpu'')
         then Inl (ValueError ''Halo DP requires at least one GPU worker'') else Inr workers)"

definition worker_ids_of :: "(string, halo_worker) dict \<Rightarrow> bool \<Rightarrow> string list" where
  "worker_ids_of workers gpu = map fst (filter (\<lambda>(w, wk). (wk_kind wk = ''gpu'') = gpu) workers)"

definition node_tier :: "(string, halo_worker) dict \<Rightarrow> halo_node \<Rightarrow> string list result" where
  "node_tier workers nd =
     (if nd_engine nd = Some ''vllm'' then Inr (worker_ids_of workers True)
      else if (nd_engine nd = Some ''db'' \<and> nd_type nd = ''data_retrieval'') \<or> nd_engine nd = Some ''http''
          \<or> nd_engine nd = Some ''python''
        then Inr (worker_ids_of workers False)
      else Inl (ValueError ''Unsupported node for Halo worker assignment''))"

definition gated_tier :: "(string, halo_worker) dict \<Rightarrow> halo_node \<Rightarrow> string list \<Rightarrow> string list" where
  "gated_tier workers nd tier =
     (if nd_type nd \<in> set CAPABILITY_GATED_TASK_TYPES
      then filter (\<lambda>w. case map_of workers w of None \<Rightarrow> False | Some wk \<Rightarrow> nd_type nd \<in> set (wk_task_types wk)) tier
      else tier)"

fun build_node_worker_options ::
  "(string, halo_worker) dict \<Rightarrow> (string, halo_node) dict \<Rightarrow> (string, string list) dict result" where
  "build_node_worker_options workers [] = Inr []"
| "build_node_worker_options workers ((n, nd) # nds) =
     (case node_tier workers nd of
        Inl e \<Rightarrow> Inl e
      | Inr tier \<Rightarrow>
          if gated_tier workers nd tier = [] then Inl (ValueError ''No compatible workers for node'')
          else (case build_node_worker_options workers nds of
                  Inl e \<Rightarrow> Inl e
                | Inr opts \<Rightarrow> Inr ((n, sort (gated_tier workers nd tier)) # opts)))"

subsection \<open>Plan choices from data profiles\<close>

definition retrieval_eligible :: "(string, json) dict \<Rightarrow> bool" where
  "retrieval_eligible spec =
     (case map_of spec ''type'' of
        Some (JStr t) \<Rightarrow>
          t = ''sql'' \<or> t = ''s3''
          \<or> t = ''lumid'' \<and> (map_of spec ''mode'' = Some (JStr ''sql'') \<or> map_of spec ''mode'' = Some (JStr ''s3''))
      | _ \<Rightarrow> False)"

definition is_data_profile_candidate :: "runtime_op \<Rightarrow> bool result" where
  "is_data_profile_candidate op =
     (case map_engine (op_backend op) (op_task_type op) of
        Inl e \<Rightarrow> Inl e
      | Inr engine \<Rightarrow> Inr (engine = ''db'' \<and> retrieval_eligible (op_data_spec op)))"

definition query_name_of :: "string \<Rightarrow> string" where
  "query_name_of n = n @ ''_query''"

definition data_profile_key :: "string \<Rightarrow> string \<Rightarrow> string" where
  "data_profile_key n q = ''data_profile::'' @ n @ ''::'' @ q"

definition coerce_footprints :: "(string, int) dict \<Rightarrow> (string, int) dict" where
  "coerce_footprints d = filter (\<lambda>(k, w). 0 < w) d"

definition plan_choice_score :: "query_plan_choice \<Rightarrow> bool \<times> real \<times> string" where
  "plan_choice_score c =
     (case qp_raw_cost c of None \<Rightarrow> (True, 0, qp_plan_id c) | Some r \<Rightarrow> (False, r, qp_plan_id c))"

definition choice_of_estimate :: "string \<Rightarrow> nat \<Rightarrow> cost_estimate \<Rightarrow> query_plan_choice" where
  "choice_of_estimate n idx e =
     \<lparr>qp_plan_id = or_default (Some (es_plan_id e)) (n @ ''-data-profile-'' @ nat_str idx),
      qp_description = or_default (es_description e) ''data profile'', qp_cost = None,
      qp_raw_cost = Some (es_raw_cost e), qp_footprints = coerce_footprints (es_footprints e)\<rparr>"

definition keep_cheaper :: "(string, query_plan_choice) dict \<Rightarrow> query_plan_choice \<Rightarrow> (string, query_plan_choice) dict" where
  "keep_cheaper d c =
     (case map_of d (qp_plan_id c) of
        None \<Rightarrow> AList.update (qp_plan_id c) c d
      | Some old \<Rightarrow> if plan_choice_score c < plan_choice_score old then AList.update (qp_plan_id c) c d else d)"

definition build_data_profile_choices :: "string \<Rightarrow> cost_estimate list \<Rightarrow> query_plan_choice list" where
  "build_data_profile_choices n es =
     sort_key plan_choice_score
       (map snd (foldl keep_cheaper [] (map (\<lambda>(idx, e). choice_of_estimate n idx e) (enumerate 0 es))))"

definition extract_choices :: "string \<Rightarrow> runtime_op \<Rightarrow> (string, profile_row list) dict \<Rightarrow> query_plan_choice list" where
  "extract_choices n op rows =
     (if \<not> retrieval_eligible (op_data_spec op) then []
      else
        let es = concat (map pr_cost_estimates (dict_get rows (data_profile_key n (query_name_of n)) []))
        in if es = [] then [] else build_data_profile_choices n es)"

fun build_plan_choices ::
  "(string, runtime_op) dict \<Rightarrow> (string, profile_row list) dict \<Rightarrow> string list
    \<Rightarrow> (string \<times> string, query_plan_choice list) dict \<Rightarrow> (string \<times> string, query_plan_choice list) dict result" where
  "build_plan_choices nodes rows [] acc = Inr acc"
| "build_plan_choices nodes rows (n # ns) acc =
     (case lookup nodes n of
        Inl e \<Rightarrow> Inl e
      | Inr op \<Rightarrow>
          (case is_data_profile_candidate op of
             Inl e \<Rightarrow> Inl e
           | Inr cand \<Rightarrow>
               (let cs = extract_choices n op rows
                in build_plan_choices nodes rows ns
                     (if cand \<and> cs \<noteq> [] then AList.update (n, query_name_of n) cs acc else acc))))"

text \<open>\<open>Inl\<close> is a row that fails validation.\<close>

definition parse_row :: "halo_env \<Rightarrow> row_input \<Rightarrow> profile_row result" where
  "parse_row env r =
     (case r of Parsed p \<Rightarrow> Inr p
      | Raw j \<Rightarrow> (case he_row env j of None \<Rightarrow> Inl (RuntimeError ''Invalid data profile result row'') | Some p \<Rightarrow> Inr p))"

fun parse_data_profile_results ::
  "halo_env \<Rightarrow> (string, row_input list) dict \<Rightarrow> (string, profile_row list) dict result" where
  "parse_data_profile_results env [] = Inr []"
| "parse_data_profile_results env ((key, rows) # rest) =
     (case map_result (parse_row env) rows of
        Inl e \<Rightarrow> Inl e
      | Inr ps \<Rightarrow>
          (case parse_data_profile_results env rest of
             Inl e \<Rightarrow> Inl e
           | Inr parsed \<Rightarrow> Inr (if ps = [] then parsed else (key, ps) # parsed)))"

end
