(* ===== verification/Halo_Tuning.thy ===== *)
theory Halo_Tuning
  imports Halo_Optimizer
begin

section \<open>The HALO optimizer: tuning and cost functions\<close>

text \<open>
  \<open>HaloOptimizer\<close> continued: the size of a model, the context its automatic tuning reads from a graph,
  the tuned cost parameters and solver options, and the cost functions it passes to the DP solver.
\<close>

subsection \<open>Model sizes\<close>

definition MODEL_SIZE :: "(string, real) dict" where
  "MODEL_SIZE = [(''stabilityai/stable-diffusion-xl-base-1.0'', 35/10), (''stabilityai/stable-diffusion-3.5-medium'', 25/10),
     (''stabilityai/stable-diffusion-3.5-large'', 81/10), (''meta-llama/Llama-3.2-3B-Instruct'', 3),
     (''Tongyi-MAI/Z-Image-Turbo'', 6), (''BAAI/bge-small-en-v1.5'', 33/1000)]"

text \<open>
  The regular expression \<open>.+-(\d+(?:\.\d+)?)(?:[\s_-]?)(billion|bn|b|m).*\<close>, case-insensitive. What follows
  a dash: digits, a fraction, one separator and the first letter of the unit; as in \<open>match_size\<close>,
  backtracking into the digits finds nothing more. \<open>.+\<close> is greedy and stays on its line, so the last
  dash of the first line with a match wins.
\<close>

definition suffix_size :: "string \<Rightarrow> (real \<times> bool) option" where
  "suffix_size s =
     (let whole = takeWhile is_digit s; rest = dropWhile is_digit s;
          fr = (if rest \<noteq> [] \<and> hd rest = CHR ''.'' then takeWhile is_digit (tl rest) else []);
          rest2 = (if fr = [] then rest else drop (Suc (length fr)) rest);
          rest3 = (if rest2 \<noteq> [] \<and> (is_space (hd rest2) \<or> hd rest2 = CHR ''_'' \<or> hd rest2 = CHR ''-'') then tl rest2 else rest2)
      in if whole = [] \<or> rest3 = [] then None
         else if lower_char (hd rest3) = CHR ''b'' then Some (decimal whole fr, False)
         else if lower_char (hd rest3) = CHR ''m'' then Some (decimal whole fr, True) else None)"

fun dash_scan :: "bool \<Rightarrow> (real \<times> bool) option \<Rightarrow> string \<Rightarrow> (real \<times> bool) option" where
  "dash_scan prev best [] = best"
| "dash_scan prev best (c # cs) =
     (if char_code c = 10 then (case best of Some r \<Rightarrow> Some r | None \<Rightarrow> dash_scan False None cs)
      else if c = CHR ''-'' \<and> prev
        then dash_scan True (case suffix_size cs of None \<Rightarrow> best | Some r \<Rightarrow> Some r) cs
      else dash_scan True best cs)"

definition halo_model_size_b :: "halo_node \<Rightarrow> real result" where
  "halo_model_size_b nd =
     (let s = py_strip (or_default (nd_model nd) [])
      in if s = [] then Inl (ValueError ''Halo model size resolution requires a non-empty model name.'')
         else case map_of (map (\<lambda>(k, v). (py_lower k, v)) MODEL_SIZE) (py_lower s) of
             Some v \<Rightarrow> Inr v
           | None \<Rightarrow>
               (case dash_scan False None s of
                  Some (raw, milli) \<Rightarrow> Inr (if milli then raw / 1000 else raw)
                | None \<Rightarrow> Inl (ValueError ''Halo model size is unknown'')))"

subsection \<open>The tuning context\<close>

fun collect_input_lengths :: "json \<Rightarrow> nat list" where
  "collect_input_lengths (JDict d) =
     (case (map_of d ''type'', map_of d ''items'') of
        (Some (JStr t), Some (JList vs)) \<Rightarrow> if t = ''list'' then [length vs] else []
      | _ \<Rightarrow> [])
     @ concat (map (\<lambda>(k, v). collect_input_lengths v) d)"
| "collect_input_lengths (JList vs) = concat (map collect_input_lengths vs)"
| "collect_input_lengths v = []"

definition resolve_input_query_count :: "runtime_graph \<Rightarrow> int" where
  "resolve_input_query_count g =
     (let inferred = foldl max 0 (concat (map (\<lambda>op. collect_input_lengths (JDict (op_data_spec op))) (ops_of g)))
      in if 0 < inferred then int inferred else 1)"

definition footprint_overlap :: "(string, int) dict \<Rightarrow> (string, int) dict \<Rightarrow> real" where
  "footprint_overlap l r =
     (let keys = remdups (map fst l @ map fst r);
          overlap = sum_list (map (\<lambda>k. real_of_int (min (dict_get l k 0) (dict_get r k 0))) keys);
          t = sum_list (map (\<lambda>k. real_of_int (max (dict_get l k 0) (dict_get r k 0))) keys)
      in if l = [] \<or> r = [] \<or> t \<le> 0 then 0 else max 0 (min 1 (overlap / t)))"

fun max_pair_overlap :: "query_plan_choice list \<Rightarrow> real" where
  "max_pair_overlap [] = 0"
| "max_pair_overlap (c # cs) =
     foldl max (max_pair_overlap cs) (map (\<lambda>d. footprint_overlap (qp_footprints c) (qp_footprints d)) cs)"

definition mean :: "real list \<Rightarrow> real" where
  "mean xs = (if xs = [] then 0 else sum_list xs / real (length xs))"

definition data_profile_reuse_signal :: "(string \<times> string, query_plan_choice list) dict \<Rightarrow> real" where
  "data_profile_reuse_signal pcs = mean (filter (\<lambda>x. 0 < x) (map (\<lambda>(k, cs). max_pair_overlap cs) pcs))"

definition build_tuning_context ::
  "graph_spec \<Rightarrow> (string, halo_worker) dict \<Rightarrow> (string \<times> string, query_plan_choice list) dict \<Rightarrow> int
    \<Rightarrow> halo_context result" where
  "build_tuning_context g workers pcs qc =
     (let nodes = map snd (gs_nodes g);
          gpu = filter (\<lambda>nd. nd_engine nd = Some ''vllm'') nodes;
          gw = length (worker_ids_of workers True); cw = max 1 (length (worker_ids_of workers False));
          names = remdups (map py_strip (filter (\<lambda>m. m \<noteq> []) (map (\<lambda>nd. or_default (nd_model nd) []) gpu)));
          sizes = map (\<lambda>(k, cs). length cs) pcs
      in case map_result halo_model_size_b gpu of
           Inl e \<Rightarrow> Inl e
         | Inr ms \<Rightarrow> Inr
             \<lparr>hc_input_query_count = max 1 qc, hc_total_nodes = length nodes, hc_gpu_nodes = length gpu,
              hc_db_nodes = length nodes - length gpu, hc_gpu_workers = max 1 gw, hc_cpu_workers = max 1 cw,
              hc_unique_models = length names,
              hc_switch_pressure = real (length names) / real (max 1 (min (length gpu) gw)),
              hc_model_size_b = (if ms = [] then 20 else mean ms), hc_db_query_count = length pcs,
              hc_plan_min = (case sizes of [] \<Rightarrow> 0 | x # xs \<Rightarrow> foldl min x xs), hc_plan_avg = mean (map real sizes),
              hc_plan_max = foldl max 0 sizes, hc_reuse = data_profile_reuse_signal pcs\<rparr>)"

subsection \<open>Tuned parameters\<close>

definition clamp :: "real \<Rightarrow> real \<Rightarrow> real \<Rightarrow> real" where
  "clamp v low high = max low (min high v)"

definition db_ratio :: "halo_context \<Rightarrow> real" where
  "db_ratio c = real (hc_db_nodes c) / max 1 (real (hc_total_nodes c))"

definition resolve_cost_model_params :: "halo_context \<Rightarrow> halo_cost_params" where
  "resolve_cost_model_params c =
     (let gpu_scale = sqrt (3 / max 1 (real (hc_gpu_workers c)));
          model_scale = clamp (hc_model_size_b c / 20) (6/10) 2;
          query_scale = clamp (log 2 (real_of_int (hc_input_query_count c) + 1)) 0 6;
          query_extra = max 0 (query_scale - 1);
          switch_extra = max 0 (hc_switch_pressure c - 1)
      in \<lparr>hp_model_init = clamp (25/10 * model_scale * (1 + 35/100 * switch_extra) * gpu_scale) (15/10) 5,
          hp_llm_base = clamp (25/100 * model_scale * gpu_scale) (10/100) (80/100),
          hp_llm_input = clamp (15/100 * (1 + 8/100 * query_extra)) (10/100) (35/100),
          hp_db_input = clamp (5/100 * (1 + 12/10 * db_ratio c + 5/100 * query_extra)) (3/100) (30/100)\<rparr>)"

definition resolve_dp_tuning :: "halo_context \<Rightarrow> halo_dp_tuning" where
  "resolve_dp_tuning c =
     (let reuse_strong = (25/100 \<le> hc_reuse c \<and> 13/10 < hc_plan_avg c); one = (hc_gpu_workers c \<le> 1);
          large = (32 < hc_total_nodes c)
      in \<lparr>ht_window_size = (if reuse_strong then 2 else 1),
          ht_cpu_load_cost_weight = clamp (35/100 + 90/100 * db_ratio c) (25/100) (125/100),
          ht_cpu_load_early_weight = clamp (8/10 + 16/10 * db_ratio c) (5/10) (25/10),
          ht_cpu_cost_mode = ''default'',
          ht_switch_penalty_weight = clamp (8/100 + 20/100 * max 0 (hc_switch_pressure c - 1)) (5/100) (30/100),
          ht_gpu_cost_max_weight = (if one then 1 else 93/100), ht_gpu_cost_sum_weight = (if one then 0 else 7/100),
          ht_disable_epoch_batch_cost = False, ht_disable_cpu_load_cost = False, ht_batch_shape_pruning = True,
          ht_gpu_batch_slack = (if large then 0 else 1), ht_lower_bound_pruning = True, ht_worker_symmetry = True,
          ht_lower_bound_cost_factor = (if large then 25/100 else 20/100),
          ht_gpu_depth_cost_weight = clamp (5/10 + 1 * max 0 (db_ratio c - 3/10)) (5/10) (16/10)\<rparr>)"

subsection \<open>Cost functions\<close>

text \<open>\<open>isinstance(v, (int, float))\<close>; a Boolean is an int unless it is excluded.\<close>

definition json_number :: "bool \<Rightarrow> json \<Rightarrow> real option" where
  "json_number allow_bool v =
     (case v of JInt i \<Rightarrow> Some (of_int i) | JFloat r \<Rightarrow> Some r
      | JBool b \<Rightarrow> if allow_bool then Some (if b then 1 else 0) else None | _ \<Rightarrow> None)"

definition plan_entry_count :: "int \<Rightarrow> json \<Rightarrow> int result" where
  "plan_entry_count qc entry =
     (case entry of
        JDict d \<Rightarrow>
          (case map_of d ''kind'' of
             None \<Rightarrow> Inl (KeyError ''kind'')
           | Some k \<Rightarrow>
               if k \<noteq> JStr ''literal'' then Inr qc
               else (case map_of d ''values'' of
                       None \<Rightarrow> Inl (KeyError ''values'')
                     | Some (JList vs) \<Rightarrow> Inr (int (length vs))
                     | Some (JDict vs) \<Rightarrow> Inr (int (length vs))
                     | Some (JStr s) \<Rightarrow> Inr (int (length s))
                     | Some _ \<Rightarrow> Inl (ValueError ''object has no len()'')))
      | _ \<Rightarrow> Inl (ValueError ''entry is not subscriptable by kind''))"

definition python_row_count :: "int \<Rightarrow> (string, json) dict \<Rightarrow> int result" where
  "python_row_count qc raw =
     (case map_of raw ''row_count'' of
        Some (JInt i) \<Rightarrow> Inr i
      | _ \<Rightarrow>
          (case map_of raw ''plan'' of
             Some (JList es) \<Rightarrow>
               (case map_result (plan_entry_count qc) es of Inl e \<Rightarrow> Inl e | Inr cs \<Rightarrow> Inr (foldl max 1 cs))
           | _ \<Rightarrow> Inr (max 1 qc)))"

definition DEFAULT_TIMEOUT_SECONDS :: real where
  "DEFAULT_TIMEOUT_SECONDS = 600"

definition python_exec_cost :: "int \<Rightarrow> halo_node \<Rightarrow> real result" where
  "python_exec_cost qc nd =
     (case Option.bind (map_of (nd_raw nd) ''expected_runtime_s'') (json_number False) of
        Some x \<Rightarrow> (case python_row_count qc (nd_raw nd) of Inl e \<Rightarrow> Inl e | Inr k \<Rightarrow> Inr (x * of_int k))
      | None \<Rightarrow>
          Inr (5/100 * (case Option.bind (map_of (nd_raw nd) ''timeout_s'') (json_number True) of
                          Some x \<Rightarrow> x | None \<Rightarrow> DEFAULT_TIMEOUT_SECONDS)))"

definition halo_coefficients :: "halo_cost_params \<Rightarrow> multimodal_cost_coefficients" where
  "halo_coefficients p = \<lparr>alpha_text = hp_llm_base p, beta_text = hp_llm_input p, alpha_embed = 10/100, beta_embed = 8/100,
     alpha_vlm = 30/100, beta_vlm = 25/100, alpha_diff = 20/100, beta_diff = 5/100\<rparr>"

definition halo_exec_cost :: "halo_env \<Rightarrow> halo_state \<Rightarrow> halo_node \<Rightarrow> halo_worker \<Rightarrow> real result" where
  "halo_exec_cost env st nd wk =
     (if nd_engine nd = Some ''vllm'' then
        (case halo_model_size_b nd of
           Inl e \<Rightarrow> Inl e
         | Inr size_b \<Rightarrow>
             compute_gpu_exec_cost (he_as_float env) nd size_b (hs_query_count st) (halo_coefficients (hs_params st)))
      else if nd_engine nd = Some ''http'' then Inr (raw_sleep (he_float env) (nd_raw nd) sleep_keys)
      else if nd_engine nd = Some ''python'' then python_exec_cost (hs_query_count st) nd
      else Inr (hp_db_input (hs_params st) * of_int (hs_query_count st)))"

definition cache_multiplier :: "query_signature list \<Rightarrow> query_plan_choice \<Rightarrow> real" where
  "cache_multiplier w c =
     (let overlap = sum_list (map (\<lambda>sig. sum_list (map (\<lambda>(k, x).
            case map_of (qp_footprints c) k of None \<Rightarrow> 0 | Some y \<Rightarrow> real_of_int (min x y)) (qs_footprints sig))) w)
      in if qp_footprints c = [] \<or> w = [] \<or> overlap \<le> 0 then 1 else max (1/2) (1 - 1/100 * overlap))"

text \<open>
  The model size is known here: \<open>execute_node\<close> asks for the execution cost of the same node first,
  which raises when it is not.
\<close>

definition halo_model_init_cost :: "halo_state \<Rightarrow> halo_node \<Rightarrow> string option \<Rightarrow> real" where
  "halo_model_init_cost st nd prev =
     (if nd_engine nd \<noteq> Some ''vllm'' \<or> prev = Some (or_default (nd_model nd) []) then 0
      else case halo_model_size_b nd of Inl e \<Rightarrow> 0 | Inr s \<Rightarrow> hp_model_init (hs_params st) * s)"

definition llm_cache_bonus :: "halo_node \<Rightarrow> string option \<Rightarrow> string list \<Rightarrow> real" where
  "llm_cache_bonus nd prev parents =
     (case prev of None \<Rightarrow> 1 | Some l \<Rightarrow> if parents = [] \<or> l = [] then 1 else if l \<in> set parents then 9/10 else 1)"

definition epoch_penalty :: "nat \<Rightarrow> real" where
  "epoch_penalty ep = 1 * (1 + 1/10 * real ep)"

end
