(* ===== verification/Halo_Schedule.thy ===== *)
theory Halo_Schedule
  imports Halo_Tuning
begin

section \<open>The HALO optimizer: generating a schedule\<close>

text \<open>
  \<open>HaloOptimizer.generate_schedule\<close>: the checks, the translation of the runtime graph, the tuned DP
  solver, the grouping of its solution by worker and the final check of the schedule. The result is
  \<open>None\<close> when the search runs out of fuel, which never happens (\<open>Halo_Props\<close>); the second component is
  the optimizer's state after the call.
\<close>

type_synonym schedule = "(string, string list) dict"

subsection \<open>From runtime operations to solver nodes\<close>

definition build_node_raw :: "runtime_op \<Rightarrow> (string, json) dict" where
  "build_node_raw op =
     (let raw = (if op_inference_spec op \<noteq> []
                 then AList.update ''_inference_spec'' (JDict (op_inference_spec op)) (op_data_spec op)
                 else op_data_spec op)
      in case op_dependencies op of
           [] \<Rightarrow> raw
         | d # _ \<Rightarrow> if map_of raw ''parent'' = None then raw @ [(''parent'', JStr d)] else raw)"

definition db_queries_of :: "string \<Rightarrow> runtime_op \<Rightarrow> string \<Rightarrow> db_query list" where
  "db_queries_of n op engine =
     (if engine \<noteq> ''db'' then []
      else [\<lparr>dq_name = query_name_of n,
             dq_sql = (case map_of (op_data_spec op) ''template'' of Some (JStr s) \<Rightarrow> s | _ \<Rightarrow> []),
             dq_parameters = [], dq_post_llm = False, dq_result_mappings = [], dq_required_inputs = [], dq_param_types = []\<rparr>])"

definition halo_node_of :: "string \<Rightarrow> runtime_op \<Rightarrow> halo_node result" where
  "halo_node_of n op =
     (case map_engine (op_backend op) (op_task_type op) of
        Inl e \<Rightarrow> Inl e
      | Inr engine \<Rightarrow> Inr
          \<lparr>nd_id = n, nd_type = op_task_type op, nd_engine = Some engine, nd_model = Some (op_model op),
           nd_system_prompt = None, nd_inputs = op_dependencies op, nd_outputs = [],
           nd_db_queries = db_queries_of n op engine, nd_raw = build_node_raw op\<rparr>)"

definition halo_entry :: "runtime_graph \<Rightarrow> string \<Rightarrow> (string \<times> halo_node \<times> string list) result" where
  "halo_entry g n =
     (case lookup (rg_nodes g) n of
        Inl e \<Rightarrow> Inl e
      | Inr op \<Rightarrow> (case halo_node_of n op of Inl e \<Rightarrow> Inl e | Inr nd \<Rightarrow> Inr (n, nd, op_dependencies op)))"

definition halo_graph :: "runtime_graph \<Rightarrow> (graph_spec \<times> (string, string list) dict) result" where
  "halo_graph g =
     (case map_result (halo_entry g) (rg_node_order g) of
        Inl e \<Rightarrow> Inl e
      | Inr es \<Rightarrow> Inr
          (\<lparr>gs_name = ''lumilake_runtime'', gs_description = ''Runtime graph for Halo DP optimizer'',
            gs_nodes = foldl (\<lambda>d (n, nd, deps). AList.update n nd d) [] es,
            gs_edges = concat (map (\<lambda>(n, nd, deps). map (\<lambda>dep. \<lparr>ed_source = dep, ed_target = n, ed_mapping = []\<rparr>) deps) es)\<rparr>,
           foldl (\<lambda>d (n, nd, deps). AList.update n deps d) [] es))"

subsection \<open>The solver\<close>

definition halo_dp_args :: "runtime_graph \<Rightarrow> (string, halo_worker) dict \<Rightarrow> halo_dp_tuning \<Rightarrow> dp_args" where
  "halo_dp_args g workers t =
     (let cpu = worker_ids_of workers False
      in \<lparr>da_node_ids = Some (rg_node_order g), da_gpu_workers = Some (worker_ids_of workers True),
          da_cpu_workers = Some (if cpu = [] then map fst workers else cpu),
          da_cpu_weight = Some (ht_cpu_load_cost_weight t), da_cpu_early = Some (ht_cpu_load_early_weight t),
          da_cpu_mode = Some (ht_cpu_cost_mode t), da_max_weight = Some (ht_gpu_cost_max_weight t),
          da_sum_weight = Some (ht_gpu_cost_sum_weight t), da_slack = ht_gpu_batch_slack t,
          da_bound_factor = ht_lower_bound_cost_factor t, da_depth_weight = Some (ht_gpu_depth_cost_weight t)\<rparr>)"

text \<open>The arguments \<open>make_solver\<close> stores as they are; the others are its to fill.\<close>

definition halo_dp_raw ::
  "halo_env \<Rightarrow> halo_state \<Rightarrow> graph_spec \<Rightarrow> (string, string list) dict \<Rightarrow> (string, halo_worker) dict
    \<Rightarrow> (string \<times> string, query_plan_choice list) dict \<Rightarrow> (string, string list) dict \<Rightarrow> halo_dp_tuning \<Rightarrow> dp_config" where
  "halo_dp_raw env st spec deps workers pcs opts t =
     \<lparr>dp_graph = spec, dp_deps = deps, dp_workers = workers, dp_worker_ids = map fst workers, dp_plans = pcs,
      dp_window = ht_window_size t, dp_exec = halo_exec_cost env st, dp_cache_mult = cache_multiplier,
      dp_model_init = halo_model_init_cost st, dp_bonus = llm_cache_bonus, dp_as_float = he_float env,
      dp_node_ids = [], dp_options = opts, dp_gpu_workers = [], dp_cpu_workers = [], dp_http = [],
      dp_epoch_penalty = epoch_penalty, dp_cpu_weight = 0, dp_cpu_early = 0,
      dp_no_epoch_cost = ht_disable_epoch_batch_cost t, dp_no_cpu_load = ht_disable_cpu_load_cost t, dp_naive = False,
      dp_max_weight = 0, dp_sum_weight = 0, dp_prune = ht_batch_shape_pruning t, dp_slack = 0,
      dp_bound = ht_lower_bound_pruning t, dp_symmetry = ht_worker_symmetry t, dp_bound_factor = 0,
      dp_depth_weight = 0, dp_min_cost = []\<rparr>"

definition halo_solver ::
  "halo_env \<Rightarrow> halo_state \<Rightarrow> runtime_graph \<Rightarrow> (string, halo_worker) dict
    \<Rightarrow> (string \<times> string, query_plan_choice list) dict \<Rightarrow> graph_spec \<times> (string, string list) dict
    \<Rightarrow> (string, string list) dict \<Rightarrow> halo_dp_tuning \<Rightarrow> dp_config result" where
  "halo_solver env st g workers pcs sd opts t =
     make_solver (halo_dp_args g workers t) (halo_dp_raw env st (fst sd) (snd sd) workers pcs opts t)"

definition halo_initial_states :: "(string, halo_worker) dict \<Rightarrow> worker_state list" where
  "halo_initial_states workers = map (\<lambda>i. \<lparr>ws_worker = i, ws_model = -1, ws_node = -1\<rparr>) [0..<length workers]"

subsection \<open>From the solution to the schedule\<close>

text \<open>\<open>{worker: [] for worker in ws}\<close>.\<close>

definition empty_schedule :: "string list \<Rightarrow> schedule" where
  "empty_schedule ws = foldl (\<lambda>d w. AList.update w [] d) [] ws"

definition schedule_key :: "string list \<Rightarrow> nat \<times> string \<times> string \<Rightarrow> nat \<times> nat \<times> string" where
  "schedule_key order item =
     (case item of (e, w, n) \<Rightarrow> (e, case last_index order n of None \<Rightarrow> 10 ^ 9 | Some i \<Rightarrow> i, w))"

definition group_schedule_by_worker :: "dp_schedule \<Rightarrow> string list \<Rightarrow> string list \<Rightarrow> schedule" where
  "group_schedule_by_worker sched worker_ids order =
     foldl (\<lambda>d (e, w, n). push_group w n d) (empty_schedule worker_ids) (sort_key (schedule_key order) sched)"

definition halo_validate_schedule :: "schedule \<Rightarrow> runtime_graph \<Rightarrow> string list \<Rightarrow> unit result" where
  "halo_validate_schedule s g worker_ids =
     (let flattened = concat (map (\<lambda>w. dict_get s w []) worker_ids)
      in if fst ` set s \<noteq> set worker_ids then Inl (ValueError ''Halo schedule worker mismatch.'')
         else if \<not> distinct flattened then Inl (ValueError ''Halo schedule has duplicate nodes'')
         else if set flattened \<noteq> fst ` set (rg_nodes g) then Inl (ValueError ''Halo schedule mismatch.'')
         else Inr ())"

subsection \<open>generate\_schedule\<close>

definition halo_failed :: "'a result" where
  "halo_failed = Inl (RuntimeError ''Halo optimizer failed to generate schedule'')"

text \<open>The body of the \<open>try\<close>, after which every exception becomes one \<open>RuntimeError\<close>.\<close>

definition halo_solve ::
  "halo_env \<Rightarrow> halo_state \<Rightarrow> runtime_graph \<Rightarrow> string list \<Rightarrow> (string, profile) dict \<Rightarrow> (string, profile_row list) dict
    \<Rightarrow> schedule result option \<times> halo_state" where
  "halo_solve env st g ws profiles rows =
     (case halo_graph g of
        Inl e \<Rightarrow> (Some halo_failed, st)
      | Inr sd \<Rightarrow>
     (case build_workers ws profiles g of
        Inl e \<Rightarrow> (Some halo_failed, st)
      | Inr workers \<Rightarrow>
     (case build_node_worker_options workers (gs_nodes (fst sd)) of
        Inl e \<Rightarrow> (Some halo_failed, st)
      | Inr opts \<Rightarrow>
     (case build_plan_choices (rg_nodes g) rows (rg_node_order g) [] of
        Inl e \<Rightarrow> (Some halo_failed, st)
      | Inr pcs \<Rightarrow>
     (case build_tuning_context (fst sd) workers pcs (hs_query_count st) of
        Inl e \<Rightarrow> (Some halo_failed, st)
      | Inr ctx \<Rightarrow>
          (let st' = st\<lparr>hs_params := resolve_cost_model_params ctx\<rparr>
           in case halo_solver env st' g workers pcs sd opts (resolve_dp_tuning ctx) of
                Inl e \<Rightarrow> (Some halo_failed, st')
              | Inr dp \<Rightarrow>
                  (case dp_solve dp (Some (halo_initial_states workers)) of
                     None \<Rightarrow> (None, st')
                   | Some (Inl e) \<Rightarrow> (Some halo_failed, st')
                   | Some (Inr (cost, sched, plans)) \<Rightarrow>
                       (let s = group_schedule_by_worker sched (map fst workers) (rg_node_order g)
                        in case halo_validate_schedule s g (map fst workers) of
                             Inl e \<Rightarrow> (Some halo_failed, st')
                           | Inr _ \<Rightarrow> (Some (Inr s), st')))))))))"

definition halo_workers_input :: "string list \<Rightarrow> string list" where
  "halo_workers_input names = filter (\<lambda>w. w \<noteq> []) (map py_strip names)"

definition halo_checks :: "runtime_graph \<Rightarrow> string list \<Rightarrow> (string, profile) dict \<Rightarrow> unit result" where
  "halo_checks g ws profiles =
     (case assert_no_http_nodes g of
        Inl e \<Rightarrow> Inl e
      | Inr _ \<Rightarrow>
          (case validate_supported_runtime_nodes g of
             Inl e \<Rightarrow> Inl e
           | Inr _ \<Rightarrow> validate_task_type_workers g ws profiles))"

definition halo_generate_schedule ::
  "halo_env \<Rightarrow> halo_state \<Rightarrow> runtime_graph \<Rightarrow> string list \<Rightarrow> (string, profile) dict \<Rightarrow> (string, row_input list) dict
    \<Rightarrow> schedule result option \<times> halo_state" where
  "halo_generate_schedule env st g names profiles results =
     (let ws = halo_workers_input names
      in if ws = [] then (Some (Inl (ValueError ''HaloOptimizer requires at least one worker'')), st)
         else if rg_nodes g = [] then (Some (Inr (empty_schedule ws)), st)
         else
           (case halo_checks g ws profiles of
              Inl e \<Rightarrow> (Some (Inl e), st)
            | Inr _ \<Rightarrow>
                (let st' = st\<lparr>hs_query_count := resolve_input_query_count g\<rparr>
                 in case (if he_disable_profile env then Inr [] else parse_data_profile_results env results) of
                      Inl e \<Rightarrow> (Some (Inl e), st')
                    | Inr rows \<Rightarrow> halo_solve env st' g ws profiles rows)))"

end
