(* ===== verification/Halo_Bounds.thy ===== *)
theory Halo_Bounds
  imports Halo_Schedule
begin

section \<open>The HALO optimizer: bounds of the tuned parameters\<close>

text \<open>
  What the automatic tuning reads from a graph is consistent, whatever the plan choices are, and the
  parameters it derives stay in the ranges the code clamps them to, so the costs the solver compares are
  positive.
\<close>

lemma clamp_bounds: "low \<le> clamp v low high" "low \<le> high \<Longrightarrow> clamp v low high \<le> high"
  by (simp_all add: clamp_def)

lemma foldl_max_ge:
  fixes m :: "'a::linorder"
  shows "m \<le> foldl max m xs" "x \<in> set xs \<Longrightarrow> x \<le> foldl max m xs"
proof -
  have ge: "m \<le> foldl max m xs" for m :: 'a and xs
    by (induction xs arbitrary: m) (simp_all, metis max.cobounded1 order_trans)
  then show "m \<le> foldl max m xs" .
  show "x \<in> set xs \<Longrightarrow> x \<le> foldl max m xs"
  proof (induction xs arbitrary: m)
    case (Cons y ys)
    have "max m y \<le> foldl max (max m y) ys" by (rule ge)
    then show ?case using Cons by auto
  qed simp
qed

lemma foldl_max_le: "(m::'a::linorder) \<le> b \<Longrightarrow> \<forall>x \<in> set xs. x \<le> b \<Longrightarrow> foldl max m xs \<le> b"
  by (induction xs arbitrary: m) auto

lemma foldl_min_le:
  fixes m :: "'a::linorder"
  shows "foldl min m xs \<le> m" "x \<in> set xs \<Longrightarrow> foldl min m xs \<le> x"
proof -
  have le: "foldl min m xs \<le> m" for m :: 'a and xs
    by (induction xs arbitrary: m) (simp_all, metis min.cobounded1 order_trans)
  then show "foldl min m xs \<le> m" .
  show "x \<in> set xs \<Longrightarrow> foldl min m xs \<le> x"
  proof (induction xs arbitrary: m)
    case (Cons y ys)
    have "foldl min (min m y) ys \<le> min m y" by (rule le)
    then show ?case using Cons by auto
  qed simp
qed

lemma mean_bounds:
  assumes "xs \<noteq> []" "\<forall>x \<in> set xs. a \<le> x \<and> x \<le> b"
  shows "a \<le> mean xs" "mean xs \<le> b"
proof -
  have "real (length xs) * a \<le> sum_list xs \<and> sum_list xs \<le> real (length xs) * b"
    using assms(2) by (induction xs) (auto simp: algebra_simps)
  then show "a \<le> mean xs" "mean xs \<le> b" using assms(1) by (simp_all add: mean_def field_simps)
qed

lemma footprint_overlap_bounds: "0 \<le> footprint_overlap l r \<and> footprint_overlap l r \<le> 1"
  by (simp add: footprint_overlap_def Let_def)

lemma max_pair_overlap_bounds: "0 \<le> max_pair_overlap cs \<and> max_pair_overlap cs \<le> 1"
proof (induction cs)
  case (Cons c cs)
  let ?xs = "map (\<lambda>d. footprint_overlap (qp_footprints c) (qp_footprints d)) cs"
  have "max_pair_overlap cs \<le> foldl max (max_pair_overlap cs) ?xs" by (rule foldl_max_ge(1))
  moreover have "foldl max (max_pair_overlap cs) ?xs \<le> 1"
    using Cons footprint_overlap_bounds by (intro foldl_max_le) auto
  ultimately show ?case using Cons by simp
qed simp

lemma reuse_bounds: "0 \<le> data_profile_reuse_signal pcs \<and> data_profile_reuse_signal pcs \<le> 1"
proof -
  let ?xs = "filter (\<lambda>x. 0 < x) (map (\<lambda>(k, cs). max_pair_overlap cs) pcs)"
  have b: "\<forall>x \<in> set ?xs. 0 \<le> x \<and> x \<le> 1" using max_pair_overlap_bounds by auto
  show ?thesis
  proof (cases "?xs = []")
    case True
    then show ?thesis unfolding data_profile_reuse_signal_def True by (simp add: mean_def)
  next
    case False
    from mean_bounds[OF False b] show ?thesis unfolding data_profile_reuse_signal_def by blast
  qed
qed

lemma plan_sizes_bounds:
  fixes pcs :: "('k \<times> 'v list) list"
  defines "sizes \<equiv> map (\<lambda>(k, cs). length cs) pcs"
  shows "real (case sizes of [] \<Rightarrow> 0 | x # xs \<Rightarrow> foldl min x xs) \<le> mean (map real sizes) \<and> mean (map real sizes) \<le> real (foldl max 0 sizes)"
proof (cases sizes)
  case (Cons x xs)
  have "foldl min x xs \<le> y" if "y \<in> set sizes" for y using that Cons foldl_min_le by auto
  moreover have "y \<le> foldl max 0 sizes" if "y \<in> set sizes" for y by (rule foldl_max_ge(2)[OF that])
  ultimately show ?thesis using mean_bounds[of "map real sizes" "real (foldl min x xs)" "real (foldl max 0 sizes)"] Cons by auto
qed (simp add: mean_def)

definition context_ok :: "halo_context \<Rightarrow> bool" where
  "context_ok c \<longleftrightarrow> hc_gpu_nodes c + hc_db_nodes c = hc_total_nodes c \<and> hc_unique_models c \<le> hc_gpu_nodes c
   \<and> 1 \<le> hc_gpu_workers c \<and> 1 \<le> hc_cpu_workers c \<and> 1 \<le> hc_input_query_count c
   \<and> 0 \<le> hc_reuse c \<and> hc_reuse c \<le> 1
   \<and> real (hc_plan_min c) \<le> hc_plan_avg c \<and> hc_plan_avg c \<le> real (hc_plan_max c)"

lemma build_tuning_context_ok: "build_tuning_context g workers pcs qc = Inr c \<Longrightarrow> context_ok c"
proof -
  assume a: "build_tuning_context g workers pcs qc = Inr c"
  have u: "length (remdups (map py_strip (filter (\<lambda>m. m \<noteq> []) (map (\<lambda>nd. or_default (nd_model nd) []) gpu)))) \<le> length gpu"
    for gpu
    by (rule order_trans[OF length_remdups_leq]) (simp add: order_trans[OF length_filter_le])
  let ?gpu = "filter (\<lambda>nd. nd_engine nd = Some ''vllm'') (map snd (gs_nodes g))"
  obtain ms where ms: "map_result halo_model_size_b ?gpu = Inr ms"
    using a by (cases "map_result halo_model_size_b ?gpu") (simp_all add: build_tuning_context_def Let_def)
  have "length ?gpu \<le> length (map snd (gs_nodes g))" by (rule length_filter_le)
  moreover note u[of ?gpu] reuse_bounds[of pcs] plan_sizes_bounds[of pcs]
  moreover have "halo_context.more c = ()" by simp
  moreover note a[unfolded build_tuning_context_def Let_def ms sum.case sum.inject, symmetric]
  ultimately show ?thesis unfolding context_ok_def by (simp only: halo_context.select_convs) auto
qed

definition params_ok :: "halo_cost_params \<Rightarrow> bool" where
  "params_ok p \<longleftrightarrow> 15/10 \<le> hp_model_init p \<and> hp_model_init p \<le> 5 \<and> 10/100 \<le> hp_llm_base p \<and> hp_llm_base p \<le> 80/100
   \<and> 10/100 \<le> hp_llm_input p \<and> hp_llm_input p \<le> 35/100 \<and> 3/100 \<le> hp_db_input p \<and> hp_db_input p \<le> 30/100"

lemma resolve_cost_model_params_ok: "params_ok (resolve_cost_model_params c)"
  unfolding params_ok_def resolve_cost_model_params_def Let_def halo_cost_params.select_convs
  by (intro conjI clamp_bounds) simp_all

definition tuning_ok :: "halo_dp_tuning \<Rightarrow> bool" where
  "tuning_ok t \<longleftrightarrow> ht_window_size t \<in> {1, 2}
   \<and> 25/100 \<le> ht_cpu_load_cost_weight t \<and> ht_cpu_load_cost_weight t \<le> 125/100
   \<and> 5/10 \<le> ht_cpu_load_early_weight t \<and> ht_cpu_load_early_weight t \<le> 25/10
   \<and> 0 \<le> ht_gpu_cost_sum_weight t \<and> ht_gpu_cost_max_weight t + ht_gpu_cost_sum_weight t = 1
   \<and> ht_gpu_batch_slack t \<in> {0, 1} \<and> 0 < ht_lower_bound_cost_factor t \<and> ht_lower_bound_cost_factor t \<le> 25/100
   \<and> 5/10 \<le> ht_gpu_depth_cost_weight t \<and> ht_gpu_depth_cost_weight t \<le> 12/10"

lemma db_ratio_bounds: "context_ok c \<Longrightarrow> 0 \<le> db_ratio c \<and> db_ratio c \<le> 1"
  by (auto simp: db_ratio_def context_ok_def field_simps)

lemma resolve_dp_tuning_ok:
  assumes "context_ok c"
  shows "tuning_ok (resolve_dp_tuning c)"
proof -
  have "clamp (5/10 + 1 * max 0 (db_ratio c - 3/10)) (5/10) (16/10) \<le> 12/10"
    using db_ratio_bounds[OF assms] by (auto simp: clamp_def min_def max_def)
  then show ?thesis unfolding tuning_ok_def resolve_dp_tuning_def Let_def halo_dp_tuning.select_convs
    by (intro conjI clamp_bounds) (assumption | simp)+
qed

lemma positive_field_pos: "positive_field f d k dflt = Inr x \<Longrightarrow> 0 < dflt \<Longrightarrow> 0 < x"
  by (auto simp: positive_field_def split: option.splits if_splits)

lemma diffusion_config_pos:
  assumes "parse_diffusion_inference_config f nd = Inr c"
  shows "0 < num_inference_steps c \<and> 0 < df_height c \<and> 0 < df_width c"
proof -
  show ?thesis
  proof (cases "\<exists>d. map_of (nd_raw nd) ''_inference_spec'' = Some (JDict d)")
    case True
    then obtain d where d: "map_of (nd_raw nd) ''_inference_spec'' = Some (JDict d)" by blast
    obtain st h w where "positive_field f d ''num_inference_steps'' 30 = Inr st" "positive_field f d ''height'' 768 = Inr h"
      "positive_field f d ''width'' 768 = Inr w" "c = \<lparr>num_inference_steps = st, df_height = h, df_width = w\<rparr>"
      using assms d by (auto simp: parse_diffusion_inference_config_def split: sum.splits)
    then show ?thesis using positive_field_pos by fastforce
  next
    case False
    then have "c = \<lparr>num_inference_steps = 30, df_height = 768, df_width = 768\<rparr>"
      using assms False by (cases "map_of (nd_raw nd) ''_inference_spec''"; cases "the (map_of (nd_raw nd) ''_inference_spec'')")
        (simp_all add: parse_diffusion_inference_config_def Let_def)
    then show ?thesis by simp
  qed
qed

lemma gpu_cost_pos:
  assumes p: "params_ok (hs_params st)" and c: "halo_exec_cost env st nd wk = Inr c" and e: "nd_engine nd = Some ''vllm''"
  shows "0 < c"
proof -
  let ?cf = "halo_coefficients (hs_params st)" and ?qc = "real_of_int (max 1 (hs_query_count st))"
  obtain b where b: "compute_gpu_exec_cost (he_as_float env) nd b (hs_query_count st) ?cf = Inr c"
    using c e by (auto simp: halo_exec_cost_def split: sum.splits)
  have pos: "0 < a * max 0 b + d * ?qc" if "0 \<le> a" "0 < d" for a d :: real
    using that by (intro add_nonneg_pos mult_nonneg_nonneg mult_pos_pos) auto
  have cf: "0 < alpha_text ?cf" "0 < beta_text ?cf" "0 < alpha_embed ?cf" "0 < beta_embed ?cf" "0 < alpha_vlm ?cf" "0 < beta_vlm ?cf"
    "0 < alpha_diff ?cf" "0 < beta_diff ?cf"
    using p by (simp_all add: halo_coefficients_def params_ok_def)
  obtain ty where ty: "classify_multimodal_node nd = Inr ty"
    using b by (cases "classify_multimodal_node nd") (simp_all add: compute_gpu_exec_cost_def Let_def)
  show ?thesis
  proof (cases "ty = IMAGE_GENERATION")
    case True
    then obtain f where f: "parse_diffusion_inference_config (he_as_float env) nd = Inr f"
      using b ty by (cases "parse_diffusion_inference_config (he_as_float env) nd") (simp_all add: compute_gpu_exec_cost_def Let_def)
    have "c = (alpha_diff ?cf * max 0 b + beta_diff ?cf * ?qc) * (num_inference_steps f / 30) * (df_height f * df_width f / (768 * 768))"
      using b ty True f by (simp add: compute_gpu_exec_cost_def Let_def)
    moreover have "0 < num_inference_steps f / 30" "0 < df_height f * df_width f / (768 * 768)"
      using diffusion_config_pos[OF f] by simp_all
    moreover have "0 < alpha_diff ?cf * max 0 b + beta_diff ?cf * ?qc" using pos cf by (simp add: less_imp_le)
    ultimately show ?thesis by (simp only: mult_pos_pos)
  next
    case False
    then show ?thesis using b ty pos cf by (cases ty) (auto simp: compute_gpu_exec_cost_def Let_def less_imp_le)
  qed
qed

lemma cost_factors: "1/2 \<le> cache_multiplier w q" "cache_multiplier w q \<le> 1" "llm_cache_bonus nd prev ps \<in> {9/10, 1}"
proof -
  have b: "1/2 \<le> (if b then 1 else max (1/2) (1 - 1/100 * x))" "0 < x \<or> b \<Longrightarrow> (if b then 1 else max (1/2) (1 - 1/100 * x)) \<le> 1"
    for b and x :: real by (auto simp: max_def)
  show "1/2 \<le> cache_multiplier w q" unfolding cache_multiplier_def Let_def by (rule b(1))
  show "cache_multiplier w q \<le> 1" unfolding cache_multiplier_def Let_def by (rule b(2)) linarith
  show "llm_cache_bonus nd prev ps \<in> {9/10, 1}" by (auto simp: llm_cache_bonus_def split: option.splits)
qed

text \<open>
  C34. The tuning context HALO reads from a graph is consistent: GPU and other nodes add up, the
  reuse signal is between 0 and 1, and the average number of plans lies between the least and the
  greatest. The cost parameters and the solver options it derives stay in their ranges, the weights of
  the slowest worker and of the sum add up to one, and with them every GPU node has a positive cost that
  the cache factors shrink by half at most.
\<close>

theorem halo_tuning_bounds:
  assumes "build_tuning_context g workers pcs qc = Inr c"
  shows "context_ok c \<and> params_ok (resolve_cost_model_params c) \<and> tuning_ok (resolve_dp_tuning c)
   \<and> (\<forall>env st nd wk cost. hs_params st = resolve_cost_model_params c \<and> nd_engine nd = Some ''vllm''
        \<and> halo_exec_cost env st nd wk = Inr cost \<longrightarrow> 0 < cost)
   \<and> (\<forall>w q. 1/2 \<le> cache_multiplier w q \<and> cache_multiplier w q \<le> 1)"
proof (intro conjI allI impI; (elim conjE)?)
  show "context_ok c" by (rule build_tuning_context_ok[OF assms])
  then show "tuning_ok (resolve_dp_tuning c)" by (rule resolve_dp_tuning_ok)
  show "params_ok (resolve_cost_model_params c)" by (rule resolve_cost_model_params_ok)
  show "1/2 \<le> cache_multiplier w q" "cache_multiplier w q \<le> 1" for w q by (rule cost_factors)+
  fix env st nd wk cost
  assume "hs_params st = resolve_cost_model_params c" "nd_engine nd = Some ''vllm''" "halo_exec_cost env st nd wk = Inr cost"
  then show "0 < cost" using gpu_cost_pos[of st env nd wk cost] resolve_cost_model_params_ok by simp
qed

definition demo_choice :: "string \<Rightarrow> (string, int) dict \<Rightarrow> query_plan_choice" where
  "demo_choice p f = \<lparr>qp_plan_id = p, qp_description = [], qp_cost = None, qp_raw_cost = Some 1, qp_footprints = f\<rparr>"

lemma halo_tuning_bounds_witness:
  "\<exists>c. build_tuning_context \<lparr>gs_name = [], gs_description = [], gs_nodes = [], gs_edges = []\<rparr> []
         [((''n'', ''q''), [demo_choice ''a'' [(''t'', 3)], demo_choice ''b'' [(''t'', 1)]])] 0 = Inr c
     \<and> hc_plan_max c = 2 \<and> hc_reuse c = 1/3 \<and> tuning_ok (resolve_dp_tuning c)"
proof -
  let ?p = "[((''n'', ''q''), [demo_choice ''a'' [(''t'', 3)], demo_choice ''b'' [(''t'', 1)]])]"
  let ?g = "\<lparr>gs_name = [], gs_description = [], gs_nodes = [], gs_edges = []\<rparr> :: graph_spec"
  obtain c where c: "build_tuning_context ?g [] ?p 0 = Inr c"
    by (simp add: build_tuning_context_def Let_def)
  then have "hc_plan_max c = 2" "hc_reuse c = 1/3"
    by (auto simp: build_tuning_context_def Let_def demo_choice_def data_profile_reuse_signal_def footprint_overlap_def dict_get_def mean_def)
  then show ?thesis using c halo_tuning_bounds[OF c] by blast
qed

end
