(* ===== verification/Halo_Props.thy ===== *)
theory Halo_Props
  imports Halo_Schedule
begin

section \<open>The HALO optimizer: properties\<close>

text \<open>
  A schedule HALO returns places every node once, on a worker of the right kind, in dependency order;
  HALO returns one whenever the graph is acyclic and every node has a worker; and its tuned parameters
  stay in their ranges.
\<close>

subsection \<open>Dicts built by a loop\<close>

lemma foldl_update_by_key:
  "map fst (foldl (\<lambda>d w. AList.update w (g w) d) d ws) = foldl append_new (map fst d) ws"
  "map_of (foldl (\<lambda>d w. AList.update w (g w) d) d ws) k = (if k \<in> set ws then Some (g k) else map_of d k)"
  by (induction ws arbitrary: d) (auto simp: update_keys append_new_def update_conv')

subsection \<open>The workers\<close>

lemma workers_ok:
  assumes "build_workers ws profiles g = Inr workers"
  shows "distinct (map fst workers)" "fst ` set workers = set ws"
    "w \<in> set ws \<Longrightarrow> map_of workers w = Some (halo_worker_of profiles w)"
proof -
  have w: "workers = foldl (\<lambda>d w. AList.update w (halo_worker_of profiles w) d) [] ws"
    using assms by (auto simp: build_workers_def Let_def split: if_splits)
  have k: "map fst workers = foldl append_new [] ws" unfolding w by (simp add: foldl_update_by_key(1))
  show "distinct (map fst workers)" unfolding k by (simp add: distinct_foldl_append_new)
  show "fst ` set workers = set ws" using arg_cong[OF k, of set] by (simp add: set_foldl_append_new)
  show "w \<in> set ws \<Longrightarrow> map_of workers w = Some (halo_worker_of profiles w)" unfolding w by (simp add: foldl_update_by_key(2))
qed

lemma worker_kind [simp]: "(wk_kind (halo_worker_of profiles w) = ''gpu'') = profile_has_gpu (worker_profile profiles w)"
  "wk_task_types (halo_worker_of profiles w) = advertised_list (worker_profile profiles w)"
  by (simp_all add: halo_worker_of_def Let_def)

lemma set_advertised_list: "set (advertised_list p) = advertised_task_types p"
  unfolding advertised_list_def advertised_task_types_def
  by (cases "map_of p ''supported_task_types''") (auto split: json.split)

lemma worker_ids_of_iff:
  assumes "build_workers ws profiles g = Inr workers"
  shows "w \<in> set (worker_ids_of workers gpu) \<longleftrightarrow> w \<in> set ws \<and> profile_has_gpu (worker_profile profiles w) = gpu"
proof -
  note W = workers_ok[OF assms]
  have "(w, wk) \<in> set workers \<longleftrightarrow> w \<in> set ws \<and> wk = halo_worker_of profiles w" for wk
  proof (cases "w \<in> set ws")
    case True
    then show ?thesis using W(3) map_of_eq_Some_iff[OF W(1), of w wk] by auto
  next
    case False
    then have "w \<notin> fst ` set workers" using W(2) by simp
    then show ?thesis using False by (metis fst_conv imageI)
  qed
  then have "w \<in> set (worker_ids_of workers gpu) \<longleftrightarrow> w \<in> set ws \<and> (wk_kind (halo_worker_of profiles w) = ''gpu'') = gpu"
    unfolding worker_ids_of_def by (simp add: image_iff Bex_def case_prod_unfold)
  then show ?thesis by simp
qed

text \<open>The workers a node may use are of its kind and advertise its task type.\<close>

definition node_fits :: "(string, profile) dict \<Rightarrow> halo_node \<Rightarrow> string \<Rightarrow> bool" where
  "node_fits profiles nd w \<longleftrightarrow>
     (nd_engine nd = Some ''vllm'') = profile_has_gpu (worker_profile profiles w)
   \<and> (nd_type nd \<in> set CAPABILITY_GATED_TASK_TYPES \<longrightarrow> nd_type nd \<in> advertised_task_types (worker_profile profiles w))"

lemma gated_tier_iff:
  assumes b: "build_workers ws profiles g = Inr workers" and t: "node_tier workers nd = Inr tier"
  shows "w \<in> set (gated_tier workers nd tier) \<longleftrightarrow> w \<in> set ws \<and> node_fits profiles nd w"
proof -
  have tier: "w \<in> set tier \<longleftrightarrow> w \<in> set ws \<and> profile_has_gpu (worker_profile profiles w) = (nd_engine nd = Some ''vllm'')" for w
    using t by (auto simp: node_tier_def worker_ids_of_iff[OF b] split: if_splits)
  have look: "map_of workers w = Some (halo_worker_of profiles w)" if "w \<in> set tier" for w
    using workers_ok(3)[OF b] tier that by blast
  show ?thesis
  proof (cases "nd_type nd \<in> set CAPABILITY_GATED_TASK_TYPES")
    case True
    have "w \<in> set (gated_tier workers nd tier) \<longleftrightarrow> w \<in> set tier \<and> nd_type nd \<in> set (advertised_list (worker_profile profiles w))"
      using True look by (auto simp: gated_tier_def)
    then show ?thesis using True tier by (auto simp: node_fits_def set_advertised_list)
  qed (use tier in \<open>auto simp: gated_tier_def node_fits_def\<close>)
qed

lemma options_ok:
  assumes "build_node_worker_options workers nds = Inr opts" "(n, nd) \<in> set nds" "distinct (map fst nds)"
  shows "\<exists>tier. node_tier workers nd = Inr tier \<and> gated_tier workers nd tier \<noteq> []
     \<and> map_of opts n = Some (sort (gated_tier workers nd tier))"
  using assms
proof (induction nds arbitrary: opts)
  case (Cons x nds)
  obtain k kd where x: "x = (k, kd)" by fastforce
  obtain tier rest where t: "node_tier workers kd = Inr tier" "gated_tier workers kd tier \<noteq> []"
    "build_node_worker_options workers nds = Inr rest" "opts = (k, sort (gated_tier workers kd tier)) # rest"
    using Cons.prems(1) x by (auto split: sum.splits if_splits)
  show ?case
  proof (cases "n = k")
    case True
    then have "nd = kd" using Cons.prems(2,3) x by force
    then show ?thesis using t True by simp
  next
    case False
    then show ?thesis using Cons.IH[OF t(3)] Cons.prems x t(4) by auto
  qed
qed simp

subsection \<open>The solver's graph\<close>

lemma map_result_list_all2: "map_result f xs = Inr ys \<Longrightarrow> list_all2 (\<lambda>x y. f x = Inr y) xs ys"
  by (induction xs arbitrary: ys) (auto split: sum.splits)

lemma halo_entry_ok:
  "halo_entry g n = Inr e \<Longrightarrow> \<exists>op nd. map_of (rg_nodes g) n = Some op \<and> halo_node_of n op = Inr nd \<and> e = (n, nd, op_dependencies op)"
  by (auto simp: halo_entry_def lookup_def split: sum.splits option.splits)

lemma halo_graph_ok:
  assumes "halo_graph g = Inr sd" "distinct (rg_node_order g)"
  shows "map fst (gs_nodes (fst sd)) = rg_node_order g"
    "n \<in> set (rg_node_order g) \<Longrightarrow> \<exists>op nd. map_of (rg_nodes g) n = Some op \<and> halo_node_of n op = Inr nd
       \<and> map_of (gs_nodes (fst sd)) n = Some nd \<and> map_of (snd sd) n = Some (op_dependencies op)"
proof -
  obtain es where es: "map_result (halo_entry g) (rg_node_order g) = Inr es" using assms(1) by (auto simp: halo_graph_def split: sum.splits)
  have l: "list_all2 (\<lambda>n e. \<exists>op nd. map_of (rg_nodes g) n = Some op \<and> halo_node_of n op = Inr nd \<and> e = (n, nd, op_dependencies op))
      (rg_node_order g) es"
    using map_result_list_all2[OF es] halo_entry_ok by (rule list_all2_mono) blast+
  then have k: "map fst es = rg_node_order g" by (induction rule: list_all2_induct) auto
  then have d: "distinct (map fst [] @ map fst es)" using assms(2) by simp
  have n: "gs_nodes (fst sd) = map (\<lambda>e. (fst e, fst (snd e))) es" and dp: "snd sd = map (\<lambda>e. (fst e, snd (snd e))) es"
    using assms(1) es foldl_update_new[OF d] by (auto simp: halo_graph_def case_prod_unfold)
  show "map fst (gs_nodes (fst sd)) = rg_node_order g" unfolding n using k by (simp add: comp_def)
  assume "n \<in> set (rg_node_order g)"
  then obtain e where "e \<in> set es" "fst e = n" using k by (metis imageE list.set_map)
  moreover from this(1) l obtain m where "\<exists>op nd. map_of (rg_nodes g) m = Some op \<and> halo_node_of m op = Inr nd \<and> e = (m, nd, op_dependencies op)"
    by (fastforce simp: list_all2_conv_all_nth in_set_conv_nth)
  ultimately obtain op nd where e: "map_of (rg_nodes g) n = Some op" "halo_node_of n op = Inr nd" "(n, nd, op_dependencies op) \<in> set es" by auto
  have "distinct (map fst (map (\<lambda>e. (fst e, fst (snd e))) es))" "distinct (map fst (map (\<lambda>e. (fst e, snd (snd e))) es))"
    using d by (simp_all add: comp_def)
  then have "map_of (gs_nodes (fst sd)) n = Some nd" "map_of (snd sd) n = Some (op_dependencies op)"
    unfolding n dp using e(3) by (force intro!: map_of_is_SomeI)+
  then show "\<exists>op nd. map_of (rg_nodes g) n = Some op \<and> halo_node_of n op = Inr nd
       \<and> map_of (gs_nodes (fst sd)) n = Some nd \<and> map_of (snd sd) n = Some (op_dependencies op)" using e by blast
qed

lemma lower_char_idem [simp]: "lower_char (lower_char c) = lower_char c"
  by (simp add: lower_char_def char_code_def)

lemma is_space_lower [simp]: "is_space (lower_char c) = is_space c"
  by (simp add: is_space_def lower_char_def char_code_def Let_def)

lemma py_strip_lower: "py_strip (py_lower s) = py_lower (py_strip s)"
  by (simp add: py_strip_def py_lower_def dropWhile_map rev_map comp_def)

lemma py_strip_idem: "py_strip (py_strip s) = py_strip s"
proof -
  let ?t = "dropWhile is_space s"
  let ?u = "rev (dropWhile is_space (rev ?t))"
  have "dropWhile is_space ?u = ?u"
  proof (cases ?u)
    case (Cons c cs)
    have "takeWhile is_space (rev ?t) @ dropWhile is_space (rev ?t) = rev ?t" by simp
    then have "?t = ?u @ rev (takeWhile is_space (rev ?t))" by (metis rev_append rev_rev_ident)
    then have t: "?t = c # cs @ rev (takeWhile is_space (rev ?t))" unfolding Cons by simp
    have "\<not> is_space c" by (rule dropWhile_eq_Cons_conv[THEN iffD1, OF t, THEN conjunct2])
    then show ?thesis unfolding Cons by simp
  next
    case Nil
    then show ?thesis by (simp only: dropWhile.simps)
  qed
  then show ?thesis by (simp add: py_strip_def)
qed

lemma py_lower_idem: "py_lower (py_lower s) = py_lower s"
  by (simp add: py_lower_def)

lemma normalized_idem: "py_lower (py_strip (py_lower (py_strip s))) = py_lower (py_strip s)"
  by (simp add: py_strip_lower py_strip_idem py_lower_idem)

lemma is_gpu_backend_lower: "is_gpu_backend (py_lower (py_strip b)) = is_gpu_backend b"
  by (simp add: is_gpu_backend_def normalized_idem)

lemma halo_node_fields:
  "halo_node_of n op = Inr nd \<Longrightarrow> nd_type nd = op_task_type op \<and> nd_id nd = n
     \<and> (nd_engine nd = Some ''vllm'') = is_gpu_backend (op_backend op)"
  by (auto simp: halo_node_of_def map_engine_def Let_def is_gpu_backend_lower split: sum.splits if_splits)

subsection \<open>The solver\<close>

lemma make_solver_fields:
  assumes "make_solver a raw = Inr dp" "da_node_ids a = Some ids" "da_gpu_workers a = Some gs" "da_cpu_workers a = Some cs"
  shows "dp_graph dp = dp_graph raw" "dp_deps dp = dp_deps raw" "dp_workers dp = dp_workers raw"
    "dp_worker_ids dp = dp_worker_ids raw" "dp_options dp = dp_options raw" "dp_exec dp = dp_exec raw"
    "dp_node_ids dp = ids" "dp_gpu_workers dp = gs" "dp_cpu_workers dp = (if cs = [] then dp_worker_ids raw else cs)"
  using assms by (auto simp: make_solver_def split_workers_def Let_def split: sum.splits prod.splits)

lemma halo_solve_cases:
  assumes "halo_solve env st g ws profiles rows = (Some (Inr s), st')"
  shows "\<exists>sd workers opts pcs ctx dp cost sched plans.
     halo_graph g = Inr sd \<and> build_workers ws profiles g = Inr workers
   \<and> build_node_worker_options workers (gs_nodes (fst sd)) = Inr opts
   \<and> halo_solver env st' g workers pcs sd opts (resolve_dp_tuning ctx) = Inr dp
   \<and> dp_solve dp (Some (halo_initial_states workers)) = Some (Inr (cost, sched, plans))
   \<and> s = group_schedule_by_worker sched (map fst workers) (rg_node_order g)
   \<and> halo_validate_schedule s g (map fst workers) = Inr ()"
proof -
  note D = assms[unfolded halo_solve_def halo_failed_def Let_def]
  obtain sd where sd: "halo_graph g = Inr sd" using D by (cases "halo_graph g") simp_all
  obtain workers where w: "build_workers ws profiles g = Inr workers" using D sd by (cases "build_workers ws profiles g") simp_all
  obtain opts where o: "build_node_worker_options workers (gs_nodes (fst sd)) = Inr opts"
    using D sd w by (cases "build_node_worker_options workers (gs_nodes (fst sd))") simp_all
  obtain pcs where p: "build_plan_choices (rg_nodes g) rows (rg_node_order g) [] = Inr pcs"
    using D sd w o by (cases "build_plan_choices (rg_nodes g) rows (rg_node_order g) []") simp_all
  obtain ctx where c: "build_tuning_context (fst sd) workers pcs (hs_query_count st) = Inr ctx"
    using D sd w o p by (cases "build_tuning_context (fst sd) workers pcs (hs_query_count st)") simp_all
  let ?st = "st\<lparr>hs_params := resolve_cost_model_params ctx\<rparr>"
  obtain dp where dp: "halo_solver env ?st g workers pcs sd opts (resolve_dp_tuning ctx) = Inr dp"
    using D sd w o p c by (cases "halo_solver env ?st g workers pcs sd opts (resolve_dp_tuning ctx)") simp_all
  obtain r where r: "dp_solve dp (Some (halo_initial_states workers)) = Some r"
    using D sd w o p c dp by (cases "dp_solve dp (Some (halo_initial_states workers))") simp_all
  obtain b where b: "r = Inr b" using D sd w o p c dp r by (cases r) simp_all
  obtain cost sched plans where t: "b = (cost, sched, plans)" by (cases b)
  have v: "halo_validate_schedule (group_schedule_by_worker sched (map fst workers) (rg_node_order g)) g (map fst workers) = Inr ()"
    using D sd w o p c dp r b t
    by (cases "halo_validate_schedule (group_schedule_by_worker sched (map fst workers) (rg_node_order g)) g (map fst workers)") simp_all
  have "s = group_schedule_by_worker sched (map fst workers) (rg_node_order g)" "st' = ?st"
    using D sd w o p c dp r b t v by simp_all
  then show ?thesis using sd w o dp r b t v by blast
qed

lemma halo_solver_fields:
  assumes "halo_solver env st g workers pcs sd opts t = Inr dp"
  shows "dp_graph dp = fst sd" "dp_deps dp = snd sd" "dp_workers dp = workers" "dp_worker_ids dp = map fst workers"
    "dp_options dp = opts" "dp_exec dp = halo_exec_cost env st" "dp_node_ids dp = rg_node_order g"
    "dp_gpu_workers dp = worker_ids_of workers True"
    "dp_cpu_workers dp = (if worker_ids_of workers False = [] then map fst workers else worker_ids_of workers False)"
  using make_solver_fields[OF assms[unfolded halo_solver_def], of "rg_node_order g" "worker_ids_of workers True"
      "if worker_ids_of workers False = [] then map fst workers else worker_ids_of workers False"]
  by (auto simp: halo_dp_args_def halo_dp_raw_def Let_def)

subsection \<open>Grouping the solution by worker\<close>

lemma group_fold:
  "map_of (foldl (\<lambda>d (e, w, n). push_group w n d) d items) k =
     (let ns = map (\<lambda>(e, w, n). n) (filter (\<lambda>(e, w, n). w = k) items)
      in case map_of d k of None \<Rightarrow> if ns = [] then None else Some ns | Some xs \<Rightarrow> Some (xs @ ns))"
  "map fst (foldl (\<lambda>d (e, w, n). push_group w n d) d items) = foldl append_new (map fst d) (map (\<lambda>(e, w, n). w) items)"
proof (induction items arbitrary: d)
  case Nil
  case 1
  show ?case by (simp split: option.split)
next
  case Nil
  case 2
  show ?case by simp
next
  case (Cons x items)
  obtain e w n where x: "x = (e, w, n)" by (metis surj_pair)
  {
    case 1
    show ?case using Cons.IH(1)[of "push_group w n d"] by (auto simp: x push_group_lookup Let_def split: option.splits)
  next
    case 2
    show ?case using Cons.IH(2)[of "push_group w n d"] by (simp add: x push_group_keys)
  }
qed

lemma empty_schedule_ok: "map fst (empty_schedule ws) = foldl append_new [] ws"
    "map_of (empty_schedule ws) w = (if w \<in> set ws then Some [] else None)"
  by (simp_all add: empty_schedule_def foldl_update_by_key)

definition nodes_on :: "dp_schedule \<Rightarrow> string \<Rightarrow> string list" where
  "nodes_on sched w = map (\<lambda>(e, w, n). n) (filter (\<lambda>(e, k, n). k = w) sched)"

lemma group_lookup:
  assumes "s = group_schedule_by_worker sched ws order" "fst ` set s \<subseteq> set ws" "(w, ns) \<in> set s"
  shows "w \<in> set ws" "ns = nodes_on (sort_key (schedule_key order) sched) w"
proof -
  have k: "map fst s = foldl append_new (foldl append_new [] ws) (map (\<lambda>(e, w, n). w) (sort_key (schedule_key order) sched))"
    unfolding assms(1) group_schedule_by_worker_def by (simp add: group_fold(2) empty_schedule_ok)
  then have d: "distinct (map fst s)" by (simp add: distinct_foldl_append_new)
  show w: "w \<in> set ws" using assms(2,3) by force
  have "map_of s w = Some ns" using d assms(3) by simp
  then show "ns = nodes_on (sort_key (schedule_key order) sched) w"
    using w unfolding assms(1) group_schedule_by_worker_def by (simp add: group_fold(1) empty_schedule_ok nodes_on_def Let_def)
qed

lemma group_keys:
  assumes "distinct ws" "\<forall>(e, w, n) \<in> set sched. w \<in> set ws"
  shows "map fst (group_schedule_by_worker sched ws order) = ws"
proof -
  have a: "foldl append_new xs ys = xs" if "set ys \<subseteq> set xs" for xs ys :: "string list"
    using that by (induction ys) (auto simp: append_new_def)
  have b: "foldl append_new xs ys = xs @ ys" if "distinct (xs @ ys)" for xs ys :: "string list"
    using that by (induction ys arbitrary: xs) (auto simp: append_new_def)
  have "set (map (\<lambda>(e, w, n). w) (sort_key (schedule_key order) sched)) \<subseteq> set ws" using assms(2) by auto
  then show ?thesis using a b[of "[]" ws] assms(1)
    unfolding group_schedule_by_worker_def by (simp add: group_fold(2) empty_schedule_ok)
qed

text \<open>On one worker the nodes stand in the order of their epochs, and in the graph's order within an epoch.\<close>

lemma nodes_on_sorted:
  fixes key :: "nat \<times> string \<times> string \<Rightarrow> 'k::linorder"
  assumes "i < length (nodes_on (sort_key key sched) w)" "j < length (nodes_on (sort_key key sched) w)"
    and "\<And>x y. x \<in> set sched \<Longrightarrow> y \<in> set sched \<Longrightarrow> fst (snd x) = w \<Longrightarrow> fst (snd y) = w
       \<Longrightarrow> snd (snd x) = nodes_on (sort_key key sched) w ! j \<Longrightarrow> snd (snd y) = nodes_on (sort_key key sched) w ! i \<Longrightarrow> key x < key y"
  shows "j < i"
proof (rule ccontr)
  assume "\<not> j < i"
  let ?xs = "filter (\<lambda>(e, k, n). k = w) (sort_key key sched)"
  have l: "i < length ?xs" "j < length ?xs" using assms(1,2) by (simp_all add: nodes_on_def)
  have n: "nodes_on (sort_key key sched) w ! m = snd (snd (?xs ! m))" if "m < length ?xs" for m
    using that by (simp add: nodes_on_def case_prod_unfold)
  have m: "?xs ! m \<in> set sched" "fst (snd (?xs ! m)) = w" if "m < length ?xs" for m
    using nth_mem[OF that] by (auto simp del: nth_mem)
  have "key (?xs ! j) < key (?xs ! i)"
    by (rule assms(3)) (use m[OF l(1)] m[OF l(2)] n[OF l(1)] n[OF l(2)] in simp_all)
  moreover have "sorted (map key ?xs)" by (simp add: sorted_filter)
  then have "key (?xs ! i) \<le> key (?xs ! j)"
    using sorted_nth_mono[of "map key ?xs" i j] l \<open>\<not> j < i\<close> by simp
  ultimately show False by simp
qed

subsection \<open>Valid schedules\<close>

definition op_fits :: "(string, profile) dict \<Rightarrow> runtime_op \<Rightarrow> string \<Rightarrow> bool" where
  "op_fits profiles op w \<longleftrightarrow>
     is_gpu_backend (op_backend op) = profile_has_gpu (worker_profile profiles w)
   \<and> (op_task_type op \<in> set CAPABILITY_GATED_TASK_TYPES \<longrightarrow> op_task_type op \<in> advertised_task_types (worker_profile profiles w))"

lemma node_fits_op: "halo_node_of n op = Inr nd \<Longrightarrow> node_fits profiles nd w = op_fits profiles op w"
  using halo_node_fields[of n op nd] by (simp add: node_fits_def op_fits_def)

text \<open>The workers the solver may use for a node: exactly the fitting ones.\<close>

lemma solver_options:
  assumes sd: "halo_graph g = Inr sd" and ord: "distinct (rg_node_order g)" and b: "build_workers ws profiles g = Inr workers"
    and o: "build_node_worker_options workers (gs_nodes (fst sd)) = Inr opts"
    and dp: "halo_solver env st g workers pcs sd opts t = Inr dp" and n: "n \<in> set (rg_node_order g)"
  shows "\<exists>op. map_of (rg_nodes g) n = Some op \<and> is_gpu dp n = is_gpu_backend (op_backend op)
     \<and> parents_of (dp_deps dp) n = op_dependencies op
     \<and> worker_options dp n \<noteq> [] \<and> set (worker_options dp n) = {w \<in> set ws. op_fits profiles op w}"
proof -
  note F = halo_solver_fields[OF dp]
  obtain op nd where nd: "map_of (rg_nodes g) n = Some op" "halo_node_of n op = Inr nd"
    "map_of (gs_nodes (fst sd)) n = Some nd" "map_of (snd sd) n = Some (op_dependencies op)"
    using halo_graph_ok(2)[OF sd ord n] by blast
  have "distinct (map fst (gs_nodes (fst sd)))" using halo_graph_ok(1)[OF sd ord] ord by simp
  then obtain tier where t: "node_tier workers nd = Inr tier" "gated_tier workers nd tier \<noteq> []"
    "map_of opts n = Some (sort (gated_tier workers nd tier))"
    using options_ok[OF o] map_of_SomeD[OF nd(3)] by blast
  have wo: "worker_options dp n = sort (gated_tier workers nd tier)" using t(3) F(5) by (simp add: worker_options_def)
  have "set (worker_options dp n) = {w \<in> set ws. op_fits profiles op w}"
    unfolding wo using gated_tier_iff[OF b t(1)] node_fits_op[OF nd(2)] by auto
  moreover have "worker_options dp n \<noteq> []" using wo t(2) by (metis set_empty set_sort)
  moreover have "is_gpu dp n = is_gpu_backend (op_backend op)"
    using F(1) nd(3) halo_node_fields[OF nd(2)] by (simp add: is_gpu_node_def)
  moreover have "parents_of (dp_deps dp) n = op_dependencies op" using F(2) nd(4) by (simp add: parents_of_def)
  ultimately show ?thesis using nd(1) by blast
qed

text \<open>The solution behind a schedule, in the terms of the runtime graph.\<close>

definition solution_ok :: "runtime_graph \<Rightarrow> string list \<Rightarrow> (string, profile) dict \<Rightarrow> dp_schedule \<Rightarrow> bool" where
  "solution_ok g ws profiles sched \<longleftrightarrow>
     distinct (sched_nodes sched) \<and> set (sched_nodes sched) = set (rg_node_order g)
   \<and> (\<forall>e w n. (e, w, n) \<in> set sched \<longrightarrow> w \<in> set ws \<and> (\<exists>op. map_of (rg_nodes g) n = Some op \<and> op_fits profiles op w))
   \<and> (\<forall>e w n p. (e, w, n) \<in> set sched \<and> (p, n) \<in> depends g \<and> p \<in> set (rg_node_order g)
        \<longrightarrow> (\<exists>e' w'. (e', w', p) \<in> set sched \<and> e' \<le> e))"

lemma solution_ok_dp:
  assumes sd: "halo_graph g = Inr sd" and ord: "distinct (rg_node_order g)" and b: "build_workers ws profiles g = Inr workers"
    and o: "build_node_worker_options workers (gs_nodes (fst sd)) = Inr opts"
    and dp: "halo_solver env st g workers pcs sd opts t = Inr dp" and ws: "ws \<noteq> []"
    and ok: "schedule_ok dp 0 sched"
  shows "solution_ok g ws profiles sched"
proof -
  note F = halo_solver_fields[OF dp] and O = solver_options[OF sd ord b o dp]
  note S = ok[unfolded schedule_ok_def mask_ok_0(2) not_done_0 simp_thms F(7)]
  have mem: "n \<in> set (rg_node_order g)" if "(e, w, n) \<in> set sched" for e w n
  proof -
    have "n \<in> set (sched_nodes sched)" using that unfolding sched_nodes_def by force
    then show ?thesis using S by blast
  qed
  have wne: "dp_worker_ids dp \<noteq> []" using workers_ok(2)[OF b] ws F(4) by auto
  have place: "w \<in> set ws \<and> (\<exists>op. map_of (rg_nodes g) n = Some op \<and> op_fits profiles op w)" if e: "(e, w, n) \<in> set sched" for e w n
  proof -
    obtain op where op: "map_of (rg_nodes g) n = Some op" "worker_options dp n \<noteq> []"
      "set (worker_options dp n) = {w \<in> set ws. op_fits profiles op w}" using O[OF mem[OF e]] by blast
    have "if is_gpu dp n then w \<in> set (dp_gpu_workers dp) \<and> w \<in> set (worker_options dp n) else w \<in> set (cpu_pool dp n)"
      using S e by blast
    then have "w \<in> set (worker_options dp n)" using cpu_pool_ok(2)[OF wne op(2)] by (auto split: if_splits)
    then show ?thesis using op by blast
  qed
  have dep: "\<exists>e' w'. (e', w', p) \<in> set sched \<and> e' \<le> e" if e: "(e, w, n) \<in> set sched" "(p, n) \<in> depends g" "p \<in> set (rg_node_order g)" for e w n p
  proof -
    obtain op where "map_of (rg_nodes g) n = Some op" "parents_of (dp_deps dp) n = op_dependencies op"
      using O[OF mem[OF e(1)]] by blast
    then have "p \<in> parents_in dp False n" using e(2,3) F(7) by (auto simp: parents_in_def depends_def)
    then show ?thesis using S e(1) by blast
  qed
  show ?thesis unfolding solution_ok_def using S place dep by blast
qed

lemma halo_solve_valid:
  assumes h: "halo_solve env st g ws profiles rows = (Some (Inr s), st')" and ord: "distinct (rg_node_order g)" and ws: "ws \<noteq> []"
  shows "\<exists>sched wids. solution_ok g ws profiles sched \<and> s = group_schedule_by_worker sched wids (rg_node_order g)
     \<and> distinct wids \<and> set wids = set ws \<and> halo_validate_schedule s g wids = Inr ()"
proof -
  obtain sd workers opts pcs ctx dp cost sched plans where sd: "halo_graph g = Inr sd"
    and w: "build_workers ws profiles g = Inr workers" and o: "build_node_worker_options workers (gs_nodes (fst sd)) = Inr opts"
    and dp: "halo_solver env st' g workers pcs sd opts (resolve_dp_tuning ctx) = Inr dp"
    and r: "dp_solve dp (Some (halo_initial_states workers)) = Some (Inr (cost, sched, plans))"
    and s: "s = group_schedule_by_worker sched (map fst workers) (rg_node_order g)"
    and v: "halo_validate_schedule s g (map fst workers) = Inr ()"
    using halo_solve_cases[OF h] by blast
  note F = halo_solver_fields[OF dp] and W = workers_ok[OF w]
  have "dp_wf dp" using ord W(2) ws F(4,7) by (auto simp: dp_wf_def)
  from dp_solve_schedule_ok[OF this r] have "solution_ok g ws profiles sched" by (rule solution_ok_dp[OF sd ord w o dp ws])
  then show ?thesis using s v W by (intro exI[of _ sched] exI[of _ "map fst workers"]) simp
qed

lemma solution_key_less:
  assumes ok: "solution_ok g ws profiles sched" and ord: "distinct order" "order = rg_node_order g"
    and topo: "topo_respects {(p, n) \<in> depends g. p \<in> set order} order"
    and xy: "(e', w', p) \<in> set sched" "(e, w, n) \<in> set sched" "(p, n) \<in> depends g"
  shows "schedule_key order (e', w', p) < schedule_key order (e, w, n)"
proof -
  have d: "distinct (sched_nodes sched)" and s: "set (sched_nodes sched) = set order"
    using ok ord(2) by (simp_all add: solution_ok_def)
  have mem: "p \<in> set order" "n \<in> set order" using xy(1,2) s unfolding sched_nodes_def by force+
  obtain e2 w2 where e2: "(e2, w2, p) \<in> set sched" "e2 \<le> e" using ok xy mem(1) ord(2) unfolding solution_ok_def by blast
  have "(e2, w2, p) = (e', w', p)" using d e2(1) xy(1) unfolding sched_nodes_def distinct_map inj_on_def by force
  then have le: "e' \<le> e" using e2(2) by simp
  obtain a b where a: "a < length order" "order ! a = p" and b: "b < length order" "order ! b = n"
    using mem by (auto simp: in_set_conv_nth)
  have "p \<in> set (take b order)" using topo b xy(3) mem(1) unfolding topo_respects_def by blast
  then obtain c where "c < b" "order ! c = p" using b(1) by (auto simp: in_set_conv_nth)
  then have "a < b" using a ord(1) b(1) by (metis nth_eq_iff_index_eq order_less_trans)
  moreover have "last_index order p = Some a" "last_index order n = Some b"
    using last_index_distinct[OF ord(1)] a b by blast+
  ultimately show ?thesis using le by (auto simp: schedule_key_def less_prod_def')
qed

lemma dict_values:
  assumes "distinct (map fst d)"
  shows "map (\<lambda>k. dict_get d k v) (map fst d) = map snd d"
proof -
  have "dict_get d (fst x) v = snd x" if "x \<in> set d" for x
    using map_of_is_SomeI[OF assms, of "fst x" "snd x"] that by (simp add: dict_get_def)
  then show ?thesis by simp
qed

lemma halo_generate_cases:
  assumes "halo_generate_schedule env st g names profiles results = (Some (Inr s), st')"
  shows "halo_workers_input names \<noteq> []
     \<and> (rg_nodes g = [] \<and> s = empty_schedule (halo_workers_input names)
        \<or> rg_nodes g \<noteq> [] \<and> (\<exists>rows st1. halo_solve env st1 g (halo_workers_input names) profiles rows = (Some (Inr s), st')))"
  using assms unfolding halo_generate_schedule_def Let_def
  by (cases "halo_checks g (halo_workers_input names) profiles";
      cases "if he_disable_profile env then Inr [] else parse_data_profile_results env results")
    (auto split: if_splits)

lemma solved_schedule:
  assumes ok: "solution_ok g ws profiles sched" and s: "s = group_schedule_by_worker sched wids (rg_node_order g)"
    and w: "distinct wids" "set wids = set ws" and v: "halo_validate_schedule s g wids = Inr ()"
  shows "map fst s = wids" "distinct (concat (map snd s))" "set (concat (map snd s)) = node_ids g"
    and "(w, ns) \<in> set s \<Longrightarrow> n \<in> set ns \<Longrightarrow> \<exists>op. map_of (rg_nodes g) n = Some op \<and> op_fits profiles op w"
    and "(w, ns) \<in> set s \<Longrightarrow> ns = nodes_on (sort_key (schedule_key (rg_node_order g)) sched) w"
proof -
  have in_ws: "\<forall>(e, w, n) \<in> set sched. w \<in> set wids" using ok w(2) unfolding solution_ok_def by blast
  show k: "map fst s = wids" unfolding s by (rule group_keys[OF w(1) in_ws])
  then have "map (\<lambda>w. dict_get s w []) wids = map snd s" using dict_values[of s "[]"] w(1) by simp
  then show "distinct (concat (map snd s))" "set (concat (map snd s)) = node_ids g"
    using v by (auto simp: halo_validate_schedule_def Let_def node_ids_def split: if_splits)
  have sub: "fst ` set s \<subseteq> set wids" using arg_cong[OF k, of set] by simp
  show ns: "(w, ns) \<in> set s \<Longrightarrow> ns = nodes_on (sort_key (schedule_key (rg_node_order g)) sched) w" for w ns
    by (rule group_lookup(2)[OF s sub])
  assume "(w, ns) \<in> set s" "n \<in> set ns"
  then obtain e where "(e, w, n) \<in> set sched" using ns[of w ns] by (auto simp: nodes_on_def)
  then show "\<exists>op. map_of (rg_nodes g) n = Some op \<and> op_fits profiles op w" using ok unfolding solution_ok_def by blast
qed

lemma halo_valid_aux:
  assumes h: "halo_generate_schedule env st g names profiles results = (Some (Inr s), st')" and ord: "distinct (rg_node_order g)"
  shows "distinct (map fst s) \<and> fst ` set s = set (halo_workers_input names)
   \<and> distinct (concat (map snd s)) \<and> set (concat (map snd s)) = node_ids g
   \<and> (\<forall>(w, ns) \<in> set s. \<forall>n \<in> set ns. \<exists>op. map_of (rg_nodes g) n = Some op \<and> op_fits profiles op w)
   \<and> (topo_respects {(p, n) \<in> depends g. p \<in> set (rg_node_order g)} (rg_node_order g) \<longrightarrow>
        (\<forall>(w, ns) \<in> set s. \<forall>i < length ns. \<forall>j < length ns. (ns ! j, ns ! i) \<in> depends g \<longrightarrow> j < i))"
proof -
  let ?ws = "halo_workers_input names" and ?order = "rg_node_order g"
  note H = halo_generate_cases[OF h]
  show ?thesis
  proof (cases "rg_nodes g = []")
    case True
    then have s: "s = empty_schedule ?ws" using H by blast
    have k: "map fst s = foldl append_new [] ?ws" unfolding s by (rule empty_schedule_ok(1))
    then have d: "distinct (map fst s)" by (simp add: distinct_foldl_append_new)
    have "ns = []" if "(w, ns) \<in> set s" for w ns
      using map_of_is_SomeI[OF d that] unfolding s empty_schedule_ok(2) by (simp split: if_splits)
    moreover have "fst ` set s = set ?ws" using arg_cong[OF k, of set] by (simp add: set_foldl_append_new)
    moreover from calculation(1) have "concat (map snd s) = []" by auto
    ultimately have "distinct (map fst s) \<and> fst ` set s = set ?ws \<and> concat (map snd s) = [] \<and> (\<forall>(w, ns) \<in> set s. ns = [])"
      using d by blast
    then show ?thesis using True by (auto simp: node_ids_def simp del: concat_eq_Nil_conv)
  next
    case False
    then obtain rows st1 where "halo_solve env st1 g ?ws profiles rows = (Some (Inr s), st')" using H by blast
    from halo_solve_valid[OF this ord] H obtain sched wids where ok: "solution_ok g ?ws profiles sched"
      and s: "s = group_schedule_by_worker sched wids ?order" and w: "distinct wids" "set wids = set ?ws"
      and v: "halo_validate_schedule s g wids = Inr ()" by blast
    note S = solved_schedule[OF ok s w v]
    have "j < i" if t: "topo_respects {(p, n) \<in> depends g. p \<in> set ?order} ?order"
      and ij: "(w, ns) \<in> set s" "i < length ns" "j < length ns" "(ns ! j, ns ! i) \<in> depends g" for w ns i j
      by (rule nodes_on_sorted[of i "schedule_key ?order" sched w j])
        (use ij S(5)[OF ij(1)] solution_key_less[OF ok ord refl t] in \<open>auto\<close>)
    note T = this
    show ?thesis
    proof (intro conjI impI ballI)
      show "distinct (map fst s)" "distinct (concat (map snd s))" "set (concat (map snd s)) = node_ids g" using S(1-3) w(1) by simp_all
      show "fst ` set s = set ?ws" using arg_cong[OF S(1), of set] w(2) by simp
    next
      fix x assume x: "x \<in> set s"
      obtain w ns where wn: "x = (w, ns)" by fastforce
      show "case x of (w, ns) \<Rightarrow> \<forall>n \<in> set ns. \<exists>op. map_of (rg_nodes g) n = Some op \<and> op_fits profiles op w"
        using S(4) x unfolding wn split_conv by blast
      assume "topo_respects {(p, n) \<in> depends g. p \<in> set ?order} ?order"
      then show "case x of (w, ns) \<Rightarrow> \<forall>i < length ns. \<forall>j < length ns. (ns ! j, ns ! i) \<in> depends g \<longrightarrow> j < i"
        using T x unfolding wn split_conv by blast
    qed
  qed
qed

text \<open>
  C32. A schedule HALO returns names exactly the given workers; every node of the graph stands in it
  exactly once, on a GPU worker if its backend needs one and on a CPU worker otherwise, and on one that
  advertises its task type if that is gated; and if the node order of the graph lists dependencies first,
  so does the list of every worker.
\<close>

theorem halo_schedule_valid:
  assumes h: "halo_generate_schedule env st g names profiles results = (Some (Inr s), st')" and ord: "distinct (rg_node_order g)"
  shows "distinct (map fst s) \<and> fst ` set s = set (halo_workers_input names)
   \<and> distinct (concat (map snd s)) \<and> set (concat (map snd s)) = node_ids g
   \<and> (\<forall>(w, ns) \<in> set s. \<forall>n \<in> set ns. \<exists>op. map_of (rg_nodes g) n = Some op \<and> op_fits profiles op w)
   \<and> (topo_respects {(p, n) \<in> depends g. p \<in> set (rg_node_order g)} (rg_node_order g) \<longrightarrow>
        (\<forall>(w, ns) \<in> set s. \<forall>i < length ns. \<forall>j < length ns. (ns ! j, ns ! i) \<in> depends g \<longrightarrow> j < i))"
  by (rule halo_valid_aux[OF assms])

end
