(* ===== verification/Halo_Live.thy ===== *)
theory Halo_Live
  imports Halo_Props
begin

section \<open>The HALO optimizer: it finds a schedule\<close>

text \<open>
  On a graph HALO supports, with a worker for every node and an acyclic dependency relation,
  \<open>generate_schedule\<close> returns a schedule: no check fails, the solver's constructor accepts its
  arguments, the search finds a solution and the solution passes the final check.
\<close>

subsection \<open>What HALO needs of its input\<close>

text \<open>
  \<open>supported_op\<close> compares the task type of a retrieval after normalisation, \<open>node_tier\<close> as it is
  written: here it is written as \<open>node_tier\<close> needs it.
\<close>

definition op_runnable :: "runtime_op \<Rightarrow> bool" where
  "op_runnable op \<longleftrightarrow> distinct (op_dependencies op)
   \<and> (if is_gpu_backend (op_backend op) then op_task_type op \<notin> set CAPABILITY_GATED_TASK_TYPES
      else py_lower (py_strip (op_backend op)) = ''python''
         \<or> py_lower (py_strip (op_backend op)) = ''data_retrieval'' \<and> op_task_type op = ''data_retrieval'')"

definition halo_runnable :: "halo_env \<Rightarrow> runtime_graph \<Rightarrow> string list \<Rightarrow> (string, profile) dict \<Rightarrow> bool" where
  "halo_runnable env g ws profiles \<longleftrightarrow>
     ws \<noteq> [] \<and> distinct (rg_node_order g) \<and> distinct (map fst (rg_nodes g)) \<and> set (rg_node_order g) = node_ids g
   \<and> acyclic {(p, n) \<in> depends g. p \<in> node_ids g}
   \<and> (\<forall>(n, op) \<in> set (rg_nodes g). op_runnable op \<and> (\<exists>w \<in> set ws. op_fits profiles op w)
        \<and> (\<forall>nd st wk. halo_node_of n op = Inr nd \<longrightarrow> (\<exists>c. halo_exec_cost env st nd wk = Inr c)))"

lemma halo_runnableD:
  assumes "halo_runnable env g ws profiles" "n \<in> set (rg_node_order g)"
  obtains op w where "map_of (rg_nodes g) n = Some op" "op_runnable op" "w \<in> set ws" "op_fits profiles op w"
    "\<And>nd st wk. halo_node_of n op = Inr nd \<Longrightarrow> \<exists>c. halo_exec_cost env st nd wk = Inr c"
proof -
  have "n \<in> fst ` set (rg_nodes g)" using assms by (simp add: halo_runnable_def node_ids_def)
  then obtain op where op: "(n, op) \<in> set (rg_nodes g)" by force
  moreover from this have "map_of (rg_nodes g) n = Some op" using assms(1) by (simp add: halo_runnable_def)
  moreover have "op_runnable op \<and> (\<exists>w \<in> set ws. op_fits profiles op w)
      \<and> (\<forall>nd st wk. halo_node_of n op = Inr nd \<longrightarrow> (\<exists>c. halo_exec_cost env st nd wk = Inr c))"
    using assms(1) op by (auto simp: halo_runnable_def)
  ultimately show thesis using that by blast
qed

lemma halo_runnable_ops:
  assumes "halo_runnable env g ws profiles" "op \<in> set (ops_of g)"
  shows "op_runnable op" "\<exists>w \<in> set ws. op_fits profiles op w"
  using assms by (auto simp: halo_runnable_def ops_of_def)

lemma op_engine:
  assumes "op_runnable op"
  obtains engine where "map_engine (op_backend op) (op_task_type op) = Inr engine"
    "engine = ''vllm'' \<or> engine = ''python'' \<or> engine = ''db'' \<and> op_task_type op = ''data_retrieval''"
proof -
  have "\<exists>engine. map_engine (op_backend op) (op_task_type op) = Inr engine
    \<and> (engine = ''vllm'' \<or> engine = ''python'' \<or> engine = ''db'' \<and> op_task_type op = ''data_retrieval'')"
    using assms unfolding op_runnable_def map_engine_def Let_def is_gpu_backend_lower by (auto split: if_splits)
  then show thesis using that by blast
qed

lemma op_runnable_node:
  assumes "op_runnable op"
  shows "\<exists>nd. halo_node_of n op = Inr nd \<and> (\<exists>tier. node_tier workers nd = Inr tier)"
proof -
  obtain engine where "map_engine (op_backend op) (op_task_type op) = Inr engine"
    "engine = ''vllm'' \<or> engine = ''python'' \<or> engine = ''db'' \<and> op_task_type op = ''data_retrieval''"
    using op_engine[OF assms] .
  then show ?thesis by (auto simp: halo_node_of_def node_tier_def)
qed

subsection \<open>The checks\<close>

lemma map_result_total: "\<forall>x \<in> set xs. \<exists>y. f x = Inr y \<Longrightarrow> \<exists>ys. map_result f xs = Inr ys"
  by (induction xs) auto

lemma map_result_lookup:
  assumes "map_result (lookup d) xs = Inr ys"
  shows "set ys \<subseteq> snd ` set d"
proof
  fix y assume "y \<in> set ys"
  then obtain x where "lookup d x = Inr y"
    using map_result_list_all2[OF assms] by (fastforce simp: list_all2_conv_all_nth in_set_conv_nth)
  then have "map_of d x = Some y" by (simp add: lookup_def split: option.splits)
  then have "(x, y) \<in> set d" by (rule map_of_SomeD)
  then show "y \<in> snd ` set d" by force
qed

lemma order_lookup:
  assumes "halo_runnable env g ws profiles"
  obtains ops where "map_result (lookup (rg_nodes g)) (rg_node_order g) = Inr ops" "set ops \<subseteq> set (ops_of g)"
proof -
  have "\<forall>n \<in> set (rg_node_order g). \<exists>op. lookup (rg_nodes g) n = Inr op"
    by (rule ballI, rule halo_runnableD[OF assms]) (auto simp: lookup_def)
  then obtain ops where ops: "map_result (lookup (rg_nodes g)) (rg_node_order g) = Inr ops" using map_result_total by blast
  then show thesis using map_result_lookup[OF ops] that by (simp add: ops_of_def)
qed

lemma op_runnable_backend: "op_runnable op \<Longrightarrow> supported_op op"
    "op_runnable op \<Longrightarrow> py_lower (py_strip (op_backend op)) \<noteq> ''http''"
  by (auto simp: op_runnable_def supported_op_def map_engine_def is_gpu_backend_def GPU_BACKENDS_def
      py_strip_def py_lower_def lower_char_def is_space_def char_code_def Let_def split: if_splits)

lemma halo_checks_ok:
  assumes r: "halo_runnable env g ws profiles"
  shows "halo_checks g ws profiles = Inr ()"
proof -
  obtain ops where ops: "map_result (lookup (rg_nodes g)) (rg_node_order g) = Inr ops" "set ops \<subseteq> set (ops_of g)"
    using order_lookup[OF r] .
  have "\<forall>op \<in> set ops. op_runnable op" using ops(2) halo_runnable_ops(1)[OF r] by blast
  then have "assert_no_http_nodes g = Inr ()" "validate_supported_runtime_nodes g = Inr ()"
    using ops(1) op_runnable_backend by (auto simp: assert_no_http_nodes_def validate_supported_runtime_nodes_def)
  moreover have "validate_task_type_workers g ws profiles = Inr ()"
  proof -
    have "\<exists>w \<in> set ws. \<not> profile_has_gpu (worker_profile profiles w) \<and> t \<in> advertised_task_types (worker_profile profiles w)"
      if t: "t \<in> required_task_types (task_types_of g)" for t
    proof -
      obtain op where op: "op \<in> set (ops_of g)" "t = op_task_type op" "t \<in> set CAPABILITY_GATED_TASK_TYPES"
        using t by (auto simp: required_task_types_def task_types_of_def)
      from halo_runnable_ops[OF r op(1)] obtain w where "op_runnable op" "w \<in> set ws" "op_fits profiles op w" by blast
      then show ?thesis using op(2,3) by (auto simp: op_runnable_def op_fits_def split: if_splits)
    qed
    then have "required_task_types (task_types_of g)
        \<subseteq> (\<Union>w \<in> set (filter (\<lambda>w. \<not> profile_has_gpu (worker_profile profiles w)) ws). advertised_task_types (worker_profile profiles w))"
      by (fastforce simp: subset_iff)
    then show ?thesis by (simp add: validate_task_type_workers_def Let_def)
  qed
  ultimately show ?thesis by (simp add: halo_checks_def)
qed

subsection \<open>The translation and the solver\<close>

lemma halo_graph_total:
  assumes r: "halo_runnable env g ws profiles"
  shows "\<exists>sd. halo_graph g = Inr sd"
proof -
  have "\<forall>n \<in> set (rg_node_order g). \<exists>e. halo_entry g n = Inr e"
  proof
    fix n assume "n \<in> set (rg_node_order g)"
    then obtain op where "map_of (rg_nodes g) n = Some op" "op_runnable op" using halo_runnableD[OF r] by metis
    moreover from op_runnable_node[OF this(2), of n] obtain nd where "halo_node_of n op = Inr nd" by blast
    ultimately show "\<exists>e. halo_entry g n = Inr e" by (simp add: halo_entry_def lookup_def)
  qed
  from map_result_total[OF this] show ?thesis by (auto simp: halo_graph_def)
qed

lemma build_workers_total:
  assumes r: "halo_runnable env g ws profiles"
  shows "\<exists>workers. build_workers ws profiles g = Inr workers"
proof (rule ccontr)
  let ?d = "foldl (\<lambda>d w. AList.update w (halo_worker_of profiles w) d) [] ws"
  assume "\<not> ?thesis"
  then obtain op where op: "op \<in> set (ops_of g)" "is_gpu_backend (op_backend op)" and no: "\<not> (\<exists>x \<in> set ?d. wk_kind (snd x) = ''gpu'')"
    by (auto simp: build_workers_def Let_def split: if_splits)
  from halo_runnable_ops(2)[OF r op(1)] obtain w where w: "w \<in> set ws" "op_fits profiles op w" by blast
  have "map_of ?d w = Some (halo_worker_of profiles w)" using w(1) by (simp add: foldl_update_by_key(2))
  then have "(w, halo_worker_of profiles w) \<in> set ?d" by (rule map_of_SomeD)
  then show False using no w(2) op(2) worker_kind(1)[of profiles w] by (force simp: op_fits_def)
qed

lemma options_total:
  assumes "\<forall>(n, nd) \<in> set nds. \<exists>tier. node_tier workers nd = Inr tier \<and> gated_tier workers nd tier \<noteq> []"
  shows "\<exists>opts. build_node_worker_options workers nds = Inr opts"
  using assms by (induction nds) auto

lemma candidate_total: "op_runnable op \<Longrightarrow> \<exists>cand. is_data_profile_candidate op = Inr cand"
  by (erule op_engine) (simp add: is_data_profile_candidate_def)

lemma plan_choices_total:
  assumes "\<forall>n \<in> set ns. \<exists>op. map_of nodes n = Some op \<and> op_runnable op"
  shows "\<exists>pcs. build_plan_choices nodes rows ns acc = Inr pcs"
  using assms
proof (induction ns arbitrary: acc)
  case (Cons n ns)
  then obtain op where op: "map_of nodes n = Some op" "op_runnable op" by auto
  then obtain cand where "is_data_profile_candidate op = Inr cand" using candidate_total by blast
  then show ?case using op(1) Cons by (simp add: lookup_def Let_def del: not_None_eq)
qed simp

lemma sizes_total:
  assumes "\<forall>nd \<in> set nds. nd_engine nd = Some ''vllm'' \<longrightarrow> (\<exists>c. halo_exec_cost env st nd wk = Inr c)"
  shows "\<exists>ms. map_result halo_model_size_b (filter (\<lambda>nd. nd_engine nd = Some ''vllm'') nds) = Inr ms"
proof (rule map_result_total, rule ballI)
  fix nd assume "nd \<in> set (filter (\<lambda>nd. nd_engine nd = Some ''vllm'') nds)"
  then show "\<exists>y. halo_model_size_b nd = Inr y" using assms
    by (cases "halo_model_size_b nd") (auto simp: halo_exec_cost_def)
qed

lemma min_worker_cost_total:
  assumes "\<forall>w \<in> set ws. \<exists>wk. map_of (dp_workers dp) w = Some wk"
  shows "\<exists>m'. min_worker_cost dp nd ws m = Inr m'"
  using assms by (induction ws arbitrary: m) (auto simp: lookup_def)

lemma options_in_workers:
  assumes r: "halo_runnable env g ws profiles" and sd: "halo_graph g = Inr sd" and b: "build_workers ws profiles g = Inr workers"
    and n: "(n, nd) \<in> set (gs_nodes (fst sd))"
  shows "\<exists>tier. node_tier workers nd = Inr tier \<and> gated_tier workers nd tier \<noteq> [] \<and> set (gated_tier workers nd tier) \<subseteq> set ws"
    "\<exists>op. halo_node_of n op = Inr nd \<and> (n, op) \<in> set (rg_nodes g)"
proof -
  have ord: "distinct (rg_node_order g)" using r by (simp add: halo_runnable_def)
  have k: "map fst (gs_nodes (fst sd)) = rg_node_order g" by (rule halo_graph_ok(1)[OF sd ord])
  have mem: "n \<in> set (rg_node_order g)" using n k by (metis fst_conv image_eqI list.set_map)
  obtain op w where op: "map_of (rg_nodes g) n = Some op" "op_runnable op" "w \<in> set ws" "op_fits profiles op w"
    using halo_runnableD[OF r mem] by metis
  have "halo_node_of n op = Inr nd"
  proof -
    obtain op' nd' where "map_of (rg_nodes g) n = Some op'" "halo_node_of n op' = Inr nd'" "map_of (gs_nodes (fst sd)) n = Some nd'"
      using halo_graph_ok(2)[OF sd ord mem] by blast
    moreover have "map_of (gs_nodes (fst sd)) n = Some nd" using k ord n by simp
    ultimately show ?thesis using op(1) by simp
  qed
  note nd = this
  obtain tier where t: "node_tier workers nd = Inr tier" using op_runnable_node[OF op(2), of n workers] nd by auto
  have "w \<in> set (gated_tier workers nd tier)"
    using gated_tier_iff[OF b t, of w] op(3,4) node_fits_op[OF nd] by blast
  moreover have "set (gated_tier workers nd tier) \<subseteq> set ws" using gated_tier_iff[OF b t] by blast
  ultimately show "\<exists>tier. node_tier workers nd = Inr tier \<and> gated_tier workers nd tier \<noteq> [] \<and> set (gated_tier workers nd tier) \<subseteq> set ws"
    using t by auto
  show "\<exists>op. halo_node_of n op = Inr nd \<and> (n, op) \<in> set (rg_nodes g)" using nd op(1) map_of_SomeD by fast
qed

lemma solver_total:
  assumes r: "halo_runnable env g ws profiles" and sd: "halo_graph g = Inr sd" and b: "build_workers ws profiles g = Inr workers"
    and o: "build_node_worker_options workers (gs_nodes (fst sd)) = Inr opts"
  shows "\<exists>dp. halo_solver env st g workers pcs sd opts (resolve_dp_tuning ctx) = Inr dp"
proof -
  let ?t = "resolve_dp_tuning ctx"
  let ?raw = "halo_dp_raw env st (fst sd) (snd sd) workers pcs opts ?t"
  have ord: "distinct (rg_node_order g)" using r by (simp add: halo_runnable_def)
  have mode: "resolve_cpu_cost_mode (da_cpu_mode (halo_dp_args g workers ?t)) = Inr False"
    by (simp add: halo_dp_args_def resolve_dp_tuning_def Let_def resolve_cpu_cost_mode_def or_default_def
        py_strip_def py_lower_def lower_char_def is_space_def char_code_def)
  have look: "\<exists>nd. lookup (gs_nodes (fst sd)) n = Inr nd" if "n \<in> set (rg_node_order g)" for n
    using halo_graph_ok(2)[OF sd ord that] by (auto simp: lookup_def)
  have cost: "\<exists>c. node_min_cost dp n = Inr c" if n: "n \<in> set (rg_node_order g)"
    and dp: "dp_graph dp = fst sd" "dp_options dp = opts" "dp_workers dp = workers" for n dp
  proof -
    obtain nd where nd: "map_of (gs_nodes (fst sd)) n = Some nd" using halo_graph_ok(2)[OF sd ord n] by blast
    then have m: "(n, nd) \<in> set (gs_nodes (fst sd))" by (rule map_of_SomeD)
    have "distinct (map fst (gs_nodes (fst sd)))" using halo_graph_ok(1)[OF sd ord] ord by simp
    then obtain tier where t: "node_tier workers nd = Inr tier" "map_of opts n = Some (sort (gated_tier workers nd tier))"
      using options_ok[OF o m] by blast
    then have "set (worker_options dp n) \<subseteq> set ws"
      using options_in_workers(1)[OF r sd b m] dp(2) by (auto simp: worker_options_def)
    then have "\<forall>w \<in> set (worker_options dp n). \<exists>wk. map_of (dp_workers dp) w = Some wk"
      using workers_ok(3)[OF b] dp(3) by auto
    from min_worker_cost_total[OF this] obtain m' where "min_worker_cost dp nd (worker_options dp n) None = Inr m'" by blast
    then show ?thesis using nd dp(1) by (simp add: node_min_cost_def lookup_def)
  qed
  have graph: "dp_graph ?raw = fst sd" "dp_options ?raw = opts" "dp_workers ?raw = workers" by (simp_all add: halo_dp_raw_def)
  obtain os where os: "map_result (lookup (gs_nodes (fst sd))) (rg_node_order g) = Inr os"
    using map_result_total[of "rg_node_order g" "lookup (gs_nodes (fst sd))"] look by blast
  have args: "da_node_ids (halo_dp_args g workers ?t) = Some (rg_node_order g)" by (simp add: halo_dp_args_def Let_def)
  obtain g' c where sp: "split_workers (halo_dp_args g workers ?t) (dp_workers ?raw) (dp_worker_ids ?raw) = Inr (g', c)"
    by (simp add: split_workers_def halo_dp_args_def Let_def)
  obtain m s where w: "gpu_cost_weights (da_max_weight (halo_dp_args g workers ?t)) (da_sum_weight (halo_dp_args g workers ?t)) = (m, s)"
    by fastforce
  let ?dp = "?raw\<lparr>dp_node_ids := rg_node_order g, dp_gpu_workers := g', dp_cpu_workers := c, dp_naive := False,
      dp_cpu_weight := or_weight 1 (da_cpu_weight (halo_dp_args g workers ?t)), dp_cpu_early := or_weight 2 (da_cpu_early (halo_dp_args g workers ?t)),
      dp_max_weight := m, dp_sum_weight := s, dp_slack := nat (da_slack (halo_dp_args g workers ?t)),
      dp_bound_factor := max 0 (da_bound_factor (halo_dp_args g workers ?t)), dp_depth_weight := or_weight 1 (da_depth_weight (halo_dp_args g workers ?t))\<rparr>"
  obtain cs where "map_result (node_min_cost ?dp) (rg_node_order g) = Inr cs"
    using map_result_total[of "rg_node_order g" "node_min_cost ?dp"] cost[of _ ?dp] graph by fastforce
  then show ?thesis unfolding halo_solver_def make_solver_def mode args
    by (simp add: os graph(1) sp w Let_def)
qed

lemma solver_runnable:
  assumes r: "halo_runnable env g ws profiles" and sd: "halo_graph g = Inr sd" and b: "build_workers ws profiles g = Inr workers"
    and o: "build_node_worker_options workers (gs_nodes (fst sd)) = Inr opts"
    and dp: "halo_solver env st g workers pcs sd opts t = Inr dp"
  shows "dp_runnable dp"
proof -
  note F = halo_solver_fields[OF dp] and W = workers_ok[OF b]
  have ord: "distinct (rg_node_order g)" "set (rg_node_order g) = node_ids g" "ws \<noteq> []"
    using r by (simp_all add: halo_runnable_def)
  note O = solver_options[OF sd ord(1) b o dp]
  have wf: "dp_wf dp" using F(4,7) ord W(2) by (auto simp: dp_wf_def)
  have nodes: "map_of (gs_nodes (dp_graph dp)) n \<noteq> None" if "n \<in> set (dp_node_ids dp)" for n
    using halo_graph_ok(2)[OF sd ord(1), of n] that F(1,7) by auto
  have workers: "map_of (dp_workers dp) w \<noteq> None" if "w \<in> set (dp_worker_ids dp)" for w
    using that F(3,4) by (auto simp: map_of_eq_None_iff)
  have gpus: "set (dp_gpu_workers dp) \<subseteq> set (dp_worker_ids dp)" using F(4,8) by (auto simp: worker_ids_of_def)
  have exec: "\<exists>c. dp_exec dp nd wk = Inr c" if "n \<in> set (dp_node_ids dp)" "map_of (gs_nodes (dp_graph dp)) n = Some nd" for n nd wk
  proof -
    have "(n, nd) \<in> set (gs_nodes (fst sd))" using that(2) F(1) map_of_SomeD by metis
    then obtain op where "halo_node_of n op = Inr nd" "(n, op) \<in> set (rg_nodes g)" using options_in_workers(2)[OF r sd b] by blast
    then show ?thesis using r F(6) by (fastforce simp: halo_runnable_def)
  qed
  have gpu: "\<exists>w \<in> set (dp_gpu_workers dp). w \<in> set (worker_options dp n)" if n: "n \<in> set (dp_node_ids dp)" "is_gpu dp n" for n
  proof -
    obtain op where op: "is_gpu_backend (op_backend op)" "worker_options dp n \<noteq> []"
      "set (worker_options dp n) = {w \<in> set ws. op_fits profiles op w}" using O[of n] n F(7) by auto
    then obtain w where "w \<in> set (worker_options dp n)" "w \<in> set ws" "op_fits profiles op w" by (metis (mono_tags) hd_in_set mem_Collect_eq)
    then show ?thesis using op(1) F(8) worker_ids_of_iff[OF b, of w True] by (auto simp: op_fits_def)
  qed
  have par: "distinct (parents_of (dp_deps dp) n)" "parents_in dp False n \<subseteq> {p. (p, n) \<in> depends g \<and> p \<in> node_ids g}"
    if n: "n \<in> set (dp_node_ids dp)" for n
  proof -
    have n': "n \<in> set (rg_node_order g)" using n F(7) by simp
    obtain op where op: "map_of (rg_nodes g) n = Some op" "parents_of (dp_deps dp) n = op_dependencies op" using O[OF n'] by blast
    moreover have "op_runnable op" using halo_runnableD[OF r n'] op(1) by (metis option.inject)
    ultimately show "distinct (parents_of (dp_deps dp) n)" by (simp add: op_runnable_def)
    show "parents_in dp False n \<subseteq> {p. (p, n) \<in> depends g \<and> p \<in> node_ids g}"
      using op F(7) ord(2) by (auto simp: parents_in_def depends_def)
  qed
  have "dp_edges dp \<subseteq> {(p, n) \<in> depends g. p \<in> node_ids g}" using par(2) by (auto simp: dp_edges_def)
  then have "acyclic (dp_edges dp)" using r acyclic_subset by (auto simp: halo_runnable_def)
  then show ?thesis unfolding dp_runnable_def using wf nodes workers gpus exec gpu par(1) by blast
qed

subsection \<open>The final check\<close>

lemma nodes_on_concat:
  assumes "distinct (sched_nodes sched)" "distinct ws"
  shows "distinct (concat (map (nodes_on sched) ws))"
  using assms(2)
proof (induction ws)
  case (Cons w ws)
  have "distinct (nodes_on sched w)"
    using assms(1) distinct_map_filter unfolding nodes_on_def sched_nodes_def by blast
  moreover have "n \<notin> set (nodes_on sched v)" if n: "n \<in> set (nodes_on sched w)" and v: "v \<in> set ws" for n v
  proof
    assume "n \<in> set (nodes_on sched v)"
    then obtain e e' where "(e, w, n) \<in> set sched" "(e', v, n) \<in> set sched" using n by (auto simp: nodes_on_def)
    then have "w = v" using assms(1) unfolding sched_nodes_def distinct_map inj_on_def by force
    then show False using Cons.prems v by simp
  qed
  ultimately show ?case using Cons by auto
qed simp

lemma validate_solution:
  assumes ok: "solution_ok g ws profiles sched" and w: "distinct wids" "set wids = set ws"
    and ids: "set (rg_node_order g) = node_ids g"
  shows "halo_validate_schedule (group_schedule_by_worker sched wids (rg_node_order g)) g wids = Inr ()"
proof -
  let ?s = "group_schedule_by_worker sched wids (rg_node_order g)"
  let ?xs = "sort_key (schedule_key (rg_node_order g)) sched"
  have in_ws: "\<forall>(e, w, n) \<in> set sched. w \<in> set wids" using ok w(2) unfolding solution_ok_def by blast
  have k: "map fst ?s = wids" by (rule group_keys[OF w(1) in_ws])
  then have sub: "fst ` set ?s = set wids" by (metis list.set_map)
  have get: "dict_get ?s v [] = nodes_on ?xs v" if "v \<in> set wids" for v
  proof -
    have "v \<in> fst ` set ?s" unfolding sub by (rule that)
    then obtain ns where ns: "(v, ns) \<in> set ?s" by (rule imageE) (metis prod.collapse)
    have "distinct (map fst ?s)" unfolding k by (rule w(1))
    then have "dict_get ?s v [] = ns" using map_of_is_SomeI[OF _ ns] by (simp only: dict_get_def option.case)
    also have "\<dots> = nodes_on ?xs v" by (rule group_lookup(2)[OF refl equalityD1[OF sub] ns])
    finally show ?thesis .
  qed
  then have f: "map (\<lambda>v. dict_get ?s v []) wids = map (nodes_on ?xs) wids" by (intro map_cong refl)
  have d: "distinct (sched_nodes ?xs)" "set (sched_nodes ?xs) = node_ids g"
    using ok ids unfolding solution_ok_def sched_nodes_def by (simp_all add: distinct_map distinct_sort)
  have "set (concat (map (nodes_on ?xs) wids)) = set (sched_nodes ?xs)"
  proof (intro equalityI subsetI)
    fix n assume "n \<in> set (sched_nodes ?xs)"
    then obtain e w where "(e, w, n) \<in> set sched" by (auto simp: sched_nodes_def)
    then have "w \<in> set wids" "n \<in> set (nodes_on ?xs w)" using in_ws by (auto simp: nodes_on_def image_iff)
    then show "n \<in> set (concat (map (nodes_on ?xs) wids))" by auto
  next
    fix n assume "n \<in> set (concat (map (nodes_on ?xs) wids))"
    then obtain e w where "(e, w, n) \<in> set sched" by (auto simp: nodes_on_def)
    then show "n \<in> set (sched_nodes ?xs)" by (force simp: sched_nodes_def)
  qed
  then show ?thesis unfolding halo_validate_schedule_def Let_def f
    using nodes_on_concat[OF d(1) w(1)] d(2) sub by (simp only: node_ids_def simp_thms if_True if_False)
qed

lemma halo_live:
  assumes r: "halo_runnable env g (halo_workers_input names) profiles"
    and rows: "he_disable_profile env \<or> (\<exists>rows. parse_data_profile_results env results = Inr rows)"
  shows "\<exists>s st'. halo_generate_schedule env st g names profiles results = (Some (Inr s), st')"
proof (cases "rg_nodes g = []")
  case True
  then show ?thesis using r by (simp add: halo_generate_schedule_def halo_runnable_def Let_def)
next
  case False
  let ?ws = "halo_workers_input names" and ?st = "st\<lparr>hs_query_count := resolve_input_query_count g\<rparr>"
  have ord: "distinct (rg_node_order g)" "set (rg_node_order g) = node_ids g" "?ws \<noteq> []" using r by (simp_all add: halo_runnable_def)
  obtain rs where rs: "(if he_disable_profile env then Inr [] else parse_data_profile_results env results) = Inr rs"
    using rows by (cases "he_disable_profile env") auto
  obtain sd where sd: "halo_graph g = Inr sd" using halo_graph_total[OF r] by blast
  obtain workers where b: "build_workers ?ws profiles g = Inr workers" using build_workers_total[OF r] by blast
  note in_ws = options_in_workers[OF r sd b]
  obtain opts where o: "build_node_worker_options workers (gs_nodes (fst sd)) = Inr opts"
    using options_total[of "gs_nodes (fst sd)" workers] in_ws(1) by blast
  have "\<forall>n \<in> set (rg_node_order g). \<exists>op. map_of (rg_nodes g) n = Some op \<and> op_runnable op"
    using halo_runnableD[OF r] by metis
  from plan_choices_total[OF this] obtain pcs where p: "build_plan_choices (rg_nodes g) rs (rg_node_order g) [] = Inr pcs" by blast
  have "\<forall>nd \<in> set (map snd (gs_nodes (fst sd))). nd_engine nd = Some ''vllm'' \<longrightarrow> (\<exists>c. halo_exec_cost env st nd (halo_worker_of profiles []) = Inr c)"
    using in_ws(2) r by (fastforce simp: halo_runnable_def)
  from sizes_total[OF this] obtain ctx where c: "build_tuning_context (fst sd) workers pcs (hs_query_count ?st) = Inr ctx"
    by (auto simp: build_tuning_context_def Let_def)
  let ?st2 = "?st\<lparr>hs_params := resolve_cost_model_params ctx\<rparr>"
  obtain dp where dp: "halo_solver env ?st2 g workers pcs sd opts (resolve_dp_tuning ctx) = Inr dp"
    using solver_total[OF r sd b o] by blast
  note F = halo_solver_fields[OF dp] and W = workers_ok[OF b]
  have "states_ok dp (halo_initial_states workers)" using F(4) by (auto simp: states_ok_def halo_initial_states_def)
  then obtain cost sched plans where sol: "dp_solve dp (Some (halo_initial_states workers)) = Some (Inr (cost, sched, plans))"
    using dp_solve_live[OF solver_runnable[OF r sd b o dp]] by blast
  have "dp_wf dp" using solver_runnable[OF r sd b o dp] by (rule dp_runnableD(1))
  from dp_solve_schedule_ok[OF this sol] have "solution_ok g ?ws profiles sched" by (rule solution_ok_dp[OF sd ord(1) b o dp ord(3)])
  then have v: "halo_validate_schedule (group_schedule_by_worker sched (map fst workers) (rg_node_order g)) g (map fst workers) = Inr ()"
    using W by (intro validate_solution[OF _ _ _ ord(2)]) simp_all
  have "\<exists>s st'. halo_solve env ?st g ?ws profiles rs = (Some (Inr s), st')"
    unfolding halo_solve_def using sd b o p c dp sol v by (simp add: Let_def)
  then show ?thesis unfolding halo_generate_schedule_def Let_def
    using False ord(3) halo_checks_ok[OF r] rs by simp
qed

text \<open>
  C33. When the graph is acyclic and its node order names each of its nodes once, every operation is one
  HALO supports, has a fitting worker and a cost, and the profile rows are readable or unused, HALO
  returns a schedule.
\<close>

theorem halo_succeeds:
  assumes "halo_runnable env g (halo_workers_input names) profiles"
    and "he_disable_profile env \<or> (\<exists>rows. parse_data_profile_results env results = Inr rows)"
  shows "\<exists>s st'. halo_generate_schedule env st g names profiles results = (Some (Inr s), st')"
  using assms by (rule halo_live)

subsection \<open>An example\<close>

text \<open>A query whose rows a model reads, on a CPU worker and a GPU worker.\<close>

definition demo_halo_op :: "string \<Rightarrow> string \<Rightarrow> string \<Rightarrow> string \<Rightarrow> string list \<Rightarrow> runtime_op" where
  "demo_halo_op n task backend model deps =
     \<lparr>op_node_id = n, op_task_type = task, op_backend = backend, op_model = model, op_data_spec = [], op_model_spec = [],
      op_inference_spec = [], op_api_spec = [], op_dependencies = deps, op_output_spec = None, op_condition = None\<rparr>"

definition demo_halo_graph :: runtime_graph where
  "demo_halo_graph =
     \<lparr>rg_nodes = [(''m'', demo_halo_op ''m'' ''inference'' ''vLLM '' ''demo-7b'' [''q'']),
                  (''q'', demo_halo_op ''q'' ''data_retrieval'' ''data_retrieval'' [] [])],
      rg_node_order = [''q'', ''m''], rg_output_node_map = [], rg_output_paths = [], rg_dsl_to_runtime = []\<rparr>"

definition demo_halo_profiles :: "(string, profile) dict" where
  "demo_halo_profiles = [(''c0'', []), (''g0'', [(''has_gpu'', JBool True)])]"

definition demo_halo_env :: halo_env where
  "demo_halo_env = \<lparr>he_float = (\<lambda>s. None), he_as_float = (\<lambda>j. None), he_row = (\<lambda>j. None), he_disable_profile = False\<rparr>"

lemma demo_workers: "halo_workers_input ['' c0'', [], ''g0''] = [''c0'', ''g0'']"
  by code_simp

lemma demo_backends: "is_gpu_backend ''vLLM ''" "\<not> is_gpu_backend ''data_retrieval''"
    "py_lower (py_strip ''data_retrieval'') = ''data_retrieval''"
    "''inference'' \<notin> set CAPABILITY_GATED_TASK_TYPES" "''data_retrieval'' \<notin> set CAPABILITY_GATED_TASK_TYPES"
  by code_simp+

lemma demo_gpu: "profile_has_gpu (worker_profile demo_halo_profiles ''g0'')" "\<not> profile_has_gpu (worker_profile demo_halo_profiles ''c0'')"
  by (simp_all add: profile_has_gpu_def worker_profile_def demo_halo_profiles_def dict_get_def truthy_def)

lemma demo_model_size: "nd_model nd = Some ''demo-7b'' \<Longrightarrow> halo_model_size_b nd = Inr 7"
proof -
  have "py_strip ''demo-7b'' = ''demo-7b''" "py_lower ''demo-7b'' = ''demo-7b''" by code_simp+
  moreover have "map_of (map (\<lambda>(k, v). (py_lower k, v)) MODEL_SIZE) ''demo-7b'' = None"
    by (simp add: MODEL_SIZE_def py_lower_def lower_char_def char_code_def)
  moreover have "dash_scan False None ''demo-7b'' = Some (7, False)"
    by (simp add: suffix_size_def is_digit_def is_space_def lower_char_def char_code_def decimal_def digit_val_def Let_def)
  moreover assume "nd_model nd = Some ''demo-7b''"
  ultimately show ?thesis by (simp add: halo_model_size_b_def or_default_def)
qed

lemma demo_cost:
  "halo_node_of ''m'' (demo_halo_op ''m'' ''inference'' ''vLLM '' ''demo-7b'' [''q'']) = Inr nd \<Longrightarrow> \<exists>c. halo_exec_cost env st nd wk = Inr c"
  "halo_node_of ''q'' (demo_halo_op ''q'' ''data_retrieval'' ''data_retrieval'' [] []) = Inr nd \<Longrightarrow> \<exists>c. halo_exec_cost env st nd wk = Inr c"
proof -
  assume n: "halo_node_of ''m'' (demo_halo_op ''m'' ''inference'' ''vLLM '' ''demo-7b'' [''q'']) = Inr nd"
  have "map_engine ''vLLM '' ''inference'' = Inr ''vllm''" by code_simp
  then have nd: "nd_type nd = ''inference''" "nd_engine nd = Some ''vllm''" "nd_model nd = Some ''demo-7b''" "nd_raw nd = [(''parent'', JStr ''q'')]"
    using n by (auto simp: halo_node_of_def demo_halo_op_def build_node_raw_def Let_def)
  have "py_lower (py_strip ''inference'') = ''inference''" by code_simp
  then have "classify_multimodal_node nd = Inr TEXT_INFERENCE"
    using nd by (simp add: classify_multimodal_node_def vision_marker_def Let_def)
  then show "\<exists>c. halo_exec_cost env st nd wk = Inr c"
    using nd demo_model_size by (simp add: halo_exec_cost_def compute_gpu_exec_cost_def Let_def)
next
  assume n: "halo_node_of ''q'' (demo_halo_op ''q'' ''data_retrieval'' ''data_retrieval'' [] []) = Inr nd"
  have "map_engine ''data_retrieval'' ''data_retrieval'' = Inr ''db''" by code_simp
  then have "nd_engine nd = Some ''db''" using n by (auto simp: halo_node_of_def demo_halo_op_def)
  then show "\<exists>c. halo_exec_cost env st nd wk = Inr c" by (simp add: halo_exec_cost_def)
qed

lemma demo_halo_runnable: "halo_runnable demo_halo_env demo_halo_graph (halo_workers_input ['' c0'', [], ''g0'']) demo_halo_profiles"
proof -
  have e: "{(p, n) \<in> depends demo_halo_graph. p \<in> node_ids demo_halo_graph} \<subseteq> measure (\<lambda>n. if n = ''q'' then 0 else 1)"
    by (auto simp: depends_def demo_halo_graph_def demo_halo_op_def split: if_splits)
  then have "acyclic {(p, n) \<in> depends demo_halo_graph. p \<in> node_ids demo_halo_graph}"
    by (meson wf_acyclic wf_measure wf_subset)
  then show ?thesis unfolding demo_workers halo_runnable_def
    using demo_cost demo_gpu demo_backends
    by (auto simp: demo_halo_graph_def node_ids_def op_runnable_def op_fits_def demo_halo_op_def)
qed

lemma halo_succeeds_witness:
  "\<exists>s st'. halo_generate_schedule demo_halo_env halo_init demo_halo_graph ['' c0'', [], ''g0''] demo_halo_profiles [] = (Some (Inr s), st')"
  by (rule halo_succeeds[OF demo_halo_runnable]) simp

lemma halo_schedule_valid_witness:
  "\<exists>s st'. halo_generate_schedule demo_halo_env halo_init demo_halo_graph ['' c0'', [], ''g0''] demo_halo_profiles [] = (Some (Inr s), st')
     \<and> distinct (concat (map snd s)) \<and> set (concat (map snd s)) = {''q'', ''m''}"
proof -
  obtain s st' where h: "halo_generate_schedule demo_halo_env halo_init demo_halo_graph ['' c0'', [], ''g0''] demo_halo_profiles [] = (Some (Inr s), st')"
    using halo_live[OF demo_halo_runnable, of "[]" halo_init] by auto
  moreover have d: "distinct (rg_node_order demo_halo_graph)" and n: "node_ids demo_halo_graph = {''q'', ''m''}"
    by (auto simp: demo_halo_graph_def node_ids_def)
  note V = halo_schedule_valid[OF h d, unfolded n]
  from V have "distinct (concat (map snd s))" by (elim conjE)
  moreover from V have "set (concat (map snd s)) = {''q'', ''m''}" by (elim conjE)
  ultimately show ?thesis by (intro exI conjI)
qed

end
