(* ===== verification/Topo_Optimizer.thy ===== *)
theory Topo_Optimizer
  imports Halo_Live
begin

section \<open>The optimizers and the server's check of a schedule\<close>

text \<open>
  \<open>runtime/optimizer/topological_sort.py\<close> (\<open>TopologicalSortOptimizer\<close>), the registry of optimizer
  types of \<open>runtime/optimizer/__init__.py\<close>, and the checks \<open>runtime/server.py\<close> applies to every
  schedule, \<open>_schedule_node_names\<close> and \<open>_validate_schedule\<close>. The server relies on any optimizer for one
  thing, that a schedule is a partition of the graph over the given workers: that is the locale
  \<open>schedule_contract\<close>, interpreted on both optimizers.
\<close>

subsection \<open>The topological-sort optimizer\<close>

text \<open>\<open>w in worker_profiles and worker_profiles[w]["has_gpu"]\<close>; the read raises without that key.\<close>

definition gpu_flag :: "(string, profile) dict \<Rightarrow> string \<Rightarrow> (string \<times> bool) result" where
  "gpu_flag profiles w =
     (case map_of profiles w of
        None \<Rightarrow> Inr (w, False)
      | Some p \<Rightarrow> (case map_of p ''has_gpu'' of None \<Rightarrow> Inl (KeyError ''has_gpu'') | Some v \<Rightarrow> Inr (w, truthy v)))"

definition first_worker :: "string list \<Rightarrow> string result" where
  "first_worker ws = (case ws of [] \<Rightarrow> Inl IndexError | w # _ \<Rightarrow> Inr w)"

definition gated_candidates :: "(string, profile) dict \<Rightarrow> string list \<Rightarrow> string \<Rightarrow> string list" where
  "gated_candidates profiles names t =
     filter (\<lambda>w. \<not> profile_has_gpu (worker_profile profiles w) \<and> t \<in> advertised_task_types (worker_profile profiles w)) names"

definition topo_target ::
  "(string, profile) dict \<Rightarrow> string list \<Rightarrow> string list \<Rightarrow> string list \<Rightarrow> runtime_op \<Rightarrow> string result" where
  "topo_target profiles names gpu cpu op =
     (if op_task_type op \<in> set CAPABILITY_GATED_TASK_TYPES then
        (case gated_candidates profiles names (op_task_type op) of
           [] \<Rightarrow> Inl (ValueError ''none of the selected CPU workers advertises the task type'')
         | w # _ \<Rightarrow> Inr w)
      else if op_backend op \<in> set GPU_BACKENDS then first_worker gpu
      else first_worker cpu)"

fun topo_assign ::
  "(runtime_op \<Rightarrow> string result) \<Rightarrow> (string, runtime_op) dict \<Rightarrow> string list \<Rightarrow> schedule \<Rightarrow> schedule result" where
  "topo_assign target nodes [] s = Inr s"
| "topo_assign target nodes (n # ns) s =
     (case lookup nodes n of
        Inl e \<Rightarrow> Inl e
      | Inr op \<Rightarrow> (case target op of Inl e \<Rightarrow> Inl e | Inr w \<Rightarrow> topo_assign target nodes ns (push_group w n s)))"

definition topo_generate_schedule ::
  "runtime_graph \<Rightarrow> string list \<Rightarrow> (string, profile) dict \<Rightarrow> schedule result" where
  "topo_generate_schedule g names profiles =
     (case map_result (gpu_flag profiles) names of
        Inl e \<Rightarrow> Inl e
      | Inr flags \<Rightarrow>
          (let gpu = map fst (filter snd flags); cpu = map fst (filter (\<lambda>(w, f). \<not> f) flags);
               gpu = (if gpu = [] then names else gpu); cpu = (if cpu = [] then names else cpu)
           in case topological_order g of
                Inl e \<Rightarrow> Inl e
              | Inr order \<Rightarrow> topo_assign (topo_target profiles names gpu cpu) (rg_nodes g) order (empty_schedule names)))"

subsection \<open>The registry\<close>

text \<open>
  \<open>create_optimizer\<close>: a built-in type, or the first registered provider that lists the type in any
  case, under the name it lists; the optimizers themselves are the parameters.
\<close>

datatype optimizer_source = Builtin string | Provided nat string

definition OPTIMIZER_TYPES :: "string list" where
  "OPTIMIZER_TYPES = [''halo'', ''topological-sort'']"

text \<open>\<open>{name.lower(): name for name in names}\<close>: the last of two names that differ in case stays.\<close>

definition lower_to_original :: "string list \<Rightarrow> (string, string) dict" where
  "lower_to_original names = foldl (\<lambda>d n. AList.update (py_lower n) n d) [] names"

fun find_provider :: "string \<Rightarrow> nat \<Rightarrow> string list list \<Rightarrow> optimizer_source option" where
  "find_provider t i [] = None"
| "find_provider t i (names # ps) =
     (case map_of (lower_to_original names) t of
        Some original \<Rightarrow> Some (Provided i original)
      | None \<Rightarrow> find_provider t (Suc i) ps)"

definition create_optimizer :: "string \<Rightarrow> string option \<Rightarrow> string list list \<Rightarrow> optimizer_source result" where
  "create_optimizer dflt t providers =
     (let t = py_lower (case t of None \<Rightarrow> dflt | Some x \<Rightarrow> x)
      in if t \<in> set OPTIMIZER_TYPES then Inr (Builtin t)
         else case find_provider t 0 providers of
             Some s \<Rightarrow> Inr s
           | None \<Rightarrow> Inl (ValueError ''Unknown optimizer type''))"

subsection \<open>The server's check\<close>

fun schedule_node_names :: "schedule \<Rightarrow> string list result" where
  "schedule_node_names [] = Inr []"
| "schedule_node_names ((w, ns) # s) =
     (if py_strip w = [] then Inl (ValueError ''Invalid worker id in schedule mapping'')
      else if \<exists>n \<in> set ns. py_strip n = [] then Inl (ValueError ''Invalid node id in schedule'')
      else (case schedule_node_names s of Inl e \<Rightarrow> Inl e | Inr rest \<Rightarrow> Inr (ns @ rest)))"

definition server_validate_schedule :: "schedule \<Rightarrow> string list \<Rightarrow> string set \<Rightarrow> unit result" where
  "server_validate_schedule s selected nodes =
     (if fst ` set s \<noteq> set selected then Inl (ValueError ''Schedule workers must match selected worker group.'')
      else (case schedule_node_names s of
              Inl e \<Rightarrow> Inl e
            | Inr names \<Rightarrow>
                if set names \<noteq> nodes then Inl (ValueError ''Schedule must match runtime graph nodes.'')
                else if \<exists>x \<in> set s. \<not> distinct (snd x) then Inl (ValueError ''Schedule worker_assignment has duplicate node IDs'')
                else Inr ()))"

lemma schedule_node_names_ok:
  assumes "\<forall>x \<in> set s. py_strip (fst x) \<noteq> [] \<and> (\<forall>n \<in> set (snd x). py_strip n \<noteq> [])"
  shows "schedule_node_names s = Inr (concat (map snd s))"
  using assms by (induction s rule: schedule_node_names.induct) auto

text \<open>The check accepts a node on two workers: only the lists of one worker are checked for duplicates.\<close>

lemma server_accepts_shared_node:
  "server_validate_schedule [(''w1'', [''n'']), (''w2'', [''n''])] [''w1'', ''w2''] {''n''} = Inr ()"
  "halo_validate_schedule [(''w1'', [''n'']), (''w2'', [''n''])]
     \<lparr>rg_nodes = [(''n'', op)], rg_node_order = [''n''], rg_output_node_map = [], rg_output_paths = [], rg_dsl_to_runtime = []\<rparr>
     [''w1'', ''w2''] = Inl (ValueError ''Halo schedule has duplicate nodes'')"
  by (auto simp: server_validate_schedule_def halo_validate_schedule_def dict_get_def py_strip_def is_space_def char_code_def Let_def)

subsection \<open>The contract of an optimizer\<close>

text \<open>A schedule is a partition of the graph's nodes over the workers.\<close>

definition partition_schedule :: "schedule \<Rightarrow> runtime_graph \<Rightarrow> string list \<Rightarrow> bool" where
  "partition_schedule s g ws \<longleftrightarrow> fst ` set s = set ws \<and> distinct (map fst s)
     \<and> distinct (concat (map snd s)) \<and> set (concat (map snd s)) = node_ids g"

text \<open>What the server gives an optimizer: a well-formed graph and names without outer blanks.\<close>

definition schedule_input_ok :: "runtime_graph \<Rightarrow> string list \<Rightarrow> bool" where
  "schedule_input_ok g ws \<longleftrightarrow> rg_wf g \<and> distinct (rg_node_order g) \<and> (\<forall>w \<in> set ws. w \<noteq> [] \<and> py_strip w = w)"

locale schedule_contract =
  fixes gen :: "runtime_graph \<Rightarrow> string list \<Rightarrow> (string, profile) dict \<Rightarrow> schedule result option"
  assumes gen_partition: "gen g ws profiles = Some (Inr s) \<Longrightarrow> schedule_input_ok g ws \<Longrightarrow> partition_schedule s g ws"
begin

lemma accepted:
  assumes "gen g ws profiles = Some (Inr s)" "schedule_input_ok g ws" "\<forall>n \<in> node_ids g. py_strip n \<noteq> []"
  shows "server_validate_schedule s ws (node_ids g) = Inr ()"
proof -
  have p: "partition_schedule s g ws" by (rule gen_partition[OF assms(1,2)])
  have "\<forall>x \<in> set s. py_strip (fst x) \<noteq> [] \<and> (\<forall>n \<in> set (snd x). py_strip n \<noteq> [])"
  proof
    fix x assume x: "x \<in> set s"
    then have "fst x \<in> set ws" "set (snd x) \<subseteq> node_ids g" using p by (auto simp: partition_schedule_def)
    then show "py_strip (fst x) \<noteq> [] \<and> (\<forall>n \<in> set (snd x). py_strip n \<noteq> [])"
      using assms(2,3) by (metis schedule_input_ok_def subsetD)
  qed
  from schedule_node_names_ok[OF this] show ?thesis
    using p by (auto simp: server_validate_schedule_def partition_schedule_def distinct_concat_iff)
qed

lemma one_worker:
  assumes "gen g ws profiles = Some (Inr s)" "schedule_input_ok g ws" "n \<in> node_ids g"
  shows "\<exists>!w. \<exists>ns. (w, ns) \<in> set s \<and> n \<in> set ns"
proof -
  have p: "partition_schedule s g ws" by (rule gen_partition[OF assms(1,2)])
  then obtain w ns where w: "(w, ns) \<in> set s" "n \<in> set ns" using assms(3) by (force simp: partition_schedule_def)
  moreover have "w' = w" if w': "(w', ns') \<in> set s" "n \<in> set ns'" for w' ns'
  proof -
    obtain xs ys where s: "s = xs @ (w, ns) # ys" using w(1) by (meson split_list)
    have "distinct (concat (map snd s))" using p by (simp add: partition_schedule_def)
    then have "n \<notin> set (concat (map snd xs)) \<union> set (concat (map snd ys))" using w(2) unfolding s by auto
    moreover have "n \<in> set (concat (map snd zs))" if "(w', ns') \<in> set zs" for zs using that w'(2) by force
    moreover have "(w', ns') \<in> set xs \<or> (w', ns') = (w, ns) \<or> (w', ns') \<in> set ys" using w'(1) unfolding s by auto
    ultimately show ?thesis by blast
  qed
  ultimately show ?thesis by blast
qed

end

subsection \<open>Both optimizers keep the contract\<close>

lemma topo_target_in:
  assumes "topo_target profiles names gpu cpu op = Inr w" "set gpu \<subseteq> set names" "set cpu \<subseteq> set names"
  shows "w \<in> set names"
proof -
  have "w' \<in> set names" if "gated_candidates profiles names t = w' # r" for w' t r
    using arg_cong[OF that, of set] by (auto simp: gated_candidates_def)
  then show ?thesis using assms by (auto simp: topo_target_def first_worker_def split: if_splits list.splits)
qed

lemma push_group_snd:
  "mset (concat (map snd (push_group k v d))) = add_mset v (mset (concat (map snd d)))" if "distinct (map fst d)"
proof (cases "map_of d k")
  case None
  then show ?thesis by (simp add: push_group_def)
next
  case (Some vs)
  obtain xs ys where d: "d = xs @ (k, vs) # ys" by (meson Some map_of_SomeD split_list)
  then have k: "k \<notin> fst ` set xs" using that by auto
  have "AList.update k (vs @ [v]) (xs @ (k, vs) # ys) = xs @ (k, vs @ [v]) # ys" using k by (induction xs) auto
  then show ?thesis using Some by (simp add: push_group_def d)
qed

lemma topo_assign_ok:
  assumes "topo_assign target nodes ns s = Inr s'" "distinct (map fst s)"
    "\<And>op w. target op = Inr w \<Longrightarrow> w \<in> fst ` set s"
  shows "map fst s' = map fst s \<and> mset (concat (map snd s')) = mset (concat (map snd s)) + mset ns
     \<and> (\<forall>n \<in> set ns. \<exists>op. map_of nodes n = Some op)"
  using assms
proof (induction target nodes ns s rule: topo_assign.induct)
  case (2 target nodes n ns s)
  obtain op where op: "lookup nodes n = Inr op" using "2.prems"(1) by (auto split: sum.splits)
  obtain w where w: "target op = Inr w" using "2.prems"(1) op by (auto split: sum.splits)
  have k: "map fst (push_group w n s) = map fst s" using "2.prems"(3)[OF w] by (auto simp: push_group_keys append_new_def)
  have "topo_assign target nodes ns (push_group w n s) = Inr s'" using "2.prems"(1) op w by simp
  from "2.IH"[OF op w this] have "map fst s' = map fst s
     \<and> mset (concat (map snd s')) = mset (concat (map snd (push_group w n s))) + mset ns \<and> (\<forall>n \<in> set ns. \<exists>op. map_of nodes n = Some op)"
    using "2.prems"(2,3) k by (metis list.set_map)
  moreover have "\<exists>op. map_of nodes n = Some op" using op by (auto simp: lookup_def split: option.splits)
  ultimately show ?case using push_group_snd[OF "2.prems"(2)] by auto
qed simp

lemma empty_schedule_fields: "distinct (map fst (empty_schedule ws))" "fst ` set (empty_schedule ws) = set ws"
    "concat (map snd (empty_schedule ws)) = []"
proof -
  show d: "distinct (map fst (empty_schedule ws))" by (simp add: empty_schedule_ok(1) distinct_foldl_append_new)
  show "fst ` set (empty_schedule ws) = set ws"
    using arg_cong[OF empty_schedule_ok(1), of set ws] by (simp add: set_foldl_append_new)
  have "ns = []" if "(w, ns) \<in> set (empty_schedule ws)" for w ns
    using map_of_is_SomeI[OF d that] unfolding empty_schedule_ok(2) by (simp split: if_splits)
  then show "concat (map snd (empty_schedule ws)) = []" by auto
qed

lemma gpu_flags_names: "map_result (gpu_flag profiles) names = Inr flags \<Longrightarrow> map fst flags = names"
  by (induction names arbitrary: flags) (auto simp: gpu_flag_def split: sum.splits option.splits)

lemma topo_partition:
  assumes g: "topo_generate_schedule g ws profiles = Inr s" and wf: "rg_wf g"
  shows "partition_schedule s g ws"
proof -
  obtain flags where f: "map_result (gpu_flag profiles) ws = Inr flags"
    using g by (cases "map_result (gpu_flag profiles) ws") (simp_all add: topo_generate_schedule_def)
  obtain order where o: "topological_order g = Inr order"
    using g f by (cases "topological_order g") (simp_all add: topo_generate_schedule_def Let_def)
  let ?pick = "\<lambda>xs. if xs = [] then ws else xs"
  define gpu cpu where "gpu = ?pick (map fst (filter snd flags))" and "cpu = ?pick (map fst (filter (\<lambda>(w, f). \<not> f) flags))"
  have a: "topo_assign (topo_target profiles ws gpu cpu) (rg_nodes g) order (empty_schedule ws) = Inr s"
    using g f o by (simp add: topo_generate_schedule_def Let_def gpu_def cpu_def)
  have "set (map fst flags) = set ws" using gpu_flags_names[OF f] by simp
  then have "set gpu \<subseteq> set ws" "set cpu \<subseteq> set ws" by (auto simp: gpu_def cpu_def)
  then have "\<And>op w. topo_target profiles ws gpu cpu op = Inr w \<Longrightarrow> w \<in> fst ` set (empty_schedule ws)"
    using topo_target_in empty_schedule_fields(2) by metis
  then have A: "map fst s = map fst (empty_schedule ws)"
    "mset (concat (map snd s)) = mset (concat (map snd (empty_schedule ws))) + mset order"
    using topo_assign_ok[OF a empty_schedule_fields(1)] by blast+
  have "distinct order" "set order = node_ids g" using topological_order_aux[OF wf] o by simp_all
  moreover have "mset (concat (map snd s)) = mset order" using A(2) empty_schedule_fields(3) by simp
  then have "distinct (concat (map snd s)) = distinct order" "set (concat (map snd s)) = set order"
    by (rule mset_eq_imp_distinct_iff) (metis \<open>mset (concat (map snd s)) = mset order\<close> mset_eq_setD)
  moreover have k: "map fst s = map fst (empty_schedule ws)" by (rule A(1))
  then have "fst ` set s = set ws" "distinct (map fst s)"
    using empty_schedule_fields(1,2) by (metis list.set_map, simp)
  ultimately show ?thesis by (simp add: partition_schedule_def)
qed

interpretation topo: schedule_contract "\<lambda>g ws profiles. Some (topo_generate_schedule g ws profiles)"
  by unfold_locales (auto simp: schedule_input_ok_def intro: topo_partition)

lemma clean_workers: "\<forall>w \<in> set ws. w \<noteq> [] \<and> py_strip w = w \<Longrightarrow> halo_workers_input ws = ws"
  by (simp add: halo_workers_input_def map_idI)

lemma halo_partition:
  assumes "fst (halo_generate_schedule env st g ws profiles results) = Some (Inr s)" "schedule_input_ok g ws"
  shows "partition_schedule s g ws"
  using halo_valid_aux[of env st g ws profiles results s "snd (halo_generate_schedule env st g ws profiles results)"]
    assms clean_workers[of ws]
  by (simp add: partition_schedule_def schedule_input_ok_def prod_eq_iff)

interpretation halo: schedule_contract "\<lambda>g ws profiles. fst (halo_generate_schedule env st g ws profiles results)"
  by unfold_locales (rule halo_partition)

text \<open>
  C35. Whatever schedule the built-in optimizers return for a well-formed graph and the claimed workers
  passes the server's check, and puts each node of the graph on exactly one worker.
\<close>

theorem server_accepts_schedules:
  assumes "schedule_input_ok g ws" "\<forall>n \<in> node_ids g. py_strip n \<noteq> []"
    and "topo_generate_schedule g ws profiles = Inr s \<or> fst (halo_generate_schedule env st g ws profiles results) = Some (Inr s)"
  shows "server_validate_schedule s ws (node_ids g) = Inr () \<and> (\<forall>n \<in> node_ids g. \<exists>!w. \<exists>ns. (w, ns) \<in> set s \<and> n \<in> set ns)"
  using assms(3)
proof
  assume "topo_generate_schedule g ws profiles = Inr s"
  then have t: "Some (topo_generate_schedule g ws profiles) = Some (Inr s)" by simp
  show ?thesis using topo.accepted[OF t assms(1,2)] topo.one_worker[OF t assms(1)] by blast
next
  assume h: "fst (halo_generate_schedule env st g ws profiles results) = Some (Inr s)"
  show ?thesis using halo.accepted[OF h assms(1,2)] halo.one_worker[OF h assms(1)] by blast
qed

definition demo_topo_profiles :: "(string, profile) dict" where
  "demo_topo_profiles = [(''c0'', [(''has_gpu'', JBool False)]), (''g0'', [(''has_gpu'', JBool True)])]"

lemma server_accepts_schedules_witness:
  "topo_generate_schedule (graph0 [(''b'', [''a'']), (''a'', [])]) [''c0'', ''g0''] demo_topo_profiles = Inr [(''c0'', []), (''g0'', [''a'', ''b''])]
     \<and> server_validate_schedule [(''c0'', []), (''g0'', [''a'', ''b''])] [''c0'', ''g0''] (node_ids (graph0 [(''b'', [''a'']), (''a'', [])])) = Inr ()"
proof
  let ?g = "graph0 [(''b'', [''a'']), (''a'', [])]"
  have order: "topological_order ?g = Inr [''a'', ''b'']"
    by (simp add: topological_order_def dep_graph_def dep_edges_def graph0_def op0_def add_edge_def
        append_new_def topological_sort_def graph_nodes_def in_degree_def kahn.simps sort_layer_def
        neighbours_def order_index_def)
  show t: "topo_generate_schedule ?g [''c0'', ''g0''] demo_topo_profiles = Inr [(''c0'', []), (''g0'', [''a'', ''b''])]"
    unfolding topo_generate_schedule_def order
    by (simp add: gpu_flag_def demo_topo_profiles_def truthy_def topo_target_def first_worker_def graph0_def op0_def
        lookup_def empty_schedule_def push_group_def CAPABILITY_GATED_TASK_TYPES_def GPU_BACKENDS_def)
  have "schedule_input_ok ?g [''c0'', ''g0'']"
    by (simp add: schedule_input_ok_def rg_wf_def graph0_def py_strip_def is_space_def char_code_def)
  moreover have "\<forall>n \<in> node_ids ?g. py_strip n \<noteq> []"
    by (simp add: node_ids_def graph0_def py_strip_def is_space_def char_code_def)
  ultimately show "server_validate_schedule [(''c0'', []), (''g0'', [''a'', ''b''])] [''c0'', ''g0''] (node_ids ?g) = Inr ()"
    using server_accepts_schedules t by blast
qed

text \<open>
  An operation of the backend \<open>omni\<close>: both optimizers want a GPU worker for it, but the server does not
  claim one for a batch of such operations, because \<open>_runtime_op_requires_gpu\<close> does not know the backend.
\<close>

definition omni_op :: runtime_op where
  "omni_op = demo_halo_op ''i'' ''omni_text2image'' ''omni'' ''demo-7b'' []"

definition omni_graph :: runtime_graph where
  "omni_graph = \<lparr>rg_nodes = [(''i'', omni_op)], rg_node_order = [''i''], rg_output_node_map = [], rg_output_paths = [], rg_dsl_to_runtime = []\<rparr>"

lemma omni_not_claimed:
  "\<not> runtime_op_requires_gpu omni_op" "is_gpu_backend (op_backend omni_op)"
  "fst (halo_generate_schedule env st omni_graph [''c0''] [(''c0'', [])] []) = Some (Inl (RuntimeError ''Halo optimizer failed to generate schedule''))"
proof -
  show r: "\<not> runtime_op_requires_gpu omni_op" by code_simp
  show b: "is_gpu_backend (op_backend omni_op)" by code_simp
  have w: "halo_workers_input [''c0''] = [''c0'']" by code_simp
  have c: "halo_checks omni_graph [''c0''] [(''c0'', [])] = Inr ()"
  proof -
    have n: "py_lower (py_strip (op_backend omni_op)) = ''omni''" by code_simp
    have g: "rg_nodes omni_graph = [(''i'', omni_op)]" "rg_node_order omni_graph = [''i'']" by (simp_all add: omni_graph_def)
    have "map_engine (op_backend omni_op) (op_task_type omni_op) = Inr ''vllm''" using b by (simp add: map_engine_def is_gpu_backend_lower)
    then have "supported_op omni_op" by (simp add: supported_op_def)
    moreover have "required_task_types (task_types_of omni_graph) = {}"
      using g by (simp add: required_task_types_def task_types_of_def ops_of_def omni_op_def demo_halo_op_def CAPABILITY_GATED_TASK_TYPES_def)
    ultimately show ?thesis
      using g n by (simp add: halo_checks_def assert_no_http_nodes_def validate_supported_runtime_nodes_def
          validate_task_type_workers_def lookup_def)
  qed
  have "build_workers [''c0''] [(''c0'', [])] omni_graph = Inl (ValueError ''Halo DP requires at least one GPU worker'')"
    using b by (simp add: build_workers_def ops_of_def omni_graph_def halo_worker_of_def worker_profile_def dict_get_def profile_has_gpu_def Let_def)
  then have "fst (halo_solve env st' omni_graph [''c0''] [(''c0'', [])] rows) = Some halo_failed" for st' rows
    by (simp add: halo_solve_def split: sum.split)
  then show "fst (halo_generate_schedule env st omni_graph [''c0''] [(''c0'', [])] []) = Some (Inl (RuntimeError ''Halo optimizer failed to generate schedule''))"
    unfolding halo_generate_schedule_def w Let_def c by (simp add: omni_graph_def halo_failed_def)
qed

end
