(* ===== verification/Optimizer_Base.thy ===== *)
theory Optimizer_Base
  imports Topo_Optimizer
begin

section \<open>Merging identical operations\<close>

text \<open>
  \<open>runtime/optimizer/base.py\<close>: before a batch is scheduled its graphs are merged into one, and runtime
  operations with the same signature and the same dependencies become one node. A signature compares
  JSON texts with sorted keys; such a text determines the value up to the order of the keys, so
  \<open>stable_json\<close> returns that value instead of the text.
\<close>

subsection \<open>Signatures\<close>

fun stable_json :: "json \<Rightarrow> json" where
  "stable_json (JDict d) = JDict (sort_key fst (map (\<lambda>(k, v). (k, stable_json v)) d))"
| "stable_json (JList vs) = JList (map stable_json vs)"
| "stable_json v = v"

fun collect_labels :: "json \<Rightarrow> string list" where
  "collect_labels (JDict d) =
     concat (map (\<lambda>(k, v). (case v of JStr t \<Rightarrow> if k = ''label'' then [t] else [] | _ \<Rightarrow> []) @ collect_labels v) d)"
| "collect_labels (JList vs) = concat (map collect_labels vs)"
| "collect_labels v = []"

text \<open>\<open>s.replace(old, new)\<close>: occurrences from the left; an empty \<open>old\<close> matches around every character.\<close>

function replace_in :: "string \<Rightarrow> string \<Rightarrow> string \<Rightarrow> string" where
  "replace_in old new s =
     (if old = [] then concat (map (\<lambda>c. new @ [c]) s) @ new
      else case s of
          [] \<Rightarrow> []
        | c # cs \<Rightarrow>
            if take (length old) s = old then new @ replace_in old new (drop (length old) s)
            else c # replace_in old new cs)"
  by pat_completeness auto
termination by (relation "measure (\<lambda>(old, new, s). length s)") auto

declare replace_in.simps [simp del]

definition label_pairs :: "string list \<Rightarrow> (string, string) dict" where
  "label_pairs labels = map (\<lambda>(i, l). (l, ''__lbl'' @ nat_str i @ ''__'')) (enumerate 0 (sort (remdups labels)))"

definition replacement_pairs :: "(string, string) dict \<Rightarrow> (string, string) dict" where
  "replacement_pairs lm = sort_key (\<lambda>(l, new). - int (length l)) lm"

fun replace_labels :: "(string, string) dict \<Rightarrow> (string, string) dict \<Rightarrow> json \<Rightarrow> json" where
  "replace_labels lm pairs (JDict d) =
     JDict (map (\<lambda>(k, v). (k, case v of
         JStr t \<Rightarrow> if k = ''label'' then JStr (dict_get lm t t) else replace_labels lm pairs v
       | _ \<Rightarrow> replace_labels lm pairs v)) d)"
| "replace_labels lm pairs (JList vs) = JList (map (replace_labels lm pairs) vs)"
| "replace_labels lm pairs (JStr s) = JStr (foldl (\<lambda>t (old, new). replace_in old new t) s pairs)"
| "replace_labels lm pairs v = v"

definition normalize_label_tokens :: "json \<Rightarrow> json" where
  "normalize_label_tokens v =
     (let labels = collect_labels v; lm = label_pairs labels
      in if labels = [] then v else replace_labels lm (replacement_pairs lm) v)"

definition normalize_spec :: "(string, string) dict \<Rightarrow> (string, json) dict \<Rightarrow> json" where
  "normalize_spec mapping spec = stable_json (normalize_label_tokens (JDict (remap_spec mapping mapping spec)))"

record op_signature =
  sg_task_type :: string
  sg_backend :: string
  sg_model :: string
  sg_data :: json
  sg_model_spec :: json
  sg_inference :: json
  sg_api :: json
  sg_output :: "json option"
  sg_deps :: "string list"
  sg_condition :: "json option"

definition runtime_signature :: "runtime_op \<Rightarrow> (string, string) dict \<Rightarrow> op_signature" where
  "runtime_signature op mapping =
     \<lparr>sg_task_type = op_task_type op, sg_backend = op_backend op, sg_model = op_model op,
      sg_data = normalize_spec mapping (op_data_spec op), sg_model_spec = normalize_spec mapping (op_model_spec op),
      sg_inference = normalize_spec mapping (op_inference_spec op), sg_api = normalize_spec mapping (op_api_spec op),
      sg_output = map_option (normalize_spec mapping) (op_output_spec op), sg_deps = map (rename mapping) (op_dependencies op),
      sg_condition = map_option (\<lambda>c. stable_json (JDict c)) (op_condition op)\<rparr>"

text \<open>Two retrievals with different templates and labels have one signature.\<close>

definition labelled_op :: "string \<Rightarrow> string \<Rightarrow> runtime_op" where
  "labelled_op text label =
     (op0 ''n'' [])\<lparr>op_data_spec := [(''template'', JStr text), (''params'', JList [JDict [(''label'', JStr label)]])]\<rparr>"

lemma label_collision:
  "runtime_signature (labelled_op ''cat'' ''a'') [] = runtime_signature (labelled_op ''cot'' ''o'') []"
  by code_simp

subsection \<open>\_dedupe\_runtime\_graph\<close>

fun dedupe_loop ::
  "runtime_graph \<Rightarrow> string list \<Rightarrow> (op_signature, string) dict \<Rightarrow> (string, string) dict \<Rightarrow> (string, string) dict result" where
  "dedupe_loop g [] sigs mapping = Inr mapping"
| "dedupe_loop g (n # ns) sigs mapping =
     (if n \<in> fst ` set (rg_output_node_map g) then dedupe_loop g ns sigs (AList.update n n mapping)
      else case lookup (rg_nodes g) n of
          Inl e \<Rightarrow> Inl e
        | Inr op \<Rightarrow>
            (let sig = runtime_signature op mapping
             in case map_of sigs sig of
                  None \<Rightarrow> dedupe_loop g ns (AList.update sig n sigs) (AList.update n n mapping)
                | Some canonical \<Rightarrow> dedupe_loop g ns sigs (AList.update n canonical mapping)))"

definition remapped_op :: "(string, string) dict \<Rightarrow> string \<Rightarrow> runtime_op \<Rightarrow> runtime_op" where
  "remapped_op m c op =
     \<lparr>op_node_id = c, op_task_type = op_task_type op, op_backend = op_backend op, op_model = op_model op,
      op_data_spec = remap_spec m m (op_data_spec op), op_model_spec = remap_spec m m (op_model_spec op),
      op_inference_spec = remap_spec m m (op_inference_spec op), op_api_spec = remap_spec m m (op_api_spec op),
      op_dependencies = foldl append_new [] (map (rename m) (op_dependencies op)),
      op_output_spec = map_option (remap_spec m m) (op_output_spec op), op_condition = map_option (remap_spec m m) (op_condition op)\<rparr>"

fun rebuild_nodes ::
  "runtime_graph \<Rightarrow> (string, string) dict \<Rightarrow> string list \<Rightarrow> (string, runtime_op) dict \<Rightarrow> (string, runtime_op) dict result" where
  "rebuild_nodes g m [] acc = Inr acc"
| "rebuild_nodes g m (n # ns) acc =
     (case lookup m n of
        Inl e \<Rightarrow> Inl e
      | Inr c \<Rightarrow>
          if c \<in> fst ` set acc then rebuild_nodes g m ns acc
          else (case lookup (rg_nodes g) c of
                  Inl e \<Rightarrow> Inl e
                | Inr op \<Rightarrow> rebuild_nodes g m ns (acc @ [(c, remapped_op m c op)])))"

definition rename_keys :: "(string, string) dict \<Rightarrow> (string, 'v) dict \<Rightarrow> (string, 'v) dict result" where
  "rename_keys m d =
     (case map_result (\<lambda>(n, v). case lookup m n of Inl e \<Rightarrow> Inl e | Inr c \<Rightarrow> Inr (c, v)) d of
        Inl e \<Rightarrow> Inl e
      | Inr es \<Rightarrow> Inr (foldl (\<lambda>d (k, v). AList.update k v d) [] es))"

definition dedupe_runtime_graph :: "runtime_graph \<Rightarrow> (runtime_graph \<times> (string, string) dict) result" where
  "dedupe_runtime_graph g =
     (case topological_order g of
        Inl e \<Rightarrow> Inl e
      | Inr order \<Rightarrow>
     (case dedupe_loop g order [] [] of
        Inl e \<Rightarrow> Inl e
      | Inr m \<Rightarrow>
          if \<forall>(n, c) \<in> set m. n = c then Inr (g, m)
          else (case rebuild_nodes g m (rg_node_order g) [] of
                  Inl e \<Rightarrow> Inl e
                | Inr nodes \<Rightarrow>
               (case rename_keys m (rg_output_node_map g) of
                  Inl e \<Rightarrow> Inl e
                | Inr outs \<Rightarrow>
               (case rename_keys m (rg_output_paths g) of
                  Inl e \<Rightarrow> Inl e
                | Inr paths \<Rightarrow> Inr
                    (\<lparr>rg_nodes = nodes, rg_node_order = map fst nodes, rg_output_node_map = outs, rg_output_paths = paths,
                      rg_dsl_to_runtime = map (\<lambda>(d, rs). (d, foldl append_new [] (map (rename m) rs))) (rg_dsl_to_runtime g)\<rparr>, m))))))"

definition optimize_graphs ::
  "(string, runtime_graph) dict
    \<Rightarrow> (runtime_graph \<times> (string, string \<times> string) dict \<times> (string, string) dict) result" where
  "optimize_graphs gs =
     (case merge_runtime_graphs gs of
        Inl e \<Rightarrow> Inl e
      | Inr (merged, outputs) \<Rightarrow>
          (case dedupe_runtime_graph merged of Inl e \<Rightarrow> Inl e | Inr (g, m) \<Rightarrow> Inr (g, outputs, m)))"

end
