(* ===== verification/Optimizer_Props.thy ===== *)
theory Optimizer_Props
  imports Optimizer_Base
begin

section \<open>Merging identical operations: properties\<close>

text \<open>
  The mapping from nodes to canonical nodes merges two nodes exactly when neither is an output and their
  signatures agree, and the rebuilt graph is the quotient of the original by that mapping: the same
  edges, still acyclic, still listed in dependency order.
\<close>

subsection \<open>The mapping\<close>

lemma node_idsI: "map_of (rg_nodes g) n = Some op \<Longrightarrow> n \<in> node_ids g"
  by (force simp: node_ids_def dest: map_of_SomeD)

text \<open>What the mapping holds when a node is reached: the nodes before it.\<close>

definition known :: "(string, string) dict \<Rightarrow> string \<Rightarrow> (string, string) dict" where
  "known m n = takeWhile (\<lambda>(k, c). k \<noteq> n) m"

definition signature_at :: "runtime_graph \<Rightarrow> (string, string) dict \<Rightarrow> string \<Rightarrow> op_signature" where
  "signature_at g m n = runtime_signature (the (map_of (rg_nodes g) n)) (known m n)"

lemma known_append: "n \<in> fst ` set m \<Longrightarrow> known (m @ m') n = known m n"
  by (induction m) (auto simp: known_def)

lemma known_new: "n \<notin> fst ` set m \<Longrightarrow> known (m @ (n, c) # m') n = m"
  by (induction m) (auto simp: known_def)

lemma signature_at_append: "n \<in> fst ` set m \<Longrightarrow> signature_at g (m @ m') n = signature_at g m n"
  by (simp add: signature_at_def known_append)

abbreviation outputs_of :: "runtime_graph \<Rightarrow> string set" where
  "outputs_of g \<equiv> fst ` set (rg_output_node_map g)"

definition mapping_inv :: "runtime_graph \<Rightarrow> (op_signature, string) dict \<Rightarrow> (string, string) dict \<Rightarrow> bool" where
  "mapping_inv g sigs m \<longleftrightarrow> distinct (map fst m)
   \<and> (\<forall>n c. (n, c) \<in> set m \<longrightarrow> (if n \<in> outputs_of g then c = n
        else c \<notin> outputs_of g \<and> (c, c) \<in> set m \<and> signature_at g m n = signature_at g m c
           \<and> (c = n \<or> (c, c) \<in> set (known m n)) \<and> map_of sigs (signature_at g m n) = Some c))
   \<and> (\<forall>s c. map_of sigs s = Some c \<longrightarrow> c \<notin> outputs_of g \<and> (c, c) \<in> set m \<and> signature_at g m c = s)"

lemma mapping_inv_step:
  assumes inv: "mapping_inv g sigs m" and n: "n \<notin> fst ` set m" and ls: "n \<notin> outputs_of g \<Longrightarrow> \<exists>op. map_of (rg_nodes g) n = Some op"
    and c: "c = (if n \<in> outputs_of g then n else case map_of sigs (signature_at g (m @ [(n, c)]) n) of None \<Rightarrow> n | Some d \<Rightarrow> d)"
    and s: "sigs' = (if n \<in> outputs_of g then sigs else case map_of sigs (signature_at g (m @ [(n, c)]) n) of
        None \<Rightarrow> AList.update (signature_at g (m @ [(n, c)]) n) n sigs | Some d \<Rightarrow> sigs)"
  shows "mapping_inv g sigs' (m @ [(n, c)])"
proof -
  let ?m = "m @ [(n, c)]" and ?sig = "signature_at g (m @ [(n, c)]) n"
  note I = inv[unfolded mapping_inv_def]
  have old: "x \<in> fst ` set m \<Longrightarrow> signature_at g ?m x = signature_at g m x" for x by (rule signature_at_append)
  have ext: "map_of sigs' t = Some d" if "map_of sigs t = Some d" for t d
    using that s by (auto simp: update_conv' split: option.splits)
  have nc: "n \<in> outputs_of g \<and> c = n \<or> n \<notin> outputs_of g \<and> map_of sigs ?sig = None \<and> c = n \<and> sigs' = AList.update ?sig n sigs
     \<or> n \<notin> outputs_of g \<and> map_of sigs ?sig = Some c \<and> sigs' = sigs" (is "?A \<or> ?B \<or> ?C")
    using c s by (auto split: if_splits option.splits)
  have new: "if n \<in> outputs_of g then c = n
        else c \<notin> outputs_of g \<and> (c, c) \<in> set ?m \<and> ?sig = signature_at g ?m c \<and> (c = n \<or> (c, c) \<in> set (known ?m n)) \<and> map_of sigs' ?sig = Some c"
    using nc
  proof (elim disjE)
    assume ?C
    then have "c \<notin> outputs_of g" "(c, c) \<in> set m" "signature_at g m c = ?sig" using I by blast+
    moreover from this(2) have "c \<in> fst ` set m" by force
    ultimately show ?thesis using \<open>?C\<close> known_new[OF n, of c "[]"] old[of c] by auto
  qed (auto simp: update_conv')
  have kn: "known ?m x = known m x" if "(x, d) \<in> set m" for x d by (rule known_append) (use that in force)
  have prev: "if x \<in> outputs_of g then d = x
        else d \<notin> outputs_of g \<and> (d, d) \<in> set ?m \<and> signature_at g ?m x = signature_at g ?m d
           \<and> (d = x \<or> (d, d) \<in> set (known ?m x)) \<and> map_of sigs' (signature_at g ?m x) = Some d" if x: "(x, d) \<in> set m" for x d
  proof (cases "x \<in> outputs_of g")
    case True
    then show ?thesis using I x by auto
  next
    case False
    then have d: "d \<notin> outputs_of g" "(d, d) \<in> set m" "signature_at g m x = signature_at g m d"
      "d = x \<or> (d, d) \<in> set (known m x)" "map_of sigs (signature_at g m x) = Some d"
      using I x by (simp_all split: if_splits)
    have "x \<in> fst ` set m" "d \<in> fst ` set m" using x d(2) by force+
    then show ?thesis using False d kn[OF x] old ext by simp
  qed
  have sg: "d \<notin> outputs_of g \<and> (d, d) \<in> set ?m \<and> signature_at g ?m d = t" if t: "map_of sigs' t = Some d" for t d
  proof (cases "map_of sigs t = Some d")
    case True
    then have "d \<notin> outputs_of g" "(d, d) \<in> set m" "signature_at g m d = t" using I by blast+
    moreover from this(2) have "d \<in> fst ` set m" by force
    ultimately show ?thesis using old by simp
  next
    case False
    then have ?B using nc t s by (auto split: if_splits)
    then have "t = ?sig \<and> d = n" using False t by (auto simp: update_conv' split: if_splits)
    then show ?thesis using \<open>?B\<close> by simp
  qed
  have "distinct (map fst ?m)" using I n by simp
  moreover have "if x \<in> outputs_of g then d = x
        else d \<notin> outputs_of g \<and> (d, d) \<in> set ?m \<and> signature_at g ?m x = signature_at g ?m d
           \<and> (d = x \<or> (d, d) \<in> set (known ?m x)) \<and> map_of sigs' (signature_at g ?m x) = Some d" if x: "(x, d) \<in> set ?m" for x d
  proof (cases "(x, d) \<in> set m")
    case True
    then show ?thesis by (rule prev)
  next
    case False
    then have "x = n" "d = c" using x by simp_all
    then show ?thesis using new by (simp only:)
  qed
  ultimately show ?thesis unfolding mapping_inv_def using sg by blast
qed

lemma dedupe_loop_inv:
  assumes "dedupe_loop g ns sigs m = Inr m'" "mapping_inv g sigs m" "distinct (map fst m @ ns)"
  shows "\<exists>sigs'. mapping_inv g sigs' m' \<and> map fst m' = map fst m @ ns"
  using assms
proof (induction g ns sigs m rule: dedupe_loop.induct)
  case (2 g n ns sigs m)
  have n: "n \<notin> fst ` set m" using "2.prems"(3) by auto
  have upd: "AList.update n c m = m @ [(n, c)]" for c using n by (rule update_new)
  have sig: "signature_at g (m @ [(n, c)]) n = runtime_signature (the (map_of (rg_nodes g) n)) m" for c
    using known_new[OF n, of c "[]"] by (simp add: signature_at_def)
  show ?case
  proof (cases "n \<in> outputs_of g")
    case True
    have "mapping_inv g sigs (m @ [(n, n)])" by (rule mapping_inv_step[OF "2.prems"(2) n]) (use True in auto)
    then show ?thesis using "2.IH"(1)[OF True] "2.prems" True upd by simp
  next
    case False
    obtain op where op: "lookup (rg_nodes g) n = Inr op" using "2.prems"(1) False by (auto split: sum.splits)
    then have o: "map_of (rg_nodes g) n = Some op" by (simp add: lookup_def split: option.splits)
    show ?thesis
    proof (cases "map_of sigs (runtime_signature op m)")
      case None
      have "mapping_inv g (AList.update (runtime_signature op m) n sigs) (m @ [(n, n)])"
        by (rule mapping_inv_step[OF "2.prems"(2) n]) (use False o None sig in auto)
      then show ?thesis using "2.IH"(2)[OF False op refl None] "2.prems" False op None upd by simp
    next
      case (Some c)
      have "mapping_inv g sigs (m @ [(n, c)])" by (rule mapping_inv_step[OF "2.prems"(2) n]) (use False o Some sig in auto)
      then show ?thesis using "2.IH"(3)[OF False op refl Some] "2.prems" False op Some upd by simp
    qed
  qed
qed auto

lemma dedupe_loop_total:
  assumes "\<forall>n \<in> set ns. \<exists>op. map_of (rg_nodes g) n = Some op"
  shows "\<exists>m'. dedupe_loop g ns sigs m = Inr m'"
  using assms by (induction g ns sigs m rule: dedupe_loop.induct) (auto simp: lookup_def Let_def split: option.splits)

subsection \<open>The mapping of a graph\<close>

definition graph_ready :: "runtime_graph \<Rightarrow> bool" where
  "graph_ready g \<longleftrightarrow> rg_wf g \<and> distinct (rg_node_order g) \<and> set (rg_node_order g) = node_ids g
   \<and> outputs_of g \<subseteq> node_ids g \<and> distinct (map fst (rg_output_node_map g)) \<and> fst ` set (rg_output_paths g) \<subseteq> node_ids g"

text \<open>Two nodes are merged exactly when neither is an output and their signatures agree.\<close>

definition merges :: "runtime_graph \<Rightarrow> (string, string) dict \<Rightarrow> bool" where
  "merges g m \<longleftrightarrow> fst ` set m = node_ids g
   \<and> (\<forall>n \<in> node_ids g. rename m n \<in> node_ids g \<and> rename m (rename m n) = rename m n)
   \<and> (\<forall>n \<in> node_ids g. \<forall>k \<in> node_ids g. rename m n = rename m k \<longleftrightarrow>
        n = k \<or> n \<notin> outputs_of g \<and> k \<notin> outputs_of g \<and> signature_at g m n = signature_at g m k)"

lemma rename_unknown: "x \<notin> fst ` set m \<Longrightarrow> rename m x = x"
  by (simp add: rename_def map_of_eq_None_iff[THEN iffD2])

lemma mapping_rename:
  assumes "mapping_inv g sigs m" "n \<in> fst ` set m"
  shows "(n, rename m n) \<in> set m"
proof -
  obtain c where c: "(n, c) \<in> set m" using assms(2) by force
  then have "map_of m n = Some c" using assms(1) by (simp add: mapping_inv_def)
  then show ?thesis using c by (simp add: rename_def)
qed

lemma mapping_merges:
  assumes inv: "mapping_inv g sigs m" and keys: "fst ` set m = node_ids g"
  shows "merges g m"
proof -
  note I = inv[unfolded mapping_inv_def]
  have out: "rename m n = n" if "n \<in> node_ids g" "n \<in> outputs_of g" for n
    using mapping_rename[OF inv, of n] that I keys by auto
  have other: "rename m n \<notin> outputs_of g \<and> (rename m n, rename m n) \<in> set m \<and> signature_at g m n = signature_at g m (rename m n)
      \<and> map_of sigs (signature_at g m n) = Some (rename m n)" if "n \<in> node_ids g" "n \<notin> outputs_of g" for n
    using mapping_rename[OF inv, of n] that I keys by auto
  have fix_c: "rename m c = c" if "(c, c) \<in> set m" for c
    using that I by (simp add: rename_def)
  have "rename m n \<in> node_ids g \<and> rename m (rename m n) = rename m n" if n: "n \<in> node_ids g" for n
  proof (cases "n \<in> outputs_of g")
    case True
    then show ?thesis using out n by simp
  next
    case False
    then have "(rename m n, rename m n) \<in> set m" using other n by blast
    moreover from this have "rename m n \<in> node_ids g" unfolding keys[symmetric] by force
    ultimately show ?thesis using fix_c by blast
  qed
  moreover have "rename m n = rename m k \<longleftrightarrow> n = k \<or> n \<notin> outputs_of g \<and> k \<notin> outputs_of g \<and> signature_at g m n = signature_at g m k"
    if "n \<in> node_ids g" "k \<in> node_ids g" for n k
    using out[OF that(1)] out[OF that(2)] other[OF that(1)] other[OF that(2)]
    by (cases "n \<in> outputs_of g"; cases "k \<in> outputs_of g") (metis option.inject)+
  ultimately show ?thesis using keys by (simp add: merges_def)
qed

text \<open>In a topological order the mapping already knows the dependencies of a node when it reaches it.\<close>

lemma known_deps:
  assumes keys: "map fst m = order" and d: "distinct order" and ids: "set order = node_ids g"
    and topo: "topo_respects {(u, v). (u, v) \<in> depends g \<and> u \<in> node_ids g} order" and e: "(q, k) \<in> depends g"
  shows "rename (known m k) q = rename m q" "q \<in> node_ids g \<Longrightarrow> q \<in> fst ` set (known m k)"
proof -
  have "k \<in> set order" using e ids by (force simp: depends_def node_ids_def dest: map_of_SomeD)
  then obtain i where i: "i < length order" "order ! i = k" by (auto simp: in_set_conv_nth)
  have l: "i < length m" using i keys by auto
  have k: "fst (m ! i) = k" using i l keys by auto
  have "k \<notin> set (take i order)" using i d by (metis distinct_take id_take_nth_drop not_distinct_conv_prefix)
  then have "k \<notin> fst ` set (take i m)" using keys by (metis list.set_map take_map)
  moreover have m: "m = take i m @ (k, snd (m ! i)) # drop (Suc i) m" using id_take_nth_drop[OF l] k by (metis prod.collapse)
  ultimately have kn: "known m k = take i m" using known_new by metis
  have "q \<in> set (take i order)" if "q \<in> node_ids g"
    using topo i e that unfolding topo_respects_def by blast
  then have mem: "q \<in> node_ids g \<Longrightarrow> q \<in> fst ` set (take i m)" using keys by (metis list.set_map take_map)
  then show "q \<in> node_ids g \<Longrightarrow> q \<in> fst ` set (known m k)" using kn by simp
  show "rename (known m k) q = rename m q"
  proof (cases "q \<in> node_ids g")
    case True
    then obtain c where c: "map_of (take i m) q = Some c" using mem by (metis map_of_eq_None_iff not_None_eq)
    then have "map_of m q = Some c" by (subst m) simp
    then show ?thesis using c kn by (simp add: rename_def)
  next
    case False
    then have "q \<notin> fst ` set m" using keys ids by (metis list.set_map)
    moreover from this have "q \<notin> fst ` set (take i m)" by (auto dest: in_set_takeD)
    ultimately show ?thesis using kn rename_unknown by metis
  qed
qed

text \<open>Merged nodes have the same canonical dependencies.\<close>

lemma merged_deps:
  assumes mg: "merges g m" and keys: "map fst m = order" and d: "distinct order" and ids: "set order = node_ids g"
    and topo: "topo_respects {(u, v). (u, v) \<in> depends g \<and> u \<in> node_ids g} order"
    and ops: "map_of (rg_nodes g) n = Some op" "map_of (rg_nodes g) k = Some op'" and eq: "rename m n = rename m k"
  shows "map (rename m) (op_dependencies op) = map (rename m) (op_dependencies op')"
proof (cases "n = k")
  case False
  have "n \<in> node_ids g" "k \<in> node_ids g" using ops by (force simp: node_ids_def dest: map_of_SomeD)+
  then have "signature_at g m n = signature_at g m k" using mg eq False unfolding merges_def by blast
  then have "map (rename (known m n)) (op_dependencies op) = map (rename (known m k)) (op_dependencies op')"
    using ops by (simp add: signature_at_def runtime_signature_def)
  moreover have "rename (known m x) q = rename m q" if "map_of (rg_nodes g) x = Some o'" "q \<in> set (op_dependencies o')" for x o' q
    by (rule known_deps(1)[OF keys d ids topo]) (use that in \<open>auto simp: depends_def\<close>)
  then have "map (rename (known m n)) (op_dependencies op) = map (rename m) (op_dependencies op)"
    "map (rename (known m k)) (op_dependencies op') = map (rename m) (op_dependencies op')" using ops by simp_all
  ultimately show ?thesis by simp
qed (use ops in simp)

subsection \<open>The quotient graph\<close>

lemma rebuild_nodes_total:
  assumes "\<forall>n \<in> set ns. \<exists>c op. map_of m n = Some c \<and> map_of (rg_nodes g) c = Some op"
  shows "\<exists>nodes. rebuild_nodes g m ns acc = Inr nodes"
  using assms by (induction g m ns acc rule: rebuild_nodes.induct) (auto simp: lookup_def)

lemma rebuild_nodes_keys:
  "rebuild_nodes g m ns acc = Inr nodes \<Longrightarrow> map fst nodes = foldl append_new (map fst acc) (map (rename m) ns)"
proof (induction g m ns acc rule: rebuild_nodes.induct)
  case (2 g m n ns acc)
  obtain c where c: "lookup m n = Inr c" using "2.prems" by (auto split: sum.splits)
  then have r: "rename m n = c" by (simp add: lookup_def rename_def split: option.splits)
  show ?case
  proof (cases "c \<in> fst ` set acc")
    case True
    then show ?thesis using "2.IH"(1)[OF c True] "2.prems" c r by (simp add: append_new_def)
  next
    case False
    obtain op where op: "lookup (rg_nodes g) c = Inr op" using "2.prems" c False by (auto split: sum.splits)
    then show ?thesis using "2.IH"(2)[OF c False op] "2.prems" c r False by (simp add: append_new_def)
  qed
qed simp

lemma rebuild_nodes_ops:
  assumes "rebuild_nodes g m ns acc = Inr nodes" "(c, o') \<in> set nodes"
    "\<forall>(c, o') \<in> set acc. \<exists>op. map_of (rg_nodes g) c = Some op \<and> o' = remapped_op m c op"
  shows "\<exists>op. map_of (rg_nodes g) c = Some op \<and> o' = remapped_op m c op"
  using assms
proof (induction g m ns acc rule: rebuild_nodes.induct)
  case (2 g m n ns acc)
  obtain d where d: "lookup m n = Inr d" using "2.prems"(1) by (auto split: sum.splits)
  show ?case
  proof (cases "d \<in> fst ` set acc")
    case True
    then show ?thesis using "2.IH"(1)[OF d True] "2.prems" d by simp
  next
    case False
    obtain op where op: "lookup (rg_nodes g) d = Inr op" using "2.prems"(1) d False by (auto split: sum.splits)
    then have "map_of (rg_nodes g) d = Some op" by (simp add: lookup_def split: option.splits)
    then show ?thesis using "2.IH"(2)[OF d False op] "2.prems" d op False by simp
  qed
qed auto

text \<open>A quotient of a list in dependency order is in dependency order.\<close>

lemma quotient_topo:
  assumes "topo_respects E xs"
    and "\<And>q k n. (q, k) \<in> F \<Longrightarrow> n \<in> set xs \<Longrightarrow> f n = k \<Longrightarrow> \<exists>p. (p, n) \<in> E \<and> f p = q"
  shows "topo_respects F (foldl append_new [] (map f xs))"
  using assms
proof (induction xs rule: rev_induct)
  case (snoc x xs)
  let ?ys = "foldl append_new [] (map f xs)"
  have t: "topo_respects E xs" "\<forall>p. (p, x) \<in> E \<longrightarrow> p \<in> set xs" using snoc.prems(1) by (simp_all add: topo_respects_snoc_iff)
  have ys: "topo_respects F ?ys" by (rule snoc.IH[OF t(1)]) (use snoc.prems(2) in auto)
  have "q \<in> set ?ys" if q: "(q, f x) \<in> F" for q
  proof -
    obtain p where "(p, x) \<in> E" "f p = q" using snoc.prems(2)[OF q, of x] by auto
    then show ?thesis using t(2) by (auto simp: set_foldl_append_new)
  qed
  then have "topo_respects F (?ys @ [f x])" using ys by (intro topo_respects_snoc)
  then show ?case using ys by (simp add: append_new_def[of ?ys "f x"])
qed simp

definition quotient :: "runtime_graph \<Rightarrow> (string, string) dict \<Rightarrow> runtime_graph \<Rightarrow> bool" where
  "quotient g m h \<longleftrightarrow>
     node_ids h = rename m ` node_ids g \<and> distinct (rg_node_order h) \<and> set (rg_node_order h) = node_ids h \<and> rg_wf h
   \<and> depends h = {(rename m p, rename m n) |p n. (p, n) \<in> depends g}
   \<and> acyclic (depends h) \<and> rg_output_node_map h = rg_output_node_map g
   \<and> (topo_respects {(p, n) \<in> depends g. p \<in> node_ids g} (rg_node_order g)
        \<longrightarrow> topo_respects {(p, n) \<in> depends h. p \<in> node_ids h} (rg_node_order h))"

lemma rename_keys_id:
  assumes "distinct (map fst d)" "\<forall>k \<in> fst ` set d. map_of m k = Some k"
  shows "rename_keys m d = Inr d"
proof -
  have "map_result (\<lambda>(n, v). case lookup m n of Inl e \<Rightarrow> Inl e | Inr c \<Rightarrow> Inr (c, v)) d = Inr d"
    using assms(2) by (induction d) (auto simp: lookup_def)
  moreover have "foldl (\<lambda>d x. AList.update (fst x) (snd x) d) [] d = d"
    using foldl_update_new[of "[]" fst d snd] assms(1) by simp
  ultimately show ?thesis by (simp add: rename_keys_def case_prod_unfold)
qed

lemma rename_keys_total: "\<forall>k \<in> fst ` set d. \<exists>c. map_of m k = Some c \<Longrightarrow> \<exists>d'. rename_keys m d = Inr d'"
proof -
  assume "\<forall>k \<in> fst ` set d. \<exists>c. map_of m k = Some c"
  then have "\<forall>x \<in> set d. \<exists>y. (case x of (n, v) \<Rightarrow> case lookup m n of Inl e \<Rightarrow> Inl e | Inr c \<Rightarrow> Inr (c, v)) = Inr y"
    by (auto simp: lookup_def dest!: bspec)
  from map_result_total[OF this] show ?thesis by (auto simp: rename_keys_def)
qed

text \<open>A rank that grows along every edge of the quotient.\<close>

definition rank_in :: "string list \<Rightarrow> string \<Rightarrow> nat" where
  "rank_in order x = (if x \<in> set order then Suc (length (takeWhile (\<lambda>y. y \<noteq> x) order)) else 0)"

lemma known_before:
  assumes "map fst m = order" "q \<in> set order" "c \<in> fst ` set (known m q)"
  shows "rank_in order c < rank_in order q"
proof -
  have k: "map fst (known m q) = takeWhile (\<lambda>y. y \<noteq> q) order"
    unfolding known_def assms(1)[symmetric] by (simp add: takeWhile_map comp_def case_prod_unfold)
  then have c: "c \<in> set (takeWhile (\<lambda>y. y \<noteq> q) order)" using assms(3) by (metis list.set_map)
  have "length (takeWhile (\<lambda>y. y \<noteq> c) xs) < length (takeWhile (\<lambda>y. y \<noteq> q) xs)" if "c \<in> set (takeWhile (\<lambda>y. y \<noteq> q) xs)" for xs
    using that by (induction xs) (auto split: if_splits)
  then show ?thesis using c assms(2) by (auto simp: rank_in_def dest: set_takeWhileD)
qed

lemma dedupe_ok:
  assumes r: "graph_ready g" and ac: "acyclic (depends g)"
  shows "\<exists>h m. dedupe_runtime_graph g = Inr (h, m) \<and> merges g m \<and> quotient g m h"
proof -
  have wf: "rg_wf g" using r by (simp add: graph_ready_def)
  obtain order where o: "topological_order g = Inr order"
    using topological_order_aux[OF wf] ac by (cases "topological_order g") auto
  then have ord: "distinct order" "set order = node_ids g"
    "topo_respects {(u, v). (u, v) \<in> depends g \<and> u \<in> node_ids g} order" using topological_order_aux[OF wf] by simp_all
  have node: "\<exists>op. map_of (rg_nodes g) n = Some op" if "n \<in> node_ids g" for n
    using that by (metis map_of_eq_None_iff node_ids_def not_None_eq)
  obtain m where m: "dedupe_loop g order [] [] = Inr m" using dedupe_loop_total[of order g "[]" "[]"] node ord(2) by blast
  have "mapping_inv g [] []" by (simp add: mapping_inv_def)
  then obtain sigs where inv: "mapping_inv g sigs m" and keys: "map fst m = order" using dedupe_loop_inv[OF m] ord(1) by auto
  have ks: "fst ` set m = node_ids g" using keys ord(2) by (metis list.set_map)
  have mg: "merges g m" by (rule mapping_merges[OF inv ks])
  note deps = merged_deps[OF mg keys ord(1,2,3)]
  have lk: "\<exists>c. map_of m n = Some c \<and> rename m n = c" if "n \<in> node_ids g" for n
    using that ks by (metis map_of_eq_None_iff not_None_eq option.simps(5) rename_def)
  have out: "rename m n = n" if "n \<in> outputs_of g" for n
  proof -
    have "n \<in> fst ` set m" unfolding ks using that r unfolding graph_ready_def by blast
    from mapping_rename[OF inv this] have "if n \<in> outputs_of g then rename m n = n else True"
      using inv unfolding mapping_inv_def by (auto split: if_splits)
    then show ?thesis using that by (simp only: if_True)
  qed
  show ?thesis
  proof (cases "\<forall>(n, c) \<in> set m. n = c")
    case True
    have "rename m x = x" for x
      using True mapping_rename[OF inv, of x] rename_unknown[of x m] by (cases "x \<in> fst ` set m") auto
    then have "quotient g m g" using r ac by (simp add: quotient_def graph_ready_def)
    then show ?thesis using o m mg True by (simp add: dedupe_runtime_graph_def)
  next
    case False
    obtain nodes where nodes: "rebuild_nodes g m (rg_node_order g) [] = Inr nodes"
      using rebuild_nodes_total[of "rg_node_order g" m g "[]"] lk node mg r unfolding graph_ready_def merges_def by metis
    have rn: "rename_keys m (rg_output_node_map g) = Inr (rg_output_node_map g)"
    proof (rule rename_keys_id)
      show "distinct (map fst (rg_output_node_map g))" using r by (simp add: graph_ready_def)
      show "\<forall>k \<in> outputs_of g. map_of m k = Some k"
      proof
        fix k assume k: "k \<in> outputs_of g"
        then have "k \<in> node_ids g" using r unfolding graph_ready_def by blast
        then show "map_of m k = Some k" using lk out[OF k] by fastforce
      qed
    qed
    obtain paths where paths: "rename_keys m (rg_output_paths g) = Inr paths"
      using rename_keys_total[of "rg_output_paths g" m] lk r unfolding graph_ready_def by blast
    let ?h = "\<lparr>rg_nodes = nodes, rg_node_order = map fst nodes, rg_output_node_map = rg_output_node_map g, rg_output_paths = paths,
                      rg_dsl_to_runtime = map (\<lambda>(d, rs). (d, foldl append_new [] (map (rename m) rs))) (rg_dsl_to_runtime g)\<rparr>"
    have h: "dedupe_runtime_graph g = Inr (?h, m)"
      unfolding dedupe_runtime_graph_def o m sum.case if_not_P[OF False] nodes rn paths by (rule refl)
    have nk: "map fst nodes = foldl append_new [] (map (rename m) (rg_node_order g))" using rebuild_nodes_keys[OF nodes] by simp
    have d: "distinct (map fst nodes)" by (simp add: nk distinct_foldl_append_new)
    have ids: "node_ids ?h = rename m ` node_ids g"
      using arg_cong[OF nk, of set] r by (simp add: node_ids_def graph_ready_def set_foldl_append_new)
    have ops: "map_of nodes c = Some o' \<longleftrightarrow> (\<exists>op. c \<in> rename m ` node_ids g \<and> map_of (rg_nodes g) c = Some op \<and> o' = remapped_op m c op)" for c o'
    proof -
      have "\<exists>op. map_of (rg_nodes g) c = Some op \<and> o' = remapped_op m c op" if "map_of nodes c = Some o'" for o'
        by (rule rebuild_nodes_ops[OF nodes map_of_SomeD[OF that]]) simp
      moreover have "c \<in> rename m ` node_ids g \<longleftrightarrow> (\<exists>o'. map_of nodes c = Some o')"
        using ids by (simp add: node_ids_def) (metis map_of_eq_None_iff not_None_eq)
      ultimately show ?thesis by (metis option.inject)
    qed
    have edges: "(p, n) \<in> depends ?h \<longleftrightarrow> (\<exists>op. n \<in> rename m ` node_ids g \<and> map_of (rg_nodes g) n = Some op \<and> p \<in> rename m ` set (op_dependencies op))"
      for p n by (auto simp: depends_def ops remapped_op_def set_foldl_append_new)
    have edgeE: "\<exists>op q. n \<in> rename m ` node_ids g \<and> map_of (rg_nodes g) n = Some op \<and> q \<in> set (op_dependencies op) \<and> p = rename m q"
      if e: "(p, n) \<in> depends ?h" for p n
    proof -
      obtain op where op: "n \<in> rename m ` node_ids g" "map_of (rg_nodes g) n = Some op" "p \<in> rename m ` set (op_dependencies op)"
        using edges[THEN iffD1, OF e] by (elim exE conjE)
      from op(3) obtain q where "p = rename m q" "q \<in> set (op_dependencies op)" by (rule imageE)
      then show ?thesis using op(1,2) by (intro exI conjI)
    qed
    have idem: "rename m n = n" if "n \<in> rename m ` node_ids g" for n using that mg unfolding merges_def by blast
    have cls: "p \<in> rename m ` set (op_dependencies op)" if e: "(p, rename m n) \<in> depends ?h" and n: "map_of (rg_nodes g) n = Some op" for p n op
    proof -
      obtain op' where op': "rename m n \<in> rename m ` node_ids g" "map_of (rg_nodes g) (rename m n) = Some op'"
        "p \<in> rename m ` set (op_dependencies op')"
        using edges[THEN iffD1, OF e] by (elim exE conjE)
      have "rename m n = rename m (rename m n)" using idem[OF op'(1)] by simp
      from deps[OF n op'(2) this] have "set (map (rename m) (op_dependencies op)) = set (map (rename m) (op_dependencies op'))" by simp
      then show ?thesis using op'(3) by simp
    qed
    have dep: "depends ?h = {(rename m p, rename m n) |p n. (p, n) \<in> depends g}"
    proof (intro set_eqI iffI; clarify)
      fix p n assume e: "(p, n) \<in> depends ?h"
      obtain op q where "n \<in> rename m ` node_ids g" "map_of (rg_nodes g) n = Some op" "q \<in> set (op_dependencies op)" "p = rename m q"
        using edgeE[OF e] by (elim exE conjE)
      moreover from this(1) have "rename m n = n" by (rule idem)
      ultimately show "\<exists>q k. (p, n) = (rename m q, rename m k) \<and> (q, k) \<in> depends g"
        by (intro exI[of _ q] exI[of _ n]) (simp add: depends_def)
    next
      fix p n assume "(p, n) \<in> depends g"
      then obtain op where op: "map_of (rg_nodes g) n = Some op" "p \<in> set (op_dependencies op)" by (auto simp: depends_def)
      have n: "n \<in> node_ids g" by (rule node_idsI[OF op(1)])
      then obtain op' where op': "map_of (rg_nodes g) (rename m n) = Some op'" using node[of "rename m n"] mg n unfolding merges_def by blast
      have "rename m n = rename m (rename m n)" using n mg unfolding merges_def by metis
      from deps[OF op(1) op' this] have "set (map (rename m) (op_dependencies op)) = set (map (rename m) (op_dependencies op'))" by simp
      then have "rename m p \<in> rename m ` set (op_dependencies op')" using op(2) by (metis image_eqI list.set_map)
      then show "(rename m p, rename m n) \<in> depends ?h" using op' n by (intro edges[THEN iffD2] exI[of _ op'] conjI) auto
    qed
    have "rank_in order p < rank_in order n" if e: "(p, n) \<in> depends ?h" for p n
    proof -
      obtain op q where n: "n \<in> rename m ` node_ids g" "map_of (rg_nodes g) n = Some op" "q \<in> set (op_dependencies op)" "p = rename m q"
        using edgeE[OF e] by (elim exE conjE)
      then have qn: "(q, n) \<in> depends g" by (auto simp: depends_def)
      have n': "n \<in> set order" unfolding ord(2) by (rule node_idsI[OF n(2)])
      show ?thesis
      proof (cases "q \<in> node_ids g")
        case True
        then have "rank_in order q < rank_in order n" by (rule known_before[OF keys n' known_deps(2)[OF keys ord(1,2,3) qn]])
        moreover have "rank_in order p \<le> rank_in order q"
        proof (cases "p = q")
          case False
          have "(q, p) \<in> set m" using mapping_rename[OF inv, of q] True ks n(4) by simp
          then have "(p, p) \<in> set (known m q)" using inv False unfolding mapping_inv_def by (auto split: if_splits)
          then have "p \<in> fst ` set (known m q)" by force
          from known_before[OF keys _ this] show ?thesis using True ord(2) by simp
        qed simp
        ultimately show ?thesis by simp
      next
        case False
        then have "p = q" "p \<notin> set order" using n(4) ks ord(2) rename_unknown by auto
        then show ?thesis using n' by (simp add: rank_in_def)
      qed
    qed
    then have "depends ?h \<subseteq> measure (rank_in order)" by auto
    then have acy: "acyclic (depends ?h)" by (meson wf_acyclic wf_measure wf_subset)
    have "topo_respects {(p, n) \<in> depends ?h. p \<in> node_ids ?h} (map fst nodes)"
      if t: "topo_respects {(p, n) \<in> depends g. p \<in> node_ids g} (rg_node_order g)"
    proof (rule subst[OF nk[symmetric], of "topo_respects _"], rule quotient_topo[OF t])
      fix q k n assume q': "(q, k) \<in> {(p, n) \<in> depends ?h. p \<in> node_ids ?h}" and q2: "n \<in> set (rg_node_order g)" "rename m n = k"
      from q' have q: "(q, rename m n) \<in> depends ?h" "q \<in> rename m ` node_ids g" unfolding ids q2(2) by simp_all
      have "n \<in> node_ids g" using q2(1) r by (simp add: graph_ready_def)
      then obtain op where op: "map_of (rg_nodes g) n = Some op" using node by blast
      from cls[OF q(1) op] obtain p where p: "q = rename m p" "p \<in> set (op_dependencies op)" by (rule imageE)
      have "q \<in> node_ids g" using q(2) mg unfolding merges_def by (metis imageE)
      then have "p \<in> node_ids g" using p(1) ks rename_unknown[of p m] by metis
      then show "\<exists>p. (p, n) \<in> {(p, n) \<in> depends g. p \<in> node_ids g} \<and> rename m p = q" using p op by (auto simp: depends_def)
    qed
    then have "quotient g m ?h" using ids d dep acy by (simp add: quotient_def node_ids_def rg_wf_def)
    then show ?thesis using h mg by blast
  qed
qed

text \<open>
  C36. \<open>optimize_graphs\<close> deduplicates a graph whenever its dependencies are acyclic. The mapping it
  returns merges two nodes exactly when neither is an output and their signatures (under the mapping of
  the nodes before them) agree; the graph it returns is the quotient: its nodes are the canonical
  nodes, its edges the images of the edges, it is acyclic, keeps the outputs, and its node order lists
  dependencies first if the given one does. On a cycle it raises.
\<close>

theorem dedupe_quotient:
  assumes "graph_ready g"
  shows "case dedupe_runtime_graph g of
       Inl e \<Rightarrow> \<not> acyclic (depends g)
     | Inr (h, m) \<Rightarrow> acyclic (depends g) \<and> merges g m \<and> quotient g m h"
proof (cases "acyclic (depends g)")
  case True
  then show ?thesis using dedupe_ok[OF assms True] by auto
next
  case False
  have "rg_wf g" using assms by (simp add: graph_ready_def)
  then obtain e where "topological_order g = Inl e" using topological_order_aux[of g] False by (cases "topological_order g") auto
  then show ?thesis using False by (simp add: dedupe_runtime_graph_def)
qed

text \<open>Two equal queries feed two reports, of which only the second is an output: the queries merge.\<close>

definition demo_merge_graph :: runtime_graph where
  "demo_merge_graph = (graph0 [(''a'', []), (''b'', []), (''c'', [''a'']), (''d'', [''b''])])\<lparr>rg_output_node_map := [(''d'', ''out'')]\<rparr>"

lemma demo_merge_graph_ready: "graph_ready demo_merge_graph"
  by (simp add: graph_ready_def demo_merge_graph_def graph0_def rg_wf_def node_ids_def)

lemma demo_dedupe: "dedupe_runtime_graph demo_merge_graph =
    Inr (demo_merge_graph\<lparr>rg_nodes := [(''a'', op0 ''a'' []), (''c'', op0 ''c'' [''a'']), (''d'', op0 ''d'' [''a''])], rg_node_order := [''a'', ''c'', ''d'']\<rparr>,
      [(''a'', ''a''), (''b'', ''a''), (''c'', ''c''), (''d'', ''d'')])"
  by code_simp

lemma dedupe_quotient_witness:
  "\<exists>h m. dedupe_runtime_graph demo_merge_graph = Inr (h, m) \<and> rename m ''b'' = ''a''
     \<and> merges demo_merge_graph m \<and> quotient demo_merge_graph m h \<and> depends h = {(''a'', ''c''), (''a'', ''d'')}"
proof -
  let ?h = "demo_merge_graph\<lparr>rg_nodes := [(''a'', op0 ''a'' []), (''c'', op0 ''c'' [''a'']), (''d'', op0 ''d'' [''a''])], rg_node_order := [''a'', ''c'', ''d'']\<rparr>"
  let ?m = "[(''a'', ''a''), (''b'', ''a''), (''c'', ''c''), (''d'', ''d'')]"
  have "merges demo_merge_graph ?m \<and> quotient demo_merge_graph ?m ?h"
    using dedupe_quotient[OF demo_merge_graph_ready] unfolding demo_dedupe by simp
  moreover have "depends ?h = {(''a'', ''c''), (''a'', ''d'')}" by (auto simp: depends_def op0_def split: if_splits)
  moreover have "rename ?m ''b'' = ''a''" by (simp add: rename_def)
  ultimately show ?thesis using demo_dedupe by blast
qed

end
