(* ===== verification/Server_Requests.thy ===== *)
theory Server_Requests
  imports Capacity
begin

section \<open>Requests: collecting the results of their workflows\<close>

text \<open>
  The state \<open>LumilakeServer\<close> keeps for a request (\<open>RequestState\<close> of \<open>runtime/server.py\<close>) and the
  operations that change it when a batch ends: \<open>_handle_batch_results\<close> with its inner functions,
  \<open>_fail_unplaceable_batch\<close>, the timing and dispatch records, and the progress report.

  The handler of a request is a queue of responses; here every \<open>put_result\<close> appends a pair of the
  request id and the response to one log, \<open>rt_answers\<close>. Output values are strings (the annotated type of
  the buffers), history values are JSON, and a slot that holds no value yet is \<open>None\<close>. The error
  dicts are JSON objects with the keys of the source. The text of an exception arrives already
  redacted. \<open>affected_requests\<close> is walked in the order the requests first occur in the batch.
\<close>

type_synonym 'v payload = "(string, 'v option list) dict"
type_synonym 'v buffers = "(string, 'v payload) dict"

record response =
  rp_outputs :: "(string, (string, string list) dict) dict"
  rp_error_info :: "json list option"
  rp_histories :: "(string, (string, json list) dict) dict"

record dispatch_row =
  dr_workflow_id :: string
  dr_graph_name :: string
  dr_slice :: slice_meta
  dr_enqueued_at :: real
  dr_dispatched_at :: real
  dr_miss_count :: nat
  dr_batch_id :: string
  dr_execution_id :: string
  dr_batch_workflow_ids :: "string list"
  dr_workers :: "string list"
  dr_flowmesh_id :: "string option"

record request_state =
  rq_config :: request_config
  rq_pending :: "string set"
  rq_outputs :: "(string, (string, string list) dict) dict"
  rq_histories :: "(string, (string, json list) dict) dict"
  rq_output_buffers :: "string buffers"
  rq_history_buffers :: "json buffers"
  rq_workflow_lengths :: "(string, int) dict"
  rq_error_info :: "json list option"
  rq_task_node_map :: "(string, (string, string) dict) dict"
  rq_pending_raw :: int
  rq_processing_raw :: int
  rq_processing_opt :: int
  rq_processed_raw :: int
  rq_processed_opt :: int
  rq_optimization_s :: real
  rq_selection_s :: real
  rq_clustering_s :: real
  rq_dispatches :: "dispatch_row list"
  rq_batch_counts :: "(string, int \<times> int) dict"
  rq_total_items :: int
  rq_completed_items :: int
  rq_successful :: "string set"
  rq_list_lambda :: "(string, string set) dict"
  rq_ready :: bool

record request_table =
  rt_requests :: "(string, request_state) dict"
  rt_answers :: "(string \<times> response) list"

subsection \<open>Errors\<close>

definition append_errors :: "json list \<Rightarrow> request_state \<Rightarrow> request_state" where
  "append_errors es st =
     (if es = [] then st
      else st\<lparr>rq_error_info := Some ((case rq_error_info st of None \<Rightarrow> [] | Some old \<Rightarrow> old) @ es)\<rparr>)"

definition public_name :: "workflow_item \<Rightarrow> string" where
  "public_name w = sm_public_graph_name (wi_slice w)"

definition where_fields :: "workflow_item \<Rightarrow> (string \<times> json) list" where
  "where_fields w = [(''graph'', JStr (public_name w)), (''slice_index'', JInt (sm_slice_index (wi_slice w))),
     (''workflow_id'', JStr (wi_id w))]"

definition slice_error :: "workflow_item \<Rightarrow> string \<Rightarrow> json" where
  "slice_error w msg = JDict (where_fields w @ [(''error'', JStr msg)])"

definition output_error :: "workflow_item \<Rightarrow> string \<Rightarrow> string \<Rightarrow> json" where
  "output_error w name msg = JDict (where_fields w @ [(''output'', JStr name), (''error'', JStr msg)])"

definition opt_json :: "string option \<Rightarrow> json" where
  "opt_json x = (case x of None \<Rightarrow> JNull | Some s \<Rightarrow> JStr s)"

text \<open>\<open>str\<close> of a list of indices.\<close>

fun comma_join :: "string list \<Rightarrow> string" where
  "comma_join [] = []"
| "comma_join [s] = s"
| "comma_join (s # ss) = s @ '', '' @ comma_join ss"

definition index_list :: "nat list \<Rightarrow> string" where
  "index_list is = ''['' @ comma_join (map nat_str is) @ '']''"

definition mismatch_text :: "string \<Rightarrow> int \<Rightarrow> nat \<Rightarrow> string" where
  "mismatch_text what expected got = what @ '': expected='' @ int_str expected @ '' got='' @ nat_str got"

subsection \<open>Merging the payload of a slice\<close>

definition write_at :: "nat \<Rightarrow> 'v list \<Rightarrow> 'v list \<Rightarrow> 'v list" where
  "write_at start vs target = foldl (\<lambda>t (i, v). t[i := v]) target (enumerate start vs)"

definition overlap :: "nat \<Rightarrow> nat \<Rightarrow> 'v option list \<Rightarrow> nat list" where
  "overlap start stop target = filter (\<lambda>i. target ! i \<noteq> None) [start..<stop]"

definition slice_stop :: "workflow_item \<Rightarrow> int" where
  "slice_stop w = sm_slice_start (wi_slice w) + sm_slice_length (wi_slice w)"

text \<open>What the loop over the outputs of a payload carries.\<close>

record 'v merging =
  mg_errors :: "json list"
  mg_buffers :: "'v payload"
  mg_ok :: bool

definition merge_fail :: "json \<Rightarrow> 'v merging \<Rightarrow> 'v merging" where
  "merge_fail e m = m\<lparr>mg_errors := mg_errors m @ [e], mg_ok := False\<rparr>"

definition merge_lambda :: "workflow_item \<Rightarrow> string \<Rightarrow> 'v option list \<Rightarrow> 'v merging \<Rightarrow> py_error option \<times> 'v merging" where
  "merge_lambda w name vs m =
     (if length vs \<noteq> 1
      then (None, merge_fail (output_error w name (mismatch_text ''list-Lambda output length mismatch'' 1 (length vs))) m)
      else let target = dict_get (mg_buffers m) name [None]
           in if target = [] then (Some IndexError, m)
              else let m1 = (if target ! 0 \<noteq> None
                             then merge_fail (output_error w name ''overlapping slice assignment'') m else m)
                   in (None, m1\<lparr>mg_buffers := AList.update name (target[0 := vs ! 0]) (mg_buffers m1)\<rparr>))"

definition merge_values :: "workflow_item \<Rightarrow> string \<Rightarrow> 'v option list \<Rightarrow> 'v merging \<Rightarrow> py_error option \<times> 'v merging" where
  "merge_values w name vs m =
     (let len = sm_slice_length (wi_slice w);
          len_all = nat (sm_total_length (wi_slice w));
          start = nat (sm_slice_start (wi_slice w))
      in if int (length vs) \<noteq> len
         then (None, merge_fail (output_error w name (mismatch_text ''slice payload length mismatch'' len (length vs))) m)
         else let target = dict_get (mg_buffers m) name (replicate len_all None)
              in if length target \<noteq> len_all
                 then (Some (RuntimeError (''Inconsistent buffer size for '' @ public_name w @ '':'' @ name)), m)
                 else let ov = overlap start (nat (slice_stop w)) target;
                          m1 = (if ov \<noteq> []
                                then merge_fail (output_error w name
                                       (''overlapping slice assignment at indices '' @ index_list ov)) m
                                else m)
                      in (None, m1\<lparr>mg_buffers := AList.update name (write_at start vs target) (mg_buffers m1)\<rparr>))"

fun merge_outputs ::
  "string set \<Rightarrow> workflow_item \<Rightarrow> 'v payload \<Rightarrow> 'v merging \<Rightarrow> py_error option \<times> 'v merging" where
  "merge_outputs lam w [] m = (None, m)"
| "merge_outputs lam w ((name, vs) # rest) m =
     (case (if name \<in> lam then merge_lambda w name vs m else merge_values w name vs m) of
        (Some e, m') \<Rightarrow> (Some e, m')
      | (None, m') \<Rightarrow> merge_outputs lam w rest m')"

text \<open>
  \<open>merge_slice_payload\<close>: the error raised, if any, the errors appended, the buffers, and whether
  the payload was merged without errors.
\<close>

definition merge_slice_payload ::
  "string set \<Rightarrow> workflow_item \<Rightarrow> 'v payload \<Rightarrow> 'v buffers \<Rightarrow> py_error option \<times> json list \<times> 'v buffers \<times> bool" where
  "merge_slice_payload lam w payload bufs =
     (if sm_total_length (wi_slice w) \<le> 0 then (None, [slice_error w ''invalid total slice length''], bufs, False)
      else if sm_slice_start (wi_slice w) < 0 \<or> sm_total_length (wi_slice w) < slice_stop w
      then (None, [slice_error w ''slice range out of bounds''], bufs, False)
      else case merge_outputs lam w payload
               \<lparr>mg_errors = [], mg_buffers = dict_get bufs (public_name w) [], mg_ok = True\<rparr> of
             (e, m) \<Rightarrow> (e, mg_errors m, AList.update (public_name w) (mg_buffers m) bufs, mg_ok m))"

definition mark_successful :: "workflow_item \<Rightarrow> request_state \<Rightarrow> request_state" where
  "mark_successful w st =
     (if wi_id w \<in> rq_successful st then st
      else st\<lparr>rq_successful := insert (wi_id w) (rq_successful st),
              rq_completed_items := rq_completed_items st + max 0 (sm_slice_length (wi_slice w))\<rparr>)"

subsection \<open>The outcome of a batch\<close>

record batch_outcome =
  bo_outputs :: "(string, string payload) dict"
  bo_histories :: "(string, json payload) dict"
  bo_error :: "string option"
  bo_batch_id :: "string option"
  bo_task_node_map :: "(string, string) dict"
  bo_cancelled :: "string set"
  bo_execution_id :: "string option"

definition lambda_names :: "workflow_item \<Rightarrow> request_state \<Rightarrow> string set" where
  "lambda_names w st = dict_get (rq_list_lambda st) (wi_id w) {}"

definition merge_output_payload :: "workflow_item \<Rightarrow> string payload \<Rightarrow> request_state \<Rightarrow> py_error option \<times> request_state" where
  "merge_output_payload w payload st =
     (case merge_slice_payload (lambda_names w st) w payload (rq_output_buffers st) of
        (e, errs, bufs, ok) \<Rightarrow>
          (let st1 = (append_errors errs st)\<lparr>rq_output_buffers := bufs\<rparr>
           in (e, if e = None \<and> ok then mark_successful w st1 else st1)))"

definition merge_history_payload :: "workflow_item \<Rightarrow> json payload \<Rightarrow> request_state \<Rightarrow> py_error option \<times> request_state" where
  "merge_history_payload w payload st =
     (case merge_slice_payload (lambda_names w st) w payload (rq_history_buffers st) of
        (e, errs, bufs, ok) \<Rightarrow> (e, (append_errors errs st)\<lparr>rq_history_buffers := bufs\<rparr>))"

definition discard_pending :: "workflow_item \<Rightarrow> request_state \<Rightarrow> request_state" where
  "discard_pending w st = st\<lparr>rq_pending := rq_pending st - {wi_id w}\<rparr>"

definition cancel_error :: "batch_outcome \<Rightarrow> workflow_item \<Rightarrow> json" where
  "cancel_error oc w = JDict ([(''request_cancelled'', JStr (wi_request_id w)),
     (''execution_request_id'', opt_json (bo_execution_id oc))] @ where_fields w)"

definition batch_error :: "batch_outcome \<Rightarrow> workflow_item \<Rightarrow> string \<Rightarrow> json" where
  "batch_error oc w msg = JDict ([(''batch_error'', JStr msg),
     (''execution_request_id'', opt_json (bo_execution_id oc))] @ where_fields w)"

definition missing_error :: "batch_outcome \<Rightarrow> workflow_item \<Rightarrow> json" where
  "missing_error oc w = JDict [(''missing_output'', JStr (wi_id w)),
     (''execution_request_id'', opt_json (bo_execution_id oc)), (''graph'', JStr (public_name w)),
     (''slice_index'', JInt (sm_slice_index (wi_slice w)))]"

text \<open>The outputs of one workflow that was not cancelled.\<close>

definition take_outputs :: "batch_outcome \<Rightarrow> workflow_item \<Rightarrow> request_state \<Rightarrow> py_error option \<times> request_state" where
  "take_outputs oc w st =
     (case map_of (bo_outputs oc) (wi_id w) of
        Some payload \<Rightarrow> merge_output_payload w payload st
      | None \<Rightarrow> (None, if bo_error oc = None then append_errors [missing_error oc w] st else st))"

definition take_histories :: "batch_outcome \<Rightarrow> workflow_item \<Rightarrow> request_state \<Rightarrow> py_error option \<times> request_state" where
  "take_histories oc w st =
     (case map_of (bo_histories oc) (wi_id w) of
        Some payload \<Rightarrow> merge_history_payload w payload st
      | None \<Rightarrow> (None, st))"

text \<open>The body of the loop over the workflows, for a request that is known.\<close>

definition record_workflow :: "batch_outcome \<Rightarrow> workflow_item \<Rightarrow> request_state \<Rightarrow> py_error option \<times> request_state" where
  "record_workflow oc w st =
     (if wi_request_id w \<in> bo_cancelled oc
      then (None, discard_pending w (append_errors [cancel_error oc w] st))
      else let st1 = (case bo_error oc of None \<Rightarrow> st | Some msg \<Rightarrow> append_errors [batch_error oc w msg] st)
           in case take_outputs oc w st1 of
                (Some e, st2) \<Rightarrow> (Some e, st2)
              | (None, st2) \<Rightarrow>
                  (case take_histories oc w st2 of
                     (Some e, st3) \<Rightarrow> (Some e, st3)
                   | (None, st3) \<Rightarrow> (None, discard_pending w st3)))"

fun record_workflows ::
  "batch_outcome \<Rightarrow> workflow_item list \<Rightarrow> (string, request_state) dict \<Rightarrow> py_error option \<times> (string, request_state) dict" where
  "record_workflows oc [] rs = (None, rs)"
| "record_workflows oc (w # ws) rs =
     (case map_of rs (wi_request_id w) of
        None \<Rightarrow> record_workflows oc ws rs
      | Some st \<Rightarrow>
          (case record_workflow oc w st of
             (Some e, st') \<Rightarrow> (Some e, AList.update (wi_request_id w) st' rs)
           | (None, st') \<Rightarrow> record_workflows oc ws (AList.update (wi_request_id w) st' rs)))"

definition affected :: "workflow_item list \<Rightarrow> (string, request_state) dict \<Rightarrow> string list" where
  "affected ws rs = foldl append_new [] (filter (\<lambda>r. r \<in> fst ` set rs) (map wi_request_id ws))"

definition with_request ::
  "string \<Rightarrow> (request_state \<Rightarrow> request_state) \<Rightarrow> (string, request_state) dict \<Rightarrow> (string, request_state) dict" where
  "with_request r f rs = (case map_of rs r of None \<Rightarrow> rs | Some st \<Rightarrow> AList.update r (f st) rs)"

definition task_map_error :: "batch_outcome \<Rightarrow> json" where
  "task_map_error oc = JDict [(''batch_id'', opt_json (bo_batch_id oc)),
     (''execution_request_id'', opt_json (bo_execution_id oc)),
     (''task_node_map'', JDict (map (\<lambda>(k, v). (k, JStr v)) (bo_task_node_map oc)))]"

subsection \<open>Answering a request\<close>

definition missing_indices :: "'v option list \<Rightarrow> nat list" where
  "missing_indices vs = filter (\<lambda>i. vs ! i = None) [0..<length vs]"

definition missing_errors :: "string \<Rightarrow> 'v buffers \<Rightarrow> json list" where
  "missing_errors what bufs =
     concat (map (\<lambda>(public, m). concat (map (\<lambda>(name, vs).
       if missing_indices vs = [] then []
       else [JDict [(''graph'', JStr public), (''output'', JStr name),
                    (''error'', JStr (''missing '' @ what @ '' indices '' @ index_list (missing_indices vs)))]]) m)) bufs)"

definition finalized :: "'v \<Rightarrow> 'v buffers \<Rightarrow> (string, (string, 'v list) dict) dict" where
  "finalized d bufs =
     map (\<lambda>(public, m). (public, map (\<lambda>(name, vs). (name, map (\<lambda>v. case v of None \<Rightarrow> d | Some x \<Rightarrow> x) vs)) m))
       (filter (\<lambda>(public, m). m \<noteq> []) bufs)"

definition finalize_state :: "request_state \<Rightarrow> request_state" where
  "finalize_state st =
     (append_errors (missing_errors ''output'' (rq_output_buffers st)
                     @ missing_errors ''chat history'' (rq_history_buffers st)) st)
       \<lparr>rq_outputs := finalized [] (rq_output_buffers st),
        rq_histories := finalized (JList []) (rq_history_buffers st)\<rparr>"

definition response_of :: "request_state \<Rightarrow> response" where
  "response_of st = \<lparr>rp_outputs = rq_outputs st, rp_error_info = rq_error_info st, rp_histories = rq_histories st\<rparr>"

definition put_result :: "string \<Rightarrow> response \<Rightarrow> request_table \<Rightarrow> request_table" where
  "put_result r resp t = t\<lparr>rt_answers := rt_answers t @ [(r, resp)]\<rparr>"

definition answerable :: "request_state \<Rightarrow> bool" where
  "answerable st \<longleftrightarrow> rq_pending st = {} \<and> rq_ready st"

definition answer_request :: "string \<Rightarrow> request_table \<Rightarrow> request_table" where
  "answer_request r t =
     (case map_of (rt_requests t) r of
        None \<Rightarrow> t
      | Some st \<Rightarrow>
          if answerable st
          then put_result r (response_of (finalize_state st))
                 (t\<lparr>rt_requests := AList.update r (finalize_state st) (rt_requests t)\<rparr>)
          else t)"

definition handle_batch_results ::
  "workflow_item list \<Rightarrow> batch_outcome \<Rightarrow> request_table \<Rightarrow> py_error option \<times> request_table" where
  "handle_batch_results ws oc t =
     (case record_workflows oc ws (rt_requests t) of
        (Some e, rs) \<Rightarrow> (Some e, t\<lparr>rt_requests := rs\<rparr>)
      | (None, rs) \<Rightarrow>
          (let aff = affected ws (rt_requests t);
               rs1 = (if bo_error oc \<noteq> None \<and> bo_task_node_map oc \<noteq> []
                      then foldl (\<lambda>rs r. with_request r (append_errors [task_map_error oc]) rs) rs aff else rs)
           in (None, foldl (\<lambda>t r. answer_request r t) (t\<lparr>rt_requests := rs1\<rparr>) aff)))"

subsection \<open>Workflows no worker can run\<close>

definition placement_error :: "server_config \<Rightarrow> workflow_item \<Rightarrow> json" where
  "placement_error cfg w = JDict [(''placement_failed'', JStr (wi_id w)), (''graph'', JStr (public_name w)),
     (''slice_index'', JInt (sm_slice_index (wi_slice w))),
     (''error'', JStr (''no worker in the cluster can satisfy this request (required_cpu='' @ nat_str (sc_cpu_group cfg)
        @ '' required_gpu='' @ nat_str (sc_gpu_group cfg) @ '')''))]"

definition fail_placement :: "server_config \<Rightarrow> (string, request_state) dict \<Rightarrow> workflow_item \<Rightarrow> (string, request_state) dict" where
  "fail_placement cfg rs w =
     with_request (wi_request_id w) (\<lambda>st. discard_pending w (append_errors [placement_error cfg w] st)) rs"

definition answer_unplaceable :: "request_table \<Rightarrow> workflow_item \<Rightarrow> request_table" where
  "answer_unplaceable t w =
     (case map_of (rt_requests t) (wi_request_id w) of
        None \<Rightarrow> t
      | Some st \<Rightarrow> if answerable st then put_result (wi_request_id w) (response_of st) t else t)"

text \<open>\<open>_fail_unplaceable_batch\<close>, without the removal from the queue that follows.\<close>

definition fail_unplaceable :: "server_config \<Rightarrow> workflow_item list \<Rightarrow> request_table \<Rightarrow> request_table" where
  "fail_unplaceable cfg ws t =
     foldl answer_unplaceable (t\<lparr>rt_requests := foldl (fail_placement cfg) (rt_requests t) ws\<rparr>) ws"

subsection \<open>Times, dispatch rows and progress\<close>

definition add_selection_time :: "real \<Rightarrow> real \<Rightarrow> request_state \<Rightarrow> request_state" where
  "add_selection_time sel clu st =
     st\<lparr>rq_selection_s := rq_selection_s st + sel, rq_clustering_s := rq_clustering_s st + clu\<rparr>"

definition record_job_manager_time ::
  "string list \<Rightarrow> real \<Rightarrow> real \<Rightarrow> (string, request_state) dict \<Rightarrow> (string, request_state) dict" where
  "record_job_manager_time members sel clu rs =
     (if members = [] \<or> (sel \<le> 0 \<and> clu \<le> 0) then rs
      else let n = real (length members)
           in foldl (\<lambda>rs r. with_request r (add_selection_time (max 0 sel / n) (max 0 clu / n)) rs) rs members)"

definition record_optimizer_time ::
  "string list \<Rightarrow> (string, int) dict \<Rightarrow> real \<Rightarrow> (string, request_state) dict \<Rightarrow> (string, request_state) dict" where
  "record_optimizer_time members nodes elapsed rs =
     (if elapsed \<le> 0 \<or> members = [] then rs
      else let ms = sort members;
               node_sum = sum_list (map (\<lambda>r. max 0 (dict_get nodes r 0)) ms);
               add = (\<lambda>x st. st\<lparr>rq_optimization_s := rq_optimization_s st + x\<rparr>)
           in if node_sum \<le> 0
              then foldl (\<lambda>rs r. with_request r (add (elapsed / real (length ms))) rs) rs ms
              else foldl (\<lambda>rs r. let k = max 0 (dict_get nodes r 0) in
                     if k \<le> 0 then rs
                     else with_request r (add (elapsed * of_int k / of_int node_sum)) rs) rs ms)"

definition dispatch_row_of :: "string \<Rightarrow> string \<Rightarrow> string list \<Rightarrow> string list \<Rightarrow> real \<Rightarrow> workflow_item \<Rightarrow> dispatch_row" where
  "dispatch_row_of bid eid wids workers now w =
     \<lparr>dr_workflow_id = wi_id w, dr_graph_name = wi_graph_name w, dr_slice = wi_slice w,
      dr_enqueued_at = wi_enqueued_at w, dr_dispatched_at = now, dr_miss_count = wi_miss_count w,
      dr_batch_id = bid, dr_execution_id = eid, dr_batch_workflow_ids = wids, dr_workers = workers,
      dr_flowmesh_id = None\<rparr>"

definition record_workflow_dispatches ::
  "workflow_item list \<Rightarrow> string \<Rightarrow> string \<Rightarrow> string list \<Rightarrow> real \<Rightarrow> (string, request_state) dict
    \<Rightarrow> (string, request_state) dict" where
  "record_workflow_dispatches ws bid eid workers now rs =
     foldl (\<lambda>rs w. with_request (wi_request_id w)
        (\<lambda>st. st\<lparr>rq_dispatches := rq_dispatches st @ [dispatch_row_of bid eid (map wi_id ws) workers now w]\<rparr>) rs) rs ws"

definition fill_row :: "string \<Rightarrow> string \<Rightarrow> string \<Rightarrow> dispatch_row \<Rightarrow> dispatch_row" where
  "fill_row bid eid fm row =
     (if dr_execution_id row = eid \<and> dr_batch_id row = bid then row\<lparr>dr_flowmesh_id := Some fm\<rparr> else row)"

definition fill_flowmesh_ids ::
  "(string \<times> string, string) dict \<Rightarrow> string \<Rightarrow> string \<Rightarrow> string list \<Rightarrow> (string, request_state) dict
    \<Rightarrow> (string, request_state) dict" where
  "fill_flowmesh_ids submitted bid eid members rs =
     (case map_of submitted (eid, bid) of
        None \<Rightarrow> rs
      | Some fm \<Rightarrow> foldl (\<lambda>rs r. with_request r
          (\<lambda>st. st\<lparr>rq_dispatches := map (fill_row bid eid fm) (rq_dispatches st)\<rparr>) rs) rs members)"

record overall_progress =
  pg_nodes_runtime :: int
  pg_total_inputs :: int
  pg_completed_inputs :: int
  pg_pending_raw :: int
  pg_processing_raw :: int
  pg_processing_opt :: int
  pg_processed_raw :: int
  pg_processed_opt :: int
  pg_percentage :: real

definition overall_progress_of :: "request_state \<Rightarrow> int \<Rightarrow> overall_progress" where
  "overall_progress_of st completed_nodes =
     (let n = rq_processing_opt st + rq_processed_opt st;
          items = max 0 (rq_total_items st);
          complete = max 0 (rq_completed_items st)
      in \<lparr>pg_nodes_runtime = n, pg_total_inputs = items,
          pg_completed_inputs = (if 0 < items then min complete items else complete),
          pg_pending_raw = rq_pending_raw st, pg_processing_raw = rq_processing_raw st,
          pg_processing_opt = rq_processing_opt st, pg_processed_raw = rq_processed_raw st,
          pg_processed_opt = rq_processed_opt st,
          pg_percentage = min 100 (max 0 (if 0 < n then of_int completed_nodes / of_int n * 100 else 0))\<rparr>)"

end
