(* ===== verification/Server_Process.thy ===== *)
theory Server_Process
  imports Server_Requests Topo_Optimizer Optimizer_Base
begin

section \<open>Processing one batch\<close>

text \<open>
  \<open>LumilakeServer._process_batch\<close> and its helpers (\<open>runtime/server.py\<close>): the grouping of slices into
  parent workflows, the split of the optimized nodes over the requests, the plan cache, and the
  way back from the outputs of runtime nodes to the outputs of each workflow.

  What the batch meets outside this process is the record \<open>run_env\<close>: which requests are cancelled when
  they are polled, the worker profiles, the runtime graph built from a group of slices (the DSL graph and
  its builder are not modelled), the data profile, the schedule of the optimizer process, the
  results of the runtime service, and the relocation of artifacts. The key of the plan cache is the
  payload itself instead of its SHA-256. Python nodes carry numbers in the fields read here, with a positive
  time limit; error texts are shortened.
\<close>

subsection \<open>Grouping slices\<close>

definition parent_id :: "workflow_item \<Rightarrow> string" where
  "parent_id w = ''request::'' @ wi_request_id w @ ''::'' @ public_name w @ ''::'' @ sm_template_hash (wi_slice w)"

definition group_order :: "workflow_item \<Rightarrow> string \<times> string \<times> int \<times> string" where
  "group_order w = (wi_request_id w, public_name w, sm_slice_index (wi_slice w), wi_id w)"

fun json_real :: "json \<Rightarrow> real" where
  "json_real (JInt i) = of_int i"
| "json_real (JFloat x) = x"
| "json_real (JBool b) = (if b then 1 else 0)"
| "json_real _ = 0"

text \<open>
  The share of its time limit a python node is expected to use; \<open>None\<close> is the infinite share of a
  node that does not know its row count. The other nodes have no share.
\<close>

definition node_share :: "runtime_op \<Rightarrow> real option option result" where
  "node_share op =
     (let sp = op_data_spec op
      in if op_task_type op \<noteq> ''python'' \<or> map_of sp ''expected_runtime_s'' = None then Inr None
         else case (map_of sp ''expected_runtime_s'', map_of sp ''row_count'', map_of sp ''timeout_s'') of
             (Some e, Some n, Some t) \<Rightarrow> Inr (Some (Some (json_real e * json_real n / json_real t)))
           | (_, Some _, None) \<Rightarrow> Inl (KeyError ''timeout_s'')
           | (_, None, _) \<Rightarrow> Inr (Some None)
           | _ \<Rightarrow> Inr None)"

definition max_share :: "real option \<Rightarrow> real option \<Rightarrow> real option" where
  "max_share a b = (case (a, b) of (Some x, Some y) \<Rightarrow> Some (max x y) | _ \<Rightarrow> None)"

fun shares_of :: "runtime_op list \<Rightarrow> real option list result" where
  "shares_of [] = Inr []"
| "shares_of (op # ops) =
     (case node_share op of
        Inl e \<Rightarrow> Inl e
      | Inr s \<Rightarrow> (case shares_of ops of
          Inl e \<Rightarrow> Inl e
        | Inr ss \<Rightarrow> Inr (case s of None \<Rightarrow> ss | Some x \<Rightarrow> x # ss)))"

text \<open>\<open>max(..., default=0.0)\<close>.\<close>

definition item_share :: "workflow_item \<Rightarrow> real option result" where
  "item_share w =
     (case shares_of (ops_of (wi_graph w)) of
        Inl e \<Rightarrow> Inl e
      | Inr [] \<Rightarrow> Inr (Some 0)
      | Inr (s # ss) \<Rightarrow> Inr (foldl max_share s ss))"

definition add_share :: "real option \<Rightarrow> real option \<Rightarrow> real option" where
  "add_share a b = (case (a, b) of (Some x, Some y) \<Rightarrow> Some (x + y) | _ \<Rightarrow> None)"

definition fits :: "real option \<Rightarrow> bool" where
  "fits load = (case load of None \<Rightarrow> False | Some x \<Rightarrow> x \<le> 1)"

fun chunk_within_timeouts ::
  "workflow_item list \<Rightarrow> workflow_item list list \<Rightarrow> real option \<Rightarrow> workflow_item list list result" where
  "chunk_within_timeouts [] chunks load = Inr chunks"
| "chunk_within_timeouts (w # ws) chunks load =
     (case item_share w of
        Inl e \<Rightarrow> Inl e
      | Inr s \<Rightarrow>
          if chunks \<noteq> [] \<and> fits (add_share load s)
          then chunk_within_timeouts ws (butlast chunks @ [last chunks @ [w]]) (add_share load s)
          else chunk_within_timeouts ws (chunks @ [[w]]) s)"

definition chunk_key :: "string \<Rightarrow> nat \<Rightarrow> string" where
  "chunk_key parent idx = (if idx = 0 then parent else parent @ ''::'' @ nat_str idx)"

fun add_chunks ::
  "(string, workflow_item list) dict \<Rightarrow> (string, workflow_item list) dict \<Rightarrow> (string, workflow_item list) dict result" where
  "add_chunks [] grouped = Inr grouped"
| "add_chunks ((parent, items) # rest) grouped =
     (case chunk_within_timeouts (sort_key group_order items) [] (Some 0) of
        Inl e \<Rightarrow> Inl e
      | Inr chunks \<Rightarrow>
          add_chunks rest (foldl (\<lambda>d (idx, c). AList.update (chunk_key parent idx) c d) grouped (enumerate 0 chunks)))"

definition group_workflows :: "workflow_item list \<Rightarrow> (string, workflow_item list) dict result" where
  "group_workflows ws = add_chunks (foldl (\<lambda>d w. push_group (parent_id w) w d) [] ws) []"

subsection \<open>Data-profile sources and the plan cache\<close>

definition profile_sources :: "string \<Rightarrow> workflow_item list \<Rightarrow> (string \<times> string) list" where
  "profile_sources key ws =
     (let ordered = sort_key group_order ws;
          orgs = foldl append_new [] (map (\<lambda>w. rc_org_id (wi_config w)) ordered);
          first = foldl append_new [] (map (\<lambda>og. (key, og)) orgs)
      in foldl append_new first (map (\<lambda>w. (parent_id w, rc_org_id (wi_config w))) ordered))"

definition group_payload :: "workflow_item list \<Rightarrow> string \<times> string list \<times> string list \<times> int list" where
  "group_payload ws =
     (let items = sort_key group_order ws
      in (sm_template_hash (wi_slice (hd items)), sort (remdups (map wi_request_id items)),
          sort (remdups (map public_name items)), map (\<lambda>w. sm_slice_length (wi_slice w)) items))"

type_synonym plan_key = "string list \<times> (string \<times> string list \<times> string list \<times> int list) list"
type_synonym plan_cache = "(string, (plan_key, json \<times> schedule) dict) dict"

definition plan_cache_key :: "string list \<Rightarrow> (string, workflow_item list) dict \<Rightarrow> plan_key" where
  "plan_cache_key workers grouped =
     (workers, map (\<lambda>(k, ws). group_payload ws) (filter (\<lambda>(k, ws). ws \<noteq> []) (sort_key fst grouped)))"

definition cached_plan :: "plan_cache \<Rightarrow> string \<Rightarrow> plan_key \<Rightarrow> (json \<times> schedule) option" where
  "cached_plan cache r key = (case map_of cache r of None \<Rightarrow> None | Some d \<Rightarrow> map_of d key)"

definition store_plan :: "string \<Rightarrow> plan_key \<Rightarrow> json \<times> schedule \<Rightarrow> plan_cache \<Rightarrow> plan_cache" where
  "store_plan r key entry cache = AList.update r (AList.update key entry (dict_get cache r [])) cache"

subsection \<open>Splitting the optimized nodes over the requests\<close>

definition raw_by_request :: "workflow_item list \<Rightarrow> (string, int) dict" where
  "raw_by_request ws =
     foldl (\<lambda>d w. AList.update (wi_request_id w) (dict_get d (wi_request_id w) 0 + int (node_count (wi_graph w))) d) [] ws"

fun spread_remainder :: "int \<Rightarrow> (string \<times> int) list \<Rightarrow> (string \<times> int) list" where
  "spread_remainder rem [] = []"
| "spread_remainder rem ((r, n) # rest) =
     (if rem \<le> 0 then (r, n) # rest else (r, n + 1) # spread_remainder (rem - 1) rest)"

definition split_nodes :: "int \<Rightarrow> (string, int) dict \<Rightarrow> (string, int) dict" where
  "split_nodes n raw =
     (let raw_sum = sum_list (map snd raw);
          shares = map (\<lambda>(r, k). (r, if raw_sum \<le> 0 then 0 else n * k div raw_sum)) (sort_key fst raw)
      in spread_remainder (n - sum_list (map snd shares)) shares)"

fun add_optimized ::
  "string \<Rightarrow> (string \<times> int) list \<Rightarrow> (string, request_state) dict \<Rightarrow> py_error option \<times> (string, request_state) dict" where
  "add_optimized bid [] rs = (None, rs)"
| "add_optimized bid ((r, n) # rest) rs =
     (case map_of rs r of
        None \<Rightarrow> add_optimized bid rest rs
      | Some st \<Rightarrow>
          (case map_of (rq_batch_counts st) bid of
             None \<Rightarrow> (Some (RuntimeError ''Missing batch node counts''), rs)
           | Some (raw, opt) \<Rightarrow>
               if opt \<noteq> 0 then (Some (RuntimeError ''Batch optimized nodes already recorded''), rs)
               else add_optimized bid rest (AList.update r
                      (st\<lparr>rq_processing_opt := rq_processing_opt st + n,
                          rq_batch_counts := AList.update bid (raw, n) (rq_batch_counts st)\<rparr>) rs)))"

subsection \<open>From node outputs to workflow outputs\<close>

definition starts_with :: "string \<Rightarrow> string \<Rightarrow> bool" where
  "starts_with p s = (take (length p) s = p)"

text \<open>Workflows are tried with the longest id first.\<close>

definition match_workflow :: "workflow_item list \<Rightarrow> string \<Rightarrow> workflow_item option" where
  "match_workflow ws node =
     List.find (\<lambda>w. starts_with (wi_id w @ ''__'') node) (sort_key (\<lambda>w. - int (length (wi_id w))) ws)"

definition list_lambda_keys :: "string list \<Rightarrow> (string, string \<times> string) dict \<Rightarrow> (string \<times> string) list" where
  "list_lambda_keys nodes mapping = map snd (filter (\<lambda>(n, _). n \<in> set nodes) mapping)"

definition note_list_lambda ::
  "(string, workflow_item list) dict \<Rightarrow> (string \<times> string) list \<Rightarrow> (string, request_state) dict \<Rightarrow> (string, request_state) dict" where
  "note_list_lambda grouped keys rs =
     foldl (\<lambda>rs (g, name). case dict_get grouped g [] of
         [w] \<Rightarrow> with_request (wi_request_id w) (\<lambda>st. st\<lparr>rq_list_lambda :=
                  AList.update (wi_id w) (insert name (lambda_names w st)) (rq_list_lambda st)\<rparr>) rs
       | _ \<Rightarrow> rs) rs keys"

text \<open>The outputs addressed to one workflow, and those of a whole group in node order.\<close>

record 'v routed =
  ro_direct :: "(string, 'v payload) dict"
  ro_grouped :: "(string, 'v payload) dict"

definition put_output :: "string \<Rightarrow> string \<Rightarrow> 'v option list \<Rightarrow> (string, 'v payload) dict \<Rightarrow> (string, 'v payload) dict" where
  "put_output k name vs d = AList.update k (AList.update name vs (dict_get d k [])) d"

definition extend_output :: "string \<Rightarrow> string \<Rightarrow> 'v option list \<Rightarrow> (string, 'v payload) dict \<Rightarrow> (string, 'v payload) dict" where
  "extend_output k name vs d = put_output k name (dict_get (dict_get d k []) name [] @ vs) d"

definition route_one ::
  "(string, workflow_item list) dict \<Rightarrow> (string, string \<times> string) dict \<Rightarrow> (string \<times> string) list \<Rightarrow> string \<Rightarrow> string
    \<Rightarrow> 'v option list \<Rightarrow> 'v routed \<Rightarrow> 'v routed result" where
  "route_one grouped mapping lams what node vs ro =
     (case map_of mapping node of
        None \<Rightarrow> Inl (ValueError (''Missing output mapping for runtime node '' @ node))
      | Some (g, name) \<Rightarrow>
          if (g, name) \<in> set lams then
            (case dict_get grouped g [] of
               [w] \<Rightarrow> Inr (ro\<lparr>ro_direct := put_output (wi_id w) name vs (ro_direct ro)\<rparr>)
             | _ \<Rightarrow> Inl (ValueError (''List-Lambda output cannot be split across slices: '' @ name)))
          else case match_workflow (dict_get grouped g []) node of
              Some w \<Rightarrow>
                if int (length vs) \<noteq> sm_slice_length (wi_slice w)
                then Inl (ValueError (what @ '' length mismatch for workflow slice '' @ wi_id w @ '':'' @ name))
                else Inr (ro\<lparr>ro_direct := put_output (wi_id w) name vs (ro_direct ro)\<rparr>)
            | None \<Rightarrow> Inr (ro\<lparr>ro_grouped := extend_output g name vs (ro_grouped ro)\<rparr>))"

fun route_outputs ::
  "(string, workflow_item list) dict \<Rightarrow> (string, string \<times> string) dict \<Rightarrow> (string \<times> string) list \<Rightarrow> string
    \<Rightarrow> (string, 'v option list) dict \<Rightarrow> 'v routed \<Rightarrow> 'v routed result" where
  "route_outputs grouped mapping lams what [] ro = Inr ro"
| "route_outputs grouped mapping lams what ((node, vs) # rest) ro =
     (case route_one grouped mapping lams what node vs ro of
        Inl e \<Rightarrow> Inl e
      | Inr ro' \<Rightarrow> route_outputs grouped mapping lams what rest ro')"

text \<open>One output of a group, cut at the slice boundaries.\<close>

fun hand_out ::
  "string \<Rightarrow> 'v option list \<Rightarrow> int \<Rightarrow> workflow_item list \<Rightarrow> (string, 'v payload) dict \<Rightarrow> (string, 'v payload) dict result" where
  "hand_out name vs offset [] d = Inr d"
| "hand_out name vs offset (w # ws) d =
     (let next = offset + sm_slice_length (wi_slice w)
      in if name \<in> fst ` set (dict_get d (wi_id w) [])
         then Inl (ValueError (''Duplicate output assignment for workflow '' @ wi_id w @ '':'' @ name))
         else hand_out name vs next ws
                (put_output (wi_id w) name (take (nat next - nat offset) (drop (nat offset) vs)) d))"

fun hand_out_all ::
  "string \<Rightarrow> string \<Rightarrow> int \<Rightarrow> workflow_item list \<Rightarrow> 'v payload \<Rightarrow> (string, 'v payload) dict \<Rightarrow> (string, 'v payload) dict result" where
  "hand_out_all what key n ws [] d = Inr d"
| "hand_out_all what key n ws ((name, vs) # rest) d =
     (if int (length vs) \<noteq> n
      then Inl (ValueError (what @ '' length mismatch for merged workflow '' @ key @ '':'' @ name))
      else case hand_out name vs 0 ws d of
          Inl e \<Rightarrow> Inl e
        | Inr d' \<Rightarrow> hand_out_all what key n ws rest d')"

definition remap_group ::
  "string \<Rightarrow> string \<Rightarrow> workflow_item list \<Rightarrow> (string, 'v payload) dict \<Rightarrow> (string, 'v payload) dict
    \<Rightarrow> (string, 'v payload) dict result" where
  "remap_group what key ws grouped d =
     (let ordered = sort_key (\<lambda>w. sm_slice_index (wi_slice w)) ws
      in hand_out_all what key (sum_list (map (\<lambda>w. sm_slice_length (wi_slice w)) ordered)) ordered (dict_get grouped key []) d)"

fun remap_groups ::
  "(string, workflow_item list) dict \<Rightarrow> string routed \<Rightarrow> json routed \<Rightarrow> (string, string payload) dict \<Rightarrow> (string, json payload) dict
    \<Rightarrow> ((string, string payload) dict \<times> (string, json payload) dict) result" where
  "remap_groups [] ro rh outs hists = Inr (outs, hists)"
| "remap_groups ((key, ws) # rest) ro rh outs hists =
     (case remap_group ''Output'' key ws (ro_grouped ro) outs of
        Inl e \<Rightarrow> Inl e
      | Inr outs' \<Rightarrow>
          (case remap_group ''History'' key ws (ro_grouped rh) hists of
             Inl e \<Rightarrow> Inl e
           | Inr hists' \<Rightarrow> remap_groups rest ro rh outs' hists'))"

definition demux ::
  "(string, workflow_item list) dict \<Rightarrow> (string, string \<times> string) dict \<Rightarrow> (string \<times> string) list
    \<Rightarrow> (string, string option list) dict \<Rightarrow> (string, json option list) dict
    \<Rightarrow> ((string, string payload) dict \<times> (string, json payload) dict) result" where
  "demux grouped mapping lams flat hist =
     (case route_outputs grouped mapping lams ''Output'' flat \<lparr>ro_direct = [], ro_grouped = []\<rparr> of
        Inl e \<Rightarrow> Inl e
      | Inr ro \<Rightarrow>
          (case route_outputs grouped mapping [] ''History'' hist \<lparr>ro_direct = [], ro_grouped = []\<rparr> of
             Inl e \<Rightarrow> Inl e
           | Inr rh \<Rightarrow> remap_groups grouped ro rh (ro_direct ro) (ro_direct rh)))"

subsection \<open>The batch\<close>

datatype run_error = Cancelled | Execution_Failed string | Failed string

text \<open>The points at which the server asks which requests are cancelled.\<close>

datatype stage = At_Start | Before_Plan | Before_Profile | Before_Submit | Before_Record

record run_result =
  rr_outputs :: "(string, string option list) dict"
  rr_histories :: "(string, json option list) dict"
  rr_task_node_map :: "(string, string) dict"

text \<open>
  \<open>re_execute\<close> is \<open>process_request\<close> of the runtime service: \<open>None\<close> stands for its \<open>RequestCancelledError\<close>, a text
  for any other exception, which the server wraps in a \<open>RuntimeExecutionError\<close>. The data profile and the
  optimizer process may also end in a cancellation.
\<close>

record run_env =
  re_cancelled :: "stage \<Rightarrow> string set"
  re_exec_cancelled :: "stage \<Rightarrow> bool"
  re_profile :: "string \<Rightarrow> profile option"
  re_build :: "string \<Rightarrow> workflow_item list \<Rightarrow> runtime_graph result"
  re_profile_data :: "run_error + json"
  re_schedule :: "run_error + schedule"
  re_schedule_s :: real
  re_execute :: "runtime_graph \<Rightarrow> schedule \<Rightarrow> json \<Rightarrow> string option + run_result"
  re_relocate :: "string \<Rightarrow> string payload \<Rightarrow> string payload"
  re_relocate_history :: "string \<Rightarrow> json payload \<Rightarrow> json payload"
  re_submitted :: "(string \<times> string, string) dict"
  re_now :: real

text \<open>\<open>_should_cancel_execution\<close>: the execution itself, or every member, is cancelled.\<close>

definition should_cancel :: "run_env \<Rightarrow> stage \<Rightarrow> string set \<Rightarrow> bool" where
  "should_cancel env sg members \<longleftrightarrow> re_exec_cancelled env sg \<or> members \<subseteq> re_cancelled env sg"

definition error_text :: "py_error \<Rightarrow> string" where
  "error_text e = (case e of ValueError s \<Rightarrow> s | KeyError s \<Rightarrow> s | RuntimeError s \<Rightarrow> s | IndexError \<Rightarrow> ''list index out of range'')"

definition lift_error :: "py_error \<Rightarrow> run_error" where
  "lift_error e = Failed (error_text e)"

fun build_groups ::
  "(string \<Rightarrow> workflow_item list \<Rightarrow> runtime_graph result) \<Rightarrow> (string, workflow_item list) dict
    \<Rightarrow> (string, runtime_graph) dict result" where
  "build_groups build [] = Inr []"
| "build_groups build ((key, ws) # rest) =
     (case build key ws of
        Inl e \<Rightarrow> Inl e
      | Inr g \<Rightarrow> (case build_groups build rest of Inl e \<Rightarrow> Inl e | Inr gs \<Rightarrow> Inr ((key, g) # gs)))"

record prepared =
  pp_grouped :: "(string, workflow_item list) dict"
  pp_graph :: runtime_graph
  pp_mapping :: "(string, string \<times> string) dict"

text \<open>Up to the merged, deduplicated graph of the batch; the request states are not touched yet.\<close>

definition prepare_batch :: "run_env \<Rightarrow> workflow_item list \<Rightarrow> string set \<Rightarrow> run_error + prepared" where
  "prepare_batch env ws members =
     (if ws = [] then Inl (Failed ''No workflows in batch'')
      else if should_cancel env At_Start members then Inl Cancelled
      else case group_workflows ws of
          Inl e \<Rightarrow> Inl (lift_error e)
        | Inr grouped \<Rightarrow>
            (case build_groups (re_build env) grouped of
               Inl e \<Rightarrow> Inl (lift_error e)
             | Inr graphs \<Rightarrow>
                 (case optimize_graphs graphs of
                    Inl e \<Rightarrow> Inl (lift_error e)
                  | Inr (g, mapping, dedup) \<Rightarrow> Inr \<lparr>pp_grouped = grouped, pp_graph = g, pp_mapping = mapping\<rparr>)))"

definition cache_owner :: "workflow_item list \<Rightarrow> string set \<Rightarrow> string" where
  "cache_owner ws members =
     (case List.find (\<lambda>w. wi_request_id w \<in> members) ws of Some w \<Rightarrow> wi_request_id w | None \<Rightarrow> wi_request_id (hd ws))"

definition schedule_ok :: "schedule \<Rightarrow> string list \<Rightarrow> runtime_graph \<Rightarrow> unit result" where
  "schedule_ok s workers g = server_validate_schedule s workers (fst ` set (rg_nodes g))"

definition sorted_members :: "workflow_item list \<Rightarrow> string list" where
  "sorted_members ws = sort (remdups (map wi_request_id ws))"

text \<open>
  The plan of the batch: a valid cached one, or data profile and schedule computed afresh, with the
  time of the optimizer charged to the requests and the plan cached for its owner.
\<close>

definition fresh_plan ::
  "run_env \<Rightarrow> workflow_item list \<Rightarrow> string set \<Rightarrow> string list \<Rightarrow> runtime_graph \<Rightarrow> (string, int) dict \<Rightarrow> plan_key
    \<Rightarrow> (string, request_state) dict \<times> plan_cache
    \<Rightarrow> (run_error + (json \<times> schedule)) \<times> (string, request_state) dict \<times> plan_cache" where
  "fresh_plan env ws members workers g optimized key st =
     (case st of (rs, cache) \<Rightarrow>
       if should_cancel env Before_Profile members then (Inl Cancelled, rs, cache)
       else case re_profile_data env of
           Inl e \<Rightarrow> (Inl e, rs, cache)
         | Inr pd \<Rightarrow>
             (case re_schedule env of
                Inl e \<Rightarrow> (Inl e, rs, cache)
              | Inr sched \<Rightarrow>
                  (let rs1 = record_optimizer_time (sorted_members ws) optimized (re_schedule_s env) rs
                   in case schedule_ok sched workers g of
                        Inl e \<Rightarrow> (Inl (lift_error e), rs1, cache)
                      | Inr _ \<Rightarrow>
                          (let owner = cache_owner ws members
                           in (Inr (pd, sched), rs1,
                               if owner \<in> fst ` set rs1 then store_plan owner key (pd, sched) cache else cache)))))"

definition plan_batch ::
  "run_env \<Rightarrow> workflow_item list \<Rightarrow> string set \<Rightarrow> string list \<Rightarrow> prepared \<Rightarrow> (string, int) dict
    \<Rightarrow> (string, request_state) dict \<times> plan_cache
    \<Rightarrow> (run_error + (json \<times> schedule)) \<times> (string, request_state) dict \<times> plan_cache" where
  "plan_batch env ws members workers p optimized st =
     (case st of (rs, cache) \<Rightarrow>
       (let key = plan_cache_key workers (pp_grouped p);
            owner = cache_owner ws members
        in case (if owner \<in> fst ` set rs then cached_plan cache owner key else None) of
             Some (pd, sched) \<Rightarrow>
               if schedule_ok sched workers (pp_graph p) = Inr () then (Inr (pd, sched), rs, cache)
               else fresh_plan env ws members workers (pp_graph p) optimized key (rs, cache)
           | None \<Rightarrow> fresh_plan env ws members workers (pp_graph p) optimized key (rs, cache)))"

definition note_task_map ::
  "string \<Rightarrow> string list \<Rightarrow> (string, string) dict \<Rightarrow> (string, request_state) dict \<Rightarrow> (string, request_state) dict" where
  "note_task_map bid members m rs =
     foldl (\<lambda>rs r. with_request r (\<lambda>st. st\<lparr>rq_task_node_map := AList.update bid m (rq_task_node_map st)\<rparr>) rs) rs members"

definition relocate_payloads ::
  "(string \<Rightarrow> 'p \<Rightarrow> 'p) \<Rightarrow> workflow_item list \<Rightarrow> (string, 'p) dict \<Rightarrow> (string, 'p) dict" where
  "relocate_payloads move ws outs =
     map (\<lambda>(wid, p). (wid, move
       (case List.find (\<lambda>w. wi_id w = wid) ws of Some w \<Rightarrow> wi_request_id w | None \<Rightarrow> []) p)) outs"

text \<open>From the results of the runtime service to the outputs of the workflows.\<close>

definition collect_outputs ::
  "run_env \<Rightarrow> string \<Rightarrow> workflow_item list \<Rightarrow> prepared \<Rightarrow> run_result \<Rightarrow> (string, request_state) dict
    \<Rightarrow> (run_error + (string, string payload) dict \<times> (string, json payload) dict) \<times> (string, request_state) dict" where
  "collect_outputs env bid ws p res rs =
     (let rs1 = note_task_map bid (sorted_members ws) (rr_task_node_map res) rs
      in case list_lambda_cardinality_nodes (pp_graph p) of
           Inl e \<Rightarrow> (Inl (lift_error e), rs1)
         | Inr nodes \<Rightarrow>
             (let lams = list_lambda_keys nodes (pp_mapping p);
                  rs2 = note_list_lambda (pp_grouped p) lams rs1
              in case demux (pp_grouped p) (pp_mapping p) lams (rr_outputs res) (rr_histories res) of
                   Inl e \<Rightarrow> (Inl (lift_error e), rs2)
                 | Inr (outs, hists) \<Rightarrow> (Inr (relocate_payloads (re_relocate env) ws outs,
                                        relocate_payloads (re_relocate_history env) ws hists), rs2)))"

definition execute_batch ::
  "run_env \<Rightarrow> string \<Rightarrow> workflow_item list \<Rightarrow> string set \<Rightarrow> prepared \<Rightarrow> json \<times> schedule
    \<Rightarrow> (string, request_state) dict
    \<Rightarrow> (run_error + (string, string payload) dict \<times> (string, json payload) dict) \<times> (string, request_state) dict" where
  "execute_batch env bid ws members p plan rs =
     (if should_cancel env Before_Submit members then (Inl Cancelled, rs)
      else case re_execute env (pp_graph p) (snd plan) (fst plan) of
          Inl None \<Rightarrow> (Inl Cancelled, rs)
        | Inl (Some msg) \<Rightarrow> (Inl (Execution_Failed msg), rs)
        | Inr res \<Rightarrow> collect_outputs env bid ws p res rs)"

definition process_batch ::
  "run_env \<Rightarrow> string list \<Rightarrow> string \<Rightarrow> workflow_item list \<Rightarrow> (string, request_state) dict \<times> plan_cache
    \<Rightarrow> (run_error + (string, string payload) dict \<times> (string, json payload) dict)
       \<times> (string, request_state) dict \<times> plan_cache" where
  "process_batch env workers bid ws st =
     (let members = wi_request_id ` set ws
      in case prepare_batch env ws members of
           Inl e \<Rightarrow> (Inl e, st)
         | Inr p \<Rightarrow>
             (let optimized = split_nodes (int (node_count (pp_graph p))) (raw_by_request ws)
              in case add_optimized bid optimized (fst st) of
                   (Some e, rs) \<Rightarrow> (Inl (lift_error e), rs, snd st)
                 | (None, rs) \<Rightarrow>
                     (case plan_batch env ws members workers p optimized (rs, snd st) of
                        (Inl e, st') \<Rightarrow> (Inl e, st')
                      | (Inr plan, rs', cache') \<Rightarrow>
                          (case execute_batch env bid ws members p plan rs' of (res, rs'') \<Rightarrow> (res, rs'', cache')))))"

end
