(* ===== verification/Server_Slices.thy ===== *)
theory Server_Slices
  imports Job_Types
begin

section \<open>Slicing the inputs of a workflow\<close>

text \<open>
  The part of \<open>routes/jobs.py\<close> that cuts a submission into slices: \<open>_input_shape\<close>,
  \<open>_chunk_inputs\<close>, the loop of the submit endpoint that names the slices and records their
  \<open>WorkflowSliceMeta\<close>, the same loop for a round of a dynamic job, the one-slice variant of the
  schedule preview, and the slice metadata that \<open>LumilakeServer.execute\<close> and the preview make up for
  a graph that has none. Inputs are already resolved to lists of strings; the hash of the template
  is a parameter (SHA-256 of the payload), and only the native workflow format is dispatched here
  (the n8n and YAML formats go through the parsers).
\<close>

type_synonym inputs = "(string, string list) dict"

definition max_len :: "inputs \<Rightarrow> nat" where
  "max_len ins = foldr (\<lambda>(k, vs) m. max (length vs) m) ins 0"

definition ragged :: "inputs \<Rightarrow> bool" where
  "ragged ins = (\<exists>(k, vs) \<in> set ins. length vs \<noteq> 1 \<and> length vs \<noteq> max_len ins)"

definition ragged_error :: py_error where
  "ragged_error = ValueError ''workflow inputs list lengths must match or be a single value''"

definition varying_keys :: "inputs \<Rightarrow> string list" where
  "varying_keys ins = sort (map fst (filter (\<lambda>(k, vs). 1 < length vs) ins))"

definition input_shape :: "inputs \<Rightarrow> (nat \<times> string list) result" where
  "input_shape ins = (if ragged ins then Inl ragged_error else Inr (max_len ins, varying_keys ins))"

definition chunk_at :: "nat \<Rightarrow> nat \<Rightarrow> inputs \<Rightarrow> inputs" where
  "chunk_at n start ins =
     map (\<lambda>(k, vs). (k, if length vs = 1 then vs else take n (drop start vs))) ins"

text \<open>\<open>range(0, m, n)\<close>.\<close>

definition range_starts :: "nat \<Rightarrow> nat \<Rightarrow> nat list" where
  "range_starts m n = map (\<lambda>i. i * n) [0..<ceil_div m n]"

definition chunk_inputs :: "inputs \<Rightarrow> nat \<Rightarrow> inputs list result" where
  "chunk_inputs ins n =
     (if ragged ins then Inl ragged_error
      else if max_len ins \<le> n then Inr [ins]
      else if n = 0 then Inl (ValueError ''range() arg 3 must not be zero'')
      else Inr (map (\<lambda>start. chunk_at n start ins) (range_starts (max_len ins) n)))"

subsection \<open>The slices of a submission\<close>

record sliced_graph =
  gs_graph :: json
  gs_inputs :: inputs

record submission =
  sb_specs :: "(string, sliced_graph) dict"
  sb_slices :: "(string, slice_meta) dict"

text \<open>The native branch of \<open>_dispatch_workflow_to_graph_specs\<close>.\<close>

definition dispatch_native :: "json \<Rightarrow> inputs \<Rightarrow> string \<Rightarrow> (string, sliced_graph) dict \<Rightarrow> (string, sliced_graph) dict result" where
  "dispatch_native payload ins name specs =
     (case payload of
        JDict d \<Rightarrow> Inr (AList.update name
          \<lparr>gs_graph = (case map_of d ''graph'' of None \<Rightarrow> payload | Some g \<Rightarrow> g), gs_inputs = ins\<rparr> specs)
      | _ \<Rightarrow> Inl (ValueError ''workflow payload must be an object''))"

definition slice_name :: "string \<Rightarrow> nat \<Rightarrow> nat \<Rightarrow> string" where
  "slice_name name n idx = (if n = 1 then name else name @ ''__slice_'' @ nat_str (Suc idx))"

record entry =
  en_name :: "string option"
  en_payload :: json
  en_inputs :: inputs
  en_batch_size :: "int option"

text \<open>The loop over the batches of one entry; \<open>n\<close> is the number of batches, \<open>idx\<close> the index of the next one.\<close>

fun slice_loop ::
  "string \<Rightarrow> json \<Rightarrow> string \<Rightarrow> nat \<Rightarrow> string list \<Rightarrow> nat \<Rightarrow> nat \<Rightarrow> nat \<Rightarrow> inputs list \<Rightarrow> submission
    \<Rightarrow> submission result" where
  "slice_loop name payload h len varying n idx start [] s = Inr s"
| "slice_loop name payload h len varying n idx start (b # bs) s =
     (let gn = slice_name name n idx
      in if gn \<in> fst ` set (sb_specs s) then Inl (ValueError (''duplicate internal graph name: '' @ gn))
         else case input_shape b of
             Inl e \<Rightarrow> Inl e
           | Inr (l, _) \<Rightarrow>
               (case dispatch_native payload b gn (sb_specs s) of
                  Inl e \<Rightarrow> Inl e
                | Inr specs \<Rightarrow>
                    slice_loop name payload h len varying n (Suc idx) (start + l) bs
                      \<lparr>sb_specs = specs,
                       sb_slices = AList.update gn
                         \<lparr>sm_public_graph_name = name, sm_slice_index = int idx, sm_slice_start = int start,
                          sm_slice_length = int l, sm_total_length = int len, sm_template_hash = h,
                          sm_varying_input_keys = varying\<rparr> (sb_slices s)\<rparr>))"

text \<open>\<open>entry.input_batch_size or 1\<close>, after the check that it is positive.\<close>

definition effective_batch_size :: "int option \<Rightarrow> nat result" where
  "effective_batch_size b =
     (case b of
        None \<Rightarrow> Inr 1
      | Some n \<Rightarrow> if n \<le> 0 then Inl (ValueError ''input_batch_size must be a positive integer'') else Inr (nat n))"

definition slice_entry :: "(json \<Rightarrow> string) \<Rightarrow> string \<Rightarrow> entry \<Rightarrow> submission \<Rightarrow> submission result" where
  "slice_entry hash name e s =
     (case input_shape (en_inputs e) of
        Inl err \<Rightarrow> Inl err
      | Inr (len, varying) \<Rightarrow>
          (case effective_batch_size (en_batch_size e) of
             Inl err \<Rightarrow> Inl err
           | Inr n \<Rightarrow>
               (case chunk_inputs (en_inputs e) n of
                  Inl err \<Rightarrow> Inl err
                | Inr bs \<Rightarrow> slice_loop name (en_payload e) (hash (en_payload e)) len varying (length bs) 0 0 bs s)))"

definition entry_name :: "nat \<Rightarrow> entry \<Rightarrow> string" where
  "entry_name idx e = or_default (en_name e) (''graph_'' @ nat_str idx)"

text \<open>The loop over the entries: a public name may be used once.\<close>

fun slice_entries :: "(json \<Rightarrow> string) \<Rightarrow> nat \<Rightarrow> string set \<Rightarrow> entry list \<Rightarrow> submission \<Rightarrow> submission result" where
  "slice_entries hash idx seen [] s = Inr s"
| "slice_entries hash idx seen (e # es) s =
     (let name = entry_name idx e
      in if name \<in> seen then Inl (ValueError (''duplicate workflow name: '' @ name))
         else case slice_entry hash name e s of
             Inl err \<Rightarrow> Inl err
           | Inr s' \<Rightarrow> slice_entries hash (Suc idx) (insert name seen) es s')"

definition slice_submission :: "(json \<Rightarrow> string) \<Rightarrow> entry list \<Rightarrow> submission result" where
  "slice_submission hash es =
     (if es = [] then Inl (ValueError ''data must contain at least one entry'')
      else slice_entries hash 0 {} es \<lparr>sb_specs = [], sb_slices = []\<rparr>)"

subsection \<open>One round of a dynamic job\<close>

text \<open>
  \<open>_submit_dynamic_child\<close> slices a round as a static submission with \<open>input_batch_size: 1\<close>: the
  symbols, then the forwarded inputs, which may replace them.
\<close>

definition INPUT_NODE_ID :: string where
  "INPUT_NODE_ID = ''Symbols''"

definition child_inputs :: "string list \<Rightarrow> inputs \<Rightarrow> inputs" where
  "child_inputs symbols forwarded = foldl (\<lambda>d (k, v). AList.update k v d) [(INPUT_NODE_ID, symbols)] forwarded"

definition child_slices :: "string \<Rightarrow> json \<Rightarrow> string list \<Rightarrow> inputs \<Rightarrow> nat \<Rightarrow> submission result" where
  "child_slices h payload symbols forwarded r =
     (let ins = child_inputs symbols forwarded; name = ''round_'' @ nat_str r
      in case input_shape ins of
           Inl e \<Rightarrow> Inl e
         | Inr (len, varying) \<Rightarrow>
             (case chunk_inputs ins 1 of
                Inl e \<Rightarrow> Inl e
              | Inr bs \<Rightarrow> slice_loop name payload h len varying (length bs) 0 0 bs \<lparr>sb_specs = [], sb_slices = []\<rparr>))"

subsection \<open>Graphs without slices\<close>

text \<open>The preview endpoint keeps only the first batch of an entry.\<close>

definition preview_slice :: "(json \<Rightarrow> string) \<Rightarrow> string \<Rightarrow> entry \<Rightarrow> submission \<Rightarrow> submission result" where
  "preview_slice hash name e s =
     (case input_shape (en_inputs e) of
        Inl err \<Rightarrow> Inl err
      | Inr (len, varying) \<Rightarrow>
          (case effective_batch_size (en_batch_size e) of
             Inl err \<Rightarrow> Inl err
           | Inr n \<Rightarrow>
               (case chunk_inputs (en_inputs e) n of
                  Inl err \<Rightarrow> Inl err
                | Inr bs \<Rightarrow>
                    if name \<in> fst ` set (sb_specs s)
                    then Inl (ValueError (''duplicate internal graph name: '' @ name))
                    else case dispatch_native (en_payload e) (hd bs) name (sb_specs s) of
                        Inl err \<Rightarrow> Inl err
                      | Inr specs \<Rightarrow>
                          (case input_shape (hd bs) of
                             Inl err \<Rightarrow> Inl err
                           | Inr (l, _) \<Rightarrow>
                               Inr \<lparr>sb_specs = specs,
                                    sb_slices = AList.update name
                                      \<lparr>sm_public_graph_name = name, sm_slice_index = 0, sm_slice_start = 0,
                                       sm_slice_length = int l, sm_total_length = int len,
                                       sm_template_hash = hash (en_payload e),
                                       sm_varying_input_keys = varying\<rparr> (sb_slices s)\<rparr>))))"

text \<open>The metadata of a graph that comes with none: one slice that spans it, of length 1 without inputs.\<close>

definition whole_slice :: "string \<Rightarrow> string \<Rightarrow> inputs \<Rightarrow> slice_meta" where
  "whole_slice h name ins =
     (let len = (if ins = [] then 1 else max_len ins)
      in \<lparr>sm_public_graph_name = name, sm_slice_index = 0, sm_slice_start = 0, sm_slice_length = int len,
          sm_total_length = int len, sm_template_hash = h, sm_varying_input_keys = varying_keys ins\<rparr>)"

text \<open>A compiled graph is its inputs and the hash of its serialized form.\<close>

definition preview_slices :: "(string, string \<times> inputs) dict \<Rightarrow> (string, slice_meta) dict" where
  "preview_slices graphs = map (\<lambda>(name, h, ins). (name, whole_slice h name ins)) graphs"

definition resolve_slices ::
  "(string, string \<times> inputs) dict \<Rightarrow> (string, slice_meta) dict option \<Rightarrow> (string, slice_meta) dict" where
  "resolve_slices graphs slices =
     map (\<lambda>(name, h, ins).
       (name, case (case slices of None \<Rightarrow> None | Some d \<Rightarrow> map_of d name) of
                Some sm \<Rightarrow> sm | None \<Rightarrow> whole_slice h name ins)) graphs"

subsection \<open>The slices tile the inputs\<close>

definition span :: "slice_meta \<Rightarrow> int set" where
  "span sm = {sm_slice_start sm ..< sm_slice_start sm + sm_slice_length sm}"

text \<open>How many slices of the public graph \<open>g\<close> hold row \<open>i\<close>.\<close>

definition hits :: "slice_meta list \<Rightarrow> string \<Rightarrow> int \<Rightarrow> nat" where
  "hits sms g i = length (filter (\<lambda>sm. sm_public_graph_name sm = g \<and> i \<in> span sm) sms)"

definition slice_in_range :: "slice_meta \<Rightarrow> bool" where
  "slice_in_range sm \<longleftrightarrow> 0 \<le> sm_slice_start sm \<and> 0 < sm_slice_length sm
     \<and> sm_slice_start sm + sm_slice_length sm \<le> sm_total_length sm"

text \<open>The contract of a list of slices: within range, agreeing on the length, each row in exactly one.\<close>

definition tiling :: "slice_meta list \<Rightarrow> bool" where
  "tiling sms \<longleftrightarrow> (\<forall>sm \<in> set sms. slice_in_range sm
     \<and> (\<forall>sm' \<in> set sms. sm_public_graph_name sm' = sm_public_graph_name sm \<longrightarrow> sm_total_length sm' = sm_total_length sm)
     \<and> (\<forall>i. 0 \<le> i \<and> i < sm_total_length sm \<longrightarrow> hits sms (sm_public_graph_name sm) i = 1))"

lemma hits_Nil [simp]: "hits [] g i = 0"
  by (simp add: hits_def)

lemma hits_Cons: "hits (sm # sms) g i = (if sm_public_graph_name sm = g \<and> i \<in> span sm then 1 else 0) + hits sms g i"
  by (simp add: hits_def)

lemma hits_append [simp]: "hits (xs @ ys) g i = hits xs g i + hits ys g i"
  by (simp add: hits_def)

lemma hits_mset: "mset xs = mset ys \<Longrightarrow> hits xs g i = hits ys g i"
  unfolding hits_def by (metis mset_filter size_mset)

lemma tiling_mset: "mset xs = mset ys \<Longrightarrow> tiling xs = tiling ys"
proof -
  assume eq: "mset xs = mset ys"
  have "set xs = set ys" using eq by (rule mset_eq_setD)
  then show ?thesis by (simp only: tiling_def hits_mset[OF eq])
qed

lemma tilingD:
  assumes "tiling sms" "sm \<in> set sms"
  shows "slice_in_range sm"
    "sm' \<in> set sms \<Longrightarrow> sm_public_graph_name sm' = sm_public_graph_name sm \<Longrightarrow> sm_total_length sm' = sm_total_length sm"
    "0 \<le> i \<Longrightarrow> i < sm_total_length sm \<Longrightarrow> hits sms (sm_public_graph_name sm) i = 1"
  using assms unfolding tiling_def by blast+

lemma hits_none: "(\<forall>sm \<in> set sms. sm_public_graph_name sm \<noteq> g) \<Longrightarrow> hits sms g i = 0"
  by (auto simp: hits_def filter_empty_conv)

text \<open>Two tilings of different public graphs make one.\<close>

lemma tiling_append:
  assumes "tiling xs" "tiling ys" "sm_public_graph_name ` set xs \<inter> sm_public_graph_name ` set ys = {}"
  shows "tiling (xs @ ys)"
proof -
  have x: "hits ys (sm_public_graph_name sm) i = 0" if "sm \<in> set xs" for sm i
    using assms(3) that by (intro hits_none) (auto simp: image_iff disjoint_iff)
  have y: "hits xs (sm_public_graph_name sm) i = 0" if "sm \<in> set ys" for sm i
    using assms(3) that by (intro hits_none) (auto simp: image_iff disjoint_iff)
  show ?thesis
    unfolding tiling_def
  proof (intro ballI conjI allI impI)
    fix sm assume sm: "sm \<in> set (xs @ ys)"
    show "slice_in_range sm" using sm assms(1,2) by (auto simp: tiling_def)
    show "sm_total_length sm' = sm_total_length sm"
      if sm': "sm' \<in> set (xs @ ys)" "sm_public_graph_name sm' = sm_public_graph_name sm" for sm'
    proof -
      have "sm_public_graph_name a \<noteq> sm_public_graph_name b" if "a \<in> set xs" "b \<in> set ys" for a b
        using assms(3) that by (metis IntI empty_iff image_eqI)
      then consider "sm \<in> set xs" "sm' \<in> set xs" | "sm \<in> set ys" "sm' \<in> set ys"
        using sm sm' by (metis Un_iff set_append)
      then show ?thesis
      proof cases
        case 1
        then show ?thesis using tilingD(2)[OF assms(1)] sm'(2) by blast
      next
        case 2
        then show ?thesis using tilingD(2)[OF assms(2)] sm'(2) by blast
      qed
    qed
    show "hits (xs @ ys) (sm_public_graph_name sm) i = 1" if "0 \<le> i \<and> i < sm_total_length sm" for i
    proof (cases "sm \<in> set xs")
      case True
      then show ?thesis using tilingD(3)[OF assms(1) True] that x by simp
    next
      case False
      then have "sm \<in> set ys" using sm by simp
      then show ?thesis using tilingD(3)[OF assms(2)] that y by simp
    qed
  qed
qed

text \<open>The slices the loop makes for batches of the given lengths.\<close>

fun metas_from :: "string \<Rightarrow> string \<Rightarrow> nat \<Rightarrow> string list \<Rightarrow> nat \<Rightarrow> nat \<Rightarrow> nat list \<Rightarrow> slice_meta list" where
  "metas_from name h len varying idx start [] = []"
| "metas_from name h len varying idx start (l # ls) =
     \<lparr>sm_public_graph_name = name, sm_slice_index = int idx, sm_slice_start = int start,
      sm_slice_length = int l, sm_total_length = int len, sm_template_hash = h, sm_varying_input_keys = varying\<rparr>
     # metas_from name h len varying (Suc idx) (start + l) ls"

lemma metas_from_name: "sm \<in> set (metas_from name h len v idx start ls) \<Longrightarrow>
    sm_public_graph_name sm = name \<and> sm_total_length sm = int len"
  by (induction ls arbitrary: idx start) auto

lemma metas_from_range:
  "sm \<in> set (metas_from name h len v idx start ls) \<Longrightarrow> 0 \<notin> set ls \<Longrightarrow> start + sum_list ls \<le> len \<Longrightarrow> slice_in_range sm"
proof (induction ls arbitrary: idx start)
  case (Cons l ls)
  then show ?case by (auto simp: slice_in_range_def)
qed simp

lemma metas_from_hits:
  "hits (metas_from name h len v idx start ls) name i =
     (if int start \<le> i \<and> i < int (start + sum_list ls) then 1 else 0)"
  by (induction ls arbitrary: idx start) (auto simp: hits_Cons span_def)

lemma metas_from_tiling:
  assumes "0 \<notin> set ls" "sum_list ls = len"
  shows "tiling (metas_from name h len v idx 0 ls)"
  unfolding tiling_def
proof (intro ballI conjI allI impI)
  let ?ms = "metas_from name h len v idx 0 ls"
  fix sm assume sm: "sm \<in> set ?ms"
  show "slice_in_range sm" using metas_from_range[OF sm assms(1)] assms(2) by simp
  show "sm_total_length sm' = sm_total_length sm" if "sm' \<in> set ?ms" for sm'
    using metas_from_name[OF sm] metas_from_name[OF that] by simp
  show "hits ?ms (sm_public_graph_name sm) i = 1" if "0 \<le> i \<and> i < sm_total_length sm" for i
    using metas_from_name[OF sm] metas_from_hits[of name h len v idx 0 ls i] assms(2) that by simp
qed

subsection \<open>The shape of the batches\<close>

lemma max_len_ge: "(k, vs) \<in> set ins \<Longrightarrow> length vs \<le> max_len ins"
  by (induction ins) (auto simp: max_len_def)

lemma max_len_le: "(\<forall>(k, vs) \<in> set ins. length vs \<le> m) \<Longrightarrow> max_len ins \<le> m"
  by (induction ins) (auto simp: max_len_def)

lemma max_len_attained: "0 < max_len ins \<Longrightarrow> \<exists>k vs. (k, vs) \<in> set ins \<and> length vs = max_len ins"
proof (induction ins)
  case (Cons x ins)
  obtain k vs where x: "x = (k, vs)" by (cases x)
  have m: "max_len (x # ins) = max (length vs) (max_len ins)" by (simp add: max_len_def x)
  show ?case
  proof (cases "max_len ins \<le> length vs")
    case True
    then show ?thesis using m x by (intro exI[of _ k] exI[of _ vs]) simp
  next
    case False
    then obtain k' vs' where "(k', vs') \<in> set ins" "length vs' = max_len ins" using Cons.IH by force
    then show ?thesis using False m by (intro exI[of _ k'] exI[of _ vs']) simp
  qed
qed (simp add: max_len_def)

text \<open>A batch that starts inside the inputs is not ragged, and as long as the rows it holds.\<close>

lemma chunk_at_shape:
  assumes "\<not> ragged ins" "0 < n" "n < max_len ins" "start < max_len ins"
  shows "max_len (chunk_at n start ins) = min n (max_len ins - start)" and "\<not> ragged (chunk_at n start ins)"
proof -
  let ?m = "min n (max_len ins - start)" and ?c = "chunk_at n start ins"
  have one: "1 \<le> ?m" and big: "1 < max_len ins" using assms by auto
  have len: "length vs = 1 \<or> length vs = ?m" if mem: "(k, vs) \<in> set ?c" for k vs
  proof -
    obtain ws where ws: "(k, ws) \<in> set ins" "vs = (if length ws = 1 then ws else take n (drop start ws))"
      using mem by (auto simp: chunk_at_def simp del: One_nat_def)
    have "length ws = 1 \<or> length ws = max_len ins" using assms(1) ws(1) by (auto simp: ragged_def)
    then show ?thesis using ws(2) big by (auto split: if_splits)
  qed
  have le: "max_len ?c \<le> ?m" by (rule max_len_le) (use len one in fastforce)
  obtain k ws where ws: "(k, ws) \<in> set ins" "length ws = max_len ins"
    using max_len_attained[of ins] big by auto
  have "(k, take n (drop start ws)) \<in> set ?c"
    using ws big by (auto simp: chunk_at_def intro!: rev_image_eqI[of "(k, ws)"])
  then have "?m \<le> max_len ?c" using max_len_ge[of k _ ?c] ws(2) by fastforce
  with le show m: "max_len ?c = ?m" by (rule antisym)
  show "\<not> ragged ?c" unfolding ragged_def m using len by fastforce
qed

lemma sum_min_blocks: "sum_list (map (\<lambda>i. min n (m - i * n)) [0..<c]) = min (c * n) m"
  by (induction c) auto

lemma ceil_div_pos: "0 < n \<Longrightarrow> i < ceil_div m n \<Longrightarrow> i * n < m"
proof -
  assume n: "0 < n" and i: "i < ceil_div m n"
  then have m: "0 < m" by (cases m) (auto simp: ceil_div_def)
  have "i * n \<le> (ceil_div m n - 1) * n" using i by (intro mult_le_mono1) linarith
  then show ?thesis using ceil_div_bounds(2)[OF n m] by linarith
qed

text \<open>The lengths of the batches: positive, and summing to the length of the inputs.\<close>

definition batch_lens :: "nat \<Rightarrow> nat \<Rightarrow> nat list" where
  "batch_lens m n = (if m \<le> n then [m] else map (\<lambda>i. min n (m - i * n)) [0..<ceil_div m n])"

lemma batch_lens_ok: "0 < n \<Longrightarrow> sum_list (batch_lens m n) = m" "0 < n \<Longrightarrow> 0 < m \<Longrightarrow> 0 \<notin> set (batch_lens m n)"
proof -
  assume n: "0 < n"
  show "sum_list (batch_lens m n) = m"
    using ceil_div_bounds(1)[OF n, of m] by (simp add: batch_lens_def sum_min_blocks)
  show "0 \<notin> set (batch_lens m n)" if "0 < m"
  proof (cases "m \<le> n")
    case False
    have "0 < min n (m - i * n)" if "i < ceil_div m n" for i using ceil_div_pos[OF n that] n by simp
    then have "\<forall>x \<in> set (batch_lens m n). 0 < x" using False by (simp add: batch_lens_def)
    then show ?thesis by blast
  qed (use that in \<open>simp add: batch_lens_def\<close>)
qed

lemma chunk_inputs_shape:
  assumes "chunk_inputs ins n = Inr bs" "0 < n"
  shows "\<not> ragged ins" "map max_len bs = batch_lens (max_len ins) n" "\<forall>b \<in> set bs. \<not> ragged b"
proof -
  show r: "\<not> ragged ins" using assms(1) by (auto simp: chunk_inputs_def split: if_splits)
  show "map max_len bs = batch_lens (max_len ins) n"
  proof (cases "max_len ins \<le> n")
    case True
    then show ?thesis using assms r by (auto simp: chunk_inputs_def batch_lens_def)
  next
    case False
    then have bs: "bs = map (\<lambda>i. chunk_at n (i * n) ins) [0..<ceil_div (max_len ins) n]"
      using assms r by (auto simp: chunk_inputs_def range_starts_def)
    show ?thesis using False r assms(2) ceil_div_pos[OF assms(2)]
      by (auto simp: bs batch_lens_def intro!: chunk_at_shape(1))
  qed
  show "\<forall>b \<in> set bs. \<not> ragged b"
  proof (cases "max_len ins \<le> n")
    case True
    then show ?thesis using assms r by (auto simp: chunk_inputs_def)
  next
    case False
    then have bs: "bs = map (\<lambda>i. chunk_at n (i * n) ins) [0..<ceil_div (max_len ins) n]"
      using assms r by (auto simp: chunk_inputs_def range_starts_def)
    show ?thesis using False r assms(2) ceil_div_pos[OF assms(2)]
      by (auto simp: bs chunk_at_shape(2))
  qed
qed

subsection \<open>The slices of a submission tile its inputs\<close>

lemma update_key_set: "fst ` set (AList.update k v d) = insert k (fst ` set d)"
  by (induction d) auto

lemma dispatch_native_keys:
  "dispatch_native payload ins gn specs = Inr specs' \<Longrightarrow> fst ` set specs' = insert gn (fst ` set specs)"
  by (cases payload) (simp_all add: dispatch_native_def, metis update_key_set)

lemma slice_loop_result:
  assumes "slice_loop name payload h len v n idx start bs s = Inr s'" "fst ` set (sb_slices s) = fst ` set (sb_specs s)"
  shows "map snd (sb_slices s') = map snd (sb_slices s) @ metas_from name h len v idx start (map max_len bs)
    \<and> fst ` set (sb_slices s') = fst ` set (sb_specs s')"
  using assms
proof (induction bs arbitrary: idx start s)
  case (Cons b bs)
  let ?gn = "slice_name name n idx"
  let ?meta = "\<lparr>sm_public_graph_name = name, sm_slice_index = int idx, sm_slice_start = int start,
      sm_slice_length = int (max_len b), sm_total_length = int len, sm_template_hash = h, sm_varying_input_keys = v\<rparr>"
  obtain specs where new: "?gn \<notin> fst ` set (sb_specs s)"
    and specs: "dispatch_native payload b ?gn (sb_specs s) = Inr specs"
    and rest: "slice_loop name payload h len v n (Suc idx) (start + max_len b) bs
        \<lparr>sb_specs = specs, sb_slices = AList.update ?gn ?meta (sb_slices s)\<rparr> = Inr s'"
    using Cons.prems(1) by (auto simp: Let_def input_shape_def split: if_splits sum.splits)
  have upd: "AList.update ?gn ?meta (sb_slices s) = sb_slices s @ [(?gn, ?meta)]"
    using new Cons.prems(2) by (intro update_new) simp
  have keys: "fst ` set (AList.update ?gn ?meta (sb_slices s)) = fst ` set specs"
    unfolding upd using dispatch_native_keys[OF specs] Cons.prems(2) by simp
  show ?case using Cons.IH[OF rest] keys unfolding upd by simp
qed simp

lemma effective_batch_size_pos: "effective_batch_size b = Inr n \<Longrightarrow> 0 < n"
  by (auto simp: effective_batch_size_def split: option.splits if_splits)

lemma slice_entry_result:
  assumes "slice_entry hash name e s = Inr s'" "fst ` set (sb_slices s) = fst ` set (sb_specs s)"
  shows "\<exists>n h v. 0 < n \<and> map snd (sb_slices s') = map snd (sb_slices s)
      @ metas_from name h (max_len (en_inputs e)) v 0 0 (batch_lens (max_len (en_inputs e)) n)
    \<and> fst ` set (sb_slices s') = fst ` set (sb_specs s')"
proof -
  obtain n bs where n: "effective_batch_size (en_batch_size e) = Inr n" and bs: "chunk_inputs (en_inputs e) n = Inr bs"
    and loop: "slice_loop name (en_payload e) (hash (en_payload e)) (max_len (en_inputs e)) (varying_keys (en_inputs e))
       (length bs) 0 0 bs s = Inr s'"
    using assms(1) by (auto simp: slice_entry_def input_shape_def split: if_splits sum.splits prod.splits)
  note pos = effective_batch_size_pos[OF n]
  show ?thesis using pos slice_loop_result[OF loop assms(2)] chunk_inputs_shape(2)[OF bs pos] by metis
qed

lemma slice_entries_tiling:
  assumes "slice_entries hash idx seen es s = Inr s'" "fst ` set (sb_slices s) = fst ` set (sb_specs s)"
    "tiling (map snd (sb_slices s))" "sm_public_graph_name ` set (map snd (sb_slices s)) \<subseteq> seen"
    "\<forall>e \<in> set es. 0 < max_len (en_inputs e)"
  shows "tiling (map snd (sb_slices s'))"
  using assms
proof (induction es arbitrary: idx seen s)
  case (Cons e es)
  let ?name = "entry_name idx e" and ?m = "max_len (en_inputs e)"
  obtain s1 where new: "?name \<notin> seen" and s1: "slice_entry hash ?name e s = Inr s1"
    and rest: "slice_entries hash (Suc idx) (insert ?name seen) es s1 = Inr s'"
    using Cons.prems(1) by (auto simp: Let_def split: if_splits sum.splits)
  obtain n h v where n: "0 < n" and sl: "map snd (sb_slices s1) = map snd (sb_slices s)
      @ metas_from ?name h ?m v 0 0 (batch_lens ?m n)" and keys: "fst ` set (sb_slices s1) = fst ` set (sb_specs s1)"
    using slice_entry_result[OF s1 Cons.prems(2)] by blast
  let ?new = "metas_from ?name h ?m v 0 0 (batch_lens ?m n)"
  have pub: "sm_public_graph_name ` set ?new \<subseteq> {?name}" using metas_from_name by blast
  have t: "tiling ?new" using Cons.prems(5) n by (intro metas_from_tiling) (simp_all add: batch_lens_ok)
  have disj: "sm_public_graph_name ` set (map snd (sb_slices s)) \<inter> sm_public_graph_name ` set ?new = {}"
  proof -
    have "?name \<notin> sm_public_graph_name ` set (map snd (sb_slices s))" using Cons.prems(4) new by (rule contra_subsetD)
    then show ?thesis using pub by (metis Int_emptyI singletonD subsetD)
  qed
  have "tiling (map snd (sb_slices s1))"
    unfolding sl map_append by (rule tiling_append[OF Cons.prems(3) t disj])
  moreover have "sm_public_graph_name ` set (map snd (sb_slices s1)) \<subseteq> insert ?name seen"
    unfolding sl set_append image_Un using pub Cons.prems(4) by blast
  ultimately show ?case using Cons.IH[OF rest keys] Cons.prems(5) by simp
qed simp

text \<open>Cut into slices, the rows of every entry that has some lie in exactly one slice each.\<close>

lemma slice_submission_tiling:
  assumes "slice_submission hash es = Inr s" "\<forall>e \<in> set es. 0 < max_len (en_inputs e)"
  shows "tiling (map snd (sb_slices s))"
proof -
  have "slice_entries hash 0 {} es \<lparr>sb_specs = [], sb_slices = []\<rparr> = Inr s"
    using assms(1) by (auto simp: slice_submission_def split: if_splits)
  then show ?thesis by (rule slice_entries_tiling[OF _ _ _ _ assms(2)]) (simp_all add: tiling_def)
qed

text \<open>The rows of the batches, put back together, are the inputs; a broadcast value is in every batch.\<close>

lemma chunks_rejoin:
  assumes "0 < n"
  shows "concat (map (\<lambda>i. take n (drop (i * n) xs)) [0..<ceil_div (length xs) n]) = xs"
proof -
  have "concat (map (\<lambda>i. take n (drop (i * n) xs)) [0..<c]) = take (c * n) xs" for c
  proof (induction c)
    case (Suc c)
    have "take (Suc c * n) xs = take (c * n) xs @ take n (drop (c * n) xs)"
      by (simp add: add.commute[of n] take_add)
    then show ?case using Suc by simp
  qed simp
  then show ?thesis using ceil_div_bounds(1)[OF assms, of "length xs"] by simp
qed

lemma chunk_inputs_rejoin:
  assumes "chunk_inputs ins n = Inr bs" "0 < n" "(k, vs) \<in> set ins" "distinct (map fst ins)"
  shows "(if length vs = 1 then \<forall>b \<in> set bs. map_of b k = Some vs
          else concat (map (\<lambda>b. the (map_of b k)) bs) = vs)"
proof -
  have r: "\<not> ragged ins" using assms(1) by (auto simp: chunk_inputs_def split: if_splits)
  have look: "map_of (chunk_at n start ins) k = Some (if length vs = 1 then vs else take n (drop start vs))" for start
    using assms(3,4) by (simp add: chunk_at_def map_of_map map_of_is_SomeI)
  show ?thesis
  proof (cases "max_len ins \<le> n")
    case True
    then show ?thesis using assms r by (auto simp: chunk_inputs_def)
  next
    case False
    then have bs: "bs = map (\<lambda>i. chunk_at n (i * n) ins) [0..<ceil_div (max_len ins) n]"
      using assms(1,2) r by (auto simp: chunk_inputs_def range_starts_def)
    have "length vs = 1 \<or> length vs = max_len ins" using r assms(3) by (auto simp: ragged_def)
    then show ?thesis using look chunks_rejoin[OF assms(2), of vs] by (auto simp: bs comp_def)
  qed
qed

end
