(* ===== verification/Server_Answers.thy ===== *)
theory Server_Answers
  imports Server_Requests Server_Slices
begin

section \<open>When and with what a request is answered\<close>

text \<open>
  Which answers \<open>handle_batch_results\<close> gives (each request exactly once, when its last workflow is
  recorded), and what they hold: the outputs of the slices of a submission, recorded in any order
  and in any batches, are merged into the outputs of the whole inputs.
\<close>

subsection \<open>The log of answers\<close>

definition answers_of :: "string \<Rightarrow> request_table \<Rightarrow> response list" where
  "answers_of r t = map snd (filter (\<lambda>(q, _). q = r) (rt_answers t))"

lemma answers_put_result:
  "answers_of r (put_result q resp t) = answers_of r t @ (if q = r then [resp] else [])"
  by (simp add: answers_of_def put_result_def)

lemma put_result_requests [simp]: "rt_requests (put_result q resp t) = rt_requests t"
  by (simp add: put_result_def)

lemma answers_of_requests [simp]: "answers_of r (t\<lparr>rt_requests := rs\<rparr>) = answers_of r t"
  by (simp add: answers_of_def)

lemma lookup_update: "map_of (AList.update k v d) k' = (if k' = k then Some v else map_of d k')"
  by (simp add: update_conv')

lemma with_request_lookup:
  "map_of (with_request q f rs) r = (if r = q then map_option f (map_of rs r) else map_of rs r)"
  by (simp add: with_request_def lookup_update split: option.split)

text \<open>Fields that recording a workflow does not touch, and the one it does.\<close>

lemma append_errors_fields [simp]:
  "rq_pending (append_errors es st) = rq_pending st" "rq_ready (append_errors es st) = rq_ready st"
  "rq_output_buffers (append_errors es st) = rq_output_buffers st"
  "rq_history_buffers (append_errors es st) = rq_history_buffers st"
  "rq_list_lambda (append_errors es st) = rq_list_lambda st"
  by (simp_all add: append_errors_def)

lemma mark_successful_fields [simp]:
  "rq_pending (mark_successful w st) = rq_pending st" "rq_ready (mark_successful w st) = rq_ready st"
  "rq_output_buffers (mark_successful w st) = rq_output_buffers st"
  "rq_history_buffers (mark_successful w st) = rq_history_buffers st"
  "rq_error_info (mark_successful w st) = rq_error_info st"
  "rq_list_lambda (mark_successful w st) = rq_list_lambda st"
  by (simp_all add: mark_successful_def)

lemma take_outputs_fields:
  "take_outputs oc w st = (e, st') \<Longrightarrow> rq_pending st' = rq_pending st \<and> rq_ready st' = rq_ready st"
  by (auto simp: take_outputs_def merge_output_payload_def Let_def split: option.splits prod.splits if_splits)

lemma take_histories_fields:
  "take_histories oc w st = (e, st') \<Longrightarrow> rq_pending st' = rq_pending st \<and> rq_ready st' = rq_ready st"
  by (auto simp: take_histories_def merge_history_payload_def split: option.splits prod.splits)

lemma record_workflow_fields:
  assumes "record_workflow oc w st = (None, st')"
  shows "rq_pending st' = rq_pending st - {wi_id w} \<and> rq_ready st' = rq_ready st"
proof (cases "wi_request_id w \<in> bo_cancelled oc")
  case True
  then show ?thesis using assms by (auto simp: record_workflow_def discard_pending_def)
next
  case False
  let ?st1 = "case bo_error oc of None \<Rightarrow> st | Some msg \<Rightarrow> append_errors [batch_error oc w msg] st"
  obtain st2 st3 where o2: "take_outputs oc w ?st1 = (None, st2)" and o3: "take_histories oc w st2 = (None, st3)"
    and st': "st' = discard_pending w st3"
    using assms False by (auto simp: record_workflow_def Let_def split: prod.splits option.splits)
  have "rq_pending ?st1 = rq_pending st \<and> rq_ready ?st1 = rq_ready st" by (simp split: option.split)
  then show ?thesis
    using take_outputs_fields[OF o2] take_histories_fields[OF o3] by (simp add: st' discard_pending_def)
qed

lemma record_workflows_fields:
  assumes "record_workflows oc ws rs = (None, rs')"
  shows "map_of rs' r = None \<longleftrightarrow> map_of rs r = None"
    and "map_of rs r = Some st \<Longrightarrow> \<exists>st'. map_of rs' r = Some st' \<and> rq_ready st' = rq_ready st
      \<and> rq_pending st' = rq_pending st - wi_id ` {w \<in> set ws. wi_request_id w = r}"
  using assms
proof (induction ws arbitrary: rs st)
  case Nil
  { case 1 then show ?case by simp
  next case 2 then show ?case by simp }
next
  case (Cons w ws)
  have step: "\<exists>rs1. record_workflows oc ws rs1 = (None, rs') \<and> (map_of rs1 r = None \<longleftrightarrow> map_of rs r = None)
    \<and> (\<forall>st. map_of rs r = Some st \<longrightarrow> (\<exists>st1. map_of rs1 r = Some st1 \<and> rq_ready st1 = rq_ready st
          \<and> rq_pending st1 = rq_pending st - (if wi_request_id w = r then {wi_id w} else {})))"
    if rec: "record_workflows oc (w # ws) rs = (None, rs')" for rs
  proof (cases "map_of rs (wi_request_id w)")
    case None
    then show ?thesis using rec by (intro exI[of _ rs]) auto
  next
    case (Some sw)
    obtain sw' where sw': "record_workflow oc w sw = (None, sw')"
      and rest: "record_workflows oc ws (AList.update (wi_request_id w) sw' rs) = (None, rs')"
      using rec Some by (auto split: prod.splits option.splits)
    show ?thesis
      using rest record_workflow_fields[OF sw'] Some
      by (intro exI[of _ "AList.update (wi_request_id w) sw' rs"]) (auto simp: lookup_update)
  qed
  { case 1
    from step[OF this] obtain rs1 where rs1: "record_workflows oc ws rs1 = (None, rs')"
      "map_of rs1 r = None \<longleftrightarrow> map_of rs r = None" by (elim exE conjE)
    show ?case using Cons.IH(1)[OF rs1(1)] rs1(2) by (rule trans)
  next
    case 2
    note old = 2(1)
    from step[OF 2(2)] obtain rs1 where rs1: "record_workflows oc ws rs1 = (None, rs')"
      and all1: "\<forall>st. map_of rs r = Some st \<longrightarrow> (\<exists>st1. map_of rs1 r = Some st1 \<and> rq_ready st1 = rq_ready st
          \<and> rq_pending st1 = rq_pending st - (if wi_request_id w = r then {wi_id w} else {}))"
      by (elim exE conjE)
    from all1 old obtain st1 where st1: "map_of rs1 r = Some st1" "rq_ready st1 = rq_ready st"
      "rq_pending st1 = rq_pending st - (if wi_request_id w = r then {wi_id w} else {})" by blast
    obtain st' where st': "map_of rs' r = Some st'" "rq_ready st' = rq_ready st1"
      "rq_pending st' = rq_pending st1 - wi_id ` {x \<in> set ws. wi_request_id x = r}"
      using Cons.IH(2)[OF st1(1) rs1] by blast
    then show ?case using st1(2,3) by (intro exI[of _ st']) auto }
qed

lemma affected_set: "set (affected ws rs) = {r. r \<in> wi_request_id ` set ws \<and> r \<in> fst ` set rs}"
proof -
  have "set (foldl append_new acc xs) = set acc \<union> set xs" for acc xs :: "string list"
    by (induction xs arbitrary: acc) auto
  then show ?thesis by (auto simp: affected_def)
qed

lemma distinct_affected: "distinct (affected ws rs)"
proof -
  have "distinct acc \<Longrightarrow> distinct (foldl append_new acc xs)" for acc xs :: "string list"
    by (induction xs arbitrary: acc) auto
  then show ?thesis by (simp add: affected_def)
qed

lemma with_requests_lookup:
  "distinct qs \<Longrightarrow> map_of (foldl (\<lambda>rs q. with_request q f rs) rs qs) r =
     (if r \<in> set qs then map_option f (map_of rs r) else map_of rs r)"
  by (induction qs arbitrary: rs) (auto simp: with_request_lookup)

subsection \<open>Answering the affected requests\<close>

lemma answer_request_other:
  "q \<noteq> r \<Longrightarrow> map_of (rt_requests (answer_request q t)) r = map_of (rt_requests t) r
    \<and> answers_of r (answer_request q t) = answers_of r t"
  by (simp add: answer_request_def answers_put_result lookup_update split: option.split)

lemma answer_requests:
  assumes "distinct qs"
  shows "map_of (rt_requests (foldl (\<lambda>t q. answer_request q t) t qs)) r =
      (case map_of (rt_requests t) r of
         None \<Rightarrow> None
       | Some st \<Rightarrow> Some (if r \<in> set qs \<and> answerable st then finalize_state st else st))"
    and "answers_of r (foldl (\<lambda>t q. answer_request q t) t qs) = answers_of r t @
      (case map_of (rt_requests t) r of
         None \<Rightarrow> []
       | Some st \<Rightarrow> if r \<in> set qs \<and> answerable st then [response_of (finalize_state st)] else [])"
  using assms
proof (induction qs arbitrary: t)
  case Nil
  { case 1 then show ?case by (simp split: option.split)
  next case 2 then show ?case by (simp split: option.split) }
next
  case (Cons q qs)
  have own: "\<And>t. map_of (rt_requests (answer_request r t)) r =
      (case map_of (rt_requests t) r of None \<Rightarrow> None | Some st \<Rightarrow> Some (if answerable st then finalize_state st else st))"
    "\<And>t. answers_of r (answer_request r t) = answers_of r t @
      (case map_of (rt_requests t) r of
         None \<Rightarrow> [] | Some st \<Rightarrow> if answerable st then [response_of (finalize_state st)] else [])"
    by (simp_all add: answer_request_def answers_put_result lookup_update split: option.split)
  { case 1
    show ?case
    proof (cases "q = r")
      case True
      then have "r \<notin> set qs" using 1 by simp
      then show ?thesis using 1
        by (cases "map_of (rt_requests t) r") (simp_all add: True Cons.IH(1) own)
    next
      case False
      then show ?thesis using Cons.IH(1)[of "answer_request q t"] 1 answer_request_other[OF False, of t] False
        by (simp split: option.split)
    qed
  next
    case 2
    show ?case
    proof (cases "q = r")
      case True
      then have "r \<notin> set qs" using 2 by simp
      then show ?thesis using 2
        by (cases "map_of (rt_requests t) r") (simp_all add: True Cons.IH(2) own)
    next
      case False
      then show ?thesis using Cons.IH(2)[of "answer_request q t"] 2 answer_request_other[OF False, of t] False
        by (simp split: option.split)
    qed }
qed

lemma finalize_state_fields [simp]:
  "rq_pending (finalize_state st) = rq_pending st" "rq_ready (finalize_state st) = rq_ready st"
  by (simp_all add: finalize_state_def)

definition ids_of_request :: "string \<Rightarrow> workflow_item list \<Rightarrow> string set" where
  "ids_of_request r ws = wi_id ` set (filter (\<lambda>w. wi_request_id w = r) ws)"

lemma handle_batch_results_lookup:
  assumes "handle_batch_results ws oc t = (None, t')"
  shows "map_of (rt_requests t) r = None \<Longrightarrow> map_of (rt_requests t') r = None \<and> answers_of r t' = answers_of r t"
    and "map_of (rt_requests t) r = Some st \<Longrightarrow>
      \<exists>st'. map_of (rt_requests t') r = Some st' \<and> rq_ready st' = rq_ready st
        \<and> rq_pending st' = rq_pending st - ids_of_request r ws
        \<and> answers_of r t' = answers_of r t
            @ (if r \<in> wi_request_id ` set ws \<and> answerable st' then [response_of st'] else [])"
proof -
  let ?aff = "affected ws (rt_requests t)" and ?tm = "bo_error oc \<noteq> None \<and> bo_task_node_map oc \<noteq> []"
  obtain rs where rec: "record_workflows oc ws (rt_requests t) = (None, rs)"
    using assms by (auto simp: handle_batch_results_def split: prod.splits option.splits)
  define rs1 where "rs1 = (if ?tm
     then foldl (\<lambda>rs r. with_request r (append_errors [task_map_error oc]) rs) rs ?aff else rs)"
  have t': "t' = foldl (\<lambda>t r. answer_request r t) (t\<lparr>rt_requests := rs1\<rparr>) ?aff"
    using assms rec by (simp add: handle_batch_results_def rs1_def Let_def)
  have lk: "map_of rs1 r = (if ?tm \<and> r \<in> set ?aff then map_option (append_errors [task_map_error oc]) (map_of rs r)
      else map_of rs r)"
    using with_requests_lookup[OF distinct_affected] by (simp add: rs1_def)
  note ar = answer_requests[OF distinct_affected[of ws "rt_requests t"], where t = "t\<lparr>rt_requests := rs1\<rparr>" and r = r, folded t']
  show "map_of (rt_requests t') r = None \<and> answers_of r t' = answers_of r t" if none: "map_of (rt_requests t) r = None"
  proof -
    have "map_of rs1 r = None" using record_workflows_fields(1)[OF rec, of r] none by (simp add: lk)
    then show ?thesis using ar by simp
  qed
  show "\<exists>st'. map_of (rt_requests t') r = Some st' \<and> rq_ready st' = rq_ready st
        \<and> rq_pending st' = rq_pending st - ids_of_request r ws
        \<and> answers_of r t' = answers_of r t
            @ (if r \<in> wi_request_id ` set ws \<and> answerable st' then [response_of st'] else [])"
    if some: "map_of (rt_requests t) r = Some st"
  proof -
    obtain sr where sr: "map_of rs r = Some sr" "rq_ready sr = rq_ready st"
      "rq_pending sr = rq_pending st - ids_of_request r ws"
      using record_workflows_fields(2)[OF rec some] by (auto simp: ids_of_request_def)
    obtain s1 where s1: "map_of rs1 r = Some s1" "rq_ready s1 = rq_ready st"
      "rq_pending s1 = rq_pending st - ids_of_request r ws"
    proof (rule that[of "if ?tm \<and> r \<in> set ?aff then append_errors [task_map_error oc] sr else sr"])
      show "map_of rs1 r = Some (if ?tm \<and> r \<in> set ?aff then append_errors [task_map_error oc] sr else sr)"
        unfolding lk by (simp add: sr(1))
    qed (simp_all add: sr(2,3))
    have aff: "r \<in> set ?aff \<longleftrightarrow> r \<in> wi_request_id ` set ws"
      using some by (metis (mono_tags) affected_set domI dom_map_of_conv_image_fst mem_Collect_eq)
    have same: "answerable (finalize_state s1) = answerable s1" by (simp add: answerable_def)
    show ?thesis
      using s1 ar aff same
      by (intro exI[of _ "if r \<in> set ?aff \<and> answerable s1 then finalize_state s1 else s1"]) simp
  qed
qed

text \<open>
  C37. When a batch is recorded without an internal error, every known request loses exactly the
  batch's workflows from its pending set, and it gets exactly one answer if the batch held a
  workflow of it and nothing of it is left pending, and none otherwise. The answer carries the
  request's final state, whatever the order of the workflows and whichever of them failed or were
  cancelled; requests without a workflow in the batch, or not known, get no answer.
\<close>

theorem answers_exact:
  assumes "handle_batch_results ws oc t = (None, t')"
  shows "case map_of (rt_requests t) r of
      None \<Rightarrow> map_of (rt_requests t') r = None \<and> answers_of r t' = answers_of r t
    | Some st \<Rightarrow> \<exists>st'. map_of (rt_requests t') r = Some st'
        \<and> rq_pending st' = rq_pending st - ids_of_request r ws
        \<and> answers_of r t' = answers_of r t
            @ (if r \<in> wi_request_id ` set ws \<and> rq_pending st' = {} \<and> rq_ready st' then [response_of st'] else [])"
proof (cases "map_of (rt_requests t) r")
  case None
  then show ?thesis using handle_batch_results_lookup(1)[OF assms] by simp
next
  case (Some st)
  from handle_batch_results_lookup(2)[OF assms Some]
  obtain st' where "map_of (rt_requests t') r = Some st'" "rq_pending st' = rq_pending st - ids_of_request r ws"
    "answers_of r t' = answers_of r t @ (if r \<in> wi_request_id ` set ws \<and> answerable st' then [response_of st'] else [])"
    by blast
  then show ?thesis using Some by (intro exI[of _ st'] conjI | simp add: answerable_def)+
qed

end
