(* ===== verification/Clustering.thy ===== *)
theory Clustering
  imports Job_Types
begin

section \<open>Affinity clustering\<close>

text \<open>
  \<open>runtime/job_manager/cluster_algo/clustering.py\<close>: the features of a workflow graph, the distance
  between two workflows, and the selection of a batch by agglomerative clustering. The callers build
  \<open>graphs\<close> and \<open>enqueued_at\<close> from the same items, so the enqueue times are a total function here.
  The distance cache only avoids recomputation (the distance is symmetric) and is left out.
\<close>

subsection \<open>Features and distance\<close>

record workflow_affinity =
  af_models :: "string set"
  af_tokens :: "string set"
  af_node_count :: nat

record affinity_weights =
  w_model :: real
  w_data :: real
  w_size :: real

definition default_weights :: affinity_weights where
  "default_weights = \<lparr>w_model = 7/10, w_data = 2/10, w_size = 1/10\<rparr>"

definition is_llm_backend :: "runtime_op \<Rightarrow> bool" where
  "is_llm_backend op = (op_backend op \<in> {''vllm'', ''transformers'', ''diffusers''})"

definition system_message :: "(string \<times> json) list \<Rightarrow> string list" where
  "system_message d =
     (case (map_of d ''role'', map_of d ''content'') of
        (Some (JStr r), Some (JStr c)) \<Rightarrow> if r = ''system'' then [c] else []
      | _ \<Rightarrow> [])"

text \<open>
  \<open>_extract_system_prompts\<close>: an object contributes its \<open>messages\<close> when they are a list and every
  other value; an object inside a list is read as one message and not searched further.
\<close>

fun extract_system_prompts :: "json \<Rightarrow> string list" where
  "extract_system_prompts (JDict d) =
     concat (map (\<lambda>(k, v). if k = ''messages'' then (case v of JList vs \<Rightarrow> extract_system_prompts v | _ \<Rightarrow> [])
                           else extract_system_prompts v) d)"
| "extract_system_prompts (JList vs) =
     concat (map (\<lambda>v. case v of JDict d \<Rightarrow> system_message d | _ \<Rightarrow> extract_system_prompts v) vs)"
| "extract_system_prompts _ = []"

text \<open>\<open>re.findall(r"[A-Za-z0-9_]+", s)\<close>: the maximal runs of word characters.\<close>

function word_runs :: "string \<Rightarrow> string list" where
  "word_runs s =
     (let s' = dropWhile (\<lambda>c. \<not> is_word c) s
      in if s' = [] then [] else takeWhile is_word s' # word_runs (dropWhile is_word s'))"
  by pat_completeness auto
termination
proof (relation "measure length")
  fix s s' :: string
  assume s': "s' = dropWhile (\<lambda>c. \<not> is_word c) s" "\<not> s' = []"
  then obtain c cs where c: "s' = c # cs" "is_word c"
    by (metis dropWhile_eq_Cons_conv list.exhaust)
  have "length (dropWhile is_word s') < length s'"
    using c by (simp add: le_imp_less_Suc length_dropWhile_le)
  also have "\<dots> \<le> length s" using s' by (simp add: length_dropWhile_le)
  finally show "(dropWhile is_word s', s) \<in> measure length" by simp
qed simp

definition tokenize_prompts :: "string list \<Rightarrow> string set" where
  "tokenize_prompts ps = set (concat (map (\<lambda>p. word_runs (py_lower p)) ps))"

definition build_affinity :: "runtime_graph \<Rightarrow> workflow_affinity" where
  "build_affinity g =
     (let ops = ops_of g
      in \<lparr>af_models = set (map op_model (filter (\<lambda>op. is_llm_backend op \<and> op_model op \<noteq> []) ops)),
          af_tokens = tokenize_prompts (concat (map (\<lambda>op. extract_system_prompts (JDict (op_data_spec op))) ops)),
          af_node_count = node_count g\<rparr>)"

definition jaccard :: "string set \<Rightarrow> string set \<Rightarrow> real" where
  "jaccard l r = (if l = {} \<or> r = {} then 0 else real (card (l \<inter> r)) / real (card (l \<union> r)))"

definition size_affinity :: "workflow_affinity \<Rightarrow> workflow_affinity \<Rightarrow> real" where
  "size_affinity a b =
     (let m = max (af_node_count a) (af_node_count b)
      in if m = 0 then 1
         else 1 - \<bar>real (af_node_count a) - real (af_node_count b)\<bar> / real m)"

definition affinity_distance :: "affinity_weights \<Rightarrow> workflow_affinity \<Rightarrow> workflow_affinity \<Rightarrow> real" where
  "affinity_distance w a b =
     (let score = w_model w * jaccard (af_models a) (af_models b)
                + w_data w * jaccard (af_tokens a) (af_tokens b)
                + w_size w * size_affinity a b
      in 1 - max 0 (min 1 score))"

definition graph_distance :: "affinity_weights \<Rightarrow> (string, runtime_graph) dict \<Rightarrow> string \<Rightarrow> string \<Rightarrow> real" where
  "graph_distance w graphs x y =
     (if x = y then 0
      else affinity_distance w (build_affinity (the (map_of graphs x))) (build_affinity (the (map_of graphs y))))"

subsection \<open>Greedy growth of one batch\<close>

type_synonym distance = "string \<Rightarrow> string \<Rightarrow> real"
type_synonym enq = "string \<Rightarrow> real"

definition avg_distance :: "distance \<Rightarrow> string \<Rightarrow> string list \<Rightarrow> real" where
  "avg_distance df c sel =
     (if sel = [] then 1 else sum_list (map (df c) sel) / real (length sel))"

fun pair_sums :: "distance \<Rightarrow> string list \<Rightarrow> real \<times> nat" where
  "pair_sums df [] = (0, 0)"
| "pair_sums df (x # xs) =
     (case pair_sums df xs of (t, n) \<Rightarrow> (sum_list (map (df x) xs) + t, length xs + n))"

definition batch_score :: "distance \<Rightarrow> string list \<Rightarrow> real" where
  "batch_score df sel =
     (if length sel \<le> 1 then 0
      else case pair_sums df sel of (t, n) \<Rightarrow> if n = 0 then 0 else t / real n)"

text \<open>The \<open>while\<close> loop that adds the nearest remaining workflow, older first on a tie.\<close>

function grow :: "distance \<Rightarrow> enq \<Rightarrow> nat \<Rightarrow> string list \<Rightarrow> string list \<Rightarrow> string list" where
  "grow df enq bsz selected [] = selected"
| "grow df enq bsz selected (r # rs) =
     (if length selected < bsz
      then let nxt = min_by (\<lambda>c. (avg_distance df c selected, enq c)) r rs
           in grow df enq bsz (selected @ [nxt]) (remove1 nxt (r # rs))
      else selected)"
  by pat_completeness auto
termination
proof (relation "measure (\<lambda>(_, _, _, _, rem). length rem)")
  fix df enq bsz selected r rs x
  assume "length (selected :: string list) < bsz" "x = min_by (\<lambda>c. (avg_distance df c selected, enq c :: real)) r rs"
  then have "x \<in> set (r # rs)" using min_by_in by simp
  from distinct_remove1_length[OF this]
  have "length (remove1 x (r # rs)) < length (r # rs)" by (simp del: remove1.simps)
  then show "((df, enq, bsz, selected @ [x], remove1 x (r # rs)), (df, enq, bsz, selected, r # rs))
      \<in> measure (\<lambda>(_, _, _, _, rem). length rem)" by simp
qed simp

record best_batch =
  bb_score :: real
  bb_oldest :: real
  bb_ids :: "string list"

text \<open>
  \<open>score < best_score or (score == best_score and oldest < (best_oldest or float("inf")))\<close>: a best
  time of zero is falsy and counts as infinity.
\<close>

definition better :: "real \<Rightarrow> real \<Rightarrow> best_batch option \<Rightarrow> bool" where
  "better score oldest best =
     (case best of
        None \<Rightarrow> True
      | Some b \<Rightarrow> score < bb_score b
          \<or> (score = bb_score b \<and> (bb_oldest b = 0 \<or> oldest < bb_oldest b)))"

definition oldest_of :: "enq \<Rightarrow> string list \<Rightarrow> real" where
  "oldest_of enq ids = (case ids of [] \<Rightarrow> 0 | x # xs \<Rightarrow> enq (min_by enq x xs))"

definition offer :: "distance \<Rightarrow> enq \<Rightarrow> string list \<Rightarrow> best_batch option \<Rightarrow> best_batch option" where
  "offer df enq ids best =
     (let score = batch_score df ids; oldest = oldest_of enq ids
      in if better score oldest best
         then Some \<lparr>bb_score = score, bb_oldest = oldest, bb_ids = ids\<rparr> else best)"

fun seed_loop ::
  "distance \<Rightarrow> enq \<Rightarrow> nat \<Rightarrow> string list \<Rightarrow> string list \<Rightarrow> best_batch option \<Rightarrow> best_batch option" where
  "seed_loop df enq bsz cands [] best = best"
| "seed_loop df enq bsz cands (s # ss) best =
     seed_loop df enq bsz cands ss
       (offer df enq (grow df enq bsz [s] (filter (\<lambda>c. c \<noteq> s) cands)) best)"

definition select_subset :: "distance \<Rightarrow> enq \<Rightarrow> nat \<Rightarrow> string list \<Rightarrow> string list \<Rightarrow> string list" where
  "select_subset df enq bsz cands pinned =
     (if length cands \<le> bsz then cands
      else if bsz \<le> length pinned then take bsz (sort_key enq pinned)
      else if pinned \<noteq> [] then grow df enq bsz pinned (filter (\<lambda>c. c \<notin> set pinned) cands)
      else case seed_loop df enq bsz cands cands None of
          None \<Rightarrow> take bsz cands
        | Some b \<Rightarrow> bb_ids b)"

subsection \<open>Agglomerative merging\<close>

definition cluster_distance :: "distance \<Rightarrow> string list \<Rightarrow> string list \<Rightarrow> real" where
  "cluster_distance df a b =
     (let n = length a * length b
      in if n = 0 then 0 else sum_list (map (\<lambda>x. sum_list (map (df x) b)) a) / real n)"

definition consider_cluster ::
  "distance \<Rightarrow> enq \<Rightarrow> nat \<Rightarrow> string list \<Rightarrow> string list \<Rightarrow> best_batch option \<Rightarrow> best_batch option" where
  "consider_cluster df enq bsz pinned cl best =
     (if \<exists>p \<in> set pinned. p \<notin> set cl then best
      else if length cl < bsz then best
      else offer df enq (select_subset df enq bsz cl pinned) best)"

definition index_pairs :: "nat \<Rightarrow> (nat \<times> nat) list" where
  "index_pairs n = concat (map (\<lambda>i. map (\<lambda>j. (i, j)) [Suc i..<n]) [0..<n])"

text \<open>\<open>clusters.pop(idx)\<close>.\<close>

definition pop_at :: "'a list \<Rightarrow> nat \<Rightarrow> 'a list" where
  "pop_at xs i = take i xs @ drop (Suc i) xs"

definition closest_pair :: "distance \<Rightarrow> string list list \<Rightarrow> (nat \<times> nat) option" where
  "closest_pair df cls =
     (case index_pairs (length cls) of
        [] \<Rightarrow> None
      | p # ps \<Rightarrow> Some (min_by (\<lambda>(i, j). cluster_distance df (cls ! i) (cls ! j)) p ps))"

function agglomerate ::
  "distance \<Rightarrow> enq \<Rightarrow> nat \<Rightarrow> string list \<Rightarrow> string list list \<Rightarrow> best_batch option \<Rightarrow> best_batch option" where
  "agglomerate df enq bsz pinned cls best =
     (case closest_pair df cls of
        None \<Rightarrow> best
      | Some (i, j) \<Rightarrow>
          (let merged = cls ! i @ cls ! j;
               cls' = pop_at (pop_at cls j) i @ [merged]
           in agglomerate df enq bsz pinned cls' (consider_cluster df enq bsz pinned merged best)))"
  by pat_completeness auto


lemma set_index_pairs: "(i, j) \<in> set (index_pairs n) \<longleftrightarrow> i < j \<and> j < n"
  by (force simp: index_pairs_def image_iff)

lemma closest_pair_Some:
  assumes "closest_pair df cls = Some (i, j)"
  shows "i < j \<and> j < length cls"
proof -
  obtain p ps where p: "index_pairs (length cls) = p # ps"
    and "(i, j) = min_by (\<lambda>(i, j). cluster_distance df (cls ! i) (cls ! j)) p ps"
    using assms by (auto simp: closest_pair_def split: list.splits)
  then have "(i, j) \<in> set (index_pairs (length cls))"
    using min_by_in by (metis list.simps(15))
  then show ?thesis by (simp add: set_index_pairs)
qed

termination agglomerate
proof (relation "measure (\<lambda>(_, _, _, _, cls, _). length cls)")
  fix df enq bsz pinned cls best p i j m cls'
  assume "closest_pair df cls = Some p" "(i, j) = p" "m = cls ! i @ cls ! j"
    and c: "cls' = pop_at (pop_at cls j) i @ [m]"
  then have "i < j" "j < length cls" using closest_pair_Some by auto
  then have "length cls' < length cls" by (simp add: c pop_at_def)
  then show "((df, enq, bsz, pinned, cls', consider_cluster df enq bsz pinned m best),
      (df, enq, bsz, pinned, cls, best)) \<in> measure (\<lambda>(_, _, _, _, cls, _). length cls)" by simp
qed simp

subsection \<open>The selection\<close>

text \<open>
  \<open>select_affinity_batch_ids\<close> over the candidates in dictionary order; a batch size below one is one.
\<close>

fun dedup :: "string list \<Rightarrow> string list \<Rightarrow> string list" where
  "dedup seen [] = []"
| "dedup seen (x # xs) = (if x \<in> set seen then dedup seen xs else x # dedup (x # seen) xs)"

definition normalize_pinned :: "string list \<Rightarrow> string list \<Rightarrow> string list" where
  "normalize_pinned cands pinned = dedup [] (filter (\<lambda>p. p \<in> set cands) pinned)"

definition select_affinity_ids ::
  "distance \<Rightarrow> enq \<Rightarrow> string list \<Rightarrow> nat \<Rightarrow> string list \<Rightarrow> string list" where
  "select_affinity_ids df enq cands batch_size pinned_ids =
     (let bsz = (if batch_size = 0 then 1 else batch_size)
      in if length cands \<le> bsz then cands
         else
           let pinned = normalize_pinned cands pinned_ids
           in if bsz \<le> length pinned then take bsz (sort_key enq pinned)
              else
                let cls = map (\<lambda>c. [c]) cands;
                    best0 = foldl (\<lambda>b cl. consider_cluster df enq bsz pinned cl b) None cls
                in case agglomerate df enq bsz pinned cls best0 of
                     None \<Rightarrow> select_subset df enq bsz cands pinned
                   | Some b \<Rightarrow> bb_ids b)"

definition select_affinity_batch_ids ::
  "affinity_weights \<Rightarrow> (string, runtime_graph) dict \<Rightarrow> enq \<Rightarrow> nat \<Rightarrow> string list \<Rightarrow> string list" where
  "select_affinity_batch_ids w graphs enq batch_size pinned_ids =
     select_affinity_ids (graph_distance w graphs) enq (map fst graphs) batch_size pinned_ids"

subsection \<open>Every path yields a full batch\<close>

definition full_batch :: "string list \<Rightarrow> nat \<Rightarrow> string list \<Rightarrow> string list \<Rightarrow> bool" where
  "full_batch cands n pinned ids \<longleftrightarrow>
     length ids = n \<and> distinct ids \<and> set ids \<subseteq> set cands \<and> set pinned \<subseteq> set ids"

lemma full_batch_mono: "full_batch cl n pinned ids \<Longrightarrow> set cl \<subseteq> set cands \<Longrightarrow> full_batch cands n pinned ids"
  by (auto simp: full_batch_def)

lemma grow_correct:
  assumes "distinct (selected @ rem)"
  shows "distinct (grow df enq n selected rem) \<and> set selected \<subseteq> set (grow df enq n selected rem)
     \<and> set (grow df enq n selected rem) \<subseteq> set selected \<union> set rem
     \<and> length (grow df enq n selected rem) = max (length selected) (min n (length selected + length rem))"
  using assms
proof (induction df enq n selected rem rule: grow.induct)
  case (1 df enq n selected)
  then show ?case by simp
next
  case (2 df enq n selected r rs)
  show ?case
  proof (cases "length selected < n")
    case True
    define x where "x = min_by (\<lambda>c. (avg_distance df c selected, enq c)) r rs"
    have x: "x \<in> set (r # rs)" unfolding x_def using min_by_in by simp
    have g: "grow df enq n selected (r # rs) = grow df enq n (selected @ [x]) (remove1 x (r # rs))"
      using True by (simp add: x_def Let_def del: remove1.simps)
    have d: "distinct ((selected @ [x]) @ remove1 x (r # rs))"
      using "2.prems" x by (auto simp: distinct_remove1 simp del: remove1.simps dest: notin_set_remove1)
    have st: "set (remove1 x (r # rs)) = set (r # rs) - {x}"
      using "2.prems" by (simp add: set_remove1_eq del: remove1.simps)
    have len: "length (remove1 x (r # rs)) = length rs"
      using distinct_remove1_length[OF x] by (simp del: remove1.simps)
    show ?thesis
      unfolding g
      using "2.IH"[OF True x_def d] x st len True by (auto simp del: remove1.simps)
  next
    case False
    then show ?thesis using "2.prems" by auto
  qed
qed

lemma seed_loop_full:
  assumes "distinct cands" "n \<le> length cands" "0 < n" "set ss \<subseteq> set cands"
    and "\<And>b. best = Some b \<Longrightarrow> full_batch cands n [] (bb_ids b)"
    and "seed_loop df enq n cands ss best = Some b"
  shows "full_batch cands n [] (bb_ids b)"
  using assms(4-)
proof (induction ss arbitrary: best)
  case Nil
  then show ?case by simp
next
  case (Cons s ss)
  let ?g = "grow df enq n [s] (filter (\<lambda>c. c \<noteq> s) cands)"
  have "distinct ([s] @ filter (\<lambda>c. c \<noteq> s) cands)" using assms(1) by simp
  note G = grow_correct[OF this, of df enq n]
  have s: "s \<in> set cands" using Cons.prems(1) by simp
  have "filter (\<lambda>c. c \<noteq> s) cands = removeAll s cands" by (induction cands) auto
  then have "length (filter (\<lambda>c. c \<noteq> s) cands) = length cands - 1"
    using distinct_remove1_length[OF s] assms(1) by (simp add: distinct_remove1_removeAll)
  then have "full_batch cands n [] ?g"
    using G s assms(2,3) by (auto simp: full_batch_def)
  then have "full_batch cands n [] (bb_ids b')" if "offer df enq ?g best = Some b'" for b'
    using that Cons.prems(2) by (auto simp: offer_def Let_def split: if_splits)
  then show ?case using Cons.IH[of "offer df enq ?g best"] Cons.prems by simp
qed

lemma seed_loop_Some: "ss \<noteq> [] \<or> best \<noteq> None \<Longrightarrow> seed_loop df enq n cands ss best \<noteq> None"
proof (induction ss arbitrary: best)
  case (Cons s ss)
  have "offer df enq ids best \<noteq> None" for ids
    by (cases best) (simp_all add: offer_def better_def Let_def)
  then show ?case using Cons.IH by simp
qed simp

lemma select_subset_full:
  assumes "distinct cl" "distinct pinned" "set pinned \<subseteq> set cl" "length pinned < n" "n \<le> length cl"
  shows "full_batch cl n pinned (select_subset df enq n cl pinned)"
proof -
  consider (all) "length cl = n" | (pin) "n < length cl" "pinned \<noteq> []" | (seed) "n < length cl" "pinned = []"
    using assms(5) by linarith
  then show ?thesis
  proof cases
    case all
    then show ?thesis using assms by (simp add: select_subset_def full_batch_def)
  next
    case pin
    let ?rest = "filter (\<lambda>c. c \<notin> set pinned) cl"
    have d: "distinct (pinned @ ?rest)" using assms by auto
    have "set (pinned @ ?rest) = set cl" using assms(3) by auto
    then have "length pinned + length ?rest = length cl"
      using distinct_card[OF d] distinct_card[OF assms(1)] by simp
    then show ?thesis
      using pin grow_correct[OF d, of df enq n] assms
      by (auto simp: select_subset_def full_batch_def)
  next
    case seed
    have n: "0 < n" using assms(4) by simp
    obtain b where b: "seed_loop df enq n cl cl None = Some b"
      using seed_loop_Some[of cl None df enq n cl] seed by fastforce
    have "full_batch cl n [] (bb_ids b)"
      by (rule seed_loop_full[OF assms(1,5) n _ _ b]) simp_all
    then show ?thesis using seed b n by (simp add: select_subset_def)
  qed
qed

subsection \<open>The merging loop\<close>

lemma offer_Some:
  assumes "offer df enq ids best = Some b"
  shows "bb_score b \<le> batch_score df ids"
    and "best = Some b' \<Longrightarrow> bb_score b \<le> bb_score b'"
    and "b = \<lparr>bb_score = batch_score df ids, bb_oldest = oldest_of enq ids, bb_ids = ids\<rparr> \<or> best = Some b"
  using assms by (auto simp: offer_def better_def Let_def split: if_splits option.splits)

lemma offer_not_None: "offer df enq ids best \<noteq> None"
  by (cases best) (simp_all add: offer_def better_def Let_def)

definition best_ok :: "distance \<Rightarrow> string list \<Rightarrow> nat \<Rightarrow> string list \<Rightarrow> best_batch option \<Rightarrow> bool" where
  "best_ok df cands n pinned best =
     (case best of None \<Rightarrow> True
      | Some b \<Rightarrow> full_batch cands n pinned (bb_ids b) \<and> bb_score b = batch_score df (bb_ids b))"

lemma consider_cluster_ok:
  assumes "best_ok df cands n pinned best" "distinct cl" "set cl \<subseteq> set cands" "distinct pinned" "length pinned < n"
  shows "best_ok df cands n pinned (consider_cluster df enq n pinned cl best)"
proof (cases "(\<exists>p \<in> set pinned. p \<notin> set cl) \<or> length cl < n")
  case True
  then show ?thesis using assms(1) by (auto simp: consider_cluster_def)
next
  case False
  then have "full_batch cl n pinned (select_subset df enq n cl pinned)"
    using assms by (intro select_subset_full) auto
  then have "full_batch cands n pinned (select_subset df enq n cl pinned)"
    using assms(3) by (rule full_batch_mono)
  then show ?thesis
    using assms(1) False
    by (auto simp: consider_cluster_def best_ok_def offer_def Let_def split: option.splits)
qed

lemma consider_cluster_mono:
  assumes "consider_cluster df enq n pinned cl best = Some b"
  shows "best = Some b' \<Longrightarrow> bb_score b \<le> bb_score b'"
  using assms offer_Some(2) by (force simp: consider_cluster_def split: if_splits)

lemma consider_cluster_all:
  assumes "set pinned \<subseteq> set cl" "n \<le> length cl"
  shows "\<exists>b. consider_cluster df enq n pinned cl best = Some b
     \<and> bb_score b \<le> batch_score df (select_subset df enq n cl pinned)"
proof -
  have "consider_cluster df enq n pinned cl best = offer df enq (select_subset df enq n cl pinned) best"
    using assms by (auto simp: consider_cluster_def)
  then show ?thesis
    using offer_not_None[of df enq _ best] offer_Some(1) by (metis option.exhaust)
qed

lemma mset_concat_pop_at:
  "i < length xs \<Longrightarrow> mset (concat (pop_at xs i)) + mset (xs ! i) = mset (concat xs)"
  by (subst (3) id_take_nth_drop[of i xs]) (simp_all add: pop_at_def)

lemma merge_clusters:
  assumes "i < j" "j < length cls"
  shows "mset (concat (pop_at (pop_at cls j) i @ [cls ! i @ cls ! j])) = mset (concat cls)"
    and "length (pop_at (pop_at cls j) i @ [cls ! i @ cls ! j]) = length cls - 1"
proof -
  have "mset (concat (pop_at (pop_at cls j) i)) + mset (cls ! i) = mset (concat (pop_at cls j))"
    using mset_concat_pop_at[of i "pop_at cls j"] assms by (simp add: pop_at_def nth_append)
  then have "mset (concat (pop_at (pop_at cls j) i @ [cls ! i @ cls ! j]))
      = mset (concat (pop_at cls j)) + mset (cls ! j)" by (simp add: add.assoc[symmetric])
  also have "\<dots> = mset (concat cls)" using mset_concat_pop_at[OF assms(2)] .
  finally show "mset (concat (pop_at (pop_at cls j) i @ [cls ! i @ cls ! j])) = mset (concat cls)" .
  show "length (pop_at (pop_at cls j) i @ [cls ! i @ cls ! j]) = length cls - 1"
    using assms by (simp add: pop_at_def)
qed

lemma closest_pair_None: "closest_pair df cls = None \<Longrightarrow> length cls \<le> 1"
  using set_index_pairs[of 0 1 "length cls"] by (force simp: closest_pair_def split: list.splits)

text \<open>The best batch so far is full, and once one cluster is left it was compared with that one too.\<close>

definition merge_inv ::
  "distance \<Rightarrow> enq \<Rightarrow> string list \<Rightarrow> nat \<Rightarrow> string list \<Rightarrow> string list list \<Rightarrow> best_batch option \<Rightarrow> bool" where
  "merge_inv df enq cands n pinned cls best \<longleftrightarrow>
     mset (concat cls) = mset cands \<and> cls \<noteq> [] \<and> best_ok df cands n pinned best
   \<and> (length cls = 1 \<longrightarrow>
        (\<exists>b. best = Some b \<and> bb_score b \<le> batch_score df (select_subset df enq n (hd cls) pinned)))"

lemma merge_inv_step:
  assumes "merge_inv df enq cands n pinned cls best" "i < j" "j < length cls"
    and "distinct cands" "distinct pinned" "length pinned < n" "set pinned \<subseteq> set cands" "n \<le> length cands"
  shows "merge_inv df enq cands n pinned (pop_at (pop_at cls j) i @ [cls ! i @ cls ! j])
     (consider_cluster df enq n pinned (cls ! i @ cls ! j) best)"
proof -
  let ?m = "cls ! i @ cls ! j" and ?cls = "pop_at (pop_at cls j) i @ [cls ! i @ cls ! j]"
  note M = merge_clusters[OF assms(2,3)]
  have ms: "mset (concat ?cls) = mset cands" using M(1) assms(1) by (simp add: merge_inv_def)
  then have "distinct (concat ?cls)" "set (concat ?cls) = set cands"
    using assms(4) mset_eq_imp_distinct_iff mset_eq_setD by blast+
  then have m: "distinct ?m" "set ?m \<subseteq> set cands" by auto
  have ok: "best_ok df cands n pinned (consider_cluster df enq n pinned ?m best)"
    using assms(1) m assms(5,6) by (intro consider_cluster_ok) (auto simp: merge_inv_def)
  have one: "\<exists>b. consider_cluster df enq n pinned ?m best = Some b
      \<and> bb_score b \<le> batch_score df (select_subset df enq n ?m pinned)" if "length ?cls = 1"
  proof -
    have "pop_at (pop_at cls j) i = []" using that by simp
    then have "mset ?m = mset cands" using ms by simp
    then have "set ?m = set cands" "length ?m = length cands"
      using mset_eq_setD mset_eq_length by blast+
    then show ?thesis using assms(7,8) by (intro consider_cluster_all) auto
  qed
  have "hd ?cls = ?m" if "length ?cls = 1" using that by simp
  then show ?thesis using ms ok one by (simp add: merge_inv_def)
qed

lemma agglomerate_correct:
  assumes "merge_inv df enq cands n pinned cls best"
    and "distinct cands" "distinct pinned" "length pinned < n" "set pinned \<subseteq> set cands" "n \<le> length cands"
  shows "\<exists>b cl. agglomerate df enq n pinned cls best = Some b \<and> full_batch cands n pinned (bb_ids b)
     \<and> mset cl = mset cands
     \<and> batch_score df (bb_ids b) \<le> batch_score df (select_subset df enq n cl pinned)"
  using assms
proof (induction df enq n pinned cls best rule: agglomerate.induct)
  case (1 df enq n pinned cls best)
  show ?case
  proof (cases "closest_pair df cls")
    case None
    then have "length cls = 1" using closest_pair_None[OF None] "1.prems"(1)
      by (cases cls) (auto simp: merge_inv_def)
    then obtain c where c: "cls = [c]" by (auto simp: length_Suc_conv)
    then obtain b where "best = Some b" "bb_score b \<le> batch_score df (select_subset df enq n c pinned)"
      using "1.prems"(1) by (auto simp: merge_inv_def)
    moreover have "mset c = mset cands" using "1.prems"(1) c by (simp add: merge_inv_def)
    ultimately show ?thesis using None "1.prems"(1) by (auto simp: merge_inv_def best_ok_def)
  next
    case (Some p)
    obtain i j where p: "p = (i, j)" by force
    note ij = closest_pair_Some[OF Some[unfolded p]]
    from merge_inv_step[OF "1.prems"(1) conjunct1[OF ij] conjunct2[OF ij] "1.prems"(2-)]
    have step: "merge_inv df enq cands n pinned (pop_at (pop_at cls j) i @ [cls ! i @ cls ! j])
      (consider_cluster df enq n pinned (cls ! i @ cls ! j) best)" .
    show ?thesis
      using "1.IH"[OF Some p[symmetric] refl refl step "1.prems"(2-)] Some p
      by (simp add: Let_def)
  qed
qed

declare agglomerate.simps [simp del] word_runs.simps [simp del]

subsection \<open>Correctness of the selection\<close>

lemma dedup_correct: "distinct (dedup seen xs) \<and> set (dedup seen xs) = set xs - set seen"
  by (induction seen xs rule: dedup.induct) auto

lemma normalize_pinned_correct:
  "distinct (normalize_pinned cands pinned)"
  "set (normalize_pinned cands pinned) = set pinned \<inter> set cands"
  using dedup_correct[of "[]" "filter (\<lambda>p. p \<in> set cands) pinned"] by (auto simp: normalize_pinned_def)

lemma singletons_ok:
  assumes "best_ok df cands n pinned best" "set cs \<subseteq> set cands" "distinct pinned" "length pinned < n"
  shows "best_ok df cands n pinned (foldl (\<lambda>b cl. consider_cluster df enq n pinned cl b) best (map (\<lambda>c. [c]) cs))"
  using assms(1,2)
proof (induction cs arbitrary: best)
  case (Cons c cs)
  then show ?case using assms(3,4) consider_cluster_ok by simp
qed simp

lemma select_affinity_ids_aux:
  fixes batch_size :: nat and df :: distance and enq :: enq and pinned :: "string list"
  assumes "distinct cands"
  defines "n \<equiv> max 1 batch_size" and "P \<equiv> normalize_pinned cands pinned"
    and "ids \<equiv> select_affinity_ids df enq cands batch_size pinned"
  shows "length ids = min n (length cands) \<and> distinct ids \<and> set ids \<subseteq> set cands
     \<and> (if length P < n then set P \<subseteq> set ids else set ids \<subseteq> set P)
     \<and> (n < length cands \<longrightarrow> length P < n \<longrightarrow>
          (\<exists>cl. mset cl = mset cands \<and> batch_score df ids \<le> batch_score df (select_subset df enq n cl P)))"
proof -
  have n: "(if batch_size = 0 then 1 else batch_size) = n" by (simp add: n_def)
  have P: "distinct P" "set P \<subseteq> set cands" "length P \<le> length cands"
    using normalize_pinned_correct[of cands pinned] distinct_card[of P] distinct_card[OF assms(1)]
      card_mono[of "set cands" "set P"] by (auto simp: P_def)
  consider (few) "length cands \<le> n" | (pins) "n < length cands" "n \<le> length P" | (go) "n < length cands" "length P < n"
    by linarith
  then show ?thesis
  proof cases
    case few
    then have ids: "ids = cands" by (simp add: ids_def select_affinity_ids_def n)
    have "set cands \<subseteq> set P" if "\<not> length P < n"
    proof -
      have "card (set P) = card (set cands)"
        using that few P distinct_card[OF P(1)] distinct_card[OF assms(1)] by linarith
      from card_subset_eq[OF _ P(2) this] show ?thesis by simp
    qed
    then show ?thesis using few ids P assms(1) by auto
  next
    case pins
    then have ids: "ids = take n (sort_key enq P)"
      by (simp add: ids_def select_affinity_ids_def n Let_def flip: P_def)
    have "set ids \<subseteq> set P" unfolding ids by (rule set_take_sort_key)
    then show ?thesis using pins P ids by auto
  next
    case go
    let ?cls = "map (\<lambda>c. [c]) cands"
    let ?b0 = "foldl (\<lambda>b cl. consider_cluster df enq n P cl b) None ?cls"
    have "best_ok df cands n P ?b0"
      using go P by (intro singletons_ok) (simp_all add: best_ok_def)
    then have "merge_inv df enq cands n P ?cls ?b0"
      using go by (auto simp: merge_inv_def n_def)
    from agglomerate_correct[OF this assms(1) P(1) go(2) P(2)] go
    obtain b cl where b: "agglomerate df enq n P ?cls ?b0 = Some b" "full_batch cands n P (bb_ids b)"
      "mset cl = mset cands" "batch_score df (bb_ids b) \<le> batch_score df (select_subset df enq n cl P)"
      by auto
    then have "ids = bb_ids b"
      using go by (simp add: ids_def select_affinity_ids_def n Let_def flip: P_def)
    then show ?thesis using b go by (auto simp: full_batch_def)
  qed
qed

lemma select_affinity_batch_ids_basic:
  assumes "distinct (map fst graphs)"
  shows "length (select_affinity_batch_ids w graphs enq b pinned) = min (max 1 b) (length graphs)"
    and "distinct (select_affinity_batch_ids w graphs enq b pinned)"
    and "set (select_affinity_batch_ids w graphs enq b pinned) \<subseteq> fst ` set graphs"
  using select_affinity_ids_aux[OF assms, where batch_size = b and df = "graph_distance w graphs" and enq = enq and pinned = pinned]
  by (simp_all add: select_affinity_batch_ids_def)

lemma select_affinity_batch_ids_pinned:
  assumes "distinct (map fst graphs)" "distinct pinned" "set pinned \<subseteq> fst ` set graphs" "length pinned < max 1 b"
  shows "set pinned \<subseteq> set (select_affinity_batch_ids w graphs enq b pinned)"
proof -
  let ?P = "normalize_pinned (map fst graphs) pinned"
  have P: "set ?P = set pinned" using normalize_pinned_correct(2)[of "map fst graphs" pinned] assms(3) by auto
  then have "length ?P = length pinned"
    using distinct_card[OF normalize_pinned_correct(1)] distinct_card[OF assms(2)] by metis
  then show ?thesis
    using select_affinity_ids_aux[OF assms(1), where batch_size = b and df = "graph_distance w graphs" and enq = enq and pinned = pinned] P assms(4)
    by (simp add: select_affinity_batch_ids_def)
qed

text \<open>
  C9. \<open>select_affinity_batch_ids\<close> always fills the batch: it returns as many distinct candidates
  as fit, with every pinned workflow among them (or only pinned ones when they fill the batch
  alone), and when there was a choice the batch's average distance is no worse than that of the
  batch grown greedily from the whole pool.
\<close>

theorem select_affinity_batch_correct:
  assumes "distinct (map fst graphs)"
  shows "let n = max 1 batch_size; df = graph_distance w graphs;
             P = normalize_pinned (map fst graphs) pinned;
             ids = select_affinity_batch_ids w graphs enq batch_size pinned
         in length ids = min n (length graphs) \<and> distinct ids \<and> set ids \<subseteq> fst ` set graphs
          \<and> (if length P < n then set P \<subseteq> set ids else set ids \<subseteq> set P)
          \<and> (n < length graphs \<longrightarrow> length P < n \<longrightarrow>
              (\<exists>cl. mset cl = mset (map fst graphs)
                  \<and> batch_score df ids \<le> batch_score df (select_subset df enq n cl P)))"
  using select_affinity_ids_aux[OF assms, where batch_size = batch_size and df = "graph_distance w graphs" and enq = enq and pinned = pinned]
  by (simp add: Let_def select_affinity_batch_ids_def)

theorem select_affinity_batch_correct_witness:
  "length (select_affinity_batch_ids default_weights [(''a'', graph0 []), (''b'', graph0 []), (''c'', graph0 [])]
     (\<lambda>_. 0) 2 [''c'']) = 2
   \<and> ''c'' \<in> set (select_affinity_batch_ids default_weights
        [(''a'', graph0 []), (''b'', graph0 []), (''c'', graph0 [])] (\<lambda>_. 0) 2 [''c''])"
proof -
  let ?g = "[(''a'', graph0 []), (''b'', graph0 []), (''c'', graph0 [])]"
  have "distinct (map fst ?g)" by simp
  from select_affinity_batch_correct[OF this, of 2 default_weights "[''c'']" "\<lambda>_. 0"]
  show ?thesis by (simp add: Let_def normalize_pinned_def)
qed

end
