(* ===== verification/Policies.thy ===== *)
theory Policies
  imports Cost Clustering
begin

section \<open>Scheduling policies\<close>

text \<open>
  \<open>runtime/job_manager/policies\<close>: the interface a policy keeps (\<open>base.py\<close>), as the locale
  \<open>scheduling_policy\<close>; the sorting policies \<open>fifo\<close>, \<open>spt\<close>, \<open>lpt\<close> and \<open>plas\<close>, all instances of the
  locale \<open>sorting_policy\<close>; and the default policy, affinity clustering with one item per user first.
  \<open>'st\<close> is the policy's state, which a selection reads and never changes.
\<close>

subsection \<open>The interface\<close>

locale scheduling_policy =
  fixes select :: "'st \<Rightarrow> workflow_item list \<Rightarrow> nat \<Rightarrow> string list result"
  assumes chosen: "distinct (map wi_id cands) \<Longrightarrow> select st cands n = Inr ids \<Longrightarrow>
      distinct ids \<and> set ids \<subseteq> wi_id ` set cands \<and> length ids \<le> n"
    and progress: "distinct (map wi_id cands) \<Longrightarrow> cands \<noteq> [] \<Longrightarrow> 0 < n \<Longrightarrow> select st cands n \<noteq> Inr []"
begin

text \<open>What the job manager gets from the ids: one candidate for each, none twice.\<close>

lemma chosen_items:
  assumes "distinct (map wi_id cands)" "select st cands n = Inr ids"
  shows "\<exists>items. map wi_id items = ids \<and> distinct items \<and> set items \<subseteq> set cands \<and> length items \<le> n"
proof -
  note C = chosen[OF assms]
  let ?f = "\<lambda>i. the (map_of (map (\<lambda>it. (wi_id it, it)) cands) i)"
  have f: "?f i \<in> set cands \<and> wi_id (?f i) = i" if "i \<in> set ids" for i
  proof -
    have "i \<in> wi_id ` set cands" using that C by (rule subsetD[OF conjunct1[OF conjunct2], rotated])
    then obtain it where it: "it \<in> set cands" "wi_id it = i" by (rule imageE) (simp add: eq_commute)
    then have "map_of (map (\<lambda>it. (wi_id it, it)) cands) i = Some it"
      using assms(1) by (intro map_of_is_SomeI) (auto simp: comp_def)
    then show ?thesis using it by simp
  qed
  have "map wi_id (map ?f ids) = ids" using f by (simp add: map_idI)
  moreover from this have "distinct (map ?f ids)" using C by (metis distinct_map)
  moreover have "set (map ?f ids) \<subseteq> set cands" using f by auto
  ultimately show ?thesis using C by (intro exI[of _ "map ?f ids"]) auto
qed

end

subsection \<open>Policies that sort\<close>

fun with_ranks :: "(workflow_item \<Rightarrow> 'k result) \<Rightarrow> workflow_item list \<Rightarrow> (workflow_item \<times> 'k) list result" where
  "with_ranks rank [] = Inr []"
| "with_ranks rank (it # its) =
     (case rank it of
        Inl e \<Rightarrow> Inl e
      | Inr k \<Rightarrow> (case with_ranks rank its of Inl e \<Rightarrow> Inl e | Inr ks \<Rightarrow> Inr ((it, k) # ks)))"

text \<open>\<open>[item.workflow_id for item in sorted(candidates, key=key)[:batch_size]]\<close>; a key may raise.\<close>

definition ranked_select ::
  "(workflow_item \<Rightarrow> 'k::linorder result) \<Rightarrow> workflow_item list \<Rightarrow> nat \<Rightarrow> string list result" where
  "ranked_select rank cands n =
     (case with_ranks rank cands of
        Inl e \<Rightarrow> Inl e
      | Inr ks \<Rightarrow> Inr (map (\<lambda>p. wi_id (fst p)) (take n (sort_key snd ks))))"

lemma with_ranks_Inr:
  "with_ranks rank cands = Inr ks \<Longrightarrow> map fst ks = cands \<and> (\<forall>(it, k) \<in> set ks. rank it = Inr k)"
  by (induction cands arbitrary: ks) (auto split: sum.splits)

lemma with_ranks_total:
  "\<forall>it \<in> set cands. \<exists>k. rank it = Inr k \<Longrightarrow> \<exists>ks. with_ranks rank cands = Inr ks"
  by (induction cands) auto

lemma ranked_select_prefix:
  assumes "ranked_select rank cands n = Inr ids" "distinct (map wi_id cands)"
  shows "distinct ids" "set ids \<subseteq> wi_id ` set cands" "length ids = min n (length cands)"
    and "x \<in> set cands \<Longrightarrow> y \<in> set cands \<Longrightarrow> wi_id x \<in> set ids \<Longrightarrow> wi_id y \<notin> set ids \<Longrightarrow>
      \<exists>k l. rank x = Inr k \<and> rank y = Inr l \<and> k \<le> l"
proof -
  obtain ks where ks: "with_ranks rank cands = Inr ks"
    and ids: "ids = map (\<lambda>p. wi_id (fst p)) (take n (sort_key snd ks))"
    using assms(1) by (auto simp: ranked_select_def split: sum.splits)
  note R = with_ranks_Inr[OF ks]
  have d: "distinct (map (\<lambda>p. wi_id (fst p)) ks)"
    using assms(2) conjunct1[OF R, symmetric] by (simp add: comp_def)
  have ds: "distinct (map (\<lambda>p. wi_id (fst p)) (sort_key snd ks))"
    using d by (simp only: distinct_map_sort_key)
  then show "distinct ids" unfolding ids by (rule distinct_map_take)
  have "set (take n (sort_key snd ks)) \<subseteq> set ks" by (rule set_take_sort_key)
  then show "set ids \<subseteq> wi_id ` set cands"
    unfolding ids conjunct1[OF R, symmetric] by (auto simp: image_image)
  show "length ids = min n (length cands)" using R by (auto simp: ids)
  show "\<exists>k l. rank x = Inr k \<and> rank y = Inr l \<and> k \<le> l"
    if x: "x \<in> set cands" "wi_id x \<in> set ids" and y: "y \<in> set cands" "wi_id y \<notin> set ids"
  proof -
    obtain p where p: "p \<in> set (take n (sort_key snd ks))" "wi_id (fst p) = wi_id x"
      using x(2) by (auto simp: ids)
    have "p \<in> set ks" using p(1) set_take_sort_key by fast
    then have "fst p \<in> set cands" using R by (metis image_eqI set_map)
    then have "fst p = x" using p(2) x(1) assms(2) by (metis distinct_map inj_on_eq_iff)
    obtain q where q: "q \<in> set ks" "fst q = y" using y(1) R by (metis image_iff set_map)
    then have "q \<in> set (drop n (sort_key snd ks))"
      using y(2) ds by (intro set_drop_complement[where f = "\<lambda>p. wi_id (fst p)"]) (auto simp: ids)
    then have "snd p \<le> snd q" using p(1) by (intro sorted_take_drop_le[OF sorted_sort_key])
    moreover have "rank x = Inr (snd p)" "rank y = Inr (snd q)"
      using R \<open>p \<in> set ks\<close> \<open>fst p = x\<close> q by force+
    ultimately show ?thesis by blast
  qed
qed

locale sorting_policy =
  fixes rank :: "'st \<Rightarrow> workflow_item \<Rightarrow> 'k::linorder result"
    and select :: "'st \<Rightarrow> workflow_item list \<Rightarrow> nat \<Rightarrow> string list result"
  assumes by_rank: "select st cands n = ranked_select (rank st) cands n"

sublocale sorting_policy \<subseteq> scheduling_policy select
proof
  fix cands :: "workflow_item list" and st n ids
  assume d: "distinct (map wi_id cands)"
  show "distinct ids \<and> set ids \<subseteq> wi_id ` set cands \<and> length ids \<le> n" if "select st cands n = Inr ids"
    using ranked_select_prefix(1-3)[OF that[unfolded by_rank] d] by simp
  show "select st cands n \<noteq> Inr []" if "cands \<noteq> []" "0 < n"
    using ranked_select_prefix(3)[OF _ d, of "rank st" n "[]"] that by (auto simp: by_rank min_def split: if_splits)
qed

context sorting_policy
begin

text \<open>The batch is full, and nothing left behind ranks before what was taken.\<close>

lemma least_first:
  assumes "distinct (map wi_id cands)" "select st cands n = Inr ids"
  shows "length ids = min n (length cands)"
    and "x \<in> set cands \<Longrightarrow> y \<in> set cands \<Longrightarrow> wi_id x \<in> set ids \<Longrightarrow> wi_id y \<notin> set ids \<Longrightarrow>
      \<exists>k l. rank st x = Inr k \<and> rank st y = Inr l \<and> k \<le> l"
  using ranked_select_prefix(3,4)[OF assms(2)[unfolded by_rank] assms(1)] by blast+

end

subsection \<open>fifo, spt, lpt and plas\<close>

definition fifo_rank :: "unit \<Rightarrow> workflow_item \<Rightarrow> (real \<times> string) result" where
  "fifo_rank _ it = Inr (wi_enqueued_at it, wi_id it)"

definition fifo_select :: "unit \<Rightarrow> workflow_item list \<Rightarrow> nat \<Rightarrow> string list result" where
  "fifo_select st cands n = ranked_select (fifo_rank st) cands n"

type_synonym area_key = "nat \<times> real \<times> real \<times> string"

definition spt_rank :: "cost_env \<Rightarrow> workflow_item \<Rightarrow> area_key result" where
  "spt_rank env it =
     (case estimate_area env it of
        Inl e \<Rightarrow> Inl e
      | Inr None \<Rightarrow> Inr (1, 0, wi_enqueued_at it, wi_id it)
      | Inr (Some a) \<Rightarrow> Inr (0, a, wi_enqueued_at it, wi_id it))"

definition spt_select :: "cost_env \<Rightarrow> workflow_item list \<Rightarrow> nat \<Rightarrow> string list result" where
  "spt_select env cands n = ranked_select (spt_rank env) cands n"

definition lpt_rank :: "cost_env \<Rightarrow> workflow_item \<Rightarrow> area_key result" where
  "lpt_rank env it =
     (case estimate_area env it of
        Inl e \<Rightarrow> Inl e
      | Inr None \<Rightarrow> Inr (1, 0, wi_enqueued_at it, wi_id it)
      | Inr (Some a) \<Rightarrow> Inr (0, - a, wi_enqueued_at it, wi_id it))"

definition lpt_select :: "cost_env \<Rightarrow> workflow_item list \<Rightarrow> nat \<Rightarrow> string list result" where
  "lpt_select env cands n = ranked_select (lpt_rank env) cands n"

text \<open>\<open>plas\<close>: the service attained by each chain, in the order the chains were first charged.\<close>

type_synonym attained = "(string, real) dict"

definition service :: "attained \<Rightarrow> string \<Rightarrow> real" where
  "service att c = (case map_of att c of None \<Rightarrow> 0 | Some s \<Rightarrow> s)"

definition plas_rank :: "attained \<Rightarrow> workflow_item \<Rightarrow> (real \<times> real \<times> string) result" where
  "plas_rank att it = Inr (service att (chain_key it), wi_enqueued_at it, wi_id it)"

definition plas_select :: "attained \<Rightarrow> workflow_item list \<Rightarrow> nat \<Rightarrow> string list result" where
  "plas_select att cands n = ranked_select (plas_rank att) cands n"

text \<open>\<open>on_commit\<close>: a raise leaves the charges made so far in place.\<close>

fun plas_on_commit :: "cost_env \<Rightarrow> attained \<Rightarrow> workflow_item list \<Rightarrow> py_error option \<times> attained" where
  "plas_on_commit env att [] = (None, att)"
| "plas_on_commit env att (it # its) =
     (case estimate_area env it of
        Inl e \<Rightarrow> (Some e, att)
      | Inr None \<Rightarrow> plas_on_commit env att its
      | Inr (Some a) \<Rightarrow>
          plas_on_commit env (AList.update (chain_key it) (service att (chain_key it) + a) att) its)"

interpretation fifo: sorting_policy fifo_rank fifo_select
  by unfold_locales (simp add: fifo_select_def)

interpretation spt: sorting_policy spt_rank spt_select
  by unfold_locales (simp add: spt_select_def)

interpretation lpt: sorting_policy lpt_rank lpt_select
  by unfold_locales (simp add: lpt_select_def)

interpretation plas: sorting_policy plas_rank plas_select
  by unfold_locales (simp add: plas_select_def)

subsection \<open>The default policy\<close>

text \<open>
  Affinity clustering first, then one item per user in the order the users appear among the
  candidates (an item of the affinity batch if the user has one there, else the user's first), then
  the rest of the affinity batch, then any candidate. A batch of at most one skips the fairness.
\<close>

definition graphs_of :: "workflow_item list \<Rightarrow> (string, runtime_graph) dict" where
  "graphs_of cands = foldl (\<lambda>d it. AList.update (wi_id it) (wi_graph it) d) [] cands"

definition enqueued_of :: "workflow_item list \<Rightarrow> enq" where
  "enqueued_of cands wid =
     (case map_of (foldl (\<lambda>d it. AList.update (wi_id it) (wi_enqueued_at it) d) [] cands) wid of
        None \<Rightarrow> 0 | Some t \<Rightarrow> t)"

definition user_groups :: "workflow_item list \<Rightarrow> (string, string list) dict" where
  "user_groups cands = foldl (\<lambda>d it. push_group (user_of it) (wi_id it) d) [] cands"

definition pick_for_user :: "string list \<Rightarrow> string list \<Rightarrow> string" where
  "pick_for_user sel ids =
     or_default (case filter (\<lambda>w. w \<in> set sel) ids of [] \<Rightarrow> None | w # _ \<Rightarrow> Some w) (hd ids)"

fun fair_loop :: "string list \<Rightarrow> nat \<Rightarrow> (string, string list) dict \<Rightarrow> string list \<Rightarrow> string list" where
  "fair_loop sel n [] seed = seed"
| "fair_loop sel n ((u, ids) # us) seed =
     (let p = pick_for_user sel ids
      in if p \<in> set seed then fair_loop sel n us seed
         else if n \<le> length seed + 1 then seed @ [p]
         else fair_loop sel n us (seed @ [p]))"

fun fill_loop :: "nat \<Rightarrow> string list \<Rightarrow> string list \<Rightarrow> string list" where
  "fill_loop n acc [] = acc"
| "fill_loop n acc (w # ws) =
     (if w \<in> set acc then fill_loop n acc ws
      else if n \<le> length acc + 1 then acc @ [w]
      else fill_loop n (acc @ [w]) ws)"

definition default_ids :: "workflow_item list \<Rightarrow> nat \<Rightarrow> string list" where
  "default_ids cands n =
     (let aff = select_affinity_batch_ids default_weights (graphs_of cands) (enqueued_of cands) n []
      in if n \<le> 1 then take n aff
         else
           let sel = filter (\<lambda>w. w \<in> wi_id ` set cands) aff;
               groups = user_groups cands
           in if sel = [] then []
              else if length groups \<le> 1 then take n sel
              else
                let seed = fair_loop sel n groups []
                in if n \<le> length seed then take n seed
                   else
                     let final = fill_loop n seed sel
                     in if n \<le> length final then take n final
                        else take n (fill_loop n final (map wi_id cands)))"

definition default_select :: "unit \<Rightarrow> workflow_item list \<Rightarrow> nat \<Rightarrow> string list result" where
  "default_select _ cands n = Inr (default_ids cands n)"

subsection \<open>Correctness of the default policy\<close>

lemma foldl_update_keys:
  "distinct (map fst d @ map f xs) \<Longrightarrow>
     foldl (\<lambda>d x. AList.update (f x) (g x) d) d xs = d @ map (\<lambda>x. (f x, g x)) xs"
proof (induction xs arbitrary: d)
  case (Cons x xs)
  have new: "AList.update k v d = d @ [(k, v)]" if "k \<notin> set (map fst d)" for k v
    using that by (induction d) auto
  have "distinct (map fst (d @ [(f x, g x)]) @ map f xs)" using Cons.prems by auto
  from Cons.IH[OF this] show ?case using Cons.prems new by simp
qed simp

lemma graphs_of_eq:
  "distinct (map wi_id cands) \<Longrightarrow> graphs_of cands = map (\<lambda>it. (wi_id it, wi_graph it)) cands"
  unfolding graphs_of_def using foldl_update_keys[of "[]" wi_id cands wi_graph] by simp

text \<open>A group holds the ids of one user's items, in candidate order.\<close>

lemma user_groups_lookup:
  "map_of (user_groups cands) u =
     (if filter (\<lambda>it. user_of it = u) cands = [] then None
      else Some (map wi_id (filter (\<lambda>it. user_of it = u) cands)))"
  unfolding user_groups_def by (rule foldl_push_lookup)

lemma user_groups_keys:
  "distinct (map fst (user_groups cands))" "fst ` set (user_groups cands) = user_of ` set cands"
  unfolding user_groups_def by (rule foldl_push_keys)+

lemma user_group_ids:
  assumes "(u, ids) \<in> set (user_groups cands)"
  shows "ids \<noteq> [] \<and> set ids = {wi_id it |it. it \<in> set cands \<and> user_of it = u}"
proof -
  have "map_of (user_groups cands) u = Some ids"
    using assms user_groups_keys(1) by (rule map_of_is_SomeI[rotated])
  then have "ids = map wi_id (filter (\<lambda>it. user_of it = u) cands) \<and> ids \<noteq> []"
    by (auto simp: user_groups_lookup split: if_splits)
  then show ?thesis by auto
qed

lemma pick_for_user_in: "ids \<noteq> [] \<Longrightarrow> pick_for_user sel ids \<in> set ids"
proof -
  assume ne: "ids \<noteq> []"
  have "w \<in> set ids" if "filter (\<lambda>w. w \<in> set sel) ids = w # ws" for w ws
    using that by (metis filter_eq_Cons_iff in_set_conv_decomp)
  then show ?thesis using ne
    by (auto simp: pick_for_user_def or_default_def split: list.split)
qed

lemma fair_loop_eq:
  assumes "distinct (seed @ map (\<lambda>(u, ids). pick_for_user sel ids) us)" "length seed < n"
  shows "fair_loop sel n us seed = seed @ take (n - length seed) (map (\<lambda>(u, ids). pick_for_user sel ids) us)"
  using assms
proof (induction us arbitrary: seed)
  case Nil
  then show ?case by simp
next
  case (Cons g us)
  obtain u ids where g: "g = (u, ids)" by force
  let ?p = "pick_for_user sel ids"
  have p: "?p \<notin> set seed" using Cons.prems(1) g by simp
  show ?case
  proof (cases "n \<le> length seed + 1")
    case True
    then have "n - length seed = 1" using Cons.prems(2) by simp
    then show ?thesis using True p g by simp
  next
    case False
    then have "n - length seed = Suc (n - length (seed @ [?p]))" by simp
    then show ?thesis
      using Cons.IH[of "seed @ [?p]"] Cons.prems False p g by (simp add: Let_def)
  qed
qed

lemma fill_loop_correct:
  assumes "distinct acc" "length acc < n"
  shows "distinct (fill_loop n acc ws) \<and> set acc \<subseteq> set (fill_loop n acc ws)
     \<and> set (fill_loop n acc ws) \<subseteq> set acc \<union> set ws \<and> length (fill_loop n acc ws) \<le> n
     \<and> (length (fill_loop n acc ws) = n \<or> set ws \<subseteq> set (fill_loop n acc ws))"
  using assms
proof (induction n acc ws rule: fill_loop.induct)
  case (1 n acc)
  then show ?case by simp
next
  case (2 n acc w ws)
  show ?case
  proof (cases "w \<in> set acc")
    case True
    then show ?thesis using "2.IH"(1) "2.prems" by auto
  next
    case new: False
    show ?thesis
    proof (cases "n \<le> length acc + 1")
      case True
      then show ?thesis using new "2.prems" by auto
    next
      case False
      then show ?thesis using new "2.IH"(2)[OF new False] "2.prems" by auto
    qed
  qed
qed

lemma user_picks_distinct:
  assumes "distinct (map wi_id cands)"
  shows "distinct (map (\<lambda>(u, ids). pick_for_user sel ids) (user_groups cands))"
proof -
  have owner: "\<exists>it \<in> set cands. wi_id it = pick_for_user sel ids \<and> user_of it = u"
    if "(u, ids) \<in> set (user_groups cands)" for u ids
    using user_group_ids[OF that] pick_for_user_in[of ids sel] by auto
  have "inj_on (\<lambda>(u, ids). pick_for_user sel ids) (set (user_groups cands))"
  proof (rule inj_onI, clarify)
    fix u ids v jds
    assume a: "(u, ids) \<in> set (user_groups cands)" "(v, jds) \<in> set (user_groups cands)"
      and eq: "pick_for_user sel ids = pick_for_user sel jds"
    have "u = v" using owner[OF a(1)] owner[OF a(2)] eq assms by (metis distinct_map inj_on_eq_iff)
    then show "u = v \<and> ids = jds" using a user_groups_keys(1)[of cands] by (metis eq_key_imp_eq_value)
  qed
  moreover have "distinct (user_groups cands)" using user_groups_keys(1) by (simp add: distinct_map)
  ultimately show ?thesis by (simp add: distinct_map)
qed

lemma take_users_served:
  assumes "set (take n (map (\<lambda>(u, ids). pick_for_user sel ids) (user_groups cands))) \<subseteq> set ids"
    and "u \<in> set (take n (map fst (user_groups cands)))"
  shows "\<exists>it \<in> set cands. user_of it = u \<and> wi_id it \<in> set ids"
proof -
  obtain vs where g: "(u, vs) \<in> set (take n (user_groups cands))"
    using assms(2) by (auto simp: take_map)
  then have "(u, vs) \<in> set (user_groups cands)" by (rule in_set_takeD)
  from user_group_ids[OF this] pick_for_user_in[of vs sel]
  obtain it where it: "it \<in> set cands" "user_of it = u" "wi_id it = pick_for_user sel vs" by auto
  have "pick_for_user sel vs \<in> set ids" using assms(1) g by (force simp: take_map)
  then show ?thesis using it by auto
qed

lemma default_ids_aux:
  assumes d: "distinct (map wi_id cands)"
  shows "distinct (default_ids cands n) \<and> set (default_ids cands n) \<subseteq> wi_id ` set cands
     \<and> length (default_ids cands n) = min n (length cands)
     \<and> (2 \<le> n \<longrightarrow> (\<forall>u \<in> set (take n (map fst (user_groups cands))).
          \<exists>it \<in> set cands. user_of it = u \<and> wi_id it \<in> set (default_ids cands n)))"
proof -
  define aff where "aff = select_affinity_batch_ids default_weights (graphs_of cands) (enqueued_of cands) n []"
  have keys: "map fst (graphs_of cands) = map wi_id cands" by (simp add: graphs_of_eq[OF d] comp_def)
  have dg: "distinct (map fst (graphs_of cands))" using keys d by simp
  have len: "length (graphs_of cands) = length cands" using keys by (metis length_map)
  have ks: "fst ` set (graphs_of cands) = wi_id ` set cands" using keys by (metis set_map)
  note A = select_affinity_batch_ids_basic[OF dg, of default_weights "enqueued_of cands" n "[]",
      folded aff_def, unfolded len ks]
  show ?thesis
  proof (cases "n \<le> 1")
    case True
    then have "default_ids cands n = take n aff" by (simp add: default_ids_def aff_def)
    then show ?thesis using A True by (auto dest: in_set_takeD)
  next
    case n2: False
    have sel: "filter (\<lambda>w. w \<in> wi_id ` set cands) aff = aff" using A(3) by (auto intro: filter_True)
    show ?thesis
    proof (cases "cands = []")
      case True
      then show ?thesis using A sel n2 by (simp add: default_ids_def user_groups_def Let_def flip: aff_def)
    next
      case ne: False
      have aff: "length aff = min n (length cands)" "aff \<noteq> []" using A(1) n2 ne by (auto simp: max_def min_def split: if_splits)
      show ?thesis
      proof (cases "length (user_groups cands) \<le> 1")
        case True
        have ids: "default_ids cands n = take n aff"
          using True n2 aff sel by (simp add: default_ids_def Let_def flip: aff_def)
        obtain x where x: "x \<in> set aff" using aff by (cases aff) auto
        then obtain it where it: "it \<in> set cands" "wi_id it = x" using A(3) by auto
        have "u = user_of it" if "u \<in> set (take n (map fst (user_groups cands)))" for u
        proof -
          have "u \<in> fst ` set (user_groups cands)" "user_of it \<in> fst ` set (user_groups cands)"
            using that it user_groups_keys(2)[of cands] by (auto dest: in_set_takeD)
          then show ?thesis using True by (cases "user_groups cands") auto
        qed
        moreover have "default_ids cands n = aff" using ids aff(1) by simp
        ultimately show ?thesis using A(2,3) aff(1) it x by blast
      next
        case False
        define P where "P = map (\<lambda>(u, ids). pick_for_user aff ids) (user_groups cands)"
        define seed where "seed = take n P"
        have dP: "distinct P" unfolding P_def by (rule user_picks_distinct[OF d])
        have seed: "fair_loop aff n (user_groups cands) [] = seed"
          using fair_loop_eq[of "[]" aff "user_groups cands" n] dP n2 by (simp add: seed_def P_def)
        have "set P \<subseteq> wi_id ` set cands"
        proof
          fix p assume "p \<in> set P"
          then obtain u vs where "(u, vs) \<in> set (user_groups cands)" "p = pick_for_user aff vs" by (auto simp: P_def)
          then have "p \<in> {wi_id it |it. it \<in> set cands \<and> user_of it = u}"
            using user_group_ids[of u vs cands] pick_for_user_in[of vs aff] by simp
          then show "p \<in> wi_id ` set cands" by auto
        qed
        then have sd: "distinct seed" "set seed \<subseteq> wi_id ` set cands" "length seed \<le> n"
          using dP by (auto simp: seed_def dest: in_set_takeD)
        have served: "\<exists>it \<in> set cands. user_of it = u \<and> wi_id it \<in> set ids"
          if "set seed \<subseteq> set ids" "u \<in> set (take n (map fst (user_groups cands)))" for u ids
          using take_users_served[of n aff cands ids u] that by (simp add: seed_def P_def)
        have ids: "default_ids cands n =
           (if n \<le> length seed then take n seed
            else let final = fill_loop n seed aff
                 in if n \<le> length final then take n final else take n (fill_loop n final (map wi_id cands)))"
          using False n2 aff sel seed by (simp add: default_ids_def Let_def flip: aff_def)
        define f1 where "f1 = fill_loop n seed aff"
        define f2 where "f2 = fill_loop n f1 (map wi_id cands)"
        have full: ?thesis if "default_ids cands n = ids" "distinct ids" "set ids \<subseteq> wi_id ` set cands"
          "length ids = min n (length cands)" "set seed \<subseteq> set ids" for ids
          using that served by simp
        have card: "card (wi_id ` set cands) = length cands"
          using d by (metis distinct_card length_map set_map)
        have le: "length ids \<le> length cands" if "distinct ids" "set ids \<subseteq> wi_id ` set cands" for ids
          using that card card_mono[of "wi_id ` set cands" "set ids"] distinct_card[of ids] by simp
        show ?thesis
        proof (cases "n \<le> length seed")
          case True
          have "default_ids cands n = seed" unfolding ids using True sd(3) by simp
          moreover have "length seed = min n (length cands)" using True sd(3) le[OF sd(1,2)] by linarith
          ultimately show ?thesis using sd(1,2) by (intro full) auto
        next
          case s: False
          then have F1: "distinct f1" "set seed \<subseteq> set f1" "set f1 \<subseteq> wi_id ` set cands" "length f1 \<le> n"
            using fill_loop_correct[OF sd(1), of n aff] sd A(3) unfolding f1_def by auto
          show ?thesis
          proof (cases "n \<le> length f1")
            case True
            have "default_ids cands n = f1"
              unfolding ids Let_def f1_def[symmetric] using s True F1(4) by simp
            moreover have "length f1 = min n (length cands)" using True F1(4) le[OF F1(1,3)] by linarith
            ultimately show ?thesis using F1(1-3) by (intro full) auto
          next
            case n: False
            then have F2: "distinct f2" "set f1 \<subseteq> set f2" "set f2 \<subseteq> wi_id ` set cands" "length f2 \<le> n"
              "length f2 = n \<or> wi_id ` set cands \<subseteq> set f2"
              using fill_loop_correct[OF F1(1), of n "map wi_id cands"] F1(3) unfolding f2_def by auto
            have "length cands \<le> length f2" if "wi_id ` set cands \<subseteq> set f2"
              using card card_mono[OF _ that] distinct_card[OF F2(1)] by simp
            then have "length f2 = min n (length cands)"
              using F2(4,5) le[OF F2(1,3)] by linarith
            moreover have "default_ids cands n = f2"
              unfolding ids Let_def f1_def[symmetric] f2_def[symmetric] using s n F2(4) by simp
            ultimately show ?thesis using F2(1,3) subset_trans[OF F1(2) F2(2)] by (intro full[of f2])
          qed
        qed
      qed
    qed
  qed
qed

interpretation default: scheduling_policy default_select
proof
  fix cands :: "workflow_item list" and st n ids
  assume d: "distinct (map wi_id cands)"
  note D = default_ids_aux[OF d, of n]
  show "distinct ids \<and> set ids \<subseteq> wi_id ` set cands \<and> length ids \<le> n" if "default_select st cands n = Inr ids"
    using that D by (auto simp: default_select_def)
  show "default_select st cands n \<noteq> Inr []" if "cands \<noteq> []" "0 < n"
    using that D by (auto simp: default_select_def min_def split: if_splits)
qed

subsection \<open>Properties\<close>

text \<open>
  The default policy fills the batch with distinct candidates, and (for batches of two or more)
  serves every user in turn: each of the first \<open>n\<close> users in candidate order has an item in the batch.
\<close>

theorem default_policy_fair:
  assumes "distinct (map wi_id cands)" "default_select () cands n = Inr ids"
  shows "distinct ids \<and> set ids \<subseteq> wi_id ` set cands \<and> length ids = min n (length cands)
     \<and> (2 \<le> n \<longrightarrow> (\<forall>u \<in> set (take n (map fst (user_groups cands))).
          \<exists>it \<in> set cands. user_of it = u \<and> wi_id it \<in> set ids))"
  using default_ids_aux[OF assms(1), of n] assms(2) by (simp add: default_select_def)

theorem default_policy_fair_witness:
  "length (default_ids [item0 ''a'' ''u'' 0 (graph0 []), item0 ''b'' ''u'' 1 (graph0 []), item0 ''c'' ''v'' 2 (graph0 [])] 2) = 2
   \<and> ''c'' \<in> set (default_ids [item0 ''a'' ''u'' 0 (graph0 []), item0 ''b'' ''u'' 1 (graph0 []), item0 ''c'' ''v'' 2 (graph0 [])] 2)"
proof -
  let ?c = "[item0 ''a'' ''u'' 0 (graph0 []), item0 ''b'' ''u'' 1 (graph0 []), item0 ''c'' ''v'' 2 (graph0 [])]"
  have d: "distinct (map wi_id ?c)" by (simp add: item0_def)
  have g: "map fst (user_groups ?c) = [''u'', ''v'']"
    by (simp add: user_groups_def push_group_def user_of_def item0_def config0_def)
  have "default_select () ?c 2 = Inr (default_ids ?c 2)" by (simp add: default_select_def)
  from default_policy_fair[OF d this] show ?thesis
    by (simp add: g) (auto simp: user_of_def item0_def config0_def)
qed

text \<open>\<open>x\<close> may go before \<open>y\<close> when the smaller (larger) area goes first and unestimated ones last.\<close>

definition area_first :: "(real \<Rightarrow> real \<Rightarrow> bool) \<Rightarrow> cost_env \<Rightarrow> workflow_item \<Rightarrow> workflow_item \<Rightarrow> bool" where
  "area_first le env x y =
     (case (estimate_area env x, estimate_area env y) of
        (Inr a, Inr b) \<Rightarrow>
          (case b of None \<Rightarrow> True | Some q \<Rightarrow> (case a of None \<Rightarrow> False | Some p \<Rightarrow> le p q))
      | _ \<Rightarrow> False)"

lemma spt_rank_le:
  "spt_rank env x = Inr k \<Longrightarrow> spt_rank env y = Inr l \<Longrightarrow> k \<le> l \<Longrightarrow> area_first (\<le>) env x y"
  by (cases "estimate_area env x"; cases "estimate_area env y")
    (auto simp: spt_rank_def area_first_def split: option.splits)

lemma lpt_rank_le:
  "lpt_rank env x = Inr k \<Longrightarrow> lpt_rank env y = Inr l \<Longrightarrow> k \<le> l \<Longrightarrow> area_first (\<ge>) env x y"
  by (cases "estimate_area env x"; cases "estimate_area env y")
    (auto simp: lpt_rank_def area_first_def split: option.splits)

text \<open>
  \<open>spt\<close> and \<open>lpt\<close> fill the batch, and no candidate they leave behind should have gone first: an
  estimated one is at least as large (for \<open>lpt\<close>: at most as large) as every one taken, and one that
  cannot be estimated is taken only when no estimated one is left behind.
\<close>

theorem spt_lpt_order:
  assumes "distinct (map wi_id cands)" "x \<in> set cands" "y \<in> set cands"
    and "spt_select env cands n = Inr ids" "lpt_select env cands n = Inr jds"
  shows "length ids = min n (length cands) \<and> length jds = min n (length cands)
     \<and> (wi_id x \<in> set ids \<and> wi_id y \<notin> set ids \<longrightarrow> area_first (\<le>) env x y)
     \<and> (wi_id x \<in> set jds \<and> wi_id y \<notin> set jds \<longrightarrow> area_first (\<ge>) env x y)"
  using spt.least_first[OF assms(1,4)] lpt.least_first[OF assms(1,5)] assms(2,3)
    spt_rank_le[of env x _ y] lpt_rank_le[of env x _ y] by blast

theorem spt_lpt_order_witness:
  "area_first (\<le>) cost_env0 (item0 ''a'' ''u'' 0 (graph0 [])) (item0 ''b'' ''u'' 1 (graph0 []))"
proof -
  let ?a = "item0 ''a'' ''u'' 0 (graph0 [])" and ?b = "item0 ''b'' ''u'' 1 (graph0 [])"
  have "spt_select cost_env0 [?b, ?a] 1 = Inr [''a'']" "lpt_select cost_env0 [?b, ?a] 1 = Inr [''a'']"
    by (simp_all add: spt_select_def lpt_select_def ranked_select_def spt_rank_def lpt_rank_def
        estimate_area_def item0_def graph0_def)
  from spt_lpt_order[OF _ _ _ this, of ?a ?b] show ?thesis by (simp add: item0_def)
qed

text \<open>The service charged to a chain by a batch: the areas of its estimated items.\<close>

definition charge :: "cost_env \<Rightarrow> string \<Rightarrow> workflow_item list \<Rightarrow> real" where
  "charge env c its =
     sum_list (map (\<lambda>it. case estimate_area env it of
         Inr (Some a) \<Rightarrow> if chain_key it = c then a else 0 | _ \<Rightarrow> 0) its)"

lemma service_update:
  "service (AList.update k v att) c = (if c = k then v else service att c)"
  by (simp add: service_def update_conv)

lemma plas_on_commit_charge:
  assumes "plas_on_commit env att its = (None, att')"
  shows "service att' c = service att c + charge env c its"
  using assms
proof (induction its arbitrary: att)
  case (Cons it its)
  then show ?case
    by (cases "estimate_area env it") (auto simp: charge_def service_update split: option.splits)
qed (simp add: charge_def)

text \<open>
  \<open>plas\<close> is least attained service by chain: committing a batch adds to each chain exactly the
  estimated areas of its items, and the next selection takes no item of a chain with more attained
  service while it leaves one of a chain with less.
\<close>

theorem plas_least_attained_service:
  assumes "plas_on_commit env att its = (None, att')" "distinct (map wi_id cands)"
    and "plas_select att' cands n = Inr ids"
    and "x \<in> set cands" "y \<in> set cands" "wi_id x \<in> set ids" "wi_id y \<notin> set ids"
  shows "service att (chain_key x) + charge env (chain_key x) its
       \<le> service att (chain_key y) + charge env (chain_key y) its"
proof -
  have "\<exists>k l. plas_rank att' x = Inr k \<and> plas_rank att' y = Inr l \<and> k \<le> l"
    using plas.least_first(2)[OF assms(2,3)] assms(4-7) by blast
  then have "service att' (chain_key x) \<le> service att' (chain_key y)"
    by (auto simp: plas_rank_def)
  then show ?thesis using plas_on_commit_charge[OF assms(1)] by simp
qed

theorem plas_least_attained_service_witness:
  "service [(''a'', 1), (''b'', 2)] ''a'' \<le> service [(''a'', 1), (''b'', 2)] ''b''"
proof -
  let ?a = "item0 ''a'' ''u'' 0 (graph0 [])" and ?b = "item0 ''b'' ''u'' 1 (graph0 [])"
  let ?att = "[(''a'', 1), (''b'', 2)] :: attained"
  have k: "chain_key ?a = ''a''" "chain_key ?b = ''b''"
    by (simp_all add: chain_key_def item0_def config0_def or_default_def)
  have s: "plas_select ?att [?b, ?a] 1 = Inr [''a'']"
    by (simp add: plas_select_def ranked_select_def plas_rank_def k service_def) (simp add: item0_def)
  have c: "plas_on_commit cost_env0 ?att [] = (None, ?att)" by simp
  from plas_least_attained_service[OF c _ s, of ?a ?b] show ?thesis
    by (simp add: k charge_def) (simp add: item0_def service_def)
qed

end
