(* ===== verification/Cohort_Pack.thy ===== *)
theory Cohort_Pack
  imports Policies
begin

section \<open>The cohort-packing policy\<close>

text \<open>
  \<open>runtime/job_manager/policies/cohort_pack.py\<close>: dispatch units are balanced cuts of cohorts of
  chains that share a template. A set of chains whose iteration order the code leaves open is a list;
  frozen sets of templates are sets. \<open>x ** y\<close> on positive floats is \<open>powr\<close>; a dictionary of
  fixed shape is a record.
\<close>

subsection \<open>Arguments and the batch-cost model\<close>

record cohort_pack_args =
  ca_fixed_seconds :: real
  ca_mix_seconds :: real
  ca_beta :: real
  ca_area_to_seconds :: real
  ca_gamma :: real
  ca_batch_size :: nat
  ca_patience :: nat

definition default_cohort_pack_args :: cohort_pack_args where
  "default_cohort_pack_args = \<lparr>ca_fixed_seconds = 0, ca_mix_seconds = 0, ca_beta = 1,
     ca_area_to_seconds = 1, ca_gamma = 1, ca_batch_size = 10, ca_patience = 8\<rparr>"

text \<open>The bounds the pydantic fields declare (integers are natural numbers already).\<close>

definition args_valid :: "cohort_pack_args \<Rightarrow> bool" where
  "args_valid a =
     (0 \<le> ca_fixed_seconds a \<and> 0 \<le> ca_mix_seconds a \<and> 0 < ca_beta a \<and> 0 < ca_area_to_seconds a
    \<and> 0 \<le> ca_gamma a \<and> 0 < ca_batch_size a)"

record batch_cost_model =
  bm_fixed_seconds :: real
  bm_mix_seconds :: real
  bm_beta :: real
  bm_area_to_seconds :: real
  bm_batch_size :: nat

definition bm_fixed :: "batch_cost_model \<Rightarrow> real \<Rightarrow> real" where
  "bm_fixed m area = bm_fixed_seconds m / (bm_area_to_seconds m * max area (1 / 10 ^ 9))"

definition bm_mix :: "batch_cost_model \<Rightarrow> real \<Rightarrow> real" where
  "bm_mix m area = bm_mix_seconds m / (bm_area_to_seconds m * max area (1 / 10 ^ 9))"

definition bm_scale :: "batch_cost_model \<Rightarrow> real \<Rightarrow> real" where
  "bm_scale m k = (max k 1 / real (bm_batch_size m)) powr (bm_beta m - 1)"

definition bm_per_work :: "batch_cost_model \<Rightarrow> nat \<Rightarrow> nat \<Rightarrow> real \<Rightarrow> real \<Rightarrow> real" where
  "bm_per_work m k n_d fixed mix = (fixed + mix * (real n_d - 1)) / real k + bm_scale m (real k)"

definition time_of :: "batch_cost_model \<Rightarrow> nat \<Rightarrow> real \<Rightarrow> nat \<Rightarrow> real" where
  "time_of m ready fixed n = fixed + (real ready / real n) * bm_scale m (real ready / real n)"

definition lane_time :: "batch_cost_model \<Rightarrow> nat \<Rightarrow> real \<Rightarrow> nat \<Rightarrow> real" where
  "lane_time m ready fixed n = real n * fixed + real ready * bm_scale m (real ready / real n)"

function spread_loop :: "batch_cost_model \<Rightarrow> nat \<Rightarrow> real \<Rightarrow> real \<Rightarrow> nat \<Rightarrow> nat \<Rightarrow> nat" where
  "spread_loop m ready gamma fixed n_max n =
     (if n < n_max
        \<and> gamma * (lane_time m ready fixed (n + 1) - lane_time m ready fixed n)
          \<le> time_of m ready fixed n - time_of m ready fixed (n + 1)
      then spread_loop m ready gamma fixed n_max (n + 1) else n)"
  by pat_completeness auto
termination
  by (relation "measure (\<lambda>(_, _, _, _, n_max, n). n_max - n)") auto

declare spread_loop.simps [simp del]

definition spread_n :: "batch_cost_model \<Rightarrow> nat \<Rightarrow> nat \<Rightarrow> real \<Rightarrow> real \<Rightarrow> nat" where
  "spread_n m ready n_max gamma fixed =
     (let n = max 1 (ceil_div ready (bm_batch_size m))
      in spread_loop m ready gamma fixed (max n (min n_max ready)) n)"

subsection \<open>State\<close>

type_synonym cp_key = "string \<times> nat \<times> string"
type_synonym cp_groups = "(cp_key, workflow_item list) dict"

record cp_unit =
  cu_members :: "cp_key list"
  cu_complete :: bool

record cp_state =
  cp_model :: batch_cost_model
  cp_gamma :: real
  cp_patience :: nat
  cp_cost_env :: cost_env
  cp_free_lanes :: "nat option"
  cp_history :: "(string, (nat, string set) dict) dict"
  cp_last_round :: "(string, nat) dict"
  cp_chains_at :: "(nat, string list) dict"
  cp_width :: "(string, nat) dict"

definition cp_init :: "cost_env \<Rightarrow> cohort_pack_args \<Rightarrow> cp_state" where
  "cp_init env a =
     \<lparr>cp_model = \<lparr>bm_fixed_seconds = ca_fixed_seconds a, bm_mix_seconds = ca_mix_seconds a,
        bm_beta = ca_beta a, bm_area_to_seconds = ca_area_to_seconds a, bm_batch_size = ca_batch_size a\<rparr>,
      cp_gamma = ca_gamma a, cp_patience = ca_patience a, cp_cost_env = env, cp_free_lanes = None,
      cp_history = [], cp_last_round = [], cp_chains_at = [], cp_width = []\<rparr>"

definition observe_free_lanes :: "nat option \<Rightarrow> cp_state \<Rightarrow> cp_state" where
  "observe_free_lanes n st = st\<lparr>cp_free_lanes := n\<rparr>"

subsection \<open>Committing a batch\<close>

definition round_key :: "workflow_item \<Rightarrow> string \<times> nat" where
  "round_key it = (chain_key it, rc_chain_round (wi_config it))"

definition template_of :: "workflow_item \<Rightarrow> string" where
  "template_of it = sm_template_hash (wi_slice it)"

text \<open>The first loop of \<open>on_commit\<close>: slices and templates per (chain, round).\<close>

definition commit_counts :: "workflow_item list \<Rightarrow> (string \<times> nat, nat) dict" where
  "commit_counts its =
     foldl (\<lambda>d it. AList.update (round_key it) (dict_get d (round_key it) 0 + 1) d) [] its"

definition commit_templates :: "workflow_item list \<Rightarrow> (string \<times> nat, string set) dict" where
  "commit_templates its =
     foldl (\<lambda>d it. AList.update (round_key it) (insert (template_of it) (dict_get d (round_key it) {})) d) [] its"

definition commit_round :: "(string \<times> nat, string set) dict \<Rightarrow> (string \<times> nat) \<times> nat \<Rightarrow> cp_state \<Rightarrow> cp_state" where
  "commit_round templates entry st =
     (case entry of ((chain, rnd), cnt) \<Rightarrow>
       let hist = dict_get (cp_history st) chain [];
           hist' = AList.update rnd (dict_get hist rnd {} \<union> dict_get templates (chain, rnd) {}) hist;
           previous = map_of (cp_last_round st) chain;
           latest = (case previous of None \<Rightarrow> rnd | Some p \<Rightarrow> max p rnd);
           width' = (if previous = Some rnd
                     then AList.update chain (max (dict_get (cp_width st) chain 0) cnt) (cp_width st)
                     else if rnd = latest then AList.update chain cnt (cp_width st)
                     else cp_width st);
           st' = st\<lparr>cp_history := AList.update chain hist' (cp_history st), cp_width := width'\<rparr>
       in if previous = Some latest then st'
          else
            let left = (case previous of
                   None \<Rightarrow> cp_chains_at st'
                 | Some p \<Rightarrow> AList.update p (removeAll chain (dict_get (cp_chains_at st') p [])) (cp_chains_at st'))
            in st'\<lparr>cp_chains_at := AList.update latest (append_new (dict_get left latest []) chain) left,
                   cp_last_round := AList.update chain latest (cp_last_round st')\<rparr>)"

definition cp_on_commit :: "cp_state \<Rightarrow> workflow_item list \<Rightarrow> cp_state" where
  "cp_on_commit st its =
     foldl (\<lambda>s e. commit_round (commit_templates its) e s) st (commit_counts its)"

definition signature :: "cp_state \<Rightarrow> string \<Rightarrow> nat \<Rightarrow> string set option list" where
  "signature st chain rnd =
     (let hist = dict_get (cp_history st) chain [] in map (\<lambda>i. map_of hist i) [0..<rnd])"

subsection \<open>Units\<close>

definition key_of :: "workflow_item \<Rightarrow> cp_key" where
  "key_of it = (chain_key it, rc_chain_round (wi_config it), template_of it)"

definition slice_order :: "workflow_item \<Rightarrow> real \<times> int \<times> string" where
  "slice_order it = (wi_enqueued_at it, sm_slice_index (wi_slice it), wi_id it)"

definition make_groups :: "workflow_item list \<Rightarrow> cp_groups" where
  "make_groups cands =
     map (\<lambda>(k, its). (k, sort_key slice_order its)) (foldl (\<lambda>d it. push_group (key_of it) it d) [] cands)"

text \<open>\<open>d.setdefault(o, {})[i] = v\<close>.\<close>

definition put_in :: "'o \<Rightarrow> 'i \<Rightarrow> 'v \<Rightarrow> ('o, ('i, 'v) dict) dict \<Rightarrow> ('o, ('i, 'v) dict) dict" where
  "put_in oo i v d = AList.update oo (AList.update i v (dict_get d oo [])) d"

definition by_template :: "cp_key list \<Rightarrow> (string \<times> nat, (string, cp_key) dict) dict" where
  "by_template ks = foldl (\<lambda>d k. case k of (c, r, t) \<Rightarrow> put_in (t, r) c k d) [] ks"

definition ready_at :: "(string \<times> nat, (string, cp_key) dict) dict \<Rightarrow> string \<Rightarrow> (string \<times> nat) list" where
  "ready_at bt chain = map fst (filter (\<lambda>(tk, keys). chain \<in> fst ` set keys) bt)"

definition by_signature ::
  "cp_state \<Rightarrow> nat \<Rightarrow> (string, cp_key) dict \<Rightarrow> (string set option list, (string, cp_key) dict) dict" where
  "by_signature st rnd ready = foldl (\<lambda>d (c, k). put_in (signature st c rnd) c k d) [] ready"

text \<open>The mates a cohort waits for, beside the chains that are ready.\<close>

definition is_mate ::
  "cp_state \<Rightarrow> (string \<times> nat, (string, cp_key) dict) dict \<Rightarrow> string \<times> nat \<Rightarrow> string set option list
    \<Rightarrow> (string, cp_key) dict \<Rightarrow> string \<Rightarrow> bool" where
  "is_mate st bt tk sig ready chain =
     (chain \<notin> fst ` set ready \<and> signature st chain (snd tk) = sig
    \<and> (ready_at bt chain = [] \<or> tk \<in> set (ready_at bt chain)))"

definition cohort_width ::
  "cp_state \<Rightarrow> cp_groups \<Rightarrow> (string \<times> nat, (string, cp_key) dict) dict \<Rightarrow> string \<times> nat
    \<Rightarrow> string set option list \<Rightarrow> (string, cp_key) dict \<Rightarrow> (string, nat) dict" where
  "cohort_width st groups bt tk sig ready =
     (let w0 = map (\<lambda>(c, k). (c, length (dict_get groups k []))) ready;
          mates = (if 0 < snd tk then dict_get (cp_chains_at st) (snd tk - 1) [] else [])
      in foldl (\<lambda>w c. if is_mate st bt tk sig ready c
                      then AList.update c (let n = dict_get (cp_width st) c 0 in if n = 0 then 1 else n) w
                      else w) w0 mates)"

fun cut_loop ::
  "(string \<Rightarrow> nat) \<Rightarrow> nat \<Rightarrow> nat \<Rightarrow> real \<Rightarrow> string list \<Rightarrow> string list \<Rightarrow> nat \<Rightarrow> nat \<Rightarrow> string list list" where
  "cut_loop width bsz cnt target [] part psz parts = (if part = [] then [] else [part])"
| "cut_loop width bsz cnt target (c # cs) part psz parts =
     (let w = width c
      in if part \<noteq> [] \<and> (bsz < psz + w \<or> (parts + 1 < cnt \<and> target \<le> real psz))
         then part # cut_loop width bsz cnt target cs [c] w (parts + 1)
         else cut_loop width bsz cnt target cs (part @ [c]) (psz + w) parts)"

definition cut_cohort :: "(string, nat) dict \<Rightarrow> nat \<Rightarrow> string list list" where
  "cut_cohort width bsz =
     (let cohort = sort (map fst width);
          total = sum_list (map snd width);
          cnt = max 1 (ceil_div total bsz);
          target = real total / real cnt
      in cut_loop (\<lambda>c. dict_get width c 0) bsz cnt target cohort [] 0 0)"

definition unit_of_part :: "(string, cp_key) dict \<Rightarrow> string list \<Rightarrow> cp_unit list" where
  "unit_of_part ready part =
     (let members = map (\<lambda>c. the (map_of ready c)) (filter (\<lambda>c. c \<in> fst ` set ready) part)
      in if members = [] then []
         else [\<lparr>cu_members = members, cu_complete = (length members = length part)\<rparr>])"

definition cohort_units ::
  "cp_state \<Rightarrow> cp_groups \<Rightarrow> nat \<Rightarrow> (string \<times> nat, (string, cp_key) dict) dict \<Rightarrow> string \<times> nat
    \<Rightarrow> string set option list \<times> (string, cp_key) dict \<Rightarrow> cp_unit list" where
  "cohort_units st groups bsz bt tk entry =
     (case entry of (sig, ready) \<Rightarrow>
        concat (map (unit_of_part ready) (cut_cohort (cohort_width st groups bt tk sig ready) bsz)))"

definition make_units :: "cp_state \<Rightarrow> cp_groups \<Rightarrow> nat \<Rightarrow> cp_unit list" where
  "make_units st groups bsz =
     (let bt = by_template (map fst groups)
      in concat (map (\<lambda>(tk, ready).
           concat (map (cohort_units st groups bsz bt tk) (by_signature st (snd tk) ready))) bt))"

subsection \<open>The anchor unit\<close>

definition group_of :: "cp_groups \<Rightarrow> cp_key \<Rightarrow> workflow_item list" where
  "group_of groups k = dict_get groups k []"

fun least_of :: "'k::linorder list \<Rightarrow> 'k \<Rightarrow> 'k" where
  "least_of [] x = x"
| "least_of (y # ys) x = least_of ys (min x y)"

fun greatest_of :: "'k::linorder list \<Rightarrow> 'k \<Rightarrow> 'k" where
  "greatest_of [] x = x"
| "greatest_of (y # ys) x = greatest_of ys (max x y)"

definition oldest_unit :: "cp_groups \<Rightarrow> cp_unit \<Rightarrow> real \<times> cp_key" where
  "oldest_unit groups u =
     (let ts = map (\<lambda>k. wi_enqueued_at (hd (group_of groups k))) (cu_members u)
      in (least_of (tl ts) (hd ts), hd (cu_members u)))"

definition waited :: "cp_groups \<Rightarrow> cp_unit \<Rightarrow> nat" where
  "waited groups u =
     (let ms = concat (map (\<lambda>k. map wi_miss_count (group_of groups k)) (cu_members u))
      in greatest_of (tl ms) (hd ms))"

definition passed_over :: "cp_groups \<Rightarrow> cp_unit \<Rightarrow> nat \<times> int list" where
  "passed_over groups u = (waited groups u, map (\<lambda>c. - int (char_code c)) (fst (hd (cu_members u))))"

definition overdue :: "cp_state \<Rightarrow> cp_groups \<Rightarrow> cp_unit list \<Rightarrow> cp_unit list" where
  "overdue st groups us = filter (\<lambda>u. \<not> cu_complete u \<and> cp_patience st < waited groups u) us"

definition anchor_unit :: "cp_state \<Rightarrow> cp_groups \<Rightarrow> cp_unit list \<Rightarrow> cp_unit" where
  "anchor_unit st groups us =
     (case overdue st groups us of
        [] \<Rightarrow>
          (let pool = (case filter cu_complete us of [] \<Rightarrow> us | cs \<Rightarrow> cs)
           in min_by (\<lambda>u. (- int (waited groups u), oldest_unit groups u)) (hd pool) (tl pool))
      | o1 # os \<Rightarrow>
          (let top = greatest_of (map (passed_over groups) os) (passed_over groups o1);
               pool = filter (\<lambda>u. passed_over groups u = top) (o1 # os)
           in min_by (oldest_unit groups) (hd pool) (tl pool)))"

subsection \<open>Filling the batch\<close>

definition round9 :: "real \<Rightarrow> real" where
  "round9 x =
     (let y = x * 10 ^ 9; f = \<lfloor>y\<rfloor>; d = y - real_of_int f
      in real_of_int (if d < 1 / 2 \<or> (d = 1 / 2 \<and> even f) then f else f + 1) / 10 ^ 9)"

fun combinations :: "nat \<Rightarrow> 'a list \<Rightarrow> 'a list list" where
  "combinations 0 xs = [[]]"
| "combinations (Suc k) [] = []"
| "combinations (Suc k) (x # xs) = map ((#) x) (combinations k xs) @ combinations (Suc k) xs"

record cp_atom =
  at_rank :: nat
  at_key :: cp_key

definition atom_size :: "cp_groups \<Rightarrow> cp_atom \<Rightarrow> nat" where
  "atom_size groups a = length (group_of groups (at_key a))"

definition batch_value :: "cp_state \<Rightarrow> cp_groups \<Rightarrow> cp_key list \<Rightarrow> nat \<Rightarrow> real \<Rightarrow> real \<Rightarrow> real" where
  "batch_value st groups keys distinct_templates fixed mix =
     round9 (bm_per_work (cp_model st) (sum_list (map (\<lambda>k. length (group_of groups k)) keys))
        distinct_templates fixed mix)"

definition unit_index :: "cp_unit list \<Rightarrow> cp_key \<Rightarrow> nat list" where
  "unit_index us k = rev (filter (\<lambda>i. k \<in> set (cu_members (us ! i))) [0..<length us])"

definition broken_units :: "cp_unit list \<Rightarrow> cp_atom list \<Rightarrow> nat" where
  "broken_units us combo =
     (let idx = concat (map (\<lambda>a. take 1 (unit_index us (at_key a))) combo)
      in length (filter (\<lambda>i. count_list idx i < length (cu_members (us ! i))) (remdups idx)))"

definition combo_score ::
  "cp_state \<Rightarrow> cp_groups \<Rightarrow> cp_unit \<Rightarrow> cp_unit list \<Rightarrow> real \<Rightarrow> real \<Rightarrow> cp_atom list \<Rightarrow> real \<times> nat \<times> nat" where
  "combo_score st groups u us fixed mix combo =
     (let keys = map at_key combo;
          unit_template = snd (snd (hd (cu_members u)));
          extra = filter (\<lambda>t. t \<noteq> unit_template) (remdups (map (\<lambda>k. snd (snd k)) keys))
      in (batch_value st groups (cu_members u @ keys) (1 + length extra) fixed mix,
          broken_units us combo, sum_list (map at_rank combo)))"

fun best_combo ::
  "(cp_atom list \<Rightarrow> real \<times> nat \<times> nat) \<Rightarrow> cp_atom list list \<Rightarrow> (real \<times> nat \<times> nat) \<times> cp_atom list
    \<Rightarrow> (real \<times> nat \<times> nat) \<times> cp_atom list" where
  "best_combo score [] best = best"
| "best_combo score (c # cs) best =
     best_combo score cs (if score c < fst best then (score c, c) else best)"

definition fill_room :: "cp_groups \<Rightarrow> cp_unit \<Rightarrow> nat \<Rightarrow> nat" where
  "fill_room groups u bsz = bsz - sum_list (map (\<lambda>k. length (group_of groups k)) (cu_members u))"

definition enqueue_order :: "cp_groups \<Rightarrow> cp_key list" where
  "enqueue_order groups = sort_key (\<lambda>k. (wi_enqueued_at (hd (group_of groups k)), k)) (map fst groups)"

definition fill_atoms :: "cp_groups \<Rightarrow> cp_unit \<Rightarrow> nat \<Rightarrow> cp_atom list" where
  "fill_atoms groups u bsz =
     filter (\<lambda>a. at_key a \<notin> set (cu_members u) \<and> atom_size groups a \<le> fill_room groups u bsz)
       (map (\<lambda>(r, k). \<lparr>at_rank = r, at_key = k\<rparr>) (enumerate 0 (enqueue_order groups)))"

definition fill_combos :: "cp_groups \<Rightarrow> cp_unit \<Rightarrow> nat \<Rightarrow> cp_atom list list" where
  "fill_combos groups u bsz =
     (let atoms = fill_atoms groups u bsz
      in filter (\<lambda>c. sum_list (map (atom_size groups) c) \<le> fill_room groups u bsz)
           (concat (map (\<lambda>k. combinations k atoms) [1, 2, 3])))"

definition cp_fill ::
  "cp_state \<Rightarrow> cp_unit \<Rightarrow> cp_unit list \<Rightarrow> cp_groups \<Rightarrow> nat \<Rightarrow> real \<Rightarrow> real \<Rightarrow> workflow_item list" where
  "cp_fill st u us groups bsz fixed mix =
     concat (map (\<lambda>a. group_of groups (at_key a))
       (snd (best_combo (combo_score st groups u us fixed mix) (fill_combos groups u bsz)
               ((batch_value st groups (cu_members u) 1 fixed mix, 0, 0), []))))"

text \<open>The ids that go out, once the anchor unit and its per-slice area are known.\<close>

definition cp_dispatch ::
  "cp_state \<Rightarrow> cp_groups \<Rightarrow> cp_unit list \<Rightarrow> cp_unit \<Rightarrow> nat \<Rightarrow> real \<Rightarrow> string list" where
  "cp_dispatch st groups us u bsz area =
     (let out = concat (map (group_of groups) (cu_members u));
          fixed = bm_fixed (cp_model st) area;
          mix = bm_mix (cp_model st) area;
          filled = (if length out < bsz then out @ cp_fill st u us groups bsz fixed mix else out);
          whole = map wi_id (take bsz filled)
      in case cp_free_lanes st of
           None \<Rightarrow> whole
         | Some free \<Rightarrow>
             let avail = free - (length us - 1);
                 lanes = spread_n (cp_model st) (length out) (min avail (length out)) (cp_gamma st) fixed
             in if 1 < free \<and> 1 < avail \<and> 1 < lanes
                then take bsz (map wi_id (take (max 1 (ceil_div (length out) lanes)) out))
                else whole)"

definition cp_select :: "cp_state \<Rightarrow> workflow_item list \<Rightarrow> nat \<Rightarrow> string list result" where
  "cp_select st cands bsz =
     (if cands = [] then Inr []
      else
        let groups = make_groups cands;
            us = make_units st groups bsz;
            u = anchor_unit st groups us
        in case estimate_area (cp_cost_env st) (hd (group_of groups (hd (cu_members u)))) of
            Inl e \<Rightarrow> Inl e
          | Inr None \<Rightarrow> Inr (cp_dispatch st groups us u bsz 1)
          | Inr (Some area) \<Rightarrow> Inr (cp_dispatch st groups us u bsz area))"

subsection \<open>Groups\<close>

lemma make_groups_keys:
  "distinct (map fst (make_groups cands))" "fst ` set (make_groups cands) = key_of ` set cands"
proof -
  have m: "map fst (make_groups cands) = map fst (foldl (\<lambda>d it. push_group (key_of it) it d) [] cands)"
    by (simp add: make_groups_def case_prod_beta' comp_def)
  show "distinct (map fst (make_groups cands))"
    unfolding m by (rule foldl_push_keys(1)[where g = "\<lambda>it. it", simplified])
  show "fst ` set (make_groups cands) = key_of ` set cands"
    using foldl_push_keys(2)[where g = "\<lambda>it. it" and f = key_of and xs = cands]
    by (metis m set_map)
qed

lemma map_of_map_snd: "map_of (map (\<lambda>(k, v). (k, f v)) d) k = map_option f (map_of d k)"
  by (induction d) auto

lemma group_of_make_groups:
  "group_of (make_groups cands) k = sort_key slice_order (filter (\<lambda>it. key_of it = k) cands)"
  using foldl_push_lookup[where g = "\<lambda>it. it" and f = key_of and xs = cands and k = k]
  by (auto simp: group_of_def dict_get_def make_groups_def map_of_map_snd)

lemma groups_concat:
  assumes "distinct (map wi_id cands)" "distinct ks"
  shows "distinct (map wi_id (concat (map (group_of (make_groups cands)) ks)))"
    and "set (concat (map (group_of (make_groups cands)) ks)) = {it \<in> set cands. key_of it \<in> set ks}"
proof -
  show S: "set (concat (map (group_of (make_groups cands)) ks)) = {it \<in> set cands. key_of it \<in> set ks}" for ks
    by (auto simp: group_of_make_groups)
  show "distinct (map wi_id (concat (map (group_of (make_groups cands)) ks)))"
    using assms(2)
  proof (induction ks)
    case (Cons k ks)
    have "distinct (map wi_id (group_of (make_groups cands) k))"
      using assms(1) by (simp add: group_of_make_groups distinct_map_sort_key distinct_map_filter)
    moreover have "wi_id ` set (group_of (make_groups cands) k)
        \<inter> wi_id ` set (concat (map (group_of (make_groups cands)) ks)) = {}"
      using assms(1) Cons.prems unfolding S
      by (auto simp: group_of_make_groups distinct_map dest: inj_onD)
    ultimately show ?case using Cons by auto
  qed simp
qed

lemma groups_total: "sum_list (map (\<lambda>k. length (group_of groups k)) ks) = length (concat (map (group_of groups) ks))"
  by (simp add: length_concat comp_def)

subsection \<open>The units partition the ready rounds\<close>

definition entries :: "('o, ('i, 'v) dict) dict \<Rightarrow> ('i \<times> 'v) list" where
  "entries d = concat (map snd d)"

lemma entries_update:
  "distinct (map fst d) \<Longrightarrow> mset (entries (AList.update k v d)) + mset (dict_get d k []) = mset (entries d) + mset v"
proof (induction d)
  case (Cons a d)
  show ?case
  proof (cases "fst a = k")
    case True
    then show ?thesis by (cases a) (simp add: entries_def dict_get_def)
  next
    case False
    then show ?thesis using Cons by (cases a) (simp add: entries_def dict_get_def)
  qed
qed (simp add: entries_def dict_get_def)

lemma entries_put_in:
  assumes "distinct (map fst d)" "i \<notin> fst ` set (dict_get d k [])"
  shows "mset (entries (put_in k i v d)) = add_mset (i, v) (mset (entries d))"
  using entries_update[OF assms(1), of k "dict_get d k [] @ [(i, v)]"] update_new[OF assms(2), of v]
  by (simp add: put_in_def)

text \<open>Two-level grouping by \<open>(f x, g x)\<close>, when no two entries share both.\<close>

lemma put_in_loop:
  fixes f :: "'x \<Rightarrow> 'o" and g :: "'x \<Rightarrow> 'i" and h :: "'x \<Rightarrow> 'v"
  defines "D xs \<equiv> foldl (\<lambda>d x. put_in (f x) (g x) (h x) d) [] xs"
  assumes "distinct (map (\<lambda>x. (f x, g x)) xs)"
  shows "distinct (map fst (D xs)) \<and> mset (entries (D xs)) = mset (map (\<lambda>x. (g x, h x)) xs)
     \<and> (\<forall>(k, dd) \<in> set (D xs). distinct (map fst dd) \<and> set dd = (\<lambda>x. (g x, h x)) ` {x \<in> set xs. f x = k})"
  using assms(2)
proof (induction xs rule: rev_induct)
  case Nil
  then show ?case by (simp add: D_def entries_def)
next
  case (snoc x xs)
  let ?d = "D xs"
  have IH: "distinct (map fst ?d)" "mset (entries ?d) = mset (map (\<lambda>x. (g x, h x)) xs)"
    "\<And>k dd. (k, dd) \<in> set ?d \<Longrightarrow> distinct (map fst dd) \<and> set dd = (\<lambda>x. (g x, h x)) ` {x \<in> set xs. f x = k}"
    using snoc by auto
  have D: "D (xs @ [x]) = put_in (f x) (g x) (h x) ?d" by (simp add: D_def)
  have keys: "fst ` set (D ys) = f ` set ys" for ys
    unfolding D_def by (induction ys rule: rev_induct) (auto simp: put_in_def dom_update)
  have inner: "distinct (map fst (dict_get ?d (f x) []))
      \<and> set (dict_get ?d (f x) []) = (\<lambda>x. (g x, h x)) ` {y \<in> set xs. f y = f x}"
  proof (cases "f x \<in> f ` set xs")
    case True
    then obtain dd where "map_of ?d (f x) = Some dd" using keys by (metis map_of_eq_None_iff option.exhaust)
    then show ?thesis using IH(3)[of "f x" dd] by (simp add: dict_get_def map_of_SomeD)
  next
    case False
    then have none: "{y \<in> set xs. f y = f x} = {}" by (auto simp: image_iff)
    have "dict_get ?d (f x) [] = []" using False keys by (intro dict_get_none) simp
    then show ?thesis by (simp only: none) simp
  qed
  have new: "g x \<notin> fst ` set (dict_get ?d (f x) [])"
  proof
    assume "g x \<in> fst ` set (dict_get ?d (f x) [])"
    then have "g x \<in> g ` {y \<in> set xs. f y = f x}" using inner by (simp add: image_image)
    then obtain y where "y \<in> set xs" "f y = f x" "g y = g x" by (auto simp: eq_commute)
    then have "(f x, g x) \<in> set (map (\<lambda>x. (f x, g x)) xs)" by (simp add: rev_image_eqI)
    then show False using snoc.prems by simp
  qed
  have "mset (entries (D (xs @ [x]))) = mset (map (\<lambda>x. (g x, h x)) (xs @ [x]))"
    using entries_put_in[OF IH(1) new] IH(2) by (simp add: D)
  moreover have "distinct (map fst (D (xs @ [x])))"
    using IH(1) by (simp add: D put_in_def distinct_update)
  moreover have "distinct (map fst dd) \<and> set dd = (\<lambda>x. (g x, h x)) ` {y \<in> set (xs @ [x]). f y = k}"
    if "(k, dd) \<in> set (D (xs @ [x]))" for k dd
  proof -
    have m: "map_of (D (xs @ [x])) k = Some dd"
      using that \<open>distinct (map fst (D (xs @ [x])))\<close> by (simp add: map_of_is_SomeI)
    show ?thesis
    proof (cases "k = f x")
      case True
      then have "dd = dict_get ?d (f x) [] @ [(g x, h x)]"
        using m update_new[OF new] by (simp add: D put_in_def update_conv)
      then show ?thesis using inner new True by auto
    next
      case False
      then have "map_of ?d k = Some dd" using m by (simp add: D put_in_def update_conv)
      then show ?thesis using IH(3)[of k dd] False by (auto dest: map_of_SomeD)
    qed
  qed
  ultimately show ?case by blast
qed

lemma cut_loop_concat: "concat (cut_loop width bsz cnt target cs part psz parts) = part @ cs"
  by (induction cs arbitrary: part psz parts) (auto simp: Let_def)

text \<open>No part is empty, and a part of two chains or more fits the batch.\<close>

lemma cut_loop_parts:
  assumes "psz = sum_list (map width part)" "length part \<le> 1 \<or> psz \<le> bsz"
    and "p \<in> set (cut_loop width bsz cnt target cs part psz parts)"
  shows "p \<noteq> [] \<and> (length p \<le> 1 \<or> sum_list (map width p) \<le> bsz)"
  using assms
proof (induction cs arbitrary: part psz parts)
  case Nil
  then show ?case by (auto split: if_splits)
next
  case (Cons c cs)
  let ?cut = "part \<noteq> [] \<and> (bsz < psz + width c \<or> (parts + 1 < cnt \<and> target \<le> real psz))"
  show ?case
  proof (cases ?cut)
    case True
    then have "p = part \<or> p \<in> set (cut_loop width bsz cnt target cs [c] (width c) (parts + 1))"
      using Cons.prems(3) by (auto simp: Let_def)
    then show ?thesis
    proof
      assume "p = part"
      then show ?thesis using True Cons.prems(1,2) by auto
    next
      assume "p \<in> set (cut_loop width bsz cnt target cs [c] (width c) (parts + 1))"
      then show ?thesis by (intro Cons.IH[of "width c" "[c]" "parts + 1"]) auto
    qed
  next
    case False
    then have p: "p \<in> set (cut_loop width bsz cnt target cs (part @ [c]) (psz + width c) parts)"
      using Cons.prems(3) by (auto simp: Let_def)
    have "length (part @ [c]) \<le> 1 \<or> psz + width c \<le> bsz" using False by (cases part) auto
    then show ?thesis using Cons.prems(1) p by (intro Cons.IH[of "psz + width c" "part @ [c]" parts]) auto
  qed
qed

lemma unit_of_part_members:
  "concat (map cu_members (unit_of_part ready part))
     = map (\<lambda>c. the (map_of ready c)) (filter (\<lambda>c. c \<in> fst ` set ready) part)"
  by (simp add: unit_of_part_def Let_def)

lemma foldl_update_some_keys:
  fixes w :: "('a, 'b) dict"
  assumes "distinct (map fst w)"
  shows "distinct (map fst (foldl (\<lambda>w c. if P c then AList.update c (V c) w else w) w ms))
     \<and> fst ` set w \<subseteq> fst ` set (foldl (\<lambda>w c. if P c then AList.update c (V c) w else w) w ms)"
  using assms
proof (induction ms arbitrary: w)
  case (Cons c ms)
  let ?w = "if P c then AList.update c (V c) w else w"
  have "distinct (map fst ?w)" using Cons.prems by (simp add: distinct_update)
  moreover have "fst ` set w \<subseteq> fst ` set ?w" by (simp add: dom_update subset_insertI)
  ultimately show ?case using Cons.IH[of ?w] unfolding foldl_Cons by (meson subset_trans)
qed simp

lemma cohort_width_keys:
  assumes "distinct (map fst ready)"
  shows "distinct (map fst (cohort_width st groups bt tk sig ready))"
    and "fst ` set ready \<subseteq> fst ` set (cohort_width st groups bt tk sig ready)"
proof -
  let ?w0 = "map (\<lambda>(c, k). (c, length (dict_get groups k []))) ready"
  have "map fst ?w0 = map fst ready" by (simp add: case_prod_beta' comp_def)
  then have "distinct (map fst ?w0)" "fst ` set ?w0 = fst ` set ready"
    using assms by (simp_all only: set_map[symmetric])
  then show "distinct (map fst (cohort_width st groups bt tk sig ready))"
    "fst ` set ready \<subseteq> fst ` set (cohort_width st groups bt tk sig ready)"
    using foldl_update_some_keys[of ?w0] by (simp_all add: cohort_width_def Let_def)
qed

lemma parts_members:
  "concat (map cu_members (concat (map (unit_of_part ready) parts)))
     = map (\<lambda>c. the (map_of ready c)) (filter (\<lambda>c. c \<in> fst ` set ready) (concat parts))"
  by (induction parts) (simp_all add: unit_of_part_members)

lemma cohort_units_members:
  assumes "distinct (map fst ready)"
  shows "mset (concat (map cu_members (cohort_units st groups bsz bt tk (sig, ready)))) = mset (map snd ready)"
proof -
  let ?w = "cohort_width st groups bt tk sig ready" and ?F = "\<lambda>c. the (map_of ready c)"
  note W = cohort_width_keys[OF assms, of st groups bt tk sig]
  let ?chains = "filter (\<lambda>c. c \<in> fst ` set ready) (concat (cut_cohort ?w bsz))"
  have sorted: "concat (cut_cohort ?w bsz) = sort (map fst ?w)"
    by (simp add: cut_cohort_def Let_def cut_loop_concat)
  have "distinct ?chains" using W(1) by (simp add: sorted)
  moreover have "set ?chains = fst ` set ready" using W(2) by (auto simp: sorted)
  ultimately have "mset ?chains = mset (map fst ready)"
    using assms by (metis set_eq_iff_mset_eq_distinct set_map)
  then have "mset (map ?F ?chains) = mset (map ?F (map fst ready))" by (metis mset_map)
  also have "map ?F (map fst ready) = map snd ready"
    using assms by (auto simp: map_of_is_SomeI)
  finally show ?thesis by (simp add: cohort_units_def parts_members)
qed

lemma by_template_groups:
  assumes "distinct ks"
  shows "distinct (map fst (by_template ks)) \<and> mset (map snd (entries (by_template ks))) = mset ks
     \<and> (\<forall>(tk, ready) \<in> set (by_template ks). distinct (map fst ready)
          \<and> set ready = (\<lambda>k. (fst k, k)) ` {k \<in> set ks. (snd (snd k), fst (snd k)) = tk})"
proof -
  have bt: "by_template ks = foldl (\<lambda>d k. put_in (snd (snd k), fst (snd k)) (fst k) k d) [] ks"
    unfolding by_template_def by (simp add: case_prod_beta')
  have "distinct (map (\<lambda>k. ((snd (snd k), fst (snd k)), fst k)) ks)"
    using assms by (auto simp: distinct_map inj_on_def prod_eq_iff)
  from put_in_loop[OF this, of "\<lambda>k. k", folded bt]
  have L: "distinct (map fst (by_template ks))" "mset (entries (by_template ks)) = mset (map (\<lambda>k. (fst k, k)) ks)"
    "\<forall>(tk, ready) \<in> set (by_template ks). distinct (map fst ready)
          \<and> set ready = (\<lambda>k. (fst k, k)) ` {k \<in> set ks. (snd (snd k), fst (snd k)) = tk}" by auto
  have "mset (map snd (entries (by_template ks))) = image_mset snd (mset (map (\<lambda>k. (fst k, k)) ks))"
    using L(2) by simp
  then show ?thesis using L by (simp add: image_mset.compositionality comp_def)
qed

lemma by_signature_groups:
  assumes "distinct (map fst ready)"
  shows "mset (entries (by_signature st rnd ready)) = mset ready
     \<and> (\<forall>(sig, rs) \<in> set (by_signature st rnd ready). distinct (map fst rs) \<and> set rs \<subseteq> set ready)"
proof -
  have bs: "by_signature st rnd ready = foldl (\<lambda>d p. put_in (signature st (fst p) rnd) (fst p) (snd p) d) [] ready"
    unfolding by_signature_def by (simp add: case_prod_beta')
  have "distinct (map (\<lambda>p. (signature st (fst p) rnd, fst p)) ready)"
    using assms by (auto simp: distinct_map inj_on_def)
  from put_in_loop[OF this, of snd, folded bs] show ?thesis by auto
qed

lemma concat_map_concat: "concat (map f (concat xss)) = concat (map (\<lambda>xs. concat (map f xs)) xss)"
  by (induction xss) auto

lemma mset_concat_cong:
  assumes "\<And>x. x \<in> set xs \<Longrightarrow> mset (f x) = mset (g x)"
  shows "mset (concat (map f xs)) = mset (concat (map g xs))"
  using assms by (induction xs) auto

lemma template_units_members:
  assumes "distinct (map fst ready)"
  shows "mset (concat (map cu_members
      (concat (map (cohort_units st groups bsz bt tk) (by_signature st (snd tk) ready))))) = mset (map snd ready)"
proof -
  note S = by_signature_groups[OF assms, of st "snd tk"]
  let ?bs = "by_signature st (snd tk) ready"
  have "mset (concat (map cu_members (concat (map (cohort_units st groups bsz bt tk) ?bs))))
      = mset (concat (map (\<lambda>e. map snd (snd e)) ?bs))"
    unfolding concat_map_concat map_map
  proof (rule mset_concat_cong)
    fix e assume "e \<in> set ?bs"
    then have "distinct (map fst (snd e))" using S by (cases e) auto
    from cohort_units_members[OF this, of st groups bsz bt tk "fst e"]
    show "mset (((\<lambda>xs. concat (map cu_members xs)) \<circ> cohort_units st groups bsz bt tk) e) = mset (map snd (snd e))"
      by simp
  qed
  also have "\<dots> = mset (map snd (entries ?bs))" by (simp add: entries_def map_concat comp_def)
  also have "\<dots> = mset (map snd ready)" using S by simp
  finally show ?thesis .
qed

lemma make_units_members:
  assumes "distinct (map fst groups)"
  shows "mset (concat (map cu_members (make_units st groups bsz))) = mset (map fst groups)"
proof -
  let ?bt = "by_template (map fst groups)"
  note T = by_template_groups[OF assms]
  have "mset (concat (map cu_members (make_units st groups bsz))) = mset (concat (map (\<lambda>e. map snd (snd e)) ?bt))"
    unfolding make_units_def Let_def concat_map_concat map_map
  proof (rule mset_concat_cong)
    fix e assume e: "e \<in> set ?bt"
    obtain tk ready where p: "e = (tk, ready)" by (cases e)
    then have "distinct (map fst ready)" using T e by auto
    from template_units_members[OF this, of st groups bsz ?bt tk]
    show "mset (((\<lambda>xs. concat (map cu_members xs)) \<circ>
        (\<lambda>(tk, ready). concat (map (cohort_units st groups bsz ?bt tk) (by_signature st (snd tk) ready)))) e)
        = mset (map snd (snd e))" by (simp add: p)
  qed
  also have "\<dots> = mset (map snd (entries ?bt))" by (simp add: entries_def map_concat comp_def)
  also have "\<dots> = mset (map fst groups)" using T by simp
  finally show ?thesis .
qed

lemma unit_of_part_shape:
  "u \<in> set (unit_of_part ready part) \<Longrightarrow> cu_members u \<noteq> [] \<and> set (cu_members u) \<subseteq> snd ` set ready
     \<and> (cu_complete u \<longrightarrow> set part \<subseteq> fst ` set ready)"
proof -
  assume u: "u \<in> set (unit_of_part ready part)"
  let ?ps = "filter (\<lambda>c. c \<in> fst ` set ready) part"
  have m: "cu_members u = map (\<lambda>c. the (map_of ready c)) ?ps" "?ps \<noteq> []"
    and c: "cu_complete u \<Longrightarrow> length ?ps = length part"
    using u by (auto simp: unit_of_part_def Let_def split: if_splits)
  have "the (map_of ready c) \<in> snd ` set ready" if c: "c \<in> fst ` set ready" for c
  proof -
    obtain v where "map_of ready c = Some v" using c by (metis map_of_eq_None_iff option.exhaust)
    then show ?thesis by (force dest: map_of_SomeD)
  qed
  then have "set (map (\<lambda>c. the (map_of ready c)) ?ps) \<subseteq> snd ` set ready"
    by (simp add: image_subset_iff del: fst_conv)
  then have "set (cu_members u) \<subseteq> snd ` set ready" using m(1) by simp
  moreover have "set part \<subseteq> fst ` set ready" if "cu_complete u"
    using c[OF that] by (metis (mono_tags, lifting) length_filter_less less_irrefl subsetI)
  ultimately show ?thesis using m by simp
qed

text \<open>The members of a unit share their template and round.\<close>

lemma make_units_pure:
  assumes "distinct (map fst groups)" "u \<in> set (make_units st groups bsz)"
  shows "cu_members u \<noteq> [] \<and> (\<forall>k \<in> set (cu_members u). snd k = snd (hd (cu_members u)))"
proof -
  let ?bt = "by_template (map fst groups)"
  obtain tk ready sig rs part where e: "(tk, ready) \<in> set ?bt" "(sig, rs) \<in> set (by_signature st (snd tk) ready)"
    and u: "u \<in> set (unit_of_part rs part)"
    using assms(2) by (force simp: make_units_def Let_def cohort_units_def)
  have r: "distinct (map fst ready)"
    "set ready = (\<lambda>k. (fst k, k)) ` {k \<in> set (map fst groups). (snd (snd k), fst (snd k)) = tk}"
    using bspec[OF conjunct2[OF conjunct2[OF by_template_groups[OF assms(1)]]] e(1)] by simp_all
  have "set rs \<subseteq> set ready"
    using bspec[OF conjunct2[OF by_signature_groups[OF r(1), of st "snd tk"]] e(2)] by simp
  then have "snd ` set rs \<subseteq> {k. (snd (snd k), fst (snd k)) = tk}" unfolding r(2) by auto
  then have "set (cu_members u) \<subseteq> {k. (snd (snd k), fst (snd k)) = tk}"
    using unit_of_part_shape[OF u] by (meson subset_trans)
  also have "\<dots> = {k. snd k = (snd tk, fst tk)}" by (auto simp: prod_eq_iff)
  finally have m: "cu_members u \<noteq> []" "set (cu_members u) \<subseteq> {k. snd k = (snd tk, fst tk)}"
    using unit_of_part_shape[OF u] by simp_all
  have e: "snd k = (snd tk, fst tk)" if "k \<in> set (cu_members u)" for k
    using m(2) that by blast
  show ?thesis using m(1) e e[OF hd_in_set[OF m(1)]] by simp
qed

subsection \<open>What a selection takes\<close>

lemma greatest_of_in: "greatest_of ys x \<in> insert x (set ys)"
  by (induction ys arbitrary: x) (auto simp: max_def split: if_splits)

lemma anchor_unit_in:
  assumes "us \<noteq> []"
  shows "anchor_unit st groups us \<in> set us"
proof -
  have pick: "min_by f (hd pool) (tl pool) \<in> set pool" if "pool \<noteq> []" for f :: "cp_unit \<Rightarrow> 'k::linorder" and pool
    using min_by_in[of f "hd pool" "tl pool"] that by (cases pool) simp_all
  show ?thesis
  proof (cases "overdue st groups us")
    case Nil
    let ?pool = "case filter cu_complete us of [] \<Rightarrow> us | c # cs \<Rightarrow> c # cs"
    have p: "?pool \<noteq> []" "set ?pool \<subseteq> set us" using assms
      by (auto split: list.splits dest: filter_eq_ConsD)
    show ?thesis using pick[OF p(1)] p(2) Nil by (auto simp: anchor_unit_def Let_def)
  next
    case (Cons o1 os)
    let ?top = "greatest_of (map (passed_over groups) os) (passed_over groups o1)"
    let ?pool = "filter (\<lambda>u. passed_over groups u = ?top) (o1 # os)"
    have "?top \<in> passed_over groups ` set (o1 # os)"
      using greatest_of_in[of "map (passed_over groups) os" "passed_over groups o1"] by auto
    then have p: "?pool \<noteq> []" by (auto simp: filter_empty_conv)
    have "set ?pool \<subseteq> set (overdue st groups us)" using Cons by auto
    then have "set ?pool \<subseteq> set us" by (auto simp: overdue_def)
    then show ?thesis using pick[OF p, of "oldest_unit groups"] Cons
      by (auto simp: anchor_unit_def Let_def simp del: filter.simps)
  qed
qed

lemma combinations_sub:
  "c \<in> set (combinations k xs) \<Longrightarrow> set c \<subseteq> set xs \<and> (distinct (map f xs) \<longrightarrow> distinct (map f c))"
proof (induction k xs arbitrary: c rule: combinations.induct)
  case (3 k x xs)
  consider d where "c = x # d" "d \<in> set (combinations k xs)" | "c \<in> set (combinations (Suc k) xs)"
    using "3.prems" by auto
  then show ?case
  proof cases
    case 1
    then show ?thesis using "3.IH"(1)[OF 1(2)] by auto
  next
    case 2
    then show ?thesis using "3.IH"(2)[OF 2] by auto
  qed
qed simp_all

lemma best_combo_from: "snd (best_combo score cs best) = snd best \<or> snd (best_combo score cs best) \<in> set cs"
proof (induction cs arbitrary: best)
  case (Cons c cs)
  show ?case using Cons.IH[of best] Cons.IH[of "(score c, c)"] by auto
qed simp

lemma fill_atoms_keys:
  assumes "distinct (map fst groups)"
  shows "distinct (map at_key (fill_atoms groups u bsz))"
    and "at_key ` set (fill_atoms groups u bsz) \<subseteq> fst ` set groups - set (cu_members u)"
proof -
  define all where "all = map (\<lambda>(r, k). \<lparr>at_rank = r, at_key = k\<rparr>) (enumerate 0 (enqueue_order groups))"
  have k: "map at_key all = enqueue_order groups"
    by (simp add: all_def comp_def case_prod_beta')
  then have "distinct (map at_key all)" using assms by (simp add: enqueue_order_def)
  then show "distinct (map at_key (fill_atoms groups u bsz))"
    by (simp add: fill_atoms_def distinct_map_filter flip: all_def)
  have "set (map at_key all) = fst ` set groups" unfolding k by (simp add: enqueue_order_def)
  then show "at_key ` set (fill_atoms groups u bsz) \<subseteq> fst ` set groups - set (cu_members u)"
    by (auto simp: fill_atoms_def simp flip: all_def)
qed

lemma fill_combos_sub:
  "c \<in> set (fill_combos groups u bsz) \<Longrightarrow> \<exists>k. c \<in> set (combinations k (fill_atoms groups u bsz))"
  by (auto simp: fill_combos_def Let_def simp del: combinations.simps)

lemma cp_fill_keys:
  assumes "distinct (map fst groups)"
  shows "\<exists>ks. cp_fill st u us groups bsz fixed mix = concat (map (group_of groups) ks) \<and> distinct ks
     \<and> set ks \<subseteq> fst ` set groups - set (cu_members u)"
proof -
  let ?b = "best_combo (combo_score st groups u us fixed mix) (fill_combos groups u bsz)
               ((batch_value st groups (cu_members u) 1 fixed mix, 0, 0), [])"
  note A = fill_atoms_keys[OF assms, of u bsz]
  have "set (snd ?b) \<subseteq> set (fill_atoms groups u bsz) \<and> distinct (map at_key (snd ?b))"
  proof (cases "snd ?b = []")
    case False
    then have "snd ?b \<in> set (fill_combos groups u bsz)"
      using best_combo_from[of "combo_score st groups u us fixed mix" "fill_combos groups u bsz"] by fastforce
    then show ?thesis using fill_combos_sub combinations_sub A(1) by metis
  qed simp
  then show ?thesis
    using A(2) by (intro exI[of _ "map at_key (snd ?b)"]) (auto simp: cp_fill_def comp_def)
qed

lemma if_or_ex: "(if c then f k0 else y) = y \<or> (\<exists>k. (if c then f k0 else y) = f k)"
  by (cases c) auto

lemma cp_dispatch_cases:
  fixes groups u
  defines "out \<equiv> concat (map (group_of groups) (cu_members u))"
  shows "cp_dispatch st groups us u n area = map wi_id (take n (if length out < n
        then out @ cp_fill st u us groups n (bm_fixed (cp_model st) area) (bm_mix (cp_model st) area) else out))
     \<or> (\<exists>k. cp_dispatch st groups us u n area = take n (map wi_id (take (max 1 k) out)))"
proof (cases "cp_free_lanes st")
  case None
  then show ?thesis by (simp add: cp_dispatch_def Let_def out_def)
next
  case (Some free)
  show ?thesis unfolding cp_dispatch_def Let_def Some option.case out_def[symmetric]
    by (rule if_or_ex[where f = "\<lambda>k. take n (map wi_id (take (max 1 k) out))"])
qed

lemma cp_select_shape:
  assumes d: "distinct (map wi_id cands)" and ne: "cands \<noteq> []" and s: "cp_select st cands n = Inr ids"
  defines "groups \<equiv> make_groups cands" and "us \<equiv> make_units st (make_groups cands) n"
  defines "u \<equiv> anchor_unit st (make_groups cands) (make_units st (make_groups cands) n)"
  shows "u \<in> set us \<and> (\<exists>area ks m.
       ids = map wi_id (take m (concat (map (group_of groups) (cu_members u @ ks))))
     \<and> distinct (cu_members u @ ks) \<and> set (cu_members u @ ks) \<subseteq> key_of ` set cands
     \<and> m \<le> n \<and> (0 < n \<longrightarrow> 0 < m)
     \<and> (ks = [] \<or> concat (map (group_of groups) ks)
          = cp_fill st u us groups n (bm_fixed (cp_model st) area) (bm_mix (cp_model st) area)))"
proof -
  have dg: "distinct (map fst groups)" and kg: "fst ` set groups = key_of ` set cands"
    using make_groups_keys by (simp_all add: groups_def)
  have M: "mset (concat (map cu_members us)) = mset (map fst groups)"
    using make_units_members[OF dg] by (simp add: us_def groups_def)
  have "us \<noteq> []" using M kg ne by auto
  from anchor_unit_in[OF this] have u: "u \<in> set us" by (simp add: u_def us_def)
  have mem: "distinct (concat (map cu_members us))" "set (concat (map cu_members us)) = key_of ` set cands"
    using M dg kg mset_eq_imp_distinct_iff mset_eq_setD by (metis, metis set_map)
  then have mu: "distinct (cu_members u)" "set (cu_members u) \<subseteq> key_of ` set cands"
    using u by (auto simp: distinct_concat_iff)
  define out where "out = concat (map (group_of groups) (cu_members u))"
  obtain area where area: "ids = cp_dispatch st groups us u n area"
    using s ne by (auto simp: cp_select_def Let_def groups_def u_def us_def split: sum.splits option.splits)
  define fill where "fill = cp_fill st u us groups n (bm_fixed (cp_model st) area) (bm_mix (cp_model st) area)"
  obtain ks where ks: "fill = concat (map (group_of groups) ks)" "distinct ks"
    "set ks \<subseteq> fst ` set groups - set (cu_members u)"
    unfolding fill_def using cp_fill_keys[OF dg] by blast
  consider (whole) "ids = map wi_id (take n (if length out < n then out @ fill else out))"
    | (cut) k where "ids = take n (map wi_id (take (max 1 k) out))"
    using cp_dispatch_cases[of st groups us u n area] unfolding area[symmetric] out_def fill_def by blast
  then show ?thesis
  proof cases
    case whole
    show ?thesis
    proof (cases "length out < n")
      case True
      then show ?thesis using whole u ks mu kg
        by (intro conjI exI[of _ area] exI[of _ ks] exI[of _ n]) (auto simp: out_def fill_def)
    next
      case False
      then show ?thesis using whole u mu
        by (intro conjI exI[of _ area] exI[of _ "[]"] exI[of _ n]) (auto simp: out_def)
    qed
  next
    case cut
    have "ids = map wi_id (take (min n (max 1 k)) out)" using cut by (simp add: take_map)
    then show ?thesis using u mu
      by (intro conjI exI[of _ area] exI[of _ "[]"] exI[of _ "min n (max 1 k)"]) (auto simp: out_def)
  qed
qed

interpretation cohort_pack: scheduling_policy cp_select
proof
  fix cands :: "workflow_item list" and st n ids
  assume d: "distinct (map wi_id cands)"
  show "distinct ids \<and> set ids \<subseteq> wi_id ` set cands \<and> length ids \<le> n" if s: "cp_select st cands n = Inr ids"
  proof (cases "cands = []")
    case True
    then show ?thesis using s by (simp add: cp_select_def)
  next
    case False
    from cp_select_shape[OF d False s] obtain ks m
      where ids: "ids = map wi_id (take m (concat (map (group_of (make_groups cands)) ks)))"
        and ks: "distinct ks" "m \<le> n" by metis
    note G = groups_concat[OF d ks(1)]
    have "distinct ids" unfolding ids by (rule distinct_map_take[OF G(1)])
    moreover have "set ids \<subseteq> wi_id ` set cands" unfolding ids using G(2) by (auto dest: in_set_takeD)
    ultimately show ?thesis using ids ks(2) by simp
  qed
  show "cp_select st cands n \<noteq> Inr []" if ne: "cands \<noteq> []" and n: "0 < n"
  proof
    assume s: "cp_select st cands n = Inr []"
    let ?g = "make_groups cands" and ?us = "make_units st (make_groups cands) n"
    let ?u = "anchor_unit st ?g ?us"
    from cp_select_shape[OF d ne s] obtain ks m where u: "?u \<in> set ?us"
      and e: "map wi_id (take m (concat (map (group_of ?g) (cu_members ?u @ ks)))) = []" "0 < m"
      and k: "set (cu_members ?u @ ks) \<subseteq> key_of ` set cands" using n by metis
    have "cu_members ?u \<noteq> []" using make_units_pure[OF make_groups_keys(1) u] by blast
    then obtain key rest where m: "cu_members ?u = key # rest" by (cases "cu_members ?u") auto
    then have "key \<in> key_of ` set cands" using k by simp
    then obtain x where "x \<in> set cands" "key = key_of x" by auto
    then have "x \<in> set (group_of ?g key)" by (simp add: group_of_make_groups)
    then have "group_of ?g key \<noteq> []" by (metis empty_iff list.set(1))
    then show False using e m by simp
  qed
qed

subsection \<open>The width of a unit\<close>

lemma cohort_width_ready:
  assumes "map_of ready c = Some k"
  shows "dict_get (cohort_width st groups bt tk sig ready) c 0 = length (group_of groups k)"
proof -
  have keep: "map_of (foldl (\<lambda>w c. if P c then AList.update c (V c) w else w) w ms) c = map_of w c"
    if "\<not> P c" for P V ms and w :: "(string, nat) dict"
    using that by (induction ms arbitrary: w) (auto simp: update_conv)
  have "c \<in> fst ` set ready" using assms by (metis domI dom_map_of_conv_image_fst)
  then have "\<not> is_mate st bt tk sig ready c" by (simp add: is_mate_def)
  from keep[of "is_mate st bt tk sig ready", OF this] show ?thesis
    using assms by (simp add: cohort_width_def dict_get_def Let_def map_of_map_snd group_of_def)
qed

lemma unit_width:
  assumes "distinct (map fst ready)" "u \<in> set (cohort_units st groups bsz bt tk (sig, ready))" "2 \<le> length (cu_members u)"
  shows "length (concat (map (group_of groups) (cu_members u))) \<le> bsz"
proof -
  let ?w = "cohort_width st groups bt tk sig ready"
  let ?W = "\<lambda>c. dict_get ?w c 0"
  obtain part where p: "part \<in> set (cut_cohort ?w bsz)" "u \<in> set (unit_of_part ready part)"
    using assms(2) by (auto simp: cohort_units_def)
  let ?ps = "filter (\<lambda>c. c \<in> fst ` set ready) part"
  have m: "cu_members u = map (\<lambda>c. the (map_of ready c)) ?ps"
    using p(2) by (auto simp: unit_of_part_def Let_def split: if_splits)
  have "length (cu_members u) = length ?ps" by (simp only: m length_map)
  also have "\<dots> \<le> length part" by (rule length_filter_le)
  finally have "length part > 1" using assms(3) by linarith
  then have le: "sum_list (map ?W part) \<le> bsz"
    using cut_loop_parts[OF _ _ p(1)[unfolded cut_cohort_def Let_def]] by simp
  have w: "length (group_of groups (the (map_of ready c))) = ?W c" if "c \<in> fst ` set ready" for c
    using that cohort_width_ready by (metis map_of_eq_None_iff option.collapse)
  have "map (\<lambda>c. length (group_of groups (the (map_of ready c)))) ?ps = map ?W ?ps"
    by (rule map_cong) (auto simp del: fst_conv intro: w)
  then have "length (concat (map (group_of groups) (cu_members u))) = sum_list (map ?W ?ps)"
    unfolding m length_concat map_map comp_def by (simp only: map_map comp_def)
  also have "\<dots> \<le> sum_list (map ?W part)"
    by (induction part) auto
  finally show ?thesis using le by simp
qed

text \<open>
  C13. The dispatch units are a partition of the ready rounds: every ready (chain, round, template)
  is a member of exactly one unit, every unit has a member, all its members share one template and
  one round, and a unit of two chains or more never holds more slices than a batch.
\<close>

theorem cohort_units_partition:
  assumes "distinct (map wi_id cands)"
  shows "let groups = make_groups cands; us = make_units st groups n
     in mset (concat (map cu_members us)) = mset (map fst groups)
      \<and> distinct (concat (map cu_members us))
      \<and> set (concat (map cu_members us)) = key_of ` set cands
      \<and> (\<forall>u \<in> set us. cu_members u \<noteq> [] \<and> (\<forall>k \<in> set (cu_members u). snd k = snd (hd (cu_members u)))
          \<and> (2 \<le> length (cu_members u) \<longrightarrow> length (concat (map (group_of groups) (cu_members u))) \<le> n))"
proof -
  let ?g = "make_groups cands" and ?us = "make_units st (make_groups cands) n"
  note K = make_groups_keys[of cands]
  have M: "mset (concat (map cu_members ?us)) = mset (map fst ?g)" by (rule make_units_members[OF K(1)])
  have "distinct (concat (map cu_members ?us))" using M K(1) mset_eq_imp_distinct_iff by blast
  moreover have "set (concat (map cu_members ?us)) = key_of ` set cands"
    using mset_eq_setD[OF M] K(2) by simp
  moreover have "length (concat (map (group_of ?g) (cu_members u))) \<le> n"
    if u: "u \<in> set ?us" "2 \<le> length (cu_members u)" for u
  proof -
    let ?bt = "by_template (map fst ?g)"
    obtain tk ready sig rs where e: "(tk, ready) \<in> set ?bt" "(sig, rs) \<in> set (by_signature st (snd tk) ready)"
      "u \<in> set (cohort_units st ?g n ?bt tk (sig, rs))"
      using u(1) by (force simp: make_units_def Let_def)
    have "distinct (map fst ready)"
      using bspec[OF conjunct2[OF conjunct2[OF by_template_groups[OF K(1)]]] e(1)] by simp
    from bspec[OF conjunct2[OF by_signature_groups[OF this, of st "snd tk"]] e(2)]
    have "distinct (map fst rs)" by simp
    from unit_width[OF this e(3) u(2)] show ?thesis .
  qed
  moreover have "cu_members u \<noteq> [] \<and> (\<forall>k \<in> set (cu_members u). snd k = snd (hd (cu_members u)))"
    if "u \<in> set ?us" for u using make_units_pure[OF K(1) that] .
  ultimately show ?thesis unfolding Let_def using M by blast
qed

theorem cohort_units_partition_witness:
  "set (concat (map cu_members (make_units (cp_init cost_env0 default_cohort_pack_args)
      (make_groups [item0 ''a'' ''u'' 0 (graph0 []), item0 ''b'' ''u'' 1 (graph0 [])]) 2)))
   = {(''a'', 0, ''h''), (''b'', 0, ''h'')}"
proof -
  let ?c = "[item0 ''a'' ''u'' 0 (graph0 []), item0 ''b'' ''u'' 1 (graph0 [])]"
  have d: "distinct (map wi_id ?c)" by (simp add: item0_def)
  have k: "key_of (item0 w u t g) = (w, 0, ''h'')" for w u t g
    by (simp add: key_of_def chain_key_def template_of_def item0_def config0_def slice0_def or_default_def)
  from cohort_units_partition[OF d, of "cp_init cost_env0 default_cohort_pack_args" 2]
  show ?thesis by (simp add: Let_def k)
qed

subsection \<open>Which unit goes\<close>

lemma greatest_of_ge: "y \<in> insert x (set ys) \<Longrightarrow> y \<le> greatest_of ys x"
proof (induction ys arbitrary: x y)
  case (Cons a ys)
  have "max x a \<le> greatest_of ys (max x a)" by (rule Cons.IH) simp
  then have "x \<le> greatest_of ys (max x a)" "a \<le> greatest_of ys (max x a)" by simp_all
  moreover have "y \<le> greatest_of ys (max x a)" if "y \<in> set ys" using Cons.IH that by simp
  ultimately show ?case using Cons.prems by auto
qed simp

lemma greatest_of_greatest:
  "x \<in> set xs \<Longrightarrow> x \<le> greatest_of (tl xs) (hd xs)"
  "xs \<noteq> [] \<Longrightarrow> greatest_of (tl xs) (hd xs) \<in> set xs"
  using greatest_of_ge[of x "hd xs" "tl xs"] greatest_of_in[of "tl xs" "hd xs"] by (cases xs; simp)+

text \<open>The slices of a unit and how often each was passed over: a unit is left behind when its cohort is
  not all there and one of its slices was passed over more often than the patience.\<close>

definition unit_slices :: "cp_groups \<Rightarrow> cp_unit \<Rightarrow> workflow_item list" where
  "unit_slices groups u = concat (map (\<lambda>k. dict_get groups k []) (cu_members u))"

definition left_behind :: "cp_state \<Rightarrow> cp_groups \<Rightarrow> cp_unit \<Rightarrow> bool" where
  "left_behind st groups u =
     (\<not> cu_complete u \<and> (\<exists>it\<in>set (unit_slices groups u). cp_patience st < wi_miss_count it))"

text \<open>No slice of \<open>v\<close> was passed over more often than some slice of \<open>u\<close>.\<close>

definition missed_most :: "cp_groups \<Rightarrow> cp_unit \<Rightarrow> cp_unit \<Rightarrow> bool" where
  "missed_most groups u v =
     (\<forall>x\<in>set (unit_slices groups v). \<exists>y\<in>set (unit_slices groups u). wi_miss_count x \<le> wi_miss_count y)"

lemma waited_slices: "waited groups u =
    (let ms = map wi_miss_count (unit_slices groups u) in greatest_of (tl ms) (hd ms))"
  by (simp add: waited_def unit_slices_def group_of_def Let_def map_concat comp_def)

lemma waited_greatest: "it \<in> set (unit_slices groups u) \<Longrightarrow> wi_miss_count it \<le> waited groups u"
  by (simp add: waited_slices Let_def greatest_of_greatest(1))

lemma waited_attained:
  "unit_slices groups u \<noteq> [] \<Longrightarrow> \<exists>it\<in>set (unit_slices groups u). wi_miss_count it = waited groups u"
  using greatest_of_greatest(2)[of "map wi_miss_count (unit_slices groups u)"]
  by (auto simp: waited_slices Let_def)

lemma waited_missed_most:
  assumes "unit_slices groups u \<noteq> []" "waited groups v \<le> waited groups u"
  shows "missed_most groups u v"
proof -
  obtain y where y: "y \<in> set (unit_slices groups u)" "wi_miss_count y = waited groups u"
    using waited_attained[OF assms(1)] by blast
  have "wi_miss_count x \<le> wi_miss_count y" if "x \<in> set (unit_slices groups v)" for x
    using waited_greatest[OF that] assms(2) y(2) by simp
  then show ?thesis using y(1) unfolding missed_most_def by blast
qed

lemma overdue_left_behind:
  assumes "\<forall>u\<in>set us. unit_slices groups u \<noteq> []"
  shows "set (overdue st groups us) = {u \<in> set us. left_behind st groups u}"
proof -
  have "cp_patience st < waited groups u \<longleftrightarrow> (\<exists>it\<in>set (unit_slices groups u). cp_patience st < wi_miss_count it)"
    if "u \<in> set us" for u
  proof
    assume "cp_patience st < waited groups u"
    then show "\<exists>it\<in>set (unit_slices groups u). cp_patience st < wi_miss_count it"
      using waited_attained[of groups u] assms that by force
  next
    assume "\<exists>it\<in>set (unit_slices groups u). cp_patience st < wi_miss_count it"
    then show "cp_patience st < waited groups u" using waited_greatest by (meson less_le_trans)
  qed
  then show ?thesis by (auto simp: overdue_def left_behind_def)
qed

text \<open>The units a selection makes satisfy the hypothesis of the theorem below.\<close>

lemma make_units_slices:
  assumes "u \<in> set (make_units st (make_groups cands) n)"
  shows "unit_slices (make_groups cands) u \<noteq> []"
proof -
  note K = make_groups_keys[of cands]
  have ne: "cu_members u \<noteq> []" using make_units_pure[OF K(1) assms] by blast
  have "hd (cu_members u) \<in> set (concat (map cu_members (make_units st (make_groups cands) n)))"
    using assms hd_in_set[OF ne] by auto
  then have "hd (cu_members u) \<in> key_of ` set cands"
    unfolding mset_eq_setD[OF make_units_members[OF K(1), of st n]] set_map K(2) .
  then obtain it where it: "it \<in> set cands" "key_of it = hd (cu_members u)" by force
  have "it \<in> set (group_of (make_groups cands) (hd (cu_members u)))"
    using it by (simp add: group_of_make_groups)
  then show ?thesis using ne by (cases "cu_members u") (auto simp: unit_slices_def group_of_def)
qed

lemma anchor_unit_longest:
  assumes "us \<noteq> []"
  shows "let u = anchor_unit st groups us in
     (if overdue st groups us \<noteq> []
      then u \<in> set (overdue st groups us)
         \<and> (\<forall>v\<in>set (overdue st groups us). waited groups v \<le> waited groups u)
      else (cu_complete u \<or> filter cu_complete us = [])
         \<and> (\<forall>v\<in>set (if filter cu_complete us = [] then us else filter cu_complete us).
               waited groups v \<le> waited groups u))"
proof (cases "overdue st groups us")
  case Nil
  define pool where "pool = (if filter cu_complete us = [] then us else filter cu_complete us)"
  have p: "pool \<noteq> []" using assms by (simp add: pool_def)
  define u where "u = anchor_unit st groups us"
  have u: "u = min_by (\<lambda>u. (- int (waited groups u), oldest_unit groups u)) (hd pool) (tl pool)"
    using Nil by (simp add: u_def anchor_unit_def pool_def Let_def split: list.split)
  have "u \<in> set pool" using p min_by_in[of _ "hd pool" "tl pool"] unfolding u by (cases pool) auto
  moreover have "waited groups v \<le> waited groups u" if "v \<in> set pool" for v
  proof -
    have "v \<in> insert (hd pool) (set (tl pool))" using that p by (cases pool) auto
    from min_by_le[OF this, of "\<lambda>u. (- int (waited groups u), oldest_unit groups u)", folded u]
    show ?thesis by auto
  qed
  ultimately show ?thesis using Nil anchor_unit_in[OF assms, of st groups]
    by (auto simp: Let_def list_all_iff pool_def simp flip: u_def split: if_splits)
next
  case (Cons o1 os)
  define top where "top = greatest_of (map (passed_over groups) os) (passed_over groups o1)"
  define pool where "pool = filter (\<lambda>u. passed_over groups u = top) (o1 # os)"
  have "top \<in> passed_over groups ` set (o1 # os)"
    using greatest_of_in[of "map (passed_over groups) os" "passed_over groups o1"] by (auto simp: top_def)
  then have p: "pool \<noteq> []" by (auto simp: pool_def filter_empty_conv)
  define u where "u = anchor_unit st groups us"
  have "u = min_by (oldest_unit groups) (hd pool) (tl pool)"
    using Cons by (simp add: u_def anchor_unit_def pool_def top_def Let_def)
  then have "u \<in> set pool" using p min_by_in[of _ "hd pool" "tl pool"] by (cases pool) auto
  then have u: "u \<in> set (overdue st groups us)" "passed_over groups u = top"
    using Cons unfolding pool_def set_filter by (simp_all del: filter.simps)
  have "waited groups v \<le> waited groups u" if "v \<in> set (overdue st groups us)" for v
  proof -
    have "passed_over groups v \<le> top"
      unfolding top_def using that Cons by (intro greatest_of_ge) auto
    then show ?thesis unfolding u(2)[symmetric] by (auto simp: passed_over_def)
  qed
  then have "\<forall>v\<in>set (overdue st groups us). waited groups v \<le> waited groups u" by blast
  moreover have "overdue st groups us \<noteq> []" using Cons by simp
  ultimately show ?thesis unfolding Let_def u_def[symmetric] using u(1) by simp
qed

text \<open>
  C14. Nothing starves: when the cohort of some unit is not all there and a slice of it was passed over
  more often than the patience, the batch starts from such a unit, and from one of them whose slices
  were passed over most; when there is none, the batch starts from a complete unit if there is one, and
  from the one of these whose slices were passed over most.
\<close>

theorem anchor_unit_patience:
  assumes "us \<noteq> []" "\<forall>u\<in>set us. unit_slices groups u \<noteq> []"
  shows "let u = anchor_unit st groups us in u \<in> set us
     \<and> ((\<exists>v\<in>set us. left_behind st groups v) \<longrightarrow>
          left_behind st groups u \<and> (\<forall>v\<in>set us. left_behind st groups v \<longrightarrow> missed_most groups u v))
     \<and> ((\<forall>v\<in>set us. \<not> left_behind st groups v) \<longrightarrow>
          ((\<exists>v\<in>set us. cu_complete v) \<longrightarrow> cu_complete u)
          \<and> (\<forall>v\<in>set us. (cu_complete u \<longrightarrow> cu_complete v) \<longrightarrow> missed_most groups u v))"
proof -
  define u where "u = anchor_unit st groups us"
  have u: "u \<in> set us" unfolding u_def by (rule anchor_unit_in[OF assms(1)])
  then have slices: "unit_slices groups u \<noteq> []" using assms(2) by blast
  note late = overdue_left_behind[OF assms(2), of st]
  note longest = anchor_unit_longest[OF assms(1), of st groups, unfolded Let_def, folded u_def]
  have "left_behind st groups u \<and> (\<forall>v\<in>set us. left_behind st groups v \<longrightarrow> missed_most groups u v)"
    if "\<exists>v\<in>set us. left_behind st groups v"
  proof -
    have "overdue st groups us \<noteq> []" using late that by force
    then show ?thesis using longest late waited_missed_most[OF slices] by auto
  qed
  moreover have "((\<exists>v\<in>set us. cu_complete v) \<longrightarrow> cu_complete u)
      \<and> (\<forall>v\<in>set us. (cu_complete u \<longrightarrow> cu_complete v) \<longrightarrow> missed_most groups u v)"
    if "\<forall>v\<in>set us. \<not> left_behind st groups v"
  proof -
    have "overdue st groups us = []" using late that by (metis (mono_tags, lifting) empty_Collect_eq set_empty)
    then have pool: "cu_complete u \<or> filter cu_complete us = []"
      "\<forall>v\<in>set (if filter cu_complete us = [] then us else filter cu_complete us). waited groups v \<le> waited groups u"
      using longest by simp_all
    have "waited groups v \<le> waited groups u" if "v \<in> set us" "cu_complete u \<longrightarrow> cu_complete v" for v
    proof -
      have "v \<in> set (if filter cu_complete us = [] then us else filter cu_complete us)"
        using that pool(1) by auto
      then show ?thesis using pool(2) by blast
    qed
    then show ?thesis using pool(1) waited_missed_most[OF slices] by (auto simp: filter_empty_conv)
  qed
  ultimately show ?thesis unfolding Let_def u_def[symmetric] using u by blast
qed

text \<open>A complete unit, an incomplete one passed over ten times and one passed over nine times, with a
  patience of eight: the second goes first, before the complete one.\<close>

definition missed_item :: "string \<Rightarrow> nat \<Rightarrow> workflow_item" where
  "missed_item c n = (item0 c ''u'' 0 (graph0 []))\<lparr>wi_miss_count := n\<rparr>"

definition demo_unit :: "string \<Rightarrow> bool \<Rightarrow> cp_unit" where
  "demo_unit c full = \<lparr>cu_members = [(c, 0, ''h'')], cu_complete = full\<rparr>"

definition demo_groups :: cp_groups where
  "demo_groups = [((''a'', 0, ''h''), [missed_item ''a'' 3]), ((''b'', 0, ''h''), [missed_item ''b'' 10]),
     ((''c'', 0, ''h''), [missed_item ''c'' 9])]"

definition demo_units :: "cp_unit list" where
  "demo_units = [demo_unit ''a'' True, demo_unit ''b'' False, demo_unit ''c'' False]"

theorem anchor_unit_patience_witness:
  "anchor_unit (cp_init cost_env0 default_cohort_pack_args) demo_groups demo_units = demo_unit ''b'' False"
proof -
  let ?st = "cp_init cost_env0 default_cohort_pack_args"
  let ?u = "anchor_unit ?st demo_groups demo_units"
  have slices: "unit_slices demo_groups (demo_unit ''a'' c) = [missed_item ''a'' 3]"
    "unit_slices demo_groups (demo_unit ''b'' c) = [missed_item ''b'' 10]"
    "unit_slices demo_groups (demo_unit ''c'' c) = [missed_item ''c'' 9]" for c
    by (simp_all add: unit_slices_def demo_unit_def demo_groups_def dict_get_def)
  have units: "set demo_units = {demo_unit ''a'' True, demo_unit ''b'' False, demo_unit ''c'' False}"
    by (simp add: demo_units_def)
  have late: "\<not> left_behind ?st demo_groups (demo_unit ''a'' True)"
    "left_behind ?st demo_groups (demo_unit ''b'' False)" "left_behind ?st demo_groups (demo_unit ''c'' False)"
    by (simp_all add: left_behind_def slices)
      (simp_all add: demo_unit_def missed_item_def cp_init_def default_cohort_pack_args_def)
  have most: "\<not> missed_most demo_groups (demo_unit ''c'' False) (demo_unit ''b'' False)"
    by (simp add: missed_most_def slices) (simp add: missed_item_def)
  have "demo_units \<noteq> []" "\<forall>u\<in>set demo_units. unit_slices demo_groups u \<noteq> []"
    by (simp add: demo_units_def) (simp add: units slices)
  from anchor_unit_patience[OF this, of ?st]
  have "?u \<in> set demo_units" "left_behind ?st demo_groups ?u"
    "missed_most demo_groups ?u (demo_unit ''b'' False)"
    using late unfolding Let_def units by blast+
  then show ?thesis using late most unfolding units by (elim insertE) simp_all
qed

subsection \<open>Purity\<close>

lemma round9_mono:
  assumes "x \<le> y"
  shows "round9 x \<le> round9 y"
proof -
  define r where "r y = (let f = \<lfloor>y\<rfloor>; d = y - real_of_int f
      in if d < 1 / 2 \<or> (d = 1 / 2 \<and> even f) then f else f + 1)" for y :: real
  have r: "r a \<le> r b" if "a \<le> b" for a b
  proof (cases "\<lfloor>a\<rfloor> = \<lfloor>b\<rfloor>")
    case True
    then show ?thesis using that by (auto simp: r_def Let_def)
  next
    case False
    then have "\<lfloor>a\<rfloor> + 1 \<le> \<lfloor>b\<rfloor>" using floor_mono[OF that] by linarith
    moreover have "r a \<le> \<lfloor>a\<rfloor> + 1" "\<lfloor>b\<rfloor> \<le> r b" by (auto simp: r_def Let_def)
    ultimately show ?thesis by linarith
  qed
  have e: "round9 z = real_of_int (r (z * 10 ^ 9)) / 10 ^ 9" for z by (simp add: round9_def r_def Let_def)
  have "r (x * 10 ^ 9) \<le> r (y * 10 ^ 9)" using assms by (intro r mult_right_mono) auto
  then show ?thesis unfolding e by (intro divide_right_mono) auto
qed

lemma bm_scale_mono:
  assumes "1 \<le> bm_beta m" "k \<le> l"
  shows "bm_scale m k \<le> bm_scale m l"
  unfolding bm_scale_def using assms by (intro powr_mono2) (auto intro: divide_right_mono)

lemma best_combo_base:
  assumes "\<And>c. c \<in> set cs \<Longrightarrow> \<not> score c < b"
  shows "best_combo score cs (b, []) = (b, [])"
  using assms by (induction cs) auto

lemma cp_fill_empty:
  assumes "1 \<le> bm_beta (cp_model st)"
  shows "cp_fill st u us groups n 0 0 = []"
proof -
  have "\<not> combo_score st groups u us 0 0 c < (batch_value st groups (cu_members u) 1 0 0, 0, 0)" for c
  proof -
    have "batch_value st groups (cu_members u) 1 0 0 \<le> batch_value st groups (cu_members u @ map at_key c) d 0 0" for d
      unfolding batch_value_def bm_per_work_def using assms by (auto intro!: round9_mono bm_scale_mono)
    then show ?thesis by (auto simp: combo_score_def Let_def not_less less_eq_prod_def less_prod_def)
  qed
  then show ?thesis by (simp add: cp_fill_def best_combo_base)
qed

text \<open>
  C15. With no fixed or mixing cost and \<open>beta >= 1\<close>, merging never pays and the batch stays
  template-pure: all the slices it takes share one template and one round.
\<close>

theorem cohort_batch_pure:
  assumes "bm_fixed_seconds (cp_model st) = 0" "bm_mix_seconds (cp_model st) = 0" "1 \<le> bm_beta (cp_model st)"
    and "distinct (map wi_id cands)" "cp_select st cands n = Inr ids"
    and "x \<in> set cands" "y \<in> set cands" "wi_id x \<in> set ids" "wi_id y \<in> set ids"
  shows "template_of x = template_of y \<and> rc_chain_round (wi_config x) = rc_chain_round (wi_config y)"
proof -
  let ?g = "make_groups cands" and ?us = "make_units st (make_groups cands) n"
  let ?u = "anchor_unit st ?g ?us"
  have ne: "cands \<noteq> []" using assms(6) by auto
  obtain area ks m where u: "?u \<in> set ?us"
    and ids: "ids = map wi_id (take m (concat (map (group_of ?g) (cu_members ?u @ ks))))"
    and d: "distinct (cu_members ?u @ ks)"
    and fill: "ks = [] \<or> concat (map (group_of ?g) ks)
        = cp_fill st ?u ?us ?g n (bm_fixed (cp_model st) area) (bm_mix (cp_model st) area)"
    using cp_select_shape[OF assms(4) ne assms(5)] by metis
  have "concat (map (group_of ?g) ks) = []"
    using fill cp_fill_empty[OF assms(3)] assms(1,2) by (auto simp: bm_fixed_def bm_mix_def)
  then have ids: "ids = map wi_id (take m (concat (map (group_of ?g) (cu_members ?u))))"
    using ids by simp
  have dm: "distinct (cu_members ?u)" using d by simp
  have taken: "key_of z \<in> set (cu_members ?u)" if "z \<in> set cands" "wi_id z \<in> set ids" for z
  proof -
    obtain z' where z': "z' \<in> set (concat (map (group_of ?g) (cu_members ?u)))" "wi_id z' = wi_id z"
      using \<open>wi_id z \<in> set ids\<close> unfolding ids by (auto dest: in_set_takeD)
    then have "z' \<in> set cands" "key_of z' \<in> set (cu_members ?u)"
      using groups_concat(2)[OF assms(4) dm] by auto
    then show ?thesis using z'(2) \<open>z \<in> set cands\<close> assms(4) by (metis distinct_map inj_on_eq_iff)
  qed
  have "snd (key_of x) = snd (key_of y)"
    using make_units_pure[OF make_groups_keys(1) u] taken[OF assms(6,8)] taken[OF assms(7,9)] by metis
  then show ?thesis by (simp add: key_of_def)
qed

theorem cohort_batch_pure_witness:
  "template_of (item0 ''a'' ''u'' 0 (graph0 [])) = template_of (item0 ''a'' ''u'' 0 (graph0 []))
   \<and> (\<exists>ids. cp_select (cp_init cost_env0 default_cohort_pack_args) [item0 ''a'' ''u'' 0 (graph0 [])] 1 = Inr ids
        \<and> ''a'' \<in> set ids)"
proof -
  let ?st = "cp_init cost_env0 default_cohort_pack_args" and ?a = "item0 ''a'' ''u'' 0 (graph0 [])"
  have d: "distinct (map wi_id [?a])" by simp
  have g: "make_groups [?a] = [(key_of ?a, [?a])]" by (simp add: make_groups_def push_group_def)
  have e: "estimate_area e ?a = Inr None" for e by (simp add: estimate_area_def item0_def graph0_def)
  obtain ids where s: "cp_select ?st [?a] 1 = Inr ids"
  proof -
    let ?u = "anchor_unit ?st (make_groups [?a]) (make_units ?st (make_groups [?a]) 1)"
    have "mset (concat (map cu_members (make_units ?st (make_groups [?a]) 1))) = {#key_of ?a#}"
      using make_units_members[of "make_groups [?a]" ?st 1] by (simp add: g)
    then have c: "set (concat (map cu_members (make_units ?st (make_groups [?a]) 1))) = {key_of ?a}"
      by (metis set_mset_mset set_mset_single)
    then have "make_units ?st (make_groups [?a]) 1 \<noteq> []" by auto
    from anchor_unit_in[OF this] have u: "?u \<in> set (make_units ?st (make_groups [?a]) 1)" .
    then have "cu_members ?u \<noteq> []" using make_units_pure[OF make_groups_keys(1)] by blast
    then have "hd (cu_members ?u) \<in> set (concat (map cu_members (make_units ?st (make_groups [?a]) 1)))"
      using u hd_in_set unfolding set_concat set_map by blast
    then have "hd (cu_members ?u) = key_of ?a" unfolding c by simp
    then have "hd (group_of (make_groups [?a]) (hd (cu_members ?u))) = ?a"
      by (simp add: g group_of_def dict_get_def)
    then have "cp_select ?st [?a] 1 = Inr (cp_dispatch ?st (make_groups [?a]) (make_units ?st (make_groups [?a]) 1) ?u 1 1)"
      by (simp add: cp_select_def Let_def e)
    then show thesis by (rule that)
  qed
  have "ids \<noteq> []" using cohort_pack.progress[OF d, of 1 ?st] s by auto
  moreover have "set ids \<subseteq> {''a''}" using cohort_pack.chosen[OF d s] by (simp add: item0_def)
  ultimately have a: "''a'' \<in> set ids" by (cases ids) auto
  have p: "bm_fixed_seconds (cp_model ?st) = 0" "bm_mix_seconds (cp_model ?st) = 0" "1 \<le> bm_beta (cp_model ?st)"
    by (simp_all add: cp_init_def default_cohort_pack_args_def)
  have "wi_id ?a \<in> set ids" using a by (simp add: item0_def)
  from cohort_batch_pure[OF p d s _ _ this this] a s show ?thesis by auto
qed

end
