(* ===== verification/Policy_Registry.thy ===== *)
theory Policy_Registry
  imports Cohort_Pack
begin

section \<open>The policy registry\<close>

text \<open>
  \<open>runtime/job_manager/policies/__init__.py\<close>: a policy instance is one constructor per registered
  class, carrying the instance's mutable state. The environment's policy name and custom arguments,
  and the pydantic validation of the custom arguments, are parameters.
\<close>

datatype policy =
    Default_Policy
  | Fifo_Policy
  | Spt_Policy
  | Lpt_Policy
  | Plas_Policy attained
  | Cohort_Pack_Policy cp_state

definition registered :: "string list" where
  "registered = [''default'', ''fifo'', ''spt'', ''lpt'', ''plas'', ''cohort_pack'']"

definition plain_policy :: "string \<Rightarrow> policy" where
  "plain_policy name =
     (if name = ''default'' then Default_Policy
      else if name = ''fifo'' then Fifo_Policy
      else if name = ''spt'' then Spt_Policy
      else if name = ''lpt'' then Lpt_Policy
      else Plas_Policy [])"

record policy_settings =
  pe_policy :: string
  pe_custom_args :: "(string, json) dict"
  pe_validate :: "(string, json) dict \<Rightarrow> cohort_pack_args option"
  pe_cost :: cost_env

definition create_scheduling_policy ::
  "policy_settings \<Rightarrow> string option \<Rightarrow> (string, json) dict option \<Rightarrow> policy result" where
  "create_scheduling_policy env policy_name custom_args =
     (let name = py_lower (py_strip (case policy_name of None \<Rightarrow> pe_policy env | Some p \<Rightarrow> p))
      in if name \<notin> set registered then Inl (ValueError ''Unknown scheduling policy'')
         else
           let args = (case custom_args of None \<Rightarrow> pe_custom_args env | Some a \<Rightarrow> a)
           in if name = ''cohort_pack''
              then (case pe_validate env args of
                      None \<Rightarrow> Inl (ValueError ''invalid custom args'')
                    | Some a \<Rightarrow> Inr (Cohort_Pack_Policy (cp_init (pe_cost env) a)))
              else if args \<noteq> [] then Inl (ValueError ''takes no custom args'')
              else Inr (plain_policy name))"

fun policy_select :: "cost_env \<times> policy \<Rightarrow> workflow_item list \<Rightarrow> nat \<Rightarrow> string list result" where
  "policy_select (env, Default_Policy) cands n = default_select () cands n"
| "policy_select (env, Fifo_Policy) cands n = fifo_select () cands n"
| "policy_select (env, Spt_Policy) cands n = spt_select env cands n"
| "policy_select (env, Lpt_Policy) cands n = lpt_select env cands n"
| "policy_select (env, Plas_Policy att) cands n = plas_select att cands n"
| "policy_select (env, Cohort_Pack_Policy st) cands n = cp_select st cands n"

text \<open>\<open>on_commit\<close> may raise; what it changed before stays.\<close>

fun policy_on_commit :: "cost_env \<Rightarrow> policy \<Rightarrow> workflow_item list \<Rightarrow> py_error option \<times> policy" where
  "policy_on_commit env (Plas_Policy att) its =
     (case plas_on_commit env att its of (e, att') \<Rightarrow> (e, Plas_Policy att'))"
| "policy_on_commit env (Cohort_Pack_Policy st) its = (None, Cohort_Pack_Policy (cp_on_commit st its))"
| "policy_on_commit env pol its = (None, pol)"

fun policy_observe_free_lanes :: "nat option \<Rightarrow> policy \<Rightarrow> policy" where
  "policy_observe_free_lanes n (Cohort_Pack_Policy st) = Cohort_Pack_Policy (observe_free_lanes n st)"
| "policy_observe_free_lanes n pol = pol"

text \<open>Every registered policy keeps the contract of the interface.\<close>

interpretation registry: scheduling_policy policy_select
proof
  fix cands :: "workflow_item list" and st :: "cost_env \<times> policy" and n ids
  assume d: "distinct (map wi_id cands)"
  obtain env pol where st: "st = (env, pol)" by force
  show "distinct ids \<and> set ids \<subseteq> wi_id ` set cands \<and> length ids \<le> n" if "policy_select st cands n = Inr ids"
    using that default.chosen[OF d] fifo.chosen[OF d] spt.chosen[OF d] lpt.chosen[OF d] plas.chosen[OF d]
      cohort_pack.chosen[OF d] by (cases pol) (simp_all add: st)
  show "policy_select st cands n \<noteq> Inr []" if "cands \<noteq> []" "0 < n"
    using default.progress[OF d that] fifo.progress[OF d that] spt.progress[OF d that] lpt.progress[OF d that]
      plas.progress[OF d that] cohort_pack.progress[OF d that] by (cases pol) (simp_all add: st)
qed

text \<open>
  Whatever \<open>create_scheduling_policy\<close> returns keeps the contract of the policy interface: a
  selection is made of distinct candidates, at most a batch of them, and never empty when there are
  candidates. An unknown name, and custom arguments for a policy that takes none, are errors.
\<close>

theorem created_policy_contract:
  assumes "create_scheduling_policy env name args = Inr pol" "distinct (map wi_id cands)"
    and "policy_select (pe_cost env, pol) cands n = Inr ids"
  shows "distinct ids \<and> set ids \<subseteq> wi_id ` set cands \<and> length ids \<le> n \<and> (cands \<noteq> [] \<and> 0 < n \<longrightarrow> ids \<noteq> [])
     \<and> py_lower (py_strip (case name of None \<Rightarrow> pe_policy env | Some p \<Rightarrow> p)) \<in> set registered
     \<and> ((\<exists>st. pol = Cohort_Pack_Policy st) \<or> (case args of None \<Rightarrow> pe_custom_args env | Some a \<Rightarrow> a) = [])"
proof -
  have "ids \<noteq> []" if "cands \<noteq> []" "0 < n" using registry.progress[OF assms(2) that, of "(pe_cost env, pol)"] assms(3) by auto
  moreover have "py_lower (py_strip (case name of None \<Rightarrow> pe_policy env | Some p \<Rightarrow> p)) \<in> set registered
     \<and> ((\<exists>st. pol = Cohort_Pack_Policy st) \<or> (case args of None \<Rightarrow> pe_custom_args env | Some a \<Rightarrow> a) = [])"
    using assms(1) by (auto simp: create_scheduling_policy_def Let_def split: if_splits option.splits)
  ultimately show ?thesis using registry.chosen[OF assms(2,3)] by blast
qed

theorem created_policy_contract_witness:
  "''fifo'' \<in> set registered
   \<and> policy_select (cost_env0, Fifo_Policy) [item0 ''b'' ''u'' 1 (graph0 []), item0 ''a'' ''u'' 0 (graph0 [])] 1 = Inr [''a'']"
proof -
  let ?env = "\<lparr>pe_policy = ''default'', pe_custom_args = [], pe_validate = (\<lambda>_. None), pe_cost = cost_env0\<rparr>"
  let ?c = "[item0 ''b'' ''u'' 1 (graph0 []), item0 ''a'' ''u'' 0 (graph0 [])]"
  have p: "py_lower (py_strip '' FIFO'') = ''fifo''" by code_simp
  have c: "create_scheduling_policy ?env (Some '' FIFO'') None = Inr Fifo_Policy"
    by (simp add: create_scheduling_policy_def p registered_def plain_policy_def Let_def)
  have s: "policy_select (pe_cost ?env, Fifo_Policy) ?c 1 = Inr [''a'']"
    by (simp add: fifo_select_def ranked_select_def fifo_rank_def item0_def)
  have "distinct (map wi_id ?c)" by (simp add: item0_def)
  from created_policy_contract[OF c this s] s show ?thesis by (simp add: p)
qed

end
