(* ===== verification/Job_Manager.thy ===== *)
theory Job_Manager
  imports Policy_Registry
begin

section \<open>The priority job manager\<close>

text \<open>
  \<open>runtime/job_manager/priority_queue.py\<close> (\<open>PriorityJobManager\<close>): per-priority, per-user queues,
  round-robin over partitions and users, starvation avoidance, and the reserve/commit/abort protocol.
  Every operation is one critical section of the manager's lock, so an operation is a function on the
  whole state. A dictionary with one entry per priority is a function of the priority. An item that
  is queued and registered in \<open>_items\<close> is one Python object: an update of its miss count is written
  to both places here. A reservation's identity (\<open>is\<close>) is a serial number. Logging and timing are
  left out.
\<close>

subsection \<open>Partitions\<close>

type_synonym hw_signature = "int option \<times> string option \<times> int option \<times> string option \<times> string option"
type_synonym partition = "string \<times> string option \<times> string option \<times> string \<times> hw_signature \<times> bool option"

definition hardware_signature :: "hardware_requirements option \<Rightarrow> hw_signature" where
  "hardware_signature hw =
     (case hw of
        None \<Rightarrow> (None, None, None, None, None)
      | Some h \<Rightarrow> (hw_cpu h, hw_memory h, hw_gpu h, hw_gpu_memory h, hw_gpu_model h))"

definition hardware_from_signature :: "hw_signature \<Rightarrow> hardware_requirements option" where
  "hardware_from_signature sig =
     (case sig of (cpu, memory, gpu, gpu_memory, gpu_model) \<Rightarrow>
        if sig = (None, None, None, None, None) then None
        else Some \<lparr>hw_cpu = cpu, hw_memory = memory, hw_gpu = gpu, hw_gpu_memory = gpu_memory, hw_gpu_model = gpu_model\<rparr>)"

record jm_config =
  jc_quantum :: "priority \<Rightarrow> int"
  jc_starvation_limit :: int
  jc_default_optimizer :: string
  jc_cpu_group :: nat
  jc_gpu_group :: nat
  jc_dwell_observations :: nat
  jc_dwell_seconds :: real
  jc_capacity_aware :: bool
  jc_meets_hardware :: hw_check
  jc_cost :: cost_env

definition partition_of :: "jm_config \<Rightarrow> workflow_item \<Rightarrow> partition" where
  "partition_of cfg it =
     (rc_principal_id (wi_config it), wi_dispatch_token it, wi_credential_digest it,
      or_default (rc_optimizer_type (wi_config it)) (jc_default_optimizer cfg),
      hardware_signature (rc_hardware (wi_config it)),
      if jc_capacity_aware cfg then Some (wi_requires_gpu it) else None)"

definition partition_hardware :: "partition \<Rightarrow> hardware_requirements option" where
  "partition_hardware p = (case p of (_, _, _, _, sig, _) \<Rightarrow> hardware_from_signature sig)"

definition partition_group_sizes :: "jm_config \<Rightarrow> partition \<Rightarrow> nat \<times> nat" where
  "partition_group_sizes cfg p =
     (case p of (_, _, _, _, _, gpu) \<Rightarrow>
        (jc_cpu_group cfg, if gpu = Some True then jc_gpu_group cfg else 0))"

definition partition_dispatch_count ::
  "jm_config \<Rightarrow> partition \<Rightarrow> free_capacity \<Rightarrow> workflow_item list \<Rightarrow> nat" where
  "partition_dispatch_count cfg p fc cands =
     (let (cpu, gpu) = partition_group_sizes cfg p;
          tts = concat (map (\<lambda>it. task_types_of (wi_graph it)) cands);
          cpu' = (if cpu = 0 \<and> requires_cpu_worker tts then 1 else cpu)
      in dispatch_count fc cpu' gpu (jc_meets_hardware cfg) (partition_hardware p) (required_task_types tts))"

definition partition_eligible :: "jm_config \<Rightarrow> partition \<Rightarrow> free_capacity \<Rightarrow> bool" where
  "partition_eligible cfg p fc =
     (let (cpu, gpu) = partition_group_sizes cfg p
      in if \<not> can_satisfy fc cpu gpu then False
         else if fc_profiles fc = [] then True
         else can_satisfy_hardware fc cpu gpu (jc_meets_hardware cfg) (partition_hardware p))"

subsection \<open>State\<close>

type_synonym user_queues = "(string, workflow_item list) dict"

record reservation_payload =
  rp_selected :: "string list"
  rp_miss_targets :: "string list"
  rp_partition :: "partition option"
  rp_priorities :: "priority list"

record reservation =
  rs_serial :: nat
  rs_selection :: batch_selection
  rs_payload :: reservation_payload

record jm_state =
  jm_queues :: "priority \<Rightarrow> user_queues"
  jm_rr_users :: "priority \<Rightarrow> string list"
  jm_rr_order :: "partition list"
  jm_rr_members :: "partition set"
  jm_items :: "(string, workflow_item) dict"
  jm_not_empty :: bool
  jm_active :: "reservation option"
  jm_serial :: nat
  jm_since :: "(partition, real) dict"
  jm_count :: "(partition, nat) dict"
  jm_policy :: policy

definition jm_init :: "policy \<Rightarrow> jm_state" where
  "jm_init pol =
     \<lparr>jm_queues = (\<lambda>_. []), jm_rr_users = (\<lambda>_. []), jm_rr_order = [], jm_rr_members = {}, jm_items = [],
      jm_not_empty = False, jm_active = None, jm_serial = 0, jm_since = [], jm_count = [], jm_policy = pol\<rparr>"

definition queue_items :: "user_queues \<Rightarrow> workflow_item list" where
  "queue_items q = concat (map snd q)"

text \<open>The queued items in the order the code walks them.\<close>

definition all_items :: "jm_state \<Rightarrow> workflow_item list" where
  "all_items s = concat (map (\<lambda>p. queue_items (jm_queues s p)) priorities)"

definition priority_queue_size :: "jm_state \<Rightarrow> priority \<Rightarrow> nat" where
  "priority_queue_size s p = length (queue_items (jm_queues s p))"

definition has_work :: "jm_state \<Rightarrow> bool" where
  "has_work s = (\<exists>p \<in> set priorities. 0 < priority_queue_size s p)"

definition pending_stats :: "jm_state \<Rightarrow> nat \<times> real option" where
  "pending_stats s =
     (length (all_items s),
      foldl (\<lambda>m it. case m of None \<Rightarrow> Some (wi_enqueued_at it)
               | Some t \<Rightarrow> if wi_enqueued_at it < t then Some (wi_enqueued_at it) else Some t) None (all_items s))"

definition get_workflow :: "jm_state \<Rightarrow> string \<Rightarrow> workflow_item result" where
  "get_workflow s wid = (case map_of (jm_items s) wid of None \<Rightarrow> Inl (KeyError wid) | Some it \<Rightarrow> Inr it)"

subsection \<open>Enqueue\<close>

text \<open>
  The items of a job, one per runtime graph, with the ids \<open>unique_id()\<close> returns and the current time
  as parameters; a missing profile graph or slice is the \<open>KeyError\<close> of the subscript.
\<close>

fun items_of_job ::
  "job \<Rightarrow> real \<Rightarrow> (string, runtime_graph) dict \<Rightarrow> string list \<Rightarrow> workflow_item list result" where
  "items_of_job j now [] ids = Inr []"
| "items_of_job j now ((name, g) # gs) ids =
     (case (map_of (jb_profile_graphs j) name, map_of (jb_slices j) name) of
        (Some pg, Some sl) \<Rightarrow>
          (case items_of_job j now gs (tl ids) of
             Inl e \<Rightarrow> Inl e
           | Inr its \<Rightarrow>
               Inr (\<lparr>wi_id = hd ids, wi_request_id = jb_request_id j, wi_graph_name = name, wi_slice = sl,
                     wi_graph = g, wi_profile_graph = pg, wi_config = jb_config j, wi_enqueued_at = now,
                     wi_dispatch_token = jb_dispatch_token j, wi_credential_digest = jb_credential_digest j,
                     wi_miss_count = 0,
                     wi_requires_gpu = (case map_of (jb_requires_gpu j) name of None \<Rightarrow> False | Some b \<Rightarrow> b)\<rparr> # its))
      | _ \<Rightarrow> Inl (KeyError name))"

definition enqueue_item :: "jm_config \<Rightarrow> workflow_item \<Rightarrow> jm_state \<Rightarrow> jm_state" where
  "enqueue_item cfg it s =
     (let pr = rc_priority (wi_config it);
          uq = jm_queues s pr;
          u = user_of it;
          p = partition_of cfg it;
          s1 = s\<lparr>jm_queues := (jm_queues s)(pr := push_group u it uq),
                 jm_rr_users := (if u \<in> fst ` set uq then jm_rr_users s
                                 else (jm_rr_users s)(pr := jm_rr_users s pr @ [u])),
                 jm_items := AList.update (wi_id it) it (jm_items s)\<rparr>
      in if p \<in> jm_rr_members s1 then s1
         else s1\<lparr>jm_rr_members := insert p (jm_rr_members s1), jm_rr_order := jm_rr_order s1 @ [p]\<rparr>)"

definition enqueue ::
  "jm_config \<Rightarrow> job \<Rightarrow> real \<Rightarrow> string list \<Rightarrow> jm_state \<Rightarrow> workflow_item list result \<times> jm_state" where
  "enqueue cfg j now ids s =
     (case items_of_job j now (jb_graphs j) ids of
        Inl e \<Rightarrow> (Inl e, s)
      | Inr its \<Rightarrow> (Inr its, (foldl (\<lambda>s it. enqueue_item cfg it s) s its)\<lparr>jm_not_empty := True\<rparr>))"

subsection \<open>Removing items\<close>

definition finalize_workflows :: "string list \<Rightarrow> jm_state \<Rightarrow> jm_state" where
  "finalize_workflows wids s = s\<lparr>jm_items := filter (\<lambda>(w, _). w \<notin> set wids) (jm_items s)\<rparr>"

text \<open>\<open>_prune_empty_user_queues_locked\<close>.\<close>

definition prune :: "priority \<Rightarrow> jm_state \<Rightarrow> jm_state" where
  "prune p s =
     (let uq = filter (\<lambda>(_, q). q \<noteq> []) (jm_queues s p)
      in s\<lparr>jm_queues := (jm_queues s)(p := uq),
           jm_rr_users := (jm_rr_users s)(p := filter (\<lambda>u. u \<in> fst ` set uq) (jm_rr_users s p))\<rparr>)"

definition drop_ids :: "string set \<Rightarrow> user_queues \<Rightarrow> user_queues" where
  "drop_ids W uq =
     filter (\<lambda>(_, q). q \<noteq> []) (map (\<lambda>(u, q). (u, filter (\<lambda>it. wi_id it \<notin> W) q)) uq)"

definition drop_from_priority :: "string set \<Rightarrow> priority \<Rightarrow> jm_state \<Rightarrow> jm_state" where
  "drop_from_priority W p s =
     (if jm_queues s p = [] then s
      else prune p (s\<lparr>jm_queues := (jm_queues s)(p := drop_ids W (jm_queues s p))\<rparr>))"

definition drop_from_queues :: "string set \<Rightarrow> jm_state \<Rightarrow> jm_state" where
  "drop_from_queues W s = foldl (\<lambda>s p. drop_from_priority W p s) s priorities"

definition drop_stale_partitions :: "jm_config \<Rightarrow> jm_state \<Rightarrow> jm_state" where
  "drop_stale_partitions cfg s =
     (let stale = jm_rr_members s - partition_of cfg ` set (all_items s)
      in if stale = {} then s
         else s\<lparr>jm_rr_members := jm_rr_members s - stale,
                jm_rr_order := filter (\<lambda>p. p \<notin> stale) (jm_rr_order s)\<rparr>)"

definition clear_if_empty :: "jm_state \<Rightarrow> jm_state" where
  "clear_if_empty s = (if has_work s then s else s\<lparr>jm_not_empty := False\<rparr>)"

definition remove_workflows :: "jm_config \<Rightarrow> string list \<Rightarrow> jm_state \<Rightarrow> jm_state" where
  "remove_workflows cfg wids s =
     (if wids = [] then s
      else clear_if_empty (drop_stale_partitions cfg
             (finalize_workflows wids (drop_from_queues (set wids) s))))"

subsection \<open>Permanently unsatisfiable partitions\<close>

definition present_partitions :: "jm_config \<Rightarrow> jm_state \<Rightarrow> partition list" where
  "present_partitions cfg s = remdups (map (partition_of cfg) (all_items s))"

definition observe_partition ::
  "jm_config \<Rightarrow> free_capacity \<Rightarrow> real \<Rightarrow> partition \<Rightarrow> jm_state \<Rightarrow> jm_state" where
  "observe_partition cfg fc now p s =
     (if partition_eligible cfg p fc
      then s\<lparr>jm_since := AList.delete p (jm_since s), jm_count := AList.delete p (jm_count s)\<rparr>
      else s\<lparr>jm_since := (if p \<in> fst ` set (jm_since s) then jm_since s else AList.update p now (jm_since s)),
             jm_count := AList.update p (dict_get (jm_count s) p 0 + 1) (jm_count s)\<rparr>)"

definition doomed :: "jm_config \<Rightarrow> real \<Rightarrow> jm_state \<Rightarrow> partition \<Rightarrow> bool" where
  "doomed cfg now s p =
     (case map_of (jm_since s) p of
        None \<Rightarrow> False
      | Some since \<Rightarrow> max 0 (jc_dwell_seconds cfg) \<le> now - since
          \<and> max 1 (jc_dwell_observations cfg) \<le> dict_get (jm_count s) p 0)"

definition permanently_unsatisfiable ::
  "jm_config \<Rightarrow> free_capacity \<Rightarrow> real \<Rightarrow> jm_state \<Rightarrow> workflow_item list \<times> jm_state" where
  "permanently_unsatisfiable cfg whole now s =
     (let present = present_partitions cfg s;
          s1 = s\<lparr>jm_since := filter (\<lambda>(p, _). p \<in> set present) (jm_since s),
                 jm_count := filter (\<lambda>(p, _). p \<in> set present) (jm_count s)\<rparr>;
          s2 = foldl (\<lambda>s p. observe_partition cfg whole now p s) s1 present
      in (filter (\<lambda>it. doomed cfg now s2 (partition_of cfg it)) (all_items s2), s2))"

subsection \<open>Round robin\<close>

text \<open>\<open>_pick_partition_round_robin_locked\<close>: heads that are not present are popped for good.\<close>

definition pick_partition :: "partition list \<Rightarrow> jm_state \<Rightarrow> partition option \<times> jm_state" where
  "pick_partition present s =
     (let popped = takeWhile (\<lambda>p. p \<notin> set present) (jm_rr_order s);
          order = dropWhile (\<lambda>p. p \<notin> set present) (jm_rr_order s)
      in (case order of [] \<Rightarrow> None | p # _ \<Rightarrow> Some p,
          s\<lparr>jm_rr_order := order, jm_rr_members := jm_rr_members s - set popped\<rparr>))"

definition opt_str :: "('a \<Rightarrow> string) \<Rightarrow> 'a option \<Rightarrow> string" where
  "opt_str f x = (case x of None \<Rightarrow> [] | Some v \<Rightarrow> f v)"

definition reseed_key :: "partition \<Rightarrow> string \<times> string \<times> string \<times> string \<times> string list \<times> bool" where
  "reseed_key p =
     (case p of (princ, token, digest, opt, (cpu, memory, gpu, gpu_memory, gpu_model), needs_gpu) \<Rightarrow>
        (princ, opt_str id token, opt_str id digest, opt,
         [opt_str int_str cpu, opt_str id memory, opt_str int_str gpu, opt_str id gpu_memory, opt_str id gpu_model],
         needs_gpu = Some True))"

definition add_partition :: "partition \<Rightarrow> jm_state \<Rightarrow> jm_state" where
  "add_partition p s =
     (if p \<in> jm_rr_members s then s
      else s\<lparr>jm_rr_members := insert p (jm_rr_members s), jm_rr_order := jm_rr_order s @ [p]\<rparr>)"

definition reseed :: "partition list \<Rightarrow> jm_state \<Rightarrow> jm_state" where
  "reseed present s = foldl (\<lambda>s p. add_partition p s) s (sort_key reseed_key present)"

definition advance_partition :: "partition \<Rightarrow> jm_state \<Rightarrow> jm_state" where
  "advance_partition p s =
     (case jm_rr_order s of
        [] \<Rightarrow> s
      | q # qs \<Rightarrow> if q = p then s\<lparr>jm_rr_order := qs @ [q]\<rparr> else s)"

definition advance_user :: "priority \<Rightarrow> jm_state \<Rightarrow> jm_state" where
  "advance_user p s =
     (if 1 < length (jm_rr_users s p)
      then s\<lparr>jm_rr_users := (jm_rr_users s)(p := rotate1 (jm_rr_users s p))\<rparr> else s)"

subsection \<open>The candidate pool\<close>

definition matches :: "jm_config \<Rightarrow> partition \<Rightarrow> workflow_item \<Rightarrow> bool" where
  "matches cfg p it =
     (case p of (princ, token, digest, opt, sig, gpu) \<Rightarrow>
        rc_principal_id (wi_config it) = princ \<and> wi_dispatch_token it = token
      \<and> wi_credential_digest it = digest
      \<and> or_default (rc_optimizer_type (wi_config it)) (jc_default_optimizer cfg) = opt
      \<and> hardware_signature (rc_hardware (wi_config it)) = sig
      \<and> (gpu = None \<or> gpu = Some (wi_requires_gpu it)))"

text \<open>
  One \<open>for\<close> pass over the users: each contributes its next item; the list per user is what is left
  of it, so an offset is the number of items already taken.
\<close>

fun rr_pass ::
  "nat \<Rightarrow> workflow_item list \<Rightarrow> workflow_item list list \<Rightarrow> workflow_item list \<times> workflow_item list list" where
  "rr_pass limit acc [] = (acc, [])"
| "rr_pass limit acc ([] # qs) = (case rr_pass limit acc qs of (a, r) \<Rightarrow> (a, [] # r))"
| "rr_pass limit acc ((x # xs) # qs) =
     (if limit \<le> length acc + 1 then (acc @ [x], xs # qs)
      else case rr_pass limit (acc @ [x]) qs of (a, r) \<Rightarrow> (a, xs # r))"

lemma rr_pass_grows:
  "rr_pass limit acc qs = (a, r) \<Longrightarrow> length a + length (concat r) = length acc + length (concat qs)
     \<and> length acc \<le> length a"
  by (induction limit acc qs arbitrary: a r rule: rr_pass.induct) (force split: if_splits prod.splits)+

function rr_loop :: "nat \<Rightarrow> workflow_item list \<Rightarrow> workflow_item list list \<Rightarrow> workflow_item list" where
  "rr_loop limit acc qs =
     (if limit \<le> length acc then acc
      else case rr_pass limit acc qs of
          (a, r) \<Rightarrow> if length a = length acc then a else rr_loop limit a r)"
  by pat_completeness auto
termination
proof (relation "measure (\<lambda>(_, _, qs). length (concat qs))")
  fix limit acc qs a r
  assume "(a, r) = rr_pass limit acc qs" and n: "length a \<noteq> length acc"
  then have "rr_pass limit acc qs = (a, r)" by simp
  from rr_pass_grows[OF this] n have "length (concat r) < length (concat qs)" by linarith
  then show "((limit, a, r), (limit, acc, qs)) \<in> measure (\<lambda>(_, _, qs). length (concat qs))" by simp
qed simp

declare rr_loop.simps [simp del]

definition peek ::
  "jm_config \<Rightarrow> priority \<Rightarrow> nat \<Rightarrow> partition \<Rightarrow> jm_state \<Rightarrow> workflow_item list \<times> bool \<times> jm_state" where
  "peek cfg pr limit p s0 =
     (if limit = 0 then ([], False, s0)
      else
        let s = prune pr s0;
            order = jm_rr_users s pr;
            mine = (\<lambda>u. filter (matches cfg p) (dict_get (jm_queues s pr) u []));
            lists = filter (\<lambda>q. q \<noteq> []) (map mine order)
        in if jm_queues s pr = [] \<or> order = [] \<or> lists = [] then ([], False, s)
           else (rr_loop limit [] lists, 1 < length order, s))"

fun build_pool ::
  "jm_config \<Rightarrow> partition \<Rightarrow> priority list \<Rightarrow> jm_state \<Rightarrow> workflow_item list \<times> priority list \<times> jm_state" where
  "build_pool cfg p [] s = ([], [], s)"
| "build_pool cfg p (pr # prs) s =
     (case peek cfg pr (nat (jc_quantum cfg pr)) p s of
        (picked, adv, s1) \<Rightarrow>
          (case build_pool cfg p prs s1 of
             (cands, advs, s2) \<Rightarrow> (picked @ cands, (if adv then [pr] else []) @ advs, s2)))"

subsection \<open>Selection\<close>

definition starved :: "jm_config \<Rightarrow> workflow_item \<Rightarrow> bool" where
  "starved cfg it = (jc_starvation_limit cfg \<le> int (wi_miss_count it))"

definition starved_ids :: "jm_config \<Rightarrow> workflow_item list \<Rightarrow> string list" where
  "starved_ids cfg cands = map wi_id (sort_key wi_enqueued_at (filter (starved cfg) cands))"

fun append_while :: "nat \<Rightarrow> string list \<Rightarrow> string list \<Rightarrow> string list" where
  "append_while n acc [] = acc"
| "append_while n acc (w # ws) =
     append_while n (if w \<notin> set acc \<and> length acc < n then acc @ [w] else acc) ws"

definition apply_starvation_policy ::
  "jm_config \<Rightarrow> workflow_item list \<Rightarrow> string list \<Rightarrow> nat \<Rightarrow> string list" where
  "apply_starvation_policy cfg cands base n =
     (if filter (starved cfg) cands = [] then take n base
      else
        let sel = starved_ids cfg cands
        in if n \<le> length sel then take n sel
           else append_while n (append_while n sel base) (map wi_id cands))"

definition select_ids ::
  "jm_config \<Rightarrow> policy \<Rightarrow> workflow_item list \<Rightarrow> nat \<Rightarrow> string list result" where
  "select_ids cfg pol cands n =
     (if filter (starved cfg) cands \<noteq> []
      then Inr (apply_starvation_policy cfg cands
             (select_affinity_batch_ids default_weights (graphs_of cands) (enqueued_of cands) n (starved_ids cfg cands)) n)
      else policy_select (jc_cost cfg, pol) cands n)"

fun lookup_items :: "workflow_item list \<Rightarrow> string list \<Rightarrow> workflow_item list result" where
  "lookup_items cands [] = Inr []"
| "lookup_items cands (w # ws) =
     (case filter (\<lambda>it. wi_id it = w) cands of
        [] \<Rightarrow> Inl (KeyError w)
      | its \<Rightarrow> (case lookup_items cands ws of Inl e \<Rightarrow> Inl e | Inr xs \<Rightarrow> Inr (last its # xs)))"

definition batch_of :: "workflow_item list \<Rightarrow> batch_selection result" where
  "batch_of its =
     (case its of
        [] \<Rightarrow> Inl IndexError
      | it # _ \<Rightarrow>
          Inr \<lparr>bs_workflows = its,
               bs_graphs = foldl (\<lambda>d x. AList.update (wi_id x) (wi_graph x) d) [] its,
               bs_profile_graphs = foldl (\<lambda>d x. AList.update (wi_id x) (wi_profile_graph x) d) [] its,
               bs_config = wi_config it\<rparr>)"

definition choose_anchor ::
  "jm_config \<Rightarrow> partition list \<Rightarrow> workflow_item list \<Rightarrow> jm_state
    \<Rightarrow> partition \<times> partition option \<times> jm_state" where
  "choose_anchor cfg present starved_items s =
     (case starved_items of
        it # _ \<Rightarrow> (partition_of cfg it, None, s)
      | [] \<Rightarrow>
          (case pick_partition present s of
             (Some p, s1) \<Rightarrow> (p, Some p, s1)
           | (None, s1) \<Rightarrow>
               (case pick_partition present (reseed present s1) of
                  (Some p, s2) \<Rightarrow> (p, Some p, s2)
                | (None, s2) \<Rightarrow> (hd present, Some (hd present), s2))))"

definition reserve_batch ::
  "jm_config \<Rightarrow> int \<Rightarrow> free_capacity option \<Rightarrow> jm_state \<Rightarrow> reservation option result \<times> jm_state" where
  "reserve_batch cfg batch_size capacity s =
     (let n = (if batch_size \<le> 0 then 1 else nat batch_size);
          ok = (\<lambda>p. case capacity of None \<Rightarrow> True | Some fc \<Rightarrow> partition_eligible cfg p fc);
          present = filter ok (present_partitions cfg s);
          starved_items = filter (\<lambda>it. starved cfg it \<and> ok (partition_of cfg it)) (all_items s)
      in if jm_active s \<noteq> None then (Inl (RuntimeError ''outstanding reservation''), s)
         else if present = [] then (Inr None, s\<lparr>jm_not_empty := False\<rparr>)
         else
           case choose_anchor cfg present starved_items s of
             (anchor, adv, s1) \<Rightarrow>
               (case build_pool cfg anchor priorities s1 of
                  (cands, prs, s2) \<Rightarrow>
                    if cands = [] then (Inr None, s2\<lparr>jm_not_empty := False\<rparr>)
                    else
                      let pol = policy_observe_free_lanes
                            (case capacity of None \<Rightarrow> None
                             | Some fc \<Rightarrow> Some (partition_dispatch_count cfg anchor fc cands)) (jm_policy s2);
                          s3 = s2\<lparr>jm_policy := pol\<rparr>
                      in case select_ids cfg pol cands n of
                           Inl e \<Rightarrow> (Inl e, s3)
                         | Inr ids \<Rightarrow>
                             (case lookup_items cands ids of
                                Inl e \<Rightarrow> (Inl e, s3)
                              | Inr its \<Rightarrow>
                                  (case batch_of its of
                                     Inl e \<Rightarrow> (Inl e, s3)
                                   | Inr b \<Rightarrow>
                                       let r = \<lparr>rs_serial = jm_serial s3, rs_selection = b,
                                             rs_payload = \<lparr>rp_selected = ids,
                                               rp_miss_targets = filter (\<lambda>w. w \<notin> set ids) (map wi_id cands),
                                               rp_partition = adv, rp_priorities = prs\<rparr>\<rparr>
                                       in (Inr (Some r), s3\<lparr>jm_active := Some r, jm_serial := jm_serial s3 + 1\<rparr>)))))"

subsection \<open>Commit and abort\<close>

definition miss :: "string \<Rightarrow> workflow_item \<Rightarrow> workflow_item" where
  "miss wid it = (if wi_id it = wid then it\<lparr>wi_miss_count := wi_miss_count it + 1\<rparr> else it)"

definition bump_miss :: "string \<Rightarrow> jm_state \<Rightarrow> jm_state" where
  "bump_miss wid s =
     (case map_of (jm_items s) wid of
        None \<Rightarrow> s
      | Some it \<Rightarrow>
          s\<lparr>jm_items := AList.update wid (it\<lparr>wi_miss_count := wi_miss_count it + 1\<rparr>) (jm_items s),
            jm_queues := (\<lambda>p. map (\<lambda>(u, q). (u, map (miss wid) q)) (jm_queues s p))\<rparr>)"

definition is_active :: "reservation \<Rightarrow> jm_state \<Rightarrow> bool" where
  "is_active r s = (case jm_active s of None \<Rightarrow> False | Some a \<Rightarrow> rs_serial a = rs_serial r)"

definition commit_reservation :: "jm_config \<Rightarrow> reservation \<Rightarrow> jm_state \<Rightarrow> py_error option \<times> jm_state" where
  "commit_reservation cfg r s =
     (if \<not> is_active r s then (Some (RuntimeError ''reservation is not the active one''), s)
      else
        case policy_on_commit (jc_cost cfg) (jm_policy s) (bs_workflows (rs_selection r)) of
          (Some e, pol) \<Rightarrow> (Some e, s\<lparr>jm_policy := pol\<rparr>)
        | (None, pol) \<Rightarrow>
            let pl = rs_payload r;
                s1 = foldl (\<lambda>s w. bump_miss w s) (s\<lparr>jm_policy := pol\<rparr>) (rp_miss_targets pl);
                s2 = drop_stale_partitions cfg (drop_from_queues (set (rp_selected pl)) s1);
                s3 = (case rp_partition pl of None \<Rightarrow> s2 | Some p \<Rightarrow> advance_partition p s2);
                s4 = foldl (\<lambda>s p. advance_user p s) s3 (rp_priorities pl)
            in (None, (clear_if_empty s4)\<lparr>jm_active := None\<rparr>))"

definition abort_reservation :: "reservation \<Rightarrow> jm_state \<Rightarrow> py_error option \<times> jm_state" where
  "abort_reservation r s =
     (if \<not> is_active r s then (Some (RuntimeError ''reservation is not the active one''), s)
      else (None, s\<lparr>jm_active := None\<rparr>))"

end
