(* ===== verification/Server_Batch.thy ===== *)
theory Server_Batch
  imports Server_Process Server_Answers Job_Manager
begin

section \<open>Running a batch\<close>

text \<open>
  \<open>_run_batch\<close>, \<open>_run_batch_inner\<close>, \<open>_split_batch_by_request\<close>, \<open>_fail_unrecorded_workflows\<close>,
  \<open>_cleanup_execution_tracking\<close> and \<open>release_request_workflows\<close> of \<open>runtime/server.py\<close>: the runtime nodes
  of the requests move from pending to processing and to processed, the batch is processed and its
  results are recorded, a failure of the runtime service in a batch of several requests makes
  every request run again alone, and the workers are released and the workflows forgotten at the end.

  The parameters of a run are its environment (\<open>run_env\<close>) and fresh ids. A raised error leaves with the
  world as it is at that point.
\<close>

record exec_context =
  xc_batch_id :: string
  xc_requests :: "string list"
  xc_workflows :: "string list"

record world =
  wd_table :: request_table
  wd_busy :: "string set"
  wd_jm :: jm_state
  wd_cache :: plan_cache
  wd_contexts :: "(string, exec_context) dict"
  wd_executions :: "(string, string set) dict"
  wd_history :: "(string, string set) dict"
  wd_unreleased :: "(string, string set) dict"

definition map_requests ::
  "((string, request_state) dict \<Rightarrow> (string, request_state) dict) \<Rightarrow> world \<Rightarrow> world" where
  "map_requests f wd = wd\<lparr>wd_table := (wd_table wd)\<lparr>rt_requests := f (rt_requests (wd_table wd))\<rparr>\<rparr>"

subsection \<open>The nodes of a batch\<close>

text \<open>The nodes of the active workflows go from pending to processing.\<close>

fun begin_nodes ::
  "string \<Rightarrow> (string \<times> int) list \<Rightarrow> (string, request_state) dict \<Rightarrow> py_error option \<times> (string, request_state) dict" where
  "begin_nodes bid [] rs = (None, rs)"
| "begin_nodes bid ((r, n) # rest) rs =
     (case map_of rs r of
        None \<Rightarrow> begin_nodes bid rest rs
      | Some st \<Rightarrow>
          if rq_pending_raw st < n then (Some (RuntimeError ''Pending runtime nodes underflow''), rs)
          else begin_nodes bid rest (AList.update r
                 (st\<lparr>rq_pending_raw := rq_pending_raw st - n, rq_processing_raw := rq_processing_raw st + n,
                     rq_batch_counts := AList.update bid (n, 0) (rq_batch_counts st)\<rparr>) rs))"

definition hand_back :: "int \<Rightarrow> int \<Rightarrow> request_state \<Rightarrow> request_state" where
  "hand_back raw opt st = st\<lparr>rq_processing_raw := rq_processing_raw st - raw, rq_pending_raw := rq_pending_raw st + raw,
     rq_processing_opt := rq_processing_opt st - opt\<rparr>"

definition finish_raw :: "int \<Rightarrow> request_state \<Rightarrow> py_error option \<times> request_state" where
  "finish_raw raw st =
     (if raw = 0 then (None, st)
      else if rq_processing_raw st < raw then (Some (RuntimeError ''Processing runtime raw underflow''), st)
      else (None, st\<lparr>rq_processing_raw := rq_processing_raw st - raw, rq_processed_raw := rq_processed_raw st + raw\<rparr>))"

definition finish_opt :: "int \<Rightarrow> request_state \<Rightarrow> py_error option \<times> request_state" where
  "finish_opt opt st =
     (if opt = 0 then (None, st)
      else if rq_processing_opt st < opt then (Some (RuntimeError ''Processing runtime optimized underflow''), st)
      else (None, st\<lparr>rq_processing_opt := rq_processing_opt st - opt, rq_processed_opt := rq_processed_opt st + opt\<rparr>))"

text \<open>
  One request at the end of the batch: its counts are popped, and either handed back for the re-run
  or moved to processed.
\<close>

definition end_request :: "bool \<Rightarrow> string \<Rightarrow> request_state \<Rightarrow> py_error option \<times> request_state" where
  "end_request retry bid st =
     (case map_of (rq_batch_counts st) bid of
        None \<Rightarrow> (None, st)
      | Some (raw, opt) \<Rightarrow>
          (let st0 = st\<lparr>rq_batch_counts := AList.delete bid (rq_batch_counts st)\<rparr>
           in if retry then (None, hand_back raw opt st0)
              else case finish_raw raw st0 of
                  (Some e, st1) \<Rightarrow> (Some e, st1)
                | (None, st1) \<Rightarrow> finish_opt opt st1))"

fun end_nodes ::
  "bool \<Rightarrow> string \<Rightarrow> string list \<Rightarrow> (string, request_state) dict \<Rightarrow> py_error option \<times> (string, request_state) dict" where
  "end_nodes retry bid [] rs = (None, rs)"
| "end_nodes retry bid (r # rest) rs =
     (case map_of rs r of
        None \<Rightarrow> end_nodes retry bid rest rs
      | Some st \<Rightarrow>
          (case end_request retry bid st of
             (Some e, st') \<Rightarrow> (Some e, AList.update r st' rs)
           | (None, st') \<Rightarrow> end_nodes retry bid rest (AList.update r st' rs)))"

subsection \<open>One run\<close>

text \<open>One batch per request, in the order the requests first occur; the graphs travel with the workflows.\<close>

definition split_by_request :: "workflow_item list \<Rightarrow> workflow_item list list" where
  "split_by_request ws = map snd (foldl (\<lambda>d w. push_group (wi_request_id w) w d) [] ws)"

definition outcome_of ::
  "string \<Rightarrow> string \<Rightarrow> string set \<Rightarrow> (string, string payload) dict \<times> (string, json payload) dict \<Rightarrow> string option \<Rightarrow> batch_outcome" where
  "outcome_of bid eid cancelled outs err =
     \<lparr>bo_outputs = fst outs, bo_histories = snd outs, bo_error = err, bo_batch_id = Some bid, bo_task_node_map = [],
      bo_cancelled = cancelled, bo_execution_id = Some eid\<rparr>"

definition lift_table ::
  "(request_table \<Rightarrow> py_error option \<times> request_table) \<Rightarrow> world \<Rightarrow> py_error option \<times> world" where
  "lift_table f wd = (case f (wd_table wd) of (e, t) \<Rightarrow> (e, wd\<lparr>wd_table := t\<rparr>))"

text \<open>The body of the \<open>try\<close> up to the recording: what the batch produced, or how it failed.\<close>

definition run_body ::
  "run_env \<Rightarrow> string list \<Rightarrow> string \<Rightarrow> workflow_item list \<Rightarrow> world
    \<Rightarrow> (run_error + (string, string payload) dict \<times> (string, json payload) dict) \<times> world" where
  "run_body env workers bid active wd =
     (case begin_nodes bid (raw_by_request active) (rt_requests (wd_table wd)) of
        (Some e, rs) \<Rightarrow> (Inl (lift_error e), map_requests (\<lambda>_. rs) wd)
      | (None, rs) \<Rightarrow>
          (let wd1 = map_requests (\<lambda>_. rs) wd
           in if active = [] then (Inr ([], []), wd1)
              else if \<exists>w \<in> set workers. re_profile env w = None then (Inl (Failed ''no worker profile''), wd1)
              else case process_batch env workers bid active (rs, wd_cache wd1) of
                  (res, rs', cache) \<Rightarrow> (res, (map_requests (\<lambda>_. rs') wd1)\<lparr>wd_cache := cache\<rparr>)))"

definition failure_text :: "run_error \<Rightarrow> string" where
  "failure_text e = (case e of Cancelled \<Rightarrow> ''cancelled'' | Execution_Failed m \<Rightarrow> m | Failed m \<Rightarrow> m)"

definition must_isolate :: "bool \<Rightarrow> workflow_item list \<Rightarrow> run_error \<Rightarrow> bool" where
  "must_isolate isolate active e \<longleftrightarrow>
     (case e of Execution_Failed _ \<Rightarrow> isolate \<and> 1 < card (wi_request_id ` set active) | _ \<Rightarrow> False)"

text \<open>
  The \<open>try\<close> and its handlers: an error raised while the results are recorded is itself recorded
  as the error of the batch. The second component lists the batches to run again.
\<close>

definition run_guarded ::
  "run_env \<Rightarrow> string list \<Rightarrow> string \<Rightarrow> string \<Rightarrow> bool \<Rightarrow> workflow_item list \<Rightarrow> workflow_item list \<Rightarrow> world
    \<Rightarrow> py_error option \<times> workflow_item list list \<times> world" where
  "run_guarded env workers bid eid isolate ws active wd =
     (let poll = (if active = [] then At_Start else Before_Record);
          record = (\<lambda>outs err. lift_table (handle_batch_results ws
                      (outcome_of bid eid (re_cancelled env (if err = None then poll else Before_Record)) outs err)))
      in case run_body env workers bid active wd of
           (Inr outs, wd1) \<Rightarrow>
             (case record outs None wd1 of
                (None, wd2) \<Rightarrow> (None, [], wd2)
              | (Some e, wd2) \<Rightarrow> (case record ([], []) (Some (error_text e)) wd2 of (e', wd3) \<Rightarrow> (e', [], wd3)))
         | (Inl e, wd1) \<Rightarrow>
             if must_isolate isolate active e then (None, split_by_request ws, wd1)
             else (case record ([], []) (Some (failure_text e)) wd1 of (e', wd2) \<Rightarrow> (e', [], wd2)))"

text \<open>The \<open>finally\<close> block: an underflow raised in it skips the release of the workers.\<close>

definition run_finally ::
  "run_env \<Rightarrow> string list \<Rightarrow> string \<Rightarrow> string \<Rightarrow> bool \<Rightarrow> bool \<Rightarrow> workflow_item list \<Rightarrow> workflow_item list \<Rightarrow> world
    \<Rightarrow> py_error option \<times> world" where
  "run_finally env workers bid eid release retry ws active wd =
     (let members = foldl append_new [] (map wi_request_id active);
          wd1 = map_requests (\<lambda>rs. if active = [] then rs else fill_flowmesh_ids (re_submitted env) bid eid members rs) wd
      in case end_nodes retry bid (map fst (raw_by_request active)) (rt_requests (wd_table wd1)) of
           (Some e, rs) \<Rightarrow> (Some e, map_requests (\<lambda>_. rs) wd1)
         | (None, rs) \<Rightarrow>
             (let wd2 = map_requests (\<lambda>_. rs) wd1
              in (None, if retry then wd2
                  else (if release then wd2\<lparr>wd_busy := release_workers workers (wd_busy wd2)\<rparr> else wd2)
                         \<lparr>wd_jm := finalize_workflows (map wi_id ws) (wd_jm wd2)\<rparr>)))"

definition active_of :: "run_env \<Rightarrow> workflow_item list \<Rightarrow> workflow_item list" where
  "active_of env ws = filter (\<lambda>w. wi_request_id w \<notin> re_cancelled env At_Start) ws"

definition run_inner ::
  "run_env \<Rightarrow> string list \<Rightarrow> string \<Rightarrow> string \<Rightarrow> bool \<Rightarrow> bool \<Rightarrow> workflow_item list \<Rightarrow> world
    \<Rightarrow> py_error option \<times> workflow_item list list \<times> world" where
  "run_inner env workers bid eid isolate release ws wd =
     (let active = active_of env ws
      in case run_guarded env workers bid eid isolate ws active wd of
           (e, retries, wd1) \<Rightarrow>
             (case run_finally env workers bid eid release (retries \<noteq> []) ws active wd1 of
                (Some e', wd2) \<Rightarrow> (Some e', retries, wd2)
              | (None, wd2) \<Rightarrow> (e, retries, wd2)))"

subsection \<open>Tracking executions\<close>

definition request_ids :: "workflow_item list \<Rightarrow> string list" where
  "request_ids ws = sort (remdups (map wi_request_id ws))"

definition add_execution :: "string \<Rightarrow> (string, string set) dict \<Rightarrow> string \<Rightarrow> (string, string set) dict" where
  "add_execution eid d r = AList.update r (insert eid (dict_get d r {})) d"

definition track_execution :: "string \<Rightarrow> string \<Rightarrow> workflow_item list \<Rightarrow> world \<Rightarrow> world" where
  "track_execution bid eid ws wd =
     wd\<lparr>wd_contexts := AList.update eid
          \<lparr>xc_batch_id = bid, xc_requests = request_ids ws, xc_workflows = map wi_id ws\<rparr> (wd_contexts wd),
        wd_executions := foldl (add_execution eid) (wd_executions wd) (request_ids ws),
        wd_history := foldl (add_execution eid) (wd_history wd) (request_ids ws),
        wd_unreleased := AList.update eid (set (request_ids ws)) (wd_unreleased wd)\<rparr>"

definition drop_execution :: "string \<Rightarrow> (string, string set) dict \<Rightarrow> string \<Rightarrow> (string, string set) dict" where
  "drop_execution eid d r =
     (case map_of d r of
        None \<Rightarrow> d
      | Some es \<Rightarrow> if es - {eid} = {} then AList.delete r d else AList.update r (es - {eid}) d)"

definition cleanup_tracking :: "string \<Rightarrow> workflow_item list \<Rightarrow> world \<Rightarrow> world" where
  "cleanup_tracking eid ws wd =
     wd\<lparr>wd_contexts := AList.delete eid (wd_contexts wd),
        wd_executions := foldl (drop_execution eid) (wd_executions wd) (request_ids ws)\<rparr>"

text \<open>
  \<open>release_request_workflows\<close>: an execution is released when all its requests are; the result lists the
  executions the runtime manager may drop.
\<close>

definition release_execution ::
  "string \<Rightarrow> string list \<times> (string, string set) dict \<Rightarrow> string \<Rightarrow> string list \<times> (string, string set) dict" where
  "release_execution r st eid =
     (case st of (released, d) \<Rightarrow>
        (case map_of d eid of
           None \<Rightarrow> (released @ [eid], d)
         | Some ms \<Rightarrow> if ms - {r} \<noteq> {} then (released, AList.update eid (ms - {r}) d)
                      else (released @ [eid], AList.delete eid d)))"

definition executions_of :: "string \<Rightarrow> world \<Rightarrow> string set" where
  "executions_of r wd = dict_get (wd_executions wd) r {} \<union> dict_get (wd_history wd) r {}"

definition release_request :: "string \<Rightarrow> world \<Rightarrow> string list \<times> world" where
  "release_request r wd =
     (case foldl (release_execution r) ([], wd_unreleased wd) (sorted_list_of_set (executions_of r wd)) of
        (released, d) \<Rightarrow> (released, wd\<lparr>wd_unreleased := d\<rparr>))"

subsection \<open>Running with isolation of failures\<close>

definition unrecorded :: "workflow_item list \<Rightarrow> request_table \<Rightarrow> workflow_item list" where
  "unrecorded ws t = filter (\<lambda>w. case map_of (rt_requests t) (wi_request_id w) of
       None \<Rightarrow> False | Some st \<Rightarrow> wi_id w \<in> rq_pending st) ws"

definition fail_unrecorded :: "workflow_item list \<Rightarrow> string \<Rightarrow> world \<Rightarrow> world" where
  "fail_unrecorded ws msg wd =
     (let us = unrecorded ws (wd_table wd);
          wd1 = (if us = [] then wd else snd (lift_table (handle_batch_results us
                   \<lparr>bo_outputs = [], bo_histories = [], bo_error = Some msg, bo_batch_id = None, bo_task_node_map = [],
                    bo_cancelled = {}, bo_execution_id = None\<rparr>) wd))
      in wd1\<lparr>wd_jm := finalize_workflows (map wi_id ws) (wd_jm wd1)\<rparr>)"

definition start_run :: "run_env \<Rightarrow> string list \<Rightarrow> string \<Rightarrow> string \<Rightarrow> workflow_item list \<Rightarrow> world \<Rightarrow> world" where
  "start_run env workers bid eid ws wd =
     track_execution bid eid ws (map_requests (record_workflow_dispatches ws bid eid workers (re_now env)) wd)"

text \<open>A run that may not isolate failures, as the re-runs are.\<close>

definition run_alone ::
  "run_env \<Rightarrow> string list \<Rightarrow> string \<Rightarrow> string \<Rightarrow> workflow_item list \<Rightarrow> world \<Rightarrow> py_error option \<times> world" where
  "run_alone env workers bid eid ws wd =
     (case run_inner env workers bid eid False False ws (start_run env workers bid eid ws wd) of
        (e, _, wd1) \<Rightarrow> (e, cleanup_tracking eid ws wd1))"

text \<open>The re-runs, one after the other, each with its environment and fresh ids.\<close>

fun run_retries ::
  "(nat \<Rightarrow> run_env \<times> string \<times> string) \<Rightarrow> string list \<Rightarrow> nat \<Rightarrow> workflow_item list list \<Rightarrow> world \<Rightarrow> world" where
  "run_retries runs workers i [] wd = wd"
| "run_retries runs workers i (ws # rest) wd =
     (case runs i of (env, bid, eid) \<Rightarrow>
        (case run_alone env workers bid eid ws wd of
           (None, wd1) \<Rightarrow> run_retries runs workers (Suc i) rest wd1
         | (Some e, wd1) \<Rightarrow> run_retries runs workers (Suc i) rest (fail_unrecorded ws (error_text e) wd1)))"

definition run_batch ::
  "(nat \<Rightarrow> run_env \<times> string \<times> string) \<Rightarrow> string list \<Rightarrow> workflow_item list \<Rightarrow> world \<Rightarrow> py_error option \<times> world" where
  "run_batch runs workers ws wd =
     (case runs 0 of (env, bid, eid) \<Rightarrow>
        (case run_inner env workers bid eid True True ws (start_run env workers bid eid ws wd) of
           (Some e, _, wd1) \<Rightarrow> (Some e, cleanup_tracking eid ws wd1)
         | (None, retries, wd1) \<Rightarrow>
             (let wd2 = cleanup_tracking eid ws wd1
              in if retries = [] then (None, wd2)
                 else (let wd3 = run_retries runs workers 1 retries wd2
                       in (None, wd3\<lparr>wd_busy := release_workers workers (wd_busy wd3)\<rparr>)))))"

end
