(* ===== verification/Server_Frame.thy ===== *)
theory Server_Frame
  imports Server_Batch
begin

section \<open>What processing a batch leaves alone\<close>

text \<open>
  Framing lemmas: apart from the node counts of its own requests, processing and recording a
  batch changes neither the accounting of a request nor, before the results are recorded, what is
  pending; and recording the error of a batch never raises.
\<close>

subsection \<open>A relation on request tables\<close>

definition table_rel ::
  "(request_state \<Rightarrow> request_state \<Rightarrow> bool) \<Rightarrow> (string, request_state) dict \<Rightarrow> (string, request_state) dict \<Rightarrow> bool" where
  "table_rel R rs rs' \<longleftrightarrow> (\<forall>r. case map_of rs r of
      None \<Rightarrow> map_of rs' r = None
    | Some st \<Rightarrow> \<exists>st'. map_of rs' r = Some st' \<and> R st st')"

lemma table_relD:
  "table_rel R rs rs' \<Longrightarrow> map_of rs r = Some st \<Longrightarrow> \<exists>st'. map_of rs' r = Some st' \<and> R st st'"
  "table_rel R rs rs' \<Longrightarrow> map_of rs r = None \<Longrightarrow> map_of rs' r = None"
proof -
  assume "table_rel R rs rs'"
  then have h: "case map_of rs r of None \<Rightarrow> map_of rs' r = None | Some st \<Rightarrow> \<exists>st'. map_of rs' r = Some st' \<and> R st st'"
    unfolding table_rel_def by (rule spec)
  show "map_of rs r = Some st \<Longrightarrow> \<exists>st'. map_of rs' r = Some st' \<and> R st st'" using h by simp
  show "map_of rs r = None \<Longrightarrow> map_of rs' r = None" using h by simp
qed

lemma table_relI:
  "(\<And>r. map_of rs r = None \<Longrightarrow> map_of rs' r = None)
    \<Longrightarrow> (\<And>r st. map_of rs r = Some st \<Longrightarrow> \<exists>st'. map_of rs' r = Some st' \<and> R st st') \<Longrightarrow> table_rel R rs rs'"
  unfolding table_rel_def by (simp split: option.split)

lemma table_rel_refl: "(\<And>st. R st st) \<Longrightarrow> table_rel R rs rs"
  by (rule table_relI) auto

lemma table_rel_trans:
  assumes "table_rel R rs rs1" "table_rel R rs1 rs2" "\<And>a b c. R a b \<Longrightarrow> R b c \<Longrightarrow> R a c"
  shows "table_rel R rs rs2"
proof (rule table_relI)
  fix r assume "map_of rs r = None"
  then show "map_of rs2 r = None" using table_relD(2)[OF assms(1)] table_relD(2)[OF assms(2)] by blast
next
  fix r st assume "map_of rs r = Some st"
  then obtain s1 where "map_of rs1 r = Some s1" "R st s1" using table_relD(1)[OF assms(1)] by blast
  then show "\<exists>st'. map_of rs2 r = Some st' \<and> R st st'" using table_relD(1)[OF assms(2)] assms(3) by blast
qed

lemma with_request_rel:
  assumes "\<And>st. R st st" "\<And>st. R st (f st)"
  shows "table_rel R rs (with_request q f rs)"
proof (rule table_relI)
  show "map_of (with_request q f rs) r = None" if "map_of rs r = None" for r
    using that by (auto simp: with_request_lookup)
  show "\<exists>st'. map_of (with_request q f rs) r = Some st' \<and> R st st'" if "map_of rs r = Some st" for r st
    using that assms by (auto simp: with_request_lookup)
qed

lemma update_rel:
  assumes "\<And>st. R st st" "map_of rs q = Some st" "R st st'"
  shows "table_rel R rs (AList.update q st' rs)"
proof (rule table_relI)
  show "map_of (AList.update q st' rs) r = None" if "map_of rs r = None" for r
    using that assms(2) by (auto simp: lookup_update)
  show "\<exists>s'. map_of (AList.update q st' rs) r = Some s' \<and> R s s'" if "map_of rs r = Some s" for r s
    using that assms by (auto simp: lookup_update)
qed

lemma foldl_rel:
  assumes "\<And>rs x. x \<in> set xs \<Longrightarrow> table_rel R rs (f rs x)" "\<And>st. R st st" "\<And>a b c. R a b \<Longrightarrow> R b c \<Longrightarrow> R a c"
  shows "table_rel R rs (foldl f rs xs)"
  using assms(1)
proof (induction xs arbitrary: rs)
  case Nil
  then show ?case by (simp add: table_rel_refl assms(2))
next
  case (Cons x xs)
  have "table_rel R rs (f rs x)" "table_rel R (f rs x) (foldl f (f rs x) xs)" using Cons by simp_all
  then show ?case using table_rel_trans assms(3) by (metis foldl_Cons)
qed

subsection \<open>The accounting and the progress of a request\<close>

text \<open>The node counts of a request.\<close>

definition same_counts :: "request_state \<Rightarrow> request_state \<Rightarrow> bool" where
  "same_counts a b \<longleftrightarrow> rq_pending_raw b = rq_pending_raw a \<and> rq_processing_raw b = rq_processing_raw a
     \<and> rq_processed_raw b = rq_processed_raw a \<and> rq_processing_opt b = rq_processing_opt a
     \<and> rq_processed_opt b = rq_processed_opt a \<and> rq_batch_counts b = rq_batch_counts a"

text \<open>What decides when a request is answered.\<close>

definition same_front :: "request_state \<Rightarrow> request_state \<Rightarrow> bool" where
  "same_front a b \<longleftrightarrow> rq_pending b = rq_pending a \<and> rq_ready b = rq_ready a"

definition same_both :: "request_state \<Rightarrow> request_state \<Rightarrow> bool" where
  "same_both a b \<longleftrightarrow> same_counts a b \<and> same_front a b"

lemma same_refl [simp]: "same_counts a a" "same_front a a" "same_both a a"
  by (simp_all add: same_counts_def same_front_def same_both_def)

lemma same_trans:
  "same_counts a b \<Longrightarrow> same_counts b c \<Longrightarrow> same_counts a c"
  "same_front a b \<Longrightarrow> same_front b c \<Longrightarrow> same_front a c"
  "same_both a b \<Longrightarrow> same_both b c \<Longrightarrow> same_both a c"
  by (simp_all add: same_counts_def same_front_def same_both_def)

lemmas foldl_both = foldl_rel[where R = same_both, OF _ same_refl(3) same_trans(3)]

lemma both_trans: "table_rel same_both a b \<Longrightarrow> table_rel same_both b c \<Longrightarrow> table_rel same_both a c"
  by (erule table_rel_trans, assumption, erule same_trans(3), assumption)

lemma counts_trans: "table_rel same_counts a b \<Longrightarrow> table_rel same_counts b c \<Longrightarrow> table_rel same_counts a c"
  by (erule table_rel_trans, assumption, erule same_trans(1), assumption)

lemma front_trans: "table_rel same_front a b \<Longrightarrow> table_rel same_front b c \<Longrightarrow> table_rel same_front a c"
  by (erule table_rel_trans, assumption, erule same_trans(2), assumption)

lemma with_request_both: "(\<And>st. same_both st (f st)) \<Longrightarrow> table_rel same_both rs (with_request q f rs)"
  by (rule with_request_rel) simp_all

lemma record_optimizer_time_both: "table_rel same_both rs (record_optimizer_time ms nodes s rs)"
  unfolding record_optimizer_time_def Let_def
  by (auto intro!: foldl_both with_request_both table_rel_refl simp: same_both_def same_counts_def same_front_def)

lemma record_workflow_dispatches_both: "table_rel same_both rs (record_workflow_dispatches ws bid eid workers now rs)"
  unfolding record_workflow_dispatches_def
  by (auto intro!: foldl_both with_request_both simp: same_both_def same_counts_def same_front_def)

lemma fill_flowmesh_ids_both: "table_rel same_both rs (fill_flowmesh_ids sub bid eid ms rs)"
  unfolding fill_flowmesh_ids_def
  by (auto intro!: foldl_both with_request_both table_rel_refl split: option.split
      simp: same_both_def same_counts_def same_front_def)

lemma note_task_map_both: "table_rel same_both rs (note_task_map bid ms m rs)"
  unfolding note_task_map_def
  by (auto intro!: foldl_both with_request_both simp: same_both_def same_counts_def same_front_def)

lemma note_list_lambda_both: "table_rel same_both rs (note_list_lambda grouped keys rs)"
  unfolding note_list_lambda_def
  by (auto intro!: foldl_both with_request_both table_rel_refl split: list.split
      simp: same_both_def same_counts_def same_front_def)

subsection \<open>Recording results leaves the counts alone\<close>

lemma append_errors_counts: "same_counts st (append_errors es st)"
  by (simp add: same_counts_def append_errors_def)

lemma take_outputs_counts: "take_outputs oc w st = (e, st') \<Longrightarrow> same_counts st st'"
  by (auto simp: take_outputs_def merge_output_payload_def Let_def append_errors_def mark_successful_def same_counts_def
      split: option.splits prod.splits if_splits)

lemma take_histories_counts: "take_histories oc w st = (e, st') \<Longrightarrow> same_counts st st'"
  by (auto simp: take_histories_def merge_history_payload_def append_errors_def same_counts_def
      split: option.splits prod.splits if_splits)

lemma record_workflow_counts:
  assumes "record_workflow oc w st = (e, st')"
  shows "same_counts st st'"
proof (cases "wi_request_id w \<in> bo_cancelled oc")
  case True
  then show ?thesis using assms
    by (auto simp: record_workflow_def discard_pending_def append_errors_def same_counts_def)
next
  case False
  let ?st1 = "case bo_error oc of None \<Rightarrow> st | Some msg \<Rightarrow> append_errors [batch_error oc w msg] st"
  have s1: "same_counts st ?st1" by (simp add: append_errors_counts split: option.split)
  obtain e2 st2 where o2: "take_outputs oc w ?st1 = (e2, st2)" by (cases "take_outputs oc w ?st1")
  obtain e3 st3 where o3: "take_histories oc w st2 = (e3, st3)" by (cases "take_histories oc w st2")
  have s2: "same_counts st st2" using same_trans(1)[OF s1 take_outputs_counts[OF o2]] .
  have s3: "same_counts st st3" using same_trans(1)[OF s2 take_histories_counts[OF o3]] .
  have "same_counts st3 (discard_pending w st3)" by (simp add: same_counts_def discard_pending_def)
  then have s4: "same_counts st (discard_pending w st3)" by (rule same_trans(1)[OF s3])
  show ?thesis
    using assms False o2 o3 s2 s3 s4 by (auto simp: record_workflow_def Let_def split: option.splits)
qed

lemma record_workflows_counts: "record_workflows oc ws rs = (e, rs') \<Longrightarrow> table_rel same_counts rs rs'"
proof (induction ws arbitrary: rs)
  case Nil
  then show ?case by (simp add: table_rel_refl)
next
  case (Cons w ws)
  show ?case
  proof (cases "map_of rs (wi_request_id w)")
    case None
    then show ?thesis using Cons by simp
  next
    case (Some st)
    obtain e1 st1 where st1: "record_workflow oc w st = (e1, st1)" by (cases "record_workflow oc w st")
    have u: "table_rel same_counts rs (AList.update (wi_request_id w) st1 rs)"
      by (rule update_rel[where R = same_counts, OF same_refl(1) Some record_workflow_counts[OF st1]])
    show ?thesis
    proof (cases e1)
      case None
      then have "record_workflows oc ws (AList.update (wi_request_id w) st1 rs) = (e, rs')"
        using Cons.prems Some st1 by simp
      from counts_trans[OF u Cons.IH[OF this]] show ?thesis .
    next
      case (Some e')
      then show ?thesis using Cons.prems \<open>map_of rs (wi_request_id w) = Some st\<close> st1 u by simp
    qed
  qed
qed

lemma finalize_state_counts: "same_counts st (finalize_state st)"
  by (simp add: finalize_state_def append_errors_def same_counts_def)

lemma answer_request_counts: "table_rel same_counts (rt_requests t) (rt_requests (answer_request r t))"
proof (cases "map_of (rt_requests t) r")
  case None
  then show ?thesis by (simp add: answer_request_def table_rel_refl)
next
  case (Some st)
  then show ?thesis
    using update_rel[where R = same_counts, OF same_refl(1) Some finalize_state_counts] by (simp add: answer_request_def table_rel_refl)
qed

lemma answer_requests_counts: "table_rel same_counts (rt_requests t) (rt_requests (foldl (\<lambda>t r. answer_request r t) t qs))"
proof (induction qs arbitrary: t)
  case Nil
  then show ?case by (simp add: table_rel_refl)
next
  case (Cons q qs)
  show ?case using counts_trans[OF answer_request_counts[of t q] Cons.IH[of "answer_request q t"]] by simp
qed

lemma handle_batch_results_counts:
  assumes "handle_batch_results ws oc t = (e, t')"
  shows "table_rel same_counts (rt_requests t) (rt_requests t')"
proof -
  obtain e1 rs where rec: "record_workflows oc ws (rt_requests t) = (e1, rs)"
    by (cases "record_workflows oc ws (rt_requests t)")
  note c = record_workflows_counts[OF rec]
  show ?thesis
  proof (cases e1)
    case (Some x)
    then show ?thesis using assms rec c by (auto simp: handle_batch_results_def)
  next
    case None
    define rs1 where "rs1 = (if bo_error oc \<noteq> None \<and> bo_task_node_map oc \<noteq> []
      then foldl (\<lambda>rs r. with_request r (append_errors [task_map_error oc]) rs) rs (affected ws (rt_requests t)) else rs)"
    have "table_rel same_counts rs rs1"
      unfolding rs1_def
      by (auto intro!: foldl_rel[where R = same_counts, OF _ same_refl(1) same_trans(1)] with_request_rel table_rel_refl append_errors_counts)
    then have c1: "table_rel same_counts (rt_requests t) (rt_requests (t\<lparr>rt_requests := rs1\<rparr>))"
      using counts_trans[OF c] by simp
    have t': "t' = foldl (\<lambda>t r. answer_request r t) (t\<lparr>rt_requests := rs1\<rparr>) (affected ws (rt_requests t))"
      using assms rec None by (simp add: handle_batch_results_def rs1_def Let_def)
    show ?thesis unfolding t' by (rule counts_trans[OF c1 answer_requests_counts])
  qed
qed

subsection \<open>Recording an error never raises\<close>

lemma record_workflows_no_outputs:
  assumes "bo_outputs oc = []" "bo_histories oc = []"
  shows "fst (record_workflows oc ws rs) = None"
proof (induction ws arbitrary: rs)
  case Nil
  then show ?case by simp
next
  case (Cons w ws)
  have "fst (record_workflow oc w st) = None" for st
    using assms by (simp add: record_workflow_def take_outputs_def take_histories_def Let_def)
  note w = this
  show ?case
  proof (cases "map_of rs (wi_request_id w)")
    case None
    then show ?thesis using Cons by simp
  next
    case (Some st)
    obtain st' where "record_workflow oc w st = (None, st')" using w[of st] by (cases "record_workflow oc w st") simp
    then show ?thesis using Cons Some by simp
  qed
qed

lemma handle_batch_results_no_outputs:
  assumes "bo_outputs oc = []" "bo_histories oc = []"
  shows "\<exists>t'. handle_batch_results ws oc t = (None, t')"
proof -
  obtain rs where "record_workflows oc ws (rt_requests t) = (None, rs)"
    using record_workflows_no_outputs[OF assms, of ws "rt_requests t"]
    by (cases "record_workflows oc ws (rt_requests t)") simp
  then show ?thesis by (simp add: handle_batch_results_def Let_def)
qed

end
