(* ===== verification/Server_Batch_Props.thy ===== *)
theory Server_Batch_Props
  imports Server_Frame
begin

section \<open>A run of a batch accounts for everything\<close>

text \<open>
  Whatever the environment does (results, failures, cancellations, isolated re-runs), a run of a batch
  settles every node it took, records every workflow, answers each request at most once and releases
  its workers exactly once, without raising.
\<close>

subsection \<open>Taking, splitting and settling nodes\<close>

definition begun :: "string \<Rightarrow> int \<Rightarrow> request_state \<Rightarrow> request_state" where
  "begun bid n st = st\<lparr>rq_pending_raw := rq_pending_raw st - n, rq_processing_raw := rq_processing_raw st + n,
     rq_batch_counts := AList.update bid (n, 0) (rq_batch_counts st)\<rparr>"

definition optimized :: "string \<Rightarrow> int \<Rightarrow> request_state \<Rightarrow> request_state" where
  "optimized bid k st = st\<lparr>rq_processing_opt := rq_processing_opt st + k,
     rq_batch_counts := AList.update bid (fst (the (map_of (rq_batch_counts st) bid)), k) (rq_batch_counts st)\<rparr>"

definition enough_pending :: "(string \<times> int) list \<Rightarrow> (string, request_state) dict \<Rightarrow> bool" where
  "enough_pending raw rs \<longleftrightarrow> (\<forall>(r, n) \<in> set raw. \<forall>st. map_of rs r = Some st \<longrightarrow> n \<le> rq_pending_raw st)"

lemma begin_nodes_lookup:
  assumes "distinct (map fst raw)" "enough_pending raw rs"
  shows "\<exists>rs'. begin_nodes bid raw rs = (None, rs') \<and> (\<forall>q. map_of rs' q =
    (case map_of raw q of None \<Rightarrow> map_of rs q | Some n \<Rightarrow> map_option (begun bid n) (map_of rs q)))"
  using assms
proof (induction raw arbitrary: rs)
  case Nil
  then show ?case by simp
next
  case (Cons x raw)
  obtain r n where x: "x = (r, n)" by (cases x)
  have new: "map_of raw r = None" using Cons.prems(1) x by (simp add: map_of_eq_None_iff)
  have d: "distinct (map fst raw)" using Cons.prems(1) by simp
  show ?case
  proof (cases "map_of rs r")
    case None
    have "enough_pending raw rs" using Cons.prems(2) by (simp add: enough_pending_def)
    from Cons.IH[OF d this] obtain rs' where rs': "begin_nodes bid raw rs = (None, rs')"
      "\<forall>q. map_of rs' q = (case map_of raw q of None \<Rightarrow> map_of rs q | Some n \<Rightarrow> map_option (begun bid n) (map_of rs q))"
      by blast
    then show ?thesis using None new by (intro exI[of _ rs']) (simp add: x)
  next
    case (Some st)
    let ?rs = "AList.update r (begun bid n st) rs"
    have n: "n \<le> rq_pending_raw st" using Cons.prems(2) Some by (simp add: enough_pending_def x)
    have "enough_pending raw ?rs"
      unfolding enough_pending_def
    proof (intro ballI)
      fix y assume y: "y \<in> set raw"
      then have "fst y \<noteq> r" using Cons.prems(1) x by force
      then show "case y of (r, n) \<Rightarrow> \<forall>st. map_of ?rs r = Some st \<longrightarrow> n \<le> rq_pending_raw st"
        using Cons.prems(2) y by (auto simp: enough_pending_def lookup_update)
    qed
    from Cons.IH[OF d this] obtain rs' where rs': "begin_nodes bid raw ?rs = (None, rs')"
      "\<forall>q. map_of rs' q = (case map_of raw q of None \<Rightarrow> map_of ?rs q | Some n \<Rightarrow> map_option (begun bid n) (map_of ?rs q))"
      by blast
    have "begin_nodes bid (x # raw) rs = (None, rs')"
      using rs'(1) Some n by (simp add: x begun_def)
    moreover have "map_of rs' q = (case map_of (x # raw) q of
        None \<Rightarrow> map_of rs q | Some n \<Rightarrow> map_option (begun bid n) (map_of rs q))" for q
      using rs'(2) new Some by (cases "q = r") (simp_all add: x lookup_update split: option.split)
    ultimately show ?thesis by blast
  qed
qed

lemma add_optimized_lookup:
  assumes "distinct (map fst l)"
    "\<forall>(r, k) \<in> set l. \<forall>st. map_of rs r = Some st \<longrightarrow> (\<exists>n. map_of (rq_batch_counts st) bid = Some (n, 0))"
  shows "\<exists>rs'. add_optimized bid l rs = (None, rs') \<and> (\<forall>q. map_of rs' q =
    (case map_of l q of None \<Rightarrow> map_of rs q | Some k \<Rightarrow> map_option (optimized bid k) (map_of rs q)))"
  using assms
proof (induction l arbitrary: rs)
  case Nil
  then show ?case by simp
next
  case (Cons x l)
  obtain r k where x: "x = (r, k)" by (cases x)
  have new: "map_of l r = None" using Cons.prems(1) x by (simp add: map_of_eq_None_iff)
  have d: "distinct (map fst l)" using Cons.prems(1) by simp
  show ?case
  proof (cases "map_of rs r")
    case None
    have "\<forall>(r, k) \<in> set l. \<forall>st. map_of rs r = Some st \<longrightarrow> (\<exists>n. map_of (rq_batch_counts st) bid = Some (n, 0))"
      using Cons.prems(2) by simp
    from Cons.IH[OF d this] obtain rs' where rs': "add_optimized bid l rs = (None, rs')"
      "\<forall>q. map_of rs' q = (case map_of l q of None \<Rightarrow> map_of rs q | Some n \<Rightarrow> map_option (optimized bid n) (map_of rs q))"
      by blast
    then show ?thesis using None new by (intro exI[of _ rs']) (simp add: x)
  next
    case (Some st)
    let ?rs = "AList.update r (optimized bid k st) rs"
    obtain n where n: "map_of (rq_batch_counts st) bid = Some (n, 0)" using Cons.prems(2) Some x by auto
    have "\<forall>(q, k) \<in> set l. \<forall>st. map_of ?rs q = Some st \<longrightarrow> (\<exists>n. map_of (rq_batch_counts st) bid = Some (n, 0))"
    proof (intro ballI)
      fix y assume y: "y \<in> set l"
      then have "fst y \<noteq> r" using Cons.prems(1) x by force
      then show "case y of (q, k) \<Rightarrow> \<forall>st. map_of ?rs q = Some st \<longrightarrow> (\<exists>n. map_of (rq_batch_counts st) bid = Some (n, 0))"
        using Cons.prems(2) y by (auto simp: lookup_update)
    qed
    from Cons.IH[OF d this] obtain rs' where rs': "add_optimized bid l ?rs = (None, rs')"
      "\<forall>q. map_of rs' q = (case map_of l q of None \<Rightarrow> map_of ?rs q | Some n \<Rightarrow> map_option (optimized bid n) (map_of ?rs q))"
      by blast
    have "add_optimized bid (x # l) rs = (None, rs')"
      using rs'(1) Some n by (simp add: x optimized_def)
    moreover have "map_of rs' q = (case map_of (x # l) q of
        None \<Rightarrow> map_of rs q | Some n \<Rightarrow> map_option (optimized bid n) (map_of rs q))" for q
      using rs'(2) new Some by (cases "q = r") (simp_all add: x lookup_update split: option.split)
    ultimately show ?thesis by blast
  qed
qed

lemma end_nodes_lookup:
  assumes "distinct l" "\<forall>r \<in> set l. \<forall>st. map_of rs r = Some st \<longrightarrow> fst (end_request retry bid st) = None"
  shows "\<exists>rs'. end_nodes retry bid l rs = (None, rs') \<and> (\<forall>q. map_of rs' q =
    (if q \<in> set l then map_option (\<lambda>st. snd (end_request retry bid st)) (map_of rs q) else map_of rs q))"
  using assms
proof (induction l arbitrary: rs)
  case Nil
  then show ?case by simp
next
  case (Cons r l)
  have d: "distinct l" and new: "r \<notin> set l" using Cons.prems(1) by simp_all
  show ?case
  proof (cases "map_of rs r")
    case None
    have "\<forall>r \<in> set l. \<forall>st. map_of rs r = Some st \<longrightarrow> fst (end_request retry bid st) = None" using Cons.prems(2) by simp
    from Cons.IH[OF d this] obtain rs' where "end_nodes retry bid l rs = (None, rs')" "\<forall>q. map_of rs' q =
      (if q \<in> set l then map_option (\<lambda>st. snd (end_request retry bid st)) (map_of rs q) else map_of rs q)" by blast
    then show ?thesis using None new by (intro exI[of _ rs']) auto
  next
    case (Some st)
    obtain st' where st': "end_request retry bid st = (None, st')"
      using Cons.prems(2) Some by (cases "end_request retry bid st") auto
    let ?rs = "AList.update r st' rs"
    have "\<forall>r \<in> set l. \<forall>st. map_of ?rs r = Some st \<longrightarrow> fst (end_request retry bid st) = None"
      using Cons.prems(2) new by (auto simp: lookup_update)
    from Cons.IH[OF d this] obtain rs' where rs': "end_nodes retry bid l ?rs = (None, rs')" "\<forall>q. map_of rs' q =
      (if q \<in> set l then map_option (\<lambda>st. snd (end_request retry bid st)) (map_of ?rs q) else map_of ?rs q)" by blast
    then show ?thesis using Some st' new by (intro exI[of _ rs']) (auto simp: lookup_update)
  qed
qed

subsection \<open>The keys of the node tables\<close>

lemma raw_by_request_keys: "distinct (map fst (raw_by_request ws))" "fst ` set (raw_by_request ws) = wi_request_id ` set ws"
proof -
  have "distinct (map fst (raw_by_request ws)) \<and> fst ` set (raw_by_request ws) = wi_request_id ` set ws"
    unfolding raw_by_request_def
    by (induction ws rule: rev_induct) (simp_all add: distinct_update update_key_set)
  then show "distinct (map fst (raw_by_request ws))" "fst ` set (raw_by_request ws) = wi_request_id ` set ws" by simp_all
qed

lemma spread_remainder_keys: "map fst (spread_remainder k l) = map fst l"
  by (induction l arbitrary: k) (auto split: if_splits)

lemma split_nodes_keys: "map fst (split_nodes n raw) = sort (map fst raw)"
proof -
  have "map fst (sort_key fst raw) = sort (map fst raw)"
    by (intro properties_for_sort[symmetric]) (simp_all add: mset_map[symmetric] del: mset_map, simp)
  then show ?thesis by (simp add: split_nodes_def Let_def spread_remainder_keys comp_def case_prod_unfold)
qed

definition nodes_of :: "string \<Rightarrow> workflow_item list \<Rightarrow> int" where
  "nodes_of r ws = sum_list (map (\<lambda>w. int (node_count (wi_graph w))) (filter (\<lambda>w. wi_request_id w = r) ws))"

lemma raw_by_request_lookup:
  "map_of (raw_by_request ws) r = (if r \<in> wi_request_id ` set ws then Some (nodes_of r ws) else None)"
proof (induction ws rule: rev_induct)
  case Nil
  then show ?case by (simp add: raw_by_request_def)
next
  case (snoc w ws)
  have step: "raw_by_request (ws @ [w]) = AList.update (wi_request_id w)
      (dict_get (raw_by_request ws) (wi_request_id w) 0 + int (node_count (wi_graph w))) (raw_by_request ws)"
    by (simp add: raw_by_request_def)
  have none: "nodes_of (wi_request_id w) ws = 0" if "wi_request_id w \<notin> wi_request_id ` set ws"
  proof -
    have "filter (\<lambda>x. wi_request_id x = wi_request_id w) ws = []"
      using that unfolding filter_empty_conv by (metis image_eqI)
    then show ?thesis by (simp add: nodes_of_def)
  qed
  show ?case
    using snoc none unfolding step by (auto simp: lookup_update dict_get_def nodes_of_def)
qed

subsection \<open>During a run\<close>

text \<open>A request of the run: \<open>n\<close> nodes are in processing, \<open>k\<close> optimized ones are attributed to it.\<close>

definition running :: "string \<Rightarrow> int \<Rightarrow> request_state \<Rightarrow> request_state \<Rightarrow> bool" where
  "running bid n a b \<longleftrightarrow> (\<exists>k. rq_pending_raw b = rq_pending_raw a - n \<and> rq_processing_raw b = rq_processing_raw a + n
     \<and> rq_processed_raw b = rq_processed_raw a \<and> rq_processing_opt b = rq_processing_opt a + k
     \<and> rq_processed_opt b = rq_processed_opt a \<and> rq_batch_counts b = AList.update bid (n, k) (rq_batch_counts a))"

definition in_run :: "string \<Rightarrow> (string \<times> int) list \<Rightarrow> (string, request_state) dict \<Rightarrow> (string, request_state) dict \<Rightarrow> bool" where
  "in_run bid raw rs rs' \<longleftrightarrow> (\<forall>r. case map_of rs r of
      None \<Rightarrow> map_of rs' r = None
    | Some a \<Rightarrow> \<exists>b. map_of rs' r = Some b
        \<and> (case map_of raw r of None \<Rightarrow> same_counts a b | Some n \<Rightarrow> running bid n a b))"

lemma in_runD:
  assumes "in_run bid raw rs rs'"
  shows "map_of rs r = None \<Longrightarrow> map_of rs' r = None"
    "map_of rs r = Some a \<Longrightarrow> \<exists>b. map_of rs' r = Some b
       \<and> (case map_of raw r of None \<Rightarrow> same_counts a b | Some n \<Rightarrow> running bid n a b)"
proof -
  have h: "case map_of rs r of
      None \<Rightarrow> map_of rs' r = None
    | Some a \<Rightarrow> \<exists>b. map_of rs' r = Some b
        \<and> (case map_of raw r of None \<Rightarrow> same_counts a b | Some n \<Rightarrow> running bid n a b)" for r
    using assms unfolding in_run_def by (rule spec)
  show "map_of rs r = None \<Longrightarrow> map_of rs' r = None" using h[of r] by simp
  show "map_of rs r = Some a \<Longrightarrow> \<exists>b. map_of rs' r = Some b
       \<and> (case map_of raw r of None \<Rightarrow> same_counts a b | Some n \<Rightarrow> running bid n a b)" using h[of r] by simp
qed

lemma in_runI:
  "(\<And>r. map_of rs r = None \<Longrightarrow> map_of rs' r = None)
    \<Longrightarrow> (\<And>r a. map_of rs r = Some a \<Longrightarrow> \<exists>b. map_of rs' r = Some b
       \<and> (case map_of raw r of None \<Rightarrow> same_counts a b | Some n \<Rightarrow> running bid n a b)) \<Longrightarrow> in_run bid raw rs rs'"
  unfolding in_run_def by (simp split: option.split)

lemma running_counts: "running bid n a b \<Longrightarrow> same_counts b c \<Longrightarrow> running bid n a c"
  by (simp add: running_def same_counts_def)

lemma in_run_counts:
  assumes "in_run bid raw rs rs1" "table_rel same_counts rs1 rs2"
  shows "in_run bid raw rs rs2"
proof (rule in_runI)
  fix r assume "map_of rs r = None"
  then show "map_of rs2 r = None" using in_runD(1)[OF assms(1)] table_relD(2)[OF assms(2)] by blast
next
  fix r a assume "map_of rs r = Some a"
  then obtain b where b: "map_of rs1 r = Some b"
    "case map_of raw r of None \<Rightarrow> same_counts a b | Some n \<Rightarrow> running bid n a b" using in_runD(2)[OF assms(1)] by blast
  obtain c where c: "map_of rs2 r = Some c" "same_counts b c" using table_relD(1)[OF assms(2) b(1)] by blast
  show "\<exists>b. map_of rs2 r = Some b \<and> (case map_of raw r of None \<Rightarrow> same_counts a b | Some n \<Rightarrow> running bid n a b)"
    using b c same_trans(1)[of a b c] running_counts[of bid _ a b c] by (intro exI[of _ c]) (simp split: option.splits)
qed

lemma both_counts: "table_rel same_both rs rs' \<Longrightarrow> table_rel same_counts rs rs'"
  by (rule table_relI) (use table_relD(2) in blast, use table_relD(1) same_both_def in blast)

lemma both_front: "table_rel same_both rs rs' \<Longrightarrow> table_rel same_front rs rs'"
  by (rule table_relI) (use table_relD(2) in blast, use table_relD(1) same_both_def in blast)

subsection \<open>The body of a run\<close>

lemma fresh_plan_both: "fresh_plan env ws ms workers g opt key (rs, cache) = (res, rs', cache') \<Longrightarrow> table_rel same_both rs rs'"
  by (auto simp: fresh_plan_def Let_def table_rel_refl record_optimizer_time_both split: if_splits sum.splits)

lemma plan_batch_both: "plan_batch env ws ms workers p opt (rs, cache) = (res, rs', cache') \<Longrightarrow> table_rel same_both rs rs'"
  by (auto simp: plan_batch_def Let_def table_rel_refl fresh_plan_both split: if_splits option.splits)

lemma collect_outputs_both:
  assumes "collect_outputs env bid ws p res rs = (out, rs')"
  shows "table_rel same_both rs rs'"
proof -
  let ?rs1 = "note_task_map bid (sorted_members ws) (rr_task_node_map res) rs"
  have 1: "table_rel same_both rs ?rs1" by (rule note_task_map_both)
  have 2: "table_rel same_both rs (note_list_lambda g ks ?rs1)" for g ks
    by (rule both_trans[OF 1 note_list_lambda_both])
  show ?thesis using assms 1 2 by (auto simp: collect_outputs_def Let_def split: sum.splits)
qed

lemma execute_batch_both: "execute_batch env bid ws ms p plan rs = (out, rs') \<Longrightarrow> table_rel same_both rs rs'"
  by (auto simp: execute_batch_def table_rel_refl collect_outputs_both split: if_splits sum.splits option.splits)

text \<open>Processing attributes optimized nodes to requests that have begun, and changes nothing else.\<close>

lemma process_batch_rel:
  assumes res: "process_batch env workers bid ws (rs, cache) = (out, rs', cache')"
    and begun: "\<forall>r \<in> wi_request_id ` set ws. \<forall>st. map_of rs r = Some st \<longrightarrow> (\<exists>n. map_of (rq_batch_counts st) bid = Some (n, 0))"
  shows "table_rel same_both rs rs' \<or> (\<exists>l rs1. fst ` set l = wi_request_id ` set ws \<and> distinct (map fst l)
      \<and> (\<forall>q. map_of rs1 q = (case map_of l q of None \<Rightarrow> map_of rs q | Some k \<Rightarrow> map_option (optimized bid k) (map_of rs q)))
      \<and> table_rel same_both rs1 rs')"
proof (cases "prepare_batch env ws (wi_request_id ` set ws)")
  case (Inl e)
  then show ?thesis using res by (simp add: process_batch_def table_rel_refl)
next
  case (Inr p)
  define l where "l = split_nodes (int (node_count (pp_graph p))) (raw_by_request ws)"
  have mf: "map fst l = sort (map fst (raw_by_request ws))" by (simp add: l_def split_nodes_keys)
  have keys: "fst ` set l = wi_request_id ` set ws"
    using arg_cong[OF mf, of set] raw_by_request_keys(2)[of ws] by (metis set_map set_sort)
  have d: "distinct (map fst l)" using mf raw_by_request_keys(1)[of ws] by simp
  have "\<forall>(r, k) \<in> set l. \<forall>st. map_of rs r = Some st \<longrightarrow> (\<exists>n. map_of (rq_batch_counts st) bid = Some (n, 0))"
    using begun keys by force
  then obtain rs1 where rs1: "add_optimized bid l rs = (None, rs1)" "\<forall>q. map_of rs1 q =
     (case map_of l q of None \<Rightarrow> map_of rs q | Some k \<Rightarrow> map_option (optimized bid k) (map_of rs q))"
    using add_optimized_lookup[OF d] by blast
  obtain plan rs2 cache2 where pl: "plan_batch env ws (wi_request_id ` set ws) workers p l (rs1, cache) = (plan, rs2, cache2)"
    by (cases "plan_batch env ws (wi_request_id ` set ws) workers p l (rs1, cache)") auto
  note b1 = plan_batch_both[OF pl]
  have "table_rel same_both rs1 rs'"
  proof (cases plan)
    case (Inl e)
    then show ?thesis using res Inr rs1(1) pl b1 by (simp add: process_batch_def Let_def l_def[symmetric])
  next
    case plan: (Inr x)
    obtain out2 rs3 where ex: "execute_batch env bid ws (wi_request_id ` set ws) p x rs2 = (out2, rs3)"
      by (cases "execute_batch env bid ws (wi_request_id ` set ws) p x rs2") auto
    then have "rs' = rs3" using res Inr rs1(1) pl plan by (simp add: process_batch_def Let_def l_def[symmetric])
    then show ?thesis using both_trans[OF b1 execute_batch_both[OF ex]] by simp
  qed
  then show ?thesis using keys d rs1(2) by blast
qed

end
