(* ===== verification/Server_Run.thy ===== *)
theory Server_Run
  imports Server_Batch_Props
begin

section \<open>One run of a batch\<close>

text \<open>What \<open>run_inner\<close> does to the world, from its body over the recording of results to its \<open>finally\<close>.\<close>

text \<open>The requests have the nodes the run takes, and the run's batch id is fresh.\<close>

definition can_run :: "string \<Rightarrow> workflow_item list \<Rightarrow> (string, request_state) dict \<Rightarrow> bool" where
  "can_run bid ws rs \<longleftrightarrow> (\<forall>r \<in> wi_request_id ` set ws. \<forall>st. map_of rs r = Some st \<longrightarrow>
     nodes_of r ws \<le> rq_pending_raw st \<and> 0 \<le> rq_processing_raw st \<and> 0 \<le> rq_processing_opt st
   \<and> bid \<notin> fst ` set (rq_batch_counts st))"

lemma can_runD:
  assumes "can_run bid ws rs" "r \<in> wi_request_id ` set ws" "map_of rs r = Some st"
  shows "nodes_of r ws \<le> rq_pending_raw st" "0 \<le> rq_processing_raw st" "0 \<le> rq_processing_opt st"
    "bid \<notin> fst ` set (rq_batch_counts st)"
  using assms unfolding can_run_def by blast+

abbreviation requests :: "world \<Rightarrow> (string, request_state) dict" where
  "requests wd \<equiv> rt_requests (wd_table wd)"

lemma map_requests_fields [simp]:
  "requests (map_requests f wd) = f (requests wd)" "rt_answers (wd_table (map_requests f wd)) = rt_answers (wd_table wd)"
  "wd_busy (map_requests f wd) = wd_busy wd" "wd_jm (map_requests f wd) = wd_jm wd"
  "wd_cache (map_requests f wd) = wd_cache wd"
  by (simp_all add: map_requests_def)

lemma answers_of_cong: "rt_answers t' = rt_answers t \<Longrightarrow> answers_of r t' = answers_of r t"
  by (simp add: answers_of_def)

subsection \<open>The body\<close>

lemma begun_running: "running bid n a (begun bid n a)" "same_front a (begun bid n a)"
  by (simp_all add: running_def begun_def same_front_def)

lemma optimized_running:
  "running bid n a (optimized bid k (begun bid n a))" "same_front a (optimized bid k (begun bid n a))"
  by (simp_all add: running_def begun_def optimized_def same_front_def lookup_update)

lemma run_body_rel:
  assumes run: "run_body env workers bid active wd = (res, wd1)" and ok: "can_run bid active (requests wd)"
  shows "in_run bid (raw_by_request active) (requests wd) (requests wd1) \<and> table_rel same_front (requests wd) (requests wd1)
    \<and> rt_answers (wd_table wd1) = rt_answers (wd_table wd) \<and> wd_busy wd1 = wd_busy wd \<and> wd_jm wd1 = wd_jm wd"
proof -
  let ?raw = "raw_by_request active"
  have "enough_pending ?raw (requests wd)"
    unfolding enough_pending_def
  proof (intro ballI)
    fix x assume x: "x \<in> set ?raw"
    obtain r n where rn: "x = (r, n)" by (cases x)
    have "map_of ?raw r = Some n" using x rn raw_by_request_keys(1) by (simp add: map_of_is_SomeI)
    then have "r \<in> wi_request_id ` set active" "n = nodes_of r active"
      by (simp_all add: raw_by_request_lookup split: if_splits)
    then show "case x of (r, n) \<Rightarrow> \<forall>st. map_of (requests wd) r = Some st \<longrightarrow> n \<le> rq_pending_raw st"
      using can_runD(1)[OF ok] rn by auto
  qed
  then obtain rs1 where b: "begin_nodes bid ?raw (requests wd) = (None, rs1)" and rs1: "\<And>q. map_of rs1 q =
     (case map_of ?raw q of None \<Rightarrow> map_of (requests wd) q | Some n \<Rightarrow> map_option (begun bid n) (map_of (requests wd) q))"
    using begin_nodes_lookup[OF raw_by_request_keys(1)] by blast
  have r1: "in_run bid ?raw (requests wd) rs1"
    by (rule in_runI) (simp_all add: rs1 begun_running split: option.split)
  have f1: "table_rel same_front (requests wd) rs1"
    by (rule table_relI) (simp_all add: rs1 begun_running split: option.split)
  show ?thesis
  proof (cases "active = [] \<or> (\<exists>w \<in> set workers. re_profile env w = None)")
    case True
    then have "requests wd1 = rs1" "rt_answers (wd_table wd1) = rt_answers (wd_table wd)" "wd_busy wd1 = wd_busy wd"
      "wd_jm wd1 = wd_jm wd"
      using run b by (auto simp: run_body_def Let_def split: if_splits)
    then show ?thesis using r1 f1 by simp
  next
    case False
    obtain out rs2 cache where pb: "process_batch env workers bid active (rs1, wd_cache wd) = (out, rs2, cache)"
      by (cases "process_batch env workers bid active (rs1, wd_cache wd)") auto
    have wd1: "wd1 = (map_requests (\<lambda>_. rs2) (map_requests (\<lambda>_. rs1) wd))\<lparr>wd_cache := cache\<rparr>"
    proof -
      have c: "(\<exists>w \<in> set workers. re_profile env w = None) = False" using False by blast
      show ?thesis using run False by (simp add: run_body_def b c pb Let_def)
    qed
    have fresh: "\<forall>r \<in> wi_request_id ` set active. \<forall>st. map_of rs1 r = Some st \<longrightarrow> (\<exists>n. map_of (rq_batch_counts st) bid = Some (n, 0))"
      by (auto simp: rs1 raw_by_request_lookup begun_def lookup_update)
    from process_batch_rel[OF pb fresh] have "in_run bid ?raw (requests wd) rs2 \<and> table_rel same_front (requests wd) rs2"
    proof (elim disjE exE conjE)
      assume "table_rel same_both rs1 rs2"
      then show ?thesis by (intro conjI in_run_counts[OF r1 both_counts] front_trans[OF f1 both_front])
    next
      fix l rs3
      assume l: "fst ` set l = wi_request_id ` set active" "distinct (map fst l)" and tail: "table_rel same_both rs3 rs2"
        and rs3: "\<forall>q. map_of rs3 q = (case map_of l q of None \<Rightarrow> map_of rs1 q | Some k \<Rightarrow> map_option (optimized bid k) (map_of rs1 q))"
      have key: "map_of l q = None \<longleftrightarrow> map_of ?raw q = None" for q
        using l(1) raw_by_request_keys(2)[of active] by (simp add: map_of_eq_None_iff)
      have none: "map_of rs3 q = None" if "map_of (requests wd) q = None" for q
        using that by (simp add: rs3 rs1 split: option.split)
      have some: "\<exists>b. map_of rs3 q = Some b \<and> same_front a b
          \<and> (case map_of ?raw q of None \<Rightarrow> same_counts a b | Some n \<Rightarrow> running bid n a b)"
        if "map_of (requests wd) q = Some a" for q a
      proof (cases "map_of ?raw q")
        case None
        moreover from None have "map_of l q = None" using key by blast
        ultimately show ?thesis using that by (simp add: rs3 rs1)
      next
        case (Some n)
        moreover from Some obtain k where "map_of l q = Some k" using key[of q] by auto
        ultimately show ?thesis using that by (simp add: rs3 rs1 optimized_running)
      qed
      have "in_run bid ?raw (requests wd) rs3" by (rule in_runI) (use none some in blast)+
      moreover have "table_rel same_front (requests wd) rs3" by (rule table_relI) (use none some in blast)+
      ultimately show ?thesis by (intro conjI in_run_counts[OF _ both_counts[OF tail]] front_trans[OF _ both_front[OF tail]])
    qed
    then show ?thesis by (simp add: wd1)
  qed
qed

subsection \<open>Recording\<close>

text \<open>The workflows \<open>ws\<close> were recorded: what is pending, and who was answered.\<close>

definition recorded_rel :: "workflow_item list \<Rightarrow> request_table \<Rightarrow> request_table \<Rightarrow> bool" where
  "recorded_rel ws t t' \<longleftrightarrow> (\<forall>r. case map_of (rt_requests t) r of
      None \<Rightarrow> map_of (rt_requests t') r = None \<and> answers_of r t' = answers_of r t
    | Some a \<Rightarrow> \<exists>b. map_of (rt_requests t') r = Some b \<and> rq_ready b = rq_ready a
        \<and> rq_pending b = rq_pending a - ids_of_request r ws
        \<and> (\<exists>resp. answers_of r t' = answers_of r t
             @ (if r \<in> wi_request_id ` set ws \<and> rq_pending b = {} \<and> rq_ready b then [resp] else [])))"

lemma recorded_relD:
  assumes "recorded_rel ws t t'"
  shows "map_of (rt_requests t) r = None \<Longrightarrow> map_of (rt_requests t') r = None \<and> answers_of r t' = answers_of r t"
    "map_of (rt_requests t) r = Some a \<Longrightarrow> \<exists>b. map_of (rt_requests t') r = Some b \<and> rq_ready b = rq_ready a
        \<and> rq_pending b = rq_pending a - ids_of_request r ws
        \<and> (\<exists>resp. answers_of r t' = answers_of r t
             @ (if r \<in> wi_request_id ` set ws \<and> rq_pending b = {} \<and> rq_ready b then [resp] else []))"
  using assms[unfolded recorded_rel_def, THEN spec, of r] by simp_all

lemma recorded_relI:
  assumes "\<And>r. map_of (rt_requests t) r = None \<Longrightarrow> map_of (rt_requests t') r = None \<and> answers_of r t' = answers_of r t"
    "\<And>r a. map_of (rt_requests t) r = Some a \<Longrightarrow> \<exists>b. map_of (rt_requests t') r = Some b \<and> rq_ready b = rq_ready a
        \<and> rq_pending b = rq_pending a - ids_of_request r ws
        \<and> (\<exists>resp. answers_of r t' = answers_of r t
             @ (if r \<in> wi_request_id ` set ws \<and> rq_pending b = {} \<and> rq_ready b then [resp] else []))"
  shows "recorded_rel ws t t'"
  unfolding recorded_rel_def
proof (rule allI)
  fix r
  show "case map_of (rt_requests t) r of
      None \<Rightarrow> map_of (rt_requests t') r = None \<and> answers_of r t' = answers_of r t
    | Some a \<Rightarrow> \<exists>b. map_of (rt_requests t') r = Some b \<and> rq_ready b = rq_ready a
        \<and> rq_pending b = rq_pending a - ids_of_request r ws
        \<and> (\<exists>resp. answers_of r t' = answers_of r t
             @ (if r \<in> wi_request_id ` set ws \<and> rq_pending b = {} \<and> rq_ready b then [resp] else []))"
    using assms by (cases "map_of (rt_requests t) r") (simp_all only: option.case)
qed

lemma handle_recorded:
  assumes "handle_batch_results ws oc t = (None, t')"
  shows "recorded_rel ws t t'"
proof (rule recorded_relI)
  show "map_of (rt_requests t') r = None \<and> answers_of r t' = answers_of r t" if "map_of (rt_requests t) r = None" for r
    using handle_batch_results_lookup(1)[OF assms that] .
next
  fix r a assume "map_of (rt_requests t) r = Some a"
  from handle_batch_results_lookup(2)[OF assms this] obtain b where b: "map_of (rt_requests t') r = Some b"
    "rq_ready b = rq_ready a" "rq_pending b = rq_pending a - ids_of_request r ws"
    "answers_of r t' = answers_of r t @ (if r \<in> wi_request_id ` set ws \<and> answerable b then [response_of b] else [])" by blast
  show "\<exists>b. map_of (rt_requests t') r = Some b \<and> rq_ready b = rq_ready a
        \<and> rq_pending b = rq_pending a - ids_of_request r ws
        \<and> (\<exists>resp. answers_of r t' = answers_of r t
             @ (if r \<in> wi_request_id ` set ws \<and> rq_pending b = {} \<and> rq_ready b then [resp] else []))"
    using b(1-3) b(4)[unfolded answerable_def] by blast
qed

lemma recorded_front:
  assumes "table_rel same_front (rt_requests t0) (rt_requests t)" "rt_answers t = rt_answers t0" "recorded_rel ws t t'"
  shows "recorded_rel ws t0 t'"
proof (rule recorded_relI)
  fix r assume "map_of (rt_requests t0) r = None"
  then show "map_of (rt_requests t') r = None \<and> answers_of r t' = answers_of r t0"
    using table_relD(2)[OF assms(1)] recorded_relD(1)[OF assms(3)] answers_of_cong[OF assms(2)] by metis
next
  fix r a assume "map_of (rt_requests t0) r = Some a"
  then obtain b where b: "map_of (rt_requests t) r = Some b" "same_front a b" using table_relD(1)[OF assms(1)] by blast
  show "\<exists>b. map_of (rt_requests t') r = Some b \<and> rq_ready b = rq_ready a
        \<and> rq_pending b = rq_pending a - ids_of_request r ws
        \<and> (\<exists>resp. answers_of r t' = answers_of r t0
             @ (if r \<in> wi_request_id ` set ws \<and> rq_pending b = {} \<and> rq_ready b then [resp] else []))"
    using recorded_relD(2)[OF assms(3) b(1)] b(2) answers_of_cong[OF assms(2), of r] by (simp add: same_front_def)
qed

lemma front_recorded:
  assumes "recorded_rel ws t0 t" "table_rel same_front (rt_requests t) (rt_requests t')" "rt_answers t' = rt_answers t"
  shows "recorded_rel ws t0 t'"
proof (rule recorded_relI)
  fix r assume "map_of (rt_requests t0) r = None"
  then show "map_of (rt_requests t') r = None \<and> answers_of r t' = answers_of r t0"
    using table_relD(2)[OF assms(2)] recorded_relD(1)[OF assms(1)] answers_of_cong[OF assms(3)] by metis
next
  fix r a assume "map_of (rt_requests t0) r = Some a"
  then obtain b resp where b: "map_of (rt_requests t) r = Some b" "rq_ready b = rq_ready a"
    "rq_pending b = rq_pending a - ids_of_request r ws" "answers_of r t = answers_of r t0
       @ (if r \<in> wi_request_id ` set ws \<and> rq_pending b = {} \<and> rq_ready b then [resp] else [])"
    using recorded_relD(2)[OF assms(1)] by blast
  obtain c where c: "map_of (rt_requests t') r = Some c" "same_front b c" using table_relD(1)[OF assms(2) b(1)] by blast
  have "answers_of r t' = answers_of r t0 @ (if r \<in> wi_request_id ` set ws \<and> rq_pending c = {} \<and> rq_ready c then [resp] else [])"
    using b(4) c(2) answers_of_cong[OF assms(3), of r] by (simp add: same_front_def)
  then show "\<exists>b. map_of (rt_requests t') r = Some b \<and> rq_ready b = rq_ready a
        \<and> rq_pending b = rq_pending a - ids_of_request r ws
        \<and> (\<exists>resp. answers_of r t' = answers_of r t0
             @ (if r \<in> wi_request_id ` set ws \<and> rq_pending b = {} \<and> rq_ready b then [resp] else []))"
    using c b(2,3) by (intro exI[of _ c]) (auto simp: same_front_def)
qed

text \<open>A recording that raised has recorded some of the workflows and answered nobody.\<close>

lemma record_workflow_partial:
  assumes "record_workflow oc w st = (e, st')"
  shows "rq_ready st' = rq_ready st \<and> rq_pending st' \<subseteq> rq_pending st \<and> rq_pending st - {wi_id w} \<subseteq> rq_pending st'"
proof (cases e)
  case None
  then show ?thesis using record_workflow_fields assms by blast
next
  case (Some x)
  let ?st1 = "case bo_error oc of None \<Rightarrow> st | Some msg \<Rightarrow> append_errors [batch_error oc w msg] st"
  have c: "wi_request_id w \<notin> bo_cancelled oc" using assms Some by (auto simp: record_workflow_def)
  obtain e2 st2 where o2: "take_outputs oc w ?st1 = (e2, st2)" by (cases "take_outputs oc w ?st1")
  obtain e3 st3 where o3: "take_histories oc w st2 = (e3, st3)" by (cases "take_histories oc w st2")
  have "st' = st2 \<or> st' = st3" using assms Some c o2 o3 by (auto simp: record_workflow_def Let_def split: option.splits)
  moreover have "rq_pending ?st1 = rq_pending st \<and> rq_ready ?st1 = rq_ready st" by (simp split: option.split)
  ultimately show ?thesis using take_outputs_fields[OF o2] take_histories_fields[OF o3] by auto
qed

lemma record_workflows_partial:
  assumes "record_workflows oc ws rs = (e, rs')"
  shows "map_of rs r = None \<Longrightarrow> map_of rs' r = None"
    "map_of rs r = Some st \<Longrightarrow> \<exists>st'. map_of rs' r = Some st' \<and> rq_ready st' = rq_ready st
      \<and> rq_pending st' \<subseteq> rq_pending st \<and> rq_pending st - ids_of_request r ws \<subseteq> rq_pending st'"
  using assms
proof (induction ws arbitrary: rs st)
  case Nil
  { case 1 then show ?case by simp
  next case 2 then show ?case by simp }
next
  case (Cons w ws)
  let ?q = "wi_request_id w"
  { case 1
    show ?case
    proof (cases "map_of rs ?q")
      case None
      then show ?thesis using 1 Cons.IH(1)[of rs] by simp
    next
      case (Some sq)
      obtain e1 sq' where sq': "record_workflow oc w sq = (e1, sq')" by (cases "record_workflow oc w sq")
      have n: "map_of (AList.update ?q sq' rs) r = None" using 1(1) Some by (auto simp: lookup_update)
      then show ?thesis using 1 Some sq' Cons.IH(1)[OF n] by (auto split: option.splits)
    qed
  next
    case 2
    have sub: "ids_of_request r ws \<subseteq> ids_of_request r (w # ws)" by (auto simp: ids_of_request_def)
    show ?case
    proof (cases "map_of rs ?q")
      case None
      then show ?thesis using 2 Cons.IH(2)[of rs st] sub by auto
    next
      case (Some sq)
      obtain e1 sq' where sq': "record_workflow oc w sq = (e1, sq')" by (cases "record_workflow oc w sq")
      let ?rs = "AList.update ?q sq' rs"
      obtain s1 where s1: "map_of ?rs r = Some s1" "rq_ready s1 = rq_ready st" "rq_pending s1 \<subseteq> rq_pending st"
        "rq_pending st - ids_of_request r [w] \<subseteq> rq_pending s1"
        using record_workflow_partial[OF sq'] 2(1) Some by (cases "r = ?q") (auto simp: lookup_update ids_of_request_def)
      have un: "ids_of_request r (w # ws) = ids_of_request r [w] \<union> ids_of_request r ws" by (auto simp: ids_of_request_def)
      show ?thesis
      proof (cases e1)
        case None
        then have "record_workflows oc ws ?rs = (e, rs')" using 2(2) Some sq' by simp
        from Cons.IH(2)[OF s1(1) this] obtain st' where st': "map_of rs' r = Some st'" "rq_ready st' = rq_ready s1"
          "rq_pending st' \<subseteq> rq_pending s1" "rq_pending s1 - ids_of_request r ws \<subseteq> rq_pending st'" by blast
        have "rq_pending st' \<subseteq> rq_pending st" using st'(3) s1(3) by (rule subset_trans)
        moreover have "rq_pending st - ids_of_request r (w # ws) \<subseteq> rq_pending st'"
          unfolding un using st'(4) s1(4) by blast
        ultimately show ?thesis using st'(1,2) s1(2) by (intro exI[of _ st']) simp
      next
        case (Some x)
        then have "rs' = ?rs" using 2(2) \<open>map_of rs ?q = Some sq\<close> sq' by simp
        moreover have "rq_pending st - ids_of_request r (w # ws) \<subseteq> rq_pending s1" unfolding un using s1(4) by blast
        ultimately show ?thesis using s1 by (intro exI[of _ s1]) simp
      qed
    qed }
qed

lemma handle_twice_recorded:
  assumes one: "handle_batch_results ws oc t = (Some e, t1)" and two: "handle_batch_results ws oc' t1 = (None, t2)"
  shows "recorded_rel ws t t2"
proof -
  obtain rs where rec: "record_workflows oc ws (rt_requests t) = (Some e, rs)" and t1: "t1 = t\<lparr>rt_requests := rs\<rparr>"
    using one by (auto simp: handle_batch_results_def Let_def split: prod.splits option.splits)
  have a1: "answers_of r t1 = answers_of r t" for r by (simp add: t1)
  show ?thesis
  proof (rule recorded_relI)
    fix r assume "map_of (rt_requests t) r = None"
    then have "map_of (rt_requests t1) r = None" using record_workflows_partial(1)[OF rec] by (simp add: t1)
    then show "map_of (rt_requests t2) r = None \<and> answers_of r t2 = answers_of r t"
      using recorded_relD(1)[OF handle_recorded[OF two]] a1 by metis
  next
    fix r a assume "map_of (rt_requests t) r = Some a"
    from record_workflows_partial(2)[OF rec this]
    obtain b where b: "map_of (rt_requests t1) r = Some b" "rq_ready b = rq_ready a" "rq_pending b \<subseteq> rq_pending a"
      "rq_pending a - ids_of_request r ws \<subseteq> rq_pending b" unfolding t1 by auto
    have "rq_pending b - ids_of_request r ws = rq_pending a - ids_of_request r ws" using b(3,4) by blast
    then show "\<exists>b. map_of (rt_requests t2) r = Some b \<and> rq_ready b = rq_ready a
        \<and> rq_pending b = rq_pending a - ids_of_request r ws
        \<and> (\<exists>resp. answers_of r t2 = answers_of r t
             @ (if r \<in> wi_request_id ` set ws \<and> rq_pending b = {} \<and> rq_ready b then [resp] else []))"
      using recorded_relD(2)[OF handle_recorded[OF two] b(1)] b(2) unfolding a1 by simp
  qed
qed

end
