(* ===== verification/Server_Accounts.thy ===== *)
theory Server_Accounts
  imports Server_Run
begin

section \<open>The accounts of a run, with its re-runs\<close>

text \<open>
  \<open>run_inner\<close>, the isolated re-runs and \<open>run_batch\<close>: composition of the lemmas on one run, and the property
  that a run settles everything.
\<close>

lemma lift_table_fields:
  assumes "lift_table f wd = (e, wd')"
  shows "f (wd_table wd) = (e, wd_table wd')" "wd_busy wd' = wd_busy wd" "wd_jm wd' = wd_jm wd"
  using assms by (auto simp: lift_table_def split: prod.splits)

lemma outcome_of_empty: "bo_outputs (outcome_of bid eid c ([], []) err) = []" "bo_histories (outcome_of bid eid c ([], []) err) = []"
  by (simp_all add: outcome_of_def)

lemma record_error_fields:
  assumes "lift_table (handle_batch_results ws (outcome_of bid eid c ([], []) err)) wd = (e, wd')"
  shows "e = None" "recorded_rel ws (wd_table wd) (wd_table wd')"
    "table_rel same_counts (requests wd) (requests wd')" "wd_busy wd' = wd_busy wd" "wd_jm wd' = wd_jm wd"
proof -
  note f = lift_table_fields[OF assms]
  obtain t' where t': "handle_batch_results ws (outcome_of bid eid c ([], []) err) (wd_table wd) = (None, t')"
    using handle_batch_results_no_outputs[OF outcome_of_empty] by blast
  then have eq: "e = None" "wd_table wd' = t'" using f(1) by simp_all
  show "e = None" by (rule eq(1))
  show "recorded_rel ws (wd_table wd) (wd_table wd')" using handle_recorded[OF t'] eq(2) by simp
  show "table_rel same_counts (requests wd) (requests wd')" using handle_batch_results_counts[OF t'] eq(2) by simp
  show "wd_busy wd' = wd_busy wd" "wd_jm wd' = wd_jm wd" using f(2,3) by simp_all
qed

subsection \<open>The guarded part of a run\<close>

lemma split_by_request_Nil: "ws \<noteq> [] \<Longrightarrow> split_by_request ws \<noteq> []"
proof -
  assume "ws \<noteq> []"
  then have "wi_request_id ` set ws \<noteq> {}" by simp
  then have "fst ` set (foldl (\<lambda>d w. push_group (wi_request_id w) w d) [] ws) \<noteq> {}"
    using foldl_push_keys(2)[of wi_request_id "\<lambda>w. w" ws] by simp
  then show ?thesis by (auto simp: split_by_request_def)
qed

lemma run_guarded_rel:
  assumes run: "run_guarded env workers bid eid isolate ws active wd = (e, retries, wd')"
    and ok: "can_run bid active (requests wd)" and sub: "set active \<subseteq> set ws"
  shows "e = None \<and> in_run bid (raw_by_request active) (requests wd) (requests wd')
    \<and> wd_busy wd' = wd_busy wd \<and> wd_jm wd' = wd_jm wd
    \<and> (if retries = [] then recorded_rel ws (wd_table wd) (wd_table wd')
       else isolate \<and> retries = split_by_request ws \<and> table_rel same_front (requests wd) (requests wd')
          \<and> rt_answers (wd_table wd') = rt_answers (wd_table wd))"
proof -
  obtain res wd1 where body: "run_body env workers bid active wd = (res, wd1)" by (cases "run_body env workers bid active wd")
  note b = run_body_rel[OF body ok]
  then have r1: "in_run bid (raw_by_request active) (requests wd) (requests wd1)"
    and f1: "table_rel same_front (requests wd) (requests wd1)"
    and a1: "rt_answers (wd_table wd1) = rt_answers (wd_table wd)" "wd_busy wd1 = wd_busy wd" "wd_jm wd1 = wd_jm wd"
    by simp_all
  have fin: ?thesis if "e = None" "retries = []" "recorded_rel ws (wd_table wd1) (wd_table wd')"
    "table_rel same_counts (requests wd1) (requests wd')" "wd_busy wd' = wd_busy wd1" "wd_jm wd' = wd_jm wd1"
    using that recorded_front[OF f1 a1(1) that(3)] in_run_counts[OF r1 that(4)] a1(2,3) by simp
  define rec where "rec = (\<lambda>outs err. lift_table (handle_batch_results ws (outcome_of bid eid (re_cancelled env
     (if err = None then (if active = [] then At_Start else Before_Record) else Before_Record)) outs err)))"
  show ?thesis
  proof (cases res)
    case (Inl err)
    show ?thesis
    proof (cases "must_isolate isolate active err")
      case True
      then have "isolate" "active \<noteq> []" by (auto simp: must_isolate_def split: run_error.splits)
      moreover have "e = None" "retries = split_by_request ws" "wd' = wd1"
        using run body Inl True by (auto simp: run_guarded_def Let_def)
      moreover have "ws \<noteq> []" using sub \<open>active \<noteq> []\<close> by auto
      ultimately show ?thesis using r1 f1 a1 split_by_request_Nil by simp
    next
      case False
      obtain e1 wd2 where two: "rec ([], []) (Some (failure_text err)) wd1 = (e1, wd2)"
        by (cases "rec ([], []) (Some (failure_text err)) wd1")
      then have eq: "e = e1" "retries = []" "wd' = wd2"
        using run body Inl False by (simp_all add: run_guarded_def rec_def Let_def)
      note f = record_error_fields[OF two[unfolded rec_def]]
      show ?thesis by (rule fin) (use f eq in simp_all)
    qed
  next
    case (Inr outs)
    obtain e1 wd2 where one: "rec outs None wd1 = (e1, wd2)" by (cases "rec outs None wd1")
    note l = lift_table_fields[OF one[unfolded rec_def]]
    show ?thesis
    proof (cases e1)
      case None
      then have eq: "e = None" "retries = []" "wd' = wd2"
        using run body Inr one by (simp_all add: run_guarded_def rec_def Let_def)
      show ?thesis
        by (rule fin) (use eq l(2,3) handle_recorded[OF l(1)[unfolded None]] handle_batch_results_counts[OF l(1)] in simp_all)
    next
      case (Some x)
      obtain e2 wd3 where two: "rec ([], []) (Some (error_text x)) wd2 = (e2, wd3)"
        by (cases "rec ([], []) (Some (error_text x)) wd2")
      then have eq: "e = e2" "retries = []" "wd' = wd3"
        using run body Inr one Some by (simp_all add: run_guarded_def rec_def Let_def)
      note f = record_error_fields[OF two[unfolded rec_def]]
      note l2 = lift_table_fields[OF two[unfolded rec_def]]
      have "recorded_rel ws (wd_table wd1) (wd_table wd')"
        using handle_twice_recorded[OF l(1)[unfolded Some]] l2(1) f(1) eq(3) by simp
      moreover have "table_rel same_counts (requests wd1) (requests wd')"
        using counts_trans[OF handle_batch_results_counts[OF l(1)] f(3)] eq(3) by simp
      ultimately show ?thesis by (intro fin) (use f eq l in simp_all)
    qed
  qed
qed

subsection \<open>The end of a run\<close>

definition settled :: "int \<Rightarrow> request_state \<Rightarrow> request_state \<Rightarrow> bool" where
  "settled n a b \<longleftrightarrow> rq_pending_raw b = rq_pending_raw a - n \<and> rq_processed_raw b = rq_processed_raw a + n
     \<and> rq_processing_raw b = rq_processing_raw a \<and> rq_processing_opt b = rq_processing_opt a
     \<and> rq_batch_counts b = rq_batch_counts a"

lemma delete_new: "k \<notin> fst ` set d \<Longrightarrow> AList.delete k (AList.update k v d) = d"
  by (induction d) auto

lemma end_request_running:
  assumes r: "running bid n a b" and p: "0 \<le> rq_processing_raw a" "0 \<le> rq_processing_opt a"
    and new: "bid \<notin> fst ` set (rq_batch_counts a)"
  shows "fst (end_request retry bid b) = None" "same_front b (snd (end_request retry bid b))"
    "retry \<Longrightarrow> same_counts a (snd (end_request True bid b))" "\<not> retry \<Longrightarrow> settled n a (snd (end_request False bid b))"
proof -
  obtain k where k: "rq_pending_raw b = rq_pending_raw a - n" "rq_processing_raw b = rq_processing_raw a + n"
    "rq_processed_raw b = rq_processed_raw a" "rq_processing_opt b = rq_processing_opt a + k"
    "rq_processed_opt b = rq_processed_opt a" "rq_batch_counts b = AList.update bid (n, k) (rq_batch_counts a)"
    using r by (auto simp: running_def)
  have look: "map_of (rq_batch_counts b) bid = Some (n, k)" using k(6) by (simp add: lookup_update)
  have del: "AList.delete bid (rq_batch_counts b) = rq_batch_counts a" using new by (simp add: k(6) delete_new)
  show "fst (end_request retry bid b) = None"
    using look p k by (simp add: end_request_def Let_def finish_raw_def finish_opt_def)
  show "same_front b (snd (end_request retry bid b))"
    using look p k by (simp add: end_request_def Let_def finish_raw_def finish_opt_def hand_back_def same_front_def)
  show "same_counts a (snd (end_request True bid b))" if retry
    using look del k by (simp add: end_request_def Let_def hand_back_def same_counts_def)
  show "settled n a (snd (end_request False bid b))" if "\<not> retry"
    using look del p k by (simp add: end_request_def Let_def finish_raw_def finish_opt_def settled_def)
qed

text \<open>What a run leaves of the counts of every request.\<close>

definition run_counts :: "bool \<Rightarrow> workflow_item list \<Rightarrow> string \<Rightarrow> request_state \<Rightarrow> request_state \<Rightarrow> bool" where
  "run_counts retry active r a b \<longleftrightarrow>
     (if retry \<or> r \<notin> wi_request_id ` set active then same_counts a b else settled (nodes_of r active) a b)"

definition counts_rel ::
  "bool \<Rightarrow> workflow_item list \<Rightarrow> (string, request_state) dict \<Rightarrow> (string, request_state) dict \<Rightarrow> bool" where
  "counts_rel retry active rs rs' \<longleftrightarrow> (\<forall>r a. map_of rs r = Some a \<longrightarrow> (\<exists>b. map_of rs' r = Some b \<and> run_counts retry active r a b))"

lemma run_finally_rel:
  assumes run: "run_finally env workers bid eid release retry ws active wd' = (e, wd'')"
    and r: "in_run bid (raw_by_request active) rs0 (requests wd')" and ok: "can_run bid active rs0"
  shows "e = None \<and> counts_rel retry active rs0 (requests wd'') \<and> table_rel same_front (requests wd') (requests wd'')
    \<and> rt_answers (wd_table wd'') = rt_answers (wd_table wd')
    \<and> wd_busy wd'' = (if release \<and> \<not> retry then release_workers workers (wd_busy wd') else wd_busy wd')
    \<and> wd_jm wd'' = (if retry then wd_jm wd' else finalize_workflows (map wi_id ws) (wd_jm wd'))"
proof -
  let ?raw = "raw_by_request active" and ?ms = "foldl append_new [] (map wi_request_id active)"
  define fill where "fill = (\<lambda>rs. if active = [] then rs else fill_flowmesh_ids (re_submitted env) bid eid ?ms rs)"
  define wd1 where "wd1 = map_requests fill wd'"
  have both: "table_rel same_both (requests wd') (requests wd1)"
    by (simp add: wd1_def fill_def fill_flowmesh_ids_both table_rel_refl)
  have r1: "in_run bid ?raw rs0 (requests wd1)" by (rule in_run_counts[OF r both_counts[OF both]])
  have runs: "map_of rs0 q \<noteq> None \<and> (\<forall>a. map_of rs0 q = Some a \<longrightarrow> running bid (nodes_of q active) a b
       \<and> 0 \<le> rq_processing_raw a \<and> 0 \<le> rq_processing_opt a \<and> bid \<notin> fst ` set (rq_batch_counts a))"
    if q: "q \<in> wi_request_id ` set active" "map_of (requests wd1) q = Some b" for q b
  proof -
    have "map_of rs0 q \<noteq> None" using in_runD(1)[OF r1, of q] q(2) by auto
    moreover have "running bid (nodes_of q active) a b" if "map_of rs0 q = Some a" for a
      using in_runD(2)[OF r1 that] q by (simp add: raw_by_request_lookup)
    ultimately show ?thesis using can_runD[OF ok q(1)] by blast
  qed
  have "fst (end_request retry bid b) = None" if q: "q \<in> set (map fst ?raw)" "map_of (requests wd1) q = Some b" for q b
  proof -
    have "q \<in> wi_request_id ` set active" using q(1) raw_by_request_keys(2)[of active] by simp
    from runs[OF this q(2)] show ?thesis using end_request_running(1) by blast
  qed
  then obtain rs2 where en: "end_nodes retry bid (map fst ?raw) (requests wd1) = (None, rs2)"
    and rs2: "\<And>q. map_of rs2 q = (if q \<in> set (map fst ?raw) then map_option (\<lambda>st. snd (end_request retry bid st)) (map_of (requests wd1) q)
        else map_of (requests wd1) q)"
    using end_nodes_lookup[OF raw_by_request_keys(1), of active "requests wd1" retry bid] by blast
  have key: "q \<in> set (map fst ?raw) \<longleftrightarrow> q \<in> wi_request_id ` set active" for q
    using raw_by_request_keys(2)[of active] by simp
  have wd'': "e = None" "requests wd'' = rs2" "rt_answers (wd_table wd'') = rt_answers (wd_table wd')"
    "wd_busy wd'' = (if release \<and> \<not> retry then release_workers workers (wd_busy wd') else wd_busy wd')"
    "wd_jm wd'' = (if retry then wd_jm wd' else finalize_workflows (map wi_id ws) (wd_jm wd'))"
    using run en unfolding run_finally_def Let_def fill_def[symmetric] wd1_def[symmetric]
    by (cases retry; cases release; simp; force simp: wd1_def)+
  have c: "counts_rel retry active rs0 rs2"
    unfolding counts_rel_def
  proof (intro allI impI)
    fix q a assume a: "map_of rs0 q = Some a"
    obtain b where b: "map_of (requests wd1) q = Some b"
      "case map_of ?raw q of None \<Rightarrow> same_counts a b | Some n \<Rightarrow> running bid n a b" using in_runD(2)[OF r1 a] by blast
    show "\<exists>b. map_of rs2 q = Some b \<and> run_counts retry active q a b"
    proof (cases "q \<in> wi_request_id ` set active")
      case True
      from runs[OF True b(1)] a have "running bid (nodes_of q active) a b" "0 \<le> rq_processing_raw a"
        "0 \<le> rq_processing_opt a" "bid \<notin> fst ` set (rq_batch_counts a)" by simp_all
      note er = end_request_running[OF this]
      show ?thesis using er(3,4) rs2[of q] b(1) True key by (cases retry) (simp_all add: run_counts_def)
    next
      case False
      then show ?thesis using rs2[of q] b key by (simp add: run_counts_def raw_by_request_lookup)
    qed
  qed
  have f2: "table_rel same_front (requests wd1) rs2"
  proof (rule table_relI)
    show "map_of rs2 q = None" if "map_of (requests wd1) q = None" for q using that rs2[of q] by simp
    show "\<exists>st'. map_of rs2 q = Some st' \<and> same_front b st'" if b: "map_of (requests wd1) q = Some b" for q b
    proof (cases "q \<in> wi_request_id ` set active")
      case True
      from runs[OF True b] obtain a where "running bid (nodes_of q active) a b" "0 \<le> rq_processing_raw a"
        "0 \<le> rq_processing_opt a" "bid \<notin> fst ` set (rq_batch_counts a)" by blast
      from end_request_running(2)[OF this] show ?thesis using rs2[of q] b True key by simp
    next
      case False
      then show ?thesis using rs2[of q] b key by simp
    qed
  qed
  have "table_rel same_front (requests wd') rs2" by (rule front_trans[OF both_front[OF both] f2])
  with c wd'' show ?thesis by simp
qed

subsection \<open>A whole run\<close>

definition of_request :: "string \<Rightarrow> workflow_item list \<Rightarrow> workflow_item list" where
  "of_request r ws = filter (\<lambda>w. wi_request_id w = r) ws"

lemma nodes_of_filter: "(\<forall>w \<in> set ws. wi_request_id w = r \<longrightarrow> P w) \<Longrightarrow> nodes_of r (filter P ws) = nodes_of r ws"
proof -
  assume h: "\<forall>w \<in> set ws. wi_request_id w = r \<longrightarrow> P w"
  have "filter (\<lambda>w. wi_request_id w = r) (filter P ws) = filter (\<lambda>w. wi_request_id w = r) ws"
    unfolding filter_filter by (rule filter_cong) (use h in auto)
  then show ?thesis by (simp add: nodes_of_def)
qed

lemma nodes_of_request: "nodes_of r (of_request r ws) = nodes_of r ws"
  unfolding of_request_def by (rule nodes_of_filter) simp

lemma can_runI:
  "(\<And>r st. r \<in> wi_request_id ` set ws \<Longrightarrow> map_of rs r = Some st \<Longrightarrow>
     nodes_of r ws \<le> rq_pending_raw st \<and> 0 \<le> rq_processing_raw st \<and> 0 \<le> rq_processing_opt st
   \<and> bid \<notin> fst ` set (rq_batch_counts st)) \<Longrightarrow> can_run bid ws rs"
  unfolding can_run_def by blast

lemma can_run_active: "can_run bid ws rs \<Longrightarrow> can_run bid (active_of env ws) rs"
proof (rule can_runI)
  fix r st assume ok: "can_run bid ws rs" and r: "r \<in> wi_request_id ` set (active_of env ws)" and st: "map_of rs r = Some st"
  have eq: "nodes_of r (active_of env ws) = nodes_of r ws"
    unfolding active_of_def by (rule nodes_of_filter) (use r in \<open>auto simp: active_of_def\<close>)
  have "r \<in> wi_request_id ` set ws" using r by (auto simp: active_of_def)
  note d = can_runD[OF ok this st]
  show "nodes_of r (active_of env ws) \<le> rq_pending_raw st \<and> 0 \<le> rq_processing_raw st \<and> 0 \<le> rq_processing_opt st
   \<and> bid \<notin> fst ` set (rq_batch_counts st)" using d by (simp add: eq)
qed

text \<open>
  What a batch leaves of the counts: a request of the batch has all its nodes of the batch moved from
  pending to processed, or, when it was cancelled before the run, none.
\<close>

abbreviation requests_of :: "workflow_item list \<Rightarrow> string set" where
  "requests_of ws \<equiv> wi_request_id ` set ws"

definition conserved :: "int \<Rightarrow> request_state \<Rightarrow> request_state \<Rightarrow> bool" where
  "conserved n a b \<longleftrightarrow> (\<exists>k \<in> {0, n}. rq_pending_raw b = rq_pending_raw a - k \<and> rq_processed_raw b = rq_processed_raw a + k)
     \<and> rq_processing_raw b = rq_processing_raw a \<and> rq_processing_opt b = rq_processing_opt a
     \<and> rq_batch_counts b = rq_batch_counts a"

definition accounts ::
  "workflow_item list \<Rightarrow> (string, request_state) dict \<Rightarrow> (string, request_state) dict \<Rightarrow> bool" where
  "accounts ws rs rs' \<longleftrightarrow> (\<forall>r a. map_of rs r = Some a \<longrightarrow>
     (\<exists>b. map_of rs' r = Some b \<and> (if r \<in> requests_of ws then conserved (nodes_of r ws) a b else same_counts a b)))"

lemma accountsD:
  "accounts ws rs rs' \<Longrightarrow> map_of rs r = Some a
    \<Longrightarrow> \<exists>b. map_of rs' r = Some b \<and> (if r \<in> requests_of ws then conserved (nodes_of r ws) a b else same_counts a b)"
  by (simp add: accounts_def)

lemma conserved_same:
  "same_counts a b \<Longrightarrow> conserved n b c \<Longrightarrow> conserved n a c" "conserved n a b \<Longrightarrow> same_counts b c \<Longrightarrow> conserved n a c"
  "same_counts a b \<Longrightarrow> conserved n a b" "settled n a b \<Longrightarrow> conserved n a b"
  by (auto simp: same_counts_def conserved_def settled_def)

lemma nodes_of_append: "nodes_of r (xs @ ys) = nodes_of r xs + nodes_of r ys"
  by (simp add: nodes_of_def)

lemma nodes_of_none: "r \<notin> requests_of ws \<Longrightarrow> nodes_of r ws = 0"
  by (induction ws) (auto simp: nodes_of_def)

lemma accounts_append:
  assumes "accounts xs rs rs1" "accounts ys rs1 rs2" and dis: "requests_of xs \<inter> requests_of ys = {}"
  shows "accounts (xs @ ys) rs rs2"
  unfolding accounts_def
proof (intro allI impI)
  fix r a assume a: "map_of rs r = Some a"
  obtain b where b: "map_of rs1 r = Some b" "if r \<in> requests_of xs then conserved (nodes_of r xs) a b else same_counts a b"
    using accountsD[OF assms(1) a] by blast
  obtain c where c: "map_of rs2 r = Some c" "if r \<in> requests_of ys then conserved (nodes_of r ys) b c else same_counts b c"
    using accountsD[OF assms(2) b(1)] by blast
  have "if r \<in> requests_of (xs @ ys) then conserved (nodes_of r (xs @ ys)) a c else same_counts a c"
  proof (cases "r \<in> requests_of xs")
    case True
    then have "r \<notin> requests_of ys" using dis by blast
    then show ?thesis using True b(2) c(2) conserved_same(2)[of _ a b c] nodes_of_none[of r ys]
      by (simp add: nodes_of_append image_Un)
  next
    case False
    then show ?thesis using b(2) c(2) conserved_same(1)[of a b _ c] same_trans(1)[of a b c] nodes_of_none[of r xs]
      by (simp add: nodes_of_append image_Un)
  qed
  then show "\<exists>c. map_of rs2 r = Some c \<and> (if r \<in> requests_of (xs @ ys) then conserved (nodes_of r (xs @ ys)) a c else same_counts a c)"
    using c(1) by blast
qed

lemma accounts_counts: "table_rel same_counts rs rs' \<Longrightarrow> accounts [] rs rs'"
  unfolding accounts_def using table_relD(1) by fastforce

lemma counts_rel_accounts:
  "counts_rel retry (active_of env ws) rs rs' \<Longrightarrow> accounts (if retry then [] else ws) rs rs'"
  unfolding accounts_def
proof (intro allI impI)
  fix r a assume h: "counts_rel retry (active_of env ws) rs rs'" and a: "map_of rs r = Some a"
  let ?ws = "if retry then [] else ws"
  obtain b where b: "map_of rs' r = Some b" "run_counts retry (active_of env ws) r a b"
    using h a unfolding counts_rel_def by blast
  have act: "r \<in> requests_of ws \<and> nodes_of r (active_of env ws) = nodes_of r ws" if r: "r \<in> requests_of (active_of env ws)"
  proof -
    have "nodes_of r (active_of env ws) = nodes_of r ws"
      unfolding active_of_def by (rule nodes_of_filter) (use r in \<open>auto simp: active_of_def\<close>)
    then show ?thesis using r by (auto simp: active_of_def)
  qed
  have "if r \<in> requests_of ?ws then conserved (nodes_of r ?ws) a b else same_counts a b"
    using b(2) act conserved_same(3)[of a b] conserved_same(4)[of _ a b] by (simp add: run_counts_def split: if_splits)
  then show "\<exists>b. map_of rs' r = Some b \<and> (if r \<in> requests_of ?ws then conserved (nodes_of r ?ws) a b else same_counts a b)"
    using b(1) by blast
qed

lemma run_inner_rel:
  assumes run: "run_inner env workers bid eid isolate release ws wd = (e, retries, wd')" and ok: "can_run bid ws (requests wd)"
  shows "e = None \<and> (retries \<noteq> [] \<longrightarrow> isolate \<and> retries = split_by_request ws)
    \<and> accounts (if retries = [] then ws else []) (requests wd) (requests wd')
    \<and> (if retries = [] then recorded_rel ws (wd_table wd) (wd_table wd')
       else table_rel same_front (requests wd) (requests wd') \<and> rt_answers (wd_table wd') = rt_answers (wd_table wd))
    \<and> wd_busy wd' = (if release \<and> retries = [] then release_workers workers (wd_busy wd) else wd_busy wd)
    \<and> wd_jm wd' = (if retries = [] then finalize_workflows (map wi_id ws) (wd_jm wd) else wd_jm wd)"
proof -
  let ?act = "active_of env ws"
  note act = can_run_active[OF ok, of env]
  obtain e1 rets wd1 where g: "run_guarded env workers bid eid isolate ws ?act wd = (e1, rets, wd1)"
    by (cases "run_guarded env workers bid eid isolate ws ?act wd") auto
  have "set ?act \<subseteq> set ws" by (auto simp: active_of_def)
  note gr = run_guarded_rel[OF g act this]
  obtain e2 wd2 where f: "run_finally env workers bid eid release (rets \<noteq> []) ws ?act wd1 = (e2, wd2)"
    by (cases "run_finally env workers bid eid release (rets \<noteq> []) ws ?act wd1")
  from gr have r1: "in_run bid (raw_by_request ?act) (requests wd) (requests wd1)" by simp
  note fr = run_finally_rel[OF f r1 act]
  have eq: "e = None" "retries = rets" "wd' = wd2" using run g f gr fr by (auto simp: run_inner_def Let_def)
  have acc: "accounts (if rets = [] then ws else []) (requests wd) (requests wd2)"
    using counts_rel_accounts[of "rets \<noteq> []" env ws] fr by auto
  have ff: "table_rel same_front (requests wd1) (requests wd2)" "rt_answers (wd_table wd2) = rt_answers (wd_table wd1)"
    using fr by simp_all
  show ?thesis
  proof (cases "rets = []")
    case True
    then have "recorded_rel ws (wd_table wd) (wd_table wd1)" using gr by simp
    from front_recorded[OF this ff] show ?thesis using True eq acc gr fr by simp
  next
    case False
    then have "table_rel same_front (requests wd) (requests wd1)" using gr by simp
    from front_trans[OF this ff(1)] show ?thesis using False eq acc gr fr by simp
  qed
qed

subsection \<open>Re-runs\<close>

lemma track_fields [simp]:
  "wd_table (track_execution bid eid ws wd) = wd_table wd" "wd_busy (track_execution bid eid ws wd) = wd_busy wd"
  "wd_jm (track_execution bid eid ws wd) = wd_jm wd"
  "wd_table (cleanup_tracking eid ws wd) = wd_table wd" "wd_busy (cleanup_tracking eid ws wd) = wd_busy wd"
  "wd_jm (cleanup_tracking eid ws wd) = wd_jm wd"
  by (simp_all add: track_execution_def cleanup_tracking_def)

lemma start_run_fields:
  "table_rel same_both (requests wd) (requests (start_run env workers bid eid ws wd))"
  "rt_answers (wd_table (start_run env workers bid eid ws wd)) = rt_answers (wd_table wd)"
  "wd_busy (start_run env workers bid eid ws wd) = wd_busy wd" "wd_jm (start_run env workers bid eid ws wd) = wd_jm wd"
  by (simp_all add: start_run_def record_workflow_dispatches_both)

lemma can_run_accounts:
  assumes ok: "can_run bid ws rs" and acc: "accounts vs rs rs'" and tr: "table_rel R rs rs'"
    and sub: "requests_of us \<subseteq> requests_of ws - requests_of vs"
    and n: "\<And>r. r \<in> wi_request_id ` set us \<Longrightarrow> nodes_of r us = nodes_of r ws"
  shows "can_run bid us rs'"
proof (rule can_runI)
  fix r st assume r: "r \<in> wi_request_id ` set us" and st: "map_of rs' r = Some st"
  have r': "r \<in> requests_of ws" "r \<notin> requests_of vs" using r sub by blast+
  obtain a where a: "map_of rs r = Some a" using table_relD(2)[OF tr, of r] st by fastforce
  obtain b where b: "map_of rs' r = Some b" "same_counts a b" using accountsD[OF acc a] r'(2) by auto
  have "st = b" using st b(1) by simp
  then show "nodes_of r us \<le> rq_pending_raw st \<and> 0 \<le> rq_processing_raw st \<and> 0 \<le> rq_processing_opt st
   \<and> bid \<notin> fst ` set (rq_batch_counts st)" using can_runD[OF ok r'(1) a] b(2) n[OF r] by (simp add: same_counts_def)
qed

lemma recorded_requests: "recorded_rel ws t t' \<Longrightarrow> table_rel (\<lambda>a b. True) (rt_requests t) (rt_requests t')"
  by (rule table_relI) (use recorded_relD(1) in blast, use recorded_relD(2) in blast)

lemma run_alone_rel:
  assumes run: "run_alone env workers bid eid ws wd = (e, wd')" and ok: "can_run bid ws (requests wd)"
  shows "e = None \<and> recorded_rel ws (wd_table wd) (wd_table wd')
    \<and> accounts ws (requests wd) (requests wd')
    \<and> wd_busy wd' = wd_busy wd \<and> wd_jm wd' = finalize_workflows (map wi_id ws) (wd_jm wd)"
proof -
  let ?wd0 = "start_run env workers bid eid ws wd"
  note s = start_run_fields[where wd = wd and env = env and workers = workers and bid = bid and eid = eid and ws = ws]
  have c0: "accounts [] (requests wd) (requests ?wd0)" by (rule accounts_counts[OF both_counts[OF s(1)]])
  obtain e1 rets wd1 where i: "run_inner env workers bid eid False False ws ?wd0 = (e1, rets, wd1)"
    by (cases "run_inner env workers bid eid False False ws ?wd0") auto
  have "can_run bid ws (requests ?wd0)" by (rule can_run_accounts[OF ok c0 s(1)]) simp_all
  note ir = run_inner_rel[OF i this]
  have eq: "e = e1" "wd' = cleanup_tracking eid ws wd1" using run i by (auto simp: run_alone_def)
  have rets: "rets = []" using ir by auto
  have rec: "recorded_rel ws (wd_table ?wd0) (wd_table wd1)" using ir rets by simp
  have acc: "accounts ws (requests ?wd0) (requests wd1)" using ir rets by simp
  have "accounts ([] @ ws) (requests wd) (requests wd1)" by (rule accounts_append[OF c0 acc]) simp
  then show ?thesis
    using recorded_front[OF both_front[OF s(1)] s(2) rec] ir rets s(3,4) by (simp add: eq)
qed

lemma recorded_append:
  assumes one: "recorded_rel xs t t1" and two: "recorded_rel ys t1 t2"
    and dis: "wi_request_id ` set xs \<inter> wi_request_id ` set ys = {}"
  shows "recorded_rel (xs @ ys) t t2"
proof (rule recorded_relI)
  fix r assume "map_of (rt_requests t) r = None"
  then show "map_of (rt_requests t2) r = None \<and> answers_of r t2 = answers_of r t"
    using recorded_relD(1)[OF one] recorded_relD(1)[OF two] by metis
next
  fix r a assume "map_of (rt_requests t) r = Some a"
  then obtain b x where b: "map_of (rt_requests t1) r = Some b" "rq_ready b = rq_ready a"
    "rq_pending b = rq_pending a - ids_of_request r xs" "answers_of r t1 = answers_of r t
       @ (if r \<in> wi_request_id ` set xs \<and> rq_pending b = {} \<and> rq_ready b then [x] else [])"
    using recorded_relD(2)[OF one] by blast
  obtain c y where c: "map_of (rt_requests t2) r = Some c" "rq_ready c = rq_ready b"
    "rq_pending c = rq_pending b - ids_of_request r ys" "answers_of r t2 = answers_of r t1
       @ (if r \<in> wi_request_id ` set ys \<and> rq_pending c = {} \<and> rq_ready c then [y] else [])"
    using recorded_relD(2)[OF two b(1)] by blast
  have empty: "ids_of_request r zs = {}" if "r \<notin> wi_request_id ` set zs" for zs
    using that by (auto simp: ids_of_request_def)
  have un: "ids_of_request r (xs @ ys) = ids_of_request r xs \<union> ids_of_request r ys" by (auto simp: ids_of_request_def)
  have "\<exists>resp. answers_of r t2 = answers_of r t
      @ (if r \<in> wi_request_id ` set (xs @ ys) \<and> rq_pending c = {} \<and> rq_ready c then [resp] else [])"
  proof (cases "r \<in> wi_request_id ` set xs")
    case True
    then have "r \<notin> wi_request_id ` set ys" using dis by blast
    then have "answers_of r t2 = answers_of r t1" "ids_of_request r ys = {}" using c(4) empty by simp_all
    moreover have "r \<in> wi_request_id ` set (xs @ ys)" using True by (simp add: image_Un)
    ultimately show ?thesis using b(4) b(2) c(2,3) True by (intro exI[of _ x]) simp
  next
    case False
    then have "answers_of r t1 = answers_of r t" using b(4) by simp
    then show ?thesis using c(4) False by (intro exI[of _ y]) (simp add: image_Un)
  qed
  moreover have "rq_pending c = rq_pending a - ids_of_request r (xs @ ys)" using b(3) c(3) un by blast
  ultimately show "\<exists>b. map_of (rt_requests t2) r = Some b \<and> rq_ready b = rq_ready a
        \<and> rq_pending b = rq_pending a - ids_of_request r (xs @ ys)
        \<and> (\<exists>resp. answers_of r t2 = answers_of r t
             @ (if r \<in> wi_request_id ` set (xs @ ys) \<and> rq_pending b = {} \<and> rq_ready b then [resp] else []))"
    using c(1,2) b(2) by (intro exI[of _ c]) simp
qed

definition separate :: "workflow_item list list \<Rightarrow> bool" where
  "separate gs \<longleftrightarrow> sorted_wrt (\<lambda>xs ys. requests_of xs \<inter> requests_of ys = {}) gs"

lemma finalize_append: "finalize_workflows (xs @ ys) s = finalize_workflows ys (finalize_workflows xs s)"
  by (simp add: finalize_workflows_def case_prod_beta')

lemma finalize_set: "set xs = set ys \<Longrightarrow> finalize_workflows xs s = finalize_workflows ys s"
  by (simp add: finalize_workflows_def)

lemma recorded_set: "recorded_rel xs t t' \<Longrightarrow> set xs = set ys \<Longrightarrow> recorded_rel ys t t'"
proof -
  assume rec: "recorded_rel xs t t'" and eq: "set xs = set ys"
  have ids: "ids_of_request r xs = ids_of_request r ys" for r using eq by (auto simp: ids_of_request_def)
  show ?thesis using rec unfolding recorded_rel_def ids eq .
qed

lemma recorded_refl: "recorded_rel [] t t"
  by (rule recorded_relI) (simp_all add: ids_of_request_def)

lemma run_retries_rel:
  assumes "separate gs" "\<forall>i. \<forall>g \<in> set gs. can_run (fst (snd (runs i))) g (requests wd)"
    and "run_retries runs workers i gs wd = wd'"
  shows "recorded_rel (concat gs) (wd_table wd) (wd_table wd') \<and> accounts (concat gs) (requests wd) (requests wd')
    \<and> wd_busy wd' = wd_busy wd \<and> wd_jm wd' = finalize_workflows (map wi_id (concat gs)) (wd_jm wd)"
  using assms
proof (induction gs arbitrary: i wd)
  case Nil
  then show ?case by (simp add: recorded_refl accounts_counts table_rel_refl finalize_workflows_def)
next
  case (Cons g gs)
  obtain env bid eid where r: "runs i = (env, bid, eid)" by (cases "runs i") auto
  obtain e wd1 where a: "run_alone env workers bid eid g wd = (e, wd1)" by (cases "run_alone env workers bid eid g wd")
  have "can_run bid g (requests wd)" using Cons.prems(2) r by (metis fst_conv snd_conv list.set_intros(1))
  note ar = run_alone_rel[OF a this]
  then have one: "recorded_rel g (wd_table wd) (wd_table wd1)" "accounts g (requests wd) (requests wd1)" by simp_all
  have sep: "separate gs" "requests_of g \<inter> requests_of (concat gs) = {}"
    using Cons.prems(1) by (auto simp: separate_def)
  have "can_run (fst (snd (runs j))) h (requests wd1)" if h: "h \<in> set gs" for j h
  proof (rule can_run_accounts[OF _ one(2) recorded_requests[OF one(1)]])
    show "can_run (fst (snd (runs j))) h (requests wd)" using Cons.prems(2) h by simp
    show "requests_of h \<subseteq> requests_of h - requests_of g" using Cons.prems(1) h by (auto simp: separate_def)
  qed simp
  then have can: "\<forall>j. \<forall>h \<in> set gs. can_run (fst (snd (runs j))) h (requests wd1)" by blast
  have two: "run_retries runs workers (Suc i) gs wd1 = wd'" using Cons.prems(3) r a ar by simp
  note ih = Cons.IH[OF sep(1) can two]
  have "recorded_rel (g @ concat gs) (wd_table wd) (wd_table wd')"
    using recorded_append[OF one(1) _ sep(2)] ih by blast
  moreover have "accounts (g @ concat gs) (requests wd) (requests wd')"
    using accounts_append[OF one(2) _ sep(2)] ih by blast
  ultimately show ?case using ih ar by (simp add: finalize_append image_Un)
qed

subsection \<open>The split by request\<close>

lemma split_by_request_groups:
  "\<exists>ks. distinct ks \<and> set ks = requests_of ws \<and> split_by_request ws = map (\<lambda>r. of_request r ws) ks"
proof -
  let ?d = "foldl (\<lambda>d w. push_group (wi_request_id w) w d) [] ws"
  note keys = foldl_push_keys[where f = wi_request_id and g = "\<lambda>w. w" and xs = ws]
  have "snd x = of_request (fst x) ws" if x: "x \<in> set ?d" for x
  proof -
    have "map_of ?d (fst x) = Some (snd x)" using x keys(1) by simp
    then show ?thesis
      using foldl_push_lookup[where f = wi_request_id and g = "\<lambda>w. w" and xs = ws and k = "fst x"]
      by (simp add: of_request_def split: if_splits)
  qed
  then have "split_by_request ws = map (\<lambda>r. of_request r ws) (map fst ?d)" by (simp add: split_by_request_def)
  moreover have "set (map fst ?d) = requests_of ws" using keys(2) by simp
  ultimately show ?thesis using keys(1) by blast
qed

lemma of_request_requests: "requests_of (of_request r ws) \<subseteq> {r}"
  by (auto simp: of_request_def)

lemma split_by_request_separate: "separate (split_by_request ws)"
proof -
  obtain ks where ks: "distinct ks" "split_by_request ws = map (\<lambda>r. of_request r ws) ks" using split_by_request_groups by blast
  have "sorted_wrt (\<noteq>) ks" using ks(1) by (simp add: distinct_conv_nth sorted_wrt_iff_nth_less)
  then have "sorted_wrt (\<lambda>r q. requests_of (of_request r ws) \<inter> requests_of (of_request q ws) = {}) ks"
    by (rule sorted_wrt_mono_rel[rotated]) (use of_request_requests in blast)
  then show ?thesis by (simp add: separate_def ks(2) sorted_wrt_map)
qed

lemma split_by_request_items: "set (concat (split_by_request ws)) = set ws"
proof -
  obtain ks where ks: "set ks = requests_of ws" "split_by_request ws = map (\<lambda>r. of_request r ws) ks"
    using split_by_request_groups by blast
  have "set (concat (split_by_request ws)) = {w \<in> set ws. wi_request_id w \<in> set ks}"
    by (auto simp: ks(2) of_request_def)
  then show ?thesis using ks(1) by auto
qed

lemma nodes_of_split: "nodes_of r (concat (split_by_request ws)) = nodes_of r ws"
proof -
  obtain ks where ks: "distinct ks" "set ks = requests_of ws" "split_by_request ws = map (\<lambda>r. of_request r ws) ks"
    using split_by_request_groups by blast
  have other: "nodes_of r (of_request k ws) = (if k = r then nodes_of r ws else 0)" for k
    using nodes_of_request nodes_of_none[of r "of_request k ws"] of_request_requests[of k ws] by auto
  have "nodes_of r (concat (map (\<lambda>r. of_request r ws) us)) = (if r \<in> set us then nodes_of r ws else 0)" if "distinct us" for us
    using that by (induction us) (auto simp: nodes_of_append other nodes_of_none)
  then show ?thesis using ks nodes_of_none[of r ws] by simp
qed

lemma accounts_split: "accounts (concat (split_by_request ws)) rs rs' \<longleftrightarrow> accounts ws rs rs'"
  unfolding accounts_def nodes_of_split split_by_request_items ..

lemma can_run_split:
  assumes "can_run bid ws rs" "g \<in> set (split_by_request ws)"
  shows "can_run bid g rs"
proof -
  obtain r where g: "g = of_request r ws" using split_by_request_groups[of ws] assms(2) by auto
  show ?thesis
    unfolding g
  proof (rule can_runI)
    fix q st assume q: "q \<in> requests_of (of_request r ws)" and st: "map_of rs q = Some st"
    have qr: "q = r" using of_request_requests q by blast
    have "q \<in> requests_of ws" using q by (auto simp: of_request_def)
    from can_runD[OF assms(1) this st]
    show "nodes_of q (of_request r ws) \<le> rq_pending_raw st \<and> 0 \<le> rq_processing_raw st \<and> 0 \<le> rq_processing_opt st
      \<and> bid \<notin> fst ` set (rq_batch_counts st)" by (simp add: qr nodes_of_request)
  qed
qed

subsection \<open>A batch\<close>

lemma run_batch_rel:
  assumes can: "\<And>i. can_run (fst (snd (runs i))) ws (requests wd)"
  shows "\<exists>wd'. run_batch runs workers ws wd = (None, wd') \<and> recorded_rel ws (wd_table wd) (wd_table wd')
    \<and> accounts ws (requests wd) (requests wd') \<and> wd_busy wd' = wd_busy wd - set workers
    \<and> wd_jm wd' = finalize_workflows (map wi_id ws) (wd_jm wd)"
proof -
  obtain env bid eid where r: "runs 0 = (env, bid, eid)" by (cases "runs 0") auto
  let ?wd0 = "start_run env workers bid eid ws wd"
  note s = start_run_fields[where wd = wd and env = env and workers = workers and bid = bid and eid = eid and ws = ws]
  have c0: "accounts [] (requests wd) (requests ?wd0)" by (rule accounts_counts[OF both_counts[OF s(1)]])
  obtain e rets wd1 where i: "run_inner env workers bid eid True True ws ?wd0 = (e, rets, wd1)"
    by (cases "run_inner env workers bid eid True True ws ?wd0") auto
  have can0: "can_run (fst (snd (runs i))) ws (requests ?wd0)" for i
    by (rule can_run_accounts[OF can c0 s(1)]) simp_all
  have "can_run bid ws (requests ?wd0)" using can0[of 0] r by simp
  note ir = run_inner_rel[OF i this]
  show ?thesis
  proof (cases "rets = []")
    case True
    have rec: "recorded_rel ws (wd_table wd) (wd_table wd1)"
      using recorded_front[OF both_front[OF s(1)] s(2)] ir True by simp
    have "accounts ([] @ ws) (requests wd) (requests wd1)"
      by (rule accounts_append[OF c0]) (use ir True in simp_all)
    moreover have "run_batch runs workers ws wd = (None, cleanup_tracking eid ws wd1)"
      using ir True i by (simp add: run_batch_def r)
    ultimately show ?thesis using rec ir True s(3,4) by (simp add: release_workers_def)
  next
    case False
    let ?gs = "split_by_request ws" and ?wd2 = "cleanup_tracking eid ws wd1"
    define wd3 where "wd3 = run_retries runs workers 1 ?gs ?wd2"
    have rets: "rets = ?gs" "e = None" using ir False by simp_all
    have f1: "table_rel same_front (requests ?wd0) (requests wd1)" "rt_answers (wd_table wd1) = rt_answers (wd_table ?wd0)"
      using ir False by simp_all
    have c1: "accounts [] (requests ?wd0) (requests wd1)" using ir False by simp
    have acc: "accounts [] (requests wd) (requests wd1)" using accounts_append[OF c0 c1] by simp
    have front: "table_rel same_front (requests wd) (requests wd1)" by (rule front_trans[OF both_front[OF s(1)] f1(1)])
    have "can_run (fst (snd (runs j))) g (requests ?wd2)" if g: "g \<in> set ?gs" for j g
    proof -
      have "can_run (fst (snd (runs j))) ws (requests wd1)" by (rule can_run_accounts[OF can acc front]) simp_all
      then show ?thesis using can_run_split[OF _ g] by simp
    qed
    then have "\<forall>j. \<forall>g \<in> set ?gs. can_run (fst (snd (runs j))) g (requests ?wd2)" by blast
    note rr = run_retries_rel[OF split_by_request_separate this wd3_def[symmetric]]
    then have "recorded_rel (concat ?gs) (wd_table wd1) (wd_table wd3)" by simp
    then have "recorded_rel ws (wd_table wd1) (wd_table wd3)" by (rule recorded_set[OF _ split_by_request_items])
    then have rec: "recorded_rel ws (wd_table wd) (wd_table wd3)"
      using recorded_front[OF front] f1(2) s(2) by simp
    have "accounts ws (requests wd1) (requests wd3)"
      using rr accounts_split by simp
    then have acc3: "accounts ws (requests wd) (requests wd3)" using accounts_append[OF acc] by simp
    have jm: "wd_jm wd3 = finalize_workflows (map wi_id ws) (wd_jm wd)"
    proof -
      have "set (map wi_id (concat ?gs)) = set (map wi_id ws)" unfolding set_map split_by_request_items by (rule refl)
      then show ?thesis using rr ir False s(4) finalize_set by simp
    qed
    have busy: "wd_busy wd3 = wd_busy wd" using rr ir False s(3) by simp
    have "run_batch runs workers ws wd = (None, wd3\<lparr>wd_busy := release_workers workers (wd_busy wd3)\<rparr>)"
      using i rets False by (simp add: run_batch_def r Let_def wd3_def)
    then show ?thesis using rec acc3 jm busy by (simp add: release_workers_def)
  qed
qed

end
