(* ===== verification/Server_Loop.thy ===== *)
theory Server_Loop
  imports Server_Accounts Capacity
begin

section \<open>The server's loop\<close>

text \<open>
  \<open>handle_request\<close> and \<open>_scheduler_loop\<close> of \<open>runtime/server.py\<close>, over the world of \<open>Server_Batch\<close>: a request is
  registered and its workflows queued; the scheduler reserves a batch, claims workers for it, commits and starts
  a run, or gives everything back; runs end in any order. Each operation is a function on the world, and the
  step relation interleaves them as the event loop does. A run is one step, at the time it ends. Waiting
  has no step of its own, and snapshots are unconstrained: they may be as stale as they like.
\<close>

record loop_config =
  lc_jobs :: jm_config
  lc_server :: server_config
  lc_batch_size :: int

subsection \<open>Taking a request\<close>

text \<open>The fields of a \<open>RequestHandler\<close> the server reads.\<close>

record request_handler =
  hr_id :: string
  hr_query :: "(string, runtime_graph) dict"
  hr_has_dsl :: bool
  hr_profile_graphs :: "(string, runtime_graph) dict"
  hr_slices :: "(string, slice_meta) dict"
  hr_config :: request_config

definition request_lengths :: "(string, slice_meta) dict \<Rightarrow> (string, int) dict" where
  "request_lengths slices =
     foldl (\<lambda>d (_, sm). AList.update (sm_public_graph_name sm)
              (max (dict_get d (sm_public_graph_name sm) 0) (sm_total_length sm)) d) [] slices"

definition new_request_state :: "request_handler \<Rightarrow> request_state" where
  "new_request_state hr =
     \<lparr>rq_config = hr_config hr, rq_pending = {}, rq_outputs = [], rq_histories = [], rq_output_buffers = [],
      rq_history_buffers = [], rq_workflow_lengths = request_lengths (hr_slices hr), rq_error_info = None,
      rq_task_node_map = [], rq_pending_raw = sum_list (map (\<lambda>(_, g). int (node_count g)) (hr_query hr)),
      rq_processing_raw = 0, rq_processing_opt = 0, rq_processed_raw = 0, rq_processed_opt = 0,
      rq_optimization_s = 0, rq_selection_s = 0, rq_clustering_s = 0, rq_dispatches = [], rq_batch_counts = [],
      rq_total_items = sum_list (map (\<lambda>(_, n). max 0 n) (request_lengths (hr_slices hr))),
      rq_completed_items = 0, rq_successful = {}, rq_list_lambda = [], rq_ready = False\<rparr>"

text \<open>The job, with the dispatch token and the credential digest kept for the request.\<close>

definition job_of_request :: "request_handler \<Rightarrow> string option \<Rightarrow> string option \<Rightarrow> job" where
  "job_of_request hr token digest =
     \<lparr>jb_request_id = hr_id hr, jb_graphs = hr_query hr, jb_profile_graphs = hr_profile_graphs hr, jb_slices = hr_slices hr,
      jb_config = hr_config hr, jb_dispatch_token = token, jb_credential_digest = digest,
      jb_requires_gpu = map (\<lambda>(n, g). (n, \<exists>op \<in> set (ops_of g). runtime_op_requires_gpu op)) (hr_query hr)\<rparr>"

definition mark_queued :: "string list \<Rightarrow> request_state \<Rightarrow> request_state" where
  "mark_queued wids st = st\<lparr>rq_pending := rq_pending st \<union> set wids, rq_ready := True\<rparr>"

text \<open>An error of the job manager leaves the request registered, but not ready.\<close>

definition queue_request ::
  "loop_config \<Rightarrow> request_handler \<Rightarrow> string option \<Rightarrow> string option \<Rightarrow> real \<Rightarrow> string list \<Rightarrow> world
    \<Rightarrow> py_error option \<times> world" where
  "queue_request cfg hr token digest now ids wd =
     (let wd1 = map_requests (AList.update (hr_id hr) (new_request_state hr)) wd
      in case enqueue (lc_jobs cfg) (job_of_request hr token digest) now ids (wd_jm wd1) of
           (Inl e, jm) \<Rightarrow> (Some e, wd1\<lparr>wd_jm := jm\<rparr>)
         | (Inr its, jm) \<Rightarrow>
             (None, (map_requests (with_request (hr_id hr) (mark_queued (map wi_id its))) wd1)\<lparr>wd_jm := jm\<rparr>))"

definition handle_request ::
  "loop_config \<Rightarrow> request_handler \<Rightarrow> string option \<Rightarrow> string option \<Rightarrow> real \<Rightarrow> string list \<Rightarrow> world
    \<Rightarrow> py_error option \<times> world" where
  "handle_request cfg hr token digest now ids wd =
     (if hr_query hr = []
      then (None, wd\<lparr>wd_table := put_result (hr_id hr)
                     \<lparr>rp_outputs = [], rp_error_info = None, rp_histories = []\<rparr> (wd_table wd)\<rparr>)
      else if \<not> hr_has_dsl hr then (Some (RuntimeError ''DSL graphs are required before queueing''), wd)
      else if \<exists>x \<in> set (hr_slices hr). fst x \<notin> fst ` set (hr_query hr)
      then (Some (RuntimeError ''Missing runtime graph for workflow slice''), wd)
      else queue_request cfg hr token digest now ids wd)"

subsection \<open>The scheduler\<close>

text \<open>\<open>_maybe_wait_for_batch_accumulation\<close>: how long it sleeps.\<close>

definition accumulation_wait :: "real \<Rightarrow> real \<Rightarrow> free_capacity \<Rightarrow> jm_state \<Rightarrow> real option" where
  "accumulation_wait wait now free s =
     (if wait \<le> 0 then None
      else case pending_stats s of
          (n, None) \<Rightarrow> None
        | (n, Some oldest) \<Rightarrow>
            if n = 0 \<or> n \<le> length (fc_cpu free) + length (fc_gpu free) \<or> wait - (now - oldest) \<le> 0 then None
            else Some (wait - (now - oldest)))"

text \<open>Workflows no worker of the cluster can ever run are failed and leave the queue.\<close>

definition fail_doomed :: "loop_config \<Rightarrow> free_capacity \<Rightarrow> real \<Rightarrow> world \<Rightarrow> bool \<times> world" where
  "fail_doomed cfg whole now wd =
     (case permanently_unsatisfiable (lc_jobs cfg) whole now (wd_jm wd) of
        (its, jm) \<Rightarrow>
          if its = [] then (False, wd\<lparr>wd_jm := jm\<rparr>)
          else (True, wd\<lparr>wd_table := fail_unplaceable (lc_server cfg) its (wd_table wd),
                        wd_jm := remove_workflows (lc_jobs cfg) (map wi_id its) jm\<rparr>))"

datatype loop_stage = Idle | Reserved reservation | Claimed reservation "string list"

definition reserve_stage :: "loop_config \<Rightarrow> free_capacity \<Rightarrow> world \<Rightarrow> loop_stage \<times> world" where
  "reserve_stage cfg free wd =
     (case reserve_batch (lc_jobs cfg) (lc_batch_size cfg) (if jc_capacity_aware (lc_jobs cfg) then Some free else None) (wd_jm wd) of
        (Inr (Some r), jm) \<Rightarrow> (Reserved r, wd\<lparr>wd_jm := jm\<rparr>)
      | (_, jm) \<Rightarrow> (Idle, wd\<lparr>wd_jm := jm\<rparr>))"

definition give_back :: "reservation \<Rightarrow> string list \<Rightarrow> world \<Rightarrow> world" where
  "give_back r workers wd =
     wd\<lparr>wd_busy := release_workers workers (wd_busy wd), wd_jm := snd (abort_reservation r (wd_jm wd))\<rparr>"

definition claim_stage ::
  "loop_config \<Rightarrow> free_capacity \<Rightarrow> free_capacity \<Rightarrow> reservation \<Rightarrow> world \<Rightarrow> loop_stage \<times> world" where
  "claim_stage cfg free whole r wd =
     (case try_claim_workers (lc_server cfg) (rs_selection r) free whole (wd_busy wd) of
        (None, busy) \<Rightarrow> (Idle, give_back r [] wd)
      | (Some workers, busy) \<Rightarrow> (Claimed r workers, wd\<lparr>wd_busy := busy\<rparr>))"

text \<open>The run the commit starts, if the commit goes through; otherwise the \<open>finally\<close> gives everything back.\<close>

definition commit_stage ::
  "loop_config \<Rightarrow> real \<Rightarrow> real \<Rightarrow> reservation \<Rightarrow> string list \<Rightarrow> world \<Rightarrow> (string list \<times> workflow_item list) option \<times> world" where
  "commit_stage cfg selection_s clustering_s r workers wd =
     (case commit_reservation (lc_jobs cfg) r (wd_jm wd) of
        (Some e, jm) \<Rightarrow> (None, give_back r workers (wd\<lparr>wd_jm := jm\<rparr>))
      | (None, jm) \<Rightarrow>
          (let ws = bs_workflows (rs_selection r)
           in (Some (workers, ws), map_requests (record_job_manager_time (request_ids ws)
                 (max 0 (selection_s - clustering_s)) clustering_s) (wd\<lparr>wd_jm := jm\<rparr>))))"

subsection \<open>Steps\<close>

record server =
  sv_world :: world
  sv_stage :: loop_stage
  sv_flights :: "(string list \<times> workflow_item list) list"
  sv_seen :: "string list"
  sv_requests :: "string list"

definition world_init :: "policy \<Rightarrow> world" where
  "world_init pol = \<lparr>wd_table = \<lparr>rt_requests = [], rt_answers = []\<rparr>, wd_busy = {}, wd_jm = jm_init pol, wd_cache = [],
     wd_contexts = [], wd_executions = [], wd_history = [], wd_unreleased = []\<rparr>"

definition server_init :: "policy \<Rightarrow> server" where
  "server_init pol = \<lparr>sv_world = world_init pol, sv_stage = Idle, sv_flights = [], sv_seen = [], sv_requests = []\<rparr>"

text \<open>
  Request ids and the ids \<open>unique_id()\<close> returns are new. A claim may also fail by an exception of the runtime
  service (\<open>step_dropped\<close>).
\<close>

inductive server_step :: "loop_config \<Rightarrow> server \<Rightarrow> server \<Rightarrow> bool" for cfg where
  step_submit: "hr_id hr \<notin> set (sv_requests S) \<Longrightarrow> length (hr_query hr) \<le> length ids \<Longrightarrow> distinct ids \<Longrightarrow>
    set ids \<inter> set (sv_seen S) = {} \<Longrightarrow> handle_request cfg hr token digest now ids (sv_world S) = (e, wd) \<Longrightarrow>
    server_step cfg S (S\<lparr>sv_world := wd, sv_seen := ids @ sv_seen S, sv_requests := hr_id hr # sv_requests S\<rparr>)"
| step_doomed: "sv_stage S = Idle \<Longrightarrow> jc_capacity_aware (lc_jobs cfg) \<Longrightarrow> fail_doomed cfg whole now (sv_world S) = (b, wd) \<Longrightarrow>
    server_step cfg S (S\<lparr>sv_world := wd\<rparr>)"
| step_select: "sv_stage S = Idle \<Longrightarrow> \<not> fc_is_empty free \<Longrightarrow> reserve_stage cfg free (sv_world S) = (stg, wd) \<Longrightarrow>
    server_step cfg S (S\<lparr>sv_world := wd, sv_stage := stg\<rparr>)"
| step_claim: "sv_stage S = Reserved r \<Longrightarrow> claim_stage cfg free whole r (sv_world S) = (stg, wd) \<Longrightarrow>
    server_step cfg S (S\<lparr>sv_world := wd, sv_stage := stg\<rparr>)"
| step_dropped: "sv_stage S = Reserved r \<Longrightarrow> server_step cfg S (S\<lparr>sv_world := give_back r [] (sv_world S), sv_stage := Idle\<rparr>)"
| step_dispatch: "sv_stage S = Claimed r workers \<Longrightarrow> commit_stage cfg selection_s clustering_s r workers (sv_world S) = (flight, wd) \<Longrightarrow>
    server_step cfg S (S\<lparr>sv_world := wd, sv_stage := Idle,
      sv_flights := (case flight of None \<Rightarrow> [] | Some f \<Rightarrow> [f]) @ sv_flights S\<rparr>)"
| step_finish: "(workers, ws) \<in> set (sv_flights S) \<Longrightarrow> run_batch runs workers ws (sv_world S) = (e, wd) \<Longrightarrow>
    server_step cfg S (S\<lparr>sv_world := wd, sv_flights := remove1 (workers, ws) (sv_flights S)\<rparr>)"

inductive server_reachable :: "loop_config \<Rightarrow> server \<Rightarrow> bool" for cfg where
  reach_start: "server_reachable cfg (server_init pol)"
| reach_next: "server_reachable cfg S \<Longrightarrow> server_step cfg S T \<Longrightarrow> server_reachable cfg T"

text \<open>The workflows the server still holds: queued (a reserved batch stays queued) or in flight.\<close>

definition held :: "server \<Rightarrow> workflow_item list" where
  "held S = all_items (wd_jm (sv_world S)) @ concat (map snd (sv_flights S))"

definition worker_sets :: "server \<Rightarrow> string list list" where
  "worker_sets S = (case sv_stage S of Claimed _ ws \<Rightarrow> [ws] | _ \<Rightarrow> []) @ map fst (sv_flights S)"

end
