(* ===== verification/Job_Manager_Inv.thy ===== *)
theory Job_Manager_Inv
  imports Job_Manager
begin

section \<open>The job manager's invariant\<close>

text \<open>
  What every operation of the job manager keeps: the queues are keyed by the users and priorities of
  their items, the round-robin orders mirror them, workflow ids are unique, a queued item and its
  entry in \<open>_items\<close> agree, and the partition order lists queued partitions once. Then what each
  operation does to the queued items.
\<close>

subsection \<open>Queued items\<close>

definition drop_items :: "string set \<Rightarrow> workflow_item list \<Rightarrow> workflow_item list" where
  "drop_items W its = filter (\<lambda>it. wi_id it \<notin> W) its"

lemma queue_items_Nil [simp]: "queue_items [] = []"
  by (simp add: queue_items_def)

lemma queue_items_Cons [simp]: "queue_items ((u, q) # uq) = q @ queue_items uq"
  by (simp add: queue_items_def)

lemma queue_items_append [simp]: "queue_items (a @ b) = queue_items a @ queue_items b"
  by (simp add: queue_items_def)

lemma queue_items_drop_ids: "queue_items (drop_ids W uq) = drop_items W (queue_items uq)"
  by (induction uq) (auto simp: drop_ids_def drop_items_def queue_items_def)

lemma queue_items_map: "queue_items (map (\<lambda>(u, q). (u, map f q)) uq) = map f (queue_items uq)"
  by (induction uq) auto

lemma all_items_eq:
  "all_items s = queue_items (jm_queues s HIGH) @ queue_items (jm_queues s MEDIUM) @ queue_items (jm_queues s LOW)"
  by (simp add: all_items_def priorities_def)

lemma priorities_UNIV: "p \<in> set priorities"
  by (cases p) (auto simp: priorities_def)

lemma set_all_items: "set (all_items s) = (\<Union>p. set (queue_items (jm_queues s p)))"
  by (auto simp: all_items_def priorities_UNIV)

lemma has_work_iff: "has_work s \<longleftrightarrow> all_items s \<noteq> []"
  by (auto simp: has_work_def priority_queue_size_def all_items_eq priorities_def)

lemma mset_push_group_items:
  "mset (queue_items (push_group u it uq)) = add_mset it (mset (queue_items uq))"
proof (cases "map_of uq u")
  case None
  then show ?thesis by (simp add: push_group_def)
next
  case (Some vs)
  have "mset (queue_items (AList.update u (vs @ [it]) uq)) = add_mset it (mset (queue_items uq))"
    using Some by (induction uq) (auto split: if_splits)
  then show ?thesis using Some by (simp add: push_group_def)
qed

subsection \<open>The invariant\<close>

definition queue_ok :: "priority \<Rightarrow> user_queues \<Rightarrow> string list \<Rightarrow> bool" where
  "queue_ok p uq order \<longleftrightarrow>
     distinct (map fst uq) \<and> distinct order \<and> set order = fst ` set uq
   \<and> (\<forall>(u, q) \<in> set uq. q \<noteq> [] \<and> (\<forall>it \<in> set q. user_of it = u \<and> rc_priority (wi_config it) = p))"

definition queues_ok :: "jm_state \<Rightarrow> bool" where
  "queues_ok s \<longleftrightarrow> (\<forall>p. queue_ok p (jm_queues s p) (jm_rr_users s p))"

definition ids_ok :: "jm_state \<Rightarrow> bool" where
  "ids_ok s \<longleftrightarrow> distinct (map wi_id (all_items s))
     \<and> (\<forall>it \<in> set (all_items s). map_of (jm_items s) (wi_id it) \<in> {None, Some it})"

definition rr_ok :: "jm_config \<Rightarrow> jm_state \<Rightarrow> bool" where
  "rr_ok cfg s \<longleftrightarrow> distinct (jm_rr_order s) \<and> jm_rr_members s = set (jm_rr_order s)
     \<and> set (jm_rr_order s) \<subseteq> partition_of cfg ` set (all_items s)"

definition dwell_ok :: "jm_state \<Rightarrow> bool" where
  "dwell_ok s \<longleftrightarrow> fst ` set (jm_since s) = fst ` set (jm_count s)"

definition jm_inv :: "jm_config \<Rightarrow> jm_state \<Rightarrow> bool" where
  "jm_inv cfg s \<longleftrightarrow> queues_ok s \<and> ids_ok s \<and> rr_ok cfg s \<and> dwell_ok s"

lemma jm_inv_init [inv_intros]: "jm_inv cfg (jm_init pol)"
  by (simp add: jm_inv_def queues_ok_def queue_ok_def ids_ok_def rr_ok_def dwell_ok_def jm_init_def all_items_def queue_items_def priorities_def)

text \<open>The parts of the state the invariant reads.\<close>

lemma all_items_cong: "jm_queues s = jm_queues t \<Longrightarrow> all_items s = all_items t"
  by (simp add: all_items_def)

lemma jm_inv_cong:
  assumes "jm_queues s = jm_queues t" "jm_rr_users s = jm_rr_users t" "jm_items s = jm_items t"
    "jm_rr_order s = jm_rr_order t" "jm_rr_members s = jm_rr_members t" "jm_since s = jm_since t" "jm_count s = jm_count t"
  shows "jm_inv cfg s = jm_inv cfg t"
  using assms all_items_cong[OF assms(1)]
  by (simp add: jm_inv_def queues_ok_def ids_ok_def rr_ok_def dwell_ok_def)

lemma jm_inv_update [simp]:
  "jm_inv cfg (s\<lparr>jm_not_empty := b\<rparr>) = jm_inv cfg s"
  "jm_inv cfg (s\<lparr>jm_policy := pol\<rparr>) = jm_inv cfg s"
  "jm_inv cfg (s\<lparr>jm_active := r\<rparr>) = jm_inv cfg s"
  "jm_inv cfg (s\<lparr>jm_serial := n\<rparr>) = jm_inv cfg s"
  by (rule jm_inv_cong; simp)+

lemma partition_of_miss [simp]: "partition_of cfg (it\<lparr>wi_miss_count := n\<rparr>) = partition_of cfg it"
  by (simp add: partition_of_def)

lemma user_of_miss [simp]: "user_of (it\<lparr>wi_miss_count := n\<rparr>) = user_of it"
  by (simp add: user_of_def)

lemma miss_simps [simp]:
  "wi_id (miss w it) = wi_id it" "user_of (miss w it) = user_of it" "wi_config (miss w it) = wi_config it"
  "partition_of cfg (miss w it) = partition_of cfg it"
  by (simp_all add: miss_def)

subsection \<open>Enqueue\<close>

lemma queue_ok_push:
  assumes "queue_ok p uq order" "user_of it = u" "rc_priority (wi_config it) = p"
  shows "queue_ok p (push_group u it uq) (if u \<in> fst ` set uq then order else order @ [u])"
proof -
  have keys: "map fst (push_group u it uq) = append_new (map fst uq) u" by (rule push_group_keys)
  have setk: "fst ` set (push_group u it uq) = insert u (fst ` set uq)"
    using arg_cong[OF keys, of set] by simp
  have d: "distinct (map fst (push_group u it uq))" using assms(1) keys by (simp add: queue_ok_def)
  have body: "q \<noteq> [] \<and> (\<forall>x \<in> set q. user_of x = v \<and> rc_priority (wi_config x) = p)"
    if "(v, q) \<in> set (push_group u it uq)" for v q
  proof -
    have m: "map_of (push_group u it uq) v = Some q" using that d by (simp add: map_of_is_SomeI)
    show ?thesis
    proof (cases "v = u")
      case True
      then have "q = (case map_of uq u of None \<Rightarrow> [] | Some vs \<Rightarrow> vs) @ [it]"
        using m by (simp add: push_group_lookup)
      moreover have "\<forall>x \<in> set vs. user_of x = u \<and> rc_priority (wi_config x) = p" if "map_of uq u = Some vs" for vs
        using assms(1) map_of_SomeD[OF that] by (auto simp: queue_ok_def)
      ultimately show ?thesis using assms(2,3) True by (auto split: option.splits)
    next
      case False
      then have "(v, q) \<in> set uq" using m by (simp add: push_group_lookup map_of_SomeD)
      then show ?thesis using assms(1) by (auto simp: queue_ok_def)
    qed
  qed
  show ?thesis
    using assms(1) d body setk by (auto simp: queue_ok_def)
qed

lemma enqueue_item_queues:
  "jm_queues (enqueue_item cfg it s) = (jm_queues s)(rc_priority (wi_config it) :=
      push_group (user_of it) it (jm_queues s (rc_priority (wi_config it))))"
  "jm_items (enqueue_item cfg it s) = AList.update (wi_id it) it (jm_items s)"
  by (simp_all add: enqueue_item_def Let_def)

lemma enqueue_item_all: "mset (all_items (enqueue_item cfg it s)) = add_mset it (mset (all_items s))"
  by (cases "rc_priority (wi_config it)")
    (simp_all add: all_items_eq enqueue_item_queues mset_push_group_items)

lemma enqueue_item_inv [inv_intros]:
  assumes "jm_inv cfg s" "wi_id it \<notin> wi_id ` set (all_items s)"
  shows "jm_inv cfg (enqueue_item cfg it s)"
proof -
  let ?t = "enqueue_item cfg it s" and ?p = "rc_priority (wi_config it)"
  have set: "set (all_items ?t) = insert it (set (all_items s))"
    using enqueue_item_all[of cfg it s] by (metis set_mset_add_mset_insert set_mset_mset)
  have users: "jm_rr_users ?t = (if user_of it \<in> fst ` set (jm_queues s ?p) then jm_rr_users s
      else (jm_rr_users s)(?p := jm_rr_users s ?p @ [user_of it]))"
    by (simp add: enqueue_item_def Let_def)
  have old: "queue_ok p (jm_queues s p) (jm_rr_users s p)" for p
    using assms(1) by (simp add: jm_inv_def queues_ok_def)
  have "queue_ok p (jm_queues ?t p) (jm_rr_users ?t p)" for p
  proof (cases "p = ?p")
    case True
    have "jm_rr_users ?t p = (if user_of it \<in> fst ` set (jm_queues s p) then jm_rr_users s p
        else jm_rr_users s p @ [user_of it])" using True by (simp add: users)
    then show ?thesis
      using queue_ok_push[OF old[of p] refl True[symmetric]] True by (simp only: enqueue_item_queues fun_upd_same)
  next
    case False
    then show ?thesis using old[of p] by (simp add: enqueue_item_queues users)
  qed
  then have q: "queues_ok ?t" by (simp add: queues_ok_def)
  have "mset (map wi_id (all_items ?t)) = add_mset (wi_id it) (mset (map wi_id (all_items s)))"
    using enqueue_item_all[of cfg it s] by simp
  also have "\<dots> = mset (wi_id it # map wi_id (all_items s))" by simp
  finally have eq: "mset (map wi_id (all_items ?t)) = mset (wi_id it # map wi_id (all_items s))" .
  have "distinct (wi_id it # map wi_id (all_items s))"
    using assms by (simp add: jm_inv_def ids_ok_def)
  then have "distinct (map wi_id (all_items ?t))" using mset_eq_imp_distinct_iff[OF eq] by blast
  moreover have "map_of (jm_items ?t) (wi_id x) \<in> {None, Some x}" if "x \<in> set (all_items ?t)" for x
  proof (cases "wi_id x = wi_id it")
    case True
    then have "x = it" using that assms(2) by (metis imageI insertE set)
    then show ?thesis by (simp add: enqueue_item_queues update_conv)
  next
    case False
    then have "x \<in> set (all_items s)" using that set by auto
    then show ?thesis using False assms(1) by (simp add: enqueue_item_queues update_conv jm_inv_def ids_ok_def)
  qed
  ultimately have i: "ids_ok ?t" by (simp add: ids_ok_def)
  have "rr_ok cfg ?t"
    using assms(1) set by (auto simp: jm_inv_def rr_ok_def enqueue_item_def Let_def)
  moreover have "dwell_ok ?t" using assms(1) by (simp add: jm_inv_def dwell_ok_def enqueue_item_def Let_def)
  ultimately show ?thesis using q i by (simp add: jm_inv_def)
qed

lemma enqueue_items_all:
  "mset (all_items (foldl (\<lambda>s it. enqueue_item cfg it s) s its)) = mset (all_items s) + mset its"
  by (induction its arbitrary: s) (simp_all add: enqueue_item_all)

lemma enqueue_items_inv:
  assumes "jm_inv cfg s" "distinct (map wi_id its)" "wi_id ` set its \<inter> wi_id ` set (all_items s) = {}"
  shows "jm_inv cfg (foldl (\<lambda>s it. enqueue_item cfg it s) s its)"
  using assms
proof (induction its arbitrary: s)
  case (Cons it its)
  have "set (all_items (enqueue_item cfg it s)) = insert it (set (all_items s))"
    using enqueue_item_all[of cfg it s] by (metis set_mset_add_mset_insert set_mset_mset)
  moreover have "jm_inv cfg (enqueue_item cfg it s)" using Cons.prems by (intro inv_intros) auto
  moreover from calculation have "wi_id ` set its \<inter> wi_id ` set (all_items (enqueue_item cfg it s)) = {}"
    using Cons.prems(2,3) by simp
  ultimately show ?case using Cons.prems(2) by (simp add: Cons.IH)
qed simp

lemma items_of_job_ids:
  "items_of_job j now gs ids = Inr its \<Longrightarrow> length gs \<le> length ids \<Longrightarrow> map wi_id its = take (length gs) ids"
proof (induction j now gs ids arbitrary: its rule: items_of_job.induct)
  case (2 j now name g gs ids)
  then show ?case
    by (cases ids) (auto split: option.splits sum.splits)
qed simp

text \<open>The ids of a new job are fresh.\<close>

definition fresh_ids :: "job \<Rightarrow> string list \<Rightarrow> jm_state \<Rightarrow> bool" where
  "fresh_ids j ids s \<longleftrightarrow> length (jb_graphs j) \<le> length ids \<and> distinct ids
     \<and> set ids \<inter> wi_id ` set (all_items s) = {}"

lemma enqueue_inv [inv_intros]:
  assumes "jm_inv cfg s" "fresh_ids j ids s" "enqueue cfg j now ids s = (r, t)"
  shows "jm_inv cfg t"
proof (cases "items_of_job j now (jb_graphs j) ids")
  case (Inl e)
  then show ?thesis using assms by (simp add: enqueue_def)
next
  case (Inr its)
  have ids: "map wi_id its = take (length (jb_graphs j)) ids"
    using items_of_job_ids[OF Inr] assms(2) by (simp add: fresh_ids_def)
  then have "distinct (map wi_id its)" using assms(2) by (simp add: fresh_ids_def)
  moreover have "wi_id ` set its \<subseteq> set ids" using arg_cong[OF ids, of set] by (auto dest: in_set_takeD)
  then have "wi_id ` set its \<inter> wi_id ` set (all_items s) = {}" using assms(2) by (auto simp: fresh_ids_def)
  ultimately have "jm_inv cfg (foldl (\<lambda>s it. enqueue_item cfg it s) s its)"
    using assms(1) by (rule_tac enqueue_items_inv)
  moreover have "t = (foldl (\<lambda>s it. enqueue_item cfg it s) s its)\<lparr>jm_not_empty := True\<rparr>"
    using assms(3) Inr by (simp add: enqueue_def)
  ultimately show ?thesis by simp
qed

subsection \<open>Dropping items\<close>

lemma prune_id:
  assumes "queue_ok p (jm_queues s p) (jm_rr_users s p)"
  shows "prune p s = s"
proof -
  have q: "filter (\<lambda>(_, q). q \<noteq> []) (jm_queues s p) = jm_queues s p"
    using assms by (auto simp: queue_ok_def intro!: filter_True)
  have "filter (\<lambda>u. u \<in> fst ` set (jm_queues s p)) (jm_rr_users s p) = jm_rr_users s p"
    using assms by (intro filter_True) (auto simp: queue_ok_def)
  then show ?thesis unfolding prune_def Let_def q by simp
qed

lemma queue_ok_drop:
  assumes "queue_ok p uq order"
  shows "queue_ok p (drop_ids W uq) (filter (\<lambda>u. u \<in> fst ` set (drop_ids W uq)) order)"
proof -
  have sub: "\<exists>q0. (u, q0) \<in> set uq \<and> q = drop_items W q0 \<and> q \<noteq> []" if "(u, q) \<in> set (drop_ids W uq)" for u q
    using that by (auto simp: drop_ids_def drop_items_def)
  have "distinct (map fst (map (\<lambda>(u, q). (u, filter (\<lambda>it. wi_id it \<notin> W) q)) uq))"
    using assms by (simp add: queue_ok_def case_prod_beta' comp_def)
  then have "distinct (map fst (drop_ids W uq))" unfolding drop_ids_def by (rule distinct_map_filter)
  moreover have "fst ` set (drop_ids W uq) \<subseteq> set order"
  proof
    fix u assume "u \<in> fst ` set (drop_ids W uq)"
    then obtain q where "(u, q) \<in> set (drop_ids W uq)" by force
    from sub[OF this] obtain q0 where "(u, q0) \<in> set uq" by blast
    then have "u \<in> fst ` set uq" by (rule rev_image_eqI) simp
    then show "u \<in> set order" using assms by (simp add: queue_ok_def)
  qed
  moreover have "q \<noteq> [] \<and> (\<forall>it \<in> set q. user_of it = u \<and> rc_priority (wi_config it) = p)"
    if "(u, q) \<in> set (drop_ids W uq)" for u q
  proof -
    from sub[OF that] obtain q0 where "(u, q0) \<in> set uq" "q = drop_items W q0" "q \<noteq> []" by blast
    then show ?thesis using assms by (auto simp: queue_ok_def drop_items_def)
  qed
  moreover have "distinct order" using assms by (simp add: queue_ok_def)
  ultimately show ?thesis unfolding queue_ok_def by auto
qed

definition dropped :: "string set \<Rightarrow> jm_state \<Rightarrow> jm_state" where
  "dropped W s = s\<lparr>jm_queues := (\<lambda>p. drop_ids W (jm_queues s p)),
     jm_rr_users := (\<lambda>p. filter (\<lambda>u. u \<in> fst ` set (drop_ids W (jm_queues s p))) (jm_rr_users s p))\<rparr>"

lemma drop_from_priority_eq:
  assumes "queue_ok p (jm_queues s p) (jm_rr_users s p)"
  shows "drop_from_priority W p s = s\<lparr>jm_queues := (jm_queues s)(p := drop_ids W (jm_queues s p)),
     jm_rr_users := (jm_rr_users s)(p := filter (\<lambda>u. u \<in> fst ` set (drop_ids W (jm_queues s p))) (jm_rr_users s p))\<rparr>"
proof (cases "jm_queues s p = []")
  case True
  then have "jm_rr_users s p = []" using assms by (simp add: queue_ok_def)
  then have "(jm_queues s)(p := []) = jm_queues s" "(jm_rr_users s)(p := []) = jm_rr_users s"
    using True by (auto simp: fun_eq_iff)
  then show ?thesis using True \<open>jm_rr_users s p = []\<close> by (simp add: drop_from_priority_def drop_ids_def)
next
  case False
  have "filter (\<lambda>(_, q). q \<noteq> []) (drop_ids W uq) = drop_ids W uq" for uq
    by (simp add: drop_ids_def)
  then show ?thesis using False by (simp add: drop_from_priority_def prune_def Let_def)
qed

lemma drop_from_queues_eq:
  assumes "queues_ok s"
  shows "drop_from_queues W s = dropped W s"
proof -
  have q: "queue_ok p (jm_queues s p) (jm_rr_users s p)" for p using assms by (simp add: queues_ok_def)
  have "drop_from_queues W s
      = drop_from_priority W LOW (drop_from_priority W MEDIUM (drop_from_priority W HIGH s))"
    by (simp add: drop_from_queues_def priorities_def)
  also have "\<dots> = dropped W s"
  proof -
    have "(\<lambda>x. if x = LOW then f LOW else if x = MEDIUM then f MEDIUM else if x = HIGH then f HIGH else g x) = f"
      for f g :: "priority \<Rightarrow> 'b"
    proof
      fix x show "(if x = LOW then f LOW else if x = MEDIUM then f MEDIUM else if x = HIGH then f HIGH else g x) = f x"
        by (cases x) simp_all
    qed
    from this[of "\<lambda>p. drop_ids W (jm_queues s p)" "jm_queues s"]
      this[of "\<lambda>p. filter (\<lambda>u. u \<in> fst ` set (drop_ids W (jm_queues s p))) (jm_rr_users s p)" "jm_rr_users s"]
    show ?thesis
      using q[of HIGH] q[of MEDIUM] q[of LOW]
      by (simp add: drop_from_priority_eq dropped_def fun_upd_def)
  qed
  finally show ?thesis .
qed

lemma dropped_inv:
  assumes "queues_ok s" "ids_ok s"
  shows "queues_ok (dropped W s)" "all_items (dropped W s) = drop_items W (all_items s)" "ids_ok (dropped W s)"
proof -
  show "queues_ok (dropped W s)"
    using assms(1) queue_ok_drop by (simp add: queues_ok_def dropped_def)
  show a: "all_items (dropped W s) = drop_items W (all_items s)"
    by (simp add: all_items_eq dropped_def queue_items_drop_ids drop_items_def)
  show "ids_ok (dropped W s)"
    using assms(2) unfolding ids_ok_def a
    by (auto simp: drop_items_def dropped_def distinct_map_filter)
qed

lemma drop_stale_partitions_ok:
  assumes "jm_rr_members s = set (jm_rr_order s)" "distinct (jm_rr_order s)"
  shows "rr_ok cfg (drop_stale_partitions cfg s)"
    and "jm_queues (drop_stale_partitions cfg s) = jm_queues s"
    and "jm_rr_users (drop_stale_partitions cfg s) = jm_rr_users s"
    and "jm_items (drop_stale_partitions cfg s) = jm_items s"
    and "jm_since (drop_stale_partitions cfg s) = jm_since s"
    and "jm_count (drop_stale_partitions cfg s) = jm_count s"
    and "jm_rr_order (drop_stale_partitions cfg s)
       = filter (\<lambda>p. p \<in> partition_of cfg ` set (all_items s)) (jm_rr_order s)"
proof -
  let ?stale = "jm_rr_members s - partition_of cfg ` set (all_items s)"
  show order: "jm_rr_order (drop_stale_partitions cfg s)
       = filter (\<lambda>p. p \<in> partition_of cfg ` set (all_items s)) (jm_rr_order s)"
    using assms(1) by (auto simp: drop_stale_partitions_def Let_def intro!: filter_cong filter_True[symmetric])
  show same: "jm_queues (drop_stale_partitions cfg s) = jm_queues s"
    "jm_rr_users (drop_stale_partitions cfg s) = jm_rr_users s"
    "jm_items (drop_stale_partitions cfg s) = jm_items s"
    "jm_since (drop_stale_partitions cfg s) = jm_since s"
    "jm_count (drop_stale_partitions cfg s) = jm_count s"
    by (simp_all add: drop_stale_partitions_def Let_def)
  have "jm_rr_members (drop_stale_partitions cfg s) = jm_rr_members s \<inter> partition_of cfg ` set (all_items s)"
    by (auto simp: drop_stale_partitions_def Let_def)
  then show "rr_ok cfg (drop_stale_partitions cfg s)"
    using assms all_items_cong[OF same(1)] by (auto simp: rr_ok_def order)
qed

lemma clear_if_empty_simps [simp]:
  "jm_queues (clear_if_empty s) = jm_queues s" "jm_rr_order (clear_if_empty s) = jm_rr_order s"
  "jm_rr_users (clear_if_empty s) = jm_rr_users s" "jm_items (clear_if_empty s) = jm_items s"
  "all_items (clear_if_empty s) = all_items s" "jm_inv cfg (clear_if_empty s) = jm_inv cfg s"
  by (simp_all add: clear_if_empty_def all_items_def)

lemma finalize_inv [inv_intros]: "jm_inv cfg s \<Longrightarrow> jm_inv cfg (finalize_workflows wids s)"
proof -
  assume inv: "jm_inv cfg s"
  have a: "all_items (finalize_workflows wids s) = all_items s"
    by (rule all_items_cong) (simp add: finalize_workflows_def)
  have "map_of (filter (\<lambda>(w, _). w \<notin> set wids) d) w = (if w \<in> set wids then None else map_of d w)"
    for d :: "(string, workflow_item) dict" and w
    using map_of_filter_key[of "\<lambda>w. w \<notin> set wids" d w] by (simp add: case_prod_beta')
  then show ?thesis
    using inv unfolding jm_inv_def ids_ok_def rr_ok_def queues_ok_def dwell_ok_def a
    by (simp add: finalize_workflows_def)
qed

text \<open>Dropping, then dropping the partitions that drained: the part commit and removal share.\<close>

lemma drop_and_sweep:
  fixes W :: "string set"
  assumes "jm_inv cfg s"
  defines "t \<equiv> drop_stale_partitions cfg (drop_from_queues W s)"
  shows "jm_inv cfg t" "all_items t = drop_items W (all_items s)" "jm_items t = jm_items s"
    and "jm_rr_order t = filter (\<lambda>p. p \<in> partition_of cfg ` set (all_items t)) (jm_rr_order s)"
    and "jm_rr_users t = (\<lambda>p. filter (\<lambda>u. u \<in> fst ` set (jm_queues t p)) (jm_rr_users s p))"
proof -
  have ok: "queues_ok s" "ids_ok s" "rr_ok cfg s" "dwell_ok s" using assms(1) by (simp_all add: jm_inv_def)
  let ?d = "dropped W s"
  note D = dropped_inv[OF ok(1,2), of W]
  have rr: "jm_rr_members ?d = set (jm_rr_order ?d)" "distinct (jm_rr_order ?d)"
    using ok(3) by (simp_all add: rr_ok_def dropped_def)
  note S = drop_stale_partitions_ok[OF rr, of cfg]
  have t: "t = drop_stale_partitions cfg ?d" by (simp add: t_def drop_from_queues_eq[OF ok(1)])
  have a: "all_items t = all_items ?d" unfolding t by (rule all_items_cong[OF S(2)])
  show all: "all_items t = drop_items W (all_items s)" using a D(2) by simp
  show items: "jm_items t = jm_items s" using S(4) by (simp add: t dropped_def)
  show "jm_inv cfg t"
    using D S(1) ok(4) a
    by (simp add: jm_inv_def queues_ok_def ids_ok_def dwell_ok_def t S(2-6)) (simp add: dropped_def)
  show "jm_rr_order t = filter (\<lambda>p. p \<in> partition_of cfg ` set (all_items t)) (jm_rr_order s)"
    using S(7) a by (simp add: t dropped_def)
  show "jm_rr_users t = (\<lambda>p. filter (\<lambda>u. u \<in> fst ` set (jm_queues t p)) (jm_rr_users s p))"
    by (simp add: t S(2,3)) (simp add: dropped_def)
qed

lemma finalize_commute:
  "drop_stale_partitions cfg (finalize_workflows wids s) = finalize_workflows wids (drop_stale_partitions cfg s)"
  by (simp add: drop_stale_partitions_def finalize_workflows_def all_items_def Let_def)

lemma remove_workflows_inv [inv_intros]:
  assumes "jm_inv cfg s"
  shows "jm_inv cfg (remove_workflows cfg wids s)"
    and "all_items (remove_workflows cfg wids s) = drop_items (set wids) (all_items s)"
proof -
  note S = drop_and_sweep[OF assms, of "set wids"]
  have "all_items (finalize_workflows wids t) = all_items t" for t
    by (rule all_items_cong) (simp add: finalize_workflows_def)
  then show "all_items (remove_workflows cfg wids s) = drop_items (set wids) (all_items s)"
    using S(2) by (simp add: remove_workflows_def finalize_commute drop_items_def)
  show "jm_inv cfg (remove_workflows cfg wids s)"
    using assms finalize_inv[OF S(1)] by (simp add: remove_workflows_def finalize_commute)
qed

subsection \<open>Commit\<close>

lemma queue_ok_map:
  assumes f: "\<And>it. user_of (f it) = user_of it \<and> wi_config (f it) = wi_config it" and q: "queue_ok p uq order"
  shows "queue_ok p (map (\<lambda>(u, q). (u, map f q)) uq) order"
proof -
  have k: "map fst (map (\<lambda>(u, q). (u, map f q)) uq) = map fst uq" by (simp add: case_prod_beta' comp_def)
  have body: "\<forall>(u, v) \<in> set (map (\<lambda>(u, q). (u, map f q)) uq).
      v \<noteq> [] \<and> (\<forall>it \<in> set v. user_of it = u \<and> rc_priority (wi_config it) = p)"
  proof clarify
    fix u v assume "(u, v) \<in> set (map (\<lambda>(u, q). (u, map f q)) uq)"
    then obtain q0 where "(u, q0) \<in> set uq" "v = map f q0" by auto
    then show "v \<noteq> [] \<and> (\<forall>it \<in> set v. user_of it = u \<and> rc_priority (wi_config it) = p)"
      using q f by (fastforce simp: queue_ok_def)
  qed
  have "fst ` set (map (\<lambda>(u, q). (u, map f q)) uq) = fst ` set uq"
    using arg_cong[OF k, of set] by (simp only: set_map)
  moreover have "distinct (map fst uq)" "distinct order" "set order = fst ` set uq"
    using q by (simp_all add: queue_ok_def)
  ultimately show ?thesis unfolding queue_ok_def k using body by (intro conjI) (assumption | metis)+
qed

lemma bump_miss_effect:
  assumes "jm_inv cfg s"
  shows "jm_inv cfg (bump_miss w s)"
    and "all_items (bump_miss w s) = (if w \<in> fst ` set (jm_items s) then map (miss w) (all_items s) else all_items s)"
    and "fst ` set (jm_items (bump_miss w s)) = fst ` set (jm_items s)"
    and "jm_rr_users (bump_miss w s) = jm_rr_users s" "jm_rr_order (bump_miss w s) = jm_rr_order s"
    and "jm_active (bump_miss w s) = jm_active s"
proof -
  have "jm_inv cfg (bump_miss w s)
      \<and> all_items (bump_miss w s) = (if w \<in> fst ` set (jm_items s) then map (miss w) (all_items s) else all_items s)
      \<and> fst ` set (jm_items (bump_miss w s)) = fst ` set (jm_items s)"
  proof (cases "map_of (jm_items s) w")
    case None
    then have "w \<notin> fst ` set (jm_items s)" by (simp add: map_of_eq_None_iff)
    then show ?thesis using None assms by (simp add: bump_miss_def)
  next
    case (Some it)
    then have w: "w \<in> fst ` set (jm_items s)" by (metis domI dom_map_of_conv_image_fst)
    let ?t = "bump_miss w s"
    have t: "?t = s\<lparr>jm_items := AList.update w (it\<lparr>wi_miss_count := wi_miss_count it + 1\<rparr>) (jm_items s),
        jm_queues := (\<lambda>p. map (\<lambda>(u, q). (u, map (miss w) q)) (jm_queues s p))\<rparr>"
      using Some by (simp add: bump_miss_def)
    have all: "all_items ?t = map (miss w) (all_items s)"
      by (simp add: all_items_eq t queue_items_map)
    have "queue_ok p (jm_queues ?t p) (jm_rr_users ?t p)" for p
      using assms queue_ok_map[of "miss w" p "jm_queues s p" "jm_rr_users s p"]
      by (simp add: jm_inv_def queues_ok_def t)
    moreover have "map_of (jm_items ?t) (wi_id x) \<in> {None, Some x}" if "x \<in> set (all_items ?t)" for x
    proof -
      obtain y where y: "y \<in> set (all_items s)" "x = miss w y"
        using \<open>x \<in> set (all_items ?t)\<close> all by auto
      then have "map_of (jm_items s) (wi_id y) \<in> {None, Some y}" using assms by (simp add: jm_inv_def ids_ok_def)
      then show ?thesis using y Some by (auto simp: t update_conv miss_def)
    qed
    moreover have "distinct (map wi_id (all_items ?t))"
      using assms by (simp add: all comp_def jm_inv_def ids_ok_def)
    moreover have "rr_ok cfg ?t"
      using assms all by (simp add: jm_inv_def rr_ok_def image_image) (simp add: t)
    moreover have "dwell_ok ?t" using assms by (simp add: jm_inv_def dwell_ok_def t)
    ultimately have "jm_inv cfg ?t" by (simp add: jm_inv_def queues_ok_def ids_ok_def)
    then show ?thesis using all w by (auto simp: t dom_update)
  qed
  then show "jm_inv cfg (bump_miss w s)"
    "all_items (bump_miss w s) = (if w \<in> fst ` set (jm_items s) then map (miss w) (all_items s) else all_items s)"
    "fst ` set (jm_items (bump_miss w s)) = fst ` set (jm_items s)" by blast+
  show "jm_rr_users (bump_miss w s) = jm_rr_users s" "jm_rr_order (bump_miss w s) = jm_rr_order s"
    "jm_active (bump_miss w s) = jm_active s"
    by (simp_all add: bump_miss_def split: option.split)
qed

text \<open>The item as a commit leaves it, when it was passed over by the batch.\<close>

definition missed :: "string set \<Rightarrow> workflow_item \<Rightarrow> workflow_item" where
  "missed W it = (if wi_id it \<in> W then it\<lparr>wi_miss_count := wi_miss_count it + 1\<rparr> else it)"

lemma bump_loop_effect:
  assumes "jm_inv cfg s" "distinct ws"
  shows "let t = foldl (\<lambda>s w. bump_miss w s) s ws in jm_inv cfg t \<and> all_items t = map (missed (set ws \<inter> fst ` set (jm_items s))) (all_items s)
     \<and> jm_rr_users t = jm_rr_users s \<and> jm_rr_order t = jm_rr_order s \<and> jm_active t = jm_active s
     \<and> fst ` set (jm_items t) = fst ` set (jm_items s)"
  using assms
proof (induction ws arbitrary: s)
  case Nil
  have "map (missed {}) its = its" for its by (simp add: missed_def map_idI)
  then show ?case using Nil by simp
next
  case (Cons w ws)
  note B = bump_miss_effect[OF Cons.prems(1), of w]
  have "distinct ws" using Cons.prems(2) by simp
  note I = Cons.IH[OF B(1) this]
  let ?D = "fst ` set (jm_items s)"
  have "map (missed (set ws \<inter> ?D)) (map (miss w) (all_items s)) = map (missed (set (w # ws) \<inter> ?D)) (all_items s)"
    if "w \<in> ?D" using that Cons.prems(2) by (auto simp: missed_def miss_def)
  moreover have "set (w # ws) \<inter> ?D = set ws \<inter> ?D" if "w \<notin> ?D" using that by auto
  ultimately show ?case using I B by (auto simp: Let_def split: if_splits)
qed

lemma advance_partition_inv:
  assumes "jm_inv cfg s"
  shows "jm_inv cfg (advance_partition p s)" "jm_queues (advance_partition p s) = jm_queues s"
    "jm_items (advance_partition p s) = jm_items s" "jm_rr_users (advance_partition p s) = jm_rr_users s"
proof -
  show q: "jm_queues (advance_partition p s) = jm_queues s" "jm_items (advance_partition p s) = jm_items s"
    "jm_rr_users (advance_partition p s) = jm_rr_users s"
    by (simp_all add: advance_partition_def split: list.split)
  show "jm_inv cfg (advance_partition p s)"
    using assms all_items_cong[OF q(1)]
    by (auto simp: jm_inv_def queues_ok_def ids_ok_def rr_ok_def dwell_ok_def advance_partition_def split: list.splits)
qed

lemma advance_user_inv:
  assumes "jm_inv cfg s"
  shows "jm_inv cfg (advance_user p s)" "jm_queues (advance_user p s) = jm_queues s"
    "jm_items (advance_user p s) = jm_items s" "jm_rr_order (advance_user p s) = jm_rr_order s"
proof -
  show q: "jm_queues (advance_user p s) = jm_queues s" "jm_items (advance_user p s) = jm_items s"
    "jm_rr_order (advance_user p s) = jm_rr_order s"
    by (simp_all add: advance_user_def)
  show "jm_inv cfg (advance_user p s)"
    using assms all_items_cong[OF q(1)]
    by (auto simp: jm_inv_def queues_ok_def ids_ok_def rr_ok_def dwell_ok_def advance_user_def queue_ok_def)
qed

lemma advance_users_inv:
  "jm_inv cfg s \<Longrightarrow> jm_inv cfg (foldl (\<lambda>s p. advance_user p s) s ps)
     \<and> jm_queues (foldl (\<lambda>s p. advance_user p s) s ps) = jm_queues s
     \<and> jm_items (foldl (\<lambda>s p. advance_user p s) s ps) = jm_items s
     \<and> jm_rr_order (foldl (\<lambda>s p. advance_user p s) s ps) = jm_rr_order s"
proof (induction ps arbitrary: s)
  case (Cons p ps)
  then show ?case using advance_user_inv[OF Cons.prems, of p] by simp
qed simp

text \<open>What a commit that goes through does to the queued items.\<close>

lemma commit_effect:
  assumes inv: "jm_inv cfg s" and d: "distinct (rp_miss_targets (rs_payload r))"
    and c: "commit_reservation cfg r s = (None, t)"
  defines "missing \<equiv> set (rp_miss_targets (rs_payload r)) \<inter> fst ` set (jm_items s)"
  shows "jm_inv cfg t" "jm_active t = None"
    and "all_items t = map (missed missing) (drop_items (set (rp_selected (rs_payload r))) (all_items s))"
    and "fst ` set (jm_items t) = fst ` set (jm_items s)"
proof -
  let ?pl = "rs_payload r" and ?W = "set (rp_selected (rs_payload r))"
  obtain pol where pol: "policy_on_commit (jc_cost cfg) (jm_policy s) (bs_workflows (rs_selection r)) = (None, pol)"
    using c by (auto simp: commit_reservation_def split: if_splits prod.splits option.splits)
  define s0 where "s0 = s\<lparr>jm_policy := pol\<rparr>"
  define s1 where "s1 = foldl (\<lambda>s w. bump_miss w s) s0 (rp_miss_targets ?pl)"
  define s2 where "s2 = drop_stale_partitions cfg (drop_from_queues ?W s1)"
  define s3 where "s3 = (case rp_partition ?pl of None \<Rightarrow> s2 | Some p \<Rightarrow> advance_partition p s2)"
  define s4 where "s4 = foldl (\<lambda>s p. advance_user p s) s3 (rp_priorities ?pl)"
  have t: "t = (clear_if_empty s4)\<lparr>jm_active := None\<rparr>"
    using c pol unfolding s4_def s3_def s2_def s1_def s0_def
    by (simp add: commit_reservation_def Let_def split: if_splits)
  have i0: "jm_inv cfg s0" "all_items s0 = all_items s" "jm_items s0 = jm_items s"
    using inv by (simp_all add: s0_def all_items_def)
  have B: "jm_inv cfg s1" "all_items s1 = map (missed missing) (all_items s)" "fst ` set (jm_items s1) = fst ` set (jm_items s)"
    using bump_loop_effect[OF i0(1) d] i0 by (simp_all add: s1_def missing_def Let_def)
  note S = drop_and_sweep[OF B(1), of ?W, folded s2_def]
  have 3: "jm_inv cfg s3" "jm_queues s3 = jm_queues s2" "jm_items s3 = jm_items s2"
    using S(1) advance_partition_inv[OF S(1)] by (auto simp: s3_def split: option.split)
  have 4: "jm_inv cfg s4" "jm_queues s4 = jm_queues s2" "jm_items s4 = jm_items s2"
    using advance_users_inv[OF 3(1), of "rp_priorities ?pl"] 3 by (simp_all add: s4_def)
  show "jm_inv cfg t" "jm_active t = None" using 4 by (simp_all add: t)
  have "all_items t = all_items s2" using 4(2) by (intro all_items_cong) (simp add: t)
  then show "all_items t = map (missed missing) (drop_items ?W (all_items s))"
    using S(2) B(2) by (simp add: drop_items_def filter_map comp_def missed_def if_distrib)
  show "fst ` set (jm_items t) = fst ` set (jm_items s)"
    using 4(3) S(3) B(3) by (simp add: t)
qed

lemma commit_inv [inv_intros]:
  assumes "jm_inv cfg s" "distinct (rp_miss_targets (rs_payload r))" "commit_reservation cfg r s = (e, t)"
  shows "jm_inv cfg t"
proof (cases e)
  case None
  then show ?thesis using commit_effect(1)[OF assms(1,2)] assms(3) by simp
next
  case (Some err)
  then show ?thesis
    using assms(1,3) by (auto simp: commit_reservation_def Let_def split: if_splits prod.splits option.splits)
qed

lemma abort_inv [inv_intros]: "jm_inv cfg s \<Longrightarrow> abort_reservation r s = (e, t) \<Longrightarrow> jm_inv cfg t"
  by (auto simp: abort_reservation_def split: if_splits)

subsection \<open>Permanently unsatisfiable\<close>

lemma dom_delete_keys: "fst ` set (AList.delete p d) = fst ` set d - {p}"
  by (force simp: AList.delete_eq)

lemma dom_filter_keys: "fst ` set (filter (\<lambda>(p, _). P p) d) = {p \<in> fst ` set d. P p}"
  by force

lemma observe_partition_inv:
  assumes "jm_inv cfg s"
  shows "jm_inv cfg (observe_partition cfg fc now p s)" "jm_queues (observe_partition cfg fc now p s) = jm_queues s"
proof -
  show q: "jm_queues (observe_partition cfg fc now p s) = jm_queues s" by (simp add: observe_partition_def)
  have "dwell_ok (observe_partition cfg fc now p s)"
    using assms by (auto simp: jm_inv_def dwell_ok_def observe_partition_def dom_delete_keys AList.dom_update)
  then show "jm_inv cfg (observe_partition cfg fc now p s)"
    using assms all_items_cong[OF q]
    by (simp add: jm_inv_def queues_ok_def ids_ok_def rr_ok_def) (simp add: observe_partition_def)
qed

lemma permanently_unsatisfiable_inv [inv_intros]:
  assumes "jm_inv cfg s" "permanently_unsatisfiable cfg fc now s = (its, t)"
  shows "jm_inv cfg t \<and> jm_queues t = jm_queues s \<and> set its \<subseteq> set (all_items s)"
proof -
  let ?P = "set (present_partitions cfg s)"
  define s1 where "s1 = s\<lparr>jm_since := filter (\<lambda>(p, _). p \<in> ?P) (jm_since s), jm_count := filter (\<lambda>(p, _). p \<in> ?P) (jm_count s)\<rparr>"
  have "dwell_ok s1" using assms(1) by (simp add: s1_def jm_inv_def dwell_ok_def dom_filter_keys del: set_filter)
  then have i1: "jm_inv cfg s1" using assms(1) all_items_cong[of s1 s]
    by (simp add: jm_inv_def queues_ok_def ids_ok_def rr_ok_def) (simp add: s1_def all_items_def)
  have L: "jm_inv cfg (foldl (\<lambda>s p. observe_partition cfg fc now p s) u ps)
      \<and> jm_queues (foldl (\<lambda>s p. observe_partition cfg fc now p s) u ps) = jm_queues u"
    if "jm_inv cfg u" for u ps
    using that by (induction ps arbitrary: u) (simp_all add: observe_partition_inv)
  have "t = foldl (\<lambda>s p. observe_partition cfg fc now p s) s1 (present_partitions cfg s)"
    "its = filter (\<lambda>it. doomed cfg now t (partition_of cfg it)) (all_items t)"
    using assms(2) by (auto simp: permanently_unsatisfiable_def Let_def s1_def)
  then have "jm_inv cfg t" "jm_queues t = jm_queues s" "set its \<subseteq> set (all_items t)"
    using L[OF i1] by (auto simp: s1_def)
  then show ?thesis using all_items_cong[of t s] by simp
qed

end
