(* ===== verification/Job_Manager_Reserve.thy ===== *)
theory Job_Manager_Reserve
  imports Job_Manager_Inv
begin

section \<open>Reserving a batch\<close>

text \<open>
  What \<open>reserve_batch\<close> does: the round-robin walk as a transposition, the candidate pool, the anchor
  partition, the starvation override, and the contract of the reservation handed out.
\<close>

subsection \<open>The round-robin walk\<close>

lemma transpose_nonempty: "transpose (filter (\<lambda>q. q \<noteq> []) qs) = transpose qs"
  by (induction qs rule: transpose.induct) (simp_all add: transpose_aux_filter_head transpose_aux_filter_tail)

lemma tails_eq: "concat (map (case_list [] (\<lambda>h t. [t])) qs) = map tl (filter (\<lambda>q. q \<noteq> []) qs)"
  by (induction qs) (auto split: list.split)

lemma heads_eq: "concat (map (case_list [] (\<lambda>h t. [h])) qs) = map hd (filter (\<lambda>q. q \<noteq> []) qs)"
  by (induction qs) (auto split: list.split)

lemma concat_transpose:
  "concat (transpose qs) = map hd (filter (\<lambda>q. q \<noteq> []) qs) @ concat (transpose (map tl qs))"
proof (induction qs rule: transpose.induct)
  case (3 x xs xss)
  have "filter (\<lambda>q. q \<noteq> []) (map tl (filter (\<lambda>q. q \<noteq> []) xss)) = filter (\<lambda>q. q \<noteq> []) (map tl xss)"
    by (induction xss) auto
  then have "transpose (xs # map tl (filter (\<lambda>q. q \<noteq> []) xss)) = transpose (xs # map tl xss)"
    using transpose_nonempty[of "xs # map tl (filter (\<lambda>q. q \<noteq> []) xss)"] transpose_nonempty[of "xs # map tl xss"]
    by (simp split: if_splits)
  then show ?case by (simp add: tails_eq heads_eq)
qed simp_all

lemma mset_heads_tails:
  "mset (concat qs) = mset (map hd (filter (\<lambda>q. q \<noteq> []) qs)) + mset (concat (map tl qs))"
proof (induction qs)
  case (Cons q qs)
  then show ?case by (cases q) simp_all
qed simp

lemma mset_transpose: "mset (concat (transpose qs)) = mset (concat qs)"
proof (induction "length (concat qs)" arbitrary: qs rule: less_induct)
  case less
  show ?case
  proof (cases "filter (\<lambda>q. q \<noteq> []) qs = []")
    case True
    then have "transpose qs = []" using transpose_nonempty[of qs] by simp
    then show ?thesis using True by (simp add: filter_empty_conv)
  next
    case False
    have "length (concat qs) = length (filter (\<lambda>q. q \<noteq> []) qs) + length (concat (map tl qs))"
      using arg_cong[OF mset_heads_tails[of qs], of size] by (simp only: size_mset size_union length_map)
    moreover have "0 < length (filter (\<lambda>q. q \<noteq> []) qs)" using False by blast
    ultimately have "length (concat (map tl qs)) < length (concat qs)" by linarith
    from less[OF this] show ?thesis
      by (subst concat_transpose, subst mset_heads_tails) (simp del: mset_map mset_concat)
  qed
qed

lemma rr_pass_eq:
  assumes "length acc < limit"
  shows "fst (rr_pass limit acc qs) = take limit (acc @ map hd (filter (\<lambda>q. q \<noteq> []) qs))"
    and "length acc + length (filter (\<lambda>q. q \<noteq> []) qs) < limit \<Longrightarrow> snd (rr_pass limit acc qs) = map tl qs"
  using assms
proof (induction limit acc qs rule: rr_pass.induct)
  case (3 limit acc x xs qs)
  {
    case 1
    show ?case
    proof (cases "limit \<le> length acc + 1")
      case True
      then have "limit = Suc (length acc)" using 1 by simp
      then show ?thesis by simp
    qed (use 1 "3.IH"(1) in \<open>auto simp: case_prod_beta\<close>)
  next
    case 2
    then show ?case using "3.IH"(2) by (auto simp: case_prod_beta)
  }
qed (auto simp: case_prod_beta)

lemma rr_loop_eq:
  "length acc \<le> limit \<Longrightarrow> rr_loop limit acc qs = take limit (acc @ concat (transpose qs))"
proof (induction limit acc qs rule: rr_loop.induct)
  case (1 limit acc qs)
  let ?h = "map hd (filter (\<lambda>q. q \<noteq> []) qs)"
  obtain a r where ar: "rr_pass limit acc qs = (a, r)" by force
  show ?case
  proof (cases "limit \<le> length acc")
    case True
    then have "limit = length acc" using 1(2) by simp
    then show ?thesis by (subst rr_loop.simps) simp
  next
    case False
    then have a: "a = take limit (acc @ ?h)"
      and r: "length acc + length ?h < limit \<Longrightarrow> r = map tl qs"
      using rr_pass_eq[of acc limit qs] ar by simp_all
    have loop: "rr_loop limit acc qs = (if length a = length acc then a else rr_loop limit a r)"
      using False ar by (simp add: rr_loop.simps[of limit acc qs])
    consider "?h = []" | "?h \<noteq> []" "limit \<le> length acc + length ?h" | "?h \<noteq> []" "length acc + length ?h < limit"
      by linarith
    then show ?thesis
    proof cases
      case 1
      then have "transpose qs = []" using transpose_nonempty[of qs] by simp
      then show ?thesis using 1 a loop False by simp
    next
      case 2
      then have "limit \<le> length a" using a by simp
      then have "rr_loop limit a r = a" by (simp add: rr_loop.simps[of limit a r])
      moreover have "take limit (acc @ concat (transpose qs)) = a"
        unfolding a using 2 by (subst concat_transpose) simp
      ultimately show ?thesis using loop by simp
    next
      case 3
      then have "a = acc @ ?h" "r = map tl qs" using a r by simp_all
      moreover from this have "length a \<noteq> length acc" using 3 by simp
      moreover from calculation have "rr_loop limit a r = take limit (a @ concat (transpose r))"
        using 3 False by (intro "1.IH"[OF _ ar[symmetric]]) auto
      ultimately show ?thesis using loop concat_transpose[of qs] by simp
    qed
  qed
qed

subsection \<open>The candidate pool\<close>

lemma matches_iff [simp]: "matches cfg (partition_of cfg x) it \<longleftrightarrow> partition_of cfg it = partition_of cfg x"
  by (auto simp: matches_def partition_of_def)

text \<open>The items of a partition that wait at a priority, per user in round-robin order.\<close>

definition user_lists :: "jm_config \<Rightarrow> priority \<Rightarrow> partition \<Rightarrow> jm_state \<Rightarrow> workflow_item list list" where
  "user_lists cfg pr p s =
     map (\<lambda>u. filter (matches cfg p) (dict_get (jm_queues s pr) u [])) (jm_rr_users s pr)"

lemma mset_by_keys:
  fixes uq :: "('k, 'v list) dict"
  assumes "distinct (map fst uq)" "distinct order" "set order = fst ` set uq"
  shows "mset (concat (map (\<lambda>u. f (dict_get uq u [])) order)) = mset (concat (map (\<lambda>(u, q). f q) uq))"
proof -
  let ?g = "\<lambda>u. f (dict_get uq u [])"
  have "set order = set (map fst uq)" using assms(3) by simp
  then have "mset order = mset (map fst uq)" using set_eq_iff_mset_eq_distinct[OF assms(2,1)] by blast
  moreover have "mset (concat (map ?g xs)) = sum_mset (image_mset (\<lambda>u. mset (?g u)) (mset xs))" for xs
    by (simp add: mset_concat comp_def flip: sum_mset_sum_list)
  ultimately have "mset (concat (map ?g order)) = mset (concat (map ?g (map fst uq)))" by (simp only:)
  also have "map (\<lambda>u. f (dict_get uq u [])) (map fst uq) = map (\<lambda>(u, q). f q) uq"
    using assms(1) by (auto simp: dict_get_def)
  finally show ?thesis .
qed

lemma mset_user_lists:
  assumes "queue_ok pr (jm_queues s pr) (jm_rr_users s pr)"
  shows "mset (concat (user_lists cfg pr p s)) = mset (filter (matches cfg p) (queue_items (jm_queues s pr)))"
proof -
  have "mset (concat (user_lists cfg pr p s)) = mset (concat (map (\<lambda>(u, q). filter (matches cfg p) q) (jm_queues s pr)))"
    unfolding user_lists_def using assms by (intro mset_by_keys) (simp_all add: queue_ok_def)
  also have "concat (map (\<lambda>(u, q). filter (matches cfg p) q) (jm_queues s pr))
      = filter (matches cfg p) (queue_items (jm_queues s pr))"
    by (simp add: queue_items_def filter_concat comp_def case_prod_beta')
  finally show ?thesis .
qed

lemma peek_eq:
  assumes "queue_ok pr (jm_queues s pr) (jm_rr_users s pr)"
  shows "\<exists>adv. peek cfg pr limit p s = (take limit (concat (transpose (user_lists cfg pr p s))), adv, s)"
proof (cases "limit = 0 \<or> filter (\<lambda>q. q \<noteq> []) (user_lists cfg pr p s) = []")
  case True
  show ?thesis
  proof (cases "limit = 0")
    case False
    then have none: "filter (\<lambda>q. q \<noteq> []) (user_lists cfg pr p s) = []" using True by blast
    then have "transpose (user_lists cfg pr p s) = []" using transpose_nonempty[of "user_lists cfg pr p s"] by simp
    moreover have "peek cfg pr limit p s = ([], False, s)"
      using False none unfolding peek_def Let_def prune_id[OF assms] user_lists_def by simp
    ultimately show ?thesis by (intro exI[of _ False]) simp
  qed (intro exI[of _ False], simp add: peek_def)
next
  case False
  then have "jm_rr_users s pr \<noteq> []" by (auto simp: user_lists_def)
  moreover from this have "jm_queues s pr \<noteq> []" using assms by (auto simp: queue_ok_def)
  ultimately have "peek cfg pr limit p s
      = (rr_loop limit [] (filter (\<lambda>q. q \<noteq> []) (user_lists cfg pr p s)), 1 < length (jm_rr_users s pr), s)"
    using False unfolding peek_def Let_def prune_id[OF assms] user_lists_def by simp
  then show ?thesis by (simp add: rr_loop_eq transpose_nonempty)
qed

text \<open>The pool of a partition: a quantum of its items per priority.\<close>

definition pool :: "jm_config \<Rightarrow> partition \<Rightarrow> jm_state \<Rightarrow> priority \<Rightarrow> workflow_item list" where
  "pool cfg p s pr = take (nat (jc_quantum cfg pr)) (concat (transpose (user_lists cfg pr p s)))"

lemma build_pool_eq:
  assumes "queues_ok s"
  shows "\<exists>advs. build_pool cfg p prs s = (concat (map (pool cfg p s) prs), advs, s)"
proof (induction prs)
  case (Cons pr prs)
  have "\<exists>adv. peek cfg pr (nat (jc_quantum cfg pr)) p s = (pool cfg p s pr, adv, s)"
    unfolding pool_def using assms by (intro peek_eq) (simp add: queues_ok_def)
  then show ?case using Cons by auto
qed simp

lemma pool_sub:
  assumes "queues_ok s"
  shows "mset (pool cfg p s pr) \<subseteq># mset (filter (matches cfg p) (queue_items (jm_queues s pr)))"
proof -
  have "mset (take n xs) \<subseteq># mset xs" for n and xs :: "workflow_item list"
    by (metis append_take_drop_id mset_append mset_subset_eq_add_left)
  then have "mset (pool cfg p s pr) \<subseteq># mset (concat (transpose (user_lists cfg pr p s)))"
    unfolding pool_def .
  then have "mset (pool cfg p s pr) \<subseteq># mset (concat (user_lists cfg pr p s))" by (simp only: mset_transpose)
  then show ?thesis using assms mset_user_lists[of pr s cfg p] by (simp add: queues_ok_def)
qed

lemma pools_sub:
  assumes "queues_ok s"
  shows "mset (concat (map (pool cfg p s) priorities)) \<subseteq># mset (filter (matches cfg p) (all_items s))"
proof -
  have "mset (pool cfg p s HIGH) + (mset (pool cfg p s MEDIUM) + mset (pool cfg p s LOW))
      \<subseteq># mset (filter (matches cfg p) (queue_items (jm_queues s HIGH)))
        + (mset (filter (matches cfg p) (queue_items (jm_queues s MEDIUM)))
          + mset (filter (matches cfg p) (queue_items (jm_queues s LOW))))"
    by (intro subset_mset.add_mono pool_sub assms)
  then show ?thesis by (simp add: all_items_eq priorities_def)
qed

lemma distinct_by_count:
  assumes "\<And>x. count (mset xs) x \<le> 1"
  shows "distinct xs"
proof -
  have "count (mset xs) x = (if x \<in> set xs then 1 else 0)" for x
  proof (cases "x \<in> set xs")
    case True
    then have "0 < count (mset xs) x" by simp
    then have "count (mset xs) x = 1" using assms[of x] by linarith
    then show ?thesis using True by simp
  qed (simp add: count_eq_zero_iff)
  then show ?thesis unfolding distinct_count_atmost_1 by blast
qed

lemma pools_ok:
  fixes p :: partition
  assumes "jm_inv cfg s"
  defines "cands \<equiv> concat (map (pool cfg p s) priorities)"
  shows "set cands \<subseteq> {it \<in> set (all_items s). matches cfg p it}" "distinct (map wi_id cands)"
proof -
  have sub: "mset cands \<subseteq># mset (filter (matches cfg p) (all_items s))"
    unfolding cands_def using assms(1) by (intro pools_sub) (simp add: jm_inv_def)
  then have "set_mset (mset cands) \<subseteq> set_mset (mset (filter (matches cfg p) (all_items s)))" by (rule set_mset_mono)
  then show "set cands \<subseteq> {it \<in> set (all_items s). matches cfg p it}" by auto
  have "mset (filter (matches cfg p) (all_items s)) \<subseteq># mset (all_items s)" by simp
  with sub have "mset cands \<subseteq># mset (all_items s)" by (rule subset_mset.order_trans)
  then have le: "mset (map wi_id cands) \<subseteq># mset (map wi_id (all_items s))"
    unfolding mset_map by (rule image_mset_subseteq_mono)
  have "distinct (map wi_id (all_items s))" using assms(1) by (simp add: jm_inv_def ids_ok_def)
  then have 1: "count (mset (map wi_id (all_items s))) x \<le> 1" for x
    by (simp add: distinct_count_atmost_1)
  have "count (mset (map wi_id cands)) x \<le> 1" for x
    using mset_subset_eq_count[OF le, of x] 1[of x] by linarith
  then show "distinct (map wi_id cands)" by (rule distinct_by_count)
qed

lemma pools_nonempty:
  assumes "queues_ok s" "\<And>pr. 0 < jc_quantum cfg pr" "it \<in> set (all_items s)" "matches cfg p it"
  shows "concat (map (pool cfg p s) priorities) \<noteq> []"
proof -
  obtain pr where "it \<in> set (queue_items (jm_queues s pr))" using assms(3) by (auto simp: set_all_items)
  then have "it \<in> set (filter (matches cfg p) (queue_items (jm_queues s pr)))" using assms(4) by simp
  moreover have "mset (concat (transpose (user_lists cfg pr p s))) = mset (filter (matches cfg p) (queue_items (jm_queues s pr)))"
    unfolding mset_transpose using assms(1) by (intro mset_user_lists) (simp add: queues_ok_def)
  ultimately have "concat (transpose (user_lists cfg pr p s)) \<noteq> []" by (metis empty_iff list.set(1) mset_eq_setD)
  then have "pool cfg p s pr \<noteq> []" unfolding pool_def using assms(2)[of pr] by simp
  then show ?thesis using priorities_UNIV[of pr] by auto
qed

subsection \<open>The anchor partition\<close>

lemma set_present: "set (present_partitions cfg s) = partition_of cfg ` set (all_items s)"
  by (simp add: present_partitions_def)

text \<open>The parts of the state the round robin over partitions does not touch.\<close>

definition same_work :: "jm_state \<Rightarrow> jm_state \<Rightarrow> bool" where
  "same_work s t \<longleftrightarrow> jm_queues t = jm_queues s \<and> jm_rr_users t = jm_rr_users s \<and> jm_items t = jm_items s
     \<and> jm_active t = jm_active s \<and> jm_serial t = jm_serial s \<and> jm_since t = jm_since s
     \<and> jm_count t = jm_count s \<and> jm_policy t = jm_policy s"

lemma same_work_all: "same_work s t \<Longrightarrow> all_items t = all_items s"
  by (simp add: same_work_def all_items_def)

lemma same_work_inv: "same_work s t \<Longrightarrow> jm_inv cfg s \<Longrightarrow> rr_ok cfg t \<Longrightarrow> jm_inv cfg t"
  using same_work_all[of s t] by (simp add: jm_inv_def queues_ok_def ids_ok_def dwell_ok_def same_work_def)

lemma pick_partition_ok:
  assumes "jm_inv cfg s" "pick_partition present s = (r, t)"
  shows "jm_inv cfg t" "same_work s t"
    and "r = (case jm_rr_order t of [] \<Rightarrow> None | p # _ \<Rightarrow> Some p)"
    and "\<And>p. r = Some p \<Longrightarrow> p \<in> set present"
    and "jm_rr_order t = dropWhile (\<lambda>p. p \<notin> set present) (jm_rr_order s)"
proof -
  let ?P = "\<lambda>p. p \<notin> set present" and ?o = "jm_rr_order s"
  have t: "t = s\<lparr>jm_rr_order := dropWhile ?P ?o, jm_rr_members := jm_rr_members s - set (takeWhile ?P ?o)\<rparr>"
    and r: "r = (case dropWhile ?P ?o of [] \<Rightarrow> None | p # _ \<Rightarrow> Some p)"
    using assms(2) by (auto simp: pick_partition_def Let_def)
  show sw: "same_work s t" by (simp add: t same_work_def)
  show "r = (case jm_rr_order t of [] \<Rightarrow> None | p # _ \<Rightarrow> Some p)" by (simp add: t r)
  show "jm_rr_order t = dropWhile ?P ?o" by (simp add: t)
  show "p \<in> set present" if "r = Some p" for p
  proof -
    have "dropWhile ?P ?o \<noteq> []" "hd (dropWhile ?P ?o) = p" using that by (cases "dropWhile ?P ?o"; simp add: r)+
    then show ?thesis using hd_dropWhile[of ?P ?o] by simp
  qed
  have ok: "distinct ?o" "jm_rr_members s = set ?o" "set ?o \<subseteq> partition_of cfg ` set (all_items s)"
    using assms(1) by (simp_all add: jm_inv_def rr_ok_def)
  have "?o = takeWhile ?P ?o @ dropWhile ?P ?o" by simp
  with ok(1) have "set (takeWhile ?P ?o) \<inter> set (dropWhile ?P ?o) = {}" "set ?o = set (takeWhile ?P ?o) \<union> set (dropWhile ?P ?o)"
    by (metis distinct_append, metis set_append)
  then have "jm_rr_members t = set (jm_rr_order t)" using ok(2) by (auto simp: t)
  moreover have "set (jm_rr_order t) \<subseteq> set ?o" using set_dropWhileD[of _ ?P ?o] by (auto simp: t)
  then have "set (jm_rr_order t) \<subseteq> partition_of cfg ` set (all_items t)"
    using ok(3) same_work_all[OF sw] by auto
  ultimately have "rr_ok cfg t" using ok(1) by (simp add: rr_ok_def t)
  then show "jm_inv cfg t" using same_work_inv[OF sw assms(1)] by simp
qed

lemma add_partition_ok:
  assumes "jm_inv cfg s" "p \<in> partition_of cfg ` set (all_items s)"
  shows "jm_inv cfg (add_partition p s)" "same_work s (add_partition p s)"
    "set (jm_rr_order (add_partition p s)) = insert p (set (jm_rr_order s))"
    "\<exists>xs. jm_rr_order (add_partition p s) = jm_rr_order s @ xs"
proof -
  have ok: "distinct (jm_rr_order s)" "jm_rr_members s = set (jm_rr_order s)"
    "set (jm_rr_order s) \<subseteq> partition_of cfg ` set (all_items s)"
    using assms(1) by (simp_all add: jm_inv_def rr_ok_def)
  show sw: "same_work s (add_partition p s)" by (simp add: add_partition_def same_work_def)
  show "set (jm_rr_order (add_partition p s)) = insert p (set (jm_rr_order s))"
    "\<exists>xs. jm_rr_order (add_partition p s) = jm_rr_order s @ xs"
    using ok by (auto simp: add_partition_def)
  have "rr_ok cfg (add_partition p s)"
    using ok assms(2) same_work_all[OF sw] by (auto simp: rr_ok_def add_partition_def)
  then show "jm_inv cfg (add_partition p s)" using same_work_inv[OF sw assms(1)] by simp
qed

lemma reseed_ok:
  assumes "jm_inv cfg s" "set ps \<subseteq> partition_of cfg ` set (all_items s)"
  shows "jm_inv cfg (foldl (\<lambda>s p. add_partition p s) s ps) \<and> same_work s (foldl (\<lambda>s p. add_partition p s) s ps)
     \<and> set (jm_rr_order (foldl (\<lambda>s p. add_partition p s) s ps)) = set (jm_rr_order s) \<union> set ps"
  using assms
proof (induction ps arbitrary: s)
  case (Cons p ps)
  have p: "p \<in> partition_of cfg ` set (all_items s)" by (rule subsetD[OF Cons.prems(2)]) simp
  note A = add_partition_ok[OF Cons.prems(1) p]
  have "set ps \<subseteq> partition_of cfg ` set (all_items (add_partition p s))"
    using Cons.prems(2) same_work_all[OF A(2)] by simp
  note I = Cons.IH[OF A(1) this]
  have "same_work s (foldl (\<lambda>s p. add_partition p s) (add_partition p s) ps)"
    using I A(2) by (simp add: same_work_def)
  then show ?case using I A(3) by simp
qed (simp add: same_work_def)

lemma choose_anchor_ok:
  assumes inv: "jm_inv cfg s" and present: "present \<noteq> []" "set present \<subseteq> partition_of cfg ` set (all_items s)"
    and starved: "partition_of cfg ` set starved_items \<subseteq> set present"
    and c: "choose_anchor cfg present starved_items s = (anchor, adv, t)"
  shows "anchor \<in> set present \<and> jm_inv cfg t \<and> same_work s t
     \<and> (case starved_items of it # _ \<Rightarrow> anchor = partition_of cfg it \<and> adv = None \<and> t = s
        | [] \<Rightarrow> adv = Some anchor \<and> (\<exists>ps. jm_rr_order t = anchor # ps))"
proof (cases starved_items)
  case (Cons it its)
  then show ?thesis using c starved inv by (auto simp: choose_anchor_def same_work_def)
next
  case Nil
  obtain r1 s1 where p1: "pick_partition present s = (r1, s1)" by force
  note P1 = pick_partition_ok[OF inv p1]
  show ?thesis
  proof (cases r1)
    case (Some p)
    then have eq: "anchor = p" "adv = Some p" "t = s1"
      using c Nil p1 by (simp_all add: choose_anchor_def eq_commute)
    have "\<exists>ps. jm_rr_order s1 = p # ps" using P1(3) Some by (cases "jm_rr_order s1") simp_all
    then show ?thesis unfolding Nil eq list.case using P1(1,2) P1(4)[OF Some] by blast
  next
    case None
    define s2 where "s2 = reseed present s1"
    have sub: "set (sort_key reseed_key present) \<subseteq> partition_of cfg ` set (all_items s1)"
      using present(2) same_work_all[OF P1(2)] by simp
    note R = reseed_ok[OF P1(1) sub, folded reseed_def, folded s2_def]
    have i2: "jm_inv cfg s2" using R by blast
    obtain r2 s3 where p2: "pick_partition present s2 = (r2, s3)" by force
    note P2 = pick_partition_ok[OF i2 p2]
    have "hd present \<in> set (jm_rr_order s2)" using R present(1) by simp
    then have "jm_rr_order s3 \<noteq> []"
      unfolding P2(5) dropWhile_eq_Nil_conv using present(1) hd_in_set by blast
    then obtain p where p: "r2 = Some p" "p # tl (jm_rr_order s3) = jm_rr_order s3"
      using P2(3) by (cases "jm_rr_order s3") auto
    then have eq: "anchor = p" "adv = Some p" "t = s3"
      using c p2 unfolding choose_anchor_def Nil p1 None p(1) s2_def by auto
    have "same_work s s3" using P1(2) R P2(2) by (simp add: same_work_def)
    then show ?thesis unfolding Nil eq list.case using P2(1) P2(4)[OF p(1)] p(2)[symmetric] by blast
  qed
qed

subsection \<open>Selection\<close>

lemma append_while_ok:
  assumes "distinct acc" "length acc \<le> n"
  shows "distinct (append_while n acc ws) \<and> length (append_while n acc ws) \<le> n
     \<and> set (append_while n acc ws) \<subseteq> set acc \<union> set ws \<and> (\<exists>xs. append_while n acc ws = acc @ xs)"
  using assms
proof (induction n acc ws rule: append_while.induct)
  case (2 n acc w ws)
  let ?acc = "if w \<notin> set acc \<and> length acc < n then acc @ [w] else acc"
  have "distinct ?acc" "length ?acc \<le> n" using "2.prems" by auto
  note I = "2.IH"[OF this]
  have "set ?acc \<subseteq> insert w (set acc)" "\<exists>xs. ?acc = acc @ xs" by auto
  with I show ?case by (auto simp: append_eq_append_conv2)
qed simp

lemma starved_ids_ok:
  assumes "distinct (map wi_id cands)"
  shows "distinct (starved_ids cfg cands)" "set (starved_ids cfg cands) = wi_id ` {it \<in> set cands. starved cfg it}"
proof -
  have "distinct (map wi_id (filter (starved cfg) cands))" using assms by (rule distinct_map_filter)
  then show "distinct (starved_ids cfg cands)" by (simp only: starved_ids_def distinct_map_sort_key)
  show "set (starved_ids cfg cands) = wi_id ` {it \<in> set cands. starved cfg it}"
    by (simp add: starved_ids_def)
qed

lemma keys_of_graphs: "map fst (graphs_of cands) = map wi_id cands" if "distinct (map wi_id cands)"
  using graphs_of_eq[OF that] by (simp add: comp_def)

text \<open>The override: starved candidates first, oldest first, and the whole batch is theirs when they fill it.\<close>

lemma apply_starvation_ok:
  assumes "distinct (map wi_id cands)" "set base \<subseteq> wi_id ` set cands" "filter (starved cfg) cands \<noteq> []" "0 < n"
  defines "ids \<equiv> apply_starvation_policy cfg cands base n"
  shows "distinct ids" "set ids \<subseteq> wi_id ` set cands" "length ids \<le> n" "ids \<noteq> []"
    and "take n (starved_ids cfg cands) = take (length (starved_ids cfg cands)) ids"
proof -
  let ?sel = "starved_ids cfg cands"
  note S = starved_ids_ok[OF assms(1), of cfg]
  have ne: "?sel \<noteq> []"
    using assms(3) S(2) unfolding filter_empty_conv by (metis (mono_tags, lifting) empty_iff image_eqI list.set(1) mem_Collect_eq)
  have "distinct ids \<and> set ids \<subseteq> wi_id ` set cands \<and> length ids \<le> n \<and> ids \<noteq> []
    \<and> take n ?sel = take (length ?sel) ids"
  proof (cases "n \<le> length ?sel")
    case True
    then have "ids = take n ?sel" using assms(3) by (simp add: ids_def apply_starvation_policy_def)
    moreover have "set (take n ?sel) \<subseteq> wi_id ` set cands"
      using set_take_subset[of n ?sel] S(2) by blast
    ultimately show ?thesis using S(1) ne assms(4) True by simp
  next
    case False
    let ?a = "append_while n ?sel base"
    have ids: "ids = append_while n ?a (map wi_id cands)"
      using assms(3) False by (simp add: ids_def apply_starvation_policy_def)
    have A: "distinct ?a \<and> length ?a \<le> n \<and> set ?a \<subseteq> set ?sel \<union> set base \<and> (\<exists>xs. ?a = ?sel @ xs)"
      using False S(1) by (intro append_while_ok) simp_all
    then have B: "distinct ids \<and> length ids \<le> n \<and> set ids \<subseteq> set ?a \<union> wi_id ` set cands \<and> (\<exists>xs. ids = ?a @ xs)"
      unfolding ids using append_while_ok[of ?a n "map wi_id cands"] by simp
    obtain xs ys where xs: "?a = ?sel @ xs" "ids = ?a @ ys" using A B by blast
    have "set ids \<subseteq> wi_id ` set cands" using A B S(2) assms(2) by blast
    moreover have "take (length ?sel) ids = ?sel" by (simp add: xs)
    ultimately show ?thesis using B ne False xs by simp
  qed
  then show "distinct ids" "set ids \<subseteq> wi_id ` set cands" "length ids \<le> n" "ids \<noteq> []"
    "take n ?sel = take (length ?sel) ids" by simp_all
qed

text \<open>Whatever path selects, the ids are a batch of the candidates.\<close>

lemma select_ids_ok:
  assumes "distinct (map wi_id cands)" "cands \<noteq> []" "0 < n" "select_ids cfg pol cands n = Inr ids"
  shows "distinct ids \<and> set ids \<subseteq> wi_id ` set cands \<and> length ids \<le> n \<and> ids \<noteq> []
     \<and> take n (starved_ids cfg cands) = take (length (starved_ids cfg cands)) ids"
proof (cases "filter (starved cfg) cands = []")
  case True
  then have "policy_select (jc_cost cfg, pol) cands n = Inr ids" using assms(4) by (simp add: select_ids_def)
  moreover have "starved_ids cfg cands = []" using True by (simp add: starved_ids_def)
  ultimately show ?thesis
    using registry.chosen[OF assms(1)] registry.progress[OF assms(1-3), of "(jc_cost cfg, pol)"] by auto
next
  case False
  let ?base = "select_affinity_batch_ids default_weights (graphs_of cands) (enqueued_of cands) n (starved_ids cfg cands)"
  have "distinct (map fst (graphs_of cands))" using assms(1) by (simp add: keys_of_graphs)
  then have "set ?base \<subseteq> fst ` set (graphs_of cands)" by (rule select_affinity_batch_ids_basic(3))
  also have "\<dots> = wi_id ` set cands" using arg_cong[OF keys_of_graphs[OF assms(1)], of set] by simp
  finally have b: "set ?base \<subseteq> wi_id ` set cands" .
  have "ids = apply_starvation_policy cfg cands ?base n" using assms(4) False by (simp add: select_ids_def)
  then show ?thesis using apply_starvation_ok[OF assms(1) b False assms(3)] by simp
qed

lemma filter_by_id:
  "distinct (map wi_id cands) \<Longrightarrow> it \<in> set cands \<Longrightarrow> wi_id it = w \<Longrightarrow> filter (\<lambda>x. wi_id x = w) cands = [it]"
proof (induction cands)
  case (Cons y cands)
  have none: "filter (\<lambda>x. wi_id x = wi_id y) cands = []"
    using Cons.prems(1) by (auto simp: filter_empty_conv image_iff eq_commute)
  show ?case
  proof (cases "y = it")
    case True
    then show ?thesis using none Cons.prems(3) by simp
  next
    case False
    then have it: "it \<in> set cands" using Cons.prems(2) by simp
    then have "wi_id it \<noteq> wi_id y" using Cons.prems(1) by (auto simp: image_iff)
    then show ?thesis using Cons.IH[OF _ it] Cons.prems by simp
  qed
qed simp

lemma lookup_items_ok:
  assumes "distinct (map wi_id cands)" "set ids \<subseteq> wi_id ` set cands"
  shows "\<exists>its. lookup_items cands ids = Inr its \<and> map wi_id its = ids \<and> set its \<subseteq> set cands"
  using assms(2)
proof (induction ids)
  case (Cons w ws)
  then obtain it where it: "it \<in> set cands" "wi_id it = w" by auto
  have "filter (\<lambda>x. wi_id x = w) cands = [it]" using assms(1) it by (rule filter_by_id)
  then show ?case using Cons it by auto
qed simp

lemma batch_of_ok:
  "its \<noteq> [] \<Longrightarrow> \<exists>b. batch_of its = Inr b \<and> bs_workflows b = its \<and> bs_config b = wi_config (hd its)"
  by (cases its) (simp_all add: batch_of_def)

subsection \<open>The reservation\<close>

text \<open>The partitions a reservation may pick, and its batch size.\<close>

definition may_run :: "jm_config \<Rightarrow> free_capacity option \<Rightarrow> partition \<Rightarrow> bool" where
  "may_run cfg capacity p = (case capacity of None \<Rightarrow> True | Some fc \<Rightarrow> partition_eligible cfg p fc)"

definition batch_limit :: "int \<Rightarrow> nat" where
  "batch_limit b = (if b \<le> 0 then 1 else nat b)"

definition starved_queue :: "jm_config \<Rightarrow> free_capacity option \<Rightarrow> jm_state \<Rightarrow> workflow_item list" where
  "starved_queue cfg capacity s =
     filter (\<lambda>it. starved cfg it \<and> may_run cfg capacity (partition_of cfg it)) (all_items s)"

definition runnable :: "jm_config \<Rightarrow> free_capacity option \<Rightarrow> jm_state \<Rightarrow> partition list" where
  "runnable cfg capacity s = filter (may_run cfg capacity) (present_partitions cfg s)"

text \<open>What a reservation handed out in state \<open>s\<close> promises.\<close>

definition reservation_ok ::
  "jm_config \<Rightarrow> int \<Rightarrow> free_capacity option \<Rightarrow> jm_state \<Rightarrow> reservation \<Rightarrow> bool" where
  "reservation_ok cfg b capacity s r \<longleftrightarrow>
     (let its = bs_workflows (rs_selection r); sel = rp_selected (rs_payload r); missed = rp_miss_targets (rs_payload r)
      in its \<noteq> [] \<and> set its \<subseteq> set (all_items s) \<and> map wi_id its = sel \<and> distinct sel
       \<and> length its \<le> batch_limit b \<and> bs_config (rs_selection r) = wi_config (hd its)
       \<and> distinct missed \<and> set missed \<inter> set sel = {}
       \<and> (\<exists>p \<in> set (runnable cfg capacity s). (\<forall>it \<in> set its. partition_of cfg it = p)
          \<and> (\<forall>w \<in> set missed. \<exists>it \<in> set (all_items s). wi_id it = w \<and> partition_of cfg it = p)
          \<and> (case starved_queue cfg capacity s of
               it # _ \<Rightarrow> p = partition_of cfg it \<and> rp_partition (rs_payload r) = None
             | [] \<Rightarrow> rp_partition (rs_payload r) = Some p)))"

lemma runnable_iff:
  "p \<in> set (runnable cfg capacity s) \<longleftrightarrow> may_run cfg capacity p \<and> (\<exists>it \<in> set (all_items s). partition_of cfg it = p)"
  by (auto simp: runnable_def set_present)

text \<open>The four ways a reservation ends when none is outstanding.\<close>

lemma reserve_cases:
  assumes inv: "jm_inv cfg s" and free: "jm_active s = None"
    and r: "reserve_batch cfg b capacity s = (res, t)"
  obtains (idle) "runnable cfg capacity s = []" "res = Inr None" "t = s\<lparr>jm_not_empty := False\<rparr>"
  | (empty) p s1 where "p \<in> set (runnable cfg capacity s)" "concat (map (pool cfg p s) priorities) = []"
      "res = Inr None" "t = s1\<lparr>jm_not_empty := False\<rparr>" "jm_inv cfg s1" "same_work s s1"
  | (failed) p s1 pol e where "p \<in> set (runnable cfg capacity s)" "res = Inl e" "t = s1\<lparr>jm_policy := pol\<rparr>" "jm_inv cfg s1" "same_work s s1"
      "policy_select (jc_cost cfg, pol) (concat (map (pool cfg p s) priorities)) (batch_limit b) = Inl e"
  | (reserved) p s1 pol rsv where "p \<in> set (runnable cfg capacity s)" "res = Inr (Some rsv)"
      "t = s1\<lparr>jm_policy := pol, jm_active := Some rsv, jm_serial := jm_serial s + 1\<rparr>" "jm_inv cfg s1" "same_work s s1"
      "rs_serial rsv = jm_serial s" "reservation_ok cfg b capacity s rsv"
      "take (batch_limit b) (starved_ids cfg (concat (map (pool cfg p s) priorities)))
         = take (length (starved_ids cfg (concat (map (pool cfg p s) priorities)))) (rp_selected (rs_payload rsv))"
      "\<forall>x \<in> set (bs_workflows (rs_selection rsv)). partition_of cfg x = p"
proof -
  let ?ok = "\<lambda>p. case capacity of None \<Rightarrow> True | Some fc \<Rightarrow> partition_eligible cfg p fc"
  let ?n = "batch_limit b"
  have ok: "?ok = may_run cfg capacity" by (simp add: fun_eq_iff may_run_def)
  have n: "(if b \<le> 0 then 1 else nat b) = ?n" "0 < ?n" by (simp_all add: batch_limit_def)
  show ?thesis
  proof (cases "runnable cfg capacity s = []")
    case True
    then show ?thesis using r free idle
      unfolding reserve_batch_def Let_def ok by (simp add: runnable_def)
  next
    case False
    obtain anchor adv s1 where c: "choose_anchor cfg (runnable cfg capacity s) (starved_queue cfg capacity s) s = (anchor, adv, s1)"
      by (metis prod_cases3)
    have sub: "set (runnable cfg capacity s) \<subseteq> partition_of cfg ` set (all_items s)"
      unfolding runnable_def set_present[symmetric] by (rule filter_is_subset)
    have st: "partition_of cfg ` set (starved_queue cfg capacity s) \<subseteq> set (runnable cfg capacity s)"
      by (auto simp: starved_queue_def runnable_iff)
    note A = choose_anchor_ok[OF inv False sub st c]
    have p: "anchor \<in> set (runnable cfg capacity s)" and i1: "jm_inv cfg s1" and w: "same_work s s1" using A by blast+
    define cands where "cands = concat (map (pool cfg anchor s) priorities)"
    have pools: "pool cfg anchor s1 = pool cfg anchor s"
      using w by (simp add: pool_def user_lists_def same_work_def fun_eq_iff)
    obtain prs where bp: "build_pool cfg anchor priorities s1 = (cands, prs, s1)"
      using build_pool_eq[of s1 cfg anchor priorities] i1 unfolding jm_inv_def cands_def pools by blast
    define pol where "pol = policy_observe_free_lanes
        (case capacity of None \<Rightarrow> None | Some fc \<Rightarrow> Some (partition_dispatch_count cfg anchor fc cands)) (jm_policy s1)"
    have step: "reserve_batch cfg b capacity s = (if cands = [] then (Inr None, s1\<lparr>jm_not_empty := False\<rparr>)
       else let s3 = s1\<lparr>jm_policy := pol\<rparr>
            in case select_ids cfg pol cands ?n of
                 Inl e \<Rightarrow> (Inl e, s3)
               | Inr ids \<Rightarrow>
                   (case lookup_items cands ids of
                      Inl e \<Rightarrow> (Inl e, s3)
                    | Inr its \<Rightarrow>
                        (case batch_of its of
                           Inl e \<Rightarrow> (Inl e, s3)
                         | Inr bs \<Rightarrow>
                             let r = \<lparr>rs_serial = jm_serial s3, rs_selection = bs,
                                   rs_payload = \<lparr>rp_selected = ids,
                                     rp_miss_targets = filter (\<lambda>w. w \<notin> set ids) (map wi_id cands),
                                     rp_partition = adv, rp_priorities = prs\<rparr>\<rparr>
                             in (Inr (Some r), s3\<lparr>jm_active := Some r, jm_serial := jm_serial s3 + 1\<rparr>))))"
      using free False c bp unfolding reserve_batch_def Let_def ok n runnable_def starved_queue_def pol_def by simp
    show ?thesis
    proof (cases "cands = []")
      case True
      have e: "res = Inr None" "t = s1\<lparr>jm_not_empty := False\<rparr>" using r True unfolding step by simp_all
      show ?thesis by (rule empty[OF p True[unfolded cands_def] e i1 w])
    next
      case ne: False
      obtain x where x: "anchor = partition_of cfg x" using p by (auto simp: runnable_iff)
      have C: "set cands \<subseteq> {it \<in> set (all_items s). partition_of cfg it = anchor}" "distinct (map wi_id cands)"
        using pools_ok[OF inv, of anchor] unfolding cands_def x by simp_all
      show ?thesis
      proof (cases "select_ids cfg pol cands ?n")
        case (Inl e)
        then have "policy_select (jc_cost cfg, pol) cands ?n = Inl e" by (simp add: select_ids_def split: if_splits)
        moreover have "res = Inl e" "t = s1\<lparr>jm_policy := pol\<rparr>" using r ne Inl unfolding step by simp_all
        ultimately show ?thesis using failed[OF p _ _ i1 w] unfolding cands_def by blast
      next
        case (Inr ids)
        note S = select_ids_ok[OF C(2) ne n(2) Inr]
        then obtain its where its: "lookup_items cands ids = Inr its" "map wi_id its = ids" "set its \<subseteq> set cands"
          using lookup_items_ok[OF C(2)] by blast
        then have "its \<noteq> []" using S by auto
        then obtain bs where bs: "batch_of its = Inr bs" "bs_workflows bs = its" "bs_config bs = wi_config (hd its)"
          using batch_of_ok by blast
        define rsv where "rsv = \<lparr>rs_serial = jm_serial s1, rs_selection = bs,
            rs_payload = \<lparr>rp_selected = ids, rp_miss_targets = filter (\<lambda>w. w \<notin> set ids) (map wi_id cands),
              rp_partition = adv, rp_priorities = prs\<rparr>\<rparr>"
        have res: "res = Inr (Some rsv)" "t = s1\<lparr>jm_policy := pol, jm_active := Some rsv, jm_serial := jm_serial s + 1\<rparr>"
          using r ne Inr its(1) bs(1) w unfolding step Let_def rsv_def by (simp_all add: same_work_def)
        have "reservation_ok cfg b capacity s rsv"
          unfolding reservation_ok_def Let_def rsv_def reservation.simps reservation_payload.simps bs(2,3)
        proof (intro conjI bexI[OF _ p])
          show "length its \<le> batch_limit b" using S its(2) by (metis length_map)
          show "distinct (filter (\<lambda>w. w \<notin> set ids) (map wi_id cands))" using C(2) by (rule distinct_filter)
          show "case starved_queue cfg capacity s of [] \<Rightarrow> adv = Some anchor | it # _ \<Rightarrow> anchor = partition_of cfg it \<and> adv = None"
            using A by (simp split: list.splits)
          show "\<forall>w \<in> set (filter (\<lambda>w. w \<notin> set ids) (map wi_id cands)). \<exists>it \<in> set (all_items s). wi_id it = w \<and> partition_of cfg it = anchor"
            using C(1) by auto
        qed (use \<open>its \<noteq> []\<close> its C(1) S in auto)
        moreover have "rs_serial rsv = jm_serial s" using w by (simp add: rsv_def same_work_def)
        moreover have "rp_selected (rs_payload rsv) = ids" by (simp add: rsv_def)
        moreover have "\<forall>x \<in> set (bs_workflows (rs_selection rsv)). partition_of cfg x = anchor"
          using its(3) C(1) bs(2) by (auto simp: rsv_def)
        ultimately show ?thesis using reserved[OF p res i1 w] S unfolding cands_def by simp
      qed
    qed
  qed
qed

end
