(* ===== verification/Job_Manager_Run.thy ===== *)
theory Job_Manager_Run
  imports Job_Manager_Reserve
begin

section \<open>Runs of the job manager\<close>

text \<open>
  The job manager over time: any sequence of its operations, as an inductive step relation over the
  manager's state and a history of the ids enqueued, dispatched and removed and of the reservations
  handed out. The ids \<open>unique_id()\<close> returns are new, which is the hypothesis of an enqueue step.
\<close>

subsection \<open>What the operations leave alone\<close>

definition slot :: "jm_state \<Rightarrow> reservation option \<times> nat" where
  "slot s = (jm_active s, jm_serial s)"

named_theorems slot_frame \<open>operations that leave the reservation slot alone\<close>

lemma slot_foldl: "(\<And>s x. slot (f s x) = slot s) \<Longrightarrow> slot (foldl f s xs) = slot s"
  by (induction xs arbitrary: s) simp_all

lemma slot_basic [slot_frame]:
  "slot (enqueue_item cfg it s) = slot s" "slot (finalize_workflows wids s) = slot s" "slot (prune p s) = slot s"
  "slot (drop_stale_partitions cfg s) = slot s" "slot (clear_if_empty s) = slot s" "slot (advance_user pr s) = slot s"
  "slot (observe_partition cfg fc now pt s) = slot s" "slot (s\<lparr>jm_not_empty := nb\<rparr>) = slot s"
  "slot (s\<lparr>jm_policy := pol\<rparr>) = slot s" "slot (s\<lparr>jm_queues := qs\<rparr>) = slot s"
  "slot (s\<lparr>jm_since := si, jm_count := co\<rparr>) = slot s"
  by (simp_all add: slot_def enqueue_item_def finalize_workflows_def prune_def drop_stale_partitions_def clear_if_empty_def
      advance_user_def observe_partition_def Let_def)

lemma slot_split [slot_frame]:
  "slot (bump_miss w s) = slot s" "slot (advance_partition p s) = slot s" "slot (drop_from_priority W pr s) = slot s"
  by (simp_all add: bump_miss_def advance_partition_def drop_from_priority_def slot_frame slot_def prune_def Let_def
      split: option.split list.split)

lemma slot_folds [slot_frame]:
  "slot (foldl (\<lambda>s it. enqueue_item cfg it s) s its) = slot s"
  "slot (foldl (\<lambda>s w. bump_miss w s) s ws) = slot s"
  "slot (foldl (\<lambda>s p. advance_user p s) s prs) = slot s"
  "slot (foldl (\<lambda>s p. observe_partition cfg fc now p s) s ps) = slot s"
  "slot (drop_from_queues W s) = slot s"
  unfolding drop_from_queues_def by (rule slot_foldl; simp add: slot_frame)+

lemma slot_operations [slot_frame]:
  "slot (snd (enqueue cfg j now ids s)) = slot s" "slot (remove_workflows cfg wids s) = slot s"
  "slot (snd (permanently_unsatisfiable cfg fc now s)) = slot s"
  by (simp_all add: enqueue_def remove_workflows_def permanently_unsatisfiable_def slot_frame Let_def split: sum.split)

lemma commit_slot:
  assumes "commit_reservation cfg r s = (e, t)"
  shows "jm_serial t = jm_serial s \<and> jm_active t = (if e = None then None else jm_active s)
     \<and> (e = None \<longrightarrow> is_active r s)"
proof (cases "is_active r s")
  case True
  obtain e' pol where pol: "policy_on_commit (jc_cost cfg) (jm_policy s) (bs_workflows (rs_selection r)) = (e', pol)" by force
  show ?thesis
  proof (cases e')
    case None
    let ?pl = "rs_payload r"
    define s1 where "s1 = foldl (\<lambda>s w. bump_miss w s) (s\<lparr>jm_policy := pol\<rparr>) (rp_miss_targets ?pl)"
    define s2 where "s2 = drop_stale_partitions cfg (drop_from_queues (set (rp_selected ?pl)) s1)"
    define s3 where "s3 = (case rp_partition ?pl of None \<Rightarrow> s2 | Some p \<Rightarrow> advance_partition p s2)"
    define s4 where "s4 = clear_if_empty (foldl (\<lambda>s p. advance_user p s) s3 (rp_priorities ?pl))"
    have "e = None" "t = s4\<lparr>jm_active := None\<rparr>"
      using assms True pol None unfolding s4_def s3_def s2_def s1_def
      by (simp_all add: commit_reservation_def Let_def split: option.splits)
    moreover have "slot s4 = slot s"
      unfolding s4_def s3_def s2_def s1_def by (cases "rp_partition ?pl") (simp_all add: slot_frame)
    ultimately show ?thesis using True by (simp add: slot_def)
  next
    case (Some err)
    then show ?thesis using assms True pol by (auto simp: commit_reservation_def)
  qed
next
  case False
  then show ?thesis using assms by (auto simp: commit_reservation_def)
qed

subsection \<open>Steps and reachable states\<close>

record jm_run =
  jr_state :: jm_state
  jr_seen :: "string list"
  jr_dispatched :: "string list"
  jr_removed :: "string list"
  jr_issued :: "reservation list"

definition run_init :: "policy \<Rightarrow> jm_run" where
  "run_init pol = \<lparr>jr_state = jm_init pol, jr_seen = [], jr_dispatched = [], jr_removed = [], jr_issued = []\<rparr>"

definition queued_ids :: "jm_state \<Rightarrow> string set" where
  "queued_ids s = wi_id ` set (all_items s)"

inductive jm_step :: "jm_config \<Rightarrow> jm_run \<Rightarrow> jm_run \<Rightarrow> bool" for cfg where
  step_enqueue: "enqueue cfg j now ids (jr_state R) = (Inr its, s) \<Longrightarrow> length (jb_graphs j) \<le> length ids \<Longrightarrow>
    distinct ids \<Longrightarrow> set ids \<inter> set (jr_seen R) = {} \<Longrightarrow>
    jm_step cfg R (R\<lparr>jr_state := s, jr_seen := jr_seen R @ map wi_id its\<rparr>)"
| step_enqueue_error: "enqueue cfg j now ids (jr_state R) = (Inl e, s) \<Longrightarrow> jm_step cfg R (R\<lparr>jr_state := s\<rparr>)"
| step_reserve: "reserve_batch cfg b capacity (jr_state R) = (res, s) \<Longrightarrow>
    jm_step cfg R (R\<lparr>jr_state := s, jr_issued := (case res of Inr (Some r) \<Rightarrow> [r] | _ \<Rightarrow> []) @ jr_issued R\<rparr>)"
| step_commit: "r \<in> set (jr_issued R) \<Longrightarrow> commit_reservation cfg r (jr_state R) = (e, s) \<Longrightarrow>
    jm_step cfg R (R\<lparr>jr_state := s,
      jr_dispatched := jr_dispatched R @ (if e = None then rp_selected (rs_payload r) else [])\<rparr>)"
| step_abort: "r \<in> set (jr_issued R) \<Longrightarrow> abort_reservation r (jr_state R) = (e, s) \<Longrightarrow>
    jm_step cfg R (R\<lparr>jr_state := s\<rparr>)"
| step_remove: "jm_step cfg R (R\<lparr>jr_state := remove_workflows cfg wids (jr_state R), jr_removed := jr_removed R @ wids\<rparr>)"
| step_finalize: "jm_step cfg R (R\<lparr>jr_state := finalize_workflows wids (jr_state R)\<rparr>)"
| step_observe: "permanently_unsatisfiable cfg fc now (jr_state R) = (its, s) \<Longrightarrow> jm_step cfg R (R\<lparr>jr_state := s\<rparr>)"

inductive jm_reachable :: "jm_config \<Rightarrow> jm_run \<Rightarrow> bool" for cfg where
  reach_init: "jm_reachable cfg (run_init pol)"
| reach_step: "jm_reachable cfg R \<Longrightarrow> jm_step cfg R R' \<Longrightarrow> jm_reachable cfg R'"

inductive_cases jm_stepE: "jm_step cfg R R'"

text \<open>The reservation outstanding, when there is one, is one handed out, and its workflows were not dispatched.\<close>

definition slot_ok :: "jm_state \<Rightarrow> string list \<Rightarrow> string list \<Rightarrow> reservation list \<Rightarrow> bool" where
  "slot_ok s seen dispatched issued \<longleftrightarrow>
     (\<forall>r \<in> set issued. rs_serial r < jm_serial s) \<and> distinct (map rs_serial issued)
   \<and> (\<forall>r. jm_active s = Some r \<longrightarrow>
        r \<in> set issued \<and> distinct (rp_miss_targets (rs_payload r)) \<and> distinct (rp_selected (rs_payload r))
      \<and> set (rp_selected (rs_payload r)) \<subseteq> set seen - set dispatched)"

definition history_ok :: "string set \<Rightarrow> string list \<Rightarrow> string list \<Rightarrow> string list \<Rightarrow> bool" where
  "history_ok queued seen dispatched removed \<longleftrightarrow> distinct seen \<and> distinct dispatched
   \<and> set dispatched \<subseteq> set seen \<and> queued \<subseteq> set seen \<and> queued \<inter> set dispatched = {}
   \<and> set seen \<subseteq> queued \<union> set dispatched \<union> set removed"

definition run_inv :: "jm_config \<Rightarrow> jm_run \<Rightarrow> bool" where
  "run_inv cfg R \<longleftrightarrow> jm_inv cfg (jr_state R) \<and> slot_ok (jr_state R) (jr_seen R) (jr_dispatched R) (jr_issued R)
     \<and> history_ok (queued_ids (jr_state R)) (jr_seen R) (jr_dispatched R) (jr_removed R)"

lemmas run_defs = run_inv_def slot_ok_def history_ok_def

text \<open>A step that keeps the queued ids and the reservation slot keeps the whole invariant.\<close>

lemma run_inv_keep:
  assumes "run_inv cfg R" "jm_inv cfg s" "queued_ids s = queued_ids (jr_state R)" "slot s = slot (jr_state R)"
  shows "run_inv cfg (R\<lparr>jr_state := s\<rparr>)"
  using assms by (simp add: run_defs slot_def)

lemma active_issued:
  assumes "run_inv cfg R" "r \<in> set (jr_issued R)" "is_active r (jr_state R)"
  shows "jm_active (jr_state R) = Some r"
proof -
  obtain a where a: "jm_active (jr_state R) = Some a" "rs_serial a = rs_serial r"
    using assms(3) by (auto simp: is_active_def split: option.splits)
  then have "a \<in> set (jr_issued R)" "distinct (map rs_serial (jr_issued R))" using assms(1) by (simp_all add: run_defs)
  then have "a = r" using assms(2) a(2) by (metis distinct_map inj_onD)
  then show ?thesis using a by simp
qed

lemma run_inv_init: "run_inv cfg (run_init pol)"
  by (simp add: run_defs run_init_def jm_inv_init queued_ids_def)
    (simp add: jm_init_def all_items_def queue_items_def priorities_def)

lemma enqueue_queued:
  assumes "enqueue cfg j now ids s = (Inr its, t)"
  shows "queued_ids t = queued_ids s \<union> wi_id ` set its"
    and "length (jb_graphs j) \<le> length ids \<Longrightarrow> map wi_id its = take (length (jb_graphs j)) ids"
proof -
  have its: "items_of_job j now (jb_graphs j) ids = Inr its"
    and t: "t = (foldl (\<lambda>s it. enqueue_item cfg it s) s its)\<lparr>jm_not_empty := True\<rparr>"
    using assms by (auto simp: enqueue_def split: sum.splits)
  have "all_items t = all_items (foldl (\<lambda>s it. enqueue_item cfg it s) s its)"
    by (rule all_items_cong) (simp add: t)
  then have "mset (all_items t) = mset (all_items s) + mset its" by (simp only: enqueue_items_all)
  then have "set (all_items t) = set (all_items s) \<union> set its" by (metis set_mset_mset set_mset_union)
  then show "queued_ids t = queued_ids s \<union> wi_id ` set its" by (simp add: queued_ids_def image_Un)
  show "map wi_id its = take (length (jb_graphs j)) ids" if "length (jb_graphs j) \<le> length ids"
    using items_of_job_ids[OF its that] .
qed

lemma reserve_queued:
  assumes "jm_inv cfg s" "reserve_batch cfg b capacity s = (res, t)"
  shows "jm_inv cfg t \<and> all_items t = all_items s \<and>
     (case res of
        Inr (Some r) \<Rightarrow> jm_active s = None \<and> jm_active t = Some r \<and> rs_serial r = jm_serial s
            \<and> jm_serial t = jm_serial s + 1 \<and> reservation_ok cfg b capacity s r
      | _ \<Rightarrow> slot t = slot s)"
proof (cases "jm_active s = None")
  case True
  have upd: "all_items (u\<lparr>jm_policy := pol, jm_active := a, jm_serial := k\<rparr>) = all_items u"
    "all_items (u\<lparr>jm_not_empty := nb\<rparr>) = all_items u" "all_items (u\<lparr>jm_policy := pol\<rparr>) = all_items u" for u pol a k nb
    by (rule all_items_cong; simp)+
  show ?thesis
    using assms(1) True assms(2)
  proof (cases rule: reserve_cases)
    case idle
    then show ?thesis using assms(1) upd by (simp add: slot_frame)
  next
    case (empty p s1)
    then show ?thesis using upd same_work_all[of s s1] by (simp add: slot_def same_work_def)
  next
    case (failed p s1 pol e)
    then show ?thesis using upd same_work_all[of s s1] by (simp add: slot_def same_work_def)
  next
    case (reserved p s1 pol rsv)
    then show ?thesis using True upd same_work_all[of s s1] by simp
  qed
next
  case False
  then have "res = Inl (RuntimeError ''outstanding reservation'')" "t = s"
    using assms(2) by (simp_all add: reserve_batch_def Let_def)
  then show ?thesis using assms(1) by simp
qed

lemma commit_queued:
  assumes "run_inv cfg R" "r \<in> set (jr_issued R)" "commit_reservation cfg r (jr_state R) = (None, t)"
  shows "jm_active (jr_state R) = Some r" "jm_inv cfg t"
    and "queued_ids t = queued_ids (jr_state R) - set (rp_selected (rs_payload r))"
proof -
  have "is_active r (jr_state R)" using commit_slot[OF assms(3)] by simp
  then show a: "jm_active (jr_state R) = Some r" using assms(1,2) by (simp add: active_issued)
  then have "distinct (rp_miss_targets (rs_payload r))" using assms(1) by (simp add: run_defs)
  note C = commit_effect[OF _ this assms(3)]
  show "jm_inv cfg t" using C(1) assms(1) by (simp add: run_inv_def)
  have id: "wi_id (missed W it) = wi_id it" for W it by (simp add: missed_def)
  show "queued_ids t = queued_ids (jr_state R) - set (rp_selected (rs_payload r))"
    using C(3) assms(1) by (auto simp: queued_ids_def run_inv_def drop_items_def image_image id)
qed

lemma run_inv_enqueue:
  assumes inv: "run_inv cfg R" and e: "enqueue cfg j now ids (jr_state R) = (Inr its, s)"
    and ids: "length (jb_graphs j) \<le> length ids" "distinct ids" "set ids \<inter> set (jr_seen R) = {}"
  shows "run_inv cfg (R\<lparr>jr_state := s, jr_seen := jr_seen R @ map wi_id its\<rparr>)"
proof -
  note Q = enqueue_queued[OF e]
  have sub: "distinct (map wi_id its)" "set (map wi_id its) \<subseteq> set ids"
    using Q(2)[OF ids(1)] ids(2) by (simp_all add: set_take_subset)
  then have new: "set (map wi_id its) \<inter> set (jr_seen R) = {}" using ids(3) by blast
  have i: "jm_inv cfg (jr_state R)" using inv by (simp add: run_inv_def)
  have fresh: "fresh_ids j ids (jr_state R)"
    using ids inv by (auto simp: fresh_ids_def run_defs queued_ids_def)
  have "slot s = slot (jr_state R)" using slot_operations(1)[of cfg j now ids "jr_state R"] by (simp add: e)
  then show ?thesis using inv sub(1) new Q(1) enqueue_inv[OF i fresh e] by (auto simp: run_defs slot_def)
qed

lemma run_inv_commit:
  assumes inv: "run_inv cfg R" and r: "r \<in> set (jr_issued R)" "commit_reservation cfg r (jr_state R) = (None, s)"
  shows "run_inv cfg (R\<lparr>jr_state := s, jr_dispatched := jr_dispatched R @ rp_selected (rs_payload r)\<rparr>)"
proof -
  note Q = commit_queued[OF inv r]
  let ?W = "set (rp_selected (rs_payload r))"
  have w: "distinct (rp_selected (rs_payload r))" "?W \<subseteq> set (jr_seen R) - set (jr_dispatched R)"
    using inv Q(1) by (simp_all add: run_defs)
  then show ?thesis using inv Q(2,3) commit_slot[OF r(2)] by (auto simp: run_defs)
qed

lemma run_inv_reserve:
  assumes inv: "run_inv cfg R" and r: "reserve_batch cfg b capacity (jr_state R) = (res, s)"
  shows "run_inv cfg (R\<lparr>jr_state := s, jr_issued := (case res of Inr (Some r) \<Rightarrow> [r] | _ \<Rightarrow> []) @ jr_issued R\<rparr>)"
proof -
  have h: "jm_inv cfg (jr_state R)" using inv by (simp add: run_inv_def)
  note Q = reserve_queued[OF h r]
  have q: "queued_ids s = queued_ids (jr_state R)" and i: "jm_inv cfg s" using Q by (simp_all add: queued_ids_def)
  show ?thesis
  proof (cases "\<exists>rsv. res = Inr (Some rsv)")
    case True
    then obtain rsv where rsv: "res = Inr (Some rsv)" by blast
    have a: "jm_active s = Some rsv" "rs_serial rsv = jm_serial (jr_state R)" "jm_serial s = jm_serial (jr_state R) + 1"
      and ok: "reservation_ok cfg b capacity (jr_state R) rsv" using Q rsv by simp_all
    let ?sel = "rp_selected (rs_payload rsv)"
    have sel: "distinct ?sel" "distinct (rp_miss_targets (rs_payload rsv))"
      "map wi_id (bs_workflows (rs_selection rsv)) = ?sel" "set (bs_workflows (rs_selection rsv)) \<subseteq> set (all_items (jr_state R))"
      using ok by (simp_all add: reservation_ok_def Let_def)
    have "set ?sel \<subseteq> queued_ids (jr_state R)"
      using arg_cong[OF sel(3), of set] image_mono[OF sel(4), of wi_id] by (simp add: queued_ids_def)
    then have "set ?sel \<subseteq> set (jr_seen R) - set (jr_dispatched R)" using inv by (auto simp: run_defs)
    then show ?thesis using i q a sel(1,2) rsv inv by (auto simp: run_defs)
  next
    case False
    then have "slot s = slot (jr_state R)" using Q by (auto split: sum.splits option.splits)
    then show ?thesis using run_inv_keep[OF inv i q] False by (auto split: sum.splits option.splits)
  qed
qed

lemma run_inv_step: "jm_step cfg R R' \<Longrightarrow> run_inv cfg R \<Longrightarrow> run_inv cfg R'"
proof (induction rule: jm_step.induct)
  case (step_enqueue j now ids R its s)
  then show ?case by (intro run_inv_enqueue)
next
  case (step_enqueue_error j now ids R e s)
  then have "s = jr_state R" by (auto simp: enqueue_def split: sum.splits)
  then show ?case using step_enqueue_error by simp
next
  case (step_reserve b capacity R res s)
  then show ?case by (intro run_inv_reserve)
next
  case (step_commit r R e s)
  show ?case
  proof (cases e)
    case None
    then show ?thesis using run_inv_commit[of cfg R r s] step_commit by simp
  next
    case (Some err)
    have "queued_ids s = queued_ids (jr_state R)"
      using step_commit(2) Some all_items_cong[of s "jr_state R"]
      by (auto simp: commit_reservation_def queued_ids_def Let_def split: if_splits prod.splits option.splits)
    moreover have "slot s = slot (jr_state R)" using commit_slot[OF step_commit(2)] Some by (simp add: slot_def)
    moreover have "jm_inv cfg s"
      using step_commit(2,3) Some by (auto simp: run_inv_def commit_reservation_def Let_def split: if_splits prod.splits option.splits)
    ultimately show ?thesis using run_inv_keep[OF step_commit(3)] Some by simp
  qed
next
  case (step_abort r R e s)
  have "s = jr_state R \<or> s = (jr_state R)\<lparr>jm_active := None\<rparr>"
    using step_abort(2) by (auto simp: abort_reservation_def split: if_splits)
  then show ?case
  proof
    assume s: "s = (jr_state R)\<lparr>jm_active := None\<rparr>"
    have "queued_ids s = queued_ids (jr_state R)" using all_items_cong[of s "jr_state R"] by (simp add: s queued_ids_def)
    then show ?thesis using step_abort(3) by (simp add: run_defs) (simp add: s)
  qed (use step_abort(3) in simp)
next
  case (step_remove R wids)
  let ?s = "remove_workflows cfg wids (jr_state R)"
  have i: "jm_inv cfg ?s" "all_items ?s = drop_items (set wids) (all_items (jr_state R))"
    using step_remove remove_workflows_inv by (simp_all add: run_inv_def)
  then have q: "queued_ids ?s = queued_ids (jr_state R) - set wids" by (auto simp: queued_ids_def drop_items_def)
  have "slot ?s = slot (jr_state R)" by (rule slot_operations(2))
  then show ?case using step_remove i(1) q by (auto simp: run_defs slot_def)
next
  case (step_finalize R wids)
  have "queued_ids (finalize_workflows wids (jr_state R)) = queued_ids (jr_state R)"
    using all_items_cong[of "finalize_workflows wids (jr_state R)" "jr_state R"] by (simp add: queued_ids_def finalize_workflows_def)
  then show ?case
    using step_finalize run_inv_keep[OF step_finalize] finalize_inv slot_basic(2) by (simp add: run_inv_def)
next
  case (step_observe fc now R its s)
  have s: "jm_inv cfg s \<and> jm_queues s = jm_queues (jr_state R)"
    using permanently_unsatisfiable_inv[OF _ step_observe(1)] step_observe(2) by (simp add: run_inv_def)
  then have "queued_ids s = queued_ids (jr_state R)" using all_items_cong[of s "jr_state R"] by (simp add: queued_ids_def)
  moreover have "slot s = slot (jr_state R)"
    using slot_operations(3)[of cfg fc now "jr_state R"] by (simp add: step_observe(1))
  ultimately show ?case using run_inv_keep[OF step_observe(2)] s by simp
qed

lemma reachable_run_inv: "jm_reachable cfg R \<Longrightarrow> run_inv cfg R"
  by (induction rule: jm_reachable.induct) (auto intro: run_inv_init run_inv_step)

lemma reserve_frame:
  assumes "jm_inv cfg s" "reserve_batch cfg b capacity s = (Inr (Some r), t)"
  shows "jm_queues t = jm_queues s \<and> jm_rr_users t = jm_rr_users s \<and> jm_items t = jm_items s"
proof -
  have free: "jm_active s = None" using reserve_queued[OF assms] by simp
  show ?thesis
    using assms(1) free assms(2)
  proof (cases rule: reserve_cases)
    case (reserved p s1 pol rsv)
    then show ?thesis by (simp add: same_work_def)
  qed simp_all
qed

text \<open>The anchor of a reservation made while something is starved.\<close>

lemma reserve_anchor:
  assumes "jm_inv cfg s" "reserve_batch cfg b capacity s = (Inr (Some r), t)"
    and "starved_queue cfg capacity s = it # rest"
  shows "(\<forall>x \<in> set (bs_workflows (rs_selection r)). partition_of cfg x = partition_of cfg it)
     \<and> (let forced = starved_ids cfg (concat (map (pool cfg (partition_of cfg it) s) priorities))
        in take (batch_limit b) forced = take (length forced) (rp_selected (rs_payload r)))"
proof -
  have free: "jm_active s = None" using reserve_queued[OF assms(1,2)] by simp
  show ?thesis
    using assms(1) free assms(2)
  proof (cases rule: reserve_cases)
    case (reserved p s1 pol rsv)
    have ok: "reservation_ok cfg b capacity s r" and rsv: "rsv = r" using reserved(2,7) by simp_all
    have 1: "\<forall>x \<in> set (bs_workflows (rs_selection r)). partition_of cfg x = partition_of cfg it"
      using ok unfolding reservation_ok_def Let_def assms(3) list.case by blast
    moreover have "bs_workflows (rs_selection r) \<noteq> []" using ok unfolding reservation_ok_def Let_def by blast
    then have "p = partition_of cfg it"
      using 1 reserved(9) rsv by (cases "bs_workflows (rs_selection r)") auto
    ultimately show ?thesis using reserved(8) rsv by (simp add: Let_def)
  qed simp_all
qed

subsection \<open>The dwell of unsatisfiable partitions\<close>

lemma observe_one:
  fixes s :: jm_state and p :: partition and cfg fc now
  defines "t \<equiv> observe_partition cfg fc now p s"
  shows "map_of (jm_since t) q = (if q = p then if partition_eligible cfg p fc then None else Some (dict_get (jm_since s) p now)
           else map_of (jm_since s) q)"
    and "dict_get (jm_count t) q 0 = (if q = p then if partition_eligible cfg p fc then 0 else dict_get (jm_count s) p 0 + 1
           else dict_get (jm_count s) q 0)"
    and "jm_queues t = jm_queues s"
proof -
  have in_dom: "p \<in> fst ` set (jm_since s) \<longleftrightarrow> map_of (jm_since s) p \<noteq> None" by (metis domIff dom_map_of_conv_image_fst)
  show "map_of (jm_since t) q = (if q = p then if partition_eligible cfg p fc then None else Some (dict_get (jm_since s) p now)
           else map_of (jm_since s) q)"
    unfolding t_def observe_partition_def in_dom
    by (cases "map_of (jm_since s) p") (simp_all add: dict_get_def AList.delete_conv AList.update_conv)
  show "dict_get (jm_count t) q 0 = (if q = p then if partition_eligible cfg p fc then 0 else dict_get (jm_count s) p 0 + 1
           else dict_get (jm_count s) q 0)"
    by (simp add: t_def observe_partition_def dict_get_def AList.delete_conv AList.update_conv)
  show "jm_queues t = jm_queues s" by (simp add: t_def observe_partition_def)
qed

lemma observe_fold:
  fixes ps :: "partition list"
  assumes "distinct ps"
  shows "map_of (jm_since (foldl (\<lambda>s p. observe_partition cfg fc now p s) s ps)) q =
      (if q \<in> set ps then if partition_eligible cfg q fc then None else Some (dict_get (jm_since s) q now)
       else map_of (jm_since s) q)"
    and "dict_get (jm_count (foldl (\<lambda>s p. observe_partition cfg fc now p s) s ps)) q 0 =
      (if q \<in> set ps then if partition_eligible cfg q fc then 0 else dict_get (jm_count s) q 0 + 1
       else dict_get (jm_count s) q 0)"
    and "jm_queues (foldl (\<lambda>s p. observe_partition cfg fc now p s) s ps) = jm_queues s"
proof -
  have "map_of (jm_since (foldl (\<lambda>s p. observe_partition cfg fc now p s) s ps)) q =
      (if q \<in> set ps then if partition_eligible cfg q fc then None else Some (dict_get (jm_since s) q now)
       else map_of (jm_since s) q)
    \<and> dict_get (jm_count (foldl (\<lambda>s p. observe_partition cfg fc now p s) s ps)) q 0 =
      (if q \<in> set ps then if partition_eligible cfg q fc then 0 else dict_get (jm_count s) q 0 + 1
       else dict_get (jm_count s) q 0)
    \<and> jm_queues (foldl (\<lambda>s p. observe_partition cfg fc now p s) s ps) = jm_queues s"
    using assms
  proof (induction ps arbitrary: s)
    case (Cons p ps)
    define s1 where "s1 = observe_partition cfg fc now p s"
    note O = observe_one[where cfg = cfg and fc = fc and now = now and p = p and s = s, folded s1_def]
    have "dict_get (jm_since s1) q now = (if q = p then if partition_eligible cfg p fc then now else dict_get (jm_since s) p now
        else dict_get (jm_since s) q now)"
      using O(1)[of q] by (simp add: dict_get_def)
    then show ?case
      using Cons.IH[of s1] Cons.prems O by (cases "q = p") (simp_all add: s1_def[symmetric])
  qed simp
  then show "map_of (jm_since (foldl (\<lambda>s p. observe_partition cfg fc now p s) s ps)) q =
      (if q \<in> set ps then if partition_eligible cfg q fc then None else Some (dict_get (jm_since s) q now)
       else map_of (jm_since s) q)"
    "dict_get (jm_count (foldl (\<lambda>s p. observe_partition cfg fc now p s) s ps)) q 0 =
      (if q \<in> set ps then if partition_eligible cfg q fc then 0 else dict_get (jm_count s) q 0 + 1
       else dict_get (jm_count s) q 0)"
    "jm_queues (foldl (\<lambda>s p. observe_partition cfg fc now p s) s ps) = jm_queues s" by blast+
qed

lemma observed_partitions:
  fixes s :: jm_state and cfg fc now
  defines "t \<equiv> snd (permanently_unsatisfiable cfg fc now s)"
  shows "all_items t = all_items s"
    and "map_of (jm_since t) q =
      (if q \<in> partition_of cfg ` set (all_items s) \<and> \<not> partition_eligible cfg q fc
       then Some (dict_get (jm_since s) q now) else None)"
    and "q \<in> partition_of cfg ` set (all_items s) \<Longrightarrow> \<not> partition_eligible cfg q fc \<Longrightarrow>
      dict_get (jm_count t) q 0 = dict_get (jm_count s) q 0 + 1"
    and "fst (permanently_unsatisfiable cfg fc now s) = filter (\<lambda>it. doomed cfg now t (partition_of cfg it)) (all_items s)"
proof -
  let ?P = "partition_of cfg ` set (all_items s)"
  define s1 where "s1 = s\<lparr>jm_since := filter (\<lambda>(p, _). p \<in> ?P) (jm_since s), jm_count := filter (\<lambda>(p, _). p \<in> ?P) (jm_count s)\<rparr>"
  have t: "t = foldl (\<lambda>s p. observe_partition cfg fc now p s) s1 (present_partitions cfg s)"
    by (simp add: t_def permanently_unsatisfiable_def Let_def s1_def set_present)
  have d: "distinct (present_partitions cfg s)" by (simp add: present_partitions_def)
  note F = observe_fold[OF d, of cfg fc now s1, folded t, unfolded set_present]
  have old: "map_of (jm_since s1) q = (if q \<in> ?P then map_of (jm_since s) q else None)"
    "map_of (jm_count s1) q = (if q \<in> ?P then map_of (jm_count s) q else None)" for q
    using map_of_filter_key[of "\<lambda>p. p \<in> ?P" "jm_since s" q] map_of_filter_key[of "\<lambda>p. p \<in> ?P" "jm_count s" q]
    by (simp_all add: s1_def case_prod_beta')
  show a: "all_items t = all_items s" using F(3) all_items_cong[of t s] by (simp add: s1_def)
  show "map_of (jm_since t) q = (if q \<in> ?P \<and> \<not> partition_eligible cfg q fc then Some (dict_get (jm_since s) q now) else None)"
    using F(1)[of q] old(1)[of q] by (simp add: dict_get_def)
  show "dict_get (jm_count t) q 0 = dict_get (jm_count s) q 0 + 1" if "q \<in> ?P" "\<not> partition_eligible cfg q fc"
    using F(2)[of q] old(2)[of q] that by (simp add: dict_get_def)
  show "fst (permanently_unsatisfiable cfg fc now s) = filter (\<lambda>it. doomed cfg now t (partition_of cfg it)) (all_items s)"
    using a by (simp add: t_def permanently_unsatisfiable_def Let_def)
qed

end
