(* ===== verification/Server_Loop_Inv.thy ===== *)
theory Server_Loop_Inv
  imports Server_Loop Job_Manager_Run
begin

section \<open>The server loses nothing\<close>

text \<open>
  The invariant of the server: every pending workflow of a request is held (queued or in flight) and every held
  workflow is pending, a request is answered when it is ready and nothing is pending, and the busy
  workers are those of the flights.
\<close>

subsection \<open>What matters of a held workflow\<close>

definition view :: "workflow_item \<Rightarrow> string \<times> string \<times> int" where
  "view w = (wi_id w, wi_request_id w, int (node_count (wi_graph w)))"

definition same_held :: "workflow_item list \<Rightarrow> workflow_item list \<Rightarrow> bool" where
  "same_held xs ys \<longleftrightarrow> mset (map view xs) = mset (map view ys)"

lemma same_held_facts:
  assumes "same_held xs ys"
  shows "ids_of_request r xs = ids_of_request r ys" "nodes_of r xs = nodes_of r ys" "requests_of xs = requests_of ys"
    "distinct (map wi_id xs) \<longleftrightarrow> distinct (map wi_id ys)" "wi_id ` set xs = wi_id ` set ys"
proof -
  have eq: "mset (map view xs) = mset (map view ys)" using assms by (simp add: same_held_def)
  have s: "view ` set xs = view ` set ys" using arg_cong[OF eq, of set_mset] by simp
  have ids: "ids_of_request r zs = fst ` {v \<in> view ` set zs. fst (snd v) = r}" for zs
    by (force simp: ids_of_request_def view_def)
  show "ids_of_request r xs = ids_of_request r ys" by (simp only: ids s)
  have "nodes_of r zs = sum_mset (image_mset (\<lambda>v. snd (snd v)) (filter_mset (\<lambda>v. fst (snd v) = r) (mset (map view zs))))" for zs
    by (induction zs) (simp_all add: nodes_of_def view_def)
  then show "nodes_of r xs = nodes_of r ys" by (simp only: eq)
  have "requests_of zs = (\<lambda>v. fst (snd v)) ` view ` set zs" for zs by (force simp: view_def image_image)
  then show "requests_of xs = requests_of ys" by (simp only: s)
  have "map wi_id zs = map fst (map view zs)" for zs by (simp add: view_def)
  then have m: "mset (map wi_id zs) = image_mset fst (mset (map view zs))" for zs by (metis mset_map)
  show "distinct (map wi_id xs) \<longleftrightarrow> distinct (map wi_id ys)" by (rule mset_eq_imp_distinct_iff) (simp only: m eq)
  have "wi_id ` set zs = fst ` view ` set zs" for zs by (force simp: view_def image_image)
  then show "wi_id ` set xs = wi_id ` set ys" by (simp only: s)
qed

lemma same_held_mset: "mset xs = mset ys \<Longrightarrow> same_held xs ys"
  by (simp add: same_held_def)

lemma same_held_append: "same_held xs ys \<Longrightarrow> same_held us vs \<Longrightarrow> same_held (xs @ us) (ys @ vs)"
  by (simp add: same_held_def)

text \<open>Selected items leave the queue: the queue is the rest and the selection.\<close>

lemma same_held_select:
  assumes d: "distinct (map wi_id q)" and ws: "distinct (map wi_id ws)" "view ` set ws \<subseteq> view ` set q"
  shows "same_held q (ws @ drop_items (wi_id ` set ws) q)"
proof -
  let ?W = "wi_id ` set ws"
  have part: "mset q = mset (filter (\<lambda>it. wi_id it \<in> ?W) q) + mset (drop_items ?W q)"
    unfolding drop_items_def mset_filter by (rule multiset_partition)
  have "mset (map view (filter (\<lambda>it. wi_id it \<in> ?W) q)) = mset (map view ws)"
  proof (rule iffD1[OF set_eq_iff_mset_eq_distinct])
    have v: "distinct (map view zs)" if "distinct (map wi_id zs)" for zs
      using that by (auto simp: distinct_map inj_on_def view_def)
    show "distinct (map view (filter (\<lambda>it. wi_id it \<in> ?W) q))" by (rule v) (use d in \<open>simp add: distinct_map_filter\<close>)
    show "distinct (map view ws)" by (rule v[OF ws(1)])
    show "set (map view (filter (\<lambda>it. wi_id it \<in> ?W) q)) = set (map view ws)"
    proof (intro equalityI subsetI)
      fix x assume "x \<in> set (map view (filter (\<lambda>it. wi_id it \<in> ?W) q))"
      then obtain it w where it: "x = view it" "it \<in> set q" "w \<in> set ws" "wi_id it = wi_id w" by auto
      obtain it' where it': "it' \<in> set q" "view it' = view w" using ws(2) it(3) by fastforce
      have "wi_id it' = wi_id it" using it'(2) it(4) by (simp add: view_def)
      then have "it' = it" using d it(2) it'(1) by (metis distinct_map inj_onD)
      then show "x \<in> set (map view ws)" using it it'(2) by auto
    next
      fix x assume "x \<in> set (map view ws)"
      then obtain w where w: "w \<in> set ws" "x = view w" by auto
      then obtain it where it: "it \<in> set q" "view it = view w" using ws(2) by fastforce
      then have "wi_id it = wi_id w" by (simp add: view_def)
      then have "it \<in> set (filter (\<lambda>it. wi_id it \<in> ?W) q)" using it(1) w(1) by auto
      then show "x \<in> set (map view (filter (\<lambda>it. wi_id it \<in> ?W) q))" unfolding set_map w(2) it(2)[symmetric] by (rule imageI)
    qed
  qed
  moreover have "mset (map view q) = mset (map view (filter (\<lambda>it. wi_id it \<in> ?W) q)) + mset (map view (drop_items ?W q))"
    using arg_cong[OF part, of "image_mset view"] by (simp only: image_mset_union mset_map)
  ultimately show ?thesis unfolding same_held_def map_append mset_append by (simp only:)
qed

lemma view_missed: "view (missed W it) = view it"
  by (simp add: view_def missed_def)

subsection \<open>The table of requests\<close>

definition request_ok ::
  "bool \<Rightarrow> workflow_item list \<Rightarrow> string \<Rightarrow> request_state \<Rightarrow> response list \<Rightarrow> bool" where
  "request_ok aware V r st as \<longleftrightarrow> rq_pending st = ids_of_request r V \<and> nodes_of r V \<le> rq_pending_raw st
     \<and> rq_processing_raw st = 0 \<and> rq_processing_opt st = 0 \<and> rq_batch_counts st = []
     \<and> (as = [] \<longleftrightarrow> rq_pending st \<noteq> {} \<or> \<not> rq_ready st) \<and> (\<not> aware \<longrightarrow> length as \<le> 1)"

definition table_ok :: "bool \<Rightarrow> workflow_item list \<Rightarrow> request_table \<Rightarrow> bool" where
  "table_ok aware V t \<longleftrightarrow> (\<forall>r st. map_of (rt_requests t) r = Some st \<longrightarrow> request_ok aware V r st (answers_of r t))
     \<and> (\<forall>r \<in> requests_of V. map_of (rt_requests t) r \<noteq> None)"

lemma table_okD: "table_ok aware V t \<Longrightarrow> map_of (rt_requests t) r = Some st \<Longrightarrow> request_ok aware V r st (answers_of r t)"
  by (simp add: table_ok_def)

lemma table_ok_held: "same_held V W \<Longrightarrow> table_ok aware V t \<Longrightarrow> table_ok aware W t"
  by (simp add: table_ok_def request_ok_def same_held_facts)

lemma table_ok_both:
  assumes "table_ok aware V t" "table_rel same_both (rt_requests t) (rt_requests t')" "rt_answers t' = rt_answers t"
  shows "table_ok aware V t'"
  unfolding table_ok_def
proof (intro conjI allI impI ballI)
  fix r st' assume st': "map_of (rt_requests t') r = Some st'"
  then obtain st where st: "map_of (rt_requests t) r = Some st" using table_relD(2)[OF assms(2), of r] by fastforce
  then have "same_both st st'" using table_relD(1)[OF assms(2)] st' by fastforce
  then show "request_ok aware V r st' (answers_of r t')"
    using table_okD[OF assms(1) st] answers_of_cong[OF assms(3), of r]
    by (simp add: request_ok_def same_both_def same_counts_def same_front_def)
next
  fix r assume "r \<in> requests_of V"
  then obtain st where "map_of (rt_requests t) r = Some st" using assms(1) by (auto simp: table_ok_def)
  then show "map_of (rt_requests t') r \<noteq> None" using table_relD(1)[OF assms(2)] by fastforce
qed

text \<open>The workflows \<open>ws\<close> are settled: they are held no more, and the requests that wait for nothing else are answered.\<close>

definition settles :: "bool \<Rightarrow> workflow_item list \<Rightarrow> request_table \<Rightarrow> request_table \<Rightarrow> bool" where
  "settles aware ws t t' \<longleftrightarrow> (\<forall>r. case map_of (rt_requests t) r of
      None \<Rightarrow> map_of (rt_requests t') r = None \<and> answers_of r t' = answers_of r t
    | Some a \<Rightarrow> \<exists>b as. map_of (rt_requests t') r = Some b \<and> rq_pending b = rq_pending a - ids_of_request r ws
        \<and> rq_ready b = rq_ready a \<and> answers_of r t' = answers_of r t @ as
        \<and> (as = [] \<longleftrightarrow> \<not> (r \<in> requests_of ws \<and> rq_pending b = {} \<and> rq_ready b)) \<and> (\<not> aware \<longrightarrow> length as \<le> 1)
        \<and> rq_pending_raw a - nodes_of r ws \<le> rq_pending_raw b \<and> rq_processing_raw b = rq_processing_raw a
        \<and> rq_processing_opt b = rq_processing_opt a \<and> rq_batch_counts b = rq_batch_counts a)"

lemma ids_of_append: "ids_of_request r (xs @ ys) = ids_of_request r xs \<union> ids_of_request r ys"
  by (auto simp: ids_of_request_def)

lemma ids_of_empty_iff: "ids_of_request r ws = {} \<longleftrightarrow> r \<notin> requests_of ws"
  by (auto simp: ids_of_request_def)

lemma request_ok_settled:
  assumes ok: "request_ok aware (ws @ V) r a old" and d: "distinct (map wi_id (ws @ V))"
    and b: "rq_pending b = rq_pending a - ids_of_request r ws" "rq_ready b = rq_ready a"
    and as: "as = [] \<longleftrightarrow> \<not> (r \<in> requests_of ws \<and> rq_pending b = {} \<and> rq_ready b)" "\<not> aware \<longrightarrow> length as \<le> 1"
    and counts: "rq_pending_raw a - nodes_of r ws \<le> rq_pending_raw b" "rq_processing_raw b = rq_processing_raw a"
      "rq_processing_opt b = rq_processing_opt a" "rq_batch_counts b = rq_batch_counts a"
  shows "request_ok aware V r b (old @ as)"
proof -
  have "ids_of_request r ws \<inter> ids_of_request r V = {}" using d by (auto simp: ids_of_request_def)
  then have pend: "rq_pending b = ids_of_request r V" using ok b(1) by (auto simp: request_ok_def ids_of_append)
  have some: "rq_pending a \<noteq> {}" if "r \<in> requests_of ws"
    using ok that ids_of_empty_iff[of r ws] by (simp add: request_ok_def ids_of_append)
  have same: "rq_pending b = rq_pending a" if "r \<notin> requests_of ws" using b(1) that ids_of_empty_iff[of r ws] by simp
  have "(old @ as = [] \<longleftrightarrow> rq_pending b \<noteq> {} \<or> \<not> rq_ready b) \<and> (\<not> aware \<longrightarrow> length (old @ as) \<le> 1)"
  proof (cases "r \<in> requests_of ws")
    case True
    then have "old = []" using ok some by (simp add: request_ok_def)
    then show ?thesis using as True by simp
  next
    case False
    then have "as = []" using as(1) by blast
    then show ?thesis using ok same[OF False] b(2) by (simp add: request_ok_def)
  qed
  then show ?thesis using ok pend counts by (simp add: request_ok_def nodes_of_append)
qed

lemma table_ok_settled:
  assumes ok: "table_ok aware (ws @ V) t" and d: "distinct (map wi_id (ws @ V))" and s: "settles aware ws t t'"
  shows "table_ok aware V t'"
  unfolding table_ok_def
proof (intro conjI allI impI ballI)
  fix r b assume b: "map_of (rt_requests t') r = Some b"
  show "request_ok aware V r b (answers_of r t')"
  proof (cases "map_of (rt_requests t) r")
    case None
    then show ?thesis using s[unfolded settles_def, THEN spec, of r] b by simp
  next
    case (Some a)
    obtain as where as: "rq_pending b = rq_pending a - ids_of_request r ws"
        "rq_ready b = rq_ready a" "answers_of r t' = answers_of r t @ as"
        "as = [] \<longleftrightarrow> \<not> (r \<in> requests_of ws \<and> rq_pending b = {} \<and> rq_ready b)" "\<not> aware \<longrightarrow> length as \<le> 1"
        "rq_pending_raw a - nodes_of r ws \<le> rq_pending_raw b" "rq_processing_raw b = rq_processing_raw a"
        "rq_processing_opt b = rq_processing_opt a" "rq_batch_counts b = rq_batch_counts a"
      using s[unfolded settles_def, THEN spec, of r] b unfolding Some option.case by (metis option.inject)
    show ?thesis unfolding as(3) by (rule request_ok_settled[OF table_okD[OF ok Some] d as(1,2,4-9)])
  qed
next
  fix r assume "r \<in> requests_of V"
  then have "map_of (rt_requests t) r \<noteq> None" using ok by (auto simp: table_ok_def)
  then show "map_of (rt_requests t') r \<noteq> None" using s[unfolded settles_def, THEN spec, of r] by auto
qed

lemma batch_settles:
  assumes rec: "recorded_rel ws t t'" and acc: "accounts ws (rt_requests t) (rt_requests t')"
    and pos: "\<And>r. 0 \<le> nodes_of r ws"
  shows "settles aware ws t t'"
  unfolding settles_def
proof (rule allI)
  fix r
  show "case map_of (rt_requests t) r of
      None \<Rightarrow> map_of (rt_requests t') r = None \<and> answers_of r t' = answers_of r t
    | Some a \<Rightarrow> \<exists>b as. map_of (rt_requests t') r = Some b \<and> rq_pending b = rq_pending a - ids_of_request r ws
        \<and> rq_ready b = rq_ready a \<and> answers_of r t' = answers_of r t @ as
        \<and> (as = [] \<longleftrightarrow> \<not> (r \<in> requests_of ws \<and> rq_pending b = {} \<and> rq_ready b)) \<and> (\<not> aware \<longrightarrow> length as \<le> 1)
        \<and> rq_pending_raw a - nodes_of r ws \<le> rq_pending_raw b \<and> rq_processing_raw b = rq_processing_raw a
        \<and> rq_processing_opt b = rq_processing_opt a \<and> rq_batch_counts b = rq_batch_counts a"
  proof (cases "map_of (rt_requests t) r")
    case None
    then show ?thesis using recorded_relD(1)[OF rec None] by simp
  next
    case (Some a)
    obtain b resp where b: "map_of (rt_requests t') r = Some b" "rq_ready b = rq_ready a"
      "rq_pending b = rq_pending a - ids_of_request r ws" "answers_of r t' = answers_of r t
         @ (if r \<in> requests_of ws \<and> rq_pending b = {} \<and> rq_ready b then [resp] else [])"
      using recorded_relD(2)[OF rec Some] by blast
    have "if r \<in> requests_of ws then conserved (nodes_of r ws) a b else same_counts a b"
      using accountsD[OF acc Some] b(1) by simp
    then have "rq_pending_raw a - nodes_of r ws \<le> rq_pending_raw b \<and> rq_processing_raw b = rq_processing_raw a
        \<and> rq_processing_opt b = rq_processing_opt a \<and> rq_batch_counts b = rq_batch_counts a"
      using pos[of r] by (auto simp: conserved_def same_counts_def split: if_splits)
    then show ?thesis
      unfolding Some option.case
      by (intro exI[of _ b] exI[of _ "if r \<in> requests_of ws \<and> rq_pending b = {} \<and> rq_ready b then [resp] else []"])
        (use b in simp)
  qed
qed

lemma nodes_of_pos: "0 \<le> nodes_of r ws"
  by (induction ws) (simp_all add: nodes_of_def)

end
