(* ===== verification/Server_Loop_Steps.thy ===== *)
theory Server_Loop_Steps
  imports Server_Loop_Inv
begin

section \<open>Every step of the server keeps its invariant\<close>

text \<open>One lemma per step of \<open>server_step\<close>, over the lemmas of the components it composes.\<close>

subsection \<open>The invariant\<close>

definition reserved_ok :: "jm_state \<Rightarrow> reservation \<Rightarrow> bool" where
  "reserved_ok jm r \<longleftrightarrow> jm_active jm = Some r \<and> distinct (rp_miss_targets (rs_payload r))
     \<and> map wi_id (bs_workflows (rs_selection r)) = rp_selected (rs_payload r) \<and> distinct (rp_selected (rs_payload r))
     \<and> view ` set (bs_workflows (rs_selection r)) \<subseteq> view ` set (all_items jm)"

definition stage_ok :: "jm_state \<Rightarrow> loop_stage \<Rightarrow> bool" where
  "stage_ok jm stg \<longleftrightarrow> (case stg of Idle \<Rightarrow> jm_active jm = None | Reserved r \<Rightarrow> reserved_ok jm r | Claimed r _ \<Rightarrow> reserved_ok jm r)"

definition known_ok :: "request_table \<Rightarrow> string list \<Rightarrow> bool" where
  "known_ok t rs \<longleftrightarrow> (\<forall>r. r \<notin> set rs \<longrightarrow> map_of (rt_requests t) r = None \<and> answers_of r t = [])"

definition server_inv :: "loop_config \<Rightarrow> server \<Rightarrow> bool" where
  "server_inv cfg S \<longleftrightarrow> jm_inv (lc_jobs cfg) (wd_jm (sv_world S)) \<and> stage_ok (wd_jm (sv_world S)) (sv_stage S)
     \<and> pool_ok \<lparr>wp_busy = wd_busy (sv_world S), wp_flights = worker_sets S\<rparr>
     \<and> distinct (map wi_id (held S)) \<and> wi_id ` set (held S) \<subseteq> set (sv_seen S)
     \<and> table_ok (jc_capacity_aware (lc_jobs cfg)) (held S) (wd_table (sv_world S))
     \<and> known_ok (wd_table (sv_world S)) (sv_requests S)"

lemma server_invD:
  assumes "server_inv cfg S"
  shows "jm_inv (lc_jobs cfg) (wd_jm (sv_world S))" "stage_ok (wd_jm (sv_world S)) (sv_stage S)"
    "pool_ok \<lparr>wp_busy = wd_busy (sv_world S), wp_flights = worker_sets S\<rparr>"
    "distinct (map wi_id (held S))" "wi_id ` set (held S) \<subseteq> set (sv_seen S)"
    "table_ok (jc_capacity_aware (lc_jobs cfg)) (held S) (wd_table (sv_world S))"
    "known_ok (wd_table (sv_world S)) (sv_requests S)"
  using assms by (simp_all add: server_inv_def)

lemma server_inv_start: "server_inv cfg (server_init pol)"
proof -
  have "held (server_init pol) = []"
    by (simp add: held_def server_init_def world_init_def jm_init_def all_items_def queue_items_def priorities_def)
  then show ?thesis
    by (simp add: server_inv_def table_ok_def known_ok_def answers_of_def stage_ok_def pool_ok_def worker_sets_def)
      (simp add: server_init_def world_init_def jm_inv_init jm_init_def[THEN arg_cong, of jm_active])
qed

text \<open>A change that leaves the held workflows and the table as they are, up to what does not matter.\<close>

lemma server_inv_same:
  assumes inv: "server_inv cfg S" and jm: "jm_inv (lc_jobs cfg) (wd_jm (sv_world T))" "stage_ok (wd_jm (sv_world T)) (sv_stage T)"
    and pool: "pool_ok \<lparr>wp_busy = wd_busy (sv_world T), wp_flights = worker_sets T\<rparr>"
    and held: "same_held (held S) (held T)"
    and table: "table_rel same_both (requests (sv_world S)) (requests (sv_world T))"
      "rt_answers (wd_table (sv_world T)) = rt_answers (wd_table (sv_world S))"
    and seen: "sv_seen T = sv_seen S" "sv_requests T = sv_requests S"
  shows "server_inv cfg T"
proof -
  note I = server_invD[OF inv] and H = same_held_facts[OF held]
  have "table_ok (jc_capacity_aware (lc_jobs cfg)) (held T) (wd_table (sv_world T))"
    by (rule table_ok_both[OF table_ok_held[OF held I(6)] table])
  moreover have "known_ok (wd_table (sv_world T)) (sv_requests T)"
    using I(7) table_relD(2)[OF table(1)] answers_of_cong[OF table(2)] by (simp add: known_ok_def seen)
  ultimately show ?thesis using jm pool I(4,5) H(4,5) by (simp add: server_inv_def seen)
qed

subsection \<open>Reserving, claiming, giving back\<close>

lemma worker_sets_simps:
  "worker_sets (S\<lparr>sv_world := wd\<rparr>) = worker_sets S"
  "worker_sets (S\<lparr>sv_world := wd, sv_stage := Idle\<rparr>) = map fst (sv_flights S)"
  "worker_sets (S\<lparr>sv_world := wd, sv_stage := Reserved r\<rparr>) = map fst (sv_flights S)"
  "worker_sets (S\<lparr>sv_world := wd, sv_stage := Claimed r ws\<rparr>) = ws # map fst (sv_flights S)"
  by (simp_all add: worker_sets_def)

lemma held_simps:
  "held (S\<lparr>sv_world := wd, sv_stage := stg\<rparr>) = all_items (wd_jm wd) @ concat (map snd (sv_flights S))"
  by (simp add: held_def)

lemma all_items_policy: "all_items (s\<lparr>jm_policy := pol\<rparr>) = all_items s" "all_items (s\<lparr>jm_active := a\<rparr>) = all_items s"
  by (rule all_items_cong; simp)+

lemma abort_effect:
  assumes "jm_active s = Some r"
  shows "snd (abort_reservation r s) = s\<lparr>jm_active := None\<rparr>"
  using assms by (simp add: abort_reservation_def is_active_def)

lemma select_inv:
  assumes inv: "server_inv cfg S" and idle: "sv_stage S = Idle" and r: "reserve_stage cfg free (sv_world S) = (stg, wd)"
  shows "server_inv cfg (S\<lparr>sv_world := wd, sv_stage := stg\<rparr>)"
proof -
  note I = server_invD[OF inv]
  let ?jm = "wd_jm (sv_world S)"
  define cap where "cap = (if jc_capacity_aware (lc_jobs cfg) then Some free else None)"
  obtain res jm where res: "reserve_batch (lc_jobs cfg) (lc_batch_size cfg) cap ?jm = (res, jm)" by force
  note Q = reserve_queued[OF I(1) res]
  have idle': "jm_active ?jm = None" using I(2) idle by (simp add: stage_ok_def)
  have wd: "wd = (sv_world S)\<lparr>wd_jm := jm\<rparr>" using r res by (auto simp: reserve_stage_def cap_def split: sum.splits option.splits)
  have stage: "stage_ok jm stg"
  proof (cases "\<exists>rsv. res = Inr (Some rsv)")
    case True
    then obtain rsv where rsv: "res = Inr (Some rsv)" by blast
    then have "stg = Reserved rsv" using r res by (auto simp: reserve_stage_def cap_def)
    moreover have "jm_active jm = Some rsv" "reservation_ok (lc_jobs cfg) (lc_batch_size cfg) cap ?jm rsv" "all_items jm = all_items ?jm"
      using Q rsv by simp_all
    ultimately show ?thesis by (auto simp: stage_ok_def reserved_ok_def reservation_ok_def Let_def)
  next
    case False
    then have "stg = Idle" using r res by (auto simp: reserve_stage_def cap_def split: sum.splits option.splits)
    moreover have "slot jm = slot ?jm" using Q False by (auto split: sum.splits option.splits)
    ultimately show ?thesis using idle' by (simp add: stage_ok_def slot_def)
  qed
  have sets: "worker_sets (S\<lparr>sv_world := wd, sv_stage := stg\<rparr>) = worker_sets S"
    using r res idle by (auto simp: reserve_stage_def cap_def worker_sets_def split: sum.splits option.splits)
  show ?thesis
    by (rule server_inv_same[OF inv]) (use Q stage I(3) sets in \<open>simp_all add: held_def wd same_held_def table_rel_refl\<close>)
qed

lemma give_back_inv:
  assumes inv: "server_inv cfg S" and stg: "sv_stage S = Reserved r \<and> workers = [] \<or> sv_stage S = Claimed r workers"
    and jm: "jm_inv (lc_jobs cfg) jm" "all_items jm = all_items (wd_jm (sv_world S))" "jm_active jm = Some r"
  shows "server_inv cfg (S\<lparr>sv_world := give_back r workers ((sv_world S)\<lparr>wd_jm := jm\<rparr>), sv_stage := Idle\<rparr>)"
proof -
  note I = server_invD[OF inv]
  let ?T = "S\<lparr>sv_world := give_back r workers ((sv_world S)\<lparr>wd_jm := jm\<rparr>), sv_stage := Idle\<rparr>"
  have jmT: "wd_jm (sv_world ?T) = jm\<lparr>jm_active := None\<rparr>" by (simp add: give_back_def abort_effect[OF jm(3)])
  have busy: "wd_busy (sv_world ?T) = wd_busy (sv_world S) - set workers" by (simp add: give_back_def release_workers_def)
  have "pool_ok \<lparr>wp_busy = wd_busy (sv_world ?T), wp_flights = worker_sets ?T\<rparr>"
  proof (cases "sv_stage S = Claimed r workers")
    case True
    define U where "U = \<Union> (set (map set (map fst (sv_flights S))))"
    have U: "set workers \<inter> U = {}" "disjoint_flights (map fst (sv_flights S))" "wd_busy (sv_world S) = set workers \<union> U"
      using I(3) True by (simp_all add: pool_ok_def worker_sets_def U_def)
    have diff: "wd_busy (sv_world S) - set workers = U" unfolding U(3) using U(1) by blast
    have "worker_sets ?T = map fst (sv_flights S)" by (simp add: worker_sets_def)
    then show ?thesis unfolding busy diff using U(2) by (simp only: pool_ok_def worker_pool.simps U_def)
  next
    case False
    then have "worker_sets ?T = worker_sets S" "workers = []" using stg by (auto simp: worker_sets_def)
    then show ?thesis unfolding busy using I(3) by simp
  qed
  moreover have "stage_ok (wd_jm (sv_world ?T)) (sv_stage ?T)" unfolding jmT by (simp add: stage_ok_def)
  moreover have "jm_inv (lc_jobs cfg) (wd_jm (sv_world ?T))" unfolding jmT using jm(1) by simp
  moreover have "held ?T = held S" using jm(2) by (simp add: held_def jmT[simplified] all_items_policy give_back_def abort_effect[OF jm(3)])
  ultimately show ?thesis
    by (intro server_inv_same[OF inv]) (simp_all add: same_held_def table_rel_refl, simp_all add: give_back_def table_rel_refl)
qed

lemma stage_reserved:
  assumes "server_inv cfg S" "sv_stage S = Reserved r \<or> sv_stage S = Claimed r ws"
  shows "reserved_ok (wd_jm (sv_world S)) r"
  using server_invD(2)[OF assms(1)] assms(2) by (auto simp: stage_ok_def)

lemma server_dropped_inv:
  assumes inv: "server_inv cfg S" and stg: "sv_stage S = Reserved r"
  shows "server_inv cfg (S\<lparr>sv_world := give_back r [] (sv_world S), sv_stage := Idle\<rparr>)"
proof -
  have "jm_active (wd_jm (sv_world S)) = Some r" using stage_reserved[OF inv] stg by (simp add: reserved_ok_def)
  from give_back_inv[OF inv _ server_invD(1)[OF inv] refl this, of "[]"] show ?thesis using stg by simp
qed

lemma claim_inv:
  assumes inv: "server_inv cfg S" and stg: "sv_stage S = Reserved r"
    and c: "claim_stage cfg free whole r (sv_world S) = (stg', wd)"
  shows "server_inv cfg (S\<lparr>sv_world := wd, sv_stage := stg'\<rparr>)"
proof -
  note I = server_invD[OF inv]
  obtain res busy where t: "try_claim_workers (lc_server cfg) (rs_selection r) free whole (wd_busy (sv_world S)) = (res, busy)" by force
  show ?thesis
  proof (cases res)
    case None
    then have "stg' = Idle" "wd = give_back r [] (sv_world S)" using c t by (simp_all add: claim_stage_def)
    then show ?thesis using server_dropped_inv[OF inv stg] by simp
  next
    case (Some ws)
    then have eq: "stg' = Claimed r ws" "wd = (sv_world S)\<lparr>wd_busy := busy\<rparr>" using c t by (simp_all add: claim_stage_def)
    have w: "ws \<noteq> []" "set ws \<inter> wd_busy (sv_world S) = {}" "busy = wd_busy (sv_world S) \<union> set ws"
      using try_claim_workers_cases[OF t] Some by simp_all
    have "pool_ok \<lparr>wp_busy = busy, wp_flights = ws # map fst (sv_flights S)\<rparr>"
      using I(3) stg w by (auto simp: pool_ok_def worker_sets_def)
    then show ?thesis
      by (intro server_inv_same[OF inv]) (use I(1) stage_reserved[OF inv, of r ws] stg in
          \<open>simp_all add: eq worker_sets_def held_def same_held_def table_rel_refl stage_ok_def\<close>)
  qed
qed

end
