(* ===== verification/Server_System.thy ===== *)
theory Server_System
  imports Server_Loop_Steps
begin

section \<open>The whole server\<close>

text \<open>
  The remaining steps (dispatch, finished runs, doomed workflows, new requests), and the property that
  the server never loses a request.
\<close>

subsection \<open>Dispatching\<close>

lemma record_job_manager_time_both: "table_rel same_both rs (record_job_manager_time ms sel clu rs)"
  unfolding record_job_manager_time_def Let_def
  by (auto intro!: foldl_both with_request_both table_rel_refl
      simp: same_both_def same_counts_def same_front_def add_selection_time_def)

lemma commit_failed:
  assumes "commit_reservation cfg r s = (Some e, t)" "jm_inv cfg s"
  shows "jm_inv cfg t" "all_items t = all_items s" "jm_active t = jm_active s"
  using assms all_items_policy by (auto simp: commit_reservation_def Let_def split: if_splits prod.splits option.splits)

lemma dispatch_inv:
  assumes inv: "server_inv cfg S" and stg: "sv_stage S = Claimed r workers"
    and c: "commit_stage cfg sel clu r workers (sv_world S) = (flight, wd)"
  shows "server_inv cfg (S\<lparr>sv_world := wd, sv_stage := Idle,
    sv_flights := (case flight of None \<Rightarrow> [] | Some f \<Rightarrow> [f]) @ sv_flights S\<rparr>)"
proof -
  note I = server_invD[OF inv]
  have rok: "reserved_ok (wd_jm (sv_world S)) r" using stage_reserved[OF inv, of r workers] stg by simp
  obtain e jm where com: "commit_reservation (lc_jobs cfg) r (wd_jm (sv_world S)) = (e, jm)" by force
  show ?thesis
  proof (cases e)
    case (Some x)
    then have eq: "flight = None" "wd = give_back r workers ((sv_world S)\<lparr>wd_jm := jm\<rparr>)"
      using c com by (simp_all add: commit_stage_def)
    note f = commit_failed[OF com[unfolded Some] I(1)]
    show ?thesis using give_back_inv[OF inv _ f(1,2)] f(3) rok stg by (simp add: eq reserved_ok_def)
  next
    case None
    let ?ws = "bs_workflows (rs_selection r)" and ?q = "all_items (wd_jm (sv_world S))"
    let ?T = "S\<lparr>sv_world := wd, sv_stage := Idle, sv_flights := (workers, ?ws) # sv_flights S\<rparr>"
    have eq: "flight = Some (workers, ?ws)" "wd_jm wd = jm" "wd_busy wd = wd_busy (sv_world S)"
      "rt_answers (wd_table wd) = rt_answers (wd_table (sv_world S))" "table_rel same_both (requests (sv_world S)) (requests wd)"
      using c com None by (auto simp: commit_stage_def Let_def record_job_manager_time_both)
    have sel: "set (rp_selected (rs_payload r)) = wi_id ` set ?ws" "distinct (map wi_id ?ws)" "view ` set ?ws \<subseteq> view ` set ?q"
      "distinct (rp_miss_targets (rs_payload r))"
      using rok by (auto simp: reserved_ok_def simp flip: set_map)
    note C = commit_effect[OF I(1) sel(4) com[unfolded None]]
    have "distinct (map wi_id ?q)" using I(4) by (simp add: held_def)
    note H = same_held_select[OF this sel(2,3)]
    obtain M where jm: "all_items jm = map (missed M) (drop_items (wi_id ` set ?ws) ?q)" using C(3) sel(1) by metis
    have "same_held (?ws @ drop_items (wi_id ` set ?ws) ?q) (all_items jm @ ?ws)"
      by (simp add: jm same_held_def view_missed comp_def)
    then have "same_held ?q (all_items jm @ ?ws)" using H by (simp add: same_held_def)
    then have "same_held (held S) (held ?T)"
      using same_held_append[of ?q "all_items jm @ ?ws" "concat (map snd (sv_flights S))"] by (simp add: held_def eq same_held_def)
    moreover have "worker_sets ?T = worker_sets S" using stg by (simp add: worker_sets_def)
    ultimately have "server_inv cfg ?T"
      by (intro server_inv_same[OF inv]) (use I(3) C eq in \<open>simp_all add: stage_ok_def\<close>)
    then show ?thesis by (simp add: eq(1))
  qed
qed

subsection \<open>Finished runs\<close>

lemma flight_alone: "disjoint_flights (ws # fl) \<Longrightarrow> ws \<notin> set fl"
proof
  assume d: "disjoint_flights (ws # fl)" and "ws \<in> set fl"
  then have "set ws \<subseteq> \<Union> (set (map set fl))" by auto
  moreover have "set ws \<inter> \<Union> (set (map set fl)) = {}" "ws \<noteq> []" using d by simp_all
  ultimately show False by (simp only: Int_absorb2 set_empty)
qed

lemma concat_remove1: "x \<in> set xs \<Longrightarrow> mset (concat (map snd xs)) = mset (snd x) + mset (concat (map snd (remove1 x xs)))"
proof (induction xs)
  case (Cons y ys)
  then show ?case by (cases "x = y") (simp_all add: add.left_commute)
qed simp

lemma remove_flight:
  "disjoint_flights (map fst fl) \<Longrightarrow> f \<in> set fl \<Longrightarrow> map fst (remove1 f fl) = remove1 (fst f) (map fst fl)"
proof (induction fl)
  case (Cons g fl)
  have "fst g \<noteq> fst f" if "g \<noteq> f"
  proof
    assume "fst g = fst f"
    moreover have "fst f \<in> fst ` set fl" using Cons.prems(2) that by simp
    ultimately show False using flight_alone[of "fst g" "map fst fl"] Cons.prems(1) by simp
  qed
  then show ?case using Cons by (cases "g = f") simp_all
qed simp

lemma remove_worker_set:
  assumes "disjoint_flights (worker_sets S)" "(workers, ws) \<in> set (sv_flights S)"
  shows "worker_sets (S\<lparr>sv_world := wd, sv_flights := remove1 (workers, ws) (sv_flights S)\<rparr>) = remove1 workers (worker_sets S)"
    "workers \<in> set (worker_sets S)"
proof -
  have mem: "workers \<in> set (map fst (sv_flights S))" using assms(2) by force
  then show "workers \<in> set (worker_sets S)" by (simp add: worker_sets_def)
  show "worker_sets (S\<lparr>sv_world := wd, sv_flights := remove1 (workers, ws) (sv_flights S)\<rparr>) = remove1 workers (worker_sets S)"
  proof (cases "\<exists>r cl. sv_stage S = Claimed r cl")
    case True
    then obtain r cl where cl: "sv_stage S = Claimed r cl" by blast
    have "cl \<noteq> workers" using flight_alone[of cl "map fst (sv_flights S)"] assms(1) cl mem by (auto simp: worker_sets_def)
    moreover have "disjoint_flights (map fst (sv_flights S))" using assms(1) cl by (simp add: worker_sets_def)
    ultimately show ?thesis using remove_flight[OF _ assms(2)] cl by (simp add: worker_sets_def)
  next
    case False
    then have "worker_sets (S\<lparr>sv_flights := fl\<rparr>) = map fst fl" for fl
      by (cases "sv_stage S") (auto simp: worker_sets_def)
    from this[of "sv_flights S"] this[of "remove1 (workers, ws) (sv_flights S)"] show ?thesis
      using assms(1) remove_flight[OF _ assms(2)] by (simp add: worker_sets_def)
  qed
qed

lemma known_ok_settles: "known_ok t rs \<Longrightarrow> settles aware ws t t' \<Longrightarrow> known_ok t' rs"
  unfolding known_ok_def settles_def
proof (intro allI impI)
  fix r
  assume k: "\<forall>r. r \<notin> set rs \<longrightarrow> map_of (rt_requests t) r = None \<and> answers_of r t = []" and "r \<notin> set rs"
    and s: "\<forall>r. case map_of (rt_requests t) r of
      None \<Rightarrow> map_of (rt_requests t') r = None \<and> answers_of r t' = answers_of r t
    | Some a \<Rightarrow> \<exists>b as. map_of (rt_requests t') r = Some b \<and> rq_pending b = rq_pending a - ids_of_request r ws
        \<and> rq_ready b = rq_ready a \<and> answers_of r t' = answers_of r t @ as
        \<and> (as = [] \<longleftrightarrow> \<not> (r \<in> requests_of ws \<and> rq_pending b = {} \<and> rq_ready b)) \<and> (\<not> aware \<longrightarrow> length as \<le> 1)
        \<and> rq_pending_raw a - nodes_of r ws \<le> rq_pending_raw b \<and> rq_processing_raw b = rq_processing_raw a
        \<and> rq_processing_opt b = rq_processing_opt a \<and> rq_batch_counts b = rq_batch_counts a"
  then have "map_of (rt_requests t) r = None" "answers_of r t = []" by simp_all
  then show "map_of (rt_requests t') r = None \<and> answers_of r t' = []" using s[THEN spec, of r] by simp
qed

text \<open>Workflows that leave the server settled: what is left of the invariant.\<close>

lemma server_inv_settled:
  assumes inv: "server_inv cfg S" and held: "same_held (held S) (ws @ held T)"
    and jm: "jm_inv (lc_jobs cfg) (wd_jm (sv_world T))" "stage_ok (wd_jm (sv_world T)) (sv_stage T)"
    and pool: "pool_ok \<lparr>wp_busy = wd_busy (sv_world T), wp_flights = worker_sets T\<rparr>"
    and s: "settles (jc_capacity_aware (lc_jobs cfg)) ws (wd_table (sv_world S)) (wd_table (sv_world T))"
    and seen: "sv_seen T = sv_seen S" "sv_requests T = sv_requests S"
  shows "server_inv cfg T"
proof -
  note I = server_invD[OF inv] and H = same_held_facts[OF held]
  have d: "distinct (map wi_id (ws @ held T))" using I(4) H(4) by simp
  have "table_ok (jc_capacity_aware (lc_jobs cfg)) (held T) (wd_table (sv_world T))"
    by (rule table_ok_settled[OF table_ok_held[OF held I(6)] d s])
  moreover have "wi_id ` set (held T) \<subseteq> set (sv_seen S)" using I(5) H(5) by auto
  ultimately show ?thesis using jm pool d known_ok_settles[OF I(7) s] by (simp add: server_inv_def seen)
qed

lemma flight_can_run:
  assumes inv: "server_inv cfg S" and f: "(workers, ws) \<in> set (sv_flights S)"
  shows "can_run bid ws (requests (sv_world S))"
proof (rule can_runI)
  fix r st assume r: "r \<in> wi_request_id ` set ws" and st: "map_of (requests (sv_world S)) r = Some st"
  let ?rest = "concat (map snd (remove1 (workers, ws) (sv_flights S)))"
  have "same_held (held S) (ws @ all_items (wd_jm (sv_world S)) @ ?rest)"
    by (intro same_held_mset) (simp add: held_def concat_remove1[OF f])
  then have "nodes_of r ws \<le> nodes_of r (held S)"
    using nodes_of_pos[of r "all_items (wd_jm (sv_world S)) @ ?rest"] by (simp add: same_held_facts(2) nodes_of_append)
  then show "nodes_of r ws \<le> rq_pending_raw st \<and> 0 \<le> rq_processing_raw st \<and> 0 \<le> rq_processing_opt st
     \<and> bid \<notin> fst ` set (rq_batch_counts st)"
    using table_okD[OF server_invD(6)[OF inv] st] by (simp add: request_ok_def)
qed

lemma finish_inv:
  assumes inv: "server_inv cfg S" and f: "(workers, ws) \<in> set (sv_flights S)"
    and run: "run_batch runs workers ws (sv_world S) = (e, wd)"
  shows "server_inv cfg (S\<lparr>sv_world := wd, sv_flights := remove1 (workers, ws) (sv_flights S)\<rparr>)"
proof -
  note I = server_invD[OF inv]
  let ?T = "S\<lparr>sv_world := wd, sv_flights := remove1 (workers, ws) (sv_flights S)\<rparr>"
  let ?rest = "concat (map snd (remove1 (workers, ws) (sv_flights S)))"
  have "mset (concat (map snd (sv_flights S))) = mset ws + mset ?rest"
    using concat_remove1[OF f] by simp
  then have h: "same_held (held S) (ws @ all_items (wd_jm (sv_world S)) @ ?rest)"
    by (intro same_held_mset) (simp add: held_def)
  have "can_run bid ws (requests (sv_world S))" for bid by (rule flight_can_run[OF inv f])
  then obtain wd' where wd': "run_batch runs workers ws (sv_world S) = (None, wd')" "recorded_rel ws (wd_table (sv_world S)) (wd_table wd')"
    "accounts ws (requests (sv_world S)) (requests wd')" "wd_busy wd' = wd_busy (sv_world S) - set workers"
    "wd_jm wd' = finalize_workflows (map wi_id ws) (wd_jm (sv_world S))"
    using run_batch_rel[where runs = runs and ws = ws and wd = "sv_world S" and workers = workers] by blast
  have eq: "wd' = wd" using wd'(1) run by simp
  have q: "all_items (wd_jm wd) = all_items (wd_jm (sv_world S))"
    by (rule all_items_cong) (simp add: wd'(5)[unfolded eq] finalize_workflows_def)
  have act: "jm_active (wd_jm wd) = jm_active (wd_jm (sv_world S))" by (simp add: wd'(5)[unfolded eq] finalize_workflows_def)
  have dis: "disjoint_flights (worker_sets S)" using I(3) by (simp add: pool_ok_def)
  note W = remove_worker_set(1)[OF dis f, of wd] remove_worker_set(2)[OF dis f]
  have "pool_ok \<lparr>wp_busy = wd_busy wd, wp_flights = worker_sets ?T\<rparr>"
    unfolding W(1) using disjoint_flights_remove1[OF dis W(2)] I(3) wd'(4)[unfolded eq] by (simp add: pool_ok_def)
  moreover have "stage_ok (wd_jm wd) (sv_stage S)"
    using I(2) by (simp add: stage_ok_def reserved_ok_def q act split: loop_stage.splits)
  moreover have "jm_inv (lc_jobs cfg) (wd_jm wd)" using wd'(5)[unfolded eq] finalize_inv[OF I(1)] by simp
  moreover have "settles (jc_capacity_aware (lc_jobs cfg)) ws (wd_table (sv_world S)) (wd_table wd)"
    by (rule batch_settles[OF wd'(2,3)[unfolded eq] nodes_of_pos])
  ultimately show ?thesis by (intro server_inv_settled[OF inv, of ws]) (use h in \<open>simp_all add: held_def q\<close>)
qed

subsection \<open>Doomed workflows\<close>

lemma fail_placements_lookup:
  "map_of rs r = None \<Longrightarrow> map_of (foldl (fail_placement cfg) rs ws) r = None"
  "map_of rs r = Some a \<Longrightarrow> \<exists>b. map_of (foldl (fail_placement cfg) rs ws) r = Some b
     \<and> rq_pending b = rq_pending a - ids_of_request r ws \<and> rq_ready b = rq_ready a \<and> same_counts a b"
proof (induction ws arbitrary: rs a)
  case Nil
  { case 1 then show ?case by simp
  next case 2 then show ?case by (simp add: ids_of_request_def) }
next
  case (Cons w ws)
  { case 1
    then have "map_of (fail_placement cfg rs w) r = None" by (auto simp: fail_placement_def with_request_lookup)
    from Cons.IH(1)[OF this] show ?case by simp
  next
    case 2
    define a1 where "a1 = (if r = wi_request_id w then discard_pending w (append_errors [placement_error cfg w] a) else a)"
    have "map_of (fail_placement cfg rs w) r = Some a1" using 2 by (auto simp: fail_placement_def with_request_lookup a1_def)
    from Cons.IH(2)[OF this] obtain b where b: "map_of (foldl (fail_placement cfg) (fail_placement cfg rs w) ws) r = Some b"
      "rq_pending b = rq_pending a1 - ids_of_request r ws" "rq_ready b = rq_ready a1" "same_counts a1 b" by blast
    have "ids_of_request r (w # ws) = (if r = wi_request_id w then {wi_id w} else {}) \<union> ids_of_request r ws"
      by (auto simp: ids_of_request_def)
    moreover have "rq_pending a1 = rq_pending a - (if r = wi_request_id w then {wi_id w} else {})" "rq_ready a1 = rq_ready a" "same_counts a a1"
      by (simp_all add: a1_def discard_pending_def append_errors_def same_counts_def)
    ultimately show ?case using b same_trans(1)[of a a1 b] by (auto intro!: exI[of _ b])
  }
qed

lemma answer_unplaceables:
  "rt_requests (foldl answer_unplaceable t ws) = rt_requests t"
  "answers_of r (foldl answer_unplaceable t ws) = answers_of r t @
     (case map_of (rt_requests t) r of None \<Rightarrow> []
      | Some st \<Rightarrow> if answerable st then replicate (length (of_request r ws)) (response_of st) else [])"
proof (induction ws arbitrary: t)
  case Nil
  { case 1 then show ?case by simp
  next case 2 then show ?case by (simp add: of_request_def split: option.split) }
next
  case (Cons w ws)
  have rs: "rt_requests (answer_unplaceable t w) = rt_requests t" for t
    by (simp add: answer_unplaceable_def put_result_def split: option.split)
  { case 1 then show ?case using Cons.IH(1)[of "answer_unplaceable t w"] rs by simp
  next
    case 2
    have "answers_of r (answer_unplaceable t w) = answers_of r t @ (case map_of (rt_requests t) r of None \<Rightarrow> []
        | Some st \<Rightarrow> if answerable st \<and> wi_request_id w = r then [response_of st] else [])"
      by (auto simp: answer_unplaceable_def answers_put_result split: option.splits)
    then show ?case
      using Cons.IH(2)[of "answer_unplaceable t w"] by (auto simp: rs of_request_def split: option.split) }
qed

lemma unplaceable_settles: "settles True ws t (fail_unplaceable cfg ws t)"
  unfolding settles_def
proof (rule allI)
  fix r
  let ?rs = "foldl (fail_placement cfg) (rt_requests t) ws"
  have req: "rt_requests (fail_unplaceable cfg ws t) = ?rs" by (simp add: fail_unplaceable_def answer_unplaceables(1))
  have old: "answers_of r (t\<lparr>rt_requests := x\<rparr>) = answers_of r t" for x by (simp add: answers_of_def)
  have ans: "answers_of r (fail_unplaceable cfg ws t) = answers_of r t @ (case map_of ?rs r of None \<Rightarrow> []
      | Some st \<Rightarrow> if answerable st then replicate (length (of_request r ws)) (response_of st) else [])"
    by (simp add: fail_unplaceable_def answer_unplaceables(2) old)
  show "case map_of (rt_requests t) r of
      None \<Rightarrow> map_of (rt_requests (fail_unplaceable cfg ws t)) r = None
        \<and> answers_of r (fail_unplaceable cfg ws t) = answers_of r t
    | Some a \<Rightarrow> \<exists>b as. map_of (rt_requests (fail_unplaceable cfg ws t)) r = Some b
        \<and> rq_pending b = rq_pending a - ids_of_request r ws
        \<and> rq_ready b = rq_ready a \<and> answers_of r (fail_unplaceable cfg ws t) = answers_of r t @ as
        \<and> (as = [] \<longleftrightarrow> \<not> (r \<in> requests_of ws \<and> rq_pending b = {} \<and> rq_ready b)) \<and> (\<not> True \<longrightarrow> length as \<le> 1)
        \<and> rq_pending_raw a - nodes_of r ws \<le> rq_pending_raw b \<and> rq_processing_raw b = rq_processing_raw a
        \<and> rq_processing_opt b = rq_processing_opt a \<and> rq_batch_counts b = rq_batch_counts a"
  proof (cases "map_of (rt_requests t) r")
    case None
    then show ?thesis using fail_placements_lookup(1)[OF None] by (simp add: req ans)
  next
    case (Some a)
    obtain b where b: "map_of ?rs r = Some b" "rq_pending b = rq_pending a - ids_of_request r ws" "rq_ready b = rq_ready a"
      "same_counts a b" using fail_placements_lookup(2)[OF Some] by blast
    define as where "as = (if answerable b then replicate (length (of_request r ws)) (response_of b) else [])"
    have "of_request r ws = [] \<longleftrightarrow> r \<notin> requests_of ws" by (auto simp: of_request_def filter_empty_conv)
    then have as: "as = [] \<longleftrightarrow> \<not> (r \<in> requests_of ws \<and> rq_pending b = {} \<and> rq_ready b)" by (simp add: as_def answerable_def)
    have "answers_of r (fail_unplaceable cfg ws t) = answers_of r t @ as" unfolding ans b(1) option.case as_def ..
    then show ?thesis unfolding Some option.case req
      by (intro exI[of _ b] exI[of _ as]) (use b as nodes_of_pos[of r ws] in \<open>simp add: same_counts_def\<close>)
  qed
qed

lemma doomed_inv:
  assumes inv: "server_inv cfg S" and idle: "sv_stage S = Idle" and aware: "jc_capacity_aware (lc_jobs cfg)"
    and d: "fail_doomed cfg whole now (sv_world S) = (b, wd)"
  shows "server_inv cfg (S\<lparr>sv_world := wd\<rparr>)"
proof -
  note I = server_invD[OF inv]
  let ?q = "all_items (wd_jm (sv_world S))"
  obtain its jm where pu: "permanently_unsatisfiable (lc_jobs cfg) whole now (wd_jm (sv_world S)) = (its, jm)" by force
  note P = permanently_unsatisfiable_inv[OF I(1) pu]
  have q: "all_items jm = ?q" by (rule all_items_cong) (use P in simp)
  have "slot jm = slot (wd_jm (sv_world S))" using slot_operations(3)[of "lc_jobs cfg" whole now "wd_jm (sv_world S)"] by (simp add: pu)
  then have act: "jm_active jm = None" using I(2) idle by (simp add: stage_ok_def slot_def)
  show ?thesis
  proof (cases "its = []")
    case True
    then have "wd = (sv_world S)\<lparr>wd_jm := jm\<rparr>" using d pu by (simp add: fail_doomed_def)
    then show ?thesis
      by (intro server_inv_same[OF inv]) (use P q act I(3) idle in
          \<open>simp_all add: stage_ok_def worker_sets_simps held_def same_held_def table_rel_refl\<close>)
  next
    case False
    let ?jm' = "remove_workflows (lc_jobs cfg) (map wi_id its) jm"
    have wd: "wd = (sv_world S)\<lparr>wd_table := fail_unplaceable (lc_server cfg) its (wd_table (sv_world S)), wd_jm := ?jm'\<rparr>"
      using d pu False by (simp add: fail_doomed_def)
    obtain PP where f: "its = filter PP (all_items jm)" using pu by (auto simp: permanently_unsatisfiable_def Let_def)
    have dq: "distinct (map wi_id ?q)" using I(4) by (simp add: held_def)
    then have dits: "distinct (map wi_id its)" unfolding f q by (rule distinct_map_filter)
    have "view ` set its \<subseteq> view ` set ?q" using P by auto
    note H = same_held_select[OF dq dits this]
    have R: "jm_inv (lc_jobs cfg) ?jm'" "all_items ?jm' = drop_items (wi_id ` set its) ?q"
      using remove_workflows_inv[of "lc_jobs cfg" jm "map wi_id its"] P q by simp_all
    have "slot ?jm' = slot jm" by (rule slot_operations(2))
    then have act': "jm_active ?jm' = None" using act by (simp add: slot_def)
    have "same_held (held S) (its @ held (S\<lparr>sv_world := wd\<rparr>))"
      using same_held_append[OF H, of "concat (map snd (sv_flights S))"] by (simp add: held_def wd R(2) same_held_def)
    then show ?thesis
      by (intro server_inv_settled[OF inv, of its]) (use R(1) act' I(3) idle aware unplaceable_settles in
          \<open>simp_all add: stage_ok_def worker_sets_simps wd\<close>)
  qed
qed

subsection \<open>New requests\<close>

lemma items_of_job_fields:
  "items_of_job j now gs ids = Inr its \<Longrightarrow> map wi_graph its = map snd gs \<and> (\<forall>w \<in> set its. wi_request_id w = jb_request_id j)"
proof (induction j now gs ids arbitrary: its rule: items_of_job.induct)
  case (2 j now name g gs ids)
  then show ?case by (auto split: option.splits sum.splits)
qed simp

lemma nodes_of_all: "requests_of ws \<subseteq> {r} \<Longrightarrow> nodes_of r ws = sum_list (map (\<lambda>w. int (node_count (wi_graph w))) ws)"
  by (induction ws) (auto simp: nodes_of_def)

lemma table_ok_new:
  assumes ok: "table_ok aware V t" and new: "map_of (rt_requests t) r0 = None" "answers_of r0 t = []"
    and t': "\<And>r. map_of (rt_requests t') r = (if r = r0 then Some st0 else map_of (rt_requests t) r)" "rt_answers t' = rt_answers t"
    and its: "requests_of its \<subseteq> {r0}" "request_ok aware its r0 st0 []"
  shows "table_ok aware (its @ V) t'"
proof -
  have "r0 \<notin> requests_of V" using ok new(1) by (auto simp: table_ok_def)
  then have V0: "ids_of_request r0 V = {}" "nodes_of r0 V = 0" using ids_of_empty_iff nodes_of_none by simp_all
  have other: "ids_of_request r its = {}" "nodes_of r its = 0" if "r \<noteq> r0" for r
    using that its(1) ids_of_empty_iff[of r its] nodes_of_none[of r its] by auto
  show ?thesis
    unfolding table_ok_def
  proof (intro conjI allI impI ballI)
    fix r st assume st: "map_of (rt_requests t') r = Some st"
    show "request_ok aware (its @ V) r st (answers_of r t')"
    proof (cases "r = r0")
      case True
      then have "st = st0" "answers_of r t' = []" using st t'(1)[of r] new(2) answers_of_cong[OF t'(2)] by simp_all
      then show ?thesis using its(2) V0 True by (simp add: request_ok_def ids_of_append nodes_of_append)
    next
      case False
      then have "map_of (rt_requests t) r = Some st" using st t'(1)[of r] by simp
      then show ?thesis using table_okD[OF ok] other[OF False] answers_of_cong[OF t'(2)]
        by (simp add: request_ok_def ids_of_append nodes_of_append)
    qed
  next
    fix r assume "r \<in> requests_of (its @ V)"
    then show "map_of (rt_requests t') r \<noteq> None" using t'(1)[of r] its(1) ok by (auto simp: table_ok_def)
  qed
qed

lemma new_request_ok: "request_ok aware [] (hr_id hr) (new_request_state hr) []"
proof -
  have "0 \<le> sum_list (map (\<lambda>(_, g). int (node_count g)) q)" for q :: "(string, runtime_graph) dict"
    by (induction q) auto
  then show ?thesis by (simp add: request_ok_def ids_of_request_def nodes_of_def) (simp add: new_request_state_def)
qed

lemma queued_request_ok:
  assumes "requests_of its \<subseteq> {hr_id hr}" "map wi_graph its = map snd (hr_query hr)" "its \<noteq> []"
  shows "request_ok aware its (hr_id hr) (mark_queued (map wi_id its) (new_request_state hr)) []"
proof -
  have "ids_of_request (hr_id hr) its = wi_id ` set its" using assms(1) by (auto simp: ids_of_request_def)
  moreover have "nodes_of (hr_id hr) its = sum_list (map (\<lambda>g. int (node_count g)) (map wi_graph its))"
    by (simp add: nodes_of_all[OF assms(1)] comp_def)
  then have "nodes_of (hr_id hr) its = rq_pending_raw (new_request_state hr)"
    unfolding assms(2) by (simp add: new_request_state_def comp_def case_prod_beta')
  ultimately show ?thesis using assms(3) by (simp add: request_ok_def mark_queued_def) (simp add: new_request_state_def)
qed

text \<open>The state that takes new ids and a new request, with the workflows queued for it.\<close>

lemma server_inv_new:
  assumes inv: "server_inv cfg S" and new: "r0 \<notin> set (sv_requests S)" "set ids \<inter> set (sv_seen S) = {}"
    and jm: "jm_inv (lc_jobs cfg) (wd_jm wd)" "mset (all_items (wd_jm wd)) = mset (all_items (wd_jm (sv_world S))) + mset its"
      "slot (wd_jm wd) = slot (wd_jm (sv_world S))"
    and its: "requests_of its \<subseteq> {r0}" "request_ok (jc_capacity_aware (lc_jobs cfg)) its r0 fresh []"
      "distinct (map wi_id its)" "wi_id ` set its \<subseteq> set ids"
    and t: "\<And>r. map_of (requests wd) r = (if r = r0 then Some fresh else map_of (requests (sv_world S)) r)"
      "rt_answers (wd_table wd) = rt_answers (wd_table (sv_world S))" "wd_busy wd = wd_busy (sv_world S)"
  shows "server_inv cfg (S\<lparr>sv_world := wd, sv_seen := ids @ sv_seen S, sv_requests := r0 # sv_requests S\<rparr>)"
proof -
  note I = server_invD[OF inv]
  let ?T = "S\<lparr>sv_world := wd, sv_seen := ids @ sv_seen S, sv_requests := r0 # sv_requests S\<rparr>"
  have h: "same_held (its @ held S) (held ?T)" using jm(2) by (intro same_held_mset) (simp add: held_def)
  note H = same_held_facts[OF h]
  have r0: "map_of (requests (sv_world S)) r0 = None" "answers_of r0 (wd_table (sv_world S)) = []"
    using I(7) new(1) by (simp_all add: known_ok_def)
  have "table_ok (jc_capacity_aware (lc_jobs cfg)) (its @ held S) (wd_table wd)"
    by (rule table_ok_new[OF I(6) r0 t(1,2) its(1,2)])
  then have tab: "table_ok (jc_capacity_aware (lc_jobs cfg)) (held ?T) (wd_table wd)" by (rule table_ok_held[OF h])
  have "wi_id ` set its \<inter> wi_id ` set (held S) = {}" using its(4) I(5) new(2) by blast
  then have d: "distinct (map wi_id (held ?T))" using H(4) I(4) its(3) by simp
  have "known_ok (wd_table wd) (r0 # sv_requests S)"
    using I(7) t(1) answers_of_cong[OF t(2)] by (simp add: known_ok_def)
  moreover have "wi_id ` set (held ?T) \<subseteq> set (ids @ sv_seen S)"
    unfolding H(5)[symmetric] set_append image_Un using its(4) I(5) by blast
  moreover have "stage_ok (wd_jm wd) (sv_stage S)"
  proof -
    have "set (all_items (wd_jm wd)) = set (all_items (wd_jm (sv_world S))) \<union> set its"
      using arg_cong[OF jm(2), of set_mset] by simp
    moreover have "jm_active (wd_jm wd) = jm_active (wd_jm (sv_world S))" using jm(3) by (simp add: slot_def)
    ultimately show ?thesis using I(2) by (auto simp: stage_ok_def reserved_ok_def split: loop_stage.splits)
  qed
  moreover have "worker_sets ?T = worker_sets S" by (simp add: worker_sets_def)
  ultimately show ?thesis using jm(1) tab d I(3) by (simp add: server_inv_def t(3))
qed

lemma submit_inv:
  assumes inv: "server_inv cfg S" and new: "hr_id hr \<notin> set (sv_requests S)" and ids: "length (hr_query hr) \<le> length ids"
      "distinct ids" "set ids \<inter> set (sv_seen S) = {}"
    and h: "handle_request cfg hr token digest now ids (sv_world S) = (e, wd)"
  shows "server_inv cfg (S\<lparr>sv_world := wd, sv_seen := ids @ sv_seen S, sv_requests := hr_id hr # sv_requests S\<rparr>)"
proof -
  note I = server_invD[OF inv]
  let ?T = "\<lambda>wd. S\<lparr>sv_world := wd, sv_seen := ids @ sv_seen S, sv_requests := hr_id hr # sv_requests S\<rparr>"
  have unknown: "map_of (requests (sv_world S)) (hr_id hr) = None" using I(7) new by (simp add: known_ok_def)
  have same: "server_inv cfg (?T wd)"
    if wd: "wd_jm wd = wd_jm (sv_world S)" "wd_busy wd = wd_busy (sv_world S)" "requests wd = requests (sv_world S)"
      "\<And>r. r \<noteq> hr_id hr \<Longrightarrow> answers_of r (wd_table wd) = answers_of r (wd_table (sv_world S))" for wd
  proof -
    have "held (?T wd) = held S" "worker_sets (?T wd) = worker_sets S" by (simp_all add: held_def worker_sets_def wd)
    moreover have "table_ok (jc_capacity_aware (lc_jobs cfg)) (held S) (wd_table wd)"
      using I(6) wd(3,4) unknown unfolding table_ok_def by (metis option.distinct(1))
    moreover have "known_ok (wd_table wd) (hr_id hr # sv_requests S)" using I(7) wd(3,4) by (simp add: known_ok_def)
    ultimately show ?thesis using I by (auto simp: server_inv_def wd(1,2))
  qed
  show ?thesis
  proof (cases "queue_request cfg hr token digest now ids (sv_world S) = (e, wd) \<and> hr_query hr \<noteq> []")
    case False
    then have "wd = sv_world S \<or> (\<exists>resp. wd = (sv_world S)\<lparr>wd_table := put_result (hr_id hr) resp (wd_table (sv_world S))\<rparr>)"
      using h by (auto simp: handle_request_def split: if_splits)
    then show ?thesis
    proof (elim disjE exE)
      fix resp assume "wd = (sv_world S)\<lparr>wd_table := put_result (hr_id hr) resp (wd_table (sv_world S))\<rparr>"
      then show ?thesis by (intro same) (simp_all add: answers_put_result)
    qed (use same[of "sv_world S"] in simp)
  next
    case True
    let ?st = "new_request_state hr" and ?j = "job_of_request hr token digest" and ?jm = "wd_jm (sv_world S)"
    obtain res jm where en: "enqueue (lc_jobs cfg) ?j now ids ?jm = (res, jm)" by force
    have gs: "jb_graphs ?j = hr_query hr" "jb_request_id ?j = hr_id hr" by (simp_all add: job_of_request_def)
    have "fresh_ids ?j ids ?jm" using ids I(5) by (auto simp: fresh_ids_def gs held_def)
    note jinv = enqueue_inv[OF I(1) this en]
    have slot: "slot jm = slot ?jm" using slot_operations(1)[of "lc_jobs cfg" ?j now ids ?jm] by (simp add: en)
    show ?thesis
    proof (cases res)
      case (Inl x)
      have "jm = ?jm" using en Inl by (auto simp: enqueue_def split: sum.splits)
      moreover have wd: "wd = (map_requests (AList.update (hr_id hr) ?st) (sv_world S))\<lparr>wd_jm := jm\<rparr>"
        using True en Inl by (simp add: queue_request_def Let_def)
      ultimately show ?thesis
        by (intro server_inv_new[OF inv new ids(3), where its = "[]" and fresh = "?st"])
          (simp_all add: I(1) new_request_ok lookup_update map_requests_def)
    next
      case (Inr its)
      have job: "items_of_job ?j now (hr_query hr) ids = Inr its"
        and jm: "jm = (foldl (\<lambda>s it. enqueue_item (lc_jobs cfg) it s) ?jm its)\<lparr>jm_not_empty := True\<rparr>"
        using en Inr gs by (auto simp: enqueue_def split: sum.splits)
      have f: "map wi_graph its = map snd (hr_query hr)" "requests_of its \<subseteq> {hr_id hr}"
        using items_of_job_fields[OF job] gs(2) by auto
      have wids: "map wi_id its = take (length (hr_query hr)) ids" by (rule items_of_job_ids[OF job ids(1)])
      have ne: "its \<noteq> []" using f(1) True by auto
      have "all_items jm = all_items (foldl (\<lambda>s it. enqueue_item (lc_jobs cfg) it s) ?jm its)" by (rule all_items_cong) (simp add: jm)
      then have q: "mset (all_items jm) = mset (all_items ?jm) + mset its" by (simp only: enqueue_items_all)
      have d: "distinct (map wi_id its)" "wi_id ` set its \<subseteq> set ids"
        using wids ids(2) set_take_subset[of "length (hr_query hr)" ids] by (simp_all flip: set_map)
      have wd: "wd = (map_requests (with_request (hr_id hr) (mark_queued (map wi_id its)))
          (map_requests (AList.update (hr_id hr) ?st) (sv_world S)))\<lparr>wd_jm := jm\<rparr>"
        using True en Inr by (simp add: queue_request_def Let_def)
      show ?thesis
        by (rule server_inv_new[OF inv new ids(3), where its = its and fresh = "mark_queued (map wi_id its) ?st"])
          (use jinv q slot f(2) d queued_request_ok[OF f(2,1) ne] in
            \<open>simp_all add: wd with_request_lookup lookup_update map_requests_def\<close>)
    qed
  qed
qed

lemma server_step_inv: "server_step cfg S T \<Longrightarrow> server_inv cfg S \<Longrightarrow> server_inv cfg T"
  by (induction rule: server_step.induct)
    (rule submit_inv doomed_inv select_inv claim_inv server_dropped_inv dispatch_inv finish_inv; assumption)+

lemma server_reachable_inv: "server_reachable cfg S \<Longrightarrow> server_inv cfg S"
  by (induction rule: server_reachable.induct) (rule server_inv_start, erule server_step_inv, assumption)

end
