(* ===== verification/Server_Merge.thy ===== *)
theory Server_Merge
  imports Server_Answers
begin

section \<open>Merging the slices of the outputs\<close>

text \<open>
  The slices a request's workflows deliver, written into the request's buffers one after the other,
  put the outputs of the whole inputs back together: the buffers hold exactly the rows of the slices
  recorded so far, no overlap is reported on the way, and nothing is missing at the end.
\<close>

subsection \<open>Writing a slice\<close>

lemma write_at_snoc: "write_at s (vs @ [v]) t = (write_at s vs t)[s + length vs := v]"
  by (simp add: write_at_def enumerate_append_eq)

lemma write_at_length [simp]: "length (write_at s vs t) = length t"
  by (induction vs rule: rev_induct) (simp_all add: write_at_snoc, simp add: write_at_def)

lemma write_at_nth:
  "i < length t \<Longrightarrow> write_at s vs t ! i = (if s \<le> i \<and> i < s + length vs then vs ! (i - s) else t ! i)"
proof (induction vs rule: rev_induct)
  case Nil
  then show ?case by (auto simp: write_at_def)
next
  case (snoc v vs)
  then show ?case by (auto simp: write_at_snoc nth_list_update nth_append)
qed

text \<open>The rows of \<open>vs\<close> that the slices \<open>D\<close> of graph \<open>g\<close> hold.\<close>

definition filled :: "slice_meta list \<Rightarrow> string \<Rightarrow> 'v list \<Rightarrow> 'v option list" where
  "filled D g vs = map (\<lambda>i. if 0 < hits D g (int i) then Some (vs ! i) else None) [0..<length vs]"

lemma filled_Nil: "filled [] g vs = replicate (length vs) None"
  by (simp add: filled_def map_replicate_const)

lemma filled_other: "sm_public_graph_name sm \<noteq> g \<Longrightarrow> filled (sm # D) g = filled D g"
  by (simp add: filled_def hits_Cons fun_eq_iff)

lemma filled_none: "(\<forall>sm \<in> set D. sm_public_graph_name sm \<noteq> g) \<Longrightarrow> filled D g vs = replicate (length vs) None"
  by (simp add: filled_def hits_none map_replicate_const)

definition slice_values :: "slice_meta \<Rightarrow> 'v list \<Rightarrow> 'v option list" where
  "slice_values sm vs = map Some (take (nat (sm_slice_length sm)) (drop (nat (sm_slice_start sm)) vs))"

text \<open>The payload of one workflow: its rows of every output of its graph.\<close>

definition slice_payload :: "slice_meta \<Rightarrow> (string, 'v list) dict \<Rightarrow> 'v payload" where
  "slice_payload sm outs = map (\<lambda>(k, vs). (k, slice_values sm vs)) outs"

lemma slice_values_length:
  assumes "slice_in_range sm" "int (length vs) = sm_total_length sm"
  shows "int (length (slice_values sm vs)) = sm_slice_length sm"
proof -
  have "nat (sm_slice_length sm) \<le> length vs - nat (sm_slice_start sm)" "0 \<le> sm_slice_length sm"
    using assms by (auto simp: slice_in_range_def)
  then show ?thesis by (simp add: slice_values_def)
qed

lemma span_nat:
  assumes "slice_in_range sm"
  shows "int i \<in> span sm \<longleftrightarrow> nat (sm_slice_start sm) \<le> i \<and> i < nat (sm_slice_start sm) + nat (sm_slice_length sm)"
  using assms by (auto simp: span_def slice_in_range_def)

lemma write_slice:
  assumes "slice_in_range sm" "int (length vs) = sm_total_length sm"
  shows "write_at (nat (sm_slice_start sm)) (slice_values sm vs) (filled D (sm_public_graph_name sm) vs)
     = filled (sm # D) (sm_public_graph_name sm) vs"
proof (rule nth_equalityI)
  fix i assume "i < length (write_at (nat (sm_slice_start sm)) (slice_values sm vs) (filled D (sm_public_graph_name sm) vs))"
  then have i: "i < length vs" by (simp add: filled_def)
  have len: "length (slice_values sm vs) = nat (sm_slice_length sm)" using slice_values_length[OF assms] by simp
  show "write_at (nat (sm_slice_start sm)) (slice_values sm vs) (filled D (sm_public_graph_name sm) vs) ! i
      = filled (sm # D) (sm_public_graph_name sm) vs ! i"
  proof (cases "int i \<in> span sm")
    case True
    then have b: "nat (sm_slice_start sm) \<le> i" "i < nat (sm_slice_start sm) + nat (sm_slice_length sm)"
      using span_nat[OF assms(1)] by simp_all
    then have "i - nat (sm_slice_start sm) < length (slice_values sm vs)" using len by linarith
    then have "slice_values sm vs ! (i - nat (sm_slice_start sm)) = Some (vs ! i)"
      using i b by (simp add: slice_values_def)
    then show ?thesis using b i len True by (simp add: write_at_nth filled_def hits_Cons)
  next
    case False
    then have "\<not> (nat (sm_slice_start sm) \<le> i \<and> i < nat (sm_slice_start sm) + nat (sm_slice_length sm))"
      using span_nat[OF assms(1)] by simp
    then show ?thesis using i len False by (auto simp: write_at_nth filled_def hits_Cons)
  qed
qed (simp add: filled_def)

lemma no_overlap:
  assumes "slice_in_range sm" "int (length vs) = sm_total_length sm"
    "\<forall>i \<in> span sm. hits D (sm_public_graph_name sm) i = 0"
  shows "overlap (nat (sm_slice_start sm)) (nat (sm_slice_start sm + sm_slice_length sm))
     (filled D (sm_public_graph_name sm) vs) = []"
proof -
  have "filled D (sm_public_graph_name sm) vs ! i = None"
    if i: "nat (sm_slice_start sm) \<le> i" "i < nat (sm_slice_start sm + sm_slice_length sm)" for i
  proof -
    have "int i \<in> span sm" "i < length vs" using i assms(1,2) by (auto simp: span_def slice_in_range_def)
    then show ?thesis using assms(3) by (simp add: filled_def)
  qed
  then show ?thesis by (auto simp: overlap_def filter_empty_conv)
qed

subsection \<open>Merging a payload\<close>

lemma merge_values_fill:
  assumes r: "slice_in_range (wi_slice w)" and len: "int (length vs) = sm_total_length (wi_slice w)"
    and free: "\<forall>i \<in> span (wi_slice w). hits D (public_name w) i = 0"
    and old: "dict_get (mg_buffers m) name (replicate (length vs) None) = filled D (public_name w) vs"
  shows "merge_values w name (slice_values (wi_slice w) vs) m
     = (None, m\<lparr>mg_buffers := AList.update name (filled (wi_slice w # D) (public_name w) vs) (mg_buffers m)\<rparr>)"
proof -
  let ?sm = "wi_slice w"
  have n: "nat (sm_total_length ?sm) = length vs" using len by simp
  have l: "length (filled D (public_name w) vs) = length vs" by (simp add: filled_def)
  have ov: "overlap (nat (sm_slice_start ?sm)) (nat (slice_stop w)) (filled D (public_name w) vs) = []"
    using no_overlap[OF r len] free by (simp add: public_name_def slice_stop_def)
  have wr: "write_at (nat (sm_slice_start ?sm)) (slice_values ?sm vs) (filled D (public_name w) vs)
     = filled (?sm # D) (public_name w) vs" using write_slice[OF r len] by (simp add: public_name_def)
  show ?thesis
    unfolding merge_values_def Let_def n old by (simp add: slice_values_length[OF r len] l ov wr)
qed

lemma merge_outputs_fill:
  assumes r: "slice_in_range (wi_slice w)"
    and free: "\<forall>i \<in> span (wi_slice w). hits D (public_name w) i = 0"
    and "distinct (map fst outs)" "distinct (map fst (mg_buffers m))"
    and "\<forall>(k, vs) \<in> set outs. int (length vs) = sm_total_length (wi_slice w)
       \<and> dict_get (mg_buffers m) k (replicate (length vs) None) = filled D (public_name w) vs"
  shows "\<exists>m'. merge_outputs {} w (slice_payload (wi_slice w) outs) m = (None, m') \<and> mg_errors m' = mg_errors m
    \<and> mg_ok m' = mg_ok m \<and> distinct (map fst (mg_buffers m'))
    \<and> (\<forall>k. map_of (mg_buffers m') k = (case map_of outs k of
          None \<Rightarrow> map_of (mg_buffers m) k | Some vs \<Rightarrow> Some (filled (wi_slice w # D) (public_name w) vs)))"
  using assms(3-)
proof (induction outs arbitrary: m)
  case Nil
  then show ?case by (simp add: slice_payload_def)
next
  case (Cons x outs)
  obtain k vs where x: "x = (k, vs)" by (cases x)
  let ?m = "m\<lparr>mg_buffers := AList.update k (filled (wi_slice w # D) (public_name w) vs) (mg_buffers m)\<rparr>"
  have step: "merge_values w k (slice_values (wi_slice w) vs) m = (None, ?m)"
    using Cons.prems(3) x by (intro merge_values_fill[OF r _ free]) simp_all
  have k: "k \<notin> fst ` set outs" using Cons.prems(1) x by simp
  have old: "\<forall>(k', vs') \<in> set outs. int (length vs') = sm_total_length (wi_slice w)
       \<and> dict_get (mg_buffers ?m) k' (replicate (length vs') None) = filled D (public_name w) vs'"
  proof (intro ballI)
    fix y assume y: "y \<in> set outs"
    then have ne: "fst y \<noteq> k" using k by (metis image_eqI)
    show "case y of (k', vs') \<Rightarrow> int (length vs') = sm_total_length (wi_slice w)
       \<and> dict_get (mg_buffers ?m) k' (replicate (length vs') None) = filled D (public_name w) vs'"
      using Cons.prems(3) y ne by (auto simp: dict_get_def lookup_update)
  qed
  have "distinct (map fst (mg_buffers ?m))" using Cons.prems(2) by (simp add: distinct_update)
  then obtain m' where m': "merge_outputs {} w (slice_payload (wi_slice w) outs) ?m = (None, m')"
    "mg_errors m' = mg_errors ?m" "mg_ok m' = mg_ok ?m" "distinct (map fst (mg_buffers m'))"
    "\<forall>k. map_of (mg_buffers m') k = (case map_of outs k of
          None \<Rightarrow> map_of (mg_buffers ?m) k | Some vs \<Rightarrow> Some (filled (wi_slice w # D) (public_name w) vs))"
    using Cons.IH[OF _ _ old] Cons.prems(1) by auto
  have kn: "map_of outs k = None" using k by (simp add: map_of_eq_None_iff)
  have "map_of (mg_buffers m') k' = (case map_of (x # outs) k' of
          None \<Rightarrow> map_of (mg_buffers m) k' | Some vs \<Rightarrow> Some (filled (wi_slice w # D) (public_name w) vs))" for k'
    using m'(5) kn by (cases "k' = k") (simp_all add: x lookup_update split: option.split)
  moreover have "merge_outputs {} w (slice_payload (wi_slice w) (x # outs)) m = (None, m')"
    using step m'(1) by (simp add: x slice_payload_def)
  ultimately show ?case using m'(2-4) by (intro exI[of _ m']) simp
qed

subsection \<open>The buffers of a request\<close>

text \<open>The buffers hold the rows of the slices \<open>D\<close> of the outputs \<open>outs g\<close> of each graph \<open>g\<close>, and nothing else.\<close>

definition holds :: "(string \<Rightarrow> (string, 'v list) dict) \<Rightarrow> slice_meta list \<Rightarrow> 'v buffers \<Rightarrow> bool" where
  "holds outs D bufs \<longleftrightarrow> distinct (map fst bufs)
     \<and> (\<forall>g. map_of bufs g = None \<longleftrightarrow> (\<forall>sm \<in> set D. sm_public_graph_name sm \<noteq> g))
     \<and> (\<forall>g m. map_of bufs g = Some m \<longrightarrow> distinct (map fst m)
          \<and> (\<forall>k. map_of m k = map_option (filled D g) (map_of (outs g) k)))"

definition outputs_fit :: "(string \<Rightarrow> (string, 'v list) dict) \<Rightarrow> slice_meta \<Rightarrow> bool" where
  "outputs_fit outs sm \<longleftrightarrow> distinct (map fst (outs (sm_public_graph_name sm)))
     \<and> (\<forall>(k, vs) \<in> set (outs (sm_public_graph_name sm)). int (length vs) = sm_total_length sm)"

lemma merge_slice_payload_holds:
  assumes h: "holds outs D bufs" and r: "slice_in_range (wi_slice w)" and fit: "outputs_fit outs (wi_slice w)"
    and free: "\<forall>i \<in> span (wi_slice w). hits D (public_name w) i = 0"
  shows "\<exists>bufs'. merge_slice_payload {} w (slice_payload (wi_slice w) (outs (public_name w))) bufs = (None, [], bufs', True)
    \<and> holds outs (wi_slice w # D) bufs'"
proof -
  let ?g = "public_name w" and ?sm = "wi_slice w"
  let ?m = "\<lparr>mg_errors = [], mg_buffers = dict_get bufs ?g [], mg_ok = True\<rparr>"
  have d: "distinct (map fst (outs ?g))" and lens: "\<forall>(k, vs) \<in> set (outs ?g). int (length vs) = sm_total_length ?sm"
    using fit by (simp_all add: outputs_fit_def public_name_def)
  have old: "map_of (dict_get bufs ?g []) k = (if map_of bufs ?g = None then None else map_option (filled D ?g) (map_of (outs ?g) k))"
    "distinct (map fst (dict_get bufs ?g []))" for k
  proof -
    have some: "distinct (map fst m) \<and> (\<forall>k. map_of m k = map_option (filled D ?g) (map_of (outs ?g) k))"
      if "map_of bufs ?g = Some m" for m using h that unfolding holds_def by blast
    show "map_of (dict_get bufs ?g []) k = (if map_of bufs ?g = None then None else map_option (filled D ?g) (map_of (outs ?g) k))"
      using some by (cases "map_of bufs ?g") (simp_all add: dict_get_def)
    show "distinct (map fst (dict_get bufs ?g []))" using some by (cases "map_of bufs ?g") (simp_all add: dict_get_def)
  qed
  have "\<forall>(k, vs) \<in> set (outs ?g). int (length vs) = sm_total_length ?sm
       \<and> dict_get (mg_buffers ?m) k (replicate (length vs) None) = filled D ?g vs"
  proof (intro ballI)
    fix y assume y: "y \<in> set (outs ?g)"
    obtain k vs where kv: "y = (k, vs)" by (cases y)
    have look: "map_of (outs ?g) k = Some vs" using d y kv by (simp add: map_of_is_SomeI)
    have "filled D ?g vs = replicate (length vs) None" if "map_of bufs ?g = None"
      using h that by (intro filled_none) (simp add: holds_def)
    then have "dict_get (mg_buffers ?m) k (replicate (length vs) None) = filled D ?g vs"
      using old(1)[of k] look by (simp add: dict_get_def)
    then show "case y of (k, vs) \<Rightarrow> int (length vs) = sm_total_length ?sm
       \<and> dict_get (mg_buffers ?m) k (replicate (length vs) None) = filled D ?g vs"
      using lens y kv by auto
  qed
  then obtain m' where m': "merge_outputs {} w (slice_payload ?sm (outs ?g)) ?m = (None, m')" "mg_errors m' = []"
    "mg_ok m'" "distinct (map fst (mg_buffers m'))"
    "\<forall>k. map_of (mg_buffers m') k = (case map_of (outs ?g) k of
          None \<Rightarrow> map_of (mg_buffers ?m) k | Some vs \<Rightarrow> Some (filled (?sm # D) ?g vs))"
    using merge_outputs_fill[OF r free d, of ?m] old(2) by auto
  let ?b = "AList.update ?g (mg_buffers m') bufs"
  have "\<not> sm_total_length ?sm \<le> 0" "\<not> (sm_slice_start ?sm < 0 \<or> sm_total_length ?sm < slice_stop w)"
    using r by (auto simp: slice_in_range_def slice_stop_def)
  then have res: "merge_slice_payload {} w (slice_payload ?sm (outs ?g)) bufs = (None, [], ?b, True)"
    using m'(1-3) by (simp add: merge_slice_payload_def)
  have new: "map_of (mg_buffers m') k = map_option (filled (?sm # D) ?g) (map_of (outs ?g) k)" for k
    using m'(5) old(1)[of k] by (simp split: option.splits)
  have "holds outs (?sm # D) ?b"
    unfolding holds_def
  proof (intro conjI allI impI)
    show "distinct (map fst ?b)" using h by (simp add: holds_def distinct_update)
    show "map_of ?b g = None \<longleftrightarrow> (\<forall>sm \<in> set (?sm # D). sm_public_graph_name sm \<noteq> g)" for g
      using h by (auto simp: holds_def lookup_update public_name_def)
    fix g m assume m: "map_of ?b g = Some m"
    show "distinct (map fst m)" using m h m'(4) by (auto simp: holds_def lookup_update split: if_splits)
    show "map_of m k = map_option (filled (?sm # D) g) (map_of (outs g) k)" for k
    proof (cases "g = ?g")
      case True
      then show ?thesis using m new by (simp add: lookup_update)
    next
      case False
      then have "filled (?sm # D) g = (filled D g :: 'a list \<Rightarrow> 'a option list)"
        by (intro filled_other) (simp add: public_name_def)
      then show ?thesis using m h False by (simp add: holds_def lookup_update)
    qed
  qed
  with res show ?thesis by blast
qed

subsection \<open>Recording clean results\<close>

definition part :: "string \<Rightarrow> workflow_item list \<Rightarrow> workflow_item list" where
  "part q ws = filter (\<lambda>w. wi_request_id w = q) ws"

lemma part_simps [simp]:
  "part q [] = []" "part q (xs @ ys) = part q xs @ part q ys"
  "part q (w # ws) = (if wi_request_id w = q then w # part q ws else part q ws)"
  by (simp_all add: part_def)

lemma part_rev [simp]: "part q (rev ws) = rev (part q ws)"
  by (simp add: part_def rev_filter)

text \<open>A batch that succeeds: every workflow delivers its rows of the outputs of its request.\<close>

definition delivers :: "(string \<Rightarrow> string \<Rightarrow> (string, string list) dict) \<Rightarrow> batch_outcome \<Rightarrow> workflow_item \<Rightarrow> bool" where
  "delivers outs oc w \<longleftrightarrow> bo_error oc = None \<and> wi_request_id w \<notin> bo_cancelled oc \<and> bo_histories oc = []
     \<and> map_of (bo_outputs oc) (wi_id w) = Some (slice_payload (wi_slice w) (outs (wi_request_id w) (public_name w)))"

text \<open>A request that has recorded the workflows \<open>D\<close> cleanly and waits for \<open>rest\<close>.\<close>

definition clean :: "(string \<Rightarrow> (string, string list) dict) \<Rightarrow> workflow_item list \<Rightarrow> workflow_item list \<Rightarrow> request_state \<Rightarrow> bool" where
  "clean outs D rest st \<longleftrightarrow> holds outs (map wi_slice D) (rq_output_buffers st) \<and> rq_history_buffers st = []
     \<and> rq_error_info st = None \<and> rq_list_lambda st = [] \<and> rq_ready st
     \<and> rq_pending st = wi_id ` set rest \<and> distinct (map wi_id rest)
     \<and> tiling (map wi_slice (D @ rest)) \<and> (\<forall>w \<in> set (D @ rest). outputs_fit outs (wi_slice w))"

definition clean_table ::
  "(string \<Rightarrow> string \<Rightarrow> (string, string list) dict) \<Rightarrow> workflow_item list \<Rightarrow> workflow_item list
    \<Rightarrow> (string, request_state) dict \<Rightarrow> bool" where
  "clean_table outs D rest rs \<longleftrightarrow> (\<forall>q st. map_of rs q = Some st \<longrightarrow> q \<in> wi_request_id ` set (D @ rest)
     \<longrightarrow> clean (outs q) (part q D) (part q rest) st)"

lemma clean_tableD:
  "clean_table outs D rest rs \<Longrightarrow> map_of rs q = Some st \<Longrightarrow> q \<in> wi_request_id ` set (D @ rest)
    \<Longrightarrow> clean (outs q) (part q D) (part q rest) st"
  by (simp add: clean_table_def)

lemma clean_tableI:
  "(\<And>q st. map_of rs q = Some st \<Longrightarrow> q \<in> wi_request_id ` set (D @ rest) \<Longrightarrow> clean (outs q) (part q D) (part q rest) st)
    \<Longrightarrow> clean_table outs D rest rs"
  by (simp add: clean_table_def)

lemma tiling_free:
  assumes "tiling (map wi_slice (D @ w # rest))"
  shows "slice_in_range (wi_slice w)" "\<forall>i \<in> span (wi_slice w). hits (map wi_slice D) (public_name w) i = 0"
proof -
  have mem: "wi_slice w \<in> set (map wi_slice (D @ w # rest))" by simp
  show r: "slice_in_range (wi_slice w)" using tilingD(1)[OF assms mem] .
  show "\<forall>i \<in> span (wi_slice w). hits (map wi_slice D) (public_name w) i = 0"
  proof
    fix i assume i: "i \<in> span (wi_slice w)"
    then have "0 \<le> i" "i < sm_total_length (wi_slice w)" using r by (auto simp: span_def slice_in_range_def)
    then have "hits (map wi_slice (D @ w # rest)) (public_name w) i = 1"
      using tilingD(3)[OF assms mem] by (simp add: public_name_def)
    then show "hits (map wi_slice D) (public_name w) i = 0" using i by (simp add: hits_Cons public_name_def)
  qed
qed

lemma holds_mset: "mset D = mset D' \<Longrightarrow> holds outs D bufs = holds outs D' bufs"
proof -
  assume eq: "mset D = mset D'"
  have "filled D g = (filled D' g :: 'a list \<Rightarrow> 'a option list)" for g
    by (simp add: filled_def hits_mset[OF eq] fun_eq_iff)
  then show ?thesis unfolding holds_def mset_eq_setD[OF eq] by simp
qed

lemma record_workflow_clean:
  assumes c: "clean outs D (w # rest) st" and "bo_error oc = None" "wi_request_id w \<notin> bo_cancelled oc"
    "bo_histories oc = []" "map_of (bo_outputs oc) (wi_id w) = Some (slice_payload (wi_slice w) (outs (public_name w)))"
  shows "\<exists>st'. record_workflow oc w st = (None, st') \<and> clean outs (w # D) rest st'"
proof -
  have t: "tiling (map wi_slice (D @ w # rest))" and h: "holds outs (map wi_slice D) (rq_output_buffers st)"
    and fit: "outputs_fit outs (wi_slice w)" using c by (simp_all add: clean_def)
  obtain bufs where m: "merge_slice_payload {} w (slice_payload (wi_slice w) (outs (public_name w))) (rq_output_buffers st)
      = (None, [], bufs, True)" and h': "holds outs (wi_slice w # map wi_slice D) bufs"
    using merge_slice_payload_holds[OF h tiling_free(1)[OF t] fit tiling_free(2)[OF t]] by blast
  let ?st = "discard_pending w (mark_successful w (st\<lparr>rq_output_buffers := bufs\<rparr>))"
  have lam: "lambda_names w st = {}" using c by (simp add: clean_def lambda_names_def dict_get_def)
  have "take_outputs oc w st = (None, mark_successful w (st\<lparr>rq_output_buffers := bufs\<rparr>))"
    using m assms(2,5) lam by (simp add: take_outputs_def merge_output_payload_def append_errors_def)
  then have "record_workflow oc w st = (None, ?st)"
    using assms(2-4) by (simp add: record_workflow_def take_histories_def)
  moreover have "clean outs (w # D) rest ?st"
  proof -
    have "tiling (map wi_slice ((w # D) @ rest))" 
      using t tiling_mset[of "map wi_slice ((w # D) @ rest)" "map wi_slice (D @ w # rest)"] by simp
    moreover have "wi_id w \<notin> wi_id ` set rest" using c by (simp add: clean_def)
    ultimately show ?thesis
      using c h' unfolding clean_def by (simp add: discard_pending_def)
  qed
  ultimately show ?thesis by blast
qed

lemma record_workflows_clean:
  assumes "\<forall>w \<in> set ws. delivers outs oc w" "clean_table outs D (ws @ later) rs"
  shows "\<exists>rs'. record_workflows oc ws rs = (None, rs') \<and> clean_table outs (rev ws @ D) later rs'"
  using assms
proof (induction ws arbitrary: D rs)
  case Nil
  then show ?case by simp
next
  case (Cons w ws)
  let ?q = "wi_request_id w"
  have rest: "\<forall>x \<in> set ws. delivers outs oc x" using Cons.prems(1) by simp
  show ?case
  proof (cases "map_of rs ?q")
    case None
    have "clean_table outs (w # D) (ws @ later) rs"
    proof (rule clean_tableI)
      fix q st assume q: "map_of rs q = Some st" and m: "q \<in> wi_request_id ` set ((w # D) @ ws @ later)"
      have ne: "?q \<noteq> q" using q None by auto
      have "clean (outs q) (part q D) (part q ((w # ws) @ later)) st"
        by (rule clean_tableD[OF Cons.prems(2) q]) (use m in auto)
      then show "clean (outs q) (part q (w # D)) (part q (ws @ later)) st" using ne by simp
    qed
    from Cons.IH[OF rest this] show ?thesis using None by simp
  next
    case (Some st)
    have "clean (outs ?q) (part ?q D) (part ?q ((w # ws) @ later)) st"
      by (rule clean_tableD[OF Cons.prems(2) Some]) simp
    then have c: "clean (outs ?q) (part ?q D) (w # part ?q (ws @ later)) st" by simp
    have "delivers outs oc w" using Cons.prems(1) by simp
    note d = this[unfolded delivers_def]
    from record_workflow_clean[OF c d[THEN conjunct1] d[THEN conjunct2, THEN conjunct1]
        d[THEN conjunct2, THEN conjunct2, THEN conjunct1] d[THEN conjunct2, THEN conjunct2, THEN conjunct2]]
    obtain st' where st': "record_workflow oc w st = (None, st')"
      "clean (outs ?q) (w # part ?q D) (part ?q (ws @ later)) st'"
      by blast
    have "clean_table outs (w # D) (ws @ later) (AList.update ?q st' rs)"
    proof (rule clean_tableI)
      fix q s assume q: "map_of (AList.update ?q st' rs) q = Some s"
        and m: "q \<in> wi_request_id ` set ((w # D) @ ws @ later)"
      show "clean (outs q) (part q (w # D)) (part q (ws @ later)) s"
      proof (cases "q = ?q")
        case True
        then show ?thesis using q st'(2) by (simp add: lookup_update)
      next
        case False
        then have "map_of rs q = Some s" using q by (simp add: lookup_update)
        then have "clean (outs q) (part q D) (part q ((w # ws) @ later)) s"
          by (rule clean_tableD[OF Cons.prems(2)]) (use m in auto)
        then show ?thesis using False by simp
      qed
    qed
    from Cons.IH[OF rest this] show ?thesis using Some st'(1) by simp
  qed
qed

subsection \<open>The final answer\<close>

definition out_view :: "(string, (string, 'a) dict) dict \<Rightarrow> string \<Rightarrow> string \<Rightarrow> 'a option" where
  "out_view d g k = (case map_of d g of None \<Rightarrow> None | Some m \<Rightarrow> map_of m k)"

lemma map_of_map_value: "map_of (map (\<lambda>(k, v). (k, f v)) d) k = map_option f (map_of d k)"
  by (induction d) auto

lemma finalized_view:
  assumes "distinct (map fst bufs)"
  shows "out_view (finalized d bufs) g k = map_option (map (case_option d (\<lambda>x. x))) (out_view bufs g k)"
  using assms
proof (induction bufs)
  case Nil
  then show ?case by (simp add: finalized_def out_view_def)
next
  case (Cons x bufs)
  obtain h m where x: "x = (h, m)" by (cases x)
  let ?conv = "\<lambda>m. map (\<lambda>(name, vs). (name, map (case_option d (\<lambda>x. x)) vs)) m"
  have fin: "finalized d (x # bufs) = (if m = [] then [] else [(h, ?conv m)]) @ finalized d bufs"
    by (simp add: finalized_def x)
  show ?case
  proof (cases "h = g")
    case False
    then have "out_view (x # bufs) g k = out_view bufs g k"
      "out_view (finalized d (x # bufs)) g k = out_view (finalized d bufs) g k"
      unfolding fin by (simp_all add: x out_view_def)
    then show ?thesis using Cons by simp
  next
    case True
    have "map_of bufs g = None" using Cons.prems True x by (simp add: map_of_eq_None_iff)
    then have "map_of (finalized d bufs) g = None"
      by (force simp: finalized_def map_of_eq_None_iff)
    then show ?thesis
      unfolding fin using True by (simp add: x out_view_def map_of_map_value)
  qed
qed

lemma filled_complete:
  assumes "tiling D" "sm \<in> set D" "sm_public_graph_name sm = g" "int (length vs) = sm_total_length sm"
  shows "filled D g vs = map Some vs"
proof (rule nth_equalityI)
  fix i assume "i < length (filled D g vs)"
  then have i: "i < length vs" by (simp add: filled_def)
  then have "hits D g (int i) = 1" using tilingD(3)[OF assms(1,2), of "int i"] assms(3,4) by simp
  then show "filled D g vs ! i = map Some vs ! i" using i by (simp add: filled_def)
qed (simp add: filled_def)

lemma map_Some_inverse: "map (case_option d (\<lambda>x. x)) (map Some vs) = vs"
  by (induction vs) simp_all

definition complete_outputs :: "(string \<Rightarrow> (string, 'v list) dict) \<Rightarrow> slice_meta list \<Rightarrow> string \<Rightarrow> string \<Rightarrow> 'v list option" where
  "complete_outputs outs D g k = (if \<exists>sm \<in> set D. sm_public_graph_name sm = g then map_of (outs g) k else None)"

lemma holds_complete:
  assumes h: "holds outs D bufs" and t: "tiling D" and fit: "\<forall>sm \<in> set D. outputs_fit outs sm"
  shows "out_view bufs g k = map_option (map Some) (complete_outputs outs D g k)"
    and "missing_errors what bufs = []"
proof -
  have full: "filled D g vs = map Some vs" if sm: "sm \<in> set D" "sm_public_graph_name sm = g" "map_of (outs g) k = Some vs"
    for sm g k vs
  proof (rule filled_complete[OF t sm(1,2)])
    have "(k, vs) \<in> set (outs (sm_public_graph_name sm))" using sm(2,3) map_of_SomeD by fastforce
    then show "int (length vs) = sm_total_length sm" using fit sm(1) unfolding outputs_fit_def by blast
  qed
  have none: "map_of bufs g = None \<longleftrightarrow> (\<forall>sm \<in> set D. sm_public_graph_name sm \<noteq> g)" for g
    using h unfolding holds_def by blast
  have some: "distinct (map fst m) \<and> (\<forall>k. map_of m k = map_option (filled D g) (map_of (outs g) k))"
    if "map_of bufs g = Some m" for g m using h that unfolding holds_def by blast
  show "out_view bufs g k = map_option (map Some) (complete_outputs outs D g k)"
  proof (cases "map_of bufs g")
    case None
    then show ?thesis using none[of g] by (auto simp: out_view_def complete_outputs_def)
  next
    case (Some m)
    then obtain sm where sm: "sm \<in> set D" "sm_public_graph_name sm = g" using none[of g] by auto
    have "map_option (filled D g) (map_of (outs g) k) = map_option (map Some) (map_of (outs g) k)"
      using full[OF sm, of k] by (cases "map_of (outs g) k") simp_all
    then show ?thesis using Some some[OF Some] sm by (auto simp: out_view_def complete_outputs_def)
  qed
  have "missing_indices vs = []" if gm: "(g, m) \<in> set bufs" and kv: "(k, vs) \<in> set m" for g m k vs
  proof -
    have m: "map_of bufs g = Some m" using h gm by (simp add: holds_def map_of_is_SomeI)
    have "map_of m k = Some vs" using some[OF m] kv by (metis map_of_is_SomeI)
    then have "map_option (filled D g) (map_of (outs g) k) = Some vs" using some[OF m] by metis
    then obtain us where us: "map_of (outs g) k = Some us" "vs = filled D g us" by blast
    obtain sm where sm: "sm \<in> set D" "sm_public_graph_name sm = g" using none[of g] m by auto
    have "vs = map Some us" using full[OF sm us(1)] us(2) by simp
    then show ?thesis by (simp add: missing_indices_def)
  qed
  then show "missing_errors what bufs = []" by (force simp: missing_errors_def)
qed

lemma finalize_clean:
  assumes c: "clean outs D [] st"
  shows "finalize_state st = st\<lparr>rq_outputs := finalized [] (rq_output_buffers st), rq_histories := []\<rparr>"
    and "clean outs D [] (finalize_state st)"
    and "out_view (finalized [] (rq_output_buffers st)) g k = complete_outputs outs (map wi_slice D) g k"
proof -
  have h: "holds outs (map wi_slice D) (rq_output_buffers st)" and t: "tiling (map wi_slice D)"
    and fit: "\<forall>sm \<in> set (map wi_slice D). outputs_fit outs sm" and hb: "rq_history_buffers st = []"
    using c by (simp_all add: clean_def)
  note full = holds_complete[OF h t fit]
  show fs: "finalize_state st = st\<lparr>rq_outputs := finalized [] (rq_output_buffers st), rq_histories := []\<rparr>"
    by (simp add: finalize_state_def full(2) hb append_errors_def) (simp add: missing_errors_def finalized_def)
  show "clean outs D [] (finalize_state st)" using c unfolding fs clean_def by simp
  have d: "distinct (map fst (rq_output_buffers st))" using h by (simp add: holds_def)
  show "out_view (finalized [] (rq_output_buffers st)) g k = complete_outputs outs (map wi_slice D) g k"
    unfolding finalized_view[OF d] full(1)
    by (cases "complete_outputs outs (map wi_slice D) g k") (simp_all add: map_Some_inverse del: map_map)
qed

end
