(* ===== verification/Server_Roundtrip.thy ===== *)
theory Server_Roundtrip
  imports Server_Merge
begin

section \<open>From the inputs of a submission to its answer\<close>

text \<open>
  The composition: a submission is cut into slices, its workflows are recorded batch by batch in any
  grouping and any order, next to those of other requests, and the one answer of the request holds the
  outputs over all its rows.
\<close>

lemma handle_batch_clean:
  assumes d: "\<forall>w \<in> set ws. delivers outs oc w" and c: "clean_table outs D (ws @ later) (rt_requests t)"
  shows "\<exists>t'. handle_batch_results ws oc t = (None, t') \<and> clean_table outs (rev ws @ D) later (rt_requests t')
    \<and> (\<forall>q st'. map_of (rt_requests t') q = Some st' \<longrightarrow> q \<in> wi_request_id ` set ws \<longrightarrow> answerable st' \<longrightarrow>
        rp_error_info (response_of st') = None \<and> rp_histories (response_of st') = []
      \<and> (\<forall>g k. out_view (rp_outputs (response_of st')) g k
           = complete_outputs (outs q) (map wi_slice (part q (rev ws @ D))) g k))"
proof -
  obtain rs where rec: "record_workflows oc ws (rt_requests t) = (None, rs)" and cr: "clean_table outs (rev ws @ D) later rs"
    using record_workflows_clean[OF d c] by blast
  let ?aff = "affected ws (rt_requests t)" and ?t = "t\<lparr>rt_requests := rs\<rparr>"
  have noerr: "bo_error oc = None \<or> ?aff = []"
  proof (cases ws)
    case Nil
    then show ?thesis by (simp add: affected_def)
  next
    case (Cons w ws')
    then show ?thesis using d by (simp add: delivers_def)
  qed
  define t' where "t' = foldl (\<lambda>t r. answer_request r t) ?t ?aff"
  have res: "handle_batch_results ws oc t = (None, t')"
    using rec noerr by (auto simp: handle_batch_results_def t'_def Let_def)
  have look: "map_of (rt_requests t') q = (case map_of rs q of None \<Rightarrow> None
      | Some st \<Rightarrow> Some (if q \<in> set ?aff \<and> answerable st then finalize_state st else st))" for q
    using answer_requests(1)[OF distinct_affected, where t = ?t and r = q] by (simp add: t'_def)
  have done_clean: "clean (outs q) (part q (rev ws @ D)) [] st"
    if q: "map_of rs q = Some st" "answerable st" "q \<in> wi_request_id ` set ws" for q st
  proof -
    have "clean (outs q) (part q (rev ws @ D)) (part q later) st"
      by (rule clean_tableD[OF cr q(1)]) (use q(3) in auto)
    moreover from this have "part q later = []" using q(2) by (simp add: clean_def answerable_def)
    ultimately show ?thesis by simp
  qed
  have aff: "q \<in> wi_request_id ` set ws" if "q \<in> set ?aff" for q using that by (simp add: affected_set)
  have tab: "clean_table outs (rev ws @ D) later (rt_requests t')"
  proof (rule clean_tableI)
    fix q st' assume q: "map_of (rt_requests t') q = Some st'" and m: "q \<in> wi_request_id ` set ((rev ws @ D) @ later)"
    obtain st where st: "map_of rs q = Some st"
      and st': "st' = (if q \<in> set ?aff \<and> answerable st then finalize_state st else st)"
      using q look[of q] by (cases "map_of rs q") auto
    have cl: "clean (outs q) (part q (rev ws @ D)) (part q later) st" using clean_tableD[OF cr st m] .
    show "clean (outs q) (part q (rev ws @ D)) (part q later) st'"
    proof (cases "q \<in> set ?aff \<and> answerable st")
      case True
      then have p: "part q later = []" using cl by (simp add: clean_def answerable_def)
      show ?thesis using finalize_clean(2)[OF cl[unfolded p]] True p by (simp add: st')
    next
      case False
      then show ?thesis using cl by (simp only: st' if_False)
    qed
  qed
  have ans: "rp_error_info (response_of st') = None \<and> rp_histories (response_of st') = []
      \<and> (\<forall>g k. out_view (rp_outputs (response_of st')) g k
           = complete_outputs (outs q) (map wi_slice (part q (rev ws @ D))) g k)"
    if q: "map_of (rt_requests t') q = Some st'" "q \<in> wi_request_id ` set ws" "answerable st'" for q st'
  proof -
    obtain st where st: "map_of rs q = Some st"
      and st': "st' = (if q \<in> set ?aff \<and> answerable st then finalize_state st else st)"
      using q(1) look[of q] by (cases "map_of rs q") auto
    have a: "answerable st" using q(3) st' by (auto simp: answerable_def split: if_splits)
    have "map_of (rt_requests t) q \<noteq> None" using record_workflows_fields(1)[OF rec, of q] st by auto
    then have "q \<in> set ?aff" using q(2) by (auto simp: affected_set dest: map_of_SomeD intro: rev_image_eqI)
    then have eq: "st' = finalize_state st" using st' a by simp
    note cl = done_clean[OF st a q(2)]
    show ?thesis
      using finalize_clean(3)[OF cl] cl unfolding eq finalize_clean(1)[OF cl] by (simp add: response_of_def clean_def)
  qed
  show ?thesis using res tab ans by blast
qed

subsection \<open>A sequence of batches\<close>

fun record_batches :: "(workflow_item list \<times> batch_outcome) list \<Rightarrow> request_table \<Rightarrow> py_error option \<times> request_table" where
  "record_batches [] t = (None, t)"
| "record_batches ((ws, oc) # bs) t =
     (case handle_batch_results ws oc t of
        (Some e, t') \<Rightarrow> (Some e, t')
      | (None, t') \<Rightarrow> record_batches bs t')"

definition recorded :: "(workflow_item list \<times> batch_outcome) list \<Rightarrow> workflow_item list" where
  "recorded bs = concat (map fst bs)"

definition answer_ok :: "(string \<Rightarrow> (string, string list) dict) \<Rightarrow> slice_meta list \<Rightarrow> response \<Rightarrow> bool" where
  "answer_ok outs sms resp \<longleftrightarrow> rp_error_info resp = None \<and> rp_histories resp = []
     \<and> (\<forall>g k. out_view (rp_outputs resp) g k = complete_outputs outs sms g k)"

lemma complete_outputs_set: "set xs = set ys \<Longrightarrow> complete_outputs outs xs = complete_outputs outs ys"
  by (simp add: complete_outputs_def fun_eq_iff)

lemma answer_ok_set: "set xs = set ys \<Longrightarrow> answer_ok outs xs resp = answer_ok outs ys resp"
  unfolding answer_ok_def by (drule complete_outputs_set[of xs ys outs]) simp

lemma record_batches_clean:
  assumes "\<forall>(ws, oc) \<in> set bs. \<forall>w \<in> set ws. delivers outs oc w" "clean_table outs D (recorded bs) (rt_requests t)"
  shows "\<exists>t'. record_batches bs t = (None, t') \<and> (\<forall>q st. map_of (rt_requests t) q = Some st \<longrightarrow>
    (if part q (recorded bs) = [] then answers_of q t' = answers_of q t
     else \<exists>resp. answers_of q t' = answers_of q t @ [resp]
       \<and> answer_ok (outs q) (map wi_slice (part q (D @ recorded bs))) resp))"
  using assms
proof (induction bs arbitrary: D t)
  case Nil
  then show ?case by (simp add: recorded_def)
next
  case (Cons b bs)
  obtain ws oc where b: "b = (ws, oc)" by (cases b)
  have split: "recorded (b # bs) = ws @ recorded bs" by (simp add: recorded_def b)
  have dl: "\<forall>w \<in> set ws. delivers outs oc w" and rest: "\<forall>(ws, oc) \<in> set bs. \<forall>w \<in> set ws. delivers outs oc w"
    using Cons.prems(1) by (simp_all add: b)
  obtain t1 where t1: "handle_batch_results ws oc t = (None, t1)"
    and c1: "clean_table outs (rev ws @ D) (recorded bs) (rt_requests t1)"
    and a1: "\<And>q st'. map_of (rt_requests t1) q = Some st' \<Longrightarrow> q \<in> wi_request_id ` set ws \<Longrightarrow> answerable st' \<Longrightarrow>
       answer_ok (outs q) (map wi_slice (part q (rev ws @ D))) (response_of st')"
    using handle_batch_clean[OF dl Cons.prems(2)[unfolded split]] unfolding answer_ok_def by (elim exE conjE) blast
  obtain t' where t': "record_batches bs t1 = (None, t')" and late: "\<And>q st. map_of (rt_requests t1) q = Some st \<Longrightarrow>
    (if part q (recorded bs) = [] then answers_of q t' = answers_of q t1
     else \<exists>resp. answers_of q t' = answers_of q t1 @ [resp]
       \<and> answer_ok (outs q) (map wi_slice (part q ((rev ws @ D) @ recorded bs))) resp)"
    using Cons.IH[OF rest c1] by blast
  have "if part q (recorded (b # bs)) = [] then answers_of q t' = answers_of q t
     else \<exists>resp. answers_of q t' = answers_of q t @ [resp]
       \<and> answer_ok (outs q) (map wi_slice (part q (D @ recorded (b # bs)))) resp"
    if q: "map_of (rt_requests t) q = Some st" for q st
  proof -
    obtain st1 where st1: "map_of (rt_requests t1) q = Some st1"
      and log: "answers_of q t1 = answers_of q t
          @ (if q \<in> wi_request_id ` set ws \<and> answerable st1 then [response_of st1] else [])"
      using handle_batch_results_lookup(2)[OF t1 q] by blast
    have mem: "q \<in> wi_request_id ` set ws \<longleftrightarrow> part q ws \<noteq> []"
      by (auto simp: part_def filter_empty_conv)
    have same: "set (map wi_slice (part q ((rev ws @ D) @ recorded bs))) = set (map wi_slice (part q (D @ recorded (b # bs))))"
      by (simp add: split) blast
    have pend: "answerable st1 \<longleftrightarrow> part q (recorded bs) = []" if "part q ws \<noteq> []"
    proof -
      have "q \<in> wi_request_id ` set ((rev ws @ D) @ recorded bs)" using that mem by auto
      then show ?thesis using clean_tableD[OF c1 st1] by (simp add: clean_def answerable_def)
    qed
    show ?thesis
    proof (cases "part q ws = []")
      case True
      then have l: "answers_of q t1 = answers_of q t" and p: "part q (recorded (b # bs)) = part q (recorded bs)"
        using log mem by (simp_all add: split)
      show ?thesis
        using late[OF st1] unfolding l p answer_ok_set[OF same] .
    next
      case False
      then have w: "q \<in> wi_request_id ` set ws" and p: "part q (recorded (b # bs)) \<noteq> []" using mem by (simp_all add: split)
      show ?thesis
      proof (cases "part q (recorded bs) = []")
        case True
        then have a: "answerable st1" using pend False by simp
        have "set (map wi_slice (part q (rev ws @ D))) = set (map wi_slice (part q (D @ recorded (b # bs))))"
          using True by (simp add: split) blast
        then have "answer_ok (outs q) (map wi_slice (part q (D @ recorded (b # bs)))) (response_of st1)"
          using a1[OF st1 w a] answer_ok_set by blast
        then show ?thesis using late[OF st1] True log w a p by simp
      next
        case left: False
        then have "answers_of q t1 = answers_of q t" using pend False log by simp
        then show ?thesis using late[OF st1] left p answer_ok_set[OF same] by simp
      qed
    qed
  qed
  moreover have "record_batches (b # bs) t = (None, t')" using t1 t' by (simp add: b)
  ultimately show ?case by blast
qed

subsection \<open>The round trip\<close>

text \<open>A request that was just registered: the workflows \<open>W\<close> of a submission are pending, nothing is recorded.\<close>

definition awaits :: "(json \<Rightarrow> string) \<Rightarrow> entry list \<Rightarrow> workflow_item list \<Rightarrow> request_state \<Rightarrow> bool" where
  "awaits hash es W st \<longleftrightarrow>
     (\<exists>s. slice_submission hash es = Inr s \<and> mset (map wi_slice W) = mset (map snd (sb_slices s)))
   \<and> distinct (map wi_id W) \<and> rq_pending st = wi_id ` set W \<and> rq_ready st \<and> rq_output_buffers st = []
   \<and> rq_history_buffers st = [] \<and> rq_error_info st = None \<and> rq_list_lambda st = []"

lemma awaits_clean:
  assumes "awaits hash es W st" "\<forall>e \<in> set es. 0 < max_len (en_inputs e)" "\<forall>w \<in> set W. outputs_fit outs (wi_slice w)"
  shows "clean outs [] W st"
proof -
  obtain s where s: "slice_submission hash es = Inr s" "mset (map wi_slice W) = mset (map snd (sb_slices s))"
    using assms(1) by (auto simp: awaits_def)
  have "tiling (map wi_slice W)"
    using slice_submission_tiling[OF s(1) assms(2)] tiling_mset[OF s(2)] by simp
  moreover have "holds outs [] []" by (simp add: holds_def)
  ultimately show ?thesis using assms(1,3) by (simp add: awaits_def clean_def)
qed

lemma slices_roundtrip_aux:
  assumes del: "\<forall>(ws, oc) \<in> set bs. \<forall>w \<in> set ws. delivers outs oc w"
    and reqs: "\<forall>q \<in> wi_request_id ` set (recorded bs). \<exists>st. map_of (rt_requests t) q = Some st
      \<and> awaits hash (es q) (part q (recorded bs)) st"
    and rows: "\<forall>q \<in> wi_request_id ` set (recorded bs). \<forall>e \<in> set (es q). 0 < max_len (en_inputs e)"
    and fit: "\<forall>w \<in> set (recorded bs). outputs_fit (outs (wi_request_id w)) (wi_slice w)"
    and r: "r \<in> wi_request_id ` set (recorded bs)"
  shows "\<exists>t' resp. record_batches bs t = (None, t') \<and> answers_of r t' = answers_of r t @ [resp]
    \<and> answer_ok (outs r) (map wi_slice (part r (recorded bs))) resp"
proof -
  have "clean_table outs [] (recorded bs) (rt_requests t)"
  proof (rule clean_tableI)
    fix q st assume q: "map_of (rt_requests t) q = Some st" and m: "q \<in> wi_request_id ` set ([] @ recorded bs)"
    then have q': "q \<in> wi_request_id ` set (recorded bs)" by simp
    then have a: "awaits hash (es q) (part q (recorded bs)) st" using reqs q by fastforce
    have "\<forall>e \<in> set (es q). 0 < max_len (en_inputs e)" using rows q' by blast
    moreover have "\<forall>w \<in> set (part q (recorded bs)). outputs_fit (outs q) (wi_slice w)" using fit by (auto simp: part_def)
    ultimately show "clean (outs q) (part q []) (part q (recorded bs)) st" using awaits_clean[OF a] by simp
  qed
  then obtain t' where t': "record_batches bs t = (None, t')" and log: "\<And>q st. map_of (rt_requests t) q = Some st \<Longrightarrow>
    (if part q (recorded bs) = [] then answers_of q t' = answers_of q t
     else \<exists>resp. answers_of q t' = answers_of q t @ [resp]
       \<and> answer_ok (outs q) (map wi_slice (part q ([] @ recorded bs))) resp)"
    using record_batches_clean[OF del] by blast
  obtain st where st: "map_of (rt_requests t) r = Some st" using reqs r by blast
  have "part r (recorded bs) \<noteq> []" using r by (auto simp: part_def filter_empty_conv)
  then show ?thesis using log[OF st] t' by auto
qed

text \<open>
  C38. Cutting the inputs of submissions into slices and merging the results of the slices is the
  identity on the outputs: if every request's workflows are the slices of a submission whose entries all
  have rows, and the batches, in whatever grouping (mixing requests or not) and whatever order, deliver for
  each slice its rows of the outputs, then recording the batches raises nothing and every request
  gets exactly one answer, without errors, with exactly the outputs over all rows.
\<close>

theorem slices_roundtrip:
  assumes "\<forall>(ws, oc) \<in> set bs. \<forall>w \<in> set ws. delivers outs oc w"
    and "\<forall>q \<in> wi_request_id ` set (recorded bs). \<exists>st. map_of (rt_requests t) q = Some st
      \<and> awaits hash (es q) (part q (recorded bs)) st"
    and "\<forall>q \<in> wi_request_id ` set (recorded bs). \<forall>e \<in> set (es q). 0 < max_len (en_inputs e)"
    and "\<forall>w \<in> set (recorded bs). outputs_fit (outs (wi_request_id w)) (wi_slice w)"
    and "r \<in> wi_request_id ` set (recorded bs)"
  shows "\<exists>t' resp. record_batches bs t = (None, t') \<and> answers_of r t' = answers_of r t @ [resp]
    \<and> rp_error_info resp = None
    \<and> (\<forall>g k. out_view (rp_outputs resp) g k =
         (if g \<in> public_name ` set (part r (recorded bs)) then map_of (outs r g) k else None))"
proof -
  have g: "(\<exists>sm \<in> set (map wi_slice W). sm_public_graph_name sm = g) \<longleftrightarrow> g \<in> public_name ` set W" for W g
    by (auto simp: public_name_def)
  show ?thesis
    using slices_roundtrip_aux[OF assms] unfolding answer_ok_def complete_outputs_def g by blast
qed

subsection \<open>A concrete request\<close>

definition demo_hash :: "json \<Rightarrow> string" where
  "demo_hash j = ''h''"

definition demo_entry :: entry where
  "demo_entry = \<lparr>en_name = Some ''g'', en_payload = JDict [], en_inputs = [(''x'', [''a'', ''b'', ''c'']), (''y'', [''k''])],
     en_batch_size = Some 2\<rparr>"

definition demo_slice :: "int \<Rightarrow> int \<Rightarrow> int \<Rightarrow> slice_meta" where
  "demo_slice i start len = \<lparr>sm_public_graph_name = ''g'', sm_slice_index = i, sm_slice_start = start,
     sm_slice_length = len, sm_total_length = 3, sm_template_hash = ''h'', sm_varying_input_keys = [''x'']\<rparr>"

definition demo_graph :: runtime_graph where
  "demo_graph = \<lparr>rg_nodes = [], rg_node_order = [], rg_output_node_map = [], rg_output_paths = [], rg_dsl_to_runtime = []\<rparr>"

definition demo_item :: "string \<Rightarrow> string \<Rightarrow> slice_meta \<Rightarrow> workflow_item" where
  "demo_item r wid sm = (item0 wid ''u'' 0 demo_graph)\<lparr>wi_request_id := r, wi_slice := sm\<rparr>"

definition demo_request :: "string set \<Rightarrow> request_state" where
  "demo_request pending = \<lparr>rq_config = config0 ''u'', rq_pending = pending, rq_outputs = [], rq_histories = [],
     rq_output_buffers = [], rq_history_buffers = [], rq_workflow_lengths = [], rq_error_info = None,
     rq_task_node_map = [], rq_pending_raw = 0, rq_processing_raw = 0, rq_processing_opt = 0, rq_processed_raw = 0,
     rq_processed_opt = 0, rq_optimization_s = 0, rq_selection_s = 0, rq_clustering_s = 0, rq_dispatches = [],
     rq_batch_counts = [], rq_total_items = 3, rq_completed_items = 0, rq_successful = {}, rq_list_lambda = [],
     rq_ready = True\<rparr>"

definition demo_outcome :: "(string, string payload) dict \<Rightarrow> batch_outcome" where
  "demo_outcome outs = \<lparr>bo_outputs = outs, bo_histories = [], bo_error = None, bo_batch_id = Some ''b'',
     bo_task_node_map = [], bo_cancelled = {}, bo_execution_id = Some ''e''\<rparr>"

definition demo_w1 :: workflow_item where "demo_w1 = demo_item ''r'' ''w1'' (demo_slice 0 0 2)"
definition demo_w2 :: workflow_item where "demo_w2 = demo_item ''r'' ''w2'' (demo_slice 1 2 1)"

definition demo_batches :: "(workflow_item list \<times> batch_outcome) list" where
  "demo_batches = [([demo_w2], demo_outcome [(''w2'', [(''o'', [Some ''C''])])]),
     ([demo_w1], demo_outcome [(''w1'', [(''o'', [Some ''A'', Some ''B''])])])]"

definition demo_table :: request_table where
  "demo_table = \<lparr>rt_requests = [(''r'', demo_request {''w1'', ''w2''})], rt_answers = []\<rparr>"

lemmas demo_defs = demo_w1_def demo_w2_def demo_item_def demo_slice_def item0_def demo_request_def demo_outcome_def

lemma demo_recorded: "recorded demo_batches = [demo_w2, demo_w1]"
  by (simp add: recorded_def demo_batches_def)

lemma demo_sliced: "\<exists>s. slice_submission demo_hash [demo_entry] = Inr s
    \<and> map snd (sb_slices s) = [demo_slice 0 0 2, demo_slice 1 2 1]"
proof -
  have "slice_submission demo_hash [demo_entry] = Inr \<lparr>sb_specs =
     [(''g__slice_1'', \<lparr>gs_graph = JDict [], gs_inputs = [(''x'', [''a'', ''b'']), (''y'', [''k''])]\<rparr>),
      (''g__slice_2'', \<lparr>gs_graph = JDict [], gs_inputs = [(''x'', [''c'']), (''y'', [''k''])]\<rparr>)],
     sb_slices = [(''g__slice_1'', demo_slice 0 0 2), (''g__slice_2'', demo_slice 1 2 1)]\<rparr>" by code_simp
  then show ?thesis by simp
qed

theorem slices_roundtrip_witness:
  "\<exists>t' resp. record_batches demo_batches demo_table = (None, t')
    \<and> answers_of ''r'' t' = answers_of ''r'' demo_table @ [resp] \<and> rp_error_info resp = None
    \<and> (\<forall>g k. out_view (rp_outputs resp) g k =
         (if g \<in> public_name ` set (part ''r'' (recorded demo_batches))
          then map_of [(''o'', [''A'', ''B'', ''C''])] k else None))"
proof (rule slices_roundtrip[where outs = "\<lambda>_ _. [(''o'', [''A'', ''B'', ''C''])]" and es = "\<lambda>_. [demo_entry]"
      and hash = demo_hash])
  show "\<forall>(ws, oc) \<in> set demo_batches. \<forall>w \<in> set ws. delivers (\<lambda>_ _. [(''o'', [''A'', ''B'', ''C''])]) oc w"
    by (simp add: demo_batches_def delivers_def demo_defs slice_payload_def slice_values_def)
  have "awaits demo_hash [demo_entry] [demo_w2, demo_w1] (demo_request {''w1'', ''w2''})"
    using demo_sliced by (auto simp: awaits_def demo_defs)
  then show "\<forall>q \<in> wi_request_id ` set (recorded demo_batches). \<exists>st. map_of (rt_requests demo_table) q = Some st
      \<and> awaits demo_hash [demo_entry] (part q (recorded demo_batches)) st"
    by (simp add: demo_recorded demo_table_def) (simp add: demo_w1_def demo_w2_def demo_item_def)
  show "\<forall>q \<in> wi_request_id ` set (recorded demo_batches). \<forall>e \<in> set [demo_entry]. 0 < max_len (en_inputs e)"
    by (simp add: demo_entry_def max_len_def)
  show "\<forall>w \<in> set (recorded demo_batches). outputs_fit (\<lambda>_. [(''o'', [''A'', ''B'', ''C''])]) (wi_slice w)"
    by (simp add: demo_recorded outputs_fit_def demo_defs)
  show "''r'' \<in> wi_request_id ` set (recorded demo_batches)"
    by (simp add: demo_recorded) (simp add: demo_defs)
qed

theorem answers_exact_witness:
  "\<exists>t' st'. handle_batch_results [demo_w2, demo_w1] (demo_outcome []) demo_table = (None, t')
    \<and> map_of (rt_requests t') ''r'' = Some st' \<and> rq_pending st' = {} \<and> answers_of ''r'' t' = [response_of st']"
proof -
  obtain t' where t': "handle_batch_results [demo_w2, demo_w1] (demo_outcome []) demo_table = (None, t')"
  proof -
    have "fst (handle_batch_results [demo_w2, demo_w1] (demo_outcome []) demo_table) = None" by code_simp
    then show thesis using that by (metis prod.collapse)
  qed
  have r: "map_of (rt_requests demo_table) ''r'' = Some (demo_request {''w1'', ''w2''})" by (simp add: demo_table_def)
  have ids: "ids_of_request ''r'' [demo_w2, demo_w1] = {''w1'', ''w2''}"
    by code_simp
  obtain st' where st': "map_of (rt_requests t') ''r'' = Some st'" "rq_pending st' = {}"
    and log: "answers_of ''r'' t' = answers_of ''r'' demo_table
       @ (if ''r'' \<in> wi_request_id ` set [demo_w2, demo_w1] \<and> rq_pending st' = {} \<and> rq_ready st' then [response_of st'] else [])"
    and "rq_ready st'"
    using answers_exact[OF t', of "''r''"] handle_batch_results_lookup(2)[OF t' r] unfolding r ids
    by (auto simp: demo_request_def)
  have "''r'' \<in> wi_request_id ` set [demo_w2, demo_w1]" by (simp add: demo_defs)
  then have "answers_of ''r'' t' = [response_of st']"
    using log st' \<open>rq_ready st'\<close> by (simp add: answers_of_def demo_table_def)
  with t' st' show ?thesis by blast
qed

subsection \<open>What failing an unplaceable workflow does not do\<close>

text \<open>
  \<open>_fail_unplaceable_batch\<close> answers once per workflow of a request instead of once per request, and it does not
  finalize the state: what other workflows of the request delivered before stays in the buffers and
  is missing from the answer.
\<close>

definition demo_config :: server_config where
  "demo_config = \<lparr>sc_cpu_group = 1, sc_gpu_group = 1\<rparr>"

lemma unplaceable_answers_twice:
  "length (answers_of ''r'' (fail_unplaceable demo_config [demo_w1, demo_w2] demo_table)) = 2"
  by code_simp

lemma unplaceable_drops_outputs:
  "let t = snd (handle_batch_results [demo_w2] (demo_outcome [(''w2'', [(''o'', [Some ''C''])])]) demo_table);
       t' = fail_unplaceable demo_config [demo_w1] t
   in map rp_outputs (answers_of ''r'' t') = [[]]
    \<and> map_option (\<lambda>st. rq_output_buffers st) (map_of (rt_requests t') ''r'') = Some [(''g'', [(''o'', [None, None, Some ''C''])])]"
  by code_simp

end
