(* ===== verification/Server_Isolation.thy ===== *)
theory Server_Isolation
  imports Server_Accounts Server_Roundtrip
begin

section \<open>A batch settles everything\<close>

text \<open>
  The property of \<open>_run_batch\<close>: the lemmas of the accounts put together, and a batch of two requests that
  the runtime service fails, so that each request runs again alone.
\<close>

text \<open>
  C39. A run of a batch settles everything, whatever the runtime service, the optimizer process, the graph
  builder and the cancellations of every run and re-run do: if the requests hold the nodes the batch
  takes and the batch ids are fresh, \<open>_run_batch\<close> raises nothing, releases all its workers, forgets all
  its workflows in the job manager, removes exactly them from what is pending, answers each of its
  requests exactly once, and only when nothing of it is left pending, moves either all the nodes a request
  has in the batch from pending to processed or none of them, which a cancellation can cause (each node
  once, also across isolated re-runs), leaves none in processing and touches no count of any other request.
\<close>

theorem run_batch_settles:
  assumes "\<forall>i. can_run (fst (snd (runs i))) ws (requests wd)"
  shows "\<exists>wd'. run_batch runs workers ws wd = (None, wd') \<and> wd_busy wd' = wd_busy wd - set workers
    \<and> wd_jm wd' = finalize_workflows (map wi_id ws) (wd_jm wd)
    \<and> (\<forall>r st. map_of (requests wd) r = Some st \<longrightarrow> (\<exists>st'. map_of (requests wd') r = Some st'
        \<and> rq_pending st' = rq_pending st - ids_of_request r ws \<and> rq_ready st' = rq_ready st
        \<and> (\<exists>resp. answers_of r (wd_table wd') = answers_of r (wd_table wd)
             @ (if r \<in> requests_of ws \<and> rq_pending st' = {} \<and> rq_ready st' then [resp] else []))
        \<and> (if r \<in> requests_of ws then conserved (nodes_of r ws) st st' else same_counts st st')))"
proof -
  obtain wd' where run: "run_batch runs workers ws wd = (None, wd')" "wd_busy wd' = wd_busy wd - set workers"
      "wd_jm wd' = finalize_workflows (map wi_id ws) (wd_jm wd)"
    and rec: "recorded_rel ws (wd_table wd) (wd_table wd')" and acc: "accounts ws (requests wd) (requests wd')"
    using run_batch_rel[where runs = runs and ws = ws and wd = wd and workers = workers] assms by blast
  have "\<exists>st'. map_of (requests wd') r = Some st' \<and> rq_pending st' = rq_pending st - ids_of_request r ws \<and> rq_ready st' = rq_ready st
        \<and> (\<exists>resp. answers_of r (wd_table wd') = answers_of r (wd_table wd)
             @ (if r \<in> requests_of ws \<and> rq_pending st' = {} \<and> rq_ready st' then [resp] else []))
        \<and> (if r \<in> requests_of ws then conserved (nodes_of r ws) st st' else same_counts st st')"
    if st: "map_of (requests wd) r = Some st" for r st
    using recorded_relD(2)[OF rec st] accountsD[OF acc st] by (metis option.inject)
  then show ?thesis using run by blast
qed

subsection \<open>A batch that is isolated\<close>

definition demo_node :: runtime_graph where
  "demo_node = \<lparr>rg_nodes = [(''n'', op0 ''n'' [])], rg_node_order = [''n''], rg_output_node_map = [(''o'', ''n'')],
     rg_output_paths = [], rg_dsl_to_runtime = []\<rparr>"

definition demo_env :: run_env where
  "demo_env = \<lparr>re_cancelled = (\<lambda>_. {}), re_exec_cancelled = (\<lambda>_. False), re_profile = (\<lambda>_. Some []),
     re_build = (\<lambda>_ _. Inr demo_graph), re_profile_data = Inr (JDict []), re_schedule = Inr [(''w'', [])],
     re_schedule_s = 0, re_execute = (\<lambda>_ _ _. Inl (Some ''boom'')), re_relocate = (\<lambda>_ p. p),
     re_relocate_history = (\<lambda>_ p. p), re_submitted = [], re_now = 0\<rparr>"

definition demo_runs :: "nat \<Rightarrow> run_env \<times> string \<times> string" where
  "demo_runs i = (demo_env, ''batch'' @ nat_str i, ''exec'' @ nat_str i)"

definition demo_ws :: "workflow_item list" where
  "demo_ws = [(demo_item ''r'' ''w1'' (demo_slice 0 0 2))\<lparr>wi_graph := demo_node\<rparr>, demo_item ''s'' ''w2'' (demo_slice 0 0 2)]"

definition demo_world :: world where
  "demo_world = \<lparr>wd_table = \<lparr>rt_requests = [(''r'', (demo_request {''w1''})\<lparr>rq_pending_raw := 1\<rparr>), (''s'', demo_request {''w2''}),
       (''t'', demo_request {''w3''})], rt_answers = []\<rparr>,
     wd_busy = {''w'', ''v''}, wd_jm = jm_init Fifo_Policy, wd_cache = [], wd_contexts = [], wd_executions = [], wd_history = [],
     wd_unreleased = []\<rparr>"

lemma demo_isolates:
  "map (map wi_id) (fst (snd (run_inner demo_env [''w''] ''b'' ''e'' True True demo_ws demo_world))) = [[''w1''], [''w2'']]"
  by code_simp

theorem run_batch_settles_witness:
  "\<exists>wd'. run_batch demo_runs [''w''] demo_ws demo_world = (None, wd') \<and> wd_busy wd' = {''v''}
    \<and> (\<exists>st'. map_of (requests wd') ''r'' = Some st' \<and> rq_pending st' = {} \<and> rq_processing_raw st' = 0
        \<and> rq_pending_raw st' + rq_processed_raw st' = 1 \<and> length (answers_of ''r'' (wd_table wd')) = 1)
    \<and> (\<exists>st'. map_of (requests wd') ''t'' = Some st' \<and> rq_pending st' = {''w3''} \<and> answers_of ''t'' (wd_table wd') = [])"
proof -
  have wis: "requests_of demo_ws = {''r'', ''s''}" "ids_of_request ''r'' demo_ws = {''w1''}" "ids_of_request ''t'' demo_ws = {}"
    by (simp_all add: demo_ws_def demo_item_def item0_def ids_of_request_def)
  have nodes: "nodes_of ''r'' demo_ws = 1" "nodes_of ''s'' demo_ws = 0"
    by (simp_all add: demo_ws_def demo_item_def item0_def nodes_of_def node_count_def demo_node_def demo_graph_def)
  have tab: "map_of (requests demo_world) ''r'' = Some ((demo_request {''w1''})\<lparr>rq_pending_raw := 1\<rparr>)"
    "map_of (requests demo_world) ''s'' = Some (demo_request {''w2''})"
    "map_of (requests demo_world) ''t'' = Some (demo_request {''w3''})" "wd_busy demo_world = {''w'', ''v''}"
    "answers_of q (wd_table demo_world) = []" for q
    by (simp_all add: demo_world_def answers_of_def)
  have "\<forall>i. can_run (fst (snd (demo_runs i))) demo_ws (requests demo_world)"
    by (simp add: can_run_def wis nodes tab demo_request_def)
  from run_batch_settles[OF this, where workers = "[''w'']"] obtain wd' where
    run: "run_batch demo_runs [''w''] demo_ws demo_world = (None, wd')" "wd_busy wd' = {''v''}"
    and req: "\<And>r st. map_of (requests demo_world) r = Some st \<Longrightarrow> \<exists>st'. map_of (requests wd') r = Some st'
        \<and> rq_pending st' = rq_pending st - ids_of_request r demo_ws \<and> rq_ready st' = rq_ready st
        \<and> (\<exists>resp. answers_of r (wd_table wd')
             = (if r \<in> requests_of demo_ws \<and> rq_pending st' = {} \<and> rq_ready st' then [resp] else []))
        \<and> (if r \<in> requests_of demo_ws then conserved (nodes_of r demo_ws) st st' else same_counts st st')"
    unfolding tab by auto
  obtain a where a: "map_of (requests wd') ''r'' = Some a" "rq_pending a = {}" "rq_processing_raw a = 0"
    "rq_pending_raw a + rq_processed_raw a = 1"
    "length (answers_of ''r'' (wd_table wd')) = 1"
    using req[OF tab(1)] by (auto simp: wis demo_request_def conserved_def)
  obtain c where c: "map_of (requests wd') ''t'' = Some c" "rq_pending c = {''w3''}" "answers_of ''t'' (wd_table wd') = []"
    using req[OF tab(3)] by (auto simp: wis demo_request_def)
  show ?thesis using run a c by simp
qed

end
