(* ===== verification/Job_Manager_Props.thy ===== *)
theory Job_Manager_Props
  imports Job_Manager_Run
begin

section \<open>Properties of the job manager\<close>

text \<open>The properties of the job manager, with example runs that apply them.\<close>

subsection \<open>An example\<close>

definition jm_config0 :: jm_config where
  "jm_config0 = \<lparr>jc_quantum = (\<lambda>_. 2), jc_starvation_limit = 3, jc_default_optimizer = ''halo'', jc_cpu_group = 0,
     jc_gpu_group = 0, jc_dwell_observations = 1, jc_dwell_seconds = 0, jc_capacity_aware = False,
     jc_meets_hardware = (\<lambda>_ _. True), jc_cost = cost_env0\<rparr>"

definition job0 :: "string \<Rightarrow> job" where
  "job0 user = \<lparr>jb_request_id = ''r'', jb_graphs = [(''g'', graph0 []), (''h'', graph0 [])],
     jb_profile_graphs = [(''g'', graph0 []), (''h'', graph0 [])], jb_slices = [(''g'', slice0), (''h'', slice0)],
     jb_config = config0 user, jb_dispatch_token = None, jb_credential_digest = None, jb_requires_gpu = []\<rparr>"

definition jm_state0 :: jm_state where
  "jm_state0 = snd (enqueue jm_config0 (job0 ''u'') 0 [''a'', ''b''] (jm_init Fifo_Policy))"

definition item_a :: workflow_item where
  "item_a = (item0 ''a'' ''u'' 0 (graph0 []))\<lparr>wi_request_id := ''r'', wi_graph_name := ''g''\<rparr>"

definition item_b :: workflow_item where
  "item_b = (item0 ''b'' ''u'' 0 (graph0 []))\<lparr>wi_request_id := ''r'', wi_graph_name := ''h''\<rparr>"

definition part_u :: partition where
  "part_u = (''u'', None, None, ''halo'', (None, None, None, None, None), None)"

lemma jm_items0: "items_of_job (job0 ''u'') 0 (jb_graphs (job0 ''u'')) [''a'', ''b''] = Inr [item_a, item_b]"
  by (simp add: job0_def item_a_def item_b_def item0_def)

lemma item_ab [simp]: "wi_id item_a = ''a''" "wi_id item_b = ''b''" "user_of item_a = ''u''" "user_of item_b = ''u''"
  "rc_priority (wi_config item_a) = MEDIUM" "rc_priority (wi_config item_b) = MEDIUM"
  "partition_of jm_config0 item_a = part_u" "partition_of jm_config0 item_b = part_u"
  "wi_miss_count item_a = 0" "wi_miss_count item_b = 0" "wi_enqueued_at item_a = 0" "wi_enqueued_at item_b = 0"
  by (simp_all add: item_a_def item_b_def item0_def user_of_def config0_def partition_of_def part_u_def jm_config0_def
      or_default_def hardware_signature_def)

lemma jm_state0_eq:
  "jm_state0 = \<lparr>jm_queues = (\<lambda>_. [])(MEDIUM := [(''u'', [item_a, item_b])]), jm_rr_users = (\<lambda>_. [])(MEDIUM := [''u'']),
      jm_rr_order = [part_u], jm_rr_members = {part_u}, jm_items = [(''a'', item_a), (''b'', item_b)],
      jm_not_empty = True, jm_active = None, jm_serial = 0, jm_since = [], jm_count = [], jm_policy = Fifo_Policy\<rparr>"
  by (simp add: jm_state0_def enqueue_def jm_items0 enqueue_item_def jm_init_def push_group_def Let_def)

lemma reserve0:
  "\<exists>r. reserve_batch jm_config0 1 None jm_state0 = (Inr (Some r), jm_state0\<lparr>jm_active := Some r, jm_serial := 1\<rparr>)
     \<and> bs_workflows (rs_selection r) = [item_a] \<and> rp_selected (rs_payload r) = [''a''] \<and> rp_miss_targets (rs_payload r) = [''b'']"
proof -
  have "starved jm_config0 item_a = False" "starved jm_config0 item_b = False" by (simp_all add: starved_def jm_config0_def)
  moreover have all: "all_items jm_state0 = [item_a, item_b]" by (simp add: jm_state0_eq all_items_eq)
  moreover have m: "matches jm_config0 part_u item_a" "matches jm_config0 part_u item_b"
    using matches_iff[of jm_config0 item_a item_a] matches_iff[of jm_config0 item_a item_b] by simp_all
  have "queues_ok jm_state0" by (simp add: queues_ok_def queue_ok_def jm_state0_eq)
  then obtain prs where "build_pool jm_config0 part_u priorities jm_state0 = ([item_a, item_b], prs, jm_state0)"
    using build_pool_eq[of jm_state0 jm_config0 part_u priorities] m
    by (auto simp: pool_def user_lists_def jm_state0_eq priorities_def jm_config0_def dict_get_def)
  moreover have "pick_partition [part_u] jm_state0 = (Some part_u, jm_state0)"
    by (simp add: pick_partition_def jm_state0_eq)
  moreover have "policy_select (jc_cost jm_config0, Fifo_Policy) [item_a, item_b] 1 = Inr [''a'']"
    by (simp add: fifo_select_def ranked_select_def fifo_rank_def)
  moreover have "jm_active jm_state0 = None" "jm_policy jm_state0 = Fifo_Policy" "jm_serial jm_state0 = 0"
    by (simp_all add: jm_state0_eq)
  ultimately show ?thesis
    by (simp add: reserve_batch_def present_partitions_def choose_anchor_def Let_def select_ids_def batch_of_def)
qed

lemma jm_state0_reached:
  "jm_reachable jm_config0 \<lparr>jr_state = jm_state0, jr_seen = [''a'', ''b''], jr_dispatched = [], jr_removed = [], jr_issued = []\<rparr>"
proof -
  let ?R = "run_init Fifo_Policy"
  have e: "enqueue jm_config0 (job0 ''u'') 0 [''a'', ''b''] (jr_state ?R) = (Inr [item_a, item_b], jm_state0)"
    by (simp add: jm_state0_def enqueue_def jm_items0 run_init_def)
  have "length (jb_graphs (job0 ''u'')) = 2" by (simp add: job0_def)
  then have "jm_step jm_config0 ?R (?R\<lparr>jr_state := jm_state0, jr_seen := jr_seen ?R @ map wi_id [item_a, item_b]\<rparr>)"
    by (intro step_enqueue[OF e]) (simp_all add: run_init_def)
  from reach_step[OF reach_init this] show ?thesis by (simp add: run_init_def)
qed

lemma jm_inv0: "jm_inv jm_config0 jm_state0"
  using reachable_run_inv[OF jm_state0_reached] by (simp add: run_inv_def)

lemma all_items0: "all_items jm_state0 = [item_a, item_b]"
  by (simp add: jm_state0_eq all_items_eq)

text \<open>The run that reserves and commits a first batch.\<close>

lemma committed_reached:
  "\<exists>r t. reserve_batch jm_config0 1 None jm_state0 = (Inr (Some r), jm_state0\<lparr>jm_active := Some r, jm_serial := 1\<rparr>)
     \<and> commit_reservation jm_config0 r (jm_state0\<lparr>jm_active := Some r, jm_serial := 1\<rparr>) = (None, t)
     \<and> rp_selected (rs_payload r) = [''a''] \<and> rp_miss_targets (rs_payload r) = [''b'']
     \<and> jm_reachable jm_config0 \<lparr>jr_state = t, jr_seen = [''a'', ''b''], jr_dispatched = [''a''], jr_removed = [], jr_issued = [r]\<rparr>"
proof -
  obtain r where r: "reserve_batch jm_config0 1 None jm_state0 = (Inr (Some r), jm_state0\<lparr>jm_active := Some r, jm_serial := 1\<rparr>)"
    "bs_workflows (rs_selection r) = [item_a]" "rp_selected (rs_payload r) = [''a'']" "rp_miss_targets (rs_payload r) = [''b'']"
    using reserve0 by blast
  let ?s = "jm_state0\<lparr>jm_active := Some r, jm_serial := 1\<rparr>"
  have "jm_policy ?s = Fifo_Policy" by (simp add: jm_state0_eq)
  then obtain t where t: "commit_reservation jm_config0 r ?s = (None, t)"
    by (simp add: commit_reservation_def is_active_def Let_def)
  let ?R = "\<lparr>jr_state = jm_state0, jr_seen = [''a'', ''b''], jr_dispatched = [], jr_removed = [], jr_issued = []\<rparr>"
  have "jm_step jm_config0 ?R (?R\<lparr>jr_state := ?s, jr_issued := (case Inr (Some r) :: reservation option result of Inr (Some r) \<Rightarrow> [r] | _ \<Rightarrow> []) @ jr_issued ?R\<rparr>)"
    by (rule step_reserve[of jm_config0 1 None ?R "Inr (Some r)" ?s]) (simp add: r(1))
  from reach_step[OF jm_state0_reached this]
  have R1: "jm_reachable jm_config0 (?R\<lparr>jr_state := ?s, jr_issued := [r]\<rparr>)" (is "jm_reachable _ ?R1") by simp
  have "jm_step jm_config0 ?R1 (?R1\<lparr>jr_state := t, jr_dispatched := jr_dispatched ?R1 @ (if (None :: py_error option) = None then rp_selected (rs_payload r) else [])\<rparr>)"
    using t by (intro step_commit) simp_all
  from reach_step[OF R1 this] t r show ?thesis by (intro exI[of _ r] exI[of _ t]) simp
qed

subsection \<open>Reserving\<close>

text \<open>
  C17. \<open>_peek_round_robin_for_partition_locked\<close> walks the users of a priority in rounds, taking the next
  item of each: what it returns is the transposition of the users' lists, cut at the limit, and
  peeking changes nothing.
\<close>

theorem peek_is_round_robin:
  assumes "jm_inv cfg s"
  shows "fst (peek cfg pr limit p s) = take limit (concat (transpose (user_lists cfg pr p s)))
     \<and> snd (snd (peek cfg pr limit p s)) = s"
proof -
  have "queue_ok pr (jm_queues s pr) (jm_rr_users s pr)" using assms by (simp add: jm_inv_def queues_ok_def)
  from peek_eq[OF this, of cfg limit p] show ?thesis by auto
qed

theorem peek_is_round_robin_witness:
  "fst (peek jm_config0 MEDIUM 1 part_u jm_state0) = [item_a]"
proof -
  have "matches jm_config0 part_u item_a" "matches jm_config0 part_u item_b"
    using matches_iff[of jm_config0 item_a item_a] matches_iff[of jm_config0 item_a item_b] by simp_all
  then show ?thesis
    using peek_is_round_robin[OF jm_inv0, of MEDIUM 1 part_u]
    by (simp add: user_lists_def jm_state0_eq dict_get_def)
qed

text \<open>
  C18. A reservation of \<open>reserve_batch\<close> is a non-empty batch of at most \<open>batch_size\<close> queued items,
  none twice, all of one partition the capacity can run; the candidates passed over are queued items
  of the same partition, and none of them is selected. The queued items stay as they are.
\<close>

theorem reserve_batch_correct:
  assumes "jm_inv cfg s" "reserve_batch cfg b capacity s = (Inr (Some r), t)"
  shows "let its = bs_workflows (rs_selection r); pl = rs_payload r in
      its \<noteq> [] \<and> set its \<subseteq> set (all_items s) \<and> map wi_id its = rp_selected pl \<and> distinct (rp_selected pl)
    \<and> length its \<le> batch_limit b \<and> bs_config (rs_selection r) = wi_config (hd its)
    \<and> (\<exists>p. may_run cfg capacity p \<and> (\<forall>it \<in> set its. partition_of cfg it = p)
         \<and> (\<forall>w \<in> set (rp_miss_targets pl). w \<notin> set (rp_selected pl)
              \<and> (\<exists>it \<in> set (all_items s). wi_id it = w \<and> partition_of cfg it = p)))
    \<and> all_items t = all_items s \<and> jm_active s = None \<and> jm_active t = Some r \<and> jm_inv cfg t"
proof -
  note Q = reserve_queued[OF assms, simplified]
  have ok: "reservation_ok cfg b capacity s r" using Q by simp
  then obtain p where "p \<in> set (runnable cfg capacity s)"
    and p: "\<forall>it \<in> set (bs_workflows (rs_selection r)). partition_of cfg it = p"
      "\<forall>w \<in> set (rp_miss_targets (rs_payload r)). \<exists>it \<in> set (all_items s). wi_id it = w \<and> partition_of cfg it = p"
    unfolding reservation_ok_def Let_def by blast
  then have "may_run cfg capacity p" by (simp add: runnable_iff)
  have "\<forall>w \<in> set (rp_miss_targets (rs_payload r)). w \<notin> set (rp_selected (rs_payload r))"
    using ok unfolding reservation_ok_def Let_def by blast
  then have "\<exists>p. may_run cfg capacity p \<and> (\<forall>it \<in> set (bs_workflows (rs_selection r)). partition_of cfg it = p)
      \<and> (\<forall>w \<in> set (rp_miss_targets (rs_payload r)). w \<notin> set (rp_selected (rs_payload r))
           \<and> (\<exists>it \<in> set (all_items s). wi_id it = w \<and> partition_of cfg it = p))"
    using p \<open>may_run cfg capacity p\<close> by blast
  then show ?thesis using Q ok unfolding reservation_ok_def Let_def by blast
qed

theorem reserve_batch_correct_witness:
  "\<exists>r :: reservation. map wi_id (bs_workflows (rs_selection r)) = [''a''] \<and> length (bs_workflows (rs_selection r)) \<le> batch_limit 1
     \<and> set (bs_workflows (rs_selection r)) \<subseteq> set (all_items jm_state0)"
proof -
  obtain r where r: "reserve_batch jm_config0 1 None jm_state0 = (Inr (Some r), jm_state0\<lparr>jm_active := Some r, jm_serial := 1\<rparr>)"
    "rp_selected (rs_payload r) = [''a'']" using reserve0 by blast
  show ?thesis using reserve_batch_correct[OF jm_inv0 r(1)] r(2) by (intro exI[of _ r]) (simp add: Let_def)
qed

text \<open>
  C19. The queue never idles over runnable work: with positive quantums and no reservation
  outstanding, \<open>reserve_batch\<close> returns no batch exactly when no queued partition can run.
\<close>

theorem reserve_batch_idle_iff:
  assumes "jm_inv cfg s" "jm_active s = None" "\<And>pr. 0 < jc_quantum cfg pr"
  shows "fst (reserve_batch cfg b capacity s) = Inr None
     \<longleftrightarrow> (\<forall>it \<in> set (all_items s). \<not> may_run cfg capacity (partition_of cfg it))"
proof -
  obtain res t where r: "reserve_batch cfg b capacity s = (res, t)" by force
  have busy: "\<exists>it \<in> set (all_items s). may_run cfg capacity (partition_of cfg it) \<and> partition_of cfg it = p"
    if "p \<in> set (runnable cfg capacity s)" for p using that by (auto simp: runnable_iff)
  have idle: "(\<forall>it \<in> set (all_items s). \<not> may_run cfg capacity (partition_of cfg it)) \<longleftrightarrow> runnable cfg capacity s = []"
    by (auto simp: runnable_def filter_empty_conv set_present)
  show ?thesis
    using assms(1,2) r
  proof (cases rule: reserve_cases)
    case (empty p s1)
    obtain it where it: "it \<in> set (all_items s)" "partition_of cfg it = p" using busy[OF empty(1)] by blast
    then have "matches cfg p it" using matches_iff[of cfg it it] by simp
    then show ?thesis using pools_nonempty[OF _ assms(3) it(1), of p] assms(1) empty(2) by (simp add: jm_inv_def)
  qed (use r idle in auto)
qed

theorem reserve_batch_idle_iff_witness:
  "fst (reserve_batch jm_config0 1 None jm_state0) \<noteq> Inr None"
proof -
  have "jm_active jm_state0 = None" by (simp add: jm_state0_eq)
  moreover have "0 < jc_quantum jm_config0 pr" for pr by (simp add: jm_config0_def)
  ultimately show ?thesis
    using reserve_batch_idle_iff[OF jm_inv0, of 1 None] unfolding all_items0 may_run_def by auto
qed

text \<open>
  C20. The errors of \<open>reserve_batch\<close>: the reservation slot is taken, or the scheduling policy raised.
  The lookups of the selected ids and of the first selected item, which the code leaves unguarded,
  never fail; and an error leaves the queued items and the slot as they were.
\<close>

theorem reserve_batch_errors:
  assumes "jm_inv cfg s" "reserve_batch cfg b capacity s = (Inl e, t)"
  shows "(jm_active s \<noteq> None \<and> e = RuntimeError ''outstanding reservation'' \<and> t = s)
     \<or> (jm_active s = None \<and> (\<exists>pol cands. policy_select (jc_cost cfg, pol) cands (batch_limit b) = Inl e
            \<and> distinct (map wi_id cands) \<and> set cands \<subseteq> set (all_items s))
        \<and> all_items t = all_items s \<and> jm_active t = None)"
proof (cases "jm_active s = None")
  case True
  show ?thesis
    using assms(1) True assms(2)
  proof (cases rule: reserve_cases)
    case (failed p s1 pol e')
    then obtain x where x: "p = partition_of cfg x" by (auto simp: runnable_iff)
    have "all_items t = all_items s" using failed(3) same_work_all[OF failed(5)] all_items_cong[of t s1] by simp
    moreover have "jm_active t = None" using failed(3,5) True by (simp add: same_work_def)
    moreover have "e' = e" using failed(2) by simp
    moreover note failed(6) pools_ok[OF assms(1), of p]
    ultimately show ?thesis using True by blast
  qed simp_all
qed (use assms(2) in \<open>auto simp: reserve_batch_def Let_def\<close>)

theorem reserve_batch_errors_witness:
  "\<exists>r :: reservation. jm_active (jm_state0\<lparr>jm_active := Some r\<rparr>) \<noteq> None
     \<and> fst (reserve_batch jm_config0 1 None (jm_state0\<lparr>jm_active := Some r\<rparr>)) = Inl (RuntimeError ''outstanding reservation'')"
proof -
  obtain r :: reservation where "bs_workflows (rs_selection r) = [item_a]" using reserve0 by metis
  let ?s = "jm_state0\<lparr>jm_active := Some r\<rparr>"
  have "jm_inv jm_config0 ?s" using jm_inv0 by simp
  moreover have e: "reserve_batch jm_config0 1 None ?s = (Inl (RuntimeError ''outstanding reservation''), ?s)"
    by (simp add: reserve_batch_def Let_def)
  ultimately have "jm_active ?s \<noteq> None" using reserve_batch_errors by fastforce
  then show ?thesis using e by (intro exI[of _ r]) simp
qed



subsection \<open>Commit, abort, remove\<close>

text \<open>
  C22. A commit dispatches exactly the reserved batch: the selected items leave the queues, every
  candidate passed over has its miss count raised by one, and no other queued item changes.
\<close>

theorem commit_reservation_exact:
  assumes "jm_inv cfg s" "reserve_batch cfg b capacity s = (Inr (Some r), t)" "commit_reservation cfg r t = (None, u)"
  shows "all_items u =
       map (\<lambda>it. if wi_id it \<in> set (rp_miss_targets (rs_payload r)) \<and> wi_id it \<in> fst ` set (jm_items s)
                 then it\<lparr>wi_miss_count := wi_miss_count it + 1\<rparr> else it)
         (filter (\<lambda>it. wi_id it \<notin> set (rp_selected (rs_payload r))) (all_items s))
     \<and> jm_inv cfg u \<and> jm_active u = None"
proof -
  note Q = reserve_queued[OF assms(1,2), simplified]
  have d: "distinct (rp_miss_targets (rs_payload r))" and i: "jm_inv cfg t" and a: "all_items t = all_items s"
    using Q unfolding reservation_ok_def Let_def by blast+
  have items: "jm_items t = jm_items s" using reserve_frame[OF assms(1,2)] by simp
  note C = commit_effect[OF i d assms(3)]
  show ?thesis using C by (simp add: a items missed_def drop_items_def)
qed

theorem commit_reservation_exact_witness:
  "\<exists>u. map wi_id (all_items u) = [''b''] \<and> map wi_miss_count (all_items u) = [1] \<and> jm_active u = None"
proof -
  obtain r t where r: "reserve_batch jm_config0 1 None jm_state0 = (Inr (Some r), jm_state0\<lparr>jm_active := Some r, jm_serial := 1\<rparr>)"
    "commit_reservation jm_config0 r (jm_state0\<lparr>jm_active := Some r, jm_serial := 1\<rparr>) = (None, t)"
    "rp_selected (rs_payload r) = [''a'']" "rp_miss_targets (rs_payload r) = [''b'']"
    using committed_reached by blast
  have "fst ` set (jm_items jm_state0) = {''a'', ''b''}" by (simp add: jm_state0_eq)
  then show ?thesis
    using commit_reservation_exact[OF jm_inv0 r(1,2)] r(3,4) by (intro exI[of _ t]) (simp add: all_items0)
qed

text \<open>
  C23. An aborted reservation leaves the queued items, the users' turns and the miss counts as they were
  before it, and the slot is free; committing or aborting it again is an error that changes nothing.
\<close>

theorem abort_reservation_restores:
  assumes "jm_inv cfg s" "reserve_batch cfg b capacity s = (Inr (Some r), t)"
  shows "\<exists>u. abort_reservation r t = (None, u) \<and> jm_queues u = jm_queues s \<and> jm_rr_users u = jm_rr_users s
     \<and> jm_items u = jm_items s \<and> jm_active u = None \<and> jm_inv cfg u
     \<and> snd (commit_reservation cfg r u) = u \<and> fst (commit_reservation cfg r u) \<noteq> None
     \<and> snd (abort_reservation r u) = u \<and> fst (abort_reservation r u) \<noteq> None"
proof -
  note Q = reserve_queued[OF assms, simplified]
  let ?u = "t\<lparr>jm_active := None\<rparr>"
  have "abort_reservation r t = (None, ?u)" using Q by (simp add: abort_reservation_def is_active_def)
  moreover have "\<not> is_active r ?u" by (simp add: is_active_def)
  ultimately show ?thesis
    using Q reserve_frame[OF assms] by (intro exI[of _ ?u]) (simp add: commit_reservation_def abort_reservation_def)
qed

theorem abort_reservation_restores_witness:
  "\<exists>u :: jm_state. jm_queues u = jm_queues jm_state0 \<and> jm_active u = None \<and> all_items jm_state0 = [item_a, item_b]"
proof -
  obtain r where r: "reserve_batch jm_config0 1 None jm_state0 = (Inr (Some r), jm_state0\<lparr>jm_active := Some r, jm_serial := 1\<rparr>)"
    using reserve0 by blast
  from abort_reservation_restores[OF jm_inv0 r]
  obtain u :: jm_state where "jm_queues u = jm_queues jm_state0 \<and> jm_active u = None" by blast
  then show ?thesis using all_items0 by (intro exI[of _ u]) simp
qed

text \<open>
  \<open>remove_workflows\<close> drops exactly the named workflows from the queues and from \<open>_items\<close>, keeps the
  others in their order, keeps the invariant, and drops the partitions it drained from the round robin.
\<close>

theorem remove_workflows_exact:
  assumes "jm_inv cfg s"
  shows "all_items (remove_workflows cfg wids s) = filter (\<lambda>it. wi_id it \<notin> set wids) (all_items s)
     \<and> map_of (jm_items (remove_workflows cfg wids s)) w = (if w \<in> set wids then None else map_of (jm_items s) w)
     \<and> set (jm_rr_order (remove_workflows cfg wids s)) \<subseteq> partition_of cfg ` set (all_items (remove_workflows cfg wids s))
     \<and> jm_inv cfg (remove_workflows cfg wids s)"
proof -
  let ?t = "remove_workflows cfg wids s"
  note R = remove_workflows_inv[OF assms, of wids]
  note S = drop_and_sweep[OF assms, of "set wids"]
  have "map_of (jm_items ?t) w = (if w \<in> set wids then None else map_of (jm_items s) w)"
  proof (cases "wids = []")
    case False
    then have "jm_items ?t = filter (\<lambda>p. fst p \<notin> set wids) (jm_items s)"
      using S(3) by (simp add: remove_workflows_def finalize_commute) (simp add: finalize_workflows_def case_prod_beta')
    then show ?thesis using map_of_filter_key[of "\<lambda>w. w \<notin> set wids" "jm_items s" w] by simp
  qed (simp add: remove_workflows_def)
  moreover have "set (jm_rr_order ?t) \<subseteq> partition_of cfg ` set (all_items ?t)"
    using R(1) by (simp add: jm_inv_def rr_ok_def)
  ultimately show ?thesis using R by (simp add: drop_items_def)
qed

theorem remove_workflows_exact_witness:
  "map wi_id (all_items (remove_workflows jm_config0 [''a''] jm_state0)) = [''b'']"
  using remove_workflows_exact[OF jm_inv0, of "[''a'']"] by (simp add: all_items0)

subsection \<open>Whole runs\<close>

text \<open>
  C25. Whatever the order of enqueues, reservations, commits, aborts, removals and observations: no
  workflow is dispatched twice, none is queued again after its dispatch, and no workflow id is
  queued twice.
\<close>

theorem dispatched_at_most_once:
  assumes "jm_reachable cfg R"
  shows "distinct (jr_dispatched R) \<and> set (jr_dispatched R) \<inter> wi_id ` set (all_items (jr_state R)) = {}
     \<and> distinct (map wi_id (all_items (jr_state R)))"
  using reachable_run_inv[OF assms] by (auto simp: run_defs queued_ids_def jm_inv_def ids_ok_def)

theorem dispatched_at_most_once_witness:
  "\<exists>t. map wi_id (all_items t) = [''b''] \<and> distinct [''a''] \<and> set [''a''] \<inter> wi_id ` set (all_items t) = {}"
proof -
  obtain r t where r: "reserve_batch jm_config0 1 None jm_state0 = (Inr (Some r), jm_state0\<lparr>jm_active := Some r, jm_serial := 1\<rparr>)"
    "commit_reservation jm_config0 r (jm_state0\<lparr>jm_active := Some r, jm_serial := 1\<rparr>) = (None, t)"
    "rp_selected (rs_payload r) = [''a'']" "rp_miss_targets (rs_payload r) = [''b'']"
    "jm_reachable jm_config0 \<lparr>jr_state = t, jr_seen = [''a'', ''b''], jr_dispatched = [''a''], jr_removed = [], jr_issued = [r]\<rparr>"
    using committed_reached by blast
  have i: "jm_inv jm_config0 (jm_state0\<lparr>jm_active := Some r, jm_serial := 1\<rparr>)" using jm_inv0 by simp
  have "map wi_id (all_items t) = [''b'']"
    using commit_effect(3)[OF i _ r(2)] r(3,4) all_items_cong[of "jm_state0\<lparr>jm_active := Some r, jm_serial := 1\<rparr>" jm_state0]
    by (simp add: all_items0 drop_items_def missed_def)
  then show ?thesis using dispatched_at_most_once[OF r(5)] by (intro exI[of _ t]) simp
qed

text \<open>
  C26. No workflow is lost: each workflow ever enqueued is still queued, or was dispatched by a commit,
  or was named in a removal.
\<close>

theorem no_workflow_lost:
  assumes "jm_reachable cfg R" "w \<in> set (jr_seen R)"
  shows "(\<exists>it \<in> set (all_items (jr_state R)). wi_id it = w) \<or> w \<in> set (jr_dispatched R) \<or> w \<in> set (jr_removed R)"
  using reachable_run_inv[OF assms(1)] assms(2) by (auto simp: run_defs queued_ids_def)

theorem no_workflow_lost_witness:
  "\<exists>it \<in> set (all_items jm_state0). wi_id it = ''b''"
  using no_workflow_lost[OF jm_state0_reached, of "''b''"] by simp

subsection \<open>Unsatisfiable partitions\<close>


subsection \<open>What the code does at the edges\<close>

text \<open>
  A partition at the head of the round robin that is queued but cannot run now is popped for good: it
  is no longer in the order after the reservation, and as long as some partition in the order can run,
  it is not picked again (its items are no candidates, so their miss counts stay as they are).
\<close>

lemma unrunnable_head_evicted:
  assumes "jm_inv cfg s" "starved_queue cfg capacity s = []" "q \<in> set (jm_rr_order s)" "q \<in> set (runnable cfg capacity s)"
    and "choose_anchor cfg (runnable cfg capacity s) (starved_queue cfg capacity s) s = (anchor, adv, t)"
  shows "jm_rr_order t = dropWhile (\<lambda>p. p \<notin> set (runnable cfg capacity s)) (jm_rr_order s)"
    and "p \<notin> set (jm_rr_order s) \<Longrightarrow> anchor \<noteq> p \<and> p \<notin> set (jm_rr_order t)"
proof -
  obtain r u where p: "pick_partition (runnable cfg capacity s) s = (r, u)" by force
  note P = pick_partition_ok[OF assms(1) p]
  have "jm_rr_order u \<noteq> []" unfolding P(5) dropWhile_eq_Nil_conv using assms(3,4) by blast
  then obtain a where a: "r = Some a" "a \<in> set (jm_rr_order u)" using P(3) by (cases "jm_rr_order u") auto
  then have "anchor = a" "t = u" using assms(5) p unfolding choose_anchor_def assms(2) by auto
  then show o: "jm_rr_order t = dropWhile (\<lambda>p. p \<notin> set (runnable cfg capacity s)) (jm_rr_order s)" using P(5) by simp
  have "set (jm_rr_order t) \<subseteq> set (jm_rr_order s)" unfolding o by (blast dest: set_dropWhileD)
  then show "p \<notin> set (jm_rr_order s) \<Longrightarrow> anchor \<noteq> p \<and> p \<notin> set (jm_rr_order t)"
    using a \<open>anchor = a\<close> \<open>t = u\<close> by auto
qed

text \<open>
  The user order is rotated after the drained users were dropped from it: when the head user's last
  item is dispatched, the next user moves to the back without a turn.
\<close>

lemma drained_head_skips_next_user:
  assumes "jm_rr_users s p = u # v # w # us" "distinct (jm_rr_users s p)" "jm_queues s p = (u, q) # uq"
    "fst ` set uq = set (v # w # us)" "set q \<subseteq> {it. wi_id it \<in> W}" "\<forall>(x, q) \<in> set uq. q \<noteq> [] \<and> (\<forall>it \<in> set q. wi_id it \<notin> W)"
  shows "jm_rr_users (advance_user p (drop_from_priority W p s)) p = w # us @ [v]"
proof -
  have q: "filter (\<lambda>it. wi_id it \<notin> W) q = []" using assms(5) by (auto simp: filter_empty_conv)
  have "map (\<lambda>(u, q). (u, filter (\<lambda>it. wi_id it \<notin> W) q)) uq = uq"
    using assms(6) by (intro map_idI) (auto simp: filter_id_conv)
  moreover have "filter (\<lambda>(_, q). q \<noteq> []) uq = uq" using assms(6) by (auto simp: filter_id_conv)
  ultimately have d: "drop_ids W (jm_queues s p) = uq" "filter (\<lambda>(_, q). q \<noteq> []) uq = uq"
    using q by (simp_all add: drop_ids_def assms(3))
  have "u \<notin> fst ` set uq" using assms(1,2,4) by auto
  then have "jm_rr_users (drop_from_priority W p s) p = v # w # us"
    using assms(1,2,4) d by (simp add: drop_from_priority_def prune_def Let_def assms(3) filter_id_conv)
  then show ?thesis by (simp add: advance_user_def)
qed

end
