(* ===== verification/Server_Reachable.thy ===== *)
theory Server_Reachable
  imports Server_System Server_Isolation Job_Manager_Props
begin

section \<open>No request is lost\<close>

text \<open>The property of the whole server, and a run of it from a submission to a dispatch.\<close>

text \<open>
  C40. The server never loses a request. In every state it reaches, whatever the order in which requests
  arrive, batches are reserved, claimed, dispatched or given back, doomed workflows are failed and runs end
  (with any results, failures, cancellations and re-runs): the workers marked busy are exactly
  those of the claim and the runs in progress, and no two of these share a worker; no workflow is held
  twice; the pending workflows of a request are exactly those the server still holds for it, queued or in
  flight, so a request never waits for a workflow nobody has; a request has an answer exactly when it is
  ready and nothing of it is pending, and never more than one unless doomed workflows are failed;
  and an idle scheduler leaves no reservation behind.
\<close>

theorem server_loses_nothing:
  assumes "server_reachable cfg S"
  shows "disjoint_flights (worker_sets S) \<and> wd_busy (sv_world S) = \<Union> (set (map set (worker_sets S)))
    \<and> distinct (map wi_id (held S))
    \<and> (\<forall>w \<in> set (held S). map_of (requests (sv_world S)) (wi_request_id w) \<noteq> None)
    \<and> (\<forall>r st. map_of (requests (sv_world S)) r = Some st \<longrightarrow>
         rq_pending st = {wi_id w | w. w \<in> set (held S) \<and> wi_request_id w = r}
       \<and> (answers_of r (wd_table (sv_world S)) \<noteq> [] \<longleftrightarrow> rq_pending st = {} \<and> rq_ready st)
       \<and> (\<not> jc_capacity_aware (lc_jobs cfg) \<longrightarrow> length (answers_of r (wd_table (sv_world S))) \<le> 1))
    \<and> (sv_stage S = Idle \<longrightarrow> jm_active (wd_jm (sv_world S)) = None)"
proof -
  note I = server_invD[OF server_reachable_inv[OF assms]]
  have ids: "ids_of_request r V = {wi_id w | w. w \<in> set V \<and> wi_request_id w = r}" for r V
    by (auto simp: ids_of_request_def)
  have "rq_pending st = {wi_id w | w. w \<in> set (held S) \<and> wi_request_id w = r}
       \<and> (answers_of r (wd_table (sv_world S)) \<noteq> [] \<longleftrightarrow> rq_pending st = {} \<and> rq_ready st)
       \<and> (\<not> jc_capacity_aware (lc_jobs cfg) \<longrightarrow> length (answers_of r (wd_table (sv_world S))) \<le> 1)"
    if "map_of (requests (sv_world S)) r = Some st" for r st
    using table_okD[OF I(6) that] unfolding request_ok_def ids by blast
  moreover have "\<forall>w \<in> set (held S). map_of (requests (sv_world S)) (wi_request_id w) \<noteq> None"
    using I(6) unfolding table_ok_def by blast
  moreover have "sv_stage S = Idle \<longrightarrow> jm_active (wd_jm (sv_world S)) = None"
    using I(2) by (simp add: stage_ok_def split: loop_stage.splits)
  ultimately show ?thesis using I(3,4) by (simp add: pool_ok_def)
qed

subsection \<open>A run of the server\<close>

definition demo_cfg :: loop_config where
  "demo_cfg = \<lparr>lc_jobs = jm_config0, lc_server = \<lparr>sc_cpu_group = 1, sc_gpu_group = 0\<rparr>, lc_batch_size = 1\<rparr>"

definition demo_free :: free_capacity where
  "demo_free = \<lparr>fc_cpu = [''w''], fc_gpu = [], fc_profiles = [(''w'', [])]\<rparr>"

definition demo_handler :: request_handler where
  "demo_handler = \<lparr>hr_id = ''r'', hr_query = [(''g'', demo_graph)], hr_has_dsl = True, hr_profile_graphs = [(''g'', demo_graph)],
     hr_slices = [(''g'', demo_slice 0 0 3)], hr_config = config0 ''u''\<rparr>"

text \<open>A submission, a reservation, a claim, a commit and a run that the runtime service fails.\<close>

lemma demo_dispatch:
  "case handle_request demo_cfg demo_handler None None 0 [''w1''] (world_init Fifo_Policy) of (e, w1) \<Rightarrow>
     (case reserve_stage demo_cfg demo_free w1 of (Reserved r, w2) \<Rightarrow>
        (case claim_stage demo_cfg demo_free demo_free r w2 of (Claimed q ws, w3) \<Rightarrow>
           (case commit_stage demo_cfg 0 0 q ws w3 of (Some (us, its), w4) \<Rightarrow>
              all_items (wd_jm w4) = [] \<and> map_option rq_ready (map_of (requests w4) ''r'') = Some True
            | _ \<Rightarrow> False) | _ \<Rightarrow> False) | _ \<Rightarrow> False)"
  by code_simp

lemma demo_reachable:
  "\<exists>S. server_reachable demo_cfg S \<and> held S = [] \<and> worker_sets S = []
     \<and> map_option rq_ready (map_of (requests (sv_world S)) ''r'') = Some True"
proof -
  obtain e w1 where 1: "handle_request demo_cfg demo_handler None None 0 [''w1''] (world_init Fifo_Policy) = (e, w1)" by force
  obtain r w2 where 2: "reserve_stage demo_cfg demo_free w1 = (Reserved r, w2)"
    using demo_dispatch unfolding 1 by (auto split: prod.splits loop_stage.splits)
  obtain q ws w3 where 3: "claim_stage demo_cfg demo_free demo_free r w2 = (Claimed q ws, w3)"
    using demo_dispatch unfolding 1 by (auto simp: 2 split: prod.splits loop_stage.splits)
  obtain us its w4 where 4: "commit_stage demo_cfg 0 0 q ws w3 = (Some (us, its), w4)"
    using demo_dispatch unfolding 1 by (auto simp: 2 3 split: prod.splits option.splits)
  have w4: "all_items (wd_jm w4) = []" "map_option rq_ready (map_of (requests w4) ''r'') = Some True"
    using demo_dispatch unfolding 1 by (simp_all add: 2 3 4)
  define S0 where "S0 = server_init Fifo_Policy"
  define S1 where "S1 = S0\<lparr>sv_world := w1, sv_seen := [''w1''] @ sv_seen S0, sv_requests := hr_id demo_handler # sv_requests S0\<rparr>"
  define S2 where "S2 = S1\<lparr>sv_world := w2, sv_stage := Reserved r\<rparr>"
  define S3 where "S3 = S2\<lparr>sv_world := w3, sv_stage := Claimed q ws\<rparr>"
  define S4 where "S4 = S3\<lparr>sv_world := w4, sv_stage := Idle, sv_flights := [(us, its)] @ sv_flights S3\<rparr>"
  note defs = S0_def S1_def S2_def S3_def S4_def server_init_def
  have s1: "server_step demo_cfg S0 S1" unfolding S1_def
    by (rule step_submit) (use 1 in \<open>simp_all add: defs demo_handler_def\<close>)
  have s2: "server_step demo_cfg S1 S2" unfolding S2_def
    by (rule step_select[where free = demo_free]) (use 2 in \<open>simp_all add: defs demo_free_def fc_is_empty_def\<close>)
  have s3: "server_step demo_cfg S2 S3" unfolding S3_def by (rule step_claim) (use 3 in \<open>simp_all add: defs\<close>)
  have "sv_stage S3 = Claimed q ws" "commit_stage demo_cfg 0 0 q ws (sv_world S3) = (Some (us, its), w4)"
    using 4 by (simp_all add: S3_def)
  from step_dispatch[OF this] have s4: "server_step demo_cfg S3 S4" by (simp add: S4_def)
  have "server_reachable demo_cfg S0" unfolding S0_def by (rule reach_start)
  then have reach: "server_reachable demo_cfg S4" using s1 s2 s3 s4 by (meson reach_next)
  have S4: "sv_world S4 = w4" "sv_flights S4 = [(us, its)]" by (simp_all add: defs)
  have "can_run bid its (requests w4)" for bid
    using flight_can_run[OF server_reachable_inv[OF reach], of us its] by (simp add: S4)
  then obtain w5 where w5: "run_batch demo_runs us its w4 = (None, w5)" "recorded_rel its (wd_table w4) (wd_table w5)"
    "wd_jm w5 = finalize_workflows (map wi_id its) (wd_jm w4)"
    using run_batch_rel[where runs = demo_runs and ws = its and wd = w4 and workers = us] by blast
  define S5 where "S5 = S4\<lparr>sv_world := w5, sv_flights := remove1 (us, its) (sv_flights S4)\<rparr>"
  have "server_step demo_cfg S4 S5" unfolding S5_def by (rule step_finish) (use w5(1) in \<open>simp_all add: S4\<close>)
  with reach have "server_reachable demo_cfg S5" by (rule reach_next)
  moreover have "all_items (wd_jm w5) = all_items (wd_jm w4)" by (rule all_items_cong) (simp add: w5(3) finalize_workflows_def)
  then have "held S5 = []" "worker_sets S5 = []" using w4(1) by (simp_all add: S5_def held_def worker_sets_def S4) (simp add: S4_def)
  moreover obtain st where "map_of (requests w4) ''r'' = Some st" "rq_ready st" using w4(2) by auto
  then have "map_option rq_ready (map_of (requests w5) ''r'') = Some True" using recorded_relD(2)[OF w5(2)] by fastforce
  ultimately show ?thesis by (intro exI[of _ S5]) (simp add: S5_def)
qed

theorem server_loses_nothing_witness:
  "\<exists>S :: server. wd_busy (sv_world S) = {} \<and> length (answers_of ''r'' (wd_table (sv_world S))) = 1
     \<and> (\<exists>st. map_of (requests (sv_world S)) ''r'' = Some st \<and> rq_pending st = {})"
proof -
  obtain S st where S: "server_reachable demo_cfg S" "held S = []" "worker_sets S = []"
    "map_of (requests (sv_world S)) ''r'' = Some st" "rq_ready st"
    using demo_reachable by auto
  have "\<not> jc_capacity_aware (lc_jobs demo_cfg)" by (simp add: demo_cfg_def jm_config0_def)
  then have fin: "wd_busy (sv_world S) = {}" "rq_pending st = {}" "answers_of ''r'' (wd_table (sv_world S)) \<noteq> []"
    "length (answers_of ''r'' (wd_table (sv_world S))) \<le> 1"
    using server_loses_nothing[OF S(1)] S(2-5) by simp_all
  then have "length (answers_of ''r'' (wd_table (sv_world S))) = 1"
    by (cases "answers_of ''r'' (wd_table (sv_world S))") simp_all
  then show ?thesis using S(4) fin(1,2) by (intro exI[of _ S]) simp
qed

end
