(* ===== verification/Dynamic_Values.thy ===== *)
theory Dynamic_Values
  imports Prelude
begin

section \<open>Values of a dynamic run: errors, dictionaries and paths\<close>

text \<open>
  What the driver of dynamic workflows (\<open>dynamic/driver.py\<close>) and the walker of result items
  (\<open>_walk_output_path\<close> of \<open>runtime/runtime_manager/flowmesh.py\<close>) compute on JSON values.
  \<^item> An exception is a value \<open>Inl e\<close>; its text is dropped and its class kept as far as a caller
    tells it apart: \<open>DriverProtocolError\<close>, a \<open>ValueError\<close>, anything else.
  \<^item> An operation, a template and a plan are dictionaries from strings to JSON values, as the
    Pydantic models that decode them guarantee.
  \<^item> \<open>json.loads\<close> and \<open>json.dumps\<close> are the two functions of a record \<open>json_codec\<close>: no
    theorem depends on the text format beyond the laws it names.
\<close>

datatype driver_error = DriverProtocolError | ValueErrorRaised | OtherRaised

type_synonym 'a driven = "driver_error + 'a"
type_synonym jobj = "(string, json) dict"

record json_codec =
  jc_loads :: "string \<Rightarrow> json option"
  jc_dumps :: "json \<Rightarrow> string"

subsection \<open>Sequencing of computations that may raise\<close>

definition and_then :: "'e + 'a \<Rightarrow> ('a \<Rightarrow> 'e + 'b) \<Rightarrow> 'e + 'b" where
  "and_then r f = (case r of Inl e \<Rightarrow> Inl e | Inr x \<Rightarrow> f x)"

lemma and_then_simps [simp]:
  "and_then (Inl e) f = Inl e"
  "and_then (Inr x) f = f x"
  by (simp_all add: and_then_def)

lemma and_then_cong [fundef_cong]:
  "r = r' \<Longrightarrow> (\<And>x. r' = Inr x \<Longrightarrow> f x = g x) \<Longrightarrow> and_then r f = and_then r' g"
  by (cases r') auto

lemma and_then_eq_Inr [simp]: "and_then r f = Inr y \<longleftrightarrow> (\<exists>x. r = Inr x \<and> f x = Inr y)"
  by (cases r) auto

text \<open>\<open>[f(x) for x in xs]\<close> where \<open>f\<close> may raise, and the same threading a state.\<close>

fun traverse :: "('a \<Rightarrow> 'e + 'b) \<Rightarrow> 'a list \<Rightarrow> 'e + 'b list" where
  "traverse f [] = Inr []"
| "traverse f (x # xs) = and_then (f x) (\<lambda>y. and_then (traverse f xs) (\<lambda>ys. Inr (y # ys)))"

fun traverse_st :: "('a \<Rightarrow> 's \<Rightarrow> 'e + ('b \<times> 's)) \<Rightarrow> 'a list \<Rightarrow> 's \<Rightarrow> 'e + ('b list \<times> 's)" where
  "traverse_st f [] s = Inr ([], s)"
| "traverse_st f (x # xs) s =
     and_then (f x s) (\<lambda>(y, t). and_then (traverse_st f xs t) (\<lambda>(ys, u). Inr (y # ys, u)))"

text \<open>A loop whose body checks something: it stops at the first error.\<close>

fun check_all :: "('a \<Rightarrow> 'e option) \<Rightarrow> 'a list \<Rightarrow> 'e option" where
  "check_all f [] = None"
| "check_all f (x # xs) = (case f x of Some e \<Rightarrow> Some e | None \<Rightarrow> check_all f xs)"

text \<open>\<open>if not cond: raise e\<close>.\<close>

definition ensure :: "bool \<Rightarrow> 'e \<Rightarrow> 'e + unit" where
  "ensure b e = (if b then Inr () else Inl e)"

lemma ensure_eq_Inr [simp]: "ensure b e = Inr u \<longleftrightarrow> b"
  by (simp add: ensure_def)

lemma first_error_None [simp]:
  "(case r of None \<Rightarrow> q | Some e \<Rightarrow> Some e) = None \<longleftrightarrow> r = None \<and> q = None"
  by (cases r) auto

lemma raised_eq_Inr [simp]:
  "(case r of None \<Rightarrow> q | Some e \<Rightarrow> Inl e) = Inr y \<longleftrightarrow> r = None \<and> q = Inr y"
  by (cases r) auto

lemma traverse_length: "traverse f xs = Inr ys \<Longrightarrow> length ys = length xs"
  by (induction xs arbitrary: ys) auto

lemma traverse_nth: "traverse f xs = Inr ys \<Longrightarrow> i < length xs \<Longrightarrow> f (xs ! i) = Inr (ys ! i)"
proof (induction xs arbitrary: ys i)
  case Nil
  then show ?case by simp
next
  case (Cons x xs)
  then show ?case by (cases i) auto
qed

lemma traverse_Inr_all:
  "traverse f xs = Inr ys \<longleftrightarrow> list_all2 (\<lambda>x y. f x = Inr y) xs ys"
  by (induction xs arbitrary: ys) (auto simp: list_all2_Cons1)

lemma check_all_None [simp]: "check_all f xs = None \<longleftrightarrow> (\<forall>x\<in>set xs. f x = None)"
  by (induction xs) (auto split: option.splits)

lemma traverse_st_length: "traverse_st f xs s = Inr (ys, t) \<Longrightarrow> length ys = length xs"
  by (induction xs arbitrary: s ys) (auto split: prod.splits)

text \<open>An invariant of the state, and a relation that only grows along the state.\<close>

lemma traverse_st_inv:
  assumes "traverse_st f xs s = Inr (ys, t)" "P s"
    and "\<And>x s y t. x \<in> set xs \<Longrightarrow> P s \<Longrightarrow> f x s = Inr (y, t) \<Longrightarrow> P t"
  shows "P t"
  using assms
proof (induction xs arbitrary: s ys)
  case Nil
  then show ?case by simp
next
  case (Cons x xs)
  then obtain y u zs where st: "f x s = Inr (y, u)" "traverse_st f xs u = Inr (zs, t)"
    by (auto split: prod.splits)
  have "P u" by (rule Cons.prems(3)[OF _ Cons.prems(2) st(1)]) simp
  then show ?case by (rule Cons.IH[OF st(2)]) (rule Cons.prems(3), auto)
qed

lemma traverse_st_rel:
  assumes "traverse_st f xs s = Inr (ys, t)" "P s"
    and step: "\<And>x s y t. P s \<Longrightarrow> f x s = Inr (y, t) \<Longrightarrow> P t \<and> le s t \<and> R x y t"
    and refl: "\<And>s. le s s" and trans: "\<And>s t u. le s t \<Longrightarrow> le t u \<Longrightarrow> le s u"
    and mono: "\<And>x y s t. R x y s \<Longrightarrow> le s t \<Longrightarrow> R x y t"
  shows "P t \<and> le s t \<and> list_all2 (\<lambda>x y. R x y t) xs ys"
  using assms(1,2)
proof (induction xs arbitrary: s ys)
  case Nil
  then show ?case by (simp add: refl)
next
  case (Cons x xs)
  then obtain y u zs where st: "f x s = Inr (y, u)" "traverse_st f xs u = Inr (zs, t)"
    and ys: "ys = y # zs"
    by (auto split: prod.splits)
  have one: "P u \<and> le s u \<and> R x y u" by (rule step[OF Cons.prems(2) st(1)])
  moreover have "P t \<and> le u t \<and> list_all2 (\<lambda>x y. R x y t) xs zs"
    by (rule Cons.IH[OF st(2)]) (use one in blast)
  ultimately show ?case using ys mono trans by (simp add: list_all2_Cons) blast
qed

subsection \<open>Reading a JSON value\<close>

text \<open>\<open>d.get(k)\<close>: a missing key reads as \<open>None\<close>.\<close>

definition jget :: "jobj \<Rightarrow> string \<Rightarrow> json" where
  "jget d k = dict_get d k JNull"

text \<open>The fields of an \<open>isinstance(v, dict)\<close> value, the elements of an \<open>isinstance(v, list)\<close>,
  the text of an \<open>isinstance(v, str)\<close>.\<close>

definition as_dict :: "json \<Rightarrow> jobj option" where
  "as_dict v = (case v of JDict d \<Rightarrow> Some d | _ \<Rightarrow> None)"

definition as_list :: "json \<Rightarrow> json list option" where
  "as_list v = (case v of JList vs \<Rightarrow> Some vs | _ \<Rightarrow> None)"

definition as_str :: "json \<Rightarrow> string option" where
  "as_str v = (case v of JStr s \<Rightarrow> Some s | _ \<Rightarrow> None)"

definition is_dict :: "json \<Rightarrow> bool" where
  "is_dict v = (as_dict v \<noteq> None)"

definition is_list :: "json \<Rightarrow> bool" where
  "is_list v = (as_list v \<noteq> None)"

definition is_str :: "json \<Rightarrow> bool" where
  "is_str v = (as_str v \<noteq> None)"

text \<open>\<open>isinstance(v, int)\<close> holds of the Booleans too.\<close>

definition as_int :: "json \<Rightarrow> int option" where
  "as_int v = (case v of JInt i \<Rightarrow> Some i | JBool b \<Rightarrow> Some (if b then 1 else 0) | _ \<Rightarrow> None)"

text \<open>\<open>a == b\<close>: numbers and Booleans compare by value.\<close>

definition as_number :: "json \<Rightarrow> real option" where
  "as_number v = (case v of JBool b \<Rightarrow> Some (if b then 1 else 0) | JInt i \<Rightarrow> Some (real_of_int i)
     | JFloat x \<Rightarrow> Some x | _ \<Rightarrow> None)"

definition py_same :: "json \<Rightarrow> json \<Rightarrow> bool" where
  "py_same a b = (case (as_number a, as_number b) of (Some x, Some y) \<Rightarrow> x = y | _ \<Rightarrow> a = b)"

lemma as_cases [simp]:
  "as_dict v = Some d \<longleftrightarrow> v = JDict d"
  "as_list v = Some vs \<longleftrightarrow> v = JList vs"
  "as_str v = Some s \<longleftrightarrow> v = JStr s"
  by (auto simp: as_dict_def as_list_def as_str_def split: json.splits)

lemma as_of [simp]:
  "as_dict (JDict d) = Some d"
  "as_list (JList vs) = Some vs"
  "as_str (JStr s) = Some s"
  by simp_all

lemma is_cases:
  "is_dict v \<longleftrightarrow> (\<exists>d. v = JDict d)"
  "is_list v \<longleftrightarrow> (\<exists>vs. v = JList vs)"
  "is_str v \<longleftrightarrow> (\<exists>s. v = JStr s)"
  by (auto simp: is_dict_def is_list_def is_str_def simp flip: as_cases)

lemma is_simps [simp]:
  "is_dict (JDict d)" "is_list (JList vs)" "is_str (JStr s)"
  by (simp_all add: is_cases)

subsection \<open>Paths of output fields\<close>

text \<open>\<open>s.split(c)\<close> for a single character.\<close>

fun split_on :: "char \<Rightarrow> string \<Rightarrow> string list" where
  "split_on c [] = [[]]"
| "split_on c (x # xs) =
     (if x = c then [] # split_on c xs
      else case split_on c xs of [] \<Rightarrow> [[x]] | w # ws \<Rightarrow> (x # w) # ws)"

text \<open>\<open>path[len("items."):].split(".")\<close>.\<close>

definition path_parts :: "string \<Rightarrow> string list" where
  "path_parts path = split_on CHR ''.'' (drop 6 path)"

text \<open>\<open>int(s)\<close>: white space around, a sign, digits with single underscores between them.\<close>

fun int_digits :: "string \<Rightarrow> bool" where
  "int_digits [] = False"
| "int_digits [c] = is_digit c"
| "int_digits (c # d # cs) =
     (is_digit c \<and> (if d = CHR ''_'' then int_digits cs else int_digits (d # cs)))"

definition py_int :: "string \<Rightarrow> int option" where
  "py_int s =
     (let t = py_strip s;
          u = (case t of c # cs \<Rightarrow> if c \<in> {CHR ''+'', CHR ''-''} then cs else t | [] \<Rightarrow> t);
          n = int (nat_of_digits 0 (filter is_digit u))
      in if int_digits u then Some (if t \<noteq> [] \<and> hd t = CHR ''-'' then - n else n) else None)"

text \<open>\<open>_split_walk_part\<close>: the attribute and the index of a part such as \<open>choices[0]\<close>.\<close>

definition split_walk_part :: "string \<Rightarrow> (string \<times> nat option) driven" where
  "split_walk_part part =
     (if CHR ''['' \<notin> set part then
        if part = [] then Inl OtherRaised else Inr (part, None)
      else if last part \<noteq> CHR '']'' then Inl OtherRaised
      else let attr = takeWhile (\<lambda>c. c \<noteq> CHR ''['') part;
               suffix = butlast (tl (dropWhile (\<lambda>c. c \<noteq> CHR ''['') part))
           in if suffix = [] \<or> \<not> list_all is_digit suffix then Inl OtherRaised
              else Inr (attr, Some (nat_of_digits 0 suffix)))"

text \<open>\<open>_select_dataframe_column\<close>: a column of a serialized data frame, in row order.\<close>

definition column_in_row_order :: "jobj \<Rightarrow> json list" where
  "column_in_row_order column =
     (if list_all (\<lambda>(k, v). py_int k \<noteq> None) column
      then map snd (sort_key (\<lambda>(k, v). the (py_int k)) column) else map snd column)"

definition select_dataframe_column :: "json_codec \<Rightarrow> json \<Rightarrow> string \<Rightarrow> json option" where
  "select_dataframe_column C value attr =
     (case value of
        JDict d \<Rightarrow>
          (if map fst d \<noteq> [''df''] then None
           else case jget d ''df'' of
             JStr text \<Rightarrow>
               (case jc_loads C text of
                  Some (JDict decoded) \<Rightarrow>
                    (case jget decoded attr of
                       JDict column \<Rightarrow> Some (JList (column_in_row_order column))
                     | _ \<Rightarrow> None)
                | _ \<Rightarrow> None)
           | _ \<Rightarrow> None)
      | _ \<Rightarrow> None)"

subsection \<open>The walk\<close>

text \<open>\<open>_walk_output_path\<close>. One part selects an attribute of a mapping (or of every mapping of a
  list, where the source calls itself with that attribute alone) and then an index of a list (or
  of every list of a list, again by a recursive call). A string on the way is decoded first.\<close>

definition walk_attr_of :: "json_codec \<Rightarrow> string \<Rightarrow> json \<Rightarrow> json driven" where
  "walk_attr_of C attr value =
     (case select_dataframe_column C value attr of
        Some column \<Rightarrow> Inr column
      | None \<Rightarrow> (case value of
            JDict d \<Rightarrow> (case map_of d attr of Some v \<Rightarrow> Inr v | None \<Rightarrow> Inl OtherRaised)
          | _ \<Rightarrow> Inl OtherRaised))"

definition walk_attr :: "json_codec \<Rightarrow> string \<Rightarrow> json \<Rightarrow> json driven" where
  "walk_attr C attr value =
     (case value of
        JList vs \<Rightarrow> (if list_all is_dict vs
          then and_then (traverse (walk_attr_of C attr) vs) (\<lambda>ws. Inr (JList ws))
          else Inl OtherRaised)
      | _ \<Rightarrow> walk_attr_of C attr value)"

fun walk_index :: "nat \<Rightarrow> json \<Rightarrow> json driven"
and walk_indexes :: "nat \<Rightarrow> json list \<Rightarrow> json list driven" where
  "walk_index i (JList vs) =
     (if list_all is_list vs then and_then (walk_indexes i vs) (\<lambda>ws. Inr (JList ws))
      else if i < length vs then Inr (vs ! i) else Inl OtherRaised)"
| "walk_index i _ = Inl OtherRaised"
| "walk_indexes i [] = Inr []"
| "walk_indexes i (v # vs) =
     and_then (walk_index i v) (\<lambda>w. and_then (walk_indexes i vs) (\<lambda>ws. Inr (w # ws)))"

definition decode_step :: "json_codec \<Rightarrow> json \<Rightarrow> json driven" where
  "decode_step C value =
     (case value of
        JStr s \<Rightarrow> (case jc_loads C s of Some v \<Rightarrow> Inr v | None \<Rightarrow> Inl OtherRaised)
      | _ \<Rightarrow> Inr value)"

fun walk_output_path :: "json_codec \<Rightarrow> string list \<Rightarrow> json \<Rightarrow> json driven" where
  "walk_output_path C [] value = Inr value"
| "walk_output_path C (part # parts) value =
     and_then (decode_step C value) (\<lambda>v.
     and_then (split_walk_part part) (\<lambda>(attr, index).
     and_then (if attr = [] then Inr v else walk_attr C attr v) (\<lambda>w.
     and_then (case index of None \<Rightarrow> Inr w | Some i \<Rightarrow> walk_index i w) (\<lambda>u.
     walk_output_path C parts u))))"

text \<open>\<open>_coerce_output_value\<close>.\<close>

definition coerce_output_value :: "json_codec \<Rightarrow> json \<Rightarrow> string" where
  "coerce_output_value C value = (case value of JStr s \<Rightarrow> s | _ \<Rightarrow> jc_dumps C value)"

text \<open>A walk through plain attributes is a nested look-up.\<close>

lemma split_walk_part_plain:
  "part \<noteq> [] \<Longrightarrow> CHR ''['' \<notin> set part \<Longrightarrow> split_walk_part part = Inr (part, None)"
  by (simp add: split_walk_part_def)

lemma walk_one_attr:
  assumes "part \<noteq> []" "CHR ''['' \<notin> set part" "map fst d \<noteq> [''df'']" "map_of d part = Some v"
  shows "walk_output_path C (part # parts) (JDict d) = walk_output_path C parts v"
  using assms
  by (simp add: split_walk_part_plain decode_step_def walk_attr_def walk_attr_of_def
      select_dataframe_column_def)

text \<open>Selecting an index of a list of lists selects it in each of them, whatever their number:
  of an empty list the result is the empty list and not an error.\<close>

lemma walk_index_nil: "walk_index i (JList []) = Inr (JList [])"
  by simp

lemma walk_indexes_traverse: "walk_indexes i vs = traverse (walk_index i) vs"
  by (induction vs) auto

end
