(* ===== verification/Dynamic_Subgraph.thy ===== *)
theory Dynamic_Subgraph
  imports Dynamic_Values Server_Slices
begin

section \<open>Subgraphs the planner emits: templates, resolution, admission\<close>

text \<open>
  The structural contract of a round of a dynamic workflow, \<open>dynamic/driver.py\<close>: the reference
  library of operation templates (\<open>validate_library\<close>), the expansion of an emitted operation that
  names a template (\<open>resolve_subgraph\<close>, \<open>_apply_param_bindings\<close>) and the validation of an emitted
  subgraph against the nodes that exist already (\<open>validate_emitted_subgraph\<close>).

  \<^item> The comparison of the declared inputs with what the YAML parser finds an operation to consume
    (\<open>_validate_declared_inputs\<close>) runs the parser; it is the argument \<open>declared\<close> of the
    validation, any function that may reject an operation.
  \<^item> An operation or a template is a dictionary by the types of the Pydantic models that decode
    them, so the \<open>isinstance(op, dict)\<close> branches have no counterpart.
\<close>

subsection \<open>Constants\<close>

text \<open>Beside \<open>INPUT_NODE_ID\<close>, which the slicing of a round defines.\<close>

definition OBSERVATION_NODE_ID :: string where "OBSERVATION_NODE_ID = ''observation''"
definition PROPOSER_NODE_ID :: string where "PROPOSER_NODE_ID = ''proposer''"

definition FIXED_ROUND_NODE_IDS :: "string list" where
  "FIXED_ROUND_NODE_IDS = [INPUT_NODE_ID, OBSERVATION_NODE_ID, PROPOSER_NODE_ID]"

definition SUPPORTED_OPS :: "string list" where
  "SUPPORTED_OPS =
     [''DataOp'', ''DataRetrievalOp'', ''MessageOp'', ''LLMChatOp'', ''LLMVisionOp'',
      ''ImageGenerationOp'', ''EmbeddingOp'', ''FormatOp'', ''LambdaOp'']"

text \<open>The supported operations whose class derives from \<open>LLMOp\<close> or \<open>DataRetrievalOp\<close>.\<close>

definition OUTPUT_SOURCE_OPS :: "string list" where
  "OUTPUT_SOURCE_OPS =
     [''DataRetrievalOp'', ''LLMChatOp'', ''LLMVisionOp'', ''ImageGenerationOp'', ''EmbeddingOp'']"

lemma output_source_supported: "set OUTPUT_SOURCE_OPS \<subseteq> set SUPPORTED_OPS"
  by (simp add: OUTPUT_SOURCE_OPS_def SUPPORTED_OPS_def)

text \<open>\<open>isinstance(op_type, str) and op_type in SUPPORTED_OPS\<close>.\<close>

definition supported_type :: "json \<Rightarrow> bool" where
  "supported_type v = (case v of JStr s \<Rightarrow> s \<in> set SUPPORTED_OPS | _ \<Rightarrow> False)"

subsection \<open>The library\<close>

definition validate_library :: "(string, json) dict option \<Rightarrow> driver_error option" where
  "validate_library library =
     (case library of
        None \<Rightarrow> None
      | Some entries \<Rightarrow> check_all (\<lambda>(ref, template).
          case template of
            JDict t \<Rightarrow> if supported_type (jget t ''op'') then None else Some DriverProtocolError
          | _ \<Rightarrow> Some DriverProtocolError) entries)"

subsection \<open>Parameter bindings\<close>

text \<open>\<open>by_label\<close> of \<open>_apply_param_bindings\<close>: the parameters under their labels, which may be any
  hashable value. A later parameter of a label replaces an earlier one in its place.\<close>

type_synonym labelled = "(json \<times> jobj) list"

definition hashable :: "json \<Rightarrow> bool" where
  "hashable v = (\<not> is_dict v \<and> \<not> is_list v)"

definition label_find :: "labelled \<Rightarrow> json \<Rightarrow> jobj option" where
  "label_find d label = map_option snd (find (\<lambda>(k, v). py_same k label) d)"

fun label_put :: "json \<Rightarrow> jobj \<Rightarrow> labelled \<Rightarrow> labelled" where
  "label_put label p [] = [(label, p)]"
| "label_put label p ((k, v) # d) =
     (if py_same k label then (k, p) # d else (k, v) # label_put label p d)"

fun params_by_label :: "labelled \<Rightarrow> json list \<Rightarrow> labelled driven" where
  "params_by_label d [] = Inr d"
| "params_by_label d (param # params) =
     (case param of
        JDict p \<Rightarrow>
          (if hashable (jget p ''label'') then params_by_label (label_put (jget p ''label'') p d) params
           else Inl OtherRaised)
      | _ \<Rightarrow> Inl OtherRaised)"

text \<open>\<open>sorted(by_label)\<close> in the message about an unknown label: it raises \<open>TypeError\<close> when two
  labels do not compare.\<close>

definition labels_sortable :: "labelled \<Rightarrow> bool" where
  "labels_sortable d =
     (length d \<le> 1 \<or> list_all (\<lambda>(k, v). is_str k) d \<or> list_all (\<lambda>(k, v). as_number k \<noteq> None) d)"

definition apply_binding :: "string list \<Rightarrow> labelled \<Rightarrow> json \<Rightarrow> labelled driven" where
  "apply_binding inputs by_label binding =
     (case binding of
        JDict b \<Rightarrow>
          (let label = jget b ''label''; slot = as_int (jget b ''input'') in
           if \<not> hashable label then Inl OtherRaised
           else case label_find by_label label of
             None \<Rightarrow> Inl (if labels_sortable by_label then DriverProtocolError else OtherRaised)
           | Some p \<Rightarrow>
               (case slot of
                  None \<Rightarrow> Inl DriverProtocolError
                | Some i \<Rightarrow>
                    (if \<not> (0 \<le> i \<and> i < int (length inputs)) then Inl DriverProtocolError
                     else Inr (label_put label
                       (AList.update ''node'' (JStr (inputs ! nat i)) p) by_label))))
      | _ \<Rightarrow> Inl DriverProtocolError)"

fun apply_bindings :: "string list \<Rightarrow> labelled \<Rightarrow> json list \<Rightarrow> labelled driven" where
  "apply_bindings inputs by_label [] = Inr by_label"
| "apply_bindings inputs by_label (b # bs) =
     and_then (apply_binding inputs by_label b) (\<lambda>d. apply_bindings inputs d bs)"

text \<open>\<open>_apply_param_bindings\<close>.\<close>

definition apply_param_bindings :: "jobj \<Rightarrow> string list \<Rightarrow> jobj driven" where
  "apply_param_bindings template inputs =
     (case jget template ''data_spec'' of
        JDict data_spec \<Rightarrow>
          (case jget data_spec ''param_bindings'' of
             JList bindings \<Rightarrow>
               (if length inputs \<noteq> length bindings then Inl DriverProtocolError
                else case jget data_spec ''params'' of
                  JList params \<Rightarrow>
                    and_then (params_by_label [] params) (\<lambda>by_label.
                    and_then (apply_bindings inputs by_label bindings) (\<lambda>bound.
                      Inr (AList.update ''params'' (JList (map (JDict \<circ> snd) bound)) data_spec)))
                | _ \<Rightarrow> Inl DriverProtocolError)
           | _ \<Rightarrow> Inr data_spec)
      | _ \<Rightarrow> Inl DriverProtocolError)"

subsection \<open>Resolution\<close>

text \<open>The list of strings an \<open>inputs\<close> value holds, when it is one.\<close>

definition string_list :: "json \<Rightarrow> string list option" where
  "string_list v = (case v of
     JList vs \<Rightarrow> (if list_all is_str vs then Some (map (\<lambda>w. the (as_str w)) vs) else None)
   | _ \<Rightarrow> None)"

text \<open>One entry of the emitted operation merged into the copy of its template.\<close>

definition merge_entry :: "jobj \<Rightarrow> jobj \<Rightarrow> string \<times> json \<Rightarrow> jobj driven" where
  "merge_entry template merged entry =
     (let (key, value) = entry in
      if key = ''ref'' \<or> key = ''op'' then Inr merged
      else if key \<notin> {''id'', ''inputs'', ''op''} then Inl DriverProtocolError
      else if key = ''inputs'' then
        (case string_list value of
           None \<Rightarrow> Inl DriverProtocolError
         | Some refs \<Rightarrow>
             (let m = AList.update ''inputs'' value merged in
              if is_dict (jget template ''data_spec'') then
                and_then (apply_param_bindings template refs)
                  (\<lambda>d. Inr (AList.update ''data_spec'' (JDict d) m))
              else Inr m))
      else Inr (AList.update key value merged))"

fun merge_entries :: "jobj \<Rightarrow> jobj \<Rightarrow> (string \<times> json) list \<Rightarrow> jobj driven" where
  "merge_entries template merged [] = Inr merged"
| "merge_entries template merged (e # es) =
     and_then (merge_entry template merged e) (\<lambda>m. merge_entries template m es)"

definition resolve_op :: "(string, jobj) dict option \<Rightarrow> jobj \<Rightarrow> jobj driven" where
  "resolve_op library op =
     (if map_of op ''ref'' = None then Inr op
      else case jget op ''ref'' of
        JStr ref \<Rightarrow>
          (case library of
             None \<Rightarrow> Inl DriverProtocolError
           | Some entries \<Rightarrow>
               (case map_of entries ref of
                  None \<Rightarrow> Inl DriverProtocolError
                | Some template \<Rightarrow>
                    (if jget op ''op'' \<noteq> JNull \<and> \<not> py_same (jget template ''op'') (jget op ''op'')
                     then Inl DriverProtocolError
                     else merge_entries template template op)))
      | _ \<Rightarrow> Inl DriverProtocolError)"

text \<open>\<open>resolve_subgraph\<close>.\<close>

definition resolve_subgraph :: "jobj list \<Rightarrow> (string, jobj) dict option \<Rightarrow> jobj list driven" where
  "resolve_subgraph subgraph library = traverse (resolve_op library) subgraph"

subsection \<open>Validation\<close>

text \<open>\<open>op["id"]\<close> as a string, and the references of its \<open>inputs\<close>.\<close>

definition op_id :: "jobj \<Rightarrow> string" where
  "op_id op = (case jget op ''id'' of JStr s \<Rightarrow> s | _ \<Rightarrow> [])"

definition op_type :: "jobj \<Rightarrow> string" where
  "op_type op = (case jget op ''op'' of JStr s \<Rightarrow> s | _ \<Rightarrow> [])"

definition input_refs :: "jobj \<Rightarrow> string list" where
  "input_refs op = (case dict_get op ''inputs'' (JList []) of
     JList vs \<Rightarrow> List.map_filter as_str vs | _ \<Rightarrow> [])"

type_synonym declared_check =
  "string \<Rightarrow> string \<Rightarrow> jobj \<Rightarrow> string list \<Rightarrow> (string, jobj) dict \<Rightarrow> driver_error option"

text \<open>\<open>available_ops\<close>: the resolved operations under their ids, then the registry over them.\<close>

fun update_all :: "('k, 'v) dict \<Rightarrow> ('k, 'v) dict \<Rightarrow> ('k, 'v) dict" where
  "update_all d [] = d"
| "update_all d ((k, v) # kvs) = update_all (AList.update k v d) kvs"

definition available_ops :: "jobj list \<Rightarrow> (string, jobj) dict \<Rightarrow> (string, jobj) dict" where
  "available_ops resolved registry =
     update_all
       (update_all [] (map (\<lambda>op. (op_id op, op)) (filter (\<lambda>op. is_str (jget op ''id'')) resolved)))
       registry"

text \<open>The first pass: ids, types and declared inputs of the operations; \<open>ids\<close> are those of the
  operations before.\<close>

definition check_op ::
  "declared_check \<Rightarrow> (string, jobj) dict \<Rightarrow> (string, jobj) dict \<Rightarrow> string list \<Rightarrow> jobj \<Rightarrow> driver_error option"
where
  "check_op declared registry available ids op =
     (if \<not> is_str (jget op ''id'') \<or> op_id op = [] then Some DriverProtocolError
      else if op_id op \<in> set FIXED_ROUND_NODE_IDS then Some DriverProtocolError
      else if op_id op \<in> fst ` set registry then Some DriverProtocolError
      else if op_id op \<in> set ids then Some DriverProtocolError
      else if \<not> supported_type (jget op ''op'') then Some DriverProtocolError
      else case string_list (dict_get op ''inputs'' (JList [])) of
        None \<Rightarrow> Some DriverProtocolError
      | Some refs \<Rightarrow> declared (op_id op) (op_type op) op refs available)"

fun check_ops ::
  "declared_check \<Rightarrow> (string, jobj) dict \<Rightarrow> (string, jobj) dict \<Rightarrow> string list \<Rightarrow> jobj list
     \<Rightarrow> driver_error option"
where
  "check_ops declared registry available ids [] = None"
| "check_ops declared registry available ids (op # ops) =
     (case check_op declared registry available ids op of
        Some e \<Rightarrow> Some e
      | None \<Rightarrow> check_ops declared registry available (ids @ [op_id op]) ops)"

text \<open>The second pass: every reference is the input node, an earlier round's operation whose
  result is available, or an operation emitted before.\<close>

definition check_ref ::
  "(string, jobj) dict \<Rightarrow> string set option \<Rightarrow> string list \<Rightarrow> string list \<Rightarrow> string \<Rightarrow> driver_error option"
where
  "check_ref registry results ids seen ref =
     (if ref = INPUT_NODE_ID then None
      else if ref \<in> fst ` set registry then
        (case results of
           None \<Rightarrow> None
         | Some rs \<Rightarrow> if ref \<in> rs then None else Some DriverProtocolError)
      else if ref \<notin> set ids then Some DriverProtocolError
      else if ref \<notin> set seen then Some DriverProtocolError
      else None)"

fun check_refs ::
  "(string, jobj) dict \<Rightarrow> string set option \<Rightarrow> string list \<Rightarrow> string list \<Rightarrow> jobj list
     \<Rightarrow> driver_error option"
where
  "check_refs registry results ids seen [] = None"
| "check_refs registry results ids seen (op # ops) =
     (case check_all (check_ref registry results ids seen) (input_refs op) of
        Some e \<Rightarrow> Some e
      | None \<Rightarrow> check_refs registry results ids (seen @ [op_id op]) ops)"

text \<open>The third pass: an operation no other consumes is a leaf and must be archivable.\<close>

definition consumed_refs :: "jobj list \<Rightarrow> string list" where
  "consumed_refs ops = concat (map input_refs ops)"

definition check_leaf :: "jobj list \<Rightarrow> jobj \<Rightarrow> driver_error option" where
  "check_leaf ops op =
     (if op_id op \<in> set (consumed_refs ops) \<or> op_type op \<in> set OUTPUT_SOURCE_OPS then None
      else Some DriverProtocolError)"

text \<open>Every exported id is an operation of the subgraph.\<close>

definition exports_known :: "string list option \<Rightarrow> string list \<Rightarrow> bool" where
  "exports_known export ids =
     (case export of None \<Rightarrow> True | Some es \<Rightarrow> list_all (\<lambda>e. e \<in> set ids) es)"

text \<open>\<open>validate_emitted_subgraph\<close>; \<open>Inr ()\<close> when it returns.\<close>

definition validate_emitted_subgraph ::
  "declared_check \<Rightarrow> jobj list \<Rightarrow> (string, jobj) dict \<Rightarrow> nat \<Rightarrow> (string, jobj) dict option
     \<Rightarrow> string list option \<Rightarrow> string set option \<Rightarrow> unit driven"
where
  "validate_emitted_subgraph declared subgraph registry max_nodes library export results =
     (if length subgraph > max_nodes then Inl DriverProtocolError
      else if subgraph = [] then Inl DriverProtocolError
      else and_then (resolve_subgraph subgraph library) (\<lambda>resolved.
        let ids = map op_id resolved in
        case check_ops declared registry (available_ops resolved registry) [] resolved of
          Some e \<Rightarrow> Inl e
        | None \<Rightarrow>
            (if \<not> exports_known export ids then Inl DriverProtocolError
             else case check_refs registry results ids [] resolved of
               Some e \<Rightarrow> Inl e
             | None \<Rightarrow> (case check_all (check_leaf resolved) resolved of
                 Some e \<Rightarrow> Inl e | None \<Rightarrow> Inr ()))))"

text \<open>\<open>_current_leaves\<close>.\<close>

definition current_leaves :: "jobj list \<Rightarrow> string list" where
  "current_leaves ops = filter (\<lambda>i. i \<notin> set (consumed_refs ops)) (map op_id ops)"

end
