(* ===== verification/Dynamic_Forward.thy ===== *)
theory Dynamic_Forward
  imports Dynamic_Subgraph
begin

section \<open>Forwarding earlier results into a round\<close>

text \<open>
  A round's graph never holds an operation of an earlier round: \<open>forward_refs\<close> of
  \<open>dynamic/driver.py\<close> rewrites each reference to one as a workflow input that carries the value
  the reference would have read. In a run over several rows each bound input has one value per
  row; a value that is itself a list per row is bound as JSON and decoded by a materializer
  operation the function adds. The closures of the source share \<open>inputs\<close>, \<open>materializers\<close> and
  \<open>materialized\<close>; here they are the fields of a state that the functions thread.
\<close>

text \<open>The arguments that stay fixed: the stored results of the earlier rounds under the ids of
  their operations, the operations' configurations, the number of rows.\<close>

record forward_env =
  fe_codec :: json_codec
  fe_results :: "(string, json list) dict"
  fe_configs :: "(string, jobj) dict"
  fe_rows :: nat

record forward_state =
  fs_inputs :: "(string, string list) dict"
  fs_materializers :: "jobj list"
  fs_materialized :: "string list"

definition forward_init :: forward_state where
  "forward_init = \<lparr>fs_inputs = [], fs_materializers = [], fs_materialized = []\<rparr>"

subsection \<open>Reading the stored items\<close>

text \<open>\<open>retrieval_items_path\<close> and \<open>_default_forward_path\<close>.\<close>

definition retrieval_items_path :: "string \<Rightarrow> string driven" where
  "retrieval_items_path mode =
     (if mode = ''sql'' then Inr ''items.table''
      else if mode = ''s3'' then Inr ''items.content''
      else if mode = ''agent'' then Inr ''items.table''
      else Inl ValueErrorRaised)"

definition default_forward_path :: "json \<Rightarrow> jobj \<Rightarrow> string driven" where
  "default_forward_path type op =
     (if type = JStr ''DataRetrievalOp'' then
        (case as_dict (jget op ''data_spec'') of
           None \<Rightarrow> Inr ''items.output''
         | Some spec \<Rightarrow> (case jget spec ''mode'' of
             JStr mode \<Rightarrow> retrieval_items_path mode
           | _ \<Rightarrow> Inr ''items.output''))
      else Inr ''items.output'')"

text \<open>\<open>_forward_values\<close>, \<open>_forward_values_flattened\<close> and \<open>_walk_values_per_row\<close>.\<close>

definition forward_values :: "json_codec \<Rightarrow> json list \<Rightarrow> string list \<Rightarrow> string list driven" where
  "forward_values C items parts =
     traverse (\<lambda>item. and_then (walk_output_path C parts item) (\<lambda>v. Inr (coerce_output_value C v))) items"

definition forward_values_flattened :: "json_codec \<Rightarrow> json list \<Rightarrow> string list \<Rightarrow> string list driven" where
  "forward_values_flattened C items parts =
     and_then (traverse (\<lambda>item. and_then (walk_output_path C parts item) (\<lambda>v.
         Inr (case v of JList vs \<Rightarrow> map (coerce_output_value C) vs | _ \<Rightarrow> [coerce_output_value C v]))) items)
       (\<lambda>vss. Inr (concat vss))"

definition walk_values_per_row ::
  "json_codec \<Rightarrow> json list \<Rightarrow> string list \<Rightarrow> nat \<Rightarrow> json list driven"
where
  "walk_values_per_row C items parts rows =
     and_then (traverse (\<lambda>item. and_then (walk_output_path C parts item) (\<lambda>v.
         Inr (case v of JList [w] \<Rightarrow> w | _ \<Rightarrow> v))) items) (\<lambda>values.
     and_then (ensure (length values = rows) DriverProtocolError) (\<lambda>_. Inr values))"

subsection \<open>Binding a reference\<close>

definition decode_rows_code :: string where
  "decode_rows_code =
     ''def decode_rows(columns):'' @ [CHR 0x0A]
       @ ''    return [json.loads(v) for v in columns[0]]'' @ [CHR 0x0A]"

definition input_name :: "string \<Rightarrow> string \<Rightarrow> string" where
  "input_name ref path = ref @ '' | '' @ path"

definition rows_name :: "string \<Rightarrow> string" where
  "rows_name input = input @ '' | rows''"

definition materializer :: "string \<Rightarrow> jobj" where
  "materializer input =
     [(''id'', JStr (rows_name input)), (''op'', JStr ''LambdaOp''),
      (''inputs'', JList [JStr input]), (''fn_name'', JStr ''decode_rows''),
      (''code'', JStr decode_rows_code), (''mode'', JStr ''aligned'')]"

text \<open>\<open>add_materializer\<close>; the id it returns is \<open>rows_name (input_name ref path)\<close>.\<close>

definition add_materializer ::
  "forward_env \<Rightarrow> string \<Rightarrow> string \<Rightarrow> json list \<Rightarrow> forward_state \<Rightarrow> forward_state"
where
  "add_materializer E ref path walked s =
     (let input = input_name ref path in
      if input \<in> set (fs_materialized s) then s
      else s\<lparr>fs_inputs := AList.update input (map (coerce_output_value (fe_codec E)) walked) (fs_inputs s),
             fs_materializers := fs_materializers s @ [materializer input],
             fs_materialized := fs_materialized s @ [input]\<rparr>)"

text \<open>\<open>bind_implicit\<close>: the new reference when it changes.\<close>

definition bind_implicit ::
  "forward_env \<Rightarrow> bool \<Rightarrow> string \<Rightarrow> forward_state \<Rightarrow> (string option \<times> forward_state) driven"
where
  "bind_implicit E img ref s =
     (case map_of (fe_results E) ref of
        None \<Rightarrow> Inr (None, s)
      | Some items \<Rightarrow>
          (case map_of (fe_configs E) ref of
             None \<Rightarrow> Inl OtherRaised
           | Some config \<Rightarrow>
               and_then (default_forward_path (dict_get config ''op'' (JStr [])) config) (\<lambda>path.
               if fe_rows E > 1 then
                 and_then (walk_values_per_row (fe_codec E) items (path_parts path) (fe_rows E)) (\<lambda>walked.
                   if list_ex is_list walked then
                     and_then (ensure (list_all is_list walked) DriverProtocolError) (\<lambda>_.
                     and_then (ensure (\<not> img) DriverProtocolError) (\<lambda>_.
                       Inr (Some (rows_name (input_name ref path)), add_materializer E ref path walked s)))
                   else Inr (None, s\<lparr>fs_inputs :=
                     AList.update ref (map (coerce_output_value (fe_codec E)) walked) (fs_inputs s)\<rparr>))
               else and_then (forward_values (fe_codec E) items (path_parts path)) (\<lambda>vs.
                 Inr (None, s\<lparr>fs_inputs := AList.update ref vs (fs_inputs s)\<rparr>)))))"

text \<open>\<open>bind_explicit\<close>, called with a reference that has results.\<close>

definition bind_explicit ::
  "forward_env \<Rightarrow> string \<Rightarrow> string \<Rightarrow> forward_state \<Rightarrow> ((string \<times> string) \<times> forward_state) driven"
where
  "bind_explicit E ref path s =
     (let input = input_name ref path; parts = path_parts path;
          items = dict_get (fe_results E) ref [] in
      if input \<in> set (fs_materialized s) then Inr ((rows_name input, ''items.output''), s)
      else if map_of (fs_inputs s) input \<noteq> None then Inr ((input, []), s)
      else if fe_rows E > 1 then
        and_then (walk_values_per_row (fe_codec E) items parts (fe_rows E)) (\<lambda>walked.
          if list_ex is_list walked then
            and_then (ensure (list_all is_list walked) DriverProtocolError) (\<lambda>_.
              Inr ((rows_name input, ''items.output''), add_materializer E ref path walked s))
          else Inr ((input, []), s\<lparr>fs_inputs :=
            AList.update input (map (coerce_output_value (fe_codec E)) walked) (fs_inputs s)\<rparr>))
      else and_then (forward_values_flattened (fe_codec E) items parts) (\<lambda>vs.
        Inr ((input, []), s\<lparr>fs_inputs := AList.update input vs (fs_inputs s)\<rparr>)))"

subsection \<open>Rewriting an operation\<close>

text \<open>A value that is a reference when it is a string.\<close>

definition bind_value ::
  "forward_env \<Rightarrow> json \<Rightarrow> forward_state \<Rightarrow> (json \<times> forward_state) driven"
where
  "bind_value E v s = (case v of
     JStr ref \<Rightarrow> and_then (bind_implicit E False ref s) (\<lambda>(new, t).
       Inr (case new of None \<Rightarrow> v | Some r \<Rightarrow> JStr r, t))
   | _ \<Rightarrow> Inr (v, s))"

text \<open>The values of a dictionary such as \<open>format_kwargs\<close>.\<close>

definition bind_kwargs ::
  "forward_env \<Rightarrow> jobj \<Rightarrow> forward_state \<Rightarrow> (jobj \<times> forward_state) driven"
where
  "bind_kwargs E kwargs s =
     traverse_st (\<lambda>(k, v) t. and_then (bind_value E v t) (\<lambda>(w, u). Inr ((k, w), u))) kwargs s"

text \<open>A row of \<open>aggregate_table\<close>, \<open>rowwise_columns\<close> or \<open>params\<close>: an explicit reference.\<close>

definition bind_row ::
  "forward_env \<Rightarrow> json \<Rightarrow> forward_state \<Rightarrow> (json \<times> forward_state) driven"
where
  "bind_row E row s = (case row of
     JDict r \<Rightarrow>
       (case (jget r ''node'', jget r ''path'') of
          (JStr node, JStr path) \<Rightarrow>
            (if map_of (fe_results E) node \<noteq> None then
               and_then (bind_explicit E node path s) (\<lambda>((n, p), t).
                 Inr (JDict (AList.update ''path'' (JStr p) (AList.update ''node'' (JStr n) r)), t))
             else Inr (row, s))
        | _ \<Rightarrow> Inr (row, s))
   | _ \<Rightarrow> Inr (row, s))"

text \<open>A field of an operation, rewritten in place when it is a list or a dictionary.\<close>

definition edit_list_field ::
  "string \<Rightarrow> (json \<Rightarrow> forward_state \<Rightarrow> (json \<times> forward_state) driven)
     \<Rightarrow> jobj \<Rightarrow> forward_state \<Rightarrow> (jobj \<times> forward_state) driven"
where
  "edit_list_field key f op s = (case jget op key of
     JList vs \<Rightarrow> and_then (traverse_st f vs s) (\<lambda>(ws, t). Inr (AList.update key (JList ws) op, t))
   | _ \<Rightarrow> Inr (op, s))"

definition edit_dict_field ::
  "string \<Rightarrow> (jobj \<Rightarrow> forward_state \<Rightarrow> (jobj \<times> forward_state) driven)
     \<Rightarrow> jobj \<Rightarrow> forward_state \<Rightarrow> (jobj \<times> forward_state) driven"
where
  "edit_dict_field key f op s = (case jget op key of
     JDict d \<Rightarrow> and_then (f d s) (\<lambda>(e, t). Inr (AList.update key (JDict e) op, t))
   | _ \<Rightarrow> Inr (op, s))"

text \<open>\<open>op.get("inputs", [])\<close>, which the validation has found to be a list.\<close>

definition bind_inputs ::
  "forward_env \<Rightarrow> jobj \<Rightarrow> forward_state \<Rightarrow> (jobj \<times> forward_state) driven"
where
  "bind_inputs E op s =
     (if is_list (dict_get op ''inputs'' (JList [])) then edit_list_field ''inputs'' (bind_value E) op s
      else Inl OtherRaised)"

definition bind_image ::
  "forward_env \<Rightarrow> jobj \<Rightarrow> forward_state \<Rightarrow> (jobj \<times> forward_state) driven"
where
  "bind_image E op s = (case jget op ''image_source'' of
     JStr ref \<Rightarrow> and_then (bind_implicit E True ref s) (\<lambda>(_, t). Inr (op, t))
   | _ \<Rightarrow> Inr (op, s))"

text \<open>The body of the loop over the operations.\<close>

definition forward_op ::
  "forward_env \<Rightarrow> jobj \<Rightarrow> forward_state \<Rightarrow> (jobj \<times> forward_state) driven"
where
  "forward_op E o0 s0 =
     and_then (bind_inputs E o0 s0) (\<lambda>(o1, s1).
     and_then (edit_dict_field ''prompt'' (edit_dict_field ''format_kwargs'' (bind_kwargs E)) o1 s1) (\<lambda>(o2, s2).
     and_then (edit_dict_field ''format_kwargs'' (bind_kwargs E) o2 s2) (\<lambda>(o3, s3).
     and_then (bind_image E o3 s3) (\<lambda>(o4, s4).
     and_then (edit_list_field ''aggregate_table'' (bind_row E) o4 s4) (\<lambda>(o5, s5).
     and_then (edit_list_field ''rowwise_columns'' (bind_row E) o5 s5) (\<lambda>(o6, s6).
     edit_dict_field ''data_spec'' (edit_list_field ''params'' (bind_row E)) o6 s6))))))"

text \<open>\<open>forward_refs\<close>: the rewritten operations with the materializers, and the bound inputs.\<close>

definition forward_refs ::
  "forward_env \<Rightarrow> jobj list \<Rightarrow> (jobj list \<times> (string, string list) dict) driven"
where
  "forward_refs E subgraph =
     and_then (traverse_st (forward_op E) subgraph forward_init) (\<lambda>(ops, s).
       Inr (ops @ fs_materializers s, fs_inputs s))"

end
