(* ===== verification/Dynamic_Plan.thy ===== *)
theory Dynamic_Plan
  imports Dynamic_Forward
begin

section \<open>Plans and the assembly of a round\<close>

text \<open>
  The planner's reply and the job that runs it, the rest of \<open>dynamic/driver.py\<close>: the decoding of a
  plan (\<open>validate_plan\<close>, \<open>validate_plan_text\<close>, \<open>_strip_plan_wrappers\<close>, \<open>plan_to_dict\<close>), the outputs a
  round archives (\<open>result_outputs\<close>, \<open>walk_archived_items\<close>, and \<open>_extract_archived_outputs\<close> and
  \<open>_flatten_leaf_outputs\<close> of \<open>routes/jobs.py\<close>), the place it writes to (\<open>round_output_location\<close>) and
  the round itself (\<open>build_round\<close>).

  The native graph of a round comes from the YAML parser and from the serializers of the
  operators; \<open>build_round\<close> takes the two steps as the arguments \<open>parse\<close>, which gives the graph of the
  forwarded operations or an error, and \<open>digest\<close>, the hash in an operation's internal id. The
  proposer's messages are text and do not occur.
\<close>

subsection \<open>Plans\<close>

datatype plan = StopPlan | SubgraphPlan (plan_ops: "jobj list") (plan_export: "string list")

definition STOP :: string where "STOP = ''STOP''"
definition SUBGRAPH :: string where "SUBGRAPH = ''subgraph''"

text \<open>\<open>_THINK_BLOCK_RE\<close>: leading white space, a block up to the first closing tag, white space.\<close>

definition begins_with :: "string \<Rightarrow> string \<Rightarrow> bool" where
  "begins_with p s = (take (length p) s = p)"

fun after_first :: "string \<Rightarrow> string \<Rightarrow> string option" where
  "after_first p [] = (if p = [] then Some [] else None)"
| "after_first p (c # cs) =
     (if begins_with p (c # cs) then Some (drop (length p) (c # cs)) else after_first p cs)"

definition strip_think :: "string \<Rightarrow> string" where
  "strip_think s =
     (let t = dropWhile is_space s in
      if begins_with ''<think>'' t then
        (case after_first ''</think>'' (drop 7 t) of
           None \<Rightarrow> s
         | Some rest \<Rightarrow> dropWhile is_space rest)
      else s)"

text \<open>\<open>_FENCE_RE\<close>: the shortest body before white space, three backticks and white space up to the
  end.\<close>

definition closes_fence :: "string \<Rightarrow> bool" where
  "closes_fence s =
     (let t = dropWhile is_space s in begins_with ''```'' t \<and> list_all is_space (drop 3 t))"

fun fence_body :: "string \<Rightarrow> string option" where
  "fence_body [] = None"
| "fence_body (c # cs) =
     (if closes_fence (c # cs) then Some [] else map_option (\<lambda>b. c # b) (fence_body cs))"

definition fenced :: "string \<Rightarrow> string option" where
  "fenced s =
     (let t = dropWhile is_space s in
      if begins_with ''```'' t then
        (let u = drop 3 t; v = (if begins_with ''json'' u then drop 4 u else u)
         in fence_body (dropWhile is_space v))
      else None)"

text \<open>\<open>_strip_plan_wrappers\<close>.\<close>

definition strip_plan_wrappers :: "string \<Rightarrow> string" where
  "strip_plan_wrappers value =
     (let stripped = strip_think value in
      case fenced stripped of Some b \<Rightarrow> b | None \<Rightarrow> py_strip stripped)"

text \<open>\<open>_RawPlan.model_validate\<close>: three fields and no other, \<open>next\<close> required.\<close>

definition dict_list :: "json \<Rightarrow> jobj list option" where
  "dict_list v = (case v of
     JList vs \<Rightarrow> (if list_all is_dict vs then Some (map (\<lambda>w. the (as_dict w)) vs) else None)
   | _ \<Rightarrow> None)"

record raw_plan =
  rp_next :: string
  rp_ops :: "jobj list option"
  rp_export :: "string list"

definition raw_plan_of :: "jobj \<Rightarrow> raw_plan option" where
  "raw_plan_of d =
     (if \<not> set (map fst d) \<subseteq> {''next'', ''ops'', ''export''} then None
      else case (jget d ''next'', string_list (dict_get d ''export'' (JList []))) of
        (JStr n, Some export) \<Rightarrow>
          (case jget d ''ops'' of
             JNull \<Rightarrow> Some \<lparr>rp_next = n, rp_ops = None, rp_export = export\<rparr>
           | ops \<Rightarrow> map_option (\<lambda>os. \<lparr>rp_next = n, rp_ops = Some os, rp_export = export\<rparr>) (dict_list ops))
      | _ \<Rightarrow> None)"

text \<open>\<open>validate_plan_text\<close>.\<close>

definition validate_plan_text :: "json_codec \<Rightarrow> string \<Rightarrow> plan driven" where
  "validate_plan_text C value =
     (case jc_loads C (strip_plan_wrappers value) of
        Some (JDict d) \<Rightarrow>
          (case raw_plan_of d of
             None \<Rightarrow> Inl DriverProtocolError
           | Some raw \<Rightarrow>
               (if rp_next raw = STOP then
                  (case rp_ops raw of Some (_ # _) \<Rightarrow> Inl DriverProtocolError | _ \<Rightarrow> Inr StopPlan)
                else if rp_next raw = SUBGRAPH then
                  (case rp_ops raw of
                     None \<Rightarrow> Inl DriverProtocolError
                   | Some ops \<Rightarrow> Inr (SubgraphPlan ops (rp_export raw)))
                else Inl DriverProtocolError))
      | _ \<Rightarrow> Inl DriverProtocolError)"

text \<open>\<open>plan_to_dict\<close>.\<close>

fun plan_to_dict :: "plan \<Rightarrow> jobj" where
  "plan_to_dict StopPlan = [(''next'', JStr STOP)]"
| "plan_to_dict (SubgraphPlan ops export) =
     [(''next'', JStr SUBGRAPH), (''ops'', JList (map JDict ops)), (''export'', JList (map JStr export))]"

subsection \<open>The outputs of a round\<close>

text \<open>\<open>result_outputs\<close>.\<close>

definition result_outputs :: "json \<Rightarrow> jobj driven" where
  "result_outputs result =
     (case as_dict result of
        None \<Rightarrow> Inl DriverProtocolError
      | Some envelope \<Rightarrow>
          (case as_dict (jget envelope ''result'') of
             None \<Rightarrow> Inl DriverProtocolError
           | Some nested \<Rightarrow>
               (case as_dict (jget nested ''outputs'') of
                  None \<Rightarrow> Inl DriverProtocolError
                | Some outputs \<Rightarrow> Inr outputs)))"

text \<open>\<open>validate_plan\<close>: exactly one \<open>plan\<close> output over all graphs, holding exactly one string.\<close>

fun plan_outputs :: "jobj \<Rightarrow> json list driven" where
  "plan_outputs [] = Inr []"
| "plan_outputs ((name, graph_outputs) # rest) =
     (case graph_outputs of
        JDict d \<Rightarrow> and_then (plan_outputs rest) (\<lambda>ps.
          Inr (case map_of d ''plan'' of Some p \<Rightarrow> p # ps | None \<Rightarrow> ps))
      | _ \<Rightarrow> Inl DriverProtocolError)"

definition validate_plan :: "json_codec \<Rightarrow> jobj \<Rightarrow> plan driven" where
  "validate_plan C raw_outputs =
     and_then (plan_outputs raw_outputs) (\<lambda>ps.
       case ps of
         [JList [JStr text]] \<Rightarrow> validate_plan_text C text
       | _ \<Rightarrow> Inl DriverProtocolError)"

text \<open>\<open>_extract_archived_outputs\<close>: first the expected outputs of all graphs, each at most once, then
  every expected output as a list of strings.\<close>

fun present_in_graph ::
  "string list \<Rightarrow> (string, json) dict \<Rightarrow> (string \<times> json) list \<Rightarrow> (string, json) dict driven"
where
  "present_in_graph expected present [] = Inr present"
| "present_in_graph expected present ((name, values) # rest) =
     (if name \<in> set expected then
        (if name \<in> fst ` set present then Inl DriverProtocolError
         else present_in_graph expected (AList.update name values present) rest)
      else present_in_graph expected present rest)"

fun present_outputs ::
  "string list \<Rightarrow> (string, json) dict \<Rightarrow> jobj \<Rightarrow> (string, json) dict driven"
where
  "present_outputs expected present [] = Inr present"
| "present_outputs expected present ((graph, outputs) # rest) =
     (case outputs of
        JDict d \<Rightarrow> and_then (present_in_graph expected present d) (\<lambda>p. present_outputs expected p rest)
      | _ \<Rightarrow> present_outputs expected present rest)"

fun archive_expected ::
  "nat \<Rightarrow> (string, json) dict \<Rightarrow> string list \<Rightarrow> (string, string list) dict
     \<Rightarrow> (string, string list) dict driven"
where
  "archive_expected n present [] archived = Inr archived"
| "archive_expected n present (name # names) archived =
     (case map_of present name of
        None \<Rightarrow> Inl DriverProtocolError
      | Some values \<Rightarrow>
          (case string_list values of
             None \<Rightarrow> Inl DriverProtocolError
           | Some vs \<Rightarrow> archive_expected n present names (AList.update (drop n name) vs archived)))"

definition extract_archived_outputs ::
  "jobj \<Rightarrow> string list \<Rightarrow> string \<Rightarrow> (string, string list) dict driven"
where
  "extract_archived_outputs outputs expected prfx =
     and_then (present_outputs expected [] outputs) (\<lambda>present.
       archive_expected (length prfx) present expected [])"

text \<open>\<open>_flatten_leaf_outputs\<close>: a value that is not JSON is kept verbatim.\<close>

definition flatten_values :: "json_codec \<Rightarrow> string list \<Rightarrow> json list" where
  "flatten_values C values =
     map (\<lambda>v. case jc_loads C v of Some j \<Rightarrow> j | None \<Rightarrow> JStr v) values"

definition flatten_leaf_outputs ::
  "json_codec \<Rightarrow> (string, string list) dict \<Rightarrow> (string, json list) dict"
where
  "flatten_leaf_outputs C leaf_outputs = map (\<lambda>(i, vs). (i, flatten_values C vs)) leaf_outputs"

text \<open>\<open>walk_archived_items\<close>.\<close>

definition walk_archived_items ::
  "json_codec \<Rightarrow> (string, string list) dict \<Rightarrow> (string, jobj) dict \<Rightarrow> (string, string list) dict driven"
where
  "walk_archived_items C archived configs =
     traverse (\<lambda>(node, values).
       let config = dict_get configs node [] in
       and_then (default_forward_path (dict_get config ''op'' (JStr [])) config) (\<lambda>path.
       and_then (traverse (\<lambda>v. case jc_loads C v of Some j \<Rightarrow> Inr j | None \<Rightarrow> Inl DriverProtocolError)
           values) (\<lambda>items.
       and_then (forward_values C items (path_parts path)) (\<lambda>walked. Inr (node, walked))))) archived"

subsection \<open>Where a round writes\<close>

text \<open>\<open>round_output_location\<close>; a missing \<open>type\<close> or \<open>prefix\<close> is a \<open>KeyError\<close>.\<close>

definition round_output_location :: "jobj \<Rightarrow> string \<Rightarrow> nat \<Rightarrow> jobj driven" where
  "round_output_location base run_namespace round_index =
     (case map_of base ''type'' of
        None \<Rightarrow> Inl OtherRaised
      | Some type \<Rightarrow>
          (if type = JStr ''s3'' then
             (case map_of base ''prefix'' of
                Some (JStr p) \<Rightarrow>
                  (let sep = (if p \<noteq> [] \<and> last p = CHR ''/'' then [] else ''/'') in
                   Inr [(''type'', JStr ''s3''),
                        (''prefix'', JStr (p @ sep @ run_namespace @ ''/round-'' @ nat_str round_index @ ''/''))])
              | _ \<Rightarrow> Inl OtherRaised)
           else Inl DriverProtocolError))"

subsection \<open>Internal ids\<close>

text \<open>\<open>make_id\<close> of \<open>parser/common.py\<close> and \<open>_op_id_prefix\<close> of \<open>parser/yaml_parser.py\<close>:
  \<open>digest\<close> is the number the source takes from a hash of \<open>"{scope}:{name}"\<close>.\<close>

definition is_alnum :: "char \<Rightarrow> bool" where
  "is_alnum c = (is_word c \<and> c \<noteq> CHR ''_'')"

fun slug :: "string \<Rightarrow> string" where
  "slug [] = []"
| "slug (c # cs) =
     (if is_alnum c then c # slug cs
      else case cs of [] \<Rightarrow> ''_'' | d # ds \<Rightarrow> if is_alnum d then CHR ''_'' # slug cs else slug cs)"

definition strip_underscores :: "string \<Rightarrow> string" where
  "strip_underscores s =
     rev (dropWhile (\<lambda>c. c = CHR ''_'') (rev (dropWhile (\<lambda>c. c = CHR ''_'') s)))"

definition slug_or :: "string \<Rightarrow> string \<Rightarrow> string" where
  "slug_or s fallback = (let t = strip_underscores (slug s) in if t = [] then fallback else t)"

definition make_id :: "(string \<Rightarrow> nat) \<Rightarrow> string \<Rightarrow> string \<Rightarrow> string \<Rightarrow> string" where
  "make_id digest scope prfx name =
     prfx @ ''_'' @ slug_or scope ''graph'' @ ''_'' @ slug_or name ''node'' @ ''_''
       @ nat_str (digest (scope @ '':'' @ name))"

definition op_id_prefix :: "string \<Rightarrow> string" where
  "op_id_prefix type =
     dict_get [(''DataOp'', ''data''), (''DataRetrievalOp'', ''retrieval''), (''MessageOp'', ''message''),
        (''LLMChatOp'', ''llm''), (''LLMVisionOp'', ''llmvision''), (''ImageGenerationOp'', ''imagegen''),
        (''EmbeddingOp'', ''embedding''), (''FormatOp'', ''format''), (''LambdaOp'', ''lambda'')]
       type (py_lower type)"

definition internal_id :: "(string \<Rightarrow> nat) \<Rightarrow> string \<Rightarrow> string \<Rightarrow> string \<Rightarrow> string" where
  "internal_id digest scope type user_id = make_id digest scope (op_id_prefix type) user_id"

subsection \<open>A round\<close>

record round_build =
  rb_graph :: jobj
  rb_leaf_output_names :: "string list"
  rb_leaf_user_ids :: "string list"
  rb_export_output_names :: "string list"
  rb_export_user_ids :: "string list"
  rb_forwarded_inputs :: "(string, string list) dict"

text \<open>The workflow a round hands to the parser.\<close>

record round_workflow =
  rw_name :: string
  rw_inputs :: "(string, string list) dict"
  rw_ops :: "jobj list"

definition round_name :: "nat \<Rightarrow> string" where
  "round_name round_index = ''round_'' @ nat_str round_index"

definition id_pairs ::
  "(string \<Rightarrow> nat) \<Rightarrow> string \<Rightarrow> (jobj \<Rightarrow> bool) \<Rightarrow> jobj list \<Rightarrow> (string \<times> string) list"
where
  "id_pairs digest scope P ops =
     sort (map (\<lambda>op. (internal_id digest scope (op_type op) (op_id op), op_id op)) (filter P ops))"

text \<open>The check of \<open>fused_round_graph\<close> (\<open>dynamic/blocks.py\<close>) that every archived operation is in the
  graph, before it adds their output nodes.\<close>

definition archived_in_graph :: "jobj \<Rightarrow> string list \<Rightarrow> string list \<Rightarrow> unit driven" where
  "archived_in_graph native leaf_ids export_ids =
     ensure (set leaf_ids \<subseteq> fst ` set native \<and> set export_ids \<subseteq> fst ` set native) ValueErrorRaised"

definition build_round ::
  "(string \<Rightarrow> nat) \<Rightarrow> (round_workflow \<Rightarrow> jobj driven) \<Rightarrow> json_codec \<Rightarrow> (string, jobj) dict option
     \<Rightarrow> jobj list \<Rightarrow> (string, jobj) dict \<Rightarrow> nat \<Rightarrow> (string, json list) dict \<Rightarrow> string list \<Rightarrow> nat
     \<Rightarrow> round_build driven"
where
  "build_round digest parse C library subgraph0 registry round_index results export rows =
     and_then (resolve_subgraph subgraph0 library) (\<lambda>subgraph.
     and_then (forward_refs \<lparr>fe_codec = C, fe_results = results, fe_configs = registry, fe_rows = rows\<rparr>
         subgraph) (\<lambda>(forwarded, inputs).
     and_then (parse \<lparr>rw_name = round_name round_index,
         rw_inputs = update_all [(INPUT_NODE_ID, [])] inputs, rw_ops = forwarded\<rparr>) (\<lambda>native.
       let scope = round_name round_index;
           leaves = current_leaves subgraph;
           leaf_pairs = id_pairs digest scope (\<lambda>op. op_id op \<in> set leaves) subgraph;
           export_pairs = id_pairs digest scope
             (\<lambda>op. op_id op \<in> set export \<and> op_id op \<notin> set leaves) subgraph
       in and_then (archived_in_graph native (map fst leaf_pairs) (map fst export_pairs)) (\<lambda>_.
            Inr \<lparr>rb_graph = native,
                 rb_leaf_output_names = map (\<lambda>i. ''leaf_'' @ i) (map fst leaf_pairs),
                 rb_leaf_user_ids = map snd leaf_pairs,
                 rb_export_output_names = map (\<lambda>i. ''export_'' @ i) (map fst export_pairs),
                 rb_export_user_ids = map snd export_pairs,
                 rb_forwarded_inputs = inputs\<rparr>))))"

end
