(* ===== verification/Job_Status.thy ===== *)
theory Job_Status
  imports Prelude
begin

section \<open>Job statuses\<close>

text \<open>\<open>JobStatus\<close> and \<open>TERMINAL_JOB_STATUSES\<close> of \<open>routes/jobs.py\<close>, which the archive, the routes and the
  dynamic runs share.\<close>

datatype job_status = JobPending | JobRunning | JobCompleted | JobFailed | JobCancelled

definition terminal_status :: "job_status \<Rightarrow> bool" where
  "terminal_status st = (st \<in> {JobCompleted, JobFailed, JobCancelled})"

text \<open>\<open>_ACTIVE_STATUSES\<close>.\<close>

definition active_statuses :: "job_status list" where
  "active_statuses = [JobPending, JobRunning]"

lemma active_iff: "st \<in> set active_statuses \<longleftrightarrow> \<not> terminal_status st"
  by (cases st) (simp_all add: active_statuses_def terminal_status_def)

end
