(* ===== verification/Dynamic_Run.thy ===== *)
theory Dynamic_Run
  imports Dynamic_Plan Job_Status
begin

section \<open>The run of a dynamic workflow\<close>

text \<open>
  \<open>_run_dynamic_job\<close> of \<open>routes/jobs.py\<close>: the loop that asks the planner for a subgraph, runs it as a
  child job, records what it archived and goes on until the planner stops or the rounds are used up.

  \<^item> \<open>dyn_vars\<close> holds the loop's local variables, \<open>job_record\<close> the fields of \<open>JobRecord\<close> the loop reads
    and writes (times as flags, an error as a short text).
  \<^item> Each stretch between two awaits that matter is one function; \<open>dyn_step\<close> runs them in the code's
    order. In between, other tasks act on the same record: a cancellation or a shutdown makes it
    terminal at any moment. An exception of an awaited call (a save, the child) is the step \<open>crashed\<close>.
  \<^item> The environment (\<open>dyn_env\<close>) gives the JSON codec, the parser and the hash of \<open>Dynamic_Plan\<close>, the
    check of the declared inputs and the observation template. Planner replies and the children's ends
    are arbitrary.
\<close>

subsection \<open>Job records\<close>

text \<open>\<open>ProgressStep\<close> of the execution: completed, rounds succeeded, rounds pending.\<close>

record exec_progress =
  ep_completed :: bool
  ep_succeeded :: nat
  ep_pending :: nat

text \<open>The result of a run: the plans, and the walked leaf outputs of each round.\<close>

record dyn_result =
  rr_plans :: "jobj list"
  rr_results :: "(string, json list) dict list"

record job_record =
  jr_status :: job_status
  jr_started :: bool
  jr_finished :: bool
  jr_error :: "string option"
  jr_progress :: "exec_progress option"
  jr_result :: "dyn_result option"
  jr_children :: "string list"

text \<open>The guarded write at every exit: a record that is terminal already stays as it is.\<close>

definition end_record :: "job_status \<Rightarrow> string option \<Rightarrow> job_record \<Rightarrow> job_record" where
  "end_record st err job =
     (if terminal_status (jr_status job) then job
      else job\<lparr>jr_status := st, jr_error := err, jr_finished := True\<rparr>)"

subsection \<open>The loop's variables and its environment\<close>

record dyn_env =
  de_codec :: json_codec
  de_digest :: "string \<Rightarrow> nat"
  de_parse :: "round_workflow \<Rightarrow> jobj driven"
  de_declared :: declared_check
  de_hash :: "json \<Rightarrow> string"
  de_observe :: "(string, string list) dict \<Rightarrow> string driven"
  de_library :: "(string, jobj) dict option"
  de_max_rounds :: nat
  de_max_nodes :: nat
  de_api :: bool
  de_symbols :: "string list"
  de_location :: jobj
  de_namespace :: string

record dyn_vars =
  dy_round :: nat
  dy_registry :: "(string, jobj) dict"
  dy_observations :: "string list"
  dy_plans :: "jobj list"
  dy_round_results :: "(string, json list) dict list"
  dy_results :: "(string, json list) dict"
  dy_subgraph :: "jobj list"
  dy_export :: "string list"

definition dyn_init :: dyn_vars where
  "dyn_init = \<lparr>dy_round = 0, dy_registry = [], dy_observations = [], dy_plans = [],
     dy_round_results = [], dy_results = [], dy_subgraph = [], dy_export = []\<rparr>"

subsection \<open>The planner\<close>

text \<open>\<open>_call_api_planner\<close>: the content of the first of the \<open>retries + 1\<close> attempts that yields a string;
  an attempt that fails, or whose reply has no content, is \<open>None\<close>.\<close>

fun first_text :: "json option list \<Rightarrow> string driven" where
  "first_text [] = Inl DriverProtocolError"
| "first_text (attempt # attempts) =
     (case attempt of Some (JStr content) \<Rightarrow> Inr content | _ \<Rightarrow> first_text attempts)"

definition call_api_planner :: "nat option \<Rightarrow> json option list \<Rightarrow> string driven" where
  "call_api_planner retries attempts =
     first_text (take ((case retries of None \<Rightarrow> 0 | Some n \<Rightarrow> n) + 1) attempts)"

subsection \<open>Admission\<close>

text \<open>\<open>_admit_subgraph\<close>: the resolved operations and the registry with them.\<close>

definition admit_subgraph ::
  "dyn_env \<Rightarrow> jobj list \<Rightarrow> string list \<Rightarrow> (string, jobj) dict \<Rightarrow> (string, json list) dict
     \<Rightarrow> (jobj list \<times> (string, jobj) dict) driven"
where
  "admit_subgraph env ops export registry results =
     and_then (validate_emitted_subgraph (de_declared env) ops registry (de_max_nodes env)
         (de_library env) (Some export) (Some (fst ` set results))) (\<lambda>_.
     and_then (resolve_subgraph ops (de_library env)) (\<lambda>resolved.
       Inr (resolved, update_all registry (map (\<lambda>op. (op_id op, op)) resolved))))"

text \<open>Whether the run goes on with the plan: \<open>None\<close> on a stop.\<close>

definition follow_plan :: "dyn_env \<Rightarrow> plan \<Rightarrow> dyn_vars \<Rightarrow> dyn_vars option driven" where
  "follow_plan env plan v =
     (let w = v\<lparr>dy_plans := dy_plans v @ [plan_to_dict plan]\<rparr> in
      case plan of
        StopPlan \<Rightarrow> Inr None
      | SubgraphPlan ops export \<Rightarrow>
          and_then (admit_subgraph env ops export (dy_registry w) (dy_results w)) (\<lambda>(resolved, registry).
            Inr (Some (w\<lparr>dy_registry := registry, dy_subgraph := resolved, dy_export := export,
              dy_round := dy_round w + 1\<rparr>))))"

text \<open>With an external planner round 0 dispatches nothing: its reply is the first plan.\<close>

definition first_plan :: "dyn_env \<Rightarrow> string driven \<Rightarrow> dyn_vars \<Rightarrow> (plan \<times> dyn_vars option) driven" where
  "first_plan env reply v =
     and_then reply (\<lambda>text.
     and_then (validate_plan_text (de_codec env) text) (\<lambda>plan.
     and_then (follow_plan env plan v) (\<lambda>next. Inr (plan, next))))"

subsection \<open>Building a round and absorbing its outputs\<close>

definition build_current :: "dyn_env \<Rightarrow> dyn_vars \<Rightarrow> round_build driven" where
  "build_current env v =
     build_round (de_digest env) (de_parse env) (de_codec env) (de_library env) (dy_subgraph v)
       (dy_registry v) (dy_round v) (dy_results v) (dy_export v) (length (de_symbols env))"

text \<open>The configurations of the archived operations under their internal ids.\<close>

definition cut_names :: "nat \<Rightarrow> string list \<Rightarrow> string list \<Rightarrow> (string \<times> string) list" where
  "cut_names n names users = zip (map (drop n) names) users"

definition archived_users :: "round_build \<Rightarrow> (string \<times> string) list" where
  "archived_users b =
     cut_names 5 (rb_leaf_output_names b) (rb_leaf_user_ids b)
       @ cut_names 7 (rb_export_output_names b) (rb_export_user_ids b)"

definition internal_configs :: "(string, jobj) dict \<Rightarrow> round_build \<Rightarrow> (string, jobj) dict driven" where
  "internal_configs registry b =
     and_then (traverse (\<lambda>(internal, user).
         case map_of registry user of None \<Rightarrow> Inl OtherRaised | Some op \<Rightarrow> Inr (internal, op))
       (archived_users b)) (\<lambda>configs. Inr (update_all [] configs))"

text \<open>The decoded items of the round under the ids later rounds use.\<close>

fun store_results ::
  "json_codec \<Rightarrow> (string \<times> string) list \<Rightarrow> (string, string list) dict \<Rightarrow> (string, json list) dict
     \<Rightarrow> (string, json list) dict driven"
where
  "store_results C users [] results = Inr results"
| "store_results C users ((internal, values) # rest) results =
     (case map_of (rev users) internal of
        None \<Rightarrow> Inl OtherRaised
      | Some user \<Rightarrow> store_results C users rest (AList.update user (flatten_values C values) results))"

text \<open>The body of the loop after the child has completed, up to the next plan. The reply is that of
  the external planner and unused without one.\<close>

definition absorb_round ::
  "dyn_env \<Rightarrow> round_build \<Rightarrow> jobj \<Rightarrow> string driven \<Rightarrow> dyn_vars \<Rightarrow> (plan \<times> dyn_vars) driven"
where
  "absorb_round env b outputs reply v =
     and_then (result_outputs (JDict [(''result'', JDict [(''outputs'', JDict outputs)])])) (\<lambda>outs.
     and_then (extract_archived_outputs outs (rb_leaf_output_names b) ''leaf_'') (\<lambda>leaf_outputs.
     and_then (extract_archived_outputs outs (rb_export_output_names b) ''export_'') (\<lambda>export_outputs.
     and_then (internal_configs (dy_registry v) b) (\<lambda>configs.
     and_then (walk_archived_items (de_codec env) leaf_outputs configs) (\<lambda>walked.
     and_then (de_observe env walked) (\<lambda>observation.
     and_then (if de_api env then and_then reply (validate_plan_text (de_codec env))
               else validate_plan (de_codec env) outs) (\<lambda>plan.
     and_then (store_results (de_codec env) (cut_names 5 (rb_leaf_output_names b) (rb_leaf_user_ids b))
         leaf_outputs (dy_results v)) (\<lambda>results1.
     and_then (store_results (de_codec env) (cut_names 7 (rb_export_output_names b) (rb_export_user_ids b))
         export_outputs results1) (\<lambda>results2.
       Inr (plan, v\<lparr>dy_round_results := dy_round_results v @ [flatten_leaf_outputs (de_codec env) walked],
                    dy_observations := dy_observations v @ [observation],
                    dy_results := results2\<rparr>))))))))))"

subsection \<open>States and steps\<close>

datatype dyn_phase = NotStarted | Started | AtRound | AwaitingChild round_build | Closing | Ended

record dyn_run =
  dr_job :: job_record
  dr_phase :: dyn_phase
  dr_vars :: dyn_vars

text \<open>How a child ends, as its parent sees it.\<close>

datatype child_end = ChildTimeout | ChildStopped job_status | ChildNoResult | ChildCompleted jobj

definition leave :: "job_status \<Rightarrow> string option \<Rightarrow> dyn_run \<Rightarrow> dyn_run" where
  "leave st err r = r\<lparr>dr_phase := Ended, dr_job := end_record st err (dr_job r)\<rparr>"

text \<open>The messages of the two handlers around a plan and around a build, which catch the protocol
  errors and the value errors, and of the handler around the whole run.\<close>

definition crash_error :: string where
  "crash_error = ''dynamic run failed''"

definition plan_error :: "driver_error \<Rightarrow> string" where
  "plan_error e = (if e = OtherRaised then crash_error else ''dynamic round produced an invalid plan'')"

definition build_error :: "driver_error \<Rightarrow> string" where
  "build_error e = (if e = OtherRaised then crash_error else ''dynamic round failed to build'')"

text \<open>The start: the record is marked as running unless it is terminal, and saved. The awaits of that save
  end this stretch; the progress of round 0 is written after it, whatever the record's status is by then.\<close>

definition dyn_start :: "dyn_run \<Rightarrow> dyn_run" where
  "dyn_start r =
     (if terminal_status (jr_status (dr_job r)) then r\<lparr>dr_phase := Ended\<rparr>
      else r\<lparr>dr_phase := Started,
        dr_job := (dr_job r)\<lparr>jr_status := JobRunning, jr_started := True\<rparr>\<rparr>)"

definition opening_progress :: "dyn_env \<Rightarrow> exec_progress" where
  "opening_progress env =
     \<lparr>ep_completed = False, ep_succeeded = 0, ep_pending = de_max_rounds env\<rparr>"

definition dyn_open :: "dyn_env \<Rightarrow> dyn_run \<Rightarrow> dyn_run" where
  "dyn_open env r =
     r\<lparr>dr_phase := AtRound, dr_vars := dyn_init,
       dr_job := (dr_job r)\<lparr>jr_progress := Some (opening_progress env)\<rparr>\<rparr>"

text \<open>The reply to the first request: round 0 of a run with an external planner.\<close>

definition with_plan :: "plan \<Rightarrow> dyn_vars \<Rightarrow> dyn_vars" where
  "with_plan plan v = v\<lparr>dy_plans := dy_plans v @ [plan_to_dict plan]\<rparr>"

definition dyn_first :: "dyn_env \<Rightarrow> string driven \<Rightarrow> dyn_run \<Rightarrow> dyn_run" where
  "dyn_first env reply r =
     (case first_plan env reply (dr_vars r) of
        Inl e \<Rightarrow> leave JobFailed (Some (plan_error e)) r
      | Inr (plan, None) \<Rightarrow> r\<lparr>dr_phase := Closing, dr_vars := with_plan plan (dr_vars r)\<rparr>
      | Inr (plan, Some v) \<Rightarrow> r\<lparr>dr_vars := v\<rparr>)"

text \<open>Building the round and creating its child (\<open>_submit_dynamic_child\<close>): the round is sliced into
  one graph per row; a round that does not compile for a request without GPU fails the parent; a
  parent that is terminal gets no child.\<close>

definition round_slices :: "dyn_env \<Rightarrow> round_build \<Rightarrow> nat \<Rightarrow> submission result" where
  "round_slices env b round_index =
     child_slices (de_hash env (JDict (rb_graph b))) (JDict (rb_graph b)) (de_symbols env)
       (rb_forwarded_inputs b) round_index"

definition dyn_submit :: "dyn_env \<Rightarrow> string \<Rightarrow> bool \<Rightarrow> dyn_run \<Rightarrow> dyn_run" where
  "dyn_submit env child compiles r =
     (let i = dy_round (dr_vars r) in
      case build_current env (dr_vars r) of
        Inl e \<Rightarrow> leave JobFailed (Some (build_error e)) r
      | Inr b \<Rightarrow>
          (case (round_output_location (de_location env) (de_namespace env) i, round_slices env b i) of
             (Inr loc, Inr slices) \<Rightarrow>
               (if \<not> compiles then leave JobFailed (Some ''dynamic round failed to compile'') r
                else if terminal_status (jr_status (dr_job r)) then r\<lparr>dr_phase := Ended\<rparr>
                else r\<lparr>dr_phase := AwaitingChild b,
                  dr_job := (dr_job r)\<lparr>jr_children := append_new (jr_children (dr_job r)) child\<rparr>\<rparr>)
           | _ \<Rightarrow> leave JobFailed (Some crash_error) r))"

text \<open>The end of the round's child: the next plan, or the end of the run.\<close>

definition round_done :: "dyn_env \<Rightarrow> dyn_vars \<Rightarrow> dyn_run \<Rightarrow> dyn_run" where
  "round_done env v r =
     (if terminal_status (jr_status (dr_job r)) then r\<lparr>dr_phase := Ended\<rparr>
      else r\<lparr>dr_phase := AtRound, dr_vars := v,
        dr_job := (dr_job r)\<lparr>jr_progress := Some \<lparr>ep_completed = False, ep_succeeded = dy_round v,
          ep_pending = de_max_rounds env - dy_round v\<rparr>\<rparr>\<rparr>)"

definition dyn_child_end :: "dyn_env \<Rightarrow> round_build \<Rightarrow> child_end \<Rightarrow> string driven \<Rightarrow> dyn_run \<Rightarrow> dyn_run" where
  "dyn_child_end env b ending reply r =
     (case ending of
        ChildTimeout \<Rightarrow> leave JobFailed (Some ''job timeout'') r
      | ChildStopped st \<Rightarrow>
          (if st = JobCancelled then leave JobCancelled (Some ''round was cancelled'') r
           else leave JobFailed (Some ''round failed'') r)
      | ChildNoResult \<Rightarrow> leave JobFailed (Some ''round produced no result'') r
      | ChildCompleted outputs \<Rightarrow>
          (case absorb_round env b outputs reply (dr_vars r) of
             Inl e \<Rightarrow> leave JobFailed (Some (plan_error e)) r
           | Inr (plan, v) \<Rightarrow>
               (case follow_plan env plan v of
                  Inl e \<Rightarrow> leave JobFailed (Some (plan_error e)) r
                | Inr None \<Rightarrow> r\<lparr>dr_phase := Closing, dr_vars := with_plan plan v\<rparr>
                | Inr (Some w) \<Rightarrow> round_done env w r)))"

definition dyn_close :: "dyn_run \<Rightarrow> dyn_run" where
  "dyn_close r =
     (let v = dr_vars r in
      if terminal_status (jr_status (dr_job r)) then r\<lparr>dr_phase := Ended\<rparr>
      else r\<lparr>dr_phase := Ended,
        dr_job := (dr_job r)\<lparr>jr_status := JobCompleted, jr_finished := True,
          jr_progress := Some \<lparr>ep_completed = True, ep_succeeded = length (dy_plans v), ep_pending = 0\<rparr>,
          jr_result := Some \<lparr>rr_plans = dy_plans v, rr_results = dy_round_results v\<rparr>\<rparr>\<rparr>)"

text \<open>What other tasks do to the record: a cancellation, a shutdown.\<close>

definition stop_record :: "job_status \<Rightarrow> string \<Rightarrow> job_record \<Rightarrow> job_record" where
  "stop_record st reason job =
     job\<lparr>jr_status := st, jr_finished := True,
       jr_error := (case jr_error job of Some (c # cs) \<Rightarrow> Some (c # cs) | _ \<Rightarrow> Some reason)\<rparr>"

inductive dyn_step :: "dyn_env \<Rightarrow> dyn_run \<Rightarrow> dyn_run \<Rightarrow> bool" for env where
  start: "dr_phase r = NotStarted \<Longrightarrow> dyn_step env r (dyn_start r)"
| opened: "dr_phase r = Started \<Longrightarrow> dyn_step env r (dyn_open env r)"
| first: "dr_phase r = AtRound \<Longrightarrow> dy_round (dr_vars r) = 0 \<Longrightarrow> de_api env \<Longrightarrow> 0 < de_max_rounds env
    \<Longrightarrow> dyn_step env r (dyn_first env (call_api_planner retries attempts) r)"
| submit: "dr_phase r = AtRound \<Longrightarrow> dy_round (dr_vars r) < de_max_rounds env
    \<Longrightarrow> \<not> (de_api env \<and> dy_round (dr_vars r) = 0) \<Longrightarrow> child \<notin> set (jr_children (dr_job r))
    \<Longrightarrow> dyn_step env r (dyn_submit env child compiles r)"
| child: "dr_phase r = AwaitingChild b
    \<Longrightarrow> dyn_step env r (dyn_child_end env b ending (call_api_planner retries attempts) r)"
| exhausted: "dr_phase r = AtRound \<Longrightarrow> de_max_rounds env \<le> dy_round (dr_vars r)
    \<Longrightarrow> dyn_step env r (dyn_close r)"
| close: "dr_phase r = Closing \<Longrightarrow> dyn_step env r (dyn_close r)"
| crashed: "dr_phase r \<in> {Started, AtRound} \<or> dr_phase r = AwaitingChild b
    \<Longrightarrow> dyn_step env r (leave JobFailed (Some crash_error) r)"
| cancelled: "\<not> terminal_status (jr_status (dr_job r))
    \<Longrightarrow> dyn_step env r (r\<lparr>dr_job := stop_record JobCancelled ''cancelled by user'' (dr_job r)\<rparr>)"
| shutdown: "\<not> terminal_status (jr_status (dr_job r))
    \<Longrightarrow> dyn_step env r (r\<lparr>dr_job := stop_record JobFailed ''server shutdown'' (dr_job r)\<rparr>)"

inductive_cases dyn_stepE: "dyn_step env r r'"

definition job_submitted :: job_record where
  "job_submitted = \<lparr>jr_status = JobPending, jr_started = False, jr_finished = False, jr_error = None,
     jr_progress = None, jr_result = None, jr_children = []\<rparr>"

definition dyn_run_init :: dyn_run where
  "dyn_run_init = \<lparr>dr_job = job_submitted, dr_phase = NotStarted, dr_vars = dyn_init\<rparr>"

inductive dyn_reachable :: "dyn_env \<Rightarrow> dyn_run \<Rightarrow> bool" for env where
  init: "dyn_reachable env dyn_run_init"
| step: "dyn_reachable env r \<Longrightarrow> dyn_step env r r' \<Longrightarrow> dyn_reachable env r'"

end
