(* ===== verification/Dynamic_Binding.thy ===== *)
theory Dynamic_Binding
  imports Dynamic_Subgraph
begin

section \<open>Binding the parameters of a template\<close>

text \<open>
  What \<open>_apply_param_bindings\<close> does to a template's parameters, against a specification that does not
  mention its dictionary: a parameter whose label a binding names gets the input of the last such
  binding as its node and keeps the rest, every other parameter stays as it is. When the labels differ
  the list keeps its length and order; of parameters that share a label (or have none) only the last
  survives.
\<close>

subsection \<open>Equality of labels\<close>

lemma py_same_refl: "py_same a a"
  by (simp add: py_same_def split: option.splits)

lemma py_same_sym: "py_same a b \<Longrightarrow> py_same b a"
  by (auto simp: py_same_def split: option.splits)

lemma py_same_trans: "py_same a b \<Longrightarrow> py_same b c \<Longrightarrow> py_same a c"
  by (auto simp: py_same_def split: option.splits)

lemma py_same_cong: "py_same a b \<Longrightarrow> py_same a c \<longleftrightarrow> py_same b c"
  using py_same_sym py_same_trans by blast

subsection \<open>The specification\<close>

definition labels_differ :: "jobj list \<Rightarrow> bool" where
  "labels_differ ps = sorted_wrt (\<lambda>p q. \<not> py_same (jget p ''label'') (jget q ''label'')) ps"

text \<open>The bindings of a label, in their order.\<close>

definition bindings_of :: "json list \<Rightarrow> json \<Rightarrow> jobj list" where
  "bindings_of bindings label =
     filter (\<lambda>b. py_same (jget b ''label'') label) (List.map_filter as_dict bindings)"

definition bound_from :: "json list \<Rightarrow> string list \<Rightarrow> jobj \<Rightarrow> jobj \<Rightarrow> bool" where
  "bound_from bindings refs p q =
     (let bs = bindings_of bindings (jget p ''label'') in
      if bs = [] then q = p
      else \<exists>slot. as_int (jget (last bs) ''input'') = Some slot \<and> 0 \<le> slot \<and> slot < int (length refs)
        \<and> map_of q ''node'' = Some (JStr (refs ! nat slot)) \<and> (\<forall>k. k \<noteq> ''node'' \<longrightarrow> map_of q k = map_of p k))"

text \<open>The last parameter with the label of another.\<close>

definition last_labelled :: "jobj list \<Rightarrow> jobj \<Rightarrow> jobj" where
  "last_labelled ps p = last (filter (\<lambda>p'. py_same (jget p' ''label'') (jget p ''label'')) ps)"

text \<open>The parameters \<open>qs\<close> after binding \<open>ps\<close>: one for each label, made from the last parameter with it;
  exactly the parameters given, in their order, when their labels differ.\<close>

definition bound_params :: "json list \<Rightarrow> string list \<Rightarrow> jobj list \<Rightarrow> jobj list \<Rightarrow> bool" where
  "bound_params bindings refs ps qs =
     ((labels_differ ps \<longrightarrow> list_all2 (bound_from bindings refs) ps qs)
      \<and> labels_differ qs
      \<and> (\<forall>p\<in>set ps. \<exists>q\<in>set qs. py_same (jget p ''label'') (jget q ''label'')
            \<and> bound_from bindings refs (last_labelled ps p) q)
      \<and> (\<forall>q\<in>set qs. \<exists>p\<in>set ps. bound_from bindings refs p q)
      \<and> (\<forall>b\<in>set (List.map_filter as_dict bindings).
           \<exists>p\<in>set ps. py_same (jget p ''label'') (jget b ''label'')))"

subsection \<open>The dictionary of parameters\<close>

definition keys_differ :: "labelled \<Rightarrow> bool" where
  "keys_differ d = sorted_wrt (\<lambda>a b. \<not> py_same (fst a) (fst b)) d"

lemma label_put_new: "\<forall>(k, v)\<in>set d. \<not> py_same k label \<Longrightarrow> label_put label p d = d @ [(label, p)]"
  by (induction d) auto

lemma label_put_keys: "fst ` set (label_put label p d) \<subseteq> insert label (fst ` set d)"
proof (induction d)
  case Nil
  then show ?case by simp
next
  case (Cons a d)
  then show ?case by (cases a; cases "py_same (fst a) label") auto
qed

lemma label_put_differ: "keys_differ d \<Longrightarrow> keys_differ (label_put label p d)"
proof (induction d)
  case Nil
  then show ?case by (simp add: keys_differ_def)
next
  case (Cons a d)
  obtain k v where a: "a = (k, v)" by force
  show ?case
  proof (cases "py_same k label")
    case True
    then show ?thesis using Cons.prems a by (auto simp: keys_differ_def)
  next
    case False
    have "\<not> py_same k l" if "l \<in> fst ` set (label_put label p d)" for l
      using that label_put_keys[of label p d] Cons.prems False a by (fastforce simp: keys_differ_def)
    then show ?thesis using Cons False a by (auto simp: keys_differ_def)
  qed
qed

lemma label_put_entry:
  "(k, q) \<in> set (label_put label p d) \<Longrightarrow> (k, q) \<in> set d \<or> q = p \<and> py_same k label"
  by (induction d) (auto simp: py_same_refl split: if_splits)

text \<open>In place, since no other key is the same.\<close>

lemma label_put_map:
  assumes "keys_differ d" "label_find d label = Some p"
  shows "label_put label q d = map (\<lambda>(k, v). (k, if py_same k label then q else v)) d"
  using assms
proof (induction d)
  case Nil
  then show ?case by (simp add: label_find_def)
next
  case (Cons a d)
  obtain k v where a: "a = (k, v)" by force
  show ?case
  proof (cases "py_same k label")
    case True
    have "\<not> py_same l label" if l: "(l, w) \<in> set d" for l w
    proof
      assume "py_same l label"
      then have "py_same k l" by (rule py_same_trans[OF True py_same_sym])
      moreover have "\<not> py_same k l" using Cons.prems(1) l by (auto simp: keys_differ_def a)
      ultimately show False by simp
    qed
    then have "map (\<lambda>(k, v). (k, if py_same k label then q else v)) d = d"
      by (intro map_idI) auto
    then show ?thesis using True a by simp
  next
    case False
    then show ?thesis using Cons a by (simp add: label_find_def keys_differ_def)
  qed
qed

lemma label_find_entry:
  "label_find d label = Some p \<Longrightarrow> \<exists>k. (k, p) \<in> set d \<and> py_same k label"
  by (auto simp: label_find_def find_Some_iff dest: nth_mem) (metis nth_mem)

lemma label_find_unique:
  assumes "keys_differ d" "label_find d label = Some p" "(k, v) \<in> set d" "py_same k label"
  shows "v = p"
  using assms
proof (induction d)
  case Nil
  then show ?case by simp
next
  case (Cons a d)
  obtain l w where a: "a = (l, w)" by force
  show ?case
  proof (cases "py_same l label")
    case True
    then have "\<not> py_same l k \<Longrightarrow> False" using Cons.prems(4) py_same_sym py_same_trans by blast
    then have "(k, v) = a" using Cons.prems(1,3) a by (auto simp: keys_differ_def)
    then show ?thesis using Cons.prems(2) True a by (simp add: label_find_def)
  next
    case False
    then show ?thesis using Cons a by (auto simp: label_find_def keys_differ_def)
  qed
qed

lemma label_find_put:
  "label_find (label_put k p d) label = (if py_same k label then Some p else label_find d label)"
proof (induction d)
  case Nil
  then show ?case by (simp add: label_find_def)
next
  case (Cons a d)
  obtain l v where a: "a = (l, v)" by force
  show ?case
  proof (cases "py_same l k")
    case True
    then show ?thesis using py_same_cong[OF True, of label] by (simp add: a label_find_def)
  next
    case False
    then have "\<not> (py_same l label \<and> py_same k label)" using py_same_sym py_same_trans by blast
    then show ?thesis using Cons False by (auto simp: a label_find_def)
  qed
qed

lemma params_by_label_find:
  assumes "params_by_label d (map JDict ps) = Inr l"
  shows "label_find l label =
     (let same = filter (\<lambda>p. py_same (jget p ''label'') label) ps in
      if same = [] then label_find d label else Some (last same))"
  using assms
proof (induction ps arbitrary: d)
  case Nil
  then show ?case by simp
next
  case (Cons p ps)
  have l: "params_by_label (label_put (jget p ''label'') p d) (map JDict ps) = Inr l"
    using Cons.prems by (simp split: if_splits)
  show ?case using Cons.IH[OF l] by (simp add: label_find_put Let_def)
qed

lemma params_by_label_entries:
  assumes "params_by_label d (map JDict ps) = Inr l" "keys_differ d" "\<forall>(k, p)\<in>set d. p \<in> A \<and> py_same k (jget p ''label'')"
  shows "keys_differ l \<and> (\<forall>(k, p)\<in>set l. p \<in> A \<union> set ps \<and> py_same k (jget p ''label''))"
  using assms
proof (induction ps arbitrary: d A)
  case Nil
  then show ?case by simp
next
  case (Cons p ps)
  have l: "params_by_label (label_put (jget p ''label'') p d) (map JDict ps) = Inr l"
    using Cons.prems(1) by (simp split: if_splits)
  have "keys_differ l \<and> (\<forall>(k, q)\<in>set l. q \<in> insert p A \<union> set ps \<and> py_same k (jget q ''label''))"
    by (rule Cons.IH[OF l label_put_differ[OF Cons.prems(2)]])
      (use Cons.prems(3) in \<open>auto dest!: label_put_entry\<close>)
  then show ?case by auto
qed

lemma params_by_label_distinct:
  assumes "params_by_label d (map JDict ps) = Inr l" "labels_differ ps"
    "\<forall>(k, v)\<in>set d. \<forall>p\<in>set ps. \<not> py_same k (jget p ''label'')"
  shows "l = d @ map (\<lambda>p. (jget p ''label'', p)) ps"
  using assms
proof (induction ps arbitrary: d)
  case Nil
  then show ?case by simp
next
  case (Cons p ps)
  have l: "params_by_label (label_put (jget p ''label'') p d) (map JDict ps) = Inr l"
    using Cons.prems(1) by (simp split: if_splits)
  have put: "label_put (jget p ''label'') p d = d @ [(jget p ''label'', p)]"
    using Cons.prems(3) by (intro label_put_new) auto
  have "l = (d @ [(jget p ''label'', p)]) @ map (\<lambda>p. (jget p ''label'', p)) ps"
    by (rule Cons.IH[OF l[unfolded put]]) (use Cons.prems(2,3) in \<open>auto simp: labels_differ_def\<close>)
  then show ?case by simp
qed

lemma params_are_dicts:
  "params_by_label d vs = Inr l \<Longrightarrow> \<exists>ps. vs = map JDict ps"
proof (induction vs arbitrary: d)
  case Nil
  then show ?case by simp
next
  case (Cons v vs)
  then obtain p where v: "v = JDict p" by (cases v) auto
  then obtain ps where "vs = map JDict ps" using Cons by (auto split: if_splits)
  then show ?case using v by (intro exI[of _ "p # ps"]) simp
qed

subsection \<open>The bindings\<close>

text \<open>The parameter under the key \<open>k\<close> before and after some bindings.\<close>

definition bound_at :: "json list \<Rightarrow> string list \<Rightarrow> json \<Rightarrow> jobj \<Rightarrow> jobj \<Rightarrow> bool" where
  "bound_at bindings refs k p q =
     (let bs = bindings_of bindings k in
      if bs = [] then q = p
      else \<exists>slot. as_int (jget (last bs) ''input'') = Some slot \<and> 0 \<le> slot \<and> slot < int (length refs)
        \<and> map_of q ''node'' = Some (JStr (refs ! nat slot)) \<and> (\<forall>l. l \<noteq> ''node'' \<longrightarrow> map_of q l = map_of p l))"

lemma apply_binding_cases:
  assumes "apply_binding refs d binding = Inr d'" "keys_differ d"
  obtains b slot where "binding = JDict b" "as_int (jget b ''input'') = Some slot" "0 \<le> slot"
    "slot < int (length refs)" "\<exists>(k, p)\<in>set d. py_same k (jget b ''label'')"
    "d' = map (\<lambda>(k, p). (k, if py_same k (jget b ''label'')
       then AList.update ''node'' (JStr (refs ! nat slot)) p else p)) d"
proof -
  obtain b where b: "binding = JDict b" using assms(1) by (auto simp: apply_binding_def split: json.splits)
  obtain p where p: "label_find d (jget b ''label'') = Some p"
    using assms(1) b by (auto simp: apply_binding_def Let_def split: if_splits option.splits)
  obtain slot where s: "as_int (jget b ''input'') = Some slot" "0 \<le> slot" "slot < int (length refs)"
    "d' = label_put (jget b ''label'') (AList.update ''node'' (JStr (refs ! nat slot)) p) d"
    using assms(1) b p by (auto simp: apply_binding_def Let_def split: if_splits option.splits)
  have "d' = map (\<lambda>(k, p). (k, if py_same k (jget b ''label'')
       then AList.update ''node'' (JStr (refs ! nat slot)) p else p)) d"
    unfolding s(4) label_put_map[OF assms(2) p]
    by (intro map_cong) (auto dest: label_find_unique[OF assms(2) p])
  moreover have "\<exists>(k, p)\<in>set d. py_same k (jget b ''label'')" using label_find_entry[OF p] by auto
  ultimately show ?thesis using that b s by blast
qed

lemma bindings_of_Cons:
  "bindings_of (JDict b # bs) k = (if py_same (jget b ''label'') k then b # bindings_of bs k else bindings_of bs k)"
  by (simp add: bindings_of_def List.map_filter_simps)

lemma apply_bindings_spec:
  assumes "apply_bindings refs d bindings = Inr d'" "keys_differ d"
  shows "list_all2 (\<lambda>(k, p) (k', q). k' = k \<and> bound_at bindings refs k p q) d d'
    \<and> (\<forall>b\<in>set (List.map_filter as_dict bindings). \<exists>(k, p)\<in>set d. py_same k (jget b ''label''))"
  using assms
proof (induction bindings arbitrary: d)
  case Nil
  then show ?case
    by (auto simp: bound_at_def bindings_of_def List.map_filter_simps intro: list.rel_refl_strong)
next
  case (Cons binding bindings)
  obtain d1 where d1: "apply_binding refs d binding = Inr d1" "apply_bindings refs d1 bindings = Inr d'"
    using Cons.prems(1) by auto
  obtain b slot where b: "binding = JDict b" "as_int (jget b ''input'') = Some slot" "0 \<le> slot"
    "slot < int (length refs)" "\<exists>(k, p)\<in>set d. py_same k (jget b ''label'')"
    "d1 = map (\<lambda>(k, p). (k, if py_same k (jget b ''label'')
       then AList.update ''node'' (JStr (refs ! nat slot)) p else p)) d"
    by (rule apply_binding_cases[OF d1(1) Cons.prems(2)])
  have "keys_differ d1" using Cons.prems(2)
    by (simp add: b(6) keys_differ_def sorted_wrt_map case_prod_unfold)
  note IH = Cons.IH[OF d1(2) this]
  have one: "bound_at (binding # bindings) refs k p q"
    if "bound_at bindings refs k (if py_same k (jget b ''label'')
       then AList.update ''node'' (JStr (refs ! nat slot)) p else p) q" for k p q
    using that b(1-4) py_same_sym
    by (auto simp: bound_at_def bindings_of_Cons update_conv' Let_def split: if_splits)
  have "list_all2 (\<lambda>(k, p) (k', q). k' = k \<and> bound_at (binding # bindings) refs k p q) d d'"
    using IH[THEN conjunct1] unfolding b(6) list.rel_map
    by (rule list_all2_mono) (auto intro: one)
  moreover have "\<exists>(k, p)\<in>set d. py_same k (jget c ''label'')"
    if "c \<in> set (List.map_filter as_dict (binding # bindings))" for c
  proof (cases "c = b")
    case True
    then show ?thesis using b(5) by simp
  next
    case False
    then have "c \<in> set (List.map_filter as_dict bindings)" using that b(1) by (simp add: List.map_filter_simps)
    then obtain e where e: "e \<in> set d1" "py_same (fst e) (jget c ''label'')" using IH[THEN conjunct2] by auto
    obtain f where "f \<in> set d" "fst f = fst e" using e(1) unfolding b(6) by (auto simp: case_prod_unfold)
    then show ?thesis using e(2) by (intro bexI[of _ f]) (simp_all add: case_prod_unfold)
  qed
  ultimately show ?case by blast
qed

lemma bindings_of_same: "py_same k l \<Longrightarrow> bindings_of bindings k = bindings_of bindings l"
  unfolding bindings_of_def using py_same_sym py_same_trans by (intro filter_cong) blast+

lemma bound_at_from: "py_same k (jget p ''label'') \<Longrightarrow> bound_at bindings refs k p q \<Longrightarrow> bound_from bindings refs p q"
  by (simp add: bound_at_def bound_from_def bindings_of_same)

lemma bound_from_label: "bound_from bindings refs p q \<Longrightarrow> jget q ''label'' = jget p ''label''"
  by (auto simp: bound_from_def Let_def jget_def dict_get_def split: if_splits)

text \<open>The function against its specification.\<close>

lemma apply_param_bindings_spec:
  assumes "apply_param_bindings template refs = Inr d" "jget template ''data_spec'' = JDict spec"
    "jget spec ''param_bindings'' = JList bindings"
  shows "length refs = length bindings \<and> (\<exists>ps qs. jget spec ''params'' = JList (map JDict ps)
     \<and> map_of d ''params'' = Some (JList (map JDict qs)) \<and> bound_params bindings refs ps qs)"
proof -
  obtain vs l m where len: "length refs = length bindings" and vs: "jget spec ''params'' = JList vs"
    and l: "params_by_label [] vs = Inr l" and m: "apply_bindings refs l bindings = Inr m"
    and d: "d = AList.update ''params'' (JList (map (JDict \<circ> snd) m)) spec"
    using assms by (auto simp: apply_param_bindings_def split: if_splits json.splits)
  obtain ps where ps: "vs = map JDict ps" using params_are_dicts[OF l] by blast
  have E: "keys_differ l" "\<forall>(k, p)\<in>set l. p \<in> set ps \<and> py_same k (jget p ''label'')"
    using params_by_label_entries[OF l[unfolded ps], of "{}"] by (auto simp: keys_differ_def)
  note B = apply_bindings_spec[OF m E(1)]
  have bound: "list_all2 (\<lambda>(k, p) (k', q). bound_from bindings refs p q) l m"
    by (rule list_all2_mono[OF list.rel_mono_strong[OF B[THEN conjunct1], of
          "\<lambda>(k, p) (k', q). bound_from bindings refs p q"]])
      (use E(2) in \<open>auto intro: bound_at_from\<close>)
  have "list_all2 (bound_from bindings refs) ps (map snd m)" if "labels_differ ps"
  proof -
    have "l = map (\<lambda>p. (jget p ''label'', p)) ps"
      using params_by_label_distinct[OF l[unfolded ps] that] by simp
    then show ?thesis using bound by (simp add: list.rel_map case_prod_unfold)
  qed
  moreover have "\<exists>p\<in>set ps. bound_from bindings refs p q" if q: "q \<in> set (map snd m)" for q
  proof -
    obtain i where "i < length m" "q = snd (m ! i)" using q by (auto simp: in_set_conv_nth)
    then have "bound_from bindings refs (snd (l ! i)) q" "l ! i \<in> set l"
      using bound by (auto simp: list_all2_conv_all_nth case_prod_unfold)
    then show ?thesis using E(2) by (cases "l ! i") auto
  qed
  moreover have "\<exists>q\<in>set (map snd m). py_same (jget p ''label'') (jget q ''label'')
      \<and> bound_from bindings refs (last_labelled ps p) q" if p: "p \<in> set ps" for p
  proof -
    have "filter (\<lambda>p'. py_same (jget p' ''label'') (jget p ''label'')) ps \<noteq> []"
      using p py_same_refl by (auto simp: filter_empty_conv)
    then have "label_find l (jget p ''label'') = Some (last_labelled ps p)"
      using params_by_label_find[OF l[unfolded ps]] by (simp add: last_labelled_def Let_def)
    then obtain k where k: "(k, last_labelled ps p) \<in> set l" "py_same k (jget p ''label'')"
      using label_find_entry by blast
    then obtain i where i: "i < length l" "l ! i = (k, last_labelled ps p)" by (auto simp: in_set_conv_nth)
    define q where "q = snd (m ! i)"
    have q: "q \<in> set (map snd m)" "bound_from bindings refs (last_labelled ps p) q"
      using bound i by (auto simp: q_def list_all2_conv_all_nth case_prod_unfold)
    have "py_same k (jget (last_labelled ps p) ''label'')" using E(2) k(1) by blast
    then have "py_same (jget p ''label'') (jget q ''label'')"
      using k(2) py_same_sym py_same_trans unfolding bound_from_label[OF q(2)] by blast
    then show ?thesis using q by blast
  qed
  moreover have "labels_differ (map snd m)"
  proof -
    have "\<not> py_same (jget (snd (m ! i)) ''label'') (jget (snd (m ! j)) ''label'')"
      if ij: "i < j" "j < length m" for i j
    proof
      have len: "length l = length m" using bound by (rule list_all2_lengthD)
      have key: "py_same (fst (l ! x)) (jget (snd (m ! x)) ''label'')" if "x < length m" for x
      proof -
        have "l ! x \<in> set l" using that len by simp
        moreover have "bound_from bindings refs (snd (l ! x)) (snd (m ! x))"
          using bound that len by (auto simp: list_all2_conv_all_nth case_prod_unfold)
        ultimately show ?thesis using E(2) bound_from_label[of _ _ "snd (l ! x)"]
          by (simp add: case_prod_unfold)
      qed
      assume "py_same (jget (snd (m ! i)) ''label'') (jget (snd (m ! j)) ''label'')"
      then have "py_same (fst (l ! i)) (fst (l ! j))"
        using key[of i] key[of j] ij py_same_sym py_same_trans by (meson order_less_trans)
      then show False using E(1) ij len by (simp add: keys_differ_def sorted_wrt_iff_nth_less)
    qed
    then show ?thesis by (simp add: labels_differ_def sorted_wrt_iff_nth_less)
  qed
  moreover have "\<exists>p\<in>set ps. py_same (jget p ''label'') (jget b ''label'')"
    if "b \<in> set (List.map_filter as_dict bindings)" for b
    using B[THEN conjunct2] E(2) that py_same_sym py_same_trans by fast
  ultimately have "bound_params bindings refs ps (map snd m)"
    unfolding bound_params_def by (intro conjI impI ballI)
  moreover have "map_of d ''params'' = Some (JList (map JDict (map snd m)))" by (simp add: d update_conv')
  ultimately show ?thesis using len vs ps by blast
qed

end
