(* ===== verification/Dynamic_Admission.thy ===== *)
theory Dynamic_Admission
  imports Dynamic_Binding
begin

section \<open>What resolution and validation guarantee\<close>

text \<open>
  The validation of an emitted subgraph against an abstract contract, \<open>well_formed_round\<close>: it accepts
  exactly the subgraphs whose resolution meets the contract and whose operations pass the check of
  their declared inputs. And the resolution: it changes nothing of a template but the id, the inputs
  and the nodes of the bound parameters, and resolving twice is resolving once.
\<close>

subsection \<open>The contract\<close>

definition well_formed_op :: "(string, jobj) dict \<Rightarrow> jobj \<Rightarrow> bool" where
  "well_formed_op registry op =
     (is_str (jget op ''id'') \<and> op_id op \<noteq> [] \<and> op_id op \<notin> set FIXED_ROUND_NODE_IDS
      \<and> op_id op \<notin> fst ` set registry \<and> supported_type (jget op ''op'')
      \<and> string_list (dict_get op ''inputs'' (JList [])) \<noteq> None)"

definition available_ref :: "(string, jobj) dict \<Rightarrow> string set option \<Rightarrow> string \<Rightarrow> bool" where
  "available_ref registry results r =
     (r \<in> fst ` set registry \<and> (case results of None \<Rightarrow> True | Some rs \<Rightarrow> r \<in> rs))"

text \<open>Each reference is the input node, an available earlier operation, or emitted before.\<close>

definition refs_grounded :: "(string, jobj) dict \<Rightarrow> string set option \<Rightarrow> jobj list \<Rightarrow> bool" where
  "refs_grounded registry results ops =
     (\<forall>i<length ops. \<forall>r\<in>set (input_refs (ops ! i)).
        r = INPUT_NODE_ID \<or> available_ref registry results r \<or> r \<in> op_id ` set (take i ops))"

definition leaves_archivable :: "jobj list \<Rightarrow> bool" where
  "leaves_archivable ops =
     (\<forall>op\<in>set ops. op_id op \<in> set (current_leaves ops) \<longrightarrow> op_type op \<in> set OUTPUT_SOURCE_OPS)"

definition well_formed_round ::
  "(string, jobj) dict \<Rightarrow> nat \<Rightarrow> string list option \<Rightarrow> string set option \<Rightarrow> jobj list \<Rightarrow> bool"
where
  "well_formed_round registry max_nodes export results ops =
     (ops \<noteq> [] \<and> length ops \<le> max_nodes \<and> distinct (map op_id ops)
      \<and> list_all (well_formed_op registry) ops
      \<and> (\<forall>es. export = Some es \<longrightarrow> set es \<subseteq> op_id ` set ops)
      \<and> refs_grounded registry results ops \<and> leaves_archivable ops)"

definition declared_ok :: "declared_check \<Rightarrow> (string, jobj) dict \<Rightarrow> jobj list \<Rightarrow> bool" where
  "declared_ok declared registry ops =
     list_all (\<lambda>op. declared (op_id op) (op_type op) op (input_refs op) (available_ops ops registry) = None)
       ops"

subsection \<open>The passes of the validation\<close>

lemma string_list_refs: "string_list (dict_get op ''inputs'' (JList [])) = Some refs \<Longrightarrow> input_refs op = refs"
  by (auto simp: string_list_def input_refs_def List.map_filter_def list_all_iff is_cases
      intro!: arg_cong2[where f = map] split: json.splits if_splits)

lemma check_op_None:
  "check_op declared registry available ids op = None \<longleftrightarrow>
     well_formed_op registry op \<and> op_id op \<notin> set ids
     \<and> declared (op_id op) (op_type op) op (input_refs op) available = None"
  by (auto simp: check_op_def well_formed_op_def dest: string_list_refs split: option.splits)

lemma check_ops_None:
  "check_ops declared registry available ids ops = None \<longleftrightarrow>
     list_all (\<lambda>op. well_formed_op registry op
       \<and> declared (op_id op) (op_type op) op (input_refs op) available = None) ops
     \<and> distinct (map op_id ops) \<and> set (map op_id ops) \<inter> set ids = {}"
  by (induction ops arbitrary: ids) (auto simp: check_op_None)

lemma check_ref_None:
  assumes "set ids \<inter> fst ` set registry = {}" "set seen \<subseteq> set ids"
  shows "check_ref registry results ids seen r = None \<longleftrightarrow>
     r = INPUT_NODE_ID \<or> available_ref registry results r \<or> r \<in> set seen"
  using assms by (auto simp: check_ref_def available_ref_def split: option.splits)

lemma check_refs_nth:
  "check_refs registry results ids seen ops = None \<longleftrightarrow>
     (\<forall>i<length ops. \<forall>r\<in>set (input_refs (ops ! i)).
        check_ref registry results ids (seen @ map op_id (take i ops)) r = None)"
proof (induction ops arbitrary: seen)
  case Nil
  then show ?case by simp
next
  case (Cons op ops)
  let ?P = "\<lambda>i. \<forall>r\<in>set (input_refs ((op # ops) ! i)).
        check_ref registry results ids (seen @ map op_id (take i (op # ops))) r = None"
  have "(\<forall>i<length (op # ops). ?P i) \<longleftrightarrow> ?P 0 \<and> (\<forall>i<length ops. ?P (Suc i))"
    by (simp only: length_Cons All_less_Suc2)
  then show ?case using Cons by simp
qed

lemma check_refs_None:
  assumes "set ids \<inter> fst ` set registry = {}" "set (map op_id ops) \<subseteq> set ids"
  shows "check_refs registry results ids [] ops = None \<longleftrightarrow> refs_grounded registry results ops"
proof -
  have sub: "set (map op_id (take i ops)) \<subseteq> set ids" for i
    using assms(2) set_take_subset[of i ops] by auto
  show ?thesis
    by (simp add: check_refs_nth refs_grounded_def check_ref_None[OF assms(1) sub])
qed

lemma check_leaf_None:
  "check_all (check_leaf ops) ops = None \<longleftrightarrow> leaves_archivable ops"
  by (auto simp: check_leaf_def leaves_archivable_def current_leaves_def)

lemma resolve_length: "resolve_subgraph ops library = Inr rs \<Longrightarrow> length rs = length ops"
  by (simp add: resolve_subgraph_def traverse_length)

lemma validate_resolved:
  assumes "resolve_subgraph subgraph library = Inr ops"
  shows "validate_emitted_subgraph declared subgraph registry max_nodes library export results = Inr ()
    \<longleftrightarrow> well_formed_round registry max_nodes export results ops \<and> declared_ok declared registry ops"
proof -
  note len = resolve_length[OF assms]
  let ?ops = "check_ops declared registry (available_ops ops registry) [] ops"
  let ?refs = "check_refs registry results (map op_id ops) [] ops"
  have ops: "?ops = None \<longleftrightarrow>
      list_all (well_formed_op registry) ops \<and> declared_ok declared registry ops \<and> distinct (map op_id ops)"
    by (auto simp: check_ops_None declared_ok_def list_all_iff)
  have refs: "?refs = None \<longleftrightarrow> refs_grounded registry results ops" if "list_all (well_formed_op registry) ops"
    by (rule check_refs_None) (use that in \<open>auto simp: list_all_iff well_formed_op_def\<close>)
  have "validate_emitted_subgraph declared subgraph registry max_nodes library export results = Inr ()
    \<longleftrightarrow> length ops \<le> max_nodes \<and> ops \<noteq> [] \<and> ?ops = None
      \<and> exports_known export (map op_id ops)
      \<and> ?refs = None \<and> check_all (check_leaf ops) ops = None"
    using len assms
    by (cases "subgraph = []"; cases "length subgraph \<le> max_nodes";
        cases "case export of None \<Rightarrow> True | Some es \<Rightarrow> set es \<subseteq> op_id ` set ops")
      (simp_all add: validate_emitted_subgraph_def Let_def del: check_all_None, auto)
  moreover have "exports_known export (map op_id ops) \<longleftrightarrow> (\<forall>es. export = Some es \<longrightarrow> set es \<subseteq> op_id ` set ops)"
    by (auto simp: exports_known_def list_all_iff split: option.split)
  ultimately show ?thesis using refs unfolding ops check_leaf_None well_formed_round_def by blast
qed

subsection \<open>Resolution\<close>

lemma merge_entry_cases:
  assumes "merge_entry template merged e = Inr m"
  obtains (same) "m = merged"
    | (id) v where "m = AList.update ''id'' v merged"
    | (inputs) v where "m = AList.update ''inputs'' v merged" "\<not> is_dict (jget template ''data_spec'')"
    | (bound) v refs d where "apply_param_bindings template refs = Inr d"
        "m = AList.update ''data_spec'' (JDict d) (AList.update ''inputs'' v merged)"
proof -
  obtain key v where e: "e = (key, v)" by (cases e)
  consider (skip) "key = ''ref'' \<or> key = ''op''" | (inp) "key = ''inputs''" | (id') "key = ''id''"
    | (bad) "key \<noteq> ''ref''" "key \<noteq> ''op''" "key \<notin> {''id'', ''inputs'', ''op''}" by blast
  then show ?thesis
  proof cases
    case skip
    then have "m = merged" using assms by (simp only: e merge_entry_def Let_def prod.case if_True sum.inject)
    then show ?thesis by (rule same)
  next
    case bad
    then show ?thesis using assms by (simp only: e merge_entry_def Let_def prod.case) simp
  next
    case id'
    then have "m = AList.update ''id'' v merged" using assms by (simp add: e merge_entry_def)
    then show ?thesis by (rule id)
  next
    case inp
    then obtain refs where "(if is_dict (jget template ''data_spec'')
        then and_then (apply_param_bindings template refs)
          (\<lambda>d. Inr (AList.update ''data_spec'' (JDict d) (AList.update ''inputs'' v merged)))
        else Inr (AList.update ''inputs'' v merged)) = Inr m"
      using assms by (simp add: e merge_entry_def Let_def split: option.splits)
    then show ?thesis using inputs bound by (simp split: if_splits) blast+
  qed
qed

lemma merge_entry_config:
  assumes "merge_entry template merged e = Inr m" "k \<notin> {''id'', ''inputs'', ''data_spec''}"
  shows "map_of m k = map_of merged k"
  using assms(1)
proof (cases rule: merge_entry_cases)
  case same
  then show ?thesis by simp
qed (use assms(2) in \<open>simp_all add: update_conv\<close>)

lemma merge_entries_config:
  assumes "merge_entries template merged es = Inr m" "k \<notin> {''id'', ''inputs'', ''data_spec''}"
  shows "map_of m k = map_of merged k"
  using assms
proof (induction es arbitrary: merged)
  case Nil
  then show ?case by simp
next
  case (Cons e es)
  then obtain m1 where m1: "merge_entry template merged e = Inr m1" "merge_entries template m1 es = Inr m"
    by auto
  show ?case using Cons.IH[OF m1(2) assms(2)] merge_entry_config[OF m1(1) assms(2)] by simp
qed

text \<open>The data specification changes only in its parameters.\<close>

lemma apply_param_bindings_config:
  assumes "apply_param_bindings template refs = Inr d" "k \<noteq> ''params''"
    and "jget template ''data_spec'' = JDict spec"
  shows "map_of d k = map_of spec k"
  using assms
  by (auto simp: apply_param_bindings_def update_conv split: json.splits if_splits)

definition spec_kept :: "jobj \<Rightarrow> jobj \<Rightarrow> bool" where
  "spec_kept template merged =
     (jget merged ''data_spec'' = jget template ''data_spec''
      \<or> (\<exists>spec d. jget template ''data_spec'' = JDict spec \<and> jget merged ''data_spec'' = JDict d
            \<and> (\<forall>k. k \<noteq> ''params'' \<longrightarrow> map_of d k = map_of spec k)))"

lemma spec_kept_refl: "spec_kept t t"
  by (simp add: spec_kept_def)

lemma jget_update: "jget (AList.update k v o') l = (if k = l then v else jget o' l)"
  by (simp add: jget_def dict_get_def update_conv)

lemma merge_entry_spec:
  assumes "merge_entry template merged e = Inr m" "spec_kept template merged"
  shows "spec_kept template m"
  using assms(1)
proof (cases rule: merge_entry_cases)
  case (bound v refs d)
  obtain spec where spec: "jget template ''data_spec'' = JDict spec"
    using bound(1) by (auto simp: apply_param_bindings_def split: json.splits)
  have "\<forall>k. k \<noteq> ''params'' \<longrightarrow> map_of d k = map_of spec k"
    using apply_param_bindings_config[OF bound(1) _ spec] by simp
  then show ?thesis using spec bound(2) by (simp add: spec_kept_def jget_update)
qed (use assms(2) in \<open>simp_all add: spec_kept_def jget_update\<close>)

lemma merge_entries_spec:
  "merge_entries template merged es = Inr m \<Longrightarrow> spec_kept template merged \<Longrightarrow> spec_kept template m"
proof (induction es arbitrary: merged)
  case Nil
  then show ?case by simp
next
  case (Cons e es)
  then obtain m1 where m1: "merge_entry template merged e = Inr m1" "merge_entries template m1 es = Inr m"
    by auto
  show ?case by (rule Cons.IH[OF m1(2) merge_entry_spec[OF m1(1) Cons.prems(2)]])
qed

text \<open>What a resolved operation is: the emitted one when it names no template, and otherwise the
  template with another id, other inputs and other parameters.\<close>

definition resolved_from :: "(string, jobj) dict option \<Rightarrow> jobj \<Rightarrow> jobj \<Rightarrow> bool" where
  "resolved_from library op r =
     (case map_of op ''ref'' of
        None \<Rightarrow> r = op
      | Some v \<Rightarrow> (\<exists>ref entries template.
          v = JStr ref \<and> library = Some entries \<and> map_of entries ref = Some template
          \<and> (\<forall>k. k \<notin> {''id'', ''inputs'', ''data_spec''} \<longrightarrow> map_of r k = map_of template k)
          \<and> spec_kept template r))"

lemma jget_of: "map_of d k = Some v \<Longrightarrow> jget d k = v"
  by (simp add: jget_def dict_get_def)

lemma resolve_op_from:
  assumes "resolve_op library op = Inr r"
  shows "resolved_from library op r"
proof (cases "map_of op ''ref''")
  case None
  then show ?thesis using assms by (simp add: resolve_op_def resolved_from_def)
next
  case (Some v)
  then obtain ref entries template where t: "v = JStr ref" "library = Some entries"
      "map_of entries ref = Some template" and m: "merge_entries template template op = Inr r"
    using assms jget_of[OF Some]
    by (auto simp: resolve_op_def split: json.splits option.splits if_splits)
  have "spec_kept template r" by (rule merge_entries_spec[OF m spec_kept_refl])
  then show ?thesis
    using Some t merge_entries_config[OF m] by (simp add: resolved_from_def)
qed

text \<open>The whole of it. An operation that names a template sets nothing but its id and its inputs, and
  repeats the template's type if any; the result has the template's other keys, its own id and inputs
  where it gives them, and, when it gives inputs to a template with bindings, one input per binding and
  the parameters that these inputs bind.\<close>

definition resolved_spec :: "jobj \<Rightarrow> json option \<Rightarrow> jobj \<Rightarrow> bool" where
  "resolved_spec template inputs r =
     (case inputs of
        None \<Rightarrow> map_of r ''data_spec'' = map_of template ''data_spec''
      | Some v \<Rightarrow> (\<exists>refs. v = JList (map JStr refs)
          \<and> ((\<nexists>spec bindings. jget template ''data_spec'' = JDict spec
                \<and> jget spec ''param_bindings'' = JList bindings)
              \<longrightarrow> map_of r ''data_spec'' = map_of template ''data_spec'')
          \<and> (\<forall>spec bindings. jget template ''data_spec'' = JDict spec
                \<and> jget spec ''param_bindings'' = JList bindings
              \<longrightarrow> length refs = length bindings
                \<and> (\<exists>d ps qs. map_of r ''data_spec'' = Some (JDict d)
                     \<and> (\<forall>k. k \<noteq> ''params'' \<longrightarrow> map_of d k = map_of spec k)
                     \<and> jget spec ''params'' = JList (map JDict ps)
                     \<and> map_of d ''params'' = Some (JList (map JDict qs))
                     \<and> bound_params bindings refs ps qs))))"

definition resolved_exactly :: "(string, jobj) dict option \<Rightarrow> jobj \<Rightarrow> jobj \<Rightarrow> bool" where
  "resolved_exactly library op r =
     (case map_of op ''ref'' of
        None \<Rightarrow> r = op
      | Some v \<Rightarrow> (\<exists>ref entries template.
          v = JStr ref \<and> library = Some entries \<and> map_of entries ref = Some template
          \<and> fst ` set op \<subseteq> {''ref'', ''op'', ''id'', ''inputs''}
          \<and> (jget op ''op'' = JNull \<or> py_same (jget template ''op'') (jget op ''op''))
          \<and> (\<forall>k. k \<notin> {''id'', ''inputs'', ''data_spec''} \<longrightarrow> map_of r k = map_of template k)
          \<and> (\<forall>k\<in>{''id'', ''inputs''}.
                map_of r k = (case map_of op k of None \<Rightarrow> map_of template k | Some w \<Rightarrow> Some w))
          \<and> resolved_spec template (map_of op ''inputs'') r))"

lemma string_list_strs: "string_list v = Some refs \<Longrightarrow> v = JList (map JStr refs)"
  by (fastforce simp: string_list_def list_all_iff is_cases o_def intro!: map_idI[symmetric]
      split: json.splits if_splits)

text \<open>The data specification after some entries have been merged.\<close>

definition merged_spec :: "jobj \<Rightarrow> jobj \<Rightarrow> json option \<Rightarrow> jobj \<Rightarrow> bool" where
  "merged_spec template merged inputs m =
     (case inputs of
        None \<Rightarrow> map_of m ''data_spec'' = map_of merged ''data_spec''
      | Some v \<Rightarrow> (\<exists>refs. v = JList (map JStr refs) \<and>
          (if is_dict (jget template ''data_spec'')
           then \<exists>d. apply_param_bindings template refs = Inr d \<and> map_of m ''data_spec'' = Some (JDict d)
           else map_of m ''data_spec'' = map_of merged ''data_spec'')))"

definition merged_keys :: "jobj \<Rightarrow> jobj \<Rightarrow> jobj \<Rightarrow> jobj \<Rightarrow> bool" where
  "merged_keys template merged es m =
     (fst ` set es \<subseteq> {''ref'', ''op'', ''id'', ''inputs''}
      \<and> (\<forall>k\<in>{''id'', ''inputs''}.
            map_of m k = (case map_of es k of None \<Rightarrow> map_of merged k | Some w \<Rightarrow> Some w))
      \<and> merged_spec template merged (map_of es ''inputs'') m)"

lemma merge_entry_keys:
  assumes "merge_entry template merged (k, v) = Inr m"
  shows "merged_keys template merged [(k, v)] m"
proof -
  consider "k = ''ref''" | "k = ''op''" | "k = ''id''" | (inputs) "k = ''inputs''"
    | (other) "k \<notin> {''ref'', ''op'', ''id'', ''inputs''}" by blast
  then show ?thesis
  proof cases
    case inputs
    obtain refs where refs: "string_list v = Some refs"
      using assms inputs by (auto simp: merge_entry_def split: option.splits)
    let ?m = "AList.update ''inputs'' v merged"
    have "(if is_dict (jget template ''data_spec'')
        then \<exists>d. apply_param_bindings template refs = Inr d \<and> m = AList.update ''data_spec'' (JDict d) ?m
        else m = ?m)"
      using assms inputs refs by (auto simp: merge_entry_def Let_def and_then_def split: sum.splits)
    then show ?thesis using inputs string_list_strs[OF refs]
      by (auto simp: merged_keys_def merged_spec_def update_conv' split: if_splits)
  next
    case other
    then show ?thesis using assms by (simp add: merge_entry_def)
  qed (use assms in \<open>auto simp: merge_entry_def merged_keys_def merged_spec_def update_conv'\<close>)
qed

lemma merged_keys_step:
  assumes "merged_keys template merged [(k, v)] m1" "merged_keys template m1 es m" "k \<notin> fst ` set es"
  shows "merged_keys template merged ((k, v) # es) m"
proof -
  have none: "map_of es k = None" using assms(3) by (simp add: map_of_eq_None_iff)
  have "map_of m l = (case map_of ((k, v) # es) l of None \<Rightarrow> map_of merged l | Some w \<Rightarrow> Some w)"
    if l: "l \<in> {''id'', ''inputs''}" for l
  proof -
    have "map_of m1 l = (case map_of [(k, v)] l of None \<Rightarrow> map_of merged l | Some w \<Rightarrow> Some w)"
      "map_of m l = (case map_of es l of None \<Rightarrow> map_of m1 l | Some w \<Rightarrow> Some w)"
      using assms(1,2) l unfolding merged_keys_def by blast+
    then show ?thesis using none by (cases "l = k"; cases "map_of es l") simp_all
  qed
  moreover have "merged_spec template merged (map_of ((k, v) # es) ''inputs'') m"
  proof (cases "k = ''inputs''")
    case True
    have "map_of m ''data_spec'' = map_of m1 ''data_spec''"
      using assms(2) none True by (simp add: merged_keys_def merged_spec_def)
    then show ?thesis using assms(1) True
      by (cases "is_dict (jget template ''data_spec'')") (simp_all add: merged_keys_def merged_spec_def)
  next
    case False
    have "map_of m1 ''data_spec'' = map_of merged ''data_spec''"
      using assms(1) False by (simp add: merged_keys_def merged_spec_def)
    moreover have "merged_spec template m1 (map_of es ''inputs'') m"
      using assms(2) by (simp add: merged_keys_def)
    ultimately have "merged_spec template merged (map_of es ''inputs'') m" by (simp only: merged_spec_def)
    then show ?thesis using False by simp
  qed
  moreover have "fst ` set ((k, v) # es) \<subseteq> {''ref'', ''op'', ''id'', ''inputs''}"
    using assms(1,2) unfolding merged_keys_def by simp
  ultimately show ?thesis unfolding merged_keys_def by blast
qed

lemma merge_entries_keys:
  "merge_entries template merged es = Inr m \<Longrightarrow> distinct (map fst es) \<Longrightarrow> merged_keys template merged es m"
proof (induction es arbitrary: merged)
  case Nil
  then show ?case by (simp add: merged_keys_def merged_spec_def)
next
  case (Cons e es)
  obtain k v where e: "e = (k, v)" by force
  obtain m1 where m1: "merge_entry template merged e = Inr m1" "merge_entries template m1 es = Inr m"
    using Cons.prems(1) by auto
  show ?case unfolding e
    by (rule merged_keys_step[OF merge_entry_keys[OF m1(1)[unfolded e]] Cons.IH[OF m1(2)]])
      (use Cons.prems(2) e in auto)
qed

lemma merged_spec_resolved: "merged_spec template template inputs r \<Longrightarrow> resolved_spec template inputs r"
proof (cases inputs)
  case None
  then show "merged_spec template template inputs r \<Longrightarrow> resolved_spec template inputs r"
    by (simp add: merged_spec_def resolved_spec_def)
next
  case (Some v)
  assume "merged_spec template template inputs r"
  then obtain refs where v: "v = JList (map JStr refs)"
    and spec: "if is_dict (jget template ''data_spec'')
       then \<exists>d. apply_param_bindings template refs = Inr d \<and> map_of r ''data_spec'' = Some (JDict d)
       else map_of r ''data_spec'' = map_of template ''data_spec''"
    using Some by (auto simp: merged_spec_def)
  show ?thesis
  proof (cases "\<exists>spec bindings. jget template ''data_spec'' = JDict spec
                \<and> jget spec ''param_bindings'' = JList bindings")
    case False
    have "map_of r ''data_spec'' = map_of template ''data_spec''"
    proof (cases "is_dict (jget template ''data_spec'')")
      case True
      then obtain s where s: "jget template ''data_spec'' = JDict s" by (auto simp: is_cases)
      have "apply_param_bindings template refs = Inr s"
        using False s by (auto simp: apply_param_bindings_def split: json.splits)
      moreover have "map_of template ''data_spec'' = Some (JDict s)"
        using s by (auto simp: jget_def dict_get_def split: option.splits)
      ultimately show ?thesis using spec True by auto
    qed (use spec in simp)
    then show ?thesis using False Some v by (auto simp: resolved_spec_def)
  next
    case True
    then obtain s bindings where s: "jget template ''data_spec'' = JDict s"
      "jget s ''param_bindings'' = JList bindings" by blast
    obtain d where d: "apply_param_bindings template refs = Inr d" "map_of r ''data_spec'' = Some (JDict d)"
      using spec s(1) by auto
    have kept: "\<forall>k. k \<noteq> ''params'' \<longrightarrow> map_of d k = map_of s k"
      using apply_param_bindings_config[OF d(1) _ s(1)] by simp
    show ?thesis using apply_param_bindings_spec[OF d(1) s] kept d(2) s Some v
      by (auto simp: resolved_spec_def)
  qed
qed

lemma resolve_op_exactly:
  assumes "resolve_op library op = Inr r" "distinct (map fst op)"
  shows "resolved_exactly library op r"
proof (cases "map_of op ''ref''")
  case None
  then show ?thesis using assms by (simp add: resolve_op_def resolved_exactly_def)
next
  case (Some v)
  then obtain ref entries template where t: "v = JStr ref" "library = Some entries"
      "map_of entries ref = Some template" and m: "merge_entries template template op = Inr r"
    and op: "jget op ''op'' = JNull \<or> py_same (jget template ''op'') (jget op ''op'')"
    using assms(1) jget_of[OF Some]
    by (auto simp: resolve_op_def split: json.splits option.splits if_splits)
  have keys: "merged_keys template template op r" by (rule merge_entries_keys[OF m assms(2)])
  have spec: "resolved_spec template (map_of op ''inputs'') r"
    using keys by (intro merged_spec_resolved) (simp add: merged_keys_def)
  show ?thesis
    using t op spec keys merge_entries_config[OF m]
    by (simp add: Some resolved_exactly_def merged_keys_def)
qed

lemma resolve_subgraph_exactly:
  assumes "resolve_subgraph ops library = Inr rs" "\<forall>op\<in>set ops. distinct (map fst op)"
  shows "list_all2 (resolved_exactly library) ops rs"
  using assms by (fastforce simp: resolve_subgraph_def traverse_Inr_all list_all2_conv_all_nth
      intro: resolve_op_exactly)

text \<open>No template of the library names a template.\<close>

definition flat_library :: "(string, jobj) dict option \<Rightarrow> bool" where
  "flat_library library =
     (case library of None \<Rightarrow> True
      | Some entries \<Rightarrow> list_all (\<lambda>(ref, t). map_of t ''ref'' = None) entries)"

lemma resolved_no_ref:
  assumes "resolved_from library op r" "flat_library library"
  shows "map_of r ''ref'' = None"
proof (cases "map_of op ''ref''")
  case None
  then show ?thesis using assms by (simp add: resolved_from_def)
next
  case (Some v)
  then obtain ref entries template where t: "library = Some entries"
      "map_of entries ref = Some template" "map_of r ''ref'' = map_of template ''ref''"
    using assms(1) by (auto simp: resolved_from_def)
  then show ?thesis using assms(2) map_of_SomeD[OF t(2)]
    by (auto simp: flat_library_def list_all_iff)
qed

lemma resolve_inert:
  "\<forall>op\<in>set ops. map_of op ''ref'' = None \<Longrightarrow> resolve_subgraph ops library = Inr ops"
  by (induction ops) (auto simp: resolve_subgraph_def resolve_op_def)

lemma resolve_subgraph_from:
  "resolve_subgraph ops library = Inr rs \<Longrightarrow> list_all2 (resolved_from library) ops rs"
  by (auto simp: resolve_subgraph_def traverse_Inr_all intro: list_all2_mono resolve_op_from)

lemma resolve_again:
  assumes "resolve_subgraph ops library = Inr rs" "flat_library library"
  shows "resolve_subgraph rs any = Inr rs"
proof (rule resolve_inert, intro ballI)
  fix r assume "r \<in> set rs"
  then obtain op where "resolved_from library op r"
    using resolve_subgraph_from[OF assms(1)] by (auto simp: list_all2_conv_all_nth in_set_conv_nth)
  then show "map_of r ''ref'' = None" using assms(2) by (rule resolved_no_ref)
qed

end
