(* ===== verification/Dynamic_Closure.thy ===== *)
theory Dynamic_Closure
  imports Dynamic_Forward Dynamic_Admission
begin

section \<open>A forwarded round is closed\<close>

text \<open>
  What \<open>forward_refs\<close> guarantees: each operation keeps its id, type and all configuration but the
  references it rewrites; each reference to an earlier result is bound as an input of the round or
  read through a materializer that is in the round and whose own input is bound; and in a run over
  several rows every bound input has exactly one value per row. With the validation before it,
  nothing a round's inputs name lies outside the round.
\<close>

subsection \<open>The state of the bindings\<close>

definition forward_inv :: "forward_env \<Rightarrow> forward_state \<Rightarrow> bool" where
  "forward_inv E s =
     (fs_materializers s = map materializer (fs_materialized s)
      \<and> distinct (fs_materialized s) \<and> distinct (map fst (fs_inputs s))
      \<and> set (fs_materialized s) \<subseteq> fst ` set (fs_inputs s)
      \<and> (fe_rows E > 1 \<longrightarrow> (\<forall>(i, vs)\<in>set (fs_inputs s). length vs = fe_rows E)))"

definition forward_le :: "forward_state \<Rightarrow> forward_state \<Rightarrow> bool" where
  "forward_le s t =
     (fst ` set (fs_inputs s) \<subseteq> fst ` set (fs_inputs t)
      \<and> set (fs_materialized s) \<subseteq> set (fs_materialized t))"

lemma forward_le_refl: "forward_le s s"
  by (simp add: forward_le_def)

lemma forward_le_trans: "forward_le s t \<Longrightarrow> forward_le t u \<Longrightarrow> forward_le s u"
  unfolding forward_le_def by (meson order_trans)

lemma forward_inv_init: "forward_inv E forward_init"
  by (simp add: forward_inv_def forward_init_def)

text \<open>Both ways a step changes the state.\<close>

lemma keys_update: "fst ` set (AList.update k v d) = insert k (fst ` set d)"
  using dom_update[of k v d] by (simp add: dom_map_of_conv_image_fst)

lemma set_update_cases: "x \<in> set (AList.update k v d) \<Longrightarrow> x = (k, v) \<or> x \<in> set d"
  by (induction d) (auto split: if_splits)

lemma bind_input_inv:
  assumes "forward_inv E s" "fe_rows E > 1 \<longrightarrow> length vs = fe_rows E"
  shows "forward_inv E (s\<lparr>fs_inputs := AList.update i vs (fs_inputs s)\<rparr>)
    \<and> forward_le s (s\<lparr>fs_inputs := AList.update i vs (fs_inputs s)\<rparr>)"
  using assms
  by (auto simp: forward_inv_def forward_le_def keys_update distinct_update dest!: set_update_cases)

lemma add_materializer_inv:
  assumes "forward_inv E s" "length walked = fe_rows E"
  shows "forward_inv E (add_materializer E ref path walked s)
    \<and> forward_le s (add_materializer E ref path walked s)
    \<and> input_name ref path \<in> set (fs_materialized (add_materializer E ref path walked s))"
  using assms
  by (auto simp: add_materializer_def Let_def forward_inv_def forward_le_def keys_update distinct_update
      dest!: set_update_cases)

subsection \<open>Binding one reference\<close>

lemma walk_values_length: "walk_values_per_row C items parts rows = Inr ws \<Longrightarrow> length ws = rows"
  by (auto simp: walk_values_per_row_def)

text \<open>How the new state serves a reference: unchanged and bound, if it has results, or through a
  materializer.\<close>

definition served :: "forward_env \<Rightarrow> string \<Rightarrow> string option \<Rightarrow> forward_state \<Rightarrow> bool" where
  "served E ref new t =
     (case new of
        None \<Rightarrow> map_of (fe_results E) ref \<noteq> None \<longrightarrow> ref \<in> fst ` set (fs_inputs t)
      | Some r \<Rightarrow> (\<exists>path. r = rows_name (input_name ref path)
            \<and> input_name ref path \<in> set (fs_materialized t)))"

lemma served_mono: "served E ref new s \<Longrightarrow> forward_le s t \<Longrightarrow> served E ref new t"
  by (auto simp: served_def forward_le_def split: option.splits)

lemma bind_implicit_step:
  assumes "bind_implicit E img ref s = Inr (new, t)" "forward_inv E s"
  shows "forward_inv E t \<and> forward_le s t \<and> served E ref new t"
proof (cases "map_of (fe_results E) ref")
  case None
  then show ?thesis using assms by (auto simp: bind_implicit_def served_def forward_le_refl)
next
  case (Some items)
  obtain config where config: "map_of (fe_configs E) ref = Some config"
    using assms(1) Some by (auto simp: bind_implicit_def split: option.splits)
  obtain path where path: "default_forward_path (dict_get config ''op'' (JStr [])) config = Inr path"
    using assms(1) Some config by (auto simp: bind_implicit_def)
  show ?thesis
  proof (cases "fe_rows E > 1")
    case True
    then obtain walked where w: "walk_values_per_row (fe_codec E) items (path_parts path) (fe_rows E) = Inr walked"
      using assms(1) Some config path by (auto simp: bind_implicit_def)
    note len = walk_values_length[OF w]
    show ?thesis
    proof (cases "list_ex is_list walked")
      case grouped: True
      then have "new = Some (rows_name (input_name ref path))" "t = add_materializer E ref path walked s"
        using assms(1) Some config path True w by (auto simp: bind_implicit_def)
      then show ?thesis using add_materializer_inv[OF assms(2) len] by (auto simp: served_def)
    next
      case False
      then have "new = None"
          "t = s\<lparr>fs_inputs := AList.update ref (map (coerce_output_value (fe_codec E)) walked) (fs_inputs s)\<rparr>"
        using assms(1) Some config path True w by (auto simp: bind_implicit_def)
      then show ?thesis using bind_input_inv[OF assms(2)] len by (simp add: served_def keys_update)
    qed
  next
    case False
    then obtain vs where "new = None" "t = s\<lparr>fs_inputs := AList.update ref vs (fs_inputs s)\<rparr>"
      using assms(1) Some config path by (auto simp: bind_implicit_def)
    then show ?thesis using bind_input_inv[OF assms(2)] False by (simp add: served_def keys_update)
  qed
qed

text \<open>An explicit reference reads a bound input or the output of a materializer.\<close>

definition served_at :: "string \<Rightarrow> string \<Rightarrow> string \<times> string \<Rightarrow> forward_state \<Rightarrow> bool" where
  "served_at ref path new t =
     (new = (input_name ref path, []) \<and> input_name ref path \<in> fst ` set (fs_inputs t)
      \<or> new = (rows_name (input_name ref path), ''items.output'')
        \<and> input_name ref path \<in> set (fs_materialized t))"

lemma served_at_mono: "served_at ref path new s \<Longrightarrow> forward_le s t \<Longrightarrow> served_at ref path new t"
  by (auto simp: served_at_def forward_le_def)

lemma bind_explicit_step:
  assumes "bind_explicit E ref path s = Inr (new, t)" "forward_inv E s"
  shows "forward_inv E t \<and> forward_le s t \<and> served_at ref path new t"
proof -
  let ?i = "input_name ref path" and ?items = "dict_get (fe_results E) ref []"
  consider (mat) "?i \<in> set (fs_materialized s)"
    | (bound) "?i \<notin> set (fs_materialized s)" "map_of (fs_inputs s) ?i \<noteq> None"
    | (new) "?i \<notin> set (fs_materialized s)" "map_of (fs_inputs s) ?i = None" by blast
  then show ?thesis
  proof cases
    case mat
    then show ?thesis using assms by (auto simp: bind_explicit_def Let_def served_at_def forward_le_refl)
  next
    case bound
    then have "?i \<in> fst ` set (fs_inputs s)" by (simp add: map_of_eq_None_iff)
    then show ?thesis using assms bound
      by (auto simp: bind_explicit_def Let_def served_at_def forward_le_refl)
  next
    case new
    show ?thesis
    proof (cases "fe_rows E > 1")
      case True
      then obtain walked where w: "walk_values_per_row (fe_codec E) ?items (path_parts path) (fe_rows E) = Inr walked"
        using assms(1) new by (auto simp: bind_explicit_def Let_def)
      note len = walk_values_length[OF w]
      show ?thesis
      proof (cases "list_ex is_list walked")
        case grouped: True
        then have "new = (rows_name ?i, ''items.output'')" "t = add_materializer E ref path walked s"
          using assms(1) new True w by (auto simp: bind_explicit_def Let_def)
        then show ?thesis using add_materializer_inv[OF assms(2) len] by (auto simp: served_at_def)
      next
        case False
        then have "new = (?i, [])"
            "t = s\<lparr>fs_inputs := AList.update ?i (map (coerce_output_value (fe_codec E)) walked) (fs_inputs s)\<rparr>"
          using assms(1) new True w by (auto simp: bind_explicit_def Let_def)
        then show ?thesis using bind_input_inv[OF assms(2)] len by (simp add: served_at_def keys_update)
      qed
    next
      case False
      then obtain vs where "new = (?i, [])" "t = s\<lparr>fs_inputs := AList.update ?i vs (fs_inputs s)\<rparr>"
        using assms(1) new by (auto simp: bind_explicit_def Let_def)
      then show ?thesis using bind_input_inv[OF assms(2)] False by (simp add: served_at_def keys_update)
    qed
  qed
qed

subsection \<open>Binding computations\<close>

text \<open>A computation keeps the invariant, only adds bindings and relates what it reads to what it
  returns, by a relation that later bindings do not disturb.\<close>

definition binds ::
  "forward_env \<Rightarrow> ('a \<Rightarrow> forward_state \<Rightarrow> ('b \<times> forward_state) driven)
     \<Rightarrow> ('a \<Rightarrow> 'b \<Rightarrow> forward_state \<Rightarrow> bool) \<Rightarrow> bool"
where
  "binds E f R \<longleftrightarrow>
     (\<forall>x s y t. forward_inv E s \<longrightarrow> f x s = Inr (y, t) \<longrightarrow> forward_inv E t \<and> forward_le s t \<and> R x y t)
     \<and> (\<forall>x y s t. R x y s \<longrightarrow> forward_le s t \<longrightarrow> R x y t)"

lemma bindsI:
  assumes "\<And>x s y t. forward_inv E s \<Longrightarrow> f x s = Inr (y, t) \<Longrightarrow> forward_inv E t \<and> forward_le s t \<and> R x y t"
    and "\<And>x y s t. R x y s \<Longrightarrow> forward_le s t \<Longrightarrow> R x y t"
  shows "binds E f R"
  using assms unfolding binds_def by blast

lemma bindsD:
  assumes "binds E f R" "f x s = Inr (y, t)" "forward_inv E s"
  shows "forward_inv E t" "forward_le s t" "R x y t"
  using assms unfolding binds_def by blast+

lemma binds_mono: "binds E f R \<Longrightarrow> R x y s \<Longrightarrow> forward_le s t \<Longrightarrow> R x y t"
  unfolding binds_def by blast

lemma binds_traverse:
  assumes f: "binds E f R"
  shows "binds E (traverse_st f) (\<lambda>xs ys t. list_all2 (\<lambda>x y. R x y t) xs ys)"
proof (rule bindsI)
  fix xs s ys t
  assume inv: "forward_inv E s" and run: "traverse_st f xs s = Inr (ys, t)"
  show "forward_inv E t \<and> forward_le s t \<and> list_all2 (\<lambda>x y. R x y t) xs ys"
    by (rule traverse_st_rel[OF run, where P = "forward_inv E"])
      (use inv bindsD[OF f] binds_mono[OF f] forward_le_refl forward_le_trans in blast)+
next
  fix xs ys s t
  assume "list_all2 (\<lambda>x y. R x y s) xs ys" "forward_le s t"
  then show "list_all2 (\<lambda>x y. R x y t) xs ys"
    by (auto elim!: list_all2_mono intro: binds_mono[OF f])
qed

lemma binds_seq:
  assumes f: "binds E f R" and g: "binds E g S"
  shows "binds E (\<lambda>x s. and_then (f x s) (\<lambda>(y, t). g y t)) (\<lambda>x z t. \<exists>y. R x y t \<and> S y z t)"
proof (rule bindsI)
  fix x s z u
  assume inv: "forward_inv E s" and run: "and_then (f x s) (\<lambda>(y, t). g y t) = Inr (z, u)"
  then obtain y t where st: "f x s = Inr (y, t)" "g y t = Inr (z, u)" by auto
  note F = bindsD[OF f st(1) inv]
  note G = bindsD[OF g st(2) F(1)]
  show "forward_inv E u \<and> forward_le s u \<and> (\<exists>y. R x y u \<and> S y z u)"
    using G F(2) binds_mono[OF f F(3) G(2)] forward_le_trans by blast
next
  fix x z s t
  assume "\<exists>y. R x y s \<and> S y z s" "forward_le s t"
  then show "\<exists>y. R x y t \<and> S y z t" using binds_mono[OF f] binds_mono[OF g] by blast
qed

subsection \<open>Values, rows and fields\<close>

text \<open>A value of \<open>inputs\<close> or of \<open>format_kwargs\<close>.\<close>

definition value_served :: "forward_env \<Rightarrow> json \<Rightarrow> json \<Rightarrow> forward_state \<Rightarrow> bool" where
  "value_served E v w t =
     (case as_str v of
        None \<Rightarrow> w = v
      | Some ref \<Rightarrow> (\<exists>new. served E ref new t \<and> w = (case new of None \<Rightarrow> v | Some r \<Rightarrow> JStr r)))"

lemma binds_value: "binds E (bind_value E) (value_served E)"
proof (rule bindsI)
  fix v s w t
  assume inv: "forward_inv E s" and run: "bind_value E v s = Inr (w, t)"
  show "forward_inv E t \<and> forward_le s t \<and> value_served E v w t"
  proof (cases "as_str v")
    case None
    then have "w = v" "t = s" using run by (auto simp: bind_value_def as_str_def split: json.splits)
    then show ?thesis using None inv by (simp add: value_served_def forward_le_refl)
  next
    case (Some ref)
    then obtain new where b: "bind_implicit E False ref s = Inr (new, t)"
        and w: "w = (case new of None \<Rightarrow> v | Some r \<Rightarrow> JStr r)"
      using run by (auto simp: bind_value_def split: prod.splits)
    show ?thesis using bind_implicit_step[OF b inv] w Some by (auto simp: value_served_def)
  qed
next
  fix v w s t
  assume "value_served E v w s" "forward_le s t"
  then show "value_served E v w t"
    by (cases "as_str v") (simp add: value_served_def, simp only: value_served_def option.case, blast dest: served_mono)
qed

definition kwarg_served :: "forward_env \<Rightarrow> string \<times> json \<Rightarrow> string \<times> json \<Rightarrow> forward_state \<Rightarrow> bool" where
  "kwarg_served E kv lw t = (fst lw = fst kv \<and> value_served E (snd kv) (snd lw) t)"

definition kwargs_served :: "forward_env \<Rightarrow> jobj \<Rightarrow> jobj \<Rightarrow> forward_state \<Rightarrow> bool" where
  "kwargs_served E d e t = list_all2 (\<lambda>kv lw. kwarg_served E kv lw t) d e"

lemma binds_kwargs: "binds E (bind_kwargs E) (kwargs_served E)"
proof -
  let ?f = "\<lambda>(k, v) t. and_then (bind_value E v t) (\<lambda>(w, u). Inr ((k, w), u))"
  have "binds E ?f (kwarg_served E)"
    by (rule bindsI)
      (auto simp: kwarg_served_def split: prod.splits dest: bindsD[OF binds_value] binds_mono[OF binds_value])
  then have "binds E (traverse_st ?f) (\<lambda>xs ys t. list_all2 (\<lambda>x y. kwarg_served E x y t) xs ys)"
    by (rule binds_traverse)
  then show ?thesis unfolding bind_kwargs_def kwargs_served_def .
qed

text \<open>A row with an explicit reference to an earlier result.\<close>

definition row_served :: "forward_env \<Rightarrow> json \<Rightarrow> json \<Rightarrow> forward_state \<Rightarrow> bool" where
  "row_served E row new t =
     (new = row \<and> (\<forall>r node path. row = JDict r \<longrightarrow> jget r ''node'' = JStr node
          \<longrightarrow> jget r ''path'' = JStr path \<longrightarrow> map_of (fe_results E) node = None)
      \<or> (\<exists>r node path n p. row = JDict r \<and> jget r ''node'' = JStr node \<and> jget r ''path'' = JStr path
           \<and> new = JDict (AList.update ''path'' (JStr p) (AList.update ''node'' (JStr n) r))
           \<and> served_at node path (n, p) t))"

lemma row_served_mono: "row_served E row new s \<Longrightarrow> forward_le s t \<Longrightarrow> row_served E row new t"
  unfolding row_served_def using served_at_mono by blast

lemma binds_row: "binds E (bind_row E) (row_served E)"
proof (rule bindsI)
  fix row s new t
  assume inv: "forward_inv E s" and run: "bind_row E row s = Inr (new, t)"
  show "forward_inv E t \<and> forward_le s t \<and> row_served E row new t"
  proof (cases "\<exists>r node path. row = JDict r \<and> jget r ''node'' = JStr node \<and> jget r ''path'' = JStr path
      \<and> map_of (fe_results E) node \<noteq> None")
    case True
    then obtain r node path where row: "row = JDict r" "jget r ''node'' = JStr node" "jget r ''path'' = JStr path"
        "map_of (fe_results E) node \<noteq> None" by blast
    obtain n p where b: "bind_explicit E node path s = Inr ((n, p), t)"
        and new: "new = JDict (AList.update ''path'' (JStr p) (AList.update ''node'' (JStr n) r))"
      using run row by (auto simp: bind_row_def)
    show ?thesis using bind_explicit_step[OF b inv] row(1-3) new unfolding row_served_def by blast
  next
    case False
    then have "new = row" "t = s"
      using run by (auto simp: bind_row_def split: json.splits)
    then show ?thesis using False inv forward_le_refl unfolding row_served_def by blast
  qed
qed (rule row_served_mono)

text \<open>A field: the others stay, and the field itself changes only if it has the expected shape.\<close>

definition list_served :: "(json \<Rightarrow> json \<Rightarrow> forward_state \<Rightarrow> bool) \<Rightarrow> json \<Rightarrow> json \<Rightarrow> forward_state \<Rightarrow> bool" where
  "list_served R v w t =
     (case as_list v of None \<Rightarrow> w = v
      | Some vs \<Rightarrow> (\<exists>ws. w = JList ws \<and> list_all2 (\<lambda>x y. R x y t) vs ws))"

definition dict_served :: "(jobj \<Rightarrow> jobj \<Rightarrow> forward_state \<Rightarrow> bool) \<Rightarrow> json \<Rightarrow> json \<Rightarrow> forward_state \<Rightarrow> bool" where
  "dict_served R v w t =
     (case as_dict v of None \<Rightarrow> w = v | Some d \<Rightarrow> (\<exists>e. w = JDict e \<and> R d e t))"

definition field_served ::
  "string \<Rightarrow> (json \<Rightarrow> json \<Rightarrow> forward_state \<Rightarrow> bool) \<Rightarrow> jobj \<Rightarrow> jobj \<Rightarrow> forward_state \<Rightarrow> bool"
where
  "field_served key R op op' t =
     ((\<forall>k. k \<noteq> key \<longrightarrow> map_of op' k = map_of op k) \<and> R (jget op key) (jget op' key) t)"

lemma binds_list_field:
  assumes f: "binds E f R"
  shows "binds E (edit_list_field key f) (field_served key (list_served R))"
proof (rule bindsI)
  fix op s op' t
  assume inv: "forward_inv E s" and run: "edit_list_field key f op s = Inr (op', t)"
  show "forward_inv E t \<and> forward_le s t \<and> field_served key (list_served R) op op' t"
  proof (cases "as_list (jget op key)")
    case None
    then have "op' = op" "t = s" using run by (auto simp: edit_list_field_def as_list_def split: json.splits)
    then show ?thesis using None inv by (simp add: field_served_def list_served_def forward_le_refl)
  next
    case (Some vs)
    then obtain ws where ws: "traverse_st f vs s = Inr (ws, t)" "op' = AList.update key (JList ws) op"
      using run by (auto simp: edit_list_field_def)
    show ?thesis using bindsD[OF binds_traverse[OF f] ws(1) inv] Some ws(2)
      by (simp add: field_served_def list_served_def jget_update update_conv)
  qed
next
  fix op op' s t
  assume "field_served key (list_served R) op op' s" "forward_le s t"
  then show "field_served key (list_served R) op op' t"
    by (auto simp: field_served_def list_served_def split: option.splits
        dest: binds_mono[OF binds_traverse[OF f]])
qed

lemma binds_dict_field:
  assumes f: "binds E f R"
  shows "binds E (edit_dict_field key f) (field_served key (dict_served R))"
proof (rule bindsI)
  fix op s op' t
  assume inv: "forward_inv E s" and run: "edit_dict_field key f op s = Inr (op', t)"
  show "forward_inv E t \<and> forward_le s t \<and> field_served key (dict_served R) op op' t"
  proof (cases "as_dict (jget op key)")
    case None
    then have "op' = op" "t = s" using run by (auto simp: edit_dict_field_def as_dict_def split: json.splits)
    then show ?thesis using None inv by (simp add: field_served_def dict_served_def forward_le_refl)
  next
    case (Some d)
    then obtain e where e: "f d s = Inr (e, t)" "op' = AList.update key (JDict e) op"
      using run by (auto simp: edit_dict_field_def)
    show ?thesis using bindsD[OF f e(1) inv] Some e(2)
      by (simp add: field_served_def dict_served_def jget_update update_conv)
  qed
next
  fix op op' s t
  assume "field_served key (dict_served R) op op' s" "forward_le s t"
  then show "field_served key (dict_served R) op op' t"
    by (auto simp: field_served_def dict_served_def split: option.splits dest: binds_mono[OF f])
qed

subsection \<open>A forwarded operation\<close>

definition inputs_served :: "forward_env \<Rightarrow> jobj \<Rightarrow> jobj \<Rightarrow> forward_state \<Rightarrow> bool" where
  "inputs_served E op op' t =
     (is_list (dict_get op ''inputs'' (JList []))
      \<and> field_served ''inputs'' (list_served (value_served E)) op op' t)"

lemma binds_inputs: "binds E (bind_inputs E) (inputs_served E)"
  by (rule bindsI)
    (auto simp: bind_inputs_def inputs_served_def split: if_splits
      dest: bindsD[OF binds_list_field[OF binds_value]] binds_mono[OF binds_list_field[OF binds_value]])

definition image_served :: "forward_env \<Rightarrow> jobj \<Rightarrow> jobj \<Rightarrow> forward_state \<Rightarrow> bool" where
  "image_served E op op' t =
     (op' = op \<and> (case as_str (jget op ''image_source'') of None \<Rightarrow> True | Some ref \<Rightarrow> served E ref None t))"

lemma bind_implicit_image: "bind_implicit E True ref s = Inr (new, t) \<Longrightarrow> new = None"
  by (auto simp: bind_implicit_def split: option.splits if_splits)

lemma binds_image: "binds E (bind_image E) (image_served E)"
proof (rule bindsI)
  fix op s op' t
  assume inv: "forward_inv E s" and run: "bind_image E op s = Inr (op', t)"
  show "forward_inv E t \<and> forward_le s t \<and> image_served E op op' t"
  proof (cases "as_str (jget op ''image_source'')")
    case None
    then have "op' = op" "t = s" using run by (auto simp: bind_image_def as_str_def split: json.splits)
    then show ?thesis using None inv by (simp add: image_served_def forward_le_refl)
  next
    case (Some ref)
    then obtain new where b: "bind_implicit E True ref s = Inr (new, t)" "op' = op"
      using run by (auto simp: bind_image_def split: prod.splits)
    show ?thesis using bind_implicit_step[OF b(1) inv] bind_implicit_image[OF b(1)] Some b(2)
      by (simp add: image_served_def)
  qed
next
  fix op op' s t
  assume "image_served E op op' s" "forward_le s t"
  then show "image_served E op op' t"
    by (auto simp: image_served_def split: option.splits dest: served_mono)
qed

text \<open>All seven edits, in their order.\<close>

definition op_forwarded :: "forward_env \<Rightarrow> jobj \<Rightarrow> jobj \<Rightarrow> forward_state \<Rightarrow> bool" where
  "op_forwarded E op op' t =
     (\<exists>o1. inputs_served E op o1 t \<and>
     (\<exists>o2. field_served ''prompt'' (dict_served
          (field_served ''format_kwargs'' (dict_served (kwargs_served E)))) o1 o2 t \<and>
     (\<exists>o3. field_served ''format_kwargs'' (dict_served (kwargs_served E)) o2 o3 t \<and>
     (\<exists>o4. image_served E o3 o4 t \<and>
     (\<exists>o5. field_served ''aggregate_table'' (list_served (row_served E)) o4 o5 t \<and>
     (\<exists>o6. field_served ''rowwise_columns'' (list_served (row_served E)) o5 o6 t \<and>
        field_served ''data_spec'' (dict_served
          (field_served ''params'' (list_served (row_served E)))) o6 op' t))))))"

lemma binds_forward_op: "binds E (forward_op E) (op_forwarded E)"
  unfolding forward_op_def op_forwarded_def
  by (intro binds_seq binds_inputs binds_dict_field binds_kwargs binds_image binds_list_field binds_row)

text \<open>What the edits do not touch, and what they do to the inputs.\<close>

lemma op_forwarded_fields:
  assumes "op_forwarded E op op' t"
    and "k \<notin> {''inputs'', ''prompt'', ''format_kwargs'', ''aggregate_table'', ''rowwise_columns'', ''data_spec''}"
  shows "map_of op' k = map_of op k"
  using assms unfolding op_forwarded_def inputs_served_def field_served_def image_served_def by auto

lemma op_forwarded_inputs:
  assumes "op_forwarded E op op' t"
  shows "is_list (dict_get op ''inputs'' (JList []))"
    "list_served (value_served E) (jget op ''inputs'') (jget op' ''inputs'') t"
proof -
  obtain o1 where o1: "inputs_served E op o1 t" "jget op' ''inputs'' = jget o1 ''inputs''"
    using assms unfolding op_forwarded_def field_served_def image_served_def
    by (auto simp: jget_def dict_get_def)
  then show "is_list (dict_get op ''inputs'' (JList []))"
      "list_served (value_served E) (jget op ''inputs'') (jget op' ''inputs'') t"
    by (simp_all add: inputs_served_def field_served_def)
qed

lemma op_forwarded_id: "op_forwarded E op op' t \<Longrightarrow> op_id op' = op_id op \<and> op_type op' = op_type op"
  by (simp add: op_id_def op_type_def jget_def dict_get_def op_forwarded_fields)

text \<open>A reference of the forwarded operation comes from one of the operation.\<close>

lemma input_refs_jget: "input_refs op = (case jget op ''inputs'' of JList vs \<Rightarrow> List.map_filter as_str vs | _ \<Rightarrow> [])"
  by (auto simp: input_refs_def jget_def dict_get_def List.map_filter_def split: option.splits)

lemma set_map_filter_str: "r \<in> set (List.map_filter as_str vs) \<longleftrightarrow> JStr r \<in> set vs"
proof (induction vs)
  case (Cons v vs)
  then show ?case by (cases v) (auto simp: map_filter_simps as_str_def)
qed (simp add: map_filter_simps)

lemma mem_input_refs:
  "r \<in> set (input_refs op) \<longleftrightarrow> (\<exists>vs. jget op ''inputs'' = JList vs \<and> JStr r \<in> set vs)"
  by (cases "jget op ''inputs''") (simp_all add: input_refs_jget set_map_filter_str)

lemma op_forwarded_refs:
  assumes "op_forwarded E op op' t" "r \<in> set (input_refs op')"
  shows "\<exists>ref new. ref \<in> set (input_refs op) \<and> served E ref new t \<and> r = (case new of None \<Rightarrow> ref | Some r' \<Rightarrow> r')"
proof -
  obtain ws where ws: "jget op' ''inputs'' = JList ws" "JStr r \<in> set ws"
    using assms(2) by (auto simp: mem_input_refs)
  obtain vs where vs: "jget op ''inputs'' = JList vs" "list_all2 (\<lambda>x y. value_served E x y t) vs ws"
    using op_forwarded_inputs(2)[OF assms(1)] ws(1)
    by (cases "jget op ''inputs''") (auto simp: list_served_def as_list_def)
  obtain v where v: "v \<in> set vs" "value_served E v (JStr r) t"
    using vs(2) ws(2) by (metis in_set_conv_nth list_all2_conv_all_nth)
  obtain ref new where n: "v = JStr ref" "served E ref new t" "JStr r = (case new of None \<Rightarrow> v | Some r' \<Rightarrow> JStr r')"
    using v(2) by (auto simp: value_served_def split: option.splits)
  have "ref \<in> set (input_refs op)" using v(1) n(1) vs(1) by (simp add: mem_input_refs)
  moreover have "r = (case new of None \<Rightarrow> ref | Some r' \<Rightarrow> r')" using n by (auto split: option.splits)
  ultimately show ?thesis using n(2) by blast
qed

subsection \<open>The round\<close>

lemma forward_refs_rel:
  assumes "forward_refs E subgraph = Inr (ops, ins)"
  obtains rewritten t where "ops = rewritten @ map materializer (fs_materialized t)" "ins = fs_inputs t"
    "forward_inv E t" "list_all2 (\<lambda>op op'. op_forwarded E op op' t) subgraph rewritten"
proof -
  obtain rewritten t where run: "traverse_st (forward_op E) subgraph forward_init = Inr (rewritten, t)"
      and out: "ops = rewritten @ fs_materializers t" "ins = fs_inputs t"
    using assms by (auto simp: forward_refs_def split: prod.splits)
  note B = bindsD[OF binds_traverse[OF binds_forward_op] run forward_inv_init]
  have "fs_materializers t = map materializer (fs_materialized t)" using B(1) by (simp add: forward_inv_def)
  then show thesis using out B(1,3) that by simp
qed

lemma materializer_op [simp]:
  "op_id (materializer i) = rows_name i" "input_refs (materializer i) = [i]"
  by (simp_all add: materializer_def op_id_def input_refs_def jget_def dict_get_def List.map_filter_def)

lemma forward_rows_aux:
  assumes "forward_refs E subgraph = Inr (ops, ins)" "fe_rows E > 1" "(i, vs) \<in> set ins"
  shows "length vs = fe_rows E"
  using forward_refs_rel[OF assms(1)] assms(2,3) unfolding forward_inv_def
  by (metis (mono_tags, lifting) case_prodD)

text \<open>A reference of the round after forwarding, when the references before are grounded.\<close>

lemma forward_closed_aux:
  assumes fwd: "forward_refs E subgraph = Inr (ops, ins)"
    and grounded: "refs_grounded registry (Some (fst ` set (fe_results E))) subgraph"
    and op: "op \<in> set ops" "r \<in> set (input_refs op)"
  shows "r = INPUT_NODE_ID \<or> r \<in> fst ` set ins \<or> r \<in> op_id ` set ops"
proof -
  obtain rewritten t where t: "ops = rewritten @ map materializer (fs_materialized t)" "ins = fs_inputs t"
      "forward_inv E t" and rel: "list_all2 (\<lambda>op op'. op_forwarded E op op' t) subgraph rewritten"
    by (rule forward_refs_rel[OF fwd])
  have mats: "set (fs_materialized t) \<subseteq> fst ` set ins" using t(2,3) by (simp add: forward_inv_def)
  have ids: "op_id ` set rewritten = op_id ` set subgraph"
    using rel op_forwarded_id by (induction rule: list_all2_induct) auto
  consider (mat) i where "i \<in> set (fs_materialized t)" "op = materializer i" | (own) "op \<in> set rewritten"
    using op(1) unfolding t(1) by fastforce
  then show ?thesis
  proof cases
    case mat
    then show ?thesis using op(2) mats by auto
  next
    case own
    then obtain k where k: "k < length subgraph" "op_forwarded E (subgraph ! k) op t"
      using rel by (auto simp: list_all2_conv_all_nth in_set_conv_nth)
    obtain ref new where ref: "ref \<in> set (input_refs (subgraph ! k))" "served E ref new t"
        "r = (case new of None \<Rightarrow> ref | Some r' \<Rightarrow> r')"
      using op_forwarded_refs[OF k(2) op(2)] by blast
    show ?thesis
    proof (cases new)
      case (Some r')
      then obtain i where i: "i \<in> set (fs_materialized t)" "r = op_id (materializer i)"
        using ref by (auto simp: served_def)
      then have "materializer i \<in> set ops" using t(1) by simp
      then show ?thesis using i(2) by blast
    next
      case None
      then have "map_of (fe_results E) r \<noteq> None \<Longrightarrow> r \<in> fst ` set ins"
        using ref t(2) by (simp add: served_def)
      moreover have "r = INPUT_NODE_ID \<or> r \<in> fst ` set (fe_results E) \<or> r \<in> op_id ` set (take k subgraph)"
        using grounded k(1) ref(1,3) None by (auto simp: refs_grounded_def available_ref_def)
      moreover have "op_id ` set (take k subgraph) \<subseteq> op_id ` set ops"
        unfolding t(1) set_append image_Un ids using set_take_subset[of k subgraph] by blast
      ultimately show ?thesis by (auto simp: map_of_eq_None_iff)
    qed
  qed
qed

subsection \<open>One slice per row\<close>

text \<open>When every bound input has one value per row, the slicing of the round cannot fail and slice \<open>j\<close>
  holds the values of row \<open>j\<close>.\<close>

lemma foldl_update_lengths:
  assumes "\<forall>(i, vs)\<in>set d. length vs = n" "\<forall>(i, vs)\<in>set ins. length vs = n"
  shows "\<forall>(i, vs)\<in>set (foldl (\<lambda>d (k, v). AList.update k v d) d ins). length vs = n"
  using assms
proof (induction ins arbitrary: d)
  case Nil
  then show ?case by simp
next
  case (Cons kv ins)
  obtain k v where kv: "kv = (k, v)" by (cases kv)
  have "\<forall>(i, vs)\<in>set (AList.update k v d). length vs = n"
    using Cons.prems by (auto simp: kv dest!: set_update_cases)
  then show ?case using Cons.IH Cons.prems(2) by (simp add: kv)
qed

lemma foldl_update_nonempty: "d \<noteq> [] \<Longrightarrow> foldl (\<lambda>d (k, v). AList.update k v d) d ins \<noteq> []"
proof (induction ins arbitrary: d)
  case (Cons kv ins)
  obtain k v where kv: "kv = (k, v)" by (cases kv)
  have "AList.update k v d \<noteq> []" by (cases d) auto
  then show ?case using Cons.IH by (simp add: kv)
qed simp

lemma child_inputs_lengths:
  "length symbols = n \<Longrightarrow> \<forall>(i, vs)\<in>set ins. length vs = n
     \<Longrightarrow> (\<forall>(i, vs)\<in>set (child_inputs symbols ins). length vs = n) \<and> child_inputs symbols ins \<noteq> []"
  unfolding child_inputs_def
  by (intro conjI foldl_update_lengths foldl_update_nonempty) auto

lemma max_len_uniform:
  "ins \<noteq> [] \<Longrightarrow> \<forall>(i, vs)\<in>set ins. length vs = n \<Longrightarrow> max_len ins = n"
proof (induction ins)
  case (Cons kv ins)
  then show ?case by (cases "ins = []") (auto simp: max_len_def)
qed simp

lemma chunk_rows:
  assumes "ins \<noteq> []" "\<forall>(i, vs)\<in>set ins. length vs = n" "1 < n"
  shows "chunk_inputs ins 1 = Inr (map (\<lambda>j. map (\<lambda>(i, vs). (i, [vs ! j])) ins) [0..<n])"
proof -
  have len: "max_len ins = n" by (rule max_len_uniform[OF assms(1,2)])
  have "\<not> ragged ins" using assms(2) by (auto simp: ragged_def len)
  moreover have "range_starts n 1 = [0..<n]" by (simp add: range_starts_def ceil_div_def)
  moreover have "chunk_at 1 j ins = map (\<lambda>(i, vs). (i, [vs ! j])) ins" if "j < n" for j
    using assms(2,3) that by (auto simp: chunk_at_def take_Suc hd_drop_conv_nth)
  ultimately show ?thesis using assms(3) by (simp add: chunk_inputs_def len)
qed

end
