(* ===== verification/Dynamic_Run_Inv.thy ===== *)
theory Dynamic_Run_Inv
  imports Dynamic_Run Dynamic_Closure
begin

section \<open>The invariant of a dynamic run\<close>

text \<open>
  What holds in every reachable state of \<open>dyn_step\<close>: the registry of the run is a dependency order of
  distinct operations, results exist for its operations only, the current subgraph is grounded in
  them, no round is dispatched beyond the limit, and the record is terminal exactly when it is
  finished. One lemma per function of the loop; a measure bounds the number of steps.
\<close>

subsection \<open>The registry\<close>

definition registry_ok :: "(string, jobj) dict \<Rightarrow> bool" where
  "registry_ok reg =
     (distinct (map fst reg)
      \<and> (\<forall>(k, op)\<in>set reg. op_id op = k \<and> k \<notin> set FIXED_ROUND_NODE_IDS \<and> supported_type (jget op ''op''))
      \<and> (\<forall>i<length reg. \<forall>r\<in>set (input_refs (snd (reg ! i))). r = INPUT_NODE_ID \<or> r \<in> fst ` set (take i reg)))"

definition registry_edges :: "(string, jobj) dict \<Rightarrow> (string \<times> string) set" where
  "registry_edges reg = {(r, k). \<exists>op. (k, op) \<in> set reg \<and> r \<in> set (input_refs op)}"

lemma update_all_append:
  "distinct (map fst kvs) \<Longrightarrow> fst ` set d \<inter> fst ` set kvs = {} \<Longrightarrow> update_all d kvs = d @ kvs"
proof (induction kvs arbitrary: d)
  case Nil
  then show ?case by simp
next
  case (Cons kv kvs)
  obtain k v where kv: "kv = (k, v)" by (cases kv)
  have "AList.update k v d = d @ [(k, v)]" using Cons.prems(2) by (intro update_new) (auto simp: kv)
  then show ?case using Cons.IH[of "d @ [(k, v)]"] Cons.prems by (auto simp: kv)
qed

text \<open>What an admission adds.\<close>

definition op_entries :: "jobj list \<Rightarrow> (string, jobj) dict" where
  "op_entries ops = map (\<lambda>op. (op_id op, op)) ops"

lemma op_entries_simps [simp]:
  "map fst (op_entries ops) = map op_id ops" "fst ` set (op_entries ops) = op_id ` set ops"
  "length (op_entries ops) = length ops" "i < length ops \<Longrightarrow> op_entries ops ! i = (op_id (ops ! i), ops ! i)"
  "take n (op_entries ops) = op_entries (take n ops)"
  by (simp_all add: op_entries_def take_map image_image o_def)

lemma well_formed_ops_new:
  "list_all (well_formed_op reg) ops \<Longrightarrow> fst ` set reg \<inter> op_id ` set ops = {}"
proof -
  assume "list_all (well_formed_op reg) ops"
  then have "\<forall>op\<in>set ops. op_id op \<notin> fst ` set reg"
    by (simp add: list_all_iff well_formed_op_def)
  then have "op_id ` set ops \<subseteq> - fst ` set reg" by (intro image_subsetI) simp
  then show ?thesis by blast
qed

lemma admit_subgraph_entries:
  assumes "admit_subgraph env ops export reg results = Inr (resolved, reg')"
  shows "well_formed_round reg (de_max_nodes env) (Some export) (Some (fst ` set results)) resolved"
    and "resolve_subgraph ops (de_library env) = Inr resolved" "reg' = reg @ op_entries resolved"
proof -
  have val: "validate_emitted_subgraph (de_declared env) ops reg (de_max_nodes env) (de_library env)
      (Some export) (Some (fst ` set results)) = Inr ()"
    and res: "resolve_subgraph ops (de_library env) = Inr resolved"
    and upd: "reg' = update_all reg (op_entries resolved)"
    using assms by (auto simp: admit_subgraph_def op_entries_def)
  show wf: "well_formed_round reg (de_max_nodes env) (Some export) (Some (fst ` set results)) resolved"
    using val validate_resolved[OF res] by blast
  show "resolve_subgraph ops (de_library env) = Inr resolved" by (rule res)
  show "reg' = reg @ op_entries resolved"
    unfolding upd using wf
    by (intro update_all_append) (simp_all add: well_formed_round_def well_formed_ops_new)
qed

lemma registry_ok_admit:
  assumes reg: "registry_ok reg" and wf: "well_formed_round reg m export results ops"
  shows "registry_ok (reg @ op_entries ops)"
proof -
  have ops: "list_all (well_formed_op reg) ops" "distinct (map op_id ops)" "refs_grounded reg results ops"
    using wf by (simp_all add: well_formed_round_def)
  have "distinct (map fst (reg @ op_entries ops))"
    using reg ops(2) well_formed_ops_new[OF ops(1)] by (simp add: registry_ok_def)
  moreover have "op_id op = k \<and> k \<notin> set FIXED_ROUND_NODE_IDS \<and> supported_type (jget op ''op'')"
    if "(k, op) \<in> set (reg @ op_entries ops)" for k op
    using that reg ops(1) by (auto simp: registry_ok_def op_entries_def list_all_iff well_formed_op_def)
  moreover have "r = INPUT_NODE_ID \<or> r \<in> fst ` set (take i (reg @ op_entries ops))"
    if i: "i < length (reg @ op_entries ops)" and r: "r \<in> set (input_refs (snd ((reg @ op_entries ops) ! i)))"
    for i r
  proof (cases "i < length reg")
    case True
    then have "r \<in> set (input_refs (snd (reg ! i)))" using r by (simp add: nth_append)
    then have "r = INPUT_NODE_ID \<or> r \<in> fst ` set (take i reg)" using reg True by (simp add: registry_ok_def)
    then show ?thesis by auto
  next
    case False
    let ?j = "i - length reg"
    have j: "?j < length ops" "r \<in> set (input_refs (ops ! ?j))" using False i r by (auto simp: nth_append)
    then have "r = INPUT_NODE_ID \<or> r \<in> fst ` set reg \<or> r \<in> op_id ` set (take ?j ops)"
      using ops(3) by (auto simp: refs_grounded_def available_ref_def)
    moreover have "fst ` set (take i (reg @ op_entries ops)) = fst ` set reg \<union> op_id ` set (take ?j ops)"
      using False by (simp add: image_Un)
    ultimately show ?thesis by blast
  qed
  ultimately show ?thesis unfolding registry_ok_def by blast
qed

text \<open>Along a dependency the position grows, so the dependencies have no cycle.\<close>

definition position :: "(string, jobj) dict \<Rightarrow> string \<Rightarrow> nat" where
  "position reg k = (if k \<in> fst ` set reg then Suc (length (takeWhile (\<lambda>e. fst e \<noteq> k) reg)) else 0)"

lemma position_nth: "distinct (map fst reg) \<Longrightarrow> i < length reg \<Longrightarrow> position reg (fst (reg ! i)) = Suc i"
proof -
  assume reg: "distinct (map fst reg)" "i < length reg"
  have "fst (reg ! j) \<noteq> fst (reg ! i)" if "j < i" for j
    using that reg nth_eq_iff_index_eq[OF reg(1), of j i] by simp
  then have "takeWhile (\<lambda>e. fst e \<noteq> fst (reg ! i)) reg = take i reg"
    by (intro takeWhile_eq_take_P_nth) auto
  then show ?thesis using reg by (simp add: position_def)
qed

lemma registry_acyclic:
  assumes "registry_ok reg"
  shows "acyclic (registry_edges reg)"
proof (rule acyclic_subset[OF wf_acyclic[OF wf_measure[of "position reg"]]], rule subrelI)
  fix r k assume "(r, k) \<in> registry_edges reg"
  then obtain i where i: "i < length reg" "fst (reg ! i) = k" "r \<in> set (input_refs (snd (reg ! i)))"
    by (fastforce simp: registry_edges_def in_set_conv_nth)
  have dist: "distinct (map fst reg)" using assms by (simp add: registry_ok_def)
  have "r = INPUT_NODE_ID \<or> r \<in> fst ` set (take i reg)" using assms i(1,3) by (simp add: registry_ok_def)
  then have "position reg r < Suc i"
  proof
    assume "r = INPUT_NODE_ID"
    then have "r \<notin> fst ` set reg" using assms by (auto simp: registry_ok_def FIXED_ROUND_NODE_IDS_def)
    then show ?thesis by (simp add: position_def)
  next
    assume "r \<in> fst ` set (take i reg)"
    then obtain j where "j < i" "fst (reg ! j) = r" using i(1) by (auto simp: in_set_conv_nth)
    then show ?thesis using position_nth[OF dist, of j] i(1) by simp
  qed
  then show "(r, k) \<in> measure (position reg)" using position_nth[OF dist i(1)] i(2) by simp
qed

end
