(* ===== verification/Dynamic_Run_Steps.thy ===== *)
theory Dynamic_Run_Steps
  imports Dynamic_Run_Inv
begin

section \<open>Every step of a dynamic run keeps the invariant\<close>

text \<open>
  The invariant of the run over \<open>Dynamic_Run_Inv\<close>'s registry, phase by phase; one preservation lemma
  per function of the loop, and the measure that each step decreases.
\<close>

named_theorems run_intros \<open>preservation of the run's invariant by the functions of the loop\<close>

subsection \<open>The invariant\<close>

definition vars_ok :: "dyn_env \<Rightarrow> dyn_vars \<Rightarrow> bool" where
  "vars_ok env v =
     (registry_ok (dy_registry v) \<and> fst ` set (dy_results v) \<subseteq> fst ` set (dy_registry v)
      \<and> length (dy_registry v) \<le> dy_round v * de_max_nodes env \<and> dy_round v \<le> de_max_rounds env)"

definition vars_grounded :: "dyn_vars \<Rightarrow> bool" where
  "vars_grounded v =
     (refs_grounded (dy_registry v) (Some (fst ` set (dy_results v))) (dy_subgraph v)
      \<and> set (op_entries (dy_subgraph v)) \<subseteq> set (dy_registry v) \<and> length (dy_plans v) = dy_round v)"

definition phase_ok :: "dyn_env \<Rightarrow> dyn_run \<Rightarrow> bool" where
  "phase_ok env r =
     (let v = dr_vars r; n = length (jr_children (dr_job r)) in
      case dr_phase r of
        NotStarted \<Rightarrow> v = dyn_init \<and> n = 0
      | Started \<Rightarrow> v = dyn_init \<and> n = 0
      | AtRound \<Rightarrow> vars_grounded v \<and> n \<le> dy_round v
      | AwaitingChild b \<Rightarrow> vars_grounded v \<and> dy_round v < de_max_rounds env \<and> n \<le> dy_round v + 1
          \<and> build_current env v = Inr b \<and> (\<exists>sub. round_slices env b (dy_round v) = Inr sub)
      | Closing \<Rightarrow> dy_round v < de_max_rounds env \<and> n \<le> dy_round v + 1 \<and> length (dy_plans v) = dy_round v + 1
      | Ended \<Rightarrow> n \<le> de_max_rounds env)"

definition job_ok :: "dyn_env \<Rightarrow> dyn_run \<Rightarrow> bool" where
  "job_ok env r =
     (let job = dr_job r in
      distinct (jr_children job) \<and> (terminal_status (jr_status job) \<longleftrightarrow> jr_finished job)
      \<and> (dr_phase r = Ended \<longrightarrow> terminal_status (jr_status job))
      \<and> (jr_status job = JobCompleted \<longrightarrow> dr_phase r = Ended)
      \<and> (case jr_result job of
           None \<Rightarrow> jr_status job \<noteq> JobCompleted
         | Some res \<Rightarrow> jr_status job = JobCompleted \<and> length (rr_plans res) \<le> de_max_rounds env))"

definition run_ok :: "dyn_env \<Rightarrow> dyn_run \<Rightarrow> bool" where
  "run_ok env r = (vars_ok env (dr_vars r) \<and> phase_ok env r \<and> job_ok env r)"

lemma registry_ok_Nil: "registry_ok []"
  by (simp add: registry_ok_def)

lemma vars_ok_init: "vars_ok env dyn_init"
  by (simp add: vars_ok_def dyn_init_def registry_ok_Nil)

lemma vars_grounded_init: "vars_grounded dyn_init"
  by (simp add: vars_grounded_def dyn_init_def refs_grounded_def op_entries_def)

lemma run_ok_init: "run_ok env dyn_run_init"
  by (simp add: run_ok_def dyn_run_init_def vars_ok_init phase_ok_def job_ok_def job_submitted_def
      terminal_status_def)

lemma children_bound: "run_ok env r \<Longrightarrow> length (jr_children (dr_job r)) \<le> de_max_rounds env"
  by (cases "dr_phase r") (auto simp: run_ok_def phase_ok_def vars_ok_def Let_def)

subsection \<open>Following a plan\<close>

lemma refs_grounded_mono:
  assumes "refs_grounded reg (Some rs) ops" "fst ` set reg \<subseteq> fst ` set reg'" "rs \<subseteq> rs'"
  shows "refs_grounded reg' (Some rs') ops"
  using assms unfolding refs_grounded_def available_ref_def by fastforce

lemma follow_plan_ok:
  assumes "follow_plan env plan v = Inr (Some w)" "vars_ok env v" "length (dy_plans v) = dy_round v"
    and "dy_round v < de_max_rounds env"
  shows "vars_ok env w" "vars_grounded w" "dy_round w = dy_round v + 1"
    and "\<exists>ops. dy_registry w = dy_registry v @ op_entries ops"
proof -
  obtain ops export resolved reg' where plan: "plan = SubgraphPlan ops export"
      and adm: "admit_subgraph env ops export (dy_registry v) (dy_results v) = Inr (resolved, reg')"
      and w: "w = v\<lparr>dy_plans := dy_plans v @ [plan_to_dict plan], dy_registry := reg',
        dy_subgraph := resolved, dy_export := export, dy_round := dy_round v + 1\<rparr>"
    using assms(1) by (auto simp: follow_plan_def Let_def split: plan.splits prod.splits)
  note A = admit_subgraph_entries[OF adm]
  have len: "length resolved \<le> de_max_nodes env" using A(1) by (simp add: well_formed_round_def)
  have sub: "fst ` set (dy_registry v) \<subseteq> fst ` set reg'" by (auto simp: A(3))
  show "vars_ok env w"
    using assms(2,4) registry_ok_admit[OF _ A(1)] len sub
    by (auto simp: w vars_ok_def A(3))
  have "refs_grounded (dy_registry v) (Some (fst ` set (dy_results v))) resolved"
    using A(1) by (simp add: well_formed_round_def)
  then have "refs_grounded reg' (Some (fst ` set (dy_results v))) resolved"
    by (rule refs_grounded_mono[OF _ sub order_refl])
  then show "vars_grounded w" using assms(3) by (simp add: w vars_grounded_def A(3))
  show "dy_round w = dy_round v + 1" by (simp add: w)
  show "\<exists>ops. dy_registry w = dy_registry v @ op_entries ops" by (auto simp: w A(3))
qed

lemma first_plan_follow:
  "first_plan env reply v = Inr (plan, nxt) \<Longrightarrow> follow_plan env plan v = Inr nxt"
  by (auto simp: first_plan_def)

subsection \<open>Absorbing a round\<close>

lemma traverse_configs_known:
  assumes "traverse (\<lambda>(internal, user). case map_of reg user of None \<Rightarrow> Inl OtherRaised
      | Some op \<Rightarrow> Inr (internal, op)) users = Inr configs"
  shows "snd ` set users \<subseteq> fst ` set reg"
  using assms
proof (induction users arbitrary: configs)
  case Nil
  then show ?case by simp
next
  case (Cons u users)
  obtain i k where u: "u = (i, k)" by (cases u)
  obtain op cs where k: "map_of reg k = Some op"
      and rest: "traverse (\<lambda>(internal, user). case map_of reg user of None \<Rightarrow> Inl OtherRaised
        | Some op \<Rightarrow> Inr (internal, op)) users = Inr cs"
    using Cons.prems by (auto simp: u split: option.splits)
  have "k \<in> fst ` set reg" using k by (force dest: map_of_SomeD)
  then show ?case using Cons.IH[OF rest] by (simp add: u)
qed

lemma internal_configs_known:
  assumes "internal_configs reg b = Inr configs"
  shows "snd ` set (archived_users b) \<subseteq> fst ` set reg"
proof -
  obtain cs where "traverse (\<lambda>(internal, user). case map_of reg user of None \<Rightarrow> Inl OtherRaised
      | Some op \<Rightarrow> Inr (internal, op)) (archived_users b) = Inr cs"
    using assms by (auto simp: internal_configs_def)
  then show ?thesis by (rule traverse_configs_known)
qed

lemma store_results_keys:
  "store_results C users outs results = Inr results' \<Longrightarrow>
     fst ` set results' \<subseteq> fst ` set results \<union> snd ` set users
     \<and> fst ` set results \<subseteq> fst ` set results'"
proof (induction C users outs results rule: store_results.induct)
  case (2 C users internal vals rest results)
  then obtain user where user: "map_of (rev users) internal = Some user"
      and rec: "store_results C users rest (AList.update user (flatten_values C vals) results) = Inr results'"
    by (auto split: option.splits)
  have "user \<in> snd ` set users" using map_of_SomeD[OF user] by force
  then show ?case using "2.IH"[OF user rec] unfolding keys_update by blast
qed simp

lemma absorb_round_vars:
  assumes "absorb_round env b outputs reply v = Inr (plan, w)"
  shows "dy_registry w = dy_registry v" "dy_round w = dy_round v" "dy_plans w = dy_plans v"
    and "fst ` set (dy_results v) \<subseteq> fst ` set (dy_registry v) \<Longrightarrow>
      fst ` set (dy_results w) \<subseteq> fst ` set (dy_registry w)"
proof -
  obtain configs res1 res2 louts eouts walked obs where
      configs: "internal_configs (dy_registry v) b = Inr configs"
    and st1: "store_results (de_codec env) (cut_names 5 (rb_leaf_output_names b) (rb_leaf_user_ids b))
        louts (dy_results v) = Inr res1"
    and st2: "store_results (de_codec env) (cut_names 7 (rb_export_output_names b) (rb_export_user_ids b))
        eouts res1 = Inr res2"
    and w: "w = v\<lparr>dy_round_results := dy_round_results v @ [flatten_leaf_outputs (de_codec env) walked],
        dy_observations := dy_observations v @ [obs], dy_results := res2\<rparr>"
    using assms unfolding absorb_round_def and_then_eq_Inr by auto
  show "dy_registry w = dy_registry v" "dy_round w = dy_round v" "dy_plans w = dy_plans v"
    by (simp_all add: w)
  assume keys: "fst ` set (dy_results v) \<subseteq> fst ` set (dy_registry v)"
  have users: "snd ` set (cut_names 5 (rb_leaf_output_names b) (rb_leaf_user_ids b)) \<subseteq> fst ` set (dy_registry v)"
      "snd ` set (cut_names 7 (rb_export_output_names b) (rb_export_user_ids b)) \<subseteq> fst ` set (dy_registry v)"
    using internal_configs_known[OF configs] by (simp_all add: archived_users_def image_Un)
  have "fst ` set res1 \<subseteq> fst ` set (dy_registry v)"
    using store_results_keys[OF st1] keys users(1) by (meson Un_least order_trans)
  then have "fst ` set res2 \<subseteq> fst ` set (dy_registry v)"
    using store_results_keys[OF st2] users(2) by (meson Un_least order_trans)
  then show "fst ` set (dy_results w) \<subseteq> fst ` set (dy_registry w)" by (simp add: w)
qed

lemma absorb_round_ok:
  assumes "absorb_round env b outputs reply v = Inr (plan, w)" "vars_ok env v"
  shows "vars_ok env w"
  using absorb_round_vars[OF assms(1)] assms(2) by (simp add: vars_ok_def)

subsection \<open>The functions of the loop\<close>

lemma end_record_simps [simp]:
  "jr_children (end_record st err job) = jr_children job"
  "terminal_status st \<Longrightarrow> terminal_status (jr_status (end_record st err job))"
  by (simp_all add: end_record_def)

lemma leave_ok [run_intros]:
  assumes "run_ok env r" "st \<in> {JobFailed, JobCancelled}"
  shows "run_ok env (leave st err r)"
proof -
  have "phase_ok env (leave st err r)"
    using children_bound[OF assms(1)] by (simp add: phase_ok_def leave_def)
  moreover have "job_ok env (leave st err r)"
    using assms by (auto simp: run_ok_def job_ok_def leave_def end_record_def terminal_status_def Let_def
        split: option.splits)
  ultimately show ?thesis using assms(1) by (simp add: run_ok_def leave_def)
qed

lemma end_terminal_ok [run_intros]:
  assumes "run_ok env r" "terminal_status (jr_status (dr_job r))"
  shows "run_ok env (r\<lparr>dr_phase := Ended\<rparr>)"
proof -
  have "phase_ok env (r\<lparr>dr_phase := Ended\<rparr>)" using children_bound[OF assms(1)] by (simp add: phase_ok_def)
  moreover have "job_ok env (r\<lparr>dr_phase := Ended\<rparr>)"
    using assms by (auto simp: run_ok_def job_ok_def Let_def split: option.splits)
  ultimately show ?thesis using assms(1) by (simp add: run_ok_def)
qed

lemma dyn_start_ok [run_intros]:
  assumes "run_ok env r" "dr_phase r = NotStarted"
  shows "run_ok env (dyn_start r)"
proof (cases "terminal_status (jr_status (dr_job r))")
  case True
  then show ?thesis using end_terminal_ok[OF assms(1)] by (simp add: dyn_start_def)
next
  case False
  then show ?thesis using assms
    by (auto simp: dyn_start_def run_ok_def phase_ok_def job_ok_def Let_def terminal_status_def
        split: option.splits)
qed

lemma dyn_open_ok [run_intros]:
  assumes "run_ok env r" "dr_phase r = Started"
  shows "run_ok env (dyn_open env r)"
  using assms
  by (auto simp: dyn_open_def run_ok_def vars_ok_init vars_grounded_init phase_ok_def job_ok_def Let_def
      split: option.splits)

lemma dyn_first_ok [run_intros]:
  assumes "run_ok env r" "dr_phase r = AtRound" "dy_round (dr_vars r) = 0" "0 < de_max_rounds env"
  shows "run_ok env (dyn_first env reply r)"
proof -
  have v: "vars_ok env (dr_vars r)" "length (dy_plans (dr_vars r)) = dy_round (dr_vars r)"
      "length (jr_children (dr_job r)) \<le> dy_round (dr_vars r)" "job_ok env r"
    using assms(1,2) by (simp_all add: run_ok_def phase_ok_def vars_grounded_def Let_def)
  consider (err) e where "first_plan env reply (dr_vars r) = Inl e"
    | (stop) plan where "first_plan env reply (dr_vars r) = Inr (plan, None)"
    | (go) plan w where "first_plan env reply (dr_vars r) = Inr (plan, Some w)"
    by (metis option.exhaust sum.exhaust prod.exhaust)
  then show ?thesis
  proof cases
    case err
    then show ?thesis using leave_ok[OF assms(1)] by (simp add: dyn_first_def)
  next
    case stop
    then show ?thesis using v assms
      by (auto simp: dyn_first_def run_ok_def with_plan_def vars_ok_def phase_ok_def job_ok_def Let_def
          split: option.splits)
  next
    case go
    note F = follow_plan_ok[OF first_plan_follow[OF go] v(1,2)]
    show ?thesis using F go v assms
      by (auto simp: dyn_first_def run_ok_def phase_ok_def job_ok_def Let_def split: option.splits)
  qed
qed

lemma length_append_new: "length (append_new xs x) \<le> length xs + 1"
  by (simp add: append_new_def)

lemma dyn_submit_ok [run_intros]:
  assumes "run_ok env r" "dr_phase r = AtRound" "dy_round (dr_vars r) < de_max_rounds env"
  shows "run_ok env (dyn_submit env child compiles r)"
proof (cases "build_current env (dr_vars r)")
  case (Inl e)
  then show ?thesis using leave_ok[OF assms(1)] by (simp add: dyn_submit_def)
next
  case (Inr b)
  let ?loc = "round_output_location (de_location env) (de_namespace env) (dy_round (dr_vars r))"
  let ?sub = "round_slices env b (dy_round (dr_vars r))"
  consider (err) "\<not> (\<exists>loc sub. ?loc = Inr loc \<and> ?sub = Inr sub)"
    | (bad) loc sub where "?loc = Inr loc" "?sub = Inr sub" "\<not> compiles"
    | (over) loc sub where "?loc = Inr loc" "?sub = Inr sub" "compiles" "terminal_status (jr_status (dr_job r))"
    | (ok) loc sub where "?loc = Inr loc" "?sub = Inr sub" "compiles" "\<not> terminal_status (jr_status (dr_job r))"
    by blast
  then show ?thesis
  proof cases
    case err
    then have "dyn_submit env child compiles r = leave JobFailed (Some crash_error) r"
      using Inr by (cases ?loc; cases ?sub) (simp_all add: dyn_submit_def Let_def)
    then show ?thesis using leave_ok[OF assms(1)] by simp
  next
    case bad
    then show ?thesis using leave_ok[OF assms(1)] Inr by (simp add: dyn_submit_def Let_def)
  next
    case over
    then show ?thesis using end_terminal_ok[OF assms(1)] Inr by (simp add: dyn_submit_def Let_def)
  next
    case ok
    have "phase_ok env (dyn_submit env child compiles r)"
      using assms ok Inr length_append_new[of "jr_children (dr_job r)" child]
      by (auto simp: dyn_submit_def Let_def run_ok_def phase_ok_def)
    moreover have "job_ok env (dyn_submit env child compiles r)"
      using assms ok Inr
      by (auto simp: dyn_submit_def Let_def run_ok_def job_ok_def terminal_status_def split: option.splits)
    ultimately show ?thesis using assms(1) ok Inr by (simp add: run_ok_def dyn_submit_def Let_def)
  qed
qed

lemma round_done_ok:
  assumes "run_ok env r" "dr_phase r = AwaitingChild b" "vars_ok env w" "vars_grounded w"
    and "dy_round w = dy_round (dr_vars r) + 1"
  shows "run_ok env (round_done env w r)"
proof (cases "terminal_status (jr_status (dr_job r))")
  case True
  then show ?thesis using end_terminal_ok[OF assms(1)] by (simp add: round_done_def)
next
  case False
  then show ?thesis using assms
    by (auto simp: round_done_def run_ok_def phase_ok_def job_ok_def Let_def split: option.splits)
qed

lemma dyn_child_end_ok [run_intros]:
  assumes "run_ok env r" "dr_phase r = AwaitingChild b"
  shows "run_ok env (dyn_child_end env b ending reply r)"
proof (cases ending)
  case (ChildCompleted outputs)
  have v: "vars_ok env (dr_vars r)" "length (dy_plans (dr_vars r)) = dy_round (dr_vars r)"
      "dy_round (dr_vars r) < de_max_rounds env" "job_ok env r"
    using assms by (simp_all add: run_ok_def phase_ok_def vars_grounded_def Let_def)
  show ?thesis
  proof (cases "absorb_round env b outputs reply (dr_vars r)")
    case (Inl e)
    then show ?thesis using leave_ok[OF assms(1)] ChildCompleted by (simp add: dyn_child_end_def)
  next
    case (Inr pv)
    then obtain plan w where pw: "absorb_round env b outputs reply (dr_vars r) = Inr (plan, w)" by (cases pv) auto
    note W = absorb_round_vars[OF pw] absorb_round_ok[OF pw v(1)]
    consider (err) e where "follow_plan env plan w = Inl e" | (stop) "follow_plan env plan w = Inr None"
      | (go) u where "follow_plan env plan w = Inr (Some u)"
      by (metis option.exhaust sum.exhaust)
    then show ?thesis
    proof cases
      case err
      then show ?thesis using leave_ok[OF assms(1)] ChildCompleted pw by (simp add: dyn_child_end_def)
    next
      case stop
      then show ?thesis using v W assms ChildCompleted pw
        by (auto simp: dyn_child_end_def run_ok_def with_plan_def vars_ok_def phase_ok_def job_ok_def Let_def
            split: option.splits)
    next
      case go
      have "length (dy_plans w) = dy_round w" "dy_round w < de_max_rounds env" using W(2,3) v(2,3) by simp_all
      note F = follow_plan_ok[OF go W(5) this]
      show ?thesis using round_done_ok[OF assms F(1,2)] F(3) W(2) go ChildCompleted pw
        by (simp add: dyn_child_end_def)
    qed
  qed
qed (use leave_ok[OF assms(1)] in \<open>simp_all add: dyn_child_end_def\<close>)

lemma dyn_close_ok [run_intros]:
  assumes "run_ok env r" "dr_phase r = Closing \<or> dr_phase r = AtRound \<and> de_max_rounds env \<le> dy_round (dr_vars r)"
  shows "run_ok env (dyn_close r)"
proof (cases "terminal_status (jr_status (dr_job r))")
  case True
  then show ?thesis using end_terminal_ok[OF assms(1)] by (simp add: dyn_close_def)
next
  case False
  have "length (dy_plans (dr_vars r)) \<le> de_max_rounds env"
    using assms by (auto simp: run_ok_def phase_ok_def vars_ok_def vars_grounded_def Let_def)
  moreover have "length (jr_children (dr_job r)) \<le> de_max_rounds env" by (rule children_bound[OF assms(1)])
  ultimately show ?thesis using False assms(1)
    by (simp add: dyn_close_def run_ok_def phase_ok_def job_ok_def Let_def terminal_status_def)
qed

lemma stop_record_ok [run_intros]:
  assumes "run_ok env r" "\<not> terminal_status (jr_status (dr_job r))" "st \<in> {JobFailed, JobCancelled}"
  shows "run_ok env (r\<lparr>dr_job := stop_record st why (dr_job r)\<rparr>)"
proof -
  have ph: "dr_phase r \<noteq> Ended" using assms(1,2) by (auto simp: run_ok_def job_ok_def Let_def)
  have "phase_ok env (r\<lparr>dr_job := stop_record st why (dr_job r)\<rparr>)"
    using assms(1) by (simp add: run_ok_def phase_ok_def stop_record_def cong: dyn_phase.case_cong)
  moreover have "job_ok env (r\<lparr>dr_job := stop_record st why (dr_job r)\<rparr>)"
    using assms ph
    by (auto simp: run_ok_def job_ok_def stop_record_def Let_def terminal_status_def split: option.splits)
  ultimately show ?thesis using assms(1) by (simp add: run_ok_def)
qed

lemma dyn_step_ok: "dyn_step env r r' \<Longrightarrow> run_ok env r \<Longrightarrow> run_ok env r'"
  by (induction rule: dyn_step.induct) (simp_all add: run_intros)

lemma dyn_reachable_ok: "dyn_reachable env r \<Longrightarrow> run_ok env r"
  by (induction rule: dyn_reachable.induct) (auto intro: run_ok_init dyn_step_ok)

end
