(* ===== verification/Dynamic_Props.thy ===== *)
theory Dynamic_Props
  imports Dynamic_Run_Steps
begin

section \<open>Properties of dynamic workflows\<close>

text \<open>
  The claims about dynamic workflows, with a run of two rounds as their instance: the validation
  meets its contract, templates cannot be overridden, a forwarded round is closed and aligned with
  its rows, and a run keeps its nodes, ends, and leaves a terminal record alone but for one field.
\<close>

subsection \<open>The number of steps\<close>

definition steps_left :: "dyn_env \<Rightarrow> dyn_run \<Rightarrow> nat" where
  "steps_left env r =
     (case dr_phase r of
        NotStarted \<Rightarrow> 2 * de_max_rounds env + 4
      | Started \<Rightarrow> 2 * de_max_rounds env + 3
      | AtRound \<Rightarrow> 2 * (de_max_rounds env - dy_round (dr_vars r)) + 2
      | AwaitingChild b \<Rightarrow> 2 * (de_max_rounds env - dy_round (dr_vars r)) + 1
      | Closing \<Rightarrow> 1
      | Ended \<Rightarrow> 0)
     + (if terminal_status (jr_status (dr_job r)) then 0 else 1)"

lemma leave_steps [simp]:
  "st \<in> {JobFailed, JobCancelled} \<Longrightarrow> steps_left env (leave st err r) = 0"
  by (auto simp: steps_left_def leave_def end_record_def terminal_status_def)

lemma follow_plan_round:
  "follow_plan env plan v = Inr (Some w) \<Longrightarrow> dy_round w = dy_round v + 1"
  by (auto simp: follow_plan_def Let_def split: plan.splits prod.splits)

lemma dyn_start_steps: "dr_phase r = NotStarted \<Longrightarrow> steps_left env (dyn_start r) < steps_left env r"
  by (auto simp: steps_left_def dyn_start_def terminal_status_def)

lemma dyn_open_steps: "dr_phase r = Started \<Longrightarrow> steps_left env (dyn_open env r) < steps_left env r"
  by (simp add: steps_left_def dyn_open_def dyn_init_def)

lemma phase_steps: "dr_phase r \<noteq> Ended \<Longrightarrow> 0 < steps_left env r"
  by (cases "dr_phase r") (auto simp: steps_left_def)

lemma dyn_first_steps:
  "dr_phase r = AtRound \<Longrightarrow> dy_round (dr_vars r) = 0 \<Longrightarrow> 0 < de_max_rounds env
     \<Longrightarrow> steps_left env (dyn_first env reply r) < steps_left env r"
  by (auto simp: dyn_first_def split: sum.splits option.splits)
    (auto simp: steps_left_def dest!: first_plan_follow follow_plan_round)

lemma dyn_submit_steps:
  "dr_phase r = AtRound \<Longrightarrow> steps_left env (dyn_submit env child compiles r) < steps_left env r"
  by (auto simp: dyn_submit_def Let_def split: sum.splits) (auto simp: steps_left_def)

lemma dyn_close_steps:
  "dr_phase r \<in> {AtRound, Closing} \<Longrightarrow> steps_left env (dyn_close r) < steps_left env r"
  by (auto simp: steps_left_def dyn_close_def Let_def terminal_status_def)

lemma dyn_child_end_steps:
  assumes "dr_phase r = AwaitingChild b" "dy_round (dr_vars r) < de_max_rounds env"
  shows "steps_left env (dyn_child_end env b ending reply r) < steps_left env r"
proof (cases ending)
  case (ChildCompleted outputs)
  show ?thesis
  proof (cases "absorb_round env b outputs reply (dr_vars r)")
    case (Inr pv)
    then obtain plan w where pw: "absorb_round env b outputs reply (dr_vars r) = Inr (plan, w)" by (cases pv) auto
    note W = absorb_round_vars(2)[OF pw]
    show ?thesis using assms ChildCompleted pw W
      by (auto simp: dyn_child_end_def round_done_def split: sum.splits option.splits)
        (auto simp: steps_left_def dest!: follow_plan_round)
  qed (use assms ChildCompleted in \<open>simp add: dyn_child_end_def, simp add: steps_left_def\<close>)
qed (use assms in \<open>simp_all add: dyn_child_end_def, simp_all add: steps_left_def\<close>)

lemma stop_record_steps:
  "\<not> terminal_status (jr_status (dr_job r)) \<Longrightarrow> st \<in> {JobFailed, JobCancelled}
     \<Longrightarrow> steps_left env (r\<lparr>dr_job := stop_record st why (dr_job r)\<rparr>) < steps_left env r"
  by (cases "dr_phase r") (auto simp: steps_left_def stop_record_def terminal_status_def)

lemma dyn_step_decreases:
  "dyn_step env r r' \<Longrightarrow> run_ok env r \<Longrightarrow> steps_left env r' < steps_left env r"
proof (induction rule: dyn_step.induct)
  case (child r b retries attempts ending)
  then show ?case by (intro dyn_child_end_steps) (auto simp: run_ok_def phase_ok_def Let_def)
next
  case (crashed r b)
  then show ?case using phase_steps[of r env] by auto
qed (simp_all add: dyn_start_steps dyn_open_steps dyn_first_steps dyn_submit_steps dyn_close_steps stop_record_steps)

lemma dyn_steps_bound:
  "(dyn_step env ^^ n) dyn_run_init r \<Longrightarrow> run_ok env r \<and> n + steps_left env r \<le> 2 * de_max_rounds env + 5"
proof (induction n arbitrary: r)
  case 0
  then have "r = dyn_run_init" by simp
  moreover have "steps_left env dyn_run_init \<le> 2 * de_max_rounds env + 5"
    by (simp add: steps_left_def dyn_run_init_def job_submitted_def terminal_status_def)
  ultimately show ?case by (simp add: run_ok_init)
next
  case (Suc n)
  then obtain q where q: "(dyn_step env ^^ n) dyn_run_init q" "dyn_step env q r" by auto
  then show ?case using Suc.IH[OF q(1)] dyn_step_decreases[OF q(2)] dyn_step_ok[OF q(2)] by auto
qed

text \<open>Only a state that has ended has no next step.\<close>

lemma dyn_step_progress: "dr_phase r \<noteq> Ended \<Longrightarrow> \<exists>r'. dyn_step env r r'"
proof (cases "dr_phase r")
  case AtRound
  obtain c :: string where c: "c \<notin> set (jr_children (dr_job r))"
    using ex_new_if_finite[OF infinite_UNIV_listI finite_set] by blast
  show ?thesis
  proof (cases "dy_round (dr_vars r) < de_max_rounds env")
    case True
    then show ?thesis using AtRound c dyn_step.first dyn_step.submit
      by (cases "de_api env \<and> dy_round (dr_vars r) = 0") (fastforce, blast)
  next
    case False
    then show ?thesis using AtRound dyn_step.exhausted by (meson not_less)
  qed
qed (auto intro: dyn_step.start dyn_step.opened dyn_step.child dyn_step.close)

lemma dyn_ended_stuck: "run_ok env r \<Longrightarrow> dr_phase r = Ended \<Longrightarrow> \<not> dyn_step env r r'"
  by (auto simp: run_ok_def job_ok_def Let_def elim!: dyn_stepE)

subsection \<open>What a step leaves alone\<close>

lemma leave_terminal: "terminal_status (jr_status (dr_job r)) \<Longrightarrow> dr_job (leave st err r) = dr_job r"
  by (simp add: leave_def end_record_def)

text \<open>The opening progress apart, which is written without looking at the status.\<close>

lemma dyn_open_job: "dr_job (dyn_open env r) = (dr_job r)\<lparr>jr_progress := Some (opening_progress env)\<rparr>"
  by (simp add: dyn_open_def)

lemma dyn_step_terminal:
  "dyn_step env r r' \<Longrightarrow> terminal_status (jr_status (dr_job r)) \<Longrightarrow>
     dr_job r' = dr_job r
     \<or> dr_phase r = Started \<and> dr_job r' = (dr_job r)\<lparr>jr_progress := Some (opening_progress env)\<rparr>"
  by (induction rule: dyn_step.induct)
    (auto simp: dyn_start_def dyn_open_job dyn_first_def dyn_submit_def dyn_child_end_def round_done_def
      dyn_close_def leave_terminal Let_def split: sum.splits option.splits child_end.splits)

definition extends :: "dyn_vars \<Rightarrow> dyn_vars \<Rightarrow> bool" where
  "extends v w = (\<exists>ops. dy_registry w = dy_registry v @ op_entries ops)"

lemma extends_refl: "extends v v"
  unfolding extends_def by (intro exI[of _ "[]"]) (simp add: op_entries_def)

lemma extends_same: "dy_registry w = dy_registry v \<Longrightarrow> extends v w"
  using extends_refl[of v] by (simp add: extends_def)

lemma follow_plan_extends:
  assumes "follow_plan env plan v = Inr (Some w)"
  shows "extends v w"
  using assms
  by (auto simp: follow_plan_def Let_def extends_def split: plan.splits prod.splits
      dest!: admit_subgraph_entries(3))

lemma leave_vars [simp]: "dr_vars (leave st err r) = dr_vars r"
  by (simp add: leave_def)

lemma dyn_child_end_extends: "extends (dr_vars r) (dr_vars (dyn_child_end env b ending reply r))"
proof (cases ending)
  case (ChildCompleted outputs)
  show ?thesis
  proof (cases "absorb_round env b outputs reply (dr_vars r)")
    case (Inr pv)
    then obtain plan w where pw: "absorb_round env b outputs reply (dr_vars r) = Inr (plan, w)" by (cases pv) auto
    note W = absorb_round_vars(1)[OF pw]
    have go: "extends (dr_vars r) u" if "follow_plan env plan w = Inr (Some u)" for u
      using follow_plan_extends[OF that] W by (simp add: extends_def)
    show ?thesis using ChildCompleted pw go W
      by (auto simp: dyn_child_end_def round_done_def with_plan_def extends_refl extends_same
          split: sum.splits option.splits)
  qed (simp add: ChildCompleted dyn_child_end_def extends_refl)
qed (simp_all add: dyn_child_end_def extends_refl)

lemma dyn_step_extends:
  assumes "dyn_step env r r'" "run_ok env r"
  shows "extends (dr_vars r) (dr_vars r')"
  using assms
proof (induction rule: dyn_step.induct)
  case (start r)
  then have "dr_vars r = dyn_init" by (simp add: run_ok_def phase_ok_def Let_def)
  then show ?case by (simp add: dyn_start_def extends_refl)
next
  case (opened r)
  then have "dr_vars r = dyn_init" by (simp add: run_ok_def phase_ok_def Let_def)
  then show ?case by (simp add: dyn_open_def extends_refl)
next
  case (first r retries attempts)
  show ?case
    by (auto simp: dyn_first_def with_plan_def extends_refl extends_same split: sum.splits option.splits
        dest!: first_plan_follow follow_plan_extends)
qed (auto simp: dyn_submit_def dyn_close_def Let_def extends_refl dyn_child_end_extends split: sum.splits)

text \<open>Over any number of steps. A run never comes back to \<open>Started\<close>.\<close>

lemma dyn_step_phase: "dyn_step env r r' \<Longrightarrow> dr_phase r \<noteq> NotStarted \<Longrightarrow> dr_phase r \<noteq> Started
    \<Longrightarrow> dr_phase r' \<noteq> NotStarted \<and> dr_phase r' \<noteq> Started"
  by (induction rule: dyn_step.induct)
    (auto simp: dyn_first_def dyn_submit_def dyn_child_end_def round_done_def dyn_close_def leave_def
      Let_def split: sum.splits option.splits child_end.splits)

lemma dyn_step_started:
  "dyn_step env r r' \<Longrightarrow> terminal_status (jr_status (dr_job r)) \<Longrightarrow> dr_phase r \<in> {NotStarted, Started}
    \<Longrightarrow> dr_phase r' \<noteq> NotStarted \<and> dr_phase r' \<noteq> Started"
  by (induction rule: dyn_step.induct) (auto simp: dyn_start_def dyn_open_def leave_def)

lemma dyn_steps_terminal_later:
  assumes "(dyn_step env)\<^sup>*\<^sup>* r r'" "terminal_status (jr_status (dr_job r))"
    "dr_phase r \<noteq> NotStarted" "dr_phase r \<noteq> Started"
  shows "dr_job r' = dr_job r \<and> dr_phase r' \<noteq> NotStarted \<and> dr_phase r' \<noteq> Started"
  using assms by (induction rule: rtranclp_induct) (auto dest: dyn_step_terminal dyn_step_phase)

lemma dyn_steps_terminal:
  assumes "(dyn_step env)\<^sup>*\<^sup>* r r'" "terminal_status (jr_status (dr_job r))"
  shows "dr_job r' = dr_job r
     \<or> dr_phase r = Started \<and> dr_job r' = (dr_job r)\<lparr>jr_progress := Some (opening_progress env)\<rparr>"
proof (cases "dr_phase r \<in> {NotStarted, Started}")
  case True
  show ?thesis using assms(1)
  proof (cases rule: converse_rtranclpE)
    case base
    then show ?thesis by simp
  next
    case (step q)
    note one = dyn_step_terminal[OF step(1) assms(2)] and ph = dyn_step_started[OF step(1) assms(2) True]
    have "terminal_status (jr_status (dr_job q))" using one assms(2) by auto
    then have "dr_job r' = dr_job q" using dyn_steps_terminal_later[OF step(2)] ph by simp
    then show ?thesis using one by simp
  qed
next
  case False
  then show ?thesis using dyn_steps_terminal_later[OF assms] by simp
qed

lemma extends_trans:
  assumes "extends u v" "extends v w"
  shows "extends u w"
proof -
  obtain xs ys where "dy_registry v = dy_registry u @ op_entries xs" "dy_registry w = dy_registry v @ op_entries ys"
    using assms by (auto simp: extends_def)
  then show ?thesis unfolding extends_def by (intro exI[of _ "xs @ ys"]) (simp add: op_entries_def)
qed

lemma dyn_steps_extend:
  "(dyn_step env)\<^sup>*\<^sup>* r r' \<Longrightarrow> run_ok env r \<Longrightarrow> extends (dr_vars r) (dr_vars r') \<and> run_ok env r'"
  by (induction rule: rtranclp_induct) (auto simp: extends_refl intro: extends_trans dyn_step_extends dyn_step_ok)

subsection \<open>A run\<close>

text \<open>An external planner emits one operation \<open>a\<close> and then stops; the round runs over one row.\<close>

definition demo_op :: jobj where
  "demo_op = [(''id'', JStr ''a''), (''op'', JStr ''LLMChatOp''), (''inputs'', JList [JStr ''Symbols''])]"

definition demo_loads :: "string \<Rightarrow> json option" where
  "demo_loads text =
     (if text = ''PLAN'' then Some (JDict (plan_to_dict (SubgraphPlan [demo_op] [])))
      else if text = ''STOP'' then Some (JDict (plan_to_dict StopPlan))
      else if text = ''ITEM'' then Some (JDict [(''output'', JStr ''x'')]) else None)"

definition demo_codec :: json_codec where
  "demo_codec = \<lparr>jc_loads = demo_loads, jc_dumps = (\<lambda>v. ''null'')\<rparr>"

definition demo_dyn_env :: dyn_env where
  "demo_dyn_env = \<lparr>de_codec = demo_codec, de_digest = (\<lambda>s. 7),
     de_parse = (\<lambda>w. Inr (map (\<lambda>op. (internal_id (\<lambda>s. 7) (rw_name w) (op_type op) (op_id op), JDict op))
       (rw_ops w))),
     de_declared = (\<lambda>i t op refs av. None), de_hash = (\<lambda>v. ''h''), de_observe = (\<lambda>l. Inr ''seen''),
     de_library = None, de_max_rounds = 2, de_max_nodes = 3, de_api = True, de_symbols = [''ACME''],
     de_location = [(''type'', JStr ''s3''), (''prefix'', JStr ''out'')], de_namespace = ''run''\<rparr>"

definition demo_job :: "string list \<Rightarrow> job_record" where
  "demo_job children = \<lparr>jr_status = JobRunning, jr_started = True, jr_finished = False, jr_error = None,
     jr_progress = Some \<lparr>ep_completed = False, ep_succeeded = 0, ep_pending = 2\<rparr>,
     jr_result = None, jr_children = children\<rparr>"

definition demo_vars :: dyn_vars where
  "demo_vars = \<lparr>dy_round = 1, dy_registry = [(''a'', demo_op)], dy_observations = [],
     dy_plans = [plan_to_dict (SubgraphPlan [demo_op] [])], dy_round_results = [], dy_results = [],
     dy_subgraph = [demo_op], dy_export = []\<rparr>"

definition demo_build :: round_build where
  "demo_build = \<lparr>rb_graph = [(''llm_round_1_a_7'', JDict demo_op)],
     rb_leaf_output_names = [''leaf_llm_round_1_a_7''], rb_leaf_user_ids = [''a''],
     rb_export_output_names = [], rb_export_user_ids = [], rb_forwarded_inputs = []\<rparr>"

definition demo_outputs :: jobj where
  "demo_outputs = [(''round_1'', JDict [(''leaf_llm_round_1_a_7'', JList [JStr ''ITEM''])])]"

definition demo_opening :: dyn_run where
  "demo_opening = \<lparr>dr_job = (demo_job [])\<lparr>jr_progress := None\<rparr>, dr_phase = Started, dr_vars = dyn_init\<rparr>"

definition demo_started :: dyn_run where
  "demo_started = \<lparr>dr_job = demo_job [], dr_phase = AtRound, dr_vars = dyn_init\<rparr>"

definition demo_planned :: dyn_run where
  "demo_planned = \<lparr>dr_job = demo_job [], dr_phase = AtRound, dr_vars = demo_vars\<rparr>"

definition demo_waiting :: dyn_run where
  "demo_waiting = \<lparr>dr_job = demo_job [''c1''], dr_phase = AwaitingChild demo_build, dr_vars = demo_vars\<rparr>"

definition demo_closing :: dyn_run where
  "demo_closing = \<lparr>dr_job = demo_job [''c1''], dr_phase = Closing,
     dr_vars = demo_vars\<lparr>dy_observations := [''seen''],
       dy_plans := [plan_to_dict (SubgraphPlan [demo_op] []), plan_to_dict StopPlan],
       dy_round_results := [[(''llm_round_1_a_7'', [JStr ''x''])]],
       dy_results := [(''a'', [JDict [(''output'', JStr ''x'')]])]\<rparr>\<rparr>"

definition demo_done :: dyn_run where
  "demo_done = dyn_close demo_closing"

lemma demo_transitions:
  "dyn_start dyn_run_init = demo_opening"
  "dyn_open demo_dyn_env demo_opening = demo_started"
  "dyn_first demo_dyn_env (call_api_planner None [Some (JStr ''PLAN'')]) demo_started = demo_planned"
  "dyn_submit demo_dyn_env ''c1'' True demo_planned = demo_waiting"
  "dyn_child_end demo_dyn_env demo_build (ChildCompleted demo_outputs)
     (call_api_planner (Some 1) [None, Some (JStr ''STOP'')]) demo_waiting = demo_closing"
  by code_simp+

lemma demo_done_facts:
  "dr_phase demo_done = Ended" "jr_status (dr_job demo_done) = JobCompleted"
  "dy_registry (dr_vars demo_done) = [(''a'', demo_op)]"
  "jr_children (dr_job demo_done) = [''c1'']"
  by (simp_all add: demo_done_def demo_closing_def dyn_close_def demo_job_def demo_vars_def Let_def
      terminal_status_def)

lemma demo_steps:
  "dyn_step demo_dyn_env dyn_run_init demo_opening" "dyn_step demo_dyn_env demo_opening demo_started" "dyn_step demo_dyn_env demo_started demo_planned"
  "dyn_step demo_dyn_env demo_planned demo_waiting" "dyn_step demo_dyn_env demo_waiting demo_closing"
  "dyn_step demo_dyn_env demo_closing demo_done"
proof -
  have env: "de_api demo_dyn_env" "de_max_rounds demo_dyn_env = 2" by (simp_all add: demo_dyn_env_def)
  show "dyn_step demo_dyn_env dyn_run_init demo_opening"
    unfolding demo_transitions(1)[symmetric] by (rule dyn_step.start) (simp add: dyn_run_init_def)
  show "dyn_step demo_dyn_env demo_opening demo_started"
    unfolding demo_transitions(2)[symmetric] by (rule dyn_step.opened) (simp add: demo_opening_def)
  show "dyn_step demo_dyn_env demo_started demo_planned"
    by (subst demo_transitions(3)[symmetric], rule dyn_step.first) (simp_all add: demo_started_def dyn_init_def env)
  show "dyn_step demo_dyn_env demo_planned demo_waiting"
    by (subst demo_transitions(4)[symmetric], rule dyn_step.submit)
      (simp_all add: demo_planned_def demo_vars_def demo_job_def env)
  show "dyn_step demo_dyn_env demo_waiting demo_closing"
    by (subst demo_transitions(5)[symmetric], rule dyn_step.child) (simp add: demo_waiting_def)
  show "dyn_step demo_dyn_env demo_closing demo_done"
    unfolding demo_done_def by (rule dyn_step.close) (simp add: demo_closing_def)
qed

lemma demo_reachable_done: "dyn_reachable demo_dyn_env demo_done"
  by (meson demo_steps dyn_reachable.intros)

lemma demo_run: "(dyn_step demo_dyn_env ^^ 6) dyn_run_init demo_done"
proof -
  have "(dyn_step demo_dyn_env ^^ Suc (Suc (Suc (Suc (Suc (Suc 0)))))) dyn_run_init demo_done"
    using demo_steps by (blast intro: relpowp_Suc_I relpowp_0_I)
  then show ?thesis by (simp add: numeral_eq_Suc)
qed

subsection \<open>Claims\<close>

text \<open>C3. The validation of an emitted subgraph returns exactly when the resolved subgraph is within the
  limit, has new, distinct, unreserved ids, supported types, every input grounded in the input node, an
  available earlier result or an operation emitted before, every exported id known and every leaf
  archivable, and each operation passes the check of its declared inputs.\<close>

theorem validate_emitted_subgraph_correct:
  "validate_emitted_subgraph declared subgraph registry max_nodes library export results = Inr ()
     \<longleftrightarrow> (\<exists>ops. resolve_subgraph subgraph library = Inr ops
            \<and> well_formed_round registry max_nodes export results ops
            \<and> declared_ok declared registry ops)"
proof (cases "resolve_subgraph subgraph library")
  case (Inr ops)
  then show ?thesis by (simp add: validate_resolved[OF Inr])
qed (auto simp: validate_emitted_subgraph_def)

text \<open>C11. The planner cannot override a template. A resolved operation is the emitted one when it names
  no template. Otherwise the emitted one sets nothing but its id and its inputs, and the result is the
  template with these, where it gives them; the rest of the template stays, its data specification
  included, except that inputs given to a template with bindings must be one per binding and become the
  nodes of the bound parameters: with different labels the parameters keep their number, their order and
  everything but these nodes, and of those that share a label the last one stands for all. And when no
  template names a template, resolving the result again, with any library, changes nothing.\<close>

theorem resolve_subgraph_restricted:
  assumes "resolve_subgraph ops library = Inr resolved" "\<forall>op\<in>set ops. distinct (map fst op)"
  shows "list_all2 (resolved_exactly library) ops resolved
    \<and> (flat_library library \<longrightarrow> resolve_subgraph resolved any = Inr resolved)"
  using resolve_subgraph_exactly[OF assms] resolve_again[OF assms(1)] by blast

text \<open>A retrieval template with two parameters, one of them bound, and an operation that names it.\<close>

definition demo_template :: jobj where
  "demo_template = [(''op'', JStr ''DataRetrievalOp''),
     (''data_spec'', JDict [(''mode'', JStr ''sql''),
        (''params'', JList [JDict [(''label'', JStr ''n''), (''value'', JInt 5)],
           JDict [(''label'', JStr ''s''), (''path'', JStr ''items.output'')]]),
        (''param_bindings'', JList [JDict [(''label'', JStr ''s''), (''input'', JInt 0)]])])]"

definition demo_library :: "(string, jobj) dict option" where
  "demo_library = Some [(''peers'', demo_template)]"

definition demo_emitted :: jobj where
  "demo_emitted = [(''id'', JStr ''p''), (''ref'', JStr ''peers''), (''inputs'', JList [JStr ''a''])]"

definition demo_resolved :: jobj where
  "demo_resolved = [(''op'', JStr ''DataRetrievalOp''),
     (''data_spec'', JDict [(''mode'', JStr ''sql''),
        (''params'', JList [JDict [(''label'', JStr ''n''), (''value'', JInt 5)],
           JDict [(''label'', JStr ''s''), (''path'', JStr ''items.output''), (''node'', JStr ''a'')]]),
        (''param_bindings'', JList [JDict [(''label'', JStr ''s''), (''input'', JInt 0)]])]),
     (''id'', JStr ''p''), (''inputs'', JList [JStr ''a''])]"

lemma demo_resolution: "resolve_subgraph [demo_emitted] demo_library = Inr [demo_resolved]"
  by code_simp

theorem resolve_subgraph_restricted_witness:
  "list_all2 (resolved_exactly demo_library) [demo_emitted] [demo_resolved]
    \<and> resolve_subgraph [demo_resolved] None = Inr [demo_resolved]"
proof -
  have "flat_library demo_library" "\<forall>op\<in>set [demo_emitted]. distinct (map fst op)" by code_simp+
  then show ?thesis using resolve_subgraph_restricted[OF demo_resolution, of None] by blast
qed

text \<open>Parameters that share a label, or have none, are merged: binding one of them loses the others.\<close>

lemma shared_labels_merged:
  "apply_param_bindings [(''data_spec'', JDict [(''params'', JList [JDict [(''value'', JInt 1)],
       JDict [(''label'', JStr ''s'')], JDict [(''value'', JInt 2)]]),
     (''param_bindings'', JList [JDict [(''label'', JStr ''s''), (''input'', JInt 0)]])])] [''a'']
   = Inr [(''params'', JList [JDict [(''value'', JInt 2)], JDict [(''label'', JStr ''s''), (''node'', JStr ''a'')]]),
     (''param_bindings'', JList [JDict [(''label'', JStr ''s''), (''input'', JInt 0)]])]"
  by code_simp

text \<open>A template that names a template breaks it: the first resolution succeeds and leaves a reference,
  the second, which building the round makes, is refused.\<close>

lemma nested_reference_refused:
  "\<exists>rs. resolve_subgraph [demo_emitted] (Some [(''peers'', (''ref'', JStr ''peers'') # demo_template)]) = Inr rs
    \<and> resolve_subgraph rs (Some [(''peers'', (''ref'', JStr ''peers'') # demo_template)]) = Inl DriverProtocolError"
  by (rule exI[of _ "[(''ref'', JStr ''peers'') # demo_resolved]"], rule conjI) code_simp+

text \<open>C12. A round that was validated and forwarded is closed: every operation keeps its configuration
  but the references it rewrites, every input of every operation is the input node, a bound input or an
  operation of the round, and with several rows every bound input has one value per row, so that the
  slicing of the round succeeds and its slice \<open>j\<close> holds exactly the values of row \<open>j\<close>.\<close>

theorem forward_round_closed:
  assumes "validate_emitted_subgraph declared emitted registry max_nodes library export
      (Some (fst ` set (fe_results E))) = Inr ()"
    and "resolve_subgraph emitted library = Inr subgraph" "forward_refs E subgraph = Inr (ops, ins)"
  shows "(\<exists>rewritten t. ops = rewritten @ map materializer (fs_materialized t) \<and> ins = fs_inputs t
        \<and> list_all2 (\<lambda>op op'. op_forwarded E op op' t) subgraph rewritten)
    \<and> (\<forall>op\<in>set ops. set (input_refs op) \<subseteq> {INPUT_NODE_ID} \<union> fst ` set ins \<union> op_id ` set ops)
    \<and> (1 < fe_rows E \<longrightarrow> (\<forall>(i, vs)\<in>set ins. length vs = fe_rows E))
    \<and> (1 < fe_rows E \<longrightarrow> length symbols = fe_rows E \<longrightarrow>
        chunk_inputs (child_inputs symbols ins) 1 =
          Inr (map (\<lambda>j. map (\<lambda>(i, vs). (i, [vs ! j])) (child_inputs symbols ins)) [0..<fe_rows E]))"
proof -
  have "refs_grounded registry (Some (fst ` set (fe_results E))) subgraph"
    using assms(1) validate_resolved[OF assms(2)] by (simp add: well_formed_round_def)
  then have closed: "\<forall>op\<in>set ops. set (input_refs op) \<subseteq> {INPUT_NODE_ID} \<union> fst ` set ins \<union> op_id ` set ops"
    using forward_closed_aux[OF assms(3)] by fast
  have rows: "\<forall>(i, vs)\<in>set ins. length vs = fe_rows E" if "1 < fe_rows E"
    using forward_rows_aux[OF assms(3) that] by blast
  have "chunk_inputs (child_inputs symbols ins) 1 =
      Inr (map (\<lambda>j. map (\<lambda>(i, vs). (i, [vs ! j])) (child_inputs symbols ins)) [0..<fe_rows E])"
    if "1 < fe_rows E" "length symbols = fe_rows E"
    using child_inputs_lengths[OF that(2) rows[OF that(1)]] that(1) by (intro chunk_rows) blast+
  moreover have "\<exists>rewritten t. ops = rewritten @ map materializer (fs_materialized t) \<and> ins = fs_inputs t
      \<and> list_all2 (\<lambda>op op'. op_forwarded E op op' t) subgraph rewritten"
    by (rule forward_refs_rel[OF assms(3)]) (intro exI conjI)
  ultimately show ?thesis using closed rows by (intro conjI impI) simp_all
qed

text \<open>Over two rows, an earlier operation whose result is a list per row is read through a materializer.\<close>

definition demo_forward :: forward_env where
  "demo_forward = \<lparr>fe_codec = demo_codec,
     fe_results = [(''a'', [JDict [(''output'', JList [JStr ''x'', JStr ''y''])],
                           JDict [(''output'', JList [JStr ''z'', JStr ''w''])]])],
     fe_configs = [(''a'', demo_op)], fe_rows = 2\<rparr>"

definition demo_reader :: "string \<Rightarrow> jobj" where
  "demo_reader ref = [(''id'', JStr ''b''), (''op'', JStr ''LLMChatOp''), (''inputs'', JList [JStr ref])]"

lemma demo_forwarding:
  "validate_emitted_subgraph (\<lambda>i t op refs av. None) [demo_reader ''a''] [(''a'', demo_op)] 3 None (Some [])
     (Some (fst ` set (fe_results demo_forward))) = Inr ()"
  "resolve_subgraph [demo_reader ''a''] None = Inr [demo_reader ''a'']"
  "forward_refs demo_forward [demo_reader ''a''] =
     Inr ([demo_reader ''a | items.output | rows'', materializer ''a | items.output''],
          [(''a | items.output'', [''null'', ''null''])])"
  by code_simp+

theorem forward_round_closed_witness:
  "chunk_inputs (child_inputs [''s'', ''t''] [(''a | items.output'', [''null'', ''null''])]) 1 =
     Inr (map (\<lambda>j. map (\<lambda>(i, vs). (i, [vs ! j]))
        (child_inputs [''s'', ''t''] [(''a | items.output'', [''null'', ''null''])])) [0..<2])"
  using forward_round_closed[OF demo_forwarding, of "[''s'', ''t'']"] by (simp add: demo_forward_def)

text \<open>C24. In every reachable state of a dynamic run the registry is a dependency order of distinct,
  unreserved, supported operations without a cycle and within the limit of nodes per round; results
  exist for registered operations only; no more children than rounds were created; the record is
  terminal exactly when it is finished and holds a result exactly when it completed; and the inputs
  bound for a dispatched round of several rows have one value per row.\<close>

theorem dynamic_run_wellformed:
  assumes "dyn_reachable env r"
  shows "registry_ok (dy_registry (dr_vars r)) \<and> acyclic (registry_edges (dy_registry (dr_vars r)))
    \<and> length (dy_registry (dr_vars r)) \<le> de_max_rounds env * de_max_nodes env
    \<and> fst ` set (dy_results (dr_vars r)) \<subseteq> fst ` set (dy_registry (dr_vars r))
    \<and> distinct (jr_children (dr_job r)) \<and> length (jr_children (dr_job r)) \<le> de_max_rounds env
    \<and> (terminal_status (jr_status (dr_job r)) \<longleftrightarrow> jr_finished (dr_job r))
    \<and> (jr_status (dr_job r) = JobCompleted \<longleftrightarrow> jr_result (dr_job r) \<noteq> None)
    \<and> (case dr_phase r of AwaitingChild b \<Rightarrow> 1 < length (de_symbols env) \<longrightarrow>
          (\<forall>(i, vs)\<in>set (rb_forwarded_inputs b). length vs = length (de_symbols env)) | _ \<Rightarrow> True)"
proof -
  have ok: "vars_ok env (dr_vars r)" "phase_ok env r" "job_ok env r" and run: "run_ok env r"
    using dyn_reachable_ok[OF assms] by (simp_all add: run_ok_def)
  have reg: "registry_ok (dy_registry (dr_vars r))" using ok(1) by (simp add: vars_ok_def)
  have size: "length (dy_registry (dr_vars r)) \<le> de_max_rounds env * de_max_nodes env"
    using ok(1) mult_le_mono1 order_trans unfolding vars_ok_def by blast
  have job: "jr_status (dr_job r) = JobCompleted \<longleftrightarrow> jr_result (dr_job r) \<noteq> None"
    using ok(3) by (auto simp: job_ok_def Let_def split: option.splits)
  have rows: "length vs = length (de_symbols env)"
    if "dr_phase r = AwaitingChild b" "1 < length (de_symbols env)" "(i, vs) \<in> set (rb_forwarded_inputs b)"
    for b i vs
  proof -
    have "build_current env (dr_vars r) = Inr b" using ok(2) that(1) by (simp add: phase_ok_def Let_def)
    then obtain sub ops where "forward_refs \<lparr>fe_codec = de_codec env, fe_results = dy_results (dr_vars r),
        fe_configs = dy_registry (dr_vars r), fe_rows = length (de_symbols env)\<rparr> sub
          = Inr (ops, rb_forwarded_inputs b)"
      by (auto simp: build_current_def build_round_def Let_def split: prod.splits)
    from forward_rows_aux[OF this _ that(3)] that(2) show ?thesis by simp
  qed
  show ?thesis
    using reg registry_acyclic[OF reg] size children_bound[OF run] job ok(1,3) rows
    by (auto simp: vars_ok_def job_ok_def Let_def split: dyn_phase.splits)
qed

theorem dynamic_run_wellformed_witness:
  "jr_status (dr_job demo_done) = JobCompleted \<and> jr_result (dr_job demo_done) \<noteq> None
    \<and> acyclic (registry_edges [(''a'', demo_op)])"
  using dynamic_run_wellformed[OF demo_reachable_done] by (simp add: demo_done_facts)

text \<open>C4. A terminal record stays as it is: however a dynamic run goes on after its record became
  terminal, the record keeps its status, times, error, result and children, and its progress too, unless
  the run had only just been started, when the opening progress of round 0 is still written. And nodes are
  immutable: the registry is only ever appended to.\<close>

theorem dynamic_run_final:
  assumes "dyn_reachable env r" "(dyn_step env)\<^sup>*\<^sup>* r r'"
  shows "(terminal_status (jr_status (dr_job r)) \<longrightarrow>
        dr_job r' = dr_job r
        \<or> dr_phase r = Started \<and> dr_job r' = (dr_job r)\<lparr>jr_progress := Some (opening_progress env)\<rparr>)
    \<and> (\<exists>ops. dy_registry (dr_vars r') = dy_registry (dr_vars r) @ op_entries ops)"
  using dyn_steps_terminal[OF assms(2)] dyn_steps_extend[OF assms(2) dyn_reachable_ok[OF assms(1)]]
  by (simp add: extends_def)

text \<open>The demo run, cancelled while its child runs: the child's outputs change nothing of the record.\<close>

definition demo_cancelled :: dyn_run where
  "demo_cancelled = demo_waiting\<lparr>dr_job := stop_record JobCancelled ''cancelled by user'' (dr_job demo_waiting)\<rparr>"

lemma demo_reachable_cancelled: "dyn_reachable demo_dyn_env demo_cancelled"
proof -
  have "dyn_reachable demo_dyn_env demo_waiting" by (meson demo_steps dyn_reachable.intros)
  moreover have "dyn_step demo_dyn_env demo_waiting demo_cancelled"
    unfolding demo_cancelled_def
    by (rule dyn_step.cancelled) (simp add: demo_waiting_def demo_job_def terminal_status_def)
  ultimately show ?thesis by (rule dyn_reachable.step)
qed

theorem dynamic_run_final_witness:
  "jr_status (dr_job (dyn_child_end demo_dyn_env demo_build (ChildCompleted demo_outputs)
     (call_api_planner None [Some (JStr ''STOP'')]) demo_cancelled)) = JobCancelled"
proof -
  have "dyn_step demo_dyn_env demo_cancelled (dyn_child_end demo_dyn_env demo_build (ChildCompleted demo_outputs)
     (call_api_planner None [Some (JStr ''STOP'')]) demo_cancelled)"
    by (rule dyn_step.child) (simp add: demo_cancelled_def demo_waiting_def)
  note F = dynamic_run_final[OF demo_reachable_cancelled r_into_rtranclp, OF this, THEN conjunct1]
  have st: "jr_status (dr_job demo_cancelled) = JobCancelled" "dr_phase demo_cancelled \<noteq> Started"
    by (simp_all add: demo_cancelled_def stop_record_def demo_waiting_def)
  have "terminal_status (jr_status (dr_job demo_cancelled))" by (simp add: st(1) terminal_status_def)
  from F[rule_format, OF this] st show ?thesis by auto
qed

text \<open>The exception is real: a job cancelled while the first save runs shows the progress of a run that has
  all its rounds before it.\<close>

lemma opening_progress_after_cancel:
  "\<exists>r r'. dyn_reachable demo_dyn_env r \<and> dyn_step demo_dyn_env r r' \<and> jr_status (dr_job r) = JobCancelled
     \<and> jr_progress (dr_job r) = None \<and> jr_status (dr_job r') = JobCancelled
     \<and> jr_progress (dr_job r') = Some \<lparr>ep_completed = False, ep_succeeded = 0, ep_pending = 2\<rparr>"
proof -
  let ?r = "demo_opening\<lparr>dr_job := stop_record JobCancelled ''cancelled by user'' (dr_job demo_opening)\<rparr>"
  have "dyn_reachable demo_dyn_env demo_opening" by (meson demo_steps dyn_reachable.intros)
  moreover have "dyn_step demo_dyn_env demo_opening ?r"
    by (rule dyn_step.cancelled) (simp add: demo_opening_def demo_job_def terminal_status_def)
  ultimately have "dyn_reachable demo_dyn_env ?r" by (rule dyn_reachable.step)
  moreover have "dyn_step demo_dyn_env ?r (dyn_open demo_dyn_env ?r)"
    by (rule dyn_step.opened) (simp add: demo_opening_def)
  ultimately show ?thesis
    by (intro exI[of _ ?r] exI[of _ "dyn_open demo_dyn_env ?r"])
      (simp add: dyn_open_def opening_progress_def stop_record_def demo_opening_def demo_job_def demo_dyn_env_def)
qed

text \<open>C2. A dynamic run ends: whatever the planner, the children and the other tasks do, no run has more
  than \<open>2 * max_rounds + 5\<close> steps; a state has no further step exactly when the run has ended; and a run
  that has ended left its record terminal.\<close>

theorem dynamic_run_ends:
  assumes "(dyn_step env ^^ n) dyn_run_init r"
  shows "n \<le> 2 * de_max_rounds env + 5
    \<and> (dr_phase r = Ended \<longleftrightarrow> (\<nexists>r'. dyn_step env r r'))
    \<and> (dr_phase r = Ended \<longrightarrow> terminal_status (jr_status (dr_job r)))"
proof -
  note B = dyn_steps_bound[OF assms]
  have "dr_phase r = Ended \<longleftrightarrow> (\<nexists>r'. dyn_step env r r')"
    using dyn_step_progress dyn_ended_stuck B by blast
  then show ?thesis using B by (auto simp: run_ok_def job_ok_def Let_def)
qed

theorem dynamic_run_ends_witness:
  "(dyn_step demo_dyn_env ^^ 6) dyn_run_init demo_done \<and> (\<nexists>r'. dyn_step demo_dyn_env demo_done r')"
  using dynamic_run_ends[OF demo_run] demo_run by (simp add: demo_done_facts)

end
