(* ===== verification/Job_Storage.thy ===== *)
theory Job_Storage
  imports Job_Status
begin

section \<open>Job storage\<close>

text \<open>
  The archive of job records, \<open>utils/job_storage.py\<close>, with its three backends: dictionaries in memory
  (\<open>InMemoryJobStorage\<close>), one blob per part of a job and two index blobs (\<open>PersistentJobStorage\<close>),
  and the same blobs with the indexes in SQLite tables (\<open>SqliteJobStorage\<close>).

  \<^item> The blob service and SQLite are outside the source: a blob store is a dictionary from keys to
    contents, a table a dictionary from its primary key to its rows, and a query the filtered and
    sorted rows. \<open>json.loads\<close> after \<open>json.dumps\<close> gives the value back, so a blob holds the value itself.
  \<^item> A save is a sequence of writes of which a failing service performs a prefix (\<open>blob_save_upto\<close>).
  \<^item> Times are integers (an instant); locks and log lines have no counterpart. The import of legacy
    index blobs into an empty table is \<open>backfill\<close>.
\<close>

subsection \<open>Records and summaries\<close>

text \<open>The serialised \<open>JobRecord\<close>: the fields the archive looks at, the others as one value, and the
  three parts that are stored on their own.\<close>

record stored_job =
  sj_id :: string
  sj_org :: string
  sj_user :: string
  sj_status :: job_status
  sj_submitted :: int
  sj_started :: "int option"
  sj_finished :: "int option"
  sj_seconds :: "real option \<times> real option \<times> real option"
  sj_error :: "string option"
  sj_parent :: "string option"
  sj_rest :: json
  sj_inputs :: "(string, json) dict"
  sj_progress :: "(string, json) dict"
  sj_result :: "json option"

record job_summary =
  su_id :: string
  su_org :: string
  su_user :: string
  su_status :: job_status
  su_submitted :: int
  su_started :: "int option"
  su_finished :: "int option"
  su_seconds :: "real option \<times> real option \<times> real option"
  su_error :: "string option"
  su_parent :: "string option"

text \<open>\<open>_summary_from_payload\<close>.\<close>

definition summary_of :: "stored_job \<Rightarrow> job_summary" where
  "summary_of r = \<lparr>su_id = sj_id r, su_org = sj_org r, su_user = sj_user r, su_status = sj_status r,
     su_submitted = sj_submitted r, su_started = sj_started r, su_finished = sj_finished r,
     su_seconds = sj_seconds r, su_error = sj_error r, su_parent = sj_parent r\<rparr>"

text \<open>\<open>record_data\<close>: the record without the parts stored on their own; and a record put together.\<close>

definition core_of :: "stored_job \<Rightarrow> stored_job" where
  "core_of r = r\<lparr>sj_inputs := [], sj_progress := [], sj_result := None\<rparr>"

definition assemble ::
  "stored_job \<Rightarrow> (string, json) dict \<Rightarrow> (string, json) dict \<Rightarrow> json option \<Rightarrow> stored_job" where
  "assemble core ins progress result =
     core\<lparr>sj_inputs := ins, sj_progress := progress, sj_result := result\<rparr>"

text \<open>\<open>_sort_summaries\<close>: the newest first; a reverse sort keeps the order of equal keys.\<close>

definition sort_summaries :: "job_summary list \<Rightarrow> job_summary list" where
  "sort_summaries xs = rev (sort_key (\<lambda>s. (su_submitted s, su_id s)) (rev xs))"

text \<open>The arguments of a listing, and \<open>_filter_summaries\<close>.\<close>

record listing =
  li_org :: string
  li_user :: "string option"
  li_jobs :: "string list option"
  li_statuses :: "job_status list option"

definition summary_visible :: "listing \<Rightarrow> job_summary \<Rightarrow> bool" where
  "summary_visible q s =
     (su_org s = li_org q
      \<and> (case li_user q of None \<Rightarrow> True | Some u \<Rightarrow> su_user s = u)
      \<and> (case li_jobs q of None \<Rightarrow> True | Some js \<Rightarrow> su_id s \<in> set js)
      \<and> (case li_statuses q of None \<Rightarrow> True | Some [] \<Rightarrow> True | Some sts \<Rightarrow> su_status s \<in> set sts)
      \<and> su_parent s = None)"

definition filter_summaries :: "listing \<Rightarrow> job_summary list \<Rightarrow> job_summary list" where
  "filter_summaries q = filter (summary_visible q)"

text \<open>\<open>xs[start:end]\<close>: a negative index counts from the end.\<close>

definition slice_bound :: "int \<Rightarrow> nat \<Rightarrow> nat" where
  "slice_bound i n = (if i < 0 then nat (int n + i) else min (nat i) n)"

definition py_slice :: "int \<Rightarrow> int \<Rightarrow> 'a list \<Rightarrow> 'a list" where
  "py_slice i j xs =
     (let n = length xs; a = slice_bound i n; b = slice_bound j n in take (b - a) (drop a xs))"

definition page_of :: "int \<Rightarrow> int \<Rightarrow> job_summary list \<Rightarrow> job_summary list \<times> nat" where
  "page_of page per xs = (py_slice ((page - 1) * per) ((page - 1) * per + per) xs, length xs)"

text \<open>The statuses \<open>iter_summaries\<close> selects.\<close>

definition select_statuses :: "job_status list option \<Rightarrow> job_summary list \<Rightarrow> job_summary list" where
  "select_statuses statuses =
     filter (\<lambda>s. case statuses of None \<Rightarrow> True | Some sts \<Rightarrow> su_status s \<in> set sts)"

subsection \<open>In memory\<close>

record mem_store =
  ms_records :: "(string, stored_job) dict"
  ms_inputs :: "(string, (string, json) dict) dict"
  ms_progress :: "(string, (string, json) dict) dict"
  ms_result :: "(string, json) dict"
  ms_outputs :: "(string, string) dict"
  ms_artifacts :: "(string, (string, string) dict) dict"
  ms_summaries :: "(string, job_summary) dict"

definition mem_init :: mem_store where
  "mem_init = \<lparr>ms_records = [], ms_inputs = [], ms_progress = [], ms_result = [], ms_outputs = [],
     ms_artifacts = [], ms_summaries = []\<rparr>"

definition mem_save :: "mem_store \<Rightarrow> stored_job \<Rightarrow> mem_store" where
  "mem_save s r =
     s\<lparr>ms_records := AList.update (sj_id r) (core_of r) (ms_records s),
       ms_inputs := AList.update (sj_id r) (sj_inputs r) (ms_inputs s),
       ms_progress := AList.update (sj_id r) (sj_progress r) (ms_progress s),
       ms_result := (case sj_result r of None \<Rightarrow> ms_result s | Some v \<Rightarrow> AList.update (sj_id r) v (ms_result s)),
       ms_summaries := AList.update (sj_id r) (summary_of r) (ms_summaries s)\<rparr>"

definition mem_load :: "mem_store \<Rightarrow> string \<Rightarrow> stored_job option" where
  "mem_load s job =
     (case map_of (ms_records s) job of
        None \<Rightarrow> None
      | Some core \<Rightarrow> Some (assemble core (dict_get (ms_inputs s) job []) (dict_get (ms_progress s) job [])
          (map_of (ms_result s) job)))"

definition mem_list :: "mem_store \<Rightarrow> listing \<Rightarrow> int \<Rightarrow> int \<Rightarrow> job_summary list \<times> nat" where
  "mem_list s q page per =
     page_of page per (sort_summaries (filter_summaries q (map snd (ms_summaries s))))"

definition mem_iter :: "mem_store \<Rightarrow> job_status list option \<Rightarrow> job_summary list" where
  "mem_iter s statuses = select_statuses statuses (map snd (ms_summaries s))"

text \<open>An output location belongs to one job until that job completed; an empty owner counts as none.\<close>

definition mem_reserve :: "mem_store \<Rightarrow> string \<Rightarrow> string \<Rightarrow> mem_store option" where
  "mem_reserve s loc job =
     (let owner = dict_get (ms_outputs s) loc [] in
      if owner \<noteq> [] \<and> owner \<noteq> job \<and>
         (case map_of (ms_records s) owner of None \<Rightarrow> True | Some r \<Rightarrow> sj_status r \<noteq> JobCompleted)
      then None else Some (s\<lparr>ms_outputs := AList.update loc job (ms_outputs s)\<rparr>))"

definition mem_release :: "mem_store \<Rightarrow> string \<Rightarrow> string \<Rightarrow> mem_store" where
  "mem_release s loc job =
     (if map_of (ms_outputs s) loc = Some job then s\<lparr>ms_outputs := AList.delete loc (ms_outputs s)\<rparr> else s)"

definition mem_save_artifact :: "mem_store \<Rightarrow> string \<Rightarrow> string \<Rightarrow> string \<Rightarrow> mem_store" where
  "mem_save_artifact s job filename data =
     s\<lparr>ms_artifacts := AList.update job
       (AList.update filename data (dict_get (ms_artifacts s) job [])) (ms_artifacts s)\<rparr>"

definition mem_get_artifact :: "mem_store \<Rightarrow> string \<Rightarrow> string \<Rightarrow> string option" where
  "mem_get_artifact s job filename = map_of (dict_get (ms_artifacts s) job []) filename"

subsection \<open>Blobs\<close>

text \<open>The contents of a blob. An entry of the jobs index that does not parse is \<open>None\<close>.\<close>

datatype blob =
    RecordBlob stored_job
  | JsonBlob json
  | IndexBlob "(string \<times> job_summary option) list"
  | OutputsBlob "(string \<times> string) list"
  | DataBlob string

record blob_store =
  bl_prefix :: string
  bl_blobs :: "(string, blob) dict"

definition under_prefix :: "blob_store \<Rightarrow> string \<Rightarrow> string" where
  "under_prefix s name = (if bl_prefix s = [] then name else bl_prefix s @ ''/'' @ name)"

definition job_object_name :: "blob_store \<Rightarrow> string \<Rightarrow> string \<Rightarrow> string" where
  "job_object_name s job filename = under_prefix s (job @ ''/'' @ filename)"

definition object_name :: "blob_store \<Rightarrow> string \<Rightarrow> string" where
  "object_name s job = job_object_name s job ''record.json''"

definition artifact_name :: "blob_store \<Rightarrow> string \<Rightarrow> string \<Rightarrow> string" where
  "artifact_name s job filename = job_object_name s job (''artifacts/'' @ filename)"

definition output_index_name :: "blob_store \<Rightarrow> string" where
  "output_index_name s = under_prefix s ''output_index.json''"

definition jobs_index_name :: "blob_store \<Rightarrow> string" where
  "jobs_index_name s = under_prefix s ''jobs_index.json''"

definition put_blob :: "string \<times> blob \<Rightarrow> blob_store \<Rightarrow> blob_store" where
  "put_blob kb s = s\<lparr>bl_blobs := AList.update (fst kb) (snd kb) (bl_blobs s)\<rparr>"

text \<open>The index blob, empty when there is none.\<close>

definition jobs_index :: "blob_store \<Rightarrow> (string, job_summary option) dict" where
  "jobs_index s = (case map_of (bl_blobs s) (jobs_index_name s) of Some (IndexBlob ix) \<Rightarrow> ix | _ \<Rightarrow> [])"

definition outputs_index :: "blob_store \<Rightarrow> (string, string) dict" where
  "outputs_index s = (case map_of (bl_blobs s) (output_index_name s) of Some (OutputsBlob ix) \<Rightarrow> ix | _ \<Rightarrow> [])"

definition json_at :: "blob_store \<Rightarrow> string \<Rightarrow> json option" where
  "json_at s name = (case map_of (bl_blobs s) name of Some (JsonBlob v) \<Rightarrow> Some v | _ \<Rightarrow> None)"

definition dict_at :: "blob_store \<Rightarrow> string \<Rightarrow> (string, json) dict" where
  "dict_at s name = (case map_of (bl_blobs s) name of Some (JsonBlob (JDict d)) \<Rightarrow> d | _ \<Rightarrow> [])"

text \<open>\<open>_save_record_blobs\<close>: the writes for the parts of a job, in their order, and the write of the index
  that \<open>_save_locked\<close> adds after reading it.\<close>

definition record_writes :: "blob_store \<Rightarrow> stored_job \<Rightarrow> (string \<times> blob) list" where
  "record_writes s r =
     [(object_name s (sj_id r), RecordBlob (core_of r)),
      (job_object_name s (sj_id r) ''inputs.json'', JsonBlob (JDict (sj_inputs r))),
      (job_object_name s (sj_id r) ''progress.json'', JsonBlob (JDict (sj_progress r)))]
     @ (case sj_result r of None \<Rightarrow> [] | Some v \<Rightarrow> [(job_object_name s (sj_id r) ''result.json'', JsonBlob v)])"

definition index_write :: "blob_store \<Rightarrow> stored_job \<Rightarrow> string \<times> blob" where
  "index_write s r =
     (jobs_index_name s, IndexBlob (AList.update (sj_id r) (Some (summary_of r)) (jobs_index s)))"

definition blob_writes :: "blob_store \<Rightarrow> stored_job \<Rightarrow> (string \<times> blob) list" where
  "blob_writes s r = record_writes s r @ [index_write s r]"

definition blob_save :: "blob_store \<Rightarrow> stored_job \<Rightarrow> blob_store" where
  "blob_save s r = fold put_blob (blob_writes s r) s"

definition blob_save_upto :: "nat \<Rightarrow> blob_store \<Rightarrow> stored_job \<Rightarrow> blob_store" where
  "blob_save_upto n s r = fold put_blob (take n (blob_writes s r)) s"

definition blob_load :: "blob_store \<Rightarrow> string \<Rightarrow> stored_job option" where
  "blob_load s job =
     (case map_of (bl_blobs s) (object_name s job) of
        Some (RecordBlob core) \<Rightarrow> Some (assemble core (dict_at s (job_object_name s job ''inputs.json''))
          (dict_at s (job_object_name s job ''progress.json'')) (json_at s (job_object_name s job ''result.json'')))
      | _ \<Rightarrow> None)"

text \<open>The entries of the index that parse.\<close>

definition index_rows :: "(string, job_summary option) dict \<Rightarrow> job_summary list" where
  "index_rows ix = List.map_filter snd ix"

definition blob_list :: "blob_store \<Rightarrow> listing \<Rightarrow> int \<Rightarrow> int \<Rightarrow> job_summary list \<times> nat" where
  "blob_list s q page per =
     page_of page per (sort_summaries (filter_summaries q (index_rows (jobs_index s))))"

definition blob_iter :: "blob_store \<Rightarrow> job_status list option \<Rightarrow> job_summary list" where
  "blob_iter s statuses = select_statuses statuses (index_rows (jobs_index s))"

definition blob_reserve :: "blob_store \<Rightarrow> string \<Rightarrow> string \<Rightarrow> blob_store option" where
  "blob_reserve s loc job =
     (let owner = dict_get (outputs_index s) loc [] in
      if owner \<noteq> [] \<and> owner \<noteq> job \<and>
         (case blob_load s owner of None \<Rightarrow> True | Some r \<Rightarrow> sj_status r \<noteq> JobCompleted)
      then None
      else Some (put_blob (output_index_name s, OutputsBlob (AList.update loc job (outputs_index s))) s))"

definition blob_release :: "blob_store \<Rightarrow> string \<Rightarrow> string \<Rightarrow> blob_store" where
  "blob_release s loc job =
     (if map_of (outputs_index s) loc = Some job
      then put_blob (output_index_name s, OutputsBlob (AList.delete loc (outputs_index s))) s else s)"

definition blob_save_artifact :: "blob_store \<Rightarrow> string \<Rightarrow> string \<Rightarrow> string \<Rightarrow> blob_store" where
  "blob_save_artifact s job filename data =
     put_blob (artifact_name s job filename, DataBlob data) s"

definition blob_get_artifact :: "blob_store \<Rightarrow> string \<Rightarrow> string \<Rightarrow> string option" where
  "blob_get_artifact s job filename =
     (case map_of (bl_blobs s) (artifact_name s job filename) of
        Some (DataBlob v) \<Rightarrow> Some v | _ \<Rightarrow> None)"

subsection \<open>SQLite\<close>

record sql_store =
  sq_blobs :: blob_store
  sq_rows :: "(string, job_summary) dict"
  sq_outputs :: "(string, string) dict"
  sq_last_prune :: "int option"

text \<open>\<open>_maybe_prune\<close>: at most once an hour, the terminal rows submitted before the cutoff; \<open>days\<close> is the
  configured retention, \<open>now\<close> the monotonic clock, \<open>cutoff\<close> the wall clock less the retention.\<close>

record prune_clock =
  pc_days :: int
  pc_now :: int
  pc_cutoff :: int

definition prune_rows :: "int \<Rightarrow> (string, job_summary) dict \<Rightarrow> (string, job_summary) dict" where
  "prune_rows cutoff = filter (\<lambda>(i, s). \<not> (su_submitted s < cutoff \<and> terminal_status (su_status s)))"

definition maybe_prune :: "prune_clock \<Rightarrow> sql_store \<Rightarrow> sql_store" where
  "maybe_prune c s =
     (if pc_days c \<le> 0 then s
      else if (case sq_last_prune s of None \<Rightarrow> False | Some t \<Rightarrow> pc_now c - t < 3600) then s
      else s\<lparr>sq_last_prune := Some (pc_now c), sq_rows := prune_rows (pc_cutoff c) (sq_rows s)\<rparr>)"

definition sql_save :: "prune_clock \<Rightarrow> sql_store \<Rightarrow> stored_job \<Rightarrow> sql_store" where
  "sql_save c s r =
     maybe_prune c (s\<lparr>sq_blobs := fold put_blob (record_writes (sq_blobs s) r) (sq_blobs s),
       sq_rows := AList.update (sj_id r) (summary_of r) (sq_rows s)\<rparr>)"

definition sql_load :: "sql_store \<Rightarrow> string \<Rightarrow> stored_job option" where
  "sql_load s job = blob_load (sq_blobs s) job"

text \<open>The WHERE clause of a listing.\<close>

definition sql_where :: "listing \<Rightarrow> job_summary \<Rightarrow> bool" where
  "sql_where q s =
     (if li_jobs q = Some [] then False
      else su_org s = li_org q
        \<and> (case li_user q of None \<Rightarrow> True | Some u \<Rightarrow> su_user s = u)
        \<and> (case li_jobs q of None \<Rightarrow> True | Some js \<Rightarrow> su_id s \<in> set js)
        \<and> (case li_statuses q of None \<Rightarrow> True | Some [] \<Rightarrow> True | Some sts \<Rightarrow> su_status s \<in> set sts)
        \<and> su_parent s = None)"

text \<open>\<open>ORDER BY submitted_at_ts DESC, job_id DESC LIMIT page_size OFFSET max(page - 1, 0) * page_size\<close>.\<close>

definition sql_order :: "job_summary list \<Rightarrow> job_summary list" where
  "sql_order xs = rev (sort_key (\<lambda>s. (su_submitted s, su_id s)) xs)"

definition sql_list :: "sql_store \<Rightarrow> listing \<Rightarrow> int \<Rightarrow> int \<Rightarrow> job_summary list \<times> nat" where
  "sql_list s q page per =
     (let rows = filter (sql_where q) (map snd (sq_rows s)) in
      (take (nat per) (drop (nat (max (page - 1) 0 * per)) (sql_order rows)), length rows))"

definition sql_iter :: "sql_store \<Rightarrow> job_status list option \<Rightarrow> job_summary list" where
  "sql_iter s statuses =
     filter (\<lambda>r. case statuses of None \<Rightarrow> True | Some [] \<Rightarrow> True | Some sts \<Rightarrow> su_status r \<in> set sts)
       (map snd (sq_rows s))"

text \<open>The reservation reads the owner and writes under two takings of the lock: \<open>sql_may_reserve\<close> is the
  check in the first, \<open>sql_take\<close> the write in the second.\<close>

definition sql_may_reserve :: "sql_store \<Rightarrow> string \<Rightarrow> string \<Rightarrow> bool" where
  "sql_may_reserve s loc job =
     (let owner = dict_get (sq_outputs s) loc [] in
      owner = [] \<or> owner = job \<or>
      (case sql_load s owner of None \<Rightarrow> False | Some r \<Rightarrow> sj_status r = JobCompleted))"

definition sql_take :: "sql_store \<Rightarrow> string \<Rightarrow> string \<Rightarrow> sql_store" where
  "sql_take s loc job = s\<lparr>sq_outputs := AList.update loc job (sq_outputs s)\<rparr>"

definition sql_reserve :: "sql_store \<Rightarrow> string \<Rightarrow> string \<Rightarrow> sql_store option" where
  "sql_reserve s loc job = (if sql_may_reserve s loc job then Some (sql_take s loc job) else None)"

definition sql_release :: "sql_store \<Rightarrow> string \<Rightarrow> string \<Rightarrow> sql_store" where
  "sql_release s loc job =
     s\<lparr>sq_outputs := filter (\<lambda>(l, j). \<not> (l = loc \<and> j = job)) (sq_outputs s)\<rparr>"

text \<open>\<open>_backfill_if_empty\<close>: an empty table takes over the entries of the blob indexes.\<close>

definition backfill :: "sql_store \<Rightarrow> sql_store" where
  "backfill s =
     (if sq_rows s \<noteq> [] then s
      else s\<lparr>sq_rows := fold (\<lambda>r rows. AList.update (su_id r) r rows) (index_rows (jobs_index (sq_blobs s))) (sq_rows s),
        sq_outputs := fold (\<lambda>(l, j) outs. AList.update l j outs) (outputs_index (sq_blobs s)) (sq_outputs s)\<rparr>)"

definition sql_open :: "blob_store \<Rightarrow> sql_store" where
  "sql_open b = backfill \<lparr>sq_blobs = b, sq_rows = [], sq_outputs = [], sq_last_prune = None\<rparr>"

end
