(* ===== verification/Job_Storage_Laws.thy ===== *)
theory Job_Storage_Laws
  imports Job_Storage
begin

section \<open>The contract of the job storage\<close>

text \<open>
  What the routes rely on, as two interfaces, each proved of all three backends: \<open>job_store\<close> (a saved
  record is loaded back, other records stay, the listing has the summary of the latest save of each
  job in the order of their first saves) and, extending it, \<open>job_archive\<close> (an output location has one
  owner, which keeps it until it releases it or completed; an artifact is read back). What follows
  from a contract is proved once, in its locale: an archive simulates the abstract \<open>archive\<close>.
\<close>

subsection \<open>The contract of records and summaries\<close>

text \<open>A job id names no other job's blobs.\<close>

definition legal_id :: "string \<Rightarrow> bool" where
  "legal_id i = (CHR ''/'' \<notin> set i)"

text \<open>A save without a result leaves the stored result.\<close>

definition keep_result :: "stored_job option \<Rightarrow> stored_job \<Rightarrow> stored_job" where
  "keep_result old r =
     (case sj_result r of Some v \<Rightarrow> r
      | None \<Rightarrow> r\<lparr>sj_result := (case old of None \<Rightarrow> None | Some o' \<Rightarrow> sj_result o')\<rparr>)"

text \<open>A listing with the row of a job replaced in place, or appended.\<close>

fun put_row :: "job_summary \<Rightarrow> job_summary list \<Rightarrow> job_summary list" where
  "put_row r [] = [r]"
| "put_row r (s # ss) = (if su_id s = su_id r then r # ss else s # put_row r ss)"

lemma put_row_ids: "map su_id (put_row r ss) = append_new (map su_id ss) (su_id r)"
  by (induction ss) (auto simp: append_new_def)

lemma put_row_distinct: "distinct (map su_id ss) \<Longrightarrow> distinct (map su_id (put_row r ss))"
  by (simp add: put_row_ids)

locale job_store =
  fixes save :: "'s \<Rightarrow> stored_job \<Rightarrow> 's"
    and load :: "'s \<Rightarrow> string \<Rightarrow> stored_job option"
    and rows :: "'s \<Rightarrow> job_summary list"
    and valid :: "'s \<Rightarrow> bool"
  assumes valid_save: "valid s \<Longrightarrow> legal_id (sj_id r) \<Longrightarrow> valid (save s r)"
    and load_save: "valid s \<Longrightarrow> legal_id (sj_id r) \<Longrightarrow> legal_id i \<Longrightarrow>
      load (save s r) i = (if i = sj_id r then Some (keep_result (load s i) r) else load s i)"
    and rows_save: "valid s \<Longrightarrow> legal_id (sj_id r) \<Longrightarrow> rows (save s r) = put_row (summary_of r) (rows s)"
begin

definition saves :: "'s \<Rightarrow> stored_job list \<Rightarrow> 's" where
  "saves s rs = foldl save s rs"

lemma saves_valid: "valid s \<Longrightarrow> \<forall>r\<in>set rs. legal_id (sj_id r) \<Longrightarrow> valid (saves s rs)"
  by (induction rs arbitrary: s) (auto simp: saves_def valid_save)

lemma saves_load:
  "valid s \<Longrightarrow> \<forall>r\<in>set rs. legal_id (sj_id r) \<Longrightarrow> legal_id i \<Longrightarrow>
     load (saves s rs) i = foldl (\<lambda>old r. if sj_id r = i then Some (keep_result old r) else old) (load s i) rs"
  by (induction rs arbitrary: s) (auto simp: saves_def valid_save load_save)

lemma saves_rows:
  "valid s \<Longrightarrow> \<forall>r\<in>set rs. legal_id (sj_id r) \<Longrightarrow>
     rows (saves s rs) = foldl (\<lambda>ss r. put_row (summary_of r) ss) (rows s) rs"
  by (induction rs arbitrary: s) (auto simp: saves_def valid_save rows_save)

lemma load_saved:
  "valid s \<Longrightarrow> legal_id (sj_id r) \<Longrightarrow> sj_result r \<noteq> None \<Longrightarrow> load (save s r) (sj_id r) = Some r"
  by (auto simp: load_save keep_result_def)

lemma save_again: "valid s \<Longrightarrow> legal_id (sj_id r) \<Longrightarrow> legal_id i \<Longrightarrow> load (save (save s r) r) i = load (save s r) i"
  by (simp add: load_save valid_save keep_result_def split: option.splits)

end

subsection \<open>The contract of locations and artifacts\<close>

text \<open>What an archive shows to its callers, and the operations on that.\<close>

record archive =
  ar_load :: "string \<Rightarrow> stored_job option"
  ar_rows :: "job_summary list"
  ar_owner :: "string \<Rightarrow> string option"
  ar_artifact :: "string \<Rightarrow> string \<Rightarrow> string option"

definition ar_save :: "archive \<Rightarrow> stored_job \<Rightarrow> archive" where
  "ar_save a r =
     a\<lparr>ar_load := (ar_load a)(sj_id r := Some (keep_result (ar_load a (sj_id r)) r)),
       ar_rows := put_row (summary_of r) (ar_rows a)\<rparr>"

definition ar_blocked :: "archive \<Rightarrow> string \<Rightarrow> string \<Rightarrow> bool" where
  "ar_blocked a loc job =
     (case ar_owner a loc of
        None \<Rightarrow> False
      | Some h \<Rightarrow> h \<noteq> [] \<and> h \<noteq> job \<and>
          (case ar_load a h of None \<Rightarrow> True | Some r \<Rightarrow> sj_status r \<noteq> JobCompleted))"

definition ar_reserve :: "archive \<Rightarrow> string \<Rightarrow> string \<Rightarrow> archive option" where
  "ar_reserve a loc job =
     (if ar_blocked a loc job then None else Some (a\<lparr>ar_owner := (ar_owner a)(loc := Some job)\<rparr>))"

definition ar_release :: "archive \<Rightarrow> string \<Rightarrow> string \<Rightarrow> archive" where
  "ar_release a loc job =
     (if ar_owner a loc = Some job then a\<lparr>ar_owner := (ar_owner a)(loc := None)\<rparr> else a)"

definition ar_put :: "archive \<Rightarrow> string \<Rightarrow> string \<Rightarrow> string \<Rightarrow> archive" where
  "ar_put a job filename data =
     a\<lparr>ar_artifact := (ar_artifact a)(job := (ar_artifact a job)(filename := Some data))\<rparr>"

text \<open>A call of the archive, and its effect on a backend given by its operations; a refused reservation
  is answered \<open>False\<close> and changes nothing.\<close>

datatype archive_op =
    SaveJob stored_job
  | Reserve string string
  | Release string string
  | SaveArtifact string string string

fun archive_call ::
  "('s \<Rightarrow> stored_job \<Rightarrow> 's) \<Rightarrow> ('s \<Rightarrow> string \<Rightarrow> string \<Rightarrow> 's option) \<Rightarrow> ('s \<Rightarrow> string \<Rightarrow> string \<Rightarrow> 's)
   \<Rightarrow> ('s \<Rightarrow> string \<Rightarrow> string \<Rightarrow> string \<Rightarrow> 's) \<Rightarrow> 's \<Rightarrow> archive_op \<Rightarrow> 's \<times> bool" where
  "archive_call save reserve release put s (SaveJob r) = (save s r, True)"
| "archive_call save reserve release put s (Reserve loc job) =
     (case reserve s loc job of None \<Rightarrow> (s, False) | Some s' \<Rightarrow> (s', True))"
| "archive_call save reserve release put s (Release loc job) = (release s loc job, True)"
| "archive_call save reserve release put s (SaveArtifact job filename data) = (put s job filename data, True)"

fun archive_calls ::
  "('s \<Rightarrow> archive_op \<Rightarrow> 's \<times> bool) \<Rightarrow> 's \<Rightarrow> archive_op list \<Rightarrow> 's \<times> bool list" where
  "archive_calls call s [] = (s, [])"
| "archive_calls call s (c # cs) =
     (let (s1, ok) = call s c; (s2, oks) = archive_calls call s1 cs in (s2, ok # oks))"

abbreviation ar_call :: "archive \<Rightarrow> archive_op \<Rightarrow> archive \<times> bool" where
  "ar_call \<equiv> archive_call ar_save ar_reserve ar_release ar_put"

fun legal_op :: "archive_op \<Rightarrow> bool" where
  "legal_op (SaveJob r) = legal_id (sj_id r)"
| "legal_op (Reserve loc job) = legal_id job"
| "legal_op (Release loc job) = legal_id job"
| "legal_op (SaveArtifact job filename data) = legal_id job"

locale job_archive = job_store save load rows valid
  for save :: "'s \<Rightarrow> stored_job \<Rightarrow> 's"
    and load :: "'s \<Rightarrow> string \<Rightarrow> stored_job option"
    and rows :: "'s \<Rightarrow> job_summary list"
    and valid :: "'s \<Rightarrow> bool" +
  fixes holder :: "'s \<Rightarrow> string \<Rightarrow> string option"
    and artifact :: "'s \<Rightarrow> string \<Rightarrow> string \<Rightarrow> string option"
    and reserve :: "'s \<Rightarrow> string \<Rightarrow> string \<Rightarrow> 's option"
    and release :: "'s \<Rightarrow> string \<Rightarrow> string \<Rightarrow> 's"
    and put :: "'s \<Rightarrow> string \<Rightarrow> string \<Rightarrow> string \<Rightarrow> 's"
    and shown :: "'s \<Rightarrow> archive"
  assumes shown_eq: "shown s = \<lparr>ar_load = (\<lambda>i. if legal_id i then load s i else None), ar_rows = rows s,
      ar_owner = holder s, ar_artifact = (\<lambda>i. if legal_id i then artifact s i else Map.empty)\<rparr>"
    and save_others: "valid s \<Longrightarrow> legal_id (sj_id r) \<Longrightarrow>
      holder (save s r) = holder s \<and> (\<forall>i. legal_id i \<longrightarrow> artifact (save s r) i = artifact s i)"
    and reserve_refines: "valid s \<Longrightarrow> legal_id job \<Longrightarrow>
      map_option shown (reserve s loc job) = ar_reserve (shown s) loc job"
    and release_refines: "valid s \<Longrightarrow> legal_id job \<Longrightarrow> shown (release s loc job) = ar_release (shown s) loc job"
    and put_refines: "valid s \<Longrightarrow> legal_id job \<Longrightarrow>
      shown (put s job filename data) = ar_put (shown s) job filename data"
    and reserve_valid: "valid s \<Longrightarrow> legal_id job \<Longrightarrow> reserve s loc job = Some s' \<Longrightarrow> valid s'"
    and release_valid: "valid s \<Longrightarrow> legal_id job \<Longrightarrow> valid (release s loc job)"
    and put_valid: "valid s \<Longrightarrow> legal_id job \<Longrightarrow> valid (put s job filename data)"
begin

lemma save_refines: "valid s \<Longrightarrow> legal_id (sj_id r) \<Longrightarrow> shown (save s r) = ar_save (shown s) r"
  using save_others[of s r] by (auto simp: shown_eq ar_save_def load_save rows_save)

abbreviation call :: "'s \<Rightarrow> archive_op \<Rightarrow> 's \<times> bool" where
  "call \<equiv> archive_call save reserve release put"

lemma call_refines:
  "valid s \<Longrightarrow> legal_op c \<Longrightarrow>
     valid (fst (call s c)) \<and> ar_call (shown s) c = (shown (fst (call s c)), snd (call s c))"
proof (induction c)
  case (Reserve loc job)
  then have "ar_reserve (shown s) loc job = map_option shown (reserve s loc job)" by (simp add: reserve_refines)
  then show ?case using Reserve reserve_valid[of s job loc] by (cases "reserve s loc job") auto
qed (simp_all add: save_refines valid_save release_refines release_valid put_refines put_valid)

lemma calls_refine:
  "valid s \<Longrightarrow> list_all legal_op cs \<Longrightarrow>
     valid (fst (archive_calls call s cs))
     \<and> archive_calls ar_call (shown s) cs = (shown (fst (archive_calls call s cs)), snd (archive_calls call s cs))"
proof (induction cs arbitrary: s)
  case (Cons c cs)
  from call_refines[OF Cons.prems(1)] Cons.prems(2)
  have "valid (fst (call s c))" "ar_call (shown s) c = (shown (fst (call s c)), snd (call s c))" by simp_all
  then show ?case using Cons.IH[of "fst (call s c)"] Cons.prems(2) by (simp add: case_prod_unfold Let_def)
qed simp

end

subsection \<open>In memory\<close>

definition mem_rows :: "mem_store \<Rightarrow> job_summary list" where
  "mem_rows s = map snd (ms_summaries s)"

definition rows_keyed :: "(string, job_summary) dict \<Rightarrow> bool" where
  "rows_keyed d = (distinct (map fst d) \<and> (\<forall>(i, su)\<in>set d. su_id su = i))"

lemma rows_keyed_ids: "rows_keyed d \<Longrightarrow> map su_id (map snd d) = map fst d"
  by (induction d) (auto simp: rows_keyed_def)

lemma rows_keyed_distinct: "rows_keyed d \<Longrightarrow> distinct (map su_id (map snd d))"
  by (subst rows_keyed_ids) (simp_all add: rows_keyed_def)

lemma rows_keyed_update:
  "rows_keyed d \<Longrightarrow> su_id su = i \<Longrightarrow>
     rows_keyed (AList.update i su d) \<and> map snd (AList.update i su d) = put_row su (map snd d)"
proof (induction d)
  case Nil
  then show ?case by (simp add: rows_keyed_def)
next
  case (Cons kv d)
  obtain k v where kv: "kv = (k, v)" by (cases kv)
  have d: "rows_keyed d" "su_id v = k" "k \<notin> fst ` set d" using Cons.prems(1) by (auto simp: kv rows_keyed_def)
  note IH = Cons.IH[OF d(1) Cons.prems(2)]
  show ?case
  proof (cases "k = i")
    case True
    then show ?thesis using Cons.prems by (auto simp: kv rows_keyed_def)
  next
    case False
    have "k \<notin> fst ` set (AList.update i su d)"
      using d(3) False by (simp add: dom_update[of i su d, unfolded dom_map_of_conv_image_fst])
    then show ?thesis using IH False d Cons.prems(2) by (auto simp: kv rows_keyed_def)
  qed
qed

text \<open>The owners of locations are job ids.\<close>

definition owners_legal :: "(string, string) dict \<Rightarrow> bool" where
  "owners_legal d = (\<forall>l h. map_of d l = Some h \<longrightarrow> legal_id h)"

lemma owners_legal_changes:
  "owners_legal []"
  "owners_legal d \<Longrightarrow> legal_id job \<Longrightarrow> owners_legal (AList.update loc job d)"
  "owners_legal d \<Longrightarrow> owners_legal (AList.delete loc d)"
  by (auto simp: owners_legal_def update_conv delete_conv)

definition mem_valid :: "mem_store \<Rightarrow> bool" where
  "mem_valid s =
     (rows_keyed (ms_summaries s) \<and> owners_legal (ms_outputs s)
      \<and> (\<forall>i. map_of (ms_result s) i \<noteq> None \<longrightarrow> map_of (ms_records s) i \<noteq> None))"

lemma assemble_core:
  "assemble (core_of r) (sj_inputs r) (sj_progress r) (sj_result r) = r"
  by (simp add: assemble_def core_of_def)

lemma assemble_kept:
  "assemble (core_of r) (sj_inputs r) (sj_progress r)
     (case sj_result r of Some v \<Rightarrow> Some v | None \<Rightarrow> (case old of None \<Rightarrow> None | Some o' \<Rightarrow> sj_result o'))
   = keep_result old r"
  by (simp add: assemble_def core_of_def keep_result_def split: option.splits)

lemma mem_load_result:
  "mem_valid s \<Longrightarrow> map_of (ms_result s) i = (case mem_load s i of None \<Rightarrow> None | Some r \<Rightarrow> sj_result r)"
  by (cases "map_of (ms_records s) i") (auto simp: mem_valid_def mem_load_def assemble_def)

lemma su_id_summary [simp]: "su_id (summary_of r) = sj_id r"
  by (simp add: summary_of_def)

interpretation mem: job_store mem_save mem_load mem_rows mem_valid
proof
  fix s r assume v: "mem_valid s"
  show "mem_valid (mem_save s r)"
    using v rows_keyed_update[of "ms_summaries s" "summary_of r" "sj_id r"]
    by (auto simp: mem_valid_def mem_save_def update_conv split: option.splits if_splits)
  show "mem_rows (mem_save s r) = put_row (summary_of r) (mem_rows s)"
    using v rows_keyed_update[of "ms_summaries s" "summary_of r" "sj_id r"]
    by (simp add: mem_valid_def mem_rows_def mem_save_def)
  fix i
  show "mem_load (mem_save s r) i = (if i = sj_id r then Some (keep_result (mem_load s i) r) else mem_load s i)"
    using mem_load_result[OF v, of i]
    by (auto simp: mem_load_def mem_save_def update_conv dict_get_def simp flip: assemble_kept split: option.splits)
qed

definition mem_holder :: "mem_store \<Rightarrow> string \<Rightarrow> string option" where
  "mem_holder s = map_of (ms_outputs s)"

definition mem_shown :: "mem_store \<Rightarrow> archive" where
  "mem_shown s = \<lparr>ar_load = (\<lambda>i. if legal_id i then mem_load s i else None), ar_rows = mem_rows s,
     ar_owner = mem_holder s, ar_artifact = (\<lambda>i. if legal_id i then mem_get_artifact s i else Map.empty)\<rparr>"

lemma mem_load_status:
  "(case mem_load s h of None \<Rightarrow> True | Some r \<Rightarrow> sj_status r \<noteq> JobCompleted)
   = (case map_of (ms_records s) h of None \<Rightarrow> True | Some r \<Rightarrow> sj_status r \<noteq> JobCompleted)"
  by (simp add: mem_load_def assemble_def split: option.splits)

lemma dict_get_blocked:
  "(let h = dict_get d loc [] in h \<noteq> [] \<and> Q h) = (case map_of d loc of None \<Rightarrow> False | Some h \<Rightarrow> h \<noteq> [] \<and> Q h)"
  by (simp add: dict_get_def Let_def split: option.splits)

lemma mem_blocked:
  assumes "mem_valid s"
  shows "ar_blocked (mem_shown s) loc job =
     (let h = dict_get (ms_outputs s) loc [] in h \<noteq> [] \<and> h \<noteq> job \<and>
        (case map_of (ms_records s) h of None \<Rightarrow> True | Some r \<Rightarrow> sj_status r \<noteq> JobCompleted))"
proof (cases "map_of (ms_outputs s) loc")
  case (Some h)
  then have "legal_id h" using assms by (auto simp: mem_valid_def owners_legal_def)
  then show ?thesis
    using Some by (simp add: ar_blocked_def mem_shown_def mem_holder_def dict_get_def mem_load_status)
qed (simp add: ar_blocked_def mem_shown_def mem_holder_def dict_get_def)

lemma mem_loads_same:
  "ms_records s' = ms_records s \<Longrightarrow> ms_inputs s' = ms_inputs s \<Longrightarrow> ms_progress s' = ms_progress s \<Longrightarrow>
     ms_result s' = ms_result s \<Longrightarrow> mem_load s' = mem_load s"
  by (rule ext) (simp add: mem_load_def split: option.split)

interpretation mem: job_archive mem_save mem_load mem_rows mem_valid mem_holder mem_get_artifact
  mem_reserve mem_release mem_save_artifact mem_shown
proof
  fix s :: mem_store
  show "mem_shown s = \<lparr>ar_load = (\<lambda>i. if legal_id i then mem_load s i else None), ar_rows = mem_rows s,
     ar_owner = mem_holder s, ar_artifact = (\<lambda>i. if legal_id i then mem_get_artifact s i else Map.empty)\<rparr>"
    by (simp add: mem_shown_def)
  assume v: "mem_valid s"
  show "mem_holder (mem_save s r) = mem_holder s
    \<and> (\<forall>i. legal_id i \<longrightarrow> mem_get_artifact (mem_save s r) i = mem_get_artifact s i)" for r
    by (simp add: mem_holder_def mem_save_def mem_get_artifact_def fun_eq_iff)
  fix job loc :: string assume l: "legal_id job"
  have same: "mem_load (s\<lparr>ms_outputs := outs\<rparr>) = mem_load s" for outs by (rule mem_loads_same) simp_all
  have shown: "mem_shown (s\<lparr>ms_outputs := outs\<rparr>) = (mem_shown s)\<lparr>ar_owner := map_of outs\<rparr>" for outs
    by (simp add: mem_shown_def mem_holder_def mem_rows_def mem_get_artifact_def same fun_eq_iff)
  show "map_option mem_shown (mem_reserve s loc job) = ar_reserve (mem_shown s) loc job"
    by (simp add: ar_reserve_def mem_blocked[OF v] mem_reserve_def Let_def shown update_conv')
       (simp add: mem_shown_def mem_holder_def)
  show "mem_shown (mem_release s loc job) = ar_release (mem_shown s) loc job"
    by (simp add: ar_release_def mem_release_def shown delete_conv')
       (simp add: mem_shown_def mem_holder_def)
  show "mem_valid s'" if "mem_reserve s loc job = Some s'" for s'
    using that v l by (auto simp: mem_reserve_def Let_def mem_valid_def owners_legal_changes split: if_splits)
  show "mem_valid (mem_release s loc job)"
    using v by (simp add: mem_release_def mem_valid_def owners_legal_changes)
  fix filename data
  show "mem_shown (mem_save_artifact s job filename data) = ar_put (mem_shown s) job filename data"
    using l mem_loads_same[of "mem_save_artifact s job filename data" s]
    by (simp add: mem_shown_def mem_save_artifact_def mem_holder_def mem_rows_def ar_put_def
        mem_get_artifact_def update_conv dict_get_def fun_eq_iff)
  show "mem_valid (mem_save_artifact s job filename data)"
    using v by (simp add: mem_save_artifact_def mem_valid_def)
qed

end
