(* ===== verification/Job_Storage_Blobs.thy ===== *)
theory Job_Storage_Blobs
  imports Job_Storage_Laws
begin

section \<open>The blob backends keep the contract\<close>

text \<open>
  The names of blobs tell jobs and parts apart as long as job ids hold no slash, so a save of one job
  never touches the blobs of another. \<open>PersistentJobStorage\<close> and \<open>SqliteJobStorage\<close> then satisfy the
  contract of \<open>Job_Storage_Laws\<close>; SQLite as long as nothing is pruned.
\<close>

subsection \<open>Names\<close>

lemma split_at_slash:
  "CHR ''/'' \<notin> set i \<Longrightarrow> CHR ''/'' \<notin> set j \<Longrightarrow> i @ CHR ''/'' # f = j @ CHR ''/'' # g \<longleftrightarrow> i = j \<and> f = g"
proof (induction i arbitrary: j)
  case Nil
  then show ?case by (cases j) auto
next
  case (Cons c i)
  then show ?case by (cases j) auto
qed

lemma under_prefix_inj: "under_prefix s a = under_prefix s b \<longleftrightarrow> a = b"
  by (simp add: under_prefix_def)

lemma job_names:
  "legal_id i \<Longrightarrow> legal_id j \<Longrightarrow> job_object_name s i f = job_object_name s j g \<longleftrightarrow> i = j \<and> f = g"
  "legal_id i \<Longrightarrow> legal_id j \<Longrightarrow> object_name s i = job_object_name s j g \<longleftrightarrow> i = j \<and> g = ''record.json''"
  "legal_id i \<Longrightarrow> legal_id j \<Longrightarrow> job_object_name s i f = object_name s j \<longleftrightarrow> i = j \<and> f = ''record.json''"
  "legal_id i \<Longrightarrow> legal_id j \<Longrightarrow> object_name s i = object_name s j \<longleftrightarrow> i = j"
  by (auto simp: job_object_name_def object_name_def under_prefix_inj split_at_slash legal_id_def)

lemma artifact_names:
  "legal_id i \<Longrightarrow> legal_id j \<Longrightarrow> artifact_name s i f = artifact_name s j g \<longleftrightarrow> i = j \<and> f = g"
  "legal_id i \<Longrightarrow> legal_id j \<Longrightarrow> artifact_name s i f \<noteq> object_name s j"
  "legal_id i \<Longrightarrow> legal_id j \<Longrightarrow> object_name s j \<noteq> artifact_name s i f"
  "legal_id i \<Longrightarrow> legal_id j \<Longrightarrow> CHR ''/'' \<notin> set g \<Longrightarrow> artifact_name s i f \<noteq> job_object_name s j g"
  "legal_id i \<Longrightarrow> legal_id j \<Longrightarrow> CHR ''/'' \<notin> set g \<Longrightarrow> job_object_name s j g \<noteq> artifact_name s i f"
  by (auto simp: artifact_name_def job_names)

lemma no_slash_name: "CHR ''/'' \<notin> set a \<Longrightarrow> i @ ''/'' @ f \<noteq> a"
  by auto

lemma index_names:
  "job_object_name s i f \<noteq> jobs_index_name s" "jobs_index_name s \<noteq> job_object_name s i f"
  "job_object_name s i f \<noteq> output_index_name s" "output_index_name s \<noteq> job_object_name s i f"
  "object_name s i \<noteq> jobs_index_name s" "jobs_index_name s \<noteq> object_name s i"
  "object_name s i \<noteq> output_index_name s" "output_index_name s \<noteq> object_name s i"
  "artifact_name s i g \<noteq> jobs_index_name s" "jobs_index_name s \<noteq> artifact_name s i g"
  "artifact_name s i g \<noteq> output_index_name s" "output_index_name s \<noteq> artifact_name s i g"
  "jobs_index_name s \<noteq> output_index_name s" "output_index_name s \<noteq> jobs_index_name s"
proof -
  have "i @ ''/'' @ f \<noteq> ''jobs_index.json''" "i @ ''/'' @ f \<noteq> ''output_index.json''" for i f
    by (rule no_slash_name, simp)+
  note this[of i f] this[of i "''record.json''"] this[of i "''artifacts/'' @ g"]
  then show
    "job_object_name s i f \<noteq> jobs_index_name s" "jobs_index_name s \<noteq> job_object_name s i f"
    "job_object_name s i f \<noteq> output_index_name s" "output_index_name s \<noteq> job_object_name s i f"
    "object_name s i \<noteq> jobs_index_name s" "jobs_index_name s \<noteq> object_name s i"
    "object_name s i \<noteq> output_index_name s" "output_index_name s \<noteq> object_name s i"
    "artifact_name s i g \<noteq> jobs_index_name s" "jobs_index_name s \<noteq> artifact_name s i g"
    "artifact_name s i g \<noteq> output_index_name s" "output_index_name s \<noteq> artifact_name s i g"
    "jobs_index_name s \<noteq> output_index_name s" "output_index_name s \<noteq> jobs_index_name s"
    by (auto simp: artifact_name_def job_object_name_def object_name_def jobs_index_name_def output_index_name_def under_prefix_inj
        simp del: append.simps)
qed

lemma names_put:
  "job_object_name (put_blob kb s) = job_object_name s" "object_name (put_blob kb s) = object_name s"
  "jobs_index_name (put_blob kb s) = jobs_index_name s" "output_index_name (put_blob kb s) = output_index_name s"
  "artifact_name (put_blob kb s) = artifact_name s"
  by (simp_all add: put_blob_def fun_eq_iff job_object_name_def artifact_name_def object_name_def jobs_index_name_def
      output_index_name_def under_prefix_def)

lemma blobs_put: "map_of (bl_blobs (put_blob (k, v) s)) = (map_of (bl_blobs s))(k := Some v)"
  by (simp add: put_blob_def update_conv')

lemmas blob_simps = names_put blobs_put job_names artifact_names index_names

subsection \<open>The parts of a job\<close>

text \<open>The writes of a record, as a map of blobs: the parts of the saved job change and nothing else.\<close>

definition record_put :: "blob_store \<Rightarrow> stored_job \<Rightarrow> blob_store" where
  "record_put s r = fold put_blob (record_writes s r) s"

lemma record_put_names:
  "job_object_name (record_put s r) = job_object_name s" "object_name (record_put s r) = object_name s"
  "jobs_index_name (record_put s r) = jobs_index_name s" "output_index_name (record_put s r) = output_index_name s"
  "artifact_name (record_put s r) = artifact_name s"
  by (auto simp: record_put_def record_writes_def names_put split: option.split)

lemma record_put_blobs:
  "legal_id i \<Longrightarrow> legal_id (sj_id r) \<Longrightarrow> map_of (bl_blobs (record_put s r)) (object_name s i) =
     (if i = sj_id r then Some (RecordBlob (core_of r)) else map_of (bl_blobs s) (object_name s i))"
  "legal_id i \<Longrightarrow> legal_id (sj_id r) \<Longrightarrow> map_of (bl_blobs (record_put s r)) (job_object_name s i ''inputs.json'') =
     (if i = sj_id r then Some (JsonBlob (JDict (sj_inputs r))) else map_of (bl_blobs s) (job_object_name s i ''inputs.json''))"
  "legal_id i \<Longrightarrow> legal_id (sj_id r) \<Longrightarrow> map_of (bl_blobs (record_put s r)) (job_object_name s i ''progress.json'') =
     (if i = sj_id r then Some (JsonBlob (JDict (sj_progress r))) else map_of (bl_blobs s) (job_object_name s i ''progress.json''))"
  "legal_id i \<Longrightarrow> legal_id (sj_id r) \<Longrightarrow> map_of (bl_blobs (record_put s r)) (job_object_name s i ''result.json'') =
     (if i = sj_id r \<and> sj_result r \<noteq> None then Some (JsonBlob (the (sj_result r)))
      else map_of (bl_blobs s) (job_object_name s i ''result.json''))"
  "legal_id i \<Longrightarrow> legal_id (sj_id r) \<Longrightarrow> map_of (bl_blobs (record_put s r)) (artifact_name s i f) =
     map_of (bl_blobs s) (artifact_name s i f)"
  "legal_id (sj_id r) \<Longrightarrow> map_of (bl_blobs (record_put s r)) (jobs_index_name s) = map_of (bl_blobs s) (jobs_index_name s)"
  "legal_id (sj_id r) \<Longrightarrow> map_of (bl_blobs (record_put s r)) (output_index_name s) = map_of (bl_blobs s) (output_index_name s)"
  by (auto simp: record_put_def record_writes_def blob_simps split: option.split)

text \<open>A result is never stored without its record.\<close>

definition results_owned :: "blob_store \<Rightarrow> bool" where
  "results_owned s =
     (\<forall>i. legal_id i \<longrightarrow> json_at s (job_object_name s i ''result.json'') \<noteq> None \<longrightarrow> blob_load s i \<noteq> None)"

lemma blob_load_result: "blob_load s i = Some r \<Longrightarrow> json_at s (job_object_name s i ''result.json'') = sj_result r"
  by (auto simp: blob_load_def assemble_def split: option.splits blob.splits)

lemma results_ownedD:
  "results_owned s \<Longrightarrow> legal_id i \<Longrightarrow>
     json_at s (job_object_name s i ''result.json'') = (case blob_load s i of None \<Rightarrow> None | Some r \<Rightarrow> sj_result r)"
  by (cases "blob_load s i") (auto simp: results_owned_def blob_load_result)

lemma record_put_load:
  assumes "results_owned s" "legal_id (sj_id r)" "legal_id i"
  shows "blob_load (record_put s r) i = (if i = sj_id r then Some (keep_result (blob_load s i) r) else blob_load s i)"
proof (cases "i = sj_id r")
  case True
  have kept: "json_at (record_put s r) (job_object_name s i ''result.json'') =
      (case sj_result r of Some v \<Rightarrow> Some v
       | None \<Rightarrow> (case blob_load s i of None \<Rightarrow> None | Some r' \<Rightarrow> sj_result r'))"
    using assms True results_ownedD[OF assms(1,3)] by (simp add: json_at_def record_put_blobs split: option.split)
  show ?thesis
    using assms True kept
    by (simp add: blob_load_def[of "record_put s r"] record_put_names record_put_blobs dict_at_def assemble_kept
        cong: option.case_cong blob.case_cong)
next
  case False
  then show ?thesis
    using assms by (simp add: blob_load_def record_put_names record_put_blobs dict_at_def json_at_def
        cong: option.case_cong blob.case_cong)
qed

lemma record_put_owned:
  assumes "results_owned s" "legal_id (sj_id r)"
  shows "results_owned (record_put s r)"
  unfolding results_owned_def
proof (intro allI impI)
  fix i assume i: "legal_id i" and v: "json_at (record_put s r) (job_object_name (record_put s r) i ''result.json'') \<noteq> None"
  then show "blob_load (record_put s r) i \<noteq> None"
    using assms record_put_load[OF assms i]
    by (auto simp: results_owned_def json_at_def record_put_names record_put_blobs split: if_splits)
qed

lemma load_put_other:
  "k \<noteq> object_name s i \<Longrightarrow> k \<noteq> job_object_name s i ''inputs.json'' \<Longrightarrow> k \<noteq> job_object_name s i ''progress.json'' \<Longrightarrow>
     k \<noteq> job_object_name s i ''result.json'' \<Longrightarrow> blob_load (put_blob (k, v) s) i = blob_load s i"
  by (simp add: blob_load_def names_put blobs_put dict_at_def json_at_def cong: option.case_cong blob.case_cong)

lemma owned_put_other:
  assumes "results_owned s" and "\<forall>i. legal_id i \<longrightarrow> k \<noteq> object_name s i \<and>
     (\<forall>f\<in>{''inputs.json'', ''progress.json'', ''result.json''}. k \<noteq> job_object_name s i f)"
  shows "results_owned (put_blob (k, v) s)"
  using assms by (auto simp: results_owned_def load_put_other names_put json_at_def blobs_put)

subsection \<open>Blobs\<close>

text \<open>A jobs index in which every entry parses and is filed under its own id.\<close>

definition index_ok :: "(string, job_summary option) dict \<Rightarrow> bool" where
  "index_ok ix = (None \<notin> snd ` set ix \<and> rows_keyed (map (map_prod id the) ix))"

lemma index_rows_ok: "None \<notin> snd ` set ix \<Longrightarrow> index_rows ix = map snd (map (map_prod id the) ix)"
  by (induction ix) (auto simp: index_rows_def List.map_filter_def)

lemma index_update:
  "map (map_prod id the) (AList.update i (Some su) ix) = AList.update i su (map (map_prod id the) ix)"
  by (induction ix) auto

lemma index_update_parses: "None \<notin> snd ` set ix \<Longrightarrow> None \<notin> snd ` set (AList.update i (Some su) ix)"
  by (induction ix) auto

lemma index_ok_update:
  assumes "index_ok ix" "su_id su = i"
  shows "index_ok (AList.update i (Some su) ix) \<and> index_rows (AList.update i (Some su) ix) = put_row su (index_rows ix)"
  using assms rows_keyed_update[of "map (map_prod id the) ix" su i]
  by (simp add: index_ok_def index_rows_ok index_update index_update_parses)

definition blob_rows :: "blob_store \<Rightarrow> job_summary list" where
  "blob_rows s = index_rows (jobs_index s)"

definition blob_holder :: "blob_store \<Rightarrow> string \<Rightarrow> string option" where
  "blob_holder s = map_of (outputs_index s)"

definition blob_valid :: "blob_store \<Rightarrow> bool" where
  "blob_valid s = (results_owned s \<and> index_ok (jobs_index s) \<and> distinct (map fst (outputs_index s))
     \<and> owners_legal (outputs_index s))"

definition blob_shown :: "blob_store \<Rightarrow> archive" where
  "blob_shown s = \<lparr>ar_load = (\<lambda>i. if legal_id i then blob_load s i else None), ar_rows = blob_rows s,
     ar_owner = blob_holder s, ar_artifact = (\<lambda>i. if legal_id i then blob_get_artifact s i else Map.empty)\<rparr>"

lemma blob_save_eq: "blob_save s r = put_blob (index_write s r) (record_put s r)"
  by (simp add: blob_save_def blob_writes_def record_put_def)

lemma index_put:
  "jobs_index (put_blob (jobs_index_name s, IndexBlob ix) s) = ix"
  "jobs_index (put_blob (output_index_name s, b) s) = jobs_index s"
  "outputs_index (put_blob (output_index_name s, OutputsBlob ox) s) = ox"
  "outputs_index (put_blob (jobs_index_name s, b) s) = outputs_index s"
  "jobs_index (put_blob (artifact_name s i f, b) s) = jobs_index s"
  "outputs_index (put_blob (artifact_name s i f, b) s) = outputs_index s"
  by (simp_all add: jobs_index_def outputs_index_def blob_simps)

lemma record_put_index:
  "legal_id (sj_id r) \<Longrightarrow> jobs_index (record_put s r) = jobs_index s"
  "legal_id (sj_id r) \<Longrightarrow> outputs_index (record_put s r) = outputs_index s"
  by (simp_all add: jobs_index_def outputs_index_def record_put_names record_put_blobs)

lemma index_write_names: "index_write s r = (jobs_index_name (record_put s r),
    IndexBlob (AList.update (sj_id r) (Some (summary_of r)) (jobs_index s)))"
  by (simp add: index_write_def record_put_names)

interpretation blob: job_store blob_save blob_load blob_rows blob_valid
proof
  fix s :: blob_store and r :: stored_job
  assume v: "blob_valid s" and l: "legal_id (sj_id r)"
  note new = index_ok_update[of "jobs_index s" "summary_of r" "sj_id r"]
  have load: "blob_load (blob_save s r) i = blob_load (record_put s r) i" for i
    by (simp add: blob_save_eq index_write_names load_put_other index_names)
  show "blob_valid (blob_save s r)"
    using v l new record_put_owned[of s r]
    by (simp add: blob_valid_def blob_save_eq index_write_names index_put record_put_index summary_of_def
        owned_put_other index_names)
  show "blob_rows (blob_save s r) = put_row (summary_of r) (blob_rows s)"
    using v new by (simp add: blob_valid_def blob_rows_def blob_save_eq index_write_names index_put summary_of_def)
  fix i assume "legal_id i"
  then show "blob_load (blob_save s r) i = (if i = sj_id r then Some (keep_result (blob_load s i) r) else blob_load s i)"
    unfolding load using v l by (simp add: blob_valid_def record_put_load)
qed

lemma artifact_put_other:
  "\<forall>f. k \<noteq> artifact_name s i f \<Longrightarrow>
     blob_get_artifact (put_blob (k, v) s) i = blob_get_artifact s i"
  by (auto simp: blob_get_artifact_def names_put blobs_put fun_eq_iff)

lemma record_put_artifact:
  "legal_id (sj_id r) \<Longrightarrow> legal_id i \<Longrightarrow> blob_get_artifact (record_put s r) i = blob_get_artifact s i"
  by (simp add: blob_get_artifact_def record_put_names record_put_blobs fun_eq_iff)

lemma artifact_put:
  assumes "legal_id job" "legal_id i"
  shows "blob_get_artifact (blob_save_artifact s job filename data) i =
     (if i = job then (blob_get_artifact s job)(filename := Some data) else blob_get_artifact s i)"
  using assms by (auto simp: blob_get_artifact_def blob_save_artifact_def blob_simps fun_eq_iff)

lemma artifact_leaves:
  assumes "legal_id job"
  shows "legal_id i \<Longrightarrow> blob_load (blob_save_artifact s job filename data) i = blob_load s i"
    and "results_owned s \<Longrightarrow> results_owned (blob_save_artifact s job filename data)"
  using assms by (simp_all add: blob_save_artifact_def load_put_other owned_put_other artifact_names)

lemma outputs_put:
  fixes s :: blob_store
  defines "s' ox \<equiv> put_blob (output_index_name s, OutputsBlob ox) s"
  shows "blob_load (s' ox) i = blob_load s i" "blob_get_artifact (s' ox) i = blob_get_artifact s i"
    "results_owned s \<Longrightarrow> results_owned (s' ox)"
    "blob_shown (s' ox) = (blob_shown s)\<lparr>ar_owner := map_of ox\<rparr>"
  by (simp_all add: s'_def load_put_other artifact_put_other owned_put_other index_names blob_shown_def blob_rows_def
      blob_holder_def index_put fun_eq_iff)

lemma owner_blocked:
  assumes "owners_legal d" "ar_owner a = map_of d" "\<And>h. legal_id h \<Longrightarrow> ar_load a h = load h"
  shows "ar_blocked a loc job =
     (let h = dict_get d loc [] in h \<noteq> [] \<and> h \<noteq> job \<and>
        (case load h of None \<Rightarrow> True | Some r \<Rightarrow> sj_status r \<noteq> JobCompleted))"
  using assms by (cases "map_of d loc") (auto simp: ar_blocked_def dict_get_def owners_legal_def)

interpretation blob: job_archive blob_save blob_load blob_rows blob_valid blob_holder blob_get_artifact
  blob_reserve blob_release blob_save_artifact blob_shown
proof
  fix s :: blob_store
  show "blob_shown s = \<lparr>ar_load = (\<lambda>i. if legal_id i then blob_load s i else None), ar_rows = blob_rows s,
     ar_owner = blob_holder s, ar_artifact = (\<lambda>i. if legal_id i then blob_get_artifact s i else Map.empty)\<rparr>"
    by (simp add: blob_shown_def)
  assume v: "blob_valid s"
  show "blob_holder (blob_save s r) = blob_holder s
    \<and> (\<forall>i. legal_id i \<longrightarrow> blob_get_artifact (blob_save s r) i = blob_get_artifact s i)" if "legal_id (sj_id r)" for r
    using that by (simp add: blob_holder_def blob_save_eq index_write_names index_put record_put_index
        artifact_put_other index_names record_put_artifact)
  fix job loc :: string assume l: "legal_id job"
  have holder: "ar_owner (blob_shown s) = map_of (outputs_index s)" by (simp add: blob_shown_def blob_holder_def)
  have blocked: "ar_blocked (blob_shown s) loc job =
     (let h = dict_get (outputs_index s) loc [] in h \<noteq> [] \<and> h \<noteq> job \<and>
        (case blob_load s h of None \<Rightarrow> True | Some r \<Rightarrow> sj_status r \<noteq> JobCompleted))"
    using v by (intro owner_blocked) (simp_all add: blob_valid_def holder, simp add: blob_shown_def)
  show "map_option blob_shown (blob_reserve s loc job) = ar_reserve (blob_shown s) loc job"
    by (simp add: ar_reserve_def blocked blob_reserve_def Let_def outputs_put holder update_conv')
  show "blob_shown (blob_release s loc job) = ar_release (blob_shown s) loc job"
    by (simp add: ar_release_def blob_release_def outputs_put holder delete_conv')
  show "blob_valid s'" if "blob_reserve s loc job = Some s'" for s'
    using that v l
    by (auto simp: blob_reserve_def Let_def blob_valid_def owners_legal_changes index_put outputs_put distinct_update
        split: if_splits)
  show "blob_valid (blob_release s loc job)"
    using v by (simp add: blob_release_def blob_valid_def owners_legal_changes index_put outputs_put distinct_delete)
  fix filename data
  show "blob_shown (blob_save_artifact s job filename data) = ar_put (blob_shown s) job filename data"
    using l by (simp add: blob_shown_def ar_put_def artifact_put artifact_leaves blob_rows_def blob_holder_def fun_eq_iff)
      (simp add: blob_save_artifact_def index_put)
  show "blob_valid (blob_save_artifact s job filename data)"
    using v artifact_leaves[OF l] by (simp add: blob_valid_def) (simp add: blob_save_artifact_def index_put)
qed

subsection \<open>SQLite\<close>

text \<open>A clock with which nothing is pruned.\<close>

definition no_prune :: prune_clock where
  "no_prune = \<lparr>pc_days = 0, pc_now = 0, pc_cutoff = 0\<rparr>"

lemma sql_save_no_prune: "pc_days c \<le> 0 \<Longrightarrow> sql_save c = sql_save no_prune"
  by (simp add: fun_eq_iff sql_save_def maybe_prune_def no_prune_def)

definition sql_table :: "sql_store \<Rightarrow> job_summary list" where
  "sql_table s = map snd (sq_rows s)"

definition sql_holder :: "sql_store \<Rightarrow> string \<Rightarrow> string option" where
  "sql_holder s = map_of (sq_outputs s)"

definition sql_get_artifact :: "sql_store \<Rightarrow> string \<Rightarrow> string \<Rightarrow> string option" where
  "sql_get_artifact s = blob_get_artifact (sq_blobs s)"

definition sql_save_artifact :: "sql_store \<Rightarrow> string \<Rightarrow> string \<Rightarrow> string \<Rightarrow> sql_store" where
  "sql_save_artifact s job filename data = s\<lparr>sq_blobs := blob_save_artifact (sq_blobs s) job filename data\<rparr>"

definition sql_valid :: "sql_store \<Rightarrow> bool" where
  "sql_valid s = (results_owned (sq_blobs s) \<and> rows_keyed (sq_rows s) \<and> distinct (map fst (sq_outputs s))
     \<and> owners_legal (sq_outputs s))"

definition sql_shown :: "sql_store \<Rightarrow> archive" where
  "sql_shown s = \<lparr>ar_load = (\<lambda>i. if legal_id i then sql_load s i else None), ar_rows = sql_table s,
     ar_owner = sql_holder s, ar_artifact = (\<lambda>i. if legal_id i then sql_get_artifact s i else Map.empty)\<rparr>"

lemma sql_save_eq:
  "sql_save no_prune s r =
     s\<lparr>sq_blobs := record_put (sq_blobs s) r, sq_rows := AList.update (sj_id r) (summary_of r) (sq_rows s)\<rparr>"
  by (simp add: sql_save_def maybe_prune_def no_prune_def record_put_def)

text \<open>The DELETE takes exactly the row of the holder.\<close>

lemma release_rows:
  "distinct (map fst d) \<Longrightarrow> map_of (filter (\<lambda>(l, j). \<not> (l = loc \<and> j = job)) d) =
     (if map_of d loc = Some job then (map_of d)(loc := None) else map_of d)"
proof (induction d)
  case (Cons kv d)
  obtain k v where kv: "kv = (k, v)" by (cases kv)
  have "map_of d k = None" using Cons.prems by (simp add: kv map_of_eq_None_iff)
  then show ?case using Cons by (auto simp: kv fun_eq_iff)
qed simp

lemma release_keys: "distinct (map fst d) \<Longrightarrow> distinct (map fst (filter P d))"
  by (induction d) auto

interpretation sql: job_archive "sql_save no_prune" sql_load sql_table sql_valid sql_holder sql_get_artifact
  sql_reserve sql_release sql_save_artifact sql_shown
proof
  fix s :: sql_store and r :: stored_job
  show "sql_shown s = \<lparr>ar_load = (\<lambda>i. if legal_id i then sql_load s i else None), ar_rows = sql_table s,
     ar_owner = sql_holder s, ar_artifact = (\<lambda>i. if legal_id i then sql_get_artifact s i else Map.empty)\<rparr>"
    by (simp add: sql_shown_def)
  assume v: "sql_valid s"
  show "sql_valid (sql_save no_prune s r)" if "legal_id (sj_id r)"
    using that v rows_keyed_update[of "sq_rows s" "summary_of r" "sj_id r"]
    by (simp add: sql_valid_def sql_save_eq record_put_owned)
  show "sql_load (sql_save no_prune s r) i = (if i = sj_id r then Some (keep_result (sql_load s i) r) else sql_load s i)"
    if "legal_id (sj_id r)" "legal_id i" for i
    using that v by (simp add: sql_valid_def sql_save_eq sql_load_def record_put_load)
  show "sql_table (sql_save no_prune s r) = put_row (summary_of r) (sql_table s)"
    using v rows_keyed_update[of "sq_rows s" "summary_of r" "sj_id r"]
    by (simp add: sql_valid_def sql_save_eq sql_table_def)
  show "sql_holder (sql_save no_prune s r) = sql_holder s
    \<and> (\<forall>i. legal_id i \<longrightarrow> sql_get_artifact (sql_save no_prune s r) i = sql_get_artifact s i)" if "legal_id (sj_id r)"
    using that by (simp add: sql_holder_def sql_save_eq sql_get_artifact_def record_put_artifact)
  fix job loc :: string assume l: "legal_id job"
  have holder: "ar_owner (sql_shown s) = map_of (sq_outputs s)" by (simp add: sql_shown_def sql_holder_def)
  have blocked: "ar_blocked (sql_shown s) loc job =
     (let h = dict_get (sq_outputs s) loc [] in h \<noteq> [] \<and> h \<noteq> job \<and>
        (case sql_load s h of None \<Rightarrow> True | Some r \<Rightarrow> sj_status r \<noteq> JobCompleted))"
    using v by (intro owner_blocked) (simp_all add: sql_valid_def holder, simp add: sql_shown_def)
  have free: "sql_may_reserve s loc job \<longleftrightarrow> \<not> ar_blocked (sql_shown s) loc job"
    by (auto simp: blocked sql_may_reserve_def Let_def split: option.splits)
  have shown: "sql_shown (s\<lparr>sq_outputs := d\<rparr>) = (sql_shown s)\<lparr>ar_owner := map_of d\<rparr>" for d
    by (simp add: sql_shown_def sql_load_def sql_get_artifact_def sql_table_def sql_holder_def fun_eq_iff)
  show "map_option sql_shown (sql_reserve s loc job) = ar_reserve (sql_shown s) loc job"
    by (simp add: ar_reserve_def sql_reserve_def free sql_take_def shown holder update_conv')
  show "sql_shown (sql_release s loc job) = ar_release (sql_shown s) loc job"
  proof -
    have "map_of (sq_outputs (sql_release s loc job)) = (if map_of (sq_outputs s) loc = Some job
        then (map_of (sq_outputs s))(loc := None) else map_of (sq_outputs s))"
      using v release_rows[of "sq_outputs s" loc job] by (simp only: sql_release_def sql_valid_def) simp
    moreover have "sql_shown (sql_release s loc job) = (sql_shown s)\<lparr>ar_owner := map_of (sq_outputs (sql_release s loc job))\<rparr>"
      by (simp add: sql_release_def shown)
    ultimately show ?thesis by (simp add: ar_release_def holder)
  qed
  show "sql_valid s'" if "sql_reserve s loc job = Some s'" for s'
    using that v l
    by (auto simp: sql_reserve_def sql_take_def sql_valid_def owners_legal_changes distinct_update split: if_splits)
  show "sql_valid (sql_release s loc job)"
    using v by (auto simp: sql_release_def sql_valid_def release_keys owners_legal_def release_rows split: if_splits)
  fix filename data
  show "sql_shown (sql_save_artifact s job filename data) = ar_put (sql_shown s) job filename data"
    using l by (simp add: sql_shown_def ar_put_def sql_get_artifact_def sql_save_artifact_def sql_load_def artifact_put
        artifact_leaves sql_table_def sql_holder_def fun_eq_iff)
  show "sql_valid (sql_save_artifact s job filename data)"
    using v artifact_leaves[OF l] by (simp add: sql_valid_def sql_save_artifact_def)
qed

end
