(* ===== verification/Job_Recovery.thy ===== *)
theory Job_Recovery
  imports Job_Storage_Blobs
begin

section \<open>Recovery of jobs after a restart\<close>

text \<open>
  \<open>routes/jobs.py\<close> at the start and the end of the server: \<open>mark_running_jobs_failed\<close>,
  \<open>recover_in_flight_jobs\<close>, \<open>recover_in_flight_jobs_until_done\<close> and the lookup \<open>_load_job_record\<close> that
  brings an archived job into memory. The archive is the default one, the blobs.

  \<^item> The outcomes of the calls to the archive are given per job (\<open>fate\<close>): whether the load answers,
    whether the record is rebuilt, and after how many writes a save raises.
  \<^item> \<open>jobs\<close>, the records in memory, is a dictionary by job id; a pass runs against one such dictionary.
\<close>

subsection \<open>Calls that may raise\<close>

record fate =
  ft_loads :: bool
  ft_rebuilds :: bool
  ft_writes :: "nat option"

definition save_fate :: "nat option \<Rightarrow> blob_store \<Rightarrow> stored_job \<Rightarrow> blob_store \<times> bool" where
  "save_fate w s r = (case w of None \<Rightarrow> (blob_save s r, True) | Some n \<Rightarrow> (blob_save_upto n s r, False))"

text \<open>\<open>if not record.error: record.error = reason\<close>: an empty message counts as none.\<close>

definition error_or :: "string \<Rightarrow> string option \<Rightarrow> string option" where
  "error_or reason e = (case e of None \<Rightarrow> Some reason | Some [] \<Rightarrow> Some reason | Some m \<Rightarrow> Some m)"

definition fail_record :: "string \<Rightarrow> int \<Rightarrow> stored_job \<Rightarrow> stored_job" where
  "fail_record reason now r =
     r\<lparr>sj_status := JobFailed, sj_error := error_or reason (sj_error r), sj_finished := Some now\<rparr>"

subsection \<open>Shutdown\<close>

text \<open>\<open>mark_running_jobs_failed\<close>: every active job in memory fails, then they are saved in turn; a save that
  raises ends the loop. The second component is whether all were saved.\<close>

definition fail_active :: "string \<Rightarrow> int \<Rightarrow> (string, stored_job) dict \<Rightarrow> (string, stored_job) dict" where
  "fail_active reason now jobs =
     map (\<lambda>(i, r). (i, if terminal_status (sj_status r) then r else fail_record reason now r)) jobs"

fun save_all :: "(string \<Rightarrow> nat option) \<Rightarrow> blob_store \<Rightarrow> stored_job list \<Rightarrow> blob_store \<times> bool" where
  "save_all w s [] = (s, True)"
| "save_all w s (r # rs) =
     (case save_fate (w (sj_id r)) s r of (s', ok) \<Rightarrow> if ok then save_all w s' rs else (s', False))"

definition mark_running_jobs_failed ::
  "string \<Rightarrow> int \<Rightarrow> (string \<Rightarrow> nat option) \<Rightarrow> (string, stored_job) dict \<Rightarrow> blob_store
   \<Rightarrow> (string, stored_job) dict \<times> blob_store \<times> bool" where
  "mark_running_jobs_failed reason now w jobs s =
     (let active = filter (\<lambda>r. sj_status r \<in> {JobPending, JobRunning}) (map snd jobs)
      in if active = [] then (jobs, s, True)
         else (fail_active reason now jobs, save_all w s (map (fail_record reason now) active)))"

subsection \<open>A recovery pass\<close>

record recovery_env =
  re_reason :: string
  re_now :: int
  re_before :: "int option"

record recovery =
  rc_store :: blob_store
  rc_affected :: nat
  rc_repaired :: nat
  rc_unreachable :: "string list"

definition unreached :: "string \<Rightarrow> recovery \<Rightarrow> recovery" where
  "unreached i rc = rc\<lparr>rc_unreachable := rc_unreachable rc @ [i]\<rparr>"

definition too_late :: "recovery_env \<Rightarrow> stored_job \<Rightarrow> bool" where
  "too_late e r = (case re_before e of None \<Rightarrow> False | Some t \<Rightarrow> t \<le> sj_submitted r)"

definition recover_one ::
  "recovery_env \<Rightarrow> (string \<Rightarrow> fate) \<Rightarrow> (string, stored_job) dict \<Rightarrow> recovery \<Rightarrow> job_summary \<Rightarrow> recovery" where
  "recover_one e fates jobs rc su =
     (let i = su_id su; f = fates i in
      if i \<in> fst ` set jobs then rc
      else if \<not> ft_loads f then unreached i rc
      else case blob_load (rc_store rc) i of
        None \<Rightarrow> rc
      | Some r \<Rightarrow>
          if \<not> ft_rebuilds f then rc
          else if too_late e r then rc
          else if sj_status r \<notin> set active_statuses then
            (case save_fate (ft_writes f) (rc_store rc) r of
               (s, True) \<Rightarrow> rc\<lparr>rc_store := s, rc_repaired := rc_repaired rc + 1\<rparr>
             | (s, False) \<Rightarrow> unreached i (rc\<lparr>rc_store := s\<rparr>))
          else
            (case save_fate (ft_writes f) (rc_store rc) (fail_record (re_reason e) (re_now e) r) of
               (s, True) \<Rightarrow> rc\<lparr>rc_store := s, rc_affected := rc_affected rc + 1\<rparr>
             | (s, False) \<Rightarrow> unreached i (rc\<lparr>rc_store := s\<rparr>)))"

text \<open>The pass reads the candidates first; it raises with the jobs it could not read or write.\<close>

datatype recovery_error = NoListing | UnreachableJobs "string list"

definition recover_in_flight_jobs ::
  "recovery_env \<Rightarrow> bool \<Rightarrow> (string \<Rightarrow> fate) \<Rightarrow> (string, stored_job) dict \<Rightarrow> blob_store
   \<Rightarrow> blob_store \<times> (recovery_error + nat)" where
  "recover_in_flight_jobs e listed fates jobs s =
     (if \<not> listed then (s, Inl NoListing)
      else
        let rc = foldl (recover_one e fates jobs) \<lparr>rc_store = s, rc_affected = 0, rc_repaired = 0, rc_unreachable = []\<rparr>
              (blob_iter s (Some active_statuses))
        in (rc_store rc, if rc_unreachable rc \<noteq> [] then Inl (UnreachableJobs (rc_unreachable rc)) else Inr (rc_affected rc)))"

subsection \<open>Retries\<close>

text \<open>\<open>recover_in_flight_jobs_until_done\<close>: what each attempt meets is given, one entry per attempt; the
  result has the delays slept and whether a pass completed.\<close>

record attempt =
  at_env :: recovery_env
  at_listed :: bool
  at_fates :: "string \<Rightarrow> fate"
  at_jobs :: "(string, stored_job) dict"

fun recover_until_done :: "real \<Rightarrow> real \<Rightarrow> attempt list \<Rightarrow> blob_store \<Rightarrow> blob_store \<times> real list \<times> bool" where
  "recover_until_done delay max_delay [] s = (s, [], False)"
| "recover_until_done delay max_delay (a # as) s =
     (case recover_in_flight_jobs (at_env a) (at_listed a) (at_fates a) (at_jobs a) s of
        (s', Inr n) \<Rightarrow> (s', [], True)
      | (s', Inl err) \<Rightarrow>
          if as = [] then (s', [], False)
          else (case recover_until_done (min (delay * 2) max_delay) max_delay as s' of
                  (s'', slept, ok) \<Rightarrow> (s'', delay # slept, ok)))"

subsection \<open>Reading a job\<close>

text \<open>\<open>_load_job_record\<close>: a record that is not in memory is loaded and kept there.\<close>

definition load_job_record ::
  "bool \<Rightarrow> (string, stored_job) dict \<Rightarrow> blob_store \<Rightarrow> string \<Rightarrow> (string, stored_job) dict \<times> stored_job option" where
  "load_job_record rebuilds jobs s i =
     (case map_of jobs i of
        Some r \<Rightarrow> (jobs, Some r)
      | None \<Rightarrow>
          (case blob_load s i of
             None \<Rightarrow> (jobs, None)
           | Some r \<Rightarrow> if rebuilds then (AList.update i r jobs, Some r) else (jobs, None)))"

end
