(* ===== verification/Job_Lifecycle.thy ===== *)
theory Job_Lifecycle
  imports Job_Recovery
begin

section \<open>The life of a job record\<close>

text \<open>
  The writes of \<open>routes/jobs.py\<close> on job records, from the submission to the last save: \<open>submit_job\<close>,
  \<open>_run_job\<close>, \<open>cancel_job\<close>, the child jobs of a dynamic run, progress requests, shutdown, restart and
  recovery, as events of one system.

  \<^item> State: the records in memory, the archive of blobs, the saves that were asked for and not yet
    carried out (\<open>asyncio.to_thread\<close> runs them on their own threads), the jobs whose \<open>_run_job\<close> has not
    ended with their phase, and the children of each job (\<open>child_job_ids\<close>).
  \<^item> An event is what one task does between two points where others can run. A write under
    \<open>jobs_lock\<close> and the request of its save are one event; carrying the save out is another, which
    writes the record as it is then, since a save reads the record when it runs.
  \<^item> Fields the events do not decide (trace and task ids, dispatches) are the value \<open>sj_rest\<close>, given with the
    event, as is what the runtime answers. The last save of a dynamic parent works on a copy of the
    record; here it is a save like the others.
  \<^item> An event whose task cannot be at that point is \<open>None\<close>.
\<close>

datatype run_phase = RunQueued | RunExecuting | RunEnding

record job_sys =
  jy_jobs :: "(string, stored_job) dict"
  jy_archive :: blob_store
  jy_unsaved :: "string list"
  jy_runs :: "(string, run_phase) dict"
  jy_children :: "(string, string list) dict"

subsection \<open>Writes\<close>

definition put_job :: "stored_job \<Rightarrow> job_sys \<Rightarrow> job_sys" where
  "put_job r s = s\<lparr>jy_jobs := AList.update (sj_id r) r (jy_jobs s)\<rparr>"

definition ask_save :: "string \<Rightarrow> job_sys \<Rightarrow> job_sys" where
  "ask_save i s = s\<lparr>jy_unsaved := jy_unsaved s @ [i]\<rparr>"

definition to_phase :: "string \<Rightarrow> run_phase \<Rightarrow> job_sys \<Rightarrow> job_sys" where
  "to_phase i p s = s\<lparr>jy_runs := AList.update i p (jy_runs s)\<rparr>"

definition end_run :: "string \<Rightarrow> job_sys \<Rightarrow> job_sys" where
  "end_run i s = s\<lparr>jy_runs := AList.delete i (jy_runs s)\<rparr>"

text \<open>\<open>if record.status not in TERMINAL_JOB_STATUSES\<close>.\<close>

definition unless_ended :: "(stored_job \<Rightarrow> stored_job) \<Rightarrow> stored_job \<Rightarrow> stored_job" where
  "unless_ended f r = (if terminal_status (sj_status r) then r else f r)"

definition ended_as :: "job_status \<Rightarrow> string option \<Rightarrow> int \<Rightarrow> stored_job \<Rightarrow> stored_job" where
  "ended_as st err now r = r\<lparr>sj_status := st, sj_error := err, sj_finished := Some now\<rparr>"

subsection \<open>Submission\<close>

text \<open>\<open>JobRecord(status="pending", ...)\<close>: a new record has no result and no times.\<close>

definition fresh_record :: "stored_job \<Rightarrow> bool" where
  "fresh_record r = (sj_status r = JobPending \<and> sj_started r = None \<and> sj_finished r = None \<and> sj_error r = None
     \<and> sj_result r = None)"

definition submit_job :: "stored_job \<Rightarrow> job_sys \<Rightarrow> job_sys option" where
  "submit_job r s =
     (if fresh_record r \<and> sj_parent r = None \<and> map_of (jy_jobs s) (sj_id r) = None \<and> blob_load (jy_archive s) (sj_id r) = None
      then Some (to_phase (sj_id r) RunQueued (ask_save (sj_id r) (put_job r s))) else None)"

text \<open>\<open>_submit_dynamic_child\<close>: the parent must be in memory and active when the child is entered; both
  are saved.\<close>

definition parent_active :: "string \<Rightarrow> job_sys \<Rightarrow> bool" where
  "parent_active p s = (case map_of (jy_jobs s) p of None \<Rightarrow> False | Some r \<Rightarrow> \<not> terminal_status (sj_status r))"

definition submit_child :: "string \<Rightarrow> stored_job \<Rightarrow> job_sys \<Rightarrow> job_sys option" where
  "submit_child p r s =
     (if fresh_record r \<and> sj_parent r = Some p \<and> map_of (jy_jobs s) (sj_id r) = None \<and> blob_load (jy_archive s) (sj_id r) = None
      then Some (if parent_active p s
        then to_phase (sj_id r) RunQueued (ask_save p (ask_save (sj_id r)
          (put_job r (s\<lparr>jy_children := AList.update p (append_new (dict_get (jy_children s) p []) (sj_id r)) (jy_children s)\<rparr>))))
        else s)
      else None)"

text \<open>A round that does not compile, or needs a GPU where none was asked for, fails the parent.\<close>

definition fail_parent :: "string \<Rightarrow> string \<Rightarrow> int \<Rightarrow> job_sys \<Rightarrow> job_sys" where
  "fail_parent p err now s =
     (case map_of (jy_jobs s) p of
        None \<Rightarrow> s
      | Some r \<Rightarrow> if terminal_status (sj_status r) then s
          else ask_save p (put_job (ended_as JobFailed (Some err) now r) s))"

text \<open>The child's coroutine after \<open>wait_for\<close> gave up and its run was cancelled: the status is written without
  looking at the old one.\<close>

definition child_timeout :: "string \<Rightarrow> string option \<Rightarrow> int \<Rightarrow> job_sys \<Rightarrow> job_sys option" where
  "child_timeout c failure now s =
     (case map_of (jy_jobs s) c of
        None \<Rightarrow> None
      | Some r \<Rightarrow>
          if sj_parent r = None \<or> c \<in> fst ` set (jy_runs s) then None
          else Some (ask_save c (put_job
            (case failure of
               Some msg \<Rightarrow> ended_as JobFailed (Some (''cancellation failed after timeout: '' @ msg)) now r
             | None \<Rightarrow> ended_as JobCancelled (sj_error r) now r) s)))"

subsection \<open>Running\<close>

text \<open>\<open>_run_job\<close> up to the first save: a job that was cancelled while queued is saved and left.\<close>

definition run_start :: "string \<Rightarrow> int \<Rightarrow> job_sys \<Rightarrow> job_sys option" where
  "run_start i now s =
     (case (map_of (jy_jobs s) i, map_of (jy_runs s) i) of
        (Some r, Some RunQueued) \<Rightarrow>
          Some (if terminal_status (sj_status r) then end_run i (ask_save i s)
            else to_phase i RunExecuting (ask_save i (put_job
              (r\<lparr>sj_status := JobRunning, sj_started := Some now,
                sj_progress := AList.update ''queuing'' (JDict [(''completed'', JBool True)]) (sj_progress r)\<rparr>) s)))
      | _ \<Rightarrow> None)"

text \<open>The answer of \<open>server.execute\<close>: the result, the summary of its errors when it has any, and the timings;
  no save when the job had ended already.\<close>

record run_answer =
  ra_result :: json
  ra_failed :: bool
  ra_summary :: "string option"
  ra_rest :: json
  ra_seconds :: "real option \<times> real option \<times> real option"

definition newer :: "'a option \<Rightarrow> 'a option \<Rightarrow> 'a option" where
  "newer new old = (case new of None \<Rightarrow> old | Some v \<Rightarrow> Some v)"

definition answered :: "run_answer \<Rightarrow> int \<Rightarrow> stored_job \<Rightarrow> stored_job" where
  "answered a now r =
     r\<lparr>sj_result := Some (ra_result a), sj_rest := ra_rest a,
       sj_seconds := (newer (fst (ra_seconds a)) (fst (sj_seconds r)), newer (fst (snd (ra_seconds a))) (fst (snd (sj_seconds r))),
         newer (snd (snd (ra_seconds a))) (snd (snd (sj_seconds r)))),
       sj_finished := Some now,
       sj_status := (if ra_failed a then JobFailed else JobCompleted),
       sj_error := (if ra_failed a then
           (case ra_summary a of None \<Rightarrow> sj_error r | Some [] \<Rightarrow> sj_error r | Some m \<Rightarrow> Some m) else sj_error r)\<rparr>"

definition run_answered :: "string \<Rightarrow> run_answer \<Rightarrow> int \<Rightarrow> job_sys \<Rightarrow> job_sys option" where
  "run_answered i a now s =
     (case (map_of (jy_jobs s) i, map_of (jy_runs s) i) of
        (Some r, Some RunExecuting) \<Rightarrow>
          Some (to_phase i RunEnding
            (if terminal_status (sj_status r) then s else ask_save i (put_job (answered a now r) s)))
      | _ \<Rightarrow> None)"

text \<open>The two handlers: \<open>RequestCancelledError\<close> and any other exception, which may also escape after the answer was
  recorded (its save may raise).\<close>

definition run_cancelled :: "string \<Rightarrow> int \<Rightarrow> job_sys \<Rightarrow> job_sys option" where
  "run_cancelled i now s =
     (case (map_of (jy_jobs s) i, map_of (jy_runs s) i) of
        (Some r, Some RunExecuting) \<Rightarrow>
          Some (to_phase i RunEnding (put_job (unless_ended (\<lambda>r. ended_as JobCancelled (sj_error r) now r) r) s))
      | _ \<Rightarrow> None)"

definition run_raised :: "string \<Rightarrow> string \<Rightarrow> int \<Rightarrow> job_sys \<Rightarrow> job_sys option" where
  "run_raised i msg now s =
     (case (map_of (jy_jobs s) i, map_of (jy_runs s) i) of
        (Some r, Some p) \<Rightarrow>
          (if p = RunQueued then None
           else Some (to_phase i RunEnding
             (put_job (unless_ended (\<lambda>r. ended_as JobFailed (error_or msg (sj_error r)) now r) r) s)))
      | _ \<Rightarrow> None)"

text \<open>The \<open>finally\<close> block, also reached when the task is cancelled while it executes: ids, dispatches and usage
  are noted and the record is saved whatever its status.\<close>

definition run_end :: "string \<Rightarrow> json \<Rightarrow> (string, json) dict \<Rightarrow> job_sys \<Rightarrow> job_sys option" where
  "run_end i rest usage s =
     (case (map_of (jy_jobs s) i, map_of (jy_runs s) i) of
        (Some r, Some p) \<Rightarrow>
          (if p = RunQueued then None
           else Some (end_run i (ask_save i (put_job
             (r\<lparr>sj_rest := rest, sj_progress := (if terminal_status (sj_status r) then usage else sj_progress r)\<rparr>) s))))
      | _ \<Rightarrow> None)"

text \<open>A write of the dynamic loop on its own record: nothing when the record has ended, else the new fields and
  a save.\<close>

definition loop_write :: "string \<Rightarrow> (job_status \<times> string option \<times> int option \<times> json option) \<Rightarrow> (string, json) dict \<Rightarrow> job_sys \<Rightarrow> job_sys" where
  "loop_write i w progress s =
     (case (map_of (jy_jobs s) i, w) of
        (Some r, (st, err, fin, res)) \<Rightarrow>
          if terminal_status (sj_status r) then s
          else ask_save i (put_job (r\<lparr>sj_status := st, sj_error := err, sj_finished := fin,
            sj_result := newer res (sj_result r), sj_progress := progress\<rparr>) s)
      | (None, _) \<Rightarrow> s)"

text \<open>The loop's first progress, written after the first save without looking at the status.\<close>

definition loop_open :: "string \<Rightarrow> (string, json) dict \<Rightarrow> job_sys \<Rightarrow> job_sys" where
  "loop_open i progress s =
     (case map_of (jy_jobs s) i of
        None \<Rightarrow> s
      | Some r \<Rightarrow> ask_save i (put_job (r\<lparr>sj_progress := progress\<rparr>) s))"

subsection \<open>Cancelling\<close>

text \<open>\<open>cancel_job\<close> on its own record; a job that ended is answered 409.\<close>

definition cancel_record :: "string \<Rightarrow> int \<Rightarrow> job_sys \<Rightarrow> job_sys option" where
  "cancel_record i now s =
     (case map_of (jy_jobs s) i of
        None \<Rightarrow> None
      | Some r \<Rightarrow> if terminal_status (sj_status r) then None
          else Some (ask_save i (put_job (ended_as JobCancelled (error_or ''cancelled by user'' (sj_error r)) now r) s)))"

text \<open>One child of the loop; when the runtime refuses to cancel it, the child is failed without looking at its
  status.\<close>

definition cancel_child :: "int \<Rightarrow> string \<Rightarrow> job_sys \<Rightarrow> job_sys" where
  "cancel_child now c s =
     (case map_of (jy_jobs s) c of
        None \<Rightarrow> s
      | Some r \<Rightarrow> if terminal_status (sj_status r) then s
          else ask_save c (put_job (ended_as JobCancelled (error_or ''cancelled by parent'' (sj_error r)) now r) s))"

definition cancel_child_refused :: "int \<Rightarrow> string \<Rightarrow> string \<Rightarrow> job_sys \<Rightarrow> job_sys option" where
  "cancel_child_refused now msg c s =
     (case map_of (jy_jobs s) c of
        None \<Rightarrow> None
      | Some r \<Rightarrow> if sj_parent r = None then None
          else Some (ask_save c (put_job (ended_as JobFailed (Some (''cancellation failed: '' @ msg)) now r) s)))"

text \<open>The whole handler when no other task runs in between: \<open>refused\<close> says for which children the runtime raises.\<close>

definition cancel_child_in_turn :: "int \<Rightarrow> (string \<Rightarrow> string option) \<Rightarrow> string \<Rightarrow> job_sys \<Rightarrow> job_sys" where
  "cancel_child_in_turn now refused c s =
     (if parent_active c s
      then (case refused c of
              None \<Rightarrow> cancel_child now c s
            | Some msg \<Rightarrow> (case cancel_child_refused now msg c (cancel_child now c s) of
                None \<Rightarrow> cancel_child now c s | Some s' \<Rightarrow> s'))
      else s)"

definition cancel_job :: "int \<Rightarrow> (string \<Rightarrow> string option) \<Rightarrow> string \<Rightarrow> job_sys \<Rightarrow> job_sys option" where
  "cancel_job now refused i s =
     map_option (fold (cancel_child_in_turn now refused) (dict_get (jy_children s) i [])) (cancel_record i now s)"

subsection \<open>Requests, saves and restarts\<close>

text \<open>\<open>get_job_progress\<close>: a progress that changed is kept and saved.\<close>

definition note_progress :: "string \<Rightarrow> (string, json) dict \<Rightarrow> job_sys \<Rightarrow> job_sys option" where
  "note_progress i progress s =
     (case map_of (jy_jobs s) i of
        None \<Rightarrow> None
      | Some r \<Rightarrow> if sj_progress r = progress then Some s else Some (ask_save i (put_job (r\<lparr>sj_progress := progress\<rparr>) s)))"

definition read_job :: "string \<Rightarrow> job_sys \<Rightarrow> job_sys" where
  "read_job i s = s\<lparr>jy_jobs := fst (load_job_record True (jy_jobs s) (jy_archive s) i)\<rparr>"

definition do_save :: "string \<Rightarrow> job_sys \<Rightarrow> job_sys option" where
  "do_save i s =
     (case map_of (jy_jobs s) i of
        None \<Rightarrow> None
      | Some r \<Rightarrow> if i \<in> set (jy_unsaved s)
          then Some (s\<lparr>jy_archive := blob_save (jy_archive s) r, jy_unsaved := remove1 i (jy_unsaved s)\<rparr>) else None)"

text \<open>The shutdown handler, every save of which succeeds.\<close>

definition shutdown :: "string \<Rightarrow> int \<Rightarrow> job_sys \<Rightarrow> job_sys" where
  "shutdown reason now s =
     s\<lparr>jy_jobs := fail_active reason now (jy_jobs s),
       jy_unsaved := jy_unsaved s @ map fst (filter (\<lambda>(i, r). \<not> terminal_status (sj_status r)) (jy_jobs s))\<rparr>"

text \<open>The process stops, with a save it was carrying out cut off, and starts again with nothing in memory.\<close>

definition restart :: "(string \<times> nat) option \<Rightarrow> job_sys \<Rightarrow> job_sys" where
  "restart torn s =
     \<lparr>jy_jobs = [],
      jy_archive = (case torn of
          None \<Rightarrow> jy_archive s
        | Some (i, n) \<Rightarrow> (case map_of (jy_jobs s) i of
            Some r \<Rightarrow> if i \<in> set (jy_unsaved s) then blob_save_upto n (jy_archive s) r else jy_archive s
          | None \<Rightarrow> jy_archive s)),
      jy_unsaved = [], jy_runs = [], jy_children = []\<rparr>"

definition recover :: "recovery_env \<Rightarrow> bool \<Rightarrow> (string \<Rightarrow> fate) \<Rightarrow> job_sys \<Rightarrow> job_sys" where
  "recover e listed fates s = s\<lparr>jy_archive := fst (recover_in_flight_jobs e listed fates (jy_jobs s) (jy_archive s))\<rparr>"

subsection \<open>Events\<close>

datatype job_event =
    Submit stored_job
  | SubmitChild string stored_job
  | FailParent string string int
  | ChildTimeout string "string option" int
  | RunStart string int
  | RunAnswered string run_answer int
  | RunCancelled string int
  | RunRaised string string int
  | RunEnd string json "(string, json) dict"
  | LoopOpen string "(string, json) dict"
  | LoopWrite string "job_status \<times> string option \<times> int option \<times> json option" "(string, json) dict"
  | Cancel string int
  | CancelChild int string
  | CancelChildRefused int string string
  | NoteProgress string "(string, json) dict"
  | ReadJob string
  | DoSave string
  | Shutdown string int
  | Restart "(string \<times> nat) option"
  | Recover recovery_env bool "string \<Rightarrow> fate"

fun do_event :: "job_event \<Rightarrow> job_sys \<Rightarrow> job_sys option" where
  "do_event (Submit r) s = (if legal_id (sj_id r) then submit_job r s else None)"
| "do_event (SubmitChild p r) s = (if legal_id (sj_id r) then submit_child p r s else None)"
| "do_event (FailParent p err now) s = Some (fail_parent p err now s)"
| "do_event (ChildTimeout c failure now) s = child_timeout c failure now s"
| "do_event (RunStart i now) s = run_start i now s"
| "do_event (RunAnswered i a now) s = run_answered i a now s"
| "do_event (RunCancelled i now) s = run_cancelled i now s"
| "do_event (RunRaised i msg now) s = run_raised i msg now s"
| "do_event (RunEnd i rest usage) s = run_end i rest usage s"
| "do_event (LoopOpen i progress) s = Some (loop_open i progress s)"
| "do_event (LoopWrite i w progress) s = Some (loop_write i w progress s)"
| "do_event (Cancel i now) s = cancel_record i now s"
| "do_event (CancelChild now c) s = Some (cancel_child now c s)"
| "do_event (CancelChildRefused now msg c) s = cancel_child_refused now msg c s"
| "do_event (NoteProgress i progress) s = note_progress i progress s"
| "do_event (ReadJob i) s = (if legal_id i then Some (read_job i s) else None)"
| "do_event (DoSave i) s = do_save i s"
| "do_event (Shutdown reason now) s = Some (shutdown reason now s)"
| "do_event (Restart torn) s = Some (restart torn s)"
| "do_event (Recover e listed fates) s = Some (recover e listed fates s)"

fun job_events :: "job_event list \<Rightarrow> job_sys \<Rightarrow> job_sys option" where
  "job_events [] s = Some s"
| "job_events (ev # evs) s = (case do_event ev s of None \<Rightarrow> None | Some s' \<Rightarrow> job_events evs s')"

definition job_sys_init :: "string \<Rightarrow> job_sys" where
  "job_sys_init prefix =
     \<lparr>jy_jobs = [], jy_archive = \<lparr>bl_prefix = prefix, bl_blobs = []\<rparr>, jy_unsaved = [], jy_runs = [], jy_children = []\<rparr>"

end
