(* ===== verification/Job_Recovery_Inv.thy ===== *)
theory Job_Recovery_Inv
  imports Job_Recovery
begin

section \<open>What a recovery pass does to the archive\<close>

text \<open>
  A save that raises leaves a prefix of its writes. Re-saving a record whose parts did not change, a
  prefix either changes nothing, or replaces the record and leaves the index, or is the whole save;
  a pass is then followed job by job.
\<close>

subsection \<open>Prefixes of a save\<close>

text \<open>An archive in which every record is filed under its own id.\<close>

definition archive_ok :: "blob_store \<Rightarrow> bool" where
  "archive_ok s =
     (blob_valid s \<and> (\<forall>i r. legal_id i \<longrightarrow> blob_load s i = Some r \<longrightarrow> sj_id r = i) \<and> list_all (\<lambda>su. legal_id (su_id su)) (blob_rows s))"

definition same_parts :: "stored_job \<Rightarrow> stored_job \<Rightarrow> bool" where
  "same_parts r0 r = (sj_id r = sj_id r0 \<and> sj_inputs r = sj_inputs r0 \<and> sj_progress r = sj_progress r0
     \<and> sj_result r = sj_result r0)"

definition rest_writes :: "blob_store \<Rightarrow> stored_job \<Rightarrow> (string \<times> blob) list" where
  "rest_writes s r = tl (record_writes s r)"

lemma record_writes_split: "record_writes s r = (object_name s (sj_id r), RecordBlob (core_of r)) # rest_writes s r"
  by (simp add: rest_writes_def record_writes_def)

lemma names_prefix:
  "bl_prefix t = bl_prefix s \<Longrightarrow> job_object_name t = job_object_name s \<and> object_name t = object_name s
     \<and> jobs_index_name t = jobs_index_name s \<and> output_index_name t = output_index_name s"
  by (simp add: fun_eq_iff job_object_name_def object_name_def jobs_index_name_def output_index_name_def under_prefix_def)

lemma prefix_put: "bl_prefix (put_blob kb s) = bl_prefix s"
  by (simp add: put_blob_def)

text \<open>Writing a part of a record that the archive has already changes nothing that is read.\<close>

definition shows_same :: "blob_store \<Rightarrow> blob_store \<Rightarrow> bool" where
  "shows_same s t =
     (bl_prefix t = bl_prefix s \<and> (\<forall>i. legal_id i \<longrightarrow> blob_load t i = blob_load s i)
      \<and> (results_owned s \<longrightarrow> results_owned t) \<and> jobs_index t = jobs_index s \<and> outputs_index t = outputs_index s)"

lemma shows_same_refl: "shows_same s s"
  by (simp add: shows_same_def)

lemma shows_same_trans: "shows_same s t \<Longrightarrow> shows_same t u \<Longrightarrow> shows_same s u"
  by (simp add: shows_same_def)

lemma part_index: "jobs_index (put_blob (job_object_name s i f, b) s) = jobs_index s"
  "outputs_index (put_blob (job_object_name s i f, b) s) = outputs_index s"
  by (simp_all add: jobs_index_def outputs_index_def blob_simps)

lemma load_parts:
  "blob_load s i = Some r \<Longrightarrow> dict_at s (job_object_name s i ''inputs.json'') = sj_inputs r
     \<and> dict_at s (job_object_name s i ''progress.json'') = sj_progress r
     \<and> json_at s (job_object_name s i ''result.json'') = sj_result r"
  by (auto simp: blob_load_def assemble_def split: option.splits blob.splits)

lemma part_put_load:
  assumes r: "blob_load s i = Some r" and l: "legal_id i"
  shows "blob_load (put_blob (job_object_name s i ''inputs.json'', JsonBlob (JDict (sj_inputs r))) s) i = Some r"
    and "blob_load (put_blob (job_object_name s i ''progress.json'', JsonBlob (JDict (sj_progress r))) s) i = Some r"
    and "sj_result r = Some v \<Longrightarrow> blob_load (put_blob (job_object_name s i ''result.json'', JsonBlob v) s) i = Some r"
  using load_parts[OF r] r l
  by (simp_all add: blob_load_def dict_at_def json_at_def blob_simps cong: option.case_cong blob.case_cong)

lemma part_write_same:
  assumes r: "blob_load s (sj_id r) = Some r" and l: "legal_id (sj_id r)" and kb: "kb \<in> set (rest_writes s r)"
  shows "shows_same s (put_blob kb s)"
proof -
  obtain f b where f: "kb = (job_object_name s (sj_id r) f, b)" "f \<noteq> ''record.json''"
    and own: "blob_load (put_blob kb s) (sj_id r) = Some r"
    using kb part_put_load[OF r l] by (auto simp: rest_writes_def record_writes_def split: option.splits)
  have load: "blob_load (put_blob kb s) i = blob_load s i" if "legal_id i" for i
    using that l r own f by (cases "i = sj_id r") (simp_all add: load_put_other job_names)
  moreover have "results_owned (put_blob kb s)" if "results_owned s"
    unfolding results_owned_def
  proof (intro allI impI)
    fix i assume i: "legal_id i"
      and "json_at (put_blob kb s) (job_object_name (put_blob kb s) i ''result.json'') \<noteq> None"
    then show "blob_load (put_blob kb s) i \<noteq> None"
      using that r l load[OF i] f
      by (cases "i = sj_id r") (auto simp: results_owned_def json_at_def blob_simps)
  qed
  ultimately show ?thesis by (simp add: shows_same_def prefix_put f part_index)
qed

lemma part_writes_same:
  assumes "blob_load s (sj_id r) = Some r" "legal_id (sj_id r)" "set ws \<subseteq> set (rest_writes s0 r)" "bl_prefix s = bl_prefix s0"
  shows "shows_same s (fold put_blob ws s)"
  using assms
proof (induction ws arbitrary: s)
  case (Cons kb ws)
  have "rest_writes s0 r = rest_writes s r"
    using names_prefix[OF Cons.prems(4)] by (simp add: rest_writes_def record_writes_def split: option.split)
  then have step: "shows_same s (put_blob kb s)" using part_write_same[of s r kb] Cons.prems by auto
  have "shows_same (put_blob kb s) (fold put_blob ws (put_blob kb s))"
    using Cons.prems step by (intro Cons.IH) (simp_all add: shows_same_def prefix_put)
  then show ?case using shows_same_trans[OF step] by simp
qed (simp add: shows_same_refl)

text \<open>What a save may leave: everything as it was, the record without the row of the index, or both.\<close>

definition record_only :: "blob_store \<Rightarrow> stored_job \<Rightarrow> blob_store \<Rightarrow> bool" where
  "record_only s r t =
     (bl_prefix t = bl_prefix s \<and> blob_valid t \<and> jobs_index t = jobs_index s \<and> outputs_index t = outputs_index s
      \<and> (\<forall>i. legal_id i \<longrightarrow> blob_load t i = (if i = sj_id r then Some r else blob_load s i)))"

lemma first_write:
  assumes v: "blob_valid s" and r0: "blob_load s (sj_id r) = Some r0" and same: "same_parts r0 r" and l: "legal_id (sj_id r)"
  shows "record_only s r (put_blob (object_name s (sj_id r), RecordBlob (core_of r)) s)"
proof -
  define t where "t = put_blob (object_name s (sj_id r), RecordBlob (core_of r)) s"
  have own: "blob_load t (sj_id r) = Some r"
    using load_parts[OF r0] same l
    by (simp add: t_def blob_load_def dict_at_def json_at_def blob_simps same_parts_def)
      (simp add: assemble_def core_of_def)
  have other: "blob_load t i = blob_load s i" if "legal_id i" "i \<noteq> sj_id r" for i
    using that l by (simp add: t_def load_put_other job_names)
  have "results_owned t"
    unfolding results_owned_def
  proof (intro allI impI)
    fix i assume i: "legal_id i" and "json_at t (job_object_name t i ''result.json'') \<noteq> None"
    then show "blob_load t i \<noteq> None"
      using v own other[OF i] l by (cases "i = sj_id r") (auto simp: t_def blob_valid_def results_owned_def json_at_def blob_simps)
  qed
  moreover have "jobs_index t = jobs_index s" "outputs_index t = outputs_index s" "bl_prefix t = bl_prefix s"
    by (simp_all add: t_def jobs_index_def outputs_index_def blob_simps prefix_put)
  ultimately show ?thesis using v own other by (simp add: record_only_def blob_valid_def flip: t_def)
qed

lemma save_prefix:
  assumes v: "blob_valid s" and r0: "blob_load s (sj_id r) = Some r0" and same: "same_parts r0 r" and l: "legal_id (sj_id r)"
  shows "blob_save_upto n s r = s \<or> record_only s r (blob_save_upto n s r) \<or> blob_save_upto n s r = blob_save s r"
proof (cases n)
  case 0
  then show ?thesis by (simp add: blob_save_upto_def)
next
  case (Suc k)
  define t where "t = put_blob (object_name s (sj_id r), RecordBlob (core_of r)) s"
  have t: "record_only s r t" using first_write[OF assms] by (simp add: t_def)
  have upto: "blob_save_upto n s r = fold put_blob (take k (rest_writes s r @ [index_write s r])) t"
    by (simp add: blob_save_upto_def blob_writes_def record_writes_split Suc t_def)
  show ?thesis
  proof (cases "k \<le> length (rest_writes s r)")
    case True
    have same': "shows_same t (fold put_blob (take k (rest_writes s r)) t)"
      using t l by (intro part_writes_same[where r = r and ?s0.0 = s]) (auto simp: record_only_def dest: in_set_takeD)
    have "record_only s r (fold put_blob (take k (rest_writes s r)) t)"
      using t same' v by (simp add: record_only_def shows_same_def blob_valid_def)
    then show ?thesis using True by (simp add: upto)
  next
    case False
    then have "blob_save_upto n s r = blob_save s r"
      by (simp add: upto blob_save_def blob_writes_def record_writes_split t_def)
    then show ?thesis by simp
  qed
qed

subsection \<open>A save that may raise\<close>

lemma keep_same: "sj_result r = sj_result r0 \<Longrightarrow> keep_result (Some r0) r = r"
  by (simp add: keep_result_def split: option.split)

lemma row_in_put: "x \<in> set (put_row su ss) \<Longrightarrow> x = su \<or> x \<in> set ss"
  by (induction ss) (auto split: if_splits)

lemma row_put_replaces: "distinct (map su_id ss) \<Longrightarrow> x \<in> set (put_row su ss) \<Longrightarrow> su_id x = su_id su \<Longrightarrow> x = su"
proof (induction ss)
  case (Cons y ss)
  then show ?case by (auto split: if_splits) (metis image_eqI list.set_map)
qed simp

lemma blob_rows_distinct:
  assumes "blob_valid s"
  shows "distinct (map su_id (blob_rows s))"
proof -
  have "blob_rows s = map snd (map (map_prod id the) (jobs_index s))"
    using assms by (simp add: blob_valid_def index_ok_def blob_rows_def index_rows_ok)
  moreover have "rows_keyed (map (map_prod id the) (jobs_index s))" using assms by (simp add: blob_valid_def index_ok_def)
  ultimately show ?thesis using rows_keyed_distinct by metis
qed

lemma archive_okD:
  "archive_ok s \<Longrightarrow> blob_valid s"
  "archive_ok s \<Longrightarrow> legal_id i \<Longrightarrow> blob_load s i = Some r \<Longrightarrow> sj_id r = i"
  "archive_ok s \<Longrightarrow> su \<in> set (blob_rows s) \<Longrightarrow> legal_id (su_id su)"
  by (auto simp: archive_ok_def list_all_iff)

lemma save_fate_effect:
  assumes ok: "archive_ok s" and r0: "blob_load s (sj_id r) = Some r0" and same: "same_parts r0 r" and l: "legal_id (sj_id r)"
    and save: "save_fate w s r = (s', done')"
  shows "archive_ok s'" (is ?ok)
    and "legal_id i \<Longrightarrow> i \<noteq> sj_id r \<Longrightarrow> blob_load s' i = blob_load s i"
    and "blob_load s' (sj_id r) = Some r0 \<or> blob_load s' (sj_id r) = Some r"
    and "blob_rows s' = blob_rows s \<or> blob_rows s' = put_row (summary_of r) (blob_rows s)"
    and "done' \<longleftrightarrow> w = None"
    and "done' \<Longrightarrow> blob_load s' (sj_id r) = Some r \<and> blob_rows s' = put_row (summary_of r) (blob_rows s)"
proof -
  have v: "blob_valid s" using ok by (rule archive_okD)
  have full: "blob_valid (blob_save s r)" "legal_id j \<Longrightarrow> blob_load (blob_save s r) j = (if j = sj_id r then Some r else blob_load s j)"
    "blob_rows (blob_save s r) = put_row (summary_of r) (blob_rows s)" for j
    using blob.valid_save[OF v l] blob.load_save[OF v l] blob.rows_save[OF v l] r0 same
    by (auto simp: keep_same same_parts_def)
  consider (none) "s' = s" "\<not> done'" | (part) "record_only s r s'" "\<not> done'" | (all) "s' = blob_save s r"
    using save save_prefix[OF v r0 same l] by (auto simp: save_fate_def split: option.splits)
  note cases = this
  have rows: "blob_rows s' = blob_rows s \<or> blob_rows s' = put_row (summary_of r) (blob_rows s)"
    by (cases rule: cases) (use full(3) in \<open>auto simp: record_only_def blob_rows_def\<close>)
  have "(\<forall>j. legal_id j \<longrightarrow> blob_load s' j = (if j = sj_id r then Some r else blob_load s j)) \<or> s' = s"
  proof (cases rule: cases)
    case none
    then show ?thesis by simp
  next
    case part
    then show ?thesis by (simp add: record_only_def)
  next
    case all
    then show ?thesis using full(2) by blast
  qed
  note loads = this
  have load: "blob_load s' (sj_id r) = Some r0 \<or> blob_load s' (sj_id r) = Some r"
    using loads by (rule disjE) (simp_all add: r0 l)
  have other: "blob_load s' j = blob_load s j" if "legal_id j" "j \<noteq> sj_id r" for j
    using loads by (rule disjE) (simp_all add: that)
  have valid: "blob_valid s'"
    by (cases rule: cases) (use v full(1) in \<open>auto simp: record_only_def\<close>)
  have named: "sj_id r' = j" if "legal_id j" "blob_load s' j = Some r'" for j r'
  proof (cases "j = sj_id r")
    case True
    have "blob_load s' (sj_id r) = Some r'" using that(2) by (simp only: True)
    then have "r' = r0 \<or> r' = r" using load by (metis option.inject)
    then show ?thesis using same True by (auto simp only: same_parts_def)
  next
    case False
    then show ?thesis using archive_okD(2)[OF ok that(1)] other[OF that(1)] that(2) by metis
  qed
  have "list_all (\<lambda>su. legal_id (su_id su)) (blob_rows s')"
    using rows ok l by (auto simp: archive_ok_def list_all_iff dest!: row_in_put)
  then show ?ok using valid named by (auto simp: archive_ok_def)
  show "legal_id i \<Longrightarrow> i \<noteq> sj_id r \<Longrightarrow> blob_load s' i = blob_load s i" by (rule other)
  show "blob_load s' (sj_id r) = Some r0 \<or> blob_load s' (sj_id r) = Some r" by (rule load)
  show "blob_rows s' = blob_rows s \<or> blob_rows s' = put_row (summary_of r) (blob_rows s)" by (rule rows)
  show d: "done' \<longleftrightarrow> w = None" using save by (auto simp: save_fate_def split: option.splits)
  show "blob_load s' (sj_id r) = Some r \<and> blob_rows s' = put_row (summary_of r) (blob_rows s)" if done'
  proof -
    have "s' = blob_save s r" using that save d by (simp add: save_fate_def)
    then show ?thesis using full(2)[OF l] full(3) by simp
  qed
qed

subsection \<open>One candidate\<close>

text \<open>A job the pass does not touch: it is in memory, has no record or none that is rebuilt, or was submitted
  too late.\<close>

definition excused ::
  "recovery_env \<Rightarrow> (string \<Rightarrow> fate) \<Rightarrow> (string, stored_job) dict \<Rightarrow> blob_store \<Rightarrow> string \<Rightarrow> bool" where
  "excused e fates jobs s i =
     (i \<in> fst ` set jobs
      \<or> (case blob_load s i of None \<Rightarrow> True | Some r \<Rightarrow> \<not> ft_rebuilds (fates i) \<or> too_late e r))"

text \<open>What a pass may make of a job's record.\<close>

definition recovered ::
  "recovery_env \<Rightarrow> (string, stored_job) dict \<Rightarrow> string \<Rightarrow> stored_job option \<Rightarrow> stored_job option \<Rightarrow> bool" where
  "recovered e jobs i old new =
     (case old of
        None \<Rightarrow> new = None
      | Some r \<Rightarrow> new = Some r \<or>
          (new = Some (fail_record (re_reason e) (re_now e) r) \<and> \<not> terminal_status (sj_status r)
           \<and> \<not> too_late e r \<and> i \<notin> fst ` set jobs))"

lemma recovered_refl: "recovered e jobs i old old"
  by (simp add: recovered_def split: option.split)

lemma fail_record_parts: "same_parts r (fail_record reason now r)"
  by (simp add: same_parts_def fail_record_def)

lemma fail_record_terminal: "terminal_status (sj_status (fail_record reason now r))"
  by (simp add: fail_record_def terminal_status_def)

lemma su_status_summary [simp]: "su_status (summary_of r) = sj_status r"
  by (simp add: summary_of_def)

definition failing :: "fate \<Rightarrow> bool" where
  "failing f = (\<not> ft_loads f \<or> ft_writes f \<noteq> None)"

lemma recover_one_cases:
  obtains
    (keep) "recover_one e fates jobs rc su = rc" "excused e fates jobs (rc_store rc) (su_id su)"
  | (lost) "recover_one e fates jobs rc su = unreached (su_id su) rc" "failing (fates (su_id su))"
  | (repair) r s' d where "blob_load (rc_store rc) (su_id su) = Some r" "terminal_status (sj_status r)"
      "save_fate (ft_writes (fates (su_id su))) (rc_store rc) r = (s', d)"
      "recover_one e fates jobs rc su = (if d then rc\<lparr>rc_store := s', rc_repaired := rc_repaired rc + 1\<rparr>
         else unreached (su_id su) (rc\<lparr>rc_store := s'\<rparr>))"
  | (failed) r s' d where "blob_load (rc_store rc) (su_id su) = Some r" "\<not> terminal_status (sj_status r)"
      "\<not> too_late e r" "su_id su \<notin> fst ` set jobs"
      "save_fate (ft_writes (fates (su_id su))) (rc_store rc) (fail_record (re_reason e) (re_now e) r) = (s', d)"
      "recover_one e fates jobs rc su = (if d then rc\<lparr>rc_store := s', rc_affected := rc_affected rc + 1\<rparr>
         else unreached (su_id su) (rc\<lparr>rc_store := s'\<rparr>))"
proof (cases "su_id su \<in> fst ` set jobs \<or> \<not> ft_loads (fates (su_id su))")
  case True
  then show ?thesis
    using keep lost by (cases "su_id su \<in> fst ` set jobs") (simp_all add: recover_one_def excused_def failing_def Let_def)
next
  case False
  note here = this
  show ?thesis
  proof (cases "blob_load (rc_store rc) (su_id su)")
    case None
    then show ?thesis using keep here by (simp add: recover_one_def excused_def Let_def)
  next
    case (Some r)
    show ?thesis
    proof (cases "ft_rebuilds (fates (su_id su)) \<and> \<not> too_late e r")
      case False
      then show ?thesis using keep here Some by (auto simp: recover_one_def excused_def Let_def)
    next
      case True
      show ?thesis
      proof (cases "terminal_status (sj_status r)")
        case t: True
        obtain s' d where "save_fate (ft_writes (fates (su_id su))) (rc_store rc) r = (s', d)" by fastforce
        then show ?thesis
          using repair[OF Some t] here Some True t by (cases d) (simp_all add: recover_one_def active_iff Let_def)
      next
        case t: False
        obtain s' d where
          "save_fate (ft_writes (fates (su_id su))) (rc_store rc) (fail_record (re_reason e) (re_now e) r) = (s', d)"
          by fastforce
        then show ?thesis
          using failed[OF Some t] here Some True t by (cases d) (simp_all add: recover_one_def active_iff Let_def)
      qed
    qed
  qed
qed

text \<open>The effect on the candidate's own record, row and counters, and on everything else.\<close>

definition handled ::
  "recovery_env \<Rightarrow> (string \<Rightarrow> fate) \<Rightarrow> (string, stored_job) dict \<Rightarrow> job_summary \<Rightarrow> recovery \<Rightarrow> recovery \<Rightarrow> bool" where
  "handled e fates jobs su rc rc' =
     (archive_ok (rc_store rc')
      \<and> (\<forall>i. legal_id i \<longrightarrow> i \<noteq> su_id su \<longrightarrow> blob_load (rc_store rc') i = blob_load (rc_store rc) i)
      \<and> recovered e jobs (su_id su) (blob_load (rc_store rc) (su_id su)) (blob_load (rc_store rc') (su_id su))
      \<and> (\<forall>x\<in>set (blob_rows (rc_store rc')). x \<in> set (blob_rows (rc_store rc)) \<or> su_id x = su_id su)
      \<and> (rc_unreachable rc' = rc_unreachable rc @ [su_id su] \<and> failing (fates (su_id su))
         \<or> rc_unreachable rc' = rc_unreachable rc
           \<and> (\<forall>x\<in>set (blob_rows (rc_store rc')). su_id x = su_id su \<longrightarrow>
                terminal_status (su_status x) \<or> excused e fates jobs (rc_store rc) (su_id su))
           \<and> rc_affected rc' = rc_affected rc +
               (if blob_load (rc_store rc') (su_id su) = blob_load (rc_store rc) (su_id su) then 0 else 1)))"

lemma saved_handled:
  assumes ok: "archive_ok (rc_store rc)" and l: "legal_id (su_id su)" and r0: "blob_load (rc_store rc) (su_id su) = Some r0"
    and same: "same_parts r0 r" and t: "terminal_status (sj_status r)"
    and rec: "recovered e jobs (su_id su) (Some r0) (Some r)"
    and save: "save_fate (ft_writes (fates (su_id su))) (rc_store rc) r = (s', d)"
    and rc': "rc_store rc' = s'" "if d then rc_unreachable rc' = rc_unreachable rc
         \<and> rc_affected rc' = rc_affected rc + (if r = r0 then 0 else 1)
       else rc_unreachable rc' = rc_unreachable rc @ [su_id su]"
  shows "handled e fates jobs su rc rc'"
proof -
  have id: "sj_id r0 = su_id su" using archive_okD(2)[OF ok l r0] .
  then have rid: "sj_id r = su_id su" using same by (simp add: same_parts_def)
  note eff = save_fate_effect[OF ok, of r r0 _ s' d, unfolded rid, OF r0 same l save]
  have rows: "x \<in> set (blob_rows s') \<Longrightarrow> x \<in> set (blob_rows (rc_store rc)) \<or> su_id x = su_id su" for x
    using eff(4) rid row_in_put[of x "summary_of r" "blob_rows (rc_store rc)"] by auto
  have ended: "terminal_status (su_status x)" if d "x \<in> set (blob_rows s')" "su_id x = su_id su" for x
    using row_put_replaces[OF blob_rows_distinct[OF archive_okD(1)[OF ok]], of x "summary_of r"] eff(6)[OF that(1)] that rid t
    by auto
  have fails: "\<not> d \<Longrightarrow> failing (fates (su_id su))" using eff(5) by (simp add: failing_def)
  have new: "recovered e jobs (su_id su) (Some r0) (blob_load s' (su_id su))"
    using eff(3) by (rule disjE) (simp_all add: rec recovered_refl)
  show ?thesis
    unfolding handled_def rc'(1) r0
    using eff(1,2,6) rows ended fails new rc'(2) by (cases d) auto
qed

lemma recover_one_handled:
  assumes ok: "archive_ok (rc_store rc)" and l: "legal_id (su_id su)"
  shows "handled e fates jobs su rc (recover_one e fates jobs rc su)"
proof (cases rule: recover_one_cases[of e fates jobs rc su])
  case keep
  then show ?thesis using ok by (simp add: handled_def recovered_refl)
next
  case lost
  then show ?thesis using ok by (simp add: handled_def recovered_refl unreached_def)
next
  case (repair r s' d)
  then show ?thesis
    using ok l by (intro saved_handled[where ?r0.0 = r and r = r and s' = s' and d = d])
      (simp_all add: same_parts_def recovered_refl unreached_def)
next
  case (failed r s' d)
  have "(fail_record (re_reason e) (re_now e) r = r) = False"
    using failed(2) fail_record_terminal by metis
  note changed = this
  show ?thesis
    using ok l failed by (intro saved_handled[where ?r0.0 = r and s' = s' and d = d])
      (simp_all add: fail_record_parts fail_record_terminal recovered_def unreached_def changed)+
qed

subsection \<open>A pass\<close>

text \<open>What holds of the pass after the candidates \<open>cs\<close>, from the archive \<open>s\<close>.\<close>

definition pass_inv ::
  "recovery_env \<Rightarrow> (string \<Rightarrow> fate) \<Rightarrow> (string, stored_job) dict \<Rightarrow> blob_store \<Rightarrow> string list \<Rightarrow> recovery \<Rightarrow> bool" where
  "pass_inv e fates jobs s cs rc =
     (archive_ok (rc_store rc)
      \<and> (\<forall>i. legal_id i \<longrightarrow> i \<notin> set cs \<longrightarrow> blob_load (rc_store rc) i = blob_load s i)
      \<and> (\<forall>i\<in>set cs. recovered e jobs i (blob_load s i) (blob_load (rc_store rc) i))
      \<and> (\<forall>x\<in>set (blob_rows (rc_store rc)). x \<in> set (blob_rows s) \<or> su_id x \<in> set cs)
      \<and> set (rc_unreachable rc) \<subseteq> {i \<in> set cs. failing (fates i)}
      \<and> (rc_unreachable rc = [] \<longrightarrow>
           (\<forall>x\<in>set (blob_rows (rc_store rc)). su_id x \<in> set cs \<longrightarrow>
              terminal_status (su_status x) \<or> excused e fates jobs s (su_id x))
           \<and> rc_affected rc = length (filter (\<lambda>i. blob_load (rc_store rc) i \<noteq> blob_load s i) cs)))"

lemma excused_same: "blob_load s' i = blob_load s i \<Longrightarrow> excused e fates jobs s' i = excused e fates jobs s i"
  by (simp add: excused_def)

lemma handledD:
  assumes "handled e fates jobs su rc rc'"
  shows "archive_ok (rc_store rc')"
    and "legal_id i \<Longrightarrow> i \<noteq> su_id su \<Longrightarrow> blob_load (rc_store rc') i = blob_load (rc_store rc) i"
    and "recovered e jobs (su_id su) (blob_load (rc_store rc) (su_id su)) (blob_load (rc_store rc') (su_id su))"
    and "x \<in> set (blob_rows (rc_store rc')) \<Longrightarrow> x \<in> set (blob_rows (rc_store rc)) \<or> su_id x = su_id su"
    and "set (rc_unreachable rc') \<subseteq> set (rc_unreachable rc) \<union> {i. i = su_id su \<and> failing (fates i)}"
    and "rc_unreachable rc' = [] \<Longrightarrow> rc_unreachable rc = []"
    and "rc_unreachable rc' = [] \<Longrightarrow> x \<in> set (blob_rows (rc_store rc')) \<Longrightarrow> su_id x = su_id su \<Longrightarrow>
      terminal_status (su_status x) \<or> excused e fates jobs (rc_store rc) (su_id su)"
    and "rc_unreachable rc' = [] \<Longrightarrow> rc_affected rc' = rc_affected rc +
      (if blob_load (rc_store rc') (su_id su) = blob_load (rc_store rc) (su_id su) then 0 else 1)"
  using assms unfolding handled_def by auto

lemma pass_step:
  assumes inv: "pass_inv e fates jobs s cs rc" and l: "\<forall>i\<in>set cs. legal_id i" "legal_id (su_id su)" and new: "su_id su \<notin> set cs"
  shows "pass_inv e fates jobs s (cs @ [su_id su]) (recover_one e fates jobs rc su)"
proof -
  define rc' where "rc' = recover_one e fates jobs rc su"
  have "archive_ok (rc_store rc)" using inv by (simp add: pass_inv_def)
  from recover_one_handled[OF this l(2), of e fates jobs]
  have h: "handled e fates jobs su rc rc'" by (simp add: rc'_def)
  have before: "blob_load (rc_store rc) (su_id su) = blob_load s (su_id su)" using inv l(2) new by (simp add: pass_inv_def)
  have loads: "blob_load (rc_store rc') i = blob_load (rc_store rc) i" if "i \<in> set cs" for i
    using handledD(2)[OF h] that l(1) new by metis
  have rows: "x \<in> set (blob_rows s) \<or> su_id x \<in> set (cs @ [su_id su])" if "x \<in> set (blob_rows (rc_store rc'))" for x
    using handledD(4)[OF h that] inv by (auto simp: pass_inv_def)
  have settled: "terminal_status (su_status x) \<or> excused e fates jobs s (su_id x)"
    if "rc_unreachable rc' = []" "x \<in> set (blob_rows (rc_store rc'))" "su_id x \<in> set (cs @ [su_id su])" for x
  proof (cases "su_id x = su_id su")
    case True
    then show ?thesis using handledD(7)[OF h that(1,2)] excused_same[OF before, of e fates jobs] by simp
  next
    case False
    then show ?thesis
      using handledD(4)[OF h that(2)] handledD(6)[OF h that(1)] that(3) inv by (auto simp: pass_inv_def)
  qed
  have count: "rc_affected rc' = length (filter (\<lambda>i. blob_load (rc_store rc') i \<noteq> blob_load s i) (cs @ [su_id su]))"
    if "rc_unreachable rc' = []"
  proof -
    have "filter (\<lambda>i. blob_load (rc_store rc') i \<noteq> blob_load s i) cs = filter (\<lambda>i. blob_load (rc_store rc) i \<noteq> blob_load s i) cs"
      using loads by (auto intro: filter_cong)
    then show ?thesis
      using handledD(6)[OF h that] handledD(8)[OF h that] inv before by (simp add: pass_inv_def)
  qed
  have "set (rc_unreachable rc') \<subseteq> {i \<in> set (cs @ [su_id su]). failing (fates i)}"
    using handledD(5)[OF h] inv by (auto simp: pass_inv_def)
  moreover have "\<forall>i\<in>set (cs @ [su_id su]). recovered e jobs i (blob_load s i) (blob_load (rc_store rc') i)"
    using handledD(3)[OF h] inv before loads by (auto simp: pass_inv_def)
  moreover have "\<forall>i. legal_id i \<longrightarrow> i \<notin> set (cs @ [su_id su]) \<longrightarrow> blob_load (rc_store rc') i = blob_load s i"
    using handledD(2)[OF h] inv by (simp add: pass_inv_def)
  ultimately show ?thesis
    unfolding pass_inv_def rc'_def[symmetric] using handledD(1)[OF h] rows settled count by blast
qed

lemma pass_fold:
  assumes "pass_inv e fates jobs s cs rc" "\<forall>i\<in>set cs. legal_id i" "\<forall>su\<in>set sus. legal_id (su_id su)"
    "distinct (cs @ map su_id sus)"
  shows "pass_inv e fates jobs s (cs @ map su_id sus) (foldl (recover_one e fates jobs) rc sus)"
  using assms
proof (induction sus arbitrary: cs rc)
  case (Cons su sus)
  have "pass_inv e fates jobs s (cs @ [su_id su]) (recover_one e fates jobs rc su)"
    using Cons.prems by (intro pass_step) auto
  then show ?case using Cons.IH[of "cs @ [su_id su]"] Cons.prems by simp
qed simp

lemma pass_start: "archive_ok s \<Longrightarrow>
    pass_inv e fates jobs s [] \<lparr>rc_store = s, rc_affected = 0, rc_repaired = 0, rc_unreachable = []\<rparr>"
  by (simp add: pass_inv_def)

text \<open>The jobs a pass looks at.\<close>

definition candidates :: "blob_store \<Rightarrow> string list" where
  "candidates s = map su_id (blob_iter s (Some active_statuses))"

lemma pass_result:
  assumes ok: "archive_ok s"
  shows "pass_inv e fates jobs s (candidates s)
    (foldl (recover_one e fates jobs) \<lparr>rc_store = s, rc_affected = 0, rc_repaired = 0, rc_unreachable = []\<rparr>
      (blob_iter s (Some active_statuses)))"
proof -
  have rows: "blob_iter s (Some active_statuses) = filter (\<lambda>su. su_status su \<in> set active_statuses) (blob_rows s)"
    by (simp add: blob_iter_def select_statuses_def blob_rows_def)
  have "distinct (candidates s)"
    using blob_rows_distinct[OF archive_okD(1)[OF ok]] by (auto simp: candidates_def rows distinct_map inj_on_def)
  moreover have "\<forall>su\<in>set (blob_iter s (Some active_statuses)). legal_id (su_id su)"
    using archive_okD(3)[OF ok] by (simp add: rows)
  ultimately show ?thesis
    using pass_fold[OF pass_start[OF ok, of e fates jobs], of "blob_iter s (Some active_statuses)"]
    by (simp add: candidates_def)
qed

end
