(* ===== verification/Job_Storage_Props.thy ===== *)
theory Job_Storage_Props
  imports Job_Storage_Blobs
begin

section \<open>What the archive promises\<close>

text \<open>
  From the same calls every backend shows the same jobs, listings, owners of locations and artifacts:
  those of the abstract archive. The lemmas at the end state where the backends differ: an empty set
  of statuses, a listing before the first page, retention, and reservations of two jobs at once.
\<close>

definition empty_archive :: archive where
  "empty_archive = \<lparr>ar_load = Map.empty, ar_rows = [], ar_owner = Map.empty, ar_artifact = (\<lambda>_. Map.empty)\<rparr>"

definition ar_calls :: "archive_op list \<Rightarrow> archive \<times> bool list" where
  "ar_calls cs = archive_calls ar_call empty_archive cs"

definition mem_calls :: "archive_op list \<Rightarrow> mem_store \<times> bool list" where
  "mem_calls cs = archive_calls (archive_call mem_save mem_reserve mem_release mem_save_artifact) mem_init cs"

definition blob_init :: "string \<Rightarrow> blob_store" where
  "blob_init prefix = \<lparr>bl_prefix = prefix, bl_blobs = []\<rparr>"

definition blob_calls :: "string \<Rightarrow> archive_op list \<Rightarrow> blob_store \<times> bool list" where
  "blob_calls prefix cs =
     archive_calls (archive_call blob_save blob_reserve blob_release blob_save_artifact) (blob_init prefix) cs"

definition sql_calls :: "prune_clock \<Rightarrow> string \<Rightarrow> archive_op list \<Rightarrow> sql_store \<times> bool list" where
  "sql_calls c prefix cs =
     archive_calls (archive_call (sql_save c) sql_reserve sql_release sql_save_artifact) (sql_open (blob_init prefix)) cs"

lemma index_init: "jobs_index (blob_init prefix) = []" "outputs_index (blob_init prefix) = []"
  by (simp_all add: blob_init_def jobs_index_def outputs_index_def)

lemma blob_init_valid: "blob_valid (blob_init prefix)"
  by (simp add: blob_valid_def index_init index_ok_def rows_keyed_def owners_legal_changes results_owned_def json_at_def)
    (simp add: blob_init_def)

lemma blob_init_empty: "blob_load (blob_init prefix) i = None" "blob_get_artifact (blob_init prefix) i = Map.empty"
  by (simp_all add: blob_load_def blob_get_artifact_def blob_init_def fun_eq_iff)

lemma blob_init_shown: "blob_shown (blob_init prefix) = empty_archive"
  by (simp add: blob_shown_def blob_rows_def blob_holder_def index_init index_rows_def List.map_filter_def
      empty_archive_def fun_eq_iff blob_init_empty)

lemma sql_open_init: "sql_open (blob_init prefix) = \<lparr>sq_blobs = blob_init prefix, sq_rows = [], sq_outputs = [], sq_last_prune = None\<rparr>"
  by (simp add: sql_open_def backfill_def index_init index_rows_def List.map_filter_def)

lemma sql_init_valid: "sql_valid (sql_open (blob_init prefix))"
  using blob_init_valid[of prefix]
  by (simp add: sql_valid_def sql_open_init blob_valid_def rows_keyed_def owners_legal_changes)

lemma sql_init_shown: "sql_shown (sql_open (blob_init prefix)) = empty_archive"
  by (simp add: sql_shown_def sql_open_init sql_load_def sql_get_artifact_def sql_table_def sql_holder_def
      blob_init_empty empty_archive_def fun_eq_iff)

lemma mem_init_valid: "mem_valid mem_init"
  by (simp add: mem_valid_def mem_init_def rows_keyed_def owners_legal_changes)

lemma mem_init_shown: "mem_shown mem_init = empty_archive"
  by (simp add: mem_shown_def mem_init_def mem_load_def mem_rows_def mem_holder_def mem_get_artifact_def
      empty_archive_def dict_get_def fun_eq_iff)

lemma backends_refine:
  assumes "list_all legal_op cs" "pc_days c \<le> 0"
  shows "mem_shown (fst (mem_calls cs)) = fst (ar_calls cs) \<and> snd (mem_calls cs) = snd (ar_calls cs)"
    and "blob_valid (fst (blob_calls prefix cs)) \<and> blob_shown (fst (blob_calls prefix cs)) = fst (ar_calls cs)
      \<and> snd (blob_calls prefix cs) = snd (ar_calls cs)"
    and "sql_valid (fst (sql_calls c prefix cs)) \<and> sql_shown (fst (sql_calls c prefix cs)) = fst (ar_calls cs)
      \<and> snd (sql_calls c prefix cs) = snd (ar_calls cs)"
  using mem.calls_refine[OF mem_init_valid assms(1)] blob.calls_refine[OF blob_init_valid[of prefix] assms(1)]
    sql.calls_refine[OF sql_init_valid[of prefix] assms(1)]
  by (simp_all add: ar_calls_def mem_calls_def blob_calls_def sql_calls_def mem_init_shown blob_init_shown
      sql_init_shown sql_save_no_prune[OF assms(2)])

subsection \<open>Listings\<close>

lemma sort_rev_distinct: "distinct (map f xs) \<Longrightarrow> sort_key f (rev xs) = sort_key f xs"
  by (intro sort_key_inj_key_eq) (simp_all add: distinct_map)

lemma sql_order_sorts:
  assumes "distinct (map su_id xs)"
  shows "sql_order xs = sort_summaries xs"
proof -
  have "distinct (map (\<lambda>s. (su_submitted s, su_id s)) xs)"
    using assms by (auto simp: distinct_map inj_on_def)
  then show ?thesis by (simp add: sql_order_def sort_summaries_def sort_rev_distinct)
qed

lemma sql_where_visible: "sql_where q = summary_visible q"
  by (auto simp: sql_where_def summary_visible_def fun_eq_iff split: option.split)

lemma sql_page:
  "1 \<le> page \<Longrightarrow> 0 \<le> per \<Longrightarrow>
     (take (nat per) (drop (nat (max (page - 1) 0 * per)) xs), length xs) = page_of page per xs"
proof -
  assume *: "1 \<le> page" "0 \<le> per"
  define a where "a = nat ((page - 1) * per)"
  have a: "(page - 1) * per = int a" using * by (simp add: a_def)
  obtain p where p: "per = int p" using *(2) nonneg_int_cases by blast
  have "py_slice (int a) (int a + int p) xs = take p (drop a xs)"
    by (simp add: py_slice_def slice_bound_def Let_def nat_add_distrib min_def)
  then show ?thesis using * by (simp add: page_of_def a p a_def)
qed

definition ar_list :: "archive \<Rightarrow> listing \<Rightarrow> int \<Rightarrow> int \<Rightarrow> job_summary list \<times> nat" where
  "ar_list a q page per = page_of page per (sort_summaries (filter_summaries q (ar_rows a)))"

lemma sql_lists:
  assumes "sql_valid s" "1 \<le> page" "0 \<le> per"
  shows "sql_list s q page per = ar_list (sql_shown s) q page per"
proof -
  define xs where "xs = filter_summaries q (map snd (sq_rows s))"
  have "distinct (map su_id (map snd (sq_rows s)))"
    using assms(1) by (subst rows_keyed_ids) (simp_all add: sql_valid_def rows_keyed_def)
  then have "distinct (map su_id xs)" by (auto simp: xs_def filter_summaries_def distinct_map inj_on_def)
  then show ?thesis
    using sql_page[OF assms(2,3), of "sort_summaries xs"]
    by (simp add: sql_list_def Let_def sql_where_visible ar_list_def sql_shown_def sql_table_def sql_order_sorts
        flip: filter_summaries_def xs_def) (simp add: sort_summaries_def)
qed

lemma mem_seen:
  "legal_id i \<Longrightarrow> mem_load s i = ar_load (mem_shown s) i"
  "legal_id i \<Longrightarrow> mem_get_artifact s i = ar_artifact (mem_shown s) i"
  "mem_list s q page per = ar_list (mem_shown s) q page per"
  "mem_iter s sts = select_statuses sts (ar_rows (mem_shown s))"
  by (simp_all add: mem_shown_def mem_list_def ar_list_def mem_iter_def mem_rows_def)

lemma blob_seen:
  "legal_id i \<Longrightarrow> blob_load s i = ar_load (blob_shown s) i"
  "legal_id i \<Longrightarrow> blob_get_artifact s i = ar_artifact (blob_shown s) i"
  "blob_list s q page per = ar_list (blob_shown s) q page per"
  "blob_iter s sts = select_statuses sts (ar_rows (blob_shown s))"
  by (simp_all add: blob_shown_def blob_list_def ar_list_def blob_iter_def blob_rows_def)

lemma sql_seen:
  "legal_id i \<Longrightarrow> sql_load s i = ar_load (sql_shown s) i"
  "legal_id i \<Longrightarrow> sql_get_artifact s i = ar_artifact (sql_shown s) i"
  "sts \<noteq> Some [] \<Longrightarrow> sql_iter s sts = select_statuses sts (ar_rows (sql_shown s))"
  subgoal by (simp add: sql_shown_def)
  subgoal by (simp add: sql_shown_def)
  subgoal
  proof (cases sts)
    case (Some xs)
    moreover assume "sts \<noteq> Some []"
    ultimately show ?thesis
      by (cases xs) (simp_all add: sql_shown_def sql_iter_def sql_table_def select_statuses_def)
  qed (simp add: sql_shown_def sql_iter_def sql_table_def select_statuses_def)
  done

text \<open>C6. The three backends of the archive implement one abstract archive: after the same sequence of saves,
  reservations, releases and artifacts, with job ids that hold no slash and no retention, the same
  reservations were refused; each backend loads the same record of every job (the last one saved, with
  the last result that was saved), has the same artifacts, and answers every listing from the first
  page on with the same summaries, newest first, and the same total, and every iteration with the same
  summaries except for SQLite's empty set of statuses.\<close>

theorem storage_backends_agree:
  assumes "list_all legal_op cs" "pc_days c \<le> 0"
  shows "(snd (mem_calls cs) = snd (ar_calls cs) \<and> snd (blob_calls prefix cs) = snd (ar_calls cs)
      \<and> snd (sql_calls c prefix cs) = snd (ar_calls cs))
    \<and> (\<forall>i. legal_id i \<longrightarrow>
        mem_load (fst (mem_calls cs)) i = ar_load (fst (ar_calls cs)) i
        \<and> blob_load (fst (blob_calls prefix cs)) i = ar_load (fst (ar_calls cs)) i
        \<and> sql_load (fst (sql_calls c prefix cs)) i = ar_load (fst (ar_calls cs)) i
        \<and> mem_get_artifact (fst (mem_calls cs)) i = ar_artifact (fst (ar_calls cs)) i
        \<and> blob_get_artifact (fst (blob_calls prefix cs)) i = ar_artifact (fst (ar_calls cs)) i
        \<and> sql_get_artifact (fst (sql_calls c prefix cs)) i = ar_artifact (fst (ar_calls cs)) i)
    \<and> (\<forall>q page per.
        mem_list (fst (mem_calls cs)) q page per = ar_list (fst (ar_calls cs)) q page per
        \<and> blob_list (fst (blob_calls prefix cs)) q page per = ar_list (fst (ar_calls cs)) q page per
        \<and> (1 \<le> page \<longrightarrow> 0 \<le> per \<longrightarrow>
            sql_list (fst (sql_calls c prefix cs)) q page per = ar_list (fst (ar_calls cs)) q page per))
    \<and> (\<forall>sts.
        mem_iter (fst (mem_calls cs)) sts = select_statuses sts (ar_rows (fst (ar_calls cs)))
        \<and> blob_iter (fst (blob_calls prefix cs)) sts = select_statuses sts (ar_rows (fst (ar_calls cs)))
        \<and> (sts \<noteq> Some [] \<longrightarrow>
            sql_iter (fst (sql_calls c prefix cs)) sts = select_statuses sts (ar_rows (fst (ar_calls cs)))))"
proof -
  note refine = backends_refine[OF assms]
  show ?thesis
    using refine(1) refine(2)[of prefix] refine(3)[of prefix]
    by (simp add: mem_seen blob_seen sql_seen sql_lists)
qed

definition demo_stored :: "string \<Rightarrow> job_status \<Rightarrow> json option \<Rightarrow> stored_job" where
  "demo_stored i st res = \<lparr>sj_id = i, sj_org = ''org'', sj_user = ''u'', sj_status = st, sj_submitted = 7,
     sj_started = None, sj_finished = None, sj_seconds = (None, None, None), sj_error = None, sj_parent = None,
     sj_rest = JNull, sj_inputs = [(''q'', JStr ''x'')], sj_progress = [], sj_result = res\<rparr>"

definition demo_calls :: "archive_op list" where
  "demo_calls = [SaveJob (demo_stored ''a'' JobPending None), SaveJob (demo_stored ''b'' JobPending None),
     Reserve ''out'' ''a'', Reserve ''out'' ''b'', SaveJob (demo_stored ''a'' JobCompleted (Some (JInt 1))),
     Reserve ''out'' ''b'', SaveArtifact ''b'' ''f.png'' ''data'', Release ''out'' ''a'']"

lemma demo_calls_facts:
  "list_all legal_op demo_calls" "snd (ar_calls demo_calls) = [True, True, True, False, True, True, True, True]"
  "ar_load (fst (ar_calls demo_calls)) ''a'' = Some (demo_stored ''a'' JobCompleted (Some (JInt 1)))"
  "map su_id (ar_rows (fst (ar_calls demo_calls))) = [''a'', ''b'']"
  by (simp_all add: demo_calls_def demo_stored_def legal_id_def ar_calls_def empty_archive_def ar_save_def ar_reserve_def
      ar_blocked_def ar_put_def ar_release_def keep_result_def summary_of_def)

theorem storage_backends_agree_witness:
  "blob_load (fst (blob_calls ''arch'' demo_calls)) ''a'' = Some (demo_stored ''a'' JobCompleted (Some (JInt 1)))
   \<and> snd (sql_calls no_prune ''arch'' demo_calls) = [True, True, True, False, True, True, True, True]
   \<and> map su_id (mem_iter (fst (mem_calls demo_calls)) None) = [''a'', ''b'']"
proof -
  have days: "pc_days no_prune \<le> 0" and legal: "legal_id ''a''" by (simp_all add: no_prune_def legal_id_def)
  show ?thesis
    using storage_backends_agree[OF demo_calls_facts(1) days, of "''arch''"] legal
    by (simp add: demo_calls_facts select_statuses_def)
qed

subsection \<open>Moving to SQLite\<close>

text \<open>A SQLite archive opened over the blobs of an existing one takes over what that one shows.\<close>

lemma update_fresh: "k \<notin> fst ` set d \<Longrightarrow> AList.update k v d = d @ [(k, v)]"
  by (induction d) auto

lemma fold_update_rows:
  "distinct (map fst (acc @ d)) \<Longrightarrow> \<forall>(i, r)\<in>set d. su_id r = i \<Longrightarrow>
     fold (\<lambda>r rows. AList.update (su_id r) r rows) (map snd d) acc = acc @ d"
proof (induction d arbitrary: acc)
  case (Cons kv d)
  obtain i r where kv: "kv = (i, r)" "su_id r = i" using Cons.prems(2) by (cases kv) auto
  have "AList.update i r acc = acc @ [(i, r)]" using Cons.prems(1) by (intro update_fresh) (auto simp: kv)
  then show ?case using Cons.IH[of "acc @ [(i, r)]"] Cons.prems by (simp add: kv)
qed simp

lemma fold_update_outputs:
  "distinct (map fst (acc @ d)) \<Longrightarrow> fold (\<lambda>(l, j) outs. AList.update l j outs) d acc = acc @ d"
proof (induction d arbitrary: acc)
  case (Cons kv d)
  obtain l j where kv: "kv = (l, j)" by (cases kv)
  have "AList.update l j acc = acc @ [(l, j)]" using Cons.prems by (intro update_fresh) (auto simp: kv)
  then show ?case using Cons.IH[of "acc @ [(l, j)]"] Cons.prems by (simp add: kv)
qed simp

lemma migration_keeps_archive:
  assumes "blob_valid b"
  shows "sql_valid (sql_open b) \<and> sql_shown (sql_open b) = blob_shown b"
proof -
  define ix where "ix = map (map_prod id the) (jobs_index b)"
  have ix: "index_rows (jobs_index b) = map snd ix" "rows_keyed ix"
    using assms by (simp_all add: blob_valid_def index_ok_def index_rows_ok ix_def)
  have rows: "fold (\<lambda>r rows. AList.update (su_id r) r rows) (map snd ix) [] = ix"
    using fold_update_rows[of "[]" ix] ix(2) by (simp add: rows_keyed_def)
  have outs: "fold (\<lambda>(l, j) outs. AList.update l j outs) (outputs_index b) [] = outputs_index b"
    using fold_update_outputs[of "[]" "outputs_index b"] assms by (simp add: blob_valid_def)
  have "sql_open b = \<lparr>sq_blobs = b, sq_rows = ix, sq_outputs = outputs_index b, sq_last_prune = None\<rparr>"
    using ix outs rows by (simp add: sql_open_def backfill_def)
  then show ?thesis
    using assms ix by (simp add: sql_valid_def blob_valid_def sql_shown_def blob_shown_def sql_load_def sql_get_artifact_def
        sql_table_def sql_holder_def blob_holder_def blob_rows_def fun_eq_iff)
qed

subsection \<open>Where the backends differ\<close>

text \<open>Retention deletes no row of an active job and no row submitted since the cutoff, and no record.\<close>

lemma retention_keeps_active:
  "(i, r) \<in> set (sq_rows s) \<Longrightarrow> \<not> terminal_status (su_status r) \<or> pc_cutoff c \<le> su_submitted r \<Longrightarrow>
     (i, r) \<in> set (sq_rows (maybe_prune c s)) \<and> sql_load (maybe_prune c s) = sql_load s"
  by (auto simp: maybe_prune_def prune_rows_def sql_load_def fun_eq_iff)

text \<open>An empty set of statuses selects every job in SQLite and none in the other backends.\<close>

lemma empty_statuses_differ: "sql_iter s (Some []) = sql_table s" "blob_iter b (Some []) = []" "mem_iter m (Some []) = []"
  by (simp_all add: sql_iter_def sql_table_def blob_iter_def mem_iter_def select_statuses_def)

text \<open>Two jobs that check a free location before either writes both reserve it; the second write stands.\<close>

lemma sql_reservation_race:
  "sql_holder s loc = None \<Longrightarrow>
     sql_may_reserve s loc j1 \<and> sql_may_reserve s loc j2 \<and> sql_holder (sql_take (sql_take s loc j1) loc j2) loc = Some j2"
  by (simp add: sql_holder_def sql_may_reserve_def sql_take_def dict_get_def update_conv')

end
