(* ===== verification/Job_Recovery_Props.thy ===== *)
theory Job_Recovery_Props
  imports Job_Recovery_Inv Job_Storage_Props
begin

section \<open>Recovery ends with every old job settled\<close>

text \<open>
  A pass never touches a record that is terminal, turns an active one into a failed one at most, and when
  it does not raise leaves no active row in the index except of the jobs it excuses. The retries end
  as soon as one attempt meets no failing call.
\<close>

lemma candidate_rows: "x \<in> set (blob_rows s) \<Longrightarrow> \<not> terminal_status (su_status x) \<Longrightarrow> su_id x \<in> set (candidates s)"
  by (auto simp: candidates_def blob_iter_def select_statuses_def blob_rows_def active_iff)

lemma excused_after:
  "recovered e jobs i (blob_load s i) (blob_load s' i) \<Longrightarrow> excused e fates jobs s i \<Longrightarrow> excused e fates jobs s' i"
  by (auto simp: excused_def recovered_def split: option.splits)

lemma pass_correct:
  assumes ok: "archive_ok s" and pass: "recover_in_flight_jobs e listed fates jobs s = (s', res)"
  shows "archive_ok s'"
    and "legal_id i \<Longrightarrow> recovered e jobs i (blob_load s i) (blob_load s' i)"
    and "res = Inr n \<Longrightarrow> x \<in> set (blob_rows s') \<Longrightarrow> \<not> terminal_status (su_status x) \<Longrightarrow>
      excused e fates jobs s' (su_id x)"
    and "res = Inr n \<Longrightarrow> n = length (filter (\<lambda>i. blob_load s' i \<noteq> blob_load s i) (candidates s))"
    and "listed \<Longrightarrow> \<forall>i\<in>set (candidates s). \<not> failing (fates i) \<Longrightarrow> \<exists>n. res = Inr n"
proof -
  define rc where "rc = foldl (recover_one e fates jobs) \<lparr>rc_store = s, rc_affected = 0, rc_repaired = 0, rc_unreachable = []\<rparr>
      (blob_iter s (Some active_statuses))"
  have inv: "pass_inv e fates jobs s (candidates s) rc" using pass_result[OF ok] by (simp add: rc_def)
  have res: "if listed then s' = rc_store rc \<and> res = (if rc_unreachable rc \<noteq> [] then Inl (UnreachableJobs (rc_unreachable rc))
      else Inr (rc_affected rc)) else s' = s \<and> res = Inl NoListing"
    using pass by (auto simp: recover_in_flight_jobs_def rc_def Let_def)
  show "archive_ok s'" using res inv ok by (auto simp: pass_inv_def split: if_splits)
  show rec: "recovered e jobs i (blob_load s i) (blob_load s' i)" if "legal_id i" for i
    using res inv that recovered_refl[of e jobs i "blob_load s i"]
    by (cases "i \<in> set (candidates s)") (auto simp: pass_inv_def split: if_splits)
  have out: "s' = rc_store rc" "rc_unreachable rc = []" "n = rc_affected rc" if "res = Inr n" for n
    using that res by (auto split: if_splits)
  show "n = length (filter (\<lambda>i. blob_load s' i \<noteq> blob_load s i) (candidates s))" if "res = Inr n"
    using inv out[OF that] by (simp add: pass_inv_def)
  show "excused e fates jobs s' (su_id x)"
    if "res = Inr n" "x \<in> set (blob_rows s')" "\<not> terminal_status (su_status x)"
  proof -
    have l: "legal_id (su_id x)" using archive_okD(3)[of s' x] that inv out by (simp add: pass_inv_def)
    have "su_id x \<in> set (candidates s)" using that inv out[OF that(1)] candidate_rows[of x s] by (auto simp: pass_inv_def)
    then have "excused e fates jobs s (su_id x)" using that inv out[OF that(1)] by (auto simp: pass_inv_def)
    then show ?thesis using excused_after[OF rec[OF l]] by blast
  qed
  show "\<exists>n. res = Inr n" if "listed" "\<forall>i\<in>set (candidates s). \<not> failing (fates i)"
  proof -
    have "rc_unreachable rc = []"
    proof (cases "rc_unreachable rc")
      case (Cons i us)
      then have i: "i \<in> set (candidates s)" "failing (fates i)" using inv by (auto simp: pass_inv_def)
      show ?thesis using bspec[OF that(2) i(1)] i(2) by (rule notE)
    qed
    then show ?thesis using res that(1) by auto
  qed
qed

text \<open>What all attempts together may make of a job's record.\<close>

definition recovered_by :: "attempt list \<Rightarrow> string \<Rightarrow> stored_job option \<Rightarrow> stored_job option \<Rightarrow> bool" where
  "recovered_by as i old new = (new = old \<or> (\<exists>a\<in>set as. recovered (at_env a) (at_jobs a) i old new))"

lemma recovered_terminal: "recovered e jobs i (Some r) new \<Longrightarrow> terminal_status (sj_status r) \<Longrightarrow> new = Some r"
  by (auto simp: recovered_def)

lemma recovered_then:
  assumes "recovered e jobs i old mid" "recovered_by as i mid new"
  shows "new = mid \<or> (mid = old \<and> recovered_by as i old new)"
proof (cases "mid = old")
  case False
  then obtain r where mid: "mid = Some (fail_record (re_reason e) (re_now e) r)"
    using assms(1) by (auto simp: recovered_def split: option.splits)
  then have "new = mid" using assms(2) fail_record_terminal recovered_terminal unfolding recovered_by_def by metis
  then show ?thesis by simp
qed (use assms(2) in simp)

lemma until_done_correct:
  assumes "archive_ok s" "recover_until_done delay limit as s = (s', slept, done')"
  shows "archive_ok s' \<and> (\<forall>i. legal_id i \<longrightarrow> recovered_by as i (blob_load s i) (blob_load s' i))
    \<and> (done' \<longrightarrow> (\<exists>a\<in>set as. \<forall>x\<in>set (blob_rows s'). \<not> terminal_status (su_status x) \<longrightarrow>
         excused (at_env a) (at_fates a) (at_jobs a) s' (su_id x)))"
  using assms
proof (induction delay limit as s arbitrary: s' slept done' rule: recover_until_done.induct)
  case (1 delay limit s)
  then show ?case by (simp add: recovered_by_def)
next
  case (2 delay limit a as s)
  obtain t res where pass: "recover_in_flight_jobs (at_env a) (at_listed a) (at_fates a) (at_jobs a) s = (t, res)" by fastforce
  note p = pass_correct[OF 2(2) pass]
  show ?case
  proof (cases "\<exists>n. res = Inr n \<or> as = []")
    case True
    then have s': "s' = t" "done' \<Longrightarrow> \<exists>n. res = Inr n" using 2(3) pass by (auto split: sum.splits)
    show ?thesis using p(1,2,3) s' by (auto simp: recovered_by_def)
  next
    case False
    then obtain err where err: "res = Inl err" and ne: "as \<noteq> []" by (cases res) auto
    obtain slept1 where rest: "recover_until_done (min (delay * 2) limit) limit as t = (s', slept1, done')"
      using 2(3) pass err ne by (auto split: prod.splits)
    note IH = 2(1)[OF pass[symmetric] err ne p(1) rest]
    have "recovered_by (a # as) i (blob_load s i) (blob_load s' i)" if "legal_id i" for i
    proof -
      have here: "recovered (at_env a) (at_jobs a) i (blob_load s i) (blob_load t i)" using p(2)[OF that] .
      have "recovered_by as i (blob_load t i) (blob_load s' i)" using IH that by blast
      from recovered_then[OF here this] show ?thesis using here unfolding recovered_by_def by auto
    qed
    then show ?thesis using IH by auto
  qed
qed

lemma until_done_delays:
  "recover_until_done delay limit as s = (s', slept, done') \<Longrightarrow>
     (as \<noteq> [] \<longrightarrow> length slept < length as) \<and> (\<forall>d\<in>set slept. d \<le> max delay limit)"
proof (induction delay limit as s arbitrary: s' slept done' rule: recover_until_done.induct)
  case (2 delay limit a as s)
  obtain t res where pass: "recover_in_flight_jobs (at_env a) (at_listed a) (at_fates a) (at_jobs a) s = (t, res)" by fastforce
  show ?case
  proof (cases "\<exists>n. res = Inr n \<or> as = []")
    case True
    then show ?thesis using 2(2) pass by (auto split: sum.splits)
  next
    case False
    then obtain err where err: "res = Inl err" and ne: "as \<noteq> []" by (cases res) auto
    obtain slept1 where rest: "recover_until_done (min (delay * 2) limit) limit as t = (s', slept1, done')" and
      s: "slept = delay # slept1"
      using 2(2) pass err ne by (auto split: prod.splits)
    show ?thesis using 2(1)[OF pass[symmetric] err ne rest] ne s by auto
  qed
qed simp

lemma until_done_succeeds:
  assumes "archive_ok s" "recover_until_done delay limit as s = (s', slept, done')"
    "\<exists>a\<in>set as. at_listed a \<and> (\<forall>i. \<not> failing (at_fates a i))"
  shows done'
  using assms
proof (induction delay limit as s arbitrary: s' slept done' rule: recover_until_done.induct)
  case (2 delay limit a as s)
  obtain t res where pass: "recover_in_flight_jobs (at_env a) (at_listed a) (at_fates a) (at_jobs a) s = (t, res)" by fastforce
  note p = pass_correct[OF 2(2) pass]
  show ?case
  proof (cases res)
    case (Inr n)
    then show ?thesis using 2(3) pass by simp
  next
    case (Inl err)
    then have "\<not> (at_listed a \<and> (\<forall>i. \<not> failing (at_fates a i)))" using p(5) by auto
    then have good: "\<exists>a\<in>set as. at_listed a \<and> (\<forall>i. \<not> failing (at_fates a i))" using 2(4) by auto
    then have ne: "as \<noteq> []" by auto
    obtain slept1 where rest: "recover_until_done (min (delay * 2) limit) limit as t = (s', slept1, done')"
      using 2(3) pass Inl ne by (auto split: prod.splits)
    show ?thesis using 2(1)[OF pass[symmetric] Inl ne p(1) rest good] .
  qed
qed simp

text \<open>C10. The retried recovery settles the jobs of an earlier process. Over any number of attempts, each
  meeting any failures of the archive (listings, loads, saves cut off after any number of writes):
  the archive stays well formed; a job whose record is terminal keeps that record, and any other
  record stays or becomes failed with a reason, by an attempt that did not find the job in memory and
  before whose cutoff it was submitted; it sleeps less often than it tries, never longer than the
  first delay or the limit; it reports success as soon as one attempt meets no failure, and when it
  reports success some attempt left no active row in the index, except of jobs that were in memory,
  have no record that is rebuilt, or were submitted too late.\<close>

theorem recovery_completes:
  assumes "archive_ok s" "recover_until_done delay limit as s = (s', slept, done')"
  shows "archive_ok s'
    \<and> (\<forall>i r. legal_id i \<longrightarrow> blob_load s i = Some r \<longrightarrow>
         (if terminal_status (sj_status r) then blob_load s' i = Some r
          else blob_load s' i = Some r
            \<or> (\<exists>a\<in>set as. blob_load s' i = Some (fail_record (re_reason (at_env a)) (re_now (at_env a)) r)
                 \<and> i \<notin> fst ` set (at_jobs a) \<and> \<not> too_late (at_env a) r)))
    \<and> (\<forall>i. legal_id i \<longrightarrow> blob_load s i = None \<longrightarrow> blob_load s' i = None)
    \<and> (as \<noteq> [] \<longrightarrow> length slept < length as) \<and> (\<forall>d\<in>set slept. d \<le> max delay limit)
    \<and> ((\<exists>a\<in>set as. at_listed a \<and> (\<forall>i. \<not> failing (at_fates a i))) \<longrightarrow> done')
    \<and> (done' \<longrightarrow> (\<exists>a\<in>set as. \<forall>x\<in>set (blob_rows s'). \<not> terminal_status (su_status x) \<longrightarrow>
         excused (at_env a) (at_fates a) (at_jobs a) s' (su_id x)))"
proof -
  note correct = until_done_correct[OF assms] and delays = until_done_delays[OF assms(2)]
    and succeeds = until_done_succeeds[OF assms]
  have by_attempt: "recovered_by as i (blob_load s i) (blob_load s' i)" if "legal_id i" for i
    using correct that by blast
  have "if terminal_status (sj_status r) then blob_load s' i = Some r
      else blob_load s' i = Some r
        \<or> (\<exists>a\<in>set as. blob_load s' i = Some (fail_record (re_reason (at_env a)) (re_now (at_env a)) r)
             \<and> i \<notin> fst ` set (at_jobs a) \<and> \<not> too_late (at_env a) r)"
    if "legal_id i" "blob_load s i = Some r" for i r
    using by_attempt[OF that(1)] unfolding recovered_by_def recovered_def that(2) by auto
  moreover have "blob_load s' i = None" if "legal_id i" "blob_load s i = None" for i
    using by_attempt[OF that(1)] unfolding recovered_by_def recovered_def that(2) by auto
  ultimately show ?thesis using correct delays succeeds by blast
qed

text \<open>A restart with one running and one completed job, whose index still has the completed one as running;
  the first attempt reads nothing of the running one, the second meets no failure.\<close>

definition demo_running :: blob_store where
  "demo_running = blob_save (blob_save (blob_init []) (demo_stored ''a'' JobRunning None)) (demo_stored ''b'' JobRunning None)"

definition demo_restart :: blob_store where
  "demo_restart = blob_save_upto 1 demo_running (demo_stored ''b'' JobCompleted None)"

definition demo_attempt :: "bool \<Rightarrow> attempt" where
  "demo_attempt ok = \<lparr>at_env = \<lparr>re_reason = ''restart'', re_now = 9, re_before = Some 8\<rparr>, at_listed = True,
     at_fates = (\<lambda>i. \<lparr>ft_loads = (ok \<or> i \<noteq> ''a''), ft_rebuilds = True, ft_writes = (if ok then None else Some 2)\<rparr>), at_jobs = []\<rparr>"

lemma archive_ok_init: "archive_ok (blob_init prefix)"
  by (simp add: archive_ok_def blob_init_valid blob_init_empty blob_rows_def index_init index_rows_def List.map_filter_def)

lemma keep_result_id: "sj_id (keep_result old r) = sj_id r"
  by (simp add: keep_result_def split: option.split)

lemma archive_ok_save:
  assumes "archive_ok s" "legal_id (sj_id r)"
  shows "archive_ok (blob_save s r)"
proof -
  have "sj_id r' = i" if "legal_id i" "blob_load (blob_save s r) i = Some r'" for i r'
  proof (cases "i = sj_id r")
    case True
    then have "r' = keep_result (blob_load s i) r"
      using that(2) blob.load_save[OF archive_okD(1)[OF assms(1)] assms(2) that(1)] by (metis option.inject)
    then show ?thesis using True by (simp only: keep_result_id)
  next
    case False
    then show ?thesis
      using archive_okD(2)[OF assms(1) that(1)] that(2) blob.load_save[OF archive_okD(1)[OF assms(1)] assms(2) that(1)]
      by (simp only: if_False)
  qed
  moreover have "list_all (\<lambda>su. legal_id (su_id su)) (blob_rows (blob_save s r))"
    using assms blob.rows_save[OF archive_okD(1)[OF assms(1)] assms(2)]
    by (auto simp: archive_ok_def list_all_iff dest!: row_in_put)
  ultimately show ?thesis using blob.valid_save[OF archive_okD(1)[OF assms(1)] assms(2)] by (simp add: archive_ok_def)
qed

lemma demo_legal: "legal_id ''a''" "legal_id ''b''"
  by (simp_all add: legal_id_def)

lemma demo_ids: "sj_id (demo_stored i st v) = i"
  by (simp add: demo_stored_def)

lemma demo_loads:
  "blob_load demo_running ''b'' = Some (demo_stored ''b'' JobRunning None)"
  "blob_load demo_restart ''b'' = Some (demo_stored ''b'' JobCompleted None)"
  "map su_status (blob_rows demo_restart) = [JobRunning, JobRunning]"
  by code_simp+

lemma demo_restart_ok: "archive_ok demo_restart"
proof -
  define r where "r = demo_stored ''b'' JobCompleted None"
  have ok: "archive_ok demo_running" by (simp add: demo_running_def archive_ok_save archive_ok_init demo_ids demo_legal)
  have id: "sj_id r = ''b''" by (simp add: r_def demo_ids)
  have same: "same_parts (demo_stored ''b'' JobRunning None) r" by (simp add: r_def same_parts_def demo_stored_def)
  have save: "save_fate (Some 1) demo_running r = (demo_restart, False)"
    by (simp add: save_fate_def demo_restart_def r_def)
  show ?thesis
    using save_fate_effect(1)[OF ok _ same _ save] by (simp only: id demo_loads(1) demo_legal)
qed

theorem recovery_completes_witness:
  "snd (snd (recover_until_done 5 300 [demo_attempt False, demo_attempt True] demo_restart))
   \<and> blob_load (fst (recover_until_done 5 300 [demo_attempt False, demo_attempt True] demo_restart)) ''b''
     = Some (demo_stored ''b'' JobCompleted None)"
proof -
  obtain s' slept done' where run: "recover_until_done 5 300 [demo_attempt False, demo_attempt True] demo_restart = (s', slept, done')"
    using prod_cases3 by blast
  have good: "at_listed (demo_attempt True) \<and> (\<forall>i. \<not> failing (at_fates (demo_attempt True) i))"
    by (simp add: demo_attempt_def failing_def)
  have "terminal_status (sj_status (demo_stored ''b'' JobCompleted None))"
    by (simp add: demo_stored_def terminal_status_def)
  then have "done' \<and> blob_load s' ''b'' = Some (demo_stored ''b'' JobCompleted None)"
    using recovery_completes[OF demo_restart_ok run] good demo_loads(2) demo_legal(2) by auto
  then show ?thesis by (simp only: run fst_conv snd_conv)
qed

subsection \<open>Jobs read before they are recovered\<close>

text \<open>A job that is looked up is kept in memory as it was archived, and no later pass recovers it.\<close>

lemma read_job_in_memory:
  "blob_load s i = Some r \<Longrightarrow> map_of jobs i = None \<Longrightarrow>
     i \<in> fst ` set (fst (load_job_record True jobs s i)) \<and> map_of (fst (load_job_record True jobs s i)) i = Some r"
  by (simp add: load_job_record_def update_conv' dom_update[unfolded dom_map_of_conv_image_fst])

lemma read_job_not_recovered:
  assumes "archive_ok s" "legal_id i" "blob_load s i = Some r" "map_of jobs i = None"
    "recover_in_flight_jobs e listed fates (fst (load_job_record True jobs s i)) s = (s', res)"
  shows "blob_load s' i = Some r"
  using pass_correct(2)[OF assms(1,5,2)] read_job_in_memory[OF assms(3,4)] assms(3) by (auto simp: recovered_def)

end
