(* ===== verification/Job_Lifecycle_Inv.thy ===== *)
theory Job_Lifecycle_Inv
  imports Job_Lifecycle Job_Recovery_Props
begin

section \<open>Invariants of the job records\<close>

text \<open>
  A record in memory that nothing is about to save is the archived one; and what is archived as ended
  agrees with memory. Every write of a record is \<open>allowed\<close>: it keeps the id, the parent and an
  existing result, and leaves the end of a top-level job alone.
\<close>

subsection \<open>A save cut off anywhere\<close>

lemma puts_blob:
  "map_of (bl_blobs (fold put_blob ws s)) k = map_of (bl_blobs s) k
   \<or> (\<exists>v. (k, v) \<in> set ws \<and> map_of (bl_blobs (fold put_blob ws s)) k = Some v)"
proof (induction ws arbitrary: s)
  case (Cons kv ws)
  show ?case using Cons.IH[of "put_blob kv s"] by (cases kv) (auto simp: blobs_put split: if_splits)
qed simp

lemma puts_prefix: "bl_prefix (fold put_blob ws s) = bl_prefix s"
  by (induction ws arbitrary: s) (simp_all add: prefix_put)

lemma cut_blob:
  "map_of (bl_blobs (blob_save_upto n s r)) k = map_of (bl_blobs s) k
   \<or> (\<exists>v. (k, v) \<in> set (blob_writes s r) \<and> map_of (bl_blobs (blob_save_upto n s r)) k = Some v)"
  using puts_blob[of "take n (blob_writes s r)" s k] by (auto simp: blob_save_upto_def dest: in_set_takeD)

lemma cut_names:
  "job_object_name (blob_save_upto n s r) = job_object_name s" "object_name (blob_save_upto n s r) = object_name s"
  "jobs_index_name (blob_save_upto n s r) = jobs_index_name s" "output_index_name (blob_save_upto n s r) = output_index_name s"
  using names_prefix[of "blob_save_upto n s r" s] by (simp_all add: blob_save_upto_def puts_prefix)

text \<open>The record of another job is not touched; its own has the fields of the new record, and the old or the
  new result.\<close>

lemma other_writes:
  "legal_id (sj_id r) \<Longrightarrow> legal_id i \<Longrightarrow> i \<noteq> sj_id r \<Longrightarrow>
     (object_name s i, v) \<notin> set (blob_writes s r) \<and> (job_object_name s i f, v) \<notin> set (blob_writes s r)"
  by (auto simp: blob_writes_def record_writes_def index_write_def job_names index_names split: option.splits)

lemma cut_other:
  assumes "legal_id (sj_id r)" "legal_id i" "i \<noteq> sj_id r"
  shows "blob_load (blob_save_upto n s r) i = blob_load s i"
    and "json_at (blob_save_upto n s r) (job_object_name s i ''result.json'') = json_at s (job_object_name s i ''result.json'')"
proof -
  have "map_of (bl_blobs (blob_save_upto n s r)) k = map_of (bl_blobs s) k"
    if "k = object_name s i \<or> (\<exists>f. k = job_object_name s i f)" for k
    using cut_blob[of n s r k] other_writes[OF assms] that by auto
  then have same: "map_of (bl_blobs (blob_save_upto n s r)) (object_name s i) = map_of (bl_blobs s) (object_name s i)"
    "map_of (bl_blobs (blob_save_upto n s r)) (job_object_name s i f) = map_of (bl_blobs s) (job_object_name s i f)" for f
    by blast+
  show "blob_load (blob_save_upto n s r) i = blob_load s i"
    by (simp add: blob_load_def cut_names same dict_at_def json_at_def cong: option.case_cong blob.case_cong)
  show "json_at (blob_save_upto n s r) (job_object_name s i ''result.json'') = json_at s (job_object_name s i ''result.json'')"
    by (simp add: json_at_def same)
qed

lemma cut_own:
  assumes own: "results_owned s" and l: "legal_id (sj_id r)"
  obtains "blob_save_upto n s r = s"
  | r' where "blob_load (blob_save_upto n s r) (sj_id r) = Some r'" "core_of r' = core_of r"
      "sj_result r' = sj_result r \<or> sj_result r' = (case blob_load s (sj_id r) of None \<Rightarrow> None | Some r0 \<Rightarrow> sj_result r0)"
proof (cases n)
  case 0
  then show ?thesis using that(1) by (simp add: blob_save_upto_def)
next
  case (Suc k)
  let ?t = "blob_save_upto n s r"
  have first: "(object_name s (sj_id r), v) \<in> set (blob_writes s r) \<Longrightarrow> v = RecordBlob (core_of r)" for v
    using l by (auto simp: blob_writes_def record_writes_def index_write_def job_names index_names split: option.splits)
  have "map_of (bl_blobs ?t) (object_name s (sj_id r)) = Some (RecordBlob (core_of r))"
  proof -
    let ?s1 = "put_blob (object_name s (sj_id r), RecordBlob (core_of r)) s"
    define ws where "ws = take k (rest_writes s r @ [index_write s r])"
    have "?t = fold put_blob ws ?s1" by (simp add: blob_save_upto_def blob_writes_def record_writes_split Suc ws_def)
    moreover have "(object_name s (sj_id r), v) \<notin> set ws" for v
      using l by (auto simp: ws_def rest_writes_def record_writes_def index_write_def job_names index_names
          split: option.splits dest!: in_set_takeD)
    ultimately show ?thesis using puts_blob[of ws ?s1 "object_name s (sj_id r)"] by (auto simp: blobs_put)
  qed
  moreover have result: "(job_object_name s (sj_id r) ''result.json'', v) \<in> set (blob_writes s r) \<Longrightarrow>
      \<exists>x. sj_result r = Some x \<and> v = JsonBlob x" for v
    using l by (auto simp: blob_writes_def record_writes_def index_write_def job_names index_names split: option.splits)
  have result_at: "json_at ?t (job_object_name s (sj_id r) ''result.json'') = sj_result r
      \<or> json_at ?t (job_object_name s (sj_id r) ''result.json'') = json_at s (job_object_name s (sj_id r) ''result.json'')"
    using cut_blob[of n s r "job_object_name s (sj_id r) ''result.json''"] by (auto simp: json_at_def dest!: result)
  moreover define r1 where "r1 = assemble (core_of r) (dict_at ?t (job_object_name s (sj_id r) ''inputs.json''))
      (dict_at ?t (job_object_name s (sj_id r) ''progress.json'')) (json_at ?t (job_object_name s (sj_id r) ''result.json''))"
  ultimately have "blob_load ?t (sj_id r) = Some r1" by (simp add: blob_load_def cut_names)
  moreover have "core_of r1 = core_of r" by (simp add: r1_def assemble_def core_of_def)
  moreover have "sj_result r1 = sj_result r
      \<or> sj_result r1 = (case blob_load s (sj_id r) of None \<Rightarrow> None | Some r0 \<Rightarrow> sj_result r0)"
    using result_at results_ownedD[OF own l] by (auto simp: r1_def assemble_def)
  ultimately show ?thesis by (rule that(2))
qed

lemma cut_index:
  assumes "legal_id (sj_id r)"
  shows "jobs_index (blob_save_upto n s r) = jobs_index s
     \<or> jobs_index (blob_save_upto n s r) = AList.update (sj_id r) (Some (summary_of r)) (jobs_index s)"
    and "outputs_index (blob_save_upto n s r) = outputs_index s"
proof -
  have writes: "(jobs_index_name s, v) \<in> set (blob_writes s r) \<Longrightarrow> v = IndexBlob (AList.update (sj_id r) (Some (summary_of r)) (jobs_index s))"
    "(output_index_name s, v) \<notin> set (blob_writes s r)" for v
    by (auto simp: blob_writes_def record_writes_def index_write_def index_names split: option.splits)
  show "jobs_index (blob_save_upto n s r) = jobs_index s
     \<or> jobs_index (blob_save_upto n s r) = AList.update (sj_id r) (Some (summary_of r)) (jobs_index s)"
    "outputs_index (blob_save_upto n s r) = outputs_index s"
    using cut_blob[of n s r "jobs_index_name s"] cut_blob[of n s r "output_index_name s"]
    by (auto simp: jobs_index_def outputs_index_def cut_names writes(2) dest!: writes(1))
qed

lemma core_id: "core_of r' = core_of r \<Longrightarrow> sj_id r' = sj_id r \<and> sj_status r' = sj_status r \<and> sj_error r' = sj_error r
    \<and> sj_finished r' = sj_finished r \<and> sj_parent r' = sj_parent r"
  by (auto simp: core_of_def dest: arg_cong[where f = sj_id] arg_cong[where f = sj_status] arg_cong[where f = sj_error]
      arg_cong[where f = sj_finished] arg_cong[where f = sj_parent])

lemma cut_ok:
  assumes ok: "archive_ok s" and l: "legal_id (sj_id r)"
  shows "archive_ok (blob_save_upto n s r)"
proof -
  let ?t = "blob_save_upto n s r"
  have v: "blob_valid s" and own: "results_owned s" using ok by (simp_all add: archive_ok_def blob_valid_def)
  have ix: "index_ok (jobs_index ?t)" "blob_rows ?t = blob_rows s \<or> blob_rows ?t = put_row (summary_of r) (blob_rows s)"
    using cut_index(1)[OF l, of n s] v index_ok_update[of "jobs_index s" "summary_of r" "sj_id r"]
    by (auto simp: blob_valid_def blob_rows_def)
  show ?thesis
  proof (cases rule: cut_own[OF own l, of n])
    case 1
    then show ?thesis using ok by simp
  next
    case (2 r')
    have loads: "blob_load ?t i \<noteq> None"
      if "legal_id i" "json_at ?t (job_object_name s i ''result.json'') \<noteq> None" for i
      using that 2(1) own cut_other[OF l that(1), where n = n and s = s] by (cases "i = sj_id r") (auto simp: results_owned_def)
    then have "results_owned ?t" by (simp add: results_owned_def cut_names)
    moreover have "sj_id x = i" if "legal_id i" "blob_load ?t i = Some x" for i x
    proof (cases "i = sj_id r")
      case True
      then show ?thesis using that(2) 2(1) core_id[OF 2(2)] by (metis option.inject)
    next
      case False
      then show ?thesis using that cut_other(1)[OF l that(1) False, of n s] archive_okD(2)[OF ok that(1)] by metis
    qed
    moreover have "list_all (\<lambda>su. legal_id (su_id su)) (blob_rows ?t)"
      using ix(2) ok l by (auto simp: archive_ok_def list_all_iff dest!: row_in_put)
    ultimately show ?thesis using v ix(1) cut_index(2)[OF l, of n s] by (auto simp: archive_ok_def blob_valid_def)
  qed
qed

subsection \<open>The invariant\<close>

definition job_end :: "stored_job \<Rightarrow> job_status \<times> string option \<times> int option \<times> json option" where
  "job_end r = (sj_status r, sj_error r, sj_finished r, sj_result r)"

text \<open>An ended top-level job.\<close>

definition root_ended :: "stored_job \<Rightarrow> bool" where
  "root_ended r = (terminal_status (sj_status r) \<and> sj_parent r = None)"

text \<open>How the record in memory and the archived one of the same job agree at any time.\<close>

definition agrees :: "stored_job \<Rightarrow> stored_job \<Rightarrow> bool" where
  "agrees r r' =
     (sj_parent r' = sj_parent r \<and> (sj_result r = None \<longrightarrow> sj_result r' = None) \<and> (root_ended r' \<longrightarrow> job_end r' = job_end r))"

definition busy_jobs :: "job_sys \<Rightarrow> string set" where
  "busy_jobs s = set (jy_unsaved s) \<union> fst ` set (jy_runs s)"

definition sys_inv :: "job_sys \<Rightarrow> bool" where
  "sys_inv s =
     (archive_ok (jy_archive s)
      \<and> (\<forall>i r. map_of (jy_jobs s) i = Some r \<longrightarrow> sj_id r = i \<and> legal_id i
           \<and> (i \<notin> busy_jobs s \<longrightarrow> blob_load (jy_archive s) i = Some r)
           \<and> (\<forall>r'. blob_load (jy_archive s) i = Some r' \<longrightarrow> agrees r r')))"

definition allowed :: "stored_job \<Rightarrow> stored_job \<Rightarrow> bool" where
  "allowed r new =
     (sj_id new = sj_id r \<and> sj_parent new = sj_parent r \<and> (sj_result new = None \<longrightarrow> sj_result r = None)
      \<and> (root_ended r \<longrightarrow> job_end new = job_end r))"

lemma agrees_refl: "agrees r r"
  by (simp add: agrees_def)

lemma root_ended_end: "job_end r' = job_end r \<Longrightarrow> sj_parent r' = sj_parent r \<Longrightarrow> root_ended r' = root_ended r"
  by (simp add: root_ended_def job_end_def)

lemma agrees_allowed: "agrees r r' \<Longrightarrow> allowed r new \<Longrightarrow> agrees new r'"
  using root_ended_end[of r' r] by (auto simp: agrees_def allowed_def)

lemma allowed_refl: "allowed r r"
  by (simp add: allowed_def)

lemma allowed_trans: "allowed r r1 \<Longrightarrow> allowed r1 r2 \<Longrightarrow> allowed r r2"
  using root_ended_end[of r1 r] by (auto simp: allowed_def)

lemma sys_invD:
  assumes "sys_inv s" "map_of (jy_jobs s) i = Some r"
  shows "sj_id r = i" "legal_id i" "i \<notin> busy_jobs s \<Longrightarrow> blob_load (jy_archive s) i = Some r"
    "blob_load (jy_archive s) i = Some r' \<Longrightarrow> agrees r r'"
  using assms by (auto simp: sys_inv_def)

lemma sys_inv_archive: "sys_inv s \<Longrightarrow> archive_ok (jy_archive s)"
  by (simp add: sys_inv_def)

text \<open>What a step may do to an ended top-level job, in the archive and in memory.\<close>

definition archive_final :: "blob_store \<Rightarrow> blob_store \<Rightarrow> bool" where
  "archive_final a a' =
     (\<forall>i r. legal_id i \<longrightarrow> blob_load a i = Some r \<longrightarrow> root_ended r \<longrightarrow>
        (\<exists>r'. blob_load a' i = Some r' \<and> job_end r' = job_end r \<and> sj_parent r' = sj_parent r))"

definition memory_final :: "job_sys \<Rightarrow> job_sys \<Rightarrow> bool" where
  "memory_final s s' =
     (\<forall>i r. map_of (jy_jobs s) i = Some r \<longrightarrow> root_ended r \<longrightarrow>
        (\<exists>r'. map_of (jy_jobs s') i = Some r' \<and> job_end r' = job_end r \<and> sj_parent r' = sj_parent r))"

lemma archive_final_refl: "archive_final a a"
  by (simp add: archive_final_def)

lemma archive_final_trans: "archive_final a b \<Longrightarrow> archive_final b c \<Longrightarrow> archive_final a c"
  unfolding archive_final_def by (metis root_ended_end)

lemma memory_final_trans: "memory_final s t \<Longrightarrow> memory_final t u \<Longrightarrow> memory_final s u"
  unfolding memory_final_def by (metis root_ended_end)

text \<open>A step that leaves the archive alone and changes the records in memory by allowed writes, each saved or
  inside a run.\<close>

lemma writes_inv:
  assumes inv: "sys_inv s" and archive: "jy_archive s' = jy_archive s"
    and busy: "busy_jobs s \<subseteq> busy_jobs s'"
    and writes: "\<And>i new. map_of (jy_jobs s') i = Some new \<Longrightarrow>
      (\<exists>r. map_of (jy_jobs s) i = Some r \<and> allowed r new \<and> (new = r \<or> i \<in> busy_jobs s'))
      \<or> (sj_id new = i \<and> legal_id i \<and> (case blob_load (jy_archive s) i of None \<Rightarrow> i \<in> busy_jobs s' | Some r \<Rightarrow> new = r))"
  shows "sys_inv s'"
  unfolding sys_inv_def
proof (intro conjI allI impI)
  show "archive_ok (jy_archive s')" using inv archive by (simp add: sys_inv_def)
  fix i new assume new: "map_of (jy_jobs s') i = Some new"
  from writes[OF new] consider
      (old) r where "map_of (jy_jobs s) i = Some r" "allowed r new" "new = r \<or> i \<in> busy_jobs s'"
    | (fresh) "sj_id new = i" "legal_id i" "case blob_load (jy_archive s) i of None \<Rightarrow> i \<in> busy_jobs s' | Some r \<Rightarrow> new = r"
    by blast
  note cases = this
  show "sj_id new = i" by (cases rule: cases) (use sys_invD(1)[OF inv] in \<open>auto simp: allowed_def\<close>)
  show "legal_id i" by (cases rule: cases) (use sys_invD(2)[OF inv] in auto)
  show "blob_load (jy_archive s') i = Some new" if "i \<notin> busy_jobs s'"
    using that busy by (cases rule: cases) (use sys_invD(3)[OF inv] in \<open>auto simp: archive split: option.splits\<close>)
  show "agrees new r'" if "blob_load (jy_archive s') i = Some r'" for r'
  proof (cases rule: cases)
    case (old r)
    then show ?thesis using agrees_allowed[OF sys_invD(4)[OF inv old(1)] old(2)] that by (simp add: archive)
  next
    case fresh
    then show ?thesis using that by (simp add: archive agrees_refl)
  qed
qed

definition step_ok :: "job_sys \<Rightarrow> job_sys \<Rightarrow> bool" where
  "step_ok s s' = (sys_inv s' \<and> archive_final (jy_archive s) (jy_archive s') \<and> memory_final s s')"

lemma busy_simps [simp]:
  "busy_jobs (ask_save i s) = insert i (busy_jobs s)"
  "busy_jobs (put_job r s) = busy_jobs s"
  "busy_jobs (to_phase i p s) = insert i (busy_jobs s)"
  "busy_jobs (s\<lparr>jy_jobs := jobs\<rparr>) = busy_jobs s"
  "busy_jobs (s\<lparr>jy_children := ch\<rparr>) = busy_jobs s"
  by (auto simp: busy_jobs_def ask_save_def put_job_def to_phase_def dom_update[unfolded dom_map_of_conv_image_fst])

lemma busy_end_run [simp]: "busy_jobs (end_run i (ask_save i s)) = insert i (busy_jobs s)"
  by (auto simp: busy_jobs_def end_run_def ask_save_def AList.delete_eq image_iff)

lemma sys_simps [simp]:
  "jy_jobs (ask_save i s) = jy_jobs s" "jy_jobs (to_phase i p s) = jy_jobs s" "jy_jobs (end_run i s) = jy_jobs s"
  "jy_jobs (put_job r s) = AList.update (sj_id r) r (jy_jobs s)"
  "jy_archive (ask_save i s) = jy_archive s" "jy_archive (to_phase i p s) = jy_archive s"
  "jy_archive (end_run i s) = jy_archive s" "jy_archive (put_job r s) = jy_archive s"
  "jy_unsaved (ask_save i s) = jy_unsaved s @ [i]"
  by (simp_all add: ask_save_def to_phase_def end_run_def put_job_def)

lemma one_write:
  assumes inv: "sys_inv s" and r: "map_of (jy_jobs s) i = Some r" and ok: "allowed r new"
    and s': "jy_jobs s' = AList.update (sj_id new) new (jy_jobs s)" "jy_archive s' = jy_archive s" "busy_jobs s \<subseteq> busy_jobs s'"
    and busy: "i \<in> busy_jobs s'"
  shows "step_ok s s'"
proof -
  have id: "sj_id new = i" using ok sys_invD(1)[OF inv r] by (simp add: allowed_def)
  have jobs: "map_of (jy_jobs s') = (map_of (jy_jobs s))(i := Some new)" by (simp add: s'(1) id update_conv')
  have "sys_inv s'"
    using inv s'(2,3) by (rule writes_inv) (use r ok busy in \<open>auto simp: jobs allowed_refl split: if_splits\<close>)
  moreover have "memory_final s s'"
    unfolding memory_final_def jobs using r ok by (auto simp: allowed_def)
  ultimately show ?thesis by (simp add: step_ok_def s'(2) archive_final_refl)
qed

lemma no_write:
  assumes "sys_inv s" "jy_jobs s' = jy_jobs s" "jy_archive s' = jy_archive s" "busy_jobs s \<subseteq> busy_jobs s'"
  shows "step_ok s s'"
proof -
  have "sys_inv s'" using assms(1,3,4) by (rule writes_inv) (simp add: assms(2) allowed_refl)
  then show ?thesis by (simp add: step_ok_def assms archive_final_refl memory_final_def)
qed

lemma new_job:
  assumes inv: "sys_inv s" and new: "map_of (jy_jobs s) (sj_id r) = None" "blob_load (jy_archive s) (sj_id r) = None" "legal_id (sj_id r)"
    and s': "jy_jobs s' = AList.update (sj_id r) r (jy_jobs s)" "jy_archive s' = jy_archive s" "busy_jobs s \<subseteq> busy_jobs s'"
    and busy: "sj_id r \<in> busy_jobs s'"
  shows "step_ok s s'"
proof -
  have jobs: "map_of (jy_jobs s') = (map_of (jy_jobs s))(sj_id r := Some r)" by (simp add: s'(1) update_conv')
  have "sys_inv s'"
    using inv s'(2,3) by (rule writes_inv) (use new busy in \<open>auto simp: jobs allowed_refl split: if_splits\<close>)
  moreover have "memory_final s s'"
    unfolding memory_final_def jobs using new(1) by auto
  ultimately show ?thesis by (simp add: step_ok_def s'(2) archive_final_refl)
qed

subsection \<open>The writes are allowed\<close>

lemma allowed_ended: "\<not> terminal_status (sj_status r) \<or> sj_parent r \<noteq> None \<Longrightarrow> allowed r (ended_as st err now r)"
  by (auto simp: allowed_def ended_as_def root_ended_def)

lemma allowed_unless: "(\<And>r. \<not> terminal_status (sj_status r) \<Longrightarrow> allowed r (f r)) \<Longrightarrow> allowed r (unless_ended f r)"
  by (simp add: unless_ended_def allowed_refl)

lemma allowed_answered: "\<not> terminal_status (sj_status r) \<Longrightarrow> allowed r (answered a now r)"
  by (simp add: allowed_def answered_def root_ended_def)

lemma allowed_notes: "allowed r (r\<lparr>sj_rest := rest, sj_progress := progress\<rparr>)" "allowed r (r\<lparr>sj_progress := progress\<rparr>)"
  "allowed r (r\<lparr>sj_rest := rest\<rparr>)"
  by (simp_all add: allowed_def job_end_def)

lemma allowed_fail: "\<not> terminal_status (sj_status r) \<Longrightarrow> allowed r (fail_record reason now r)"
  by (simp add: allowed_def fail_record_def root_ended_def)

subsection \<open>Steps\<close>

lemma put_steps:
  assumes "sys_inv s" "map_of (jy_jobs s) i = Some r" "allowed r new"
  shows "step_ok s (ask_save i (put_job new s))" "step_ok s (to_phase i p (put_job new s))"
    "step_ok s (to_phase i p (ask_save i (put_job new s)))" "step_ok s (end_run i (ask_save i (put_job new s)))"
  by (rule one_write[OF assms]; auto)+

lemma idle_steps:
  assumes "sys_inv s"
  shows "step_ok s s" "step_ok s (to_phase i p s)" "step_ok s (end_run i (ask_save i s))"
  by (rule no_write[OF assms]; auto)+

lemmas steps = put_steps idle_steps

lemma run_start_ok: "sys_inv s \<Longrightarrow> run_start i now s = Some s' \<Longrightarrow> step_ok s s'"
  by (auto simp: run_start_def allowed_def root_ended_def split: option.splits run_phase.splits if_splits
      intro!: steps(3,7))

lemma run_answered_ok: "sys_inv s \<Longrightarrow> run_answered i a now s = Some s' \<Longrightarrow> step_ok s s'"
  by (auto simp: run_answered_def split: option.splits run_phase.splits if_splits intro: steps allowed_answered)

lemma run_cancelled_ok: "sys_inv s \<Longrightarrow> run_cancelled i now s = Some s' \<Longrightarrow> step_ok s s'"
  by (auto simp: run_cancelled_def split: option.splits run_phase.splits intro!: steps(2) allowed_unless allowed_ended)

lemma run_raised_ok: "sys_inv s \<Longrightarrow> run_raised i msg now s = Some s' \<Longrightarrow> step_ok s s'"
  by (auto simp: run_raised_def split: option.splits if_splits intro!: steps(2) allowed_unless allowed_ended)

lemma run_end_ok: "sys_inv s \<Longrightarrow> run_end i rest usage s = Some s' \<Longrightarrow> step_ok s s'"
  by (auto simp: run_end_def split: option.splits if_splits intro!: steps(4) allowed_notes)

lemma loop_write_ok: "sys_inv s \<Longrightarrow> step_ok s (loop_write i w progress s)"
  by (auto simp: loop_write_def allowed_def root_ended_def newer_def split: option.splits prod.splits intro: steps)

lemma fail_parent_ok: "sys_inv s \<Longrightarrow> step_ok s (fail_parent p err now s)"
  by (auto simp: fail_parent_def split: option.splits intro: steps allowed_ended)

lemma child_timeout_ok: "sys_inv s \<Longrightarrow> child_timeout c failure now s = Some s' \<Longrightarrow> step_ok s s'"
  by (auto simp: child_timeout_def split: option.splits if_splits intro!: steps(1) allowed_ended)

lemma cancel_record_ok: "sys_inv s \<Longrightarrow> cancel_record i now s = Some s' \<Longrightarrow> step_ok s s'"
  by (auto simp: cancel_record_def split: option.splits if_splits intro!: steps(1) allowed_ended)

lemma cancel_child_ok: "sys_inv s \<Longrightarrow> step_ok s (cancel_child now c s)"
  by (auto simp: cancel_child_def split: option.splits intro: steps allowed_ended)

lemma cancel_child_refused_ok: "sys_inv s \<Longrightarrow> cancel_child_refused now msg c s = Some s' \<Longrightarrow> step_ok s s'"
  by (auto simp: cancel_child_refused_def split: option.splits if_splits intro!: steps(1) allowed_ended)

lemma loop_open_ok: "sys_inv s \<Longrightarrow> step_ok s (loop_open i progress s)"
  by (auto simp: loop_open_def split: option.splits intro: steps allowed_notes)

lemma note_progress_ok: "sys_inv s \<Longrightarrow> note_progress i progress s = Some s' \<Longrightarrow> step_ok s s'"
  by (auto simp: note_progress_def split: option.splits if_splits intro: steps allowed_notes)

lemma submit_job_ok: "sys_inv s \<Longrightarrow> legal_id (sj_id r) \<Longrightarrow> submit_job r s = Some s' \<Longrightarrow> step_ok s s'"
  by (auto simp: submit_job_def split: if_splits intro!: new_job[of s r])

lemma submit_child_ok: "sys_inv s \<Longrightarrow> legal_id (sj_id r) \<Longrightarrow> submit_child p r s = Some s' \<Longrightarrow> step_ok s s'"
  by (auto simp: submit_child_def idle_steps split: if_splits intro!: new_job[of s r])

lemma read_job_ok:
  assumes inv: "sys_inv s" and l: "legal_id i"
  shows "step_ok s (read_job i s)"
proof (cases "map_of (jy_jobs s) i = None \<and> blob_load (jy_archive s) i \<noteq> None")
  case True
  then obtain r where r: "blob_load (jy_archive s) i = Some r" by auto
  have jobs: "map_of (jy_jobs (read_job i s)) = (map_of (jy_jobs s))(i := Some r)"
    using True r by (simp add: read_job_def load_job_record_def update_conv')
  have "sj_id r = i" using archive_okD(2)[OF sys_inv_archive[OF inv] l r] .
  have "sys_inv (read_job i s)"
  proof (rule writes_inv[OF inv])
    show "jy_archive (read_job i s) = jy_archive s" "busy_jobs s \<subseteq> busy_jobs (read_job i s)"
      by (simp_all add: read_job_def)
    fix j new assume "map_of (jy_jobs (read_job i s)) j = Some new"
    then show "(\<exists>r. map_of (jy_jobs s) j = Some r \<and> allowed r new \<and> (new = r \<or> j \<in> busy_jobs (read_job i s)))
      \<or> (sj_id new = j \<and> legal_id j \<and> (case blob_load (jy_archive s) j of None \<Rightarrow> j \<in> busy_jobs (read_job i s) | Some r \<Rightarrow> new = r))"
      using r l \<open>sj_id r = i\<close> by (cases "j = i") (simp_all add: jobs allowed_refl)
  qed
  moreover have "memory_final s (read_job i s)" unfolding memory_final_def jobs using True by auto
  ultimately show ?thesis by (simp add: step_ok_def archive_final_refl read_job_def)
next
  case False
  then have "read_job i s = s" by (auto simp: read_job_def load_job_record_def split: option.split)
  then show ?thesis using idle_steps(1)[OF inv] by simp
qed

lemma shutdown_ok:
  assumes inv: "sys_inv s"
  shows "step_ok s (shutdown reason now s)"
proof -
  have jobs: "map_of (jy_jobs (shutdown reason now s)) i =
      map_option (\<lambda>r. if terminal_status (sj_status r) then r else fail_record reason now r) (map_of (jy_jobs s) i)" for i
    using map_of_map[of "\<lambda>r. if terminal_status (sj_status r) then r else fail_record reason now r" "jy_jobs s"]
    by (simp add: shutdown_def fail_active_def)
  have asked: "i \<in> busy_jobs (shutdown reason now s)"
    if "map_of (jy_jobs s) i = Some r" "\<not> terminal_status (sj_status r)" for i r
    using that by (force simp: busy_jobs_def shutdown_def dest: map_of_SomeD)
  have "sys_inv (shutdown reason now s)"
  proof (rule writes_inv[OF inv])
    show "jy_archive (shutdown reason now s) = jy_archive s" "busy_jobs s \<subseteq> busy_jobs (shutdown reason now s)"
      by (auto simp: shutdown_def busy_jobs_def)
    fix i new assume "map_of (jy_jobs (shutdown reason now s)) i = Some new"
    then show "(\<exists>r. map_of (jy_jobs s) i = Some r \<and> allowed r new \<and> (new = r \<or> i \<in> busy_jobs (shutdown reason now s)))
      \<or> (sj_id new = i \<and> legal_id i \<and> (case blob_load (jy_archive s) i of None \<Rightarrow> i \<in> busy_jobs (shutdown reason now s) | Some r \<Rightarrow> new = r))"
      using asked by (auto simp: jobs allowed_refl allowed_fail split: if_splits)
  qed
  moreover have "memory_final s (shutdown reason now s)"
    by (auto simp: memory_final_def jobs root_ended_def)
  ultimately show ?thesis by (simp add: step_ok_def archive_final_refl shutdown_def)
qed

lemma do_save_ok:
  assumes inv: "sys_inv s" and s': "do_save i s = Some s'"
  shows "step_ok s s'"
proof -
  let ?a = "jy_archive s"
  obtain r where r: "map_of (jy_jobs s) i = Some r" "i \<in> set (jy_unsaved s)"
    "s' = s\<lparr>jy_archive := blob_save ?a r, jy_unsaved := remove1 i (jy_unsaved s)\<rparr>"
    using s' by (auto simp: do_save_def split: option.splits if_splits)
  have id: "sj_id r = i" and l: "legal_id i" using sys_invD[OF inv r(1)] by simp_all
  have ok: "archive_ok ?a" using inv by (rule sys_inv_archive)
  have kept: "keep_result (blob_load ?a i) r = r"
    using sys_invD(4)[OF inv r(1)] by (auto simp: keep_result_def agrees_def split: option.split)
  have load: "blob_load (blob_save ?a r) j = (if j = i then Some r else blob_load ?a j)" if "legal_id j" for j
    using blob.load_save[OF archive_okD(1)[OF ok], of r j] that l by (simp add: id kept)
  have busy: "j \<in> busy_jobs s'" if "j \<in> busy_jobs s" "j \<noteq> i" for j
    using that r(3) by (auto simp: busy_jobs_def)
  have "sys_inv s'"
    unfolding sys_inv_def
  proof (intro conjI allI impI)
    show "archive_ok (jy_archive s')" using archive_ok_save[OF ok, of r] l by (simp add: r(3) id)
    fix j new assume "map_of (jy_jobs s') j = Some new"
    then have new: "map_of (jy_jobs s) j = Some new" by (simp add: r(3))
    note d = sys_invD[OF inv new]
    show "sj_id new = j" "legal_id j" using d by simp_all
    show "blob_load (jy_archive s') j = Some new" if "j \<notin> busy_jobs s'"
      using d(3) busy[of j] that new r(1) load[OF d(2)] by (cases "j = i") (auto simp: r(3))
    show "agrees new r'" if "blob_load (jy_archive s') j = Some r'" for r'
      using that d(4)[of r'] new r(1) load[OF d(2)] by (cases "j = i") (auto simp: r(3) agrees_refl)
  qed
  moreover have "archive_final ?a (jy_archive s')"
    unfolding archive_final_def
  proof (intro allI impI)
    fix j r0 assume j: "legal_id j" "blob_load ?a j = Some r0" "root_ended r0"
    show "\<exists>r'. blob_load (jy_archive s') j = Some r' \<and> job_end r' = job_end r0 \<and> sj_parent r' = sj_parent r0"
    proof (cases "j = i")
      case True
      then have "agrees r r0" using sys_invD(4)[OF inv r(1)] j(2) by simp
      then show ?thesis using load[OF j(1)] True j(3) by (auto simp: r(3) agrees_def)
    next
      case False
      then show ?thesis using load[OF j(1)] j(2) by (auto simp: r(3))
    qed
  qed
  moreover have "memory_final s s'" by (auto simp: memory_final_def r(3))
  ultimately show ?thesis by (simp add: step_ok_def)
qed

lemma recover_ok:
  assumes inv: "sys_inv s"
  shows "step_ok s (recover e listed fates s)"
proof -
  obtain a res where pass: "recover_in_flight_jobs e listed fates (jy_jobs s) (jy_archive s) = (a, res)" by fastforce
  note p = pass_correct[OF sys_inv_archive[OF inv] pass]
  have s': "recover e listed fates s = s\<lparr>jy_archive := a\<rparr>" by (simp add: recover_def pass)
  have memory: "blob_load a i = blob_load (jy_archive s) i" if "map_of (jy_jobs s) i = Some r" for i r
  proof -
    have "i \<in> fst ` set (jy_jobs s)" using that by (force dest: map_of_SomeD)
    then show ?thesis using p(2)[OF sys_invD(2)[OF inv that]] by (auto simp: recovered_def split: option.splits)
  qed
  have "sys_inv (s\<lparr>jy_archive := a\<rparr>)"
    using inv p(1) memory by (simp add: sys_inv_def busy_jobs_def)
  moreover have "archive_final (jy_archive s) a"
    using p(2) by (force simp: archive_final_def recovered_def root_ended_def)
  ultimately show ?thesis by (simp add: step_ok_def s' memory_final_def)
qed

lemma restart_ok:
  assumes inv: "sys_inv s"
  shows "sys_inv (restart torn s)" "archive_final (jy_archive s) (jy_archive (restart torn s))"
proof -
  let ?a = "jy_archive s"
  have ok: "archive_ok ?a" using inv by (rule sys_inv_archive)
  have cases: "jy_archive (restart torn s) = ?a \<or> (\<exists>i n r. map_of (jy_jobs s) i = Some r \<and> jy_archive (restart torn s) = blob_save_upto n ?a r)"
    by (auto simp: restart_def split: option.split)
  have "archive_ok (jy_archive (restart torn s)) \<and> archive_final ?a (jy_archive (restart torn s))"
    using cases
  proof (elim disjE exE conjE)
    fix i n r assume r: "map_of (jy_jobs s) i = Some r" and a: "jy_archive (restart torn s) = blob_save_upto n ?a r"
    have id: "sj_id r = i" and l: "legal_id i" using sys_invD[OF inv r] by simp_all
    have own: "results_owned ?a" using ok by (simp add: archive_ok_def blob_valid_def)
    have "\<exists>r'. blob_load (blob_save_upto n ?a r) j = Some r' \<and> job_end r' = job_end r0 \<and> sj_parent r' = sj_parent r0"
      if j: "legal_id j" "blob_load ?a j = Some r0" "root_ended r0" for j r0
    proof (cases "j = i")
      case True
      have agree: "agrees r r0" using sys_invD(4)[OF inv r] j(2) True by simp
      have lr: "legal_id (sj_id r)" by (simp add: id l)
      from own lr show ?thesis
      proof (cases rule: cut_own[of ?a r n])
        case 1
        then show ?thesis using j(2) by simp
      next
        case (2 r')
        have "sj_result r' = sj_result r0" using 2(3) agree j True by (auto simp: id agrees_def job_end_def)
        then have "job_end r' = job_end r0 \<and> sj_parent r' = sj_parent r0"
          using core_id[OF 2(2)] agree j(3) by (simp add: agrees_def job_end_def)
        then show ?thesis using 2(1) True id by blast
      qed
    next
      case False
      then show ?thesis using cut_other(1)[of r j n ?a] j id l by simp
    qed
    then show ?thesis using cut_ok[OF ok, of r n] id l by (simp add: a archive_final_def)
  qed (simp add: ok archive_final_refl)
  then show "sys_inv (restart torn s)" "archive_final ?a (jy_archive (restart torn s))"
    by (simp_all add: sys_inv_def restart_def)
qed

lemma do_event_ok:
  assumes "sys_inv s" "do_event ev s = Some s'"
  shows "sys_inv s' \<and> archive_final (jy_archive s) (jy_archive s') \<and> ((\<forall>torn. ev \<noteq> Restart torn) \<longrightarrow> memory_final s s')"
proof (cases "\<exists>torn. ev = Restart torn")
  case True
  then show ?thesis using assms restart_ok[OF assms(1)] by auto
next
  case False
  then have "step_ok s s'"
    using assms
    by (cases ev) (auto split: if_splits intro: submit_job_ok submit_child_ok fail_parent_ok child_timeout_ok run_start_ok
        run_answered_ok run_cancelled_ok run_raised_ok run_end_ok loop_open_ok loop_write_ok cancel_record_ok cancel_child_ok
        cancel_child_refused_ok note_progress_ok read_job_ok do_save_ok shutdown_ok recover_ok)
  then show ?thesis by (simp add: step_ok_def)
qed

lemma memory_final_refl: "memory_final s s"
  by (simp add: memory_final_def)

lemma do_events_ok:
  "sys_inv s \<Longrightarrow> job_events evs s = Some s' \<Longrightarrow>
     sys_inv s' \<and> archive_final (jy_archive s) (jy_archive s') \<and> ((\<forall>torn. Restart torn \<notin> set evs) \<longrightarrow> memory_final s s')"
proof (induction evs arbitrary: s)
  case Nil
  then show ?case by (simp add: archive_final_refl memory_final_refl)
next
  case (Cons ev evs)
  obtain t where t: "do_event ev s = Some t" "job_events evs t = Some s'"
    using Cons.prems(2) by (auto split: option.splits)
  note first = do_event_ok[OF Cons.prems(1) t(1)]
  note rest = Cons.IH[OF conjunct1[OF first] t(2)]
  have "memory_final s s'" if "\<forall>torn. Restart torn \<notin> set (ev # evs)"
    using first rest that memory_final_trans[of s t s'] by auto
  then show ?case using first rest archive_final_trans by blast
qed

lemma sys_inv_init: "sys_inv (job_sys_init prefix)"
  using archive_ok_init[of prefix] by (simp add: sys_inv_def job_sys_init_def blob_init_def)

end
