(* ===== verification/Job_Lifecycle_Props.thy ===== *)
theory Job_Lifecycle_Props
  imports Job_Lifecycle_Inv
begin

section \<open>Job records end once and are archived\<close>

text \<open>
  The property of the whole system of events, the composition of \<open>cancel_job\<close> from its events, and two
  runs that show its limits: the status of a child job can be overwritten, and a restart in the middle
  of a save can leave a completed job without its result.
\<close>

text \<open>C16. Job records under any interleaving of submissions, runs, cancellations, progress requests, shutdown,
  saves, restarts (a save cut off anywhere) and recovery. A record in memory that has no save pending
  and no run is exactly the archived one. A top-level job that is archived as completed, failed or
  cancelled keeps its status, error, finishing time and result in the archive whatever follows; and as
  long as the process lives, so does one that ended in memory, saved or not.\<close>

theorem job_records_final:
  assumes "job_events evs (job_sys_init prefix) = Some s" "job_events later s = Some s'"
  shows "(\<forall>i r. map_of (jy_jobs s) i = Some r \<longrightarrow> i \<notin> set (jy_unsaved s) \<longrightarrow> i \<notin> fst ` set (jy_runs s) \<longrightarrow>
        blob_load (jy_archive s) i = Some r)
    \<and> (\<forall>i r. legal_id i \<longrightarrow> blob_load (jy_archive s) i = Some r \<longrightarrow> terminal_status (sj_status r) \<longrightarrow> sj_parent r = None \<longrightarrow>
        (\<exists>r'. blob_load (jy_archive s') i = Some r' \<and> job_end r' = job_end r))
    \<and> ((\<forall>torn. Restart torn \<notin> set later) \<longrightarrow>
        (\<forall>i r. map_of (jy_jobs s) i = Some r \<longrightarrow> terminal_status (sj_status r) \<longrightarrow> sj_parent r = None \<longrightarrow>
          (\<exists>r'. map_of (jy_jobs s') i = Some r' \<and> job_end r' = job_end r)))"
proof -
  have inv: "sys_inv s" using do_events_ok[OF sys_inv_init assms(1)] by blast
  note final = do_events_ok[OF inv assms(2)]
  have "blob_load (jy_archive s) i = Some r"
    if "map_of (jy_jobs s) i = Some r" "i \<notin> set (jy_unsaved s)" "i \<notin> fst ` set (jy_runs s)" for i r
    using sys_invD(3)[OF inv that(1)] that(2,3) by (simp add: busy_jobs_def)
  moreover have "\<exists>r'. blob_load (jy_archive s') i = Some r' \<and> job_end r' = job_end r"
    if "legal_id i" "blob_load (jy_archive s) i = Some r" "terminal_status (sj_status r)" "sj_parent r = None" for i r
    using final that unfolding archive_final_def root_ended_def by blast
  moreover have "\<exists>r'. map_of (jy_jobs s') i = Some r' \<and> job_end r' = job_end r"
    if "\<forall>torn. Restart torn \<notin> set later" "map_of (jy_jobs s) i = Some r" "terminal_status (sj_status r)" "sj_parent r = None" for i r
    using final that unfolding memory_final_def root_ended_def by blast
  ultimately show ?thesis by blast
qed

subsection \<open>A run\<close>

definition demo_answer :: run_answer where
  "demo_answer = \<lparr>ra_result = JInt 1, ra_failed = False, ra_summary = None, ra_rest = JNull, ra_seconds = (None, None, None)\<rparr>"

definition demo_life :: "job_event list" where
  "demo_life = [Submit (demo_stored ''a'' JobPending None), DoSave ''a'', RunStart ''a'' 8, DoSave ''a'',
     RunAnswered ''a'' demo_answer 9, RunEnd ''a'' JNull [], DoSave ''a'', DoSave ''a'']"

definition demo_later :: "job_event list" where
  "demo_later = [Restart None, Recover \<lparr>re_reason = ''restart'', re_now = 10, re_before = None\<rparr> True
       (\<lambda>_. \<lparr>ft_loads = True, ft_rebuilds = True, ft_writes = None\<rparr>), ReadJob ''a'', Shutdown ''bye'' 11]"

definition seen :: "string \<Rightarrow> job_sys \<Rightarrow> (job_status \<times> string option \<times> int option \<times> json option) option \<times> string list" where
  "seen i s = (map_option job_end (blob_load (jy_archive s) i), jy_unsaved s)"

lemma demo_life_runs:
  "map_option (seen ''a'') (job_events demo_life (job_sys_init ''p''))
     = Some (Some (JobCompleted, None, Some 9, Some (JInt 1)), [])"
  "map_option (\<lambda>s. map_option (\<lambda>r. (sj_parent r, sj_status r)) (blob_load (jy_archive s) ''a'')) (job_events demo_life (job_sys_init ''p''))
     = Some (Some (None, JobCompleted))"
  "job_events demo_later (the (job_events demo_life (job_sys_init ''p''))) \<noteq> None"
  by code_simp+

theorem job_records_final_witness:
  "\<exists>s s' r. job_events demo_life (job_sys_init ''p'') = Some s \<and> job_events demo_later s = Some s'
    \<and> blob_load (jy_archive s') ''a'' = Some r \<and> job_end r = (JobCompleted, None, Some 9, Some (JInt 1))"
proof -
  obtain s where s: "job_events demo_life (job_sys_init ''p'') = Some s" and last: "seen ''a'' s = (Some (JobCompleted, None, Some 9, Some (JInt 1)), [])"
    using demo_life_runs(1) by auto
  obtain s' where s': "job_events demo_later s = Some s'" using demo_life_runs(3) s by auto
  obtain r where r: "blob_load (jy_archive s) ''a'' = Some r" "job_end r = (JobCompleted, None, Some 9, Some (JInt 1))"
    using last by (auto simp: seen_def)
  have "sj_parent r = None" "sj_status r = JobCompleted" using demo_life_runs(2) s r(1) by simp_all
  then have "terminal_status (sj_status r)" "sj_parent r = None" by (simp_all add: terminal_status_def)
  then obtain r' where "blob_load (jy_archive s') ''a'' = Some r'" "job_end r' = job_end r"
    using job_records_final[OF s s'] demo_legal(1) r(1) by blast
  then show ?thesis using s s' r(2) by auto
qed

subsection \<open>The cancel handler\<close>

lemma job_events_append: "job_events (xs @ ys) s = (case job_events xs s of None \<Rightarrow> None | Some t \<Rightarrow> job_events ys t)"
  by (induction xs arbitrary: s) (auto split: option.split)

lemma cancel_child_in_turn_events: "\<exists>evs. job_events evs s = Some (cancel_child_in_turn now refused c s)"
proof -
  have one: "job_events [CancelChild now c] s = Some (cancel_child now c s)" by simp
  have none: "job_events [] s = Some s" by simp
  show ?thesis
  proof (cases "parent_active c s")
    case True
    show ?thesis
    proof (cases "refused c")
      case None
      then show ?thesis using True one by (metis cancel_child_in_turn_def option.simps(4))
    next
      case (Some msg)
      show ?thesis
      proof (cases "cancel_child_refused now msg c (cancel_child now c s)")
        case None
        then show ?thesis using True Some one by (intro exI[of _ "[CancelChild now c]"]) (simp add: cancel_child_in_turn_def)
      next
        case s': (Some s')
        then show ?thesis
          using True Some by (intro exI[of _ "[CancelChild now c, CancelChildRefused now msg c]"]) (simp add: cancel_child_in_turn_def)
      qed
    qed
  next
    case False
    then show ?thesis using none by (metis cancel_child_in_turn_def)
  qed
qed

text \<open>What the handler does when nothing runs in between is one run of the events, so all that holds of every
  run holds of it.\<close>

lemma cancel_job_events:
  assumes "cancel_job now refused i s = Some s'"
  shows "\<exists>evs. job_events (Cancel i now # evs) s = Some s'"
proof -
  obtain t where t: "cancel_record i now s = Some t"
    and s': "s' = fold (cancel_child_in_turn now refused) (dict_get (jy_children s) i []) t"
    using assms by (auto simp: cancel_job_def)
  have "\<exists>evs. job_events evs t = Some (fold (cancel_child_in_turn now refused) cs t)" for cs t
  proof (induction cs arbitrary: t)
    case Nil
    then show ?case by (auto intro: exI[of _ "[]"])
  next
    case (Cons c cs)
    obtain evs1 where one: "job_events evs1 t = Some (cancel_child_in_turn now refused c t)"
      using cancel_child_in_turn_events by blast
    obtain evs2 where "job_events evs2 (cancel_child_in_turn now refused c t)
        = Some (fold (cancel_child_in_turn now refused) cs (cancel_child_in_turn now refused c t))"
      using Cons.IH by blast
    then show ?case using one by (intro exI[of _ "evs1 @ evs2"]) (simp add: job_events_append)
  qed
  then show ?thesis using t s' by auto
qed

lemma cancel_job_ended: "map_of (jy_jobs s) i = Some r \<Longrightarrow> cancel_job now refused i s = None \<longleftrightarrow> terminal_status (sj_status r)"
  by (simp add: cancel_job_def cancel_record_def)

subsection \<open>Limits\<close>

definition demo_child :: stored_job where
  "demo_child = (demo_stored ''c'' JobPending None)\<lparr>sj_parent := Some ''a''\<rparr>"

text \<open>A child that completed is written as cancelled by the timeout of its round.\<close>

lemma child_end_overwritten:
  "map_option (\<lambda>s. map_option sj_status (map_of (jy_jobs s) ''c''))
     (job_events [Submit (demo_stored ''a'' JobPending None), SubmitChild ''a'' demo_child, RunStart ''c'' 8,
        RunAnswered ''c'' demo_answer 9, RunEnd ''c'' JNull []] (job_sys_init ''p'')) = Some (Some JobCompleted)"
  "map_option (\<lambda>s. map_option sj_status (map_of (jy_jobs s) ''c''))
     (job_events [Submit (demo_stored ''a'' JobPending None), SubmitChild ''a'' demo_child, RunStart ''c'' 8,
        RunAnswered ''c'' demo_answer 9, RunEnd ''c'' JNull [], ChildTimeout ''c'' None 10] (job_sys_init ''p'')) = Some (Some JobCancelled)"
  by code_simp+

text \<open>The record is written before its result: a process that stops between the two leaves a completed job
  without a result, which recovery leaves as it is.\<close>

lemma torn_save_loses_result:
  "map_option (seen ''a'')
     (job_events [Submit (demo_stored ''a'' JobPending None), DoSave ''a'', RunStart ''a'' 8, RunAnswered ''a'' demo_answer 9,
        Restart (Some (''a'', 1)), Recover \<lparr>re_reason = ''restart'', re_now = 10, re_before = None\<rparr> True
          (\<lambda>_. \<lparr>ft_loads = True, ft_rebuilds = True, ft_writes = None\<rparr>)] (job_sys_init ''p''))
     = Some (Some (JobCompleted, None, Some 9, None), [])"
  by code_simp

end
