(* ===== verification/Spec2Isabelle.thy ===== *)
theory Spec2Isabelle
  imports Halo_Bounds Optimizer_Props Topo_Optimizer Server_Reachable Dynamic_Props Job_Lifecycle_Props
begin

text \<open>
  A verification development for Lumilake's control plane, the Python package \<open>lumilake_server\<close> under
  \<open>src/src/lumilake_server\<close>; the paths below are relative to it. The server takes workflows over rows of
  inputs, cuts them into slices, queues the slices, forms batches, merges and schedules the graphs of a
  batch on workers, has them executed by the FlowMesh service, and puts the outputs of the slices together
  again. A dynamic workflow is a loop over it: a planner proposes the next subgraph, which is validated,
  run as a child job, and recorded.

  \<^bold>\<open>How the parts interact.\<close> \<open>routes/jobs.py\<close> slices a submission (\<open>Server_Slices\<close>) and hands it to
  \<open>runtime/server.py\<close>, which registers the request (\<open>Server_Requests\<close>) and queues its workflows in the job
  manager (\<open>Job_Manager\<close>). The scheduler loop (\<open>Server_Loop\<close>) takes a snapshot of the free capacity
  (\<open>Capacity\<close>), reserves a batch, which the job manager lets a policy choose (\<open>Policies\<close>, \<open>Cohort_Pack\<close>,
  \<open>Clustering\<close>, with the areas of \<open>Cost\<close>), claims workers for it, commits or aborts, and starts a run. A
  run (\<open>Server_Batch\<close>) processes its batch (\<open>Server_Process\<close>): the graphs are merged (\<open>Runtime_Graph\<close>) and
  deduplicated (\<open>Optimizer_Base\<close>), an optimizer (\<open>Halo_Optimizer\<close>, \<open>Topo_Optimizer\<close>) gives a schedule,
  which the server checks, the runtime service executes it, and the results go to the requests. Jobs are
  kept in memory and in an archive (\<open>Job_Storage\<close>), by the routes and by the tasks that run them
  (\<open>Job_Lifecycle\<close>, \<open>Job_Recovery\<close>, \<open>Dynamic_Run\<close>).
\<close>

section \<open>The theories and the code\<close>

text \<open>
  Every theory opens with the file and the functions it models. A theory named for a component holds its
  records, datatypes and operations in the code's order; \<open>_Inv\<close>, \<open>_Live\<close>, \<open>_Steps\<close>, \<open>_Laws\<close> hold the
  lemmas over them, \<open>_Props\<close> (and the last theory of each group) its properties with their witnesses.

  \<^item> Shared: \<open>Prelude\<close> (dictionaries as association lists, errors as sums, JSON values, stable sorting, the
    lemmas on them), \<open>Runtime_Graph\<close> (\<open>runtime/runtime_ops.py\<close>, \<open>runtime/runtime_graph.py\<close>), \<open>Job_Types\<close>
    (\<open>runtime/protocol.py\<close>, \<open>runtime/request.py\<close>), \<open>Topo_Sort\<close> (\<open>utils/graph.py\<close>) and \<open>Topo_Heap\<close>
    (\<open>runtime/optimizer/schedule/topo_utils.py\<close>).
  \<^item> Queueing: \<open>Capacity\<close> (\<open>runtime/capacity.py\<close>, \<open>runtime/worker_capability.py\<close>, the claims of
    \<open>runtime/server.py\<close>), \<open>Cost\<close> (\<open>runtime/job_manager/cost.py\<close>, \<open>runtime/optimizer/multimodal_cost.py\<close>),
    \<open>Clustering\<close>, \<open>Policies\<close>, \<open>Cohort_Pack\<close>, \<open>Policy_Registry\<close> (\<open>runtime/job_manager/cluster_algo\<close> and
    \<open>runtime/job_manager/policies\<close>), and \<open>Job_Manager\<close> with \<open>_Inv\<close>, \<open>_Reserve\<close>, \<open>_Run\<close>, \<open>_Props\<close>
    (\<open>runtime/job_manager/priority_queue.py\<close>). The manager's fields are those of \<open>jm_state\<close>; a call under
    its lock is one function on the state, and \<open>Job_Manager_Run\<close> is any sequence of calls.
  \<^item> Optimizers: \<open>Halo_Models\<close>, \<open>Halo_DP\<close>, \<open>Halo_DP_Solve\<close> with \<open>_Inv\<close>, \<open>_Props\<close>, \<open>_Live\<close>
    (\<open>runtime/optimizer/schedule/models.py\<close>, \<open>halo_dp.py\<close>), \<open>Halo_Optimizer\<close>, \<open>Halo_Tuning\<close>,
    \<open>Halo_Schedule\<close> with \<open>Halo_Props\<close>, \<open>Halo_Live\<close>, \<open>Halo_Bounds\<close> (\<open>runtime/optimizer/halo.py\<close>),
    \<open>Optimizer_Base\<close>, \<open>Optimizer_Props\<close> (\<open>runtime/optimizer/base.py\<close>) and \<open>Topo_Optimizer\<close>
    (\<open>topological_sort.py\<close>, and the schedule check of \<open>runtime/server.py\<close>). A done mask of the solver is
    the integer of the code, its members are the bits.
  \<^item> Server (\<open>runtime/server.py\<close>): \<open>Server_Slices\<close> (also \<open>routes/jobs.py\<close>), \<open>Server_Requests\<close>,
    \<open>Server_Process\<close>, \<open>Server_Batch\<close>, \<open>Server_Loop\<close>; the lemmas are in \<open>Server_Merge\<close>, \<open>Server_Answers\<close>,
    \<open>Server_Roundtrip\<close>, \<open>Server_Frame\<close>, \<open>Server_Batch_Props\<close>, \<open>Server_Run\<close>, \<open>Server_Accounts\<close>,
    \<open>Server_Isolation\<close>, \<open>Server_Loop_Inv\<close>, \<open>Server_Loop_Steps\<close>, \<open>Server_System\<close>, \<open>Server_Reachable\<close>.
    \<open>request_state\<close> is \<open>RequestState\<close>, \<open>request_table\<close> the dictionary of requests with the log of
    responses; \<open>world\<close> adds the busy workers, the job manager, the plan cache and the executions under
    way, and \<open>server\<close> the stage of the scheduler loop and the batches in flight.
  \<^item> Job records: \<open>Job_Status\<close>, \<open>Job_Storage\<close> with \<open>_Laws\<close>, \<open>_Blobs\<close>, \<open>_Props\<close>
    (\<open>utils/job_storage.py\<close>: \<open>mem_store\<close>, \<open>blob_store\<close> and \<open>sql_store\<close> are the three backends),
    \<open>Job_Recovery\<close> and \<open>Job_Lifecycle\<close> with \<open>_Inv\<close> and \<open>_Props\<close> (\<open>routes/jobs.py\<close>: \<open>job_sys\<close> is the
    records in memory, the archive, the saves under way and the tasks).
  \<^item> Dynamic workflows: \<open>Dynamic_Values\<close>, \<open>Dynamic_Subgraph\<close>, \<open>Dynamic_Forward\<close>, \<open>Dynamic_Plan\<close>
    (\<open>dynamic/driver.py\<close>) with \<open>Dynamic_Binding\<close>, \<open>Dynamic_Admission\<close>, \<open>Dynamic_Closure\<close>; \<open>Dynamic_Run\<close>
    (\<open>_run_dynamic_job\<close> of \<open>routes/jobs.py\<close>) with \<open>_Inv\<close>, \<open>_Steps\<close>, and \<open>Dynamic_Props\<close>. \<open>dyn_vars\<close> is the
    loop's locals, \<open>job_record\<close> the fields of the record it touches, \<open>dyn_run\<close> both with the phase.

  Locales state what one part relies on in another: \<open>scheduling_policy\<close> and \<open>sorting_policy\<close> (every policy
  is an interpretation), \<open>schedule_contract\<close> (both optimizers), \<open>job_store\<close> and \<open>job_archive\<close> (all three
  backends).
\<close>

section \<open>What is shown\<close>

text \<open>
  The numbers are those of the properties.

  \<^item> Graphs: \<open>topological_sort\<close> orders a graph or reports a cycle exactly when there is one (C1).
  \<^item> Capacity and cost: an eligible group of workers is found exactly when there is one (C5), no worker is
    ever claimed twice (C7); an area is the longest dependency path times the greatest fraction of a
    worker that the request claims (C8).
  \<^item> Batches: affinity clustering keeps the pinned items and is never worse than the greedy batch (C9);
    cohort units partition the ready rounds (C13), nothing waits beyond the patience (C14), and without
    fixed and mixing costs a batch stays pure (C15).
  \<^item> Job manager: the round robin (C17); what a reservation holds, when there is none, which errors there
    are, and that starved items lead (C18 to C21); commit and abort (C22, C23); and over all sequences of
    calls: nothing is dispatched twice (C25), nothing is lost (C26), the dwell of unsatisfiable
    partitions is exact (C27).
  \<^item> Optimizers: the DP search ends (C28), its schedules are valid (C29), optimal without pruning (C30) and
    exist on acyclic graphs (C31); the same of HALO as a whole (C32, C33) with the ranges of its tuning
    (C34); every built-in optimizer meets the server's check (C35); deduplication is a quotient (C36).
  \<^item> Server: recording a batch answers exactly the requests it completes (C37), the slices of a submission
    are put together to the outputs of the whole (C38), a run of a batch settles everything whatever its
    environment does (C39), and in every reachable state no request is lost, no workers are shared and an
    answer is given exactly when nothing is pending (C40).
  \<^item> Job records: the three archives agree (C6), recovery completes (C10), and the end of a top-level job
    stays under every interleaving of submissions, runs, cancellations, saves, restarts and recovery (C16).
  \<^item> Dynamic workflows: a run ends (C2), its validation accepts exactly the well-formed rounds (C3), a
    terminal record stays, but for the opening progress of a run that has only just started (C4), a
    template cannot be overridden (C11), a forwarded round is closed and aligned with its rows (C12), and
    the registry of a run stays acyclic, bounded and closed (C24).

  Where the code falls short of what it means to do, the theorem says what it does and a lemma beside it
  shows the case: for instance \<open>opening_progress_after_cancel\<close>, \<open>shared_labels_merged\<close>,
  \<open>nested_reference_refused\<close>, \<open>empty_statuses_differ\<close>, \<open>sql_reservation_race\<close>, \<open>read_job_not_recovered\<close>.
\<close>

section \<open>Bounds, parameters and what is left out\<close>

text \<open>
  \<^bold>\<open>Loops.\<close> All loops are structural recursions or functions with a termination proof, except the
  memoised search of the DP solver: it takes the fuel \<open>dp_fuel\<close>, two more than the number of nodes, since
  each recursion finishes a node and there is one retry without pruning; C28 proves that it never runs
  out. A dynamic run takes at most \<open>2 * max_rounds + 5\<close> steps (C2).

  \<^bold>\<open>Numbers and texts.\<close> Floats are real numbers; strings are ASCII; integers are unbounded, as in Python. A
  set whose iteration order the code leaves open is a list in any order.

  \<^bold>\<open>Parameters\<close> stand for code outside the source or outside this process, as arguments of the definitions
  that use them: the runtime graph built from a group of slices, the data profile, the answer of the
  optimizer process and of the runtime service, cancellations that are polled (\<open>run_env\<close>); capacity
  snapshots, which may be as stale as they like; fresh ids; the template hash; the JSON codec, the YAML
  parser behind a round and behind the check of declared inputs; the reading of a number by pydantic; the
  cost functions given to the solver; the fate of each call to an archive.

  \<^bold>\<open>Atomicity.\<close> A call under a lock is one step. A run of a batch is one step of the server, taken when it
  ends: other coroutines do not touch the requests' counts of its batch while it waits. In
  \<open>Job_Lifecycle\<close> and \<open>Dynamic_Run\<close> an event is what one task does between two awaits, so cancellations,
  shutdown and saves come between any two of them.

  \<^bold>\<open>Not modelled.\<close> The HTTP routes beyond slicing, dynamic runs, the life of a record and recovery (request
  decoding, authentication, responses); the parsers of n8n and YAML documents, the graph DSL and its
  operators, and the builder of runtime graphs (translations into data that is carried but not inspected
  here); the FlowMesh manager and client beyond the walk of output paths, the data client and the
  execution of user code (clients of external systems); in \<open>runtime/server.py\<close> start and close, the
  optimizer subprocess, coalescing, relocation of artifacts and the merging of status reports; application
  assembly, API schemas, and the client packages. Logging, timing and metrics have no counterpart.
\<close>

end
